(* ===== verification/FZ_Prelude.thy ===== *)
theory FZ_Prelude
  imports Main "HOL-Library.Char_ord" "HOL-Library.List_Lexorder" "HOL-Library.Option_ord"
    "HOL-Library.Code_Target_Numeral"
begin

text \<open>
  The vocabulary shared by every component: \<open>std::wstring\<close> as a list of
  code units, its search and slicing members with \<open>npos\<close> as \<^term>\<open>None\<close>,
  decimal numbers as text, and the proof collections.  Code units are the
  256 values of \<^typ>\<open>char\<close>; no modelled function treats a unit above
  255 differently from the ones below, except for the single MVS quotation
  mark 0xDC, which is one of them.
\<close>

type_synonym wstring = string

named_theorems path_defs \<open>definitions a proof about server paths unfolds\<close>
named_theorems canon_intros \<open>introduction rules for canonical segment lists\<close>
named_theorems cache_simps \<open>rewrite rules for the caches\<close>

subsection \<open>Searching in strings\<close>

text \<open>\<open>find_idx P s\<close> is the position of the first unit that satisfies \<open>P\<close>
  (\<open>find\<close>, \<open>find_first_of\<close>), \<open>rfind_idx P s\<close> that of the last one
  (\<open>rfind\<close>, \<open>find_last_of\<close>).\<close>

fun find_idx :: "('a \<Rightarrow> bool) \<Rightarrow> 'a list \<Rightarrow> nat option" where
  "find_idx P [] = None"
| "find_idx P (x # xs) = (if P x then Some 0 else map_option Suc (find_idx P xs))"

fun rfind_idx :: "('a \<Rightarrow> bool) \<Rightarrow> 'a list \<Rightarrow> nat option" where
  "rfind_idx P [] = None"
| "rfind_idx P (x # xs) =
     (case rfind_idx P xs of
        Some i \<Rightarrow> Some (Suc i)
      | None \<Rightarrow> if P x then Some 0 else None)"

text \<open>\<open>find_sub pat s\<close>: the first position at which \<open>pat\<close> occurs in \<open>s\<close>.\<close>

fun find_sub :: "'a list \<Rightarrow> 'a list \<Rightarrow> nat option" where
  "find_sub pat [] = (if pat = [] then Some 0 else None)"
| "find_sub pat (x # xs) =
     (if take (length pat) (x # xs) = pat then Some 0 else map_option Suc (find_sub pat xs))"

lemma find_idx_None [simp]: "find_idx P xs = None \<longleftrightarrow> (\<forall>x \<in> set xs. \<not> P x)"
  by (induction xs) auto

lemma find_idx_Some:
  "find_idx P xs = Some i \<Longrightarrow> i < length xs \<and> P (xs ! i) \<and> (\<forall>x \<in> set (take i xs). \<not> P x)"
  by (induction xs arbitrary: i) (auto split: if_splits)

lemma find_idx_less: "find_idx P xs = Some i \<Longrightarrow> i < length xs"
  and find_idx_hit: "find_idx P xs = Some i \<Longrightarrow> P (xs ! i)"
  and find_idx_clean: "find_idx P xs = Some i \<Longrightarrow> x \<in> set (take i xs) \<Longrightarrow> \<not> P x"
  using find_idx_Some by fast+

lemma find_idx_append_hit [simp]:
  "\<forall>x \<in> set xs. \<not> P x \<Longrightarrow> P y \<Longrightarrow> find_idx P (xs @ y # ys) = Some (length xs)"
  by (induction xs) auto

lemma rfind_idx_None [simp]: "rfind_idx P xs = None \<longleftrightarrow> (\<forall>x \<in> set xs. \<not> P x)"
  by (induction xs) (auto split: option.splits)

lemma rfind_idx_Some:
  "rfind_idx P xs = Some i \<Longrightarrow> i < length xs \<and> P (xs ! i) \<and> (\<forall>x \<in> set (drop (Suc i) xs). \<not> P x)"
  by (induction xs arbitrary: i) (auto split: option.splits if_splits)

lemma rfind_idx_snoc [simp]: "P y \<Longrightarrow> rfind_idx P (xs @ [y]) = Some (length xs)"
  by (induction xs) auto

lemma rfind_idx_append_clean [simp]:
  assumes "P y" and "\<forall>x \<in> set ys. \<not> P x"
  shows "rfind_idx P (xs @ y # ys) = Some (length xs)"
proof -
  from assms(2) have "rfind_idx P ys = None" by simp
  then have "rfind_idx P (y # ys) = Some 0" using assms(1)
    by (simp del: rfind_idx_None)
  then show ?thesis by (induction xs) (simp_all del: rfind_idx_None)
qed

subsection \<open>Other string members\<close>

text \<open>\<open>at0 s i\<close> reads \<open>s[i]\<close>; at \<open>i = size()\<close> the C++ string yields the
  terminating zero unit.\<close>

definition nul :: char where
  "nul = CHR 0x00"

definition at0 :: "wstring \<Rightarrow> nat \<Rightarrow> char" where
  "at0 s i = (if i < length s then s ! i else nul)"

definition back_is :: "wstring \<Rightarrow> char \<Rightarrow> bool" where
  "back_is s c \<longleftrightarrow> s \<noteq> [] \<and> last s = c"

lemma at0_Cons [simp]: "at0 (c # s) 0 = c" "at0 (c # s) (Suc n) = at0 s n"
  by (simp_all add: at0_def)

lemma at0_Nil [simp]: "at0 [] n = nul"
  by (simp add: at0_def)

lemma back_is_Nil [simp]: "\<not> back_is [] c"
  by (simp add: back_is_def)

lemma back_is_snoc [simp]: "back_is (s @ [d]) c \<longleftrightarrow> d = c"
  by (auto simp: back_is_def)

text \<open>\<open>c_str s\<close>: what a reader of the zero-terminated \<open>s.c_str()\<close> sees.\<close>

definition c_str :: "wstring \<Rightarrow> wstring" where
  "c_str s = takeWhile (\<lambda>c. c \<noteq> nul) s"

definition nul_free :: "wstring \<Rightarrow> bool" where
  "nul_free s \<longleftrightarrow> nul \<notin> set s"

lemma c_str_nul_free [simp]: "nul_free s \<Longrightarrow> c_str s = s"
  unfolding c_str_def nul_free_def by (rule takeWhile_eq_all_conv [THEN iffD2]) auto

text \<open>The sign that \<open>std::wstring::compare\<close> and \<open>wcscmp\<close> return.\<close>

definition str_compare :: "wstring \<Rightarrow> wstring \<Rightarrow> int" where
  "str_compare a b = (if a < b then -1 else if b < a then 1 else 0)"

lemma str_compare_zero [simp]: "str_compare a b = 0 \<longleftrightarrow> a = b"
  by (auto simp: str_compare_def)

lemma str_compare_swap: "str_compare b a = - str_compare a b"
  by (auto simp: str_compare_def)

subsection \<open>Joining segments\<close>

fun join :: "'a list \<Rightarrow> 'a list list \<Rightarrow> 'a list" where
  "join sep [] = []"
| "join sep [x] = x"
| "join sep (x # y # zs) = x @ sep @ join sep (y # zs)"

lemma join_Cons: "xs \<noteq> [] \<Longrightarrow> join sep (x # xs) = x @ sep @ join sep xs"
  by (cases xs) auto

lemma join_snoc: "xs \<noteq> [] \<Longrightarrow> join sep (xs @ [x]) = join sep xs @ sep @ x"
proof (induction xs)
  case (Cons y ys)
  then show ?case by (cases ys) (auto simp: join_Cons)
qed simp

lemma join_empty_iff: "\<forall>x \<in> set xs. x \<noteq> [] \<Longrightarrow> join sep xs = [] \<longleftrightarrow> xs = []"
proof (cases xs)
  case (Cons y ys)
  then show "\<forall>x \<in> set xs. x \<noteq> [] \<Longrightarrow> join sep xs = [] \<longleftrightarrow> xs = []"
    by (cases ys) auto
qed simp

subsection \<open>Decimal numbers as text\<close>

definition is_digit :: "char \<Rightarrow> bool" where
  "is_digit c \<longleftrightarrow> CHR ''0'' \<le> c \<and> c \<le> CHR ''9''"

definition digit_val :: "char \<Rightarrow> nat" where
  "digit_val c = of_char c - 48"

definition digit_char :: "nat \<Rightarrow> char" where
  "digit_char d = char_of (48 + d)"

fun show_nat :: "nat \<Rightarrow> string" where
  "show_nat n = (if n < 10 then [digit_char n] else show_nat (n div 10) @ [digit_char (n mod 10)])"

declare show_nat.simps [simp del]

fun num_value :: "nat \<Rightarrow> string \<Rightarrow> nat" where
  "num_value acc [] = acc"
| "num_value acc (c # cs) = num_value (acc * 10 + digit_val c) cs"

lemma is_digit_code: "is_digit c \<longleftrightarrow> 48 \<le> (of_char c :: nat) \<and> (of_char c :: nat) \<le> 57"
  by (simp add: is_digit_def less_eq_char_def)

lemma of_digit_char: "d < 10 \<Longrightarrow> (of_char (digit_char d) :: nat) = 48 + d"
  by (simp add: digit_char_def)

lemma is_digit_digit_char [simp]: "d < 10 \<Longrightarrow> is_digit (digit_char d)"
  by (simp add: is_digit_code of_digit_char)

lemma digit_val_digit_char [simp]: "d < 10 \<Longrightarrow> digit_val (digit_char d) = d"
  by (simp add: digit_val_def of_digit_char)

lemma show_nat_nonempty [simp]: "show_nat n \<noteq> []"
  by (subst show_nat.simps) simp

lemma show_nat_digits: "\<forall>c \<in> set (show_nat n). is_digit c"
proof (induction n rule: show_nat.induct)
  case (1 n)
  then show ?case by (subst show_nat.simps) (auto simp: show_nat.simps [of n])
qed

lemma num_value_append: "num_value acc (xs @ ys) = num_value (num_value acc xs) ys"
  by (induction xs arbitrary: acc) auto

lemma num_value_show: "num_value 0 (show_nat n) = n"
proof (induction n rule: show_nat.induct)
  case (1 n)
  then show ?case
    by (cases "n < 10") (simp_all add: show_nat.simps [of n] num_value_append)
qed

lemma length_show_nat: "n < 10 ^ Suc k \<Longrightarrow> length (show_nat n) \<le> Suc k"
proof (induction k arbitrary: n)
  case (Suc k)
  show ?case
  proof (cases "n < 10")
    case False
    have "n div 10 < 10 ^ Suc k" using Suc.prems by (simp add: less_mult_imp_div_less)
    then show ?thesis using Suc.IH False by (subst show_nat.simps) simp
  qed (subst show_nat.simps, simp)
qed (subst show_nat.simps, simp)

lemma num_value_mono: "acc \<le> num_value acc cs"
proof (induction cs arbitrary: acc)
  case (Cons c cs)
  have "acc \<le> acc * 10 + digit_val c" by simp
  also have "\<dots> \<le> num_value (acc * 10 + digit_val c) cs" by (rule Cons.IH)
  finally show ?case by simp
qed simp

lemma num_value_prefix_le: "num_value acc xs \<le> num_value acc (xs @ ys)"
  by (simp add: num_value_append num_value_mono)

lemma is_digit_not_space [simp]: "is_digit c \<Longrightarrow> c \<noteq> CHR '' ''"
  by (auto simp: is_digit_code)

lemma is_digit_not_nul [simp]: "is_digit c \<Longrightarrow> c \<noteq> nul"
  by (auto simp: is_digit_code nul_def)

end
