(* ===== verification/FZ_Lib.thy ===== *)
theory FZ_Lib
  imports FZ_Prelude
begin

text \<open>
  libfilezilla is not part of the repository: the functions of it that the
  modelled code calls are fields of the record \<open>libfz\<close>, and every
  definition that calls one takes the record as an argument.  A law below states
  what the library documents about one function; a theorem that needs it names
  it as a hypothesis.  \<open>libfz_std\<close> is a concrete instance on which every law
  holds, so that the hypotheses can be discharged together.
  The library's smart containers (\<open>sparse_optional\<close>, \<open>shared_optional\<close>,
  \<open>shared_value\<close>) have value semantics and are HOL options and values.
\<close>

record libfz =
  fz_stricmp :: "wstring \<Rightarrow> wstring \<Rightarrow> int"
  fz_replace_substrings :: "wstring \<Rightarrow> wstring \<Rightarrow> wstring \<Rightarrow> wstring"
  fz_strtokenizer :: "string \<Rightarrow> string \<Rightarrow> bool \<Rightarrow> string list"
  fz_to_integral_u64 :: "string \<Rightarrow> nat option"
  fz_str_tolower :: "wstring \<Rightarrow> wstring"
  multimap_pick :: "nat list \<Rightarrow> nat"

text \<open>The last field is the one choice of the C++ standard library that the code meets and
  the standard leaves open: which of several equal keys \<open>std::unordered_multimap::find\<close>
  returns.\<close>

subsection \<open>Laws\<close>

text \<open>\<open>fz::stricmp\<close> is a case-insensitive comparison: being equal under it is an
  equivalence relation.\<close>

definition stricmp_law :: "libfz \<Rightarrow> bool" where
  "stricmp_law L \<longleftrightarrow>
     (\<forall>a. fz_stricmp L a a = 0) \<and>
     (\<forall>a b. fz_stricmp L a b = 0 \<longrightarrow> fz_stricmp L b a = 0) \<and>
     (\<forall>a b c. fz_stricmp L a b = 0 \<longrightarrow> fz_stricmp L b c = 0 \<longrightarrow> fz_stricmp L a c = 0)"

text \<open>\<open>fz::replace_substrings\<close> replaces every occurrence of the needle; for a
  needle of one unit that is unit by unit.\<close>

definition replace_char :: "char \<Rightarrow> wstring \<Rightarrow> wstring \<Rightarrow> wstring" where
  "replace_char c r s = concat (map (\<lambda>x. if x = c then r else [x]) s)"

definition replace_law :: "libfz \<Rightarrow> bool" where
  "replace_law L \<longleftrightarrow> (\<forall>s c r. fz_replace_substrings L s [c] r = replace_char c r s)"

text \<open>\<open>fz::strtokenizer\<close> splits at the delimiter characters; the flag drops empty
  tokens.  \<open>split_at ds s\<close> is the list of all tokens, the empty ones included.\<close>

fun split_at :: "char set \<Rightarrow> string \<Rightarrow> string list" where
  "split_at ds [] = [[]]"
| "split_at ds (c # cs) =
     (if c \<in> ds then [] # split_at ds cs
      else (case split_at ds cs of [] \<Rightarrow> [[c]] | t # ts \<Rightarrow> (c # t) # ts))"

lemma split_at_clean: "\<forall>c \<in> set s. c \<notin> ds \<Longrightarrow> split_at ds s = [s]"
  by (induction s) auto

lemma split_at_join_step: "\<forall>c \<in> set s. c \<notin> ds \<Longrightarrow> d \<in> ds \<Longrightarrow> split_at ds (s @ d # r) = s # split_at ds r"
  by (induction s) auto

lemma split_at_nonempty [simp]: "split_at ds s \<noteq> []"
  by (cases s) (auto split: list.split)

lemma split_at_append: "d \<in> ds \<Longrightarrow> split_at ds (s @ d # r) = split_at ds s @ split_at ds r"
proof (induction s)
  case (Cons c s)
  then show ?case by (cases "split_at ds s") auto
qed simp

definition tokenizer_law :: "libfz \<Rightarrow> bool" where
  "tokenizer_law L \<longleftrightarrow>
     (\<forall>s ds. fz_strtokenizer L s ds True = filter (\<lambda>t. t \<noteq> []) (split_at (set ds) s))"

text \<open>With the flag off the empty tokens stay; whether the empty text has one token or none
  is left open.\<close>

definition tokenizer_all_law :: "libfz \<Rightarrow> bool" where
  "tokenizer_all_law L \<longleftrightarrow>
     (\<forall>s ds. s \<noteq> [] \<longrightarrow> fz_strtokenizer L s ds False = split_at (set ds) s) \<and>
     (\<forall>ds. fz_strtokenizer L [] ds False = [] \<or> fz_strtokenizer L [] ds False = [[]])"

text \<open>\<open>fz::to_integral<uint64_t>\<close> reads the decimal text of every 64-bit number back;
  the model gives the error value as \<^term>\<open>None\<close>.\<close>

definition to_integral_law :: "libfz \<Rightarrow> bool" where
  "to_integral_law L \<longleftrightarrow> (\<forall>n < 2 ^ 64. fz_to_integral_u64 L (show_nat n) = Some n)"

text \<open>\<open>std::unordered_multimap::find\<close> returns one of the elements with the key.\<close>

definition multimap_law :: "libfz \<Rightarrow> bool" where
  "multimap_law L \<longleftrightarrow> (\<forall>xs. xs \<noteq> [] \<longrightarrow> multimap_pick L xs \<in> set xs)"

subsection \<open>A concrete instance\<close>

definition ascii_lower :: "char \<Rightarrow> char" where
  "ascii_lower c = (if CHR ''A'' \<le> c \<and> c \<le> CHR ''Z'' then char_of ((of_char c :: nat) + 32) else c)"

definition std_to_integral :: "string \<Rightarrow> nat option" where
  "std_to_integral s =
     (if s \<noteq> [] \<and> (\<forall>c \<in> set s. is_digit c) \<and> num_value 0 s < 2 ^ 64
      then Some (num_value 0 s) else None)"

definition libfz_std :: libfz where
  "libfz_std = \<lparr>
     fz_stricmp = (\<lambda>a b. str_compare (map ascii_lower a) (map ascii_lower b)),
     fz_replace_substrings = (\<lambda>s f r. case f of [c] \<Rightarrow> replace_char c r s | _ \<Rightarrow> s),
     fz_strtokenizer = (\<lambda>s ds ignore_empty.
        if ignore_empty then filter (\<lambda>t. t \<noteq> []) (split_at (set ds) s) else split_at (set ds) s),
     fz_to_integral_u64 = std_to_integral,
     fz_str_tolower = map ascii_lower,
     multimap_pick = hd \<rparr>"

lemma libfz_std_fields [simp]:
  "fz_stricmp libfz_std a b = str_compare (map ascii_lower a) (map ascii_lower b)"
  "fz_replace_substrings libfz_std s [c] r = replace_char c r s"
  "fz_strtokenizer libfz_std s ds True = filter (\<lambda>t. t \<noteq> []) (split_at (set ds) s)"
  "fz_strtokenizer libfz_std s ds False = split_at (set ds) s"
  "fz_to_integral_u64 libfz_std s = std_to_integral s"
  "fz_str_tolower libfz_std s = map ascii_lower s"
  "multimap_pick libfz_std xs = hd xs"
  by (simp_all add: libfz_std_def)

lemma std_to_integral_show: "n < 2 ^ 64 \<Longrightarrow> std_to_integral (show_nat n) = Some n"
  using show_nat_digits [of n] by (simp add: std_to_integral_def num_value_show)

lemma libfz_std_laws [simp]:
  "stricmp_law libfz_std" "replace_law libfz_std" "tokenizer_law libfz_std" "tokenizer_all_law libfz_std"
  "to_integral_law libfz_std" "multimap_law libfz_std"
proof -
  show "multimap_law libfz_std"
    unfolding multimap_law_def libfz_std_fields by simp
  show "stricmp_law libfz_std"
    unfolding stricmp_law_def libfz_std_fields str_compare_zero by simp
  show "replace_law libfz_std"
    unfolding replace_law_def by simp
  show "tokenizer_law libfz_std"
    unfolding tokenizer_law_def by simp
  show "tokenizer_all_law libfz_std"
    unfolding tokenizer_all_law_def by simp
  show "to_integral_law libfz_std"
    unfolding to_integral_law_def libfz_std_fields using std_to_integral_show by blast
qed

subsection \<open>Case-insensitive equality as an interface\<close>

text \<open>What the callers of \<open>fz::stricmp\<close> rely on, for lists compared element by element.\<close>

locale nocase_equality =
  fixes same :: "'a \<Rightarrow> 'a \<Rightarrow> bool"
  assumes same_refl: "same a a"
    and same_sym: "same a b \<Longrightarrow> same b a"
    and same_trans: "same a b \<Longrightarrow> same b c \<Longrightarrow> same a c"
begin

lemma list_same_refl: "list_all2 same xs xs"
  by (simp add: list_all2_refl same_refl)

lemma list_same_sym: "list_all2 same xs ys \<Longrightarrow> list_all2 same ys xs"
  by (induction rule: list_all2_induct) (auto intro: same_sym)

lemma list_same_trans: "list_all2 same xs ys \<Longrightarrow> list_all2 same ys zs \<Longrightarrow> list_all2 same xs zs"
  by (rule list_all2_trans [of same same same]) (auto intro: same_trans)

end

lemma stricmp_refl: "stricmp_law L \<Longrightarrow> fz_stricmp L a a = 0"
  and stricmp_sym: "stricmp_law L \<Longrightarrow> fz_stricmp L a b = 0 \<Longrightarrow> fz_stricmp L b a = 0"
  and stricmp_trans:
    "stricmp_law L \<Longrightarrow> fz_stricmp L a b = 0 \<Longrightarrow> fz_stricmp L b c = 0 \<Longrightarrow> fz_stricmp L a c = 0"
  unfolding stricmp_law_def by blast+

lemmas stricmp_equiv = stricmp_refl stricmp_sym stricmp_trans

interpretation std_nocase: nocase_equality "\<lambda>a b. fz_stricmp libfz_std a b = 0"
  by unfold_locales (simp_all only: libfz_std_fields str_compare_zero)

lemma replace_char_Nil [simp]: "replace_char c r [] = []"
  by (simp add: replace_char_def)

lemma replace_char_Cons [simp]:
  "replace_char c r (x # s) = (if x = c then r else [x]) @ replace_char c r s"
  by (simp add: replace_char_def)

lemma replace_char_append [simp]: "replace_char c r (s @ t) = replace_char c r s @ replace_char c r t"
  by (simp add: replace_char_def)

lemma replace_char_absent: "c \<notin> set s \<Longrightarrow> replace_char c r s = s"
  by (induction s) auto

end
