(* ===== verification/Server_Path.thy ===== *)
theory Server_Path
  imports FZ_Lib
begin

text \<open>
  Remote paths: \<open>src/filezilla3/src/engine/serverpath.cpp\<close> with
  \<open>include/serverpath.h\<close> and the enumeration \<open>ServerType\<close> of
  \<open>include/server.h\<close>.  One definition per member function; the body of
  \<open>DoChangePath\<close> is split along its \<open>switch\<close>.  A function that can
  \<open>return false\<close> gives \<^term>\<open>None\<close> there.  \<open>ChangePath\<close> and
  \<open>SetSafePath\<close> clear the path on failure, so no partial update is visible.
\<close>

subsection \<open>Types\<close>

datatype ServerType =
  UNIX | VMS | DOS | MVS | VXWORKS | ZVM | HPNONSTOP | DOS_VIRTUAL | CYGWIN | DOS_FWD_SLASHES

fun server_type_value :: "ServerType \<Rightarrow> nat" where
  "server_type_value UNIX = 0"
| "server_type_value VMS = 1"
| "server_type_value DOS = 2"
| "server_type_value MVS = 3"
| "server_type_value VXWORKS = 4"
| "server_type_value ZVM = 5"
| "server_type_value HPNONSTOP = 6"
| "server_type_value DOS_VIRTUAL = 7"
| "server_type_value CYGWIN = 8"
| "server_type_value DOS_FWD_SLASHES = 9"

definition SERVERTYPE_MAX :: nat where
  "SERVERTYPE_MAX = 10"

definition all_server_types :: "ServerType list" where
  "all_server_types =
     [UNIX, VMS, DOS, MVS, VXWORKS, ZVM, HPNONSTOP, DOS_VIRTUAL, CYGWIN, DOS_FWD_SLASHES]"

lemma server_type_value_inj: "server_type_value a = server_type_value b \<longleftrightarrow> a = b"
  by (cases a; cases b) simp_all

lemma server_type_value_less: "server_type_value t < SERVERTYPE_MAX"
  by (cases t) (simp_all add: SERVERTYPE_MAX_def)

lemma all_server_types_nth [simp]: "all_server_types ! server_type_value t = t"
  by (cases t) (simp_all add: all_server_types_def numeral_eq_Suc)

instantiation ServerType :: linorder
begin

definition less_eq_ServerType :: "ServerType \<Rightarrow> ServerType \<Rightarrow> bool" where
  "less_eq_ServerType a b \<longleftrightarrow> server_type_value a \<le> server_type_value b"

definition less_ServerType :: "ServerType \<Rightarrow> ServerType \<Rightarrow> bool" where
  "less_ServerType a b \<longleftrightarrow> server_type_value a < server_type_value b"

instance
  by standard
    (auto simp: less_eq_ServerType_def less_ServerType_def server_type_value_inj)

end

record CServerTypeTraits =
  separators :: wstring
  has_root :: bool
  left_enclosure :: char
  right_enclosure :: char
  filename_inside_enclosure :: bool
  prefixmode :: nat
  separatorEscape :: char
  has_dots :: bool
  separator_after_prefix :: bool

definition mk_traits ::
  "wstring \<Rightarrow> bool \<Rightarrow> char \<Rightarrow> char \<Rightarrow> bool \<Rightarrow> nat \<Rightarrow> char \<Rightarrow> bool \<Rightarrow> bool \<Rightarrow> CServerTypeTraits" where
  "mk_traits s r le re fi pm se dots sp =
     \<lparr>separators = s, has_root = r, left_enclosure = le, right_enclosure = re,
      filename_inside_enclosure = fi, prefixmode = pm, separatorEscape = se,
      has_dots = dots, separator_after_prefix = sp\<rparr>"

abbreviation backslash :: char where
  "backslash \<equiv> CHR 0x5C"

abbreviation quote_mark :: char where
  "quote_mark \<equiv> CHR 0x27"

fun traits :: "ServerType \<Rightarrow> CServerTypeTraits" where
  "traits UNIX = mk_traits ''/'' True nul nul False 0 nul True False"
| "traits VMS = mk_traits ''.'' False (CHR ''['') (CHR '']'') False 0 (CHR ''^'') False False"
| "traits DOS = mk_traits [backslash, CHR ''/''] False nul nul False 0 nul True False"
| "traits MVS = mk_traits ''.'' False quote_mark quote_mark True 1 nul False False"
| "traits VXWORKS = mk_traits ''/'' True nul nul False 0 nul True False"
| "traits ZVM = mk_traits ''/'' True nul nul False 0 nul True False"
| "traits HPNONSTOP = mk_traits ''.'' False nul nul False 0 nul False False"
| "traits DOS_VIRTUAL = mk_traits [backslash] True nul nul False 0 nul True False"
| "traits CYGWIN = mk_traits ''/'' True nul nul False 0 nul True True"
| "traits DOS_FWD_SLASHES = mk_traits [CHR ''/'', backslash] False nul nul False 0 nul True False"

text \<open>The path itself: no data means the empty path.\<close>

record CServerPathData =
  m_segments :: "wstring list"
  m_prefix :: "wstring option"

record CServerPath =
  m_data :: "CServerPathData option"
  m_type :: ServerType

definition path_data_eq :: "CServerPathData \<Rightarrow> CServerPathData \<Rightarrow> bool" where
  "path_data_eq a b \<longleftrightarrow>
     (if m_prefix a \<noteq> m_prefix b then False
      else if m_segments a \<noteq> m_segments b then False else True)"

definition empty_data :: CServerPathData where
  "empty_data = \<lparr>m_segments = [], m_prefix = None\<rparr>"

definition CServerPath_default :: CServerPath where
  "CServerPath_default = \<lparr>m_data = None, m_type = UNIX\<rparr>"

definition path_empty :: "CServerPath \<Rightarrow> bool" where
  "path_empty p \<longleftrightarrow> m_data p = None"

definition path_clear :: "CServerPath \<Rightarrow> CServerPath" where
  "path_clear p = p\<lparr>m_data := None\<rparr>"

text \<open>\<open>m_data.get()\<close> of an empty path creates default data.\<close>

definition data_get :: "CServerPath \<Rightarrow> CServerPathData" where
  "data_get p = (case m_data p of None \<Rightarrow> empty_data | Some d \<Rightarrow> d)"

definition segs :: "CServerPath \<Rightarrow> wstring list" where
  "segs p = m_segments (data_get p)"

definition pfx :: "CServerPath \<Rightarrow> wstring option" where
  "pfx p = m_prefix (data_get p)"

definition sep0 :: "ServerType \<Rightarrow> char" where
  "sep0 t = hd (separators (traits t))"

definition IsSeparator :: "ServerType \<Rightarrow> char \<Rightarrow> bool" where
  "IsSeparator t c \<longleftrightarrow> c \<in> set (separators (traits t))"

lemma traits_mk [simp]:
  "separators (mk_traits s r le re fi pm se dots sp) = s"
  "has_root (mk_traits s r le re fi pm se dots sp) = r"
  "left_enclosure (mk_traits s r le re fi pm se dots sp) = le"
  "right_enclosure (mk_traits s r le re fi pm se dots sp) = re"
  "filename_inside_enclosure (mk_traits s r le re fi pm se dots sp) = fi"
  "prefixmode (mk_traits s r le re fi pm se dots sp) = pm"
  "separatorEscape (mk_traits s r le re fi pm se dots sp) = se"
  "has_dots (mk_traits s r le re fi pm se dots sp) = dots"
  "separator_after_prefix (mk_traits s r le re fi pm se dots sp) = sp"
  by (simp_all add: mk_traits_def)

subsection \<open>Splitting text into segments\<close>

text \<open>\<open>segments.back() += segment\<close>.  On an empty vector the C++ is undefined;
  \<open>segmentize_loop_append_safe\<close> in Server\_Path\_Canon shows it is never reached.\<close>

fun append_back :: "wstring list \<Rightarrow> wstring \<Rightarrow> wstring list" where
  "append_back [] s = [s]"
| "append_back [x] s = [x @ s]"
| "append_back (x # y # zs) s = x # append_back (y # zs) s"

definition SegmentizeAddSegment ::
  "ServerType \<Rightarrow> wstring \<Rightarrow> wstring list \<Rightarrow> bool \<Rightarrow> wstring list \<times> bool" where
  "SegmentizeAddSegment t segment sl app =
     (let tr = traits t in
      if has_dots tr \<and> segment = ''.'' then (sl, app)
      else if has_dots tr \<and> segment = ''..'' then (if sl \<noteq> [] then butlast sl else sl, app)
      else
        let append_next = (segment \<noteq> [] \<and> separatorEscape tr \<noteq> nul \<and> last segment = separatorEscape tr);
            segment' = (if append_next then butlast segment @ [sep0 t] else segment)
        in (if app then append_back sl segment' else sl @ [segment'], append_next))"

function segmentize_loop ::
  "ServerType \<Rightarrow> wstring \<Rightarrow> wstring list \<Rightarrow> bool \<Rightarrow> wstring list \<times> bool" where
  "segmentize_loop t rest sl app =
     (case find_idx (IsSeparator t) rest of
        None \<Rightarrow> if rest \<noteq> [] then SegmentizeAddSegment t rest sl app else (sl, app)
      | Some pos \<Rightarrow>
          if pos = 0 then segmentize_loop t (drop 1 rest) sl app
          else
            let r = SegmentizeAddSegment t (take pos rest) sl app
            in segmentize_loop t (drop (pos + 1) rest) (fst r) (snd r))"
  by pat_completeness auto
termination
  by (relation "measure (\<lambda>(t, rest, sl, app). length rest)") (auto dest: find_idx_Some)

declare segmentize_loop.simps [simp del]

definition Segmentize :: "ServerType \<Rightarrow> wstring \<Rightarrow> wstring list \<Rightarrow> wstring list option" where
  "Segmentize t str sl =
     (let r = segmentize_loop t str sl False in if snd r then None else Some (fst r))"

text \<open>\<open>ExtractFile\<close> gives the directory part and the file part.\<close>

definition ExtractFile :: "ServerType \<Rightarrow> wstring \<Rightarrow> (wstring \<times> wstring) option" where
  "ExtractFile t dir =
     (case rfind_idx (IsSeparator t) dir of
        None \<Rightarrow> Some ([], dir)
      | Some pos \<Rightarrow>
          if pos = length dir - 1 then None
          else Some (take (pos + 1) dir, drop (pos + 1) dir))"

subsection \<open>Changing the path\<close>

text \<open>The cases of \<open>DoChangePath\<close>.  Each takes whether the path was empty, the
  current data, the directory text and \<open>isFile\<close>, and gives the new data and
  the file part.\<close>

definition finish_segments ::
  "ServerType \<Rightarrow> CServerPathData \<Rightarrow> wstring \<Rightarrow> wstring \<Rightarrow> (CServerPathData \<times> wstring) option" where
  "finish_segments t d dir file =
     (case Segmentize t dir (m_segments d) of
        None \<Rightarrow> None
      | Some sl \<Rightarrow> Some (d\<lparr>m_segments := sl\<rparr>, file))"

definition split_file :: "ServerType \<Rightarrow> bool \<Rightarrow> wstring \<Rightarrow> (wstring \<times> wstring) option" where
  "split_file t isFile dir = (if isFile then ExtractFile t dir else Some (dir, []))"

definition require_segments ::
  "bool \<Rightarrow> (CServerPathData \<times> wstring) option \<Rightarrow> (CServerPathData \<times> wstring) option" where
  "require_segments was_empty r =
     (case r of
        None \<Rightarrow> None
      | Some (d, file) \<Rightarrow> if m_segments d = [] \<and> was_empty then None else Some (d, file))"

definition change_VMS ::
  "bool \<Rightarrow> CServerPathData \<Rightarrow> wstring \<Rightarrow> bool \<Rightarrow> (CServerPathData \<times> wstring) option" where
  "change_VMS was_empty d dir isFile =
     (case find_idx (\<lambda>c. c = left_enclosure (traits VMS)) dir of
        None \<Rightarrow>
          if rfind_idx (\<lambda>c. c = right_enclosure (traits VMS)) dir \<noteq> None then None
          else if isFile then (if was_empty then None else Some (d, dir))
          else require_segments was_empty (finish_segments VMS d dir [])
      | Some pos1 \<Rightarrow>
          (case rfind_idx (\<lambda>c. c = right_enclosure (traits VMS)) dir of
             None \<Rightarrow> None
           | Some pos2 \<Rightarrow>
               if pos2 \<le> pos1 + 1 then None
               else
                 let enclosure_is_last = (pos2 = length dir - 1)
                 in if isFile = enclosure_is_last then None
                    else
                      let file = (if isFile then drop (pos2 + 1) dir else []);
                          dir1 = take pos2 dir;
                          d1 = (if pos1 \<noteq> 0 then d\<lparr>m_prefix := Some (take pos1 dir1)\<rparr> else d);
                          dir2 = drop (pos1 + 1) dir1
                      in require_segments was_empty
                           (finish_segments VMS (d1\<lparr>m_segments := []\<rparr>) dir2 file)))"

definition change_DOS ::
  "ServerType \<Rightarrow> bool \<Rightarrow> CServerPathData \<Rightarrow> wstring \<Rightarrow> bool \<Rightarrow> (CServerPathData \<times> wstring) option" where
  "change_DOS t was_empty d dir isFile =
     (let sep = (case find_idx (IsSeparator t) dir of None \<Rightarrow> length dir | Some s \<Rightarrow> s);
          finish = (\<lambda>d' dir'.
            (case split_file t isFile dir' of
               None \<Rightarrow> None
             | Some (dir'', file) \<Rightarrow> require_segments was_empty (finish_segments t d' dir'' file)));
          relative = (\<lambda>dir'.
            if IsSeparator t (at0 dir' 0)
            then (if m_segments d = [] then None
                  else finish (d\<lparr>m_segments := [hd (m_segments d)]\<rparr>) (drop 1 dir'))
            else finish d dir')
      in (case find_idx (\<lambda>c. c = CHR '':'') dir of
            None \<Rightarrow> relative dir
          | Some colon \<Rightarrow>
              if colon = 0 then None
              else if colon + 1 = sep then finish (d\<lparr>m_segments := []\<rparr>) dir
              else if colon > sep then None
              else if colon + 1 < sep
              then (if m_segments d = [] \<or> hd (m_segments d) \<noteq> take (colon + 1) dir then None
                    else relative (drop (colon + 1) dir))
              else relative dir))"

definition FTP_MVS_DOUBLE_QUOTE :: char where
  "FTP_MVS_DOUBLE_QUOTE = CHR 0xDC"

definition strip_mvs_quotes :: "wstring \<Rightarrow> wstring" where
  "strip_mvs_quotes dir =
     rev (dropWhile (\<lambda>c. c = FTP_MVS_DOUBLE_QUOTE)
       (rev (dropWhile (\<lambda>c. c = FTP_MVS_DOUBLE_QUOTE) dir)))"

text \<open>The second half of the MVS case, once the quotation marks are gone and the
  enclosure is resolved.\<close>

definition change_MVS_inner ::
  "bool \<Rightarrow> CServerPathData \<Rightarrow> wstring \<Rightarrow> bool \<Rightarrow> (CServerPathData \<times> wstring) option" where
  "change_MVS_inner was_empty d dir isFile =
     (if back_is dir (CHR '')'') then
        (if \<not> isFile then None
         else
           (case find_idx (\<lambda>c. c = CHR ''('') dir of
              None \<Rightarrow> None
            | Some pos \<Rightarrow>
                let dir1 = butlast dir;
                    file = drop (pos + 1) dir1;
                    dir2 = take pos dir1
                in if \<not> was_empty \<and> m_prefix d = None \<and> dir2 \<noteq> [] then None
                   else finish_segments MVS (d\<lparr>m_prefix := None\<rparr>) dir2 file))
      else if \<not> was_empty \<and> m_prefix d = None \<and>
              (find_idx (\<lambda>c. c = CHR ''.'') dir \<noteq> None \<or> \<not> isFile) then None
      else if isFile then
        (case ExtractFile MVS dir of
           None \<Rightarrow> None
         | Some (dir1, file) \<Rightarrow> finish_segments MVS (d\<lparr>m_prefix := Some ''.''\<rparr>) dir1 file)
      else if back_is dir (CHR ''.'') then finish_segments MVS (d\<lparr>m_prefix := Some ''.''\<rparr>) dir []
      else finish_segments MVS (d\<lparr>m_prefix := None\<rparr>) dir [])"

definition change_MVS ::
  "bool \<Rightarrow> CServerPathData \<Rightarrow> wstring \<Rightarrow> bool \<Rightarrow> (CServerPathData \<times> wstring) option" where
  "change_MVS was_empty d dir0 isFile =
     (let dir = strip_mvs_quotes dir0;
          le = left_enclosure (traits MVS); re = right_enclosure (traits MVS)
      in if dir = [] then None
         else if hd dir = le then
           (if last dir \<noteq> re then None
            else change_MVS_inner was_empty (d\<lparr>m_segments := []\<rparr>)
                   (take (length dir - 2) (drop 1 dir)) isFile)
         else if last dir = re then None
         else if was_empty then None
         else change_MVS_inner was_empty d dir isFile)"

definition change_HPNONSTOP ::
  "bool \<Rightarrow> CServerPathData \<Rightarrow> wstring \<Rightarrow> bool \<Rightarrow> (CServerPathData \<times> wstring) option" where
  "change_HPNONSTOP was_empty d dir isFile =
     (let d1 = (if at0 dir 0 = backslash then d\<lparr>m_segments := []\<rparr> else d)
      in (case split_file HPNONSTOP isFile dir of
            None \<Rightarrow> None
          | Some (dir', file) \<Rightarrow> require_segments was_empty (finish_segments HPNONSTOP d1 dir' file)))"

definition change_VXWORKS ::
  "bool \<Rightarrow> CServerPathData \<Rightarrow> wstring \<Rightarrow> bool \<Rightarrow> (CServerPathData \<times> wstring) option" where
  "change_VXWORKS was_empty d dir isFile =
     (let finish = (\<lambda>d' dir'.
            (case split_file VXWORKS isFile dir' of
               None \<Rightarrow> None
             | Some (dir'', file) \<Rightarrow> finish_segments VXWORKS d' dir'' file))
      in if at0 dir 0 \<noteq> CHR '':'' then (if was_empty then None else finish d dir)
         else
           (case find_idx (\<lambda>c. c = CHR '':'') (drop 1 dir) of
              None \<Rightarrow> None
            | Some k \<Rightarrow>
                if k = 0 then None
                else finish \<lparr>m_segments = [], m_prefix = Some (take (k + 2) dir)\<rparr> (drop (k + 2) dir)))"

definition change_CYGWIN ::
  "bool \<Rightarrow> CServerPathData \<Rightarrow> wstring \<Rightarrow> bool \<Rightarrow> (CServerPathData \<times> wstring) option" where
  "change_CYGWIN was_empty d dir isFile =
     (if \<not> IsSeparator CYGWIN (at0 dir 0) \<and> was_empty then None
      else
        let d1 = (if IsSeparator CYGWIN (at0 dir 0) then empty_data else d);
            double = (at0 dir 0 = CHR ''/'' \<and> at0 dir 1 = CHR ''/'');
            d2 = (if double then d1\<lparr>m_prefix := Some [sep0 CYGWIN]\<rparr> else d1);
            dir1 = (if double then drop 1 dir else dir)
        in (case split_file CYGWIN isFile dir1 of
              None \<Rightarrow> None
            | Some (dir', file) \<Rightarrow> finish_segments CYGWIN d2 dir' file))"

definition change_default ::
  "ServerType \<Rightarrow> bool \<Rightarrow> CServerPathData \<Rightarrow> wstring \<Rightarrow> bool \<Rightarrow> (CServerPathData \<times> wstring) option" where
  "change_default t was_empty d dir isFile =
     (if \<not> IsSeparator t (at0 dir 0) \<and> was_empty then None
      else
        let d1 = (if IsSeparator t (at0 dir 0) then d\<lparr>m_segments := []\<rparr> else d)
        in (case split_file t isFile dir of
              None \<Rightarrow> None
            | Some (dir', file) \<Rightarrow> finish_segments t d1 dir' file))"

definition change_by_type ::
  "ServerType \<Rightarrow> bool \<Rightarrow> CServerPathData \<Rightarrow> wstring \<Rightarrow> bool \<Rightarrow> (CServerPathData \<times> wstring) option" where
  "change_by_type t was_empty d dir isFile =
     (case t of
        VMS \<Rightarrow> change_VMS was_empty d dir isFile
      | DOS \<Rightarrow> change_DOS t was_empty d dir isFile
      | DOS_FWD_SLASHES \<Rightarrow> change_DOS t was_empty d dir isFile
      | MVS \<Rightarrow> change_MVS was_empty d dir isFile
      | HPNONSTOP \<Rightarrow> change_HPNONSTOP was_empty d dir isFile
      | VXWORKS \<Rightarrow> change_VXWORKS was_empty d dir isFile
      | CYGWIN \<Rightarrow> change_CYGWIN was_empty d dir isFile
      | _ \<Rightarrow> change_default t was_empty d dir isFile)"

definition DoChangePath ::
  "CServerPath \<Rightarrow> wstring \<Rightarrow> bool \<Rightarrow> (CServerPathData \<times> wstring) option" where
  "DoChangePath p subdir isFile =
     (if subdir = [] then
        (if path_empty p \<or> isFile then None else Some (data_get p, subdir))
      else
        (case change_by_type (m_type p) (path_empty p) (data_get p) subdir isFile of
           None \<Rightarrow> None
         | Some (d, file) \<Rightarrow>
             if \<not> has_root (traits (m_type p)) \<and> m_segments d = [] then None
             else if isFile then
               (if has_dots (traits (m_type p)) \<and> (file = ''..'' \<or> file = ''.'') then None
                else Some (d, file))
             else Some (d, subdir)))"

text \<open>\<open>ChangePath\<close>: the result, the path afterwards and the \<open>subdir\<close> argument
  afterwards.\<close>

definition ChangePath :: "CServerPath \<Rightarrow> wstring \<Rightarrow> bool \<Rightarrow> bool \<times> CServerPath \<times> wstring" where
  "ChangePath p subdir isFile =
     (case DoChangePath p subdir isFile of
        None \<Rightarrow> (False, path_clear p, subdir)
      | Some (d, sub) \<Rightarrow> (True, p\<lparr>m_data := Some d\<rparr>, sub))"

definition ChangePath_dir :: "CServerPath \<Rightarrow> wstring \<Rightarrow> bool \<times> CServerPath" where
  "ChangePath_dir p subdir = (let r = ChangePath p subdir False in (fst r, fst (snd r)))"

definition SetPath_file :: "CServerPath \<Rightarrow> wstring \<Rightarrow> bool \<Rightarrow> bool \<times> CServerPath \<times> wstring" where
  "SetPath_file p newPath isFile =
     (if newPath = [] then (False, p, newPath)
      else
        (case ChangePath (path_clear p) newPath isFile of
           (ok, p', path) \<Rightarrow> (ok, p', if ok \<and> isFile then path else newPath)))"

definition SetPath :: "CServerPath \<Rightarrow> wstring \<Rightarrow> bool \<times> CServerPath" where
  "SetPath p newPath = (let r = SetPath_file p newPath False in (fst r, fst (snd r)))"

definition CServerPath_make :: "wstring \<Rightarrow> ServerType \<Rightarrow> CServerPath" where
  "CServerPath_make path t = snd (SetPath \<lparr>m_data = None, m_type = t\<rparr> path)"

definition CServerPath_sub :: "CServerPath \<Rightarrow> wstring \<Rightarrow> CServerPath" where
  "CServerPath_sub path subdir =
     (if subdir = [] then path
      else let r = ChangePath_dir path subdir in if fst r then snd r else path_clear (snd r))"

definition GetChanged :: "CServerPath \<Rightarrow> CServerPath \<Rightarrow> wstring \<Rightarrow> CServerPath" where
  "GetChanged oldPath newPath newSubdir =
     (let ret = (if path_empty newPath then oldPath else newPath);
          r = ChangePath_dir ret newSubdir
      in if fst r then snd r else path_clear (snd r))"

end
