(* ===== verification/Server_Path_Ops.thy ===== *)
theory Server_Path_Ops
  imports Server_Path
begin

text \<open>
  The rest of \<open>src/filezilla3/src/engine/serverpath.cpp\<close>: printing, parents,
  the safe (serialised) form, containment, comparison and file names.
\<close>

subsection \<open>Printing\<close>

definition EscapeSeparators :: "libfz \<Rightarrow> ServerType \<Rightarrow> wstring \<Rightarrow> wstring" where
  "EscapeSeparators L t subdir =
     (if separatorEscape (traits t) \<noteq> nul
      then fold (\<lambda>c s. fz_replace_substrings L s [c] [separatorEscape (traits t), sep0 t])
             (separators (traits t)) subdir
      else subdir)"

fun GetPath_segments ::
  "libfz \<Rightarrow> ServerType \<Rightarrow> wstring option \<Rightarrow> bool \<Rightarrow> wstring list \<Rightarrow> wstring" where
  "GetPath_segments L t pr first [] = []"
| "GetPath_segments L t pr first (segment # rest) =
     (if \<not> first then [sep0 t]
      else if has_root (traits t) then
        (if pr = None \<or> separator_after_prefix (traits t) then [sep0 t] else [])
      else [])
     @ (if separatorEscape (traits t) \<noteq> nul then EscapeSeparators L t segment else segment)
     @ GetPath_segments L t pr False rest"

definition enclosure_text :: "char \<Rightarrow> wstring" where
  "enclosure_text c = (if c \<noteq> nul then [c] else [])"

definition prefix_text :: "wstring option \<Rightarrow> wstring" where
  "prefix_text pr = (case pr of None \<Rightarrow> [] | Some x \<Rightarrow> x)"

definition data_text :: "libfz \<Rightarrow> ServerType \<Rightarrow> CServerPathData \<Rightarrow> wstring" where
  "data_text L t d =
     (let tr = traits t; sl = m_segments d; pr = m_prefix d
      in (if prefixmode tr = 0 then prefix_text pr else [])
         @ enclosure_text (left_enclosure tr)
         @ (if sl = [] \<and> (\<not> has_root tr \<or> pr = None \<or> separator_after_prefix tr)
            then [sep0 t] else [])
         @ GetPath_segments L t pr True sl
         @ (if prefixmode tr \<noteq> 0 then prefix_text pr else [])
         @ enclosure_text (right_enclosure tr)
         @ (if (t = DOS \<or> t = DOS_FWD_SLASHES) \<and> length sl = 1 then [sep0 t] else []))"

definition GetPath :: "libfz \<Rightarrow> CServerPath \<Rightarrow> wstring" where
  "GetPath L p = (case m_data p of None \<Rightarrow> [] | Some d \<Rightarrow> data_text L (m_type p) d)"

definition FormatSubdir :: "libfz \<Rightarrow> CServerPath \<Rightarrow> wstring \<Rightarrow> wstring" where
  "FormatSubdir L p subdir =
     (if separatorEscape (traits (m_type p)) = nul then subdir
      else EscapeSeparators L (m_type p) subdir)"

definition FormatFilename :: "libfz \<Rightarrow> CServerPath \<Rightarrow> wstring \<Rightarrow> bool \<Rightarrow> wstring" where
  "FormatFilename L p filename omitPath =
     (if path_empty p \<or> filename = [] then filename
      else
        let t = m_type p; tr = traits t; inside = (left_enclosure tr \<noteq> nul \<and> filename_inside_enclosure tr)
        in if omitPath \<and> (prefixmode tr = 0 \<or> pfx p = Some ''.'') then filename
           else
             let r0 = GetPath L p;
                 r1 = (if inside then butlast r0 else r0);
                 r2 = (case t of
                         VXWORKS \<Rightarrow>
                           if r1 \<noteq> [] \<and> \<not> IsSeparator t (last r1) \<and> segs p \<noteq> [] then r1 @ [sep0 t] else r1
                       | VMS \<Rightarrow> r1
                       | MVS \<Rightarrow> r1
                       | _ \<Rightarrow> if r1 \<noteq> [] \<and> \<not> IsSeparator t (last r1) then r1 @ [sep0 t] else r1);
                 r3 = (if prefixmode tr = 1 \<and> pfx p = None then r2 @ ''('' @ filename @ '')''
                       else r2 @ filename)
             in (if inside then r3 @ [right_enclosure tr] else r3))"

subsection \<open>Parents and segments\<close>

definition HasParent :: "CServerPath \<Rightarrow> bool" where
  "HasParent p \<longleftrightarrow>
     (if path_empty p then False
      else if \<not> has_root (traits (m_type p)) then 1 < length (segs p)
      else segs p \<noteq> [])"

definition MakeParent :: "CServerPath \<Rightarrow> CServerPath" where
  "MakeParent p =
     (if path_empty p \<or> \<not> HasParent p then path_clear p
      else
        let d = (data_get p)\<lparr>m_segments := butlast (segs p)\<rparr>
        in p\<lparr>m_data := Some (if m_type p = MVS then d\<lparr>m_prefix := Some ''.''\<rparr> else d)\<rparr>)"

definition GetParent :: "CServerPath \<Rightarrow> CServerPath" where
  "GetParent p = MakeParent p"

definition GetFirstSegment :: "CServerPath \<Rightarrow> wstring" where
  "GetFirstSegment p =
     (if path_empty p \<or> \<not> HasParent p then []
      else if segs p \<noteq> [] then hd (segs p) else [])"

definition GetLastSegment :: "CServerPath \<Rightarrow> wstring" where
  "GetLastSegment p =
     (if path_empty p \<or> \<not> HasParent p then []
      else if segs p \<noteq> [] then last (segs p) else [])"

definition AddSegment :: "CServerPath \<Rightarrow> wstring \<Rightarrow> bool \<times> CServerPath" where
  "AddSegment p segment =
     (if path_empty p then (False, p)
      else (True, p\<lparr>m_data := Some ((data_get p)\<lparr>m_segments := segs p @ [segment]\<rparr>)\<rparr>))"

definition SegmentCount :: "CServerPath \<Rightarrow> nat" where
  "SegmentCount p = (if path_empty p then 0 else length (segs p))"

definition SetType :: "CServerPath \<Rightarrow> nat \<Rightarrow> bool \<times> CServerPath" where
  "SetType p v =
     (if SERVERTYPE_MAX \<le> v then (False, p)
      else if \<not> path_empty p \<and> server_type_value (m_type p) \<noteq> v then (False, p)
      else (True, p\<lparr>m_type := all_server_types ! v\<rparr>))"

definition GetType :: "CServerPath \<Rightarrow> ServerType" where
  "GetType p = m_type p"

subsection \<open>The safe form\<close>

text \<open>\<open>strcpy_pad s\<close>: what \<open>wcscpy\<close> followed by skipping \<open>size()\<close> units
  leaves in the zero-filled buffer.\<close>

definition strcpy_pad :: "wstring \<Rightarrow> wstring" where
  "strcpy_pad s = c_str s @ replicate (length s - length (c_str s)) nul"

fun fast_sprint_number :: "nat \<Rightarrow> wstring" where
  "fast_sprint_number n = show_nat n"

fun safe_segments :: "wstring list \<Rightarrow> wstring" where
  "safe_segments [] = []"
| "safe_segments (s # ss) =
     '' '' @ fast_sprint_number (length s) @ '' '' @ strcpy_pad s @ safe_segments ss"

definition GetSafePath :: "CServerPath \<Rightarrow> wstring" where
  "GetSafePath p =
     (case m_data p of
        None \<Rightarrow> []
      | Some d \<Rightarrow>
          fast_sprint_number (server_type_value (m_type p) + 1) @ '' ''
          @ fast_sprint_number (case m_prefix d of None \<Rightarrow> 0 | Some x \<Rightarrow> length x)
          @ (case m_prefix d of None \<Rightarrow> [] | Some x \<Rightarrow> '' '' @ strcpy_pad x)
          @ safe_segments (m_segments d))"

text \<open>The number loops read units from the zero-terminated text; \<open>stop c\<close> ends
  the loop, and the end of the list is the terminator.\<close>

fun safe_number :: "(char \<Rightarrow> bool) \<Rightarrow> nat \<Rightarrow> nat \<Rightarrow> wstring \<Rightarrow> (nat \<times> wstring) option" where
  "safe_number stop limit acc [] = None"
| "safe_number stop limit acc (c # cs) =
     (if \<not> is_digit c then None
      else
        let v = acc * 10 + digit_val c
        in if limit < v then None
           else if stop (at0 cs 0) then Some (v, cs)
           else safe_number stop limit v cs)"

definition is_space :: "char \<Rightarrow> bool" where
  "is_space c \<longleftrightarrow> c = CHR '' ''"

definition is_space_or_end :: "char \<Rightarrow> bool" where
  "is_space_or_end c \<longleftrightarrow> c = nul \<or> c = CHR '' ''"

definition safe_len_limit :: nat where
  "safe_len_limit = 32767"

lemma safe_number_shorter: "safe_number stop limit acc s = Some (v, r) \<Longrightarrow> length r < length s"
  by (induction stop limit acc s rule: safe_number.induct)
    (auto simp: Let_def split: if_splits)

function read_safe_segments :: "wstring \<Rightarrow> wstring list \<Rightarrow> wstring list option" where
  "read_safe_segments p acc =
     (if p = [] then Some acc
      else
        (case safe_number is_space safe_len_limit 0 p of
           None \<Rightarrow> None
         | Some (segment_len, q) \<Rightarrow>
             if segment_len = 0 then None
             else if length (drop 1 q) < segment_len then None
             else read_safe_segments (drop (segment_len + 1) (drop 1 q))
                    (acc @ [take segment_len (drop 1 q)])))"
  by pat_completeness auto
termination
  by (relation "measure (\<lambda>(p, acc). length p)") (auto dest: safe_number_shorter)

declare read_safe_segments.simps [simp del]

text \<open>\<open>DoSetSafePath\<close>: the server type once it is read (the member keeps it even
  when a later step fails) and the data on success.\<close>

definition DoSetSafePath :: "ServerType \<Rightarrow> wstring \<Rightarrow> ServerType \<times> CServerPathData option" where
  "DoSetSafePath old_type path =
     (case safe_number is_space SERVERTYPE_MAX 0 path of
        None \<Rightarrow> (old_type, None)
      | Some (v, q) \<Rightarrow>
          let t = all_server_types ! (v - 1)
          in (case safe_number is_space_or_end safe_len_limit 0 (drop 1 q) of
                None \<Rightarrow> (t, None)
              | Some (prefix_len, r) \<Rightarrow>
                  if at0 r 0 = nul then
                    (t, if prefix_len \<noteq> 0 then None else Some empty_data)
                  else
                    let body = drop 1 r
                    in if length body < prefix_len then (t, None)
                       else
                         let pr = (if prefix_len \<noteq> 0 then Some (take prefix_len body) else None);
                             rest = (if prefix_len \<noteq> 0 then drop (prefix_len + 1) body else body)
                         in (case read_safe_segments rest [] of
                               None \<Rightarrow> (t, None)
                             | Some sl \<Rightarrow> (t, Some \<lparr>m_segments = sl, m_prefix = pr\<rparr>))))"

definition SetSafePath :: "CServerPath \<Rightarrow> wstring \<Rightarrow> bool \<times> CServerPath" where
  "SetSafePath p path =
     (case DoSetSafePath (m_type p) path of
        (t, r) \<Rightarrow> (r \<noteq> None, \<lparr>m_data = r, m_type = t\<rparr>))"

subsection \<open>Containment\<close>

fun subdir_loop ::
  "libfz \<Rightarrow> bool \<Rightarrow> bool \<Rightarrow> wstring list \<Rightarrow> wstring list \<Rightarrow> bool" where
  "subdir_loop L cmpNoCase allowEqual [] ys = (allowEqual \<and> ys = [])"
| "subdir_loop L cmpNoCase allowEqual (x # xs) [] = True"
| "subdir_loop L cmpNoCase allowEqual (x # xs) (y # ys) =
     (if (if cmpNoCase then fz_stricmp L x y \<noteq> 0 else x \<noteq> y) then False
      else subdir_loop L cmpNoCase allowEqual xs ys)"

definition prefix_differs :: "libfz \<Rightarrow> bool \<Rightarrow> wstring option \<Rightarrow> wstring option \<Rightarrow> bool" where
  "prefix_differs L cmpNoCase a b =
     (if cmpNoCase then
        (case (a, b) of
           (Some x, None) \<Rightarrow> True
         | (None, Some y) \<Rightarrow> True
         | (Some x, Some y) \<Rightarrow> fz_stricmp L x y \<noteq> 0
         | (None, None) \<Rightarrow> False)
      else a \<noteq> b)"

definition IsSubdirOf :: "libfz \<Rightarrow> CServerPath \<Rightarrow> CServerPath \<Rightarrow> bool \<Rightarrow> bool \<Rightarrow> bool" where
  "IsSubdirOf L this path cmpNoCase allowEqual =
     (if path_empty this \<or> path_empty path then False
      else if m_type this \<noteq> m_type path then False
      else if \<not> HasParent this then False
      else if prefixmode (traits (m_type this)) \<noteq> 1 \<and>
              prefix_differs L cmpNoCase (pfx this) (pfx path) then False
      else if prefixmode (traits (m_type this)) = 1 \<and> pfx path = None then False
      else subdir_loop L cmpNoCase allowEqual (segs this) (segs path))"

definition IsParentOf :: "libfz \<Rightarrow> CServerPath \<Rightarrow> CServerPath \<Rightarrow> bool \<Rightarrow> bool \<Rightarrow> bool" where
  "IsParentOf L this path cmpNoCase allowEqual = IsSubdirOf L path this cmpNoCase allowEqual"

subsection \<open>Comparison\<close>

definition path_eq :: "CServerPath \<Rightarrow> CServerPath \<Rightarrow> bool" where
  "path_eq a b =
     (if path_empty a \<noteq> path_empty b then False
      else if m_type a \<noteq> m_type b then False
      else if m_data a \<noteq> m_data b then False
      else True)"

definition path_neq :: "CServerPath \<Rightarrow> CServerPath \<Rightarrow> bool" where
  "path_neq a b = (\<not> path_eq a b)"

definition wcscmp :: "wstring \<Rightarrow> wstring \<Rightarrow> int" where
  "wcscmp a b = str_compare (c_str a) (c_str b)"

fun segs_less :: "wstring list \<Rightarrow> wstring list \<Rightarrow> bool" where
  "segs_less [] ys = (ys \<noteq> [])"
| "segs_less (x # xs) [] = False"
| "segs_less (x # xs) (y # ys) =
     (let cmp = wcscmp x y
      in if cmp < 0 then True else if cmp > 0 then False else segs_less xs ys)"

definition path_less :: "CServerPath \<Rightarrow> CServerPath \<Rightarrow> bool" where
  "path_less a b =
     (if path_empty a then \<not> path_empty b
      else if path_empty b then False
      else if (pfx a \<noteq> None \<or> pfx b \<noteq> None) \<and> pfx a < pfx b then True
      else if (pfx a \<noteq> None \<or> pfx b \<noteq> None) \<and> pfx b < pfx a then False
      else if m_type b < m_type a then False
      else if m_type a < m_type b then True
      else segs_less (segs a) (segs b))"

definition equal_nocase :: "libfz \<Rightarrow> CServerPath \<Rightarrow> CServerPath \<Rightarrow> bool" where
  "equal_nocase L a b =
     (if path_empty a \<noteq> path_empty b then False
      else if path_empty a then True
      else if m_type a \<noteq> m_type b then False
      else if length (segs a) \<noteq> length (segs b) then False
      else if prefix_differs L True (pfx a) (pfx b) then False
      else list_all2 (\<lambda>x y. fz_stricmp L x y = 0) (segs a) (segs b))"

fun segs_compare :: "wstring list \<Rightarrow> wstring list \<Rightarrow> int" where
  "segs_compare [] [] = 0"
| "segs_compare (x # xs) [] = 1"
| "segs_compare [] (y # ys) = -1"
| "segs_compare (x # xs) (y # ys) =
     (let res = str_compare x y in if res \<noteq> 0 then res else segs_compare xs ys)"

text \<open>\<open>compare_nocase\<close> and \<open>compare_case\<close> differ only in how the prefixes are
  compared; the segments go through \<open>std::wstring::compare\<close> in both.\<close>

definition path_compare ::
  "(wstring \<Rightarrow> wstring \<Rightarrow> int) \<Rightarrow> CServerPath \<Rightarrow> CServerPath \<Rightarrow> int" where
  "path_compare prefix_cmp a b =
     (if path_empty a \<noteq> path_empty b then (if path_empty a then -1 else 1)
      else if path_empty a then 0
      else if m_type a < m_type b then -1
      else if m_type b < m_type a then 1
      else
        (case (pfx a, pfx b) of
           (Some x, None) \<Rightarrow> 1
         | (None, Some y) \<Rightarrow> -1
         | (None, None) \<Rightarrow> segs_compare (segs a) (segs b)
         | (Some x, Some y) \<Rightarrow>
             if prefix_cmp x y \<noteq> 0 then prefix_cmp x y else segs_compare (segs a) (segs b)))"

definition compare_nocase :: "libfz \<Rightarrow> CServerPath \<Rightarrow> CServerPath \<Rightarrow> int" where
  "compare_nocase L a b = path_compare (fz_stricmp L) a b"

definition compare_case :: "CServerPath \<Rightarrow> CServerPath \<Rightarrow> int" where
  "compare_case a b = path_compare str_compare a b"

subsection \<open>Common parent and type guessing\<close>

fun common_loop :: "bool \<Rightarrow> wstring list \<Rightarrow> wstring list \<Rightarrow> wstring list \<Rightarrow> wstring list option" where
  "common_loop root acc (x # xs) (y # ys) =
     (if x \<noteq> y then (if \<not> root \<and> acc = [] then None else Some acc)
      else common_loop root (acc @ [x]) xs ys)"
| "common_loop root acc xs ys = Some acc"

definition GetCommonParent :: "libfz \<Rightarrow> CServerPath \<Rightarrow> CServerPath \<Rightarrow> CServerPath" where
  "GetCommonParent L a b =
     (if path_eq a b then a
      else if path_empty a \<or> path_empty b then CServerPath_default
      else
        let tr = traits (m_type a)
        in if m_type a \<noteq> m_type b \<or> (prefixmode tr = 0 \<and> pfx a \<noteq> pfx b) then CServerPath_default
           else if \<not> HasParent a then
             (if IsSubdirOf L b a False False then a else CServerPath_default)
           else if \<not> HasParent b then
             (if IsSubdirOf L a b False False then b else CServerPath_default)
           else
             let segs1 = (if prefixmode tr = 1 \<and> pfx a = None then butlast (segs a) else segs a);
                 segs2 = (if prefixmode tr = 1 \<and> pfx b = None then butlast (segs b) else segs b);
                 pr = (if prefixmode tr = 1 then pfx (GetParent a) else pfx a)
             in (case common_loop (has_root tr) [] segs1 segs2 of
                   None \<Rightarrow> CServerPath_default
                 | Some sl \<Rightarrow> \<lparr>m_data = Some \<lparr>m_segments = sl, m_prefix = pr\<rparr>, m_type = m_type a\<rparr>))"

text \<open>\<open>GuessType\<close>.  Reading \<open>path[0]\<close> of an empty view is undefined: \<^term>\<open>None\<close>.
  The condition \<open>(pos1 = path.find(':'), 2) != npos\<close> of the source is a comma
  expression: it assigns \<open>pos1\<close> and is always true.\<close>

definition is_letter :: "char \<Rightarrow> bool" where
  "is_letter c \<longleftrightarrow> (CHR ''A'' \<le> c \<and> c \<le> CHR ''Z'') \<or> (CHR ''a'' \<le> c \<and> c \<le> CHR ''z'')"

definition GuessType :: "wstring \<Rightarrow> bool \<Rightarrow> ServerType option" where
  "GuessType path isFile =
     (case find_sub '':['' path of
        Some pos1 \<Rightarrow>
          Some (let pos2 = rfind_idx (\<lambda>c. c = CHR '']'') path
                in if pos2 \<noteq> None \<and> pos2 = Some (length path - 1) \<and> \<not> isFile then VMS
                   else if isFile \<and> (case pos2 of None \<Rightarrow> True | Some q \<Rightarrow> pos1 < q) then VMS
                   else UNIX)
      | None \<Rightarrow>
          if path = [] then None
          else if 3 \<le> length path \<and> is_letter (at0 path 0) \<and> at0 path 1 = CHR '':'' \<and>
                  (at0 path 2 = backslash \<or> at0 path 2 = CHR ''/'') then Some DOS
          else if at0 path 0 = FTP_MVS_DOUBLE_QUOTE \<and> last path = FTP_MVS_DOUBLE_QUOTE then Some MVS
          else if at0 path 0 = CHR '':'' then
            (let pos1 = find_idx (\<lambda>c. c = CHR '':'') path
             in (case find_idx (\<lambda>c. c = CHR ''/'') path of
                   None \<Rightarrow> Some VXWORKS
                 | Some slash \<Rightarrow>
                     (case pos1 of
                        None \<Rightarrow> Some UNIX
                      | Some q \<Rightarrow> if q < slash then Some VXWORKS else Some UNIX)))
          else if at0 path 0 = backslash then Some DOS_VIRTUAL
          else Some UNIX)"

end
