(* ===== verification/Server_Path_Canon.thy ===== *)
theory Server_Path_Canon
  imports Server_Path_Ops
begin

text \<open>
  Canonical paths.  \<open>canon_seg\<close> is what \<open>Segmentize\<close> guarantees of each
  segment, \<open>canon_path\<close> what \<open>ChangePath\<close> guarantees of a path; it is kept
  by every later \<open>ChangePath\<close> and \<open>MakeParent\<close>.
\<close>

definition canon_seg :: "ServerType \<Rightarrow> wstring \<Rightarrow> bool" where
  "canon_seg t s \<longleftrightarrow>
     s \<noteq> [] \<and>
     (has_dots (traits t) \<longrightarrow> s \<noteq> ''.'' \<and> s \<noteq> ''..'') \<and>
     (if separatorEscape (traits t) = nul then \<forall>c \<in> set s. \<not> IsSeparator t c
      else last s \<noteq> separatorEscape (traits t) \<and> \<not> IsSeparator t (last s))"

lemma escape_no_dots: "separatorEscape (traits t) \<noteq> nul \<Longrightarrow> \<not> has_dots (traits t)"
  by (cases t) simp_all

lemma nul_neq_chars [simp]:
  "CHR ''['' \<noteq> nul" "CHR '']'' \<noteq> nul" "CHR ''^'' \<noteq> nul" "quote_mark \<noteq> nul"
  "nul \<noteq> CHR ''['' " "nul \<noteq> CHR '']''" "nul \<noteq> CHR ''^''" "nul \<noteq> quote_mark"
  by (simp_all add: nul_def)

lemma sep0_IsSeparator [simp]: "IsSeparator t (sep0 t)"
  by (cases t) (simp_all add: IsSeparator_def sep0_def)

lemma nul_not_separator [simp]: "\<not> IsSeparator t nul"
  by (cases t) (simp_all add: IsSeparator_def nul_def)

subsection \<open>Segmentize yields canonical segments\<close>

lemma append_back_snoc [simp]: "append_back (sl @ [x]) y = sl @ [x @ y]"
proof (induction sl)
  case (Cons a sl)
  then show ?case by (cases sl) auto
qed simp

lemma append_back_nonempty [simp]: "append_back sl s \<noteq> []"
  by (cases "(sl, s)" rule: append_back.cases) auto

lemma append_back_eq: "sl \<noteq> [] \<Longrightarrow> append_back sl s = butlast sl @ [last sl @ s]"
  by (metis append_back_snoc append_butlast_last_id)

lemma append_back_twice: "append_back (append_back sl x) y = append_back sl (x @ y)"
proof (cases sl rule: rev_cases)
  case Nil
  then show ?thesis by simp
next
  case (snoc ys z)
  then show ?thesis by simp
qed

definition loop_inv :: "ServerType \<Rightarrow> wstring list \<Rightarrow> bool \<Rightarrow> bool" where
  "loop_inv t sl app \<longleftrightarrow>
     (\<forall>s \<in> set (if app then butlast sl else sl). canon_seg t s) \<and>
     (app \<longrightarrow> sl \<noteq> [] \<and> separatorEscape (traits t) \<noteq> nul)"

lemma loop_inv_start [canon_intros]: "\<forall>s \<in> set sl. canon_seg t s \<Longrightarrow> loop_inv t sl False"
  by (simp add: loop_inv_def)

lemma add_segment_inv:
  assumes inv: "loop_inv t sl app" and seg: "s \<noteq> []" "\<forall>c \<in> set s. \<not> IsSeparator t c"
  shows "loop_inv t (fst (SegmentizeAddSegment t s sl app)) (snd (SegmentizeAddSegment t s sl app))"
proof (cases "separatorEscape (traits t) = nul")
  case True
  then have "\<not> app" and canon: "\<forall>x \<in> set sl. canon_seg t x" using inv by (auto simp: loop_inv_def)
  moreover have "set (butlast sl) \<subseteq> set sl" by (auto dest: in_set_butlastD)
  moreover have "s \<noteq> ''.'' \<Longrightarrow> s \<noteq> ''..'' \<Longrightarrow> canon_seg t s"
    "\<not> has_dots (traits t) \<Longrightarrow> canon_seg t s"
    using True seg by (auto simp: canon_seg_def)
  ultimately show ?thesis using True
    by (auto simp: SegmentizeAddSegment_def Let_def loop_inv_def)
next
  case False
  let ?e = "separatorEscape (traits t)"
  have dots: "\<not> has_dots (traits t)" using False by (rule escape_no_dots)
  have bk: "set (butlast (append_back sl x)) = set (butlast sl)" if app for x
    using that inv by (simp add: loop_inv_def append_back_eq)
  have "canon_seg t (x @ s)" if "last s \<noteq> ?e" for x
    using that seg dots False by (simp add: canon_seg_def)
  then have "canon_seg t s" "canon_seg t (last sl @ s)" if "last s \<noteq> ?e"
    using that by (metis append_Nil)+
  moreover have "loop_inv t (append_back sl s) False" if app "last s \<noteq> ?e"
    using that inv calculation(2) by (auto simp: loop_inv_def append_back_eq)
  ultimately show ?thesis using inv False dots seg bk
    by (auto simp: SegmentizeAddSegment_def Let_def loop_inv_def)
qed

lemma segmentize_loop_inv:
  "loop_inv t sl app \<Longrightarrow>
     loop_inv t (fst (segmentize_loop t rest sl app)) (snd (segmentize_loop t rest sl app))"
proof (induction t rest sl app rule: segmentize_loop.induct)
  case (1 t rest sl app)
  show ?case
  proof (cases "find_idx (IsSeparator t) rest")
    case None
    then have "\<forall>c \<in> set rest. \<not> IsSeparator t c" by simp
    then show ?thesis using None 1(3) add_segment_inv
      by (simp add: segmentize_loop.simps [of t rest] del: find_idx_None)
  next
    case (Some pos)
    note hit = find_idx_Some [OF Some]
    show ?thesis
    proof (cases "pos = 0")
      case True
      then show ?thesis using 1 Some by (simp add: segmentize_loop.simps [of t rest])
    next
      case False
      have "take pos rest \<noteq> []" using False hit by auto
      then have "loop_inv t (fst (SegmentizeAddSegment t (take pos rest) sl app))
          (snd (SegmentizeAddSegment t (take pos rest) sl app))"
        using add_segment_inv 1(3) hit by blast
      then show ?thesis using 1 Some False
        by (simp add: segmentize_loop.simps [of t rest] Let_def)
    qed
  qed
qed

lemma Segmentize_canon [canon_intros]:
  assumes "Segmentize t str sl = Some sl'" "\<forall>s \<in> set sl. canon_seg t s"
  shows "\<forall>s \<in> set sl'. canon_seg t s"
  using assms segmentize_loop_inv [OF loop_inv_start [OF assms(2)], of str]
  by (auto simp: Segmentize_def Let_def loop_inv_def split: if_splits)

text \<open>The \<open>segments.back()\<close> of the source is never taken of an empty vector.\<close>

lemma segmentize_loop_append_safe:
  "\<forall>s \<in> set sl. canon_seg t s \<Longrightarrow> snd (segmentize_loop t rest sl False) \<Longrightarrow>
     fst (segmentize_loop t rest sl False) \<noteq> []"
  using segmentize_loop_inv [OF loop_inv_start, of sl t rest] by (simp add: loop_inv_def)

subsection \<open>Segmentize inverts joining\<close>

lemma loop_skip_separator [simp]:
  "IsSeparator t c \<Longrightarrow> segmentize_loop t (c # rest) sl app = segmentize_loop t rest sl app"
  by (simp add: segmentize_loop.simps [of t "c # rest"])

lemma loop_Nil [simp]: "segmentize_loop t [] sl app = (sl, app)"
  by (simp add: segmentize_loop.simps)

lemma loop_last:
  "s \<noteq> [] \<Longrightarrow> \<forall>c \<in> set s. \<not> IsSeparator t c \<Longrightarrow>
     segmentize_loop t s sl app = SegmentizeAddSegment t s sl app"
proof -
  assume s: "s \<noteq> []" "\<forall>c \<in> set s. \<not> IsSeparator t c"
  from s(2) have "find_idx (IsSeparator t) s = None" by simp
  with s(1) show ?thesis by (simp add: segmentize_loop.simps [of t s] del: find_idx_None)
qed

lemma loop_piece:
  "s \<noteq> [] \<Longrightarrow> \<forall>c \<in> set s. \<not> IsSeparator t c \<Longrightarrow> IsSeparator t d \<Longrightarrow>
     segmentize_loop t (s @ d # rest) sl app =
     segmentize_loop t rest (fst (SegmentizeAddSegment t s sl app)) (snd (SegmentizeAddSegment t s sl app))"
  by (simp add: segmentize_loop.simps [of t "s @ d # rest"] Let_def)

text \<open>\<open>seg_text\<close>: a segment as \<open>GetPath\<close> prints it.\<close>

definition seg_text :: "ServerType \<Rightarrow> wstring \<Rightarrow> wstring" where
  "seg_text t s =
     (if separatorEscape (traits t) \<noteq> nul
      then replace_char (sep0 t) [separatorEscape (traits t), sep0 t] s else s)"

lemma escape_VMS: "separatorEscape (traits t) \<noteq> nul \<Longrightarrow> t = VMS"
  by (cases t) simp_all

lemma VMS_simps [simp]: "sep0 VMS = CHR ''.''" "IsSeparator VMS c \<longleftrightarrow> c = CHR ''.''"
  by (simp_all add: sep0_def IsSeparator_def)

lemma loop_text_VMS:
  assumes "s \<noteq> []" "last s \<noteq> CHR ''.''" "last s \<noteq> CHR ''^''"
    and tail: "tail = [] \<or> hd tail = CHR ''.''"
  shows "segmentize_loop VMS (replace_char (CHR ''.'') ''^.'' s @ tail) sl app
       = segmentize_loop VMS (drop 1 tail) (if app then append_back sl s else sl @ [s]) False"
  using assms(1-3)
proof (induction "length s" arbitrary: s sl app rule: less_induct)
  case less
  show ?case
  proof (cases "CHR ''.'' \<in> set s")
    case False
    then have shown: "replace_char (CHR ''.'') ''^.'' s = s" by (rule replace_char_absent)
    have nosep: "\<forall>c \<in> set s. \<not> IsSeparator VMS c" using False by auto
    have add: "SegmentizeAddSegment VMS s sl app = (if app then append_back sl s else sl @ [s], False)"
      using less.prems by (simp add: SegmentizeAddSegment_def Let_def)
    show ?thesis
    proof (cases tail)
      case Nil
      then show ?thesis using shown loop_last [OF less.prems(1) nosep] add by simp
    next
      case (Cons d r)
      then have "IsSeparator VMS d" using tail by simp
      then show ?thesis using shown Cons loop_piece [OF less.prems(1) nosep, of d r] add by simp
    qed
  next
    case True
    then obtain a b where s: "s = a @ CHR ''.'' # b" and a: "CHR ''.'' \<notin> set a"
      by (metis split_list_first)
    have b: "b \<noteq> []" using less.prems(2) s by auto
    let ?rest = "replace_char (CHR ''.'') ''^.'' b @ tail"
    let ?sl = "if app then append_back sl (a @ ''.'') else sl @ [a @ ''.'']"
    have shown: "replace_char (CHR ''.'') ''^.'' s @ tail = (a @ ''^'') @ CHR ''.'' # ?rest"
      using a by (simp add: s replace_char_absent)
    have nosep: "\<forall>c \<in> set (a @ ''^''). \<not> IsSeparator VMS c" using a by auto
    have "SegmentizeAddSegment VMS (a @ ''^'') sl app = (?sl, True)"
      by (simp add: SegmentizeAddSegment_def Let_def)
    then have "segmentize_loop VMS (replace_char (CHR ''.'') ''^.'' s @ tail) sl app
        = segmentize_loop VMS ?rest ?sl True"
      using shown loop_piece [OF _ nosep, of "CHR ''.''" ?rest sl app] by simp
    also have "\<dots> = segmentize_loop VMS (drop 1 tail) (append_back ?sl b) False"
      using less.hyps [of b ?sl True] less.prems b s by simp
    finally show ?thesis by (simp add: s append_back_twice)
  qed
qed

lemma loop_text:
  assumes "canon_seg t s" "tail = [] \<or> IsSeparator t (hd tail)"
  shows "segmentize_loop t (seg_text t s @ tail) sl False = segmentize_loop t (drop 1 tail) (sl @ [s]) False"
proof (cases "separatorEscape (traits t) = nul")
  case True
  then have add: "SegmentizeAddSegment t s sl False = (sl @ [s], False)"
    using assms(1) by (auto simp: SegmentizeAddSegment_def canon_seg_def Let_def)
  have s: "s \<noteq> []" "\<forall>c \<in> set s. \<not> IsSeparator t c" "seg_text t s = s"
    using assms(1) True by (auto simp: canon_seg_def seg_text_def)
  show ?thesis
  proof (cases tail)
    case Nil
    then show ?thesis using s add loop_last by simp
  next
    case (Cons d r)
    then show ?thesis using s add assms(2) loop_piece [of s t d r] by simp
  qed
next
  case False
  then have "t = VMS" by (rule escape_VMS)
  then show ?thesis using assms loop_text_VMS [of s tail sl False]
    by (auto simp: canon_seg_def seg_text_def)
qed

lemma loop_join:
  assumes "\<forall>s \<in> set ss. canon_seg t s" "\<forall>c \<in> set trail. IsSeparator t c"
  shows "segmentize_loop t (join [sep0 t] (map (seg_text t) ss) @ trail) sl False = (sl @ ss, False)"
  using assms(1)
proof (induction ss arbitrary: sl)
  case Nil
  have "segmentize_loop t trail sl False = (sl, False)"
    using assms(2) by (induction trail) auto
  then show ?case by simp
next
  case (Cons s ss)
  have trail: "segmentize_loop t trail x False = (x, False)" for x
    using assms(2) by (induction trail) auto
  show ?case
  proof (cases "ss = []")
    case True
    have "trail = [] \<or> IsSeparator t (hd trail)" using assms(2) by (cases trail) auto
    moreover have "segmentize_loop t (drop 1 trail) (sl @ [s]) False = (sl @ [s], False)"
      using trail assms(2) by (cases trail) auto
    ultimately show ?thesis using True Cons.prems loop_text [of t s trail sl] by simp
  next
    case False
    then have "join [sep0 t] (map (seg_text t) (s # ss)) @ trail
        = seg_text t s @ sep0 t # (join [sep0 t] (map (seg_text t) ss) @ trail)"
      by (simp add: join_Cons)
    then show ?thesis
      using Cons loop_text [of t s "sep0 t # (join [sep0 t] (map (seg_text t) ss) @ trail)" sl]
      by simp
  qed
qed

lemma Segmentize_join:
  assumes "\<forall>s \<in> set ss. canon_seg t s" "\<forall>c \<in> set lead. IsSeparator t c" "\<forall>c \<in> set trail. IsSeparator t c"
  shows "Segmentize t (lead @ join [sep0 t] (map (seg_text t) ss) @ trail) sl = Some (sl @ ss)"
proof -
  have "segmentize_loop t (lead @ r) sl False = segmentize_loop t r sl False" for r
    using assms(2) by (induction lead) auto
  then show ?thesis using loop_join [OF assms(1,3)] by (simp add: Segmentize_def Let_def)
qed

end
