(* ===== verification/Server_Path_Invariant.thy ===== *)
theory Server_Path_Invariant
  imports Server_Path_Canon
begin

text \<open>
  What \<open>ChangePath\<close> makes of a path: the shape of the prefix per server type, canonical
  segments, the names of the text walked one by one, and the file that is split off.
\<close>

definition canon_prefix :: "ServerType \<Rightarrow> wstring list \<Rightarrow> wstring option \<Rightarrow> bool" where
  "canon_prefix t sl pr \<longleftrightarrow>
     (case t of
        VMS \<Rightarrow> (case pr of None \<Rightarrow> True | Some x \<Rightarrow> x \<noteq> [] \<and> CHR ''['' \<notin> set x)
      | MVS \<Rightarrow> (case pr of None \<Rightarrow> last (last sl) \<noteq> CHR '')'' | Some x \<Rightarrow> x = ''.'')
      | VXWORKS \<Rightarrow>
          (case pr of
             None \<Rightarrow> False
           | Some x \<Rightarrow> 3 \<le> length x \<and> hd x = CHR '':'' \<and> last x = CHR '':'' \<and>
                       CHR '':'' \<notin> set (butlast (drop 1 x)))
      | CYGWIN \<Rightarrow> pr = None \<or> pr = Some ''/''
      | _ \<Rightarrow> pr = None)"

definition canon_data :: "ServerType \<Rightarrow> CServerPathData \<Rightarrow> bool" where
  "canon_data t d \<longleftrightarrow>
     (\<forall>s \<in> set (m_segments d). canon_seg t s) \<and>
     (has_root (traits t) \<or> m_segments d \<noteq> []) \<and>
     canon_prefix t (m_segments d) (m_prefix d)"

definition canon_path :: "CServerPath \<Rightarrow> bool" where
  "canon_path p \<longleftrightarrow> (case m_data p of None \<Rightarrow> False | Some d \<Rightarrow> canon_data (m_type p) d)"

definition is_dos :: "ServerType \<Rightarrow> bool" where
  "is_dos t \<longleftrightarrow> t = DOS \<or> t = DOS_FWD_SLASHES"

subsection \<open>Segments only\<close>

text \<open>Every case of \<open>DoChangePath\<close> ends in \<open>Segmentize\<close> on the old segments, on
  their first one, or on none.\<close>

definition canon_segs :: "ServerType \<Rightarrow> CServerPathData \<Rightarrow> bool" where
  "canon_segs t d \<longleftrightarrow> (\<forall>s \<in> set (m_segments d). canon_seg t s)"

text \<open>\<open>yields P r\<close>: if the step succeeds, its data satisfy \<open>P\<close>.  The
  introduction rules follow the control flow of the steps.\<close>

definition yields :: "(CServerPathData \<Rightarrow> bool) \<Rightarrow> (CServerPathData \<times> wstring) option \<Rightarrow> bool" where
  "yields P r \<longleftrightarrow> (\<forall>d f. r = Some (d, f) \<longrightarrow> P d)"

lemma yields_None [canon_intros]: "yields P None"
  by (simp add: yields_def)

lemma yields_Some: "P d \<Longrightarrow> yields P (Some (d, f))"
  by (simp add: yields_def)

lemma yields_if [canon_intros]:
  "(b \<Longrightarrow> yields P x) \<Longrightarrow> (\<not> b \<Longrightarrow> yields P y) \<Longrightarrow> yields P (if b then x else y)"
  by simp

lemma yields_option [canon_intros]:
  "(r = None \<Longrightarrow> yields P x) \<Longrightarrow> (\<And>a. r = Some a \<Longrightarrow> yields P (f a)) \<Longrightarrow>
     yields P (case r of None \<Rightarrow> x | Some a \<Rightarrow> f a)"
  by (cases r) auto

lemma yields_prod [canon_intros]:
  "(\<And>a b. r = (a, b) \<Longrightarrow> yields P (f a b)) \<Longrightarrow> yields P (case r of (a, b) \<Rightarrow> f a b)"
  by (cases r) auto

lemma yields_require [canon_intros]: "yields P r \<Longrightarrow> yields P (require_segments e r)"
  by (auto simp: yields_def require_segments_def split: option.splits if_splits)

lemma canon_segs_simps [simp]:
  "canon_segs t empty_data" "canon_segs t (d\<lparr>m_segments := []\<rparr>)"
  "canon_segs t (d\<lparr>m_prefix := x\<rparr>) = canon_segs t d"
  "canon_segs t \<lparr>m_segments = [], m_prefix = x\<rparr>"
  by (simp_all add: canon_segs_def empty_data_def)

lemma canon_segs_hd: "canon_segs t d \<Longrightarrow> m_segments d \<noteq> [] \<Longrightarrow> canon_segs t (d\<lparr>m_segments := [hd (m_segments d)]\<rparr>)"
  by (simp add: canon_segs_def)

lemma yields_finish [canon_intros]:
  "canon_segs t d \<Longrightarrow> yields (canon_segs t) (finish_segments t d dir file)"
  unfolding finish_segments_def yields_def canon_segs_def
  by (auto dest: Segmentize_canon split: option.splits)

lemma change_VMS_segs: "canon_segs VMS d \<Longrightarrow> yields (canon_segs VMS) (change_VMS e d dir isFile)"
  unfolding change_VMS_def Let_def
  by (intro canon_intros yields_Some) (simp_all only: canon_segs_simps)

lemma change_DOS_segs: "canon_segs t d \<Longrightarrow> yields (canon_segs t) (change_DOS t e d dir isFile)"
  unfolding change_DOS_def Let_def
  by (intro canon_intros canon_segs_hd) (simp_all only: canon_segs_simps simp_thms)

lemma change_MVS_inner_segs:
  "canon_segs MVS d \<Longrightarrow> yields (canon_segs MVS) (change_MVS_inner e d dir isFile)"
  unfolding change_MVS_inner_def Let_def
  by (intro canon_intros) (simp_all only: canon_segs_simps)

lemma change_MVS_segs: "canon_segs MVS d \<Longrightarrow> yields (canon_segs MVS) (change_MVS e d dir isFile)"
  unfolding change_MVS_def Let_def
  by (intro canon_intros change_MVS_inner_segs) (simp_all only: canon_segs_simps)

lemma canon_segs_if: "canon_segs t a \<Longrightarrow> canon_segs t b \<Longrightarrow> canon_segs t (if c then a else b)"
  by simp

lemma change_default_segs: "canon_segs t d \<Longrightarrow> yields (canon_segs t) (change_default t e d dir isFile)"
  unfolding change_default_def Let_def
  by (intro canon_intros canon_segs_if) (simp_all only: canon_segs_simps)

lemma change_HPNONSTOP_segs:
  "canon_segs HPNONSTOP d \<Longrightarrow> yields (canon_segs HPNONSTOP) (change_HPNONSTOP e d dir isFile)"
  unfolding change_HPNONSTOP_def Let_def
  by (intro canon_intros canon_segs_if) (simp_all only: canon_segs_simps)

lemma change_VXWORKS_segs:
  "canon_segs VXWORKS d \<Longrightarrow> yields (canon_segs VXWORKS) (change_VXWORKS e d dir isFile)"
  unfolding change_VXWORKS_def Let_def
  by (intro canon_intros canon_segs_if) (simp_all only: canon_segs_simps)

lemma change_CYGWIN_segs:
  "canon_segs CYGWIN d \<Longrightarrow> yields (canon_segs CYGWIN) (change_CYGWIN e d dir isFile)"
  unfolding change_CYGWIN_def Let_def
  by (intro canon_intros canon_segs_if) (simp_all only: canon_segs_simps canon_segs_if)

lemmas change_segs = change_VMS_segs change_DOS_segs change_MVS_segs change_default_segs
  change_HPNONSTOP_segs change_VXWORKS_segs change_CYGWIN_segs

lemma change_by_type_segs:
  "canon_segs t d \<Longrightarrow> yields (canon_segs t) (change_by_type t e d dir isFile)"
  by (cases t) (simp_all add: change_by_type_def change_segs)

lemma DoChangePath_segs:
  assumes "DoChangePath p subdir isFile = Some (d, f)" "canon_segs (m_type p) (data_get p)"
  shows "canon_segs (m_type p) d \<and> (has_root (traits (m_type p)) \<or> subdir = [] \<or> m_segments d \<noteq> [])"
  using assms change_by_type_segs [OF assms(2), of "path_empty p" subdir isFile]
  by (auto simp: DoChangePath_def yields_def split: option.splits if_splits)

text \<open>For all ten server types, and for directories as well as file names,
  a successful \<open>ChangePath\<close> leaves segments that are non-empty, never \<open>.\<close> or
  \<open>..\<close> where dots are special, and free of unescaped separators; a type without a
  root directory keeps at least one segment.\<close>

theorem change_path_segments_canonical:
  assumes "ChangePath p subdir isFile = (True, p', sub')"
    and "path_empty p \<or> canon_segs (m_type p) (data_get p)" and "subdir \<noteq> []"
  shows "\<not> path_empty p' \<and> m_type p' = m_type p \<and> (\<forall>s \<in> set (segs p'). canon_seg (m_type p) s) \<and>
         (has_root (traits (m_type p)) \<or> segs p' \<noteq> [])"
proof -
  from assms(1) obtain d where d: "DoChangePath p subdir isFile = Some (d, sub')"
    and p': "p' = p\<lparr>m_data := Some d\<rparr>"
    by (auto simp: ChangePath_def split: option.splits)
  have "canon_segs (m_type p) (data_get p)"
    using assms(2) by (auto simp: path_empty_def data_get_def)
  from DoChangePath_segs [OF d this] assms(3) show ?thesis
    by (simp add: p' path_empty_def segs_def data_get_def canon_segs_def)
qed

theorem change_path_segments_canonical_witness:
  "let p = CServerPath_make ''C:/a/../b'' DOS
   in ChangePath p ''x/./y/f.txt'' True = (True, CServerPath_make ''C:/b/x/y'' DOS, ''f.txt'') \<and>
      segs (CServerPath_make ''C:/b/x/y'' DOS) = [''C:'', ''b'', ''x'', ''y''] \<and>
      (\<forall>s \<in> set (segs (CServerPath_make ''C:/b/x/y'' DOS)). canon_seg DOS s)"
proof -
  let ?p = "CServerPath_make ''C:/a/../b'' DOS"
  have run: "ChangePath ?p ''x/./y/f.txt'' True = (True, CServerPath_make ''C:/b/x/y'' DOS, ''f.txt'')"
    by code_simp
  have type: "m_type ?p = DOS" by code_simp
  have "path_empty ?p \<or> canon_segs (m_type ?p) (data_get ?p)" by code_simp
  from change_path_segments_canonical [OF run this] type run show ?thesis
    by (simp add: Let_def) code_simp
qed

subsection \<open>DOS paths name by name\<close>

text \<open>The reference for the two DOS types: the names of the text, split at both kinds of slashes, are
  walked one by one from where the first of them starts.  It starts at the drive for \<open>\\\<close>, nowhere for
  \<open>C:\<close>, and in the current directory otherwise, for \<open>C:name\<close> only when \<open>C:\<close> is the current drive.\<close>

definition walk_names :: "wstring list \<Rightarrow> wstring list \<Rightarrow> wstring list" where
  "walk_names sl names =
     foldl (\<lambda>sl x. if x = [] \<or> x = ''.'' then sl else if x = ''..'' then butlast sl else sl @ [x]) sl names"

definition path_names :: "ServerType \<Rightarrow> wstring \<Rightarrow> wstring list" where
  "path_names t str = split_at (set (separators (traits t))) str"

definition dos_start :: "wstring list \<Rightarrow> wstring \<Rightarrow> (wstring list \<times> wstring) option" where
  "dos_start sl f =
     (let drive = takeWhile (\<lambda>c. c \<noteq> CHR '':'') f @ '':''; rest = drop (length drive) f
      in if CHR '':'' \<notin> set f then (if f \<noteq> [] then Some (sl, f) else if sl = [] then None else Some ([hd sl], f))
         else if drive = '':'' then None
         else if rest = [] then Some ([], f)
         else if sl \<noteq> [] \<and> hd sl = drive then Some (sl, rest) else None)"

lemma walk_names_simps [simp]:
  "walk_names sl [] = sl" "walk_names sl ([] # ns) = walk_names sl ns"
  "walk_names sl (ns @ [[]]) = walk_names sl ns"
  by (simp_all add: walk_names_def)

lemma split_at_first:
  obtains r q where "s = takeWhile (\<lambda>c. c \<notin> ds) s @ r" "r = [] \<or> hd r \<in> ds"
    "\<And>x. \<forall>c \<in> set x. c \<notin> ds \<Longrightarrow> split_at ds (x @ r) = x # q" "r \<noteq> [] \<Longrightarrow> q = split_at ds (tl r)"
proof
  let ?r = "dropWhile (\<lambda>c. c \<notin> ds) s"
  show "s = takeWhile (\<lambda>c. c \<notin> ds) s @ ?r" by simp
  show hd: "?r = [] \<or> hd ?r \<in> ds" using hd_dropWhile [of "\<lambda>c. c \<notin> ds" s] by blast
  show "split_at ds (x @ ?r) = x # (if ?r = [] then [] else split_at ds (tl ?r))" if "\<forall>c \<in> set x. c \<notin> ds" for x
  proof (cases "?r")
    case Nil
    then show ?thesis using split_at_clean [OF that] by (simp only: append_Nil2 if_True simp_thms)
  next
    case (Cons c cs)
    then show ?thesis using split_at_join_step [OF that, of c cs] hd by simp
  qed
  show "?r \<noteq> [] \<Longrightarrow> (if ?r = [] then [] else split_at ds (tl ?r)) = split_at ds (tl ?r)" by (rule if_not_P)
qed

lemma segmentize_walk:
  assumes "separatorEscape (traits t) = nul" "has_dots (traits t)"
  shows "segmentize_loop t rest sl False = (walk_names sl (path_names t rest), False)"
proof (induction "length rest" arbitrary: rest sl rule: less_induct)
  case less
  have add: "SegmentizeAddSegment t x sl False = (walk_names sl [x], False)" if "x \<noteq> []" for x sl
    using that assms by (simp add: SegmentizeAddSegment_def walk_names_def)
  show ?case
  proof (cases "find_idx (IsSeparator t) rest")
    case None
    then have "path_names t rest = [rest]"
      by (simp add: path_names_def split_at_clean IsSeparator_def)
    then show ?thesis using None add
      by (simp add: segmentize_loop.simps [of t rest] del: find_idx_None)
  next
    case (Some pos)
    note hit = find_idx_Some [OF Some]
    have rest: "rest = take pos rest @ rest ! pos # drop (Suc pos) rest" by (rule id_take_nth_drop) (use hit in simp)
    have "split_at (set (separators (traits t))) (take pos rest @ rest ! pos # drop (Suc pos) rest)
        = take pos rest # split_at (set (separators (traits t))) (drop (Suc pos) rest)"
      by (rule split_at_join_step) (use hit in \<open>simp_all add: IsSeparator_def\<close>)
    then have names: "path_names t rest = take pos rest # path_names t (drop (Suc pos) rest)"
      using rest by (simp add: path_names_def)
    have ih: "segmentize_loop t (drop (Suc pos) rest) sl False
        = (walk_names sl (path_names t (drop (Suc pos) rest)), False)" for sl
      using hit by (intro less) auto
    have ne: "take pos rest \<noteq> []" if "pos \<noteq> 0" using that hit by auto
    show ?thesis
      using Some ih [of sl] ih [of "walk_names sl [take pos rest]"] add [OF ne] names
      by (cases "pos = 0") (simp_all add: segmentize_loop.simps [of t rest] Let_def walk_names_def)
  qed
qed

lemma finish_walk:
  assumes "separatorEscape (traits t) = nul" "has_dots (traits t)"
  shows "finish_segments t d dir file =
    Some (d\<lparr>m_segments := walk_names (m_segments d) (path_names t dir)\<rparr>, file)"
  by (simp add: finish_segments_def Segmentize_def segmentize_walk [OF assms])

lemma ExtractFile_cases:
  assumes "ExtractFile t dir = Some (d', f)"
  obtains "d' = []" "f = dir" "\<forall>c \<in> set f. \<not> IsSeparator t c"
  | x c where "dir = x @ c # f" "d' = x @ [c]" "IsSeparator t c" "f \<noteq> []" "\<forall>c \<in> set f. \<not> IsSeparator t c"
proof (cases "rfind_idx (IsSeparator t) dir")
  case None
  then have "d' = []" "f = dir" using assms by (simp_all add: ExtractFile_def del: rfind_idx_None)
  then show ?thesis using that(1) None by simp
next
  case (Some pos)
  note hit = rfind_idx_Some [OF Some]
  have pos: "pos \<noteq> length dir - 1" "d' = take (Suc pos) dir" "f = drop (Suc pos) dir"
    using assms Some by (auto simp: ExtractFile_def split: if_splits)
  have "dir = take pos dir @ dir ! pos # drop (Suc pos) dir" by (rule id_take_nth_drop) (use hit in simp)
  then show ?thesis using that(2) [of "take pos dir" "dir ! pos"] pos hit
    by (auto simp: take_Suc_conv_app_nth)
qed

lemma split_file_walk:
  assumes "split_file t isFile dir = Some (d', f)"
  shows "walk_names sl (path_names t d') =
    walk_names sl (if isFile then butlast (path_names t dir) else path_names t dir)"
proof (cases isFile)
  case True
  then have "ExtractFile t dir = Some (d', f)" using assms by (simp add: split_file_def)
  then show ?thesis
  proof (cases rule: ExtractFile_cases)
    case 1
    then show ?thesis using True by (simp add: path_names_def split_at_clean IsSeparator_def)
  next
    case (2 x c)
    then have "path_names t dir = path_names t x @ [f]" "path_names t d' = path_names t x @ [[]]"
      by (simp_all add: path_names_def split_at_append split_at_clean IsSeparator_def)
    then show ?thesis using True by simp
  qed
qed (use assms in \<open>simp add: split_file_def\<close>)

lemma require_segments_Some: "require_segments e r = Some x \<Longrightarrow> r = Some x"
  by (auto simp: require_segments_def split: option.splits if_splits)

lemma find_idx_takeWhile: "(case find_idx P s of None \<Rightarrow> length s | Some i \<Rightarrow> i) = length (takeWhile (\<lambda>c. \<not> P c) s)"
  by (induction s) (auto split: option.splits simp del: find_idx_None)

lemma takeWhile_find_idx: "find_idx P s = Some i \<Longrightarrow> takeWhile (\<lambda>c. \<not> P c) s = take i s"
  by (induction s arbitrary: i) (auto split: if_splits)

text \<open>The file part of a text: what follows the last separator, or the drive or device.  It is empty
  only behind a bare VxWorks device and, for the DOS types, a single separator.\<close>

definition file_part :: "ServerType \<Rightarrow> wstring \<Rightarrow> wstring \<Rightarrow> bool" where
  "file_part t dir f \<longleftrightarrow>
     (\<exists>pre. dir = pre @ f \<and> (\<forall>c \<in> set f. \<not> IsSeparator t c) \<and>
        (pre = [] \<or> IsSeparator t (last pre) \<or> last pre = CHR '':'' \<and> (is_dos t \<or> t = VXWORKS)) \<and>
        (f = [] \<longrightarrow> t = VXWORKS \<or> is_dos t \<and> length dir = 1))"

definition after_separator :: "ServerType \<Rightarrow> wstring \<Rightarrow> wstring \<Rightarrow> bool" where
  "after_separator t dir f \<longleftrightarrow>
     (\<exists>pre. dir = pre @ f \<and> (\<forall>c \<in> set f. \<not> IsSeparator t c) \<and> (pre = [] \<or> IsSeparator t (last pre)))"

lemma split_file_after:
  assumes "split_file t True dir = Some (d', f)"
  shows "after_separator t dir f" "dir \<noteq> [] \<Longrightarrow> f \<noteq> []"
proof -
  have "ExtractFile t dir = Some (d', f)" using assms by (simp add: split_file_def)
  then have "after_separator t dir f \<and> (dir \<noteq> [] \<longrightarrow> f \<noteq> [])"
  proof (cases rule: ExtractFile_cases)
    case 1
    then show ?thesis by (simp add: after_separator_def)
  next
    case (2 x c)
    then show ?thesis unfolding after_separator_def by (auto intro!: exI [of _ "x @ [c]"])
  qed
  then show "after_separator t dir f" "dir \<noteq> [] \<Longrightarrow> f \<noteq> []" by simp_all
qed

lemma after_separator_Cons: "IsSeparator t c \<Longrightarrow> after_separator t dir f \<Longrightarrow> after_separator t (c # dir) f"
  unfolding after_separator_def by (metis append_Cons last.simps)

lemma file_part_after:
  assumes "after_separator t rest f" "pre = [] \<or> last pre = CHR '':'' \<and> (is_dos t \<or> t = VXWORKS)"
    and "f = [] \<longrightarrow> t = VXWORKS \<or> is_dos t \<and> length (pre @ rest) = 1"
  shows "file_part t (pre @ rest) f"
proof -
  obtain p where p: "rest = p @ f" "\<forall>c \<in> set f. \<not> IsSeparator t c" "p = [] \<or> IsSeparator t (last p)"
    using assms(1) by (auto simp: after_separator_def)
  then show ?thesis unfolding file_part_def using assms(2,3)
    by (intro exI [of _ "pre @ p"]) (auto simp: last_append)
qed

text \<open>The two DOS types from the first name of the text: where it starts and what is walked.\<close>

lemma change_DOS_walk:
  assumes "is_dos t" "change_DOS t e d dir isFile = Some (d', f)" "dir \<noteq> []"
  shows "\<exists>base n. dos_start (m_segments d) (hd (path_names t dir)) = Some (base, n) \<and>
      m_segments d' = walk_names base (if isFile then butlast (n # tl (path_names t dir)) else n # tl (path_names t dir)) \<and>
      (CHR '':'' \<in> set dir \<longrightarrow> CHR '':'' \<in> set (hd (path_names t dir))) \<and> (isFile \<longrightarrow> file_part t dir f)"
proof -
  have t: "separatorEscape (traits t) = nul" "has_dots (traits t)" using assms(1) by (auto simp: is_dos_def)
  have colon_sep: "\<not> IsSeparator t (CHR '':'')" using assms(1) by (auto simp: is_dos_def IsSeparator_def)
  define ds where "ds = set (separators (traits t))"
  have is_sep: "IsSeparator t c \<longleftrightarrow> c \<in> ds" for c by (simp add: ds_def IsSeparator_def)
  define g where "g = takeWhile (\<lambda>c. c \<notin> ds) dir"
  obtain r q where r: "dir = g @ r" "r = [] \<or> hd r \<in> ds"
    "\<And>x. \<forall>c \<in> set x. c \<notin> ds \<Longrightarrow> split_at ds (x @ r) = x # q" "r \<noteq> [] \<Longrightarrow> q = split_at ds (tl r)"
    using split_at_first [of dir ds, folded g_def] by metis
  have g: "\<forall>c \<in> set g. c \<notin> ds" by (auto simp: g_def dest: set_takeWhileD)
  have names: "path_names t (x @ r) = x # q" if "\<forall>c \<in> set x. c \<notin> ds" for x
    using r(3) [OF that] by (simp add: path_names_def ds_def)
  have sep: "(case find_idx (IsSeparator t) dir of None \<Rightarrow> length dir | Some s \<Rightarrow> s) = length g"
    by (simp add: find_idx_takeWhile g_def is_sep)
  define fin where "fin b x = (case split_file t isFile x of None \<Rightarrow> None
      | Some (dir'', file) \<Rightarrow> require_segments e (finish_segments t (d\<lparr>m_segments := b\<rparr>) dir'' file))" for b x
  define rel where "rel x = (if IsSeparator t (at0 x 0)
      then (if m_segments d = [] then None else fin [hd (m_segments d)] (drop 1 x)) else fin (m_segments d) x)" for x
  have same: "d\<lparr>m_segments := m_segments d\<rparr> = d" by simp
  have run: "(case find_idx (\<lambda>c. c = CHR '':'') dir of None \<Rightarrow> rel dir
      | Some colon \<Rightarrow>
          if colon = 0 then None
          else if colon + 1 = length g then fin [] dir
          else if colon > length g then None
          else if colon + 1 < length g
          then (if m_segments d = [] \<or> hd (m_segments d) \<noteq> take (colon + 1) dir then None
                else rel (drop (colon + 1) dir))
          else rel dir) = Some (d', f)"
    using assms(2) unfolding change_DOS_def Let_def sep rel_def fin_def same .
  have fin: "m_segments d' = walk_names b (if isFile then butlast (path_names t x) else path_names t x) \<and>
      (isFile \<longrightarrow> after_separator t x f \<and> (x \<noteq> [] \<longrightarrow> f \<noteq> []))" if fx: "fin b x = Some (d', f)" for b x
  proof -
    obtain x' y where s: "split_file t isFile x = Some (x', y)"
      using fx by (auto simp: fin_def split: option.splits)
    then have "finish_segments t (d\<lparr>m_segments := b\<rparr>) x' y = Some (d', f)"
      using fx by (auto simp: fin_def dest: require_segments_Some)
    then show ?thesis using split_file_walk [OF s, of b] split_file_after [of t x x' y] s by (auto simp: finish_walk [OF t])
  qed
  let ?W = "\<lambda>base n. m_segments d' = walk_names base (if isFile then butlast (n # q) else n # q)"
  let ?F = "\<lambda>x. isFile \<longrightarrow> after_separator t (x @ r) f \<and> (f = [] \<longrightarrow> x = [] \<and> length r = 1)"
  have rel: "(if x \<noteq> [] then ?W (m_segments d) x else m_segments d \<noteq> [] \<and> ?W [hd (m_segments d)] []) \<and> ?F x"
    if x: "rel (x @ r) = Some (d', f)" "\<forall>c \<in> set x. c \<notin> ds" "x @ r \<noteq> []" for x
  proof (cases "x = []")
    case True
    then have "r \<noteq> []" "IsSeparator t (at0 r 0)"
      using x(3) r(2) by (auto simp: is_sep at0_def hd_conv_nth)
    moreover have "path_names t (drop 1 r) = q" using r(4) calculation(1) by (simp add: path_names_def ds_def drop_Suc)
    moreover have "q \<noteq> []" using r(4) calculation(1) by simp
    moreover obtain c z where "r = c # z" "IsSeparator t c" using calculation(1,2) by (cases r) auto
    ultimately show ?thesis using True x(1) fin [of "[hd (m_segments d)]" "drop 1 r"] after_separator_Cons [of t c z f]
      by (auto simp: rel_def split: if_splits)
  next
    case False
    then have "\<not> IsSeparator t (at0 (x @ r) 0)" using x(2) by (cases x) (simp_all add: is_sep)
    then show ?thesis using False x(1) fin [of "m_segments d" "x @ r"] names [OF x(2)] by (simp add: rel_def)
  qed
  note dir = names [OF g, folded r(1)]
  show ?thesis
  proof (cases "find_idx (\<lambda>c. c = CHR '':'') dir")
    case None
    then have "CHR '':'' \<notin> set dir" by auto
    moreover have "CHR '':'' \<notin> set g" using calculation r(1) by auto
    moreover have "rel (g @ r) = Some (d', f)" using run None r(1) by (simp del: find_idx_None)
    moreover have "isFile \<longrightarrow> file_part t dir f"
      using rel [of g] calculation(3) g assms(1,3) r(1) file_part_after [of t dir f "[]"] by auto
    ultimately show ?thesis using rel [of g] g assms(3) r(1) dir by (auto simp: dos_start_def split: if_splits)
  next
    case (Some colon)
    note hit = find_idx_Some [OF Some]
    have "colon \<noteq> length g"
    proof
      assume "colon = length g"
      then have "r \<noteq> []" "hd r = CHR '':''" using hit r(1) by (auto simp: nth_append hd_conv_nth)
      then show False using r(2) colon_sep is_sep by auto
    qed
    then have lt: "0 < colon" "colon < length g" using run Some by (auto split: if_splits)
    then have drive: "takeWhile (\<lambda>c. c \<noteq> CHR '':'') g = take colon g" "CHR '':'' \<in> set g" "take colon g @ '':'' = take (Suc colon) g"
      using hit r(1) takeWhile_find_idx [OF Some] by (auto simp: takeWhile_append nth_append take_Suc_conv_app_nth split: if_splits)
    show ?thesis
    proof (cases "colon + 1 = length g")
      case True
      then have "fin [] dir = Some (d', f)" using run Some lt by simp
      then have "?W [] g" "isFile \<longrightarrow> file_part t dir f"
        using fin [of "[]" dir] dir assms(3) file_part_after [of t dir f "[]"] by simp_all
      moreover have "g \<noteq> '':''" using lt True by auto
      ultimately show ?thesis using dir drive True by (simp add: dos_start_def Let_def)
    next
      case False
      then have more: "colon + 1 < length g" using lt by simp
      then have "m_segments d \<noteq> []" "hd (m_segments d) = take (Suc colon) g"
        and x: "rel (drop (Suc colon) g @ r) = Some (d', f)"
        using run Some lt r(1) by (auto split: if_splits)
      moreover have "\<forall>c \<in> set (drop (Suc colon) g). c \<notin> ds" using g by (auto dest: in_set_dropD)
      ultimately have W: "?W (m_segments d) (drop (Suc colon) g)" "?F (drop (Suc colon) g)"
        using rel [OF x] more by (simp_all split: if_splits)
      have cut: "dir = take (Suc colon) g @ drop (Suc colon) g @ r" using r(1) by simp
      have "isFile \<longrightarrow> file_part t dir f"
        unfolding cut using W(2) assms(1) more by (intro impI file_part_after) (auto simp flip: drive(3))
      moreover have "take (Suc colon) g \<noteq> '':''" using lt more by (auto dest: arg_cong [where f = length])
      ultimately show ?thesis using W(1) dir drive lt more \<open>m_segments d \<noteq> []\<close> \<open>hd (m_segments d) = take (Suc colon) g\<close>
        by (simp add: dos_start_def Let_def)
    qed
  qed
qed

lemma finish_segments_file: "finish_segments t d dir f = Some (d', f') \<Longrightarrow> f' = f"
  by (auto simp: finish_segments_def split: option.splits)

lemma split_finish_file:
  assumes "(case split_file t True dir of None \<Rightarrow> None | Some (dir', y) \<Rightarrow> finish_segments t b dir' y) = Some (d', f)"
  shows "after_separator t dir f \<and> (dir \<noteq> [] \<longrightarrow> f \<noteq> [])"
  using assms split_file_after [of t dir _ f] by (auto dest!: finish_segments_file split: option.splits)

lemma change_default_file:
  "change_default t e d dir True = Some (d', f) \<Longrightarrow> dir \<noteq> [] \<Longrightarrow> file_part t dir f"
  using split_finish_file [where t = t and dir = dir] file_part_after [of t dir f "[]"]
  by (simp add: change_default_def Let_def split: if_splits)

lemma change_HPNONSTOP_file:
  "change_HPNONSTOP e d dir True = Some (d', f) \<Longrightarrow> dir \<noteq> [] \<Longrightarrow> file_part HPNONSTOP dir f"
  using split_file_after [of HPNONSTOP dir _ f] file_part_after [of HPNONSTOP dir f "[]"]
  by (auto simp: change_HPNONSTOP_def Let_def dest!: require_segments_Some finish_segments_file split: option.splits)

lemma change_VXWORKS_file:
  assumes "change_VXWORKS e d dir True = Some (d', f)" "dir \<noteq> []"
  shows "file_part VXWORKS dir f"
proof (cases "at0 dir 0 = CHR '':''")
  case False
  then show ?thesis
    using assms split_finish_file [where t = VXWORKS and dir = dir] file_part_after [of VXWORKS dir f "[]"]
    by (simp add: change_VXWORKS_def split: if_splits)
next
  case True
  then obtain k b where k: "find_idx (\<lambda>c. c = CHR '':'') (drop 1 dir) = Some k"
    "(case split_file VXWORKS True (drop (k + 2) dir) of None \<Rightarrow> None
      | Some (dir', y) \<Rightarrow> finish_segments VXWORKS b dir' y) = Some (d', f)"
    using assms(1) by (auto simp: change_VXWORKS_def Let_def split: option.splits if_splits)
  have "k + 1 < length dir" "dir ! (k + 1) = CHR '':''"
    using find_idx_less [OF k(1)] find_idx_hit [OF k(1)] by simp_all
  then have "last (take (k + 2) dir) = CHR '':''" by (simp add: take_Suc_conv_app_nth)
  then show ?thesis
    using file_part_after [of VXWORKS "drop (k + 2) dir" f "take (k + 2) dir"] split_finish_file [OF k(2)] by simp
qed

lemma change_CYGWIN_file:
  assumes "change_CYGWIN e d dir True = Some (d', f)" "dir \<noteq> []"
  shows "file_part CYGWIN dir f"
proof -
  let ?double = "at0 dir 0 = CHR ''/'' \<and> at0 dir 1 = CHR ''/''"
  obtain b where b: "(case split_file CYGWIN True (if ?double then drop 1 dir else dir) of None \<Rightarrow> None
      | Some (dir', y) \<Rightarrow> finish_segments CYGWIN b dir' y) = Some (d', f)"
    using assms(1) unfolding change_CYGWIN_def Let_def by (auto split: if_splits)
  note sf = split_finish_file [OF b]
  have "after_separator CYGWIN dir f \<and> f \<noteq> []"
  proof (cases ?double)
    case True
    then obtain c x where dir: "dir = CHR ''/'' # c # x" using assms(2) by (cases dir; cases "tl dir") (auto simp: nul_def)
    have "IsSeparator CYGWIN (CHR ''/'')" by (simp add: IsSeparator_def)
    then show ?thesis using sf True after_separator_Cons [of CYGWIN "CHR ''/''" "c # x" f] by (simp add: dir)
  qed (use sf assms(2) in auto)
  then show ?thesis using file_part_after [of CYGWIN dir f "[]"] by simp
qed

text \<open>For all types but VMS and MVS, whose files are not what follows a separator.\<close>

lemma change_by_type_file:
  assumes "change_by_type t e d dir True = Some (d', f)" "dir \<noteq> []" "t \<noteq> VMS" "t \<noteq> MVS"
  shows "file_part t dir f"
proof (cases "is_dos t")
  case True
  have "change_DOS t e d dir True = Some (d', f)" using assms(1) True by (auto simp: change_by_type_def is_dos_def)
  from change_DOS_walk [OF True this assms(2)] show ?thesis by auto
next
  case False
  then show ?thesis
    using assms change_default_file change_HPNONSTOP_file change_VXWORKS_file change_CYGWIN_file
    by (cases t) (auto simp: change_by_type_def is_dos_def)
qed

end
