(* ===== verification/Server_Path_Roundtrip.thy ===== *)
theory Server_Path_Roundtrip
  imports Server_Path_Invariant
begin

text \<open>
  Printing and parsing of paths.  \<open>ChangePath\<close> keeps canonical paths canonical,
  and \<open>SetPath\<close> of what \<open>GetPath\<close> prints gives a canonical path back.
\<close>

subsection \<open>Canonical prefixes are kept\<close>

lemma canon_prefix_indep: "t \<noteq> MVS \<Longrightarrow> canon_prefix t sl pr = canon_prefix t [] pr"
  by (cases t) (simp_all add: canon_prefix_def)

definition prefix_ok :: "ServerType \<Rightarrow> CServerPathData \<Rightarrow> bool" where
  "prefix_ok t d \<longleftrightarrow> canon_prefix t (m_segments d) (m_prefix d)"

lemma prefix_ok_indep: "t \<noteq> MVS \<Longrightarrow> canon_prefix t [] (m_prefix d) \<Longrightarrow> prefix_ok t d"
  unfolding prefix_ok_def using canon_prefix_indep by metis

lemma yields_finish_prefix:
  assumes "t \<noteq> MVS" "canon_prefix t [] (m_prefix d)"
  shows "yields (prefix_ok t) (finish_segments t d dir file)"
proof -
  have "prefix_ok t (d\<lparr>m_segments := sl\<rparr>)" for sl
    using prefix_ok_indep [OF assms(1)] assms(2) by simp
  then show ?thesis
    unfolding finish_segments_def by (intro canon_intros yields_Some)
qed

lemma change_default_prefix:
  "t \<noteq> MVS \<Longrightarrow> canon_prefix t [] (m_prefix d) \<Longrightarrow> yields (prefix_ok t) (change_default t e d dir isFile)"
  unfolding change_default_def Let_def
  by (intro canon_intros yields_finish_prefix) simp_all

lemma change_HPNONSTOP_prefix:
  "canon_prefix HPNONSTOP [] (m_prefix d) \<Longrightarrow> yields (prefix_ok HPNONSTOP) (change_HPNONSTOP e d dir isFile)"
  unfolding change_HPNONSTOP_def Let_def
  by (intro canon_intros yields_finish_prefix) simp_all

lemma change_CYGWIN_prefix:
  assumes "canon_prefix CYGWIN [] (m_prefix d)"
  shows "yields (prefix_ok CYGWIN) (change_CYGWIN e d dir isFile)"
proof -
  have "canon_prefix CYGWIN [] (Some [sep0 CYGWIN])" "canon_prefix CYGWIN [] (m_prefix empty_data)"
    by (simp_all add: canon_prefix_def sep0_def empty_data_def)
  then have "canon_prefix CYGWIN []
      (m_prefix (if b then (if c then empty_data else d)\<lparr>m_prefix := Some [sep0 CYGWIN]\<rparr>
                 else if c then empty_data else d))" for b c
    using assms by simp
  then show ?thesis
    unfolding change_CYGWIN_def Let_def
    by (intro canon_intros yields_finish_prefix) simp_all
qed

lemma colon_prefix_ok:
  assumes "hd dir = CHR '':''" "find_idx (\<lambda>c. c = CHR '':'') (drop 1 dir) = Some k" "k \<noteq> 0"
  shows "canon_prefix VXWORKS [] (Some (take (k + 2) dir))"
proof -
  have k: "k < length dir - 1" using find_idx_less [OF assms(2)] by simp
  moreover have "drop 1 dir ! k = CHR '':''" by (rule find_idx_hit [OF assms(2)])
  ultimately have "dir ! (k + 1) = CHR '':''" by simp
  have clean: "CHR '':'' \<notin> set (take k (drop 1 dir))" using find_idx_clean [OF assms(2)] by fast
  from k \<open>dir ! (k + 1) = CHR '':''\<close> have "take (k + 2) dir = take (k + 1) dir @ [CHR '':'']"
    by (simp add: take_Suc_conv_app_nth)
  moreover have "take (k + 1) dir = hd dir # take k (drop 1 dir)"
    using k by (cases dir) auto
  ultimately show ?thesis using assms(1,3) clean k by (simp add: canon_prefix_def)
qed

lemma change_VXWORKS_prefix:
  assumes "e \<or> canon_prefix VXWORKS [] (m_prefix d)"
  shows "yields (prefix_ok VXWORKS) (change_VXWORKS e d dir isFile)"
proof -
  have hd: "hd dir = CHR '':''" if "\<not> at0 dir 0 \<noteq> CHR '':''"
    using that by (cases dir) (auto simp: nul_def)
  have new: "canon_prefix VXWORKS [] (m_prefix \<lparr>m_segments = [], m_prefix = Some (take (k + 2) dir)\<rparr>)"
    if "\<not> at0 dir 0 \<noteq> CHR '':''" "find_idx (\<lambda>c. c = CHR '':'') (drop 1 dir) = Some k" "k \<noteq> 0" for k
    using colon_prefix_ok [OF hd [OF that(1)] that(2,3)] by simp
  have old: "canon_prefix VXWORKS [] (m_prefix d)" if "\<not> e" using that assms by blast
  show ?thesis
    unfolding change_VXWORKS_def Let_def
    by (intro canon_intros yields_finish_prefix; (rule new old)?) simp_all
qed

lemma change_VMS_prefix:
  assumes "canon_prefix VMS [] (m_prefix d)"
  shows "yields (prefix_ok VMS) (change_VMS e d dir isFile)"
proof -
  have new: "canon_prefix VMS [] (Some (take i (take j dir)))"
    if "find_idx (\<lambda>c. c = left_enclosure (traits VMS)) dir = Some i" "i \<noteq> 0" "\<not> j \<le> i + 1" for i j
  proof -
    have "take i (take j dir) = take i dir" using that(3) by simp
    moreover have "take i dir \<noteq> []" using find_idx_less [OF that(1)] that(2) by auto
    moreover have "CHR ''['' \<notin> set (take i dir)"
      using find_idx_clean [OF that(1)] by (metis traits.simps(2) traits_mk(3))
    ultimately show ?thesis by (simp add: canon_prefix_def)
  qed
  have upd: "canon_prefix VMS [] (m_prefix (x\<lparr>m_segments := []\<rparr>))" if "canon_prefix VMS [] (m_prefix x)" for x
    using that by simp
  have cond: "canon_prefix VMS [] (m_prefix (if b then d\<lparr>m_prefix := x\<rparr> else d))"
    if "b \<Longrightarrow> canon_prefix VMS [] x" for b x
    using that assms by simp
  have "prefix_ok VMS d" using assms by (intro prefix_ok_indep) simp_all
  then show ?thesis
    unfolding change_VMS_def Let_def
    by (intro canon_intros yields_finish_prefix yields_Some upd cond new) (simp_all add: assms)
qed

subsection \<open>MVS: the suffix\<close>

lemma loop_last_char:
  assumes "separatorEscape (traits t) = nul" "\<not> has_dots (traits t)"
  shows "\<not> app \<Longrightarrow> rest \<noteq> [] \<Longrightarrow> \<not> IsSeparator t (last rest) \<Longrightarrow>
     \<not> snd (segmentize_loop t rest sl app) \<and> fst (segmentize_loop t rest sl app) \<noteq> [] \<and>
     last (last (fst (segmentize_loop t rest sl app))) = last rest"
proof (induction t\<equiv>t rest sl app rule: segmentize_loop.induct)
  case (1 rest sl app)
  have add: "SegmentizeAddSegment t s sl app = (sl @ [s], False)" for s sl
    using assms 1(3) by (simp add: SegmentizeAddSegment_def Let_def)
  show ?case
  proof (cases "find_idx (IsSeparator t) rest")
    case None
    then show ?thesis using 1(4) add
      by (simp add: segmentize_loop.simps [of t rest] del: find_idx_None)
  next
    case (Some pos)
    note hit = find_idx_Some [OF Some]
    have "pos \<noteq> length rest - 1" using hit 1(4,5) by (metis last_conv_nth)
    then have tail: "drop (pos + 1) rest \<noteq> []" "last (drop (pos + 1) rest) = last rest"
      using hit by auto
    show ?thesis
    proof (cases "pos = 0")
      case True
      then show ?thesis using 1(1) [OF Some True 1(3)] tail 1(5) Some
        by (simp add: segmentize_loop.simps [of t rest])
    next
      case False
      then show ?thesis using 1(2) [OF Some False] tail 1(3,5) Some add
        by (simp add: segmentize_loop.simps [of t rest] Let_def)
    qed
  qed
qed

lemma Segmentize_last_char:
  assumes "Segmentize MVS dir sl = Some sl'" "dir \<noteq> []" "last dir \<noteq> CHR ''.''"
  shows "sl' \<noteq> [] \<and> last (last sl') = last dir"
proof -
  have "\<not> IsSeparator MVS (last dir)" using assms(3) by (simp add: IsSeparator_def)
  then show ?thesis
    using assms(1,2) loop_last_char [of MVS False dir sl]
    by (auto simp: Segmentize_def Let_def split: if_splits)
qed

definition mvs_ok :: "CServerPathData \<Rightarrow> bool" where
  "mvs_ok d \<longleftrightarrow> m_segments d \<noteq> [] \<longrightarrow> prefix_ok MVS d"

lemma change_MVS_inner_prefix:
  assumes "dir \<noteq> [] \<or> m_segments d = []"
  shows "yields mvs_ok (change_MVS_inner e d dir False)"
proof -
  have dot: "yields mvs_ok (finish_segments MVS (d'\<lparr>m_prefix := Some ''.''\<rparr>) dir [])" for d'
    unfolding yields_def finish_segments_def
    by (auto simp: mvs_ok_def prefix_ok_def canon_prefix_def split: option.splits)
  have none: "yields mvs_ok (finish_segments MVS (d\<lparr>m_prefix := None\<rparr>) dir [])"
    if "\<not> back_is dir (CHR '')'')" "\<not> back_is dir (CHR ''.'')"
  proof (cases "dir = []")
    case True
    then show ?thesis using assms unfolding yields_def finish_segments_def
      by (auto simp: mvs_ok_def Segmentize_def)
  next
    case False
    then have "last dir \<noteq> CHR ''.''" "last dir \<noteq> CHR '')''" using that by (auto simp: back_is_def)
    then show ?thesis using Segmentize_last_char [OF _ False] unfolding yields_def finish_segments_def
      by (auto simp: mvs_ok_def prefix_ok_def canon_prefix_def split: option.splits)
  qed
  show ?thesis
    unfolding change_MVS_inner_def Let_def
    by (intro canon_intros) (use dot none in \<open>auto simp: yields_None\<close>)
qed

lemma strip_mvs_quotes_nonempty: "strip_mvs_quotes dir \<noteq> [] \<Longrightarrow> dir \<noteq> []"
  by (auto simp: strip_mvs_quotes_def)

lemma change_MVS_prefix: "yields mvs_ok (change_MVS e d dir False)"
  unfolding change_MVS_def Let_def
  by (intro canon_intros change_MVS_inner_prefix) simp_all

lemma yields_mono: "yields P r \<Longrightarrow> (\<And>d. P d \<Longrightarrow> Q d) \<Longrightarrow> yields Q r"
  by (auto simp: yields_def)

text \<open>The member form \<open>NAME(MEMBER)\<close> of a file leaves the data set without the mark of a qualifier,
  whatever its last character is.\<close>

definition mvs_mark :: "CServerPathData \<Rightarrow> bool" where
  "mvs_mark d \<longleftrightarrow> m_prefix d = None \<or> m_prefix d = Some ''.''"

lemma change_MVS_mark: "yields mvs_mark (change_MVS e d dir True)"
proof -
  have "yields mvs_mark (finish_segments MVS (d\<lparr>m_prefix := x\<rparr>) dir f)" if "x = None \<or> x = Some ''.''" for d x dir f
    using that unfolding yields_def finish_segments_def by (auto simp: mvs_mark_def split: option.splits)
  then show ?thesis
    unfolding change_MVS_def change_MVS_inner_def Let_def by (intro canon_intros) simp_all
qed

text \<open>A data set whose name ends in a closing parenthesis and has no mark is the one form that a
  directory text cannot give.\<close>

definition closing_member :: "CServerPath \<Rightarrow> bool" where
  "closing_member p \<longleftrightarrow> m_type p = MVS \<and> pfx p = None \<and> segs p \<noteq> [] \<and>
     (\<forall>s \<in> set (segs p). canon_seg MVS s) \<and> last (last (segs p)) = CHR '')''"

lemma change_DOS_prefix: "is_dos t \<Longrightarrow> m_prefix d = None \<Longrightarrow> yields (prefix_ok t) (change_DOS t e d dir isFile)"
proof -
  assume t: "is_dos t" and d: "m_prefix d = None"
  have "canon_prefix t [] (m_prefix (d\<lparr>m_segments := sl\<rparr>))" "t \<noteq> MVS" for sl
    using t d by (auto simp: canon_prefix_def is_dos_def)
  moreover from this(1) [of "m_segments d"] have "canon_prefix t [] (m_prefix d)" by simp
  ultimately show ?thesis
    unfolding change_DOS_def Let_def by (intro canon_intros yields_finish_prefix)
qed

lemma change_by_type_prefix:
  assumes "t \<noteq> MVS" "e \<and> d = empty_data \<or> prefix_ok t d"
  shows "yields (prefix_ok t) (change_by_type t e d dir isFile)"
proof -
  have pre: "canon_prefix t [] (m_prefix d)" if "t \<noteq> VXWORKS"
    using that assms canon_prefix_indep [of t "m_segments d"]
    by (cases t) (auto simp: prefix_ok_def canon_prefix_def empty_data_def)
  have vx: "e \<or> canon_prefix VXWORKS [] (m_prefix d)" if "t = VXWORKS"
    using that assms(2) by (auto simp: prefix_ok_def canon_prefix_def)
  have dos: "m_prefix d = None" if "is_dos t" using pre that by (auto simp: is_dos_def canon_prefix_def)
  show ?thesis
    using assms(1) pre vx dos
    by (cases t) (simp_all add: change_by_type_def is_dos_def change_default_prefix change_DOS_prefix
        change_HPNONSTOP_prefix change_CYGWIN_prefix change_VXWORKS_prefix change_VMS_prefix)
qed

text \<open>For MVS the prefix follows from the text, except behind the member form.\<close>

lemma change_by_type_MVS_prefix:
  assumes "change_by_type MVS e d dir isFile = Some (d', f)" "m_segments d' \<noteq> []"
  shows "prefix_ok MVS d' \<or> isFile \<and> m_prefix d' = None \<and> last (last (m_segments d')) = CHR '')''"
proof -
  have run: "change_MVS e d dir isFile = Some (d', f)" using assms(1) by (simp add: change_by_type_def)
  show ?thesis
  proof (cases isFile)
    case True
    then have "mvs_mark d'" using change_MVS_mark [of e d dir] run by (auto simp: yields_def)
    then show ?thesis using True by (auto simp: mvs_mark_def prefix_ok_def canon_prefix_def)
  next
    case False
    then have "mvs_ok d'" using change_MVS_prefix [of e d dir] run by (auto simp: yields_def)
    then show ?thesis using assms(2) by (simp add: mvs_ok_def)
  qed
qed

lemma canon_path_data: "canon_path p \<Longrightarrow> m_data p = Some (data_get p) \<and> canon_data (m_type p) (data_get p)"
  by (auto simp: canon_path_def data_get_def split: option.splits)

lemma DoChangePath_canonical:
  assumes "DoChangePath p subdir isFile = Some (d, f)" "path_empty p \<or> canon_path p"
  shows "canon_path (p\<lparr>m_data := Some d\<rparr>) \<or> isFile \<and> closing_member (p\<lparr>m_data := Some d\<rparr>)"
proof (cases "subdir = []")
  case True
  then show ?thesis using assms canon_path_data [of p] by (auto simp: DoChangePath_def canon_path_def split: if_splits)
next
  case False
  let ?t = "m_type p"
  have state: "path_empty p \<and> data_get p = empty_data \<or> prefix_ok ?t (data_get p)"
    and old: "canon_segs ?t (data_get p)"
    using assms(2) canon_path_data [of p]
    by (auto simp: path_empty_def data_get_def prefix_ok_def canon_data_def canon_segs_def empty_data_def)
  obtain x where x: "change_by_type ?t (path_empty p) (data_get p) subdir isFile = Some (d, x)"
    and keep: "has_root (traits ?t) \<or> m_segments d \<noteq> []"
    using assms(1) False by (auto simp: DoChangePath_def split: option.splits if_splits)
  have segs: "canon_segs ?t d" using DoChangePath_segs [OF assms(1) old] by simp
  show ?thesis
  proof (cases "?t = MVS")
    case True
    then have "m_segments d \<noteq> []" using keep by simp
    then show ?thesis using change_by_type_MVS_prefix [of "path_empty p" "data_get p" subdir isFile d x] x True segs
      by (auto simp: canon_path_def canon_data_def prefix_ok_def canon_segs_def closing_member_def segs_def pfx_def data_get_def)
  next
    case False
    then show ?thesis using change_by_type_prefix [OF False state, of subdir isFile] x keep segs
      by (auto simp: yields_def canon_path_def canon_data_def prefix_ok_def canon_segs_def)
  qed
qed

text \<open>The types with a root directory and no prefix, and the double slash of Cygwin: the names of the
  text are walked from the root when it starts with a separator.\<close>

definition rooted_type :: "ServerType \<Rightarrow> bool" where
  "rooted_type t \<longleftrightarrow> t = UNIX \<or> t = ZVM \<or> t = DOS_VIRTUAL \<or> t = CYGWIN"

lemma split_finish_walk:
  assumes "(case split_file t isFile dir of None \<Rightarrow> None | Some (dir', y) \<Rightarrow> finish_segments t b dir' y) = Some (d', f)"
    and "separatorEscape (traits t) = nul" "has_dots (traits t)"
  shows "m_segments d' = walk_names (m_segments b) (if isFile then butlast (path_names t dir) else path_names t dir)"
  using assms(1) split_file_walk [of t isFile dir]
  by (auto simp: finish_walk [OF assms(2,3)] split: option.splits)

lemma change_by_type_walk:
  assumes "change_by_type t e d dir isFile = Some (d', f)" "rooted_type t"
  shows "m_segments d' = walk_names (if IsSeparator t (at0 dir 0) then [] else m_segments d)
    (if isFile then butlast (path_names t dir) else path_names t dir)"
proof -
  have t: "separatorEscape (traits t) = nul" "has_dots (traits t)" using assms(2) by (auto simp: rooted_type_def)
  show ?thesis
  proof (cases "t = CYGWIN")
    case False
    then have "change_default t e d dir isFile = Some (d', f)"
      using assms by (auto simp: change_by_type_def rooted_type_def)
    then show ?thesis
      using split_finish_walk [OF _ t, where isFile = isFile and dir = dir]
      by (auto simp: change_default_def Let_def split: if_splits)
  next
    case True
    let ?double = "at0 dir 0 = CHR ''/'' \<and> at0 dir 1 = CHR ''/''"
    let ?b = "let d1 = if IsSeparator CYGWIN (at0 dir 0) then empty_data else d
      in if ?double then d1\<lparr>m_prefix := Some [sep0 CYGWIN]\<rparr> else d1"
    have "(case split_file CYGWIN isFile (if ?double then drop 1 dir else dir) of None \<Rightarrow> None
        | Some (dir', y) \<Rightarrow> finish_segments CYGWIN ?b dir' y) = Some (d', f)"
      using assms(1) True unfolding change_by_type_def change_CYGWIN_def Let_def by (auto split: if_splits)
    then have w: "m_segments d' = walk_names (m_segments ?b)
        (let x = if ?double then drop 1 dir else dir in if isFile then butlast (path_names CYGWIN x) else path_names CYGWIN x)"
      using split_finish_walk t True unfolding Let_def by blast
    moreover have "m_segments ?b = (if IsSeparator CYGWIN (at0 dir 0) then [] else m_segments d)"
      by (simp add: empty_data_def Let_def)
    moreover have "path_names CYGWIN dir = [] # path_names CYGWIN (drop 1 dir)" if double: ?double
    proof -
      obtain x where "dir = CHR ''/'' # x" using double by (cases dir) (auto simp: nul_def)
      then show ?thesis by (simp add: path_names_def)
    qed
    ultimately show ?thesis using True by (simp add: Let_def path_names_def)
  qed
qed

text \<open>C25: a directory change on an empty or canonical path gives a canonical path, for all ten server
  types: canonical segments, at least one segment where there is no root directory, and a prefix of the
  form the type uses.  So does splitting off a file, with one exception: an MVS data set whose name ends
  in a closing parenthesis, when a member of it is named.  A directory change leaves the text as it is;
  the file that is split off a text is what follows the last separator, drive or device, for all types
  but VMS and MVS, and never the directory itself or its parent.  The segments are those of the names
  of the text walked one by one: from the root or the current directory for UNIX, z/VM, virtual DOS and
  Cygwin paths, and for the two DOS types from where the drive and the first name say, a colon being
  accepted only when the first name holds one.\<close>

theorem change_path_canonical:
  assumes "ChangePath p subdir isFile = (True, p', sub')" and "path_empty p \<or> canon_path p"
  shows "(canon_path p' \<or> isFile \<and> closing_member p') \<and> m_type p' = m_type p \<and>
    (\<not> isFile \<longrightarrow> sub' = subdir) \<and>
    (isFile \<longrightarrow> (m_type p \<noteq> VMS \<and> m_type p \<noteq> MVS \<longrightarrow> file_part (m_type p) subdir sub') \<and>
       (has_dots (traits (m_type p)) \<longrightarrow> sub' \<noteq> ''.'' \<and> sub' \<noteq> ''..'')) \<and>
    (subdir \<noteq> [] \<longrightarrow>
       (let names = path_names (m_type p) subdir; walked = (\<lambda>ns. if isFile then butlast ns else ns)
        in (rooted_type (m_type p) \<longrightarrow>
              segs p' = walk_names (if IsSeparator (m_type p) (hd subdir) then [] else segs p) (walked names)) \<and>
           (is_dos (m_type p) \<longrightarrow>
              (\<exists>base n. dos_start (segs p) (hd names) = Some (base, n) \<and>
                 segs p' = walk_names base (walked (n # tl names)) \<and>
                 (CHR '':'' \<in> set subdir \<longrightarrow> CHR '':'' \<in> set (hd names))))))"
proof -
  let ?t = "m_type p" and ?names = "path_names (m_type p) subdir"
  from assms(1) obtain d where d: "DoChangePath p subdir isFile = Some (d, sub')"
    and p': "p' = p\<lparr>m_data := Some d\<rparr>"
    by (auto simp: ChangePath_def split: option.splits)
  have segs': "segs p' = m_segments d" and segs: "m_segments (data_get p) = segs p"
    by (simp_all add: p' segs_def data_get_def)
  have 1: "canon_path p' \<or> isFile \<and> closing_member p'" unfolding p' by (rule DoChangePath_canonical [OF d assms(2)])
  have 2: "\<not> isFile \<longrightarrow> sub' = subdir" "isFile \<and> has_dots (traits ?t) \<longrightarrow> sub' \<noteq> ''.'' \<and> sub' \<noteq> ''..''" "isFile \<longrightarrow> subdir \<noteq> []"
    using d by (auto simp: DoChangePath_def split: option.splits if_splits)
  have run: "\<exists>x. change_by_type ?t (path_empty p) (data_get p) subdir isFile = Some (d, x) \<and> (isFile \<longrightarrow> x = sub')"
    if "subdir \<noteq> []"
    using d that by (auto simp: DoChangePath_def split: option.splits if_splits)
  have 3: "file_part ?t subdir sub'" if "isFile" "?t \<noteq> VMS" "?t \<noteq> MVS"
    using run change_by_type_file [of ?t "path_empty p" "data_get p" subdir d sub'] that 2(3) by auto
  have 4: "segs p' = walk_names (if IsSeparator ?t (hd subdir) then [] else segs p) (if isFile then butlast ?names else ?names)"
    if "rooted_type ?t" "subdir \<noteq> []"
    using run [OF that(2)] change_by_type_walk [OF _ that(1), of "path_empty p" "data_get p" subdir isFile d] segs segs' that(2)
    by (auto simp: at0_def hd_conv_nth)
  have 5: "\<exists>base n. dos_start (segs p) (hd ?names) = Some (base, n) \<and>
      segs p' = walk_names base (if isFile then butlast (n # tl ?names) else n # tl ?names) \<and>
      (CHR '':'' \<in> set subdir \<longrightarrow> CHR '':'' \<in> set (hd ?names))"
    if dos: "is_dos ?t" "subdir \<noteq> []"
  proof -
    obtain x where "change_DOS ?t (path_empty p) (data_get p) subdir isFile = Some (d, x)"
      using run [OF dos(2)] dos(1) by (auto simp: change_by_type_def is_dos_def)
    from change_DOS_walk [OF dos(1) this dos(2)] show ?thesis unfolding segs segs' by blast
  qed
  show ?thesis unfolding Let_def using 1 2 3 4 5 by (simp add: p')
qed

theorem change_path_canonical_witness:
  "let p = CServerPath_make ''DISK:[USR^.A]'' VMS; q = CServerPath_make ''C:/a'' DOS
   in ChangePath p ''B^.C'' False = (True, CServerPath_make ''DISK:[USR^.A.B^.C]'' VMS, ''B^.C'') \<and>
      segs (CServerPath_make ''DISK:[USR^.A.B^.C]'' VMS) = [''USR.A'', ''B.C''] \<and>
      canon_path (CServerPath_make ''DISK:[USR^.A.B^.C]'' VMS) \<and>
      ChangePath q ''C:../b/f.txt'' True = (True, CServerPath_make ''C:/b'' DOS, ''f.txt'') \<and>
      canon_path (CServerPath_make ''C:/b'' DOS) \<and> file_part DOS ''C:../b/f.txt'' ''f.txt'' \<and>
      segs (CServerPath_make ''C:/b'' DOS) = walk_names [''C:'', ''a''] [''..'', ''b'']"
proof -
  let ?p = "CServerPath_make ''DISK:[USR^.A]'' VMS" and ?q = "CServerPath_make ''C:/a'' DOS"
  have run: "ChangePath ?p ''B^.C'' False = (True, CServerPath_make ''DISK:[USR^.A.B^.C]'' VMS, ''B^.C'')"
    "ChangePath ?q ''C:../b/f.txt'' True = (True, CServerPath_make ''C:/b'' DOS, ''f.txt'')"
    by code_simp+
  moreover have "segs (CServerPath_make ''DISK:[USR^.A.B^.C]'' VMS) = [''USR.A'', ''B.C'']" by code_simp
  moreover have "canon_path ?p" "canon_path ?q" "\<not> closing_member (CServerPath_make ''C:/b'' DOS)" "m_type ?q = DOS" by code_simp+
  moreover have "path_names DOS ''C:../b/f.txt'' = [''C:..'', ''b'', ''f.txt'']"
    "dos_start (segs ?q) ''C:..'' = Some ([''C:'', ''a''], ''..'')" "is_dos DOS" by code_simp+
  ultimately show ?thesis
    using change_path_canonical [OF run(1)] change_path_canonical [OF run(2)] unfolding Let_def by simp
qed

text \<open>The exception, and the empty names: a root of a DOS path and a bare VxWorks device are accepted as
  files without a name.\<close>

lemma closing_member_reached:
  "let q = [quote_mark]; (ok, p, f) = ChangePath (CServerPath_make [] MVS) (q @ ''A).(X)'' @ q) True
   in ok \<and> f = ''X'' \<and> closing_member p \<and> \<not> canon_path p"
  by code_simp

lemma empty_file_names:
  "ChangePath (CServerPath_make ''C:/a'' DOS) ''/'' True = (True, CServerPath_make ''C:/'' DOS, []) \<and>
   ChangePath (CServerPath_make [] VXWORKS) '':dev:'' True = (True, CServerPath_make '':dev:'' VXWORKS, [])"
  by code_simp

subsection \<open>Printing, then parsing\<close>

lemma EscapeSeparators_text:
  "replace_law L \<Longrightarrow>
     (if separatorEscape (traits t) \<noteq> nul then EscapeSeparators L t s else s) = seg_text t s"
  by (cases t) (simp_all add: EscapeSeparators_def seg_text_def replace_law_def sep0_def)

lemma GetPath_segments_rest:
  "replace_law L \<Longrightarrow> GetPath_segments L t pr False sl
     = concat (map (\<lambda>s. sep0 t # seg_text t s) sl)"
  by (induction sl) (simp_all add: EscapeSeparators_text)

lemma concat_join: "sl \<noteq> [] \<Longrightarrow> concat (map (\<lambda>s. c # f s) sl) = c # join [c] (map f sl)"
proof (induction sl)
  case (Cons s sl)
  then show ?case by (cases sl) auto
qed simp

lemma GetPath_segments_join:
  assumes "replace_law L" "sl \<noteq> []"
  shows "GetPath_segments L t pr True sl =
     (if has_root (traits t) \<and> (pr = None \<or> separator_after_prefix (traits t)) then [sep0 t] else [])
     @ join [sep0 t] (map (seg_text t) sl)"
proof (cases sl)
  case (Cons s rest)
  then show ?thesis
    using assms concat_join [of rest "sep0 t" "seg_text t"]
    by (cases rest) (auto simp: GetPath_segments_rest EscapeSeparators_text)
qed (use assms in simp)

text \<open>What parsing needs of a canonical DOS path: the first segment is a drive, or no
  segment holds a colon.\<close>

definition drive_ok :: "wstring list \<Rightarrow> bool" where
  "drive_ok sl \<longleftrightarrow>
     (case sl of
        [] \<Rightarrow> False
      | s # rest \<Rightarrow>
          (2 \<le> length s \<and> last s = CHR '':'' \<and> CHR '':'' \<notin> set (butlast s)) \<or>
          (\<forall>x \<in> set sl. CHR '':'' \<notin> set x))"

lemma seg_text_plain [simp]: "t \<noteq> VMS \<Longrightarrow> seg_text t = (\<lambda>s. s)"
  by (cases t) (simp_all add: seg_text_def fun_eq_iff)

lemma canon_not_sep: "t \<noteq> VMS \<Longrightarrow> canon_seg t s \<Longrightarrow> c \<in> set s \<Longrightarrow> \<not> IsSeparator t c"
  using escape_VMS [of t] by (cases "separatorEscape (traits t) = nul") (auto simp: canon_seg_def)

lemma set_join: "set (join [c] ss) \<subseteq> insert c (\<Union> (set ` set ss))"
proof (induction ss)
  case (Cons s ss)
  then show ?case by (cases ss) auto
qed simp

lemma data_cases: "d = \<lparr>m_segments = m_segments d, m_prefix = m_prefix d\<rparr>"
  by simp

lemma finish_join:
  assumes "\<forall>s \<in> set sl. canon_seg t s" "\<forall>c \<in> set lead. IsSeparator t c" "\<forall>c \<in> set trail. IsSeparator t c"
  shows "finish_segments t \<lparr>m_segments = [], m_prefix = pr\<rparr>
           (lead @ join [sep0 t] (map (seg_text t) sl) @ trail) file
         = Some (\<lparr>m_segments = sl, m_prefix = pr\<rparr>, file)"
  using Segmentize_join [OF assms, of "[]"] by (simp add: finish_segments_def)

lemma data_text_root:
  assumes "replace_law L" "canon_data t d" "t = UNIX \<or> t = ZVM \<or> t = DOS_VIRTUAL"
  shows "data_text L t d = [sep0 t] @ join [sep0 t] (map (seg_text t) (m_segments d)) @ [] \<and> m_prefix d = None"
  using assms
  by (cases "m_segments d = []")
    (auto simp: data_text_def Let_def GetPath_segments_join prefix_text_def enclosure_text_def
      canon_data_def canon_prefix_def)

lemma parse_root:
  assumes "replace_law L" "canon_data t d" "t = UNIX \<or> t = ZVM \<or> t = DOS_VIRTUAL"
  shows "change_by_type t True empty_data (data_text L t d) False = Some (d, [])"
proof -
  note shown = data_text_root [OF assms]
  have "finish_segments t \<lparr>m_segments = [], m_prefix = None\<rparr> (data_text L t d) [] = Some (d, [])"
    using finish_join [of "m_segments d" t "[sep0 t]" "[]" None "[]"] assms(2) shown
    by (simp add: canon_data_def)
  moreover have "IsSeparator t (at0 (data_text L t d) 0)" using shown by simp
  ultimately show ?thesis using assms(3)
    by (auto simp: change_by_type_def change_default_def split_file_def empty_data_def)
qed

lemma parse_CYGWIN:
  assumes "replace_law L" "canon_data CYGWIN d"
  shows "change_by_type CYGWIN True empty_data (data_text L CYGWIN d) False = Some (d, [])"
proof -
  let ?j = "join [sep0 CYGWIN] (map (seg_text CYGWIN) (m_segments d))"
  have sl: "\<forall>s \<in> set (m_segments d). canon_seg CYGWIN s" using assms(2) by (simp add: canon_data_def)
  have sep: "sep0 CYGWIN = CHR ''/''" "IsSeparator CYGWIN (CHR ''/'')"
    by (simp_all add: sep0_def IsSeparator_def)
  have first: "at0 ?j 0 \<noteq> CHR ''/''"
  proof (cases "m_segments d")
    case (Cons s rest)
    then have "s \<noteq> []" "\<not> IsSeparator CYGWIN (hd s)"
      using sl canon_not_sep [of CYGWIN s "hd s"] by (auto simp: canon_seg_def)
    then show ?thesis using Cons sep(2) by (cases s; cases rest) auto
  qed (simp add: nul_def)
  have shown: "data_text L CYGWIN d = prefix_text (m_prefix d) @ CHR ''/'' # ?j"
    using assms(1) sep
    by (cases "m_segments d = []")
      (auto simp: data_text_def Let_def GetPath_segments_join enclosure_text_def)
  have fin: "finish_segments CYGWIN \<lparr>m_segments = [], m_prefix = pr\<rparr> (CHR ''/'' # ?j) []
      = Some (\<lparr>m_segments = m_segments d, m_prefix = pr\<rparr>, [])" for pr
    using finish_join [OF sl, of "[CHR ''/'']" "[]" pr] sep by simp
  have "m_prefix d = None \<or> m_prefix d = Some ''/''"
    using assms(2) by (simp add: canon_data_def canon_prefix_def)
  then show ?thesis
  proof
    assume "m_prefix d = None"
    then show ?thesis using shown fin [of None] first sep data_cases [of d]
      by (simp add: change_by_type_def change_CYGWIN_def split_file_def empty_data_def prefix_text_def Let_def)
  next
    assume "m_prefix d = Some ''/''"
    then show ?thesis using shown fin [of "Some ''/''"] first sep data_cases [of d]
      by (simp add: change_by_type_def change_CYGWIN_def split_file_def empty_data_def prefix_text_def Let_def)
  qed
qed

lemma parse_HPNONSTOP:
  assumes "replace_law L" "canon_data HPNONSTOP d"
  shows "change_by_type HPNONSTOP True empty_data (data_text L HPNONSTOP d) False = Some (d, [])"
proof -
  have sl: "\<forall>s \<in> set (m_segments d). canon_seg HPNONSTOP s" "m_segments d \<noteq> []" "m_prefix d = None"
    using assms(2) by (simp_all add: canon_data_def canon_prefix_def)
  have "data_text L HPNONSTOP d = join [sep0 HPNONSTOP] (map (seg_text HPNONSTOP) (m_segments d))"
    using assms(1) sl by (simp add: data_text_def Let_def GetPath_segments_join enclosure_text_def prefix_text_def)
  then have "finish_segments HPNONSTOP \<lparr>m_segments = [], m_prefix = None\<rparr> (data_text L HPNONSTOP d) [] = Some (d, [])"
    using finish_join [OF sl(1), of "[]" "[]" None "[]"] data_cases [of d] sl(3) by simp
  then show ?thesis using sl(2)
    by (simp add: change_by_type_def change_HPNONSTOP_def split_file_def empty_data_def require_segments_def)
qed

lemma parse_VXWORKS:
  assumes "replace_law L" "canon_data VXWORKS d"
  shows "change_by_type VXWORKS True empty_data (data_text L VXWORKS d) False = Some (d, [])"
proof -
  let ?j = "join [sep0 VXWORKS] (map (seg_text VXWORKS) (m_segments d))"
  have sl: "\<forall>s \<in> set (m_segments d). canon_seg VXWORKS s" using assms(2) by (simp add: canon_data_def)
  obtain x where x: "m_prefix d = Some x" "3 \<le> length x" "hd x = CHR '':''" "last x = CHR '':''"
    "CHR '':'' \<notin> set (butlast (drop 1 x))"
    using assms(2) by (auto simp: canon_data_def canon_prefix_def split: option.splits)
  obtain y where y: "x = CHR '':'' # y @ '':''" "y \<noteq> []" "CHR '':'' \<notin> set y"
  proof
    have ne: "drop 1 x \<noteq> []" using x(2) by simp
    have "x = hd x # drop 1 x" using x(2) by (cases x) auto
    also have "drop 1 x = butlast (drop 1 x) @ [last (drop 1 x)]"
      by (rule append_butlast_last_id [OF ne, symmetric])
    also have "last (drop 1 x) = CHR '':''" using x(4) ne by simp
    finally show "x = CHR '':'' # butlast (drop 1 x) @ '':''" using x(3) by simp
    show "butlast (drop 1 x) \<noteq> []" using x(2) by (simp add: butlast_conv_take)
  qed (rule x(5))
  have shown: "data_text L VXWORKS d = CHR '':'' # y @ CHR '':'' # ?j"
    using assms(1) x(1) y(1)
    by (cases "m_segments d = []")
      (simp_all add: data_text_def Let_def GetPath_segments_join enclosure_text_def prefix_text_def)
  have fin: "finish_segments VXWORKS \<lparr>m_segments = [], m_prefix = Some x\<rparr> ?j [] = Some (d, [])"
    using finish_join [OF sl, of "[]" "[]" "Some x" "[]"] data_cases [of d] x(1) by simp
  have "find_idx (\<lambda>c. c = CHR '':'') (y @ CHR '':'' # ?j) = Some (length y)"
    using y(3) by (intro find_idx_append_hit) auto
  then show ?thesis using shown fin y(1,2)
    by (simp add: change_by_type_def change_VXWORKS_def split_file_def Let_def)
qed

lemma join_nonempty: "ss \<noteq> [] \<Longrightarrow> hd ss \<noteq> [] \<Longrightarrow> join sep ss \<noteq> []"
  by (cases ss; cases "tl ss") auto

lemma last_join: "ss \<noteq> [] \<Longrightarrow> last ss \<noteq> [] \<Longrightarrow> last (join sep ss) = last (last ss) \<and> join sep ss \<noteq> []"
proof (induction ss)
  case (Cons s ss)
  then show ?case by (cases ss) auto
qed simp

lemma prefix_restore:
  "pr \<noteq> Some [] \<Longrightarrow>
     (if length (prefix_text pr) \<noteq> 0 then empty_data\<lparr>m_prefix := Some (prefix_text pr)\<rparr> else empty_data)
       \<lparr>m_segments := []\<rparr> = \<lparr>m_segments = [], m_prefix = pr\<rparr>"
  by (cases pr) (simp_all add: empty_data_def prefix_text_def)

lemma parse_VMS:
  assumes "replace_law L" "canon_data VMS d"
  shows "change_by_type VMS True empty_data (data_text L VMS d) False = Some (d, [])"
proof -
  let ?x = "prefix_text (m_prefix d)" and ?j = "join [sep0 VMS] (map (seg_text VMS) (m_segments d))"
  have sl: "\<forall>s \<in> set (m_segments d). canon_seg VMS s" "m_segments d \<noteq> []"
    using assms(2) by (simp_all add: canon_data_def)
  have x: "CHR ''['' \<notin> set ?x" "m_prefix d \<noteq> Some []"
    using assms(2) by (auto simp: canon_data_def canon_prefix_def prefix_text_def split: option.splits)
  have "seg_text VMS (hd (m_segments d)) \<noteq> []"
    using sl by (cases "m_segments d"; cases "hd (m_segments d)") (auto simp: canon_seg_def seg_text_def)
  then have ne: "?j \<noteq> []"
    using join_nonempty [of "map (seg_text VMS) (m_segments d)"] sl(2) by (simp add: hd_map)
  have shown: "data_text L VMS d = ?x @ CHR ''['' # ?j @ '']''"
    using assms(1) sl(2)
    by (simp add: data_text_def Let_def GetPath_segments_join enclosure_text_def del: VMS_simps)
  have first: "find_idx (\<lambda>c. c = CHR ''['') (?x @ CHR ''['' # ?j @ '']'') = Some (length ?x)"
    using x(1) by (intro find_idx_append_hit) auto
  have second: "rfind_idx (\<lambda>c. c = CHR '']'') (?x @ CHR ''['' # ?j @ '']'') = Some (length ?x + 1 + length ?j)"
    using rfind_idx_snoc [of "\<lambda>c. c = CHR '']''" "CHR '']''" "?x @ CHR ''['' # ?j"] by simp
  have fin: "finish_segments VMS \<lparr>m_segments = [], m_prefix = m_prefix d\<rparr> ?j [] = Some (d, [])"
    using finish_join [OF sl(1), of "[]" "[]" "m_prefix d" "[]"] data_cases [of d]
    by (simp del: VMS_simps)
  have take: "take (length ?x + 1 + length ?j) (?x @ CHR ''['' # ?j @ '']'') = ?x @ CHR ''['' # ?j"
    by simp
  have prefix: "(if length ?x \<noteq> 0 then empty_data\<lparr>m_prefix := Some ?x\<rparr> else empty_data)\<lparr>m_segments := []\<rparr>
      = \<lparr>m_segments = [], m_prefix = m_prefix d\<rparr>"
    by (rule prefix_restore [OF x(2)])
  have "change_VMS True empty_data (data_text L VMS d) False =
      require_segments True (finish_segments VMS
        ((if length ?x \<noteq> 0 then empty_data\<lparr>m_prefix := Some ?x\<rparr> else empty_data)\<lparr>m_segments := []\<rparr>) ?j [])"
    unfolding shown change_VMS_def traits.simps traits_mk first second option.case Let_def take
    using ne by simp
  then show ?thesis unfolding prefix fin
    using sl(2) by (simp add: change_by_type_def require_segments_def)
qed

lemma parse_MVS:
  assumes "replace_law L" "canon_data MVS d"
  shows "change_by_type MVS True empty_data (data_text L MVS d) False = Some (d, [])"
proof -
  let ?x = "prefix_text (m_prefix d)" and ?j = "join [sep0 MVS] (map (seg_text MVS) (m_segments d))"
  have sl: "\<forall>s \<in> set (m_segments d). canon_seg MVS s" "m_segments d \<noteq> []"
    using assms(2) by (simp_all add: canon_data_def)
  have sep: "sep0 MVS = CHR ''.''" "\<And>c. IsSeparator MVS c \<longleftrightarrow> c = CHR ''.''"
    by (simp_all add: sep0_def IsSeparator_def)
  have "canon_seg MVS (last (m_segments d))" using sl by simp
  then have seg0: "last (m_segments d) \<noteq> [] \<and> last (last (m_segments d)) \<noteq> CHR ''.''"
    using canon_not_sep [of MVS "last (m_segments d)" "CHR ''.''"] last_in_set [of "last (m_segments d)"] sep(2)
    by (auto simp: canon_seg_def)
  then have seg: "last (m_segments d) \<noteq> []" "last (last (m_segments d)) \<noteq> CHR ''.''"
    by simp_all
  have j: "?j \<noteq> []" "last ?j = last (last (m_segments d))"
    using last_join [of "m_segments d" "[sep0 MVS]"] sl(2) seg(1) by simp_all
  have shown: "data_text L MVS d = quote_mark # (?j @ ?x) @ [quote_mark]"
    using assms(1) sl(2)
    by (simp add: data_text_def Let_def GetPath_segments_join enclosure_text_def)
  have "strip_mvs_quotes (quote_mark # y @ [quote_mark]) = quote_mark # y @ [quote_mark]" for y
    by (simp add: strip_mvs_quotes_def FTP_MVS_DOUBLE_QUOTE_def)
  then have "change_by_type MVS True empty_data (quote_mark # y @ [quote_mark]) False
      = change_MVS_inner True empty_data y False" for y
    by (simp add: change_by_type_def change_MVS_def empty_data_def)
  then have outer: "change_by_type MVS True empty_data (data_text L MVS d) False
      = change_MVS_inner True empty_data (?j @ ?x) False"
    unfolding shown by blast
  have fin: "finish_segments MVS \<lparr>m_segments = [], m_prefix = pr\<rparr> (?j @ t) []
      = Some (\<lparr>m_segments = m_segments d, m_prefix = pr\<rparr>, [])" if "t = [] \<or> t = ''.''" for t pr
  proof -
    have "\<forall>c \<in> set t. IsSeparator MVS c" using that sep(2) by (elim disjE) simp_all
    then show ?thesis using finish_join [OF sl(1), of "[]" t pr "[]"] by simp
  qed
  consider "m_prefix d = None" "last ?j \<noteq> CHR '')''" | "m_prefix d = Some ''.''"
    using assms(2) j(2) by (auto simp: canon_data_def canon_prefix_def split: option.splits)
  then show ?thesis
  proof cases
    case 1
    have "change_MVS_inner True empty_data (?j @ ?x) False
        = finish_segments MVS \<lparr>m_segments = [], m_prefix = None\<rparr> (?j @ []) []"
      using 1 j seg(2) by (simp add: change_MVS_inner_def back_is_def prefix_text_def empty_data_def)
    then show ?thesis using outer fin [of "[]" None] 1(1) data_cases [of d] by simp
  next
    case 2
    have "change_MVS_inner True empty_data (?j @ ?x) False
        = finish_segments MVS \<lparr>m_segments = [], m_prefix = Some ''.''\<rparr> (?j @ ''.'') []"
      using 2 by (simp add: change_MVS_inner_def back_is_def prefix_text_def empty_data_def)
    then show ?thesis using outer fin [of "''.''" "Some ''.''"] 2 data_cases [of d] by simp
  qed
qed

lemma at0_join_not_sep:
  assumes "\<forall>s \<in> set sl. canon_seg t s" "sl \<noteq> []" "t \<noteq> VMS"
  shows "\<not> IsSeparator t (at0 (join [c] sl @ r) 0)"
proof (cases sl)
  case (Cons s rest)
  then have "s \<noteq> []" "\<not> IsSeparator t (hd s)"
    using assms canon_not_sep [of t s "hd s"] by (auto simp: canon_seg_def)
  then show ?thesis using Cons by (cases s; cases rest) auto
qed (use assms in simp)

lemma parse_DOS:
  assumes "replace_law L" "canon_data t d" "is_dos t" "drive_ok (m_segments d)"
  shows "change_by_type t True empty_data (data_text L t d) False = Some (d, [])"
proof -
  let ?sl = "m_segments d"
  define trail where "trail = (if length ?sl = 1 then [sep0 t] else [])"
  have t: "t \<noteq> VMS" "t \<noteq> MVS" using assms(3) by (auto simp: is_dos_def)
  have sl: "\<forall>s \<in> set ?sl. canon_seg t s" "?sl \<noteq> []" "m_prefix d = None"
    using assms(2,3) by (auto simp: canon_data_def canon_prefix_def is_dos_def)
  have shown: "data_text L t d = join [sep0 t] ?sl @ trail"
    using assms(1,3) sl t(1)
    by (auto simp: data_text_def Let_def GetPath_segments_join enclosure_text_def prefix_text_def
        trail_def is_dos_def)
  have fin: "finish_segments t \<lparr>m_segments = [], m_prefix = None\<rparr> (data_text L t d) [] = Some (d, [])"
    using finish_join [OF sl(1), of "[]" trail None "[]"] shown data_cases [of d] sl(3) t(1)
    by (simp add: trail_def)
  have run: "change_by_type t True empty_data x False = change_DOS t True empty_data x False" for x
    using assms(3) by (auto simp: change_by_type_def is_dos_def)
  have nosep: "\<not> IsSeparator t (at0 (data_text L t d) 0)"
    unfolding shown by (rule at0_join_not_sep [OF sl(1,2) t(1)])
  obtain s rest where s: "?sl = s # rest" using sl(2) by (cases ?sl) auto
  consider (drive) "2 \<le> length s" "last s = CHR '':''" "CHR '':'' \<notin> set (butlast s)"
    | (plain) "\<forall>x \<in> set ?sl. CHR '':'' \<notin> set x"
    using assms(4) s by (auto simp: drive_ok_def)
  then show ?thesis
  proof cases
    case plain
    have "sep0 t \<noteq> CHR '':''" using assms(3) by (auto simp: is_dos_def sep0_def)
    then have "CHR '':'' \<notin> set (data_text L t d)"
      using plain set_join [of "sep0 t" ?sl] unfolding shown by (auto simp: trail_def)
    then have "find_idx (\<lambda>c. c = CHR '':'') (data_text L t d) = None" by auto
    then show ?thesis using nosep fin sl(2) unfolding run
      by (simp add: change_DOS_def Let_def split_file_def empty_data_def require_segments_def del: find_idx_None)
  next
    case drive
    have y: "s = butlast s @ '':''" using drive(1,2) by (metis append_butlast_last_id list.size(3) not_numeral_le_zero)
    obtain z where z: "data_text L t d = s @ sep0 t # z"
      using s shown by (cases rest) (auto simp: trail_def)
    have "find_idx (IsSeparator t) (data_text L t d) = Some (length s)"
      unfolding z using sl(1) s canon_not_sep [OF t(1), of s] by (intro find_idx_append_hit) auto
    moreover have "find_idx (\<lambda>c. c = CHR '':'') (data_text L t d) = Some (length s - 1)"
      unfolding z using find_idx_append_hit [of "butlast s" "\<lambda>c. c = CHR '':''" "CHR '':''" "sep0 t # z"] drive(3)
      by (metis append_Cons append_Nil append_assoc length_butlast y)
    moreover have "length s - 1 + 1 = length s" "length s - 1 \<noteq> 0" using drive(1) by simp_all
    ultimately show ?thesis using fin sl(2) unfolding run
      by (simp add: change_DOS_def Let_def split_file_def empty_data_def require_segments_def)
  qed
qed

lemmas parse_all = parse_root parse_CYGWIN parse_HPNONSTOP parse_VXWORKS parse_VMS parse_MVS parse_DOS

lemma parse_canonical:
  assumes "replace_law L" "canon_data t d" "is_dos t \<Longrightarrow> drive_ok (m_segments d)"
  shows "change_by_type t True empty_data (data_text L t d) False = Some (d, [])"
proof (cases "is_dos t")
  case True
  show ?thesis by (rule parse_DOS [OF assms(1,2) True assms(3) [OF True]])
next
  case False
  then consider "t = UNIX \<or> t = ZVM \<or> t = DOS_VIRTUAL" | "t = VMS" | "t = MVS" | "t = VXWORKS"
    | "t = HPNONSTOP" | "t = CYGWIN"
    by (cases t) (simp_all add: is_dos_def)
  then show ?thesis
    by cases (use assms(1,2) parse_all in \<open>simp_all only:\<close>)
qed

lemma seg_text_nonempty: "canon_seg t s \<Longrightarrow> seg_text t s \<noteq> []"
  by (cases s) (auto simp: canon_seg_def seg_text_def)

lemma data_text_nonempty:
  assumes "replace_law L" "canon_data t d"
  shows "data_text L t d \<noteq> []"
proof (cases "m_segments d = []")
  case True
  then have "m_prefix d = None \<or> m_prefix d = Some ''/'' \<or> (\<exists>x. m_prefix d = Some x \<and> x \<noteq> [])"
    using assms(2) by (cases t) (auto simp: canon_data_def canon_prefix_def split: option.splits)
  moreover have "has_root (traits t)" using assms(2) True by (simp add: canon_data_def)
  then have "prefixmode (traits t) = 0" by (cases t) simp_all
  ultimately show ?thesis using True
    by (auto simp: data_text_def Let_def prefix_text_def)
next
  case False
  then have "join [sep0 t] (map (seg_text t) (m_segments d)) \<noteq> []"
    using join_nonempty [of "map (seg_text t) (m_segments d)"] assms(2) seg_text_nonempty
    by (simp add: hd_map canon_data_def)
  then show ?thesis using GetPath_segments_join [OF assms(1) False]
    by (simp add: data_text_def Let_def)
qed

lemma DoChangePath_GetPath:
  assumes "replace_law L" "canon_path p" "m_type q = m_type p" "is_dos (m_type p) \<Longrightarrow> drive_ok (segs p)"
  shows "DoChangePath (path_clear q) (GetPath L p) False = Some (data_get p, GetPath L p)" "GetPath L p \<noteq> []"
    "(path_clear q)\<lparr>m_data := Some (data_get p)\<rparr> = p"
proof -
  let ?t = "m_type p" and ?d = "data_get p"
  have data: "m_data p = Some ?d" "canon_data ?t ?d" using canon_path_data [OF assms(2)] by simp_all
  have text_eq: "GetPath L p = data_text L ?t ?d" using data(1) by (simp add: GetPath_def)
  have run: "change_by_type ?t True empty_data (data_text L ?t ?d) False = Some (?d, [])"
    by (rule parse_canonical [OF assms(1) data(2)]) (use assms(4) in \<open>simp add: segs_def\<close>)
  have keep: "has_root (traits ?t) \<or> m_segments ?d \<noteq> []" using data(2) by (simp add: canon_data_def)
  show "GetPath L p \<noteq> []" using data_text_nonempty [OF assms(1) data(2)] text_eq by simp
  show "DoChangePath (path_clear q) (GetPath L p) False = Some (?d, GetPath L p)"
    using run keep data_text_nonempty [OF assms(1) data(2)] assms(3) text_eq
    by (auto simp: DoChangePath_def path_clear_def path_empty_def data_get_def [of "q\<lparr>m_data := None\<rparr>"])
  show "(path_clear q)\<lparr>m_data := Some ?d\<rparr> = p" using data(1) assms(3) by (simp add: path_clear_def)
qed

text \<open>C1: printing a path and parsing the text gives the same path.  \<open>SetPath\<close> of
  what \<open>GetPath\<close> prints succeeds and restores type, prefix and segments exactly,
  for all ten server types: the VMS escapes of dots inside a segment, the MVS quotation marks
  and the member form, the VxWorks device and the Cygwin double slash included.  The two
  DOS types need a drive as their first segment, or no colon at all.\<close>

theorem get_path_set_path:
  assumes "replace_law L" and "canon_path p" and "m_type q = m_type p"
    and "is_dos (m_type p) \<Longrightarrow> drive_ok (segs p)"
  shows "SetPath q (GetPath L p) = (True, p)"
  using DoChangePath_GetPath [OF assms] by (simp add: SetPath_def SetPath_file_def ChangePath_def Let_def path_clear_def)

theorem get_path_set_path_witness:
  "SetPath (CServerPath_make [] DOS)
     (GetPath libfz_std (CServerPath_make ''C:/a/b'' DOS)) = (True, CServerPath_make ''C:/a/b'' DOS) \<and>
   GetPath libfz_std (CServerPath_make ''C:/a/b'' DOS) = ''C:'' @ [backslash] @ ''a'' @ [backslash] @ ''b''"
proof -
  have "canon_path (CServerPath_make ''C:/a/b'' DOS)" by code_simp
  moreover have "m_type (CServerPath_make [] DOS) = m_type (CServerPath_make ''C:/a/b'' DOS)"
    by code_simp
  moreover have "drive_ok (segs (CServerPath_make ''C:/a/b'' DOS))" by code_simp
  moreover have "replace_law libfz_std" by simp
  ultimately have "SetPath (CServerPath_make [] DOS)
     (GetPath libfz_std (CServerPath_make ''C:/a/b'' DOS)) = (True, CServerPath_make ''C:/a/b'' DOS)"
    by (intro get_path_set_path)
  moreover have "GetPath libfz_std (CServerPath_make ''C:/a/b'' DOS) = ''C:'' @ [backslash] @ ''a'' @ [backslash] @ ''b''"
    by code_simp
  ultimately show ?thesis by simp
qed

text \<open>Without a drive the DOS text is not read back: \<open>..\<close> removes the drive
  segment, and a later segment with a colon is then taken for one.\<close>

lemma dos_parent_of_drive:
  "let p = CServerPath_make (''C:'' @ [backslash] @ ''..'' @ [backslash] @ ''x'' @ [backslash] @ ''a:b'') DOS
   in segs p = [''x'', ''a:b''] \<and> canon_path p \<and>
      fst (SetPath (CServerPath_make [] DOS) (GetPath libfz_std p)) = False"
  by code_simp

end
