(* ===== verification/FZ_Order.thy ===== *)
theory FZ_Order
  imports FZ_Prelude
begin

text \<open>
  \<open>std::set\<close> and \<open>std::map\<close> as lists sorted by a comparator that is passed
  along, with \<open>lower_bound\<close>, \<open>find\<close>, insertion and erasure, and the contract
  a comparator has to meet for the containers to behave as finite maps.
\<close>

definition lower_bound :: "('k \<Rightarrow> 'k \<Rightarrow> bool) \<Rightarrow> ('a \<Rightarrow> 'k) \<Rightarrow> 'k \<Rightarrow> 'a list \<Rightarrow> 'a list" where
  "lower_bound lt key k xs = dropWhile (\<lambda>x. lt (key x) k) xs"

definition before_bound :: "('k \<Rightarrow> 'k \<Rightarrow> bool) \<Rightarrow> ('a \<Rightarrow> 'k) \<Rightarrow> 'k \<Rightarrow> 'a list \<Rightarrow> 'a list" where
  "before_bound lt key k xs = takeWhile (\<lambda>x. lt (key x) k) xs"

definition set_find :: "('k \<Rightarrow> 'k \<Rightarrow> bool) \<Rightarrow> ('a \<Rightarrow> 'k) \<Rightarrow> 'k \<Rightarrow> 'a list \<Rightarrow> 'a option" where
  "set_find lt key k xs =
     (case lower_bound lt key k xs of
        [] \<Rightarrow> None
      | x # _ \<Rightarrow> if lt k (key x) then None else Some x)"

text \<open>Insertion before the lower bound; an element with an equivalent key stops a
  \<open>std::set\<close> insertion and is overwritten by \<open>std::map::operator[]\<close>.\<close>

definition set_emplace :: "('k \<Rightarrow> 'k \<Rightarrow> bool) \<Rightarrow> ('a \<Rightarrow> 'k) \<Rightarrow> 'a \<Rightarrow> 'a list \<Rightarrow> 'a list" where
  "set_emplace lt key x xs =
     (if set_find lt key (key x) xs \<noteq> None then xs
      else before_bound lt key (key x) xs @ x # lower_bound lt key (key x) xs)"

definition map_assign :: "('k \<Rightarrow> 'k \<Rightarrow> bool) \<Rightarrow> 'k \<Rightarrow> 'v \<Rightarrow> ('k \<times> 'v) list \<Rightarrow> ('k \<times> 'v) list" where
  "map_assign lt k v xs =
     (case lower_bound lt fst k xs of
        [] \<Rightarrow> before_bound lt fst k xs @ [(k, v)]
      | (k', v') # rest \<Rightarrow>
          if lt k k' then before_bound lt fst k xs @ (k, v) # (k', v') # rest
          else before_bound lt fst k xs @ (k', v) # rest)"

definition map_erase :: "('k \<Rightarrow> 'k \<Rightarrow> bool) \<Rightarrow> 'k \<Rightarrow> ('k \<times> 'v) list \<Rightarrow> ('k \<times> 'v) list" where
  "map_erase lt k xs =
     (case lower_bound lt fst k xs of
        [] \<Rightarrow> xs
      | (k', v') # rest \<Rightarrow> if lt k k' then xs else before_bound lt fst k xs @ rest)"

definition map_find :: "('k \<Rightarrow> 'k \<Rightarrow> bool) \<Rightarrow> 'k \<Rightarrow> ('k \<times> 'v) list \<Rightarrow> 'v option" where
  "map_find lt k xs = map_option snd (set_find lt fst k xs)"

definition sorted_keys :: "('k \<Rightarrow> 'k \<Rightarrow> bool) \<Rightarrow> ('a \<Rightarrow> 'k) \<Rightarrow> 'a list \<Rightarrow> bool" where
  "sorted_keys lt key xs = sorted_wrt (\<lambda>x y. lt (key x) (key y)) xs"

lemma bound_split: "before_bound lt key k xs @ lower_bound lt key k xs = xs"
  by (simp add: before_bound_def lower_bound_def)

lemma sorted_keys_Nil [simp]: "sorted_keys lt key []"
  by (simp add: sorted_keys_def)

lemma sorted_keys_Cons [simp]:
  "sorted_keys lt key (x # xs) \<longleftrightarrow> (\<forall>y \<in> set xs. lt (key x) (key y)) \<and> sorted_keys lt key xs"
  by (simp add: sorted_keys_def)

lemma sorted_keys_append [simp]:
  "sorted_keys lt key (xs @ ys) \<longleftrightarrow>
     sorted_keys lt key xs \<and> sorted_keys lt key ys \<and>
     (\<forall>x \<in> set xs. \<forall>y \<in> set ys. lt (key x) (key y))"
  by (simp add: sorted_keys_def sorted_wrt_append)

lemma sorted_keys_filter: "sorted_keys lt key xs \<Longrightarrow> sorted_keys lt key (filter P xs)"
  by (simp add: sorted_keys_def sorted_wrt_filter)

lemma sorted_keys_map: "map key (f xs) = map key xs \<Longrightarrow> sorted_keys lt key (f xs) = sorted_keys lt key xs"
proof -
  have "sorted_keys lt key ys = sorted_wrt lt (map key ys)" for ys
    by (simp add: sorted_keys_def sorted_wrt_map)
  then show "map key (f xs) = map key xs \<Longrightarrow> ?thesis" by simp
qed

text \<open>The contract between a container and its comparator, a strict weak order:
  \<open>ok\<close> is the set of keys in use, \<open>same\<close> the equivalence of keys that the
  comparator cannot tell apart.\<close>

locale key_weak_order =
  fixes lt :: "'k \<Rightarrow> 'k \<Rightarrow> bool" and ok :: "'k \<Rightarrow> bool" and same :: "'k \<Rightarrow> 'k \<Rightarrow> bool"
  assumes lt_irrefl: "\<not> lt a a"
    and lt_trans: "ok a \<Longrightarrow> ok b \<Longrightarrow> ok c \<Longrightarrow> lt a b \<Longrightarrow> lt b c \<Longrightarrow> lt a c"
    and lt_total: "ok a \<Longrightarrow> ok b \<Longrightarrow> lt a b \<or> same a b \<or> lt b a"
    and same_refl: "same a a"
    and same_sym: "same a b \<Longrightarrow> same b a"
    and same_lt: "same a b \<Longrightarrow> lt c a = lt c b"
begin

lemma lt_asym: "ok a \<Longrightarrow> ok b \<Longrightarrow> lt a b \<Longrightarrow> \<not> lt b a"
  using lt_irrefl lt_trans by blast

lemma lt_not_same: "ok a \<Longrightarrow> ok b \<Longrightarrow> lt a b \<Longrightarrow> \<not> same a b \<and> \<not> same b a"
  using same_lt lt_irrefl same_sym by blast

lemma same_iff: "ok a \<Longrightarrow> ok b \<Longrightarrow> same a b \<longleftrightarrow> \<not> lt a b \<and> \<not> lt b a"
  using lt_total lt_not_same by blast

lemma same_trans: "ok a \<Longrightarrow> ok b \<Longrightarrow> ok c \<Longrightarrow> same a b \<Longrightarrow> same b c \<Longrightarrow> same a c"
  using same_iff same_lt same_sym by metis

lemma lower_bound_ge:
  assumes "sorted_keys lt key xs" and "\<forall>x \<in> set xs. ok (key x)" and "ok k"
    and "x \<in> set (lower_bound lt key k xs)"
  shows "\<not> lt (key x) k"
  using assms
proof (induction xs)
  case (Cons y ys)
  show ?case
  proof (cases "lt (key y) k")
    case True
    with Cons show ?thesis by (auto simp: lower_bound_def)
  next
    case False
    with Cons.prems have "x = y \<or> lt (key y) (key x)"
      by (auto simp: lower_bound_def)
    have "x \<in> set (y # ys)" using Cons.prems(4) unfolding lower_bound_def by (rule set_dropWhileD)
    then have "ok (key x)" "ok (key y)" using Cons.prems(2) by auto
    then show ?thesis
      using \<open>x = y \<or> lt (key y) (key x)\<close> False Cons.prems(3) lt_trans by metis
  qed
qed (simp add: lower_bound_def)

lemma before_bound_less: "x \<in> set (before_bound lt key k xs) \<Longrightarrow> lt (key x) k"
  by (auto simp: before_bound_def dest: set_takeWhileD)

text \<open>The three parts of a container around a key: smaller keys, at most one
  equivalent key, greater keys.\<close>

lemma three_parts:
  assumes "sorted_keys lt key xs" and "\<forall>x \<in> set xs. ok (key x)" and "ok k"
  obtains mid above where "xs = before_bound lt key k xs @ mid @ above"
    and "lower_bound lt key k xs = mid @ above"
    and "length mid \<le> 1" "\<And>x. x \<in> set mid \<Longrightarrow> same (key x) k \<and> \<not> lt k (key x)"
    and "\<And>x. x \<in> set above \<Longrightarrow> lt k (key x)"
proof (cases "lower_bound lt key k xs")
  case Nil
  then show ?thesis using that [of "[]" "[]"] bound_split [of lt key k xs] by simp
next
  case (Cons y ys)
  have split: "xs = before_bound lt key k xs @ y # ys" using bound_split [of lt key k xs] Cons by simp
  have in_xs: "y \<in> set xs" "set ys \<subseteq> set xs" by (subst split, auto)+
  have "sorted_keys lt key (before_bound lt key k xs @ y # ys)" using assms(1) split by simp
  then have tail: "lt (key y) (key z)" if "z \<in> set ys" for z using that by simp
  have ok: "ok (key y)" "\<And>z. z \<in> set ys \<Longrightarrow> ok (key z)" using assms(2) in_xs by auto
  have ge: "\<not> lt (key y) k" using lower_bound_ge [OF assms, of y] Cons by simp
  show ?thesis
  proof (cases "lt k (key y)")
    case True
    have "lt k (key z)" if "z \<in> set (y # ys)" for z
      using that True tail lt_trans [OF assms(3) ok(1) ok(2)] by auto
    then show ?thesis using that [of "[]" "y # ys"] split Cons by simp
  next
    case False
    then have same: "same (key y) k" using lt_total [OF ok(1) assms(3)] ge by blast
    have "lt k (key z)" if "z \<in> set ys" for z
    proof -
      have "same (key y) k" "lt (key y) (key z)" using same tail [OF that] by simp_all
      then have "\<not> lt (key z) k" "\<not> same k (key z)"
        using same_lt [of "key y" k] same_lt [of k "key z"] lt_asym [OF ok(1) ok(2) [OF that]]
          same_lt [of k "key z" "key y"] ge by blast+
      then show ?thesis using lt_total [OF assms(3) ok(2) [OF that]] by blast
    qed
    then show ?thesis using that [of "[y]" ys] split Cons same False by simp
  qed
qed

lemma keys_distinct:
  assumes "sorted_keys lt key xs"
  shows "distinct (map key xs)"
  using assms
proof (induction xs)
  case (Cons x xs)
  then have "key x \<notin> key ` set xs" using lt_irrefl by auto
  with Cons show ?case by simp
qed simp

lemma find_Some:
  assumes "sorted_keys lt key xs" and "\<forall>x \<in> set xs. ok (key x)" and "ok k"
  shows "set_find lt key k xs = Some x \<longleftrightarrow> x \<in> set xs \<and> same (key x) k"
proof -
  obtain mid above where parts: "xs = before_bound lt key k xs @ mid @ above"
    "lower_bound lt key k xs = mid @ above" "length mid \<le> 1"
    "\<And>x. x \<in> set mid \<Longrightarrow> same (key x) k \<and> \<not> lt k (key x)" "\<And>x. x \<in> set above \<Longrightarrow> lt k (key x)"
    using three_parts [OF assms] by metis
  have set_xs: "set xs = set (before_bound lt key k xs) \<union> set mid \<union> set above"
    by (subst parts(1)) auto
  have below: "\<not> same (key z) k" if "z \<in> set (before_bound lt key k xs)" for z
    using before_bound_less [OF that] lt_not_same [of "key z" k] assms(2,3) set_xs that by blast
  have above: "\<not> same (key z) k" if "z \<in> set above" for z
    using parts(5) [OF that] lt_not_same [of k "key z"] assms(2,3) set_xs that by blast
  show ?thesis
  proof (cases mid)
    case Nil
    then have "set_find lt key k xs = None"
      using parts(2,5) by (cases above) (auto simp: set_find_def)
    then show ?thesis using Nil below above set_xs by auto
  next
    case (Cons y ys)
    then have mid: "mid = [y]" using parts(3) by simp
    then have "set_find lt key k xs = Some y" using parts(2,4) by (simp add: set_find_def)
    then show ?thesis using mid below above set_xs parts(4) [of y] by auto
  qed
qed

lemma find_None:
  assumes "sorted_keys lt key xs" and "\<forall>x \<in> set xs. ok (key x)" and "ok k"
  shows "set_find lt key k xs = None \<longleftrightarrow> (\<forall>x \<in> set xs. \<not> same (key x) k)"
  using find_Some [OF assms] by (metis not_Some_eq)

lemma emplace_sorted:
  assumes "sorted_keys lt key xs" and "\<forall>y \<in> set xs. ok (key y)" and "ok (key x)"
  shows "sorted_keys lt key (set_emplace lt key x xs)"
proof (cases "set_find lt key (key x) xs")
  case None
  let ?a = "before_bound lt key (key x) xs" and ?b = "lower_bound lt key (key x) xs"
  have xs: "?a @ ?b = xs" by (rule bound_split)
  then have sub: "set ?a \<subseteq> set xs" "set ?b \<subseteq> set xs" by (metis Un_upper1 Un_upper2 set_append)+
  have "lt (key x) (key y)" if "y \<in> set ?b" for y
  proof -
    have "\<not> lt (key y) (key x)" by (rule lower_bound_ge [OF assms that])
    moreover have "\<not> same (key y) (key x)" using find_None [OF assms] None that sub by blast
    ultimately show ?thesis using lt_total [of "key y" "key x"] assms(2,3) sub(2) that by blast
  qed
  moreover have "sorted_keys lt key (?a @ ?b)" using assms(1) xs by simp
  moreover have "lt (key y) (key x)" if "y \<in> set ?a" for y
    using that by (rule before_bound_less)
  ultimately show ?thesis using None by (simp add: set_emplace_def)
qed (simp add: set_emplace_def assms)

lemma emplace_set:
  assumes "set_find lt key (key x) xs = None"
  shows "set (set_emplace lt key x xs) = insert x (set xs)"
proof -
  have "set xs = set (before_bound lt key (key x) xs) \<union> set (lower_bound lt key (key x) xs)"
    by (subst bound_split [of lt key "key x" xs, symmetric]) (rule set_append)
  with assms show ?thesis by (simp add: set_emplace_def)
qed

text \<open>\<open>std::map\<close>: what \<open>m[k] = v\<close> and \<open>erase\<close> leave.\<close>

definition map_ok :: "('k \<times> 'v) list \<Rightarrow> bool" where
  "map_ok xs \<longleftrightarrow> sorted_keys lt fst xs \<and> (\<forall>x \<in> set xs. ok (fst x))"

lemma map_ok_Nil [simp]: "map_ok []"
  by (simp add: map_ok_def)

lemma map_ok_filter: "map_ok xs \<Longrightarrow> map_ok (filter P xs)"
  by (simp add: map_ok_def sorted_keys_filter)

lemma map_parts:
  assumes "map_ok xs" "ok k"
  obtains mid above where "xs = before_bound lt fst k xs @ mid @ above"
    and "lower_bound lt fst k xs = mid @ above" and "length mid \<le> 1"
    and "\<And>x. x \<in> set mid \<Longrightarrow> same (fst x) k \<and> \<not> lt k (fst x)" and "\<And>x. x \<in> set above \<Longrightarrow> lt k (fst x)"
    and "\<And>x. x \<in> set (before_bound lt fst k xs) \<union> set above \<Longrightarrow> \<not> same (fst x) k"
proof -
  obtain mid above where parts: "xs = before_bound lt fst k xs @ mid @ above"
    "lower_bound lt fst k xs = mid @ above" "length mid \<le> 1"
    "\<And>x. x \<in> set mid \<Longrightarrow> same (fst x) k \<and> \<not> lt k (fst x)" "\<And>x. x \<in> set above \<Longrightarrow> lt k (fst x)"
    using three_parts [of fst xs k] assms unfolding map_ok_def by metis
  have set_xs: "set xs = set (before_bound lt fst k xs) \<union> set mid \<union> set above"
    by (subst parts(1)) auto
  have "\<not> same (fst z) k" if "z \<in> set (before_bound lt fst k xs) \<union> set above" for z
    using that before_bound_less [of z fst k xs] parts(5) [of z] lt_not_same [of "fst z" k]
      lt_not_same [of k "fst z"] assms set_xs unfolding map_ok_def by blast
  then show ?thesis using that parts by blast
qed

lemma map_find_iff:
  assumes "map_ok xs" "ok k"
  shows "map_find lt k xs = Some v \<longleftrightarrow> (\<exists>k'. (k', v) \<in> set xs \<and> same k' k)"
  using find_Some [of fst xs k] assms unfolding map_find_def map_ok_def by auto

lemma assign_set:
  assumes "map_ok xs" "ok k"
  obtains k' where "same k' k" "ok k'"
    and "set (map_assign lt k v xs) = insert (k', v) {x \<in> set xs. \<not> same (fst x) k}"
    and "map_ok (map_assign lt k v xs)"
proof -
  obtain mid above where parts: "xs = before_bound lt fst k xs @ mid @ above"
    "lower_bound lt fst k xs = mid @ above" "length mid \<le> 1"
    "\<And>x. x \<in> set mid \<Longrightarrow> same (fst x) k \<and> \<not> lt k (fst x)" "\<And>x. x \<in> set above \<Longrightarrow> lt k (fst x)"
    "\<And>x. x \<in> set (before_bound lt fst k xs) \<union> set above \<Longrightarrow> \<not> same (fst x) k"
    using map_parts [OF assms] by metis
  let ?b = "before_bound lt fst k xs"
  have ok: "map_ok (?b @ mid @ above)" using assms(1) parts(1) by simp
  have set_xs: "set xs = set ?b \<union> set mid \<union> set above" by (subst parts(1)) auto
  have old: "{x \<in> set xs. \<not> same (fst x) k} = set ?b \<union> set above" using set_xs parts(4,6) by blast
  show ?thesis
  proof (cases mid)
    case Nil
    have new: "map_assign lt k v xs = ?b @ (k, v) # above"
      using Nil parts(2) parts(5) [of "hd above"] by (cases above) (auto simp: map_assign_def)
    have "map_ok (?b @ (k, v) # above)" using ok Nil assms(2) parts(5)
      by (auto simp: map_ok_def dest: before_bound_less)
    then show ?thesis using that [of k] new old assms(2) same_refl by auto
  next
    case (Cons y ys)
    then have mid: "mid = [y]" using parts(3) by simp
    have new: "map_assign lt k v xs = ?b @ (fst y, v) # above"
      using mid parts(2) parts(4) [of y] by (cases y) (auto simp: map_assign_def)
    have "map_ok (?b @ (fst y, v) # above)" using ok mid by (auto simp: map_ok_def)
    then show ?thesis using that [of "fst y"] new old parts(4) [of y] mid by (auto simp: map_ok_def)
  qed
qed

lemma erase_set:
  assumes "map_ok xs" "ok k"
  shows "set (map_erase lt k xs) = {x \<in> set xs. \<not> same (fst x) k} \<and> map_ok (map_erase lt k xs)"
proof -
  obtain mid above where parts: "xs = before_bound lt fst k xs @ mid @ above"
    "lower_bound lt fst k xs = mid @ above" "length mid \<le> 1"
    "\<And>x. x \<in> set mid \<Longrightarrow> same (fst x) k \<and> \<not> lt k (fst x)" "\<And>x. x \<in> set above \<Longrightarrow> lt k (fst x)"
    "\<And>x. x \<in> set (before_bound lt fst k xs) \<union> set above \<Longrightarrow> \<not> same (fst x) k"
    using map_parts [OF assms] by metis
  let ?b = "before_bound lt fst k xs"
  have ok: "map_ok (?b @ mid @ above)" using assms(1) parts(1) by simp
  have set_xs: "set xs = set ?b \<union> set mid \<union> set above" by (subst parts(1)) auto
  have old: "{x \<in> set xs. \<not> same (fst x) k} = set ?b \<union> set above" using set_xs parts(4,6) by blast
  have "map_erase lt k xs = ?b @ above"
  proof (cases mid)
    case Nil
    then show ?thesis using parts(1,2) parts(5) [of "hd above"] by (cases above) (auto simp: map_erase_def)
  next
    case (Cons y ys)
    then have "mid = [y]" using parts(3) by simp
    then show ?thesis using parts(2) parts(4) [of y] by (cases y) (auto simp: map_erase_def)
  qed
  moreover have "map_ok (?b @ above)" using ok by (auto simp: map_ok_def)
  ultimately show ?thesis using old by simp
qed

lemma find_assign:
  assumes "map_ok xs" "ok k" "ok q"
  shows "map_find lt q (map_assign lt k v xs) = (if same q k then Some v else map_find lt q xs)"
proof -
  obtain k' where k': "same k' k" "ok k'"
    "set (map_assign lt k v xs) = insert (k', v) {x \<in> set xs. \<not> same (fst x) k}"
    "map_ok (map_assign lt k v xs)"
    using assign_set [OF assms(1,2)] by metis
  have eq: "same x q \<longleftrightarrow> same x k" if "same q k" "ok x" for x
    using that assms(2,3) same_trans same_sym by metis
  have ok_xs: "ok (fst x)" if "x \<in> set xs" for x using assms(1) that by (simp add: map_ok_def)
  have "map_find lt q (map_assign lt k v xs) = Some w \<longleftrightarrow>
      (if same q k then w = v else map_find lt q xs = Some w)" for w
  proof (cases "same q k")
    case True
    then show ?thesis
      unfolding map_find_iff [OF k'(4) assms(3)] k'(3) using k'(1,2) eq ok_xs by force
  next
    case False
    have "\<not> same k' q" using False k'(1,2) assms(2,3) same_trans same_sym by metis
    moreover have "\<not> same x k" if "same x q" "ok x" for x using that False assms(2,3) same_trans same_sym by metis
    ultimately show ?thesis
      unfolding map_find_iff [OF k'(4) assms(3)] map_find_iff [OF assms(1,3)] k'(3) using False ok_xs by force
  qed
  then show ?thesis by (metis option.exhaust)
qed

lemma find_erase:
  assumes "map_ok xs" "ok k" "ok q"
  shows "map_find lt q (map_erase lt k xs) = (if same q k then None else map_find lt q xs)"
proof -
  note er = erase_set [OF assms(1,2)]
  have ok_xs: "ok (fst x)" if "x \<in> set xs" for x using assms(1) that by (simp add: map_ok_def)
  have move: "same x k \<longleftrightarrow> same q k" if "same x q" "ok x" for x using that assms(2,3) same_trans same_sym by metis
  have "map_find lt q (map_erase lt k xs) = Some w \<longleftrightarrow> \<not> same q k \<and> map_find lt q xs = Some w" for w
    unfolding map_find_iff [OF conjunct2 [OF er] assms(3)] map_find_iff [OF assms(1,3)]
    using er move ok_xs by force
  then show ?thesis by (metis option.exhaust)
qed

end

text \<open>Keys that the comparator tells apart exactly when they differ.\<close>

locale key_order = key_weak_order lt ok "(=)" for lt :: "'k \<Rightarrow> 'k \<Rightarrow> bool" and ok :: "'k \<Rightarrow> bool"
begin

lemma assign_entries:
  assumes "map_ok xs" "ok k"
  shows "set (map_assign lt k v xs) = insert (k, v) {x \<in> set xs. fst x \<noteq> k} \<and> map_ok (map_assign lt k v xs)"
proof -
  obtain k' where "k' = k" "ok k'" "set (map_assign lt k v xs) = insert (k', v) {x \<in> set xs. fst x \<noteq> k}"
    "map_ok (map_assign lt k v xs)"
    by (rule assign_set [OF assms, of v])
  then show ?thesis by (simp only: simp_thms)
qed

end

end
