(* ===== verification/Server_Path_Order.thy ===== *)
theory Server_Path_Order
  imports Server_Path_Ops FZ_Order
begin

text \<open>
  \<open>CServerPath::operator<\<close> is the comparator of the directory cache's
  \<open>std::set\<close> and of the path cache's \<open>std::map\<close>; both containers decide
  equality of keys through it.  On non-empty paths whose segments hold no zero
  unit it is a strict total order whose equivalence is \<open>operator==\<close>.
\<close>

definition path_key_ok :: "CServerPath \<Rightarrow> bool" where
  "path_key_ok p \<longleftrightarrow> m_data p \<noteq> None \<and> (\<forall>s \<in> set (segs p). nul_free s)"

lemma path_eq_iff [simp]: "path_eq a b \<longleftrightarrow> a = b"
  by (auto simp: path_eq_def path_empty_def)

lemma path_neq_iff [simp]: "path_neq a b \<longleftrightarrow> a \<noteq> b"
  by (simp add: path_neq_def)

lemma path_eqI:
  assumes "m_data a \<noteq> None" "m_data b \<noteq> None"
    and "pfx a = pfx b" "m_type a = m_type b" "segs a = segs b"
  shows "a = b"
proof -
  from assms(1,2) obtain d e where "m_data a = Some d" "m_data b = Some e" by auto
  with assms(3-5) show ?thesis by (simp add: pfx_def segs_def data_get_def)
qed

lemma wcscmp_sign:
  "wcscmp a b < 0 \<longleftrightarrow> c_str a < c_str b"
  "wcscmp a b > 0 \<longleftrightarrow> c_str b < c_str a"
  by (auto simp: wcscmp_def str_compare_def)

text \<open>The segment loop is the lexicographic order on what \<open>wcscmp\<close> sees.\<close>

lemma segs_less_lex: "segs_less xs ys \<longleftrightarrow> map c_str xs < map c_str ys"
proof (induction xs ys rule: segs_less.induct)
  case (1 ys)
  show ?case by (cases ys) simp_all
qed (auto simp: Let_def wcscmp_sign)

lemma path_less_lex:
  assumes "m_data a \<noteq> None" "m_data b \<noteq> None"
  shows "path_less a b \<longleftrightarrow>
    pfx a < pfx b \<or> pfx a = pfx b \<and>
      (m_type a < m_type b \<or> m_type a = m_type b \<and> map c_str (segs a) < map c_str (segs b))"
proof (cases "pfx a = pfx b")
  case True
  then show ?thesis using assms
    by (auto simp: path_less_def path_empty_def segs_less_lex)
next
  case False
  then have "pfx a \<noteq> None \<or> pfx b \<noteq> None" by auto
  moreover have "pfx a < pfx b \<or> pfx b < pfx a" using False by (rule neqE) auto
  ultimately show ?thesis using False assms
    by (auto simp: path_less_def path_empty_def)
qed

lemma map_c_str_inj:
  assumes "\<forall>s \<in> set xs. nul_free s" "\<forall>s \<in> set ys. nul_free s" "map c_str xs = map c_str ys"
  shows "xs = ys"
proof -
  have "map c_str zs = zs" if "\<forall>s \<in> set zs. nul_free s" for zs
    using that by (induction zs) auto
  with assms show ?thesis by metis
qed

lemma path_less_irrefl: "\<not> path_less a a"
  by (cases "m_data a") (simp_all add: path_less_lex, simp add: path_less_def path_empty_def)

lemma path_less_trans:
  assumes "m_data a \<noteq> None" "m_data b \<noteq> None" "m_data c \<noteq> None"
    and "path_less a b" "path_less b c"
  shows "path_less a c"
  using assms by (auto simp: path_less_lex)

lemma path_less_total:
  assumes "path_key_ok a" "path_key_ok b"
  shows "path_less a b \<or> a = b \<or> path_less b a"
proof -
  from assms have data: "m_data a \<noteq> None" "m_data b \<noteq> None" by (auto simp: path_key_ok_def)
  have "segs a = segs b" if "map c_str (segs a) = map c_str (segs b)"
    using that assms map_c_str_inj by (auto simp: path_key_ok_def)
  then have "pfx a = pfx b \<Longrightarrow> m_type a = m_type b \<Longrightarrow>
      map c_str (segs a) = map c_str (segs b) \<Longrightarrow> a = b"
    using path_eqI data by blast
  moreover have "map c_str (segs a) < map c_str (segs b) \<or>
      map c_str (segs a) = map c_str (segs b) \<or> map c_str (segs b) < map c_str (segs a)"
    by (rule linorder_less_linear)
  moreover have "pfx a < pfx b \<or> pfx a = pfx b \<or> pfx b < pfx a" by (rule linorder_less_linear)
  moreover have "m_type a < m_type b \<or> m_type a = m_type b \<or> m_type b < m_type a"
    by (rule linorder_less_linear)
  ultimately show ?thesis unfolding path_less_lex [OF data] path_less_lex [OF data(2,1)] by metis
qed

interpretation path_order: key_order path_less path_key_ok
proof
  show "\<not> path_less a a" for a by (rule path_less_irrefl)
  show "path_less a c"
    if "path_key_ok a" "path_key_ok b" "path_key_ok c" "path_less a b" "path_less b c" for a b c
    using that path_less_trans by (auto simp: path_key_ok_def)
  show "path_less a b \<or> a = b \<or> path_less b a" if "path_key_ok a" "path_key_ok b" for a b
    using that by (rule path_less_total)
qed simp_all

text \<open>\<open>compare_case\<close> agrees with \<open>==\<close> and is antisymmetric.\<close>

lemma segs_compare_zero: "segs_compare xs ys = 0 \<longleftrightarrow> xs = ys"
  by (induction xs ys rule: segs_compare.induct) (auto simp: Let_def)

lemma segs_compare_swap: "segs_compare ys xs = - segs_compare xs ys"
proof (induction xs ys rule: segs_compare.induct)
  case (4 x xs y ys)
  then show ?case using str_compare_swap [of y x] by (auto simp: Let_def)
qed simp_all

lemma path_compare_zero:
  assumes "\<And>x y. prefix_cmp x y = 0 \<longleftrightarrow> x = y" and "m_data a \<noteq> None" "m_data b \<noteq> None"
  shows "path_compare prefix_cmp a b = 0 \<longleftrightarrow> a = b"
proof -
  have "path_compare prefix_cmp a b = 0 \<longleftrightarrow>
      pfx a = pfx b \<and> m_type a = m_type b \<and> segs a = segs b"
    using assms
    by (auto simp: path_compare_def path_empty_def segs_compare_zero split: option.splits)
  then show ?thesis using path_eqI assms(2,3) by blast
qed

end
