(* ===== verification/Server_Path_Safe.thy ===== *)
theory Server_Path_Safe
  imports Server_Path_Order
begin

text \<open>
  The safe form of a path, the text that transfer queues and bookmarks store:
  \<open>SetSafePath\<close> reads back what \<open>GetSafePath\<close> wrote.
\<close>

lemma safe_number_digits:
  assumes "ds \<noteq> []" "\<forall>c \<in> set ds. is_digit c" "num_value acc ds \<le> limit"
    and "stop (at0 rest 0)" "\<forall>c. is_digit c \<longrightarrow> \<not> stop c"
  shows "safe_number stop limit acc (ds @ rest) = Some (num_value acc ds, rest)"
  using assms(1-3)
proof (induction ds arbitrary: acc)
  case (Cons c cs)
  let ?v = "acc * 10 + digit_val c"
  have le: "?v \<le> limit" using Cons.prems(3) num_value_mono [of ?v cs] by simp
  show ?case
  proof (cases cs)
    case Nil
    then show ?thesis using Cons.prems le assms(4) by (simp add: Let_def)
  next
    case (Cons e es)
    have "\<not> stop (at0 (cs @ rest) 0)" using Cons Cons.prems(2) assms(5) by simp
    then show ?thesis using Cons Cons.prems le Cons.IH [of ?v] by (simp add: Let_def)
  qed
qed simp

lemma safe_number_show:
  assumes "n \<le> limit" "stop (at0 rest 0)" "\<forall>c. is_digit c \<longrightarrow> \<not> stop c"
  shows "safe_number stop limit 0 (show_nat n @ rest) = Some (n, rest)"
  using safe_number_digits [OF show_nat_nonempty show_nat_digits, of 0 n limit stop rest] assms
  by (simp add: num_value_show)

lemma stops_skip_digits [simp]:
  "\<forall>c. is_digit c \<longrightarrow> \<not> is_space c" "\<forall>c. is_digit c \<longrightarrow> \<not> is_space_or_end c"
  by (auto simp: is_space_def is_space_or_end_def)

lemma strcpy_pad_nul_free [simp]: "nul_free s \<Longrightarrow> strcpy_pad s = s"
  by (simp add: strcpy_pad_def)

definition safe_text_ok :: "wstring \<Rightarrow> bool" where
  "safe_text_ok s \<longleftrightarrow> s \<noteq> [] \<and> nul_free s \<and> length s \<le> safe_len_limit"

definition safe_path_ok :: "CServerPath \<Rightarrow> bool" where
  "safe_path_ok p \<longleftrightarrow>
     m_data p \<noteq> None \<and> (\<forall>s \<in> set (segs p). safe_text_ok s) \<and>
     (case pfx p of None \<Rightarrow> True | Some x \<Rightarrow> safe_text_ok x)"

text \<open>Every segment text is preceded by a space, which the reader has skipped when
  it enters its loop.\<close>

lemma read_safe_segments_back:
  assumes "\<forall>s \<in> set ss. safe_text_ok s"
  shows "read_safe_segments (drop 1 (safe_segments ss)) acc = Some (acc @ ss)"
  using assms
proof (induction ss arbitrary: acc)
  case Nil
  then show ?case by (simp add: read_safe_segments.simps)
next
  case (Cons s ss)
  let ?rest = "safe_segments ss"
  have s: "s \<noteq> []" "nul_free s" "length s \<le> safe_len_limit"
    using Cons.prems by (auto simp: safe_text_ok_def)
  have num: "safe_number is_space safe_len_limit 0 (show_nat (length s) @ '' '' @ s @ ?rest)
      = Some (length s, '' '' @ s @ ?rest)"
    using s by (intro safe_number_show) (auto simp: is_space_def)
  have "read_safe_segments (drop 1 ?rest) (acc @ [s]) = Some ((acc @ [s]) @ ss)"
    using Cons by simp
  then have "read_safe_segments (show_nat (length s) @ '' '' @ s @ ?rest) acc = Some (acc @ s # ss)"
    using num s by (subst read_safe_segments.simps) simp
  then show ?case using s by simp
qed

lemma safe_segments_start: "at0 (safe_segments ss) 0 = (if ss = [] then nul else CHR '' '')"
  by (cases ss) auto

lemma space_not_nul [simp]: "CHR '' '' \<noteq> nul" "nul \<noteq> CHR '' ''"
  by (simp_all add: nul_def)

lemma DoSetSafePath_back:
  assumes "safe_path_ok \<lparr>m_data = Some d, m_type = t\<rparr>"
  shows "DoSetSafePath t0 (GetSafePath \<lparr>m_data = Some d, m_type = t\<rparr>) = (t, Some d)"
proof -
  let ?sl = "m_segments d" and ?v = "server_type_value t + 1"
  have sl: "\<forall>s \<in> set ?sl. safe_text_ok s"
    using assms by (simp add: safe_path_ok_def segs_def data_get_def)
  have pr: "case m_prefix d of None \<Rightarrow> True | Some x \<Rightarrow> safe_text_ok x"
    using assms by (simp add: safe_path_ok_def pfx_def data_get_def)
  have type_num: "safe_number is_space SERVERTYPE_MAX 0 (show_nat ?v @ '' '' @ r) = Some (?v, '' '' @ r)" for r
    using server_type_value_less [of t] by (intro safe_number_show) (auto simp: is_space_def)
  have len_num: "safe_number is_space_or_end safe_len_limit 0 (show_nat n @ r) = Some (n, r)"
    if "n \<le> safe_len_limit" "at0 r 0 = nul \<or> at0 r 0 = CHR '' ''" for n r
    using that by (intro safe_number_show) (auto simp: is_space_or_end_def)
  show ?thesis
  proof (cases "m_prefix d")
    case None
    have num: "safe_number is_space_or_end safe_len_limit 0 (show_nat 0 @ safe_segments ?sl)
        = Some (0, safe_segments ?sl)"
      by (rule len_num) (simp_all add: safe_segments_start)
    have "read_safe_segments (drop 1 (safe_segments ?sl)) [] = Some ?sl"
      using read_safe_segments_back [OF sl, of "[]"] by simp
    moreover have "?sl = [] \<Longrightarrow> d = empty_data" using None by (simp add: empty_data_def)
    ultimately show ?thesis
      using type_num [of "show_nat 0 @ safe_segments ?sl"] num None
      by (cases "?sl = []") (simp_all add: DoSetSafePath_def GetSafePath_def Let_def safe_segments_start)
  next
    case (Some x)
    then have x: "x \<noteq> []" "nul_free x" "length x \<le> safe_len_limit"
      using pr by (auto simp: safe_text_ok_def)
    let ?tail = "'' '' @ x @ safe_segments ?sl"
    have num: "safe_number is_space_or_end safe_len_limit 0 (show_nat (length x) @ ?tail)
        = Some (length x, ?tail)"
      by (rule len_num) (simp_all add: x)
    have "read_safe_segments (drop 1 (safe_segments ?sl)) [] = Some ?sl"
      using read_safe_segments_back [OF sl, of "[]"] by simp
    then show ?thesis
      using type_num [of "show_nat (length x) @ ?tail"] num Some x
      by (simp add: DoSetSafePath_def GetSafePath_def Let_def)
  qed
qed

text \<open>C35: \<open>SetSafePath(GetSafePath())\<close> restores the path, prefix, segments and server
  type, whatever path the object held before, for every path whose texts are
  non-empty, hold no zero unit and are at most 32767 units long.\<close>

theorem safe_path_roundtrip:
  "safe_path_ok p \<Longrightarrow> SetSafePath q (GetSafePath p) = (True, p)"
proof -
  assume ok: "safe_path_ok p"
  then obtain d where "m_data p = Some d" by (auto simp: safe_path_ok_def)
  then have p: "p = \<lparr>m_data = Some d, m_type = m_type p\<rparr>" by simp
  with ok have "DoSetSafePath (m_type q) (GetSafePath p) = (m_type p, Some d)"
    by (metis DoSetSafePath_back)
  with p show ?thesis by (simp add: SetSafePath_def)
qed

theorem safe_path_roundtrip_witness:
  "let p = \<lparr>m_data = Some \<lparr>m_segments = [''pub'', ''a b''], m_prefix = Some ''/''\<rparr>, m_type = CYGWIN\<rparr>
   in safe_path_ok p \<and> GetSafePath p = ''9 1 / 3 pub 3 a b'' \<and>
      SetSafePath CServerPath_default (GetSafePath p) = (True, p)"
proof -
  let ?p = "\<lparr>m_data = Some \<lparr>m_segments = [''pub'', ''a b''], m_prefix = Some ''/''\<rparr>, m_type = CYGWIN\<rparr>"
  have ok: "safe_path_ok ?p" by code_simp
  moreover have "GetSafePath ?p = ''9 1 / 3 pub 3 a b''" by code_simp
  ultimately show ?thesis
    using safe_path_roundtrip [OF ok, of CServerPath_default] by simp
qed

text \<open>The bound is real: a segment of length 0, which \<open>AddSegment\<close> accepts, is written
  but refused by the reader, which leaves the path empty.\<close>

lemma safe_path_empty_segment:
  "SetSafePath q (GetSafePath (snd (AddSegment (CServerPath_make ''/x'' UNIX) [])))
     = (False, \<lparr>m_data = None, m_type = UNIX\<rparr>)"
proof -
  have "GetSafePath (snd (AddSegment (CServerPath_make ''/x'' UNIX) [])) = ''1 0 1 x 0 ''" by code_simp
  moreover have "DoSetSafePath t ''1 0 1 x 0 '' = (UNIX, None)" for t
    by (cases t) (simp_all only:, code_simp+)
  ultimately show ?thesis by (simp add: SetSafePath_def)
qed

end
