(* ===== verification/Server_Path_Tree.thy ===== *)
theory Server_Path_Tree
  imports Server_Path_Order Server_Path_Roundtrip "HOL-Library.Sublist"
begin

text \<open>
  The tree of directories: containment (\<open>IsSubdirOf\<close>, \<open>IsParentOf\<close>), parents,
  the common parent of two paths, and the order that the caches sort by.
\<close>

subsection \<open>The comparator of the caches\<close>

text \<open>On non-empty paths without zero units \<open>operator<\<close> is a strict total
  order and its equivalence is \<open>operator==\<close>, so a \<open>std::set\<close> or \<open>std::map\<close>
  keyed by paths finds exactly the equal path.\<close>

theorem path_less_strict_total:
  assumes "path_key_ok a" "path_key_ok b" "path_key_ok c"
  shows "((\<not> path_less a b \<and> \<not> path_less b a) = path_eq a b) \<and>
         \<not> (path_less a b \<and> path_less b a) \<and>
         (path_less a b \<and> path_less b c \<longrightarrow> path_less a c)"
proof -
  have "(\<not> path_less a b \<and> \<not> path_less b a) = path_eq a b"
    using path_order.lt_total [OF assms(1,2)] path_order.lt_irrefl by auto
  moreover have "\<not> (path_less a b \<and> path_less b a)" using path_order.lt_asym [OF assms(1,2)] by blast
  moreover have "path_less a b \<and> path_less b c \<longrightarrow> path_less a c"
    using path_order.lt_trans [OF assms] by blast
  ultimately show ?thesis by blast
qed

theorem path_less_strict_total_witness:
  "let a = CServerPath_make ''/a'' UNIX; b = CServerPath_make ''/a/b'' UNIX; c = CServerPath_make ''/b'' UNIX
   in path_less a b \<and> \<not> path_less b a \<and> path_less b c \<and> path_less a c"
proof -
  let ?a = "CServerPath_make ''/a'' UNIX" and ?b = "CServerPath_make ''/a/b'' UNIX"
    and ?c = "CServerPath_make ''/b'' UNIX"
  have ok: "path_key_ok ?a" "path_key_ok ?b" "path_key_ok ?c" by code_simp+
  have "path_less ?a ?b" "path_less ?b ?c" by code_simp+
  then show ?thesis
    using path_less_strict_total [OF ok] by (simp add: Let_def)
qed

subsection \<open>Containment\<close>

text \<open>The contract of a containment test on segments: \<open>same\<close> compares one
  segment, \<open>below\<close> holds of a list and each proper initial part of it.\<close>

locale segment_tree = nocase_equality same for same :: "'a \<Rightarrow> 'a \<Rightarrow> bool" +
  fixes below :: "bool \<Rightarrow> 'a list \<Rightarrow> 'a list \<Rightarrow> bool"
  assumes below_iff:
    "below eq xs ys \<longleftrightarrow>
       (\<exists>zs rest. xs = zs @ rest \<and> list_all2 same zs ys \<and> (eq \<or> rest \<noteq> []))"
begin

lemma below_length: "below False xs ys \<Longrightarrow> length ys < length xs"
  by (auto simp: below_iff dest: list_all2_lengthD)

lemma below_trans:
  assumes "below e1 xs ys" "below e2 ys zs"
  shows "below (e1 \<and> e2) xs zs"
proof -
  from assms obtain us rest where 1: "xs = us @ rest" "list_all2 same us ys" "e1 \<or> rest \<noteq> []"
    by (auto simp: below_iff)
  from assms obtain vs rest' where 2: "ys = vs @ rest'" "list_all2 same vs zs" "e2 \<or> rest' \<noteq> []"
    by (auto simp: below_iff)
  from 1(2) 2(1) obtain us1 us2 where u: "us = us1 @ us2" "list_all2 same us1 vs" "list_all2 same us2 rest'"
    by (auto simp: list_all2_append2)
  have "xs = us1 @ (us2 @ rest)" using 1(1) u(1) by simp
  moreover have "list_all2 same us1 zs" using u(2) 2(2) by (rule list_same_trans)
  moreover have "(e1 \<and> e2) \<or> us2 @ rest \<noteq> []" using 1(3) 2(3) u(3) by auto
  ultimately show ?thesis unfolding below_iff by blast
qed

end

lemma subdir_loop_iff:
  "subdir_loop L nocase eq xs ys \<longleftrightarrow>
     (\<exists>zs rest. xs = zs @ rest \<and>
        list_all2 (\<lambda>x y. if nocase then fz_stricmp L x y = 0 else x = y) zs ys \<and> (eq \<or> rest \<noteq> []))"
proof (induction L nocase eq xs ys rule: subdir_loop.induct)
  case (3 L nocase eq x xs y ys)
  then show ?case by (auto simp: list_all2_Cons2) (metis append_Cons list_all2_Cons)+
qed (auto simp: list_all2_Cons2)

definition same_segment :: "libfz \<Rightarrow> bool \<Rightarrow> wstring \<Rightarrow> wstring \<Rightarrow> bool" where
  "same_segment L nocase x y \<longleftrightarrow> (if nocase then fz_stricmp L x y = 0 else x = y)"

interpretation std_tree: segment_tree "same_segment libfz_std nocase" "subdir_loop libfz_std nocase" for nocase
proof
  fix a b c :: wstring and eq xs ys
  show "same_segment libfz_std nocase a a"
    and "same_segment libfz_std nocase a b \<Longrightarrow> same_segment libfz_std nocase b a"
    and "same_segment libfz_std nocase a b \<Longrightarrow> same_segment libfz_std nocase b c \<Longrightarrow>
         same_segment libfz_std nocase a c"
    using std_nocase.same_refl std_nocase.same_sym std_nocase.same_trans
    by (auto simp: same_segment_def split: if_splits)
  show "subdir_loop libfz_std nocase eq xs ys \<longleftrightarrow>
      (\<exists>zs rest. xs = zs @ rest \<and> list_all2 (same_segment libfz_std nocase) zs ys \<and> (eq \<or> rest \<noteq> []))"
    unfolding subdir_loop_iff same_segment_def ..
qed

lemma segment_tree_of_law:
  assumes "stricmp_law L"
  shows "segment_tree (same_segment L nocase) (subdir_loop L nocase)"
proof
  fix a b c :: wstring and eq xs ys
  show "same_segment L nocase a a"
    and "same_segment L nocase a b \<Longrightarrow> same_segment L nocase b a"
    and "same_segment L nocase a b \<Longrightarrow> same_segment L nocase b c \<Longrightarrow> same_segment L nocase a c"
    using stricmp_equiv [OF assms] unfolding same_segment_def by metis+
  show "subdir_loop L nocase eq xs ys \<longleftrightarrow>
      (\<exists>zs rest. xs = zs @ rest \<and> list_all2 (same_segment L nocase) zs ys \<and> (eq \<or> rest \<noteq> []))"
    unfolding subdir_loop_iff same_segment_def ..
qed

lemma subdir_exact: "subdir_loop L False eq xs ys \<longleftrightarrow> (if eq then prefix ys xs else strict_prefix ys xs)"
  by (auto simp: subdir_loop_iff list.rel_eq prefix_def strict_prefix_def)

lemma prefix_differs_trans:
  "stricmp_law L \<Longrightarrow> \<not> prefix_differs L nc a b \<Longrightarrow> \<not> prefix_differs L nc b c \<Longrightarrow> \<not> prefix_differs L nc a c"
  by (cases nc; cases a; cases b; cases c)
    (simp_all add: prefix_differs_def, metis stricmp_trans)

lemma IsSubdirOf_iff:
  "IsSubdirOf L a b nc eq \<longleftrightarrow>
     \<not> path_empty a \<and> \<not> path_empty b \<and> m_type a = m_type b \<and> HasParent a \<and>
     (prefixmode (traits (m_type a)) \<noteq> 1 \<longrightarrow> \<not> prefix_differs L nc (pfx a) (pfx b)) \<and>
     (prefixmode (traits (m_type a)) = 1 \<longrightarrow> pfx b \<noteq> None) \<and>
     subdir_loop L nc eq (segs a) (segs b)"
  by (simp add: IsSubdirOf_def)

text \<open>Containment is a strict partial order on paths, whether or not case
  matters: it is transitive, and a path lies strictly below another only when it has more
  segments, so never below itself and never both ways round.\<close>

theorem is_subdir_strict_order:
  assumes "stricmp_law L" and "IsSubdirOf L a b nc False" and "IsSubdirOf L b c nc False"
  shows "IsSubdirOf L a c nc False \<and> \<not> IsSubdirOf L b a nc False \<and> SegmentCount b < SegmentCount a"
proof -
  have tree: "segment_tree (same_segment L nc) (subdir_loop L nc)"
    by (rule segment_tree_of_law [OF assms(1)])
  have len: "SegmentCount y < SegmentCount x" if "IsSubdirOf L x y nc False" for x y
    using that segment_tree.below_length [OF tree, of "segs x" "segs y"]
    by (simp add: IsSubdirOf_iff SegmentCount_def)
  have lt: "SegmentCount b < SegmentCount a" by (rule len [OF assms(2)])
  then have "\<not> IsSubdirOf L b a nc False" using len [of b a] by linarith
  moreover have "subdir_loop L nc False (segs a) (segs c)"
    using assms(2,3) segment_tree.below_trans [OF tree, of False "segs a" "segs b" False "segs c"]
    by (simp add: IsSubdirOf_iff)
  then have "IsSubdirOf L a c nc False"
    using assms(2,3) prefix_differs_trans [OF assms(1), of nc "pfx a" "pfx b" "pfx c"]
    by (simp add: IsSubdirOf_iff)
  ultimately show ?thesis using lt by blast
qed

theorem is_subdir_strict_order_witness:
  "let a = CServerPath_make ''C:/X/y/z'' DOS; b = CServerPath_make ''c:/x/Y'' DOS; c = CServerPath_make ''C:/x'' DOS
   in IsSubdirOf libfz_std a b True False \<and> IsSubdirOf libfz_std a c True False \<and>
      \<not> IsSubdirOf libfz_std b a True False \<and> \<not> IsSubdirOf libfz_std a b False False"
proof -
  let ?a = "CServerPath_make ''C:/X/y/z'' DOS" and ?b = "CServerPath_make ''c:/x/Y'' DOS"
    and ?c = "CServerPath_make ''C:/x'' DOS"
  have "IsSubdirOf libfz_std ?a ?b True False" "IsSubdirOf libfz_std ?b ?c True False"
    "\<not> IsSubdirOf libfz_std ?a ?b False False" by code_simp+
  moreover have "stricmp_law libfz_std" by simp
  ultimately show ?thesis
    using is_subdir_strict_order [of libfz_std ?a ?b True ?c] by (simp add: Let_def)
qed

subsection \<open>Parents\<close>

lemma HasParent_iff:
  "HasParent p \<longleftrightarrow> \<not> path_empty p \<and> segs p \<noteq> [] \<and> (has_root (traits (m_type p)) \<or> 1 < length (segs p))"
  by (auto simp: HasParent_def)

lemma GetParent_fields:
  assumes "HasParent p"
  shows "m_data (GetParent p) = Some \<lparr>m_segments = butlast (segs p),
           m_prefix = (if m_type p = MVS then Some ''.'' else pfx p)\<rparr>"
    and "m_type (GetParent p) = m_type p"
  using assms by (auto simp: GetParent_def MakeParent_def HasParent_iff Let_def pfx_def)

lemma path_of_data: "m_data p = Some d \<Longrightarrow>
    \<not> path_empty p \<and> segs p = m_segments d \<and> pfx p = m_prefix d \<and> data_get p = d"
  by (simp add: path_empty_def segs_def pfx_def data_get_def)

lemma subdir_length: "IsSubdirOf L a b False False \<Longrightarrow> length (segs b) < length (segs a)"
  by (simp only: IsSubdirOf_iff subdir_exact if_False prefix_length_less)

lemmas GetParent_data = path_of_data [OF GetParent_fields(1)]

text \<open>The parent of a canonical path is canonical, contains the path, and has
  no directory between itself and the path; appending the last segment to the parent gives the path
  back (for MVS up to the prefix mark).  A path without parent gives the empty path.\<close>

theorem get_parent_correct:
  assumes "canon_path p"
  shows "if HasParent p then
           canon_path (GetParent p) \<and> IsParentOf L (GetParent p) p False False \<and>
           \<not> (\<exists>q. IsSubdirOf L p q False False \<and> IsSubdirOf L q (GetParent p) False False) \<and>
           (m_type p \<noteq> MVS \<longrightarrow> AddSegment (GetParent p) (GetLastSegment p) = (True, p))
         else path_empty (GetParent p)"
proof (cases "HasParent p")
  case False
  then show ?thesis by (simp add: GetParent_def MakeParent_def path_clear_def path_empty_def)
next
  case True
  note parent = GetParent_data [OF True] GetParent_fields [OF True]
  note has = True [unfolded HasParent_iff]
  have data: "canon_data (m_type p) (data_get p)" using canon_path_data [OF assms] by simp
  have "canon_path (GetParent p)"
  proof -
    have "\<forall>s \<in> set (butlast (segs p)). canon_seg (m_type p) s"
      using data by (auto simp: canon_data_def segs_def dest: in_set_butlastD)
    moreover have "has_root (traits (m_type p)) \<or> butlast (segs p) \<noteq> []" using has by (cases "segs p") auto
    moreover have "canon_prefix (m_type p) (butlast (segs p)) (if m_type p = MVS then Some ''.'' else pfx p)"
      using data canon_prefix_indep [of "m_type p" "butlast (segs p)" "pfx p"]
        canon_prefix_indep [of "m_type p" "segs p" "pfx p"]
      by (cases "m_type p = MVS") (simp_all add: canon_data_def canon_prefix_def segs_def pfx_def)
    ultimately show ?thesis by (simp add: canon_path_def parent canon_data_def)
  qed
  moreover have "IsParentOf L (GetParent p) p False False"
  proof -
    have "prefixmode (traits (m_type p)) = 1 \<longleftrightarrow> m_type p = MVS" by (cases "m_type p") simp_all
    moreover have "strict_prefix (butlast (segs p)) (segs p)"
      using has by (metis append_butlast_last_id strict_prefixI' )
    ultimately show ?thesis using True has parent
      by (simp add: IsParentOf_def IsSubdirOf_iff subdir_exact prefix_differs_def)
  qed
  moreover have "\<not> (\<exists>q. IsSubdirOf L p q False False \<and> IsSubdirOf L q (GetParent p) False False)"
  proof safe
    fix q assume "IsSubdirOf L p q False False" "IsSubdirOf L q (GetParent p) False False"
    then have "length (segs q) < length (segs p)" "length (butlast (segs p)) < length (segs q)"
      using subdir_length [of L p q] subdir_length [of L q "GetParent p"] parent by simp_all
    then show False by simp
  qed
  moreover have "AddSegment (GetParent p) (GetLastSegment p) = (True, p)" if "m_type p \<noteq> MVS"
  proof -
    have "m_data p = Some \<lparr>m_segments = segs p, m_prefix = pfx p\<rparr>"
      using canon_path_data [OF assms] by (simp add: segs_def pfx_def)
    then have "p = (GetParent p)\<lparr>m_data := Some \<lparr>m_segments = segs p, m_prefix = pfx p\<rparr>\<rparr>"
      using parent(3) by simp
    then show ?thesis using parent has True that by (simp add: AddSegment_def GetLastSegment_def)
  qed
  ultimately show ?thesis using True by simp
qed

theorem get_parent_correct_witness:
  "let p = CServerPath_make ''DISK:[A^.B.C]'' VMS
   in GetParent p = CServerPath_make ''DISK:[A^.B]'' VMS \<and> GetLastSegment p = ''C'' \<and>
      IsParentOf libfz_std (GetParent p) p False False \<and> AddSegment (GetParent p) ''C'' = (True, p)"
proof -
  let ?p = "CServerPath_make ''DISK:[A^.B.C]'' VMS"
  have "canon_path ?p" "HasParent ?p" "m_type ?p \<noteq> MVS" "GetLastSegment ?p = ''C''"
    "GetParent ?p = CServerPath_make ''DISK:[A^.B]'' VMS" by code_simp+
  then show ?thesis using get_parent_correct [of ?p libfz_std] by (simp add: Let_def)
qed

subsection \<open>The common parent\<close>

lemma common_loop_lcp:
  "common_loop root acc xs ys =
     (if \<not> root \<and> acc = [] \<and> longest_common_prefix xs ys = [] \<and> xs \<noteq> [] \<and> ys \<noteq> [] then None
      else Some (acc @ longest_common_prefix xs ys))"
  by (induction root acc xs ys rule: common_loop.induct) auto

definition ancestor_or_self :: "libfz \<Rightarrow> CServerPath \<Rightarrow> CServerPath \<Rightarrow> bool" where
  "ancestor_or_self L c a \<longleftrightarrow> c = a \<or> IsParentOf L c a False False"

lemma canon_pathD:
  assumes "canon_path p"
  shows "\<not> path_empty p" "m_data p = Some \<lparr>m_segments = segs p, m_prefix = pfx p\<rparr>"
    "has_root (traits (m_type p)) \<or> segs p \<noteq> []"
  using canon_path_data [OF assms] by (auto simp: path_empty_def segs_def pfx_def canon_data_def)

lemma prefixmode_iff: "prefixmode (traits t) = (if t = MVS then 1 else 0)"
  by (cases t) simp_all

lemma ancestor_iff:
  assumes "canon_path c" "canon_path a" "m_type a \<noteq> MVS"
  shows "ancestor_or_self L c a \<longleftrightarrow> m_type c = m_type a \<and> pfx c = pfx a \<and> prefix (segs c) (segs a)"
proof -
  note c = canon_pathD [OF assms(1)] and a = canon_pathD [OF assms(2)]
  have "c = a \<longleftrightarrow> m_type c = m_type a \<and> pfx c = pfx a \<and> segs c = segs a"
    using c(2) a(2) by auto
  moreover have "HasParent a" if "m_type c = m_type a" "strict_prefix (segs c) (segs a)"
    using that c(3) a(1) prefix_length_less [OF that(2)] by (cases "segs c") (auto simp: HasParent_iff)
  then have "IsParentOf L c a False False \<longleftrightarrow>
      m_type c = m_type a \<and> pfx c = pfx a \<and> strict_prefix (segs c) (segs a)"
    using c(1) a(1) assms(3)
    by (auto simp: IsParentOf_def IsSubdirOf_iff subdir_exact prefix_differs_def prefixmode_iff)
  ultimately show ?thesis by (auto simp: ancestor_or_self_def strict_prefix_def)
qed

lemma lcp_of_prefix: "prefix xs ys \<Longrightarrow> longest_common_prefix xs ys = xs \<and> longest_common_prefix ys xs = xs"
  by (simp add: longest_common_prefix_prefix1 longest_common_prefix_prefix2
      longest_common_prefix_max_prefix prefix_order.antisym)

lemma no_parent_lcp:
  assumes "canon_path a" "canon_path b" "\<not> HasParent a" "m_type a = m_type b" "pfx a = pfx b" "m_type a \<noteq> MVS"
  shows "ancestor_or_self L a b \<longleftrightarrow>
      has_root (traits (m_type a)) \<or> longest_common_prefix (segs a) (segs b) \<noteq> []"
proof -
  note a = canon_pathD [OF assms(1)]
  have "(has_root (traits (m_type a)) \<and> segs a = []) \<or> (\<not> has_root (traits (m_type a)) \<and> (\<exists>x. segs a = [x]))"
    using assms(3) a(1,3) by (cases "segs a"; cases "tl (segs a)") (auto simp: HasParent_iff)
  then show ?thesis
    using ancestor_iff [OF assms(1,2), of L] assms(4-6) by (cases "segs b") auto
qed

lemma GetCommonParent_lcp:
  assumes "canon_path a" "canon_path b" "m_type a \<noteq> MVS"
  shows "GetCommonParent L a b =
     (let l = longest_common_prefix (segs a) (segs b)
      in if m_type a = m_type b \<and> pfx a = pfx b \<and> (has_root (traits (m_type a)) \<or> l \<noteq> [])
         then \<lparr>m_data = Some \<lparr>m_segments = l, m_prefix = pfx a\<rparr>, m_type = m_type a\<rparr>
         else CServerPath_default)"
proof -
  let ?l = "longest_common_prefix (segs a) (segs b)"
  note a = canon_pathD [OF assms(1)] and b = canon_pathD [OF assms(2)]
  have self: "p = \<lparr>m_data = Some \<lparr>m_segments = sl, m_prefix = pr\<rparr>, m_type = t\<rparr>"
    if "canon_path p" "segs p = sl" "pfx p = pr" "m_type p = t" for p sl pr t
    using canon_pathD(2) [OF that(1)] that(2-4) by simp
  consider "a = b" | "a \<noteq> b" "m_type a \<noteq> m_type b \<or> pfx a \<noteq> pfx b"
    | "a \<noteq> b" "m_type a = m_type b" "pfx a = pfx b" by blast
  then show ?thesis
  proof cases
    case 1
    have "?l = segs a" using 1 by (simp add: lcp_of_prefix)
    then show ?thesis using 1 self [OF assms(1)] a(3) by (auto simp: GetCommonParent_def Let_def)
  next
    case 2
    then show ?thesis using a(1) b(1) assms(3) by (auto simp: GetCommonParent_def Let_def prefixmode_iff)
  next
    case 3
    have anc: "ancestor_or_self L p q \<longleftrightarrow> IsSubdirOf L q p False False" if "p \<noteq> q" for p q
      using that by (simp add: ancestor_or_self_def IsParentOf_def)
    have up: "segs p = longest_common_prefix (segs p) (segs q)" if "ancestor_or_self L p q" "canon_path p" "canon_path q" "m_type q \<noteq> MVS" for p q
      using that ancestor_iff [of p q L] lcp_of_prefix [of "segs p" "segs q"] by simp
    have comm: "longest_common_prefix (segs b) (segs a) = ?l"
      by (simp add: prefix_order.antisym longest_common_prefix_prefix1 longest_common_prefix_prefix2
          longest_common_prefix_max_prefix)
    show ?thesis
    proof (cases "HasParent a")
      case noa: False
      have "IsSubdirOf L b a False False \<longleftrightarrow> has_root (traits (m_type a)) \<or> ?l \<noteq> []"
        using no_parent_lcp [OF assms(1,2) noa 3(2,3) assms(3), of L] anc [OF 3(1)] by simp
      moreover have "a = \<lparr>m_data = Some \<lparr>m_segments = ?l, m_prefix = pfx a\<rparr>, m_type = m_type a\<rparr>"
        if "IsSubdirOf L b a False False"
        using that up [of a b] anc [OF 3(1)] assms 3(2) by (intro self) simp_all
      ultimately show ?thesis using 3 noa a(1) b(1) assms(3)
        by (simp add: GetCommonParent_def Let_def)
    next
      case hasa: True
      show ?thesis
      proof (cases "HasParent b")
        case nob: False
        have "IsSubdirOf L a b False False \<longleftrightarrow> has_root (traits (m_type a)) \<or> ?l \<noteq> []"
          using no_parent_lcp [OF assms(2,1) nob, of L] 3 assms(3) anc [of b a] comm by simp
        moreover have "b = \<lparr>m_data = Some \<lparr>m_segments = ?l, m_prefix = pfx a\<rparr>, m_type = m_type a\<rparr>"
          if "IsSubdirOf L a b False False"
          using that up [of b a] anc [of b a] assms 3 comm by (intro self) simp_all
        ultimately show ?thesis using 3 hasa nob a(1) b(1) assms(3)
          by (simp add: GetCommonParent_def Let_def)
      next
        case True
        then show ?thesis using hasa 3 a(1) b(1) assms(3)
          by (simp add: GetCommonParent_def Let_def common_loop_lcp prefixmode_iff HasParent_iff)
      qed
    qed
  qed
qed

text \<open>What a common parent has to be: the empty path when no path is above both, and otherwise an
  ancestor of both that every other common ancestor is above.\<close>

definition greatest_common :: "libfz \<Rightarrow> CServerPath \<Rightarrow> CServerPath \<Rightarrow> CServerPath \<Rightarrow> bool" where
  "greatest_common L a b g \<longleftrightarrow>
     (if path_empty g
      then \<not> (\<exists>c. canon_path c \<and> ancestor_or_self L c a \<and> ancestor_or_self L c b)
      else canon_path g \<and> ancestor_or_self L g a \<and> ancestor_or_self L g b \<and>
           (\<forall>c. canon_path c \<and> ancestor_or_self L c a \<and> ancestor_or_self L c b \<longrightarrow> ancestor_or_self L c g))"

lemma common_parent_no_MVS:
  assumes "canon_path a" "canon_path b" "m_type a \<noteq> MVS"
  shows "greatest_common L a b (GetCommonParent L a b)"
proof -
  let ?l = "longest_common_prefix (segs a) (segs b)" and ?q = "GetCommonParent L a b"
  define found where "found \<longleftrightarrow> m_type a = m_type b \<and> pfx a = pfx b \<and> (has_root (traits (m_type a)) \<or> ?l \<noteq> [])"
  note q = GetCommonParent_lcp [OF assms, of L, unfolded Let_def, folded found_def]
  have above: "found \<and> m_type c = m_type a \<and> pfx c = pfx a \<and> prefix (segs c) ?l"
    if "canon_path c" "ancestor_or_self L c a" "ancestor_or_self L c b" for c
  proof -
    have 1: "m_type c = m_type a" "pfx c = pfx a" "prefix (segs c) (segs a)"
      using that ancestor_iff [of c a L] assms by simp_all
    have 2: "m_type c = m_type b" "pfx c = pfx b" "prefix (segs c) (segs b)"
      using that(1,2) that(3)[unfolded ancestor_or_self_def IsParentOf_def IsSubdirOf_iff] ancestor_iff [of c b L] that(3) 1 assms
      by auto
    have "prefix (segs c) ?l" using 1(3) 2(3) by (rule longest_common_prefix_max_prefix)
    then show ?thesis using 1 2 canon_pathD(3) [OF that(1)] by (auto simp: found_def)
  qed
  show ?thesis
  proof (cases found)
    case False
    then show ?thesis using q above by (auto simp: greatest_common_def CServerPath_default_def path_empty_def)
  next
    case True
    then have same: "m_type b = m_type a" "pfx b = pfx a" by (simp_all add: found_def)
    have data: "m_data ?q = Some \<lparr>m_segments = ?l, m_prefix = pfx a\<rparr>" "m_type ?q = m_type a"
      using q True by simp_all
    note fields = path_of_data [OF data(1)]
    have pre: "prefix ?l (segs a)" "prefix ?l (segs b)"
      by (simp_all add: longest_common_prefix_prefix1 longest_common_prefix_prefix2)
    have canon: "canon_path ?q"
    proof -
      have a: "canon_data (m_type a) (data_get a)" using canon_path_data [OF assms(1)] by simp
      have "canon_seg (m_type a) s" if "s \<in> set ?l" for s
        using that set_mono_prefix [OF pre(1)] a by (simp add: canon_data_def segs_def subset_iff)
      moreover have "canon_prefix (m_type a) ?l (pfx a)"
        using a canon_prefix_indep [OF assms(3), of ?l "pfx a"] canon_prefix_indep [OF assms(3), of "segs a" "pfx a"]
        by (simp add: canon_data_def segs_def pfx_def)
      moreover have "has_root (traits (m_type a)) \<or> ?l \<noteq> []" using True unfolding found_def by blast
      ultimately have "canon_path ?q" by (simp add: canon_path_def data canon_data_def)
      then show ?thesis .
    qed
    have "ancestor_or_self L c ?q" if "canon_path c" "ancestor_or_self L c a" "ancestor_or_self L c b" for c
      using above [OF that] ancestor_iff [OF that(1) canon, of L] data(2) assms(3) fields by simp
    moreover have "ancestor_or_self L ?q a" "ancestor_or_self L ?q b"
      using ancestor_iff [OF canon assms(1), of L] ancestor_iff [OF canon assms(2), of L] data(2) fields pre same assms(3)
      by simp_all
    ultimately show ?thesis using canon fields by (simp add: greatest_common_def)
  qed
qed

subsection \<open>The common parent of MVS names\<close>

text \<open>A qualifier ends in a dot, which the prefix mark stands for; a data set without the mark has no
  names below it.  What can be above a path are the qualifiers of its name.\<close>

definition qualifiers :: "CServerPath \<Rightarrow> wstring list" where
  "qualifiers p = (if pfx p = None then butlast (segs p) else segs p)"

lemma canon_MVS:
  assumes "canon_path p" "m_type p = MVS"
  shows "segs p \<noteq> []" "pfx p = None \<or> pfx p = Some ''.''"
  using canon_path_data [OF assms(1)] assms(2)
  by (auto simp: canon_data_def canon_prefix_def segs_def pfx_def split: option.splits)

lemma MVS_eq_iff:
  assumes "canon_path p" "canon_path q" "m_type p = MVS" "m_type q = MVS"
  shows "p = q \<longleftrightarrow> pfx p = pfx q \<and> segs p = segs q"
  using canon_pathD(2) [OF assms(1)] canon_pathD(2) [OF assms(2)] assms(3,4) by auto

lemma subdir_MVS_iff:
  assumes "canon_path c" "canon_path a" "m_type a = MVS"
  shows "IsSubdirOf L a c False False \<longleftrightarrow> m_type c = MVS \<and> pfx c = Some ''.'' \<and> strict_prefix (segs c) (segs a)"
proof -
  have "HasParent a" if "m_type c = MVS" "strict_prefix (segs c) (segs a)"
    using that canon_MVS(1) [OF assms(1)] canon_pathD(1) [OF assms(2)] prefix_length_less [OF that(2)]
    by (cases "segs c") (auto simp: HasParent_iff)
  then show ?thesis
    using canon_pathD(1) [OF assms(1)] canon_pathD(1) [OF assms(2)] assms(3) canon_MVS(2) [OF assms(1)]
    by (auto simp: IsSubdirOf_iff subdir_exact prefixmode_iff)
qed

lemma strict_prefix_butlast: "ys \<noteq> [] \<Longrightarrow> strict_prefix xs ys \<longleftrightarrow> prefix xs (butlast ys)"
  by (cases ys rule: rev_cases) (auto simp: strict_prefix_def dest: prefix_length_le)

lemma ancestor_MVS_iff:
  assumes "canon_path c" "canon_path a" "m_type a = MVS"
  shows "ancestor_or_self L c a \<longleftrightarrow>
     c = a \<or> m_type c = MVS \<and> pfx c = Some ''.'' \<and> prefix (segs c) (qualifiers a)"
proof -
  note a = canon_MVS [OF assms(2,3)]
  show ?thesis
  proof (cases "pfx a")
    case None
    then show ?thesis
      using subdir_MVS_iff [OF assms, of L] strict_prefix_butlast [OF a(1), of "segs c"]
      by (auto simp: ancestor_or_self_def IsParentOf_def qualifiers_def)
  next
    case (Some x)
    then show ?thesis
      using subdir_MVS_iff [OF assms, of L] MVS_eq_iff [OF assms(1,2) _ assms(3)] a(2)
      by (auto simp: ancestor_or_self_def IsParentOf_def qualifiers_def strict_prefix_def)
  qed
qed

lemma GetCommonParent_MVS:
  assumes "canon_path a" "canon_path b" "m_type a = MVS" "m_type b = MVS" "a \<noteq> b"
  shows "GetCommonParent L a b =
     (let l = longest_common_prefix (qualifiers a) (qualifiers b)
      in if l = [] then CServerPath_default
         else \<lparr>m_data = Some \<lparr>m_segments = l, m_prefix = Some ''.''\<rparr>, m_type = MVS\<rparr>)"
proof -
  let ?l = "longest_common_prefix (qualifiers a) (qualifiers b)"
  note a = canon_pathD [OF assms(1)] canon_MVS [OF assms(1,3)]
    and b = canon_pathD [OF assms(2)] canon_MVS [OF assms(2,4)]
  have par: "HasParent p \<longleftrightarrow> 1 < length (segs p)" if "canon_path p" "m_type p = MVS" for p
    using canon_pathD(1) [OF that(1)] that(2) by (auto simp: HasParent_iff)
  have one: "IsSubdirOf L q p False False \<longleftrightarrow> longest_common_prefix (qualifiers p) (qualifiers q) \<noteq> []"
    "IsSubdirOf L q p False False \<Longrightarrow>
       p = \<lparr>m_data = Some \<lparr>m_segments = longest_common_prefix (qualifiers p) (qualifiers q), m_prefix = Some ''.''\<rparr>, m_type = MVS\<rparr>"
    if p: "canon_path p" "m_type p = MVS" "\<not> HasParent p" and q: "canon_path q" "m_type q = MVS" and ne: "p \<noteq> q" for p q
  proof -
    obtain x where x: "segs p = [x]"
      using par [OF p(1,2)] p(3) canon_MVS(1) [OF p(1,2)] by (cases "segs p"; cases "tl (segs p)") auto
    have sub: "IsSubdirOf L q p False False \<longleftrightarrow> pfx p = Some ''.'' \<and> prefix [x] (qualifiers q)"
      using ancestor_MVS_iff [OF p(1) q, of L] p ne x by (simp add: ancestor_or_self_def IsParentOf_def)
    show "IsSubdirOf L q p False False \<longleftrightarrow> longest_common_prefix (qualifiers p) (qualifiers q) \<noteq> []"
      using sub x canon_MVS(2) [OF p(1,2)] by (cases "qualifiers q") (auto simp: qualifiers_def [of p])
    show "p = \<lparr>m_data = Some \<lparr>m_segments = longest_common_prefix (qualifiers p) (qualifiers q), m_prefix = Some ''.''\<rparr>, m_type = MVS\<rparr>"
      if "IsSubdirOf L q p False False"
    proof -
      have "pfx p = Some ''.''" "prefix [x] (qualifiers q)" using that sub by simp_all
      moreover have "qualifiers p = [x]" using calculation(1) x by (simp add: qualifiers_def)
      ultimately show ?thesis
        using x canon_pathD(2) [OF p(1)] p(2) lcp_of_prefix [of "[x]" "qualifiers q"] by simp
    qed
  qed
  have comm: "longest_common_prefix (qualifiers b) (qualifiers a) = ?l"
    by (simp add: prefix_order.antisym longest_common_prefix_prefix1 longest_common_prefix_prefix2
        longest_common_prefix_max_prefix)
  have quals: "(if pfx p = None then butlast (segs p) else segs p) = qualifiers p" for p
    by (simp add: qualifiers_def)
  have full: "qualifiers p \<noteq> []" if "canon_path p" "m_type p = MVS" "HasParent p" for p
    using that par [OF that(1,2)] by (cases "segs p") (auto simp: qualifiers_def)
  consider "\<not> HasParent a" | "HasParent a" "\<not> HasParent b" | "HasParent a" "HasParent b" by blast
  then show ?thesis
  proof cases
    case 1
    then show ?thesis using one [OF assms(1,3) 1 assms(2,4,5)] a(1) b(1) assms(3-5)
      by (auto simp: GetCommonParent_def Let_def prefixmode_iff)
  next
    case 2
    then show ?thesis using one [OF assms(2,4) 2(2) assms(1,3)] a(1) b(1) assms(3-5) comm
      by (auto simp: GetCommonParent_def Let_def prefixmode_iff)
  next
    case 3
    have "pfx (GetParent a) = Some ''.''" using GetParent_data [OF 3(1)] assms(3) by simp
    then show ?thesis using 3 full [OF assms(1,3) 3(1)] full [OF assms(2,4) 3(2)] a(1) b(1) assms(3-5)
      by (simp add: GetCommonParent_def Let_def common_loop_lcp prefixmode_iff quals)
  qed
qed

lemma common_parent_MVS:
  assumes "canon_path a" "canon_path b" "m_type a = MVS"
  shows "greatest_common L a b (GetCommonParent L a b)"
proof -
  let ?l = "longest_common_prefix (qualifiers a) (qualifiers b)" and ?g = "GetCommonParent L a b"
  consider "a = b" | "m_type b \<noteq> MVS" | "a \<noteq> b" "m_type b = MVS" by blast
  then show ?thesis
  proof cases
    case 1
    then have "?g = a" by (simp add: GetCommonParent_def)
    then show ?thesis
      using 1 assms(1) canon_pathD(1) [OF assms(1)] by (simp add: greatest_common_def ancestor_or_self_def)
  next
    case 2
    then have "?g = CServerPath_default"
      using canon_pathD(1) [OF assms(1)] canon_pathD(1) [OF assms(2)] assms(3)
      by (auto simp: GetCommonParent_def Let_def)
    have "m_type c = m_type p" if "ancestor_or_self L c p" for c p
      using that by (auto simp: ancestor_or_self_def IsParentOf_def IsSubdirOf_iff)
    then have "\<not> (\<exists>c. ancestor_or_self L c a \<and> ancestor_or_self L c b)" using 2 assms(3) by metis
    moreover note \<open>?g = CServerPath_default\<close>
    ultimately show ?thesis by (auto simp: greatest_common_def path_empty_def CServerPath_default_def)
  next
    case 3
    note g = GetCommonParent_MVS [OF assms(1,2,3) 3(2,1), of L, unfolded Let_def]
    have above: "m_type c = MVS \<and> pfx c = Some ''.'' \<and> segs c \<noteq> [] \<and> prefix (segs c) ?l"
      if c: "canon_path c" "ancestor_or_self L c a" "ancestor_or_self L c b" for c
    proof -
      have "pfx c = Some ''.'' \<and> m_type c = MVS \<and> prefix (segs c) (qualifiers a) \<and> prefix (segs c) (qualifiers b)"
        using ancestor_MVS_iff [OF c(1) assms(1,3), of L] ancestor_MVS_iff [OF c(1) assms(2) 3(2), of L] c 3(1)
        by (auto simp: qualifiers_def)
      then show ?thesis using canon_MVS(1) [OF c(1)] longest_common_prefix_max_prefix by blast
    qed
    show ?thesis
    proof (cases "?l = []")
      case True
      then have "path_empty ?g" using g by (simp add: path_empty_def CServerPath_default_def)
      then show ?thesis using above True by (auto simp: greatest_common_def)
    next
      case False
      then have data: "m_data ?g = Some \<lparr>m_segments = ?l, m_prefix = Some ''.''\<rparr>" "m_type ?g = MVS"
        using g by simp_all
      note fields = path_of_data [OF data(1)]
      have pre: "prefix ?l (qualifiers a)" "prefix ?l (qualifiers b)"
        by (simp_all add: longest_common_prefix_prefix1 longest_common_prefix_prefix2)
      have "canon_seg MVS s" if "s \<in> set ?l" for s
      proof -
        have "s \<in> set (segs a)"
          using that set_mono_prefix [OF pre(1)] by (auto simp: qualifiers_def dest: in_set_butlastD split: if_splits)
        then show ?thesis using canon_path_data [OF assms(1)] assms(3) by (simp add: canon_data_def segs_def)
      qed
      then have canon: "canon_path ?g" using False by (simp add: canon_path_def data canon_data_def canon_prefix_def)
      have "ancestor_or_self L ?g a" "ancestor_or_self L ?g b"
        using ancestor_MVS_iff [OF canon assms(1,3)] ancestor_MVS_iff [OF canon assms(2) 3(2)] data(2) fields pre by simp_all
      moreover have "ancestor_or_self L c ?g" if "canon_path c" "ancestor_or_self L c a" "ancestor_or_self L c b" for c
        using above [OF that] ancestor_MVS_iff [OF that(1) canon data(2), of L] fields by (simp add: qualifiers_def)
      ultimately show ?thesis using canon fields by (simp add: greatest_common_def)
    qed
  qed
qed

text \<open>C28: the common parent of two canonical paths, of any of the ten server types, is the greatest
  common ancestor: it is a canonical ancestor of both, every canonical path above both is above it or
  equal to it, and it is the empty path exactly when no path is above both.  For MVS this is the
  longest common run of qualifiers, with the mark of a qualifier.\<close>

theorem common_parent_greatest:
  assumes "canon_path a" "canon_path b"
  shows "(if path_empty (GetCommonParent L a b)
          then \<not> (\<exists>c. canon_path c \<and> ancestor_or_self L c a \<and> ancestor_or_self L c b)
          else canon_path (GetCommonParent L a b) \<and>
               ancestor_or_self L (GetCommonParent L a b) a \<and> ancestor_or_self L (GetCommonParent L a b) b \<and>
               (\<forall>c. canon_path c \<and> ancestor_or_self L c a \<and> ancestor_or_self L c b \<longrightarrow>
                    ancestor_or_self L c (GetCommonParent L a b)))"
  using common_parent_no_MVS [OF assms, of L] common_parent_MVS [OF assms, of L]
  unfolding greatest_common_def by blast

theorem common_parent_greatest_witness:
  "let a = CServerPath_make ''C:/x/y/z'' DOS; b = CServerPath_make ''C:/x/u'' DOS; c = CServerPath_make ''C:/'' DOS;
       q = [quote_mark]; d = CServerPath_make (q @ ''A.B.C'' @ q) MVS; e = CServerPath_make (q @ ''A.B.'' @ q) MVS
   in GetCommonParent libfz_std a b = CServerPath_make ''C:/x'' DOS \<and>
      ancestor_or_self libfz_std (GetCommonParent libfz_std a b) a \<and>
      ancestor_or_self libfz_std c (GetCommonParent libfz_std a b) \<and>
      GetCommonParent libfz_std d e = e \<and> ancestor_or_self libfz_std e d"
proof -
  let ?a = "CServerPath_make ''C:/x/y/z'' DOS" and ?b = "CServerPath_make ''C:/x/u'' DOS"
    and ?c = "CServerPath_make ''C:/'' DOS"
    and ?d = "CServerPath_make ([quote_mark] @ ''A.B.C'' @ [quote_mark]) MVS"
    and ?e = "CServerPath_make ([quote_mark] @ ''A.B.'' @ [quote_mark]) MVS"
  have "canon_path ?a" "canon_path ?b" "canon_path ?c" "canon_path ?d" "canon_path ?e"
    "ancestor_or_self libfz_std ?c ?a" "ancestor_or_self libfz_std ?c ?b"
    "\<not> path_empty (GetCommonParent libfz_std ?a ?b)" "\<not> path_empty (GetCommonParent libfz_std ?d ?e)"
    "GetCommonParent libfz_std ?a ?b = CServerPath_make ''C:/x'' DOS"
    "GetCommonParent libfz_std ?d ?e = ?e" by code_simp+
  then show ?thesis
    using common_parent_greatest [of ?a ?b libfz_std] common_parent_greatest [of ?d ?e libfz_std]
    by (simp add: Let_def)
qed

end
