(* ===== verification/Server.thy ===== *)
theory Server
  imports Server_Path_Order "HOL-Library.Product_Lexorder"
begin

text \<open>
  Servers: \<open>src/filezilla3/src/engine/server.cpp\<close> with \<open>include/server.h\<close>.
  The protocol table, protocol features and parameters, the setters of
  \<open>CServer\<close>, its comparison operators and its printed form.  The translation
  function of the message catalogue, the ASCII lower-case function and the percent encoding of
  libfilezilla are arguments.
\<close>

subsection \<open>Protocols\<close>

datatype ServerProtocol =
  UNKNOWN | FTP | SFTP | HTTP | FTPS | FTPES | HTTPS | INSECURE_FTP | S3 | STORJ | WEBDAV |
  AZURE_FILE | AZURE_BLOB | SWIFT | GOOGLE_CLOUD | GOOGLE_DRIVE | DROPBOX | ONEDRIVE | B2 | BOX |
  INSECURE_WEBDAV | RACKSPACE | STORJ_GRANT | S3_SSO | GOOGLE_CLOUD_SVC_ACC | CLOUDFLARE_R2

definition protocols :: "ServerProtocol list" where
  "protocols =
     [FTP, SFTP, HTTP, FTPS, FTPES, HTTPS, INSECURE_FTP, S3, STORJ, WEBDAV, AZURE_FILE, AZURE_BLOB,
      SWIFT, GOOGLE_CLOUD, GOOGLE_DRIVE, DROPBOX, ONEDRIVE, B2, BOX, INSECURE_WEBDAV, RACKSPACE,
      STORJ_GRANT, S3_SSO, GOOGLE_CLOUD_SVC_ACC, CLOUDFLARE_R2]"

fun protocol_value :: "ServerProtocol \<Rightarrow> int" where
  "protocol_value UNKNOWN = -1"
| "protocol_value FTP = 0"
| "protocol_value SFTP = 1"
| "protocol_value HTTP = 2"
| "protocol_value FTPS = 3"
| "protocol_value FTPES = 4"
| "protocol_value HTTPS = 5"
| "protocol_value INSECURE_FTP = 6"
| "protocol_value S3 = 7"
| "protocol_value STORJ = 8"
| "protocol_value WEBDAV = 9"
| "protocol_value AZURE_FILE = 10"
| "protocol_value AZURE_BLOB = 11"
| "protocol_value SWIFT = 12"
| "protocol_value GOOGLE_CLOUD = 13"
| "protocol_value GOOGLE_DRIVE = 14"
| "protocol_value DROPBOX = 15"
| "protocol_value ONEDRIVE = 16"
| "protocol_value B2 = 17"
| "protocol_value BOX = 18"
| "protocol_value INSECURE_WEBDAV = 19"
| "protocol_value RACKSPACE = 20"
| "protocol_value STORJ_GRANT = 21"
| "protocol_value S3_SSO = 22"
| "protocol_value GOOGLE_CLOUD_SVC_ACC = 23"
| "protocol_value CLOUDFLARE_R2 = 24"

lemma protocol_value_nth: "p \<noteq> UNKNOWN \<Longrightarrow> protocols ! nat (protocol_value p) = p"
  by (cases p) (simp_all add: protocols_def)

lemma protocol_value_inj: "protocol_value a = protocol_value b \<longleftrightarrow> a = b"
proof
  assume eq: "protocol_value a = protocol_value b"
  show "a = b"
  proof (cases "a = UNKNOWN \<or> b = UNKNOWN")
    case True
    with eq show ?thesis by (cases a; cases b) simp_all
  next
    case False
    then show ?thesis using protocol_value_nth eq by metis
  qed
qed simp

lemma protocols_all: "p = UNKNOWN \<or> p \<in> set protocols"
  by (cases p) (simp_all add: protocols_def)

record t_protocolInfo =
  pi_protocol :: ServerProtocol
  pi_prefix :: wstring
  alwaysShowPrefix :: bool
  parse_from_prefix :: bool
  defaultPort :: nat
  translateable :: bool
  pi_name :: string
  alternative_prefix :: wstring

definition protocol_info ::
  "ServerProtocol \<Rightarrow> wstring \<Rightarrow> bool \<Rightarrow> bool \<Rightarrow> nat \<Rightarrow> bool \<Rightarrow> string \<Rightarrow> wstring \<Rightarrow> t_protocolInfo" where
  "protocol_info p pr show parse port tr nm alt =
     \<lparr>pi_protocol = p, pi_prefix = pr, alwaysShowPrefix = show, parse_from_prefix = parse,
      defaultPort = port, translateable = tr, pi_name = nm, alternative_prefix = alt\<rparr>"

definition unknown_info :: t_protocolInfo where
  "unknown_info = protocol_info UNKNOWN '''' False False 21 False '''' ''''"

text \<open>The table without its final \<open>UNKNOWN\<close> row, which ends every search.\<close>

definition protocolInfos :: "t_protocolInfo list" where
  "protocolInfos = [
     protocol_info FTP ''ftp'' False True 21 True ''FTP - File Transfer Protocol with optional encryption'' '''',
     protocol_info SFTP ''sftp'' True True 22 False ''SFTP - SSH File Transfer Protocol'' '''',
     protocol_info HTTP ''http'' True True 80 False ''HTTP - Hypertext Transfer Protocol'' '''',
     protocol_info HTTPS ''https'' True True 443 True ''HTTPS - HTTP over TLS'' '''',
     protocol_info FTPS ''ftps'' True True 990 True ''FTPS - FTP over implicit TLS'' '''',
     protocol_info FTPES ''ftpes'' True True 21 True ''FTPES - FTP over explicit TLS'' '''',
     protocol_info INSECURE_FTP ''ftp'' False False 21 True ''FTP - Insecure File Transfer Protocol'' '''',
     protocol_info S3 ''s3'' True True 443 False ''S3 - Amazon Simple Storage Service'' '''',
     protocol_info STORJ ''storj'' True False 7777 True ''Storj (using legacy API key)'' '''',
     protocol_info WEBDAV ''webdav'' True True 443 True ''WebDAV using HTTPS'' ''https'',
     protocol_info AZURE_FILE ''azfile'' True True 443 False ''Microsoft Azure File Storage Service'' ''https'',
     protocol_info AZURE_BLOB ''azblob'' True True 443 False ''Microsoft Azure Blob Storage Service'' ''https'',
     protocol_info SWIFT ''swift'' True True 443 False ''OpenStack Swift'' ''https'',
     protocol_info GOOGLE_CLOUD ''google'' True True 443 False ''Google Cloud Storage'' ''https'',
     protocol_info GOOGLE_DRIVE ''gdrive'' True True 443 False ''Google Drive'' ''https'',
     protocol_info DROPBOX ''dropbox'' True True 443 False ''Dropbox'' ''https'',
     protocol_info ONEDRIVE ''onedrive'' True True 443 False ''Microsoft OneDrive'' ''https'',
     protocol_info B2 ''b2'' True True 443 False ''Backblaze B2'' ''https'',
     protocol_info BOX ''box'' True True 443 False ''Box'' ''https'',
     protocol_info INSECURE_WEBDAV ''webdav'' True True 80 True ''WebDAV using HTTP (insecure)'' ''http'',
     protocol_info RACKSPACE ''rackspace'' True True 443 False ''Rackspace Cloud Storage'' ''https'',
     protocol_info STORJ_GRANT ''storj'' True True 7777 True ''Storj - Decentralized Cloud Storage'' '''',
     protocol_info S3_SSO ''s3sso'' True True 443 False ''S3 via IAM Identity Center (formerly SSO)'' '''',
     protocol_info GOOGLE_CLOUD_SVC_ACC ''googleacc'' True True 443 False ''Google Cloud Storage with Service Account'' ''https'',
     protocol_info CLOUDFLARE_R2 ''r2'' True True 443 False ''Cloudflare R2'' ''https'']"

definition GetProtocolInfo :: "ServerProtocol \<Rightarrow> t_protocolInfo" where
  "GetProtocolInfo p =
     (case find (\<lambda>i. pi_protocol i = p) protocolInfos of Some i \<Rightarrow> i | None \<Rightarrow> unknown_info)"

definition GetDefaultPort :: "ServerProtocol \<Rightarrow> nat" where
  "GetDefaultPort p = defaultPort (GetProtocolInfo p)"

definition GetProtocolFromPort :: "nat \<Rightarrow> bool \<Rightarrow> ServerProtocol" where
  "GetProtocolFromPort port defaultOnly =
     (case find (\<lambda>i. defaultPort i = port) protocolInfos of
        Some i \<Rightarrow> pi_protocol i
      | None \<Rightarrow> if defaultOnly then UNKNOWN else FTP)"

definition shown_name :: "(string \<Rightarrow> wstring) \<Rightarrow> t_protocolInfo \<Rightarrow> wstring" where
  "shown_name translate i = (if translateable i then translate (pi_name i) else pi_name i)"

definition GetProtocolName :: "(string \<Rightarrow> wstring) \<Rightarrow> ServerProtocol \<Rightarrow> wstring" where
  "GetProtocolName translate p =
     (case find (\<lambda>i. pi_protocol i = p) protocolInfos of Some i \<Rightarrow> shown_name translate i | None \<Rightarrow> [])"

definition GetProtocolFromName :: "(string \<Rightarrow> wstring) \<Rightarrow> wstring \<Rightarrow> ServerProtocol" where
  "GetProtocolFromName translate name =
     (case find (\<lambda>i. shown_name translate i = name) protocolInfos of
        Some i \<Rightarrow> pi_protocol i | None \<Rightarrow> UNKNOWN)"

definition GetProtocolFromPrefix :: "(wstring \<Rightarrow> wstring) \<Rightarrow> wstring \<Rightarrow> ServerProtocol \<Rightarrow> ServerProtocol" where
  "GetProtocolFromPrefix tolower pr hint =
     (let lower = tolower pr; info = GetProtocolInfo hint
      in if hint \<noteq> UNKNOWN \<and> lower \<noteq> [] \<and> (pi_prefix info = lower \<or> alternative_prefix info = lower)
         then hint
         else
           (case find (\<lambda>i. pi_prefix i = lower \<and> parse_from_prefix i) protocolInfos of
              Some i \<Rightarrow> pi_protocol i | None \<Rightarrow> UNKNOWN))"

definition GetPrefixFromProtocol :: "ServerProtocol \<Rightarrow> wstring" where
  "GetPrefixFromProtocol p = pi_prefix (GetProtocolInfo p)"

definition GetDefaultProtocols :: "bool \<Rightarrow> bool \<Rightarrow> bool \<Rightarrow> ServerProtocol list" where
  "GetDefaultProtocols enable_ftp enable_sftp enable_storj =
     (if enable_ftp then [FTP] else []) @ (if enable_sftp then [SFTP] else []) @
     (if enable_ftp then [FTPS, FTPES, INSECURE_FTP] else []) @
     (if enable_storj then [STORJ_GRANT] else [])"

subsection \<open>Features\<close>

datatype ProtocolFeature =
  DataTypeConcept | TransferMode | PreserveTimestamp | Charset | ServerTypeFeature | EnterCommand |
  DirectoryRename | PostLoginCommands | RecursiveDelete | ServerAssignedHome | TemporaryUrl |
  Security | UnixChmod | ProExclusive | PruneOldVersions | ListVersions | DownloadVersion |
  DeleteVersion | Share | HomeDirectory

definition ftp_family :: "ServerProtocol list" where
  "ftp_family = [FTP, FTPS, FTPES, INSECURE_FTP]"

fun ProtocolHasFeature :: "ServerProtocol \<Rightarrow> ProtocolFeature \<Rightarrow> bool" where
  "ProtocolHasFeature p DataTypeConcept = (p \<in> set ftp_family)"
| "ProtocolHasFeature p TransferMode = (p \<in> set ftp_family)"
| "ProtocolHasFeature p EnterCommand = (p \<in> set ftp_family)"
| "ProtocolHasFeature p PostLoginCommands = (p \<in> set ftp_family)"
| "ProtocolHasFeature p HomeDirectory = (p \<in> set (SFTP # ftp_family))"
| "ProtocolHasFeature p Charset = (p \<in> set (SFTP # ftp_family))"
| "ProtocolHasFeature p PreserveTimestamp =
     (p \<in> set (ftp_family @ [SFTP, AZURE_BLOB, AZURE_FILE, B2, BOX, DROPBOX, GOOGLE_CLOUD, GOOGLE_DRIVE,
        ONEDRIVE, S3, S3_SSO, CLOUDFLARE_R2, SWIFT, WEBDAV, GOOGLE_CLOUD_SVC_ACC]))"
| "ProtocolHasFeature p ServerTypeFeature = (p \<in> set ftp_family)"
| "ProtocolHasFeature p UnixChmod = (p \<in> set (SFTP # ftp_family))"
| "ProtocolHasFeature p DirectoryRename = (p \<noteq> AZURE_FILE)"
| "ProtocolHasFeature p RecursiveDelete = (p \<in> set [BOX, GOOGLE_DRIVE, DROPBOX, ONEDRIVE, B2])"
| "ProtocolHasFeature p ServerAssignedHome = (p \<in> set (SFTP # ftp_family))"
| "ProtocolHasFeature p TemporaryUrl = (p \<in> set [B2, S3, S3_SSO, DROPBOX, AZURE_BLOB, AZURE_FILE])"
| "ProtocolHasFeature p Security = (p \<noteq> HTTP \<and> p \<noteq> INSECURE_FTP \<and> p \<noteq> INSECURE_WEBDAV)"
| "ProtocolHasFeature p ProExclusive =
     (p \<notin> set [FTP, FTPS, FTPES, INSECURE_FTP, SFTP, HTTP, HTTPS, STORJ, STORJ_GRANT])"
| "ProtocolHasFeature p PruneOldVersions = (p \<in> set [B2, BOX, GOOGLE_DRIVE, S3, S3_SSO])"
| "ProtocolHasFeature p ListVersions = (p \<in> set [B2, BOX, DROPBOX, ONEDRIVE, GOOGLE_DRIVE, S3, S3_SSO])"
| "ProtocolHasFeature p DownloadVersion = (p \<in> set [B2, BOX, DROPBOX, GOOGLE_DRIVE, S3, S3_SSO])"
| "ProtocolHasFeature p DeleteVersion = (p \<in> set [B2, BOX, GOOGLE_DRIVE, S3, S3_SSO])"
| "ProtocolHasFeature p Share = (p \<in> set [BOX, DROPBOX, GOOGLE_DRIVE, ONEDRIVE])"

definition ProtocolHasUser :: "ServerProtocol \<Rightarrow> bool" where
  "ProtocolHasUser p \<longleftrightarrow>
     p \<noteq> DROPBOX \<and> p \<noteq> ONEDRIVE \<and> p \<noteq> BOX \<and> p \<noteq> GOOGLE_DRIVE \<and> p \<noteq> STORJ_GRANT \<and>
     p \<noteq> GOOGLE_CLOUD_SVC_ACC"

datatype CaseSensitivity = case_unspecified | case_yes | case_no

fun GetCaseSensitivity :: "ServerProtocol \<Rightarrow> CaseSensitivity" where
  "GetCaseSensitivity B2 = case_yes"
| "GetCaseSensitivity GOOGLE_DRIVE = case_yes"
| "GetCaseSensitivity BOX = case_no"
| "GetCaseSensitivity ONEDRIVE = case_no"
| "GetCaseSensitivity _ = case_unspecified"

fun GetDefaultHost :: "ServerProtocol \<Rightarrow> wstring \<times> wstring" where
  "GetDefaultHost AZURE_FILE = (''file.core.windows.net'', '''')"
| "GetDefaultHost AZURE_BLOB = (''blob.core.windows.net'', '''')"
| "GetDefaultHost GOOGLE_CLOUD = (''storage.googleapis.com'', '''')"
| "GetDefaultHost GOOGLE_CLOUD_SVC_ACC = (''storage.googleapis.com'', '''')"
| "GetDefaultHost GOOGLE_DRIVE = (''www.googleapis.com'', '''')"
| "GetDefaultHost S3 = (''s3.amazonaws.com'', '''')"
| "GetDefaultHost S3_SSO = (''s3.amazonaws.com'', '''')"
| "GetDefaultHost DROPBOX = (''api.dropboxapi.com'', '''')"
| "GetDefaultHost ONEDRIVE = (''graph.microsoft.com'', '''')"
| "GetDefaultHost B2 = (''api.backblazeb2.com'', '''')"
| "GetDefaultHost BOX = (''api.box.com'', '''')"
| "GetDefaultHost RACKSPACE = (''identity.api.rackspacecloud.com'', '''')"
| "GetDefaultHost STORJ = (''us-central-1.tardigrade.io'', '''')"
| "GetDefaultHost STORJ_GRANT = (''us-central-1.tardigrade.io'', '''')"
| "GetDefaultHost CLOUDFLARE_R2 = (''r2.cloudflarestorage.com'', '''')"
| "GetDefaultHost _ = ('''', '''')"

end
