(* ===== verification/Server_Site.thy ===== *)
theory Server_Site
  imports Server
begin

text \<open>
  \<open>CServer\<close> and \<open>Credentials\<close> of \<open>src/filezilla3/src/engine/server.cpp\<close>
  and \<open>include/server.h\<close>: protocol parameters, setters, comparison and formatting.  A
  \<open>std::map\<close> of parameters is a list sorted by name.
\<close>

subsection \<open>Logon types and protocol parameters\<close>

datatype LogonType = anonymous | normal | ask | interactive | account | key | profile | adc

fun GetSupportedLogonTypes :: "ServerProtocol \<Rightarrow> LogonType list" where
  "GetSupportedLogonTypes FTP = [anonymous, normal, ask, interactive, account]"
| "GetSupportedLogonTypes HTTP = [anonymous, normal, ask, interactive, account]"
| "GetSupportedLogonTypes FTPS = [anonymous, normal, ask, interactive, account]"
| "GetSupportedLogonTypes FTPES = [anonymous, normal, ask, interactive, account]"
| "GetSupportedLogonTypes INSECURE_FTP = [anonymous, normal, ask, interactive, account]"
| "GetSupportedLogonTypes SFTP = [anonymous, normal, ask, interactive, key]"
| "GetSupportedLogonTypes S3 = [anonymous, normal, ask, profile]"
| "GetSupportedLogonTypes S3_SSO = [interactive, profile]"
| "GetSupportedLogonTypes STORJ = [normal, ask]"
| "GetSupportedLogonTypes STORJ_GRANT = [normal, ask]"
| "GetSupportedLogonTypes AZURE_FILE = [normal, ask]"
| "GetSupportedLogonTypes AZURE_BLOB = [normal, ask]"
| "GetSupportedLogonTypes SWIFT = [normal, ask]"
| "GetSupportedLogonTypes B2 = [normal, ask]"
| "GetSupportedLogonTypes RACKSPACE = [normal, ask]"
| "GetSupportedLogonTypes WEBDAV = [anonymous, normal, ask]"
| "GetSupportedLogonTypes INSECURE_WEBDAV = [anonymous, normal, ask]"
| "GetSupportedLogonTypes GOOGLE_CLOUD = [interactive]"
| "GetSupportedLogonTypes GOOGLE_DRIVE = [interactive]"
| "GetSupportedLogonTypes DROPBOX = [interactive]"
| "GetSupportedLogonTypes ONEDRIVE = [interactive]"
| "GetSupportedLogonTypes BOX = [interactive]"
| "GetSupportedLogonTypes HTTPS = [anonymous]"
| "GetSupportedLogonTypes UNKNOWN = [anonymous]"
| "GetSupportedLogonTypes GOOGLE_CLOUD_SVC_ACC = [key, adc]"
| "GetSupportedLogonTypes CLOUDFLARE_R2 = [normal, interactive]"

definition IsSupportedLogonType :: "ServerProtocol \<Rightarrow> LogonType \<Rightarrow> bool" where
  "IsSupportedLogonType p t \<longleftrightarrow> t \<in> set (GetSupportedLogonTypes p)"

datatype ParameterSection = host_section | user_section | credentials_section | extra_section

record ParameterTraits =
  pt_name :: string
  pt_section :: ParameterSection
  pt_flags :: nat
  pt_default :: wstring
  pt_hint :: string

definition flag_optional :: nat where "flag_optional = 1"
definition flag_numeric :: nat where "flag_numeric = 2"
definition flag_content_transparent :: nat where "flag_content_transparent = 4"
definition flag_custom :: nat where "flag_custom = 8"

definition has_flag :: "nat \<Rightarrow> nat \<Rightarrow> bool" where
  "has_flag flags f \<longleftrightarrow> odd (flags div f)"

definition param :: "string \<Rightarrow> ParameterSection \<Rightarrow> nat \<Rightarrow> wstring \<Rightarrow> string \<Rightarrow> ParameterTraits" where
  "param nm sec flags def hint =
     \<lparr>pt_name = nm, pt_section = sec, pt_flags = flags, pt_default = def, pt_hint = hint\<rparr>"

definition custom_extra :: "string \<Rightarrow> ParameterTraits" where
  "custom_extra nm = param nm extra_section (flag_optional + flag_custom) '''' ''''"

text \<open>The hint is the message identifier that the catalogue translates.\<close>

fun ExtraServerParameterTraits :: "ServerProtocol \<Rightarrow> ParameterTraits list" where
  "ExtraServerParameterTraits FTP =
     [param ''otp_code'' credentials_section (flag_optional + flag_custom) '''' '''']"
| "ExtraServerParameterTraits FTPS =
     [param ''otp_code'' credentials_section (flag_optional + flag_custom) '''' '''']"
| "ExtraServerParameterTraits FTPES =
     [param ''otp_code'' credentials_section (flag_optional + flag_custom) '''' '''']"
| "ExtraServerParameterTraits INSECURE_FTP =
     [param ''otp_code'' credentials_section (flag_optional + flag_custom) '''' '''']"
| "ExtraServerParameterTraits SFTP =
     [param ''allow_non_crlf_identification_string'' extra_section
        (flag_optional + flag_custom + flag_content_transparent) '''' '''',
      param ''allow_agent_keys_of_unknown_type'' extra_section
        (flag_optional + flag_custom + flag_content_transparent) '''' '''',
      custom_extra ''ignore_unknown_flags_in_attributes'']"
| "ExtraServerParameterTraits GOOGLE_CLOUD =
     [param ''login_hint'' user_section flag_optional '''' ''Name or email address'',
      custom_extra ''oauth_identity'']"
| "ExtraServerParameterTraits GOOGLE_CLOUD_SVC_ACC = [custom_extra ''oauth_identity'']"
| "ExtraServerParameterTraits SWIFT =
     [param ''identpath'' host_section 0 '''' ''Path of identity service'',
      param ''identuser'' user_section flag_optional '''' '''',
      custom_extra ''keystone_version'',
      param ''domain'' extra_section (flag_optional + flag_custom) ''Default'' '''']"
| "ExtraServerParameterTraits RACKSPACE =
     [param ''identpath'' host_section 0 ''/v2.0/tokens'' ''Path of identity service'',
      param ''identuser'' user_section flag_optional '''' '''']"
| "ExtraServerParameterTraits S3 =
     map custom_extra [''ssealgorithm'', ''ssekmskey'', ''ssecustomerkey'', ''stsrolearn'', ''stsmfaserial'',
       ''region'', ''original_profile'', ''ssoregion'', ''ssorole'', ''ssourl'', ''accelerate'']"
| "ExtraServerParameterTraits S3_SSO =
     map custom_extra [''ssealgorithm'', ''ssekmskey'', ''ssecustomerkey'', ''stsrolearn'', ''stsmfaserial'',
       ''region'', ''original_profile'', ''ssoregion'', ''ssorole'', ''ssourl'', ''accelerate'']"
| "ExtraServerParameterTraits GOOGLE_DRIVE =
     [param ''login_hint'' user_section flag_optional '''' ''Name or email address'',
      custom_extra ''oauth_identity'']"
| "ExtraServerParameterTraits ONEDRIVE =
     [param ''login_hint'' user_section flag_optional '''' ''Name or email address'',
      custom_extra ''oauth_identity'']"
| "ExtraServerParameterTraits DROPBOX = [custom_extra ''oauth_identity'', custom_extra ''root_namespace'']"
| "ExtraServerParameterTraits BOX = [custom_extra ''oauth_identity'']"
| "ExtraServerParameterTraits STORJ = [custom_extra ''passphrase_hash'']"
| "ExtraServerParameterTraits STORJ_GRANT = [custom_extra ''credentials_hash'']"
| "ExtraServerParameterTraits CLOUDFLARE_R2 =
     [param ''identuser'' user_section flag_optional '''' '''',
      custom_extra ''jurisdiction'']"
| "ExtraServerParameterTraits _ = []"

subsection \<open>The server\<close>

datatype PasvMode = MODE_DEFAULT | MODE_ACTIVE | MODE_PASSIVE

fun pasv_value :: "PasvMode \<Rightarrow> int" where
  "pasv_value MODE_DEFAULT = 0" | "pasv_value MODE_ACTIVE = 1" | "pasv_value MODE_PASSIVE = 2"

datatype CharsetEncoding = ENCODING_UTF8 | ENCODING_CUSTOM

fun encoding_value :: "CharsetEncoding \<Rightarrow> int" where
  "encoding_value ENCODING_UTF8 = 0" | "encoding_value ENCODING_CUSTOM = 1"

type_synonym params = "(string \<times> wstring) list"

record CServer =
  sv_protocol :: ServerProtocol
  sv_type :: ServerType
  sv_host :: wstring
  sv_user :: wstring
  sv_port :: nat
  sv_timezoneOffset :: int
  sv_pasvMode :: PasvMode
  sv_bypassProxy :: bool
  sv_encodingType :: CharsetEncoding
  sv_customEncoding :: wstring
  sv_postLoginCommands :: "wstring list"
  sv_extraParameters :: params

definition CServer_default :: CServer where
  "CServer_default =
     \<lparr>sv_protocol = UNKNOWN, sv_type = UNIX, sv_host = [], sv_user = [], sv_port = 21,
      sv_timezoneOffset = 0, sv_pasvMode = MODE_DEFAULT, sv_bypassProxy = False,
      sv_encodingType = ENCODING_UTF8, sv_customEncoding = [], sv_postLoginCommands = [],
      sv_extraParameters = []\<rparr>"

definition CServer_make :: "ServerProtocol \<Rightarrow> ServerType \<Rightarrow> wstring \<Rightarrow> nat \<Rightarrow> CServer" where
  "CServer_make p t h port = CServer_default\<lparr>sv_protocol := p,
     sv_type := (if ProtocolHasFeature p ServerTypeFeature then t else UNIX), sv_host := h,
     sv_port := (if port \<noteq> 0 then port else GetDefaultPort p)\<rparr>"

definition HasFeature :: "CServer \<Rightarrow> ProtocolFeature \<Rightarrow> bool" where
  "HasFeature s f = ProtocolHasFeature (sv_protocol s) f"

definition server_SetType :: "CServer \<Rightarrow> ServerType \<Rightarrow> CServer" where
  "server_SetType s t = (if HasFeature s ServerTypeFeature then s\<lparr>sv_type := t\<rparr> else s)"

text \<open>\<open>std::less<>\<close> on the parameter names.\<close>

abbreviation param_find :: "string \<Rightarrow> params \<Rightarrow> wstring option" where
  "param_find \<equiv> map_find (<)"

definition supported_params :: "(ParameterSection \<Rightarrow> bool) \<Rightarrow> ServerProtocol \<Rightarrow> string \<Rightarrow> bool" where
  "supported_params sec p nm \<longleftrightarrow>
     list_ex (\<lambda>t. sec (pt_section t) \<and> pt_name t = nm) (ExtraServerParameterTraits p)"

definition set_param :: "(ParameterSection \<Rightarrow> bool) \<Rightarrow> ServerProtocol \<Rightarrow> string \<Rightarrow> wstring \<Rightarrow> params \<Rightarrow> params" where
  "set_param sec p nm val ps =
     (if val = [] then map_erase (<) nm ps
      else if supported_params sec p nm then map_assign (<) nm val ps
      else ps)"

definition SetExtraParameter :: "CServer \<Rightarrow> string \<Rightarrow> wstring \<Rightarrow> CServer" where
  "SetExtraParameter s nm val =
     s\<lparr>sv_extraParameters :=
         set_param (\<lambda>sec. sec \<noteq> credentials_section) (sv_protocol s) nm val (sv_extraParameters s)\<rparr>"

definition GetExtraParameter :: "CServer \<Rightarrow> string \<Rightarrow> wstring" where
  "GetExtraParameter s nm = (case param_find nm (sv_extraParameters s) of Some v \<Rightarrow> v | None \<Rightarrow> [])"

definition HasExtraParameter :: "CServer \<Rightarrow> string \<Rightarrow> bool" where
  "HasExtraParameter s nm \<longleftrightarrow> param_find nm (sv_extraParameters s) \<noteq> None"

definition ClearExtraParameter :: "CServer \<Rightarrow> string \<Rightarrow> CServer" where
  "ClearExtraParameter s nm = s\<lparr>sv_extraParameters := map_erase (<) nm (sv_extraParameters s)\<rparr>"

definition ClearExtraParameters :: "CServer \<Rightarrow> CServer" where
  "ClearExtraParameters s = s\<lparr>sv_extraParameters := []\<rparr>"

definition SetProtocol :: "CServer \<Rightarrow> ServerProtocol \<Rightarrow> CServer" where
  "SetProtocol s p =
     (let s1 = s\<lparr>sv_protocol := p\<rparr>;
          s2 = (if HasFeature s1 PostLoginCommands then s1 else s1\<lparr>sv_postLoginCommands := []\<rparr>);
          s3 = (if ProtocolHasUser p then s2 else s2\<lparr>sv_user := []\<rparr>);
          s4 = (if HasFeature s3 ServerTypeFeature then s3 else s3\<lparr>sv_type := UNIX\<rparr>)
      in fold (\<lambda>q t. SetExtraParameter t (fst q) (snd q)) (sv_extraParameters s4)
           (s4\<lparr>sv_extraParameters := []\<rparr>))"

definition SetHost :: "CServer \<Rightarrow> wstring \<Rightarrow> nat \<Rightarrow> bool \<times> CServer" where
  "SetHost s h port =
     (if h = [] then (False, s)
      else if port < 1 \<or> 65535 < port then (False, s)
      else
        let s1 = s\<lparr>sv_host := h, sv_port := port\<rparr>
        in (True, if sv_protocol s1 = UNKNOWN
                  then s1\<lparr>sv_protocol := GetProtocolFromPort port False\<rparr> else s1))"

definition SetUser :: "CServer \<Rightarrow> wstring \<Rightarrow> CServer" where
  "SetUser s u = s\<lparr>sv_user := u\<rparr>"

definition SetTimezoneOffset :: "CServer \<Rightarrow> int \<Rightarrow> bool \<times> CServer" where
  "SetTimezoneOffset s minutes =
     (if 60 * 24 < minutes \<or> minutes < - 60 * 24 then (False, s)
      else (True, s\<lparr>sv_timezoneOffset := minutes\<rparr>))"

definition SetEncodingType :: "CServer \<Rightarrow> CharsetEncoding \<Rightarrow> wstring \<Rightarrow> bool \<times> CServer" where
  "SetEncodingType s t enc =
     (if t = ENCODING_CUSTOM \<and> enc = [] then (False, s)
      else (True, s\<lparr>sv_encodingType := t, sv_customEncoding := enc\<rparr>))"

definition SetPostLoginCommands :: "CServer \<Rightarrow> wstring list \<Rightarrow> bool \<times> CServer" where
  "SetPostLoginCommands s cmds =
     (if \<not> HasFeature s PostLoginCommands then (False, s\<lparr>sv_postLoginCommands := []\<rparr>)
      else (True, s\<lparr>sv_postLoginCommands := cmds\<rparr>))"

subsection \<open>Comparison\<close>

definition server_eq :: "CServer \<Rightarrow> CServer \<Rightarrow> bool" where
  "server_eq a b =
     (if sv_protocol a \<noteq> sv_protocol b then False
      else if sv_type a \<noteq> sv_type b then False
      else if sv_host a \<noteq> sv_host b then False
      else if sv_port a \<noteq> sv_port b then False
      else if sv_user a \<noteq> sv_user b then False
      else if sv_timezoneOffset a \<noteq> sv_timezoneOffset b then False
      else if sv_pasvMode a \<noteq> sv_pasvMode b then False
      else if sv_encodingType a \<noteq> sv_encodingType b then False
      else if sv_encodingType a = ENCODING_CUSTOM \<and> sv_customEncoding a \<noteq> sv_customEncoding b then False
      else if sv_postLoginCommands a \<noteq> sv_postLoginCommands b then False
      else if sv_bypassProxy a \<noteq> sv_bypassProxy b then False
      else if sv_extraParameters a \<noteq> sv_extraParameters b then False
      else True)"

definition cmp_then :: "'a::linorder \<Rightarrow> 'a \<Rightarrow> bool \<Rightarrow> bool" where
  "cmp_then x y rest = (if x < y then True else if y < x then False else rest)"

definition server_less :: "CServer \<Rightarrow> CServer \<Rightarrow> bool" where
  "server_less a b =
     cmp_then (protocol_value (sv_protocol a)) (protocol_value (sv_protocol b))
    (cmp_then (sv_type a) (sv_type b)
    (cmp_then (sv_host a) (sv_host b)
    (cmp_then (sv_port a) (sv_port b)
    (cmp_then (sv_user a) (sv_user b)
    (cmp_then (sv_timezoneOffset a) (sv_timezoneOffset b)
    (cmp_then (pasv_value (sv_pasvMode a)) (pasv_value (sv_pasvMode b))
    (cmp_then (encoding_value (sv_encodingType a)) (encoding_value (sv_encodingType b))
    ((if sv_encodingType a = ENCODING_CUSTOM
      then cmp_then (sv_customEncoding a) (sv_customEncoding b) else (\<lambda>r. r))
    (cmp_then (sv_bypassProxy a) (sv_bypassProxy b)
    (cmp_then (sv_extraParameters a) (sv_extraParameters b) False))))))))))"

definition SameResource :: "CServer \<Rightarrow> CServer \<Rightarrow> bool" where
  "SameResource a b \<longleftrightarrow>
     sv_protocol a = sv_protocol b \<and> sv_host a = sv_host b \<and> sv_port a = sv_port b \<and>
     sv_user a = sv_user b \<and> sv_postLoginCommands a = sv_postLoginCommands b \<and>
     list_all (\<lambda>t. has_flag (pt_flags t) flag_content_transparent \<or>
                  GetExtraParameter a (pt_name t) = GetExtraParameter b (pt_name t))
       (ExtraServerParameterTraits (sv_protocol a))"

definition SameContent :: "CServer \<Rightarrow> CServer \<Rightarrow> bool" where
  "SameContent a b \<longleftrightarrow>
     SameResource a b \<and> sv_timezoneOffset a = sv_timezoneOffset b \<and>
     sv_encodingType a = sv_encodingType b \<and> sv_customEncoding a = sv_customEncoding b"

subsection \<open>Credentials and the printed form\<close>

record Credentials =
  cr_logonType :: LogonType
  cr_account :: wstring
  cr_keyFile :: wstring
  cr_password :: wstring
  cr_extraParameters :: params

definition Credentials_default :: Credentials where
  "Credentials_default = \<lparr>cr_logonType = anonymous, cr_account = [], cr_keyFile = [], cr_password = [],
     cr_extraParameters = []\<rparr>"

definition SetPass :: "Credentials \<Rightarrow> wstring \<Rightarrow> Credentials" where
  "SetPass c pw = (if cr_logonType c \<noteq> anonymous then c\<lparr>cr_password := pw\<rparr> else c)"

definition GetPass :: "Credentials \<Rightarrow> wstring" where
  "GetPass c = (if cr_logonType c = anonymous then [] else cr_password c)"

definition Credentials_SetExtraParameter :: "Credentials \<Rightarrow> ServerProtocol \<Rightarrow> string \<Rightarrow> wstring \<Rightarrow> Credentials" where
  "Credentials_SetExtraParameter c p nm val =
     c\<lparr>cr_extraParameters :=
         set_param (\<lambda>sec. sec = credentials_section) p nm val (cr_extraParameters c)\<rparr>"

definition Credentials_SetExtraParameters :: "Credentials \<Rightarrow> ServerProtocol \<Rightarrow> params \<Rightarrow> Credentials" where
  "Credentials_SetExtraParameters c p ps =
     fold (\<lambda>q d. Credentials_SetExtraParameter d p (fst q) (snd q)) ps c"

datatype ServerFormat =
  host_only | with_optional_port | with_port | with_user_and_optional_port | url | url_with_password

definition with_login ::
  "(wstring \<Rightarrow> wstring) \<Rightarrow> CServer \<Rightarrow> ServerFormat \<Rightarrow> Credentials \<Rightarrow> wstring \<Rightarrow> wstring" where
  "with_login percent_encode s fmt c server =
     (let user0 = (if sv_protocol s = STORJ then [] else sv_user s)
      in if cr_logonType c = anonymous then server
         else
           let user = (if fmt = url \<or> fmt = url_with_password then percent_encode user0 else user0)
           in if user = [] then server
              else if fmt = url_with_password then
                (if GetPass c = [] then server
                 else user @ '':'' @ percent_encode (GetPass c) @ ''@'' @ server)
              else user @ ''@'' @ server)"

definition FormatServer ::
  "(wstring \<Rightarrow> wstring) \<Rightarrow> CServer \<Rightarrow> ServerFormat \<Rightarrow> Credentials \<Rightarrow> wstring" where
  "FormatServer percent_encode s fmt c =
     (let info = GetProtocolInfo (sv_protocol s);
          h = (if CHR '':'' \<in> set (sv_host s) then ''['' @ sv_host s @ '']'' else sv_host s)
      in if fmt = host_only then h
         else
           let hp = (if sv_port s \<noteq> GetDefaultPort (sv_protocol s) \<or> fmt = with_port
                     then h @ '':'' @ show_nat (sv_port s) else h)
           in if fmt = with_optional_port \<or> fmt = with_port then hp
              else
                let server = with_login percent_encode s fmt c hp
                in if fmt = with_user_and_optional_port \<and> \<not> alwaysShowPrefix info \<and> sv_port s = defaultPort info
                   then server
                   else if pi_prefix info \<noteq> [] then pi_prefix info @ ''://'' @ server else server)"

end
