(* ===== verification/Server_Props.thy ===== *)
theory Server_Props
  imports Server_Site
begin

text \<open>
  What the server type guarantees: the order its containers sort by and the
  equivalence behind it, the well-formedness every setter keeps, protocol prefixes that are read
  back, and what the printed form may show.
\<close>

subsection \<open>The order on servers\<close>

interpretation names: key_order "(<) :: string \<Rightarrow> string \<Rightarrow> bool" "\<lambda>_. True"
  by unfold_locales auto

text \<open>The fields \<open>operator<\<close> looks at, in its order.  The post-login commands are not
  among them, the custom encoding only when it is used.\<close>

definition server_key where
  "server_key s =
     (protocol_value (sv_protocol s), sv_type s, sv_host s, sv_port s, sv_user s, sv_timezoneOffset s,
      pasv_value (sv_pasvMode s), encoding_value (sv_encodingType s),
      (if sv_encodingType s = ENCODING_CUSTOM then sv_customEncoding s else []),
      sv_bypassProxy s, sv_extraParameters s)"

lemma cmp_then_less: "cmp_then x y rest \<longleftrightarrow> x < y \<or> x = y \<and> rest"
  by (auto simp: cmp_then_def)

lemma encoding_value_inj: "encoding_value x = encoding_value y \<longleftrightarrow> x = y"
  by (cases x; cases y) simp_all

lemma pasv_value_inj: "pasv_value x = pasv_value y \<longleftrightarrow> x = y"
  by (cases x; cases y) simp_all

lemma pair_less: "(x, r) < (y, r') \<longleftrightarrow> cmp_then x y (r < r')"
  by (auto simp: cmp_then_def)

lemma server_less_key: "server_less a b \<longleftrightarrow> server_key a < server_key b"
proof -
  have enc: "(if sv_encodingType a = ENCODING_CUSTOM then cmp_then (sv_customEncoding a) (sv_customEncoding b) else (\<lambda>r. r)) r
      \<longleftrightarrow> cmp_then (if sv_encodingType a = ENCODING_CUSTOM then sv_customEncoding a else [])
            (if sv_encodingType b = ENCODING_CUSTOM then sv_customEncoding b else []) r"
    if "sv_encodingType a = sv_encodingType b" for r
    using that by (simp add: cmp_then_less)
  show ?thesis
    unfolding server_less_def server_key_def pair_less
    using enc by (simp add: encoding_value_inj cmp_then_less cong: conj_cong)
qed

lemma server_key_iff:
  "server_key a = server_key b \<longleftrightarrow> server_eq a (b\<lparr>sv_postLoginCommands := sv_postLoginCommands a\<rparr>)"
  by (auto simp: server_key_def server_eq_def protocol_value_inj pasv_value_inj encoding_value_inj)

interpretation servers: key_weak_order server_less "\<lambda>_. True" "\<lambda>a b. server_key a = server_key b"
  by unfold_locales (auto simp: server_less_key)

text \<open>\<open>operator<\<close> of servers is a strict weak order: irreflexive, transitive, and
  two servers neither of which is smaller are the same map key.  That happens exactly when
  \<open>operator==\<close> holds up to the post-login commands, which \<open>==\<close> compares and
  \<open><\<close> does not.\<close>

theorem server_less_weak_order:
  "\<not> server_less a a \<and> (server_less a b \<and> server_less b c \<longrightarrow> server_less a c) \<and>
   ((\<not> server_less a b \<and> \<not> server_less b a) =
     server_eq a (b\<lparr>sv_postLoginCommands := sv_postLoginCommands a\<rparr>))"
proof -
  have "(\<not> server_less a b \<and> \<not> server_less b a) = (server_key a = server_key b)"
    using servers.same_iff [of a b] by simp
  moreover have "server_less a b \<and> server_less b c \<longrightarrow> server_less a c"
    using servers.lt_trans [of a b c] by blast
  ultimately show ?thesis
    using servers.lt_irrefl [of a] by (simp add: server_key_iff)
qed

theorem server_less_weak_order_witness:
  "let s = CServer_make FTP UNIX ''h'' 0; t = s\<lparr>sv_postLoginCommands := [''HOST a'']\<rparr>; u = s\<lparr>sv_user := ''u''\<rparr>
   in \<not> server_less s t \<and> \<not> server_less t s \<and> \<not> server_eq s t \<and> server_less s u \<and>
      \<not> server_less s s \<and> \<not> SameResource s t"
proof -
  let ?s = "CServer_make FTP UNIX ''h'' 0"
  have "server_eq ?s ((?s\<lparr>sv_postLoginCommands := [''HOST a'']\<rparr>)\<lparr>sv_postLoginCommands := sv_postLoginCommands ?s\<rparr>)"
    "\<not> server_eq ?s (?s\<lparr>sv_postLoginCommands := [''HOST a'']\<rparr>)" "server_less ?s (?s\<lparr>sv_user := ''u''\<rparr>)"
    "\<not> SameResource ?s (?s\<lparr>sv_postLoginCommands := [''HOST a'']\<rparr>)"
    by code_simp+
  then show ?thesis
    using server_less_weak_order [of ?s "?s\<lparr>sv_postLoginCommands := [''HOST a'']\<rparr>" ?s] by (simp add: Let_def)
qed

subsection \<open>Well-formed servers\<close>

definition params_ok :: "(ParameterSection \<Rightarrow> bool) \<Rightarrow> ServerProtocol \<Rightarrow> params \<Rightarrow> bool" where
  "params_ok sec p ps \<longleftrightarrow>
     sorted_keys (<) fst ps \<and> (\<forall>q \<in> set ps. snd q \<noteq> [] \<and> supported_params sec p (fst q))"

lemma params_ok_map: "params_ok sec p ps \<Longrightarrow> names.map_ok ps"
  by (simp add: params_ok_def names.map_ok_def)

lemma set_param_ok:
  assumes "params_ok sec p ps"
  shows "params_ok sec p (set_param sec p nm val ps)"
proof -
  note ok = params_ok_map [OF assms]
  have "params_ok sec p (map_erase (<) nm ps)"
    using names.erase_set [OF ok, of nm] assms by (auto simp: params_ok_def names.map_ok_def)
  moreover have "params_ok sec p (map_assign (<) nm val ps)" if "val \<noteq> []" "supported_params sec p nm"
  proof -
    have "set (map_assign (<) nm val ps) = insert (nm, val) {x \<in> set ps. fst x \<noteq> nm}"
      "names.map_ok (map_assign (<) nm val ps)"
      using names.assign_entries [OF ok TrueI, of nm val] by blast+
    then show ?thesis using that assms by (auto simp: params_ok_def names.map_ok_def)
  qed
  ultimately show ?thesis using assms by (simp add: set_param_def)
qed

lemma set_param_find:
  assumes "params_ok sec p ps"
  shows "param_find q (set_param sec p nm val ps) =
     (if q \<noteq> nm then param_find q ps
      else if val = [] then None
      else if supported_params sec p nm then Some val else param_find q ps)"
  using names.find_assign [OF params_ok_map [OF assms], of q nm val]
    names.find_erase [OF params_ok_map [OF assms], of q nm]
  by (auto simp: set_param_def)

definition server_wf :: "CServer \<Rightarrow> bool" where
  "server_wf s \<longleftrightarrow>
     (HasFeature s ServerTypeFeature \<or> sv_type s = UNIX) \<and>
     (HasFeature s PostLoginCommands \<or> sv_postLoginCommands s = []) \<and>
     params_ok (\<lambda>sec. sec \<noteq> credentials_section) (sv_protocol s) (sv_extraParameters s)"

lemma SetExtraParameter_fields [simp]:
  "sv_protocol (SetExtraParameter s nm v) = sv_protocol s"
  "sv_type (SetExtraParameter s nm v) = sv_type s"
  "sv_user (SetExtraParameter s nm v) = sv_user s"
  "sv_postLoginCommands (SetExtraParameter s nm v) = sv_postLoginCommands s"
  by (simp_all add: SetExtraParameter_def)

lemma SetExtraParameter_wf: "server_wf s \<Longrightarrow> server_wf (SetExtraParameter s nm v)"
  using set_param_ok [of "\<lambda>sec. sec \<noteq> credentials_section" "sv_protocol s" "sv_extraParameters s" nm v]
  by (simp add: server_wf_def HasFeature_def SetExtraParameter_def)

lemma fold_SetExtraParameter:
  "server_wf s \<Longrightarrow> server_wf (fold (\<lambda>q t. SetExtraParameter t (fst q) (snd q)) ps s) \<and>
     sv_protocol (fold (\<lambda>q t. SetExtraParameter t (fst q) (snd q)) ps s) = sv_protocol s \<and>
     sv_user (fold (\<lambda>q t. SetExtraParameter t (fst q) (snd q)) ps s) = sv_user s"
  by (induction ps arbitrary: s) (simp_all add: SetExtraParameter_wf)

lemma port_protocol_plain:
  "GetProtocolFromPort port d \<noteq> UNKNOWN \<Longrightarrow> GetProtocolFromPort port d \<in> {FTP, SFTP, HTTP, HTTPS, FTPS, STORJ}"
  by (auto simp: GetProtocolFromPort_def protocolInfos_def protocol_info_def split: if_splits)

text \<open>\<open>SetProtocol\<close> turns any server into a well-formed one: a server type, post-login
  commands, a user and extra parameters only where the new protocol has them, the parameters
  sorted by name and non-empty.  Every other setter keeps a well-formed server well-formed.\<close>

theorem set_protocol_well_formed:
  "server_wf (SetProtocol s p) \<and> sv_protocol (SetProtocol s p) = p \<and>
   (\<not> ProtocolHasUser p \<longrightarrow> sv_user (SetProtocol s p) = []) \<and>
   (server_wf t \<longrightarrow>
      server_wf (server_SetType t ty) \<and> server_wf (SetExtraParameter t nm v) \<and>
      server_wf (ClearExtraParameter t nm) \<and> server_wf (snd (SetHost t h port)) \<and>
      server_wf (snd (SetPostLoginCommands t cmds)) \<and> server_wf (SetUser t u))"
proof -
  have "server_wf (SetProtocol s p) \<and> sv_protocol (SetProtocol s p) = p \<and>
     (\<not> ProtocolHasUser p \<longrightarrow> sv_user (SetProtocol s p) = [])"
  proof -
    define blank where "blank = s\<lparr>sv_protocol := p,
        sv_postLoginCommands := (if ProtocolHasFeature p PostLoginCommands then sv_postLoginCommands s else []),
        sv_user := (if ProtocolHasUser p then sv_user s else []),
        sv_type := (if ProtocolHasFeature p ServerTypeFeature then sv_type s else UNIX),
        sv_extraParameters := []\<rparr>"
    have "SetProtocol s p
        = fold (\<lambda>q t. SetExtraParameter t (fst q) (snd q)) (sv_extraParameters s) blank"
      by (simp add: SetProtocol_def Let_def HasFeature_def blank_def)
    moreover have "server_wf blank" "sv_protocol blank = p" "\<not> ProtocolHasUser p \<Longrightarrow> sv_user blank = []"
      by (simp_all add: blank_def server_wf_def HasFeature_def params_ok_def)
    ultimately show ?thesis using fold_SetExtraParameter [of blank "sv_extraParameters s"] by simp
  qed
  moreover have "server_wf (server_SetType t ty) \<and> server_wf (SetExtraParameter t nm v) \<and>
      server_wf (ClearExtraParameter t nm) \<and> server_wf (snd (SetPostLoginCommands t cmds)) \<and> server_wf (SetUser t u)"
    if wf: "server_wf t"
  proof -
    have "server_wf (ClearExtraParameter t nm)"
      using wf names.erase_set [OF params_ok_map, of _ _ "sv_extraParameters t" nm]
      by (auto simp: server_wf_def HasFeature_def ClearExtraParameter_def params_ok_def names.map_ok_def)
    then show ?thesis using wf SetExtraParameter_wf [OF wf]
      by (auto simp: server_wf_def HasFeature_def server_SetType_def SetPostLoginCommands_def SetUser_def)
  qed
  moreover have "server_wf (snd (SetHost t h port))" if wf: "server_wf t"
  proof (cases "sv_protocol t = UNKNOWN")
    case True
    then have "sv_extraParameters t = []" "sv_type t = UNIX" "sv_postLoginCommands t = []"
      using wf by (cases "sv_extraParameters t"; auto simp: server_wf_def HasFeature_def params_ok_def
          supported_params_def ftp_family_def)+
    then show ?thesis using wf
      by (simp add: SetHost_def Let_def server_wf_def HasFeature_def params_ok_def)
  next
    case False
    then show ?thesis using wf by (simp add: SetHost_def Let_def server_wf_def HasFeature_def)
  qed
  ultimately show ?thesis by blast
qed

theorem set_protocol_well_formed_witness:
  "let s = SetExtraParameter (SetUser (SetProtocol CServer_default S3) ''key'') ''region'' ''eu'';
       t = SetProtocol s DROPBOX
   in server_wf s \<and> GetExtraParameter s ''region'' = ''eu'' \<and> server_wf t \<and> sv_user t = [] \<and>
      sv_extraParameters t = []"
proof -
  let ?r = "SetUser (SetProtocol CServer_default S3) ''key''"
  have "server_wf (SetExtraParameter ?r ''region'' ''eu'')"
    using set_protocol_well_formed [of CServer_default S3 "SetProtocol CServer_default S3" UNIX "[]" "[]" "[]" 1 "[]" "''key''"]
      set_protocol_well_formed [of CServer_default S3 ?r UNIX "''region''" "''eu''" "[]" 1 "[]" "[]"]
    by blast
  moreover have "server_wf (SetProtocol (SetExtraParameter ?r ''region'' ''eu'') DROPBOX)"
    using set_protocol_well_formed [of "SetExtraParameter ?r ''region'' ''eu''" DROPBOX] by blast
  moreover have "GetExtraParameter (SetExtraParameter ?r ''region'' ''eu'') ''region'' = ''eu''"
    "sv_user (SetProtocol (SetExtraParameter ?r ''region'' ''eu'') DROPBOX) = []"
    "sv_extraParameters (SetProtocol (SetExtraParameter ?r ''region'' ''eu'') DROPBOX) = []"
    by code_simp+
  ultimately show ?thesis by (simp add: Let_def)
qed

subsection \<open>Prefixes and the printed form\<close>

lemma protocol_prefix_lower:
  "p \<noteq> UNKNOWN \<Longrightarrow> GetPrefixFromProtocol p \<noteq> [] \<and> map ascii_lower (GetPrefixFromProtocol p) = GetPrefixFromProtocol p"
proof -
  have "list_all (\<lambda>p. GetPrefixFromProtocol p \<noteq> [] \<and>
      map ascii_lower (GetPrefixFromProtocol p) = GetPrefixFromProtocol p) protocols" by code_simp
  then show "p \<noteq> UNKNOWN \<Longrightarrow> ?thesis" using protocols_all [of p] by (auto simp: list_all_iff)
qed

text \<open>The prefix of a protocol is read back as that protocol when the protocol is the
  hint.  Without a hint it is read back for every protocol but the three that share their prefix
  with a protocol that goes first: plain FTP, the legacy Storj key and unencrypted WebDAV.\<close>

theorem protocol_prefix_roundtrip:
  assumes "\<forall>x. tolower x = map ascii_lower x" and "p \<noteq> UNKNOWN"
  shows "GetProtocolFromPrefix tolower (GetPrefixFromProtocol p) p = p \<and>
    GetProtocolFromPrefix tolower (GetPrefixFromProtocol p) UNKNOWN =
      (if p = INSECURE_FTP then FTP else if p = STORJ then STORJ_GRANT
       else if p = INSECURE_WEBDAV then WEBDAV else p)"
proof -
  have same: "tolower (GetPrefixFromProtocol p) = GetPrefixFromProtocol p" "GetPrefixFromProtocol p \<noteq> []"
    using protocol_prefix_lower [OF assms(2)] assms(1) by simp_all
  then have "GetProtocolFromPrefix tolower (GetPrefixFromProtocol p) p = p"
    using assms(2) by (simp add: GetProtocolFromPrefix_def Let_def GetPrefixFromProtocol_def)
  moreover have "list_all (\<lambda>p. GetProtocolFromPrefix id (GetPrefixFromProtocol p) UNKNOWN =
      (if p = INSECURE_FTP then FTP else if p = STORJ then STORJ_GRANT
       else if p = INSECURE_WEBDAV then WEBDAV else p)) protocols" by code_simp
  then have "GetProtocolFromPrefix id (GetPrefixFromProtocol p) UNKNOWN =
      (if p = INSECURE_FTP then FTP else if p = STORJ then STORJ_GRANT
       else if p = INSECURE_WEBDAV then WEBDAV else p)"
    using protocols_all [of p] assms(2) by (auto simp: list_all_iff)
  moreover have "GetProtocolFromPrefix tolower (GetPrefixFromProtocol p) UNKNOWN
      = GetProtocolFromPrefix id (GetPrefixFromProtocol p) UNKNOWN"
    using same by (simp add: GetProtocolFromPrefix_def)
  ultimately show ?thesis by simp
qed

theorem protocol_prefix_roundtrip_witness:
  "GetProtocolFromPrefix (map ascii_lower) ''sftp'' UNKNOWN = SFTP \<and>
   GetProtocolFromPrefix (map ascii_lower) ''ftp'' INSECURE_FTP = INSECURE_FTP"
proof -
  have "GetPrefixFromProtocol SFTP = ''sftp''" "GetPrefixFromProtocol INSECURE_FTP = ''ftp''" by code_simp+
  then show ?thesis
    using protocol_prefix_roundtrip [of "map ascii_lower" SFTP]
      protocol_prefix_roundtrip [of "map ascii_lower" INSECURE_FTP] by simp
qed

lemma FormatServer_cong:
  assumes "\<And>h. with_login enc s fmt c h = with_login enc t fmt d h"
    and "sv_protocol s = sv_protocol t" "sv_host s = sv_host t" "sv_port s = sv_port t"
  shows "FormatServer enc s fmt c = FormatServer enc t fmt d"
  unfolding FormatServer_def assms ..

text \<open>No printed form but the URL with password depends on the password, an
  anonymous logon prints neither user nor password, and the legacy Storj key, kept in the user field, is
  never printed.\<close>

theorem format_hides_secrets:
  "(cr_logonType c = cr_logonType d \<and> fmt \<noteq> url_with_password \<longrightarrow>
      FormatServer enc s fmt c = FormatServer enc s fmt d) \<and>
   (cr_logonType c = anonymous \<longrightarrow>
      FormatServer enc (s\<lparr>sv_user := u\<rparr>) fmt (c\<lparr>cr_password := pw\<rparr>) = FormatServer enc s fmt c) \<and>
   (sv_protocol s = STORJ \<longrightarrow>
      FormatServer enc (s\<lparr>sv_user := u\<rparr>) fmt c = FormatServer enc s fmt c)"
proof -
  have "FormatServer enc s fmt c = FormatServer enc s fmt d"
    if "cr_logonType c = cr_logonType d" "fmt \<noteq> url_with_password"
    by (rule FormatServer_cong) (use that in \<open>simp_all add: with_login_def Let_def\<close>)
  moreover have "FormatServer enc (s\<lparr>sv_user := u\<rparr>) fmt (c\<lparr>cr_password := pw\<rparr>) = FormatServer enc s fmt c"
    if "cr_logonType c = anonymous"
    by (rule FormatServer_cong) (use that in \<open>simp_all add: with_login_def Let_def\<close>)
  moreover have "FormatServer enc (s\<lparr>sv_user := u\<rparr>) fmt c = FormatServer enc s fmt c"
    if "sv_protocol s = STORJ"
    by (rule FormatServer_cong) (use that in \<open>simp_all add: with_login_def Let_def\<close>)
  ultimately show ?thesis by blast
qed

theorem format_hides_secrets_witness:
  "let s = SetUser (CServer_make FTP UNIX ''h'' 21) ''u'';
       c = Credentials_default\<lparr>cr_logonType := normal, cr_password := ''secret''\<rparr>
   in FormatServer id s url c = ''ftp://u@h'' \<and>
      FormatServer id s url (c\<lparr>cr_password := ''other''\<rparr>) = ''ftp://u@h'' \<and>
      FormatServer id s url_with_password c = ''ftp://u:secret@h''"
proof -
  let ?s = "SetUser (CServer_make FTP UNIX ''h'' 21) ''u''"
    and ?c = "Credentials_default\<lparr>cr_logonType := normal, cr_password := ''secret''\<rparr>"
  have "FormatServer id ?s url ?c = ''ftp://u@h''" "FormatServer id ?s url_with_password ?c = ''ftp://u:secret@h''"
    by code_simp+
  then show ?thesis
    using format_hides_secrets [of ?c "?c\<lparr>cr_password := ''other''\<rparr>" url id ?s]
    by (simp add: Let_def)
qed

end
