(* ===== verification/Path_Cache.thy ===== *)
theory Path_Cache
  imports Server_Props Server_Path_Tree
begin

text \<open>
  The cache of resolved directory changes, \<open>src/filezilla3/src/engine/pathcache.cpp\<close>:
  per server a \<open>std::map\<close> from a source directory and a subdirectory text to the
  directory the server ended up in.  The mutex makes every operation atomic; the hit and
  miss counters of debug builds are left out.
\<close>

record CSourcePath =
  cs_source :: CServerPath
  cs_subdir :: wstring

definition source_less :: "CSourcePath \<Rightarrow> CSourcePath \<Rightarrow> bool" where
  "source_less a b =
     (if cs_subdir a < cs_subdir b then True
      else if cs_subdir b < cs_subdir a then False
      else path_less (cs_source a) (cs_source b))"

type_synonym tServerCache = "(CSourcePath \<times> CServerPath) list"
type_synonym tPathCache = "(CServer \<times> tServerCache) list"

definition pathcache_Store ::
  "tPathCache \<Rightarrow> CServer \<Rightarrow> CServerPath \<Rightarrow> CServerPath \<Rightarrow> wstring \<Rightarrow> tPathCache" where
  "pathcache_Store m server target source subdir =
     (let m1 = (if map_find server_less server m = None then map_assign server_less server [] m else m);
          serverCache = the (map_find server_less server m1);
          sourcePath = \<lparr>cs_source = source, cs_subdir = subdir\<rparr>
      in map_assign server_less server (map_assign source_less sourcePath target serverCache) m1)"

definition pathcache_LookupIn :: "tServerCache \<Rightarrow> CServerPath \<Rightarrow> wstring \<Rightarrow> CServerPath" where
  "pathcache_LookupIn sc source subdir =
     (case map_find source_less \<lparr>cs_source = source, cs_subdir = subdir\<rparr> sc of
        None \<Rightarrow> CServerPath_default | Some p \<Rightarrow> p)"

definition pathcache_Lookup :: "tPathCache \<Rightarrow> CServer \<Rightarrow> CServerPath \<Rightarrow> wstring \<Rightarrow> CServerPath" where
  "pathcache_Lookup m server source subdir =
     (case map_find server_less server m of
        None \<Rightarrow> CServerPath_default
      | Some sc \<Rightarrow> pathcache_LookupIn sc source subdir)"

definition pathcache_InvalidateServer :: "tPathCache \<Rightarrow> CServer \<Rightarrow> tPathCache" where
  "pathcache_InvalidateServer m server = map_erase server_less server m"

definition invalidated :: "libfz \<Rightarrow> CServerPath \<Rightarrow> CSourcePath \<times> CServerPath \<Rightarrow> bool" where
  "invalidated L target entry =
     (if path_eq (snd entry) target \<or> IsParentOf L target (snd entry) False False then True
      else if path_eq (cs_source (fst entry)) target \<or> IsParentOf L target (cs_source (fst entry)) False False
      then True else False)"

definition pathcache_InvalidateIn :: "libfz \<Rightarrow> tServerCache \<Rightarrow> CServerPath \<Rightarrow> wstring \<Rightarrow> tServerCache" where
  "pathcache_InvalidateIn L sc path subdir =
     (let sourcePath = \<lparr>cs_source = path, cs_subdir = subdir\<rparr>;
          found = map_find source_less sourcePath sc;
          sc1 = (case found of None \<Rightarrow> sc | Some _ \<Rightarrow> map_erase source_less sourcePath sc);
          target = (case found of None \<Rightarrow> CServerPath_default | Some t \<Rightarrow> t);
          sweep = (\<lambda>t. if \<not> path_empty t then filter (\<lambda>e. \<not> invalidated L t e) sc1 else sc1)
      in if path_empty target \<and> subdir \<noteq> [] then
           (case AddSegment path subdir of (ok, t) \<Rightarrow> if ok then sweep t else sc1)
         else sweep target)"

definition pathcache_InvalidatePath :: "libfz \<Rightarrow> tPathCache \<Rightarrow> CServer \<Rightarrow> CServerPath \<Rightarrow> wstring \<Rightarrow> tPathCache" where
  "pathcache_InvalidatePath L m server path subdir =
     (case map_find server_less server m of
        None \<Rightarrow> m
      | Some sc \<Rightarrow> map_assign server_less server (pathcache_InvalidateIn L sc path subdir) m)"

definition pathcache_Clear :: "tPathCache \<Rightarrow> tPathCache" where
  "pathcache_Clear m = []"

subsection \<open>Invariant\<close>

definition source_ok :: "CSourcePath \<Rightarrow> bool" where
  "source_ok k \<longleftrightarrow> path_key_ok (cs_source k)"

interpretation sources: key_order source_less source_ok
proof
  fix a b c :: CSourcePath
  show "\<not> source_less a a" by (simp add: source_less_def path_less_irrefl)
  show "source_ok a \<Longrightarrow> source_ok b \<Longrightarrow> source_ok c \<Longrightarrow> source_less a b \<Longrightarrow> source_less b c \<Longrightarrow> source_less a c"
    using path_order.lt_trans [of "cs_source a" "cs_source b" "cs_source c"]
    by (auto simp: source_less_def source_ok_def split: if_splits)
  show "source_ok a \<Longrightarrow> source_ok b \<Longrightarrow> source_less a b \<or> a = b \<or> source_less b a"
    using path_order.lt_total [of "cs_source a" "cs_source b"]
    by (cases "cs_subdir a" "cs_subdir b" rule: linorder_cases)
      (auto simp: source_less_def source_ok_def)
qed simp_all

definition pathcache_ok :: "tPathCache \<Rightarrow> bool" where
  "pathcache_ok m \<longleftrightarrow> servers.map_ok m \<and> (\<forall>x \<in> set m. sources.map_ok (snd x))"

lemma pathcache_okD:
  assumes "pathcache_ok m"
  shows "servers.map_ok m" "map_find server_less s m = Some sc \<Longrightarrow> sources.map_ok sc"
proof -
  show ok: "servers.map_ok m" using assms by (simp add: pathcache_ok_def)
  show "map_find server_less s m = Some sc \<Longrightarrow> sources.map_ok sc"
    using servers.map_find_iff [OF ok TrueI, of s sc] assms by (auto simp: pathcache_ok_def)
qed

lemma pathcache_ok_assign:
  assumes "pathcache_ok m" "sources.map_ok sc"
  shows "pathcache_ok (map_assign server_less s sc m)"
proof -
  obtain k where "set (map_assign server_less s sc m) = insert (k, sc) {x \<in> set m. server_key (fst x) \<noteq> server_key s}"
    "servers.map_ok (map_assign server_less s sc m)"
    by (rule servers.assign_set [OF pathcache_okD(1) [OF assms(1)] TrueI, of s sc])
  then show ?thesis using assms by (auto simp: pathcache_ok_def)
qed

lemma find_server_assign:
  assumes "pathcache_ok m"
  shows "map_find server_less q (map_assign server_less s sc m)
     = (if server_key q = server_key s then Some sc else map_find server_less q m)"
  using servers.find_assign [OF pathcache_okD(1) [OF assms], of q s sc] by simp

lemma find_server_same:
  assumes "pathcache_ok m" "server_key q = server_key s"
  shows "map_find server_less q m = map_find server_less s m"
proof -
  have "map_find server_less q m = Some sc \<longleftrightarrow> map_find server_less s m = Some sc" for sc
    using servers.map_find_iff [OF pathcache_okD(1) [OF assms(1)] TrueI] assms(2) by simp
  then show ?thesis by (metis option.exhaust)
qed

lemma LookupIn_Nil [simp]: "pathcache_LookupIn [] source subdir = CServerPath_default"
  by (simp add: pathcache_LookupIn_def map_find_def set_find_def lower_bound_def)

subsection \<open>What the cache promises\<close>

lemma path_cache_store_parts:
  fixes m server
  defines "m1 \<equiv> (if map_find server_less server m = None then map_assign server_less server [] m else m)"
  assumes "pathcache_ok m" "path_key_ok source"
  obtains sc where "pathcache_ok m1" "map_find server_less server m1 = Some sc" "sources.map_ok sc"
    "pathcache_Store m server target source subdir =
       map_assign server_less server
         (map_assign source_less \<lparr>cs_source = source, cs_subdir = subdir\<rparr> target sc) m1"
    "pathcache_ok (pathcache_Store m server target source subdir)"
proof -
  let ?k = "\<lparr>cs_source = source, cs_subdir = subdir\<rparr>"
  have m1: "pathcache_ok m1" using assms(2) pathcache_ok_assign [of m "[]"] by (simp add: m1_def)
  obtain sc where sc: "map_find server_less server m1 = Some sc"
    using find_server_assign [OF assms(2)] by (cases "map_find server_less server m") (auto simp: m1_def)
  have sc_ok: "sources.map_ok sc" by (rule pathcache_okD(2) [OF m1 sc])
  have store: "pathcache_Store m server target source subdir
      = map_assign server_less server (map_assign source_less ?k target sc) m1"
    using sc by (simp add: pathcache_Store_def Let_def m1_def)
  have "sources.map_ok (map_assign source_less ?k target sc)"
    using sources.assign_entries [OF sc_ok, of ?k target] assms(3) by (simp add: source_ok_def)
  then have "pathcache_ok (pathcache_Store m server target source subdir)"
    unfolding store by (rule pathcache_ok_assign [OF m1])
  then show ?thesis using that m1 sc sc_ok store by blast
qed

lemma path_cache_ok_store:
  assumes "pathcache_ok m" "path_key_ok source"
  shows "pathcache_ok (pathcache_Store m server target source subdir)"
  by (rule path_cache_store_parts [OF assms, of server target subdir])

text \<open>C34: \<open>Store\<close> makes exactly the stored question answer the stored target, for
  every server that is the same map key, and leaves every other answer as it was.\<close>

theorem path_cache_store_lookup:
  assumes "pathcache_ok m" "path_key_ok source" "path_key_ok q"
  shows "pathcache_ok (pathcache_Store m server target source subdir) \<and>
    pathcache_Lookup (pathcache_Store m server target source subdir) s' q sub =
      (if server_key s' = server_key server \<and> q = source \<and> sub = subdir then target
       else pathcache_Lookup m s' q sub)"
proof -
  let ?k = "\<lparr>cs_source = source, cs_subdir = subdir\<rparr>"
  define m1 where "m1 = (if map_find server_less server m = None then map_assign server_less server [] m else m)"
  obtain sc where m1: "pathcache_ok m1" and sc: "map_find server_less server m1 = Some sc"
    and sc_ok: "sources.map_ok sc" and store: "pathcache_Store m server target source subdir
      = map_assign server_less server (map_assign source_less ?k target sc) m1"
    and ok: "pathcache_ok (pathcache_Store m server target source subdir)"
    using path_cache_store_parts [OF assms(1,2), of server target subdir] unfolding m1_def by blast
  have old: "pathcache_Lookup m1 s' q sub = pathcache_Lookup m s' q sub"
    using find_server_assign [OF assms(1), of s' server] find_server_same [OF assms(1), of s' server]
    by (auto simp: m1_def pathcache_Lookup_def)
  have keys: "source_ok ?k" "source_ok \<lparr>cs_source = q, cs_subdir = sub\<rparr>" using assms by (simp_all add: source_ok_def)
  have "pathcache_Lookup (pathcache_Store m server target source subdir) s' q sub =
      (if server_key s' = server_key server \<and> q = source \<and> sub = subdir then target
       else pathcache_Lookup m1 s' q sub)"
    using find_server_assign [OF m1, of s' server] find_server_same [OF m1, of s' server] sc
      sources.find_assign [OF sc_ok keys, of target]
    by (auto simp: store pathcache_Lookup_def pathcache_LookupIn_def)
  then show ?thesis using old ok by simp
qed

theorem path_cache_store_lookup_witness:
  "let s = CServer_make FTP UNIX ''h'' 21; a = CServerPath_make ''/a'' UNIX; b = CServerPath_make ''/x/y'' UNIX;
       m = pathcache_Store [] s b a ''link''
   in pathcache_Lookup m s a ''link'' = b \<and> pathcache_Lookup m s b ''link'' = CServerPath_default"
proof -
  let ?s = "CServer_make FTP UNIX ''h'' 21" and ?a = "CServerPath_make ''/a'' UNIX"
    and ?b = "CServerPath_make ''/x/y'' UNIX"
  have "pathcache_ok []" by (simp add: pathcache_ok_def)
  moreover have "path_key_ok ?a" "path_key_ok ?b" "?a \<noteq> ?b" by code_simp+
  ultimately show ?thesis
    using path_cache_store_lookup [of "[]" ?a ?a ?s ?b "''link''" ?s "''link''"]
      path_cache_store_lookup [of "[]" ?a ?b ?s ?b "''link''" ?s "''link''"]
    by (simp add: Let_def pathcache_Lookup_def map_find_def set_find_def lower_bound_def)
qed

subsection \<open>Invalidation\<close>

text \<open>The directory that an invalidation is about: where the cache says the change leads, and
  without an entry the subdirectory of that name; the empty path when there is neither.\<close>

definition invalidation_target :: "CServerPath \<Rightarrow> CServerPath \<Rightarrow> wstring \<Rightarrow> CServerPath" where
  "invalidation_target known path subdir =
     (if path_empty known \<and> subdir \<noteq> []
      then \<lparr>m_data = Some \<lparr>m_segments = segs path @ [subdir], m_prefix = pfx path\<rparr>, m_type = m_type path\<rparr>
      else known)"

text \<open>The directories that an invalidation has to forget, in terms of types, prefixes and segments: the
  directory itself and what lies below it.  Below an MVS data set lies nothing, and a path without a
  parent lies below nothing.\<close>

definition lies_in :: "CServerPath \<Rightarrow> CServerPath \<Rightarrow> bool" where
  "lies_in t p \<longleftrightarrow> m_data p \<noteq> None \<and> m_data t \<noteq> None \<and>
     (p = t \<or>
      m_type p = m_type t \<and> strict_prefix (segs t) (segs p) \<and>
      (if m_type t = MVS then pfx t \<noteq> None else pfx p = pfx t) \<and>
      (has_root (traits (m_type p)) \<or> 1 < length (segs p)))"

lemma AddSegment_target:
  "\<not> path_empty path \<Longrightarrow> AddSegment path subdir =
     (True, \<lparr>m_data = Some \<lparr>m_segments = segs path @ [subdir], m_prefix = pfx path\<rparr>, m_type = m_type path\<rparr>)"
  by (simp add: AddSegment_def segs_def pfx_def)

lemma lies_in_tests:
  assumes "\<not> path_empty t"
  shows "path_eq p t \<or> IsParentOf L t p False False \<longleftrightarrow> lies_in t p"
proof -
  have "IsParentOf L t p False False \<longleftrightarrow> \<not> path_empty p \<and> m_type p = m_type t \<and> strict_prefix (segs t) (segs p) \<and>
      (if m_type t = MVS then pfx t \<noteq> None else pfx p = pfx t) \<and>
      (has_root (traits (m_type p)) \<or> 1 < length (segs p))"
    using assms by (auto simp: IsParentOf_def IsSubdirOf_iff subdir_exact prefix_differs_def prefixmode_iff HasParent_iff)
  then show ?thesis using assms by (auto simp: lies_in_def path_empty_def)
qed

lemma invalidated_iff:
  "\<not> path_empty t \<Longrightarrow> invalidated L t e \<longleftrightarrow> lies_in t (snd e) \<or> lies_in t (cs_source (fst e))"
  unfolding invalidated_def lies_in_tests by simp

lemma path_empty_default [simp]: "path_empty CServerPath_default"
  by (simp add: path_empty_def CServerPath_default_def)

lemma lies_in_empty [simp]: "path_empty t \<Longrightarrow> \<not> lies_in t p" "path_empty p \<Longrightarrow> \<not> lies_in t p"
  by (simp_all add: lies_in_def path_empty_def)

lemma option_restrict_eq:
  assumes "\<And>v. a = Some v \<longleftrightarrow> b = Some v \<and> P v"
  shows "a = (case b of None \<Rightarrow> None | Some v \<Rightarrow> if P v then Some v else None)"
proof (cases a)
  case None
  then have "b \<noteq> Some v \<or> \<not> P v" for v using assms [of v] by simp
  then show ?thesis using None by (cases b) auto
next
  case (Some v)
  then have "b = Some v" "P v" using assms [of v] by simp_all
  then show ?thesis using Some by simp
qed

lemma sources_find_None:
  assumes "sources.map_ok sc" "source_ok k"
  shows "map_find source_less k sc = None \<longleftrightarrow> (\<forall>e \<in> set sc. fst e \<noteq> k)"
proof -
  have "map_find source_less k sc = Some v \<longleftrightarrow> (k, v) \<in> set sc" for v
    using sources.map_find_iff [OF assms] by simp
  then show ?thesis by (metis eq_fst_iff not_Some_eq)
qed

lemma InvalidateIn_entries:
  fixes L sc path subdir
  assumes "sources.map_ok sc" "path_key_ok path"
  defines "t \<equiv> invalidation_target (pathcache_LookupIn sc path subdir) path subdir"
  shows "set (pathcache_InvalidateIn L sc path subdir) =
      {e \<in> set sc. fst e \<noteq> \<lparr>cs_source = path, cs_subdir = subdir\<rparr> \<and>
         \<not> lies_in t (snd e) \<and> \<not> lies_in t (cs_source (fst e))} \<and>
    sources.map_ok (pathcache_InvalidateIn L sc path subdir)"
proof -
  let ?k = "\<lparr>cs_source = path, cs_subdir = subdir\<rparr>"
  define sc1 where "sc1 = (case map_find source_less ?k sc of None \<Rightarrow> sc | Some _ \<Rightarrow> map_erase source_less ?k sc)"
  have key: "source_ok ?k" using assms(2) by (simp add: source_ok_def)
  have "set sc1 = {e \<in> set sc. fst e \<noteq> ?k} \<and> sources.map_ok sc1"
    using sources_find_None [OF assms(1) key] sources.erase_set [OF assms(1) key] assms(1)
    by (cases "map_find source_less ?k sc") (auto simp: sc1_def)
  moreover have "\<not> path_empty path" using assms(2) by (simp add: path_key_ok_def path_empty_def)
  then have "pathcache_InvalidateIn L sc path subdir
      = (if path_empty t then sc1 else filter (\<lambda>e. \<not> invalidated L t e) sc1)"
    unfolding pathcache_InvalidateIn_def Let_def sc1_def [symmetric] t_def invalidation_target_def
      pathcache_LookupIn_def by (cases "subdir = []") (simp_all add: AddSegment_target)
  then have "pathcache_InvalidateIn L sc path subdir
      = filter (\<lambda>e. \<not> lies_in t (snd e) \<and> \<not> lies_in t (cs_source (fst e))) sc1"
    by (cases "path_empty t") (simp_all add: invalidated_iff)
  ultimately show ?thesis using sources.map_ok_filter by auto
qed

text \<open>C16: \<open>InvalidatePath\<close> takes away the answer it was asked about and every answer of
  that server that leads into, or starts from, the invalidated directory or one below it; all other
  answers stay, and other servers are untouched.  So no later lookup of that server returns the
  invalidated directory or a path below it, and none that starts there is answered.\<close>

theorem path_cache_invalidate:
  fixes L m server path subdir
  assumes "pathcache_ok m" "path_key_ok path" "path_key_ok q"
  defines "t \<equiv> invalidation_target (pathcache_Lookup m server path subdir) path subdir"
    and "n \<equiv> pathcache_InvalidatePath L m server path subdir"
  shows "pathcache_ok n \<and>
    (server_key s' \<noteq> server_key server \<longrightarrow> pathcache_Lookup n s' q sub = pathcache_Lookup m s' q sub) \<and>
    (server_key s' = server_key server \<longrightarrow>
       pathcache_Lookup n s' q sub =
         (if q = path \<and> sub = subdir \<or> lies_in t q \<or> lies_in t (pathcache_Lookup m s' q sub)
          then CServerPath_default else pathcache_Lookup m s' q sub) \<and>
       \<not> lies_in t (pathcache_Lookup n s' q sub) \<and>
       (lies_in t q \<longrightarrow> path_empty (pathcache_Lookup n s' q sub)))"
proof -
  have "pathcache_ok n \<and> pathcache_Lookup n s' q sub =
      (if server_key s' = server_key server \<and>
          (q = path \<and> sub = subdir \<or> lies_in t q \<or> lies_in t (pathcache_Lookup m s' q sub))
       then CServerPath_default else pathcache_Lookup m s' q sub)"
  proof (cases "map_find server_less server m")
    case None
    then show ?thesis
      using assms(1) find_server_same [OF assms(1), of s' server]
      by (auto simp: n_def pathcache_InvalidatePath_def pathcache_Lookup_def)
  next
    case (Some sc)
    let ?q = "\<lparr>cs_source = q, cs_subdir = sub\<rparr>" and ?new = "pathcache_InvalidateIn L sc path subdir"
    have t: "t = invalidation_target (pathcache_LookupIn sc path subdir) path subdir"
      using Some by (simp add: t_def pathcache_Lookup_def)
    have sc_ok: "sources.map_ok sc" by (rule pathcache_okD(2) [OF assms(1) Some])
    note new = InvalidateIn_entries [OF sc_ok assms(2), of L subdir, folded t]
    have key: "source_ok ?q" using assms(3) by (simp add: source_ok_def)
    have run: "n = map_assign server_less server ?new m"
      using Some by (simp add: n_def pathcache_InvalidatePath_def)
    have "map_find source_less ?q ?new = Some v \<longleftrightarrow>
        map_find source_less ?q sc = Some v \<and> \<not> (q = path \<and> sub = subdir \<or> lies_in t q \<or> lies_in t v)" for v
      using sources.map_find_iff [OF conjunct2 [OF new] key, of v] sources.map_find_iff [OF sc_ok key, of v] new
      by auto
    then have "map_find source_less ?q ?new =
        (case map_find source_less ?q sc of None \<Rightarrow> None
         | Some v \<Rightarrow> if \<not> (q = path \<and> sub = subdir \<or> lies_in t q \<or> lies_in t v) then Some v else None)"
      by (rule option_restrict_eq)
    then have 1: "pathcache_LookupIn ?new q sub =
        (if q = path \<and> sub = subdir \<or> lies_in t q \<or> lies_in t (pathcache_LookupIn sc q sub)
         then CServerPath_default else pathcache_LookupIn sc q sub)"
      by (cases "map_find source_less ?q sc") (simp_all add: pathcache_LookupIn_def)
    have 2: "pathcache_Lookup n s' q sub
        = (if server_key s' = server_key server then pathcache_LookupIn ?new q sub else pathcache_Lookup m s' q sub)"
      using find_server_assign [OF assms(1), of s' server ?new] by (simp add: run pathcache_Lookup_def)
    have 3: "pathcache_Lookup m s' q sub = pathcache_LookupIn sc q sub" if "server_key s' = server_key server"
      using find_server_same [OF assms(1) that] Some by (simp add: pathcache_Lookup_def)
    have "pathcache_ok n"
      unfolding run by (rule pathcache_ok_assign [OF assms(1) conjunct2 [OF new]])
    then show ?thesis using 1 2 3 by (cases "server_key s' = server_key server") simp_all
  qed
  then show ?thesis by (cases "server_key s' = server_key server") simp_all
qed

theorem path_cache_invalidate_witness:
  "let s = CServer_make FTP UNIX ''h'' 21; p = (\<lambda>x. CServerPath_make x UNIX);
       m = pathcache_Store (pathcache_Store (pathcache_Store [] s (p ''/x/y/z'') (p ''/a'') ''link'')
             s (p ''/x'') (p ''/x/y/z'') ''up'') s (p ''/b'') (p ''/a'') ''other'';
       n = pathcache_InvalidatePath libfz_std m s (p ''/x'') ''y''
   in pathcache_Lookup m s (p ''/a'') ''link'' = p ''/x/y/z'' \<and> path_empty (pathcache_Lookup n s (p ''/a'') ''link'') \<and>
      pathcache_Lookup m s (p ''/x/y/z'') ''up'' = p ''/x'' \<and> path_empty (pathcache_Lookup n s (p ''/x/y/z'') ''up'') \<and>
      pathcache_Lookup n s (p ''/a'') ''other'' = p ''/b''"
proof -
  let ?s = "CServer_make FTP UNIX ''h'' 21" and ?a = "CServerPath_make ''/a'' UNIX"
    and ?x = "CServerPath_make ''/x'' UNIX" and ?z = "CServerPath_make ''/x/y/z'' UNIX"
    and ?b = "CServerPath_make ''/b'' UNIX" and ?y = "CServerPath_make ''/x/y'' UNIX"
  let ?m = "pathcache_Store (pathcache_Store (pathcache_Store [] ?s ?z ?a ''link'') ?s ?x ?z ''up'') ?s ?b ?a ''other''"
  have keys: "path_key_ok ?a" "path_key_ok ?x" "path_key_ok ?z" by code_simp+
  have "pathcache_ok []" by (simp add: pathcache_ok_def)
  then have ok: "pathcache_ok ?m"
    by (intro path_cache_ok_store keys)
  have look: "pathcache_Lookup ?m ?s ?a ''link'' = ?z" "pathcache_Lookup ?m ?s ?z ''up'' = ?x"
    "pathcache_Lookup ?m ?s ?a ''other'' = ?b" by code_simp+
  have target: "invalidation_target (pathcache_Lookup ?m ?s ?x ''y'') ?x ''y'' = ?y" by code_simp
  have lies: "path_eq ?z ?y \<or> IsParentOf libfz_std ?y ?z False False"
    "\<not> (path_eq ?a ?y \<or> IsParentOf libfz_std ?y ?a False False)"
    "\<not> (path_eq ?b ?y \<or> IsParentOf libfz_std ?y ?b False False)" "\<not> path_empty ?y" "?a \<noteq> ?x" "?z \<noteq> ?x" by code_simp+
  note inv = path_cache_invalidate [OF ok keys(2), of _ libfz_std ?s "''y''" ?s, unfolded target]
  have "pathcache_Lookup ?m ?s ?a ''link'' = ?z \<and>
      path_empty (pathcache_Lookup (pathcache_InvalidatePath libfz_std ?m ?s ?x ''y'') ?s ?a ''link'')"
    using inv [OF keys(1), of "''link''"] look(1) lies unfolding lies_in_tests [OF lies(4)]
    by simp
  moreover have "pathcache_Lookup ?m ?s ?z ''up'' = ?x \<and>
      path_empty (pathcache_Lookup (pathcache_InvalidatePath libfz_std ?m ?s ?x ''y'') ?s ?z ''up'')"
    using inv [OF keys(3), of "''up''"] look(2) lies unfolding lies_in_tests [OF lies(4)] by simp
  moreover have "pathcache_Lookup (pathcache_InvalidatePath libfz_std ?m ?s ?x ''y'') ?s ?a ''other'' = ?b"
    using inv [OF keys(1), of "''other''"] look(3) lies unfolding lies_in_tests [OF lies(4)] by simp
  ultimately show ?thesis by (simp add: Let_def)
qed

text \<open>Servers that differ only in their post-login commands, such as \<open>HOST\<close>, share
  their entries, although \<open>SameResource\<close> tells them apart.\<close>

lemma path_cache_shared_by_virtual_hosts:
  "let s = CServer_make FTP UNIX ''h'' 21; t = snd (SetPostLoginCommands s [''HOST b'']);
       a = CServerPath_make ''/a'' UNIX; b = CServerPath_make ''/b'' UNIX
   in \<not> SameResource s t \<and> \<not> server_eq s t \<and>
      pathcache_Lookup (pathcache_Store [] s b a ''link'') t a ''link'' = b"
  by code_simp

end
