(* ===== verification/Dir_Listing.thy ===== *)
theory Dir_Listing
  imports Server_Path_Order "HOL-Library.Word"
begin

unbundle bit_operations_syntax

text \<open>
  Directory entries and directory listings: \<open>src/filezilla3/src/engine/directorylisting.cpp\<close>
  with \<open>include/directorylisting.h\<close>.  A listing keeps two search maps from names to
  indices, one by exact and one by lower-cased name, that \<open>FindFile_CmpCase\<close> and
  \<open>FindFile_CmpNoCase\<close> fill on demand, so that a search changes the listing.  The
  optional vector of entries is a list (no vector and an empty one are never told apart), an
  \<open>unordered_multimap\<close> the list of its pairs in the order of insertion.  Not modelled:
  \<open>CDirentry::dump\<close>, which is debug output.
\<close>

subsection \<open>Entries\<close>

text \<open>\<open>fz::datetime\<close>: nothing, or a point in time with an accuracy.\<close>

datatype accuracy = acc_days | acc_hours | acc_minutes | acc_seconds | acc_milliseconds

fun accuracy_value :: "accuracy \<Rightarrow> nat" where
  "accuracy_value acc_days = 0" | "accuracy_value acc_hours = 1" | "accuracy_value acc_minutes = 2"
| "accuracy_value acc_seconds = 3" | "accuracy_value acc_milliseconds = 4"

type_synonym datetime = "(int \<times> accuracy) option"

record CDirentry =
  de_name :: wstring
  de_size :: int
  de_permissions :: wstring
  de_ownerGroup :: wstring
  de_target :: "wstring option"
  de_time :: datetime
  de_flags :: "32 word"

definition flag_dir :: "32 word" where "flag_dir = 1"
definition flag_link :: "32 word" where "flag_link = 2"
definition flag_unsure :: "32 word" where "flag_unsure = 4"

definition CDirentry_default :: CDirentry where
  "CDirentry_default = \<lparr>de_name = [], de_size = -1, de_permissions = [], de_ownerGroup = [],
     de_target = None, de_time = None, de_flags = 0\<rparr>"

definition direntry_bool :: "CDirentry \<Rightarrow> bool" where
  "direntry_bool e \<longleftrightarrow> de_name e \<noteq> []"

definition direntry_clear :: "CDirentry \<Rightarrow> CDirentry" where
  "direntry_clear e = CDirentry_default"

definition is_dir :: "CDirentry \<Rightarrow> bool" where
  "is_dir e \<longleftrightarrow> de_flags e AND flag_dir \<noteq> 0"

definition is_link :: "CDirentry \<Rightarrow> bool" where
  "is_link e \<longleftrightarrow> de_flags e AND flag_link \<noteq> 0"

definition is_unsure :: "CDirentry \<Rightarrow> bool" where
  "is_unsure e \<longleftrightarrow> de_flags e AND flag_unsure \<noteq> 0"

definition has_date :: "CDirentry \<Rightarrow> bool" where
  "has_date e \<longleftrightarrow> de_time e \<noteq> None"

definition accuracy_at_least :: "accuracy \<Rightarrow> CDirentry \<Rightarrow> bool" where
  "accuracy_at_least a e \<longleftrightarrow>
     (case de_time e of None \<Rightarrow> False | Some (_, b) \<Rightarrow> accuracy_value a \<le> accuracy_value b)"

definition has_time :: "CDirentry \<Rightarrow> bool" where
  "has_time e \<longleftrightarrow> accuracy_at_least acc_hours e"

definition has_seconds :: "CDirentry \<Rightarrow> bool" where
  "has_seconds e \<longleftrightarrow> accuracy_at_least acc_seconds e"

definition direntry_eq :: "CDirentry \<Rightarrow> CDirentry \<Rightarrow> bool" where
  "direntry_eq a b =
     (if de_name a \<noteq> de_name b then False
      else if de_size a \<noteq> de_size b then False
      else if de_permissions a \<noteq> de_permissions b then False
      else if de_ownerGroup a \<noteq> de_ownerGroup b then False
      else if de_flags a \<noteq> de_flags b then False
      else if has_date a \<and> de_time a \<noteq> de_time b then False
      else True)"

definition mark_unsure :: "CDirentry \<Rightarrow> CDirentry" where
  "mark_unsure e = e\<lparr>de_flags := de_flags e OR flag_unsure\<rparr>"

lemma mark_unsure_simps [simp]:
  "de_name (mark_unsure e) = de_name e" "de_size (mark_unsure e) = de_size e"
  "de_permissions (mark_unsure e) = de_permissions e" "de_ownerGroup (mark_unsure e) = de_ownerGroup e"
  "de_flags (mark_unsure e) = de_flags e OR flag_unsure"
  by (simp_all add: mark_unsure_def)

lemma mark_unsure_unsure: "is_unsure (mark_unsure e)"
proof -
  have "(de_flags e OR 4) AND 4 = (4 :: 32 word)" by (simp add: bit.conj_disj_distrib2)
  then show ?thesis by (simp add: is_unsure_def flag_unsure_def)
qed

subsection \<open>Listings\<close>

type_synonym searchmap = "(wstring \<times> nat) list option"

record CDirectoryListing =
  dl_path :: CServerPath
  dl_firstListTime :: int
  dl_entries :: "CDirentry list"
  dl_searchmap_case :: searchmap
  dl_searchmap_nocase :: searchmap
  dl_flags :: "32 word"

definition unsure_file_added :: "32 word" where "unsure_file_added = 0x01"
definition unsure_file_removed :: "32 word" where "unsure_file_removed = 0x02"
definition unsure_file_changed :: "32 word" where "unsure_file_changed = 0x04"
definition unsure_dir_added :: "32 word" where "unsure_dir_added = 0x08"
definition unsure_dir_removed :: "32 word" where "unsure_dir_removed = 0x10"
definition unsure_dir_changed :: "32 word" where "unsure_dir_changed = 0x20"
definition unsure_unknown :: "32 word" where "unsure_unknown = 0x40"
definition unsure_invalid :: "32 word" where "unsure_invalid = 0x80"
definition unsure_mask :: "32 word" where "unsure_mask = 0xff"
definition listing_failed :: "32 word" where "listing_failed = 0x100"
definition listing_has_dirs :: "32 word" where "listing_has_dirs = 0x200"
definition listing_has_perms :: "32 word" where "listing_has_perms = 0x400"
definition listing_has_usergroup :: "32 word" where "listing_has_usergroup = 0x800"

lemmas listing_bits = unsure_file_added_def unsure_file_removed_def unsure_file_changed_def
  unsure_dir_added_def unsure_dir_removed_def unsure_dir_changed_def unsure_unknown_def
  unsure_invalid_def unsure_mask_def listing_failed_def listing_has_dirs_def listing_has_perms_def
  listing_has_usergroup_def

definition CDirectoryListing_default :: CDirectoryListing where
  "CDirectoryListing_default = \<lparr>dl_path = CServerPath_default, dl_firstListTime = 0, dl_entries = [],
     dl_searchmap_case = None, dl_searchmap_nocase = None, dl_flags = 0\<rparr>"

definition listing_size :: "CDirectoryListing \<Rightarrow> nat" where
  "listing_size l = length (dl_entries l)"

definition listing_bool :: "CDirectoryListing \<Rightarrow> bool" where
  "listing_bool l \<longleftrightarrow> \<not> path_empty (dl_path l)"

definition get_unsure_flags :: "CDirectoryListing \<Rightarrow> 32 word" where
  "get_unsure_flags l = dl_flags l AND unsure_mask"

definition has_flag_bit :: "32 word \<Rightarrow> CDirectoryListing \<Rightarrow> bool" where
  "has_flag_bit f l \<longleftrightarrow> dl_flags l AND f \<noteq> 0"

definition failed :: "CDirectoryListing \<Rightarrow> bool" where
  "failed l \<longleftrightarrow> has_flag_bit listing_failed l"

definition has_dirs :: "CDirectoryListing \<Rightarrow> bool" where
  "has_dirs l \<longleftrightarrow> has_flag_bit listing_has_dirs l"

definition has_perms :: "CDirectoryListing \<Rightarrow> bool" where
  "has_perms l \<longleftrightarrow> has_flag_bit listing_has_perms l"

definition has_usergroup :: "CDirectoryListing \<Rightarrow> bool" where
  "has_usergroup l \<longleftrightarrow> has_flag_bit listing_has_usergroup l"

definition or_flags :: "32 word \<Rightarrow> CDirectoryListing \<Rightarrow> CDirectoryListing" where
  "or_flags f l = l\<lparr>dl_flags := dl_flags l OR f\<rparr>"

text \<open>\<open>listing.get(i)\<close> used to change an entry in place.\<close>

definition entry_update :: "nat \<Rightarrow> (CDirentry \<Rightarrow> CDirentry) \<Rightarrow> CDirectoryListing \<Rightarrow> CDirectoryListing" where
  "entry_update i f l = l\<lparr>dl_entries := (dl_entries l)[i := f (dl_entries l ! i)]\<rparr>"

definition drop_searchmaps :: "CDirectoryListing \<Rightarrow> CDirectoryListing" where
  "drop_searchmaps l = l\<lparr>dl_searchmap_case := None, dl_searchmap_nocase := None\<rparr>"

fun assign_flags :: "CDirentry list \<Rightarrow> 32 word \<Rightarrow> 32 word" where
  "assign_flags [] f = f"
| "assign_flags (e # es) f =
     (let f1 = (if is_dir e then f OR listing_has_dirs else f);
          f2 = (if de_permissions e \<noteq> [] then f1 OR listing_has_perms else f1);
          f3 = (if de_ownerGroup e \<noteq> [] then f2 OR listing_has_usergroup else f2)
      in assign_flags es f3)"

definition Assign :: "CDirectoryListing \<Rightarrow> CDirentry list \<Rightarrow> CDirectoryListing" where
  "Assign l entries =
     drop_searchmaps
       (l\<lparr>dl_entries := entries,
          dl_flags := assign_flags entries
            (dl_flags l AND NOT (listing_has_dirs OR listing_has_perms OR listing_has_usergroup))\<rparr>)"

definition remove_at :: "nat \<Rightarrow> 'a list \<Rightarrow> 'a list" where
  "remove_at i xs = take i xs @ drop (Suc i) xs"

definition RemoveEntry :: "CDirectoryListing \<Rightarrow> nat \<Rightarrow> bool \<times> CDirectoryListing" where
  "RemoveEntry l i =
     (if i \<ge> listing_size l then (False, l)
      else
        let l1 = drop_searchmaps l;
            l2 = (if is_dir (dl_entries l1 ! i) then or_flags unsure_dir_removed l1
                  else or_flags unsure_file_removed l1)
        in (True, l2\<lparr>dl_entries := remove_at i (dl_entries l2)\<rparr>))"

definition GetFilenames :: "CDirectoryListing \<Rightarrow> wstring list \<Rightarrow> wstring list" where
  "GetFilenames l names = names @ map de_name (dl_entries l)"

definition Append :: "CDirectoryListing \<Rightarrow> CDirentry \<Rightarrow> CDirectoryListing" where
  "Append l e = l\<lparr>dl_entries := dl_entries l @ [e]\<rparr>"

definition ClearFindMap :: "CDirectoryListing \<Rightarrow> CDirectoryListing" where
  "ClearFindMap l = (if dl_searchmap_case l = None then l else drop_searchmaps l)"

subsection \<open>Searching a listing\<close>

definition multimap_find :: "libfz \<Rightarrow> wstring \<Rightarrow> (wstring \<times> nat) list \<Rightarrow> nat option" where
  "multimap_find L k m =
     (case map snd (filter (\<lambda>e. fst e = k) m) of [] \<Rightarrow> None | v # vs \<Rightarrow> Some (multimap_pick L (v # vs)))"

text \<open>The loop that completes the map from index \<open>i\<close> on and stops at the first hit.\<close>

fun build_searchmap ::
  "(wstring \<Rightarrow> wstring) \<Rightarrow> wstring \<Rightarrow> CDirentry list \<Rightarrow> nat \<Rightarrow> (wstring \<times> nat) list \<Rightarrow>
     nat option \<times> (wstring \<times> nat) list" where
  "build_searchmap lower name [] i m = (None, m)"
| "build_searchmap lower name (e # es) i m =
     (let entry_name = lower (de_name e); m' = m @ [(entry_name, i)]
      in if entry_name = name then (Some i, m') else build_searchmap lower name es (Suc i) m')"

text \<open>The body that the two search functions share; \<open>lower\<close> is what they apply to names.\<close>

definition find_in_map ::
  "libfz \<Rightarrow> (wstring \<Rightarrow> wstring) \<Rightarrow> wstring \<Rightarrow> CDirentry list \<Rightarrow> searchmap \<Rightarrow> nat option \<times> searchmap" where
  "find_in_map L lower name entries smap =
     (let m = (case smap of None \<Rightarrow> [] | Some m \<Rightarrow> m)
      in case multimap_find L name m of
           Some i \<Rightarrow> (Some i, Some m)
         | None \<Rightarrow>
             let i = length m
             in if i = length entries then (None, Some m)
                else case build_searchmap lower name (drop i entries) i m of (r, m') \<Rightarrow> (r, Some m'))"

definition FindFile_CmpCase :: "libfz \<Rightarrow> CDirectoryListing \<Rightarrow> wstring \<Rightarrow> nat option \<times> CDirectoryListing" where
  "FindFile_CmpCase L l name =
     (if dl_entries l = [] then (None, l)
      else case find_in_map L (\<lambda>s. s) name (dl_entries l) (dl_searchmap_case l) of
             (r, m) \<Rightarrow> (r, l\<lparr>dl_searchmap_case := m\<rparr>))"

definition FindFile_CmpNoCase :: "libfz \<Rightarrow> CDirectoryListing \<Rightarrow> wstring \<Rightarrow> nat option \<times> CDirectoryListing" where
  "FindFile_CmpNoCase L l name =
     (if dl_entries l = [] then (None, l)
      else case find_in_map L (fz_str_tolower L) (fz_str_tolower L name) (dl_entries l) (dl_searchmap_nocase l) of
             (r, m) \<Rightarrow> (r, l\<lparr>dl_searchmap_nocase := m\<rparr>))"

subsection \<open>Inclusion of listings\<close>

text \<open>The loop condition compares \<open>iter2\<close> with \<open>cbegin()\<close>; the iterators are the rests of
  the two sorted lists, and \<open>names2\<close> stands for its own beginning.  Reading \<open>*iter2\<close> at
  the end would be undefined; the loop never gets there.\<close>

fun inclusion_loop :: "wstring list \<Rightarrow> wstring list \<Rightarrow> wstring list \<Rightarrow> bool" where
  "inclusion_loop names2 iter1 iter2 =
     (if length iter2 \<noteq> length names2
      then (case iter1 of
              [] \<Rightarrow> False
            | n1 # rest1 \<Rightarrow>
                (case iter2 of
                   [] \<Rightarrow> False
                 | n2 # rest2 \<Rightarrow>
                     if n1 \<noteq> n2 then inclusion_loop names2 rest1 iter2
                     else inclusion_loop names2 rest1 rest2))
      else True)"

declare inclusion_loop.simps [simp del]

definition CheckInclusion :: "CDirectoryListing \<Rightarrow> CDirectoryListing \<Rightarrow> bool" where
  "CheckInclusion listing1 listing2 =
     (if listing_size listing2 > listing_size listing1 then False
      else let names1 = sort (GetFilenames listing1 []);
               names2 = sort (GetFilenames listing2 [])
           in inclusion_loop names2 names1 names2)"

text \<open>\<open>CheckInclusion\<close> compares only the sizes: its loop is never entered.\<close>

lemma CheckInclusion_sizes: "CheckInclusion a b \<longleftrightarrow> listing_size b \<le> listing_size a"
  by (simp add: CheckInclusion_def inclusion_loop.simps)

end
