(* ===== verification/Dir_Cache.thy ===== *)
theory Dir_Cache
  imports Server_Site Dir_Listing
begin

text \<open>
  The directory cache, \<open>src/filezilla3/src/engine/directorycache.cpp\<close> with
  \<open>directorycache.h\<close>: a list of servers, each with a \<open>std::set\<close> of cached listings
  sorted by path, a list of all cached listings from the least to the most recently used one, and a
  count of all files in them.

  List nodes have addresses, drawn from \<open>dc_next\<close>: \<open>se_id\<close> is that of a server entry,
  \<open>ce_lruIt\<close> that of the node in the list of recently used entries an entry points to.  Such
  a node holds the address of the server and the key of the cached listing.  Inside one operation
  an iterator is a position.  The mutex makes every operation atomic; \<open>now\<close> is the reading of
  the monotonic clock, in milliseconds, during it.
\<close>

record CCacheEntry =
  ce_listing :: CDirectoryListing
  ce_modificationTime :: int
  ce_lruIt :: "nat option"

record CServerEntry =
  se_id :: nat
  se_server :: CServer
  se_cacheList :: "CCacheEntry list"

type_synonym tLruList = "(nat \<times> nat \<times> CServerPath) list"

record CDirectoryCache =
  dc_serverList :: "CServerEntry list"
  dc_lru :: tLruList
  dc_totalFileCount :: int
  dc_ttl :: int
  dc_next :: nat

definition CDirectoryCache_new :: CDirectoryCache where
  "CDirectoryCache_new = \<lparr>dc_serverList = [], dc_lru = [], dc_totalFileCount = 0, dc_ttl = 300000, dc_next = 0\<rparr>"

definition CCacheEntry_make :: "CDirectoryListing \<Rightarrow> int \<Rightarrow> CCacheEntry" where
  "CCacheEntry_make l now = \<lparr>ce_listing = l, ce_modificationTime = now, ce_lruIt = None\<rparr>"

definition ce_path :: "CCacheEntry \<Rightarrow> CServerPath" where
  "ce_path e = dl_path (ce_listing e)"

definition ce_size :: "CCacheEntry \<Rightarrow> int" where
  "ce_size e = int (listing_size (ce_listing e))"

definition cacheList :: "CDirectoryCache \<Rightarrow> nat \<Rightarrow> CCacheEntry list" where
  "cacheList c i = se_cacheList (dc_serverList c ! i)"

definition put_cacheList :: "nat \<Rightarrow> CCacheEntry list \<Rightarrow> CDirectoryCache \<Rightarrow> CDirectoryCache" where
  "put_cacheList i xs c =
     c\<lparr>dc_serverList := (dc_serverList c)[i := (dc_serverList c ! i)\<lparr>se_cacheList := xs\<rparr>]\<rparr>"

definition put_entry :: "nat \<Rightarrow> nat \<Rightarrow> CCacheEntry \<Rightarrow> CDirectoryCache \<Rightarrow> CDirectoryCache" where
  "put_entry i pos e c = put_cacheList i ((cacheList c i)[pos := e]) c"

definition put_listing :: "nat \<Rightarrow> nat \<Rightarrow> CDirectoryListing \<Rightarrow> CDirectoryCache \<Rightarrow> CDirectoryCache" where
  "put_listing i pos l c = put_entry i pos ((cacheList c i ! pos)\<lparr>ce_listing := l\<rparr>) c"

subsection \<open>Servers and the list of recently used entries\<close>

definition GetServerEntry :: "CDirectoryCache \<Rightarrow> CServer \<Rightarrow> nat option" where
  "GetServerEntry c server = find_idx (\<lambda>se. SameContent (se_server se) server) (dc_serverList c)"

definition CreateServerEntry :: "CDirectoryCache \<Rightarrow> CServer \<Rightarrow> nat \<times> CDirectoryCache" where
  "CreateServerEntry c server =
     (case find_idx (\<lambda>se. SameContent (se_server se) server) (dc_serverList c) of
        Some i \<Rightarrow> (i, c)
      | None \<Rightarrow>
          (length (dc_serverList c),
           c\<lparr>dc_serverList := dc_serverList c @ [\<lparr>se_id = dc_next c, se_server = server, se_cacheList = []\<rparr>],
             dc_next := Suc (dc_next c)\<rparr>))"

definition UpdateLru :: "nat \<Rightarrow> CCacheEntry \<Rightarrow> CDirectoryCache \<Rightarrow> CCacheEntry \<times> CDirectoryCache" where
  "UpdateLru sid e c =
     (case ce_lruIt e of
        Some n \<Rightarrow> (e, c\<lparr>dc_lru := filter (\<lambda>x. fst x \<noteq> n) (dc_lru c) @ [(n, sid, ce_path e)]\<rparr>)
      | None \<Rightarrow>
          (e\<lparr>ce_lruIt := Some (dc_next c)\<rparr>,
           c\<lparr>dc_lru := dc_lru c @ [(dc_next c, sid, ce_path e)], dc_next := Suc (dc_next c)\<rparr>))"

definition touch :: "nat \<Rightarrow> nat \<Rightarrow> CDirectoryCache \<Rightarrow> CDirectoryCache" where
  "touch i pos c =
     (case UpdateLru (se_id (dc_serverList c ! i)) (cacheList c i ! pos) c of
        (e, c1) \<Rightarrow> put_entry i pos e c1)"

text \<open>What is done for an entry that is about to be destroyed.\<close>

definition unlink_lru :: "CCacheEntry \<Rightarrow> CDirectoryCache \<Rightarrow> CDirectoryCache" where
  "unlink_lru e c =
     (case ce_lruIt e of None \<Rightarrow> c
      | Some n \<Rightarrow> c\<lparr>dc_lru := filter (\<lambda>x. fst x \<noteq> n) (dc_lru c)\<rparr>)"

definition drop_entry :: "CCacheEntry \<Rightarrow> CDirectoryCache \<Rightarrow> CDirectoryCache" where
  "drop_entry e c =
     (unlink_lru e c)\<lparr>dc_totalFileCount := dc_totalFileCount c - ce_size e\<rparr>"

definition prune_needed :: "CDirectoryCache \<Rightarrow> bool" where
  "prune_needed c \<longleftrightarrow>
     length (dc_lru c) > 50000 \<or>
     (dc_totalFileCount c > 1000000 \<and> length (dc_lru c) > 1000) \<or>
     (dc_totalFileCount c > 5000000 \<and> length (dc_lru c) > 100)"

text \<open>One turn of the loop of \<open>Prune\<close>.  The two branches for an entry that is not there would
  follow a dangling iterator; the invariant of the cache excludes them.\<close>

definition prune_step :: "CDirectoryCache \<Rightarrow> CDirectoryCache" where
  "prune_step c =
     (case dc_lru c of
        [] \<Rightarrow> c
      | (n, sid, p) # rest \<Rightarrow>
          let c1 = c\<lparr>dc_lru := rest\<rparr>
          in case find_idx (\<lambda>se. se_id se = sid) (dc_serverList c) of
               None \<Rightarrow> c1
             | Some i \<Rightarrow>
                 (case find_idx (\<lambda>e. ce_path e = p) (cacheList c i) of
                    None \<Rightarrow> c1
                  | Some pos \<Rightarrow>
                      let c2 = c1\<lparr>dc_totalFileCount := dc_totalFileCount c - ce_size (cacheList c i ! pos)\<rparr>;
                          xs = remove_at pos (cacheList c i)
                      in if xs = [] then c2\<lparr>dc_serverList := remove_at i (dc_serverList c)\<rparr>
                         else put_cacheList i xs c2))"

lemma prune_step_lru: "dc_lru (prune_step c) = tl (dc_lru c)"
  by (auto simp: prune_step_def put_cacheList_def Let_def split: list.splits option.splits)

function Prune :: "CDirectoryCache \<Rightarrow> CDirectoryCache" where
  "Prune c = (if prune_needed c then Prune (prune_step c) else c)"
  by auto
termination
  by (relation "measure (\<lambda>c. length (dc_lru c))") (auto simp: prune_needed_def prune_step_lru)

declare Prune.simps [simp del]

subsection \<open>Looking up listings\<close>

text \<open>The inner \<open>Lookup\<close>: the value of \<open>is_outdated\<close> if it returns true, the position of the
  iterator, and the cache with the entry moved to the end of the list.\<close>

definition Lookup_iter ::
  "int \<Rightarrow> CDirectoryCache \<Rightarrow> nat \<Rightarrow> CServerPath \<Rightarrow> bool \<Rightarrow> bool option \<times> nat \<times> CDirectoryCache" where
  "Lookup_iter now c i path allowUnsureEntries =
     (let pos = length (before_bound path_less ce_path path (cacheList c i))
      in if pos < length (cacheList c i) \<and> path_eq (ce_path (cacheList c i ! pos)) path
         then
           let l = ce_listing (cacheList c i ! pos);
               c1 = touch i pos c
           in if \<not> allowUnsureEntries \<and> get_unsure_flags l \<noteq> 0 then (None, pos, c1)
              else (Some (now - dl_firstListTime l > dc_ttl c), pos, c1)
         else (None, pos, c))"

definition cache_Store :: "int \<Rightarrow> CDirectoryListing \<Rightarrow> CServer \<Rightarrow> CDirectoryCache \<Rightarrow> CDirectoryCache" where
  "cache_Store now listing server c =
     (case CreateServerEntry c server of (i, c1) \<Rightarrow>
        let c2 = c1\<lparr>dc_totalFileCount := dc_totalFileCount c1 + int (listing_size listing)\<rparr>
        in case Lookup_iter now c2 i (dl_path listing) True of
             (Some _, pos, c3) \<Rightarrow>
               let e = cacheList c3 i ! pos
               in put_entry i pos (e\<lparr>ce_modificationTime := now, ce_listing := listing\<rparr>)
                    (c3\<lparr>dc_totalFileCount := dc_totalFileCount c3 - ce_size e\<rparr>)
           | (None, pos, c3) \<Rightarrow>
               Prune (touch i pos
                 (put_cacheList i (set_emplace path_less ce_path (CCacheEntry_make listing now) (cacheList c3 i)) c3)))"

definition cache_Lookup ::
  "int \<Rightarrow> CServer \<Rightarrow> CServerPath \<Rightarrow> bool \<Rightarrow> CDirectoryCache \<Rightarrow> (CDirectoryListing \<times> bool) option \<times> CDirectoryCache" where
  "cache_Lookup now server path allowUnsureEntries c =
     (case GetServerEntry c server of
        None \<Rightarrow> (None, c)
      | Some i \<Rightarrow>
          (case Lookup_iter now c i path allowUnsureEntries of
             (Some outdated, pos, c1) \<Rightarrow> (Some (ce_listing (cacheList c1 i ! pos), outdated), c1)
           | (None, pos, c1) \<Rightarrow> (None, c1)))"

definition cache_DoesExist ::
  "int \<Rightarrow> CServer \<Rightarrow> CServerPath \<Rightarrow> CDirectoryCache \<Rightarrow> (32 word \<times> bool) option \<times> CDirectoryCache" where
  "cache_DoesExist now server path c =
     (case GetServerEntry c server of
        None \<Rightarrow> (None, c)
      | Some i \<Rightarrow>
          (case Lookup_iter now c i path True of
             (Some outdated, pos, c1) \<Rightarrow> (Some (get_unsure_flags (ce_listing (cacheList c1 i ! pos)), outdated), c1)
           | (None, pos, c1) \<Rightarrow> (None, c1)))"

definition cache_GetChangeTime ::
  "int \<Rightarrow> CServer \<Rightarrow> CServerPath \<Rightarrow> CDirectoryCache \<Rightarrow> int option \<times> CDirectoryCache" where
  "cache_GetChangeTime now server path c =
     (case GetServerEntry c server of
        None \<Rightarrow> (None, c)
      | Some i \<Rightarrow>
          (case Lookup_iter now c i path True of
             (Some _, pos, c1) \<Rightarrow> (Some (ce_modificationTime (cacheList c1 i ! pos)), c1)
           | (None, pos, c1) \<Rightarrow> (None, c1)))"

subsection \<open>Looking up files\<close>

definition allow_outdated :: "32 word" where "allow_outdated = 1"
definition force_caseinsensitive :: "32 word" where "force_caseinsensitive = 2"

definition lr_found :: "32 word" where "lr_found = 1"
definition lr_outdated :: "32 word" where "lr_outdated = 2"
definition lr_direxists :: "32 word" where "lr_direxists = 4"
definition lr_matchedcase :: "32 word" where "lr_matchedcase = 8"

definition flag_set :: "32 word \<Rightarrow> 32 word \<Rightarrow> bool" where
  "flag_set a b \<longleftrightarrow> a AND b \<noteq> 0"

text \<open>The search in one listing that \<open>LookupFile\<close> and \<open>LookupFiles\<close> share.\<close>

definition lookup_in_listing ::
  "libfz \<Rightarrow> CServer \<Rightarrow> 32 word \<Rightarrow> 32 word \<Rightarrow> wstring \<Rightarrow> CDirectoryListing \<Rightarrow> (32 word \<times> CDirentry) \<times> CDirectoryListing" where
  "lookup_in_listing L server flags results filename l =
     (case FindFile_CmpCase L l filename of
        (Some i, l1) \<Rightarrow> ((results OR (lr_found OR lr_matchedcase), dl_entries l1 ! i), l1)
      | (None, l1) \<Rightarrow>
          if GetCaseSensitivity (sv_protocol server) \<noteq> case_yes \<or> flag_set flags force_caseinsensitive
          then (case FindFile_CmpNoCase L l1 filename of
                  (Some i, l2) \<Rightarrow> ((results OR lr_found, dl_entries l2 ! i), l2)
                | (None, l2) \<Rightarrow> ((results, CDirentry_default), l2))
          else ((results, CDirentry_default), l1))"

definition cache_LookupFile ::
  "libfz \<Rightarrow> int \<Rightarrow> CServer \<Rightarrow> CServerPath \<Rightarrow> wstring \<Rightarrow> 32 word \<Rightarrow> CDirectoryCache \<Rightarrow>
     (32 word \<times> CDirentry) \<times> CDirectoryCache" where
  "cache_LookupFile L now server path filename flags c =
     (case GetServerEntry c server of
        None \<Rightarrow> ((0, CDirentry_default), c)
      | Some i \<Rightarrow>
          (case Lookup_iter now c i path True of
             (None, pos, c1) \<Rightarrow> ((0, CDirentry_default), c1)
           | (Some outdated, pos, c1) \<Rightarrow>
               let results = (if outdated then lr_outdated else 0)
               in if outdated \<and> \<not> flag_set flags allow_outdated then ((results, CDirentry_default), c1)
                  else
                    (case lookup_in_listing L server flags (results OR lr_direxists) filename
                            (ce_listing (cacheList c1 i ! pos)) of
                       (r, l) \<Rightarrow> (r, put_listing i pos l c1))))"

text \<open>A loop over a list that may replace each element and threads a state.\<close>

fun map_state :: "('a \<Rightarrow> 's \<Rightarrow> 'b \<times> 's) \<Rightarrow> 'a list \<Rightarrow> 's \<Rightarrow> 'b list \<times> 's" where
  "map_state f [] s = ([], s)"
| "map_state f (x # xs) s =
     (case f x s of (y, s1) \<Rightarrow> case map_state f xs s1 of (ys, s2) \<Rightarrow> (y # ys, s2))"

definition cache_LookupFiles ::
  "libfz \<Rightarrow> int \<Rightarrow> CServer \<Rightarrow> CServerPath \<Rightarrow> wstring list \<Rightarrow> 32 word \<Rightarrow> CDirectoryCache \<Rightarrow>
     (32 word \<times> CDirentry) list \<times> CDirectoryCache" where
  "cache_LookupFiles L now server path filenames flags c =
     (case GetServerEntry c server of
        None \<Rightarrow> ([], c)
      | Some i \<Rightarrow>
          (case Lookup_iter now c i path True of
             (None, pos, c1) \<Rightarrow> ([], c1)
           | (Some outdated, pos, c1) \<Rightarrow>
               let results = (if outdated then lr_outdated else 0)
               in if outdated \<and> \<not> flag_set flags allow_outdated
                  then (replicate (length filenames) (results, CDirentry_default), c1)
                  else
                    (case map_state (lookup_in_listing L server flags (results OR lr_direxists)) filenames
                            (ce_listing (cacheList c1 i ! pos)) of
                       (rs, l) \<Rightarrow> (rs, put_listing i pos l c1))))"

text \<open>The other \<open>LookupFile\<close>: the entry with \<open>matchedCase\<close>, and \<open>dirDidExist\<close>.\<close>

definition cache_LookupFile_dir ::
  "libfz \<Rightarrow> int \<Rightarrow> CServer \<Rightarrow> CServerPath \<Rightarrow> wstring \<Rightarrow> CDirectoryCache \<Rightarrow>
     ((CDirentry \<times> bool) option \<times> bool) \<times> CDirectoryCache" where
  "cache_LookupFile_dir L now server path filename c =
     (case GetServerEntry c server of
        None \<Rightarrow> ((None, False), c)
      | Some i \<Rightarrow>
          (case Lookup_iter now c i path True of
             (None, pos, c1) \<Rightarrow> ((None, False), c1)
           | (Some _, pos, c1) \<Rightarrow>
               (case FindFile_CmpCase L (ce_listing (cacheList c1 i ! pos)) filename of
                  (Some k, l1) \<Rightarrow> ((Some (dl_entries l1 ! k, True), True), put_listing i pos l1 c1)
                | (None, l1) \<Rightarrow>
                    (case FindFile_CmpNoCase L l1 filename of
                       (Some k, l2) \<Rightarrow> ((Some (dl_entries l2 ! k, False), True), put_listing i pos l2 c1)
                     | (None, l2) \<Rightarrow> ((None, True), put_listing i pos l2 c1)))))"

end
