(* ===== verification/Dir_Cache_Update.thy ===== *)
theory Dir_Cache_Update
  imports Dir_Cache
begin

text \<open>
  The operations of the directory cache that record what happened to files and directories:
  invalidation, update, removal and renaming (\<open>directorycache.cpp\<close> from
  \<open>InvalidateFile\<close> on).  Each visits all listings of the server that are stored under the
  path, some compared without case.
\<close>

subsection \<open>Loops over the listings of a server\<close>

text \<open>The body is given the address of the server and the entry; it may change the entry
  and the state of the cache outside the list.\<close>

definition for_entries ::
  "(nat \<Rightarrow> CCacheEntry \<Rightarrow> CDirectoryCache \<times> 's \<Rightarrow> CCacheEntry \<times> CDirectoryCache \<times> 's) \<Rightarrow>
     nat \<Rightarrow> CDirectoryCache \<times> 's \<Rightarrow> CDirectoryCache \<times> 's" where
  "for_entries body i cs =
     (let se = dc_serverList (fst cs) ! i
      in case map_state (body (se_id se)) (se_cacheList se) cs of
           (xs, c1, s1) \<Rightarrow> (put_cacheList i xs c1, s1))"

definition update_listing :: "(CDirectoryListing \<Rightarrow> CDirectoryListing) \<Rightarrow> int \<Rightarrow> CCacheEntry \<Rightarrow> CCacheEntry" where
  "update_listing f now e = e\<lparr>ce_listing := f (ce_listing e), ce_modificationTime := now\<rparr>"

subsection \<open>Invalidation\<close>

definition mark_where :: "(CDirentry \<Rightarrow> bool) \<Rightarrow> CDirectoryListing \<Rightarrow> CDirectoryListing" where
  "mark_where P l = l\<lparr>dl_entries := map (\<lambda>d. if P d then mark_unsure d else d) (dl_entries l)\<rparr>"

definition same_name :: "libfz \<Rightarrow> bool \<Rightarrow> wstring \<Rightarrow> CDirentry \<Rightarrow> bool" where
  "same_name L cmpCase filename d \<longleftrightarrow>
     (if cmpCase then filename = de_name d else fz_stricmp L filename (de_name d) = 0)"

definition invalidate_body ::
  "libfz \<Rightarrow> int \<Rightarrow> CServerPath \<Rightarrow> wstring \<Rightarrow> bool \<Rightarrow> nat \<Rightarrow> CCacheEntry \<Rightarrow> CDirectoryCache \<times> bool \<Rightarrow>
     CCacheEntry \<times> CDirectoryCache \<times> bool" where
  "invalidate_body L now path filename cmpCase sid e cs =
     (if (if cmpCase then path_neq path (ce_path e) else \<not> equal_nocase L path (ce_path e)) then (e, cs)
      else
        (case UpdateLru sid e (fst cs) of
           (e1, c1) \<Rightarrow>
             let isdir = snd cs \<or> list_ex (\<lambda>d. same_name L cmpCase filename d \<and> is_dir d) (dl_entries (ce_listing e1))
             in (update_listing (\<lambda>l. or_flags unsure_unknown (mark_where (same_name L cmpCase filename) l)) now e1,
                 c1, isdir)))"

text \<open>The second loop.  The code computes the path of the subdirectory, but tests with the
  path itself.\<close>

definition invalidate_child_body ::
  "libfz \<Rightarrow> int \<Rightarrow> CServerPath \<Rightarrow> bool \<Rightarrow> nat \<Rightarrow> CCacheEntry \<Rightarrow> CDirectoryCache \<times> bool \<Rightarrow>
     CCacheEntry \<times> CDirectoryCache \<times> bool" where
  "invalidate_child_body L now path cmpCase sid e cs =
     (if IsParentOf L path (ce_path e) (\<not> cmpCase) True
      then (update_listing (or_flags unsure_unknown) now e, cs) else (e, cs))"

definition cache_InvalidateFile ::
  "libfz \<Rightarrow> int \<Rightarrow> CServer \<Rightarrow> CServerPath \<Rightarrow> wstring \<Rightarrow> CDirectoryCache \<Rightarrow> bool \<times> CDirectoryCache" where
  "cache_InvalidateFile L now server path filename c =
     (case GetServerEntry c server of
        None \<Rightarrow> (False, c)
      | Some i \<Rightarrow>
          let cmpCase = (GetCaseSensitivity (sv_protocol server) = case_yes);
              r = for_entries (invalidate_body L now path filename cmpCase) i (c, False)
          in (True,
              if snd r \<and> fst (ChangePath_dir path filename)
              then fst (for_entries (invalidate_child_body L now path cmpCase) i r)
              else fst r))"

subsection \<open>Update and removal of files\<close>

datatype Filetype = ft_unknown | ft_file | ft_dir

text \<open>The scan of \<open>UpdateFile\<close>: entries of that name but for case become unsure up to the first
  exact match, whose index is returned.\<close>

fun mark_until :: "libfz \<Rightarrow> wstring \<Rightarrow> CDirentry list \<Rightarrow> nat option \<times> CDirentry list" where
  "mark_until L filename [] = (None, [])"
| "mark_until L filename (d # ds) =
     (if fz_stricmp L filename (de_name d) = 0
      then (if de_name (mark_unsure d) = filename then (Some 0, mark_unsure d # ds)
            else case mark_until L filename ds of (r, ds') \<Rightarrow> (map_option Suc r, mark_unsure d # ds'))
      else case mark_until L filename ds of (r, ds') \<Rightarrow> (map_option Suc r, d # ds'))"

definition new_direntry :: "wstring \<Rightarrow> Filetype \<Rightarrow> int \<Rightarrow> wstring \<Rightarrow> CDirentry" where
  "new_direntry filename type sz ownerGroup =
     (let d = CDirentry_default\<lparr>de_name := filename,
                de_flags := (if type = ft_dir then flag_dir OR flag_unsure else flag_unsure), de_size := sz\<rparr>
      in if ownerGroup \<noteq> [] then d\<lparr>de_ownerGroup := ownerGroup\<rparr> else d)"

fun added_flags :: "Filetype \<Rightarrow> 32 word" where
  "added_flags ft_dir = unsure_dir_added OR listing_has_dirs"
| "added_flags ft_file = unsure_file_added"
| "added_flags ft_unknown = unsure_invalid"

text \<open>One listing after \<open>UpdateFile\<close>, and by how many files it grew.\<close>

definition update_file_listing ::
  "libfz \<Rightarrow> wstring \<Rightarrow> bool \<Rightarrow> Filetype \<Rightarrow> int \<Rightarrow> wstring \<Rightarrow> CDirectoryListing \<Rightarrow> CDirectoryListing \<times> int" where
  "update_file_listing L filename mayCreate type sz ownerGroup l =
     (case mark_until L filename (dl_entries l) of
        (m, ds) \<Rightarrow>
          let l1 = l\<lparr>dl_entries := ds\<rparr>
          in case m of
               Some i \<Rightarrow>
                 let old_type = (if is_dir (ds ! i) then ft_dir else ft_file)
                 in (or_flags (if type \<noteq> old_type then unsure_invalid
                               else if type = ft_dir then unsure_dir_changed else unsure_file_changed) l1, 0)
             | None \<Rightarrow>
                 if type \<noteq> ft_unknown \<and> mayCreate
                 then (Append (or_flags (added_flags type) l1) (new_direntry filename type sz ownerGroup), 1)
                 else (or_flags unsure_unknown l1, 0))"

definition update_file_body ::
  "libfz \<Rightarrow> int \<Rightarrow> CServerPath \<Rightarrow> wstring \<Rightarrow> bool \<Rightarrow> Filetype \<Rightarrow> int \<Rightarrow> wstring \<Rightarrow>
     nat \<Rightarrow> CCacheEntry \<Rightarrow> CDirectoryCache \<times> bool \<Rightarrow> CCacheEntry \<times> CDirectoryCache \<times> bool" where
  "update_file_body L now path filename mayCreate type sz ownerGroup sid e cs =
     (if \<not> equal_nocase L path (ce_path e) then (e, cs)
      else
        (case UpdateLru sid e (fst cs) of
           (e1, c1) \<Rightarrow>
             (case update_file_listing L filename mayCreate type sz ownerGroup (ce_listing e1) of
                (l, grown) \<Rightarrow>
                  (update_listing (\<lambda>_. l) now e1,
                   c1\<lparr>dc_totalFileCount := dc_totalFileCount c1 + grown\<rparr>, True))))"

definition cache_UpdateFile ::
  "libfz \<Rightarrow> int \<Rightarrow> CServer \<Rightarrow> CServerPath \<Rightarrow> wstring \<Rightarrow> bool \<Rightarrow> Filetype \<Rightarrow> int \<Rightarrow> wstring \<Rightarrow>
     CDirectoryCache \<Rightarrow> bool \<times> CDirectoryCache" where
  "cache_UpdateFile L now server path filename mayCreate type sz ownerGroup c =
     (case GetServerEntry c server of
        None \<Rightarrow> (False, c)
      | Some i \<Rightarrow>
          (case for_entries (update_file_body L now path filename mayCreate type sz ownerGroup) i (c, False) of
             (c1, updated) \<Rightarrow> (updated, c1)))"

text \<open>One listing after \<open>RemoveFile\<close>, and by how many files it shrank.\<close>

definition remove_file_listing :: "libfz \<Rightarrow> wstring \<Rightarrow> CDirectoryListing \<Rightarrow> CDirectoryListing \<times> int" where
  "remove_file_listing L filename l =
     (case find_idx (\<lambda>d. de_name d = filename) (dl_entries l) of
        Some i \<Rightarrow> (snd (RemoveEntry l i), 1)
      | None \<Rightarrow> (or_flags unsure_invalid (mark_where (\<lambda>d. fz_stricmp L filename (de_name d) = 0) l), 0))"

definition remove_file_body ::
  "libfz \<Rightarrow> int \<Rightarrow> CServerPath \<Rightarrow> wstring \<Rightarrow> nat \<Rightarrow> CCacheEntry \<Rightarrow> CDirectoryCache \<times> bool \<Rightarrow>
     CCacheEntry \<times> CDirectoryCache \<times> bool" where
  "remove_file_body L now path filename sid e cs =
     (if \<not> equal_nocase L path (ce_path e) then (e, cs)
      else
        (case UpdateLru sid e (fst cs) of
           (e1, c1) \<Rightarrow>
             (case remove_file_listing L filename (ce_listing e1) of
                (l, shrunk) \<Rightarrow>
                  (update_listing (\<lambda>_. l) now e1,
                   c1\<lparr>dc_totalFileCount := dc_totalFileCount c1 - shrunk\<rparr>, snd cs))))"

definition cache_RemoveFile ::
  "libfz \<Rightarrow> int \<Rightarrow> CServer \<Rightarrow> CServerPath \<Rightarrow> wstring \<Rightarrow> CDirectoryCache \<Rightarrow> bool \<times> CDirectoryCache" where
  "cache_RemoveFile L now server path filename c =
     (case GetServerEntry c server of
        None \<Rightarrow> (False, c)
      | Some i \<Rightarrow> (True, fst (for_entries (remove_file_body L now path filename) i (c, True))))"

subsection \<open>Removal of servers and directories\<close>

definition cache_InvalidateServer :: "CServer \<Rightarrow> CDirectoryCache \<Rightarrow> CDirectoryCache" where
  "cache_InvalidateServer server c =
     (case find_idx (\<lambda>se. SameContent (se_server se) server) (dc_serverList c) of
        None \<Rightarrow> c
      | Some i \<Rightarrow>
          (foldl (\<lambda>c e. drop_entry e c) c (cacheList c i))
            \<lparr>dc_serverList := remove_at i (dc_serverList c)\<rparr>)"

fun erase_entries :: "(CCacheEntry \<Rightarrow> bool) \<Rightarrow> CCacheEntry list \<Rightarrow> CDirectoryCache \<Rightarrow> CCacheEntry list \<times> CDirectoryCache" where
  "erase_entries P [] c = ([], c)"
| "erase_entries P (e # es) c =
     (if P e then erase_entries P es (drop_entry e c)
      else case erase_entries P es c of (es', c') \<Rightarrow> (e # es', c'))"

definition cache_RemoveDir ::
  "libfz \<Rightarrow> int \<Rightarrow> CServer \<Rightarrow> CServerPath \<Rightarrow> wstring \<Rightarrow> CDirectoryCache \<Rightarrow> CDirectoryCache" where
  "cache_RemoveDir L now server path filename c =
     (case GetServerEntry c server of
        None \<Rightarrow> c
      | Some i \<Rightarrow>
          let added = AddSegment path filename;
              absolutePath = (if fst added then snd added else path_clear (snd added));
              doomed = (\<lambda>e. \<not> path_empty absolutePath \<and>
                 (path_eq (ce_path e) absolutePath \<or> IsParentOf L absolutePath (ce_path e) True False))
          in case erase_entries doomed (cacheList c i) c of
               (xs, c1) \<Rightarrow> snd (cache_RemoveFile L now server path filename (put_cacheList i xs c1)))"

subsection \<open>Renaming and ownership\<close>

definition find_name :: "wstring \<Rightarrow> CDirectoryListing \<Rightarrow> nat option" where
  "find_name name l = find_idx (\<lambda>d. de_name d = name) (dl_entries l)"

definition cache_Rename ::
  "libfz \<Rightarrow> int \<Rightarrow> CServer \<Rightarrow> CServerPath \<Rightarrow> wstring \<Rightarrow> CServerPath \<Rightarrow> wstring \<Rightarrow>
     CDirectoryCache \<Rightarrow> CDirectoryCache" where
  "cache_Rename L now server pathFrom fileFrom pathTo fileTo c =
     (case GetServerEntry c server of
        None \<Rightarrow> c
      | Some i \<Rightarrow>
          (case Lookup_iter now c i pathFrom True of
             (None, pos, c1) \<Rightarrow> cache_InvalidateServer server c1
           | (Some _, pos, c1) \<Rightarrow>
               if path_eq pathFrom pathTo then
                 let c2 = snd (cache_RemoveFile L now server pathFrom fileTo c1);
                     l = ce_listing (cacheList c2 i ! pos)
                 in case find_name fileFrom l of
                      None \<Rightarrow> c2
                    | Some k \<Rightarrow>
                        if is_dir (dl_entries l ! k)
                        then snd (cache_UpdateFile L now server pathFrom fileTo True ft_dir (-1) []
                               (cache_RemoveDir L now server pathFrom fileTo
                                 (cache_RemoveDir L now server pathFrom fileFrom c2)))
                        else put_listing i pos
                               (ClearFindMap (or_flags unsure_unknown
                                 (entry_update k (\<lambda>d. mark_unsure (d\<lparr>de_name := fileTo\<rparr>)) l))) c2
               else
                 let l = ce_listing (cacheList c1 i ! pos)
                 in case find_name fileFrom l of
                      None \<Rightarrow> c1
                    | Some k \<Rightarrow>
                        if is_dir (dl_entries l ! k)
                        then snd (cache_UpdateFile L now server pathTo fileTo True ft_dir (-1) []
                               (cache_RemoveDir L now server pathFrom fileFrom c1))
                        else snd (cache_UpdateFile L now server pathTo fileTo True ft_file (-1) []
                               (snd (cache_RemoveFile L now server pathFrom fileFrom c1)))))"

definition cache_UpdateOwnerGroup ::
  "int \<Rightarrow> CServer \<Rightarrow> CServerPath \<Rightarrow> wstring \<Rightarrow> wstring \<Rightarrow> CDirectoryCache \<Rightarrow> CDirectoryCache" where
  "cache_UpdateOwnerGroup now server path filename ownerGroup c =
     (case GetServerEntry c server of
        None \<Rightarrow> c
      | Some i \<Rightarrow>
          (case Lookup_iter now c i path True of
             (None, pos, c1) \<Rightarrow> cache_InvalidateServer server c1
           | (Some _, pos, c1) \<Rightarrow>
               let l = ce_listing (cacheList c1 i ! pos)
               in case find_name filename l of
                    None \<Rightarrow> cache_InvalidateServer server c1
                  | Some k \<Rightarrow>
                      if \<not> is_dir (dl_entries l ! k)
                      then put_listing i pos
                             (ClearFindMap (entry_update k (\<lambda>d. d\<lparr>de_ownerGroup := ownerGroup\<rparr>) l)) c1
                      else c1))"

definition cache_SetTtl :: "int \<Rightarrow> CDirectoryCache \<Rightarrow> CDirectoryCache" where
  "cache_SetTtl ttl c =
     c\<lparr>dc_ttl := (if ttl < 30000 then 30000 else if ttl > 86400000 then 86400000 else ttl)\<rparr>"

text \<open>The destructor: every entry unlinks its node and takes its files out of the count, which a
  debug build then asserts to be zero.\<close>

definition cache_destroy :: "CDirectoryCache \<Rightarrow> CDirectoryCache" where
  "cache_destroy c =
     foldl (\<lambda>c se. foldl (\<lambda>c e. drop_entry e c) c (se_cacheList se)) c (dc_serverList c)"

end
