(* ===== verification/Dir_Listing_Props.thy ===== *)
theory Dir_Listing_Props
  imports Dir_Listing
begin

text \<open>
  What the lazily built search maps of a listing promise: in every state that the member
  functions of a listing reach, a map holds exactly the names of an initial part of the
  entries, so a search through it finds what a search of all entries would find.
\<close>

subsection \<open>Search maps\<close>

definition searchmap_ok :: "(wstring \<Rightarrow> wstring) \<Rightarrow> CDirentry list \<Rightarrow> searchmap \<Rightarrow> bool" where
  "searchmap_ok lower entries smap \<longleftrightarrow>
     (case smap of None \<Rightarrow> True
      | Some m \<Rightarrow> length m \<le> length entries \<and>
          (\<forall>j < length m. m ! j = (lower (de_name (entries ! j)), j)))"

definition listing_ok :: "libfz \<Rightarrow> CDirectoryListing \<Rightarrow> bool" where
  "listing_ok L l \<longleftrightarrow>
     searchmap_ok (\<lambda>s. s) (dl_entries l) (dl_searchmap_case l) \<and>
     searchmap_ok (fz_str_tolower L) (dl_entries l) (dl_searchmap_nocase l)"

lemma searchmap_ok_None [simp]: "searchmap_ok lower entries None"
  by (simp add: searchmap_ok_def)

lemma searchmap_ok_append:
  "searchmap_ok lower entries smap \<Longrightarrow> searchmap_ok lower (entries @ es) smap"
  by (auto simp: searchmap_ok_def nth_append split: option.splits)

lemma searchmap_ok_names:
  assumes "map de_name entries' = map de_name entries"
  shows "searchmap_ok lower entries' smap = searchmap_ok lower entries smap"
proof -
  have "length entries' = length entries" using assms by (rule map_eq_imp_length_eq)
  moreover have "de_name (entries' ! j) = de_name (entries ! j)" if "j < length entries" for j
    using arg_cong [OF assms, of "\<lambda>xs. xs ! j"] that calculation by simp
  ultimately show ?thesis by (auto simp: searchmap_ok_def split: option.splits)
qed

lemma multimap_find_None: "multimap_find L k m = None \<longleftrightarrow> (\<forall>e \<in> set m. fst e \<noteq> k)"
proof -
  have "multimap_find L k m = None \<longleftrightarrow> filter (\<lambda>e. fst e = k) m = []"
    by (auto simp: multimap_find_def split: list.splits)
  then show ?thesis by (simp add: filter_empty_conv)
qed

lemma multimap_find_Some:
  assumes "multimap_law L" "multimap_find L k m = Some i"
  shows "(k, i) \<in> set m"
proof -
  let ?vs = "map snd (filter (\<lambda>e. fst e = k) m)"
  obtain v vs where "?vs = v # vs" using assms(2) by (cases ?vs) (simp_all add: multimap_find_def)
  then have "?vs \<noteq> []" "i = multimap_pick L ?vs" using assms(2) by (simp_all add: multimap_find_def)
  moreover have "multimap_pick L ?vs \<in> set ?vs" using calculation(1) assms(1) unfolding multimap_law_def by blast
  ultimately have "i \<in> set ?vs" by (simp only:)
  then show ?thesis by auto
qed

lemma searchmap_step:
  assumes "searchmap_ok lower entries (Some m)" "length m < length entries"
  shows "searchmap_ok lower entries (Some (m @ [(lower (de_name (entries ! length m)), length m)]))"
  using assms by (auto simp: searchmap_ok_def nth_append less_Suc_eq)

lemma build_searchmap_ok:
  assumes "searchmap_ok lower entries (Some m)"
    and "build_searchmap lower k (drop (length m) entries) (length m) m = (r, m')"
    and "\<forall>e \<in> set (take (length m) entries). lower (de_name e) \<noteq> k"
  shows "searchmap_ok lower entries (Some m') \<and>
    r = find_idx (\<lambda>e. lower (de_name e) = k) entries"
  using assms
proof (induction "length entries - length m" arbitrary: m)
  case 0
  then have len: "length m = length entries" by (simp add: searchmap_ok_def)
  then have none: "find_idx (\<lambda>e. lower (de_name e) = k) entries = None" using 0 by simp
  from 0 len have "r = None" "m' = m" by simp_all
  then show ?case unfolding none using 0 by simp
next
  case (Suc n)
  let ?e = "entries ! length m"
  have less: "length m < length entries" using Suc.hyps(2) by simp
  then have drop: "drop (length m) entries = ?e # drop (Suc (length m)) entries"
    by (simp add: Cons_nth_drop_Suc)
  have take: "take (Suc (length m)) entries = take (length m) entries @ [?e]"
    using less by (rule take_Suc_conv_app_nth)
  note step = searchmap_step [OF Suc.prems(1) less]
  show ?case
  proof (cases "lower (de_name ?e) = k")
    case True
    then have "r = Some (length m)" "m' = m @ [(k, length m)]"
      using Suc.prems(2) by (auto simp: drop)
    moreover have "find_idx (\<lambda>e. lower (de_name e) = k) (take (length m) entries @ ?e # drop (Suc (length m)) entries)
        = Some (length (take (length m) entries))"
      using True Suc.prems(3) by (intro find_idx_append_hit) auto
    then have "find_idx (\<lambda>e. lower (de_name e) = k) entries = Some (length m)"
      using less by (simp add: id_take_nth_drop [symmetric])
    ultimately show ?thesis using step True by simp
  next
    case False
    have "build_searchmap lower k (drop (Suc (length m)) entries) (Suc (length m))
        (m @ [(lower (de_name ?e), length m)]) = (r, m')"
      using Suc.prems(2) False by (simp add: drop)
    then show ?thesis
      using Suc.hyps(1) [OF _ step] Suc.hyps(2) Suc.prems(3) take False by simp
  qed
qed

text \<open>A search either proves that no entry has the name or returns an entry that has it.\<close>

lemma find_in_map_ok:
  assumes "multimap_law L" "searchmap_ok lower entries smap"
    and "find_in_map L lower k entries smap = (r, smap')"
  shows "searchmap_ok lower entries smap' \<and>
    (case r of None \<Rightarrow> \<forall>e \<in> set entries. lower (de_name e) \<noteq> k
     | Some i \<Rightarrow> i < length entries \<and> lower (de_name (entries ! i)) = k)"
proof -
  define m where "m = (case smap of None \<Rightarrow> [] | Some m \<Rightarrow> m)"
  have ok: "searchmap_ok lower entries (Some m)"
    using assms(2) by (auto simp: m_def searchmap_ok_def split: option.splits)
  have run: "(case multimap_find L k m of Some i \<Rightarrow> (Some i, Some m)
      | None \<Rightarrow> if length m = length entries then (None, Some m)
          else case build_searchmap lower k (drop (length m) entries) (length m) m of (r, m') \<Rightarrow> (r, Some m'))
      = (r, smap')"
    using assms(3) unfolding find_in_map_def m_def [symmetric] Let_def .
  have nth: "j < length m \<Longrightarrow> m ! j = (lower (de_name (entries ! j)), j)"
    and len: "length m \<le> length entries" for j using ok by (simp_all add: searchmap_ok_def)
  show ?thesis
  proof (cases "multimap_find L k m")
    case (Some i)
    then obtain j where "j < length m" "m ! j = (k, i)"
      using multimap_find_Some [OF assms(1) Some] by (auto simp: in_set_conv_nth)
    then have "i < length entries" "lower (de_name (entries ! i)) = k" using nth [of j] len by auto
    moreover have "r = Some i" "smap' = Some m" using run Some by simp_all
    ultimately show ?thesis using ok by simp
  next
    case None
    have fresh: "lower (de_name e) \<noteq> k" if e: "e \<in> set (take (length m) entries)" for e
    proof -
      obtain j where "j < length m" "e = entries ! j" using e by (auto simp: in_set_conv_nth)
      then have "(lower (de_name e), j) \<in> set m" using nth [of j] nth_mem [of j m] by simp
      then show ?thesis using None by (auto simp: multimap_find_None)
    qed
    show ?thesis
    proof (cases "length m = length entries")
      case True
      then show ?thesis using run None ok fresh by auto
    next
      case False
      obtain r' m' where b: "build_searchmap lower k (drop (length m) entries) (length m) m = (r', m')"
        by fastforce
      then have "r = r'" "smap' = Some m'" using run None False by auto
      then show ?thesis using build_searchmap_ok [OF ok b] fresh
        by (auto split: option.splits dest: find_idx_less find_idx_hit simp: find_idx_None)
    qed
  qed
qed

subsection \<open>Every member function keeps the maps right\<close>

lemma listing_ok_default [cache_simps]: "listing_ok L CDirectoryListing_default"
  by (simp add: listing_ok_def CDirectoryListing_default_def)

lemma drop_searchmaps_simps [simp]:
  "dl_path (drop_searchmaps l) = dl_path l" "dl_entries (drop_searchmaps l) = dl_entries l"
  "dl_flags (drop_searchmaps l) = dl_flags l" "dl_firstListTime (drop_searchmaps l) = dl_firstListTime l"
  "dl_searchmap_case (drop_searchmaps l) = None" "dl_searchmap_nocase (drop_searchmaps l) = None"
  by (simp_all add: drop_searchmaps_def)

lemma or_flags_simps [simp]:
  "dl_path (or_flags f l) = dl_path l" "dl_entries (or_flags f l) = dl_entries l"
  "dl_searchmap_case (or_flags f l) = dl_searchmap_case l"
  "dl_searchmap_nocase (or_flags f l) = dl_searchmap_nocase l"
  "dl_flags (or_flags f l) = dl_flags l OR f" "dl_firstListTime (or_flags f l) = dl_firstListTime l"
  by (simp_all add: or_flags_def)

lemma listing_ok_or_flags [cache_simps]: "listing_ok L (or_flags f l) = listing_ok L l"
  by (simp add: listing_ok_def)

lemma listing_ok_drop [cache_simps]: "listing_ok L (drop_searchmaps l)"
  by (simp add: listing_ok_def)

lemma listing_ok_Assign: "listing_ok L (Assign l es)"
  by (simp add: Assign_def cache_simps)

lemma listing_ok_Append: "listing_ok L l \<Longrightarrow> listing_ok L (Append l e)"
  by (simp add: listing_ok_def Append_def searchmap_ok_append)

lemma listing_ok_RemoveEntry: "listing_ok L l \<Longrightarrow> listing_ok L (snd (RemoveEntry l i))"
  by (simp add: listing_ok_def RemoveEntry_def Let_def)

lemma map_update_same: "g (f (xs ! i)) = g (xs ! i) \<Longrightarrow> map g (xs[i := f (xs ! i)]) = map g xs"
  by (cases "i < length xs") (simp_all add: map_update list_update_same_conv list_update_beyond)

lemma listing_ok_update:
  assumes "listing_ok L l" "de_name (f (dl_entries l ! i)) = de_name (dl_entries l ! i)"
  shows "listing_ok L (entry_update i f l)"
  using assms(1) searchmap_ok_names [OF map_update_same [where g = de_name and f = f, OF assms(2)]]
  by (simp add: listing_ok_def entry_update_def)

lemma listing_ok_ClearFindMap:
  assumes "dl_searchmap_case l \<noteq> None \<or> dl_searchmap_nocase l = None"
  shows "listing_ok L (ClearFindMap l)"
  using assms by (auto simp: ClearFindMap_def listing_ok_def)

lemma FindFile_CmpCase_ok:
  assumes "multimap_law L" "listing_ok L l"
  shows "listing_ok L (snd (FindFile_CmpCase L l name))"
    and "(case fst (FindFile_CmpCase L l name) of
            None \<Rightarrow> \<forall>e \<in> set (dl_entries l). de_name e \<noteq> name
          | Some i \<Rightarrow> i < listing_size l \<and> de_name (dl_entries l ! i) = name)"
proof -
  obtain r m where run: "find_in_map L (\<lambda>s. s) name (dl_entries l) (dl_searchmap_case l) = (r, m)"
    by fastforce
  have smap: "searchmap_ok (\<lambda>s. s) (dl_entries l) (dl_searchmap_case l)"
    using assms(2) by (simp add: listing_ok_def)
  note ok = find_in_map_ok [OF assms(1) smap run]
  show "listing_ok L (snd (FindFile_CmpCase L l name))"
    using ok assms(2) run by (cases "dl_entries l = []") (simp_all add: FindFile_CmpCase_def listing_ok_def)
  show "(case fst (FindFile_CmpCase L l name) of
            None \<Rightarrow> \<forall>e \<in> set (dl_entries l). de_name e \<noteq> name
          | Some i \<Rightarrow> i < listing_size l \<and> de_name (dl_entries l ! i) = name)"
    using ok run by (cases "dl_entries l = []") (simp_all add: FindFile_CmpCase_def listing_size_def split: option.splits)
qed

lemma FindFile_CmpNoCase_ok:
  assumes "multimap_law L" "listing_ok L l"
  shows "listing_ok L (snd (FindFile_CmpNoCase L l name))"
    and "(case fst (FindFile_CmpNoCase L l name) of
            None \<Rightarrow> \<forall>e \<in> set (dl_entries l). fz_str_tolower L (de_name e) \<noteq> fz_str_tolower L name
          | Some i \<Rightarrow> i < listing_size l \<and>
              fz_str_tolower L (de_name (dl_entries l ! i)) = fz_str_tolower L name)"
proof -
  obtain r m where run:
    "find_in_map L (fz_str_tolower L) (fz_str_tolower L name) (dl_entries l) (dl_searchmap_nocase l) = (r, m)"
    by fastforce
  have smap: "searchmap_ok (fz_str_tolower L) (dl_entries l) (dl_searchmap_nocase l)"
    using assms(2) by (simp add: listing_ok_def)
  note ok = find_in_map_ok [OF assms(1) smap run]
  show "listing_ok L (snd (FindFile_CmpNoCase L l name))"
    using ok assms(2) run by (cases "dl_entries l = []") (simp_all add: FindFile_CmpNoCase_def listing_ok_def)
  show "(case fst (FindFile_CmpNoCase L l name) of
            None \<Rightarrow> \<forall>e \<in> set (dl_entries l). fz_str_tolower L (de_name e) \<noteq> fz_str_tolower L name
          | Some i \<Rightarrow> i < listing_size l \<and>
              fz_str_tolower L (de_name (dl_entries l ! i)) = fz_str_tolower L name)"
    using ok run by (cases "dl_entries l = []") (simp_all add: FindFile_CmpNoCase_def listing_size_def split: option.splits)
qed

lemma FindFile_entries [simp]:
  "dl_entries (snd (FindFile_CmpCase L l name)) = dl_entries l"
  "dl_path (snd (FindFile_CmpCase L l name)) = dl_path l"
  "dl_flags (snd (FindFile_CmpCase L l name)) = dl_flags l"
  "dl_firstListTime (snd (FindFile_CmpCase L l name)) = dl_firstListTime l"
  "dl_entries (snd (FindFile_CmpNoCase L l name)) = dl_entries l"
  "dl_path (snd (FindFile_CmpNoCase L l name)) = dl_path l"
  "dl_flags (snd (FindFile_CmpNoCase L l name)) = dl_flags l"
  "dl_firstListTime (snd (FindFile_CmpNoCase L l name)) = dl_firstListTime l"
  by (simp_all add: FindFile_CmpCase_def FindFile_CmpNoCase_def split: prod.split)

subsection \<open>Reachable listings\<close>

text \<open>The operations of a listing; an entry changed through \<open>get\<close> alone keeps its name.\<close>

inductive listing_op :: "libfz \<Rightarrow> CDirectoryListing \<Rightarrow> CDirectoryListing \<Rightarrow> bool" for L where
  set_path: "listing_op L l (l\<lparr>dl_path := p, dl_firstListTime := t\<rparr>)"
| set_flags: "listing_op L l (or_flags f l)"
| assign: "listing_op L l (Assign l es)"
| append: "listing_op L l (Append l e)"
| remove: "listing_op L l (snd (RemoveEntry l i))"
| get: "de_name (f (dl_entries l ! i)) = de_name (dl_entries l ! i) \<Longrightarrow> listing_op L l (entry_update i f l)"
| find_case: "listing_op L l (snd (FindFile_CmpCase L l name))"
| find_nocase: "listing_op L l (snd (FindFile_CmpNoCase L l name))"
| clear: "listing_op L l (ClearFindMap l)"

text \<open>The listings that are reached with these operations and with renamings: an entry changed
  in any way through \<open>get\<close>, followed by \<open>ClearFindMap\<close> as the comment at \<open>get\<close> asks.\<close>

inductive listing_renamed :: "libfz \<Rightarrow> CDirectoryListing \<Rightarrow> bool" for L where
  start: "listing_renamed L CDirectoryListing_default"
| op: "listing_renamed L l \<Longrightarrow> listing_op L l l' \<Longrightarrow> listing_renamed L l'"
| rename: "listing_renamed L l \<Longrightarrow> listing_renamed L (ClearFindMap (entry_update i f l))"

text \<open>Those in which no entry was renamed while only the map of lower-cased names existed, which
  \<open>ClearFindMap\<close> does not clear.\<close>

inductive listing_reachable :: "libfz \<Rightarrow> CDirectoryListing \<Rightarrow> bool" for L where
  start: "listing_reachable L CDirectoryListing_default"
| op: "listing_reachable L l \<Longrightarrow> listing_op L l l' \<Longrightarrow> listing_reachable L l'"
| rename: "listing_reachable L l \<Longrightarrow> dl_searchmap_case l \<noteq> None \<or> dl_searchmap_nocase l = None \<Longrightarrow>
    listing_reachable L (ClearFindMap (entry_update i f l))"

inductive_cases listing_opE: "listing_op L l l'"

lemma listing_reachable_renamed: "listing_reachable L l \<Longrightarrow> listing_renamed L l"
  by (induction rule: listing_reachable.induct) (auto intro: listing_renamed.intros)

lemma listing_op_ok:
  assumes "multimap_law L" "listing_op L l l'" "listing_ok L l"
  shows "listing_ok L l'"
  using assms(2)
proof cases
  case (set_path p t)
  then show ?thesis using assms(3) by (simp add: listing_ok_def)
next
  case (get f i)
  then show ?thesis using assms(3) by (simp add: listing_ok_update)
next
  case clear
  then show ?thesis using assms(3) by (simp add: ClearFindMap_def cache_simps)
qed (use assms(3) in \<open>simp_all add: cache_simps listing_ok_Assign listing_ok_Append listing_ok_RemoveEntry
      FindFile_CmpCase_ok(1) [OF assms(1)] FindFile_CmpNoCase_ok(1) [OF assms(1)]\<close>)

lemma listing_entry_simps [simp]:
  "dl_searchmap_case (entry_update i f l) = dl_searchmap_case l"
  "dl_searchmap_nocase (entry_update i f l) = dl_searchmap_nocase l"
  by (simp_all add: entry_update_def)

lemma listing_reachable_ok:
  assumes "multimap_law L" "listing_reachable L l"
  shows "listing_ok L l"
  using assms(2)
proof (induction rule: listing_reachable.induct)
  case (op l l')
  then show ?case using listing_op_ok [OF assms(1)] by blast
qed (simp_all add: cache_simps listing_ok_ClearFindMap)

text \<open>The map of exact names is right in all of them: it is cleared whenever it exists.\<close>

definition case_map_ok :: "CDirectoryListing \<Rightarrow> bool" where
  "case_map_ok l \<longleftrightarrow> searchmap_ok (\<lambda>s. s) (dl_entries l) (dl_searchmap_case l)"

lemma FindFile_CmpCase_map:
  assumes "multimap_law L" "case_map_ok l"
  shows "case_map_ok (snd (FindFile_CmpCase L l name))"
    and "(case fst (FindFile_CmpCase L l name) of
            None \<Rightarrow> \<forall>e \<in> set (dl_entries l). de_name e \<noteq> name
          | Some i \<Rightarrow> i < listing_size l \<and> de_name (dl_entries l ! i) = name)"
proof -
  let ?l = "l\<lparr>dl_searchmap_nocase := None\<rparr>"
  have "listing_ok L ?l" using assms(2) by (simp add: listing_ok_def case_map_ok_def)
  note ok = FindFile_CmpCase_ok [OF assms(1) this, of name]
  have same: "fst (FindFile_CmpCase L l name) = fst (FindFile_CmpCase L ?l name)"
    "dl_searchmap_case (snd (FindFile_CmpCase L l name)) = dl_searchmap_case (snd (FindFile_CmpCase L ?l name))"
    by (simp_all add: FindFile_CmpCase_def split: prod.split)
  show "case_map_ok (snd (FindFile_CmpCase L l name))" using ok(1) same(2) by (simp add: case_map_ok_def listing_ok_def)
  show "(case fst (FindFile_CmpCase L l name) of
            None \<Rightarrow> \<forall>e \<in> set (dl_entries l). de_name e \<noteq> name
          | Some i \<Rightarrow> i < listing_size l \<and> de_name (dl_entries l ! i) = name)"
    using ok(2) same(1) by (simp add: listing_size_def split: option.splits)
qed

lemma listing_renamed_case:
  assumes "multimap_law L" "listing_renamed L l"
  shows "case_map_ok l"
  using assms(2)
proof (induction rule: listing_renamed.induct)
  case start
  then show ?case by (simp add: case_map_ok_def CDirectoryListing_default_def)
next
  case (op l l')
  have op_ok: "listing_ok L l'" if "listing_op L l l'" "listing_ok L l" using that by (rule listing_op_ok [OF assms(1)])
  from op(2) show ?case
  proof cases
    case (get f i)
    then show ?thesis using op(3) searchmap_ok_names [OF map_update_same [where g = de_name and f = f, of "dl_entries l" i]]
      by (simp add: case_map_ok_def entry_update_def)
  next
    case (find_case name)
    then show ?thesis using FindFile_CmpCase_map(1) [OF assms(1) op(3)] by simp
  next
    case (find_nocase name)
    then show ?thesis using op(3) by (auto simp: case_map_ok_def FindFile_CmpNoCase_def split: prod.split)
  qed (use op(3) in \<open>simp_all add: case_map_ok_def Assign_def Append_def RemoveEntry_def ClearFindMap_def Let_def searchmap_ok_append\<close>)
next
  case (rename l i f)
  then show ?case by (simp add: case_map_ok_def ClearFindMap_def)
qed

lemma find_idx_unique:
  assumes "i < length xs" "P (xs ! i)" "\<And>j. j < length xs \<Longrightarrow> P (xs ! j) \<Longrightarrow> j = i"
  shows "find_idx P xs = Some i"
proof (cases "find_idx P xs")
  case None
  then show ?thesis using assms(1,2) nth_mem [OF assms(1)] by auto
next
  case (Some j)
  then show ?thesis using assms(3) [of j] find_idx_less find_idx_hit by metis
qed

lemma linear_search_eq:
  assumes "case r of None \<Rightarrow> \<forall>e \<in> set es. f (de_name e) \<noteq> k
           | Some i \<Rightarrow> i < length es \<and> f (de_name (es ! i)) = k"
    and "distinct (map (\<lambda>e. f (de_name e)) es)"
  shows "r = find_idx (\<lambda>e. f (de_name e) = k) es"
proof (cases r)
  case None
  then have none: "find_idx (\<lambda>e. f (de_name e) = k) es = None" using assms(1) by simp
  show ?thesis unfolding None none ..
next
  case (Some i)
  have "find_idx (\<lambda>e. f (de_name e) = k) es = Some i"
  proof (rule find_idx_unique)
    show "i < length es" "f (de_name (es ! i)) = k" using assms(1) Some by simp_all
    show "j = i" if "j < length es" "f (de_name (es ! j)) = k" for j
      using assms(1,2) that Some nth_eq_iff_index_eq [OF assms(2), of j i] by simp
  qed
  then show ?thesis using Some by simp
qed

text \<open>C32: In every listing that its operations reach, renamings followed by \<open>ClearFindMap\<close>
  included, a search for a name through the lazily built map agrees with a linear search of all entries:
  it reports no entry exactly when none has the name, returns an entry of that name otherwise, and the
  very entry of a linear search when the names differ; the entries stay as they were.  The search that
  ignores case promises the same of lower-cased names, whether they collide or not, unless an entry was
  renamed while only the map of lower-cased names existed: that map is not cleared.\<close>

theorem find_file_linear_search:
  assumes "multimap_law L" "listing_renamed L l"
  shows "dl_entries (snd (FindFile_CmpCase L l name)) = dl_entries l \<and>
    dl_entries (snd (FindFile_CmpNoCase L l name)) = dl_entries l \<and>
    (case fst (FindFile_CmpCase L l name) of
       None \<Rightarrow> name \<notin> de_name ` set (dl_entries l)
     | Some i \<Rightarrow> i < listing_size l \<and> de_name (dl_entries l ! i) = name) \<and>
    (distinct (map de_name (dl_entries l)) \<longrightarrow>
       fst (FindFile_CmpCase L l name) = find_idx (\<lambda>e. de_name e = name) (dl_entries l)) \<and>
    (listing_reachable L l \<longrightarrow>
       (case fst (FindFile_CmpNoCase L l name) of
          None \<Rightarrow> fz_str_tolower L name \<notin> (\<lambda>e. fz_str_tolower L (de_name e)) ` set (dl_entries l)
        | Some i \<Rightarrow> i < listing_size l \<and> fz_str_tolower L (de_name (dl_entries l ! i)) = fz_str_tolower L name) \<and>
       (distinct (map (\<lambda>e. fz_str_tolower L (de_name e)) (dl_entries l)) \<longrightarrow>
          fst (FindFile_CmpNoCase L l name) =
            find_idx (\<lambda>e. fz_str_tolower L (de_name e) = fz_str_tolower L name) (dl_entries l)))"
proof -
  note c = FindFile_CmpCase_map(2) [OF assms(1) listing_renamed_case [OF assms], of name]
  have nc: "case fst (FindFile_CmpNoCase L l name) of
      None \<Rightarrow> \<forall>e \<in> set (dl_entries l). fz_str_tolower L (de_name e) \<noteq> fz_str_tolower L name
    | Some i \<Rightarrow> i < listing_size l \<and> fz_str_tolower L (de_name (dl_entries l ! i)) = fz_str_tolower L name"
    if "listing_reachable L l"
    by (rule FindFile_CmpNoCase_ok(2) [OF assms(1) listing_reachable_ok [OF assms(1) that]])
  show ?thesis
  proof (intro conjI impI)
    show "case fst (FindFile_CmpCase L l name) of
       None \<Rightarrow> name \<notin> de_name ` set (dl_entries l)
     | Some i \<Rightarrow> i < listing_size l \<and> de_name (dl_entries l ! i) = name"
      using c by (auto split: option.splits)
    show "case fst (FindFile_CmpNoCase L l name) of
          None \<Rightarrow> fz_str_tolower L name \<notin> (\<lambda>e. fz_str_tolower L (de_name e)) ` set (dl_entries l)
        | Some i \<Rightarrow> i < listing_size l \<and> fz_str_tolower L (de_name (dl_entries l ! i)) = fz_str_tolower L name"
      if "listing_reachable L l"
      using nc [OF that] by (auto split: option.splits)
    show "fst (FindFile_CmpCase L l name) = find_idx (\<lambda>e. de_name e = name) (dl_entries l)"
      if "distinct (map de_name (dl_entries l))"
      by (rule linear_search_eq [where f = "\<lambda>s. s"]) (use c that in \<open>simp_all add: listing_size_def split: option.splits\<close>)
    show "fst (FindFile_CmpNoCase L l name) =
         find_idx (\<lambda>e. fz_str_tolower L (de_name e) = fz_str_tolower L name) (dl_entries l)"
      if "listing_reachable L l" "distinct (map (\<lambda>e. fz_str_tolower L (de_name e)) (dl_entries l))"
      by (rule linear_search_eq [where f = "fz_str_tolower L"])
        (use nc [OF that(1)] that(2) in \<open>simp_all add: listing_size_def split: option.splits\<close>)
  qed simp_all
qed

theorem find_file_linear_search_witness:
  "let e = (\<lambda>n. CDirentry_default\<lparr>de_name := n\<rparr>);
       l = snd (FindFile_CmpCase libfz_std (Assign CDirectoryListing_default [e ''a'', e ''B'', e ''b'']) ''a'');
       l' = ClearFindMap (entry_update 0 (\<lambda>d. d\<lparr>de_name := ''c''\<rparr>) l)
   in fst (FindFile_CmpCase libfz_std l ''a'') = Some 0 \<and>
      fst (FindFile_CmpCase libfz_std l' ''a'') = None \<and> fst (FindFile_CmpCase libfz_std l' ''c'') = Some 0 \<and>
      fst (FindFile_CmpNoCase libfz_std l' ''B'') \<noteq> None"
proof -
  let ?e = "\<lambda>n. CDirentry_default\<lparr>de_name := n\<rparr>"
  let ?l = "snd (FindFile_CmpCase libfz_std (Assign CDirectoryListing_default [?e ''a'', ?e ''B'', ?e ''b'']) ''a'')"
  let ?l' = "ClearFindMap (entry_update 0 (\<lambda>d. d\<lparr>de_name := ''c''\<rparr>) ?l)"
  have l: "listing_reachable libfz_std ?l"
    by (rule listing_reachable.op [OF listing_reachable.op [OF listing_reachable.start listing_op.assign] listing_op.find_case])
  have "dl_searchmap_case ?l \<noteq> None" by code_simp
  then have l': "listing_reachable libfz_std ?l'" by (intro listing_reachable.rename [OF l]) simp
  have names: "map de_name (dl_entries ?l) = [''a'', ''B'', ''b'']" "map de_name (dl_entries ?l') = [''c'', ''B'', ''b'']"
    "find_idx (\<lambda>e. de_name e = ''a'') (dl_entries ?l) = Some 0" "find_idx (\<lambda>e. de_name e = ''c'') (dl_entries ?l') = Some 0"
    "find_idx (\<lambda>e. de_name e = ''a'') (dl_entries ?l') = None" by code_simp+
  have low: "\<not> list_all (\<lambda>e. fz_str_tolower libfz_std (de_name e) \<noteq> fz_str_tolower libfz_std ''B'') (dl_entries ?l')" by code_simp
  note search = find_file_linear_search [OF libfz_std_laws(6) listing_reachable_renamed]
  have "fst (FindFile_CmpCase libfz_std ?l ''a'') = Some 0"
    using search [OF l, of "''a''"] names(1,3) by simp
  moreover have "fst (FindFile_CmpCase libfz_std ?l' ''a'') = None" "fst (FindFile_CmpCase libfz_std ?l' ''c'') = Some 0"
    using search [OF l', of "''a''"] search [OF l', of "''c''"] names(2,4,5) by simp_all
  moreover have "fst (FindFile_CmpNoCase libfz_std ?l' ''B'') \<noteq> None"
  proof -
    obtain e where "e \<in> set (dl_entries ?l')" "fz_str_tolower libfz_std (de_name e) = fz_str_tolower libfz_std ''B''"
      using low unfolding list_all_iff by blast
    then have "fz_str_tolower libfz_std ''B'' \<in> (\<lambda>e. fz_str_tolower libfz_std (de_name e)) ` set (dl_entries ?l')"
      by (intro image_eqI [of _ _ e]) simp_all
    then show ?thesis using search [OF l', of "''B''"] l' by (metis (no_types, lifting) option.simps(4))
  qed
  ultimately show ?thesis unfolding Let_def by blast
qed

text \<open>Two remarks on the code.  Equality of entries is not symmetric: a missing date on the left
  is never compared.  \<open>ClearFindMap\<close> keeps the map of lower-cased names when only that one
  exists, so that a search after renaming an entry finds it under its old name.\<close>

lemma direntry_eq_not_symmetric:
  "let a = CDirentry_default; b = CDirentry_default\<lparr>de_time := Some (0, acc_days)\<rparr>
   in direntry_eq a b \<and> \<not> direntry_eq b a"
  by code_simp

lemma ClearFindMap_keeps_stale_map:
  "let e = CDirentry_default\<lparr>de_name := ''a''\<rparr>;
       l = snd (FindFile_CmpNoCase libfz_std (Assign CDirectoryListing_default [e]) ''a'');
       l' = ClearFindMap (entry_update 0 (\<lambda>e. e\<lparr>de_name := ''b''\<rparr>) l)
   in fst (FindFile_CmpNoCase libfz_std l' ''a'') = Some 0 \<and> fst (FindFile_CmpNoCase libfz_std l' ''b'') = None"
  by code_simp

end
