(* ===== verification/Dir_Cache_Invariant.thy ===== *)
theory Dir_Cache_Invariant
  imports Dir_Cache_Update Dir_Listing_Props "HOL-Library.Multiset"
begin

text \<open>
  The invariant of the directory cache.  Addresses of servers are distinct and no two entries of
  the server list have the same content; the listings of a server are sorted by path and their
  search maps are right; the nodes of the list of recently used entries are, as a multiset,
  exactly the nodes that the cached listings point to; the file count is the sum of the sizes.
\<close>

subsection \<open>Cached listings\<close>

text \<open>\<open>ClearFindMap\<close> does nothing for a listing with only the map of lower-cased names.  The cache
  builds that map only after the other one, so the listings in it never are like that unless they
  were stored so.\<close>

definition maps_paired :: "CDirectoryListing \<Rightarrow> bool" where
  "maps_paired l \<longleftrightarrow> dl_searchmap_case l \<noteq> None \<or> dl_searchmap_nocase l = None"

definition cached_ok :: "libfz \<Rightarrow> CDirectoryListing \<Rightarrow> bool" where
  "cached_ok L l \<longleftrightarrow> listing_ok L l \<and> maps_paired l"

lemma cached_ok_or_flags [cache_simps]: "cached_ok L (or_flags f l) = cached_ok L l"
  by (simp add: cached_ok_def maps_paired_def cache_simps)

lemma cached_ok_drop [cache_simps]: "cached_ok L (drop_searchmaps l)"
  by (simp add: cached_ok_def maps_paired_def cache_simps)

lemma cached_ok_Append: "cached_ok L l \<Longrightarrow> cached_ok L (Append l e)"
  by (simp add: cached_ok_def listing_ok_Append) (simp add: maps_paired_def Append_def)

lemma cached_ok_RemoveEntry: "cached_ok L l \<Longrightarrow> cached_ok L (snd (RemoveEntry l i))"
  by (simp add: cached_ok_def listing_ok_RemoveEntry) (simp add: maps_paired_def RemoveEntry_def Let_def)

lemma cached_ok_names:
  assumes "map de_name ds = map de_name (dl_entries l)" "cached_ok L l"
  shows "cached_ok L (l\<lparr>dl_entries := ds\<rparr>)"
  using assms(2) searchmap_ok_names [OF assms(1)] by (simp add: cached_ok_def listing_ok_def maps_paired_def)

lemma cached_ok_update:
  assumes "cached_ok L l" "de_name (f (dl_entries l ! i)) = de_name (dl_entries l ! i)"
  shows "cached_ok L (entry_update i f l)"
  unfolding entry_update_def by (rule cached_ok_names [OF map_update_same [where g = de_name and f = f, OF assms(2)] assms(1)])

lemma cached_ok_ClearFindMap:
  assumes "maps_paired l"
  shows "cached_ok L (ClearFindMap l)"
  using listing_ok_ClearFindMap [of l L] assms
  by (auto simp: cached_ok_def maps_paired_def ClearFindMap_def)

lemma FindFile_cached_ok:
  assumes "multimap_law L" "cached_ok L l"
  shows "cached_ok L (snd (FindFile_CmpCase L l name))"
    and "cached_ok L (snd (FindFile_CmpNoCase L (snd (FindFile_CmpCase L l name)) name'))"
proof -
  let ?l1 = "snd (FindFile_CmpCase L l name)"
  have ok: "listing_ok L l" using assms(2) by (simp add: cached_ok_def)
  note ok1 = FindFile_CmpCase_ok(1) [OF assms(1) ok, of name]
  have "snd (find_in_map L f n es m) \<noteq> None" for f n es m
    by (simp add: find_in_map_def Let_def split: option.split prod.split)
  then have maps: "if dl_entries l = [] then ?l1 = l else dl_searchmap_case ?l1 \<noteq> None"
    by (auto simp: FindFile_CmpCase_def split: prod.split) (metis option.distinct(1) snd_conv)
  then show "cached_ok L ?l1" using ok1 assms(2) by (auto simp: cached_ok_def maps_paired_def split: if_splits)
  have "if dl_entries l = [] then snd (FindFile_CmpNoCase L ?l1 name') = ?l1
      else dl_searchmap_case (snd (FindFile_CmpNoCase L ?l1 name')) = dl_searchmap_case ?l1"
    by (auto simp: FindFile_CmpNoCase_def split: prod.split)
  then show "cached_ok L (snd (FindFile_CmpNoCase L ?l1 name'))"
    using maps assms(2) FindFile_CmpNoCase_ok(1) [OF assms(1) ok1, of name']
    by (auto simp: cached_ok_def maps_paired_def split: if_splits)
qed

subsection \<open>The parts of the invariant\<close>

definition lru_node :: "nat \<Rightarrow> CCacheEntry \<Rightarrow> nat \<times> nat \<times> CServerPath" where
  "lru_node sid e = (the (ce_lruIt e), sid, ce_path e)"

definition server_nodes :: "CServerEntry \<Rightarrow> (nat \<times> nat \<times> CServerPath) multiset" where
  "server_nodes se = mset (map (lru_node (se_id se)) (se_cacheList se))"

definition server_files :: "CServerEntry \<Rightarrow> int" where
  "server_files se = sum_list (map ce_size (se_cacheList se))"

definition entry_ok :: "libfz \<Rightarrow> CCacheEntry \<Rightarrow> bool" where
  "entry_ok L e \<longleftrightarrow> ce_lruIt e \<noteq> None \<and> path_key_ok (ce_path e) \<and> cached_ok L (ce_listing e)"

definition server_ok :: "libfz \<Rightarrow> CServerEntry \<Rightarrow> bool" where
  "server_ok L se \<longleftrightarrow> sorted_keys path_less ce_path (se_cacheList se) \<and> (\<forall>e \<in> set (se_cacheList se). entry_ok L e)"

definition servers_ok :: "libfz \<Rightarrow> CServerEntry list \<Rightarrow> nat \<Rightarrow> bool" where
  "servers_ok L ses next \<longleftrightarrow>
     distinct (map se_id ses) \<and> (\<forall>se \<in> set ses. se_id se < next \<and> server_ok L se) \<and>
     sorted_wrt (\<lambda>a b. \<not> SameContent (se_server a) (se_server b)) ses"

definition lru_ok :: "tLruList \<Rightarrow> nat \<Rightarrow> (nat \<times> nat \<times> CServerPath) multiset \<Rightarrow> bool" where
  "lru_ok lru next M \<longleftrightarrow> mset lru = M \<and> distinct (map fst lru) \<and> (\<forall>x \<in> set lru. fst x < next)"

definition cache_ok :: "libfz \<Rightarrow> CDirectoryCache \<Rightarrow> bool" where
  "cache_ok L c \<longleftrightarrow>
     servers_ok L (dc_serverList c) (dc_next c) \<and>
     lru_ok (dc_lru c) (dc_next c) (sum_list (map server_nodes (dc_serverList c))) \<and>
     dc_totalFileCount c = sum_list (map server_files (dc_serverList c))"

lemma cache_ok_new [cache_simps]: "cache_ok L CDirectoryCache_new"
  by (simp add: cache_ok_def servers_ok_def lru_ok_def CDirectoryCache_new_def)

lemma server_ok_nth: "cache_ok L c \<Longrightarrow> i < length (dc_serverList c) \<Longrightarrow> server_ok L (dc_serverList c ! i)"
  by (simp add: cache_ok_def servers_ok_def)

lemma entry_ok_nth:
  "cache_ok L c \<Longrightarrow> i < length (dc_serverList c) \<Longrightarrow> pos < length (cacheList c i) \<Longrightarrow> entry_ok L (cacheList c i ! pos)"
  using server_ok_nth [of L c i] by (simp add: server_ok_def cacheList_def)

lemma sum_list_nth_split:
  fixes f :: "'a \<Rightarrow> 'b::comm_monoid_add"
  assumes "i < length xs"
  shows "sum_list (map f xs) = f (xs ! i) + sum_list (map f (remove_at i xs))"
    and "sum_list (map f (xs[i := y])) = f y + sum_list (map f (remove_at i xs))"
proof -
  have "xs = take i xs @ xs ! i # drop (Suc i) xs" using assms by (rule id_take_nth_drop)
  then have "sum_list (map f xs) = sum_list (map f (take i xs @ xs ! i # drop (Suc i) xs))" by simp
  then show "sum_list (map f xs) = f (xs ! i) + sum_list (map f (remove_at i xs))"
    by (simp add: remove_at_def ac_simps del: append_take_drop_id)
  show "sum_list (map f (xs[i := y])) = f y + sum_list (map f (remove_at i xs))"
    using assms by (simp add: upd_conv_take_nth_drop remove_at_def ac_simps)
qed

lemma set_remove_at: "set (remove_at i xs) \<subseteq> set xs"
  by (auto simp: remove_at_def dest: in_set_takeD in_set_dropD)

lemma drop_Suc_subset: "set (drop (Suc i) xs) \<subseteq> set (drop i xs)"
  by (rule set_drop_subset_set_drop) simp

lemma sorted_wrt_remove_at: "sorted_wrt R xs \<Longrightarrow> sorted_wrt R (remove_at i xs)"
proof -
  assume "sorted_wrt R xs"
  then have s: "sorted_wrt R (take i xs @ drop i xs)" by simp
  have "sorted_wrt R (drop (Suc i) xs)" using sorted_wrt_drop [OF \<open>sorted_wrt R xs\<close>] .
  then show ?thesis using s drop_Suc_subset [of i xs]
    unfolding remove_at_def sorted_wrt_append by blast
qed

lemma distinct_remove_at: "distinct (map f xs) \<Longrightarrow> distinct (map f (remove_at i xs))"
proof -
  have "distinct (map f ys) = sorted_wrt (\<lambda>a b. f a \<noteq> f b) ys" for ys
    by (induction ys) auto
  then show "distinct (map f xs) \<Longrightarrow> ?thesis" by (simp add: sorted_wrt_remove_at)
qed

subsection \<open>The list of recently used entries\<close>

lemma mset_filter_key:
  assumes "distinct (map fst xs)" "(n, y) \<in> set xs"
  shows "mset (filter (\<lambda>x. fst x \<noteq> n) xs) = mset xs - {#(n, y)#}"
  using assms
proof (induction xs)
  case (Cons x xs)
  show ?case
  proof (cases "x = (n, y)")
    case True
    then have "filter (\<lambda>x. fst x \<noteq> n) xs = xs" using Cons.prems(1) by (intro filter_True) force
    then show ?thesis using True by simp
  next
    case False
    then have mem: "(n, y) \<in> set xs" using Cons.prems(2) by simp
    then have "n \<in> fst ` set xs" by force
    then have "fst x \<noteq> n" using Cons.prems(1) by auto
    with mem show ?thesis using Cons False by simp
  qed
qed simp

lemma lru_ok_touch:
  assumes "lru_ok lru next M" "(n, y) \<in># M"
  shows "lru_ok (filter (\<lambda>x. fst x \<noteq> n) lru @ [(n, y)]) next M"
proof -
  have "(n, y) \<in> set lru" using assms by (auto simp: lru_ok_def)
  then show ?thesis
    using assms mset_filter_key [of lru n y] by (auto simp: lru_ok_def distinct_map_filter)
qed

lemma lru_ok_unlink:
  assumes "lru_ok lru next M" "(n, y) \<in># M"
  shows "lru_ok (filter (\<lambda>x. fst x \<noteq> n) lru) next (M - {#(n, y)#})"
proof -
  have "(n, y) \<in> set lru" using assms by (auto simp: lru_ok_def)
  then show ?thesis
    using assms mset_filter_key [of lru n y] by (auto simp: lru_ok_def distinct_map_filter)
qed

lemma lru_ok_fresh:
  assumes "lru_ok lru next M"
  shows "lru_ok (lru @ [(next, y)]) (Suc next) (M + {#(next, y)#})"
  using assms by (force simp: lru_ok_def)

lemma UpdateLru_linked:
  assumes "ce_lruIt e \<noteq> None" "lru_node sid e \<in># M" "lru_ok (dc_lru c) (dc_next c) M"
  obtains lru where "UpdateLru sid e c = (e, c\<lparr>dc_lru := lru\<rparr>)" "lru_ok lru (dc_next c) M"
proof -
  obtain n where "ce_lruIt e = Some n" using assms(1) by auto
  then show ?thesis using that lru_ok_touch [OF assms(3), of n "(sid, ce_path e)"] assms(2)
    by (simp add: UpdateLru_def lru_node_def)
qed

lemma drop_entry_linked:
  assumes "ce_lruIt e \<noteq> None" "lru_node sid e \<in># M" "lru_ok (dc_lru c) (dc_next c) M"
  shows "lru_ok (dc_lru (drop_entry e c)) (dc_next c) (M - {#lru_node sid e#})"
    and "dc_serverList (drop_entry e c) = dc_serverList c" "dc_next (drop_entry e c) = dc_next c"
    and "dc_totalFileCount (drop_entry e c) = dc_totalFileCount c - ce_size e"
proof -
  obtain n where "ce_lruIt e = Some n" using assms(1) by auto
  then show "lru_ok (dc_lru (drop_entry e c)) (dc_next c) (M - {#lru_node sid e#})"
    and "dc_serverList (drop_entry e c) = dc_serverList c" "dc_next (drop_entry e c) = dc_next c"
    and "dc_totalFileCount (drop_entry e c) = dc_totalFileCount c - ce_size e"
    using lru_ok_unlink [OF assms(3), of n "(sid, ce_path e)"] assms(2)
    by (simp_all add: drop_entry_def unlink_lru_def lru_node_def)
qed

subsection \<open>Replacing the listings of one server\<close>

text \<open>\<open>other_nodes\<close> and \<open>other_files\<close> are those of all servers but one.\<close>

definition other_nodes :: "nat \<Rightarrow> CDirectoryCache \<Rightarrow> (nat \<times> nat \<times> CServerPath) multiset" where
  "other_nodes i c = sum_list (map server_nodes (remove_at i (dc_serverList c)))"

definition other_files :: "nat \<Rightarrow> CDirectoryCache \<Rightarrow> int" where
  "other_files i c = sum_list (map server_files (remove_at i (dc_serverList c)))"

abbreviation server_at :: "CDirectoryCache \<Rightarrow> nat \<Rightarrow> CServerEntry" where
  "server_at c i \<equiv> dc_serverList c ! i"

lemma cache_ok_split:
  assumes "cache_ok L c" "i < length (dc_serverList c)"
  shows "lru_ok (dc_lru c) (dc_next c) (server_nodes (server_at c i) + other_nodes i c)"
    and "dc_totalFileCount c = server_files (server_at c i) + other_files i c"
  using assms by (simp_all add: cache_ok_def other_nodes_def other_files_def sum_list_nth_split(1) [OF assms(2)])

lemma servers_ok_update:
  assumes "servers_ok L ses next" "i < length ses" "server_ok L se" "se_id se = se_id (ses ! i)"
    "se_server se = se_server (ses ! i)" "next \<le> next'"
  shows "servers_ok L (ses[i := se]) next'"
proof -
  have "map se_id (ses[i := se]) = map se_id ses" "map se_server (ses[i := se]) = map se_server ses"
    using assms(2,4,5) by (simp_all add: map_update list_update_same_conv)
  moreover have sw: "sorted_wrt (\<lambda>a b. \<not> SameContent (se_server a) (se_server b)) zs
      = sorted_wrt (\<lambda>a b. \<not> SameContent a b) (map se_server zs)" for zs by (simp add: sorted_wrt_map)
  ultimately have "distinct (map se_id (ses[i := se]))"
    "sorted_wrt (\<lambda>a b. \<not> SameContent (se_server a) (se_server b)) (ses[i := se])"
    using assms(1) unfolding servers_ok_def sw by simp_all
  moreover have "se_id x < next' \<and> server_ok L x" if x: "x \<in> set (ses[i := se])" for x
  proof -
    have "x = se \<or> x \<in> set ses" using set_update_subset_insert [of ses i se] x by blast
    then show ?thesis using assms nth_mem [OF assms(2)] unfolding servers_ok_def by fastforce
  qed
  ultimately show ?thesis using assms(1) by (simp add: servers_ok_def)
qed

lemma cache_ok_put:
  assumes "cache_ok L c" "i < length (dc_serverList c)"
    and "dc_serverList c' = dc_serverList c" "dc_next c \<le> dc_next c'"
    and "sorted_keys path_less ce_path xs" "\<forall>e \<in> set xs. entry_ok L e"
    and "lru_ok (dc_lru c') (dc_next c') (mset (map (lru_node (se_id (server_at c i))) xs) + other_nodes i c)"
    and "dc_totalFileCount c' = sum_list (map ce_size xs) + other_files i c"
  shows "cache_ok L (put_cacheList i xs c')"
proof -
  let ?se = "(server_at c i)\<lparr>se_cacheList := xs\<rparr>"
  have "servers_ok L ((dc_serverList c)[i := ?se]) (dc_next c')"
    using assms(1,4,5,6) by (intro servers_ok_update [OF _ assms(2)]) (simp_all add: cache_ok_def server_ok_def)
  then show ?thesis
    using assms(3,7,8) sum_list_nth_split(2) [OF assms(2), of server_nodes ?se]
      sum_list_nth_split(2) [OF assms(2), of server_files ?se]
    by (simp add: cache_ok_def put_cacheList_def other_nodes_def other_files_def
        server_nodes_def server_files_def)
qed

lemma put_cacheList_same: "i < length (dc_serverList c) \<Longrightarrow> put_cacheList i (cacheList c i) c = c"
proof -
  have "se\<lparr>se_cacheList := se_cacheList se\<rparr> = se" for se :: CServerEntry by simp
  then show "?thesis" by (simp add: put_cacheList_def cacheList_def list_update_id)
qed

subsection \<open>Looking up\<close>

lemma cache_ok_lru:
  assumes "cache_ok L c" "lru_ok lru (dc_next c) (sum_list (map server_nodes (dc_serverList c)))"
  shows "cache_ok L (c\<lparr>dc_lru := lru\<rparr>)"
  using assms by (simp add: cache_ok_def)

lemma lru_node_in:
  assumes "i < length (dc_serverList c)" "e \<in> set (cacheList c i)"
  shows "lru_node (se_id (server_at c i)) e \<in># server_nodes (server_at c i)"
  using assms by (auto simp: server_nodes_def cacheList_def)

lemma touch_ok:
  assumes "cache_ok L c" "i < length (dc_serverList c)" "pos < length (cacheList c i)"
  obtains lru where "touch i pos c = c\<lparr>dc_lru := lru\<rparr>" "cache_ok L (c\<lparr>dc_lru := lru\<rparr>)"
proof -
  let ?e = "cacheList c i ! pos" and ?M = "sum_list (map server_nodes (dc_serverList c))"
  have "ce_lruIt ?e \<noteq> None" using entry_ok_nth [OF assms] by (simp add: entry_ok_def)
  moreover have "lru_node (se_id (server_at c i)) ?e \<in># ?M"
    using lru_node_in [OF assms(2), of ?e] assms(3) sum_list_nth_split(1) [OF assms(2), of server_nodes] by simp
  moreover have "lru_ok (dc_lru c) (dc_next c) ?M" using assms(1) by (simp add: cache_ok_def)
  ultimately obtain lru where lru: "UpdateLru (se_id (server_at c i)) ?e c = (?e, c\<lparr>dc_lru := lru\<rparr>)"
    "lru_ok lru (dc_next c) ?M" by (rule UpdateLru_linked)
  have "touch i pos c = put_cacheList i (cacheList (c\<lparr>dc_lru := lru\<rparr>) i) (c\<lparr>dc_lru := lru\<rparr>)"
    using lru(1) by (simp add: touch_def put_entry_def cacheList_def)
  then have "touch i pos c = c\<lparr>dc_lru := lru\<rparr>"
    using put_cacheList_same [of i "c\<lparr>dc_lru := lru\<rparr>"] assms(2) by simp
  then show ?thesis using that cache_ok_lru [OF assms(1) lru(2)] by blast
qed

text \<open>A lookup changes nothing but the order of use.\<close>

lemma Lookup_iter_ok:
  assumes "cache_ok L c" "i < length (dc_serverList c)" "Lookup_iter now c i p a = (r, pos, c1)"
  obtains lru where "c1 = c\<lparr>dc_lru := lru\<rparr>" "cache_ok L c1"
    "r \<noteq> None \<Longrightarrow> pos < length (cacheList c i) \<and> ce_path (cacheList c i ! pos) = p"
    "pos = length (before_bound path_less ce_path p (cacheList c i))"
proof (cases "pos < length (cacheList c i) \<and> ce_path (cacheList c i ! pos) = p")
  case True
  have pos: "pos = length (before_bound path_less ce_path p (cacheList c i))"
    using assms(3) by (auto simp: Lookup_iter_def Let_def split: if_splits)
  have "pos < length (cacheList c i)" using True ..
  from touch_ok [OF assms(1,2) this] obtain lru
    where lru: "touch i pos c = c\<lparr>dc_lru := lru\<rparr>" "cache_ok L (c\<lparr>dc_lru := lru\<rparr>)" .
  have "c1 = touch i pos c"
    using assms(3) True by (auto simp: Lookup_iter_def Let_def pos [symmetric] split: if_splits)
  then show ?thesis using that [of lru] lru True pos by simp
next
  case False
  then have "c1 = c" "r = None" "pos = length (before_bound path_less ce_path p (cacheList c i))"
    using assms(3) by (auto simp: Lookup_iter_def Let_def split: if_splits)
  then show ?thesis using that [of "dc_lru c"] assms(1) by simp
qed

lemma cacheList_lru [simp]: "cacheList (c\<lparr>dc_lru := lru\<rparr>) i = cacheList c i"
  by (simp add: cacheList_def)

lemma GetServerEntry_less: "GetServerEntry c server = Some i \<Longrightarrow> i < length (dc_serverList c)"
  by (simp add: GetServerEntry_def find_idx_less)

text \<open>Replacing a listing by one with the same path and as many files.\<close>

lemma cacheList_put:
  "i < length (dc_serverList c) \<Longrightarrow> cacheList (put_cacheList i xs c) i = xs"
  by (simp add: cacheList_def put_cacheList_def)

lemma put_listing_ok:
  assumes "cache_ok L c" "i < length (dc_serverList c)" "pos < length (cacheList c i)"
    and "dl_path l = ce_path (cacheList c i ! pos)" "cached_ok L l"
    and "listing_size l = listing_size (ce_listing (cacheList c i ! pos))"
  shows "cache_ok L (put_listing i pos l c)"
proof -
  let ?e = "cacheList c i ! pos" and ?e' = "(cacheList c i ! pos)\<lparr>ce_listing := l\<rparr>"
  let ?xs = "(cacheList c i)[pos := ?e']"
  have same: "map g ?xs = map g (cacheList c i)" if "g ?e' = g ?e" for g :: "CCacheEntry \<Rightarrow> 'b"
    using that assms(3) by (simp add: map_update list_update_same_conv)
  have "ce_path ?e' = ce_path ?e" "ce_size ?e' = ce_size ?e"
    using assms(4,6) by (simp_all add: ce_path_def ce_size_def)
  then have eqs: "map ce_path ?xs = map ce_path (cacheList c i)" "map ce_size ?xs = map ce_size (cacheList c i)"
    "map (lru_node sid) ?xs = map (lru_node sid) (cacheList c i)" for sid
    by (simp_all add: same lru_node_def)
  have ok: "entry_ok L e" if "e \<in> set ?xs" for e
  proof -
    have "e = ?e' \<or> e \<in> set (cacheList c i)" using set_update_subset_insert that by fastforce
    then show ?thesis using entry_ok_nth [OF assms(1-3)] server_ok_nth [OF assms(1,2)] assms(4,5)
      by (auto simp: entry_ok_def server_ok_def cacheList_def ce_path_def)
  qed
  note split = cache_ok_split [OF assms(1,2)]
  have "cache_ok L (put_cacheList i ?xs c)"
  proof (rule cache_ok_put [OF assms(1,2)])
    show "sorted_keys path_less ce_path ?xs"
      using server_ok_nth [OF assms(1,2)] eqs(1)
      by (metis cacheList_def server_ok_def sorted_keys_map)
    show "lru_ok (dc_lru c) (dc_next c) (mset (map (lru_node (se_id (server_at c i))) ?xs) + other_nodes i c)"
      unfolding eqs using split(1) by (simp add: server_nodes_def cacheList_def)
    show "dc_totalFileCount c = sum_list (map ce_size ?xs) + other_files i c"
      unfolding eqs using split(2) by (simp add: server_files_def cacheList_def)
  qed (use ok in simp_all)
  then show ?thesis by (simp add: put_listing_def put_entry_def)
qed

end
