(* ===== verification/Dir_Cache_Loops.thy ===== *)
theory Dir_Cache_Loops
  imports Dir_Cache_Invariant
begin

text \<open>
  The loops of the directory cache keep its invariant: the loops that update listings in place,
  because each body keeps the path and the node of an entry and accounts for the files it adds or
  removes, and the loops that erase entries.
\<close>

subsection \<open>Loops that update in place\<close>

text \<open>What a loop body must do with an entry whose node is among \<open>M\<close>.\<close>

definition body_ok ::
  "libfz \<Rightarrow> nat \<Rightarrow> (CCacheEntry \<Rightarrow> CDirectoryCache \<times> 's \<Rightarrow> CCacheEntry \<times> CDirectoryCache \<times> 's) \<Rightarrow> bool" where
  "body_ok L sid body \<longleftrightarrow>
     (\<forall>e c s e' c' s' M. body e (c, s) = (e', c', s') \<longrightarrow> entry_ok L e \<longrightarrow> lru_node sid e \<in># M \<longrightarrow>
        lru_ok (dc_lru c) (dc_next c) M \<longrightarrow>
        entry_ok L e' \<and> lru_node sid e' = lru_node sid e \<and> lru_ok (dc_lru c') (dc_next c) M \<and>
        dc_serverList c' = dc_serverList c \<and> dc_next c' = dc_next c \<and>
        dc_totalFileCount c' - dc_totalFileCount c = ce_size e' - ce_size e)"

lemma body_okD:
  assumes "body_ok L sid body" "body e (c, s) = (e', c', s')" "entry_ok L e" "lru_node sid e \<in># M"
    "lru_ok (dc_lru c) (dc_next c) M"
  shows "entry_ok L e'" "lru_node sid e' = lru_node sid e" "lru_ok (dc_lru c') (dc_next c) M"
    "dc_serverList c' = dc_serverList c" "dc_next c' = dc_next c"
    "dc_totalFileCount c' - dc_totalFileCount c = ce_size e' - ce_size e"
  using assms unfolding body_ok_def by blast+

lemma map_state_ok:
  assumes "body_ok L sid body" "map_state body xs (c, s) = (ys, c', s')"
    and "\<forall>e \<in> set xs. entry_ok L e \<and> lru_node sid e \<in># M" "lru_ok (dc_lru c) (dc_next c) M"
  shows "(\<forall>e \<in> set ys. entry_ok L e) \<and> map (lru_node sid) ys = map (lru_node sid) xs \<and>
    lru_ok (dc_lru c') (dc_next c) M \<and> dc_serverList c' = dc_serverList c \<and> dc_next c' = dc_next c \<and>
    dc_totalFileCount c' - dc_totalFileCount c = sum_list (map ce_size ys) - sum_list (map ce_size xs)"
  using assms(2-)
proof (induction xs arbitrary: c s ys)
  case (Cons x xs)
  obtain y c1 s1 where y: "body x (c, s) = (y, c1, s1)" by (metis surj_pair)
  obtain zs where zs: "map_state body xs (c1, s1) = (zs, c', s')" "ys = y # zs"
    using Cons.prems(1) y by (auto split: prod.splits)
  have x: "entry_ok L x" "lru_node sid x \<in># M" and xs: "\<forall>e \<in> set xs. entry_ok L e \<and> lru_node sid e \<in># M"
    using Cons.prems(2) by simp_all
  note step = body_okD [OF assms(1) y x Cons.prems(3)]
  have "lru_ok (dc_lru c1) (dc_next c1) M" using step by simp
  note rest = Cons.IH [OF zs(1) xs this]
  show ?case using step rest zs(2) by simp
qed simp

lemma for_entries_ok:
  assumes "cache_ok L c" "i < length (dc_serverList c)" "body_ok L (se_id (server_at c i)) (body (se_id (server_at c i)))"
  shows "cache_ok L (fst (for_entries body i (c, s)))"
    and "length (dc_serverList (fst (for_entries body i (c, s)))) = length (dc_serverList c)"
    and "map se_server (dc_serverList (fst (for_entries body i (c, s)))) = map se_server (dc_serverList c)"
    and "map se_id (dc_serverList (fst (for_entries body i (c, s)))) = map se_id (dc_serverList c)"
    and "map ce_path (cacheList (fst (for_entries body i (c, s))) i) = map ce_path (cacheList c i)"
proof -
  let ?sid = "se_id (server_at c i)"
  obtain ys c' s' where run: "map_state (body ?sid) (se_cacheList (server_at c i)) (c, s) = (ys, c', s')"
    by (metis surj_pair)
  have res: "fst (for_entries body i (c, s)) = put_cacheList i ys c'"
    using run by (simp add: for_entries_def Let_def)
  note split = cache_ok_split [OF assms(1,2)]
  have xs: "\<forall>e \<in> set (se_cacheList (server_at c i)). entry_ok L e \<and>
      lru_node ?sid e \<in># server_nodes (server_at c i) + other_nodes i c"
    using server_ok_nth [OF assms(1,2)] lru_node_in [OF assms(2)] by (auto simp: server_ok_def cacheList_def)
  note ok = map_state_ok [OF assms(3) run xs split(1)]
  have paths: "map ce_path ys = map ce_path (se_cacheList (server_at c i))"
  proof -
    have "map (snd \<circ> snd) (map (lru_node ?sid) ys) = map (snd \<circ> snd) (map (lru_node ?sid) (se_cacheList (server_at c i)))"
      using ok by simp
    then show ?thesis by (simp add: lru_node_def comp_def)
  qed
  have sorted: "sorted_keys path_less ce_path ys"
    using server_ok_nth [OF assms(1,2)] sorted_keys_map [of ce_path "\<lambda>_. ys" "se_cacheList (server_at c i)"] paths
    by (simp add: server_ok_def)
  show "cache_ok L (fst (for_entries body i (c, s)))"
    unfolding res
  proof (rule cache_ok_put [OF assms(1,2) _ _ sorted])
    show "lru_ok (dc_lru c') (dc_next c') (mset (map (lru_node (se_id (server_at c i))) ys) + other_nodes i c)"
      using ok by (simp add: server_nodes_def)
    show "dc_totalFileCount c' = sum_list (map ce_size ys) + other_files i c"
      using ok split(2) by (simp add: server_files_def)
  qed (use ok in simp_all)
  show "length (dc_serverList (fst (for_entries body i (c, s)))) = length (dc_serverList c)"
    unfolding res using ok by (simp add: put_cacheList_def)
  show "map se_server (dc_serverList (fst (for_entries body i (c, s)))) = map se_server (dc_serverList c)"
    "map se_id (dc_serverList (fst (for_entries body i (c, s)))) = map se_id (dc_serverList c)"
    unfolding res using ok by (simp_all add: put_cacheList_def map_update list_update_same_conv assms(2))
  show "map ce_path (cacheList (fst (for_entries body i (c, s))) i) = map ce_path (cacheList c i)"
    unfolding res using ok paths assms(2) cacheList_put [of i c' ys] by (simp add: cacheList_def)
qed

text \<open>A body that refreshes the place of the entry and then replaces its listing.\<close>

lemma entry_ok_update:
  assumes "entry_ok L e" "dl_path (f (ce_listing e)) = dl_path (ce_listing e)" "cached_ok L (f (ce_listing e))"
  shows "entry_ok L (update_listing f now e)" "lru_node sid (update_listing f now e) = lru_node sid e"
    "ce_size (update_listing f now e) = int (listing_size (f (ce_listing e)))"
  using assms by (simp_all add: entry_ok_def update_listing_def ce_path_def lru_node_def ce_size_def)

lemma entry_listing_ok: "entry_ok L e \<Longrightarrow> cached_ok L (ce_listing e)"
  by (simp add: entry_ok_def)

lemma mark_where_simps [simp]:
  "dl_path (mark_where P l) = dl_path l" "listing_size (mark_where P l) = listing_size l"
  "map de_name (dl_entries (mark_where P l)) = map de_name (dl_entries l)"
  "dl_searchmap_case (mark_where P l) = dl_searchmap_case l" "dl_searchmap_nocase (mark_where P l) = dl_searchmap_nocase l"
  by (simp_all add: mark_where_def listing_size_def)

lemma cached_ok_mark_where [cache_simps]: "cached_ok L (mark_where P l) = cached_ok L l"
  using searchmap_ok_names [OF mark_where_simps(3) [of P l]] by (simp add: cached_ok_def listing_ok_def maps_paired_def)

lemma listing_size_or_flags [simp]: "listing_size (or_flags f l) = listing_size l"
  by (simp add: listing_size_def)

lemma mark_until_names: "mark_until L filename ds = (m, ds') \<Longrightarrow> map de_name ds' = map de_name ds"
  by (induction ds arbitrary: m ds') (auto split: if_splits prod.splits)

lemma Append_simps:
  "dl_path (Append l d) = dl_path l" "listing_size (Append l d) = Suc (listing_size l)"
  by (simp_all add: Append_def listing_size_def)

lemma update_file_listing_ok:
  assumes "update_file_listing L filename mayCreate type sz og l = (l', grown)" "cached_ok L l"
  shows "cached_ok L l'" "dl_path l' = dl_path l" "int (listing_size l') = int (listing_size l) + grown"
proof -
  obtain m ds where md: "mark_until L filename (dl_entries l) = (m, ds)" by fastforce
  then have names: "map de_name ds = map de_name (dl_entries l)" by (rule mark_until_names)
  let ?l = "l\<lparr>dl_entries := ds\<rparr>"
  have ok: "cached_ok L ?l" by (rule cached_ok_names [OF names assms(2)])
  have len: "length ds = listing_size l" using map_eq_imp_length_eq [OF names] by (simp add: listing_size_def)
  have "(\<exists>f. l' = or_flags f ?l \<and> grown = 0) \<or> (\<exists>f d. l' = Append (or_flags f ?l) d \<and> grown = 1)"
    using assms(1) md by (auto simp: update_file_listing_def Let_def split: option.splits if_splits)
  then show "cached_ok L l'" "dl_path l' = dl_path l" "int (listing_size l') = int (listing_size l) + grown"
    using ok len cached_ok_Append [of L "or_flags _ ?l"] cached_ok_or_flags [of L _ ?l]
    by (auto simp: Append_simps) (simp_all add: listing_size_def)
qed

lemma RemoveEntry_simps [simp]:
  "dl_path (snd (RemoveEntry l i)) = dl_path l"
  "i < listing_size l \<Longrightarrow> Suc (listing_size (snd (RemoveEntry l i))) = listing_size l"
  by (simp_all add: RemoveEntry_def Let_def listing_size_def remove_at_def)

lemma remove_file_listing_ok:
  assumes "remove_file_listing L filename l = (l', shrunk)" "cached_ok L l"
  shows "cached_ok L l'" "dl_path l' = dl_path l" "int (listing_size l') = int (listing_size l) - shrunk"
proof -
  have "(\<exists>i < listing_size l. l' = snd (RemoveEntry l i) \<and> shrunk = 1) \<or>
      (\<exists>f P. l' = or_flags f (mark_where P l) \<and> shrunk = 0)"
    using assms(1) by (auto simp: remove_file_listing_def listing_size_def split: option.splits dest: find_idx_less)
  then show "cached_ok L l'" "dl_path l' = dl_path l" "int (listing_size l') = int (listing_size l) - shrunk"
    using assms(2) by (auto simp: cache_simps cached_ok_RemoveEntry dest: RemoveEntry_simps(2))
qed

definition refreshed ::
  "libfz \<Rightarrow> nat \<Rightarrow> CCacheEntry \<Rightarrow> CDirectoryCache \<Rightarrow> CCacheEntry \<Rightarrow> CDirectoryCache \<Rightarrow> bool" where
  "refreshed L sid e c e' c' \<longleftrightarrow>
     (\<exists>e1 c1 f now n. (UpdateLru sid e c = (e1, c1) \<or> (e1 = e \<and> c1 = c)) \<and>
        e' = update_listing f now e1 \<and> c' = c1\<lparr>dc_totalFileCount := dc_totalFileCount c1 + n\<rparr> \<and>
        (entry_ok L e1 \<longrightarrow> cached_ok L (f (ce_listing e1)) \<and> dl_path (f (ce_listing e1)) = dl_path (ce_listing e1) \<and>
         int (listing_size (f (ce_listing e1))) = int (listing_size (ce_listing e1)) + n))"

lemma refreshedI:
  assumes "UpdateLru sid e c = (e1, c1) \<or> (e1 = e \<and> c1 = c)"
    and "e' = update_listing f now e1" "c' = c1\<lparr>dc_totalFileCount := dc_totalFileCount c1 + n\<rparr>"
    and "entry_ok L e1 \<Longrightarrow> cached_ok L (f (ce_listing e1))"
    and "entry_ok L e1 \<Longrightarrow> dl_path (f (ce_listing e1)) = dl_path (ce_listing e1)"
    and "entry_ok L e1 \<Longrightarrow> int (listing_size (f (ce_listing e1))) = int (listing_size (ce_listing e1)) + n"
  shows "refreshed L sid e c e' c'"
  using assms unfolding refreshed_def by blast

lemma refreshed_ok:
  assumes "refreshed L sid e c e' c'" "entry_ok L e" "lru_node sid e \<in># M" "lru_ok (dc_lru c) (dc_next c) M"
  shows "entry_ok L e' \<and> lru_node sid e' = lru_node sid e \<and> lru_ok (dc_lru c') (dc_next c) M \<and>
    dc_serverList c' = dc_serverList c \<and> dc_next c' = dc_next c \<and>
    dc_totalFileCount c' - dc_totalFileCount c = ce_size e' - ce_size e"
proof -
  from assms(1) obtain e1 c1 f now n where u: "UpdateLru sid e c = (e1, c1) \<or> (e1 = e \<and> c1 = c)"
    and e': "e' = update_listing f now e1" and c': "c' = c1\<lparr>dc_totalFileCount := dc_totalFileCount c1 + n\<rparr>"
    and f: "entry_ok L e1 \<Longrightarrow> cached_ok L (f (ce_listing e1)) \<and> dl_path (f (ce_listing e1)) = dl_path (ce_listing e1) \<and>
        int (listing_size (f (ce_listing e1))) = int (listing_size (ce_listing e1)) + n"
    unfolding refreshed_def by blast
  have "ce_lruIt e \<noteq> None" using assms(2) by (simp add: entry_ok_def)
  from UpdateLru_linked [OF this assms(3,4)] obtain lru'
    where ul: "UpdateLru sid e c = (e, c\<lparr>dc_lru := lru'\<rparr>)" "lru_ok lru' (dc_next c) M" .
  then have 1: "e1 = e" "lru_ok (dc_lru c1) (dc_next c) M" "dc_serverList c1 = dc_serverList c"
    "dc_next c1 = dc_next c" "dc_totalFileCount c1 = dc_totalFileCount c" using u assms(4) by auto
  have f': "cached_ok L (f (ce_listing e))" "dl_path (f (ce_listing e)) = dl_path (ce_listing e)"
    "int (listing_size (f (ce_listing e))) = int (listing_size (ce_listing e)) + n"
    using f assms(2) unfolding 1(1) by blast+
  show ?thesis
    unfolding e' c' 1(1) using entry_ok_update [of L e f, OF assms(2) f'(2,1)] 1 f'(3) by (simp add: ce_size_def)
qed

lemma refresh_body_ok:
  assumes "\<And>e c s e' c' s'. body e (c, s) = (e', c', s') \<Longrightarrow> (e' = e \<and> c' = c) \<or> refreshed L sid e c e' c'"
  shows "body_ok L sid body"
  unfolding body_ok_def
proof (intro allI impI)
  fix e c s e' c' s' M
  assume run: "body e (c, s) = (e', c', s')" and e: "entry_ok L e" and n: "lru_node sid e \<in># M"
    and lru: "lru_ok (dc_lru c) (dc_next c) M"
  from assms [OF run] show "entry_ok L e' \<and> lru_node sid e' = lru_node sid e \<and> lru_ok (dc_lru c') (dc_next c) M \<and>
        dc_serverList c' = dc_serverList c \<and> dc_next c' = dc_next c \<and>
        dc_totalFileCount c' - dc_totalFileCount c = ce_size e' - ce_size e"
  proof
    assume "e' = e \<and> c' = c"
    then show ?thesis using e lru by simp
  next
    assume "refreshed L sid e c e' c'"
    then show ?thesis by (rule refreshed_ok [OF _ e n lru])
  qed
qed

lemma invalidate_body_ok: "body_ok L sid (invalidate_body L now path filename cmpCase sid)"
proof (rule refresh_body_ok)
  fix e c s e' c' s'
  assume run: "invalidate_body L now path filename cmpCase sid e (c, s) = (e', c', s')"
  obtain e1 c1 where u: "UpdateLru sid e c = (e1, c1)" by fastforce
  let ?f = "\<lambda>l. or_flags unsure_unknown (mark_where (same_name L cmpCase filename) l)"
  have "(e' = e \<and> c' = c) \<or> (e' = update_listing ?f now e1 \<and> c' = c1)"
    using run u by (auto simp: invalidate_body_def Let_def split: if_splits)
  then show "(e' = e \<and> c' = c) \<or> refreshed L sid e c e' c'"
    using u refreshedI [of sid e c e1 c1 e' ?f now c' 0 L] by (auto simp: cache_simps entry_listing_ok)
qed

lemma invalidate_child_body_ok: "body_ok L sid (invalidate_child_body L now path cmpCase sid)"
proof (rule refresh_body_ok)
  fix e c s e' c' s'
  assume run: "invalidate_child_body L now path cmpCase sid e (c, s) = (e', c', s')"
  have "(e' = e \<and> c' = c) \<or> (e' = update_listing (or_flags unsure_unknown) now e \<and> c' = c)"
    using run by (auto simp: invalidate_child_body_def split: if_splits)
  then show "(e' = e \<and> c' = c) \<or> refreshed L sid e c e' c'"
    using refreshedI [of sid e c e c e' "or_flags unsure_unknown" now c' 0 L] by (auto simp: cache_simps entry_listing_ok)
qed

lemma update_file_body_ok: "body_ok L sid (update_file_body L now path filename mayCreate type sz og sid)"
proof (rule refresh_body_ok)
  fix e c s e' c' s'
  assume run: "update_file_body L now path filename mayCreate type sz og sid e (c, s) = (e', c', s')"
  obtain e1 c1 where u: "UpdateLru sid e c = (e1, c1)" by fastforce
  obtain l n where l: "update_file_listing L filename mayCreate type sz og (ce_listing e1) = (l, n)" by fastforce
  have "(e' = e \<and> c' = c) \<or>
      (e' = update_listing (\<lambda>_. l) now e1 \<and> c' = c1\<lparr>dc_totalFileCount := dc_totalFileCount c1 + n\<rparr>)"
    using run u l by (auto simp: update_file_body_def split: if_splits)
  then show "(e' = e \<and> c' = c) \<or> refreshed L sid e c e' c'"
    using u refreshedI [of sid e c e1 c1 e' "\<lambda>_. l" now c' n L] update_file_listing_ok [OF l]
    by (auto simp: entry_listing_ok)
qed

lemma remove_file_body_ok: "body_ok L sid (remove_file_body L now path filename sid)"
proof (rule refresh_body_ok)
  fix e c s e' c' s'
  assume run: "remove_file_body L now path filename sid e (c, s) = (e', c', s')"
  obtain e1 c1 where u: "UpdateLru sid e c = (e1, c1)" by fastforce
  obtain l n where l: "remove_file_listing L filename (ce_listing e1) = (l, n)" by fastforce
  have "(e' = e \<and> c' = c) \<or>
      (e' = update_listing (\<lambda>_. l) now e1 \<and> c' = c1\<lparr>dc_totalFileCount := dc_totalFileCount c1 + - n\<rparr>)"
    using run u l by (auto simp: remove_file_body_def split: if_splits)
  then show "(e' = e \<and> c' = c) \<or> refreshed L sid e c e' c'"
    using u refreshedI [of sid e c e1 c1 e' "\<lambda>_. l" now c' "- n" L] remove_file_listing_ok [OF l]
    by (auto simp: entry_listing_ok)
qed

end
