(* ===== verification/Dir_Cache_Steps.thy ===== *)
theory Dir_Cache_Steps
  imports Dir_Cache_Loops
begin

text \<open>
  Every operation of the directory cache keeps its invariant; \<open>cache_reachable\<close> collects the
  states that sequences of operations lead to.
\<close>

subsection \<open>Erasing listings and servers\<close>

lemma cache_ok_remove_server:
  assumes "cache_ok L c" "dc_serverList c' = dc_serverList c" "dc_next c \<le> dc_next c'"
    and "lru_ok (dc_lru c') (dc_next c') (other_nodes i c)" "dc_totalFileCount c' = other_files i c"
  shows "cache_ok L (c'\<lparr>dc_serverList := remove_at i (dc_serverList c)\<rparr>)"
proof -
  have "servers_ok L (remove_at i (dc_serverList c)) (dc_next c')"
    using assms(1,3) set_remove_at [of i "dc_serverList c"]
    by (fastforce simp: cache_ok_def servers_ok_def intro: distinct_remove_at sorted_wrt_remove_at)
  then show ?thesis using assms(4,5) by (simp add: cache_ok_def other_nodes_def other_files_def)
qed

lemma foldl_drop:
  assumes "\<forall>e \<in> set es. ce_lruIt e \<noteq> None" "lru_ok (dc_lru c) (dc_next c) (mset (map (lru_node sid) es) + M)"
  shows "lru_ok (dc_lru (foldl (\<lambda>c e. drop_entry e c) c es)) (dc_next c) M \<and>
    dc_serverList (foldl (\<lambda>c e. drop_entry e c) c es) = dc_serverList c \<and>
    dc_next (foldl (\<lambda>c e. drop_entry e c) c es) = dc_next c \<and>
    dc_totalFileCount (foldl (\<lambda>c e. drop_entry e c) c es) = dc_totalFileCount c - sum_list (map ce_size es)"
  using assms
proof (induction es arbitrary: c)
  case (Cons e es)
  have e: "ce_lruIt e \<noteq> None" "lru_node sid e \<in># mset (map (lru_node sid) (e # es)) + M" using Cons.prems(1) by simp_all
  note d = drop_entry_linked [OF e Cons.prems(2)]
  have "lru_ok (dc_lru (drop_entry e c)) (dc_next (drop_entry e c)) (mset (map (lru_node sid) es) + M)"
    using d by simp
  note ih = Cons.IH [OF _ this]
  show ?case using ih Cons.prems(1) d by simp
qed simp

lemma erase_entries_eq:
  "erase_entries P es c = (filter (\<lambda>e. \<not> P e) es, foldl (\<lambda>c e. drop_entry e c) c (filter P es))"
  by (induction es arbitrary: c) auto

lemma mset_map_partition: "mset (map f xs) = mset (map f (filter P xs)) + mset (map f (filter (\<lambda>x. \<not> P x) xs))"
  by (induction xs) simp_all

lemma sum_map_partition:
  fixes f :: "'a \<Rightarrow> int"
  shows "sum_list (map f xs) = sum_list (map f (filter P xs)) + sum_list (map f (filter (\<lambda>x. \<not> P x) xs))"
  by (induction xs) simp_all

lemma erase_entries_ok:
  assumes "cache_ok L c" "i < length (dc_serverList c)" "erase_entries P (cacheList c i) c = (xs, c1)"
  shows "cache_ok L (put_cacheList i xs c1)" "dc_serverList c1 = dc_serverList c"
    "xs = filter (\<lambda>e. \<not> P e) (cacheList c i)"
proof -
  let ?es = "cacheList c i" and ?sid = "se_id (server_at c i)"
  have res: "xs = filter (\<lambda>e. \<not> P e) ?es" "c1 = foldl (\<lambda>c e. drop_entry e c) c (filter P ?es)"
    using assms(3) by (simp_all add: erase_entries_eq)
  note split = cache_ok_split [OF assms(1,2)]
  have ok: "sorted_keys path_less ce_path ?es" "\<forall>e \<in> set ?es. entry_ok L e"
    using server_ok_nth [OF assms(1,2)] by (simp_all add: server_ok_def cacheList_def)
  have "lru_ok (dc_lru c) (dc_next c)
      (mset (map (lru_node ?sid) (filter P ?es)) + (mset (map (lru_node ?sid) xs) + other_nodes i c))"
    using split(1) mset_map_partition [of "lru_node ?sid" ?es P] unfolding res(1)
    by (simp add: server_nodes_def cacheList_def ac_simps)
  from foldl_drop [OF _ this] have d: "lru_ok (dc_lru c1) (dc_next c) (mset (map (lru_node ?sid) xs) + other_nodes i c)"
    "dc_serverList c1 = dc_serverList c" "dc_next c1 = dc_next c"
    "dc_totalFileCount c1 = dc_totalFileCount c - sum_list (map ce_size (filter P ?es))"
    using ok(2) res(2) by (auto simp: entry_ok_def)
  show "dc_serverList c1 = dc_serverList c" "xs = filter (\<lambda>e. \<not> P e) ?es" by (rule d, rule res)
  show "cache_ok L (put_cacheList i xs c1)"
  proof (rule cache_ok_put [OF assms(1,2) d(2)])
    show "sorted_keys path_less ce_path xs" unfolding res using ok(1) by (rule sorted_keys_filter)
    show "\<forall>e \<in> set xs. entry_ok L e" unfolding res using ok(2) by simp
    show "dc_totalFileCount c1 = sum_list (map ce_size xs) + other_files i c"
      using d(4) split(2) sum_map_partition [of ce_size ?es P] unfolding res(1)
      by (simp add: server_files_def cacheList_def)
  qed (use d in simp_all)
qed

lemma InvalidateServer_ok: "cache_ok L c \<Longrightarrow> cache_ok L (cache_InvalidateServer server c)"
proof -
  assume ok: "cache_ok L c"
  show ?thesis
  proof (cases "find_idx (\<lambda>se. SameContent (se_server se) server) (dc_serverList c)")
    case None
    then have "cache_InvalidateServer server c = c" by (simp add: cache_InvalidateServer_def del: find_idx_None)
    then show ?thesis using ok by simp
  next
    case (Some i)
    then have i: "i < length (dc_serverList c)" by (rule find_idx_less)
    note split = cache_ok_split [OF ok i]
    let ?c = "foldl (\<lambda>c e. drop_entry e c) c (cacheList c i)"
    have "\<forall>e \<in> set (cacheList c i). ce_lruIt e \<noteq> None"
      using server_ok_nth [OF ok i] by (simp add: server_ok_def cacheList_def entry_ok_def)
    from foldl_drop [OF this, of c "se_id (server_at c i)" "other_nodes i c"]
    have d: "lru_ok (dc_lru ?c) (dc_next c) (other_nodes i c)" "dc_serverList ?c = dc_serverList c"
      "dc_next ?c = dc_next c" "dc_totalFileCount ?c = dc_totalFileCount c - sum_list (map ce_size (cacheList c i))"
      using split(1) by (simp_all add: server_nodes_def cacheList_def)
    have "cache_ok L (?c\<lparr>dc_serverList := remove_at i (dc_serverList c)\<rparr>)"
      by (rule cache_ok_remove_server [OF ok]) (use d split(2) in \<open>simp_all add: server_files_def cacheList_def\<close>)
    then show ?thesis using Some by (simp add: cache_InvalidateServer_def)
  qed
qed

subsection \<open>Pruning\<close>

lemma sum_list_mset_in: "x \<in># sum_list (map f xs) \<Longrightarrow> \<exists>i < length xs. x \<in># f (xs ! i)"
proof (induction xs)
  case (Cons y ys)
  then show ?case by (cases "x \<in># f y") (auto intro: exI [of _ 0] exI [of _ "Suc _"])
qed simp

lemma find_server_id:
  assumes "cache_ok L c" "i < length (dc_serverList c)"
  shows "find_idx (\<lambda>se. se_id se = se_id (server_at c i)) (dc_serverList c) = Some i"
proof (rule find_idx_unique [OF assms(2)])
  have "distinct (map se_id (dc_serverList c))" using assms(1) by (simp add: cache_ok_def servers_ok_def)
  then show "j = i" if "j < length (dc_serverList c)" "se_id (server_at c j) = se_id (server_at c i)" for j
    using that assms(2) nth_eq_iff_index_eq [of "map se_id (dc_serverList c)" j i] by simp
qed simp

lemma paths_distinct:
  assumes "cache_ok L c" "i < length (dc_serverList c)"
  shows "distinct (map ce_path (cacheList c i))"
  by (rule path_order.keys_distinct) (use server_ok_nth [OF assms] in \<open>simp add: server_ok_def cacheList_def\<close>)

lemma find_path_idx:
  assumes "cache_ok L c" "i < length (dc_serverList c)" "pos < length (cacheList c i)"
  shows "find_idx (\<lambda>e. ce_path e = ce_path (cacheList c i ! pos)) (cacheList c i) = Some pos"
proof (rule find_idx_unique [OF assms(3)])
  show "j = pos" if "j < length (cacheList c i)" "ce_path (cacheList c i ! j) = ce_path (cacheList c i ! pos)" for j
    using that assms(3) nth_eq_iff_index_eq [OF paths_distinct [OF assms(1,2)], of j pos] by simp
qed simp

text \<open>The front of the list is the node of a listing in the cache; a step takes exactly that
  listing away.\<close>

lemma prune_step_parts:
  assumes "cache_ok L c" "dc_lru c \<noteq> []"
  obtains i pos where "i < length (dc_serverList c)" "pos < length (cacheList c i)"
    "hd (dc_lru c) = lru_node (se_id (server_at c i)) (cacheList c i ! pos)"
    "prune_step c =
      (let c2 = c\<lparr>dc_lru := tl (dc_lru c), dc_totalFileCount := dc_totalFileCount c - ce_size (cacheList c i ! pos)\<rparr>;
           xs = remove_at pos (cacheList c i)
       in if xs = [] then c2\<lparr>dc_serverList := remove_at i (dc_serverList c)\<rparr> else put_cacheList i xs c2)"
proof -
  obtain n sid p rest where lru: "dc_lru c = (n, sid, p) # rest" using assms(2) by (cases "dc_lru c") auto
  have "(n, sid, p) \<in># sum_list (map server_nodes (dc_serverList c))"
    using assms(1) lru unfolding cache_ok_def lru_ok_def by (metis list.set_intros(1) set_mset_mset)
  from sum_list_mset_in [OF this] obtain i
    where i: "i < length (dc_serverList c)" "(n, sid, p) \<in># server_nodes (server_at c i)" by blast
  then have "(n, sid, p) \<in> set (map (lru_node (se_id (server_at c i))) (cacheList c i))"
    by (simp only: server_nodes_def cacheList_def set_mset_mset)
  then obtain e where e: "e \<in> set (cacheList c i)" "lru_node (se_id (server_at c i)) e = (n, sid, p)"
    by (metis imageE list.set_map)
  then obtain pos where pos: "pos < length (cacheList c i)" "cacheList c i ! pos = e" by (auto simp: in_set_conv_nth)
  have "sid = se_id (server_at c i)" "p = ce_path (cacheList c i ! pos)" using e(2) pos(2) by (simp_all add: lru_node_def)
  then have "prune_step c =
      (let c2 = c\<lparr>dc_lru := tl (dc_lru c), dc_totalFileCount := dc_totalFileCount c - ce_size (cacheList c i ! pos)\<rparr>;
           xs = remove_at pos (cacheList c i)
       in if xs = [] then c2\<lparr>dc_serverList := remove_at i (dc_serverList c)\<rparr> else put_cacheList i xs c2)"
    using lru find_server_id [OF assms(1) i(1)] find_path_idx [OF assms(1) i(1) pos(1)]
    by (simp add: prune_step_def Let_def)
  then show ?thesis using that i(1) pos e(2) lru by simp
qed

lemma mset_map_remove_at: "pos < length xs \<Longrightarrow> mset (map f xs) = add_mset (f (xs ! pos)) (mset (map f (remove_at pos xs)))"
proof -
  assume "pos < length xs"
  then have "map f xs = map f (take pos xs @ xs ! pos # drop (Suc pos) xs)" by (simp add: id_take_nth_drop [symmetric])
  then show ?thesis by (simp add: remove_at_def)
qed

lemma prune_step_ok:
  assumes "cache_ok L c" "dc_lru c \<noteq> []"
  shows "cache_ok L (prune_step c)"
proof -
  obtain i pos where i: "i < length (dc_serverList c)" and pos: "pos < length (cacheList c i)"
    and hd: "hd (dc_lru c) = lru_node (se_id (server_at c i)) (cacheList c i ! pos)"
    and step: "prune_step c =
      (let c2 = c\<lparr>dc_lru := tl (dc_lru c), dc_totalFileCount := dc_totalFileCount c - ce_size (cacheList c i ! pos)\<rparr>;
           xs = remove_at pos (cacheList c i)
       in if xs = [] then c2\<lparr>dc_serverList := remove_at i (dc_serverList c)\<rparr> else put_cacheList i xs c2)"
    using prune_step_parts [OF assms] by blast
  let ?xs = "remove_at pos (cacheList c i)" and ?sid = "se_id (server_at c i)"
  let ?c2 = "c\<lparr>dc_lru := tl (dc_lru c), dc_totalFileCount := dc_totalFileCount c - ce_size (cacheList c i ! pos)\<rparr>"
  note split = cache_ok_split [OF assms(1) i]
  have cons: "dc_lru c = lru_node ?sid (cacheList c i ! pos) # tl (dc_lru c)" using assms(2) hd by (cases "dc_lru c") simp_all
  have "server_nodes (server_at c i) = add_mset (lru_node ?sid (cacheList c i ! pos)) (mset (map (lru_node ?sid) ?xs))"
    using mset_map_remove_at [OF pos, of "lru_node ?sid"] by (simp add: server_nodes_def cacheList_def)
  then have lru: "lru_ok (tl (dc_lru c)) (dc_next c) (mset (map (lru_node ?sid) ?xs) + other_nodes i c)"
    using split(1) unfolding lru_ok_def by (subst (asm) (1 2 3) cons) auto
  have "server_files (server_at c i) = ce_size (cacheList c i ! pos) + sum_list (map ce_size ?xs)"
    using sum_list_nth_split(1) [OF pos, of ce_size] by (simp add: server_files_def cacheList_def)
  then have files: "dc_totalFileCount ?c2 = sum_list (map ce_size ?xs) + other_files i c" using split(2) by simp
  show ?thesis
  proof (cases "?xs = []")
    case True
    have "cache_ok L (?c2\<lparr>dc_serverList := remove_at i (dc_serverList c)\<rparr>)"
      by (rule cache_ok_remove_server [OF assms(1)]) (use lru files True in simp_all)
    then show ?thesis using step True by (simp add: Let_def)
  next
    case False
    have ok: "sorted_keys path_less ce_path (cacheList c i)" "\<forall>e \<in> set (cacheList c i). entry_ok L e"
      using server_ok_nth [OF assms(1) i] by (simp_all add: server_ok_def cacheList_def)
    have "cache_ok L (put_cacheList i ?xs ?c2)"
    proof (rule cache_ok_put [OF assms(1) i])
      show "sorted_keys path_less ce_path ?xs"
        using ok(1) unfolding sorted_keys_def by (rule sorted_wrt_remove_at)
      show "\<forall>e \<in> set ?xs. entry_ok L e" using ok(2) set_remove_at by fastforce
    qed (use lru files in simp_all)
    then show ?thesis using step False by (simp add: Let_def)
  qed
qed

lemma Prune_ok: "cache_ok L c \<Longrightarrow> cache_ok L (Prune c)"
proof (induction c rule: Prune.induct)
  case (1 c)
  show ?case
  proof (cases "prune_needed c")
    case True
    then have "dc_lru c \<noteq> []" by (auto simp: prune_needed_def)
    then have "cache_ok L (Prune (prune_step c))" using 1 True prune_step_ok by blast
    then show ?thesis using True by (subst Prune.simps) simp
  next
    case False
    then show ?thesis using 1(2) by (subst Prune.simps) simp
  qed
qed

lemma Prune_enough: "\<not> prune_needed (Prune c)"
proof (induction c rule: Prune.induct)
  case (1 c)
  then show ?case by (cases "prune_needed c") (simp_all add: Prune.simps [of c])
qed

end
