(* ===== verification/Dir_Cache_Reach.thy ===== *)
theory Dir_Cache_Reach
  imports Dir_Cache_Steps
begin

text \<open>
  Storing and the composed operations keep the invariant; so every state that the member functions
  of the cache reach from the empty cache has it.
\<close>

subsection \<open>Positions of paths\<close>

lemma find_at_bound:
  assumes "set_find lt ky k xs = Some x"
  shows "length (before_bound lt ky k xs) < length xs" "xs ! length (before_bound lt ky k xs) = x"
proof -
  obtain ys where "lower_bound lt ky k xs = x # ys"
    using assms by (auto simp: set_find_def split: list.splits if_splits)
  then have "before_bound lt ky k xs @ x # ys = xs" using bound_split [of lt ky k xs] by simp
  then show "length (before_bound lt ky k xs) < length xs" "xs ! length (before_bound lt ky k xs) = x"
    by (metis length_append_singleton length_Cons length_append less_add_same_cancel1 zero_less_Suc,
        metis nth_append_length)
qed

lemma path_pos:
  assumes "cache_ok L c" "i < length (dc_serverList c)" "path_key_ok p"
  defines "pos \<equiv> length (before_bound path_less ce_path p (cacheList c i))"
  shows "e \<in> set (cacheList c i) \<Longrightarrow> ce_path e = p \<Longrightarrow> pos < length (cacheList c i) \<and> cacheList c i ! pos = e"
    and "\<not> (pos < length (cacheList c i) \<and> ce_path (cacheList c i ! pos) = p) \<Longrightarrow>
      set_find path_less ce_path p (cacheList c i) = None"
proof -
  have ok: "sorted_keys path_less ce_path (cacheList c i)" "\<forall>e \<in> set (cacheList c i). path_key_ok (ce_path e)"
    using server_ok_nth [OF assms(1,2)] by (simp_all add: server_ok_def cacheList_def entry_ok_def)
  note iff = path_order.find_Some [OF ok assms(3)]
  show in_list: "pos < length (cacheList c i) \<and> cacheList c i ! pos = e"
    if "e \<in> set (cacheList c i)" "ce_path e = p" for e
    unfolding pos_def using iff [of e] that find_at_bound [of path_less ce_path p "cacheList c i" e] by blast
  show "set_find path_less ce_path p (cacheList c i) = None"
    if no: "\<not> (pos < length (cacheList c i) \<and> ce_path (cacheList c i ! pos) = p)"
  proof (cases "set_find path_less ce_path p (cacheList c i)")
    case (Some e)
    then show ?thesis using iff [of e] in_list [of e] no by simp
  qed simp
qed

subsection \<open>Storing\<close>

lemma CreateServerEntry_ok:
  assumes "cache_ok L c" "CreateServerEntry c server = (i, c1)"
  shows "cache_ok L c1" "i < length (dc_serverList c1)"
    and "dc_lru c1 = dc_lru c" "dc_totalFileCount c1 = dc_totalFileCount c" "dc_ttl c1 = dc_ttl c"
    and "GetServerEntry c server = Some i \<and> c1 = c \<or>
      GetServerEntry c server = None \<and> i = length (dc_serverList c) \<and>
      dc_serverList c1 = dc_serverList c @ [\<lparr>se_id = dc_next c, se_server = server, se_cacheList = []\<rparr>]"
proof -
  let ?se = "\<lparr>se_id = dc_next c, se_server = server, se_cacheList = []\<rparr>"
  let ?new = "c\<lparr>dc_serverList := dc_serverList c @ [?se], dc_next := Suc (dc_next c)\<rparr>"
  have cases: "GetServerEntry c server = Some i \<and> c1 = c \<or>
      GetServerEntry c server = None \<and> i = length (dc_serverList c) \<and> c1 = ?new"
    using assms(2) unfolding CreateServerEntry_def GetServerEntry_def
    by (auto split: option.splits simp del: find_idx_None)
  have "cache_ok L ?new" if "GetServerEntry c server = None"
  proof -
    have "\<forall>a \<in> set (dc_serverList c). \<not> SameContent (se_server a) server" using that by (simp add: GetServerEntry_def)
    moreover have "server_ok L ?se" "server_nodes ?se = {#}" "server_files ?se = 0"
      by (simp_all add: server_ok_def server_nodes_def server_files_def)
    moreover have ids: "\<forall>a \<in> set (dc_serverList c). se_id a < dc_next c"
      and "\<forall>x \<in> set (dc_lru c). fst x < dc_next c"
      using assms(1) by (simp_all add: cache_ok_def servers_ok_def lru_ok_def)
    moreover have "dc_next c \<notin> se_id ` set (dc_serverList c)" using ids by auto
    ultimately show ?thesis
      using assms(1) by (auto simp: cache_ok_def servers_ok_def lru_ok_def sorted_wrt_append)
  qed
  then show "cache_ok L c1" "i < length (dc_serverList c1)" using cases assms(1) GetServerEntry_less by auto
  show "dc_lru c1 = dc_lru c" "dc_totalFileCount c1 = dc_totalFileCount c" "dc_ttl c1 = dc_ttl c"
    using cases by auto
  show "GetServerEntry c server = Some i \<and> c1 = c \<or>
      GetServerEntry c server = None \<and> i = length (dc_serverList c) \<and>
      dc_serverList c1 = dc_serverList c @ [\<lparr>se_id = dc_next c, se_server = server, se_cacheList = []\<rparr>]"
    using cases by auto
qed

text \<open>Storing a listing under a new path: the cache before it is pruned.\<close>

lemma touch_fresh:
  assumes "i < length (dc_serverList c)" "ce_lruIt e = None"
  shows "touch i (length xs) (put_cacheList i (xs @ e # ys) c) =
    put_cacheList i (xs @ e\<lparr>ce_lruIt := Some (dc_next c)\<rparr> # ys)
      (c\<lparr>dc_lru := dc_lru c @ [(dc_next c, se_id (server_at c i), ce_path e)], dc_next := Suc (dc_next c)\<rparr>)"
  using assms by (simp add: touch_def put_entry_def put_cacheList_def cacheList_def UpdateLru_def)

lemma store_fresh_ok:
  assumes "cache_ok L c" "i < length (dc_serverList c)"
    and "set_find path_less ce_path (dl_path l) (cacheList c i) = None"
    and "path_key_ok (dl_path l)" "cached_ok L l"
    and "c' = c\<lparr>dc_totalFileCount := dc_totalFileCount c + int (listing_size l)\<rparr>"
  obtains xs ys where "cacheList c i = xs @ ys" "xs = before_bound path_less ce_path (dl_path l) (cacheList c i)"
    "cache_ok L (touch i (length xs)
       (put_cacheList i (set_emplace path_less ce_path (CCacheEntry_make l now) (cacheList c i)) c'))"
    "touch i (length xs) (put_cacheList i (set_emplace path_less ce_path (CCacheEntry_make l now) (cacheList c i)) c') =
       put_cacheList i (xs @ (CCacheEntry_make l now)\<lparr>ce_lruIt := Some (dc_next c)\<rparr> # ys)
        (c'\<lparr>dc_lru := dc_lru c @ [(dc_next c, se_id (server_at c i), dl_path l)], dc_next := Suc (dc_next c)\<rparr>)"
proof -
  let ?new = "CCacheEntry_make l now" and ?es = "cacheList c i"
  let ?e = "?new\<lparr>ce_lruIt := Some (dc_next c)\<rparr>"
  define xs where "xs = before_bound path_less ce_path (dl_path l) ?es"
  define ys where "ys = lower_bound path_less ce_path (dl_path l) ?es"
  have es: "?es = xs @ ys" using bound_split [of path_less ce_path "dl_path l" ?es] by (simp add: xs_def ys_def)
  have new: "ce_path ?new = dl_path l" "ce_lruIt ?new = None" by (simp_all add: CCacheEntry_make_def ce_path_def)
  have emplace: "set_emplace path_less ce_path ?new ?es = xs @ ?new # ys"
    using assms(3) new(1) by (simp add: set_emplace_def xs_def ys_def)
  have ok: "sorted_keys path_less ce_path ?es" "\<forall>e \<in> set ?es. entry_ok L e"
    using server_ok_nth [OF assms(1,2)] by (simp_all add: server_ok_def cacheList_def)
  have "sorted_keys path_less ce_path (set_emplace path_less ce_path ?new ?es)"
    by (rule path_order.emplace_sorted) (use ok assms(4) new(1) in \<open>simp_all add: entry_ok_def\<close>)
  then have sorted: "sorted_keys path_less ce_path (xs @ ?e # ys)"
    unfolding emplace by (simp add: CCacheEntry_make_def ce_path_def)
  let ?c2 = "c'\<lparr>dc_lru := dc_lru c @ [(dc_next c, se_id (server_at c i), dl_path l)], dc_next := Suc (dc_next c)\<rparr>"
  have touch: "touch i (length xs) (put_cacheList i (set_emplace path_less ce_path ?new ?es) c') =
      put_cacheList i (xs @ ?e # ys) ?c2"
    unfolding emplace using touch_fresh [of i c' ?new xs ys] assms(2,6) new by simp
  note split = cache_ok_split [OF assms(1,2)]
  have "cache_ok L (put_cacheList i (xs @ ?e # ys) ?c2)"
  proof (rule cache_ok_put [OF assms(1,2)])
    show "\<forall>e \<in> set (xs @ ?e # ys). entry_ok L e"
      using ok(2) es assms(4,5) by (auto simp: entry_ok_def CCacheEntry_make_def ce_path_def)
    have "lru_node (se_id (server_at c i)) ?e = (dc_next c, se_id (server_at c i), dl_path l)"
      by (simp add: lru_node_def CCacheEntry_make_def ce_path_def)
    then show "lru_ok (dc_lru ?c2) (dc_next ?c2) (mset (map (lru_node (se_id (server_at c i))) (xs @ ?e # ys)) + other_nodes i c)"
      using lru_ok_fresh [OF split(1), of "(se_id (server_at c i), dl_path l)"] es
      by (simp add: server_nodes_def cacheList_def)
    have "ce_size ?e = int (listing_size l)" by (simp add: ce_size_def CCacheEntry_make_def)
    then show "dc_totalFileCount ?c2 = sum_list (map ce_size (xs @ ?e # ys)) + other_files i c"
      using split(2) es assms(6) by (simp add: server_files_def cacheList_def)
  qed (use assms(6) sorted in simp_all)
  then show ?thesis using that [OF es xs_def] touch by simp
qed

lemma store_replace_ok:
  assumes "cache_ok L c" "i < length (dc_serverList c)" "pos < length (cacheList c i)"
    and "ce_path (cacheList c i ! pos) = dl_path l" "cached_ok L l"
    and "c' = c\<lparr>dc_totalFileCount := dc_totalFileCount c + int (listing_size l) - ce_size (cacheList c i ! pos)\<rparr>"
  shows "cache_ok L (put_entry i pos ((cacheList c i ! pos)\<lparr>ce_modificationTime := now, ce_listing := l\<rparr>) c')"
proof -
  let ?e = "cacheList c i ! pos" and ?es = "cacheList c i"
  let ?e' = "?e\<lparr>ce_modificationTime := now, ce_listing := l\<rparr>"
  have same: "map g (?es[pos := ?e']) = map g ?es" if "g ?e' = g ?e" for g :: "CCacheEntry \<Rightarrow> 'b"
    using that assms(3) by (simp add: map_update list_update_same_conv)
  have path: "ce_path ?e' = ce_path ?e" using assms(4) by (simp add: ce_path_def)
  then have eqs: "map ce_path (?es[pos := ?e']) = map ce_path ?es"
    "map (lru_node sid) (?es[pos := ?e']) = map (lru_node sid) ?es" for sid
    by (simp_all add: same lru_node_def)
  note split = cache_ok_split [OF assms(1,2)]
  have cl: "cacheList c' i = cacheList c i" using assms(6) by (simp add: cacheList_def)
  have "cache_ok L (put_cacheList i (?es[pos := ?e']) c')"
  proof (rule cache_ok_put [OF assms(1,2)])
    show "sorted_keys path_less ce_path (?es[pos := ?e'])"
      using server_ok_nth [OF assms(1,2)] eqs(1) by (metis cacheList_def server_ok_def sorted_keys_map)
    show "\<forall>e \<in> set (?es[pos := ?e']). entry_ok L e"
    proof
      fix e assume "e \<in> set (?es[pos := ?e'])"
      then have "e = ?e' \<or> e \<in> set ?es" using set_update_subset_insert by fastforce
      then show "entry_ok L e" using entry_ok_nth [OF assms(1-3)] server_ok_nth [OF assms(1,2)] assms(4,5)
        by (auto simp: entry_ok_def server_ok_def cacheList_def ce_path_def)
    qed
    show "lru_ok (dc_lru c') (dc_next c') (mset (map (lru_node (se_id (server_at c i))) (?es[pos := ?e'])) + other_nodes i c)"
      unfolding eqs using split(1) assms(6) by (simp add: server_nodes_def cacheList_def)
    have "ce_size ?e' = int (listing_size l)" by (simp add: ce_size_def)
    then show "dc_totalFileCount c' = sum_list (map ce_size (?es[pos := ?e'])) + other_files i c"
      using split(2) assms(6) sum_list_nth_split(1) [OF assms(3), of ce_size] sum_list_nth_split(2) [OF assms(3), of ce_size ?e']
      by (simp add: server_files_def cacheList_def)
  qed (use assms(6) in simp_all)
  then show ?thesis unfolding put_entry_def cl .
qed

text \<open>The two courses of \<open>Store\<close>.\<close>

lemma Lookup_iter_total:
  "Lookup_iter now (c\<lparr>dc_totalFileCount := t\<rparr>) i p a =
     (case Lookup_iter now c i p a of (r, pos, c1) \<Rightarrow> (r, pos, c1\<lparr>dc_totalFileCount := t\<rparr>))"
  by (auto simp: Lookup_iter_def Let_def cacheList_def touch_def UpdateLru_def put_entry_def put_cacheList_def
      split: option.splits prod.splits)

lemma Store_cases:
  assumes "cache_ok L c" "path_key_ok (dl_path l)" "cached_ok L l"
  obtains (replace) i c1 lru pos where "CreateServerEntry c server = (i, c1)" "cache_ok L (c1\<lparr>dc_lru := lru\<rparr>)"
      "pos < length (cacheList c1 i)" "ce_path (cacheList c1 i ! pos) = dl_path l"
      "cache_Store now l server c = put_entry i pos
        ((cacheList c1 i ! pos)\<lparr>ce_modificationTime := now, ce_listing := l\<rparr>)
        (c1\<lparr>dc_lru := lru, dc_totalFileCount :=
           dc_totalFileCount c1 + int (listing_size l) - ce_size (cacheList c1 i ! pos)\<rparr>)"
  | (fresh) i c1 where "CreateServerEntry c server = (i, c1)"
      "set_find path_less ce_path (dl_path l) (cacheList c1 i) = None"
      "cache_Store now l server c =
        Prune (touch i (length (before_bound path_less ce_path (dl_path l) (cacheList c1 i)))
          (put_cacheList i (set_emplace path_less ce_path (CCacheEntry_make l now) (cacheList c1 i))
            (c1\<lparr>dc_totalFileCount := dc_totalFileCount c1 + int (listing_size l)\<rparr>)))"
proof -
  obtain i c1 where create: "CreateServerEntry c server = (i, c1)" by fastforce
  note cr = CreateServerEntry_ok [OF assms(1) create]
  obtain r pos c3 where look: "Lookup_iter now c1 i (dl_path l) True = (r, pos, c3)" by (metis surj_pair)
  obtain lru where lru: "c3 = c1\<lparr>dc_lru := lru\<rparr>" "cache_ok L c3"
    and found: "r \<noteq> None \<Longrightarrow> pos < length (cacheList c1 i) \<and> ce_path (cacheList c1 i ! pos) = dl_path l"
    and pos: "pos = length (before_bound path_less ce_path (dl_path l) (cacheList c1 i))"
    using Lookup_iter_ok [OF cr(1,2) look] by metis
  have cl: "cacheList (c1\<lparr>dc_lru := u, dc_totalFileCount := t\<rparr>) i = cacheList c1 i" for u t by (simp add: cacheList_def)
  show ?thesis
  proof (cases r)
    case (Some b)
    have "cache_Store now l server c = put_entry i pos
        ((cacheList c1 i ! pos)\<lparr>ce_modificationTime := now, ce_listing := l\<rparr>)
        (c1\<lparr>dc_lru := lru, dc_totalFileCount :=
           dc_totalFileCount c1 + int (listing_size l) - ce_size (cacheList c1 i ! pos)\<rparr>)"
      using create look Some lru(1) by (simp add: cache_Store_def Lookup_iter_total Let_def cl)
    then show ?thesis using replace [OF create, of lru pos] lru found Some by simp
  next
    case None
    have nf: "\<not> (pos < length (cacheList c1 i) \<and> ce_path (cacheList c1 i ! pos) = dl_path l)"
      using look None pos by (auto simp: Lookup_iter_def Let_def split: if_splits)
    then have c3: "c3 = c1" using look pos by (auto simp: Lookup_iter_def Let_def split: if_splits)
    have none: "set_find path_less ce_path (dl_path l) (cacheList c1 i) = None"
      using path_pos(2) [OF cr(1,2) assms(2)] nf pos by simp
    have "cacheList (c1\<lparr>dc_totalFileCount := t\<rparr>) i = cacheList c1 i" for t by (simp add: cacheList_def)
    then have "cache_Store now l server c =
        Prune (touch i (length (before_bound path_less ce_path (dl_path l) (cacheList c1 i)))
          (put_cacheList i (set_emplace path_less ce_path (CCacheEntry_make l now) (cacheList c1 i))
            (c1\<lparr>dc_totalFileCount := dc_totalFileCount c1 + int (listing_size l)\<rparr>)))"
      using create look None c3 pos by (simp add: cache_Store_def Lookup_iter_total Let_def)
    then show ?thesis using fresh [OF create none] by simp
  qed
qed

lemma Store_ok:
  assumes "cache_ok L c" "path_key_ok (dl_path l)" "cached_ok L l"
  shows "cache_ok L (cache_Store now l server c)"
proof (cases rule: Store_cases [OF assms, of server now, case_names replace fresh])
  case (replace i c1 lru pos)
  note cr = CreateServerEntry_ok [OF assms(1) replace(1)]
  show ?thesis
    unfolding replace(5)
    using store_replace_ok [OF replace(2), of i pos l _ now] cr(2) replace(3,4) assms(3) by simp
next
  case (fresh i c1)
  note cr = CreateServerEntry_ok [OF assms(1) fresh(1)]
  obtain xs where "xs = before_bound path_less ce_path (dl_path l) (cacheList c1 i)"
    "cache_ok L (touch i (length xs)
       (put_cacheList i (set_emplace path_less ce_path (CCacheEntry_make l now) (cacheList c1 i))
         (c1\<lparr>dc_totalFileCount := dc_totalFileCount c1 + int (listing_size l)\<rparr>)))"
    using store_fresh_ok [OF cr(1,2) fresh(2) assms(2,3) refl, of now] by metis
  then show ?thesis unfolding fresh(3) by (intro Prune_ok) simp
qed

end
