(* ===== verification/Dir_Cache_Ops.thy ===== *)
theory Dir_Cache_Ops
  imports Dir_Cache_Reach
begin

text \<open>
  The remaining operations keep the invariant, and the states the cache reaches.
\<close>

subsection \<open>Lookups\<close>

lemma lookup_in_listing_ok:
  assumes "multimap_law L" "cached_ok L l" "lookup_in_listing L server flags results name l = (r, l')"
  shows "cached_ok L l'" "dl_path l' = dl_path l" "dl_entries l' = dl_entries l" "dl_flags l' = dl_flags l"
proof -
  let ?l1 = "snd (FindFile_CmpCase L l name)"
  have "l' = ?l1 \<or> l' = snd (FindFile_CmpNoCase L ?l1 name)"
    using assms(3) by (auto simp: lookup_in_listing_def split: option.splits if_splits prod.splits)
  then show "cached_ok L l'" "dl_path l' = dl_path l" "dl_entries l' = dl_entries l" "dl_flags l' = dl_flags l"
    using FindFile_cached_ok [OF assms(1,2), of name] by auto
qed

lemma lookup_many_ok:
  assumes "multimap_law L" "cached_ok L l" "map_state (lookup_in_listing L server flags results) names l = (rs, l')"
  shows "cached_ok L l' \<and> dl_path l' = dl_path l \<and> dl_entries l' = dl_entries l"
  using assms(2,3)
proof (induction names arbitrary: l rs)
  case (Cons n ns)
  obtain r l1 where 1: "lookup_in_listing L server flags results n l = (r, l1)" by fastforce
  obtain rs1 where 2: "map_state (lookup_in_listing L server flags results) ns l1 = (rs1, l')"
    using Cons.prems(2) 1 by (auto split: prod.splits)
  note ok = lookup_in_listing_ok [OF assms(1) Cons.prems(1) 1]
  show ?case using Cons.IH [OF ok(1) 2] ok by simp
qed simp

lemma put_listing_lru_ok:
  assumes "cache_ok L c" "i < length (dc_serverList c)" "Lookup_iter now c i p a = (Some b, pos, c1)"
    and "cached_ok L l" "dl_path l = dl_path (ce_listing (cacheList c1 i ! pos))"
    "listing_size l = listing_size (ce_listing (cacheList c1 i ! pos))"
  shows "cache_ok L (put_listing i pos l c1)"
proof -
  obtain lru where "c1 = c\<lparr>dc_lru := lru\<rparr>" "cache_ok L c1" "pos < length (cacheList c i)"
    using Lookup_iter_ok [OF assms(1-3)] by (metis option.distinct(1))
  then show ?thesis using put_listing_ok [of L c1 i pos l] assms(2,4-6) by (simp add: ce_path_def)
qed

lemma looked_up_listing_ok:
  assumes "cache_ok L c" "i < length (dc_serverList c)" "Lookup_iter now c i p a = (Some b, pos, c1)"
  shows "cache_ok L c1" "i < length (dc_serverList c1)" "pos < length (cacheList c1 i)"
    "cached_ok L (ce_listing (cacheList c1 i ! pos))"
proof -
  obtain lru where "c1 = c\<lparr>dc_lru := lru\<rparr>" and 1: "cache_ok L c1" and "pos < length (cacheList c i)"
    using Lookup_iter_ok [OF assms] by (metis option.distinct(1))
  then show "cache_ok L c1" and 2: "i < length (dc_serverList c1)" and 3: "pos < length (cacheList c1 i)"
    using assms(2) by simp_all
  show "cached_ok L (ce_listing (cacheList c1 i ! pos))"
    using entry_ok_nth [OF 1 2 3] by (simp add: entry_ok_def)
qed

lemma Lookup_iter_cache_ok:
  assumes "cache_ok L c" "i < length (dc_serverList c)" "Lookup_iter now c i p a = (r, pos, c1)"
  shows "cache_ok L c1"
  using Lookup_iter_ok [OF assms] by metis

lemma Lookup_ok: "cache_ok L c \<Longrightarrow> cache_ok L (snd (cache_Lookup now server p a c))"
  by (auto simp: cache_Lookup_def split: option.splits prod.splits dest: GetServerEntry_less intro: Lookup_iter_cache_ok)

lemma DoesExist_ok: "cache_ok L c \<Longrightarrow> cache_ok L (snd (cache_DoesExist now server p c))"
  by (auto simp: cache_DoesExist_def split: option.splits prod.splits dest: GetServerEntry_less intro: Lookup_iter_cache_ok)

lemma GetChangeTime_ok: "cache_ok L c \<Longrightarrow> cache_ok L (snd (cache_GetChangeTime now server p c))"
  by (auto simp: cache_GetChangeTime_def split: option.splits prod.splits dest: GetServerEntry_less intro: Lookup_iter_cache_ok)

lemma lookup_put_ok:
  assumes "cache_ok L c" "GetServerEntry c server = Some i" "Lookup_iter now c i p True = (Some b, pos, c1)"
    and "cached_ok L (ce_listing (cacheList c1 i ! pos)) \<Longrightarrow>
      cached_ok L l \<and> dl_path l = dl_path (ce_listing (cacheList c1 i ! pos)) \<and>
      dl_entries l = dl_entries (ce_listing (cacheList c1 i ! pos))"
  shows "cache_ok L (put_listing i pos l c1)"
proof -
  have i: "i < length (dc_serverList c)" using assms(2) by (rule GetServerEntry_less)
  note lk = looked_up_listing_ok [OF assms(1) i assms(3)]
  show ?thesis
    by (rule put_listing_lru_ok [OF assms(1) i assms(3)]) (use assms(4) [OF lk(4)] in \<open>simp_all add: listing_size_def\<close>)
qed

text \<open>The shape of the three searches for files: the lookup of the directory, then nothing more or a
  search in the listing.\<close>

definition searched :: "libfz \<Rightarrow> CDirectoryListing \<Rightarrow> CDirectoryListing \<Rightarrow> bool" where
  "searched L l l' \<longleftrightarrow>
     (cached_ok L l \<longrightarrow> cached_ok L l' \<and> dl_path l' = dl_path l \<and> dl_entries l' = dl_entries l)"

lemma lookup_file_shape_ok:
  assumes "cache_ok L c" "Lookup_iter now c i p True = (r, pos, c1)"
    and "GetServerEntry c server = Some i"
    and "c' = c1 \<or> (r \<noteq> None \<and> (\<exists>l. searched L (ce_listing (cacheList c1 i ! pos)) l \<and> c' = put_listing i pos l c1))"
  shows "cache_ok L c'"
  using assms(4)
proof
  assume "c' = c1"
  then show ?thesis using Lookup_iter_cache_ok [OF assms(1) GetServerEntry_less [OF assms(3)] assms(2)] by simp
next
  assume "r \<noteq> None \<and> (\<exists>l. searched L (ce_listing (cacheList c1 i ! pos)) l \<and> c' = put_listing i pos l c1)"
  then show ?thesis
    using lookup_put_ok [OF assms(1,3), of now p _ pos c1] assms(2) unfolding searched_def by blast
qed

lemma LookupFile_ok:
  assumes "multimap_law L" "cache_ok L c"
  shows "cache_ok L (snd (cache_LookupFile L now server p name flags c))"
proof (cases "GetServerEntry c server")
  case (Some i)
  obtain r pos c1 where look: "Lookup_iter now c i p True = (r, pos, c1)" by (metis surj_pair)
  have sub: "searched L l (snd (lookup_in_listing L server flags rs name l))" for l rs
    using lookup_in_listing_ok [OF assms(1) _ surjective_pairing] by (simp add: searched_def)
  show ?thesis
  proof (rule lookup_file_shape_ok [OF assms(2) look Some])
    let ?c' = "snd (cache_LookupFile L now server p name flags c)"
    let ?l = "\<lambda>rs. snd (lookup_in_listing L server flags rs name (ce_listing (cacheList c1 i ! pos)))"
    have "?c' = c1 \<or> r \<noteq> None \<and> (\<exists>rs. ?c' = put_listing i pos (?l rs) c1)"
      using Some look by (cases r) (auto simp: cache_LookupFile_def Let_def case_prod_beta)
    then show "?c' = c1 \<or> (r \<noteq> None \<and> (\<exists>l. searched L (ce_listing (cacheList c1 i ! pos)) l \<and> ?c' = put_listing i pos l c1))"
      using sub by blast
  qed
qed (use assms(2) in \<open>simp add: cache_LookupFile_def\<close>)

lemma LookupFiles_ok:
  assumes "multimap_law L" "cache_ok L c"
  shows "cache_ok L (snd (cache_LookupFiles L now server p names flags c))"
proof (cases "GetServerEntry c server")
  case (Some i)
  obtain r pos c1 where look: "Lookup_iter now c i p True = (r, pos, c1)" by (metis surj_pair)
  have sub: "searched L l (snd (map_state (lookup_in_listing L server flags rs) names l))" for l rs
    using lookup_many_ok [OF assms(1) _ surjective_pairing] by (simp add: searched_def)
  show ?thesis
  proof (rule lookup_file_shape_ok [OF assms(2) look Some])
    let ?c' = "snd (cache_LookupFiles L now server p names flags c)"
    let ?l = "\<lambda>rs. snd (map_state (lookup_in_listing L server flags rs) names (ce_listing (cacheList c1 i ! pos)))"
    have "?c' = c1 \<or> r \<noteq> None \<and> (\<exists>rs. ?c' = put_listing i pos (?l rs) c1)"
      using Some look by (cases r) (auto simp: cache_LookupFiles_def Let_def case_prod_beta)
    then show "?c' = c1 \<or> (r \<noteq> None \<and> (\<exists>l. searched L (ce_listing (cacheList c1 i ! pos)) l \<and> ?c' = put_listing i pos l c1))"
      using sub by blast
  qed
qed (use assms(2) in \<open>simp add: cache_LookupFiles_def\<close>)

lemma LookupFile_dir_ok:
  assumes "multimap_law L" "cache_ok L c"
  shows "cache_ok L (snd (cache_LookupFile_dir L now server p name c))"
proof (cases "GetServerEntry c server")
  case (Some i)
  obtain r pos c1 where look: "Lookup_iter now c i p True = (r, pos, c1)" by (metis surj_pair)
  show ?thesis
  proof (rule lookup_file_shape_ok [OF assms(2) look Some])
    let ?c' = "snd (cache_LookupFile_dir L now server p name c)" and ?l = "ce_listing (cacheList c1 i ! pos)"
    let ?l1 = "snd (FindFile_CmpCase L ?l name)"
    let ?l2 = "snd (FindFile_CmpNoCase L ?l1 name)"
    have "searched L ?l ?l1" "searched L ?l ?l2"
      using FindFile_cached_ok [OF assms(1), of ?l name] by (simp_all add: searched_def)
    moreover have "?c' = c1 \<or> r \<noteq> None \<and> (?c' = put_listing i pos ?l1 c1 \<or> ?c' = put_listing i pos ?l2 c1)"
      using Some look by (cases r) (auto simp: cache_LookupFile_dir_def split: option.split prod.split)
    ultimately show "?c' = c1 \<or> (r \<noteq> None \<and> (\<exists>l. searched L ?l l \<and> ?c' = put_listing i pos l c1))"
      by blast
  qed
qed (use assms(2) in \<open>simp add: cache_LookupFile_dir_def\<close>)

subsection \<open>Updates\<close>

lemma InvalidateFile_ok: "cache_ok L c \<Longrightarrow> cache_ok L (snd (cache_InvalidateFile L now server path filename c))"
proof -
  assume ok: "cache_ok L c"
  show ?thesis
  proof (cases "GetServerEntry c server")
    case (Some i)
    let ?cmp = "GetCaseSensitivity (sv_protocol server) = case_yes"
    let ?r = "for_entries (invalidate_body L now path filename ?cmp) i (c, False)"
    have i: "i < length (dc_serverList c)" using Some by (rule GetServerEntry_less)
    note r = for_entries_ok [where body = "invalidate_body L now path filename ?cmp" and s = False, OF ok i invalidate_body_ok]
    have "cache_ok L (fst (for_entries (invalidate_child_body L now path ?cmp) i (fst ?r, snd ?r)))"
      by (rule for_entries_ok(1) [OF r(1)]) (use r(2) i in \<open>simp_all add: invalidate_child_body_ok\<close>)
    then show ?thesis using Some r(1) by (simp add: cache_InvalidateFile_def Let_def)
  qed (use ok in \<open>simp add: cache_InvalidateFile_def\<close>)
qed

lemma UpdateFile_ok: "cache_ok L c \<Longrightarrow> cache_ok L (snd (cache_UpdateFile L now server path filename mc t sz og c))"
  using for_entries_ok(1) [of L c _ "update_file_body L now path filename mc t sz og" False]
  by (auto simp: cache_UpdateFile_def split: option.splits prod.splits dest: GetServerEntry_less
      intro!: update_file_body_ok) (metis GetServerEntry_less fst_conv update_file_body_ok)

lemma RemoveFile_ok: "cache_ok L c \<Longrightarrow> cache_ok L (snd (cache_RemoveFile L now server path filename c))"
  using for_entries_ok(1) [of L c _ "remove_file_body L now path filename" True]
  by (auto simp: cache_RemoveFile_def split: option.splits dest: GetServerEntry_less intro!: remove_file_body_ok)

lemma RemoveDir_ok: "cache_ok L c \<Longrightarrow> cache_ok L (cache_RemoveDir L now server path filename c)"
  using erase_entries_ok(1) [of L c]
  by (auto simp: cache_RemoveDir_def Let_def split: option.splits prod.splits dest: GetServerEntry_less
      intro!: RemoveFile_ok)

lemma entry_update_simps [simp]:
  "dl_path (entry_update k f l) = dl_path l" "listing_size (entry_update k f l) = listing_size l"
  by (simp_all add: entry_update_def listing_size_def)

lemma ClearFindMap_simps [simp]:
  "dl_path (ClearFindMap l) = dl_path l" "listing_size (ClearFindMap l) = listing_size l"
  by (simp_all add: ClearFindMap_def listing_size_def)

lemma UpdateOwnerGroup_ok:
  assumes "cache_ok L c"
  shows "cache_ok L (cache_UpdateOwnerGroup now server path filename og c)"
proof (cases "GetServerEntry c server")
  case None
  then show ?thesis using assms by (simp add: cache_UpdateOwnerGroup_def)
next
  case (Some i)
  have i: "i < length (dc_serverList c)" using Some by (rule GetServerEntry_less)
  obtain r pos c1 where look: "Lookup_iter now c i path True = (r, pos, c1)" by (metis surj_pair)
  note c1 = Lookup_iter_cache_ok [OF assms i look]
  show ?thesis
  proof (cases r)
    case None
    then show ?thesis using Some look c1 InvalidateServer_ok by (simp add: cache_UpdateOwnerGroup_def)
  next
    case (Some b)
    let ?l = "ce_listing (cacheList c1 i ! pos)"
    note lk = looked_up_listing_ok [OF assms i look [unfolded Some]]
    have "cache_ok L (put_listing i pos (ClearFindMap (entry_update k (\<lambda>d. d\<lparr>de_ownerGroup := og\<rparr>) ?l)) c1)" for k
    proof (rule put_listing_lru_ok [OF assms i look [unfolded Some]])
      have "cached_ok L (entry_update k (\<lambda>d. d\<lparr>de_ownerGroup := og\<rparr>) ?l)"
        by (rule cached_ok_update [OF lk(4)]) simp
      then show "cached_ok L (ClearFindMap (entry_update k (\<lambda>d. d\<lparr>de_ownerGroup := og\<rparr>) ?l))"
        by (simp add: ClearFindMap_def cached_ok_drop)
    qed simp_all
    then show ?thesis
      using \<open>GetServerEntry c server = Some i\<close> look Some c1 InvalidateServer_ok
      by (simp add: cache_UpdateOwnerGroup_def Let_def split: option.split)
  qed
qed

lemma Lookup_iter_servers:
  assumes "cache_ok L c" "i < length (dc_serverList c)" "Lookup_iter now c i p a = (r, pos, c1)"
  shows "dc_serverList c1 = dc_serverList c"
  using Lookup_iter_ok [OF assms] by (metis select_convs(1) CDirectoryCache.surjective CDirectoryCache.update_convs(2))

lemma GetServerEntry_cong:
  assumes "map se_server (dc_serverList c1) = map se_server (dc_serverList c)"
  shows "GetServerEntry c1 server = GetServerEntry c server"
proof -
  have eq: "find_idx (\<lambda>se. SameContent (se_server se) server) ses = find_idx (\<lambda>s. SameContent s server) (map se_server ses)" for ses
    by (induction ses) auto
  show ?thesis unfolding GetServerEntry_def eq assms ..
qed

lemma Rename_ok:
  assumes "cache_ok L c"
  shows "cache_ok L (cache_Rename L now server pathFrom fileFrom pathTo fileTo c)"
proof (cases "GetServerEntry c server")
  case None
  then show ?thesis using assms by (simp add: cache_Rename_def)
next
  case (Some i)
  have i: "i < length (dc_serverList c)" using Some by (rule GetServerEntry_less)
  obtain r pos c1 where look: "Lookup_iter now c i pathFrom True = (r, pos, c1)" by (metis surj_pair)
  note c1 = Lookup_iter_cache_ok [OF assms i look]
  show ?thesis
  proof (cases r)
    case None
    then show ?thesis using Some look c1 InvalidateServer_ok by (simp add: cache_Rename_def)
  next
    case (Some b)
    note lk = looked_up_listing_ok [OF assms i look [unfolded Some]]
    have g1: "GetServerEntry c1 server = Some i"
      using \<open>GetServerEntry c server = Some i\<close> GetServerEntry_cong [of c1 c] Lookup_iter_servers [OF assms i look] by simp
    define c2 where "c2 = snd (cache_RemoveFile L now server pathFrom fileTo c1)"
    define l where "l = ce_listing (cacheList c2 i ! pos)"
    have c2: "cache_ok L c2" unfolding c2_def by (rule RemoveFile_ok [OF c1])
    have rm: "c2 = fst (for_entries (remove_file_body L now pathFrom fileTo) i (c1, True))"
      using g1 by (simp add: c2_def cache_RemoveFile_def)
    note fe = for_entries_ok [where body = "remove_file_body L now pathFrom fileTo" and s = True, OF c1 lk(2) remove_file_body_ok, folded rm]
    have i2: "i < length (dc_serverList c2)" "pos < length (cacheList c2 i)"
      using fe(2,5) lk(2,3) map_eq_imp_length_eq [OF fe(5)] by simp_all
    have "cached_ok L l" using entry_ok_nth [OF c2 i2] by (simp add: l_def entry_ok_def)
    then have put: "cache_ok L (put_listing i pos (ClearFindMap (or_flags unsure_unknown (entry_update k f l))) c2)" for k f
      by (intro put_listing_ok [OF c2 i2] cached_ok_ClearFindMap)
        (simp_all add: ce_path_def maps_paired_def cached_ok_def flip: l_def)
    have run: "cache_Rename L now server pathFrom fileFrom pathTo fileTo c =
        (if path_eq pathFrom pathTo then
           case find_name fileFrom l of None \<Rightarrow> c2
           | Some k \<Rightarrow> if is_dir (dl_entries l ! k)
               then snd (cache_UpdateFile L now server pathFrom fileTo True ft_dir (-1) []
                     (cache_RemoveDir L now server pathFrom fileTo (cache_RemoveDir L now server pathFrom fileFrom c2)))
               else put_listing i pos (ClearFindMap (or_flags unsure_unknown
                     (entry_update k (\<lambda>d. mark_unsure (d\<lparr>de_name := fileTo\<rparr>)) l))) c2
         else case find_name fileFrom (ce_listing (cacheList c1 i ! pos)) of None \<Rightarrow> c1
           | Some k \<Rightarrow> if is_dir (dl_entries (ce_listing (cacheList c1 i ! pos)) ! k)
               then snd (cache_UpdateFile L now server pathTo fileTo True ft_dir (-1) []
                     (cache_RemoveDir L now server pathFrom fileFrom c1))
               else snd (cache_UpdateFile L now server pathTo fileTo True ft_file (-1) []
                     (snd (cache_RemoveFile L now server pathFrom fileFrom c1))))"
      unfolding cache_Rename_def \<open>GetServerEntry c server = Some i\<close> option.case look Some prod.case Let_def c2_def l_def ..
    show ?thesis
      unfolding run using c1 c2 put by (auto intro!: UpdateFile_ok RemoveDir_ok RemoveFile_ok split: option.split)
  qed
qed

lemma SetTtl_ok: "cache_ok L (cache_SetTtl ttl c) = cache_ok L c"
  by (simp add: cache_SetTtl_def cache_ok_def)

subsection \<open>Reachable caches\<close>

text \<open>One call of a member function.  A listing that is stored has a path and was built by the
  member functions of listings, its maps cleared or searched by exact name first.\<close>

inductive cache_step :: "libfz \<Rightarrow> CDirectoryCache \<Rightarrow> CDirectoryCache \<Rightarrow> bool" for L where
  Store: "path_key_ok (dl_path l) \<Longrightarrow> listing_reachable L l \<Longrightarrow> maps_paired l \<Longrightarrow> cache_step L c (cache_Store now l s c)"
| Lookup: "cache_step L c (snd (cache_Lookup now s p a c))"
| DoesExist: "cache_step L c (snd (cache_DoesExist now s p c))"
| GetChangeTime: "cache_step L c (snd (cache_GetChangeTime now s p c))"
| LookupFile: "cache_step L c (snd (cache_LookupFile L now s p f flags c))"
| LookupFiles: "cache_step L c (snd (cache_LookupFiles L now s p fs flags c))"
| LookupFile_dir: "cache_step L c (snd (cache_LookupFile_dir L now s p f c))"
| InvalidateFile: "cache_step L c (snd (cache_InvalidateFile L now s p f c))"
| UpdateFile: "cache_step L c (snd (cache_UpdateFile L now s p f mc t sz og c))"
| RemoveFile: "cache_step L c (snd (cache_RemoveFile L now s p f c))"
| InvalidateServer: "cache_step L c (cache_InvalidateServer s c)"
| RemoveDir: "cache_step L c (cache_RemoveDir L now s p f c)"
| Rename: "cache_step L c (cache_Rename L now s p f p' f' c)"
| UpdateOwnerGroup: "cache_step L c (cache_UpdateOwnerGroup now s p f og c)"
| SetTtl: "cache_step L c (cache_SetTtl ttl c)"

inductive cache_reachable :: "libfz \<Rightarrow> CDirectoryCache \<Rightarrow> bool" for L where
  new: "cache_reachable L CDirectoryCache_new"
| step: "cache_reachable L c \<Longrightarrow> cache_step L c c' \<Longrightarrow> cache_reachable L c'"

lemma cache_step_ok:
  assumes "multimap_law L" "cache_step L c c'" "cache_ok L c"
  shows "cache_ok L c'"
  using assms(2,3)
proof (induction rule: cache_step.induct)
  case (Store l c now s)
  then show ?case using listing_reachable_ok [OF assms(1)] by (intro Store_ok) (simp_all add: cached_ok_def)
qed (simp_all add: Lookup_ok DoesExist_ok GetChangeTime_ok LookupFile_ok [OF assms(1)] LookupFiles_ok [OF assms(1)]
      LookupFile_dir_ok [OF assms(1)] InvalidateFile_ok UpdateFile_ok RemoveFile_ok InvalidateServer_ok RemoveDir_ok
      Rename_ok UpdateOwnerGroup_ok SetTtl_ok)

lemma cache_reachable_ok: "multimap_law L \<Longrightarrow> cache_reachable L c \<Longrightarrow> cache_ok L c"
  by (erule cache_reachable.induct) (auto intro: cache_step_ok simp: cache_simps)

end
