(* ===== verification/Dir_Cache_Props.thy ===== *)
theory Dir_Cache_Props
  imports Dir_Cache_Ops
begin

text \<open>
  What the directory cache promises: its accounting and its limits, with a small cache on which
  the witnesses are evaluated.
\<close>

subsection \<open>A small cache\<close>

text \<open>A cache with one listing of one file, on which the witnesses are evaluated.\<close>

definition sample_server :: CServer where
  "sample_server = CServer_make FTP UNIX ''h'' 21"

definition sample_path :: CServerPath where
  "sample_path = CServerPath_make ''/a'' UNIX"

definition sample_listing :: CDirectoryListing where
  "sample_listing = Assign (CDirectoryListing_default\<lparr>dl_path := sample_path, dl_firstListTime := 0\<rparr>)
     [CDirentry_default\<lparr>de_name := ''x''\<rparr>]"

definition sample_cache :: CDirectoryCache where
  "sample_cache = cache_Store 5 sample_listing sample_server CDirectoryCache_new"

lemma sample_facts [simp]:
  "listing_reachable L sample_listing" "path_key_ok sample_path" "dl_path sample_listing = sample_path"
  "maps_paired sample_listing"
proof -
  show "listing_reachable L sample_listing" unfolding sample_listing_def
    by (rule listing_reachable.op [OF listing_reachable.op [OF listing_reachable.start listing_op.set_path] listing_op.assign])
  show "path_key_ok sample_path" "dl_path sample_listing = sample_path" "maps_paired sample_listing" by code_simp+
qed

lemma sample_reachable [simp]: "cache_reachable L sample_cache"
  unfolding sample_cache_def by (intro cache_reachable.step [OF cache_reachable.new] cache_step.Store) simp_all

subsection \<open>Accounting and limits\<close>

lemma sum_server_nodes_size:
  "size (sum_list (map server_nodes ses)) = sum_list (map (\<lambda>se. length (se_cacheList se)) ses)"
  by (induction ses) (simp_all add: server_nodes_def)

text \<open>C17: In every reachable cache the file count is the number of entries of all cached
  listings, every cached listing is exactly once in the list of recently used ones and points to
  its node there, no two servers have the same content, and the listings of a server have
  different paths.\<close>

theorem dir_cache_accounting:
  assumes "multimap_law L" "cache_reachable L c"
  shows "dc_totalFileCount c =
      sum_list (map (\<lambda>se. sum_list (map (\<lambda>e. int (listing_size (ce_listing e))) (se_cacheList se))) (dc_serverList c)) \<and>
    length (dc_lru c) = sum_list (map (\<lambda>se. length (se_cacheList se)) (dc_serverList c)) \<and>
    distinct (dc_lru c) \<and>
    (\<forall>se \<in> set (dc_serverList c). \<forall>e \<in> set (se_cacheList se).
       \<exists>n. ce_lruIt e = Some n \<and> (n, se_id se, ce_path e) \<in> set (dc_lru c)) \<and>
    sorted_wrt (\<lambda>a b. \<not> SameContent (se_server a) (se_server b)) (dc_serverList c) \<and>
    (\<forall>se \<in> set (dc_serverList c). distinct (map ce_path (se_cacheList se)))"
proof -
  note ok = cache_reachable_ok [OF assms]
  have lru: "lru_ok (dc_lru c) (dc_next c) (sum_list (map server_nodes (dc_serverList c)))"
    using ok by (simp add: cache_ok_def)
  have node: "\<exists>n. ce_lruIt e = Some n \<and> (n, se_id se, ce_path e) \<in> set (dc_lru c)"
    if se: "se \<in> set (dc_serverList c)" and e: "e \<in> set (se_cacheList se)" for se e
  proof -
    obtain i where i: "i < length (dc_serverList c)" "se = server_at c i"
      using se by (metis in_set_conv_nth)
    have "lru_node (se_id se) e \<in># sum_list (map server_nodes (dc_serverList c))"
      using lru_node_in [OF i(1), of e] e i(2) sum_list_nth_split(1) [OF i(1), of server_nodes]
      by (simp add: cacheList_def)
    moreover have "ce_lruIt e \<noteq> None"
      using server_ok_nth [OF ok i(1)] e i(2) by (simp add: server_ok_def entry_ok_def)
    moreover have "set (dc_lru c) = set_mset (sum_list (map server_nodes (dc_serverList c)))"
      using lru unfolding lru_ok_def by (metis set_mset_mset)
    ultimately have "ce_lruIt e = Some (the (ce_lruIt e)) \<and> (the (ce_lruIt e), se_id se, ce_path e) \<in> set (dc_lru c)"
      unfolding lru_node_def by (metis option.collapse)
    then show ?thesis by blast
  qed
  have "length (dc_lru c) = size (sum_list (map server_nodes (dc_serverList c)))"
    using lru by (metis lru_ok_def size_mset)
  moreover have "server_files = (\<lambda>se. sum_list (map (\<lambda>e. int (listing_size (ce_listing e))) (se_cacheList se)))"
    by (simp add: fun_eq_iff server_files_def ce_size_def [abs_def])
  moreover have "distinct (dc_lru c)" using lru by (simp add: lru_ok_def distinct_map)
  moreover have "distinct (map ce_path (se_cacheList se))" if "se \<in> set (dc_serverList c)" for se
    using that paths_distinct [OF ok] by (auto simp: in_set_conv_nth cacheList_def)
  ultimately show ?thesis
    using ok node sum_server_nodes_size [of "dc_serverList c"] by (simp add: cache_ok_def servers_ok_def)
qed

theorem dir_cache_accounting_witness:
  "dc_totalFileCount sample_cache = 1 \<and> length (dc_lru sample_cache) = 1"
proof -
  have "sum_list (map (\<lambda>se. sum_list (map (\<lambda>e. int (listing_size (ce_listing e))) (se_cacheList se))) (dc_serverList sample_cache)) = 1"
    "sum_list (map (\<lambda>se. length (se_cacheList se)) (dc_serverList sample_cache)) = 1" by code_simp+
  then show ?thesis using dir_cache_accounting [OF libfz_std_laws(6) sample_reachable] by argo
qed

text \<open>Destroying a reachable cache unlinks every node and ends with a file count of zero, as
  the assertion of debug builds demands.\<close>

theorem dir_cache_destroy_clean:
  assumes "multimap_law L" "cache_reachable L c"
  shows "dc_totalFileCount (cache_destroy c) = 0 \<and> dc_lru (cache_destroy c) = []"
proof -
  have drop: "lru_ok (dc_lru (foldl (\<lambda>c se. foldl (\<lambda>c e. drop_entry e c) c (se_cacheList se)) c ses)) (dc_next c) {#} \<and>
      dc_totalFileCount (foldl (\<lambda>c se. foldl (\<lambda>c e. drop_entry e c) c (se_cacheList se)) c ses) = 0"
    if "\<forall>se \<in> set ses. \<forall>e \<in> set (se_cacheList se). ce_lruIt e \<noteq> None"
      "lru_ok (dc_lru c) (dc_next c) (sum_list (map server_nodes ses))"
      "dc_totalFileCount c = sum_list (map server_files ses)" for ses c
    using that
  proof (induction ses arbitrary: c)
    case (Cons se ses)
    have links: "\<forall>e \<in> set (se_cacheList se). ce_lruIt e \<noteq> None" using Cons.prems(1) by simp
    note fd = foldl_drop [OF links, of c "se_id se" "sum_list (map server_nodes ses)"]
    let ?c = "foldl (\<lambda>c e. drop_entry e c) c (se_cacheList se)"
    have "lru_ok (dc_lru ?c) (dc_next ?c) (sum_list (map server_nodes ses))"
      "dc_totalFileCount ?c = sum_list (map server_files ses)" and nx: "dc_next ?c = dc_next c"
      using fd Cons.prems(2,3) by (simp_all add: server_nodes_def [of se] server_files_def [of se])
    then show ?case using Cons.IH [of ?c] Cons.prems(1) nx by simp
  qed simp
  note ok = cache_reachable_ok [OF assms]
  have "\<forall>se \<in> set (dc_serverList c). \<forall>e \<in> set (se_cacheList se). ce_lruIt e \<noteq> None"
    using ok by (auto simp: cache_ok_def servers_ok_def server_ok_def entry_ok_def)
  from drop [OF this, of c] show ?thesis
    using ok by (simp add: cache_ok_def cache_destroy_def lru_ok_def)
qed

theorem dir_cache_destroy_clean_witness:
  "let c = snd (cache_UpdateFile libfz_std 6 sample_server sample_path ''y'' True ft_file 3 [] sample_cache)
   in dc_totalFileCount c = 2 \<and> dc_totalFileCount (cache_destroy c) = 0"
proof -
  let ?c = "snd (cache_UpdateFile libfz_std 6 sample_server sample_path ''y'' True ft_file 3 [] sample_cache)"
  have reach: "cache_reachable libfz_std ?c"
    by (rule cache_reachable.step [OF sample_reachable cache_step.UpdateFile])
  have "dc_totalFileCount ?c = 2" by code_simp
  then show ?thesis using dir_cache_destroy_clean [OF libfz_std_laws(6) reach] unfolding Let_def by simp
qed

subsection \<open>Servers with the same content\<close>

lemma SameContent_refl [simp]: "SameContent s s"
  by (simp add: SameContent_def SameResource_def list_all_iff)

lemma SameContent_sym: "SameContent a b \<Longrightarrow> SameContent b a"
  by (auto simp: SameContent_def SameResource_def list_all_iff)

lemma SameContent_trans:
  assumes "SameContent a b" "SameContent b c"
  shows "SameContent a c"
proof -
  have par: "has_flag (pt_flags t) flag_content_transparent \<or> GetExtraParameter x (pt_name t) = GetExtraParameter y (pt_name t)"
    if "SameContent x y" "t \<in> set (ExtraServerParameterTraits (sv_protocol x))" for x y t
    using that by (simp add: SameContent_def SameResource_def list_all_iff)
  have prot: "sv_protocol a = sv_protocol b" using assms(1) by (simp add: SameContent_def SameResource_def)
  have "has_flag (pt_flags t) flag_content_transparent \<or> GetExtraParameter a (pt_name t) = GetExtraParameter c (pt_name t)"
    if "t \<in> set (ExtraServerParameterTraits (sv_protocol a))" for t
    using par [OF assms(1) that] par [OF assms(2), of t] that unfolding prot by metis
  then show ?thesis using assms by (simp add: SameContent_def SameResource_def list_all_iff)
qed

lemma same_server_unique:
  assumes "cache_ok L c" "se \<in> set (dc_serverList c)" "se' \<in> set (dc_serverList c)"
    "SameContent (se_server se) s" "SameContent (se_server se') s"
  shows "se = se'"
proof (rule ccontr)
  assume ne: "se \<noteq> se'"
  have sw: "sorted_wrt (\<lambda>a b. \<not> SameContent (se_server a) (se_server b)) (dc_serverList c)"
    using assms(1) by (simp add: cache_ok_def servers_ok_def)
  obtain i j where ij: "i < length (dc_serverList c)" "j < length (dc_serverList c)" "se = server_at c i" "se' = server_at c j"
    using assms(2,3) by (auto simp: in_set_conv_nth)
  then have "i < j \<or> j < i" using ne by (metis linorder_neqE_nat)
  then have "\<not> SameContent (se_server se) (se_server se') \<or> \<not> SameContent (se_server se') (se_server se)"
    using sorted_wrt_nth_less [OF sw] ij by blast
  then show False using assms(4,5) SameContent_sym SameContent_trans by blast
qed

end
