(* ===== verification/Dir_Cache_Refine.thy ===== *)
theory Dir_Cache_Refine
  imports Dir_Cache_Props
begin

text \<open>
  The directory cache as a finite map from servers, up to \<open>SameContent\<close>, and paths to
  listings: \<open>Lookup\<close> reads it, \<open>Store\<close> updates it, \<open>InvalidateServer\<close> and \<open>RemoveDir\<close>
  restrict it, and pruning forgets entries but never the one just stored.
\<close>

subsection \<open>The abstract map\<close>

definition abs_cache :: "CDirectoryCache \<Rightarrow> CServer \<Rightarrow> CServerPath \<Rightarrow> CDirectoryListing option" where
  "abs_cache c s p =
     (case GetServerEntry c s of None \<Rightarrow> None
      | Some i \<Rightarrow> map_option ce_listing (find (\<lambda>e. ce_path e = p) (cacheList c i)))"

text \<open>All cached entries with their servers, and the relation the map is the function of.\<close>

definition triples :: "CDirectoryCache \<Rightarrow> (CServer \<times> nat \<times> CCacheEntry) set" where
  "triples c = {(se_server se, se_id se, e) | se e. se \<in> set (dc_serverList c) \<and> e \<in> set (se_cacheList se)}"

definition holds :: "CDirectoryCache \<Rightarrow> CServer \<Rightarrow> CServerPath \<Rightarrow> CDirectoryListing \<Rightarrow> bool" where
  "holds c s p l \<longleftrightarrow> (\<exists>(sv, sid, e) \<in> triples c. SameContent sv s \<and> ce_path e = p \<and> ce_listing e = l)"

lemma holds_iff:
  "holds c s p l \<longleftrightarrow> (\<exists>se \<in> set (dc_serverList c). SameContent (se_server se) s \<and>
     (\<exists>e \<in> set (se_cacheList se). ce_path e = p \<and> ce_listing e = l))"
  unfolding holds_def triples_def by auto

lemma path_entry_unique:
  assumes "cache_ok L c" "se \<in> set (dc_serverList c)" "e \<in> set (se_cacheList se)" "e' \<in> set (se_cacheList se)"
    "ce_path e = ce_path e'"
  shows "e = e'"
proof -
  obtain i where "i < length (dc_serverList c)" "se = server_at c i" using assms(2) by (metis in_set_conv_nth)
  then have "distinct (map ce_path (se_cacheList se))" using paths_distinct [OF assms(1)] by (simp add: cacheList_def)
  then show ?thesis using assms(3-5) by (simp add: distinct_map inj_on_def)
qed

lemma triple_unique:
  assumes "cache_ok L c" "(sv, sid, e) \<in> triples c" "(sv', sid', e') \<in> triples c"
    "SameContent sv s" "SameContent sv' s" "ce_path e = ce_path e'"
  shows "(sv, sid, e) = (sv', sid', e')"
proof -
  obtain se where se: "se \<in> set (dc_serverList c)" "sv = se_server se" "sid = se_id se" "e \<in> set (se_cacheList se)"
    using assms(2) by (auto simp: triples_def)
  obtain se' where se': "se' \<in> set (dc_serverList c)" "sv' = se_server se'" "sid' = se_id se'" "e' \<in> set (se_cacheList se')"
    using assms(3) by (auto simp: triples_def)
  have "se = se'" using same_server_unique [OF assms(1) se(1) se'(1)] assms(4,5) se(2) se'(2) by simp
  then show ?thesis using path_entry_unique [OF assms(1) se(1,4), of e'] se se' assms(6) by simp
qed

lemma holds_unique: "cache_ok L c \<Longrightarrow> holds c s p l \<Longrightarrow> holds c s p l' \<Longrightarrow> l = l'"
  unfolding holds_def using triple_unique by fast

lemma find_by_key: "distinct (map f xs) \<Longrightarrow> find (\<lambda>e. f e = p) xs = Some e \<longleftrightarrow> e \<in> set xs \<and> f e = p"
  by (induction xs) auto

lemma abs_holds:
  assumes "cache_ok L c"
  shows "abs_cache c s p = Some l \<longleftrightarrow> holds c s p l"
proof (cases "GetServerEntry c s")
  case None
  then have "\<forall>se \<in> set (dc_serverList c). \<not> SameContent (se_server se) s" by (simp add: GetServerEntry_def)
  then have "\<not> holds c s p l" by (auto simp: holds_def triples_def)
  then show ?thesis using None by (simp add: abs_cache_def)
next
  case (Some i)
  then have i: "i < length (dc_serverList c)" "SameContent (se_server (server_at c i)) s"
    using GetServerEntry_less [OF Some] find_idx_hit unfolding GetServerEntry_def by metis+
  have "holds c s p l \<longleftrightarrow> (\<exists>e \<in> set (cacheList c i). ce_path e = p \<and> ce_listing e = l)"
  proof
    assume "holds c s p l"
    then obtain se e where se: "se \<in> set (dc_serverList c)" "SameContent (se_server se) s"
      and e: "e \<in> set (se_cacheList se)" "ce_path e = p" "ce_listing e = l"
      by (auto simp: holds_def triples_def)
    have "se = server_at c i" using same_server_unique [OF assms se(1) _ se(2) i(2)] i(1) by simp
    then show "\<exists>e \<in> set (cacheList c i). ce_path e = p \<and> ce_listing e = l" using e by (auto simp: cacheList_def)
  next
    assume "\<exists>e \<in> set (cacheList c i). ce_path e = p \<and> ce_listing e = l"
    then obtain e where e: "e \<in> set (cacheList c i)" "ce_path e = p" "ce_listing e = l" by blast
    have "(se_server (server_at c i), se_id (server_at c i), e) \<in> triples c"
      using e(1) nth_mem [OF i(1)] unfolding triples_def cacheList_def by blast
    then show "holds c s p l" using e(2,3) i(2) unfolding holds_def by blast
  qed
  moreover note find_by_key [OF paths_distinct [OF assms i(1)], of p]
  ultimately show ?thesis using Some by (auto simp: abs_cache_def)
qed

lemma abs_eqI:
  assumes "\<And>l. f = Some l \<longleftrightarrow> g = Some l"
  shows "f = g"
  using assms by (metis option.exhaust)

text \<open>Replacing the listings of one server.\<close>

lemma triples_put:
  assumes "cache_ok L c" "i < length (dc_serverList c)" "dc_serverList c' = dc_serverList c"
  shows "triples (put_cacheList i xs c') =
    {t \<in> triples c. fst (snd t) \<noteq> se_id (server_at c i)} \<union>
    {(se_server (server_at c i), se_id (server_at c i), e) | e. e \<in> set xs}"
proof -
  let ?ses = "dc_serverList c" and ?se = "(server_at c i)\<lparr>se_cacheList := xs\<rparr>"
  have d: "distinct (map se_id ?ses)" using assms(1) by (simp add: cache_ok_def servers_ok_def)
  then have "distinct ?ses" by (simp add: distinct_map)
  then have set: "set (?ses[i := ?se]) = insert ?se (set ?ses - {server_at c i})"
    using assms(2) by (simp add: set_update_distinct)
  have other: "se \<noteq> server_at c i \<longleftrightarrow> se_id se \<noteq> se_id (server_at c i)" if "se \<in> set ?ses" for se
    using d that nth_mem [OF assms(2)] by (auto simp: distinct_map inj_on_def)
  have eq: "dc_serverList (put_cacheList i xs c') = ?ses[i := ?se]" using assms(3) by (simp add: put_cacheList_def)
  have "triples (put_cacheList i xs c') =
      {(se_server se, se_id se, e) | se e. se \<in> set ?ses - {server_at c i} \<and> e \<in> set (se_cacheList se)} \<union>
      {(se_server (server_at c i), se_id (server_at c i), e) | e. e \<in> set xs}"
    unfolding triples_def eq set by auto (rule exI [of _ ?se], simp)
  moreover have "{(se_server se, se_id se, e) | se e. se \<in> set ?ses - {server_at c i} \<and> e \<in> set (se_cacheList se)}
      = {t \<in> triples c. fst (snd t) \<noteq> se_id (server_at c i)}"
    using other unfolding triples_def by auto
  ultimately show ?thesis by simp
qed

lemma holds_put:
  assumes "cache_ok L c" "i < length (dc_serverList c)" "dc_serverList c' = dc_serverList c"
  shows "holds (put_cacheList i xs c') s p l \<longleftrightarrow>
    (if SameContent (se_server (server_at c i)) s then \<exists>e \<in> set xs. ce_path e = p \<and> ce_listing e = l
     else holds c s p l)"
proof -
  have same: "sid = se_id (server_at c i) \<longleftrightarrow> SameContent (se_server (server_at c i)) s"
    if t: "(sv, sid, e) \<in> triples c" and sc: "SameContent sv s" for sv sid e
  proof -
    obtain se where se: "se \<in> set (dc_serverList c)" "sv = se_server se" "sid = se_id se"
      using t by (auto simp: triples_def)
    have "distinct (map se_id (dc_serverList c))" using assms(1) by (simp add: cache_ok_def servers_ok_def)
    then have "sid = se_id (server_at c i) \<Longrightarrow> se = server_at c i"
      using se nth_mem [OF assms(2)] by (auto simp: distinct_map inj_on_def)
    then show ?thesis using sc se same_server_unique [OF assms(1) se(1) nth_mem [OF assms(2)]] by metis
  qed
  show ?thesis
  proof (cases "SameContent (se_server (server_at c i)) s")
    case True
    then show ?thesis using same unfolding holds_def triples_put [OF assms] by fastforce
  next
    case False
    then show ?thesis using same unfolding holds_def triples_put [OF assms] by fastforce
  qed
qed

subsection \<open>Looking up\<close>

lemma GetServerEntry_server:
  assumes "GetServerEntry c s = Some i"
  shows "i < length (dc_serverList c)" "SameContent (se_server (server_at c i)) s"
  using GetServerEntry_less [OF assms] find_idx_hit assms unfolding GetServerEntry_def by metis+

text \<open>What the inner lookup finds.\<close>

lemma Lookup_iter_result:
  assumes "cache_ok L c" "i < length (dc_serverList c)" "path_key_ok p"
  shows "fst (Lookup_iter now c i p a) =
      (case find (\<lambda>e. ce_path e = p) (cacheList c i) of None \<Rightarrow> None
       | Some e \<Rightarrow> if \<not> a \<and> get_unsure_flags (ce_listing e) \<noteq> 0 then None
                  else Some (now - dl_firstListTime (ce_listing e) > dc_ttl c))"
    and "find (\<lambda>e. ce_path e = p) (cacheList c i) = Some e \<Longrightarrow>
      cacheList c i ! fst (snd (Lookup_iter now c i p a)) = e"
proof -
  let ?pos = "length (before_bound path_less ce_path p (cacheList c i))"
  note fk = find_by_key [OF paths_distinct [OF assms(1,2)], of p]
  note pos = path_pos [OF assms]
  have some: "?pos < length (cacheList c i) \<and> cacheList c i ! ?pos = e"
    if "find (\<lambda>e. ce_path e = p) (cacheList c i) = Some e" for e using that fk pos(1) by blast
  have none: "\<not> (?pos < length (cacheList c i) \<and> ce_path (cacheList c i ! ?pos) = p)"
    if f: "find (\<lambda>e. ce_path e = p) (cacheList c i) = None"
  proof
    assume h: "?pos < length (cacheList c i) \<and> ce_path (cacheList c i ! ?pos) = p"
    then have "cacheList c i ! ?pos \<in> set (cacheList c i)" by simp
    then show False using h f unfolding find_None_iff by blast
  qed
  show "fst (Lookup_iter now c i p a) =
      (case find (\<lambda>e. ce_path e = p) (cacheList c i) of None \<Rightarrow> None
       | Some e \<Rightarrow> if \<not> a \<and> get_unsure_flags (ce_listing e) \<noteq> 0 then None
                  else Some (now - dl_firstListTime (ce_listing e) > dc_ttl c))"
  proof (cases "find (\<lambda>e. ce_path e = p) (cacheList c i)")
    case None
    then show ?thesis using none by (auto simp: Lookup_iter_def Let_def)
  next
    case (Some e)
    then have pe: "ce_path e = p" using fk by blast
    show ?thesis unfolding Some using some [OF Some] pe by (simp add: Lookup_iter_def Let_def)
  qed
  show "find (\<lambda>e. ce_path e = p) (cacheList c i) = Some e \<Longrightarrow>
      cacheList c i ! fst (snd (Lookup_iter now c i p a)) = e"
    using some fk by (auto simp: Lookup_iter_def Let_def)
qed

lemma abs_servers: "dc_serverList c' = dc_serverList c \<Longrightarrow> abs_cache c' = abs_cache c"
proof -
  assume eq: "dc_serverList c' = dc_serverList c"
  have cl: "cacheList c' = cacheList c" by (intro ext) (simp add: cacheList_def eq)
  have gs: "GetServerEntry c' = GetServerEntry c" by (intro ext) (simp add: GetServerEntry_def eq)
  show ?thesis by (intro ext) (simp only: abs_cache_def cl gs)
qed

lemma Lookup_abs:
  assumes "cache_ok L c" "path_key_ok p"
  shows "fst (cache_Lookup now s p a c) =
      (case abs_cache c s p of None \<Rightarrow> None
       | Some l \<Rightarrow> if \<not> a \<and> get_unsure_flags l \<noteq> 0 then None else Some (l, now - dl_firstListTime l > dc_ttl c))"
    and "abs_cache (snd (cache_Lookup now s p a c)) = abs_cache c"
proof -
  have "fst (cache_Lookup now s p a c) =
      (case abs_cache c s p of None \<Rightarrow> None
       | Some l \<Rightarrow> if \<not> a \<and> get_unsure_flags l \<noteq> 0 then None else Some (l, now - dl_firstListTime l > dc_ttl c)) \<and>
    abs_cache (snd (cache_Lookup now s p a c)) = abs_cache c"
  proof (cases "GetServerEntry c s")
    case None
    then show ?thesis by (simp add: cache_Lookup_def abs_cache_def)
  next
    case (Some i)
    note i = GetServerEntry_less [OF Some]
    obtain r pos c1 where look: "Lookup_iter now c i p a = (r, pos, c1)" by (metis surj_pair)
    have sl: "dc_serverList c1 = dc_serverList c" by (rule Lookup_iter_servers [OF assms(1) i look])
    then have cl: "cacheList c1 i = cacheList c i" by (simp add: cacheList_def)
    note res = Lookup_iter_result [OF assms(1) i assms(2), where now = now and a = a, unfolded look]
    show ?thesis
    proof (cases "find (\<lambda>e. ce_path e = p) (cacheList c i)")
      case None
      then have "r = None" using res(1) by simp
      then show ?thesis using Some look None abs_servers [OF sl] by (simp add: cache_Lookup_def abs_cache_def)
    next
      case (Some e)
      then have "cacheList c i ! pos = e" using res(2) by simp
      then show ?thesis
        using \<open>GetServerEntry c s = Some i\<close> look Some abs_servers [OF sl] res(1) cl
        by (simp add: cache_Lookup_def abs_cache_def)
    qed
  qed
  then show "fst (cache_Lookup now s p a c) =
      (case abs_cache c s p of None \<Rightarrow> None
       | Some l \<Rightarrow> if \<not> a \<and> get_unsure_flags l \<noteq> 0 then None else Some (l, now - dl_firstListTime l > dc_ttl c))"
    and "abs_cache (snd (cache_Lookup now s p a c)) = abs_cache c" by blast+
qed

subsection \<open>Forgetting servers\<close>

lemma set_remove_at_distinct:
  assumes "distinct xs" "i < length xs"
  shows "set (remove_at i xs) = set xs - {xs ! i}"
proof -
  have xs: "xs = take i xs @ xs ! i # drop (Suc i) xs" using assms(2) by (rule id_take_nth_drop)
  then have "distinct (take i xs @ xs ! i # drop (Suc i) xs)" using assms(1) by simp
  moreover have "set xs = set (take i xs) \<union> {xs ! i} \<union> set (drop (Suc i) xs)" using arg_cong [OF xs, of set] by simp
  ultimately show ?thesis unfolding remove_at_def distinct_append by auto
qed

lemma servers_distinct: "cache_ok L c \<Longrightarrow> distinct (dc_serverList c)"
  by (simp add: cache_ok_def servers_ok_def distinct_map)

lemma InvalidateServer_abs:
  assumes "cache_ok L c"
  shows "abs_cache (cache_InvalidateServer s c) s' p = (if SameContent s s' then None else abs_cache c s' p)"
proof (cases "find_idx (\<lambda>se. SameContent (se_server se) s) (dc_serverList c)")
  case None
  then have run: "cache_InvalidateServer s c = c" by (simp add: cache_InvalidateServer_def del: find_idx_None)
  have "abs_cache c s' p = None" if same: "SameContent s s'"
  proof -
    have "\<not> SameContent (se_server se) s'" if "se \<in> set (dc_serverList c)" for se
      using None that SameContent_trans [OF _ SameContent_sym [OF same], of "se_server se"] by auto
    then have "GetServerEntry c s' = None" by (simp add: GetServerEntry_def)
    then show ?thesis by (simp add: abs_cache_def)
  qed
  then show ?thesis using run by simp
next
  case (Some i)
  then have "GetServerEntry c s = Some i" by (simp add: GetServerEntry_def)
  note i = GetServerEntry_server [OF this]
  let ?c' = "cache_InvalidateServer s c"
  have ok: "cache_ok L ?c'" using InvalidateServer_ok [OF assms] .
  have "set (dc_serverList ?c') = set (dc_serverList c) - {server_at c i}"
    using Some set_remove_at_distinct [OF servers_distinct [OF assms] i(1)] by (simp add: cache_InvalidateServer_def)
  moreover have "se = server_at c i \<longleftrightarrow> SameContent s s'"
    if se: "se \<in> set (dc_serverList c)" "SameContent (se_server se) s'" for se
  proof
    assume "se = server_at c i"
    then show "SameContent s s'" using i(2) se(2) SameContent_trans SameContent_sym by blast
  next
    assume "SameContent s s'"
    then have "SameContent (se_server (server_at c i)) s'" using i(2) SameContent_trans by blast
    then show "se = server_at c i" by (rule same_server_unique [OF assms se(1) nth_mem [OF i(1)] se(2)])
  qed
  ultimately have "holds ?c' s' p l \<longleftrightarrow> \<not> SameContent s s' \<and> holds c s' p l" for l
    unfolding holds_iff by blast
  then have "abs_cache ?c' s' p = Some l \<longleftrightarrow> (if SameContent s s' then None else abs_cache c s' p) = Some l" for l
    using abs_holds [OF ok] abs_holds [OF assms] by simp
  then show ?thesis by (rule abs_eqI)
qed

text \<open>C26: The cache refines a finite map.  \<open>Lookup\<close> returns what the map holds for the server
  and the path, unless an unsure listing was not asked for, reports it outdated exactly when it is
  older than the time to live, and leaves the map as it was; \<open>InvalidateServer\<close> takes away exactly
  the listings of all servers with the same content.\<close>

theorem dir_cache_refines_map:
  assumes "multimap_law L" "cache_reachable L c" "path_key_ok p"
  shows "fst (cache_Lookup now s p a c) =
      (case abs_cache c s p of None \<Rightarrow> None
       | Some l \<Rightarrow> if \<not> a \<and> get_unsure_flags l \<noteq> 0 then None else Some (l, now - dl_firstListTime l > dc_ttl c)) \<and>
    abs_cache (snd (cache_Lookup now s p a c)) = abs_cache c \<and>
    abs_cache (cache_InvalidateServer s c) = (\<lambda>s' p'. if SameContent s s' then None else abs_cache c s' p')"
  using Lookup_abs [OF cache_reachable_ok [OF assms(1,2)] assms(3)]
    InvalidateServer_abs [OF cache_reachable_ok [OF assms(1,2)]] by (simp add: fun_eq_iff)

theorem dir_cache_refines_map_witness:
  "fst (cache_Lookup 400000 sample_server sample_path False sample_cache) = Some (sample_listing, True) \<and>
   fst (cache_Lookup 5 sample_server sample_path False sample_cache) = Some (sample_listing, False)"
proof -
  have "abs_cache sample_cache sample_server sample_path = Some sample_listing"
    "get_unsure_flags sample_listing = 0" "dl_firstListTime sample_listing = 0" "dc_ttl sample_cache = 300000" by code_simp+
  then show ?thesis
    using dir_cache_refines_map [OF libfz_std_laws(6) sample_reachable sample_facts(2), of 400000 sample_server False]
      dir_cache_refines_map [OF libfz_std_laws(6) sample_reachable sample_facts(2), of 5 sample_server False] by simp
qed

end
