(* ===== verification/Dir_Cache_Store.thy ===== *)
theory Dir_Cache_Store
  imports Dir_Cache_Refine
begin

text \<open>
  Pruning: exactly the least recently used listings go, as few as possible.  Storing a listing: it
  can be looked up afterwards under every server with the same content, and
  every other answer stays the same or, when the limits are exceeded, may be forgotten.
\<close>

subsection \<open>Pruning forgets old entries only\<close>

lemma triples_remove_server:
  assumes "cache_ok L c" "i < length (dc_serverList c)" "dc_serverList c' = remove_at i (dc_serverList c)"
  shows "triples c' = {t \<in> triples c. fst (snd t) \<noteq> se_id (server_at c i)}"
proof -
  have d: "distinct (map se_id (dc_serverList c))" using assms(1) by (simp add: cache_ok_def servers_ok_def)
  have set: "set (dc_serverList c') = set (dc_serverList c) - {server_at c i}"
    using set_remove_at_distinct [OF servers_distinct [OF assms(1)] assms(2)] assms(3) by simp
  have "se \<noteq> server_at c i \<longleftrightarrow> se_id se \<noteq> se_id (server_at c i)" if "se \<in> set (dc_serverList c)" for se
    using d that nth_mem [OF assms(2)] by (auto simp: distinct_map inj_on_def)
  then show ?thesis unfolding triples_def set by auto
qed

lemma triples_at:
  assumes "cache_ok L c" "i < length (dc_serverList c)"
  shows "{t \<in> triples c. fst (snd t) = se_id (server_at c i)} =
    {(se_server (server_at c i), se_id (server_at c i), e) | e. e \<in> set (cacheList c i)}"
proof -
  have d: "distinct (map se_id (dc_serverList c))" using assms(1) by (simp add: cache_ok_def servers_ok_def)
  have same: "se = server_at c i" if "se \<in> set (dc_serverList c)" "se_id se = se_id (server_at c i)" for se
    using d that nth_mem [OF assms(2)] by (auto simp: distinct_map inj_on_def)
  show ?thesis
  proof (intro equalityI subsetI)
    fix t assume "t \<in> {t \<in> triples c. fst (snd t) = se_id (server_at c i)}"
    then obtain se e where "t = (se_server se, se_id se, e)" "se \<in> set (dc_serverList c)" "e \<in> set (se_cacheList se)"
      "se_id se = se_id (server_at c i)" by (auto simp: triples_def)
    then show "t \<in> {(se_server (server_at c i), se_id (server_at c i), e) | e. e \<in> set (cacheList c i)}"
      using same by (auto simp: cacheList_def)
  next
    fix t assume "t \<in> {(se_server (server_at c i), se_id (server_at c i), e) | e. e \<in> set (cacheList c i)}"
    then obtain e where "t = (se_server (server_at c i), se_id (server_at c i), e)" "e \<in> set (se_cacheList (server_at c i))"
      by (auto simp: cacheList_def)
    then show "t \<in> {t \<in> triples c. fst (snd t) = se_id (server_at c i)}"
      using nth_mem [OF assms(2)] unfolding triples_def by simp blast
  qed
qed

lemma prune_step_triples:
  assumes "cache_ok L c" "dc_lru c \<noteq> []"
  obtains sv sid e where "lru_node sid e = hd (dc_lru c)" "(sv, sid, e) \<in> triples c"
    "triples (prune_step c) = triples c - {(sv, sid, e)}"
proof -
  obtain i pos where i: "i < length (dc_serverList c)" and pos: "pos < length (cacheList c i)"
    and hd: "hd (dc_lru c) = lru_node (se_id (server_at c i)) (cacheList c i ! pos)"
    and step: "prune_step c =
      (let c2 = c\<lparr>dc_lru := tl (dc_lru c), dc_totalFileCount := dc_totalFileCount c - ce_size (cacheList c i ! pos)\<rparr>;
           xs = remove_at pos (cacheList c i)
       in if xs = [] then c2\<lparr>dc_serverList := remove_at i (dc_serverList c)\<rparr> else put_cacheList i xs c2)"
    using prune_step_parts [OF assms] by blast
  let ?e = "cacheList c i ! pos" and ?xs = "remove_at pos (cacheList c i)"
  let ?sv = "se_server (server_at c i)" and ?sid = "se_id (server_at c i)"
  have "distinct (cacheList c i)" using paths_distinct [OF assms(1) i] by (simp add: distinct_map)
  then have set: "set ?xs = set (cacheList c i) - {?e}" using pos by (rule set_remove_at_distinct)
  have parts: "triples c = {t \<in> triples c. fst (snd t) \<noteq> ?sid} \<union> {(?sv, ?sid, e) | e. e \<in> set (cacheList c i)}"
    using triples_at [OF assms(1) i] by blast
  have "triples (prune_step c) = {t \<in> triples c. fst (snd t) \<noteq> ?sid} \<union> {(?sv, ?sid, e) | e. e \<in> set ?xs}"
  proof (cases "?xs = []")
    case True
    then show ?thesis using step triples_remove_server [OF assms(1) i, of "prune_step c"] by (simp add: Let_def)
  next
    case False
    let ?c2 = "c\<lparr>dc_lru := tl (dc_lru c), dc_totalFileCount := dc_totalFileCount c - ce_size ?e\<rparr>"
    have "prune_step c = put_cacheList i ?xs ?c2" using step False by (simp add: Let_def)
    then show ?thesis using triples_put [OF assms(1) i, of ?c2 ?xs] by simp
  qed
  also have "\<dots> = triples c - {(?sv, ?sid, ?e)}" unfolding set by (subst (2) parts) auto
  finally have "triples (prune_step c) = triples c - {(?sv, ?sid, ?e)}" .
  moreover have "(?sv, ?sid, ?e) \<in> triples c" using parts nth_mem [OF pos] by blast
  ultimately show ?thesis using that hd by simp
qed

lemma Prune_triples:
  assumes "cache_ok L c"
  shows "triples (Prune c) \<subseteq> triples c \<and>
    (\<forall>sv sid e. (sv, sid, e) \<in> triples c \<longrightarrow> dc_lru c \<noteq> [] \<longrightarrow> lru_node sid e = last (dc_lru c) \<longrightarrow>
       (sv, sid, e) \<in> triples (Prune c))"
  using assms
proof (induction c rule: Prune.induct)
  case (1 c)
  show ?case
  proof (cases "prune_needed c")
    case True
    then have long: "length (dc_lru c) > 100" by (auto simp: prune_needed_def)
    then have ne: "dc_lru c \<noteq> []" "tl (dc_lru c) \<noteq> []" by (cases "dc_lru c"; cases "tl (dc_lru c)"; force)+
    have P: "Prune c = Prune (prune_step c)" using True by (subst Prune.simps) simp
    obtain sv0 sid0 e0 where t0: "lru_node sid0 e0 = hd (dc_lru c)" "triples (prune_step c) = triples c - {(sv0, sid0, e0)}"
      by (rule prune_step_triples [OF 1(2) ne(1)])
    note IH = 1(1) [OF True prune_step_ok [OF 1(2) ne(1)]]
    have "distinct (dc_lru c)" using 1(2) by (simp add: cache_ok_def lru_ok_def distinct_map)
    then have "hd (dc_lru c) \<noteq> last (dc_lru c)" using ne by (cases "dc_lru c") (auto split: if_splits)
    moreover have "last (dc_lru (prune_step c)) = last (dc_lru c)" "dc_lru (prune_step c) \<noteq> []"
      using ne by (simp_all add: prune_step_lru last_tl)
    ultimately have keep: "(sv, sid, e) \<in> triples (Prune (prune_step c))"
      if "(sv, sid, e) \<in> triples c" "lru_node sid e = last (dc_lru c)" for sv sid e
      using IH t0 that by (metis Diff_iff prod.inject singletonD)
    show ?thesis unfolding P using keep IH t0(2) by blast
  next
    case False
    then have "Prune c = c" by (subst Prune.simps) simp
    then show ?thesis by simp
  qed
qed

subsection \<open>What is pruned\<close>

text \<open>The listings whose nodes are not among the first \<open>k\<close>, the least recently used ones, and the
  number of their files; and the limits, on the number of listings and of files.\<close>

definition kept_after :: "CDirectoryCache \<Rightarrow> nat \<Rightarrow> (CServer \<times> nat \<times> CCacheEntry) set" where
  "kept_after c k = {(sv, sid, e). (sv, sid, e) \<in> triples c \<and> lru_node sid e \<notin> set (take k (dc_lru c))}"

definition file_sum :: "(CServer \<times> nat \<times> CCacheEntry) set \<Rightarrow> int" where
  "file_sum T = (\<Sum>t \<in> T. ce_size (snd (snd t)))"

definition over_limits :: "nat \<Rightarrow> int \<Rightarrow> bool" where
  "over_limits listings files \<longleftrightarrow>
     listings > 50000 \<or> listings > 1000 \<and> files > 1000000 \<or> listings > 100 \<and> files > 5000000"

lemma triples_image:
  "triples c = (\<lambda>(se, e). (se_server se, se_id se, e)) ` (SIGMA se : set (dc_serverList c). set (se_cacheList se))"
  by (auto simp: triples_def)

lemma total_file_sum:
  assumes "cache_ok L c"
  shows "dc_totalFileCount c = file_sum (triples c)"
proof -
  let ?ses = "dc_serverList c"
  have d: "distinct (map se_id ?ses)" using assms by (simp add: cache_ok_def servers_ok_def)
  have es: "distinct (se_cacheList se)" if se: "se \<in> set ?ses" for se
  proof -
    obtain i where "i < length ?ses" "se = server_at c i" using se by (metis in_set_conv_nth)
    then show ?thesis using paths_distinct [OF assms] by (simp add: cacheList_def distinct_map)
  qed
  have "dc_totalFileCount c = (\<Sum>se \<in> set ?ses. server_files se)"
    using assms servers_distinct [OF assms] by (simp add: cache_ok_def sum_list_distinct_conv_sum_set)
  also have "\<dots> = (\<Sum>se \<in> set ?ses. \<Sum>e \<in> set (se_cacheList se). ce_size e)"
    using es by (intro sum.cong) (simp_all add: server_files_def sum_list_distinct_conv_sum_set)
  also have "\<dots> = (\<Sum>(se, e) \<in> (SIGMA se : set ?ses. set (se_cacheList se)). ce_size e)"
    by (rule sum.Sigma) simp_all
  also have "\<dots> = file_sum (triples c)"
  proof -
    have "inj_on (\<lambda>(se, e). (se_server se, se_id se, e)) (SIGMA se : set ?ses. set (se_cacheList se))"
      using d by (auto simp: inj_on_def distinct_map)
    then show ?thesis unfolding file_sum_def triples_image
      by (simp add: sum.reindex comp_def case_prod_unfold)
  qed
  finally show ?thesis .
qed

lemma node_unique:
  assumes "cache_ok L c" "(sv, sid, e) \<in> triples c" "(sv', sid', e') \<in> triples c" "lru_node sid e = lru_node sid' e'"
  shows "(sv, sid, e) = (sv', sid', e')"
proof -
  obtain se where se: "se \<in> set (dc_serverList c)" "sv = se_server se" "sid = se_id se" "e \<in> set (se_cacheList se)"
    using assms(2) by (auto simp: triples_def)
  obtain se' where se': "se' \<in> set (dc_serverList c)" "sv' = se_server se'" "sid' = se_id se'" "e' \<in> set (se_cacheList se')"
    using assms(3) by (auto simp: triples_def)
  have "distinct (map se_id (dc_serverList c))" using assms(1) by (simp add: cache_ok_def servers_ok_def)
  then have "se = se'" using se se' assms(4) by (auto simp: lru_node_def distinct_map inj_on_def)
  moreover have "ce_path e = ce_path e'" using assms(4) by (simp add: lru_node_def)
  ultimately show ?thesis using path_entry_unique [OF assms(1) se(1,4), of e'] se se' by simp
qed

lemma kept_after_0: "kept_after c 0 = triples c"
  by (simp add: kept_after_def)

text \<open>One turn of the loop takes away the listing at the front, and nothing else.\<close>

lemma kept_after_step:
  assumes "cache_ok L c" "dc_lru c \<noteq> []"
  shows "kept_after (prune_step c) k = kept_after c (Suc k)"
proof -
  obtain sv0 sid0 e0 where t0: "lru_node sid0 e0 = hd (dc_lru c)"
    and tr: "(sv0, sid0, e0) \<in> triples c" "triples (prune_step c) = triples c - {(sv0, sid0, e0)}"
    by (rule prune_step_triples [OF assms])
  have front: "lru_node sid e = hd (dc_lru c) \<longleftrightarrow> (sv, sid, e) = (sv0, sid0, e0)" if "(sv, sid, e) \<in> triples c" for sv sid e
    using node_unique [OF assms(1) that tr(1)] t0 by auto
  have "set (take (Suc k) (dc_lru c)) = insert (hd (dc_lru c)) (set (take k (tl (dc_lru c))))"
    using assms(2) by (cases "dc_lru c") simp_all
  then show ?thesis using front unfolding kept_after_def tr(2) prune_step_lru by auto
qed

lemma prune_needed_over: "cache_ok L c \<Longrightarrow> prune_needed c \<longleftrightarrow> over_limits (length (dc_lru c)) (file_sum (triples c))"
  using total_file_sum [of L c] by (auto simp: prune_needed_def over_limits_def)

lemma Prune_exact:
  assumes "cache_ok L c"
  shows "\<exists>k \<le> length (dc_lru c).
    (\<forall>j < k. over_limits (length (dc_lru c) - j) (file_sum (kept_after c j))) \<and>
    \<not> over_limits (length (dc_lru c) - k) (file_sum (kept_after c k)) \<and>
    dc_lru (Prune c) = drop k (dc_lru c) \<and> triples (Prune c) = kept_after c k"
  using assms
proof (induction c rule: Prune.induct)
  case (1 c)
  show ?case
  proof (cases "prune_needed c")
    case True
    then have ne: "dc_lru c \<noteq> []" by (auto simp: prune_needed_def)
    have P: "Prune c = Prune (prune_step c)" using True by (subst Prune.simps) simp
    have len: "length (tl (dc_lru c)) - j = length (dc_lru c) - Suc j" for j by simp
    obtain k where IH: "k \<le> length (dc_lru (prune_step c))"
      "\<forall>j < k. over_limits (length (dc_lru (prune_step c)) - j) (file_sum (kept_after (prune_step c) j))"
      "\<not> over_limits (length (dc_lru (prune_step c)) - k) (file_sum (kept_after (prune_step c) k))"
      "dc_lru (Prune (prune_step c)) = drop k (dc_lru (prune_step c))"
      "triples (Prune (prune_step c)) = kept_after (prune_step c) k"
      using 1(1) [OF True prune_step_ok [OF 1(2) ne]] by blast
    have k: "k \<le> length (dc_lru (prune_step c))"
      "\<forall>j < k. over_limits (length (dc_lru c) - Suc j) (file_sum (kept_after c (Suc j)))"
      "\<not> over_limits (length (dc_lru c) - Suc k) (file_sum (kept_after c (Suc k)))"
      "dc_lru (Prune c) = drop k (tl (dc_lru c))" "triples (Prune c) = kept_after c (Suc k)"
      using IH by (simp_all only: P kept_after_step [OF 1(2) ne] prune_step_lru len not_False_eq_True)
    have "over_limits (length (dc_lru c) - j) (file_sum (kept_after c j))" if "j < Suc k" for j
      using that k(2) True prune_needed_over [OF 1(2)] by (cases j) (simp_all add: kept_after_0)
    moreover have "Suc k \<le> length (dc_lru c)" using k(1) ne by (cases "dc_lru c") (simp_all add: prune_step_lru)
    ultimately show ?thesis using k(3-5) by (intro exI [of _ "Suc k"]) (simp add: drop_Suc)
  next
    case False
    then have "Prune c = c" by (subst Prune.simps) simp
    then show ?thesis using False prune_needed_over [OF 1(2)] by (intro exI [of _ 0]) (simp add: kept_after_0)
  qed
qed

text \<open>C36: \<open>Prune\<close> always ends, and what it leaves is determined: it forgets the \<open>k\<close> least
  recently used listings for the smallest \<open>k\<close> that brings the numbers of listings and files within the
  limits, and nothing else.  The list of recently used entries loses exactly its first \<open>k\<close> nodes, the file
  count is that of the remaining listings, and every other listing is found as before.\<close>

theorem prune_least_recent:
  assumes "cache_ok L c"
  shows "\<exists>k \<le> length (dc_lru c).
    (\<forall>j < k. over_limits (length (dc_lru c) - j) (file_sum (kept_after c j))) \<and>
    \<not> over_limits (length (dc_lru c) - k) (file_sum (kept_after c k)) \<and>
    dc_lru (Prune c) = drop k (dc_lru c) \<and> triples (Prune c) = kept_after c k \<and>
    dc_totalFileCount (Prune c) = file_sum (kept_after c k) \<and>
    (\<forall>s p l. abs_cache (Prune c) s p = Some l \<longleftrightarrow>
       (\<exists>(sv, sid, e) \<in> kept_after c k. SameContent sv s \<and> ce_path e = p \<and> ce_listing e = l))"
proof -
  obtain k where k: "k \<le> length (dc_lru c)"
    "\<forall>j < k. over_limits (length (dc_lru c) - j) (file_sum (kept_after c j))"
    "\<not> over_limits (length (dc_lru c) - k) (file_sum (kept_after c k))"
    "dc_lru (Prune c) = drop k (dc_lru c)" "triples (Prune c) = kept_after c k"
    using Prune_exact [OF assms] by blast
  have "abs_cache (Prune c) s p = Some l \<longleftrightarrow>
      (\<exists>(sv, sid, e) \<in> kept_after c k. SameContent sv s \<and> ce_path e = p \<and> ce_listing e = l)" for s p l
    using abs_holds [OF Prune_ok [OF assms]] k(5) by (simp add: holds_def)
  moreover have "dc_totalFileCount (Prune c) = file_sum (kept_after c k)"
    using total_file_sum [OF Prune_ok [OF assms]] k(5) by simp
  ultimately show ?thesis using k by (intro exI [of _ k]) blast
qed

text \<open>A crowded cache: one server with 101 listings of 50000 entries each, the names of whose
  directories are \<open>x\<close>, \<open>xx\<close> and so on.\<close>

definition crowded_path :: "nat \<Rightarrow> CServerPath" where
  "crowded_path n = \<lparr>m_data = Some \<lparr>m_segments = [replicate n (CHR ''x'')], m_prefix = None\<rparr>, m_type = UNIX\<rparr>"

definition crowded_entry :: "nat \<Rightarrow> CCacheEntry" where
  "crowded_entry n = \<lparr>ce_listing = CDirectoryListing_default\<lparr>dl_path := crowded_path n,
       dl_entries := replicate 50000 CDirentry_default\<rparr>, ce_modificationTime = 0, ce_lruIt = Some n\<rparr>"

definition crowded_cache :: CDirectoryCache where
  "crowded_cache = \<lparr>dc_serverList = [\<lparr>se_id = 0, se_server = sample_server, se_cacheList = map crowded_entry [0..<101]\<rparr>],
     dc_lru = map (\<lambda>n. (n, 0, crowded_path n)) [0..<101], dc_totalFileCount = 5050000, dc_ttl = 300000, dc_next = 101\<rparr>"

lemma crowded_entry_simps [simp]:
  "ce_path (crowded_entry n) = crowded_path n" "ce_size (crowded_entry n) = 50000" "ce_lruIt (crowded_entry n) = Some n"
  "lru_node sid (crowded_entry n) = (n, sid, crowded_path n)"
  by (simp_all add: crowded_entry_def ce_path_def ce_size_def listing_size_def lru_node_def)

lemma replicate_less: "m < n \<Longrightarrow> replicate m (x :: char) < replicate n x"
proof (induction m arbitrary: n)
  case 0
  then show ?case by (cases n) simp_all
next
  case (Suc m)
  then show ?case by (cases n) simp_all
qed

lemma crowded_path_less: "m < n \<Longrightarrow> path_less (crowded_path m) (crowded_path n)"
proof -
  assume "m < n"
  then have "replicate m (CHR ''x'') < replicate n (CHR ''x'')" by (rule replicate_less)
  moreover have "c_str (replicate k (CHR ''x'')) = replicate k (CHR ''x'')" for k
    by (rule c_str_nul_free) (simp add: nul_free_def nul_def)
  ultimately show ?thesis
    by (simp add: path_less_def path_empty_def segs_def pfx_def data_get_def crowded_path_def wcscmp_def str_compare_def)
qed

lemma crowded_ok: "cache_ok L crowded_cache"
proof -
  let ?es = "map crowded_entry [0..<101]" and ?se = "\<lparr>se_id = 0, se_server = sample_server, se_cacheList = map crowded_entry [0..<101]\<rparr>"
  have inj: "crowded_path m = crowded_path n \<longleftrightarrow> m = n" for m n
    by (auto simp: crowded_path_def dest: arg_cong [where f = length])
  have entry: "entry_ok L (crowded_entry n)" for n
  proof -
    have "path_key_ok (crowded_path n)"
      by (simp add: path_key_ok_def crowded_path_def segs_def data_get_def nul_free_def nul_def)
    then show ?thesis
      by (simp add: entry_ok_def) (simp add: crowded_entry_def cached_ok_def listing_ok_def maps_paired_def CDirectoryListing_default_def)
  qed
  have "sorted_keys path_less ce_path ?es"
    by (simp add: sorted_keys_def)
      (simp add: sorted_wrt_map sorted_wrt_iff_nth_less crowded_path_less del: upt_rec_numeral)
  then have "server_ok L ?se" using entry by (simp add: server_ok_def)
  moreover have "lru_ok (dc_lru crowded_cache) 101 (server_nodes ?se)"
    by (simp add: lru_ok_def server_nodes_def crowded_cache_def comp_def del: upt_rec_numeral)
  moreover have "server_files ?se = 5050000"
    by (simp add: server_files_def comp_def sum_list_triv del: upt_rec_numeral)
  ultimately show ?thesis by (simp add: cache_ok_def servers_ok_def crowded_cache_def)
qed

theorem prune_least_recent_witness:
  "length (dc_lru crowded_cache) = 101 \<and> dc_lru (Prune crowded_cache) = tl (dc_lru crowded_cache) \<and>
   triples (Prune crowded_cache) = kept_after crowded_cache 1 \<and>
   abs_cache (Prune crowded_cache) sample_server (crowded_path 0) = None \<and>
   abs_cache (Prune crowded_cache) sample_server (crowded_path 100) \<noteq> None"
proof -
  let ?c = crowded_cache
  have len: "length (dc_lru ?c) = 101" by (simp add: crowded_cache_def)
  have tr: "triples ?c = (\<lambda>n. (sample_server, 0, crowded_entry n)) ` {..<101}"
    by (auto simp: triples_def crowded_cache_def)
  obtain k where k: "\<forall>j < k. over_limits (length (dc_lru ?c) - j) (file_sum (kept_after ?c j))"
    "\<not> over_limits (length (dc_lru ?c) - k) (file_sum (kept_after ?c k))" "dc_lru (Prune ?c) = drop k (dc_lru ?c)"
    "triples (Prune ?c) = kept_after ?c k"
    "\<forall>s p l. abs_cache (Prune ?c) s p = Some l \<longleftrightarrow>
       (\<exists>(sv, sid, e) \<in> kept_after ?c k. SameContent sv s \<and> ce_path e = p \<and> ce_listing e = l)"
    using prune_least_recent [OF crowded_ok [of libfz_std]] by (elim exE conjE) (rule that)
  have "file_sum (kept_after ?c 0) = 5050000"
    using total_file_sum [OF crowded_ok [of libfz_std]] by (simp add: kept_after_0) (simp add: crowded_cache_def)
  then have "over_limits (length (dc_lru ?c) - 0) (file_sum (kept_after ?c 0))" using len by (simp add: over_limits_def)
  then have "k \<noteq> 0" using k(2) by metis
  moreover have "\<not> 1 < k" using k(1) len by (auto simp: over_limits_def)
  ultimately have k1: "k = 1" by simp
  have path: "crowded_path m = crowded_path n \<longleftrightarrow> m = n" for m n
    by (auto simp: crowded_path_def dest: arg_cong [where f = length])
  have first: "set (take 1 (dc_lru ?c)) = {(0, 0, crowded_path 0)}"
    by (simp add: crowded_cache_def upt_conv_Cons del: upt_rec_numeral)
  have kept: "kept_after ?c 1 = (\<lambda>n. (sample_server, 0, crowded_entry n)) ` {1..<101}"
    unfolding kept_after_def tr first by (auto simp: path)
  have "abs_cache (Prune ?c) sample_server (crowded_path 0) = None"
  proof (rule ccontr)
    assume "abs_cache (Prune ?c) sample_server (crowded_path 0) \<noteq> None"
    then show False using k(5) unfolding k1 kept by (auto simp: path)
  qed
  moreover have "abs_cache (Prune ?c) sample_server (crowded_path 100) = Some (ce_listing (crowded_entry 100))"
    unfolding k(5) [rule_format] k1 kept by (rule bexI [of _ "(sample_server, 0, crowded_entry 100)"]) simp_all
  ultimately show ?thesis using k(3,4) len by (simp add: k1 drop_Suc)
qed

subsection \<open>Storing\<close>

lemma holds_server:
  assumes "cache_ok L c" "i < length (dc_serverList c)" "SameContent (se_server (server_at c i)) s"
  shows "holds c s p l \<longleftrightarrow> (\<exists>e \<in> set (cacheList c i). ce_path e = p \<and> ce_listing e = l)"
  using holds_put [OF assms(1,2) refl, of "cacheList c i" s p l] put_cacheList_same [OF assms(2)] assms(3) by simp

lemma create_holds:
  assumes "cache_ok L c" "CreateServerEntry c s = (i, c1)"
  shows "holds c1 = holds c" "SameContent (se_server (server_at c1 i)) s"
proof -
  note cr = CreateServerEntry_ok [OF assms]
  have "holds c1 = holds c \<and> SameContent (se_server (server_at c1 i)) s"
    using cr(6)
  proof
    assume "GetServerEntry c s = Some i \<and> c1 = c"
    then show ?thesis using GetServerEntry_server by blast
  next
    assume new: "GetServerEntry c s = None \<and> i = length (dc_serverList c) \<and>
      dc_serverList c1 = dc_serverList c @ [\<lparr>se_id = dc_next c, se_server = s, se_cacheList = []\<rparr>]"
    then have "triples c1 = triples c" by (auto simp: triples_def)
    then show ?thesis using new by (simp add: fun_eq_iff holds_def)
  qed
  then show "holds c1 = holds c" "SameContent (se_server (server_at c1 i)) s" by blast+
qed

text \<open>What holds once one listing of one server is set.\<close>

definition holds_updated :: "CDirectoryCache \<Rightarrow> CServer \<Rightarrow> CDirectoryListing \<Rightarrow> CServer \<Rightarrow> CServerPath \<Rightarrow> CDirectoryListing \<Rightarrow> bool" where
  "holds_updated c s l s' p' l' \<longleftrightarrow> (if SameContent s s' \<and> p' = dl_path l then l' = l else holds c s' p' l')"

lemma same_class: "SameContent a s \<Longrightarrow> SameContent a s' \<longleftrightarrow> SameContent s s'"
  using SameContent_sym SameContent_trans by blast

lemma put_holds_updated:
  assumes "cache_ok L c" "i < length (dc_serverList c)" "dc_serverList c' = dc_serverList c"
    and "SameContent (se_server (server_at c i)) s"
    and "\<And>p' l'. (\<exists>e \<in> set xs. ce_path e = p' \<and> ce_listing e = l') \<longleftrightarrow>
      (if p' = dl_path l then l' = l else \<exists>e \<in> set (cacheList c i). ce_path e = p' \<and> ce_listing e = l')"
  shows "holds (put_cacheList i xs c') s' p' l' = holds_updated c s l s' p' l'"
proof (cases "SameContent (se_server (server_at c i)) s'")
  case True
  then have "SameContent s s'" using same_class [OF assms(4)] by simp
  then show ?thesis using holds_put [OF assms(1-3)] True assms(5) holds_server [OF assms(1,2) True]
    by (simp add: holds_updated_def)
next
  case False
  then have "\<not> SameContent s s'" using same_class [OF assms(4)] by simp
  then show ?thesis using holds_put [OF assms(1-3)] False by (simp add: holds_updated_def)
qed

lemma Store_holds:
  assumes "cache_ok L c" "path_key_ok (dl_path l)" "cached_ok L l"
  shows "holds (cache_Store now l s c) s (dl_path l) l"
    and "holds (cache_Store now l s c) s' p' l' \<Longrightarrow> holds_updated c s l s' p' l'"
    and "length (dc_lru c) < 50000 \<Longrightarrow> dc_totalFileCount c + int (listing_size l) \<le> 1000000 \<Longrightarrow>
      holds (cache_Store now l s c) s' p' l' = holds_updated c s l s' p' l'"
proof -
  have "holds (cache_Store now l s c) s (dl_path l) l \<and>
    (\<forall>s' p' l'. holds (cache_Store now l s c) s' p' l' \<longrightarrow> holds_updated c s l s' p' l') \<and>
    (length (dc_lru c) < 50000 \<longrightarrow> dc_totalFileCount c + int (listing_size l) \<le> 1000000 \<longrightarrow>
      (\<forall>s' p' l'. holds (cache_Store now l s c) s' p' l' = holds_updated c s l s' p' l'))"
  proof (cases rule: Store_cases [OF assms, of s now, case_names replace fresh])
    case (replace i c1 lru pos)
    note cr = CreateServerEntry_ok [OF assms(1) replace(1)] and ch = create_holds [OF assms(1) replace(1)]
    let ?es = "cacheList c1 i" and ?e = "(cacheList c1 i ! pos)\<lparr>ce_modificationTime := now, ce_listing := l\<rparr>"
    let ?c2 = "c1\<lparr>dc_lru := lru, dc_totalFileCount := dc_totalFileCount c1 + int (listing_size l) - ce_size (?es ! pos)\<rparr>"
    have d: "distinct (map ce_path ?es)" by (rule paths_distinct [OF cr(1,2)])
    then have set: "set (?es[pos := ?e]) = insert ?e (set ?es - {?es ! pos})"
      using replace(3) by (simp add: set_update_distinct distinct_map)
    have path: "ce_path e = dl_path l \<longleftrightarrow> e = ?es ! pos" if "e \<in> set ?es" for e
      using inj_on_eq_iff [of ce_path "set ?es" e "?es ! pos"] that d replace(4) nth_mem [OF replace(3)]
      by (simp add: distinct_map)
    have "(\<exists>e \<in> set (?es[pos := ?e]). ce_path e = p' \<and> ce_listing e = l') \<longleftrightarrow>
      (if p' = dl_path l then l' = l else \<exists>e \<in> set ?es. ce_path e = p' \<and> ce_listing e = l')" for p' l'
      unfolding set using path replace(4) by (auto simp: ce_path_def)
    from put_holds_updated [OF cr(1,2) _ ch(2) this, of ?c2]
    have "holds (cache_Store now l s c) s' p' l' = holds_updated c s l s' p' l'" for s' p' l'
      unfolding replace(5) put_entry_def by (simp add: cacheList_def holds_updated_def ch(1))
    then show ?thesis by (simp add: holds_updated_def)
  next
    case (fresh i c1)
    note cr = CreateServerEntry_ok [OF assms(1) fresh(1)] and ch = create_holds [OF assms(1) fresh(1)]
    let ?es = "cacheList c1 i" and ?new = "(CCacheEntry_make l now)\<lparr>ce_lruIt := Some (dc_next c1)\<rparr>"
    let ?c1 = "c1\<lparr>dc_totalFileCount := dc_totalFileCount c1 + int (listing_size l)\<rparr>"
    let ?node = "(dc_next c1, se_id (server_at c1 i), dl_path l)"
    obtain xs ys where es: "?es = xs @ ys" "xs = before_bound path_less ce_path (dl_path l) ?es"
      and ok: "cache_ok L (touch i (length xs) (put_cacheList i (set_emplace path_less ce_path (CCacheEntry_make l now) ?es) ?c1))"
      and run: "touch i (length xs) (put_cacheList i (set_emplace path_less ce_path (CCacheEntry_make l now) ?es) ?c1) =
         put_cacheList i (xs @ ?new # ys) (?c1\<lparr>dc_lru := dc_lru c1 @ [?node], dc_next := Suc (dc_next c1)\<rparr>)"
      using store_fresh_ok [OF cr(1,2) fresh(2) assms(2,3) refl, of now] by metis
    define c3 where "c3 = put_cacheList i (xs @ ?new # ys) (?c1\<lparr>dc_lru := dc_lru c1 @ [?node], dc_next := Suc (dc_next c1)\<rparr>)"
    have store: "cache_Store now l s c = Prune c3" unfolding fresh(3) c3_def using run es(2) by simp
    have c3: "cache_ok L c3" using ok run by (simp add: c3_def)
    have esok: "sorted_keys path_less ce_path ?es" "\<forall>e \<in> set ?es. path_key_ok (ce_path e)"
      using server_ok_nth [OF cr(1,2)] by (simp_all add: server_ok_def cacheList_def entry_ok_def)
    have none: "\<forall>e \<in> set ?es. ce_path e \<noteq> dl_path l"
      using path_order.find_None [OF esok assms(2)] fresh(2) by simp
    have new: "ce_path ?new = dl_path l" "ce_listing ?new = l" by (simp_all add: CCacheEntry_make_def ce_path_def)
    have "(\<exists>e \<in> set (xs @ ?new # ys). ce_path e = p' \<and> ce_listing e = l') \<longleftrightarrow>
      (if p' = dl_path l then l' = l else \<exists>e \<in> set ?es. ce_path e = p' \<and> ce_listing e = l')" for p' l'
      using none new es(1) by auto
    from put_holds_updated [OF cr(1,2) _ ch(2) this, of "?c1\<lparr>dc_lru := dc_lru c1 @ [?node], dc_next := Suc (dc_next c1)\<rparr>"]
    have upd: "holds c3 s' p' l' = holds_updated c s l s' p' l'" for s' p' l'
      unfolding c3_def by (simp add: holds_updated_def ch(1))
    have lru: "dc_lru c3 = dc_lru c1 @ [?node]" by (simp add: c3_def put_cacheList_def)
    have "(se_server (server_at c1 i), se_id (server_at c1 i), ?new) \<in> triples c3"
      unfolding c3_def by (subst triples_put [OF cr(1,2)]) simp_all
    moreover have "lru_node (se_id (server_at c1 i)) ?new = last (dc_lru c3)"
      using lru new(1) by (simp add: lru_node_def)
    ultimately have "(se_server (server_at c1 i), se_id (server_at c1 i), ?new) \<in> triples (Prune c3)"
      using Prune_triples [OF c3] lru by simp
    then have 1: "holds (Prune c3) s (dl_path l) l" using ch(2) new unfolding holds_def by blast
    have 2: "holds (Prune c3) s' p' l' \<Longrightarrow> holds c3 s' p' l'" for s' p' l'
      using Prune_triples [OF c3] unfolding holds_def by blast
    have "Prune c3 = c3" if "length (dc_lru c) < 50000" "dc_totalFileCount c + int (listing_size l) \<le> 1000000"
    proof -
      have "dc_totalFileCount c3 = dc_totalFileCount c + int (listing_size l)" "length (dc_lru c3) = Suc (length (dc_lru c))"
        using cr(3,4) lru by (simp_all add: c3_def put_cacheList_def)
      then have "\<not> prune_needed c3" using that by (auto simp: prune_needed_def)
      then show ?thesis by (subst Prune.simps) simp
    qed
    then show ?thesis unfolding store using 1 2 upd by auto
  qed
  then show "holds (cache_Store now l s c) s (dl_path l) l"
    and "holds (cache_Store now l s c) s' p' l' \<Longrightarrow> holds_updated c s l s' p' l'"
    and "length (dc_lru c) < 50000 \<Longrightarrow> dc_totalFileCount c + int (listing_size l) \<le> 1000000 \<Longrightarrow>
      holds (cache_Store now l s c) s' p' l' = holds_updated c s l s' p' l'" by blast+
qed

text \<open>C7: After \<open>Store\<close> the stored listing is the answer for its path under every server with the
  same content, also when the cache had to be pruned.  Every other answer is the old one or is
  forgotten, and below the smallest limit nothing is forgotten.\<close>

theorem dir_cache_store_lookup:
  assumes "multimap_law L" "cache_reachable L c" "path_key_ok (dl_path l)" "listing_reachable L l" "maps_paired l"
  shows "abs_cache (cache_Store now l s c) s (dl_path l) = Some l \<and>
    abs_cache (cache_Store now l s c) s' p' \<in>
      {None, if SameContent s s' \<and> p' = dl_path l then Some l else abs_cache c s' p'} \<and>
    (length (dc_lru c) < 50000 \<and> dc_totalFileCount c + int (listing_size l) \<le> 1000000 \<longrightarrow>
      abs_cache (cache_Store now l s c) s' p' =
        (if SameContent s s' \<and> p' = dl_path l then Some l else abs_cache c s' p')) \<and>
    fst (cache_Lookup later s (dl_path l) True (cache_Store now l s c)) =
      Some (l, later - dl_firstListTime l > dc_ttl (cache_Store now l s c))"
proof -
  note c = cache_reachable_ok [OF assms(1,2)]
  have l: "cached_ok L l" using listing_reachable_ok [OF assms(1,4)] assms(5) by (simp add: cached_ok_def)
  let ?c' = "cache_Store now l s c"
  have c': "cache_ok L ?c'" by (rule Store_ok [OF c assms(3) l])
  note h = Store_holds [OF c assms(3) l, of now s]
  let ?upd = "if SameContent s s' \<and> p' = dl_path l then Some l else abs_cache c s' p'"
  have upd: "?upd = Some x \<longleftrightarrow> holds_updated c s l s' p' x" for x
    using abs_holds [OF c] by (auto simp: holds_updated_def)
  have 1: "abs_cache ?c' s (dl_path l) = Some l" using abs_holds [OF c'] h(1) by blast
  moreover have "abs_cache ?c' s' p' \<in> {None, ?upd}"
  proof (cases "abs_cache ?c' s' p'")
    case (Some x)
    then have "?upd = Some x" using abs_holds [OF c'] h(2) upd by blast
    then show ?thesis unfolding Some by simp
  qed simp
  moreover have "abs_cache ?c' s' p' = ?upd"
    if "length (dc_lru c) < 50000 \<and> dc_totalFileCount c + int (listing_size l) \<le> 1000000"
    by (rule abs_eqI) (use that h(3) [of s' p'] abs_holds [OF c', of s' p'] upd in blast)
  moreover have "fst (cache_Lookup later s (dl_path l) True ?c') = Some (l, later - dl_firstListTime l > dc_ttl ?c')"
    using Lookup_abs(1) [OF c' assms(3)] 1 by simp
  ultimately show ?thesis by blast
qed

theorem dir_cache_store_lookup_witness:
  "fst (cache_Lookup 7 sample_server sample_path True
     (cache_Store 6 (Append sample_listing CDirentry_default) sample_server sample_cache)) =
   Some (Append sample_listing CDirentry_default, False)"
proof -
  let ?l = "Append sample_listing CDirentry_default"
  have "listing_reachable libfz_std ?l" by (rule listing_reachable.op [OF sample_facts(1) listing_op.append])
  moreover have "dl_path ?l = sample_path" "maps_paired ?l" "dl_firstListTime ?l = 0"
    "dc_ttl (cache_Store 6 ?l sample_server sample_cache) = 300000" by code_simp+
  ultimately show ?thesis
    using dir_cache_store_lookup [OF libfz_std_laws(6) sample_reachable, of ?l 6 sample_server sample_server sample_path 7]
    by simp
qed

end
