(* ===== verification/Dir_Cache_Unsure.thy ===== *)
theory Dir_Cache_Unsure
  imports Dir_Cache_Store
begin

text \<open>
  What the cache does with listings that may have become wrong: after an update, a removal or an
  invalidation the listing of the directory is not served to a caller that wants sure ones, and
  after the removal of a directory nothing at or below it is served at all.
\<close>

unbundle bit_operations_syntax

subsection \<open>Unsure flags\<close>

lemma or_and_nonzero: "(f AND m) \<noteq> 0 \<Longrightarrow> ((x OR f) AND m) \<noteq> (0 :: 'a::len word)"
proof
  assume f: "f AND m \<noteq> 0" and z: "(x OR f) AND m = 0"
  obtain n where n: "bit (f AND m) n" using f by (auto simp: bit_eq_iff)
  then have "bit ((x OR f) AND m) n" by (simp add: bit_and_iff bit_or_iff)
  then show False using z by simp
qed

lemma or_keeps_nonzero: "(x AND m) \<noteq> 0 \<Longrightarrow> ((x OR f) AND m) \<noteq> (0 :: 'a::len word)"
  using or_and_nonzero [of x m f] by (simp add: or.commute)

definition unsure_listing :: "CDirectoryListing \<Rightarrow> bool" where
  "unsure_listing l \<longleftrightarrow> get_unsure_flags l \<noteq> 0"

lemma unsure_or_flags:
  "f AND unsure_mask \<noteq> 0 \<Longrightarrow> unsure_listing (or_flags f l)"
  "unsure_listing l \<Longrightarrow> unsure_listing (or_flags f l)"
  by (simp_all add: unsure_listing_def get_unsure_flags_def or_and_nonzero or_keeps_nonzero)

lemma unsure_Append: "unsure_listing (Append l d) = unsure_listing l"
  by (simp add: unsure_listing_def get_unsure_flags_def Append_def)

lemma unsure_bits [simp]:
  "unsure_invalid AND unsure_mask \<noteq> 0" "unsure_unknown AND unsure_mask \<noteq> 0"
  "unsure_dir_changed AND unsure_mask \<noteq> 0" "unsure_file_changed AND unsure_mask \<noteq> 0"
  "unsure_dir_removed AND unsure_mask \<noteq> 0" "unsure_file_removed AND unsure_mask \<noteq> 0"
  by (simp_all add: listing_bits)

lemma unsure_added [simp]: "added_flags t AND unsure_mask \<noteq> 0"
  by (cases t) (simp_all add: listing_bits)

lemma unsure_RemoveEntry: "i < listing_size l \<Longrightarrow> unsure_listing (snd (RemoveEntry l i))"
proof -
  assume "i < listing_size l"
  then have "dl_flags (snd (RemoveEntry l i)) = dl_flags (or_flags unsure_dir_removed l) \<or>
      dl_flags (snd (RemoveEntry l i)) = dl_flags (or_flags unsure_file_removed l)"
    by (simp add: RemoveEntry_def Let_def)
  then show ?thesis using unsure_or_flags(1) [of _ l]
    by (auto simp: unsure_listing_def get_unsure_flags_def)
qed

lemma update_file_listing_unsure:
  "update_file_listing L filename mc t sz og l = (l', n) \<Longrightarrow> unsure_listing l'"
  by (auto simp: update_file_listing_def Let_def unsure_Append unsure_or_flags split: prod.splits option.splits if_splits)

lemma remove_file_listing_unsure: "remove_file_listing L filename l = (l', n) \<Longrightarrow> unsure_listing l'"
  by (auto simp: remove_file_listing_def listing_size_def unsure_or_flags split: option.splits
      intro!: unsure_RemoveEntry dest!: find_idx_less)

subsection \<open>Loops that mark listings\<close>

lemma map_state_member:
  "map_state f xs s = (ys, s') \<Longrightarrow> y \<in> set ys \<Longrightarrow> \<exists>x \<in> set xs. \<exists>s1 s2. f x s1 = (y, s2)"
proof (induction xs arbitrary: s ys)
  case (Cons x xs)
  obtain z s1 where z: "f x s = (z, s1)" by fastforce
  obtain zs where zs: "map_state f xs s1 = (zs, s')" "ys = z # zs" using Cons.prems(1) z by (auto split: prod.splits)
  show ?case using Cons.IH [OF zs(1)] Cons.prems(2) zs(2) z by fastforce
qed simp

text \<open>A loop whose body turns every entry it is given into one with property \<open>P\<close>.\<close>

lemma for_entries_all:
  assumes "i < length (dc_serverList c)" "\<And>e c s e' c' s'. body (se_id (server_at c0 i)) e (c, s) = (e', c', s') \<Longrightarrow> Q e \<Longrightarrow> P e'"
    and "c0 = c" "\<forall>e \<in> set (cacheList c i). Q e"
    and "length (dc_serverList (fst (for_entries body i (c, s)))) = length (dc_serverList c)"
  shows "\<forall>e \<in> set (cacheList (fst (for_entries body i (c, s))) i). P e"
proof -
  obtain ys c' s' where run: "map_state (body (se_id (server_at c i))) (se_cacheList (server_at c i)) (c, s) = (ys, c', s')"
    by (metis surj_pair)
  have res: "fst (for_entries body i (c, s)) = put_cacheList i ys c'" using run by (simp add: for_entries_def Let_def)
  then have "length (dc_serverList c') = length (dc_serverList c)" using assms(5) by (simp add: put_cacheList_def)
  then have "cacheList (fst (for_entries body i (c, s))) i = ys" unfolding res using assms(1) by (simp add: cacheList_put)
  moreover have "P y" if "y \<in> set ys" for y
    using map_state_member [OF run that] assms(2-4) by (auto simp: cacheList_def)
  ultimately show ?thesis by simp
qed

lemma UpdateLru_listing: "UpdateLru sid e c = (e1, c1) \<Longrightarrow> ce_listing e1 = ce_listing e"
  by (auto simp: UpdateLru_def split: option.splits)

lemma update_listing_path: "ce_listing (update_listing f now e) = f (ce_listing e)"
  by (simp add: update_listing_def)

text \<open>Entries that are unsure or not stored under the path.\<close>

definition marked :: "CServerPath \<Rightarrow> CCacheEntry \<Rightarrow> bool" where
  "marked p e \<longleftrightarrow> ce_path e = p \<longrightarrow> unsure_listing (ce_listing e)"

lemma equal_nocase_refl:
  assumes "stricmp_law L"
  shows "equal_nocase L p p"
proof -
  have "fz_stricmp L a a = 0" for a using assms unfolding stricmp_law_def by blast
  then show ?thesis
    by (cases "pfx p") (simp_all add: equal_nocase_def prefix_differs_def list_all2_conv_all_nth)
qed

lemma update_body_marks:
  assumes "stricmp_law L" "update_file_body L now p filename mc t sz og sid e (c, s) = (e', c', s')"
  shows "marked p e'"
proof -
  obtain e1 c1 where u: "UpdateLru sid e c = (e1, c1)" by fastforce
  obtain l n where l: "update_file_listing L filename mc t sz og (ce_listing e1) = (l, n)" by fastforce
  have "(e' = e \<and> \<not> equal_nocase L p (ce_path e)) \<or> ce_listing e' = l"
    using assms(2) u l by (auto simp: update_file_body_def update_listing_path split: if_splits)
  then show ?thesis using update_file_listing_unsure [OF l] equal_nocase_refl [OF assms(1), of p]
    by (auto simp: marked_def)
qed

lemma remove_body_marks:
  assumes "stricmp_law L" "remove_file_body L now p filename sid e (c, s) = (e', c', s')"
  shows "marked p e'"
proof -
  obtain e1 c1 where u: "UpdateLru sid e c = (e1, c1)" by fastforce
  obtain l n where l: "remove_file_listing L filename (ce_listing e1) = (l, n)" by fastforce
  have "(e' = e \<and> \<not> equal_nocase L p (ce_path e)) \<or> ce_listing e' = l"
    using assms(2) u l by (auto simp: remove_file_body_def update_listing_path split: if_splits)
  then show ?thesis using remove_file_listing_unsure [OF l] equal_nocase_refl [OF assms(1), of p]
    by (auto simp: marked_def)
qed

lemma invalidate_body_marks:
  assumes "stricmp_law L" "invalidate_body L now p filename cmp sid e (c, s) = (e', c', s')"
  shows "marked p e'"
proof -
  obtain e1 c1 where u: "UpdateLru sid e c = (e1, c1)" by fastforce
  have "(e' = e \<and> ce_path e \<noteq> p) \<or> ce_listing e' = or_flags unsure_unknown (mark_where (same_name L cmp filename) (ce_listing e1))"
    using assms(2) u equal_nocase_refl [OF assms(1), of p]
    by (auto simp: invalidate_body_def Let_def update_listing_path split: if_splits)
  then show ?thesis using unsure_or_flags(1) [of unsure_unknown] by (auto simp: marked_def)
qed

lemma invalidate_child_marks:
  assumes "invalidate_child_body L now q cmp sid e (c, s) = (e', c', s')" "marked p e"
  shows "marked p e'"
proof -
  have "e' = e \<or> e' = update_listing (or_flags unsure_unknown) now e"
    using assms(1) by (auto simp: invalidate_child_body_def split: if_splits)
  then show ?thesis using assms(2) unsure_or_flags(1) [of unsure_unknown] by (auto simp: marked_def update_listing_path)
qed

lemma marked_not_served:
  assumes "cache_ok L c" "i < length (dc_serverList c)" "path_key_ok p" "SameContent (se_server (server_at c i)) s"
    "\<forall>e \<in> set (cacheList c i). marked p e"
  shows "fst (cache_Lookup now s p False c) = None"
proof -
  have "unsure_listing l" if "holds c s p l" for l
    using that holds_server [OF assms(1,2,4)] assms(5) by (auto simp: marked_def)
  then have "get_unsure_flags l \<noteq> 0" if "abs_cache c s p = Some l" for l
    using that abs_holds [OF assms(1)] by (simp add: unsure_listing_def)
  then show ?thesis using Lookup_abs(1) [OF assms(1,3), of now s False] by (auto split: option.split)
qed

lemma find_idx_map: "find_idx P (map f xs) = find_idx (P \<circ> f) xs"
  by (induction xs) simp_all

lemma for_entries_server:
  assumes "cache_ok L c" "GetServerEntry c s = Some i" "body_ok L (se_id (server_at c i)) (body (se_id (server_at c i)))"
  shows "cache_ok L (fst (for_entries body i (c, t)))" "GetServerEntry (fst (for_entries body i (c, t))) s = Some i"
proof -
  note fe = for_entries_ok [where body = body and s = t, OF assms(1) GetServerEntry_server(1) [OF assms(2)] assms(3)]
  show "cache_ok L (fst (for_entries body i (c, t)))" by (rule fe)
  have "GetServerEntry d s = find_idx (\<lambda>x. SameContent x s) (map se_server (dc_serverList d))" for d
    by (simp add: GetServerEntry_def find_idx_map comp_def)
  then show "GetServerEntry (fst (for_entries body i (c, t))) s = Some i" using fe(3) assms(2) by simp
qed

lemma invalidate_body_keeps:
  assumes "invalidate_body L now q filename cmp sid e (c, s) = (e', c', s')" "marked p e"
  shows "marked p e'"
proof -
  obtain e1 c1 where u: "UpdateLru sid e c = (e1, c1)" by fastforce
  have "e' = e \<or> ce_listing e' = or_flags unsure_unknown (mark_where (same_name L cmp filename) (ce_listing e1))"
    using assms(1) u by (auto simp: invalidate_body_def Let_def update_listing_path split: if_splits)
  then show ?thesis using unsure_or_flags(1) [of unsure_unknown] assms(2) by (auto simp: marked_def)
qed

text \<open>Every entry of the server is unsure or not stored under the path.\<close>

definition all_marked :: "CServer \<Rightarrow> CServerPath \<Rightarrow> CDirectoryCache \<Rightarrow> bool" where
  "all_marked s p c \<longleftrightarrow> (\<forall>i. GetServerEntry c s = Some i \<longrightarrow> (\<forall>e \<in> set (cacheList c i). marked p e))"

lemma all_marked_not_served:
  assumes "cache_ok L c" "path_key_ok p" "all_marked s p c"
  shows "fst (cache_Lookup now s p False c) = None"
proof (cases "GetServerEntry c s")
  case None
  then show ?thesis by (simp add: cache_Lookup_def)
next
  case (Some i)
  note i = GetServerEntry_server [OF Some]
  show ?thesis using marked_not_served [OF assms(1) i(1) assms(2) i(2)] assms(3) Some by (simp add: all_marked_def)
qed

lemma for_entries_marks:
  assumes "cache_ok L c" "GetServerEntry c s = Some i" "body_ok L (se_id (server_at c i)) (body (se_id (server_at c i)))"
    and "\<And>e c' t' e' c'' t''. body (se_id (server_at c i)) e (c', t') = (e', c'', t'') \<Longrightarrow> Q e \<Longrightarrow> marked p e'"
    and "\<forall>e \<in> set (cacheList c i). Q e"
  shows "all_marked s p (fst (for_entries body i (c, t)))"
proof -
  note fs = for_entries_server [where body = body and t = t, OF assms(1-3)]
  note fe = for_entries_ok [where body = body and s = t, OF assms(1) GetServerEntry_server(1) [OF assms(2)] assms(3)]
  have "\<forall>e \<in> set (cacheList (fst (for_entries body i (c, t))) i). marked p e"
    by (rule for_entries_all [where Q = Q and c0 = c, OF GetServerEntry_server(1) [OF assms(2)]])
      (use assms(4,5) fe(2) in simp_all)
  then show ?thesis using fs(2) by (simp add: all_marked_def)
qed

lemma InvalidateFile_marks:
  assumes "stricmp_law L" "cache_ok L c"
  shows "all_marked s p (snd (cache_InvalidateFile L now s p f c))"
    and "all_marked s p c \<Longrightarrow> all_marked s p (snd (cache_InvalidateFile L now s q f c))"
proof -
  let ?cmp = "GetCaseSensitivity (sv_protocol s) = case_yes"
  have "(r = p \<or> all_marked s p c) \<longrightarrow> all_marked s p (snd (cache_InvalidateFile L now s r f c))" for r
  proof (cases "GetServerEntry c s")
    case None
    then show ?thesis by (simp add: cache_InvalidateFile_def all_marked_def)
  next
    case (Some i)
    let ?b1 = "invalidate_body L now r f ?cmp" and ?b2 = "invalidate_child_body L now r ?cmp"
    let ?r = "for_entries ?b1 i (c, False)"
    note srv = for_entries_server [where body = ?b1 and t = False, OF assms(2) Some invalidate_body_ok]
    have one: "all_marked s p (fst ?r)" if "r = p \<or> all_marked s p c"
      by (rule for_entries_marks [where body = ?b1 and Q = "\<lambda>e. r = p \<or> marked p e" and t = False, OF assms(2) Some invalidate_body_ok])
        (use that Some invalidate_body_marks [OF assms(1)] invalidate_body_keeps in \<open>auto simp: all_marked_def\<close>)
    have two: "all_marked s p (fst (for_entries ?b2 i (fst ?r, snd ?r)))" if "r = p \<or> all_marked s p c"
      by (rule for_entries_marks [where body = ?b2 and Q = "marked p" and t = "snd ?r", OF srv invalidate_child_body_ok])
        (use one [OF that] srv(2) invalidate_child_marks in \<open>auto simp: all_marked_def\<close>)
    show ?thesis using one two Some by (auto simp: cache_InvalidateFile_def Let_def)
  qed
  then show "all_marked s p (snd (cache_InvalidateFile L now s p f c))"
    "all_marked s p c \<Longrightarrow> all_marked s p (snd (cache_InvalidateFile L now s q f c))" by blast+
qed

lemma UpdateFile_marks:
  assumes "stricmp_law L" "cache_ok L c"
  shows "all_marked s p (snd (cache_UpdateFile L now s p f mc t sz og c))"
proof (cases "GetServerEntry c s")
  case None
  then show ?thesis by (simp add: cache_UpdateFile_def all_marked_def)
next
  case (Some i)
  have "all_marked s p (fst (for_entries (update_file_body L now p f mc t sz og) i (c, False)))"
    by (rule for_entries_marks [where body = "update_file_body L now p f mc t sz og" and Q = "\<lambda>_. True", OF assms(2) Some update_file_body_ok])
      (use update_body_marks [OF assms(1)] in simp_all)
  then show ?thesis using Some by (simp add: cache_UpdateFile_def case_prod_beta)
qed

lemma RemoveFile_marks:
  assumes "stricmp_law L" "cache_ok L c"
  shows "all_marked s p (snd (cache_RemoveFile L now s p f c))"
proof (cases "GetServerEntry c s")
  case None
  then show ?thesis by (simp add: cache_RemoveFile_def all_marked_def)
next
  case (Some i)
  have "all_marked s p (fst (for_entries (remove_file_body L now p f) i (c, True)))"
    by (rule for_entries_marks [where body = "remove_file_body L now p f" and Q = "\<lambda>_. True", OF assms(2) Some remove_file_body_ok])
      (use remove_body_marks [OF assms(1)] in simp_all)
  then show ?thesis using Some by (simp add: cache_RemoveFile_def)
qed

text \<open>C8: After a file of a directory was updated, removed or invalidated, a lookup of the
  directory that does not accept unsure listings finds nothing, for every server with the same
  content.\<close>

theorem changed_directory_not_served:
  assumes "multimap_law L" "stricmp_law L" "cache_reachable L c" "path_key_ok p"
    and "c' \<in> {snd (cache_InvalidateFile L now s p f c), snd (cache_UpdateFile L now s p f mc t sz og c),
              snd (cache_RemoveFile L now s p f c)}"
  shows "fst (cache_Lookup later s p False c') = None"
proof -
  note c = cache_reachable_ok [OF assms(1,3)]
  have "all_marked s p c'" "cache_ok L c'"
    using assms(5) InvalidateFile_marks(1) [OF assms(2) c] UpdateFile_marks [OF assms(2) c] RemoveFile_marks [OF assms(2) c]
      InvalidateFile_ok [OF c] UpdateFile_ok [OF c] RemoveFile_ok [OF c] by auto
  then show ?thesis using all_marked_not_served assms(4) by blast
qed

theorem changed_directory_not_served_witness:
  "fst (cache_Lookup 5 sample_server sample_path False sample_cache) \<noteq> None \<and>
   fst (cache_Lookup 8 sample_server sample_path False
     (snd (cache_UpdateFile libfz_std 7 sample_server sample_path ''x'' True ft_file 9 [] sample_cache))) = None"
proof -
  have "fst (cache_Lookup 5 sample_server sample_path False sample_cache) \<noteq> None" by code_simp
  then show ?thesis
    using changed_directory_not_served [OF libfz_std_laws(6,1) sample_reachable sample_facts(2)] by blast
qed

end
