(* ===== verification/Dir_Cache_Remove.thy ===== *)
theory Dir_Cache_Remove
  imports Dir_Cache_Unsure
begin

text \<open>
  Removing a directory forgets exactly the listings at and below it.
\<close>

definition has_listing :: "CDirectoryCache \<Rightarrow> CServer \<Rightarrow> CServerPath \<Rightarrow> bool" where
  "has_listing c s p \<longleftrightarrow> abs_cache c s p \<noteq> None"

lemma has_listing_iff: "cache_ok L c \<Longrightarrow> has_listing c s p \<longleftrightarrow> (\<exists>l. holds c s p l)"
  using abs_holds [of L c s p] by (auto simp: has_listing_def)

lemma has_listing_at:
  assumes "cache_ok L c" "i < length (dc_serverList c)" "SameContent (se_server (server_at c i)) s"
  shows "has_listing c s p \<longleftrightarrow> p \<in> ce_path ` set (cacheList c i)"
  using has_listing_iff [OF assms(1), of s p] holds_server [OF assms, of p] by auto

lemma has_listing_put:
  assumes "cache_ok L c" "i < length (dc_serverList c)" "dc_serverList c' = dc_serverList c"
    "cache_ok L (put_cacheList i xs c')"
  shows "has_listing (put_cacheList i xs c') s p \<longleftrightarrow>
    (if SameContent (se_server (server_at c i)) s then p \<in> ce_path ` set xs else has_listing c s p)"
  using has_listing_iff [OF assms(4), of s p] has_listing_iff [OF assms(1), of s p] holds_put [OF assms(1-3), of xs s p] by auto

text \<open>A loop that updates in place changes no key.\<close>

lemma for_entries_has:
  assumes "cache_ok L c" "i < length (dc_serverList c)" "body_ok L (se_id (server_at c i)) (body (se_id (server_at c i)))"
  shows "has_listing (fst (for_entries body i (c, s0))) s p = has_listing c s p"
proof -
  let ?sid = "se_id (server_at c i)"
  obtain ys c' s' where run: "map_state (body ?sid) (se_cacheList (server_at c i)) (c, s0) = (ys, c', s')"
    by (metis surj_pair)
  have res: "fst (for_entries body i (c, s0)) = put_cacheList i ys c'" using run by (simp add: for_entries_def Let_def)
  have xs: "\<forall>e \<in> set (se_cacheList (server_at c i)). entry_ok L e \<and>
      lru_node ?sid e \<in># server_nodes (server_at c i) + other_nodes i c"
    using server_ok_nth [OF assms(1,2)] lru_node_in [OF assms(2)] by (auto simp: server_ok_def cacheList_def)
  have sl: "dc_serverList c' = dc_serverList c"
    using map_state_ok [OF assms(3) run xs cache_ok_split(1) [OF assms(1,2)]] by simp
  note fe = for_entries_ok [where body = body and s = s0, OF assms]
  have "cacheList (put_cacheList i ys c') i = ys" using sl assms(2) by (simp add: cacheList_put)
  then have "ce_path ` set ys = ce_path ` set (cacheList c i)"
    using arg_cong [OF fe(5), of set] unfolding res by simp
  moreover have "cache_ok L (put_cacheList i ys c')" using fe(1) unfolding res .
  ultimately show ?thesis
    unfolding res using has_listing_put [OF assms(1,2) sl, of ys s p] has_listing_at [OF assms(1,2), of s p] by simp
qed

lemma RemoveFile_has:
  assumes "cache_ok L c"
  shows "has_listing (snd (cache_RemoveFile L now s q f c)) s' p = has_listing c s' p"
  using for_entries_has [where body = "remove_file_body L now q f" and ?s0.0 = True, OF assms _ remove_file_body_ok]
  by (auto simp: cache_RemoveFile_def split: option.split dest: GetServerEntry_less)

text \<open>C29: \<open>RemoveDir\<close> forgets exactly the listings that servers with the same content have for
  the removed directory and the directories below it, compared without case; all other
  directories keep a listing.\<close>

theorem remove_dir_forgets_subtree:
  assumes "multimap_law L" "cache_reachable L c"
  shows "has_listing (cache_RemoveDir L now s path f c) s' p \<longleftrightarrow>
    has_listing c s' p \<and>
    \<not> (SameContent s s' \<and> fst (AddSegment path f) \<and> \<not> path_empty (snd (AddSegment path f)) \<and>
       (p = snd (AddSegment path f) \<or> IsParentOf L (snd (AddSegment path f)) p True False))"
proof (cases "GetServerEntry c s")
  case None
  have "\<not> has_listing c s' p" if "SameContent s s'"
  proof -
    have "\<not> SameContent (se_server se) s'" if "se \<in> set (dc_serverList c)" for se
      using None that SameContent_trans [OF _ SameContent_sym [OF \<open>SameContent s s'\<close>], of "se_server se"]
      by (auto simp: GetServerEntry_def)
    then have "GetServerEntry c s' = None" by (simp add: GetServerEntry_def)
    then show ?thesis by (simp add: has_listing_def abs_cache_def)
  qed
  then show ?thesis using None by (auto simp: cache_RemoveDir_def)
next
  case (Some i)
  note c = cache_reachable_ok [OF assms] and i = GetServerEntry_server [OF Some]
  define q where "q = (if fst (AddSegment path f) then snd (AddSegment path f) else path_clear (snd (AddSegment path f)))"
  define doomed where "doomed = (\<lambda>e. \<not> path_empty q \<and> (path_eq (ce_path e) q \<or> IsParentOf L q (ce_path e) True False))"
  obtain xs c1 where er: "erase_entries doomed (cacheList c i) c = (xs, c1)" by fastforce
  note eo = erase_entries_ok [OF c i(1) er]
  have run: "cache_RemoveDir L now s path f c = snd (cache_RemoveFile L now s path f (put_cacheList i xs c1))"
    using Some er by (simp add: cache_RemoveDir_def Let_def q_def [symmetric] doomed_def [symmetric] del: path_eq_iff)
  have "path_empty q \<longleftrightarrow> \<not> fst (AddSegment path f) \<or> path_empty (snd (AddSegment path f))"
    by (simp add: q_def path_clear_def path_empty_def)
  moreover have "q = snd (AddSegment path f)" if "fst (AddSegment path f)" using that by (simp add: q_def)
  ultimately have gone: "(\<not> path_empty q \<and> (p = q \<or> IsParentOf L q p True False)) \<longleftrightarrow>
      fst (AddSegment path f) \<and> \<not> path_empty (snd (AddSegment path f)) \<and>
       (p = snd (AddSegment path f) \<or> IsParentOf L (snd (AddSegment path f)) p True False)" by auto
  have "p \<in> ce_path ` set xs \<longleftrightarrow> p \<in> ce_path ` set (cacheList c i) \<and> \<not> (\<not> path_empty q \<and> (p = q \<or> IsParentOf L q p True False))"
    unfolding eo(3) doomed_def by auto
  then have "has_listing (cache_RemoveDir L now s path f c) s' p \<longleftrightarrow>
      has_listing c s' p \<and> \<not> (SameContent (se_server (server_at c i)) s' \<and> \<not> path_empty q \<and> (p = q \<or> IsParentOf L q p True False))"
    unfolding run RemoveFile_has [OF eo(1)] has_listing_put [OF c i(1) eo(2,1)]
    using has_listing_at [OF c i(1), of s' p] by auto
  then show ?thesis unfolding gone [symmetric] using same_class [OF i(2), of s'] by blast
qed

theorem remove_dir_forgets_subtree_witness:
  "has_listing sample_cache sample_server sample_path \<and>
   \<not> has_listing (cache_RemoveDir libfz_std 9 sample_server (CServerPath_make ''/'' UNIX) ''a'' sample_cache)
       sample_server sample_path"
proof -
  have "has_listing sample_cache sample_server sample_path" by code_simp
  moreover have "fst (AddSegment (CServerPath_make ''/'' UNIX) ''a'')"
    "snd (AddSegment (CServerPath_make ''/'' UNIX) ''a'') = sample_path" "\<not> path_empty sample_path" by code_simp+
  ultimately show ?thesis
    using remove_dir_forgets_subtree [OF libfz_std_laws(6) sample_reachable,
        of 9 sample_server "CServerPath_make ''/'' UNIX" "''a''" sample_server sample_path] by simp
qed

end
