(* ===== verification/Op_Lock.thy ===== *)
theory Op_Lock
  imports Server_Props Server_Path_Tree
begin

text \<open>
  Operation locks between connections, \<open>src/filezilla3/src/engine/oplock_manager.cpp\<close>:
  the manager's table of sockets and locks, the handles given out, and the steps that lock,
  unlock and obtain.  The mutex makes every step atomic.  A control socket is a number, and the
  server it is connected to an argument of \<open>Lock\<close>.  A handle is the pair of indices an
  \<open>OpLock\<close> object owns; moving the object moves the pair, destroying it unlocks.
\<close>

datatype locking_reason = reason_unknown | reason_list | reason_mkdir | reason_private1

record lock_info =
  li_path :: CServerPath
  li_reason :: locking_reason
  li_inclusive :: bool
  li_waiting :: bool
  li_released :: bool

record socket_lock_info =
  sl_server :: CServer
  sl_socket :: "nat option"
  sl_locks :: "lock_info list"

type_synonym lock_table = "socket_lock_info list"
type_synonym lock_handle = "nat \<times> nat"

definition lock_active :: "lock_info \<Rightarrow> bool" where
  "lock_active l \<longleftrightarrow> \<not> li_waiting l \<and> \<not> li_released l"

text \<open>The test of both \<open>Lock\<close> and \<open>ObtainWaiting\<close>: \<open>other\<close> is held
  elsewhere and keeps \<open>l\<close> waiting.\<close>

definition lock_blocks :: "libfz \<Rightarrow> lock_info \<Rightarrow> lock_info \<Rightarrow> bool" where
  "lock_blocks L other l =
     (if li_reason l \<noteq> li_reason other \<or> li_waiting other \<or> li_released other then False
      else if path_eq (li_path other) (li_path l) \<or>
              (li_inclusive other \<and> IsParentOf L (li_path other) (li_path l) False False) then True
      else if li_inclusive l \<and> IsParentOf L (li_path l) (li_path other) False False then True
      else False)"

definition get_or_create :: "lock_table \<Rightarrow> nat \<Rightarrow> CServer \<Rightarrow> lock_table \<times> nat" where
  "get_or_create m sock server =
     (case find_idx (\<lambda>s. sl_socket s = Some sock) m of
        Some i \<Rightarrow> (m, i)
      | None \<Rightarrow> (m @ [\<lparr>sl_server = server, sl_socket = Some sock, sl_locks = []\<rparr>], length m))"

definition add_lock :: "lock_table \<Rightarrow> nat \<Rightarrow> lock_info \<Rightarrow> lock_table" where
  "add_lock m i l = m[i := (m ! i)\<lparr>sl_locks := sl_locks (m ! i) @ [l]\<rparr>]"

definition OpLock_Lock ::
  "libfz \<Rightarrow> lock_table \<Rightarrow> nat \<Rightarrow> CServer \<Rightarrow> locking_reason \<Rightarrow> CServerPath \<Rightarrow> bool \<Rightarrow> lock_table \<times> lock_handle" where
  "OpLock_Lock L m sock server reason path inclusive =
     (case get_or_create m sock server of
        (m1, i) \<Rightarrow>
          let info = \<lparr>li_path = path, li_reason = reason, li_inclusive = inclusive,
                      li_waiting = False, li_released = False\<rparr>;
              waits = list_ex (\<lambda>other. \<not> (sl_socket other = Some sock \<or>
                          \<not> server_eq (sl_server other) (sl_server (m1 ! i))) \<and>
                        list_ex (\<lambda>l. lock_blocks L l info) (sl_locks other)) m1;
              m2 = add_lock m1 i (info\<lparr>li_waiting := waits\<rparr>)
          in (m2, (i, length (sl_locks (m2 ! i)) - 1)))"

definition drop_released :: "lock_info list \<Rightarrow> lock_info list" where
  "drop_released ls = rev (dropWhile li_released (rev ls))"

definition drop_unused :: "lock_table \<Rightarrow> lock_table" where
  "drop_unused m = rev (dropWhile (\<lambda>s. sl_socket s = None) (rev m))"

text \<open>The sockets that \<open>Wakeup\<close> sends an event to.\<close>

definition Wakeup :: "lock_table \<Rightarrow> nat list" where
  "Wakeup m = map (\<lambda>s. the (sl_socket s)) (filter (\<lambda>s. list_ex li_waiting (sl_locks s)) m)"

definition set_locks :: "lock_table \<Rightarrow> nat \<Rightarrow> lock_info list \<Rightarrow> lock_table" where
  "set_locks m i ls = m[i := (m ! i)\<lparr>sl_locks := ls\<rparr>]"

definition OpLock_Unlock :: "lock_table \<Rightarrow> lock_handle \<Rightarrow> lock_table \<times> nat list" where
  "OpLock_Unlock m h =
     (let i = fst h; j = snd h; ls = sl_locks (m ! i);
          was_waiting = li_waiting (ls ! j);
          m1 = (if j + 1 = length ls then
                  let rest = drop_released (butlast ls)
                  in if rest = [] then
                       (if i + 1 = length m then drop_unused (butlast m)
                        else m[i := (m ! i)\<lparr>sl_locks := [], sl_socket := None\<rparr>])
                     else set_locks m i rest
                else set_locks m i (ls[j := (ls ! j)\<lparr>li_waiting := False, li_released := True\<rparr>]))
      in (m1, if was_waiting then [] else Wakeup m1))"

definition lock_blocked :: "libfz \<Rightarrow> lock_table \<Rightarrow> nat \<Rightarrow> lock_info \<Rightarrow> bool" where
  "lock_blocked L m i l =
     list_ex (\<lambda>k. k \<noteq> i \<and> list_ex (\<lambda>other. lock_blocks L other l) (sl_locks (m ! k))) [0..<length m]"

definition obtain_one :: "libfz \<Rightarrow> lock_handle \<Rightarrow> lock_table \<times> bool \<Rightarrow> lock_table \<times> bool" where
  "obtain_one L h st =
     (let m = fst st; i = fst h; j = snd h; l = sl_locks (m ! i) ! j
      in if li_waiting l \<and> \<not> lock_blocked L m i l
         then (set_locks m i ((sl_locks (m ! i))[j := l\<lparr>li_waiting := False\<rparr>]), True)
         else st)"

definition socket_locks :: "lock_table \<Rightarrow> nat \<Rightarrow> lock_handle list" where
  "socket_locks m sock =
     concat (map (\<lambda>i. if sl_socket (m ! i) = Some sock
                      then map (\<lambda>j. (i, j)) [0..<length (sl_locks (m ! i))] else []) [0..<length m])"

definition OpLock_ObtainWaiting :: "libfz \<Rightarrow> lock_table \<Rightarrow> nat \<Rightarrow> lock_table \<times> bool" where
  "OpLock_ObtainWaiting L m sock = fold (obtain_one L) (socket_locks m sock) (m, False)"

definition OpLock_Waiting :: "lock_table \<Rightarrow> lock_handle \<Rightarrow> bool" where
  "OpLock_Waiting m h = li_waiting (sl_locks (m ! fst h) ! snd h)"

definition OpLock_SocketWaiting :: "lock_table \<Rightarrow> nat \<Rightarrow> bool" where
  "OpLock_SocketWaiting m sock =
     list_ex (\<lambda>s. sl_socket s = Some sock \<and> list_ex li_waiting (sl_locks s)) m"

subsection \<open>Exclusion between groups\<close>

text \<open>What the manager keeps, apart from its data structure: members of different groups
  never conflict.  A group is the set of locks one socket holds.\<close>

locale exclusion =
  fixes conflict :: "'a \<Rightarrow> 'a \<Rightarrow> bool"
  assumes conflict_sym: "conflict x y \<Longrightarrow> conflict y x"
begin

definition exclusive :: "'a set list \<Rightarrow> bool" where
  "exclusive gs \<longleftrightarrow>
     (\<forall>i < length gs. \<forall>k < length gs. i \<noteq> k \<longrightarrow> (\<forall>x \<in> gs ! i. \<forall>y \<in> gs ! k. \<not> conflict x y))"

lemma exclusive_Nil: "exclusive []"
  by (simp add: exclusive_def)

lemma exclusive_update:
  assumes "exclusive gs" "\<And>k x y. k < length gs \<Longrightarrow> k \<noteq> i \<Longrightarrow> x \<in> g - gs ! i \<Longrightarrow> y \<in> gs ! k \<Longrightarrow> \<not> conflict x y"
  shows "exclusive (gs[i := g])"
proof -
  have one: "\<not> conflict x y" if "i < length gs" "k < length gs" "i \<noteq> k" "x \<in> g" "y \<in> gs ! k" for x y k
    using that assms by (cases "x \<in> gs ! i") (auto simp: exclusive_def)
  show ?thesis
    unfolding exclusive_def
  proof (intro allI impI ballI)
    fix a b x y assume ab: "a < length (gs[i := g])" "b < length (gs[i := g])" "a \<noteq> b"
      and xy: "x \<in> gs[i := g] ! a" "y \<in> gs[i := g] ! b"
    consider "a = i" | "b = i" | "a \<noteq> i" "b \<noteq> i" by blast
    then show "\<not> conflict x y"
    proof cases
      case 1
      then show ?thesis using ab xy one [of b x y] by simp
    next
      case 2
      then show ?thesis using ab xy one [of a y x] conflict_sym by auto
    next
      case 3
      then show ?thesis using ab xy assms(1) by (simp add: exclusive_def)
    qed
  qed
qed

lemma exclusive_smaller: "exclusive gs \<Longrightarrow> g \<subseteq> gs ! i \<Longrightarrow> exclusive (gs[i := g])"
  by (rule exclusive_update) auto

lemma exclusive_snoc_empty: "exclusive gs \<Longrightarrow> exclusive (gs @ [{}])"
  unfolding exclusive_def by (auto simp: nth_append less_Suc_eq)

lemma exclusive_prefix: "exclusive (gs @ hs) \<Longrightarrow> exclusive gs"
  unfolding exclusive_def by (metis length_append nth_append trans_less_add1)

end

lemma server_eq_sym: "server_eq a b \<Longrightarrow> server_eq b a"
  by (auto simp: server_eq_def split: if_splits)

definition lock_conflict :: "libfz \<Rightarrow> CServer \<times> lock_info \<Rightarrow> CServer \<times> lock_info \<Rightarrow> bool" where
  "lock_conflict L x y \<longleftrightarrow>
     server_eq (fst x) (fst y) \<and> li_reason (snd x) = li_reason (snd y) \<and>
     (li_path (snd x) = li_path (snd y) \<or>
      li_inclusive (snd x) \<and> IsParentOf L (li_path (snd x)) (li_path (snd y)) False False \<or>
      li_inclusive (snd y) \<and> IsParentOf L (li_path (snd y)) (li_path (snd x)) False False)"

interpretation locks: exclusion "lock_conflict L" for L
  by unfold_locales (auto simp: lock_conflict_def dest: server_eq_sym)

definition held_by :: "socket_lock_info \<Rightarrow> (CServer \<times> lock_info) set" where
  "held_by s = {(sl_server s, l) | l. l \<in> set (sl_locks s) \<and> lock_active l}"

lemma lock_blocks_waiting [simp]: "lock_blocks L other (l\<lparr>li_waiting := b\<rparr>) = lock_blocks L other l"
  by (simp add: lock_blocks_def)

lemma lock_blocks_conflict:
  "lock_blocks L other l \<longleftrightarrow> lock_active other \<and> lock_conflict L (s, other) (s', l)" if "server_eq s s'"
  using that by (auto simp: lock_blocks_def lock_active_def lock_conflict_def)

subsection \<open>The table's invariant\<close>

definition used_slots :: "lock_table \<Rightarrow> nat list" where
  "used_slots m = concat (map (\<lambda>s. case sl_socket s of None \<Rightarrow> [] | Some x \<Rightarrow> [x]) m)"

definition slot_ok :: "socket_lock_info \<Rightarrow> bool" where
  "slot_ok s \<longleftrightarrow> (sl_socket s = None \<longleftrightarrow> sl_locks s = []) \<and>
     (sl_locks s \<noteq> [] \<longrightarrow> \<not> li_released (last (sl_locks s)))"

definition table_ok :: "libfz \<Rightarrow> lock_table \<Rightarrow> bool" where
  "table_ok L m \<longleftrightarrow>
     (\<forall>s \<in> set m. slot_ok s) \<and> (m \<noteq> [] \<longrightarrow> sl_socket (last m) \<noteq> None) \<and>
     distinct (used_slots m) \<and> locks.exclusive L (map held_by m)"

definition live :: "lock_table \<Rightarrow> lock_handle set" where
  "live m = {(i, j). i < length m \<and> j < length (sl_locks (m ! i)) \<and> \<not> li_released (sl_locks (m ! i) ! j)}"

lemma used_slots_append [simp]: "used_slots (m @ n) = used_slots m @ used_slots n"
  by (simp add: used_slots_def)

lemma used_slots_Nil [simp]: "used_slots [] = []"
  by (simp add: used_slots_def)

lemma used_slots_one [simp]: "used_slots [s] = (case sl_socket s of None \<Rightarrow> [] | Some x \<Rightarrow> [x])"
  by (simp add: used_slots_def)

lemma used_slots_set: "x \<in> set (used_slots m) \<longleftrightarrow> (\<exists>s \<in> set m. sl_socket s = Some x)"
proof (induction m)
  case (Cons s m)
  then show ?case using used_slots_append [of "[s]" m] by (auto split: option.splits)
qed simp

lemma used_slots_same:
  assumes "map sl_socket m = map sl_socket n"
  shows "used_slots m = used_slots n"
proof -
  have eq: "used_slots k = concat (map (case_option [] (\<lambda>x. [x])) (map sl_socket k))" for k
    by (simp add: used_slots_def comp_def)
  show ?thesis by (simp only: eq assms)
qed

lemma drop_released_split:
  obtains dead where "ls = drop_released ls @ dead" "\<forall>l \<in> set dead. li_released l"
    "drop_released ls = [] \<or> \<not> li_released (last (drop_released ls))"
proof
  let ?t = "rev (takeWhile li_released (rev ls))"
  have "rev (rev ls) = rev (takeWhile li_released (rev ls) @ dropWhile li_released (rev ls))" by simp
  then show "ls = drop_released ls @ ?t" by (simp only: rev_append drop_released_def rev_rev_ident)
  show "\<forall>l \<in> set ?t. li_released l" by (auto dest: set_takeWhileD)
  show "drop_released ls = [] \<or> \<not> li_released (last (drop_released ls))"
    using hd_dropWhile [of li_released "rev ls"] by (auto simp: drop_released_def last_rev)
qed

lemma drop_unused_split:
  obtains dead where "m = drop_unused m @ dead" "\<forall>s \<in> set dead. sl_socket s = None"
    "drop_unused m = [] \<or> sl_socket (last (drop_unused m)) \<noteq> None"
proof
  let ?t = "rev (takeWhile (\<lambda>s. sl_socket s = None) (rev m))"
  have "rev (rev m) = rev (takeWhile (\<lambda>s. sl_socket s = None) (rev m) @ dropWhile (\<lambda>s. sl_socket s = None) (rev m))"
    by simp
  then show "m = drop_unused m @ ?t" by (simp only: rev_append drop_unused_def rev_rev_ident)
  show "\<forall>s \<in> set ?t. sl_socket s = None" by (auto dest: set_takeWhileD)
  show "drop_unused m = [] \<or> sl_socket (last (drop_unused m)) \<noteq> None"
  proof (cases "drop_unused m = []")
    case False
    then have "dropWhile (\<lambda>s. sl_socket s = None) (rev m) \<noteq> []"
      by (simp add: drop_unused_def del: dropWhile_eq_Nil_conv)
    from hd_dropWhile [OF this] show ?thesis by (simp add: drop_unused_def last_rev)
  qed simp
qed

subsection \<open>Changing one slot\<close>

text \<open>A slot gets a new list of locks: what has to hold of it, and what is live after.\<close>

definition table_ok_but :: "nat \<Rightarrow> libfz \<Rightarrow> lock_table \<Rightarrow> bool" where
  "table_ok_but i L m \<longleftrightarrow>
     (\<forall>k < length m. k \<noteq> i \<longrightarrow> slot_ok (m ! k)) \<and> (m \<noteq> [] \<longrightarrow> sl_socket (last m) \<noteq> None) \<and>
     distinct (used_slots m) \<and> locks.exclusive L (map held_by m)"

lemma table_ok_weaken: "table_ok L m \<Longrightarrow> table_ok_but i L m"
  by (simp add: table_ok_def table_ok_but_def)

lemma table_ok_slot:
  assumes ok: "table_ok_but i L m" and i: "i < length m" and s: "slot_ok s"
    and same: "sl_server s = sl_server (m ! i)"
    and sock: "sl_socket s = sl_socket (m ! i) \<or> sl_socket s = None \<and> i + 1 < length m"
    and held: "\<And>k l other. k < length m \<Longrightarrow> k \<noteq> i \<Longrightarrow> l \<in> set (sl_locks s) \<Longrightarrow> lock_active l \<Longrightarrow>
        \<not> (l \<in> set (sl_locks (m ! i)) \<and> lock_active l) \<Longrightarrow> other \<in> set (sl_locks (m ! k)) \<Longrightarrow> lock_active other \<Longrightarrow>
        \<not> lock_conflict L (sl_server s, l) (sl_server (m ! k), other)"
  shows "table_ok L (m[i := s])"
proof -
  have split: "m = take i m @ m ! i # drop (Suc i) m" by (rule id_take_nth_drop [OF i])
  have new: "m[i := s] = take i m @ s # drop (Suc i) m" by (rule upd_conv_take_nth_drop [OF i])
  have slots: "\<forall>s \<in> set (m[i := s]). slot_ok s"
    using ok s i unfolding all_set_conv_all_nth by (simp add: table_ok_but_def nth_list_update)
  have "used_slots (m[i := s]) = used_slots (take i m) @ used_slots [s] @ used_slots (drop (Suc i) m)"
    unfolding new by (simp add: used_slots_def)
  moreover have "used_slots m = used_slots (take i m) @ used_slots [m ! i] @ used_slots (drop (Suc i) m)"
    by (subst split) (simp add: used_slots_def)
  moreover have "distinct (used_slots m)" using ok by (simp add: table_ok_but_def)
  ultimately have dist: "distinct (used_slots (m[i := s]))"
    using sock by (auto split: option.splits)
  have last: "sl_socket (last (m[i := s])) \<noteq> None"
  proof (cases "i + 1 = length m")
    case True
    then have "m \<noteq> []" "length m - 1 = i" using i by auto
    then have "last (m[i := s]) = s" "last m = m ! i" using i by (simp_all add: last_conv_nth)
    then show ?thesis using ok sock True by (auto simp: table_ok_but_def)
  next
    case False
    have ne: "m \<noteq> []" using i by auto
    moreover have "i \<noteq> length m - 1" using False i by auto
    ultimately have "last (m[i := s]) = last m" by (simp add: last_conv_nth)
    then show ?thesis using ok ne by (simp add: table_ok_but_def)
  qed
  have "locks.exclusive L ((map held_by m)[i := held_by s])"
  proof (rule locks.exclusive_update)
    show "locks.exclusive L (map held_by m)" using ok by (simp add: table_ok_but_def)
    fix k x y assume k: "k < length (map held_by m)" "k \<noteq> i" and x: "x \<in> held_by s - map held_by m ! i"
      and y: "y \<in> map held_by m ! k"
    obtain l where l: "x = (sl_server s, l)" "l \<in> set (sl_locks s)" "lock_active l"
      using x by (auto simp: held_by_def)
    obtain other where other: "y = (sl_server (m ! k), other)" "other \<in> set (sl_locks (m ! k))" "lock_active other"
      using y k by (auto simp: held_by_def)
    have "\<not> (l \<in> set (sl_locks (m ! i)) \<and> lock_active l)" using x l i same by (auto simp: held_by_def)
    then show "\<not> lock_conflict L x y" using held [of k l other] k l other by simp
  qed
  then have "locks.exclusive L (map held_by (m[i := s]))" by (simp add: map_update)
  then show ?thesis using slots dist last by (simp add: table_ok_def)
qed

definition live_idx :: "lock_info list \<Rightarrow> nat set" where
  "live_idx ls = {j. j < length ls \<and> \<not> li_released (ls ! j)}"

lemma live_idx_snoc: "\<not> li_released l \<Longrightarrow> live_idx (ls @ [l]) = insert (length ls) (live_idx ls)"
  by (auto simp: live_idx_def nth_append less_Suc_eq)

lemma live_others: "i < length m \<Longrightarrow> live m = {h \<in> live m. fst h \<noteq> i} \<union> Pair i ` live_idx (sl_locks (m ! i))"
  by (auto simp: live_def live_idx_def)

lemma live_slot:
  assumes "i < length m"
  shows "live (m[i := s]) = {h \<in> live m. fst h \<noteq> i} \<union> Pair i ` live_idx (sl_locks s)"
  using assms by (auto simp: live_def live_idx_def nth_list_update split: if_splits)

lemma same_socket_slot:
  assumes "distinct (used_slots m)" "i < length m" "k < length m"
    and "sl_socket (m ! i) = Some x" "sl_socket (m ! k) = Some x"
  shows "i = k"
proof -
  have *: False if "a < b" "b < length m" "sl_socket (m ! a) = Some x" "sl_socket (m ! b) = Some x" for a b
  proof -
    have "m = take b m @ drop b m" by simp
    then have "distinct (used_slots (take b m) @ used_slots (drop b m))"
      using assms(1) by (metis used_slots_append)
    moreover have "x \<in> set (used_slots (take b m))"
      using that unfolding used_slots_set by (intro bexI [of _ "m ! a"]) (auto simp: in_set_conv_nth intro!: exI [of _ a])
    moreover have "m ! b \<in> set (drop b m)" using that(2) by (metis Cons_nth_drop_Suc list.set_intros(1))
    then have "x \<in> set (used_slots (drop b m))" using that(4) unfolding used_slots_set by blast
    ultimately show False by auto
  qed
  show ?thesis using *[of i k] *[of k i] assms by (metis linorder_neqE_nat)
qed

subsection \<open>Locking\<close>

lemma get_or_create_spec:
  assumes "table_ok L m" "get_or_create m sock server = (m1, i)"
  shows "table_ok_but i L m1 \<and> i < length m1 \<and> sl_socket (m1 ! i) = Some sock \<and> live m1 = live m"
proof (cases "find_idx (\<lambda>s. sl_socket s = Some sock) m")
  case (Some k)
  then show ?thesis using assms find_idx_less [OF Some] find_idx_hit [OF Some] table_ok_weaken
    by (simp add: get_or_create_def)
next
  case None
  let ?s = "\<lparr>sl_server = server, sl_socket = Some sock, sl_locks = []\<rparr>"
  have m1: "m1 = m @ [?s]" "i = length m" using None assms(2) by (simp_all add: get_or_create_def del: find_idx_None)
  have "sock \<notin> set (used_slots m)" using None unfolding used_slots_set by simp
  moreover have "locks.exclusive L (map held_by m @ [{}])"
    using assms(1) by (intro locks.exclusive_snoc_empty) (simp add: table_ok_def)
  moreover have "held_by ?s = {}" by (simp add: held_by_def)
  ultimately have "table_ok_but i L m1"
    using assms(1) by (simp add: m1 table_ok_def table_ok_but_def nth_append)
  moreover have "live m1 = live m"
    by (auto simp: m1 live_def nth_append less_Suc_eq)
  ultimately show ?thesis by (simp add: m1)
qed

lemma Lock_spec:
  assumes ok: "table_ok L m" and run: "OpLock_Lock L m sock server reason path inclusive = (m', h)"
  shows "table_ok L m' \<and> live m' = insert h (live m) \<and> h \<notin> live m"
proof -
  obtain m1 i where goc: "get_or_create m sock server = (m1, i)" by fastforce
  note g = get_or_create_spec [OF ok goc]
  let ?info = "\<lparr>li_path = path, li_reason = reason, li_inclusive = inclusive, li_waiting = False, li_released = False\<rparr>"
  define waits where "waits = list_ex (\<lambda>other. \<not> (sl_socket other = Some sock \<or>
      \<not> server_eq (sl_server other) (sl_server (m1 ! i))) \<and> list_ex (\<lambda>l. lock_blocks L l ?info) (sl_locks other)) m1"
  let ?l = "?info\<lparr>li_waiting := waits\<rparr>" and ?ls = "sl_locks (m1 ! i)"
  let ?s = "(m1 ! i)\<lparr>sl_locks := ?ls @ [?l]\<rparr>"
  have m': "m' = m1[i := ?s]" and h: "h = (i, length ?ls)"
    using run g unfolding OpLock_Lock_def goc prod.case Let_def waits_def [symmetric] add_lock_def
    by auto
  have "table_ok L m'"
    unfolding m'
  proof (rule table_ok_slot)
    show "table_ok_but i L m1" "i < length m1" "sl_server ?s = sl_server (m1 ! i)"
      "sl_socket ?s = sl_socket (m1 ! i) \<or> sl_socket ?s = None \<and> i + 1 < length m1" using g by simp_all
    show "slot_ok ?s" using g by (simp add: slot_ok_def)
    fix k l other assume k: "k < length m1" "k \<noteq> i" and l: "l \<in> set (sl_locks ?s)" "lock_active l"
      "\<not> (l \<in> set (sl_locks (m1 ! i)) \<and> lock_active l)"
      and other: "other \<in> set (sl_locks (m1 ! k))" "lock_active other"
    have new: "l = ?l" using l by auto
    then have "\<not> waits" "l = ?info" using l(2) by (auto simp: lock_active_def)
    have "distinct (used_slots m1)" using g by (simp add: table_ok_but_def)
    then have "sl_socket (m1 ! k) \<noteq> Some sock"
      using same_socket_slot [of m1 i k sock] g k by auto
    moreover have "m1 ! k \<in> set m1" using k(1) by simp
    ultimately have "\<not> lock_blocks L other ?info" if "server_eq (sl_server (m1 ! k)) (sl_server (m1 ! i))"
      using \<open>\<not> waits\<close> that other(1) by (auto simp: waits_def list_ex_iff)
    then have "\<not> lock_conflict L (sl_server (m1 ! k), other) (sl_server (m1 ! i), l)"
      using lock_blocks_conflict [of "sl_server (m1 ! k)" "sl_server (m1 ! i)" L other ?info] other(2) \<open>l = ?info\<close>
      by (auto simp only: lock_conflict_def fst_conv)
    then show "\<not> lock_conflict L (sl_server ?s, l) (sl_server (m1 ! k), other)"
      using locks.conflict_sym [of L "(sl_server (m1 ! i), l)" "(sl_server (m1 ! k), other)"] by auto
  qed
  moreover have "live m' = insert h (live m1)"
  proof -
    have "live_idx (sl_locks ?s) = insert (length ?ls) (live_idx ?ls)"
      using live_idx_snoc [of ?l ?ls] by simp
    then have "live m' = insert h ({x \<in> live m1. fst x \<noteq> i} \<union> Pair i ` live_idx ?ls)"
      unfolding m' h using live_slot [of i m1 ?s] g by simp
    then show ?thesis using live_others [of i m1] g by simp
  qed
  moreover have "h \<notin> live m1" by (simp add: h live_def)
  ultimately show ?thesis using g by simp
qed

subsection \<open>Unlocking\<close>

lemma table_ok_slotD:
  assumes "table_ok L m" "i < length m"
  shows "slot_ok (m ! i)"
  using assms by (simp add: table_ok_def)

lemma set_locks_ok:
  assumes "table_ok L m" "i < length m" "sl_locks (m ! i) \<noteq> []" "ls \<noteq> []" "\<not> li_released (last ls)"
    and "\<And>l. l \<in> set ls \<Longrightarrow> lock_active l \<Longrightarrow> l \<in> set (sl_locks (m ! i))"
  shows "table_ok L (set_locks m i ls)"
  unfolding set_locks_def
proof (rule table_ok_slot [OF table_ok_weaken [OF assms(1)] assms(2)])
  show "slot_ok ((m ! i)\<lparr>sl_locks := ls\<rparr>)"
    using table_ok_slotD [OF assms(1,2)] assms(3-5) by (simp add: slot_ok_def)
qed (use assms(6) in auto)

lemma live_set_locks:
  assumes "i < length m" "live_idx ls = live_idx (sl_locks (m ! i)) - {j}"
  shows "live (set_locks m i ls) = live m - {(i, j)}"
  using live_slot [OF assms(1)] live_others [OF assms(1)] assms(2) unfolding set_locks_def by auto

lemma live_idx_append_released: "\<forall>l \<in> set dead. li_released l \<Longrightarrow> live_idx (ls @ dead) = live_idx ls"
  by (auto simp: live_idx_def nth_append) (metis add_diff_inverse_nat nat_add_left_cancel_less nth_mem)

lemma live_append_empty: "\<forall>s \<in> set dead. sl_locks s = [] \<Longrightarrow> live (m @ dead) = live m"
proof -
  assume dead: "\<forall>s \<in> set dead. sl_locks s = []"
  have "sl_locks ((m @ dead) ! a) = []" if "\<not> a < length m" "a < length (m @ dead)" for a
    using that dead by (simp add: nth_append)
  then have "(a, b) \<in> live (m @ dead) \<longleftrightarrow> (a, b) \<in> live m" for a b
    by (cases "a < length m") (auto simp: live_def nth_append)
  then show "live (m @ dead) = live m" by auto
qed

lemma live_butlast: "i + 1 = length m \<Longrightarrow> live (butlast m) = {h \<in> live m. fst h \<noteq> i}"
  by (auto simp: live_def nth_butlast)

lemma table_ok_drop:
  assumes "table_ok L m" "i + 1 = length m"
  shows "table_ok L (drop_unused (butlast m)) \<and> live (drop_unused (butlast m)) = {h \<in> live m. fst h \<noteq> i}"
proof -
  obtain dead where dead: "butlast m = drop_unused (butlast m) @ dead" "\<forall>s \<in> set dead. sl_socket s = None"
    "drop_unused (butlast m) = [] \<or> sl_socket (last (drop_unused (butlast m))) \<noteq> None"
    by (rule drop_unused_split [of "butlast m"])
  let ?d = "drop_unused (butlast m)"
  have "m \<noteq> []" using assms(2) by auto
  then have m: "m = ?d @ dead @ [last m]" using dead(1) by (metis append_assoc append_butlast_last_id)
  have slots: "\<forall>s \<in> set m. slot_ok s" "distinct (used_slots m)" "locks.exclusive L (map held_by m)"
    using assms(1) by (simp_all add: table_ok_def)
  have sub: "set ?d \<subseteq> set m" "set dead \<subseteq> set m" by (subst m, auto)+
  have "distinct (used_slots ?d)" using slots(2) by (subst (asm) m) simp
  moreover have "locks.exclusive L (map held_by ?d)"
    using slots(3) by (subst (asm) m) (simp add: locks.exclusive_prefix)
  ultimately have "table_ok L ?d" using slots(1) sub dead(3) unfolding table_ok_def by blast
  moreover have "\<forall>s \<in> set dead. sl_locks s = []" using dead(2) slots(1) sub(2) by (auto simp: slot_ok_def)
  then have "live ?d = live (butlast m)" using live_append_empty [of dead ?d] dead(1) by simp
  ultimately show ?thesis using live_butlast [OF assms(2)] by simp
qed

lemma Unlock_spec:
  assumes ok: "table_ok L m" and h: "h \<in> live m" and run: "OpLock_Unlock m h = (m', woken)"
  shows "table_ok L m' \<and> live m' = live m - {h} \<and>
    woken = (if OpLock_Waiting m h then [] else Wakeup m')"
proof -
  obtain i j where ij: "h = (i, j)" "i < length m" "j < length (sl_locks (m ! i))"
    using h by (auto simp: live_def)
  let ?ls = "sl_locks (m ! i)"
  have jl: "j \<in> live_idx ?ls" "?ls \<noteq> []" using h ij by (auto simp: live_def live_idx_def)
  have woken: "woken = (if OpLock_Waiting m h then [] else Wakeup m')"
    using run by (auto simp: OpLock_Unlock_def OpLock_Waiting_def Let_def)
  have "table_ok L m' \<and> live m' = live m - {h}"
  proof (cases "j + 1 = length ?ls")
    case last: True
    let ?rest = "drop_released (butlast ?ls)"
    have "?ls = butlast ?ls @ [?ls ! j]" using last jl(2) by (metis add_diff_cancel_right' append_butlast_last_id last_conv_nth)
    moreover have "\<not> li_released (?ls ! j)" using jl(1) by (simp add: live_idx_def)
    ultimately have idx1: "live_idx ?ls = insert j (live_idx (butlast ?ls))"
      using live_idx_snoc [of "?ls ! j" "butlast ?ls"] last by (metis add_diff_cancel_right' length_butlast)
    obtain dead where dead: "butlast ?ls = ?rest @ dead" "\<forall>l \<in> set dead. li_released l"
      "?rest = [] \<or> \<not> li_released (List.last ?rest)"
      by (rule drop_released_split [of "butlast ?ls"])
    have idx2: "live_idx (butlast ?ls) = live_idx ?rest"
      using dead(1) live_idx_append_released [OF dead(2), of ?rest] by simp
    have "length (butlast ?ls) = j" using last by simp
    then have "j \<notin> live_idx (butlast ?ls)" by (simp add: live_idx_def)
    then have idx: "live_idx ?rest = live_idx ?ls - {j}" using idx1 idx2 by auto
    show ?thesis
    proof (cases "?rest = []")
      case True
      then have none: "live m - {h} = {x \<in> live m. fst x \<noteq> i}"
        using live_others [OF ij(2)] idx ij(1) by (auto simp: live_idx_def)
      show ?thesis
      proof (cases "i + 1 = length m")
        case end': True
        then have "m' = drop_unused (butlast m)"
          using run last True by (simp add: OpLock_Unlock_def Let_def ij(1))
        then show ?thesis using table_ok_drop [OF ok end'] none by simp
      next
        case False
        let ?s = "(m ! i)\<lparr>sl_locks := [], sl_socket := None\<rparr>"
        have m': "m' = m[i := ?s]" using run last True False by (simp add: OpLock_Unlock_def Let_def ij(1))
        have "table_ok L m'" unfolding m'
          by (rule table_ok_slot [OF table_ok_weaken [OF ok] ij(2)])
            (use False ij(2) in \<open>auto simp: slot_ok_def\<close>)
        moreover have "live m' = {x \<in> live m. fst x \<noteq> i}"
          unfolding m' using live_slot [OF ij(2), of ?s] by (simp add: live_idx_def)
        ultimately show ?thesis using none by simp
      qed
    next
      case False
      have m': "m' = set_locks m i ?rest" using run last False by (simp add: OpLock_Unlock_def Let_def ij(1))
      have "set ?rest \<subseteq> set ?ls" using dead(1) by (metis Un_upper1 in_set_butlastD set_append subsetD subsetI)
      then have "table_ok L m'" unfolding m'
        using dead(3) False by (intro set_locks_ok [OF ok ij(2) jl(2) False]) auto
      then show ?thesis using live_set_locks [OF ij(2) idx] m' ij(1) by simp
    qed
  next
    case False
    let ?new = "?ls[j := (?ls ! j)\<lparr>li_waiting := False, li_released := True\<rparr>]"
    have m': "m' = set_locks m i ?new" using run False by (simp add: OpLock_Unlock_def Let_def ij(1))
    have ne: "?new \<noteq> []" using jl(2) by simp
    have "j \<noteq> length ?ls - 1" using False ij(3) by simp
    then have "List.last ?new = List.last ?ls" using jl(2) by (simp add: last_conv_nth)
    then have rel: "\<not> li_released (List.last ?new)" using table_ok_slotD [OF ok ij(2)] jl(2) by (simp add: slot_ok_def)
    have "table_ok L m'" unfolding m'
    proof (rule set_locks_ok [OF ok ij(2) jl(2) ne rel])
      fix l assume "l \<in> set ?new" "lock_active l"
      then show "l \<in> set ?ls"
        using set_update_subset_insert [of ?ls j "(?ls ! j)\<lparr>li_waiting := False, li_released := True\<rparr>"]
        by (auto simp: lock_active_def)
    qed
    moreover have "live_idx ?new = live_idx ?ls - {j}"
      using ij(3) by (auto simp: live_idx_def nth_list_update split: if_splits)
    ultimately show ?thesis using live_set_locks [OF ij(2)] m' ij(1) by simp
  qed
  then show ?thesis using woken by simp
qed

subsection \<open>Obtaining\<close>

definition in_table :: "lock_table \<Rightarrow> lock_handle \<Rightarrow> bool" where
  "in_table m h \<longleftrightarrow> fst h < length m \<and> snd h < length (sl_locks (m ! fst h))"

definition table_shape :: "lock_table \<Rightarrow> nat list" where
  "table_shape m = map (\<lambda>s. length (sl_locks s)) m"

lemma in_table_shape: "in_table m h \<longleftrightarrow> fst h < length (table_shape m) \<and> snd h < table_shape m ! fst h"
  by (auto simp: in_table_def table_shape_def)

lemma obtain_one_spec:
  assumes ok: "table_ok L m" and h: "in_table m h"
  shows "table_ok L (fst (obtain_one L h (m, b))) \<and> live (fst (obtain_one L h (m, b))) = live m \<and>
    table_shape (fst (obtain_one L h (m, b))) = table_shape m"
proof -
  obtain i j where ij: "h = (i, j)" "i < length m" "j < length (sl_locks (m ! i))"
    using h by (cases h) (auto simp: in_table_def)
  let ?ls = "sl_locks (m ! i)" and ?l = "sl_locks (m ! i) ! j"
  let ?new = "?ls[j := ?l\<lparr>li_waiting := False\<rparr>]"
  show ?thesis
  proof (cases "li_waiting ?l \<and> \<not> lock_blocked L m i ?l")
    case False
    then have "obtain_one L h (m, b) = (m, b)"
      by (simp only: obtain_one_def Let_def ij(1) fst_conv snd_conv if_False)
    then show ?thesis using ok by simp
  next
    case True
    then have run: "fst (obtain_one L h (m, b)) = set_locks m i ?new"
      by (simp add: obtain_one_def Let_def ij(1))
    have ne: "?ls \<noteq> []" using ij(3) by auto
    have idx: "live_idx ?new = live_idx ?ls"
      using ij(3) by (auto simp: live_idx_def nth_list_update split: if_splits)
    have "table_ok L (set_locks m i ?new)"
      unfolding set_locks_def
    proof (rule table_ok_slot [OF table_ok_weaken [OF ok] ij(2)])
      have "li_released (List.last ?new) = li_released (List.last ?ls)"
        using ne ij(3) by (cases "j = length ?ls - 1") (simp_all add: last_conv_nth)
      then show "slot_ok ((m ! i)\<lparr>sl_locks := ?new\<rparr>)"
        using table_ok_slotD [OF ok ij(2)] ne by (simp add: slot_ok_def)
      fix k l other assume k: "k < length m" "k \<noteq> i" and l: "l \<in> set (sl_locks ((m ! i)\<lparr>sl_locks := ?new\<rparr>))"
        "lock_active l" "\<not> (l \<in> set ?ls \<and> lock_active l)"
        and other: "other \<in> set (sl_locks (m ! k))" "lock_active other"
      have "l = ?l\<lparr>li_waiting := False\<rparr>"
        using l set_update_subset_insert [of ?ls j "?l\<lparr>li_waiting := False\<rparr>"] by auto
      moreover have "\<not> lock_blocks L other ?l"
        using True k other(1) by (auto simp: lock_blocked_def list_ex_iff)
      ultimately have "\<not> lock_blocks L other l" by simp
      then have "\<not> lock_conflict L (sl_server (m ! k), other) (sl_server (m ! i), l)"
        using lock_blocks_conflict [of "sl_server (m ! k)" "sl_server (m ! i)" L other l] other(2)
        by (auto simp only: lock_conflict_def fst_conv)
      then show "\<not> lock_conflict L (sl_server ((m ! i)\<lparr>sl_locks := ?new\<rparr>), l) (sl_server (m ! k), other)"
        using locks.conflict_sym [of L "(sl_server (m ! i), l)" "(sl_server (m ! k), other)"] by auto
    qed simp_all
    moreover have "live (set_locks m i ?new) = live m"
      using live_slot [OF ij(2), of "(m ! i)\<lparr>sl_locks := ?new\<rparr>"] live_others [OF ij(2)] idx
      by (simp add: set_locks_def)
    moreover have "table_shape (set_locks m i ?new) = table_shape m"
      using ij(2) by (simp add: table_shape_def set_locks_def map_update list_update_same_conv)
    ultimately show ?thesis using run by simp
  qed
qed

lemma obtain_fold_spec:
  assumes "table_ok L m" "\<forall>h \<in> set hs. in_table m h"
  shows "table_ok L (fst (fold (obtain_one L) hs (m, b))) \<and> live (fst (fold (obtain_one L) hs (m, b))) = live m \<and>
    table_shape (fst (fold (obtain_one L) hs (m, b))) = table_shape m"
  using assms
proof (induction hs arbitrary: m b)
  case (Cons h hs)
  obtain m1 b1 where one: "obtain_one L h (m, b) = (m1, b1)" by fastforce
  have spec: "table_ok L m1" "live m1 = live m" "table_shape m1 = table_shape m"
    using obtain_one_spec [OF Cons.prems(1), of h b] Cons.prems(2) one by simp_all
  then have "\<forall>h \<in> set hs. in_table m1 h" using Cons.prems(2) by (simp add: in_table_shape)
  from Cons.IH [OF spec(1) this, of b1] spec one show ?case by simp
qed simp

lemma socket_locks_in_table: "\<forall>h \<in> set (socket_locks m sock). in_table m h"
  by (auto simp: socket_locks_def in_table_def split: if_splits)

lemma ObtainWaiting_spec:
  assumes "table_ok L m" "OpLock_ObtainWaiting L m sock = (m', got)"
  shows "table_ok L m' \<and> live m' = live m"
  using obtain_fold_spec [OF assms(1) socket_locks_in_table, of sock False] assms(2)
  by (simp add: OpLock_ObtainWaiting_def)

subsection \<open>Reachable tables\<close>

text \<open>The manager together with the handles that exist.  A handle is unlocked at most once,
  by its owner.\<close>

inductive lock_step :: "libfz \<Rightarrow> lock_table \<times> lock_handle set \<Rightarrow> lock_table \<times> lock_handle set \<Rightarrow> bool" for L where
  lock: "OpLock_Lock L m sock server reason path inclusive = (m', h) \<Longrightarrow> lock_step L (m, H) (m', insert h H)"
| unlock: "h \<in> H \<Longrightarrow> OpLock_Unlock m h = (m', woken) \<Longrightarrow> lock_step L (m, H) (m', H - {h})"
| obtain': "OpLock_ObtainWaiting L m sock = (m', got) \<Longrightarrow> lock_step L (m, H) (m', H)"

inductive lock_reachable :: "libfz \<Rightarrow> lock_table \<times> lock_handle set \<Rightarrow> bool" for L where
  start: "lock_reachable L ([], {})"
| step: "lock_reachable L s \<Longrightarrow> lock_step L s s' \<Longrightarrow> lock_reachable L s'"

inductive_cases lock_stepE: "lock_step L s s'"

lemma lock_step_inv:
  assumes "lock_step L s s'" "table_ok L (fst s)" "snd s = live (fst s)"
  shows "table_ok L (fst s') \<and> snd s' = live (fst s')"
  using assms(1)
proof cases
  case (lock m sock server reason path inclusive m' h H)
  then show ?thesis using Lock_spec [of L m sock server reason path inclusive m' h] assms(2,3) by simp
next
  case (unlock h H m m' woken)
  then show ?thesis using Unlock_spec [of L m h m' woken] assms(2,3) by simp
next
  case (obtain' m sock m' got H)
  then show ?thesis using ObtainWaiting_spec [of L m sock m' got] assms(2,3) by simp
qed

lemma lock_reachable_inv:
  "lock_reachable L s \<Longrightarrow> table_ok L (fst s) \<and> snd s = live (fst s)"
proof (induction rule: lock_reachable.induct)
  case start
  then show ?case by (simp add: table_ok_def live_def locks.exclusive_Nil)
next
  case (step s s')
  then show ?case using lock_step_inv [of L s s'] by simp
qed

lemma reach_Lock:
  assumes "lock_reachable L (m, H)" "OpLock_Lock L m sock server reason path inclusive = (m', h)"
  shows "lock_reachable L (m', insert h H)"
  using assms by (blast intro: lock_reachable.step lock_step.lock)

text \<open>A run that the witnesses share: two connections to one server lock the same
  directory, the second waits.\<close>

definition example_server :: CServer where
  "example_server = CServer_make FTP UNIX ''h'' 21"

definition example_run :: "lock_table" where
  "example_run =
     fst (OpLock_Lock libfz_std
       (fst (OpLock_Lock libfz_std [] 1 example_server reason_list (CServerPath_make ''/a'' UNIX) True))
       2 example_server reason_list (CServerPath_make ''/a/b'' UNIX) False)"

lemma example_reachable: "lock_reachable libfz_std (example_run, {(0, 0), (1, 0)})"
proof -
  let ?first = "OpLock_Lock libfz_std [] 1 example_server reason_list (CServerPath_make ''/a'' UNIX) True"
  have 1: "?first = (fst ?first, (0, 0))" by code_simp
  have 2: "OpLock_Lock libfz_std (fst ?first) 2 example_server reason_list (CServerPath_make ''/a/b'' UNIX) False
      = (example_run, (1, 0))" by code_simp
  show ?thesis
    using reach_Lock [OF reach_Lock [OF lock_reachable.start 1] 2] by (simp add: insert_commute)
qed

text \<open>C6: mutual exclusion.  Whatever the order of locking, unlocking and obtaining, two
  connections to the same server never hold conflicting locks at once: same reason, and the same path or an
  inclusive lock on a parent of the other's path.\<close>

theorem op_lock_mutual_exclusion:
  assumes "lock_reachable L (m, H)"
    and "i < length m" "k < length m" "i \<noteq> k"
    and "x \<in> set (sl_locks (m ! i))" "y \<in> set (sl_locks (m ! k))" "lock_active x" "lock_active y"
  shows "\<not> lock_conflict L (sl_server (m ! i), x) (sl_server (m ! k), y)"
proof -
  have "locks.exclusive L (map held_by m)"
    using lock_reachable_inv [OF assms(1)] by (simp add: table_ok_def)
  then have "\<forall>a \<in> held_by (m ! i). \<forall>b \<in> held_by (m ! k). \<not> lock_conflict L a b"
    using assms(2-4) by (simp add: locks.exclusive_def)
  then show ?thesis using assms(5-8) by (simp add: held_by_def)
qed

theorem op_lock_mutual_exclusion_witness:
  "let m = fst (OpLock_Lock libfz_std example_run 3 example_server reason_mkdir (CServerPath_make ''/a'' UNIX) False);
       x = sl_locks (m ! 0) ! 0; y = sl_locks (m ! 2) ! 0
   in lock_active x \<and> lock_active y \<and> li_path x = li_path y \<and>
      \<not> lock_conflict libfz_std (sl_server (m ! 0), x) (sl_server (m ! 2), y)"
proof -
  let ?r = "OpLock_Lock libfz_std example_run 3 example_server reason_mkdir (CServerPath_make ''/a'' UNIX) False"
  let ?x = "sl_locks (fst ?r ! 0) ! 0" and ?y = "sl_locks (fst ?r ! 2) ! 0"
  have "lock_reachable libfz_std (fst ?r, insert (snd ?r) {(0, 0), (1, 0)})"
    by (rule reach_Lock [OF example_reachable, of 3 example_server reason_mkdir "CServerPath_make ''/a'' UNIX" False]) simp
  moreover have "length (fst ?r) = 3" "lock_active ?x" "lock_active ?y" "li_path ?x = li_path ?y"
    "list_ex (\<lambda>l. l = ?x) (sl_locks (fst ?r ! 0))" "list_ex (\<lambda>l. l = ?y) (sl_locks (fst ?r ! 2))" by code_simp+
  ultimately show ?thesis
    using op_lock_mutual_exclusion [of libfz_std "fst ?r" _ 0 2 ?x ?y] by (auto simp: Let_def list_ex_iff)
qed

text \<open>Every handle in existence names a lock of the table that is not released, and
  every such lock has its handle, so the index assertions of \<open>Unlock\<close> and \<open>Waiting\<close>
  hold; and when the last handle is gone the table is empty again.\<close>

theorem op_lock_handles_valid:
  assumes "lock_reachable L (m, H)"
  shows "(\<forall>h \<in> H. in_table m h \<and> \<not> li_released (sl_locks (m ! fst h) ! snd h)) \<and> (H = {} \<longrightarrow> m = [])"
proof -
  have inv: "table_ok L m" "H = live m" using lock_reachable_inv [OF assms] by simp_all
  have "\<forall>h \<in> H. in_table m h \<and> \<not> li_released (sl_locks (m ! fst h) ! snd h)"
    using inv(2) by (auto simp: live_def in_table_def)
  moreover have "m = []" if "H = {}"
  proof (rule ccontr)
    assume ne: "m \<noteq> []"
    let ?s = "List.last m"
    have "sl_socket ?s \<noteq> None" "slot_ok ?s" using inv(1) ne by (simp_all add: table_ok_def)
    then have locks: "sl_locks ?s \<noteq> []" "\<not> li_released (List.last (sl_locks ?s))"
      by (auto simp: slot_ok_def)
    have "(length m - 1, length (sl_locks ?s) - 1) \<in> live m"
      using ne locks by (simp add: live_def last_conv_nth)
    then show False using that inv(2) by simp
  qed
  ultimately show ?thesis by blast
qed

theorem op_lock_handles_valid_witness:
  "in_table example_run (0, 0) \<and> in_table example_run (1, 0) \<and> OpLock_Waiting example_run (1, 0)"
proof -
  have "OpLock_Waiting example_run (1, 0)" by code_simp
  then show ?thesis using op_lock_handles_valid [OF example_reachable] by simp
qed

subsection \<open>No lost wakeup\<close>

lemma lock_blocked_iff:
  "lock_blocked L m i l \<longleftrightarrow>
     (\<exists>k < length m. k \<noteq> i \<and> (\<exists>other \<in> set (sl_locks (m ! k)). lock_blocks L other l))"
  by (auto simp: lock_blocked_def list_ex_iff Bex_def)

lemma lock_blocked_cong:
  "length m = length n \<Longrightarrow> (\<And>k. k \<noteq> i \<Longrightarrow> m ! k = n ! k) \<Longrightarrow> lock_blocked L m i l = lock_blocked L n i l"
  unfolding lock_blocked_iff by metis

lemma obtain_one_cases:
  obtains (skip) "obtain_one L h st = st"
      "\<not> (li_waiting (sl_locks (fst st ! fst h) ! snd h) \<and>
          \<not> lock_blocked L (fst st) (fst h) (sl_locks (fst st ! fst h) ! snd h))"
    | (grant) "obtain_one L h st = (set_locks (fst st) (fst h)
        ((sl_locks (fst st ! fst h))[snd h := (sl_locks (fst st ! fst h) ! snd h)\<lparr>li_waiting := False\<rparr>]), True)"
      "li_waiting (sl_locks (fst st ! fst h) ! snd h)"
  unfolding obtain_one_def Let_def by (metis (no_types, lifting))

lemma obtain_fold_monotone:
  assumes "\<forall>h \<in> set hs. in_table m h" "in_table m (i, j)"
  shows "(b \<longrightarrow> snd (fold (obtain_one L) hs (m, b))) \<and>
    (\<not> li_waiting (sl_locks (m ! i) ! j) \<longrightarrow>
       \<not> li_waiting (sl_locks (fst (fold (obtain_one L) hs (m, b)) ! i) ! j))"
  using assms
proof (induction hs arbitrary: m b)
  case (Cons h hs)
  show ?case
  proof (cases rule: obtain_one_cases [of L h "(m, b)"])
    case skip
    then show ?thesis using Cons.IH [of m b] Cons.prems by (cases b) simp_all
  next
    case grant
    let ?m = "set_locks m (fst h) ((sl_locks (m ! fst h))[snd h := (sl_locks (m ! fst h) ! snd h)\<lparr>li_waiting := False\<rparr>])"
    have shape: "table_shape ?m = table_shape m"
      using Cons.prems(1) by (simp add: table_shape_def set_locks_def map_update in_table_def list_update_same_conv)
    have keep: "\<not> li_waiting (sl_locks (?m ! i) ! j)" if "\<not> li_waiting (sl_locks (m ! i) ! j)"
      using that Cons.prems by (auto simp: set_locks_def in_table_def nth_list_update split: if_splits)
    have "\<forall>h \<in> set hs. in_table ?m h" "in_table ?m (i, j)" using Cons.prems shape by (simp_all add: in_table_shape)
    from Cons.IH [OF this, of True] grant keep show ?thesis by (cases b) simp_all
  qed
qed simp

lemma obtain_fold_grants:
  assumes "\<forall>h \<in> set hs. in_table m h \<and> fst h = i" "(i, j) \<in> set hs"
    and "li_waiting (sl_locks (m ! i) ! j)" "\<not> lock_blocked L m i (sl_locks (m ! i) ! j)"
  shows "snd (fold (obtain_one L) hs (m, b)) \<and>
    \<not> li_waiting (sl_locks (fst (fold (obtain_one L) hs (m, b)) ! i) ! j)"
  using assms
proof (induction hs arbitrary: m b)
  case (Cons h hs)
  obtain j' where h: "h = (i, j')" "in_table m (i, j')" using Cons.prems(1) by (cases h) auto
  have ij: "in_table m (i, j)" using Cons.prems(1,2) by auto
  show ?case
  proof (cases rule: obtain_one_cases [of L h "(m, b)"])
    case skip
    then have "(i, j) \<noteq> h" using Cons.prems(3,4) by auto
    then show ?thesis using Cons.IH [of m b] Cons.prems skip by simp
  next
    case grant
    let ?m = "set_locks m i ((sl_locks (m ! i))[j' := (sl_locks (m ! i) ! j')\<lparr>li_waiting := False\<rparr>])"
    have run: "obtain_one L h (m, b) = (?m, True)" using grant h by simp
    have shape: "table_shape ?m = table_shape m"
      using h by (simp add: table_shape_def set_locks_def map_update in_table_def list_update_same_conv)
    then have tab: "\<forall>h \<in> set hs. in_table ?m h \<and> fst h = i" "in_table ?m (i, j)"
      using Cons.prems(1) ij by (auto simp: in_table_shape)
    show ?thesis
    proof (cases "j = j'")
      case True
      then have "\<not> li_waiting (sl_locks (?m ! i) ! j)"
        using h by (simp add: set_locks_def in_table_def)
      then show ?thesis using obtain_fold_monotone [of hs ?m i j True L] tab run by simp
    next
      case False
      have same: "sl_locks (?m ! i) ! j = sl_locks (m ! i) ! j"
        using False h by (simp add: set_locks_def in_table_def)
      have "lock_blocked L ?m i l = lock_blocked L m i l" for l
        by (rule lock_blocked_cong) (simp_all add: set_locks_def)
      then show ?thesis using Cons.IH [of ?m True] tab(1) Cons.prems(2-4) False same run h by simp
    qed
  qed
qed simp

lemma obtain_fold_refuses:
  assumes "\<forall>h \<in> set hs. in_table m h \<and> fst h = i" "li_waiting (sl_locks (m ! i) ! j)"
    and "lock_blocked L m i (sl_locks (m ! i) ! j)"
  shows "li_waiting (sl_locks (fst (fold (obtain_one L) hs (m, b)) ! i) ! j)"
  using assms
proof (induction hs arbitrary: m b)
  case (Cons h hs)
  obtain j' where h: "h = (i, j')" "in_table m (i, j')" using Cons.prems(1) by (cases h) auto
  show ?case
  proof (cases "li_waiting (sl_locks (m ! i) ! j') \<and> \<not> lock_blocked L m i (sl_locks (m ! i) ! j')")
    case False
    then have "obtain_one L h (m, b) = (m, b)" by (auto simp: obtain_one_def Let_def h(1))
    then show ?thesis using Cons by simp
  next
    case True
    let ?m = "set_locks m i ((sl_locks (m ! i))[j' := (sl_locks (m ! i) ! j')\<lparr>li_waiting := False\<rparr>])"
    have run: "obtain_one L h (m, b) = (?m, True)" using True by (simp add: obtain_one_def Let_def h(1))
    have "j \<noteq> j'" using True Cons.prems(3) by auto
    then have same: "sl_locks (?m ! i) ! j = sl_locks (m ! i) ! j" using h by (simp add: set_locks_def in_table_def)
    have "table_shape ?m = table_shape m"
      using h by (simp add: table_shape_def set_locks_def map_update in_table_def list_update_same_conv)
    then have "\<forall>h \<in> set hs. in_table ?m h \<and> fst h = i" using Cons.prems(1) by (auto simp: in_table_shape)
    moreover have "lock_blocked L ?m i l = lock_blocked L m i l" for l
      by (rule lock_blocked_cong) (simp_all add: set_locks_def)
    ultimately show ?thesis using Cons.IH [of ?m True] Cons.prems(2,3) same run by simp
  qed
qed simp

text \<open>What keeps a lock waiting, apart from the tests of the code: a lock that another connection holds
  for the same reason on the same or an overlapping path, on the same server or on another one.\<close>

definition lock_clash :: "libfz \<Rightarrow> lock_info \<Rightarrow> lock_info \<Rightarrow> bool" where
  "lock_clash L x y \<longleftrightarrow>
     li_reason x = li_reason y \<and>
     (li_path x = li_path y \<or>
      li_inclusive x \<and> IsParentOf L (li_path x) (li_path y) False False \<or>
      li_inclusive y \<and> IsParentOf L (li_path y) (li_path x) False False)"

definition held_same :: "libfz \<Rightarrow> lock_table \<Rightarrow> nat \<Rightarrow> lock_info \<Rightarrow> bool" where
  "held_same L m i l \<longleftrightarrow>
     list_ex (\<lambda>k. k \<noteq> i \<and> list_ex (\<lambda>other. lock_active other \<and>
       lock_conflict L (sl_server (m ! k), other) (sl_server (m ! i), l)) (sl_locks (m ! k))) [0..<length m]"

definition held_other :: "libfz \<Rightarrow> lock_table \<Rightarrow> nat \<Rightarrow> lock_info \<Rightarrow> bool" where
  "held_other L m i l \<longleftrightarrow>
     list_ex (\<lambda>k. k \<noteq> i \<and> \<not> server_eq (sl_server (m ! k)) (sl_server (m ! i)) \<and>
       list_ex (\<lambda>other. lock_active other \<and> lock_clash L other l) (sl_locks (m ! k))) [0..<length m]"

lemma lock_blocks_clash: "lock_blocks L other l \<longleftrightarrow> lock_active other \<and> lock_clash L other l"
  by (auto simp: lock_blocks_def lock_active_def lock_clash_def path_eq_def)

lemma lock_blocked_held: "lock_blocked L m i l \<longleftrightarrow> held_same L m i l \<or> held_other L m i l"
  by (auto simp: lock_blocked_def held_same_def held_other_def list_ex_iff lock_blocks_clash
      lock_conflict_def lock_clash_def)

text \<open>Blocking only depends on the locks held in the other slots.\<close>

definition keeps_active :: "lock_table \<Rightarrow> lock_table \<Rightarrow> bool" where
  "keeps_active m m' \<longleftrightarrow>
     (\<forall>k < length m. \<forall>l \<in> set (sl_locks (m ! k)). lock_active l \<longrightarrow> k < length m' \<and> l \<in> set (sl_locks (m' ! k)))"

lemma lock_blocked_mono: "lock_blocked L m i l \<Longrightarrow> keeps_active m m' \<Longrightarrow> lock_blocked L m' i l"
  unfolding lock_blocked_iff keeps_active_def by (metis lock_blocks_clash)

subsection \<open>Locking, unlocking and obtaining, lock by lock\<close>

lemma Lock_content:
  assumes "OpLock_Lock L m sock server reason path inclusive = (m', h)" "in_table m' (k, j)"
  shows "keeps_active m m' \<and>
    (in_table m (k, j) \<and> sl_socket (m' ! k) = sl_socket (m ! k) \<and> sl_locks (m' ! k) ! j = sl_locks (m ! k) ! j \<or>
     lock_blocked L m' k (sl_locks (m' ! k) ! j) \<or> \<not> li_waiting (sl_locks (m' ! k) ! j))"
proof -
  obtain m1 i where goc: "get_or_create m sock server = (m1, i)" by fastforce
  have pre: "m1 = m \<and> i < length m \<or> m1 = m @ [\<lparr>sl_server = server, sl_socket = Some sock, sl_locks = []\<rparr>] \<and> i = length m"
    and i: "i < length m1" and sock: "sl_socket (m1 ! i) = Some sock"
    using goc find_idx_less [of "\<lambda>s. sl_socket s = Some sock" m i] find_idx_hit [of "\<lambda>s. sl_socket s = Some sock" m i]
    by (auto simp: get_or_create_def split: option.splits simp del: find_idx_None)
  let ?info = "\<lparr>li_path = path, li_reason = reason, li_inclusive = inclusive, li_waiting = False, li_released = False\<rparr>"
  define waits where "waits = list_ex (\<lambda>other. \<not> (sl_socket other = Some sock \<or>
      \<not> server_eq (sl_server other) (sl_server (m1 ! i))) \<and> list_ex (\<lambda>l. lock_blocks L l ?info) (sl_locks other)) m1"
  let ?l = "?info\<lparr>li_waiting := waits\<rparr>" and ?ls = "sl_locks (m1 ! i)"
  have m': "m' = m1[i := (m1 ! i)\<lparr>sl_locks := ?ls @ [?l]\<rparr>]"
    using assms(1) unfolding OpLock_Lock_def goc prod.case Let_def waits_def [symmetric] add_lock_def by auto
  have keep1: "keeps_active m m1" using pre by (auto simp: keeps_active_def nth_append)
  have keep2: "keeps_active m1 m'" using i by (auto simp: keeps_active_def m' nth_list_update)
  have "keeps_active m m'" using keep1 keep2 unfolding keeps_active_def by blast
  moreover have "in_table m (k, j) \<and> sl_socket (m' ! k) = sl_socket (m ! k) \<and> sl_locks (m' ! k) ! j = sl_locks (m ! k) ! j"
    if "k \<noteq> i \<or> j \<noteq> length ?ls"
    using that assms(2) pre i
    by (auto simp: in_table_def m' nth_list_update nth_append less_Suc_eq split: if_splits)
  moreover have "lock_blocked L m' i ?l" if w: waits
  proof -
    obtain s other where s: "s \<in> set m1" "sl_socket s \<noteq> Some sock" "other \<in> set (sl_locks s)" "lock_blocks L other ?info"
      using w by (auto simp: waits_def list_ex_iff)
    obtain a where a: "a < length m1" "s = m1 ! a" using s(1) by (auto simp: in_set_conv_nth)
    then have "a \<noteq> i" using s(2) sock by auto
    moreover have "lock_blocks L other ?l" using s(4) unfolding lock_blocks_waiting .
    ultimately have "lock_blocked L m1 i ?l" unfolding lock_blocked_iff using a s(3) by blast
    then show ?thesis by (rule lock_blocked_mono [OF _ keep2])
  qed
  moreover have "sl_locks (m' ! i) ! length ?ls = ?l" using i by (simp add: m')
  ultimately show ?thesis by (cases "k \<noteq> i \<or> j \<noteq> length ?ls"; cases waits) auto
qed

text \<open>What \<open>Unlock\<close> leaves stays where it is; the lock itself, if it is still there, waits no more.\<close>

lemma Unlock_content:
  assumes "OpLock_Unlock m h = (m', woken)" "in_table m h" "in_table m' (k, j)"
  shows "in_table m (k, j) \<and> sl_socket (m' ! k) = sl_socket (m ! k) \<and>
    (if (k, j) = h then \<not> li_waiting (sl_locks (m' ! k) ! j) else sl_locks (m' ! k) ! j = sl_locks (m ! k) ! j)"
proof -
  obtain a b where h: "h = (a, b)" "a < length m" "b < length (sl_locks (m ! a))"
    using assms(2) by (cases h) (simp add: in_table_def)
  let ?ls = "sl_locks (m ! a)"
  let ?rest = "drop_released (butlast ?ls)"
  have run: "m' = (if b + 1 = length ?ls then
      (if ?rest = [] then (if a + 1 = length m then drop_unused (butlast m)
                           else m[a := (m ! a)\<lparr>sl_locks := [], sl_socket := None\<rparr>])
       else set_locks m a ?rest)
    else set_locks m a (?ls[b := (?ls ! b)\<lparr>li_waiting := False, li_released := True\<rparr>]))"
    using assms(1) by (auto simp: OpLock_Unlock_def Let_def h)
  obtain dead where dead: "butlast ?ls = ?rest @ dead" by (rule drop_released_split [of "butlast ?ls"])
  have len: "length ?rest \<le> length ?ls - 1" using arg_cong [OF dead, of length] by simp
  have rest: "?rest ! x = ?ls ! x" if "x < length ?rest" for x
  proof -
    have "?rest ! x = butlast ?ls ! x" using that by (subst dead) (simp add: nth_append)
    then show ?thesis using that len by (simp add: nth_butlast)
  qed
  obtain gone where gone: "butlast m = drop_unused (butlast m) @ gone" by (rule drop_unused_split [of "butlast m"])
  have slots: "drop_unused (butlast m) ! x = m ! x" "x < length m - 1" if "x < length (drop_unused (butlast m))" for x
  proof -
    show "x < length m - 1" using that arg_cong [OF gone, of length] by simp
    then show "drop_unused (butlast m) ! x = m ! x"
      using that nth_append [of "drop_unused (butlast m)" gone x] by (simp flip: gone add: nth_butlast)
  qed
  consider "b + 1 = length ?ls" "?rest = []" "a + 1 = length m"
    | "b + 1 = length ?ls" "?rest = []" "a + 1 \<noteq> length m"
    | "b + 1 = length ?ls" "?rest \<noteq> []" | "b + 1 \<noteq> length ?ls" by blast
  then show ?thesis
  proof cases
    case 1
    then show ?thesis using assms(3) slots [of k] by (auto simp: run in_table_def h)
  next
    case 2
    then show ?thesis using assms(3) h by (auto simp: run in_table_def nth_list_update split: if_splits)
  next
    case 3
    then show ?thesis using assms(3) h rest len
      by (auto simp: run in_table_def set_locks_def nth_list_update split: if_splits)
  next
    case 4
    then show ?thesis using assms(3) h
      by (auto simp: run in_table_def set_locks_def nth_list_update split: if_splits)
  qed
qed

lemma Unlock_keeps_active:
  assumes "table_ok L m" "h \<in> live m" "OpLock_Unlock m h = (m', woken)" "OpLock_Waiting m h"
  shows "keeps_active m m'"
  unfolding keeps_active_def
proof (intro allI ballI impI)
  fix k l assume k: "k < length m" and l: "l \<in> set (sl_locks (m ! k))" "lock_active l"
  obtain j where j: "j < length (sl_locks (m ! k))" "l = sl_locks (m ! k) ! j" using l(1) by (auto simp: in_set_conv_nth)
  have "(k, j) \<in> live m" "(k, j) \<noteq> h" using k j l(2) assms(4) by (auto simp: live_def lock_active_def OpLock_Waiting_def)
  then have "(k, j) \<in> live m'" using Unlock_spec [OF assms(1-3)] by simp
  then have tab: "in_table m' (k, j)" by (simp add: live_def in_table_def)
  have "in_table m h" using assms(2) by (auto simp: live_def in_table_def)
  from Unlock_content [OF assms(3) this tab] have "sl_locks (m' ! k) ! j = l" using \<open>(k, j) \<noteq> h\<close> j(2) by simp
  then show "k < length m' \<and> l \<in> set (sl_locks (m' ! k))" using tab by (auto simp: in_table_def)
qed

text \<open>Obtaining only ends waits, and only of the locks it looks at.\<close>

lemma obtain_fold_content:
  fixes L m b hs
  assumes "\<forall>h \<in> set hs. in_table m h"
  defines "m' \<equiv> fst (fold (obtain_one L) hs (m, b))"
  shows "length m' = length m \<and> keeps_active m m' \<and>
    (\<forall>k < length m. sl_socket (m' ! k) = sl_socket (m ! k) \<and> length (sl_locks (m' ! k)) = length (sl_locks (m ! k)) \<and>
       (\<forall>j < length (sl_locks (m ! k)). li_waiting (sl_locks (m' ! k) ! j) \<longrightarrow> sl_locks (m' ! k) ! j = sl_locks (m ! k) ! j) \<and>
       (k \<notin> fst ` set hs \<longrightarrow> m' ! k = m ! k))"
  using assms(1) unfolding m'_def
proof (induction hs arbitrary: m b)
  case (Cons h hs)
  show ?case
  proof (cases rule: obtain_one_cases [of L h "(m, b)"])
    case skip
    then show ?thesis using Cons.IH [of m b] Cons.prems by simp
  next
    case grant
    let ?m = "set_locks m (fst h) ((sl_locks (m ! fst h))[snd h := (sl_locks (m ! fst h) ! snd h)\<lparr>li_waiting := False\<rparr>])"
    have h: "fst h < length m" "snd h < length (sl_locks (m ! fst h))" using Cons.prems by (simp_all add: in_table_def)
    have one: "length ?m = length m \<and>
        (\<forall>k < length m. sl_socket (?m ! k) = sl_socket (m ! k) \<and> length (sl_locks (?m ! k)) = length (sl_locks (m ! k)) \<and>
           (\<forall>j < length (sl_locks (m ! k)). li_waiting (sl_locks (?m ! k) ! j) \<longrightarrow> sl_locks (?m ! k) ! j = sl_locks (m ! k) ! j) \<and>
           (k \<noteq> fst h \<longrightarrow> ?m ! k = m ! k))"
      using h by (auto simp: set_locks_def nth_list_update)
    have active: "keeps_active m ?m"
      unfolding keeps_active_def
    proof (intro allI ballI impI)
      fix k l assume k: "k < length m" and l: "l \<in> set (sl_locks (m ! k))" "lock_active l"
      obtain j where j: "j < length (sl_locks (m ! k))" "l = sl_locks (m ! k) ! j" using l(1) by (auto simp: in_set_conv_nth)
      have "(k, j) \<noteq> h" using l(2) grant(2) j(2) by (auto simp: lock_active_def)
      then have "sl_locks (?m ! k) ! j = l" using h j k by (cases h) (auto simp: set_locks_def nth_list_update)
      moreover have "length (sl_locks (?m ! k)) = length (sl_locks (m ! k))" using one k by simp
      ultimately show "k < length ?m \<and> l \<in> set (sl_locks (?m ! k))" using j(1) k one by (metis nth_mem)
    qed
    have "\<forall>h \<in> set hs. in_table ?m h" using Cons.prems one by (simp add: in_table_def)
    note ih = Cons.IH [OF this, of True]
    have run: "fold (obtain_one L) (h # hs) (m, b) = fold (obtain_one L) hs (?m, True)" using grant by simp
    show ?thesis unfolding run
    proof (intro conjI allI impI)
      show "keeps_active m (fst (fold (obtain_one L) hs (?m, True)))"
        using active ih unfolding keeps_active_def by blast
    qed (use ih one in auto)
  qed
qed (simp add: keeps_active_def)

text \<open>One socket obtains: exactly its locks that nothing holds up stop waiting.\<close>

lemma ObtainWaiting_exact:
  assumes "table_ok L m" "OpLock_ObtainWaiting L m sock = (m', got)"
    and "in_table m (i, j)" "sl_socket (m ! i) = Some sock" "li_waiting (sl_locks (m ! i) ! j)"
  shows "li_waiting (sl_locks (m' ! i) ! j) \<longleftrightarrow> lock_blocked L m i (sl_locks (m ! i) ! j)"
    and "\<not> li_waiting (sl_locks (m' ! i) ! j) \<Longrightarrow> got"
    and "lock_blocked L m' i (sl_locks (m ! i) ! j) \<longleftrightarrow> lock_blocked L m i (sl_locks (m ! i) ! j)"
proof -
  have i: "i < length m" "j < length (sl_locks (m ! i))" using assms(3) by (simp_all add: in_table_def)
  have hs: "\<forall>x \<in> set (socket_locks m sock). in_table m x \<and> fst x = i"
  proof
    fix x assume x: "x \<in> set (socket_locks m sock)"
    then have "fst x < length m" "sl_socket (m ! fst x) = Some sock"
      by (auto simp: socket_locks_def split: if_splits)
    moreover have "distinct (used_slots m)" using assms(1) by (simp add: table_ok_def)
    ultimately show "in_table m x \<and> fst x = i"
      using socket_locks_in_table x same_socket_slot [of m "fst x" i sock] i(1) assms(4) by blast
  qed
  have mem: "(i, j) \<in> set (socket_locks m sock)"
    using i assms(4) by (auto simp: socket_locks_def intro!: bexI [of _ i])
  have fold': "m' = fst (fold (obtain_one L) (socket_locks m sock) (m, False))" "got = snd (fold (obtain_one L) (socket_locks m sock) (m, False))"
    using assms(2) by (simp_all add: OpLock_ObtainWaiting_def)
  have content: "length m' = length m" "\<And>k. k < length m \<Longrightarrow> k \<noteq> i \<Longrightarrow> m' ! k = m ! k"
    using obtain_fold_content [of "socket_locks m sock" m L False] hs unfolding fold' by auto
  have "lock_blocked L m' i l = lock_blocked L m i l" for l
    unfolding lock_blocked_iff using content by metis
  then show blocked: "lock_blocked L m' i (sl_locks (m ! i) ! j) \<longleftrightarrow> lock_blocked L m i (sl_locks (m ! i) ! j)" .
  have keep: "li_waiting (sl_locks (m' ! i) ! j)" if "lock_blocked L m i (sl_locks (m ! i) ! j)"
    using that obtain_fold_refuses [of "socket_locks m sock" m i j L False] hs assms(5) unfolding fold' by simp
  note grant = obtain_fold_grants [of "socket_locks m sock" m i j L False, folded fold']
  show "li_waiting (sl_locks (m' ! i) ! j) \<longleftrightarrow> lock_blocked L m i (sl_locks (m ! i) ! j)"
    using keep grant hs mem assms(5) by blast
  then show "\<not> li_waiting (sl_locks (m' ! i) ! j) \<Longrightarrow> got" using grant hs mem assms(5) by blast
qed

subsection \<open>Runs with the events on their way\<close>

text \<open>The manager together with the sockets that an event has been sent to and not yet handled.  A
  socket answers its event with \<open>ObtainWaiting\<close>.\<close>

inductive wake_step ::
  "libfz \<Rightarrow> lock_table \<times> lock_handle set \<times> nat set \<Rightarrow> lock_table \<times> lock_handle set \<times> nat set \<Rightarrow> bool" for L where
  lock: "OpLock_Lock L m sock server reason path inclusive = (m', h) \<Longrightarrow> wake_step L (m, H, P) (m', insert h H, P)"
| unlock: "h \<in> H \<Longrightarrow> OpLock_Unlock m h = (m', woken) \<Longrightarrow> wake_step L (m, H, P) (m', H - {h}, P \<union> set woken)"
| event: "OpLock_ObtainWaiting L m sock = (m', got) \<Longrightarrow> wake_step L (m, H, P) (m', H, P - {sock})"

inductive wake_reachable :: "libfz \<Rightarrow> lock_table \<times> lock_handle set \<times> nat set \<Rightarrow> bool" for L where
  start: "wake_reachable L ([], {}, {})"
| step: "wake_reachable L s \<Longrightarrow> wake_step L s s' \<Longrightarrow> wake_reachable L s'"

lemma wake_step_lock: "wake_step L (m, H, P) (m', H', P') \<Longrightarrow> lock_step L (m, H) (m', H')"
  by (erule wake_step.cases) (auto intro: lock_step.intros)

lemma wake_reachable_lock: "wake_reachable L s \<Longrightarrow> lock_reachable L (fst s, fst (snd s))"
proof (induction rule: wake_reachable.induct)
  case (step s s')
  then show ?case using wake_step_lock [of L "fst s" "fst (snd s)" "snd (snd s)" "fst s'" "fst (snd s')" "snd (snd s')"]
    by (auto intro: lock_reachable.step)
qed (simp add: lock_reachable.start)

text \<open>A waiting lock has its event on the way, or something holds it up.\<close>

definition awaits_event :: "libfz \<Rightarrow> lock_table \<Rightarrow> nat set \<Rightarrow> bool" where
  "awaits_event L m P \<longleftrightarrow>
     (\<forall>i j sock. in_table m (i, j) \<longrightarrow> sl_socket (m ! i) = Some sock \<longrightarrow> li_waiting (sl_locks (m ! i) ! j) \<longrightarrow>
        sock \<in> P \<or> lock_blocked L m i (sl_locks (m ! i) ! j))"

lemma awaits_lock:
  assumes "awaits_event L m P" "OpLock_Lock L m sock server reason path inclusive = (m', h)"
  shows "awaits_event L m' P"
  unfolding awaits_event_def
proof (intro allI impI)
  fix i j x assume a: "in_table m' (i, j)" "sl_socket (m' ! i) = Some x" "li_waiting (sl_locks (m' ! i) ! j)"
  note c = Lock_content [OF assms(2) a(1)]
  then show "x \<in> P \<or> lock_blocked L m' i (sl_locks (m' ! i) ! j)"
    using a assms(1) lock_blocked_mono unfolding awaits_event_def by metis
qed

lemma awaits_unlock:
  assumes "awaits_event L m P" "table_ok L m" "h \<in> live m" "OpLock_Unlock m h = (m', woken)"
  shows "awaits_event L m' (P \<union> set woken)"
  unfolding awaits_event_def
proof (intro allI impI)
  fix i j x assume a: "in_table m' (i, j)" "sl_socket (m' ! i) = Some x" "li_waiting (sl_locks (m' ! i) ! j)"
  note un = Unlock_spec [OF assms(2-4)]
  have h: "in_table m h" using assms(3) by (auto simp: live_def in_table_def)
  note c = Unlock_content [OF assms(4) h a(1)]
  show "x \<in> P \<union> set woken \<or> lock_blocked L m' i (sl_locks (m' ! i) ! j)"
  proof (cases "OpLock_Waiting m h")
    case True
    have "x \<in> P \<or> lock_blocked L m i (sl_locks (m ! i) ! j)"
      using assms(1) a c unfolding awaits_event_def by (metis (full_types))
    then show ?thesis
      using lock_blocked_mono [OF _ Unlock_keeps_active [OF assms(2-4) True]] c a(3) by (auto split: if_splits)
  next
    case False
    have "m' ! i \<in> set (filter (\<lambda>s. list_ex li_waiting (sl_locks s)) m')"
      using a(1,3) by (auto simp: in_table_def list_ex_iff)
    then have "the (sl_socket (m' ! i)) \<in> set (Wakeup m')" unfolding Wakeup_def set_map by (rule imageI)
    then show ?thesis using un False a(2) by simp
  qed
qed

lemma awaits_obtain:
  assumes "awaits_event L m P" "table_ok L m" "OpLock_ObtainWaiting L m sock = (m', got)"
  shows "awaits_event L m' (P - {sock})"
  unfolding awaits_event_def
proof (intro allI impI)
  fix i j x assume a: "in_table m' (i, j)" "sl_socket (m' ! i) = Some x" "li_waiting (sl_locks (m' ! i) ! j)"
  have m': "m' = fst (fold (obtain_one L) (socket_locks m sock) (m, False))"
    using assms(3) by (simp add: OpLock_ObtainWaiting_def)
  note c = obtain_fold_content [OF socket_locks_in_table [of m sock], of L False, folded m']
  have i: "in_table m (i, j)" "sl_socket (m ! i) = Some x" "sl_locks (m' ! i) ! j = sl_locks (m ! i) ! j"
    "keeps_active m m'"
    using c a by (auto simp: in_table_def)
  show "x \<in> P - {sock} \<or> lock_blocked L m' i (sl_locks (m' ! i) ! j)"
  proof (cases "x = sock")
    case True
    then have "lock_blocked L m i (sl_locks (m ! i) ! j)"
      using ObtainWaiting_exact(1) [OF assms(2,3) i(1)] i a(3) by simp
    then show ?thesis using lock_blocked_mono i(3,4) by simp
  next
    case False
    then show ?thesis using assms(1) i a(3) lock_blocked_mono [OF _ i(4)] unfolding awaits_event_def by fastforce
  qed
qed

lemma wake_reachable_awaits: "wake_reachable L s \<Longrightarrow> awaits_event L (fst s) (snd (snd s))"
proof (induction rule: wake_reachable.induct)
  case start
  then show ?case by (simp add: awaits_event_def in_table_def)
next
  case (step s s')
  have inv: "table_ok L (fst s)" "fst (snd s) = live (fst s)"
    using lock_reachable_inv [OF wake_reachable_lock [OF step(1)]] by simp_all
  from step(2) show ?case
  proof cases
    case (lock m sock server reason path inclusive m' h H P)
    then show ?thesis using awaits_lock step(3) by simp
  next
    case (unlock h H m m' woken P)
    then show ?thesis using awaits_unlock [of L m P h m' woken] step(3) inv by simp
  next
    case (event m sock m' got H P)
    then show ?thesis using awaits_obtain [of L m P sock m' got] step(3) inv by simp
  qed
qed

text \<open>C33: no wakeup is lost.  In every run, whatever the order of locking, unlocking and handling the
  events, a waiting lock whose connection has no event on the way is held up: another connection holds a
  clashing lock, on the same server (a conflict) or on a different one.  And when the connection handles
  an event, its waiting lock is granted exactly when neither is the case.  That a lock on a different
  server holds it up is what the code does, although \<open>Lock\<close> does not wait for one; on tables of one
  server the two agree.\<close>

theorem op_lock_no_lost_wakeup:
  fixes m i j
  assumes "wake_reachable L (m, H, P)" "in_table m (i, j)" "sl_socket (m ! i) = Some sock"
    and "li_waiting (sl_locks (m ! i) ! j)" "OpLock_ObtainWaiting L m sock = (m', got)"
  defines "l \<equiv> sl_locks (m ! i) ! j"
  shows "(sock \<notin> P \<longrightarrow> held_same L m i l \<or> held_other L m i l) \<and>
    (li_waiting (sl_locks (m' ! i) ! j) \<longleftrightarrow> held_same L m i l \<or> held_other L m i l) \<and>
    (\<not> li_waiting (sl_locks (m' ! i) ! j) \<longrightarrow> got)"
proof -
  have ok: "table_ok L m" using lock_reachable_inv [OF wake_reachable_lock [OF assms(1)]] by simp
  have "sock \<in> P \<or> lock_blocked L m i l"
    using wake_reachable_awaits [OF assms(1)] assms(2-4) by (simp add: awaits_event_def l_def)
  then show ?thesis
    using ObtainWaiting_exact(1,2) [OF ok assms(5,2,3,4)] unfolding l_def lock_blocked_held by blast
qed

text \<open>The example run again: the second connection waits for the first, whose release sends the event.\<close>

lemma example_wake:
  "wake_reachable libfz_std (example_run, {(0, 0), (1, 0)}, {})"
  "wake_reachable libfz_std (fst (OpLock_Unlock example_run (0, 0)), {(1, 0)}, {2})"
proof -
  let ?first = "OpLock_Lock libfz_std [] 1 example_server reason_list (CServerPath_make ''/a'' UNIX) True"
  have 1: "?first = (fst ?first, (0, 0))" by code_simp
  have 2: "OpLock_Lock libfz_std (fst ?first) 2 example_server reason_list (CServerPath_make ''/a/b'' UNIX) False
      = (example_run, (1, 0))" by code_simp
  have "wake_reachable libfz_std (fst ?first, {(0, 0)}, {})"
    by (rule wake_reachable.step [OF wake_reachable.start wake_step.lock [OF 1]])
  from wake_reachable.step [OF this wake_step.lock [OF 2]]
  show run: "wake_reachable libfz_std (example_run, {(0, 0), (1, 0)}, {})" by (simp add: insert_commute)
  let ?r = "OpLock_Unlock example_run (0, 0)"
  have 3: "?r = (fst ?r, [2])" by code_simp
  have "wake_reachable libfz_std (fst ?r, {(0, 0), (1, 0)} - {(0, 0)}, {} \<union> set [2])"
    by (rule wake_reachable.step [OF run wake_step.unlock [OF _ 3]]) simp
  then show "wake_reachable libfz_std (fst ?r, {(1, 0)}, {2})" by (simp add: insert_Diff_if)
qed

theorem op_lock_no_lost_wakeup_witness:
  "let l = sl_locks (example_run ! 1) ! 0; r = OpLock_Unlock example_run (0, 0);
       o1 = OpLock_ObtainWaiting libfz_std example_run 2; o2 = OpLock_ObtainWaiting libfz_std (fst r) 2
   in held_same libfz_std example_run 1 l \<and> li_waiting (sl_locks (fst o1 ! 1) ! 0) \<and>
      snd r = [2] \<and> snd o2 \<and> \<not> li_waiting (sl_locks (fst o2 ! 1) ! 0)"
proof -
  let ?l = "sl_locks (example_run ! 1) ! 0" and ?m = "fst (OpLock_Unlock example_run (0, 0))"
  have a: "in_table example_run (1, 0)" "sl_socket (example_run ! 1) = Some 2" "li_waiting ?l"
    "\<not> held_other libfz_std example_run 1 ?l" by code_simp+
  have b: "in_table ?m (1, 0)" "sl_socket (?m ! 1) = Some 2" "li_waiting (sl_locks (?m ! 1) ! 0)"
    "\<not> held_same libfz_std ?m 1 (sl_locks (?m ! 1) ! 0)" "\<not> held_other libfz_std ?m 1 (sl_locks (?m ! 1) ! 0)" by code_simp+
  have "snd (OpLock_Unlock example_run (0, 0)) = [2]" by code_simp
  then show ?thesis
    using op_lock_no_lost_wakeup [OF example_wake(1) a(1-3) prod.collapse [symmetric]] a(4)
      op_lock_no_lost_wakeup [OF example_wake(2) b(1-3) prod.collapse [symmetric]] b(4,5)
    by (auto simp: Let_def)
qed

text \<open>A waiting lock is also kept waiting by a lock on another server, which
  \<open>Lock\<close> itself does not count as a conflict.\<close>

lemma obtain_ignores_servers:
  "let p = CServerPath_make ''/a'' UNIX; s = example_server; t = SetUser s ''u'';
       m1 = fst (OpLock_Lock libfz_std [] 1 s reason_list p False);
       m2 = fst (OpLock_Lock libfz_std m1 2 s reason_list p False);
       m3 = fst (OpLock_Lock libfz_std m2 3 t reason_list p False);
       m4 = fst (OpLock_Unlock m3 (0, 0))
   in \<not> OpLock_Waiting m3 (2, 0) \<and> OpLock_Waiting m4 (1, 0) \<and> \<not> server_eq s t \<and>
      \<not> snd (OpLock_ObtainWaiting libfz_std m4 2)"
  by code_simp

end
