(* ===== verification/Sftp_Segments.thy ===== *)
theory Sftp_Segments
  imports FZ_Lib
begin

text \<open>
  Segmented SFTP downloads, \<open>src/filezilla3/src/engine/sftp/filetransfer.cpp\<close>: the data of the
  operation, the plan of the segments, the manifest file and the start of a download with the
  parts of an interrupted one.  Unsigned 64-bit numbers are integers that every operation reduces
  with \<open>u64\<close>.  A segment is named by its index, a connection by its position in
  \<open>segment_connections_\<close>; the primary connection is \<^term>\<open>None\<close>.
\<close>

subsection \<open>Numbers\<close>

definition u64 :: "int \<Rightarrow> int" where
  "u64 x = x mod 2 ^ 64"

definition nosize :: int where
  "nosize = 2 ^ 64 - 1"

lemma u64_id [simp]: "0 \<le> x \<Longrightarrow> x < 2 ^ 64 \<Longrightarrow> u64 x = x"
  by (simp add: u64_def)

definition blocksize :: int where
  "blocksize = 32768"

definition max_segment_count :: nat where
  "max_segment_count = 8"

definition initial_max_pending :: int where
  "initial_max_pending = 16"

definition reply_ok :: int where "reply_ok = 0"
definition reply_wouldblock :: int where "reply_wouldblock = 1"
definition reply_error :: int where "reply_error = 2"
definition reply_criticalerror :: int where "reply_criticalerror = 6"
definition reply_writefailed :: int where "reply_writefailed = 8194"

lemmas reply_defs = reply_ok_def reply_wouldblock_def reply_error_def reply_criticalerror_def reply_writefailed_def

subsection \<open>State\<close>

type_synonym channel = "nat option"

datatype transfer_state =
  filetransfer_init | filetransfer_list | filetransfer_stat | filetransfer_mkdir |
  filetransfer_checkoverwrite | filetransfer_transfer | filetransfer_segmented | filetransfer_concat

datatype aio_result = aio_ok | aio_wait | aio_error

datatype continuation = cont_next | cont_wait | cont_error

text \<open>Where a segment is registered for an event of the asynchronous writer or of the buffer
  pool; the two libraries keep this.\<close>

datatype aio_wait_on = on_writer | on_pool

record segment_pipe_state =
  pp_rtt_requested :: "int option"
  pp_rtt_offset :: int
  pp_requested_offset :: int
  pp_response_offset :: int
  pp_max_pending :: int
  pp_next_segment :: nat

definition segment_pipe_new :: segment_pipe_state where
  "segment_pipe_new = \<lparr>pp_rtt_requested = None, pp_rtt_offset = 0, pp_requested_offset = 0,
     pp_response_offset = 0, pp_max_pending = initial_max_pending, pp_next_segment = 0\<rparr>"

text \<open>\<open>sh_writer\<close> says that the writer of the part file exists and \<open>sh_written\<close> holds
  the bytes handed to it; \<open>sh_buffer\<close> is the content of the leased buffer.\<close>

record segment_handler =
  sh_index :: nat
  sh_offset :: int
  sh_length :: int
  sh_received :: int
  sh_part_size :: int
  sh_request_offset :: int
  sh_conn :: channel
  sh_handle :: string
  sh_writer :: bool
  sh_written :: string
  sh_buffer :: "string option"
  sh_outstanding :: "int list"
  sh_stall_channel :: "channel option"
  sh_finalizing :: bool
  sh_done :: bool
  sh_waits :: "aio_wait_on option"

definition segment_handler_new :: "nat \<Rightarrow> int \<Rightarrow> int \<Rightarrow> segment_handler" where
  "segment_handler_new index offset len = \<lparr>sh_index = index, sh_offset = offset, sh_length = len,
     sh_received = 0, sh_part_size = 0, sh_request_offset = offset, sh_conn = None, sh_handle = [],
     sh_writer = False, sh_written = [], sh_buffer = None, sh_outstanding = [],
     sh_stall_channel = None, sh_finalizing = False, sh_done = False, sh_waits = None\<rparr>"

text \<open>What the operation keeps of an additional connection: its pipe and whether its channel
  exists.\<close>

record segment_conn =
  sc_pipe :: segment_pipe_state
  sc_sftp :: bool

text \<open>The calls of the channels, in order.\<close>

datatype channel_call =
    Open_call channel nat
  | Read_call channel nat int int
  | Cancel_call channel nat
  | Close_call channel string
  | Unblock_call channel

text \<open>The results the asynchronous reader of a part gives, one per call; after the last one it
  is at the end of the file.\<close>

datatype read_result = read_wait | read_error | read_data string

type_synonym local_files = "wstring \<Rightarrow> string option"

text \<open>\<open>so_target\<close> is the list of the buffers handed to the writer of the target file,
  \<open>so_resets\<close> the results passed to \<open>trigger_reset\<close>: the first one ends the operation.\<close>

record segment_op =
  so_state :: transfer_state
  so_remoteFileSize :: int
  so_localName :: wstring
  so_sftp :: bool
  so_handle :: string
  so_segments :: "segment_handler list"
  so_segments_done :: nat
  so_primary_pipe :: segment_pipe_state
  so_seg_failed :: bool
  so_conns :: "segment_conn list"
  so_remote_file :: string
  so_writer :: bool
  so_target :: "string list"
  so_reader :: "read_result list option"
  so_buffer :: "string option"
  so_concat_part :: nat
  so_concat_received :: int
  so_concat_finalizing :: bool
  so_resets :: "int list"
  so_calls :: "channel_call list"
  so_files :: local_files

definition trigger_reset :: "int \<Rightarrow> segment_op \<Rightarrow> segment_op" where
  "trigger_reset res s = s\<lparr>so_resets := so_resets s @ [res]\<rparr>"

definition add_call :: "channel_call \<Rightarrow> segment_op \<Rightarrow> segment_op" where
  "add_call c s = s\<lparr>so_calls := so_calls s @ [c]\<rparr>"

definition seg_at :: "segment_op \<Rightarrow> nat \<Rightarrow> segment_handler" where
  "seg_at s i = so_segments s ! i"

definition upd_seg :: "nat \<Rightarrow> (segment_handler \<Rightarrow> segment_handler) \<Rightarrow> segment_op \<Rightarrow> segment_op" where
  "upd_seg i f s = s\<lparr>so_segments := (so_segments s)[i := f (seg_at s i)]\<rparr>"

subsection \<open>Number of segments\<close>

function count_down :: "int \<Rightarrow> int \<Rightarrow> nat \<Rightarrow> nat" where
  "count_down tot minsize n =
     (if n > 1 \<and> tot < u64 (int n * minsize) then count_down tot minsize (n - 1) else n)"
  by pat_completeness auto
termination by (relation "measure (\<lambda>(_, _, n). n)") auto

declare count_down.simps [simp del]

definition segment_count :: "bool \<Rightarrow> bool \<Rightarrow> int \<Rightarrow> int \<Rightarrow> int \<Rightarrow> int \<Rightarrow> nat" where
  "segment_count is_download resume remoteFileSize localFileSize opt_segments opt_min_size =
     (if \<not> is_download \<or> resume \<or> remoteFileSize \<le> 0 \<or> localFileSize \<noteq> nosize then 1
      else if opt_segments < 2 then 1
      else
        let tot = u64 remoteFileSize;
            minsize = u64 (u64 (u64 opt_min_size * 1024) * 1024)
        in count_down tot minsize (nat (u64 opt_segments)))"

subsection \<open>Files of the segments\<close>

definition segment_manifest_path :: "wstring \<Rightarrow> wstring" where
  "segment_manifest_path localName = localName @ ''.fzseg''"

definition segment_part_path :: "wstring \<Rightarrow> nat \<Rightarrow> wstring" where
  "segment_part_path localName i = localName @ ''.fzseg'' @ show_nat i"

definition remove_file :: "wstring \<Rightarrow> local_files \<Rightarrow> local_files" where
  "remove_file p fs = fs(p := None)"

definition file_get_size :: "local_files \<Rightarrow> wstring \<Rightarrow> int" where
  "file_get_size fs p = (case fs p of None \<Rightarrow> -1 | Some b \<Rightarrow> int (length b))"

fun delete_parts :: "wstring \<Rightarrow> nat \<Rightarrow> nat \<Rightarrow> local_files \<Rightarrow> local_files" where
  "delete_parts localName i 0 fs = fs"
| "delete_parts localName i (Suc n) fs =
     delete_parts localName (Suc i) n (remove_file (segment_part_path localName i) fs)"

definition delete_segment_files :: "wstring \<Rightarrow> nat \<Rightarrow> local_files \<Rightarrow> local_files" where
  "delete_segment_files localName count fs =
     remove_file (segment_manifest_path localName) (delete_parts localName 0 count fs)"

subsection \<open>The manifest\<close>

definition write_manifest_data :: "int \<Rightarrow> segment_handler list \<Rightarrow> string" where
  "write_manifest_data tot segs =
     ''fzseg1'' @ [CHR 0x0A] @
     show_nat (nat tot) @ '' '' @ show_nat (length segs) @ [CHR 0x0A] @
     concat (map (\<lambda>seg. show_nat (nat (sh_offset seg)) @ '' '' @ show_nat (nat (sh_length seg)) @ [CHR 0x0A]) segs)"

text \<open>The loops over \<open>file::write2\<close> and \<open>file::read2\<close>: each call fails or moves some
  bytes, at most as many as asked for; none moved is a failure.\<close>

fun write_loop :: "nat option list \<Rightarrow> string \<Rightarrow> string \<Rightarrow> string \<times> bool" where
  "write_loop rs acc [] = (acc, True)"
| "write_loop [] acc rest = (acc, False)"
| "write_loop (r # rs) acc rest =
     (case r of
        None \<Rightarrow> (acc, False)
      | Some n \<Rightarrow> if n = 0 then (acc, False)
                  else write_loop rs (acc @ take n rest) (drop n rest))"

fun read_loop :: "nat option list \<Rightarrow> nat \<Rightarrow> string \<Rightarrow> string \<Rightarrow> string option" where
  "read_loop rs missing acc rest =
     (if missing = 0 then Some acc
      else case rs of
        [] \<Rightarrow> None
      | None # _ \<Rightarrow> None
      | Some n # rs' \<Rightarrow>
          if n = 0 then None
          else read_loop rs' (missing - n) (acc @ take n rest) (drop n rest))"

declare read_loop.simps [simp del]

text \<open>\<open>io\<close> holds the results of the calls: whether the file opens, and of each read or
  write.\<close>

definition write_segment_manifest :: "bool \<Rightarrow> nat option list \<Rightarrow> int \<Rightarrow> segment_op \<Rightarrow> bool \<times> segment_op" where
  "write_segment_manifest opens io tot s =
     (let data = write_manifest_data tot (so_segments s);
          p = segment_manifest_path (so_localName s)
      in if \<not> opens then (False, s)
         else case write_loop io [] data of
           (written, ok) \<Rightarrow> (ok, s\<lparr>so_files := (so_files s)(p := Some written)\<rparr>))"

definition to_u64 :: "libfz \<Rightarrow> string \<Rightarrow> int" where
  "to_u64 L t = (case fz_to_integral_u64 L t of None \<Rightarrow> nosize | Some n \<Rightarrow> int n)"

definition parse_pair :: "libfz \<Rightarrow> string \<Rightarrow> (int \<times> int) option" where
  "parse_pair L line =
     (case fz_strtokenizer L line '' '' True of
        [] \<Rightarrow> None
      | [_] \<Rightarrow> None
      | [x, y] \<Rightarrow>
          let a = to_u64 L x; b = to_u64 L y
          in if a \<noteq> nosize \<and> b \<noteq> nosize then Some (a, b) else None
      | _ \<Rightarrow> None)"

fun check_manifest_lines :: "libfz \<Rightarrow> string list \<Rightarrow> segment_handler list \<Rightarrow> bool" where
  "check_manifest_lines L lines [] = (lines = [])"
| "check_manifest_lines L [] (seg # segs) = False"
| "check_manifest_lines L (line # lines) (seg # segs) =
     (case parse_pair L line of
        None \<Rightarrow> False
      | Some (moffset, mlength) \<Rightarrow>
          if moffset \<noteq> sh_offset seg \<or> mlength \<noteq> sh_length seg then False
          else check_manifest_lines L lines segs)"

definition parse_manifest :: "libfz \<Rightarrow> int \<Rightarrow> segment_handler list \<Rightarrow> string \<Rightarrow> bool" where
  "parse_manifest L tot segs data =
     (case fz_strtokenizer L data [CHR 0x0D, CHR 0x0A] True of
        [] \<Rightarrow> False
      | l0 # ls \<Rightarrow>
          if l0 \<noteq> ''fzseg1'' then False
          else (case ls of
            [] \<Rightarrow> False
          | l1 # rest \<Rightarrow>
              (case parse_pair L l1 of
                 None \<Rightarrow> False
               | Some (mtotal, mcount) \<Rightarrow>
                   if mtotal \<noteq> tot \<or> mcount \<noteq> int (length segs) then False
                   else check_manifest_lines L rest segs)))"

definition read_segment_manifest :: "libfz \<Rightarrow> bool \<Rightarrow> nat option list \<Rightarrow> int \<Rightarrow> segment_op \<Rightarrow> bool" where
  "read_segment_manifest L opens io tot s =
     (case so_files s (segment_manifest_path (so_localName s)) of
        None \<Rightarrow> False
      | Some content \<Rightarrow>
          let fsize = int (length content)
          in if \<not> opens then False
             else if fsize \<le> 0 \<or> fsize > 64 * 1024 then False
             else (case read_loop io (length content) [] content of
               None \<Rightarrow> False
             | Some data \<Rightarrow> parse_manifest L tot (so_segments s) data))"

subsection \<open>The plan\<close>

fun plan_segments :: "int \<Rightarrow> int \<Rightarrow> nat \<Rightarrow> int \<Rightarrow> nat \<Rightarrow> segment_handler list" where
  "plan_segments base remainder i pos 0 = []"
| "plan_segments base remainder i pos (Suc n) =
     (let len = u64 (base + (if int i < remainder then 1 else 0))
      in segment_handler_new i pos len # plan_segments base remainder (Suc i) (u64 (pos + len)) n)"

definition segment_plan :: "int \<Rightarrow> nat \<Rightarrow> segment_handler list" where
  "segment_plan tot count = plan_segments (tot div int count) (tot mod int count) 0 0 count"

text \<open>The sizes of the parts of an interrupted download; the loop stops at the first part that is
  too large and the sizes set before it stay.\<close>

fun load_part_sizes :: "local_files \<Rightarrow> wstring \<Rightarrow> segment_handler list \<Rightarrow> bool \<times> segment_handler list" where
  "load_part_sizes fs localName [] = (True, [])"
| "load_part_sizes fs localName (seg # segs) =
     (let fsize = file_get_size fs (segment_part_path localName (sh_index seg));
          part_size = (if fsize > 0 then u64 fsize else 0)
      in if part_size > sh_length seg then (False, seg # segs)
         else (case load_part_sizes fs localName segs of
                 (ok, segs') \<Rightarrow> (ok, seg\<lparr>sh_part_size := part_size\<rparr> # segs')))"

definition init_segment :: "segment_handler \<Rightarrow> segment_handler" where
  "init_segment seg =
     (let seg1 = seg\<lparr>sh_received := sh_part_size seg, sh_request_offset := u64 (sh_offset seg + sh_part_size seg)\<rparr>
      in if sh_part_size seg1 \<ge> sh_length seg1 then seg1\<lparr>sh_done := True\<rparr> else seg1)"

end
