(* ===== verification/Sftp_Segment_Ops.thy ===== *)
theory Sftp_Segment_Ops
  imports Sftp_Segments
begin

text \<open>
  The event handlers of a segmented download: opening, data, end of file, requests, buffers,
  additional connections, and the merge of the parts, one definition per member function of
  \<open>CSftpFileTransferOpData\<close> in \<open>sftp/filetransfer.cpp\<close>.  What the libraries answer
  during one handler is the argument \<open>E\<close>.
\<close>

subsection \<open>The answers of the libraries\<close>

text \<open>Within one handler: the results of \<open>add_buffer\<close> and \<open>finalize\<close> of the part's
  writer, whether its writer opens, whether the buffer pool has a buffer and its capacity, the
  number of pending requests and \<open>can_send_packets\<close> after so many reads, the clock in
  milliseconds, whether the connection with an index starts to connect; whether the writer of the
  target opens, what a reader of a part will give (\<^term>\<open>None\<close>: it does not open), the result
  of the writer of the target for each buffer and for its \<open>finalize\<close>; the name converted to
  the server's encoding and the answers of the file functions for the manifest.\<close>

record library_env =
  e_add :: aio_result
  e_fin :: aio_result
  e_open_writer :: bool
  e_pool :: bool
  e_capacity :: int
  e_pending :: "nat \<Rightarrow> int"
  e_can_send :: "nat \<Rightarrow> bool"
  e_now :: int
  e_connect :: "nat \<Rightarrow> bool"
  e_open_target :: bool
  e_part :: "nat \<Rightarrow> read_result list option"
  e_target_add :: "nat \<Rightarrow> aio_result"
  e_target_fin :: aio_result
  e_server_name :: string
  e_read_opens :: bool
  e_read_io :: "nat option list"
  e_write_opens :: bool
  e_write_io :: "nat option list"

subsection \<open>Pipes and channels\<close>

definition conn_at :: "segment_op \<Rightarrow> nat \<Rightarrow> segment_conn" where
  "conn_at s j = so_conns s ! j"

definition pipe_of :: "segment_op \<Rightarrow> channel \<Rightarrow> segment_pipe_state" where
  "pipe_of s ch = (case ch of None \<Rightarrow> so_primary_pipe s | Some j \<Rightarrow> sc_pipe (conn_at s j))"

definition upd_pipe :: "channel \<Rightarrow> (segment_pipe_state \<Rightarrow> segment_pipe_state) \<Rightarrow> segment_op \<Rightarrow> segment_op" where
  "upd_pipe ch f s =
     (case ch of
        None \<Rightarrow> s\<lparr>so_primary_pipe := f (so_primary_pipe s)\<rparr>
      | Some j \<Rightarrow> s\<lparr>so_conns := (so_conns s)[j := (conn_at s j)\<lparr>sc_pipe := f (sc_pipe (conn_at s j))\<rparr>]\<rparr>)"

definition has_channel :: "segment_op \<Rightarrow> channel \<Rightarrow> bool" where
  "has_channel s ch = (case ch of None \<Rightarrow> so_sftp s | Some j \<Rightarrow> sc_sftp (conn_at s j))"

subsection \<open>Pipelining\<close>

text \<open>The number of requests in flight, adapted to the measured round trip time.\<close>

definition adapt_pending :: "int \<Rightarrow> int \<Rightarrow> int" where
  "adapt_pending max_pending ms0 =
     (let ms = (if ms0 < 1 then 1 else ms0);
          ideal = u64 (max_pending * 500) div ms
      in if ideal > max_pending then
           let divisor = (if ideal > u64 (max_pending * 2) then 2 else 8);
               m = u64 (max_pending + max_pending div divisor)
           in if m > 1024 * 16 then 1024 * 16 else m
         else if ideal < max_pending then
           let divisor = (if u64 (ideal * 2) < max_pending then 2 else 8);
               m = u64 (max_pending - max_pending div divisor)
           in if m < initial_max_pending then initial_max_pending else m
         else max_pending)"

definition measure_rtt :: "int \<Rightarrow> segment_pipe_state \<Rightarrow> segment_pipe_state" where
  "measure_rtt now p =
     (case pp_rtt_requested p of
        Some requested \<Rightarrow>
          if pp_response_offset p \<ge> pp_rtt_offset p then
            p\<lparr>pp_rtt_requested := None, pp_max_pending := adapt_pending (pp_max_pending p) (now - requested)\<rparr>
          else if pp_response_offset p = pp_requested_offset p then p\<lparr>pp_rtt_requested := None\<rparr>
          else p
      | None \<Rightarrow> p)"

definition may_request :: "channel \<Rightarrow> segment_handler \<Rightarrow> bool" where
  "may_request ch seg \<longleftrightarrow>
     sh_conn seg = ch \<and> sh_handle seg \<noteq> [] \<and> \<not> sh_finalizing seg \<and> \<not> sh_done seg \<and>
     sh_buffer seg \<noteq> None \<and> sh_request_offset seg < u64 (sh_offset seg + sh_length seg)"

definition next_request_segment :: "channel \<Rightarrow> segment_op \<Rightarrow> nat option \<times> segment_op" where
  "next_request_segment ch s =
     (let count = length (so_segments s);
          first = pp_next_segment (pipe_of s ch)
      in case find (\<lambda>idx. may_request ch (seg_at s idx)) (map (\<lambda>i. (first + i) mod count) [0..<count]) of
           Some idx \<Rightarrow> (Some idx, upd_pipe ch (\<lambda>p. p\<lparr>pp_next_segment := (idx + 1) mod count\<rparr>) s)
         | None \<Rightarrow> (None, s))"

definition send_read :: "channel \<Rightarrow> nat \<Rightarrow> segment_op \<Rightarrow> segment_op" where
  "send_read ch idx s =
     (let seg = seg_at s idx;
          remaining = u64 (sh_offset seg + sh_length seg - sh_request_offset seg);
          sz = min blocksize remaining;
          s1 = upd_seg idx (\<lambda>g. g\<lparr>sh_outstanding := sh_outstanding g @ [sz]\<rparr>) s;
          s2 = add_call (Read_call ch idx (sh_request_offset seg) sz) s1;
          s3 = upd_seg idx (\<lambda>g. g\<lparr>sh_request_offset := u64 (sh_request_offset g + sz)\<rparr>) s2
      in upd_pipe ch (\<lambda>p. p\<lparr>pp_requested_offset := u64 (pp_requested_offset p + sz)\<rparr>) s3)"

text \<open>The request loop; \<open>i\<close> counts the reads sent, \<open>k\<close> the rounds left of two.\<close>

fun request_loop :: "library_env \<Rightarrow> channel \<Rightarrow> nat \<Rightarrow> nat \<Rightarrow> segment_op \<Rightarrow> nat \<times> segment_op" where
  "request_loop E ch i 0 s = (i, s)"
| "request_loop E ch i (Suc k) s =
     (if e_pending E i < pp_max_pending (pipe_of s ch) \<and> e_can_send E i then
        (case next_request_segment ch s of
           (None, s1) \<Rightarrow> (i, s1)
         | (Some idx, s1) \<Rightarrow> request_loop E ch (Suc i) k (send_read ch idx s1))
      else (i, s))"

definition request_segments :: "library_env \<Rightarrow> channel \<Rightarrow> segment_op \<Rightarrow> segment_op" where
  "request_segments E ch s =
     (if so_seg_failed s then s
      else if \<not> has_channel s ch then s
      else
        let s1 = upd_pipe ch (measure_rtt (e_now E)) s in
        case request_loop E ch 0 2 s1 of
          (i, s2) \<Rightarrow>
            if i \<noteq> 0 \<and> e_pending E i = pp_max_pending (pipe_of s2 ch) \<and> pp_rtt_requested (pipe_of s2 ch) = None then
              upd_pipe ch (\<lambda>p. p\<lparr>pp_rtt_requested := Some (e_now E), pp_rtt_offset := pp_requested_offset p\<rparr>) s2
            else s2)"

subsection \<open>Merging the parts\<close>

definition concat_finalize :: "library_env \<Rightarrow> segment_op \<Rightarrow> segment_op" where
  "concat_finalize E s =
     (let s1 = s\<lparr>so_concat_finalizing := True\<rparr> in
      case e_target_fin E of
        aio_error \<Rightarrow> trigger_reset reply_writefailed s1
      | aio_ok \<Rightarrow>
          trigger_reset reply_ok (s1\<lparr>so_reader := None, so_writer := False,
            so_files := delete_segment_files (so_localName s) (length (so_segments s)) (so_files s)\<rparr>)
      | aio_wait \<Rightarrow> s1)"

text \<open>The part of an iteration that has a reader; the first component tells whether the loop goes
  on.\<close>

definition concat_add :: "library_env \<Rightarrow> string \<Rightarrow> segment_op \<Rightarrow> bool \<times> segment_op" where
  "concat_add E b s =
     (let s1 = s\<lparr>so_concat_received := u64 (so_concat_received s + int (length b)),
                 so_target := so_target s @ [b], so_buffer := None\<rparr>
      in case e_target_add E (length (so_target s)) of
           aio_error \<Rightarrow> (False, trigger_reset reply_writefailed s1)
         | aio_wait \<Rightarrow> (False, s1)
         | aio_ok \<Rightarrow> (True, s1))"

definition concat_read :: "library_env \<Rightarrow> read_result list \<Rightarrow> segment_op \<Rightarrow> bool \<times> segment_op" where
  "concat_read E rs s =
     (case so_buffer s of
        Some b \<Rightarrow> concat_add E b s
      | None \<Rightarrow>
          (case rs of
             [] \<Rightarrow> (True, s\<lparr>so_reader := None\<rparr>)
           | r # rs' \<Rightarrow>
               let s1 = s\<lparr>so_reader := Some rs'\<rparr> in
               (case r of
                  read_wait \<Rightarrow> (False, s1)
                | read_error \<Rightarrow> (False, trigger_reset reply_error s1)
                | read_data b \<Rightarrow>
                    if b = [] then (True, s1\<lparr>so_reader := None\<rparr>)
                    else concat_add E b s1)))"

definition concat_iteration :: "library_env \<Rightarrow> segment_op \<Rightarrow> bool \<times> segment_op" where
  "concat_iteration E s =
     (case so_reader s of
        Some rs \<Rightarrow> concat_read E rs s
      | None \<Rightarrow>
          if so_concat_part s \<ge> length (so_segments s) then
            (False, if so_concat_received s \<noteq> u64 (so_remoteFileSize s) then trigger_reset reply_error s
                    else concat_finalize E s)
          else (case e_part E (so_concat_part s) of
                  None \<Rightarrow> (False, trigger_reset reply_error s)
                | Some rs \<Rightarrow> concat_read E rs (s\<lparr>so_reader := Some rs, so_concat_part := so_concat_part s + 1\<rparr>)))"

definition pump_measure :: "segment_op \<Rightarrow> (nat \<times> nat \<times> nat)" where
  "pump_measure s = (length (so_segments s) - so_concat_part s,
     (case so_reader s of None \<Rightarrow> 0 | Some rs \<Rightarrow> Suc (length rs)), (if so_buffer s = None then 0 else 1))"

lemma concat_add_measure:
  "concat_add E b s = (True, s') \<Longrightarrow> so_segments s' = so_segments s \<and> so_concat_part s' = so_concat_part s \<and>
     so_reader s' = so_reader s \<and> so_buffer s' = None"
  by (auto simp: concat_add_def Let_def split: aio_result.splits)

lemma concat_read_measure:
  assumes "concat_read E rs s = (True, s')" "so_reader s = Some rs"
  shows "(pump_measure s', pump_measure s) \<in> less_than <*lex*> less_than <*lex*> less_than"
  using assms
  by (auto simp: concat_read_def pump_measure_def Let_def trigger_reset_def
      dest!: concat_add_measure split: option.splits list.splits read_result.splits if_splits)

lemma concat_iteration_measure:
  assumes "concat_iteration E s = (True, s')"
  shows "(pump_measure s', pump_measure s) \<in> less_than <*lex*> less_than <*lex*> less_than"
proof (cases "so_reader s")
  case (Some rs)
  then show ?thesis using assms by (intro concat_read_measure) (simp_all add: concat_iteration_def)
next
  case None
  then obtain rs where part: "so_concat_part s < length (so_segments s)"
    and read: "concat_read E rs (s\<lparr>so_reader := Some rs, so_concat_part := so_concat_part s + 1\<rparr>) = (True, s')"
    using assms by (auto simp: concat_iteration_def split: if_splits option.splits)
  have "(pump_measure (s\<lparr>so_reader := Some rs, so_concat_part := so_concat_part s + 1\<rparr>), pump_measure s)
      \<in> less_than <*lex*> less_than <*lex*> less_than"
    using part by (auto simp: pump_measure_def)
  moreover have "(pump_measure s', pump_measure (s\<lparr>so_reader := Some rs, so_concat_part := so_concat_part s + 1\<rparr>))
      \<in> less_than <*lex*> less_than <*lex*> less_than"
    using read by (rule concat_read_measure) simp
  moreover have "trans (less_than <*lex*> less_than <*lex*> less_than)" by (intro trans_lex_prod trans_less_than)
  ultimately show ?thesis by (meson transD)
qed

function concat_pump :: "library_env \<Rightarrow> segment_op \<Rightarrow> segment_op" where
  "concat_pump E s =
     (if so_state s = filetransfer_concat \<and> \<not> so_concat_finalizing s then
        (case concat_iteration E s of (go, s') \<Rightarrow> if go then concat_pump E s' else s')
      else s)"
  by pat_completeness auto
termination
  by (relation "inv_image (less_than <*lex*> less_than <*lex*> less_than) (\<lambda>(E, s). pump_measure s)")
    (auto intro!: wf_inv_image wf_lex_prod dest: concat_iteration_measure simp: eq_commute [of "(_, _)"])

declare concat_pump.simps [simp del]

text \<open>\<open>OnBufferAvailability\<close> while the parts are merged: \<open>from_writer\<close> says which of
  the two objects the event is from.\<close>

definition on_concat_buffer_availability :: "library_env \<Rightarrow> bool \<Rightarrow> segment_op \<Rightarrow> segment_op" where
  "on_concat_buffer_availability E from_writer s =
     (if from_writer \<and> so_writer s then
        (if so_concat_finalizing s then concat_finalize E s else concat_pump E s)
      else if \<not> from_writer \<and> so_reader s \<noteq> None then concat_pump E s
      else s)"

text \<open>The handles of the segments are closed before the merge.\<close>

definition close_handle :: "nat \<Rightarrow> segment_op \<Rightarrow> segment_op" where
  "close_handle i s =
     (let seg = seg_at s i in
      if sh_handle seg \<noteq> [] then
        upd_seg i (\<lambda>g. g\<lparr>sh_handle := []\<rparr>)
          (if has_channel s (sh_conn seg) then add_call (Close_call (sh_conn seg) (sh_handle seg)) s else s)
      else s)"

definition start_concat :: "library_env \<Rightarrow> segment_op \<Rightarrow> segment_op" where
  "start_concat E s =
     (let s1 = foldl (\<lambda>s i. close_handle i s) (s\<lparr>so_state := filetransfer_concat\<rparr>) [0..<length (so_segments s)]
      in if \<not> e_open_target E then trigger_reset reply_writefailed s1
         else concat_pump E (s1\<lparr>so_writer := True, so_target := [], so_concat_part := 0, so_concat_received := 0\<rparr>))"

subsection \<open>Buffers of a segment\<close>

text \<open>\<open>add_buffer\<close> takes the buffer unless it fails; after \<^term>\<open>aio_wait\<close> the
  segment is registered at the writer.\<close>

definition writer_add :: "aio_result \<Rightarrow> segment_handler \<Rightarrow> segment_handler" where
  "writer_add r seg = seg\<lparr>sh_written := sh_written seg @ (case sh_buffer seg of None \<Rightarrow> [] | Some b \<Rightarrow> b),
     sh_buffer := None, sh_waits := (if r = aio_wait then Some on_writer else sh_waits seg)\<rparr>"

definition fail_segments :: "int \<Rightarrow> segment_op \<Rightarrow> segment_op" where
  "fail_segments res s = trigger_reset res (s\<lparr>so_seg_failed := True\<rparr>)"

definition get_next_segment_buffer :: "library_env \<Rightarrow> nat \<Rightarrow> segment_op \<Rightarrow> aio_result \<times> segment_op" where
  "get_next_segment_buffer E i s =
     (let s1 = upd_seg i (writer_add (e_add E)) s in
      case e_add E of
        aio_ok \<Rightarrow>
          if e_pool E then (aio_ok, upd_seg i (\<lambda>g. g\<lparr>sh_buffer := Some []\<rparr>) s1)
          else (aio_wait, upd_seg i (\<lambda>g. g\<lparr>sh_waits := Some on_pool\<rparr>) s1)
      | aio_wait \<Rightarrow> (aio_wait, s1)
      | aio_error \<Rightarrow> (aio_error, fail_segments reply_writefailed s1))"

definition finalize_segment :: "library_env \<Rightarrow> nat \<Rightarrow> segment_op \<Rightarrow> segment_op" where
  "finalize_segment E i s =
     (let s1 = upd_seg i (\<lambda>g. writer_add (e_add E) (g\<lparr>sh_finalizing := True\<rparr>)) s;
          r = (if e_add E = aio_ok then e_fin E else e_add E)
      in case r of
           aio_error \<Rightarrow> fail_segments reply_writefailed s1
         | aio_ok \<Rightarrow>
             let s2 = upd_seg i (\<lambda>g. g\<lparr>sh_writer := False, sh_done := True\<rparr>) s1;
                 s3 = s2\<lparr>so_segments_done := so_segments_done s2 + 1\<rparr>
             in if so_segments_done s3 = length (so_segments s3) then start_concat E s3 else s3
         | aio_wait \<Rightarrow> upd_seg i (\<lambda>g. g\<lparr>sh_waits := Some on_writer\<rparr>) s1)"

definition on_segment_buffer_availability :: "library_env \<Rightarrow> nat \<Rightarrow> aio_wait_on \<Rightarrow> segment_op \<Rightarrow> segment_op" where
  "on_segment_buffer_availability E i w s =
     (let unblock = (\<lambda>s. case sh_stall_channel (seg_at s i) of
            None \<Rightarrow> s
          | Some ch \<Rightarrow> upd_seg i (\<lambda>g. g\<lparr>sh_stall_channel := None\<rparr>) (add_call (Unblock_call ch) s))
      in if so_seg_failed s then s
         else if w = on_writer \<and> sh_writer (seg_at s i) then
           if sh_finalizing (seg_at s i) then finalize_segment E i s
           else (case get_next_segment_buffer E i s of
             (r, s1) \<Rightarrow> if r = aio_ok then request_segments E (sh_conn (seg_at s i)) (unblock s1) else s1)
         else if sh_buffer (seg_at s i) = None \<and> \<not> sh_finalizing (seg_at s i) \<and> \<not> sh_done (seg_at s i) then
           if e_pool E then
             request_segments E (sh_conn (seg_at s i)) (unblock (upd_seg i (\<lambda>g. g\<lparr>sh_buffer := Some []\<rparr>) s))
           else upd_seg i (\<lambda>g. g\<lparr>sh_waits := Some on_pool\<rparr>) s
         else s)"

subsection \<open>Replies of the server\<close>

definition on_segment_open :: "library_env \<Rightarrow> nat \<Rightarrow> string \<Rightarrow> segment_op \<Rightarrow> continuation \<times> segment_op" where
  "on_segment_open E i handle s0 =
     (let s = upd_seg i (\<lambda>g. g\<lparr>sh_handle := handle\<rparr>) s0;
          ch = sh_conn (seg_at s i)
      in if so_seg_failed s then (cont_next, s)
         else if \<not> sh_writer (seg_at s i) then
           if \<not> e_open_writer E then (cont_next, fail_segments reply_writefailed s)
           else (case get_next_segment_buffer E i (upd_seg i (\<lambda>g. g\<lparr>sh_writer := True\<rparr>) s) of
             (r, s1) \<Rightarrow>
               (case r of
                  aio_wait \<Rightarrow> (cont_wait, upd_seg i (\<lambda>g. g\<lparr>sh_stall_channel := Some ch\<rparr>) s1)
                | aio_error \<Rightarrow> (cont_next, s1)
                | aio_ok \<Rightarrow> (cont_next, request_segments E ch s1)))
         else (cont_next, request_segments E ch s))"

definition process_segment_data :: "library_env \<Rightarrow> nat \<Rightarrow> string \<Rightarrow> segment_op \<Rightarrow> continuation \<times> segment_op" where
  "process_segment_data E i data s =
     (let seg = seg_at s i; ch = sh_conn seg; n = int (length data) in
      if so_seg_failed s then (cont_next, s)
      else if n > blocksize then (cont_error, s)
      else
        (case (sh_outstanding seg, sh_buffer seg) of
           (expected # rest, Some b) \<Rightarrow>
             let s1 = upd_seg i (\<lambda>g. g\<lparr>sh_outstanding := rest\<rparr>) s in
             if n > expected then (cont_error, s1)
             else if n < expected then (cont_next, fail_segments reply_error s1)
             else
               let s2 = upd_seg i (\<lambda>g. g\<lparr>sh_buffer := Some (b @ data), sh_received := u64 (sh_received g + n)\<rparr>) s1;
                   s3 = upd_pipe ch (\<lambda>p. p\<lparr>pp_response_offset := u64 (pp_response_offset p + n)\<rparr>) s2
               in if sh_received (seg_at s3 i) \<ge> sh_length (seg_at s3 i) then (cont_next, finalize_segment E i s3)
                  else if e_capacity E - int (length (b @ data)) < blocksize then
                    (case get_next_segment_buffer E i s3 of
                       (r, s4) \<Rightarrow>
                         (case r of
                            aio_wait \<Rightarrow> (cont_wait, upd_seg i (\<lambda>g. g\<lparr>sh_stall_channel := Some ch\<rparr>) s4)
                          | aio_error \<Rightarrow> (cont_next, s4)
                          | aio_ok \<Rightarrow> (cont_next, request_segments E ch s4)))
                  else (cont_next, request_segments E ch s3)
         | _ \<Rightarrow> (cont_error, s)))"

datatype status_code = SSH_FX_OK | SSH_FX_EOF | SSH_FX_OTHER

definition process_segment_status :: "library_env \<Rightarrow> nat \<Rightarrow> status_code \<Rightarrow> segment_op \<Rightarrow> continuation \<times> segment_op" where
  "process_segment_status E i code s =
     (let seg = seg_at s i in
      if sh_handle seg = [] then (cont_next, fail_segments reply_error s)
      else if code = SSH_FX_EOF then
        let s1 = upd_seg i (\<lambda>g. g\<lparr>sh_outstanding := tl (sh_outstanding g)\<rparr>) s
        in if sh_received seg \<ge> sh_length seg then (cont_next, finalize_segment E i s1)
           else (cont_next, fail_segments reply_error s1)
      else (cont_next, fail_segments reply_error s))"

definition segment_failure :: "nat \<Rightarrow> segment_op \<Rightarrow> continuation \<times> segment_op" where
  "segment_failure i s = (cont_next, fail_segments reply_error s)"

subsection \<open>Additional connections\<close>

definition migrate_segment :: "nat \<Rightarrow> nat \<Rightarrow> segment_op \<Rightarrow> segment_op" where
  "migrate_segment i j s =
     (let old = sh_conn (seg_at s i);
          s1 = (if has_channel s old then
                  let s0 = add_call (Cancel_call old i) s
                  in if sh_handle (seg_at s i) \<noteq> [] then
                       upd_seg i (\<lambda>g. g\<lparr>sh_handle := []\<rparr>) (add_call (Close_call old (sh_handle (seg_at s i))) s0)
                     else s0
                else s);
          lost = foldl (\<lambda>l x. u64 (l + x)) 0 (sh_outstanding (seg_at s1 i));
          s2 = upd_pipe old (\<lambda>p. p\<lparr>pp_requested_offset := u64 (pp_requested_offset p - lost)\<rparr>) s1;
          s3 = upd_seg i (\<lambda>g. g\<lparr>sh_outstanding := [], sh_request_offset := u64 (sh_offset g + sh_received g),
                 sh_conn := Some j\<rparr>) s2
      in add_call (Open_call (Some j) i) s3)"

definition segment_conn_new :: segment_conn where
  "segment_conn_new = \<lparr>sc_pipe = segment_pipe_new, sc_sftp = False\<rparr>"

text \<open>A connection that cannot even start fails at once, and the next one is tried.\<close>

function start_next_segment_connection :: "library_env \<Rightarrow> segment_op \<Rightarrow> segment_op" where
  "start_next_segment_connection E s =
     (if so_state s \<noteq> filetransfer_segmented \<or> so_seg_failed s then s
      else if length (so_conns s) + 1 < length (so_segments s) then
        let j = length (so_conns s);
            s1 = s\<lparr>so_conns := so_conns s @ [segment_conn_new]\<rparr>
        in if e_connect E j then s1 else start_next_segment_connection E s1
      else s)"
  by pat_completeness auto
termination by (relation "measure (\<lambda>(E, s). length (so_segments s) - length (so_conns s))") auto

declare start_next_segment_connection.simps [simp del]

definition on_segment_connection_ready :: "library_env \<Rightarrow> nat \<Rightarrow> segment_op \<Rightarrow> segment_op" where
  "on_segment_connection_ready E j s =
     (if so_state s \<noteq> filetransfer_segmented \<or> so_seg_failed s then s
      else if j \<ge> length (so_conns s) then s
      else
        let s1 = foldl (\<lambda>s i. let seg = seg_at s i in
                 if sh_conn seg = None \<and> \<not> sh_done seg \<and> \<not> sh_finalizing seg \<and> sh_index seg = j + 1
                 then migrate_segment i j s else s) s [0..<length (so_segments s)]
        in start_next_segment_connection E s1)"

definition on_segment_connection_failed :: "library_env \<Rightarrow> nat \<Rightarrow> segment_op \<Rightarrow> segment_op" where
  "on_segment_connection_failed E j s =
     (if so_state s \<noteq> filetransfer_segmented \<or> so_seg_failed s then s
      else start_next_segment_connection E s)"

definition on_segment_connection_dropped :: "nat \<Rightarrow> segment_op \<Rightarrow> segment_op" where
  "on_segment_connection_dropped j s =
     (if so_state s \<noteq> filetransfer_segmented \<or> so_seg_failed s then s
      else fail_segments reply_error s)"

definition on_segment_hostkey_mismatch :: "segment_op \<Rightarrow> segment_op" where
  "on_segment_hostkey_mismatch s = fail_segments reply_criticalerror s"

subsection \<open>Start and end of the operation\<close>

definition init_segments :: "segment_op \<Rightarrow> segment_op" where
  "init_segments s =
     (let segs = map init_segment (so_segments s)
      in s\<lparr>so_segments := segs, so_segments_done := so_segments_done s + length (filter sh_done segs)\<rparr>)"

definition start_segmented :: "libfz \<Rightarrow> library_env \<Rightarrow> nat \<Rightarrow> segment_op \<Rightarrow> int \<times> segment_op" where
  "start_segmented L E count s =
     (let tot = u64 (so_remoteFileSize s) in
      if e_server_name E = [] then (reply_error, s)
      else
        let s1 = s\<lparr>so_segments := so_segments s @ segment_plan tot count\<rparr>;
            loaded = (if read_segment_manifest L (e_read_opens E) (e_read_io E) tot s1
                      then load_part_sizes (so_files s1) (so_localName s1) (so_segments s1)
                      else (False, so_segments s1));
            s2 = s1\<lparr>so_segments := snd loaded\<rparr>;
            written = (if fst loaded then (True, s2)
                       else write_segment_manifest (e_write_opens E) (e_write_io E) tot
                         (s2\<lparr>so_files := delete_segment_files (so_localName s2) max_segment_count (so_files s2)\<rparr>))
        in if \<not> fst written then (reply_writefailed, snd written)
           else
             let s3 = (init_segments (snd written))\<lparr>so_state := filetransfer_segmented\<rparr>
             in if so_segments_done s3 = count then (reply_wouldblock, start_concat E s3)
                else
                  let s4 = foldl (\<lambda>s i. if \<not> sh_done (seg_at s i) then add_call (Open_call None i) s else s)
                             (s3\<lparr>so_remote_file := e_server_name E\<rparr>) [0..<length (so_segments s3)]
                  in (reply_wouldblock, start_next_segment_connection E s4))"

definition cleanup_segment :: "nat \<Rightarrow> segment_op \<Rightarrow> segment_op" where
  "cleanup_segment i s =
     (let ch = sh_conn (seg_at s i);
          s1 = (if has_channel s ch then
                  let s0 = add_call (Cancel_call ch i) s
                  in if sh_handle (seg_at s i) \<noteq> [] then
                       upd_seg i (\<lambda>g. g\<lparr>sh_handle := []\<rparr>) (add_call (Close_call ch (sh_handle (seg_at s i))) s0)
                     else s0
                else s)
      in case sh_stall_channel (seg_at s1 i) of
           None \<Rightarrow> s1
         | Some c \<Rightarrow> upd_seg i (\<lambda>g. g\<lparr>sh_stall_channel := None\<rparr>) (add_call (Unblock_call c) s1))"

definition cleanup_segments :: "segment_op \<Rightarrow> segment_op" where
  "cleanup_segments s =
     (foldl (\<lambda>s i. cleanup_segment i s) s [0..<length (so_segments s)])\<lparr>so_segments := [], so_conns := []\<rparr>"

definition transfer_Reset :: "int \<Rightarrow> segment_op \<Rightarrow> int \<times> segment_op" where
  "transfer_Reset result s =
     (let s1 = (if so_sftp s \<and> so_handle s \<noteq> [] then add_call (Close_call None (so_handle s)) s else s);
          s2 = s1\<lparr>so_handle := []\<rparr>;
          s3 = (if result = reply_ok \<and> so_state s2 \<noteq> filetransfer_segmented \<and> so_state s2 \<noteq> filetransfer_concat then
                  (if file_get_size (so_files s2) (segment_manifest_path (so_localName s2)) \<ge> 0
                   then s2\<lparr>so_files := delete_segment_files (so_localName s2) max_segment_count (so_files s2)\<rparr> else s2)
                else if result \<noteq> reply_ok \<and> so_state s2 = filetransfer_concat then
                  s2\<lparr>so_reader := None, so_writer := False, so_files := remove_file (so_localName s2) (so_files s2)\<rparr>
                else s2)
      in (result, cleanup_segments s3))"

end
