(* ===== verification/Sftp_Segment_Plan.thy ===== *)
theory Sftp_Segment_Plan
  imports Sftp_Segment_Ops
begin

text \<open>
  The plan of a segmented download: how many segments, that they tile the file, that the manifest
  written for a plan is accepted again and no other is, and which parts a resumed download keeps.
\<close>

subsection \<open>Ranges that follow one another\<close>

fun tiles :: "int \<Rightarrow> (int \<times> int) list \<Rightarrow> int \<Rightarrow> bool" where
  "tiles a [] b = (a = b)"
| "tiles a ((off, n) # rs) b = (off = a \<and> 0 \<le> n \<and> tiles (a + n) rs b)"

lemma tiles_sum: "tiles a rs b \<Longrightarrow> b = a + sum_list (map snd rs)"
  by (induction a rs b rule: tiles.induct) auto

lemma tiles_le: "tiles a rs b \<Longrightarrow> a \<le> b"
  by (induction a rs b rule: tiles.induct) auto

lemma tiles_snoc [simp]: "tiles a (rs @ [(off, n)]) b \<longleftrightarrow> tiles a rs off \<and> 0 \<le> n \<and> b = off + n"
  by (induction rs arbitrary: a) auto

lemma tiles_append: "tiles a (rs @ rs') b \<longleftrightarrow> (\<exists>c. tiles a rs c \<and> tiles c rs' b)"
  by (induction rs arbitrary: a) auto

lemma tiles_nth:
  assumes "tiles a rs b" "i < length rs"
  shows "a \<le> fst (rs ! i) \<and> 0 \<le> snd (rs ! i) \<and> fst (rs ! i) + snd (rs ! i) \<le> b"
  using assms
proof (induction rs arbitrary: a i)
  case (Cons r rs)
  obtain off n where r: "r = (off, n)" by (cases r)
  show ?case
  proof (cases i)
    case 0
    then show ?thesis using Cons.prems tiles_le by (auto simp: r)
  next
    case (Suc k)
    then show ?thesis using Cons.IH [of "a + n" k] Cons.prems by (auto simp: r)
  qed
qed simp

text \<open>The bytes of a range, and that the bytes of tiles put together are the bytes of the whole.\<close>

definition slice :: "'a list \<Rightarrow> int \<Rightarrow> int \<Rightarrow> 'a list" where
  "slice R off n = take (nat n) (drop (nat off) R)"

lemma slice_add:
  assumes "0 \<le> off" "0 \<le> n" "0 \<le> m"
  shows "slice R off (n + m) = slice R off n @ slice R (off + n) m"
proof -
  have "nat (n + m) = nat n + nat m" "nat (off + n) = nat n + nat off" using assms by simp_all
  then show ?thesis by (simp only: slice_def take_add drop_drop)
qed

lemma slice_length: "0 \<le> off \<Longrightarrow> 0 \<le> n \<Longrightarrow> off + n \<le> int (length R) \<Longrightarrow> length (slice R off n) = nat n"
  by (simp add: slice_def)

lemma slice_zero [simp]: "slice R off 0 = []"
  by (simp add: slice_def)

lemma slice_all [simp]: "slice R 0 (int (length R)) = R"
  by (simp add: slice_def)

lemma tiles_slices:
  assumes "tiles a rs b" "0 \<le> a"
  shows "concat (map (\<lambda>(off, n). slice R off n) rs) = slice R a (b - a)"
  using assms
proof (induction a rs b rule: tiles.induct)
  case (2 a off n rs b)
  then have "tiles (a + n) rs b" by simp
  then have "a + n \<le> b" by (rule tiles_le)
  then show ?case using 2 slice_add [of a n "b - (a + n)" R] by simp
qed simp

subsection \<open>Number of segments\<close>

lemma count_down_spec:
  "count_down tot m n \<le> n" "1 \<le> n \<Longrightarrow> 1 \<le> count_down tot m n"
  "count_down tot m n > 1 \<Longrightarrow> u64 (int (count_down tot m n) * m) \<le> tot"
  "count_down tot m n < k \<Longrightarrow> k \<le> n \<Longrightarrow> 1 \<le> n \<Longrightarrow> tot < u64 (int k * m)"
proof (induction tot m n rule: count_down.induct)
  case (1 tot m n)
  have step: "count_down tot m n = (if n > 1 \<and> tot < u64 (int n * m) then count_down tot m (n - 1) else n)"
    by (subst count_down.simps) simp
  {
    case 1 then show ?case using "1.IH"(1) by (subst step) auto
  next
    case 2 then show ?case using "1.IH"(2) by (subst step) auto
  next
    case 3 then show ?case using "1.IH"(3) step by (simp split: if_splits)
  next
    case 4
    show ?case
    proof (cases "n > 1 \<and> tot < u64 (int n * m)")
      case True
      then have "count_down tot m (n - 1) < k" using 4(1) step by simp
      then show ?thesis using "1.IH"(4) 4 True by (cases "k = n") auto
    next
      case False
      then have "count_down tot m n = n" using step by (simp only: if_False)
      then show ?thesis using 4 by simp
    qed
  }
qed

text \<open>C38: The number of segments is one to eight; with more than one, every segment has at least
  the configured minimum, and one segment more than that would not.  No product wraps around
  within the limits of the options.\<close>

theorem segment_count_bounds:
  assumes "1 \<le> opt_segments" "opt_segments \<le> 8" "1 \<le> opt_min_size" "opt_min_size \<le> 1048576"
    and "remoteFileSize < 2 ^ 63"
  shows "1 \<le> segment_count dl resume remoteFileSize lsize opt_segments opt_min_size \<and>
    int (segment_count dl resume remoteFileSize lsize opt_segments opt_min_size) \<le> opt_segments \<and>
    (segment_count dl resume remoteFileSize lsize opt_segments opt_min_size > 1 \<longrightarrow>
       dl \<and> \<not> resume \<and> lsize = nosize \<and>
       int (segment_count dl resume remoteFileSize lsize opt_segments opt_min_size) * (opt_min_size * 1048576) \<le> remoteFileSize) \<and>
    (\<forall>k. dl \<and> \<not> resume \<and> lsize = nosize \<and> remoteFileSize > 0 \<longrightarrow>
       segment_count dl resume remoteFileSize lsize opt_segments opt_min_size < k \<longrightarrow> int k \<le> opt_segments \<longrightarrow>
       remoteFileSize < int k * (opt_min_size * 1048576))"
proof -
  let ?m = "opt_min_size * 1048576"
  have m: "u64 (u64 (u64 opt_min_size * 1024) * 1024) = ?m" using assms by simp
  have nowrap: "u64 (int k * ?m) = int k * ?m" if "int k \<le> 8" for k
  proof -
    have "int k * ?m \<le> 8 * (1048576 * 1048576)" using that assms by (intro mult_mono) auto
    then show ?thesis using assms by simp
  qed
  show ?thesis
  proof (cases "dl \<and> \<not> resume \<and> remoteFileSize > 0 \<and> lsize = nosize \<and> opt_segments \<ge> 2")
    case True
    then have eq: "segment_count dl resume remoteFileSize lsize opt_segments opt_min_size =
        count_down remoteFileSize ?m (nat opt_segments)"
      using assms m by (simp only: segment_count_def Let_def) simp
    note spec = count_down_spec [where tot = remoteFileSize and m = ?m and n = "nat opt_segments"]
    have le: "count_down remoteFileSize ?m (nat opt_segments) \<le> nat opt_segments" by (rule spec(1))
    then have "int (count_down remoteFileSize ?m (nat opt_segments)) \<le> 8" using assms by linarith
    then have "count_down remoteFileSize ?m (nat opt_segments) > 1 \<Longrightarrow>
        int (count_down remoteFileSize ?m (nat opt_segments)) * ?m \<le> remoteFileSize"
      using spec(3) nowrap by metis
    moreover have "remoteFileSize < int k * ?m"
      if "count_down remoteFileSize ?m (nat opt_segments) < k" "int k \<le> opt_segments" for k
      using spec(4) [OF that(1)] that(2) nowrap [of k] assms by simp
    ultimately show ?thesis using True spec(2) le assms unfolding eq by auto
  next
    case False
    then have "segment_count dl resume remoteFileSize lsize opt_segments opt_min_size = 1"
      by (auto simp: segment_count_def)
    then show ?thesis using False assms by auto
  qed
qed

theorem segment_count_bounds_witness:
  "segment_count True False 3000000 nosize 8 1 = 2 \<and> \<not> 3 * 1048576 \<le> (3000000 :: int)"
proof -
  have two: "segment_count True False 3000000 nosize 8 1 = 2" by code_simp
  then show ?thesis
    using segment_count_bounds [of 8 1 3000000 True False nosize] by simp
qed

subsection \<open>The plan\<close>

definition plan_ranges :: "segment_handler list \<Rightarrow> (int \<times> int) list" where
  "plan_ranges segs = map (\<lambda>g. (sh_offset g, sh_length g)) segs"

lemma length_plan [simp]: "length (plan_segments base r i pos n) = n"
  by (induction n arbitrary: i pos) (simp_all add: Let_def)

lemma plan_segments_spec:
  assumes "0 \<le> base" "0 \<le> r" "0 \<le> pos"
    "pos + int n * base + max 0 (min (int n) (r - int i)) \<le> b" "b < 2 ^ 64"
  shows "tiles pos (plan_ranges (plan_segments base r i pos n)) (pos + int n * base + max 0 (min (int n) (r - int i))) \<and>
    (\<forall>k < n. plan_segments base r i pos n ! k =
       segment_handler_new (i + k) (sh_offset (plan_segments base r i pos n ! k))
         (base + (if int (i + k) < r then 1 else 0)))"
  using assms
proof (induction n arbitrary: i pos)
  case 0
  then show ?case by (simp add: plan_ranges_def)
next
  case (Suc n)
  let ?len = "base + (if int i < r then 1 else 0)"
  let ?e = "max 0 (min (int n) (r - int (Suc i)))"
  have e: "max 0 (min (int (Suc n)) (r - int i)) = ?e + (if int i < r then 1 else 0)" by auto
  have sum: "pos + ?len + int n * base + ?e = pos + int (Suc n) * base + max 0 (min (int (Suc n)) (r - int i))"
    unfolding e by (simp add: algebra_simps)
  have nn: "0 \<le> int n * base" using Suc.prems by simp
  have le: "pos + ?len \<le> b" using Suc.prems(4) nn unfolding sum [symmetric] by linarith
  have pos: "u64 ?len = ?len" "u64 (pos + ?len) = pos + ?len"
    using le Suc.prems by (auto intro!: u64_id)
  have ih: "tiles (pos + ?len) (plan_ranges (plan_segments base r (Suc i) (pos + ?len) n))
      (pos + ?len + int n * base + ?e) \<and>
    (\<forall>k < n. plan_segments base r (Suc i) (pos + ?len) n ! k =
       segment_handler_new (Suc i + k) (sh_offset (plan_segments base r (Suc i) (pos + ?len) n ! k))
         (base + (if int (Suc i + k) < r then 1 else 0)))"
    by (rule Suc.IH) (use Suc.prems sum in auto)
  have "plan_segments base r i pos (Suc n) =
      segment_handler_new i pos ?len # plan_segments base r (Suc i) (pos + ?len) n"
    using pos by (simp only: plan_segments.simps Let_def)
  then show ?case using ih Suc.prems unfolding sum [symmetric]
    by (auto simp: plan_ranges_def segment_handler_new_def nth_Cons split: nat.splits)
qed

text \<open>The plan tiles the file, its segments are numbered, and their lengths differ by at most one.\<close>

lemma segment_plan_spec:
  assumes "0 \<le> tot" "tot < 2 ^ 63" "0 < count"
  shows "tiles 0 (plan_ranges (segment_plan tot count)) tot"
    "k < count \<Longrightarrow> segment_plan tot count ! k =
       segment_handler_new k (sh_offset (segment_plan tot count ! k))
         (tot div int count + (if int k < tot mod int count then 1 else 0))"
proof -
  let ?b = "tot div int count" and ?r = "tot mod int count"
  have r: "0 \<le> ?r" "?r < int count" "0 \<le> ?b" using assms by (simp_all add: pos_imp_zdiv_nonneg_iff)
  have sum: "0 + int count * ?b + max 0 (min (int count) (?r - int 0)) = tot" using r by simp
  have "tiles 0 (plan_ranges (plan_segments ?b ?r 0 0 count)) (0 + int count * ?b + max 0 (min (int count) (?r - int 0))) \<and>
    (\<forall>k < count. plan_segments ?b ?r 0 0 count ! k =
       segment_handler_new (0 + k) (sh_offset (plan_segments ?b ?r 0 0 count ! k))
         (?b + (if int (0 + k) < ?r then 1 else 0)))"
    by (rule plan_segments_spec [where b = tot]) (use r assms sum in auto)
  then show "tiles 0 (plan_ranges (segment_plan tot count)) tot"
    "k < count \<Longrightarrow> segment_plan tot count ! k =
       segment_handler_new k (sh_offset (segment_plan tot count ! k)) (?b + (if int k < ?r then 1 else 0))"
    unfolding sum by (simp_all add: segment_plan_def)
qed

lemma length_segment_plan [simp]: "length (segment_plan tot count) = count"
  by (simp add: segment_plan_def)

subsection \<open>The manifest\<close>

lemma write_loop_complete: "snd (write_loop rs acc rest) \<Longrightarrow> fst (write_loop rs acc rest) = acc @ rest"
  by (induction rs acc rest rule: write_loop.induct) (auto split: option.splits if_splits)

lemma read_loop_complete:
  "read_loop rs (length rest) acc rest = Some d \<Longrightarrow> d = acc @ rest"
proof (induction rs "length rest" acc rest rule: read_loop.induct)
  case (1 rs acc rest)
  show ?case
  proof (cases "length rest = 0")
    case True then show ?thesis using "1.prems" by (simp add: read_loop.simps)
  next
    case False
    then obtain n rs' where rs: "rs = Some n # rs'" "n \<noteq> 0"
      and r: "read_loop rs' (length rest - n) (acc @ take n rest) (drop n rest) = Some d"
      using "1.prems" by (subst (asm) read_loop.simps) (auto split: list.splits option.splits if_splits)
    have "d = (acc @ take n rest) @ drop n rest"
      by (rule "1.hyps" [OF False rs(1) refl rs(2)]) (use r in simp_all)
    then show ?thesis by simp
  qed
qed

lemma read_loop_unfold_complete:
  "read_loop io (length c) [] c \<noteq> None \<Longrightarrow> read_loop io (length c) [] c = Some c"
  using read_loop_complete [of io c "[]"] by auto

lemma manifest_char [simp]:
  "CHR 0x0D \<notin> set (show_nat n)" "CHR 0x0A \<notin> set (show_nat n)" "CHR '' '' \<notin> set (show_nat n)"
  using show_nat_digits [of n] by (auto simp: is_digit_code)

definition manifest_pair :: "int \<Rightarrow> int \<Rightarrow> string" where
  "manifest_pair a b = show_nat (nat a) @ '' '' @ show_nat (nat b)"

definition u64_value :: "int \<Rightarrow> bool" where
  "u64_value x \<longleftrightarrow> 0 \<le> x \<and> x < nosize"

lemma to_u64_show: "to_integral_law L \<Longrightarrow> u64_value x \<Longrightarrow> to_u64 L (show_nat (nat x)) = x"
  by (simp add: to_u64_def to_integral_law_def u64_value_def nosize_def nat_less_iff)

lemma parse_pair_manifest:
  assumes "tokenizer_law L" "to_integral_law L" "u64_value a" "u64_value b"
  shows "parse_pair L (manifest_pair a b) = Some (a, b)"
proof -
  have "split_at {CHR '' ''} (show_nat (nat a) @ CHR '' '' # show_nat (nat b)) = show_nat (nat a) # split_at {CHR '' ''} (show_nat (nat b))"
    by (rule split_at_join_step) auto
  moreover have "split_at {CHR '' ''} (show_nat (nat b)) = [show_nat (nat b)]"
    by (rule split_at_clean) auto
  ultimately have "split_at {CHR '' ''} (manifest_pair a b) = [show_nat (nat a), show_nat (nat b)]"
    by (simp add: manifest_pair_def)
  then have "fz_strtokenizer L (manifest_pair a b) '' '' True = [show_nat (nat a), show_nat (nat b)]"
    using assms(1) by (simp add: tokenizer_law_def)
  then show ?thesis using assms(3,4) to_u64_show [OF assms(2)]
    by (simp add: parse_pair_def Let_def u64_value_def)
qed

lemma split_lines:
  assumes "\<forall>l \<in> set ls. l \<noteq> [] \<and> CHR 0x0D \<notin> set l \<and> CHR 0x0A \<notin> set l"
  shows "filter (\<lambda>t. t \<noteq> []) (split_at {CHR 0x0D, CHR 0x0A} (concat (map (\<lambda>l. l @ [CHR 0x0A]) ls))) = ls"
  using assms
proof (induction ls)
  case (Cons l ls)
  then have "split_at {CHR 0x0D, CHR 0x0A} (l @ CHR 0x0A # concat (map (\<lambda>l. l @ [CHR 0x0A]) ls)) =
      l # split_at {CHR 0x0D, CHR 0x0A} (concat (map (\<lambda>l. l @ [CHR 0x0A]) ls))"
    by (intro split_at_join_step) auto
  then show ?case using Cons by simp
qed simp

definition manifest_lines :: "int \<Rightarrow> segment_handler list \<Rightarrow> string list" where
  "manifest_lines tot segs = ''fzseg1'' # manifest_pair tot (int (length segs)) #
     map (\<lambda>(off, n). manifest_pair off n) (plan_ranges segs)"

lemma write_manifest_lines: "write_manifest_data tot segs = concat (map (\<lambda>l. l @ [CHR 0x0A]) (manifest_lines tot segs))"
  by (simp add: write_manifest_data_def manifest_lines_def manifest_pair_def plan_ranges_def comp_def)

lemma manifest_tokens:
  assumes "tokenizer_law L"
  shows "fz_strtokenizer L (write_manifest_data tot segs) [CHR 0x0D, CHR 0x0A] True = manifest_lines tot segs"
proof -
  have "\<forall>l \<in> set (manifest_lines tot segs). l \<noteq> [] \<and> CHR 0x0D \<notin> set l \<and> CHR 0x0A \<notin> set l"
    by (auto simp: manifest_lines_def manifest_pair_def plan_ranges_def)
  then show ?thesis using assms split_lines unfolding write_manifest_lines tokenizer_law_def by simp
qed

definition plan_ok :: "int \<Rightarrow> segment_handler list \<Rightarrow> bool" where
  "plan_ok tot segs \<longleftrightarrow> u64_value tot \<and> int (length segs) < nosize \<and>
     list_all (\<lambda>g. u64_value (sh_offset g) \<and> u64_value (sh_length g)) segs"

lemma check_lines_manifest:
  assumes "tokenizer_law L" "to_integral_law L" "list_all (\<lambda>g. u64_value (sh_offset g) \<and> u64_value (sh_length g)) segs"
  shows "check_manifest_lines L (map (\<lambda>(off, n). manifest_pair off n) (plan_ranges segs)) segs' \<longleftrightarrow>
    plan_ranges segs' = plan_ranges segs"
  using assms(3)
proof (induction segs arbitrary: segs')
  case Nil
  then show ?case by (cases segs') (simp_all add: plan_ranges_def)
next
  case (Cons g segs)
  then show ?case using parse_pair_manifest [OF assms(1,2)]
    by (cases segs') (auto simp: plan_ranges_def)
qed

lemma parse_manifest_write:
  assumes "tokenizer_law L" "to_integral_law L" "plan_ok tot segs"
  shows "parse_manifest L tot' segs' (write_manifest_data tot segs) \<longleftrightarrow>
    tot' = tot \<and> plan_ranges segs' = plan_ranges segs"
proof -
  have "u64_value (int (length segs))" using assms(3) by (simp add: plan_ok_def u64_value_def)
  then have p: "parse_pair L (manifest_pair tot (int (length segs))) = Some (tot, int (length segs))"
    using assms by (intro parse_pair_manifest) (simp_all add: plan_ok_def)
  have "length segs' = length segs" if "plan_ranges segs' = plan_ranges segs"
    using that unfolding plan_ranges_def by (metis length_map)
  then show ?thesis using check_lines_manifest [OF assms(1,2)] assms(3) p
    by (auto simp: parse_manifest_def manifest_tokens [OF assms(1)] manifest_lines_def plan_ok_def)
qed

lemma length_u64_text: "u64_value x \<Longrightarrow> length (show_nat (nat x)) \<le> 20"
  using length_show_nat [of "nat x" 19] by (simp add: u64_value_def nosize_def nat_less_iff)

lemma manifest_size:
  assumes "plan_ok tot segs" "length segs \<le> max_segment_count"
  shows "write_manifest_data tot segs \<noteq> [] \<and> int (length (write_manifest_data tot segs)) \<le> 64 * 1024"
proof -
  have "length (concat (map (\<lambda>seg. show_nat (nat (sh_offset seg)) @ '' '' @ show_nat (nat (sh_length seg)) @ [CHR 0x0A]) segs))
      \<le> 42 * length segs"
    using assms(1) unfolding plan_ok_def
  proof (induction segs)
    case (Cons g segs)
    then have "length (show_nat (nat (sh_offset g))) \<le> 20" "length (show_nat (nat (sh_length g))) \<le> 20"
      using length_u64_text by simp_all
    then show ?case using Cons by simp
  qed simp
  moreover have "length (show_nat (nat tot)) \<le> 20" using assms(1) length_u64_text by (simp add: plan_ok_def)
  moreover have "length (show_nat (length segs)) \<le> 1"
    using length_show_nat [of "length segs" 0] assms(2) by (simp add: max_segment_count_def)
  ultimately show ?thesis using assms(2) by (simp add: write_manifest_data_def max_segment_count_def)
qed

end
