(* ===== verification/Sftp_Segment_Net.thy ===== *)
theory Sftp_Segment_Net
  imports Sftp_Segment_Plan
begin

text \<open>
  A segmented download together with its channels: what the channels still owe the operation is
  read off the calls it made.  The invariant \<open>downloading\<close> says that the unanswered read
  requests of a segment tile the range it has not received, and that what its writer was handed
  and what its buffer holds are the bytes of the remote file.
\<close>

subsection \<open>The channels\<close>

text \<open>\<open>ne_queue\<close> holds the unanswered read requests of a segment as offset and size,
  \<open>ne_opening\<close> whether a request to open the file is unanswered, \<open>ne_stalled\<close> whether
  a handler told the channel to wait.\<close>

record segment_net =
  ne_queue :: "nat \<Rightarrow> (int \<times> int) list"
  ne_opening :: "nat \<Rightarrow> bool"
  ne_stalled :: "channel \<Rightarrow> bool"

definition segment_net_new :: segment_net where
  "segment_net_new = \<lparr>ne_queue = (\<lambda>_. []), ne_opening = (\<lambda>_. False), ne_stalled = (\<lambda>_. False)\<rparr>"

fun net_call :: "channel_call \<Rightarrow> segment_net \<Rightarrow> segment_net" where
  "net_call (Open_call ch i) N = N\<lparr>ne_opening := (ne_opening N)(i := True)\<rparr>"
| "net_call (Read_call ch i off n) N = N\<lparr>ne_queue := (ne_queue N)(i := ne_queue N i @ [(off, n)])\<rparr>"
| "net_call (Cancel_call ch i) N = N\<lparr>ne_queue := (ne_queue N)(i := []), ne_opening := (ne_opening N)(i := False)\<rparr>"
| "net_call (Close_call ch h) N = N"
| "net_call (Unblock_call ch) N = N\<lparr>ne_stalled := (ne_stalled N)(ch := False)\<rparr>"

definition net_after :: "segment_op \<Rightarrow> segment_net \<Rightarrow> segment_net" where
  "net_after s N = foldl (\<lambda>n c. net_call c n) N (so_calls s)"

lemma net_after_add [simp]: "net_after (add_call c s) N = net_call c (net_after s N)"
  by (simp add: net_after_def add_call_def)

lemma net_after_calls: "so_calls s = so_calls t \<Longrightarrow> net_after s N = net_after t N"
  by (simp add: net_after_def)

lemma net_after_Nil [simp]: "so_calls s = [] \<Longrightarrow> net_after s N = N"
  by (simp add: net_after_def)

subsection \<open>Frames of the updates\<close>

lemma upd_seg_frame [simp]:
  "so_state (upd_seg i f s) = so_state s" "so_remoteFileSize (upd_seg i f s) = so_remoteFileSize s"
  "so_localName (upd_seg i f s) = so_localName s" "so_sftp (upd_seg i f s) = so_sftp s"
  "so_segments_done (upd_seg i f s) = so_segments_done s" "so_primary_pipe (upd_seg i f s) = so_primary_pipe s"
  "so_seg_failed (upd_seg i f s) = so_seg_failed s" "so_conns (upd_seg i f s) = so_conns s"
  "so_target (upd_seg i f s) = so_target s" "so_reader (upd_seg i f s) = so_reader s"
  "so_buffer (upd_seg i f s) = so_buffer s" "so_concat_part (upd_seg i f s) = so_concat_part s"
  "so_concat_received (upd_seg i f s) = so_concat_received s" "so_concat_finalizing (upd_seg i f s) = so_concat_finalizing s"
  "so_resets (upd_seg i f s) = so_resets s" "so_calls (upd_seg i f s) = so_calls s" "so_files (upd_seg i f s) = so_files s"
  "so_writer (upd_seg i f s) = so_writer s" "so_remote_file (upd_seg i f s) = so_remote_file s"
  "length (so_segments (upd_seg i f s)) = length (so_segments s)" "net_after (upd_seg i f s) N = net_after s N"
  "has_channel (upd_seg i f s) ch = has_channel s ch" "pipe_of (upd_seg i f s) ch = pipe_of s ch"
  by (simp_all add: upd_seg_def net_after_def has_channel_def conn_at_def pipe_of_def split: option.splits)

lemma add_call_frame [simp]:
  "so_state (add_call c s) = so_state s" "so_remoteFileSize (add_call c s) = so_remoteFileSize s"
  "so_localName (add_call c s) = so_localName s" "so_sftp (add_call c s) = so_sftp s"
  "so_segments_done (add_call c s) = so_segments_done s" "so_primary_pipe (add_call c s) = so_primary_pipe s"
  "so_seg_failed (add_call c s) = so_seg_failed s" "so_conns (add_call c s) = so_conns s"
  "so_target (add_call c s) = so_target s" "so_reader (add_call c s) = so_reader s"
  "so_buffer (add_call c s) = so_buffer s" "so_concat_part (add_call c s) = so_concat_part s"
  "so_concat_received (add_call c s) = so_concat_received s" "so_concat_finalizing (add_call c s) = so_concat_finalizing s"
  "so_resets (add_call c s) = so_resets s" "so_segments (add_call c s) = so_segments s" "so_files (add_call c s) = so_files s"
  "so_writer (add_call c s) = so_writer s" "so_remote_file (add_call c s) = so_remote_file s"
  "seg_at (add_call c s) i = seg_at s i" "has_channel (add_call c s) ch = has_channel s ch"
  "pipe_of (add_call c s) ch = pipe_of s ch"
  by (simp_all add: add_call_def seg_at_def has_channel_def conn_at_def pipe_of_def split: option.splits)

lemma upd_pipe_frame [simp]:
  "so_state (upd_pipe ch f s) = so_state s" "so_remoteFileSize (upd_pipe ch f s) = so_remoteFileSize s"
  "so_localName (upd_pipe ch f s) = so_localName s" "so_sftp (upd_pipe ch f s) = so_sftp s"
  "so_segments_done (upd_pipe ch f s) = so_segments_done s"
  "so_seg_failed (upd_pipe ch f s) = so_seg_failed s" "length (so_conns (upd_pipe ch f s)) = length (so_conns s)"
  "so_target (upd_pipe ch f s) = so_target s" "so_reader (upd_pipe ch f s) = so_reader s"
  "so_buffer (upd_pipe ch f s) = so_buffer s" "so_concat_part (upd_pipe ch f s) = so_concat_part s"
  "so_concat_received (upd_pipe ch f s) = so_concat_received s" "so_concat_finalizing (upd_pipe ch f s) = so_concat_finalizing s"
  "so_resets (upd_pipe ch f s) = so_resets s" "so_segments (upd_pipe ch f s) = so_segments s" "so_files (upd_pipe ch f s) = so_files s"
  "so_writer (upd_pipe ch f s) = so_writer s" "so_remote_file (upd_pipe ch f s) = so_remote_file s"
  "so_calls (upd_pipe ch f s) = so_calls s"
  "seg_at (upd_pipe ch f s) i = seg_at s i" "net_after (upd_pipe ch f s) N = net_after s N"
  by (simp_all add: upd_pipe_def seg_at_def net_after_def split: option.splits)

lemma has_channel_upd_pipe [simp]: "has_channel (upd_pipe ch f s) c = has_channel s c"
proof (cases ch)
  case (Some j)
  then show ?thesis
    by (cases "j < length (so_conns s)")
      (auto simp: has_channel_def upd_pipe_def conn_at_def nth_list_update list_update_beyond split: option.splits)
qed (simp add: has_channel_def upd_pipe_def conn_at_def split: option.splits)

lemma seg_at_upd [simp]:
  "i < length (so_segments s) \<Longrightarrow> seg_at (upd_seg i f s) i = f (seg_at s i)"
  "k \<noteq> i \<Longrightarrow> seg_at (upd_seg i f s) k = seg_at s k"
  by (simp_all add: seg_at_def upd_seg_def)

lemma seg_at_upd_if: "i < length (so_segments s) \<Longrightarrow> seg_at (upd_seg i f s) k = (if k = i then f (seg_at s i) else seg_at s k)"
  by simp

lemma trigger_reset_frame [simp]:
  "so_resets (trigger_reset r s) = so_resets s @ [r]" "so_segments (trigger_reset r s) = so_segments s"
  "so_state (trigger_reset r s) = so_state s" "so_target (trigger_reset r s) = so_target s"
  "so_calls (trigger_reset r s) = so_calls s" "so_concat_finalizing (trigger_reset r s) = so_concat_finalizing s"
  "so_conns (trigger_reset r s) = so_conns s" "so_seg_failed (trigger_reset r s) = so_seg_failed s"
  "so_buffer (trigger_reset r s) = so_buffer s" "so_reader (trigger_reset r s) = so_reader s"
  by (simp_all add: trigger_reset_def)

lemma fail_segments_frame [simp]:
  "so_resets (fail_segments r s) = so_resets s @ [r]" "so_segments (fail_segments r s) = so_segments s"
  "so_target (fail_segments r s) = so_target s"
  by (simp_all add: fail_segments_def)

subsection \<open>The invariant of a segment\<close>

definition buffer_bytes :: "segment_handler \<Rightarrow> string" where
  "buffer_bytes g = (case sh_buffer g of None \<Rightarrow> [] | Some b \<Rightarrow> b)"

lemma buffer_bytes_simps [simp]: "sh_buffer g = None \<Longrightarrow> buffer_bytes g = []" "sh_buffer g = Some b \<Longrightarrow> buffer_bytes g = b"
  by (simp_all add: buffer_bytes_def)

definition seg_range_ok :: "string \<Rightarrow> nat \<Rightarrow> segment_handler \<Rightarrow> bool" where
  "seg_range_ok R i g \<longleftrightarrow>
     sh_index g = i \<and> 0 \<le> sh_offset g \<and> sh_offset g + sh_length g \<le> int (length R) \<and>
     0 \<le> sh_part_size g \<and> sh_part_size g \<le> sh_received g \<and> sh_received g \<le> sh_length g"

text \<open>The unanswered requests.\<close>

definition seg_requests_ok :: "(int \<times> int) list \<Rightarrow> segment_handler \<Rightarrow> bool" where
  "seg_requests_ok q g \<longleftrightarrow>
     tiles (sh_offset g + sh_received g) q (sh_request_offset g) \<and>
     sh_request_offset g \<le> sh_offset g + sh_length g \<and>
     sh_outstanding g = map snd q \<and> (\<forall>n \<in> set (sh_outstanding g). 0 < n \<and> n \<le> blocksize)"

text \<open>The received bytes: \<open>p\<close> is what the part file held at the start.\<close>

definition seg_data_ok :: "string \<Rightarrow> string \<Rightarrow> segment_handler \<Rightarrow> bool" where
  "seg_data_ok R p g \<longleftrightarrow>
     p = slice R (sh_offset g) (sh_part_size g) \<and>
     sh_written g @ buffer_bytes g =
       slice R (sh_offset g + sh_part_size g) (sh_received g - sh_part_size g) \<and>
     (sh_finalizing g \<or> sh_done g \<longrightarrow> sh_received g = sh_length g \<and> sh_buffer g = None) \<and>
     (sh_done g \<longrightarrow> \<not> sh_writer g) \<and>
     (\<not> sh_writer g \<and> \<not> sh_done g \<longrightarrow> sh_written g = [])"

text \<open>Who waits for whom.\<close>

definition seg_waits_ok :: "segment_net \<Rightarrow> nat \<Rightarrow> segment_handler \<Rightarrow> bool" where
  "seg_waits_ok N i g \<longleftrightarrow>
     (sh_buffer g \<noteq> None \<longrightarrow> sh_writer g \<and> sh_waits g = None) \<and>
     (sh_waits g \<noteq> None \<longrightarrow> sh_writer g) \<and>
     (sh_buffer g = None \<and> sh_outstanding g \<noteq> [] \<longrightarrow> sh_stall_channel g = Some (sh_conn g)) \<and>
     (\<forall>ch. sh_stall_channel g = Some ch \<longrightarrow> ne_stalled N ch) \<and>
     (ne_opening N i \<longrightarrow> sh_handle g = [] \<and> sh_outstanding g = [] \<and> \<not> sh_finalizing g \<and> \<not> sh_done g)"

definition seg_ok :: "string \<Rightarrow> string \<Rightarrow> segment_net \<Rightarrow> nat \<Rightarrow> segment_handler \<Rightarrow> bool" where
  "seg_ok R p N i g \<longleftrightarrow>
     seg_range_ok R i g \<and> seg_requests_ok (ne_queue N i) g \<and> seg_data_ok R p g \<and> seg_waits_ok N i g"

lemmas seg_ok_defs = seg_ok_def seg_range_ok_def seg_requests_ok_def seg_data_ok_def seg_waits_ok_def

lemma complete_no_requests:
  assumes "seg_requests_ok q g" "sh_received g = sh_length g"
  shows "q = []"
proof (rule ccontr)
  assume "q \<noteq> []"
  then obtain off n q' where q: "q = (off, n) # q'" by (metis list.exhaust surj_pair)
  then have t: "tiles (sh_offset g + sh_received g + n) q' (sh_request_offset g)" and "0 < n"
    using assms by (auto simp: seg_requests_ok_def)
  moreover have "sh_request_offset g \<le> sh_offset g + sh_length g" using assms(1) by (simp add: seg_requests_ok_def)
  ultimately show False using tiles_le [OF t] assms(2) by simp
qed

subsection \<open>The invariant of the operation\<close>

definition stalls_distinct :: "segment_op \<Rightarrow> bool" where
  "stalls_distinct s \<longleftrightarrow> (\<forall>i < length (so_segments s). \<forall>k < length (so_segments s).
     sh_stall_channel (seg_at s i) = sh_stall_channel (seg_at s k) \<longrightarrow> sh_stall_channel (seg_at s i) \<noteq> None \<longrightarrow> i = k)"

definition conns_ok :: "segment_op \<Rightarrow> bool" where
  "conns_ok s \<longleftrightarrow> (\<forall>i < length (so_segments s). has_channel s (sh_conn (seg_at s i)) \<and>
     (\<forall>j. sh_conn (seg_at s i) = Some j \<longrightarrow> j < length (so_conns s)))"

definition downloading :: "string \<Rightarrow> (nat \<Rightarrow> string) \<Rightarrow> segment_net \<Rightarrow> segment_op \<Rightarrow> bool" where
  "downloading R P N s \<longleftrightarrow>
     so_state s = filetransfer_segmented \<and> \<not> so_seg_failed s \<and> so_resets s = [] \<and> \<not> so_concat_finalizing s \<and>
     so_reader s = None \<and> so_buffer s = None \<and>
     so_remoteFileSize s = int (length R) \<and> int (length R) < 2 ^ 63 \<and>
     tiles 0 (plan_ranges (so_segments s)) (int (length R)) \<and>
     (\<forall>i < length (so_segments s). seg_ok R (P i) (net_after s N) i (seg_at s i)) \<and>
     stalls_distinct s \<and> conns_ok s \<and>
     so_segments_done s = length (filter sh_done (so_segments s)) \<and>
     so_segments_done s < length (so_segments s)"

lemma downloading_seg: "downloading R P N s \<Longrightarrow> i < length (so_segments s) \<Longrightarrow> seg_ok R (P i) (net_after s N) i (seg_at s i)"
  by (simp add: downloading_def)

lemma downloading_simple:
  assumes "downloading R P N s"
  shows "so_state s = filetransfer_segmented" "\<not> so_seg_failed s" "so_resets s = []" "stalls_distinct s" "conns_ok s"
    "int (length R) < 2 ^ 63"
  using assms by (simp_all add: downloading_def)

lemma plan_ranges_upd:
  assumes "i < length (so_segments s)" "sh_offset (f (seg_at s i)) = sh_offset (seg_at s i)"
    "sh_length (f (seg_at s i)) = sh_length (seg_at s i)"
  shows "plan_ranges (so_segments (upd_seg i f s)) = plan_ranges (so_segments s)"
proof (rule nth_equalityI)
  fix k assume k: "k < length (plan_ranges (so_segments (upd_seg i f s)))"
  then show "plan_ranges (so_segments (upd_seg i f s)) ! k = plan_ranges (so_segments s) ! k"
    using assms by (cases "k = i") (simp_all add: plan_ranges_def upd_seg_def seg_at_def)
qed (simp add: plan_ranges_def)

lemma count_done_upd:
  "i < length (so_segments s) \<Longrightarrow> sh_done (f (seg_at s i)) = sh_done (seg_at s i) \<Longrightarrow>
     length (filter sh_done (so_segments (upd_seg i f s))) = length (filter sh_done (so_segments s))"
proof -
  assume i: "i < length (so_segments s)" and d: "sh_done (f (seg_at s i)) = sh_done (seg_at s i)"
  have "map sh_done ((so_segments s)[i := f (seg_at s i)]) = map sh_done (so_segments s)"
    using i d by (simp add: map_update seg_at_def) (metis list_update_id nth_map)
  then have "length (filter (\<lambda>b. b) (map sh_done ((so_segments s)[i := f (seg_at s i)]))) =
      length (filter (\<lambda>b. b) (map sh_done (so_segments s)))" by simp
  then show ?thesis by (simp add: filter_map comp_def upd_seg_def)
qed

text \<open>An update of one segment, with a change of the channels that concerns that segment only.\<close>

lemma downloading_upd_net:
  assumes d: "downloading R P N s" and i: "i < length (so_segments s)"
    and ok: "seg_ok R (P i) (net_after t N') i (f (seg_at s i))"
    and same: "sh_offset (f (seg_at s i)) = sh_offset (seg_at s i)" "sh_length (f (seg_at s i)) = sh_length (seg_at s i)"
      "sh_done (f (seg_at s i)) = sh_done (seg_at s i)"
    and conn: "has_channel s (sh_conn (f (seg_at s i)))" "\<forall>j. sh_conn (f (seg_at s i)) = Some j \<longrightarrow> j < length (so_conns s)"
    and t: "t = upd_seg i f s \<or> (\<exists>cs. t = (upd_seg i f s)\<lparr>so_calls := cs\<rparr>)"
    and others: "\<And>k. k < length (so_segments s) \<Longrightarrow> k \<noteq> i \<Longrightarrow>
        ne_queue (net_after t N') k = ne_queue (net_after s N) k \<and>
        ne_opening (net_after t N') k = ne_opening (net_after s N) k \<and>
        (\<forall>ch. sh_stall_channel (seg_at s k) = Some ch \<longrightarrow> ne_stalled (net_after t N') ch)"
    and stall: "\<And>k ch. k < length (so_segments s) \<Longrightarrow> k \<noteq> i \<Longrightarrow> sh_stall_channel (seg_at s k) = Some ch \<Longrightarrow>
        sh_stall_channel (f (seg_at s i)) \<noteq> Some ch"
  shows "downloading R P N' t"
proof -
  have seg: "seg_at t k = (if k = i then f (seg_at s i) else seg_at s k)" for k
  proof -
    have "so_segments t = so_segments (upd_seg i f s)" using t by auto
    then have "seg_at t k = seg_at (upd_seg i f s) k" by (simp add: seg_at_def)
    then show ?thesis using i by simp
  qed
  have len: "length (so_segments t) = length (so_segments s)" using t by auto
  have "seg_ok R (P k) (net_after t N') k (seg_at t k)" if k: "k < length (so_segments t)" for k
  proof (cases "k = i")
    case False
    then show ?thesis using downloading_seg [OF d, of k] others [of k] k len
      by (simp add: seg seg_ok_def seg_waits_ok_def)
  qed (use ok seg in simp)
  moreover have "stalls_distinct t"
  proof -
    have "sh_stall_channel (seg_at s k) \<noteq> sh_stall_channel (f (seg_at s i)) \<or> sh_stall_channel (seg_at s k) = None"
      if "k < length (so_segments s)" "k \<noteq> i" for k using stall [OF that] by (cases "sh_stall_channel (seg_at s k)") auto
    then show ?thesis using downloading_simple(4) [OF d] unfolding stalls_distinct_def len seg by (metis (full_types))
  qed
  moreover have "conns_ok t"
  proof -
    have c: "so_conns t = so_conns s" "so_sftp t = so_sftp s" using t by auto
    then have "has_channel t ch = has_channel s ch" "length (so_conns t) = length (so_conns s)" for ch
      by (simp_all add: has_channel_def conn_at_def split: option.splits)
    then show ?thesis using downloading_simple(5) [OF d] conn unfolding conns_ok_def len seg by auto
  qed
  moreover have "plan_ranges (so_segments t) = plan_ranges (so_segments s)"
    "length (filter sh_done (so_segments t)) = length (filter sh_done (so_segments s))"
    using t plan_ranges_upd [where f = f, OF i same(1,2)] count_done_upd [where f = f, OF i same(3)] by auto
  ultimately show ?thesis using d t unfolding downloading_def by auto
qed

lemma downloading_upd:
  assumes d: "downloading R P N s" and i: "i < length (so_segments s)"
    and "seg_ok R (P i) (net_after s N) i (f (seg_at s i))"
    "sh_offset (f (seg_at s i)) = sh_offset (seg_at s i)" "sh_length (f (seg_at s i)) = sh_length (seg_at s i)"
    "sh_done (f (seg_at s i)) = sh_done (seg_at s i)" "sh_conn (f (seg_at s i)) = sh_conn (seg_at s i)"
    "sh_stall_channel (f (seg_at s i)) = sh_stall_channel (seg_at s i)"
  shows "downloading R P N (upd_seg i f s)"
proof (rule downloading_upd_net [OF d i, where f = f])
  show "has_channel s (sh_conn (f (seg_at s i)))" "\<forall>j. sh_conn (f (seg_at s i)) = Some j \<longrightarrow> j < length (so_conns s)"
    using downloading_simple(5) [OF d] i assms(7) by (auto simp: conns_ok_def)
  show "sh_stall_channel (f (seg_at s i)) \<noteq> Some ch"
    if "k < length (so_segments s)" "k \<noteq> i" "sh_stall_channel (seg_at s k) = Some ch" for k ch
    using that downloading_simple(4) [OF d] i assms(8) unfolding stalls_distinct_def by (metis option.distinct(1))
  show "ne_queue (net_after (upd_seg i f s) N) k = ne_queue (net_after s N) k \<and>
        ne_opening (net_after (upd_seg i f s) N) k = ne_opening (net_after s N) k \<and>
        (\<forall>ch. sh_stall_channel (seg_at s k) = Some ch \<longrightarrow> ne_stalled (net_after (upd_seg i f s) N) ch)"
    if "k < length (so_segments s)" "k \<noteq> i" for k
    using downloading_seg [OF d that(1)] by (simp add: seg_ok_def seg_waits_ok_def)
qed (use assms(3-6) in simp_all)

lemma downloading_upd_pipe [simp]: "downloading R P N (upd_pipe ch f s) = downloading R P N s"
  by (simp add: downloading_def stalls_distinct_def conns_ok_def)

end
