(* ===== verification/Sftp_Segment_Download.thy ===== *)
theory Sftp_Segment_Download
  imports Sftp_Segment_Net
begin

text \<open>
  The handlers of a segmented download that keep it downloading: requests, buffers, opening, data
  and migration to another connection.
\<close>

subsection \<open>Requests\<close>

lemma upd_seg_add_call: "upd_seg i f (add_call c s) = add_call c (upd_seg i f s)"
  by (simp add: upd_seg_def add_call_def seg_at_def)

lemma upd_seg_twice: "i < length (so_segments s) \<Longrightarrow> upd_seg i f (upd_seg i g s) = upd_seg i (\<lambda>x. f (g x)) s"
  by (simp add: upd_seg_def seg_at_def)

lemma next_request_segment_some:
  assumes "next_request_segment ch s = (Some idx, s1)"
  shows "idx < length (so_segments s)" "may_request ch (seg_at s idx)" "\<exists>f. s1 = upd_pipe ch f s"
proof -
  let ?l = "map (\<lambda>i. (pp_next_segment (pipe_of s ch) + i) mod length (so_segments s)) [0..<length (so_segments s)]"
  have f: "find (\<lambda>idx. may_request ch (seg_at s idx)) ?l = Some idx" and s1: "\<exists>f. s1 = upd_pipe ch f s"
    using assms by (auto simp: next_request_segment_def Let_def split: option.splits)
  then have "may_request ch (seg_at s idx)" "idx \<in> set ?l" by (auto simp: find_Some_iff in_set_conv_nth)
  moreover have "idx < length (so_segments s)" using \<open>idx \<in> set ?l\<close> by (cases "so_segments s = []") auto
  ultimately show "idx < length (so_segments s)" "may_request ch (seg_at s idx)" "\<exists>f. s1 = upd_pipe ch f s"
    using s1 by blast+
qed

lemma next_request_segment_none: "next_request_segment ch s = (None, s1) \<Longrightarrow> s1 = s"
  by (auto simp: next_request_segment_def Let_def split: option.splits)

text \<open>A read request asks for a piece of the segment's range that no request asked for before.\<close>

lemma send_read_ok:
  assumes d: "downloading R P N s" and idx: "idx < length (so_segments s)" and may: "may_request ch (seg_at s idx)"
  shows "downloading R P N (send_read ch idx s)"
    "\<exists>n. so_calls (send_read ch idx s) = so_calls s @ [Read_call ch idx (sh_request_offset (seg_at s idx)) n] \<and>
       0 < n \<and> n \<le> blocksize \<and> sh_offset (seg_at s idx) \<le> sh_request_offset (seg_at s idx) \<and>
       sh_request_offset (seg_at s idx) + n \<le> sh_offset (seg_at s idx) + sh_length (seg_at s idx)"
proof -
  let ?g = "seg_at s idx"
  let ?n = "min blocksize (sh_offset ?g + sh_length ?g - sh_request_offset ?g)"
  let ?f = "\<lambda>g. g\<lparr>sh_outstanding := sh_outstanding g @ [?n], sh_request_offset := sh_request_offset g + ?n\<rparr>"
  let ?c = "Read_call ch idx (sh_request_offset ?g) ?n"
  note g = downloading_seg [OF d idx]
  have range: "0 \<le> sh_offset ?g" "sh_offset ?g + sh_length ?g < 2 ^ 63" "0 \<le> sh_received ?g" "0 \<le> sh_length ?g"
    using g downloading_simple(6) [OF d] by (auto simp: seg_ok_def seg_range_ok_def)
  have tl: "tiles (sh_offset ?g + sh_received ?g) (ne_queue (net_after s N) idx) (sh_request_offset ?g)"
    using g by (simp add: seg_ok_def seg_requests_ok_def)
  then have lo: "sh_offset ?g \<le> sh_request_offset ?g" using tiles_le [OF tl] range by simp
  have less: "sh_request_offset ?g < sh_offset ?g + sh_length ?g" using may range by (simp add: may_request_def)
  have n: "0 < ?n" "?n \<le> blocksize" "sh_request_offset ?g + ?n \<le> sh_offset ?g + sh_length ?g"
    using less by (auto simp: blocksize_def)
  have u: "u64 (sh_offset ?g + sh_length ?g - sh_request_offset ?g) = sh_offset ?g + sh_length ?g - sh_request_offset ?g"
    "u64 (sh_request_offset ?g + ?n) = sh_request_offset ?g + ?n" using less lo range n by (auto intro!: u64_id)
  have eq: "upd_seg idx (\<lambda>g. g\<lparr>sh_request_offset := u64 (sh_request_offset g + ?n)\<rparr>)
      (upd_seg idx (\<lambda>g. g\<lparr>sh_outstanding := sh_outstanding g @ [?n]\<rparr>) s) = upd_seg idx ?f s"
    unfolding upd_seg_twice [OF idx] using u(2) idx by (simp add: upd_seg_def seg_at_def)
  have send: "\<exists>p. send_read ch idx s = upd_pipe ch p (add_call ?c (upd_seg idx ?f s))"
    unfolding send_read_def Let_def u(1) upd_seg_add_call eq [symmetric] by blast
  have ok: "seg_ok R (P idx) (net_after (add_call ?c (upd_seg idx ?f s)) N) idx (?f ?g)"
    using g n may tl by (auto simp: seg_ok_defs may_request_def)
  have "downloading R P N (add_call ?c (upd_seg idx ?f s))"
  proof (rule downloading_upd_net [OF d idx, where f = ?f])
    show "seg_ok R (P idx) (net_after (add_call ?c (upd_seg idx ?f s)) N) idx (?f ?g)" by (rule ok)
    show "has_channel s (sh_conn (?f ?g))" "\<forall>j. sh_conn (?f ?g) = Some j \<longrightarrow> j < length (so_conns s)"
      using downloading_simple(5) [OF d] idx by (auto simp: conns_ok_def)
    show "sh_stall_channel (?f ?g) \<noteq> Some c"
      if "k < length (so_segments s)" "k \<noteq> idx" "sh_stall_channel (seg_at s k) = Some c" for k c
      using that downloading_simple(4) [OF d] idx unfolding stalls_distinct_def by fastforce
    show "ne_queue (net_after (add_call ?c (upd_seg idx ?f s)) N) k = ne_queue (net_after s N) k \<and>
        ne_opening (net_after (add_call ?c (upd_seg idx ?f s)) N) k = ne_opening (net_after s N) k \<and>
        (\<forall>ch'. sh_stall_channel (seg_at s k) = Some ch' \<longrightarrow> ne_stalled (net_after (add_call ?c (upd_seg idx ?f s)) N) ch')"
      if "k < length (so_segments s)" "k \<noteq> idx" for k
      using that downloading_seg [OF d that(1)] by (simp add: seg_ok_def seg_waits_ok_def)
  qed (auto simp: seg_at_def add_call_def)
  with send show "downloading R P N (send_read ch idx s)" by auto
  from send have "so_calls (send_read ch idx s) = so_calls s @ [?c]" by (auto simp: add_call_def)
  then show "\<exists>n. so_calls (send_read ch idx s) = so_calls s @ [Read_call ch idx (sh_request_offset ?g) n] \<and>
       0 < n \<and> n \<le> blocksize \<and> sh_offset ?g \<le> sh_request_offset ?g \<and>
       sh_request_offset ?g + n \<le> sh_offset ?g + sh_length ?g"
    using n lo by blast
qed

lemma request_loop_downloading:
  "downloading R P N s \<Longrightarrow> downloading R P N (snd (request_loop E ch i k s))"
proof (induction E ch i k s rule: request_loop.induct)
  case (2 E ch i k s)
  show ?case
  proof (cases "e_pending E i < pp_max_pending (pipe_of s ch) \<and> e_can_send E i")
    case True
    show ?thesis
    proof (cases "next_request_segment ch s")
      case (Pair r s1)
      show ?thesis
      proof (cases r)
        case None
        then show ?thesis using True Pair next_request_segment_none 2(2) by fastforce
      next
        case (Some idx)
        note nx = next_request_segment_some [OF Pair [unfolded Some]]
        then obtain f where s1: "s1 = upd_pipe ch f s" by blast
        have "downloading R P N (send_read ch idx s1)"
          using 2(2) nx(1,2) unfolding s1 by (intro send_read_ok(1)) simp_all
        then show ?thesis using 2(1) [OF True Pair [symmetric] Some] True Pair Some by simp
      qed
    qed
  qed (use 2(2) in auto)
qed simp

lemma request_segments_downloading [intro]:
  assumes "downloading R P N s"
  shows "downloading R P N (request_segments E ch s)"
proof -
  have "downloading R P N (snd (request_loop E ch 0 2 (upd_pipe ch (measure_rtt (e_now E)) s)))"
    by (rule request_loop_downloading) (simp add: assms)
  then show ?thesis using assms by (auto simp: request_segments_def Let_def split: prod.splits)
qed

end
