(* ===== verification/Sftp_Segment_Merge.thy ===== *)
theory Sftp_Segment_Merge
  imports Sftp_Segment_Net
begin

text \<open>
  Merging the parts of a segmented download: what the loop hands to the writer of the target is
  the parts one after another, so the finished file is the remote file.
\<close>

subsection \<open>What a reader gives\<close>

fun rd_fails :: "read_result list \<Rightarrow> bool" where
  "rd_fails [] = False"
| "rd_fails (read_wait # rs) = rd_fails rs"
| "rd_fails (read_error # rs) = True"
| "rd_fails (read_data b # rs) = (b \<noteq> [] \<and> rd_fails rs)"

fun rd_bytes :: "read_result list \<Rightarrow> string" where
  "rd_bytes [] = []"
| "rd_bytes (read_wait # rs) = rd_bytes rs"
| "rd_bytes (read_error # rs) = []"
| "rd_bytes (read_data b # rs) = (if b = [] then [] else b @ rd_bytes rs)"

text \<open>The content of a part file: what it held at the start and what its writer was handed.\<close>

definition part_bytes :: "(nat \<Rightarrow> string) \<Rightarrow> segment_op \<Rightarrow> nat \<Rightarrow> string" where
  "part_bytes P s k = P k @ sh_written (seg_at s k)"

text \<open>A reader of a part fails or gives the content of the part.\<close>

definition readers_ok :: "library_env \<Rightarrow> (nat \<Rightarrow> string) \<Rightarrow> segment_op \<Rightarrow> bool" where
  "readers_ok E P s \<longleftrightarrow>
     (\<forall>k < length (so_segments s). \<forall>rs. e_part E k = Some rs \<longrightarrow> rd_fails rs \<or> rd_bytes rs = part_bytes P s k)"

subsection \<open>The invariant\<close>

definition segs_complete :: "string \<Rightarrow> (nat \<Rightarrow> string) \<Rightarrow> segment_net \<Rightarrow> segment_op \<Rightarrow> bool" where
  "segs_complete R P N s \<longleftrightarrow>
     tiles 0 (plan_ranges (so_segments s)) (int (length R)) \<and>
     so_remoteFileSize s = int (length R) \<and> int (length R) < 2 ^ 63 \<and>
     (\<forall>i < length (so_segments s).
        sh_done (seg_at s i) \<and> \<not> sh_writer (seg_at s i) \<and> sh_buffer (seg_at s i) = None \<and>
        ne_queue (net_after s N) i = [] \<and> \<not> ne_opening (net_after s N) i \<and>
        part_bytes P s i = slice R (sh_offset (seg_at s i)) (sh_length (seg_at s i)))"

definition merged_bytes :: "(nat \<Rightarrow> string) \<Rightarrow> segment_op \<Rightarrow> nat \<Rightarrow> string" where
  "merged_bytes P s k = concat (map (part_bytes P s) [0..<k])"

definition merge_progress :: "(nat \<Rightarrow> string) \<Rightarrow> segment_op \<Rightarrow> bool" where
  "merge_progress P s \<longleftrightarrow>
     so_buffer s = None \<and> so_concat_part s \<le> length (so_segments s) \<and>
     so_concat_received s = u64 (int (length (concat (so_target s)))) \<and>
     (case so_reader s of
        None \<Rightarrow> concat (so_target s) = merged_bytes P s (so_concat_part s)
      | Some rs \<Rightarrow> rd_fails rs \<or> concat (so_target s) @ rd_bytes rs = merged_bytes P s (so_concat_part s))"

definition merging :: "string \<Rightarrow> (nat \<Rightarrow> string) \<Rightarrow> segment_net \<Rightarrow> segment_op \<Rightarrow> bool" where
  "merging R P N s \<longleftrightarrow> so_state s = filetransfer_concat \<and> segs_complete R P N s \<and>
     (if so_concat_finalizing s then concat (so_target s) = R
      else so_resets s = [] \<and> merge_progress P s)"

definition failed :: "segment_op \<Rightarrow> bool" where
  "failed s \<longleftrightarrow> so_resets s \<noteq> [] \<and> hd (so_resets s) \<noteq> reply_ok"

lemma complete_bytes:
  assumes "segs_complete R P N s"
  shows "merged_bytes P s (length (so_segments s)) = R"
proof -
  let ?rs = "plan_ranges (so_segments s)"
  have "map (part_bytes P s) [0..<length (so_segments s)] = map (\<lambda>(off, n). slice R off n) ?rs"
    using assms by (auto simp: segs_complete_def plan_ranges_def seg_at_def intro!: nth_equalityI)
  then show ?thesis using tiles_slices [of 0 ?rs "int (length R)" R] assms
    by (simp add: merged_bytes_def segs_complete_def)
qed

lemma segs_complete_cong:
  assumes "segs_complete R P N s" "so_segments t = so_segments s" "so_remoteFileSize t = so_remoteFileSize s"
    "so_calls t = so_calls s"
  shows "segs_complete R P N t"
  using assms by (simp add: segs_complete_def part_bytes_def seg_at_def net_after_def)

lemma merged_bytes_cong: "so_segments t = so_segments s \<Longrightarrow> merged_bytes P t = merged_bytes P s"
  by (simp add: merged_bytes_def part_bytes_def [abs_def] seg_at_def fun_eq_iff)

lemma readers_ok_cong: "so_segments t = so_segments s \<Longrightarrow> readers_ok E P t = readers_ok E P s"
  by (simp add: readers_ok_def part_bytes_def seg_at_def)

subsection \<open>The loop\<close>

text \<open>What one step of the loop leaves alone.\<close>

definition same_parts :: "segment_op \<Rightarrow> segment_op \<Rightarrow> bool" where
  "same_parts s t \<longleftrightarrow> so_segments t = so_segments s \<and> so_remoteFileSize t = so_remoteFileSize s \<and>
     so_calls t = so_calls s \<and> so_state t = so_state s"

lemma same_parts_refl [simp]: "same_parts s s"
  by (simp add: same_parts_def)

lemma same_parts_trans: "same_parts s t \<Longrightarrow> same_parts t u \<Longrightarrow> same_parts s u"
  by (simp add: same_parts_def)

lemma concat_add_same: "same_parts s (snd (concat_add E b s))"
  by (auto simp: concat_add_def same_parts_def Let_def trigger_reset_def split: aio_result.splits)

lemma concat_read_same: "same_parts s (snd (concat_read E rs s))"
proof (cases "so_buffer s")
  case None
  have "same_parts s (snd (concat_add E b (s\<lparr>so_reader := r\<rparr>)))" for b r
    using concat_add_same [of "s\<lparr>so_reader := r\<rparr>" E b] by (simp add: same_parts_def)
  moreover have "same_parts s (s\<lparr>so_reader := r\<rparr>)" for r by (simp add: same_parts_def)
  ultimately show ?thesis using None
    by (auto simp: concat_read_def Let_def same_parts_def trigger_reset_def split: list.splits read_result.splits)
qed (use concat_add_same in \<open>auto simp: concat_read_def\<close>)

lemma concat_finalize_same: "same_parts s (concat_finalize E s)"
  by (auto simp: concat_finalize_def same_parts_def Let_def trigger_reset_def split: aio_result.splits)

lemma concat_iteration_same: "same_parts s (snd (concat_iteration E s))"
proof (cases "so_reader s")
  case None
  have "same_parts s (snd (concat_read E rs (s\<lparr>so_reader := Some rs, so_concat_part := so_concat_part s + 1\<rparr>)))" for rs
    using concat_read_same [of "s\<lparr>so_reader := Some rs, so_concat_part := so_concat_part s + 1\<rparr>" E rs]
    by (simp add: same_parts_def)
  then show ?thesis using None concat_finalize_same
    by (auto simp: concat_iteration_def same_parts_def trigger_reset_def split: option.splits)
qed (use concat_read_same in \<open>simp add: concat_iteration_def\<close>)

lemma concat_pump_same: "same_parts s (concat_pump E s)"
proof (induction E s rule: concat_pump.induct)
  case (1 E s)
  obtain go s' where it: "concat_iteration E s = (go, s')" by force
  have s': "same_parts s s'" using concat_iteration_same [of s E] it by simp
  show ?case
  proof (cases "so_state s = filetransfer_concat \<and> \<not> so_concat_finalizing s \<and> go")
    case True
    then have "same_parts s' (concat_pump E s')" using 1 it by simp
    then have "same_parts s (concat_pump E s')" by (rule same_parts_trans [OF s'])
    then show ?thesis using True it by (subst concat_pump.simps) simp
  next
    case False
    then show ?thesis using s' it by (subst concat_pump.simps) auto
  qed
qed

lemma merged_bytes_Suc: "merged_bytes P s (Suc k) = merged_bytes P s k @ part_bytes P s k"
  by (simp add: merged_bytes_def)

definition merge_outcome :: "string \<Rightarrow> (nat \<Rightarrow> string) \<Rightarrow> segment_net \<Rightarrow> bool \<Rightarrow> segment_op \<Rightarrow> bool" where
  "merge_outcome R P N go s \<longleftrightarrow>
     merging R P N s \<and> (go \<longrightarrow> \<not> so_concat_finalizing s) \<or> \<not> go \<and> failed s"

lemma concat_add_ok:
  assumes "so_state s = filetransfer_concat" "segs_complete R P N s" "\<not> so_concat_finalizing s" "so_resets s = []"
    "so_concat_part s \<le> length (so_segments s)" "so_concat_received s = u64 (int (length (concat (so_target s))))"
    "so_reader s = Some rs" "rd_fails rs \<or> (concat (so_target s) @ b) @ rd_bytes rs = merged_bytes P s (so_concat_part s)"
  shows "merge_outcome R P N (fst (concat_add E b s)) (snd (concat_add E b s))"
proof -
  let ?s = "s\<lparr>so_concat_received := u64 (so_concat_received s + int (length b)), so_target := so_target s @ [b], so_buffer := None\<rparr>"
  have c: "segs_complete R P N ?s" by (rule segs_complete_cong [OF assms(2)]) simp_all
  have mb [simp]: "merged_bytes P (s\<lparr>so_concat_received := x, so_target := y, so_buffer := z\<rparr>) = merged_bytes P s" for x y z
    by (rule merged_bytes_cong) simp
  have "u64 (so_concat_received s + int (length b)) = u64 (int (length (concat (so_target s @ [b]))))"
    by (simp add: assms(6) u64_def mod_add_left_eq)
  then have "merging R P N ?s" using assms c by (simp add: merging_def merge_progress_def)
  moreover have "failed (trigger_reset reply_writefailed ?s)" using assms(4)
    by (simp add: failed_def reply_defs)
  ultimately show ?thesis using assms(3)
    by (auto simp: concat_add_def Let_def merge_outcome_def split: aio_result.splits)
qed

lemma concat_read_ok:
  assumes "so_state s = filetransfer_concat" "segs_complete R P N s" "\<not> so_concat_finalizing s" "so_resets s = []"
    "so_concat_part s \<le> length (so_segments s)" "so_concat_received s = u64 (int (length (concat (so_target s))))"
    "so_buffer s = None" "rd_fails rs \<or> concat (so_target s) @ rd_bytes rs = merged_bytes P s (so_concat_part s)"
  shows "merge_outcome R P N (fst (concat_read E rs s)) (snd (concat_read E rs s))"
proof -
  have mb [simp]: "merged_bytes P (s\<lparr>so_reader := r\<rparr>) = merged_bytes P s" for r by (rule merged_bytes_cong) simp
  have c [simp]: "segs_complete R P N (s\<lparr>so_reader := r\<rparr>)" for r by (rule segs_complete_cong [OF assms(2)]) simp_all
  have end_reader: "merging R P N (s\<lparr>so_reader := None\<rparr>)" if "rd_bytes rs = []" "\<not> rd_fails rs"
    using assms that by (simp add: merging_def merge_progress_def)
  show ?thesis
  proof (cases rs)
    case Nil
    then show ?thesis using assms(3,7) end_reader by (simp add: concat_read_def merge_outcome_def)
  next
    case (Cons r rs')
    show ?thesis
    proof (cases r)
      case read_wait
      have "merging R P N (s\<lparr>so_reader := Some rs'\<rparr>)" using assms Cons read_wait
        by (simp add: merging_def merge_progress_def)
      then show ?thesis using Cons read_wait assms(7) by (simp add: concat_read_def Let_def merge_outcome_def)
    next
      case read_error
      then show ?thesis using Cons assms(4,7)
        by (simp add: concat_read_def Let_def merge_outcome_def failed_def reply_defs)
    next
      case (read_data b)
      show ?thesis
      proof (cases "b = []")
        case True
        then show ?thesis using Cons read_data assms(3,7) end_reader
          by (simp add: concat_read_def Let_def merge_outcome_def)
      next
        case False
        have "merge_outcome R P N (fst (concat_add E b (s\<lparr>so_reader := Some rs'\<rparr>))) (snd (concat_add E b (s\<lparr>so_reader := Some rs'\<rparr>)))"
          by (rule concat_add_ok [where rs = rs']) (use assms Cons read_data False in simp_all)
        then show ?thesis using Cons read_data False assms(7) by (simp add: concat_read_def Let_def)
      qed
    qed
  qed
qed

lemma concat_finalize_ok:
  assumes "so_state s = filetransfer_concat" "segs_complete R P N s" "concat (so_target s) = R"
  shows "merging R P N (concat_finalize E s)"
proof -
  have "segs_complete R P N (concat_finalize E s)"
    using segs_complete_cong [OF assms(2)] concat_finalize_same [of s E] by (simp add: same_parts_def)
  moreover have "so_concat_finalizing (concat_finalize E s)" "so_target (concat_finalize E s) = so_target s"
    by (auto simp: concat_finalize_def Let_def trigger_reset_def split: aio_result.splits)
  ultimately show ?thesis using assms(1,3) concat_finalize_same [of s E] by (simp add: merging_def same_parts_def)
qed

lemma concat_iteration_ok:
  assumes m: "merging R P N s" "\<not> so_concat_finalizing s" and r: "readers_ok E P s"
  shows "merge_outcome R P N (fst (concat_iteration E s)) (snd (concat_iteration E s))"
proof -
  have c: "segs_complete R P N s" and st: "so_state s = filetransfer_concat" "so_resets s = []" and pr: "merge_progress P s"
    using m by (simp_all add: merging_def)
  show ?thesis
  proof (cases "so_reader s")
    case (Some rs)
    then show ?thesis using concat_read_ok [OF st(1) c m(2) st(2), of rs E] pr
      by (simp add: concat_iteration_def merge_progress_def)
  next
    case None
    show ?thesis
    proof (cases "so_concat_part s \<ge> length (so_segments s)")
      case True
      have "concat (so_target s) = R" using pr None True complete_bytes [OF c] by (simp add: merge_progress_def)
      then show ?thesis using True None concat_finalize_ok [OF st(1) c] st(2)
        by (auto simp: concat_iteration_def merge_outcome_def failed_def reply_defs)
    next
      case False
      show ?thesis
      proof (cases "e_part E (so_concat_part s)")
        case None
        then show ?thesis using False \<open>so_reader s = None\<close> st(2)
          by (simp add: concat_iteration_def merge_outcome_def failed_def reply_defs)
      next
        case (Some rs)
        let ?s = "s\<lparr>so_reader := Some rs, so_concat_part := so_concat_part s + 1\<rparr>"
        have mb: "merged_bytes P (s\<lparr>so_reader := r, so_concat_part := p\<rparr>) = merged_bytes P s" for r p
          by (rule merged_bytes_cong) simp
        have pb: "part_bytes P (s\<lparr>so_reader := r, so_concat_part := p\<rparr>) k = part_bytes P s k" for r p k
          by (simp add: part_bytes_def seg_at_def)
        have "segs_complete R P N ?s" by (rule segs_complete_cong [OF c]) simp_all
        moreover have "rd_fails rs \<or> rd_bytes rs = part_bytes P s (so_concat_part s)"
          using r Some False by (auto simp: readers_ok_def)
        ultimately have "merge_outcome R P N (fst (concat_read E rs ?s)) (snd (concat_read E rs ?s))"
          using pr False \<open>so_reader s = None\<close> st m(2)
          by (intro concat_read_ok) (auto simp: merge_progress_def mb pb merged_bytes_Suc)
        then show ?thesis using Some False \<open>so_reader s = None\<close> by (simp add: concat_iteration_def)
      qed
    qed
  qed
qed

lemma concat_pump_ok:
  assumes "merging R P N s" "readers_ok E P s"
  shows "merging R P N (concat_pump E s) \<or> failed (concat_pump E s)"
  using assms
proof (induction E s rule: concat_pump.induct)
  case (1 E s)
  show ?case
  proof (cases "so_state s = filetransfer_concat \<and> \<not> so_concat_finalizing s")
    case True
    obtain go s' where it: "concat_iteration E s = (go, s')" by force
    have out: "merge_outcome R P N go s'" using concat_iteration_ok [of R P N s E] 1(2,3) True it by simp
    show ?thesis
    proof (cases go)
      case go: True
      have "readers_ok E P s'" using 1(3) concat_iteration_same [of s E] it readers_ok_cong [of s' s E P]
        by (simp add: same_parts_def)
      then have "merging R P N (concat_pump E s') \<or> failed (concat_pump E s')"
        using 1(1) [OF True it [symmetric] go] out go by (simp add: merge_outcome_def)
      then show ?thesis using True it go by (subst (1 2) concat_pump.simps) simp
    next
      case False
      then show ?thesis using True it out by (subst (1 2) concat_pump.simps) (auto simp: merge_outcome_def)
    qed
  next
    case False
    then show ?thesis using 1(2) by (subst (1 2) concat_pump.simps) auto
  qed
qed

subsection \<open>Resets only accumulate\<close>

definition resets_grow :: "segment_op \<Rightarrow> segment_op \<Rightarrow> bool" where
  "resets_grow s t \<longleftrightarrow> (\<exists>rs. so_resets t = so_resets s @ rs)"

lemma resets_grow_refl [simp]: "so_resets t = so_resets s \<Longrightarrow> resets_grow s t"
  by (simp add: resets_grow_def)

lemma resets_grow_trigger [simp]: "resets_grow s t \<Longrightarrow> resets_grow s (trigger_reset r t)"
  by (auto simp: resets_grow_def)

lemma resets_grow_trans: "resets_grow s t \<Longrightarrow> resets_grow t u \<Longrightarrow> resets_grow s u"
  by (auto simp: resets_grow_def)

lemma failed_grow: "failed s \<Longrightarrow> resets_grow s t \<Longrightarrow> failed t"
  by (auto simp: failed_def resets_grow_def)

lemma concat_finalize_grow [simp]: "resets_grow s (concat_finalize E s)"
  by (auto simp: concat_finalize_def Let_def split: aio_result.splits)

lemma concat_add_grow: "so_resets t = so_resets s \<Longrightarrow> resets_grow s (snd (concat_add E b t))"
  by (auto simp: concat_add_def Let_def split: aio_result.splits)

lemma concat_read_grow: "so_resets t = so_resets s \<Longrightarrow> resets_grow s (snd (concat_read E rs t))"
  by (auto simp: concat_read_def Let_def concat_add_grow split: option.splits list.splits read_result.splits)

lemma concat_iteration_grow: "resets_grow s (snd (concat_iteration E s))"
  by (auto simp: concat_iteration_def concat_read_grow split: option.splits)

lemma concat_pump_grow [simp]: "resets_grow s (concat_pump E s)"
proof (induction E s rule: concat_pump.induct)
  case (1 E s)
  obtain go s' where it: "concat_iteration E s = (go, s')" by force
  have s': "resets_grow s s'" using concat_iteration_grow [of s E] it by simp
  show ?case
  proof (cases "so_state s = filetransfer_concat \<and> \<not> so_concat_finalizing s \<and> go")
    case True
    then have "resets_grow s' (concat_pump E s')" using 1 it by simp
    then have "resets_grow s (concat_pump E s')" by (rule resets_grow_trans [OF s'])
    then show ?thesis using True it by (subst concat_pump.simps) simp
  next
    case False
    then show ?thesis using s' it by (subst concat_pump.simps) auto
  qed
qed

subsection \<open>The start of the merge\<close>

lemma close_handle_frame:
  "length (so_segments (close_handle i s)) = length (so_segments s)"
  "so_resets (close_handle i s) = so_resets s" "so_state (close_handle i s) = so_state s"
  "so_concat_finalizing (close_handle i s) = so_concat_finalizing s"
  "so_reader (close_handle i s) = so_reader s" "so_buffer (close_handle i s) = so_buffer s"
  "so_seg_failed (close_handle i s) = so_seg_failed s"
  by (simp_all add: close_handle_def Let_def)

lemma close_handle_complete:
  assumes "segs_complete R P N s" "i < length (so_segments s)"
  shows "segs_complete R P N (close_handle i s)"
proof -
  have same: "segs_complete R P N (upd_seg i (\<lambda>g. g\<lparr>sh_handle := []\<rparr>) t)"
    if t: "segs_complete R P N t" "i < length (so_segments t)" for t
  proof -
    have "plan_ranges (so_segments (upd_seg i (\<lambda>g. g\<lparr>sh_handle := []\<rparr>) t)) = plan_ranges (so_segments t)"
      by (rule plan_ranges_upd) (use t(2) in simp_all)
    then show ?thesis using t by (simp add: segs_complete_def part_bytes_def seg_at_upd_if del: seg_at_upd)
  qed
  have "segs_complete R P N (add_call (Close_call ch h) s)" for ch h
    using assms(1) by (simp add: segs_complete_def part_bytes_def)
  then show ?thesis using same assms by (simp add: close_handle_def Let_def)
qed

lemma foldl_close_handle:
  "segs_complete R P N s \<Longrightarrow> \<forall>i \<in> set is. i < length (so_segments s) \<Longrightarrow>
     segs_complete R P N (foldl (\<lambda>s i. close_handle i s) s is)"
proof (induction "is" arbitrary: s)
  case (Cons i "is")
  then show ?case by (simp add: close_handle_complete close_handle_frame)
qed simp

lemma foldl_close_handle_frame:
  "length (so_segments (foldl (\<lambda>s i. close_handle i s) s is)) = length (so_segments s)"
  "so_resets (foldl (\<lambda>s i. close_handle i s) s is) = so_resets s"
  "so_state (foldl (\<lambda>s i. close_handle i s) s is) = so_state s"
  "so_concat_finalizing (foldl (\<lambda>s i. close_handle i s) s is) = so_concat_finalizing s"
  "so_reader (foldl (\<lambda>s i. close_handle i s) s is) = so_reader s"
  "so_buffer (foldl (\<lambda>s i. close_handle i s) s is) = so_buffer s"
  by (induction "is" arbitrary: s) (simp_all add: close_handle_frame)

lemma close_handle_written: "sh_written (seg_at (close_handle i s) k) = sh_written (seg_at s k)"
proof -
  have "sh_written (seg_at (upd_seg i (\<lambda>g. g\<lparr>sh_handle := []\<rparr>) t) k) = sh_written (seg_at t k)" for t
    by (cases "i < length (so_segments t)"; cases "k = i") (auto simp: seg_at_def upd_seg_def list_update_beyond)
  then show ?thesis by (simp add: close_handle_def Let_def)
qed

lemma foldl_close_handle_written:
  "sh_written (seg_at (foldl (\<lambda>s i. close_handle i s) s is) k) = sh_written (seg_at s k)"
  by (induction "is" arbitrary: s) (simp_all add: close_handle_written)

text \<open>The parts that the merge reads are those of the state it ends in: it does not write them.\<close>

lemma start_concat_parts:
  "length (so_segments (start_concat E s)) = length (so_segments s)"
  "part_bytes P (start_concat E s) k = part_bytes P s k"
proof -
  let ?s = "foldl (\<lambda>s i. close_handle i s) (s\<lparr>so_state := filetransfer_concat\<rparr>) [0..<length (so_segments s)]"
  let ?t = "?s\<lparr>so_writer := True, so_target := [], so_concat_part := 0, so_concat_received := 0\<rparr>"
  have "so_segments (concat_pump E ?t) = so_segments ?s" using concat_pump_same [of ?t E] by (simp add: same_parts_def)
  then have segs: "so_segments (start_concat E s) = so_segments ?s" by (simp add: start_concat_def Let_def)
  show "length (so_segments (start_concat E s)) = length (so_segments s)"
    unfolding segs by (simp add: foldl_close_handle_frame)
  have "sh_written (seg_at ?s k) = sh_written (seg_at s k)"
    using foldl_close_handle_written [of "s\<lparr>so_state := filetransfer_concat\<rparr>" "[0..<length (so_segments s)]" k]
    by (simp add: seg_at_def)
  then show "part_bytes P (start_concat E s) k = part_bytes P s k" using segs by (simp add: part_bytes_def seg_at_def)
qed

lemma start_concat_ok:
  assumes c: "segs_complete R P N s" and st: "so_resets s = []" "\<not> so_concat_finalizing s" "so_reader s = None" "so_buffer s = None"
    and r: "readers_ok E P (start_concat E s)"
  shows "merging R P N (start_concat E s) \<or> failed (start_concat E s)"
proof -
  let ?a = "s\<lparr>so_state := filetransfer_concat\<rparr>"
  let ?s = "foldl (\<lambda>s i. close_handle i s) ?a [0..<length (so_segments s)]"
  let ?t = "?s\<lparr>so_writer := True, so_target := [], so_concat_part := 0, so_concat_received := 0\<rparr>"
  have "segs_complete R P N ?a" by (rule segs_complete_cong [OF c]) simp_all
  then have "segs_complete R P N ?s" by (rule foldl_close_handle) simp
  then have "segs_complete R P N ?t" by (rule segs_complete_cong) simp_all
  then have m: "merging R P N ?t"
    using st by (simp add: merging_def merge_progress_def foldl_close_handle_frame merged_bytes_def)
  show ?thesis
  proof (cases "e_open_target E")
    case True
    then have eq: "start_concat E s = concat_pump E ?t" by (simp add: start_concat_def Let_def)
    then have "readers_ok E P ?t" using r concat_pump_same [of ?t E] readers_ok_cong [of "concat_pump E ?t" ?t E P]
      by (simp add: same_parts_def)
    then show ?thesis using concat_pump_ok [OF m] unfolding eq by blast
  next
    case False
    then show ?thesis using st(1) by (simp add: start_concat_def Let_def failed_def foldl_close_handle_frame reply_defs)
  qed
qed

lemma start_concat_grow: "so_resets t = so_resets s \<Longrightarrow> resets_grow s (start_concat E t)"
proof -
  assume t: "so_resets t = so_resets s"
  let ?s = "foldl (\<lambda>s i. close_handle i s) (t\<lparr>so_state := filetransfer_concat\<rparr>) [0..<length (so_segments t)]"
  let ?t = "?s\<lparr>so_writer := True, so_target := [], so_concat_part := 0, so_concat_received := 0\<rparr>"
  have "resets_grow s ?t" using t by (simp add: foldl_close_handle_frame)
  then have "resets_grow s (concat_pump E ?t)" using concat_pump_grow by (rule resets_grow_trans)
  then show "resets_grow s (start_concat E t)"
    using t by (auto simp: start_concat_def Let_def foldl_close_handle_frame)
qed

end
