(* ===== verification/Sftp_Segment_Steps.thy ===== *)
theory Sftp_Segment_Steps
  imports Sftp_Segment_Download Sftp_Segment_Merge
begin

text \<open>
  Every event handler of a segmented download leads from a state that is downloading to one that
  is downloading, merging or failed.
\<close>

definition transfer_phase :: "string \<Rightarrow> (nat \<Rightarrow> string) \<Rightarrow> segment_net \<Rightarrow> segment_op \<Rightarrow> bool" where
  "transfer_phase R P N s \<longleftrightarrow> downloading R P N s \<or> merging R P N s \<or> failed s"

lemma transfer_phase_intros [intro]:
  "downloading R P N s \<Longrightarrow> transfer_phase R P N s" "merging R P N s \<Longrightarrow> transfer_phase R P N s"
  "failed s \<Longrightarrow> transfer_phase R P N s" "merging R P N s \<or> failed s \<Longrightarrow> transfer_phase R P N s"
  by (auto simp: transfer_phase_def)

lemma fail_segments_failed: "so_resets s = [] \<Longrightarrow> r \<noteq> reply_ok \<Longrightarrow> failed (fail_segments r s)"
  by (simp add: failed_def)

lemma fail_replies [simp]: "reply_error \<noteq> reply_ok" "reply_writefailed \<noteq> reply_ok" "reply_criticalerror \<noteq> reply_ok"
  by (simp_all add: reply_defs)

subsection \<open>Buffers\<close>

lemma buffer_ready:
  assumes "seg_ok R p N i g" "sh_writer g" "\<not> sh_finalizing g" "\<not> sh_done g" "sh_waits g = None"
  shows "seg_ok R p N i ((writer_add aio_ok g)\<lparr>sh_buffer := Some []\<rparr>)"
proof -
  have "sh_written g @ (case sh_buffer g of None \<Rightarrow> [] | Some b \<Rightarrow> b) = sh_written g @ buffer_bytes g"
    by (simp add: buffer_bytes_def)
  then show ?thesis using assms by (auto simp: seg_ok_defs writer_add_def)
qed

lemma buffer_waits:
  assumes "seg_ok R p N i g" "sh_writer g" "\<not> sh_finalizing g" "\<not> sh_done g"
    "sh_outstanding g = [] \<or> sh_stall_channel g = Some (sh_conn g)"
  shows "seg_ok R p N i ((writer_add r g)\<lparr>sh_waits := Some w\<rparr>)"
proof -
  have "sh_written g @ (case sh_buffer g of None \<Rightarrow> [] | Some b \<Rightarrow> b) = sh_written g @ buffer_bytes g"
    by (simp add: buffer_bytes_def)
  then show ?thesis using assms by (auto simp: seg_ok_defs writer_add_def)
qed

lemma get_next_segment_buffer_ok:
  assumes d: "downloading R P N s" and i: "i < length (so_segments s)"
    and g: "sh_writer (seg_at s i)" "\<not> sh_finalizing (seg_at s i)" "\<not> sh_done (seg_at s i)" "sh_waits (seg_at s i) = None"
    and st: "fst (get_next_segment_buffer E i s) = aio_wait \<Longrightarrow>
      sh_outstanding (seg_at s i) = [] \<or> sh_stall_channel (seg_at s i) = Some (sh_conn (seg_at s i))"
  shows "fst (get_next_segment_buffer E i s) = aio_error \<Longrightarrow> failed (snd (get_next_segment_buffer E i s))"
    "fst (get_next_segment_buffer E i s) \<noteq> aio_error \<Longrightarrow> downloading R P N (snd (get_next_segment_buffer E i s))"
    "fst (get_next_segment_buffer E i s) = aio_ok \<Longrightarrow>
       sh_buffer (seg_at (snd (get_next_segment_buffer E i s)) i) = Some [] \<and>
       sh_stall_channel (seg_at (snd (get_next_segment_buffer E i s)) i) = sh_stall_channel (seg_at s i)"
    "length (so_segments (snd (get_next_segment_buffer E i s))) = length (so_segments s)"
proof -
  note ok = downloading_seg [OF d i]
  have ready: "downloading R P N (upd_seg i (\<lambda>g. (writer_add aio_ok g)\<lparr>sh_buffer := Some []\<rparr>) s)"
    by (rule downloading_upd [OF d i]) (use buffer_ready [OF ok g] in \<open>simp_all add: writer_add_def\<close>)
  have waits: "downloading R P N (upd_seg i (\<lambda>g. (writer_add r g)\<lparr>sh_waits := Some w\<rparr>) s)"
    if "sh_outstanding (seg_at s i) = [] \<or> sh_stall_channel (seg_at s i) = Some (sh_conn (seg_at s i))" for r w
    by (rule downloading_upd [OF d i]) (use buffer_waits [OF ok g(1-3) that] in \<open>simp_all add: writer_add_def\<close>)
  have add_waits: "upd_seg i (writer_add aio_wait) s = upd_seg i (\<lambda>g. (writer_add aio_wait g)\<lparr>sh_waits := Some on_writer\<rparr>) s"
    by (simp add: upd_seg_def writer_add_def)
  show "fst (get_next_segment_buffer E i s) = aio_error \<Longrightarrow> failed (snd (get_next_segment_buffer E i s))"
    using downloading_simple(3) [OF d]
    by (auto simp: get_next_segment_buffer_def Let_def fail_segments_failed split: aio_result.splits if_splits)
  show "fst (get_next_segment_buffer E i s) \<noteq> aio_error \<Longrightarrow> downloading R P N (snd (get_next_segment_buffer E i s))"
    using st ready waits
    by (auto simp: get_next_segment_buffer_def Let_def upd_seg_twice [OF i] add_waits split: aio_result.splits if_splits)
  show "fst (get_next_segment_buffer E i s) = aio_ok \<Longrightarrow>
       sh_buffer (seg_at (snd (get_next_segment_buffer E i s)) i) = Some [] \<and>
       sh_stall_channel (seg_at (snd (get_next_segment_buffer E i s)) i) = sh_stall_channel (seg_at s i)"
    using i by (auto simp: get_next_segment_buffer_def Let_def writer_add_def split: aio_result.splits if_splits)
  show "length (so_segments (snd (get_next_segment_buffer E i s))) = length (so_segments s)"
    by (auto simp: get_next_segment_buffer_def Let_def split: aio_result.splits)
qed

text \<open>Releasing and stalling the channel of a segment.\<close>

definition stall_net :: "channel \<Rightarrow> segment_net \<Rightarrow> segment_net" where
  "stall_net ch N = N\<lparr>ne_stalled := (ne_stalled N)(ch := True)\<rparr>"

lemma unblock_downloading:
  assumes d: "downloading R P N s" and i: "i < length (so_segments s)"
    and g: "sh_stall_channel (seg_at s i) = Some ch" "sh_buffer (seg_at s i) \<noteq> None"
  shows "downloading R P N (upd_seg i (\<lambda>g. g\<lparr>sh_stall_channel := None\<rparr>) (add_call (Unblock_call ch) s))"
  unfolding upd_seg_add_call
proof (rule downloading_upd_net [OF d i, where f = "\<lambda>g. g\<lparr>sh_stall_channel := None\<rparr>"])
  show "seg_ok R (P i) (net_after (add_call (Unblock_call ch) (upd_seg i (\<lambda>g. g\<lparr>sh_stall_channel := None\<rparr>) s)) N) i
      ((seg_at s i)\<lparr>sh_stall_channel := None\<rparr>)"
    using downloading_seg [OF d i] g by (auto simp: seg_ok_defs buffer_bytes_def)
  show "has_channel s (sh_conn ((seg_at s i)\<lparr>sh_stall_channel := None\<rparr>))"
    "\<forall>j. sh_conn ((seg_at s i)\<lparr>sh_stall_channel := None\<rparr>) = Some j \<longrightarrow> j < length (so_conns s)"
    using downloading_simple(5) [OF d] i by (auto simp: conns_ok_def)
  show "ne_queue (net_after (add_call (Unblock_call ch) (upd_seg i (\<lambda>g. g\<lparr>sh_stall_channel := None\<rparr>) s)) N) k =
      ne_queue (net_after s N) k \<and>
      ne_opening (net_after (add_call (Unblock_call ch) (upd_seg i (\<lambda>g. g\<lparr>sh_stall_channel := None\<rparr>) s)) N) k =
      ne_opening (net_after s N) k \<and>
      (\<forall>c. sh_stall_channel (seg_at s k) = Some c \<longrightarrow>
        ne_stalled (net_after (add_call (Unblock_call ch) (upd_seg i (\<lambda>g. g\<lparr>sh_stall_channel := None\<rparr>) s)) N) c)"
    if "k < length (so_segments s)" "k \<noteq> i" for k
  proof -
    have "sh_stall_channel (seg_at s k) \<noteq> Some ch"
      using downloading_simple(4) [OF d] that i g(1) unfolding stalls_distinct_def by (metis option.distinct(1))
    then show ?thesis using downloading_seg [OF d that(1)] by (auto simp: seg_ok_def seg_waits_ok_def)
  qed
qed (auto simp: add_call_def)

lemma stall_downloading:
  assumes d: "downloading R P N s" and i: "i < length (so_segments s)" and c: "so_calls s = []"
    and n: "\<not> ne_stalled N ch" "sh_conn (seg_at s i) = ch"
  shows "downloading R P (stall_net ch N) (upd_seg i (\<lambda>g. g\<lparr>sh_stall_channel := Some ch\<rparr>) s)"
proof (rule downloading_upd_net [OF d i, where f = "\<lambda>g. g\<lparr>sh_stall_channel := Some ch\<rparr>"])
  have net: "net_after s N = N" "net_after (upd_seg i (\<lambda>g. g\<lparr>sh_stall_channel := Some ch\<rparr>) s) (stall_net ch N) = stall_net ch N"
    using c by simp_all
  have free: "sh_stall_channel (seg_at s k) \<noteq> Some ch" if "k < length (so_segments s)" for k
    using downloading_seg [OF d that] n unfolding net by (auto simp: seg_ok_def seg_waits_ok_def)
  show "seg_ok R (P i) (net_after (upd_seg i (\<lambda>g. g\<lparr>sh_stall_channel := Some ch\<rparr>) s) (stall_net ch N)) i
      ((seg_at s i)\<lparr>sh_stall_channel := Some ch\<rparr>)"
    using downloading_seg [OF d i] n(2) unfolding net by (auto simp: seg_ok_defs stall_net_def buffer_bytes_def)
  show "has_channel s (sh_conn ((seg_at s i)\<lparr>sh_stall_channel := Some ch\<rparr>))"
    "\<forall>j. sh_conn ((seg_at s i)\<lparr>sh_stall_channel := Some ch\<rparr>) = Some j \<longrightarrow> j < length (so_conns s)"
    using downloading_simple(5) [OF d] i by (auto simp: conns_ok_def)
  show "ne_queue (net_after (upd_seg i (\<lambda>g. g\<lparr>sh_stall_channel := Some ch\<rparr>) s) (stall_net ch N)) k = ne_queue (net_after s N) k \<and>
      ne_opening (net_after (upd_seg i (\<lambda>g. g\<lparr>sh_stall_channel := Some ch\<rparr>) s) (stall_net ch N)) k = ne_opening (net_after s N) k \<and>
      (\<forall>c. sh_stall_channel (seg_at s k) = Some c \<longrightarrow>
        ne_stalled (net_after (upd_seg i (\<lambda>g. g\<lparr>sh_stall_channel := Some ch\<rparr>) s) (stall_net ch N)) c)"
    if "k < length (so_segments s)" "k \<noteq> i" for k
    using downloading_seg [OF d that(1)] unfolding net by (auto simp: seg_ok_def seg_waits_ok_def stall_net_def)
  show "sh_stall_channel ((seg_at s i)\<lparr>sh_stall_channel := Some ch\<rparr>) \<noteq> Some c"
    if "k < length (so_segments s)" "k \<noteq> i" "sh_stall_channel (seg_at s k) = Some c" for k c
    using that free by auto
qed auto

subsection \<open>The end of a segment\<close>

lemma count_done_set:
  assumes i: "i < length (so_segments s)" and "\<not> sh_done (seg_at s i)" "sh_done (f (seg_at s i))"
  shows "length (filter sh_done (so_segments (upd_seg i f s))) = length (filter sh_done (so_segments s)) + 1"
proof -
  have cnt: "length (filter sh_done xs) = (\<Sum>k < length xs. if sh_done (xs ! k) then 1 else 0)" for xs
    by (induction xs) (simp_all add: sum.lessThan_Suc_shift del: sum.lessThan_Suc)
  let ?b = "\<lambda>t k. if sh_done (seg_at t k) then 1 else (0::nat)"
  have "(\<Sum>k < length (so_segments s). ?b (upd_seg i f s) k) = ?b (upd_seg i f s) i + (\<Sum>k \<in> {..<length (so_segments s)} - {i}. ?b (upd_seg i f s) k)"
    using i by (intro sum.remove) auto
  also have "\<dots> = 1 + (\<Sum>k \<in> {..<length (so_segments s)} - {i}. ?b s k)"
    using assms by (auto intro!: arg_cong2 [where f = "(+)"] sum.cong)
  also have "\<dots> = 1 + (\<Sum>k < length (so_segments s). ?b s k)"
    using assms sum.remove [of "{..<length (so_segments s)}" i "?b s"] by simp
  finally show ?thesis unfolding cnt by (simp add: seg_at_def)
qed

definition mark_done :: "nat \<Rightarrow> segment_op \<Rightarrow> segment_op" where
  "mark_done i s = (upd_seg i (\<lambda>g. g\<lparr>sh_writer := False, sh_done := True\<rparr>) s)\<lparr>so_segments_done := so_segments_done s + 1\<rparr>"

lemma mark_done_frame [simp]:
  "length (so_segments (mark_done i s)) = length (so_segments s)" "so_resets (mark_done i s) = so_resets s"
  "so_concat_finalizing (mark_done i s) = so_concat_finalizing s" "so_reader (mark_done i s) = so_reader s"
  "so_buffer (mark_done i s) = so_buffer s" "so_segments_done (mark_done i s) = so_segments_done s + 1"
  "net_after (mark_done i s) N = net_after s N"
  by (simp_all add: mark_done_def net_after_def)

lemma mark_done_ok:
  assumes d: "downloading R P N s" and i: "i < length (so_segments s)"
    and g: "sh_finalizing (seg_at s i)" "\<not> sh_done (seg_at s i)" "sh_waits (seg_at s i) = None"
  shows "so_segments_done (mark_done i s) = length (so_segments s) \<Longrightarrow> segs_complete R P N (mark_done i s)"
    "so_segments_done (mark_done i s) \<noteq> length (so_segments s) \<Longrightarrow> downloading R P N (mark_done i s)"
proof -
  let ?f = "\<lambda>g. g\<lparr>sh_writer := False, sh_done := True\<rparr>"
  have seg: "seg_at (mark_done i s) k = (if k = i then ?f (seg_at s i) else seg_at s k)" for k
    using i by (simp add: mark_done_def seg_at_def upd_seg_def)
  have plan: "plan_ranges (so_segments (mark_done i s)) = plan_ranges (so_segments s)"
    using plan_ranges_upd [where f = ?f and s = s and i = i] i by (simp add: mark_done_def)
  have cnt: "so_segments_done (mark_done i s) = length (filter sh_done (so_segments (mark_done i s)))"
    using count_done_set [OF i g(2), of ?f] d by (simp add: downloading_def mark_done_def)
  have ok: "seg_ok R (P k) (net_after s N) k (seg_at (mark_done i s) k)" if "k < length (so_segments s)" for k
  proof (cases "k = i")
    case True
    have "seg_ok R (P i) (net_after s N) i (?f (seg_at s i))"
      using downloading_seg [OF d i] g by (auto simp: seg_ok_defs buffer_bytes_def split: option.splits)
    then show ?thesis using True by (simp add: seg)
  qed (use downloading_seg [OF d that] in \<open>simp add: seg\<close>)
  show "downloading R P N (mark_done i s)" if ne: "so_segments_done (mark_done i s) \<noteq> length (so_segments s)"
  proof -
    have "sh_stall_channel (seg_at (mark_done i s) k) = sh_stall_channel (seg_at s k)" for k by (simp add: seg)
    then have "stalls_distinct (mark_done i s)"
      using downloading_simple(4) [OF d] unfolding stalls_distinct_def by simp
    moreover have "conns_ok (mark_done i s)"
    proof -
      have "has_channel (mark_done i s) ch = has_channel s ch" "so_conns (mark_done i s) = so_conns s" for ch
        by (simp_all add: mark_done_def has_channel_def conn_at_def upd_seg_def split: option.splits)
      then show ?thesis using downloading_simple(5) [OF d] i unfolding conns_ok_def seg by simp
    qed
    moreover have "so_segments_done (mark_done i s) < length (so_segments s)"
      using ne length_filter_le [of sh_done "so_segments (mark_done i s)"] unfolding cnt by simp
    ultimately show ?thesis using d ok cnt unfolding downloading_def plan by (simp add: mark_done_def net_after_def)
  qed
  show "segs_complete R P N (mark_done i s)" if all: "so_segments_done (mark_done i s) = length (so_segments s)"
  proof -
    have "length (filter sh_done (so_segments (mark_done i s))) = length (so_segments (mark_done i s))" using all cnt by simp
    then have "\<forall>g \<in> set (so_segments (mark_done i s)). sh_done g"
      by (metis filter_True filter_id_conv length_filter_conv_card length_filter_less nat_neq_iff)
    then have done_all: "sh_done (seg_at (mark_done i s) k)" if "k < length (so_segments s)" for k
      using that by (simp add: seg_at_def)
    have "\<not> sh_writer (seg_at (mark_done i s) k) \<and> sh_buffer (seg_at (mark_done i s) k) = None \<and>
        ne_queue (net_after s N) k = [] \<and> \<not> ne_opening (net_after s N) k \<and>
        part_bytes P (mark_done i s) k = slice R (sh_offset (seg_at (mark_done i s) k)) (sh_length (seg_at (mark_done i s) k))"
      if k: "k < length (so_segments s)" for k
    proof -
      let ?g = "seg_at (mark_done i s) k"
      note o = ok [OF k] and dn = done_all [OF k]
      have r: "sh_received ?g = sh_length ?g" "sh_buffer ?g = None" "\<not> sh_writer ?g"
        using o dn by (auto simp: seg_ok_def seg_data_ok_def)
      have b: "P k = slice R (sh_offset ?g) (sh_part_size ?g)"
        "sh_written ?g = slice R (sh_offset ?g + sh_part_size ?g) (sh_length ?g - sh_part_size ?g)"
        using o dn r by (auto simp: seg_ok_def seg_data_ok_def)
      have "0 \<le> sh_offset ?g" "0 \<le> sh_part_size ?g" "0 \<le> sh_length ?g - sh_part_size ?g"
        using o r by (auto simp: seg_ok_def seg_range_ok_def)
      then have "part_bytes P (mark_done i s) k = slice R (sh_offset ?g) (sh_length ?g)"
        using slice_add [of "sh_offset ?g" "sh_part_size ?g" "sh_length ?g - sh_part_size ?g" R] b
        by (simp add: part_bytes_def)
      moreover have "ne_queue (net_after s N) k = []"
        using o r(1) by (intro complete_no_requests [of _ ?g]) (auto simp: seg_ok_def)
      moreover have "\<not> ne_opening (net_after s N) k" using o dn by (auto simp: seg_ok_def seg_waits_ok_def)
      ultimately show ?thesis using r by blast
    qed
    then show ?thesis using d done_all unfolding segs_complete_def plan by (simp add: downloading_def mark_done_def net_after_def)
  qed
qed

text \<open>Handing the last buffer to the writer.\<close>

lemma finalize_add_ok:
  assumes d: "downloading R P N s" and i: "i < length (so_segments s)"
    and g: "sh_received (seg_at s i) = sh_length (seg_at s i)" "\<not> ne_opening (net_after s N) i" "sh_writer (seg_at s i)"
    and w: "w = sh_waits (seg_at s i) \<or> w = Some on_writer"
  shows "downloading R P N (upd_seg i (\<lambda>g. (writer_add r (g\<lparr>sh_finalizing := True\<rparr>))\<lparr>sh_waits := w\<rparr>) s)"
proof (rule downloading_upd [OF d i])
  note ok = downloading_seg [OF d i]
  have q: "sh_outstanding (seg_at s i) = []"
    using complete_no_requests [of "ne_queue (net_after s N) i" "seg_at s i"] g(1) ok
    by (auto simp: seg_ok_def seg_requests_ok_def)
  have "sh_written (seg_at s i) @ (case sh_buffer (seg_at s i) of None \<Rightarrow> [] | Some b \<Rightarrow> b) =
      sh_written (seg_at s i) @ buffer_bytes (seg_at s i)"
    by (simp add: buffer_bytes_def)
  then show "seg_ok R (P i) (net_after s N) i ((writer_add r ((seg_at s i)\<lparr>sh_finalizing := True\<rparr>))\<lparr>sh_waits := w\<rparr>)"
    using ok g q w by (auto simp: seg_ok_defs writer_add_def)
qed (simp_all add: writer_add_def)

lemma finalize_segment_ok:
  assumes d: "downloading R P N s" and i: "i < length (so_segments s)"
    and g: "sh_received (seg_at s i) = sh_length (seg_at s i)" "\<not> ne_opening (net_after s N) i" "sh_writer (seg_at s i)"
      "\<not> sh_done (seg_at s i)" "sh_waits (seg_at s i) = None"
    and r: "readers_ok E P (finalize_segment E i s)"
  shows "transfer_phase R P N (finalize_segment E i s)"
proof -
  let ?u = "upd_seg i (\<lambda>g. writer_add (e_add E) (g\<lparr>sh_finalizing := True\<rparr>)) s"
  consider (fails) "e_add E = aio_error \<or> e_add E = aio_ok \<and> e_fin E = aio_error"
    | (waits) "e_add E = aio_wait \<or> e_add E = aio_ok \<and> e_fin E = aio_wait"
    | (ends) "e_add E = aio_ok" "e_fin E = aio_ok"
    by (cases "e_add E"; cases "e_fin E") auto
  then show ?thesis
  proof cases
    case fails
    then have "finalize_segment E i s = fail_segments reply_writefailed ?u" by (auto simp: finalize_segment_def)
    then show ?thesis using downloading_simple(3) [OF d] fail_segments_failed [of ?u reply_writefailed] by auto
  next
    case waits
    then have "finalize_segment E i s = upd_seg i (\<lambda>g. g\<lparr>sh_waits := Some on_writer\<rparr>) ?u"
      by (auto simp: finalize_segment_def)
    then show ?thesis using finalize_add_ok [OF d i g(1-3), of "Some on_writer" "e_add E"]
      by (auto simp: upd_seg_twice [OF i])
  next
    case ends
    have eq: "upd_seg i (\<lambda>g. (writer_add aio_ok (g\<lparr>sh_finalizing := True\<rparr>))\<lparr>sh_waits := None\<rparr>) s = ?u"
    proof -
      have "(writer_add aio_ok ((seg_at s i)\<lparr>sh_finalizing := True\<rparr>))\<lparr>sh_waits := None\<rparr> =
          writer_add aio_ok ((seg_at s i)\<lparr>sh_finalizing := True\<rparr>)"
        by (rule segment_handler.equality) (simp_all add: writer_add_def g(5))
      then show ?thesis using ends(1) by (simp add: upd_seg_def)
    qed
    have d2: "downloading R P N ?u"
      using finalize_add_ok [OF d i g(1-3), of None aio_ok] g(5) unfolding eq by simp
    have fin: "finalize_segment E i s =
        (if so_segments_done (mark_done i ?u) = length (so_segments ?u) then start_concat E (mark_done i ?u) else mark_done i ?u)"
      using ends by (simp add: finalize_segment_def mark_done_def Let_def)
    have gu: "sh_finalizing (seg_at ?u i)" "\<not> sh_done (seg_at ?u i)" "sh_waits (seg_at ?u i) = None"
      using i g ends by (simp_all add: writer_add_def)
    have iu: "i < length (so_segments ?u)" using i by simp
    note md = mark_done_ok [OF d2 iu gu]
    show ?thesis
    proof (cases "so_segments_done (mark_done i ?u) = length (so_segments ?u)")
      case True
      have "merging R P N (start_concat E (mark_done i ?u)) \<or> failed (start_concat E (mark_done i ?u))"
        by (rule start_concat_ok [OF md(1) [OF True]]) (use d r fin True in \<open>simp_all add: downloading_def\<close>)
      then show ?thesis using fin True by auto
    next
      case False
      then show ?thesis using md(2) fin by auto
    qed
  qed
qed

end
