(* ===== verification/Sftp_Segment_Handlers.thy ===== *)
theory Sftp_Segment_Handlers
  imports Sftp_Segment_Steps
begin

text \<open>
  The remaining handlers of a segmented download, from a downloading state: the replies of the
  server, the events of writers and pool, and the additional connections.
\<close>

subsection \<open>The answer to a request to open the file\<close>

text \<open>Taking an answer off a channel.\<close>

definition take_open :: "nat \<Rightarrow> segment_net \<Rightarrow> segment_net" where
  "take_open i N = N\<lparr>ne_opening := (ne_opening N)(i := False)\<rparr>"

definition take_reply :: "nat \<Rightarrow> segment_net \<Rightarrow> segment_net" where
  "take_reply i N = N\<lparr>ne_queue := (ne_queue N)(i := tl (ne_queue N i))\<rparr>"

text \<open>What the channels look like after a handler that answered with a continuation.\<close>

definition after_reply :: "continuation \<Rightarrow> channel \<Rightarrow> segment_net \<Rightarrow> segment_net" where
  "after_reply c ch N = (if c = cont_wait then stall_net ch N else N)"

lemma get_next_frame:
  "so_calls (snd (get_next_segment_buffer E i s)) = so_calls s"
  "sh_conn (seg_at (snd (get_next_segment_buffer E i s)) k) = sh_conn (seg_at s k)"
  "sh_outstanding (seg_at (snd (get_next_segment_buffer E i s)) k) = sh_outstanding (seg_at s k)"
  "so_resets (snd (get_next_segment_buffer E i s)) = so_resets s @ (if e_add E = aio_error then [reply_writefailed] else [])"
proof -
  have u: "sh_conn (seg_at (upd_seg i f t) k) = sh_conn (seg_at t k)" "sh_outstanding (seg_at (upd_seg i f t) k) = sh_outstanding (seg_at t k)"
    if "\<And>g. sh_conn (f g) = sh_conn g \<and> sh_outstanding (f g) = sh_outstanding g" for f t
    using that by (cases "i < length (so_segments t)"; cases "k = i"; simp add: seg_at_def upd_seg_def list_update_beyond)+
  show "so_calls (snd (get_next_segment_buffer E i s)) = so_calls s"
    "so_resets (snd (get_next_segment_buffer E i s)) = so_resets s @ (if e_add E = aio_error then [reply_writefailed] else [])"
    by (auto simp: get_next_segment_buffer_def Let_def fail_segments_def split: aio_result.splits)
  have "seg_at (fail_segments r t) k = seg_at t k" for r t by (simp add: seg_at_def)
  then show "sh_conn (seg_at (snd (get_next_segment_buffer E i s)) k) = sh_conn (seg_at s k)"
    "sh_outstanding (seg_at (snd (get_next_segment_buffer E i s)) k) = sh_outstanding (seg_at s k)"
    by (simp_all add: get_next_segment_buffer_def Let_def u writer_add_def split: aio_result.splits)
qed

lemma on_segment_open_ok:
  assumes d: "downloading R P N s" and calls: "so_calls s = []" and i: "i < length (so_segments s)"
    and op: "ne_opening N i" "\<not> ne_stalled N (sh_conn (seg_at s i))"
  shows "transfer_phase R P (after_reply (fst (on_segment_open E i handle s)) (sh_conn (seg_at s i)) (take_open i N))
    (snd (on_segment_open E i handle s))"
    "fst (on_segment_open E i handle s) \<noteq> cont_error"
proof -
  let ?s = "upd_seg i (\<lambda>g. g\<lparr>sh_handle := handle\<rparr>) s"
  let ?ch = "sh_conn (seg_at s i)"
  note ok = downloading_seg [OF d i]
  have net: "net_after s N = N" "net_after ?s N' = N'" for N' using calls by simp_all
  have ok': "seg_ok R (P i) N i (seg_at s i)" using ok net by simp
  then have fresh: "sh_outstanding (seg_at s i) = []" "\<not> sh_finalizing (seg_at s i)" "\<not> sh_done (seg_at s i)"
    using op(1) by (auto simp: seg_ok_def seg_waits_ok_def)
  have d1: "downloading R P (take_open i N) ?s"
  proof (rule downloading_upd_net [OF d i, where f = "\<lambda>g. g\<lparr>sh_handle := handle\<rparr>"])
    show "seg_ok R (P i) (net_after ?s (take_open i N)) i ((seg_at s i)\<lparr>sh_handle := handle\<rparr>)"
      using ok' unfolding net by (auto simp: seg_ok_defs take_open_def buffer_bytes_def)
    show "has_channel s (sh_conn ((seg_at s i)\<lparr>sh_handle := handle\<rparr>))"
      "\<forall>j. sh_conn ((seg_at s i)\<lparr>sh_handle := handle\<rparr>) = Some j \<longrightarrow> j < length (so_conns s)"
      using downloading_simple(5) [OF d] i by (auto simp: conns_ok_def)
    show "sh_stall_channel ((seg_at s i)\<lparr>sh_handle := handle\<rparr>) \<noteq> Some c"
      if "k < length (so_segments s)" "k \<noteq> i" "sh_stall_channel (seg_at s k) = Some c" for k c
      using that downloading_simple(4) [OF d] i unfolding stalls_distinct_def by fastforce
    show "ne_queue (net_after ?s (take_open i N)) k = ne_queue (net_after s N) k \<and>
        ne_opening (net_after ?s (take_open i N)) k = ne_opening (net_after s N) k \<and>
        (\<forall>ch. sh_stall_channel (seg_at s k) = Some ch \<longrightarrow> ne_stalled (net_after ?s (take_open i N)) ch)"
      if "k < length (so_segments s)" "k \<noteq> i" for k
      using downloading_seg [OF d that(1)] that(2) unfolding net by (auto simp: seg_ok_def seg_waits_ok_def take_open_def)
  qed auto
  have i1: "i < length (so_segments ?s)" using i by simp
  have goal: "transfer_phase R P (after_reply (fst (on_segment_open E i handle s)) ?ch (take_open i N)) (snd (on_segment_open E i handle s)) \<and>
    fst (on_segment_open E i handle s) \<noteq> cont_error"
  proof (cases "sh_writer (seg_at s i)")
    case True
    then have "on_segment_open E i handle s = (cont_next, request_segments E ?ch ?s)"
      using downloading_simple(2) [OF d] i by (simp add: on_segment_open_def Let_def)
    then show ?thesis using request_segments_downloading [OF d1] by (auto simp: after_reply_def)
  next
    case False
    let ?t = "upd_seg i (\<lambda>g. g\<lparr>sh_writer := True\<rparr>) ?s"
    have w: "sh_waits (seg_at s i) = None" "sh_buffer (seg_at s i) = None"
      using ok' False by (auto simp: seg_ok_def seg_waits_ok_def)
    have d2: "downloading R P (take_open i N) ?t"
    proof (rule downloading_upd [OF d1 i1])
      show "seg_ok R (P i) (net_after ?s (take_open i N)) i ((seg_at ?s i)\<lparr>sh_writer := True\<rparr>)"
        using downloading_seg [OF d1 i1] fresh i by (auto simp: seg_ok_defs buffer_bytes_def)
    qed simp_all
    have it: "i < length (so_segments ?t)" using i by simp
    note gn = get_next_segment_buffer_ok [OF d2 it, of E]
    have gt: "sh_writer (seg_at ?t i)" "\<not> sh_finalizing (seg_at ?t i)" "\<not> sh_done (seg_at ?t i)" "sh_waits (seg_at ?t i) = None"
      "sh_outstanding (seg_at ?t i) = [] \<or> sh_stall_channel (seg_at ?t i) = Some (sh_conn (seg_at ?t i))"
      using fresh w i by simp_all
    note gn = gn [OF gt(1-4)]
    obtain r s1 where get: "get_next_segment_buffer E i ?t = (r, s1)" by force
    have open_eq: "on_segment_open E i handle s =
      (if \<not> e_open_writer E then (cont_next, fail_segments reply_writefailed ?s)
       else (case r of
               aio_wait \<Rightarrow> (cont_wait, upd_seg i (\<lambda>g. g\<lparr>sh_stall_channel := Some ?ch\<rparr>) s1)
             | aio_error \<Rightarrow> (cont_next, s1)
             | aio_ok \<Rightarrow> (cont_next, request_segments E ?ch s1)))"
      using False downloading_simple(2) [OF d] i get by (cases r) (simp_all add: on_segment_open_def Let_def)
    show ?thesis
    proof (cases "e_open_writer E")
      case opened: True
      show ?thesis
      proof (cases r)
        case aio_ok
        then have "downloading R P (take_open i N) s1" using gn(2) gt(5) get by simp
        then show ?thesis using open_eq opened aio_ok by (auto simp: after_reply_def)
      next
        case aio_wait
        have d3: "downloading R P (take_open i N) s1" using gn(2) gt(5) get aio_wait by simp
        have "downloading R P (stall_net ?ch (take_open i N)) (upd_seg i (\<lambda>g. g\<lparr>sh_stall_channel := Some ?ch\<rparr>) s1)"
        proof (rule stall_downloading [OF d3])
          show "i < length (so_segments s1)" using gn(4) gt(5) get i by simp
          show "so_calls s1 = []" using get_next_frame(1) [of E i ?t] get calls by simp
          show "\<not> ne_stalled (take_open i N) ?ch" using op(2) by (simp add: take_open_def)
          show "sh_conn (seg_at s1 i) = ?ch" using get_next_frame(2) [of E i ?t i] get i by simp
        qed
        then show ?thesis using open_eq opened aio_wait by (auto simp: after_reply_def)
      next
        case aio_error
        then have "failed s1" using gn(1) gt(5) get by simp
        then show ?thesis using open_eq opened aio_error by auto
      qed
    next
      case False
      then show ?thesis using open_eq downloading_simple(3) [OF d] fail_segments_failed [of ?s reply_writefailed] by auto
    qed
  qed
  then show "transfer_phase R P (after_reply (fst (on_segment_open E i handle s)) ?ch (take_open i N)) (snd (on_segment_open E i handle s))"
    "fst (on_segment_open E i handle s) \<noteq> cont_error" by blast+
qed

subsection \<open>Data\<close>

lemma stall_update_last:
  "g\<lparr>sh_written := w, sh_buffer := b, sh_waits := x, sh_stall_channel := c\<rparr> =
   g\<lparr>sh_stall_channel := c, sh_written := w, sh_buffer := b, sh_waits := x\<rparr>"
  by (rule segment_handler.equality) simp_all

lemma stall_get_next:
  assumes "i < length (so_segments s)" "fst (get_next_segment_buffer E i s) = aio_wait"
  shows "upd_seg i (\<lambda>g. g\<lparr>sh_stall_channel := Some ch\<rparr>) (snd (get_next_segment_buffer E i s)) =
    snd (get_next_segment_buffer E i (upd_seg i (\<lambda>g. g\<lparr>sh_stall_channel := Some ch\<rparr>) s))"
    "fst (get_next_segment_buffer E i (upd_seg i (\<lambda>g. g\<lparr>sh_stall_channel := Some ch\<rparr>) s)) = aio_wait"
  using assms
  by (auto simp: get_next_segment_buffer_def Let_def upd_seg_twice writer_add_def split: aio_result.splits if_splits)
    (simp_all add: upd_seg_def stall_update_last)

text \<open>The two failures of data: more of it than asked for is a protocol error, less of it ends
  the download.\<close>

definition received_data :: "nat \<Rightarrow> string \<Rightarrow> segment_op \<Rightarrow> segment_op" where
  "received_data i data s = upd_pipe (sh_conn (seg_at s i)) (\<lambda>p. p\<lparr>pp_response_offset := u64 (pp_response_offset p + int (length data))\<rparr>)
     (upd_seg i (\<lambda>g. g\<lparr>sh_buffer := Some (buffer_bytes g @ data), sh_received := u64 (sh_received g + int (length data))\<rparr>)
       (upd_seg i (\<lambda>g. g\<lparr>sh_outstanding := tl (sh_outstanding g)\<rparr>) s))"

lemma process_segment_data_eq:
  assumes "i < length (so_segments s)" "\<not> so_seg_failed s" "sh_outstanding (seg_at s i) = expected # rest" "sh_buffer (seg_at s i) = Some b"
  shows "process_segment_data E i data s =
    (if int (length data) > blocksize then (cont_error, s)
     else if int (length data) > expected then (cont_error, upd_seg i (\<lambda>g. g\<lparr>sh_outstanding := rest\<rparr>) s)
     else if int (length data) < expected then (cont_next, fail_segments reply_error (upd_seg i (\<lambda>g. g\<lparr>sh_outstanding := rest\<rparr>) s))
     else if sh_received (seg_at (received_data i data s) i) \<ge> sh_length (seg_at s i) then (cont_next, finalize_segment E i (received_data i data s))
     else if e_capacity E - int (length (b @ data)) < blocksize then
       (case get_next_segment_buffer E i (received_data i data s) of
          (r, s4) \<Rightarrow>
            (case r of
               aio_wait \<Rightarrow> (cont_wait, upd_seg i (\<lambda>g. g\<lparr>sh_stall_channel := Some (sh_conn (seg_at s i))\<rparr>) s4)
             | aio_error \<Rightarrow> (cont_next, s4)
             | aio_ok \<Rightarrow> (cont_next, request_segments E (sh_conn (seg_at s i)) s4)))
     else (cont_next, request_segments E (sh_conn (seg_at s i)) (received_data i data s)))"
proof -
  have "upd_seg i (\<lambda>g. g\<lparr>sh_outstanding := tl (sh_outstanding g)\<rparr>) s = upd_seg i (\<lambda>g. g\<lparr>sh_outstanding := rest\<rparr>) s"
    by (simp add: upd_seg_def assms(3))
  moreover have "upd_seg i (\<lambda>g. g\<lparr>sh_buffer := Some (buffer_bytes g @ data), sh_received := u64 (sh_received g + int (length data))\<rparr>)
        (upd_seg i (\<lambda>g. g\<lparr>sh_outstanding := rest\<rparr>) s) =
      upd_seg i (\<lambda>g. g\<lparr>sh_buffer := Some (b @ data), sh_received := u64 (sh_received g + int (length data))\<rparr>)
        (upd_seg i (\<lambda>g. g\<lparr>sh_outstanding := rest\<rparr>) s)"
    using assms(1,4) by (simp add: upd_seg_def buffer_bytes_def seg_at_def)
  ultimately have rd: "received_data i data s = upd_pipe (sh_conn (seg_at s i)) (\<lambda>p. p\<lparr>pp_response_offset := u64 (pp_response_offset p + int (length data))\<rparr>)
     (upd_seg i (\<lambda>g. g\<lparr>sh_buffer := Some (b @ data), sh_received := u64 (sh_received g + int (length data))\<rparr>)
       (upd_seg i (\<lambda>g. g\<lparr>sh_outstanding := rest\<rparr>) s))"
    by (simp add: received_data_def)
  have len: "sh_length (seg_at (received_data i data s) i) = sh_length (seg_at s i)" unfolding rd using assms(1) by simp
  show ?thesis using assms unfolding process_segment_data_def Let_def
    by (simp only: assms(3,4) list.case option.case prod.case if_False rd [symmetric] len)
qed

lemma received_data_ok:
  assumes d: "downloading R P N s" and calls: "so_calls s = []" and i: "i < length (so_segments s)"
    and q: "ne_queue N i = (off, int (length data)) # q" and st: "\<not> ne_stalled N (sh_conn (seg_at s i))"
    and data: "data = slice R off (int (length data))"
  shows "downloading R P (take_reply i N) (received_data i data s)"
    "sh_received (seg_at (received_data i data s) i) = sh_received (seg_at s i) + int (length data)"
proof -
  let ?n = "int (length data)"
  let ?g = "seg_at s i"
  let ?f = "\<lambda>g. g\<lparr>sh_outstanding := tl (sh_outstanding g), sh_buffer := Some (buffer_bytes g @ data), sh_received := sh_received g + ?n\<rparr>"
  have net: "net_after s N = N" using calls by simp
  have ok: "seg_ok R (P i) N i ?g" using downloading_seg [OF d i] net by simp
  then have tl: "tiles (sh_offset ?g + sh_received ?g) ((off, ?n) # q) (sh_request_offset ?g)"
    and out: "sh_outstanding ?g = ?n # map snd q" and req: "sh_request_offset ?g \<le> sh_offset ?g + sh_length ?g"
    and range: "0 \<le> sh_offset ?g" "0 \<le> sh_part_size ?g" "sh_part_size ?g \<le> sh_received ?g" "sh_offset ?g + sh_length ?g \<le> int (length R)"
    using q by (auto simp: seg_ok_def seg_requests_ok_def seg_range_ok_def)
  have tq: "tiles (sh_offset ?g + sh_received ?g + ?n) q (sh_request_offset ?g)" and off: "off = sh_offset ?g + sh_received ?g"
    using tl by auto
  have le: "sh_offset ?g + sh_received ?g + ?n \<le> sh_offset ?g + sh_length ?g" using tiles_le [OF tq] req by simp
  have u: "u64 (sh_received ?g + ?n) = sh_received ?g + ?n"
    using le range downloading_simple(6) [OF d] by (intro u64_id) auto
  have less: "sh_received ?g < sh_length ?g"
  proof -
    have "0 < ?n" using ok q by (auto simp: seg_ok_def seg_requests_ok_def)
    then show ?thesis using le by linarith
  qed
  have buf: "sh_buffer ?g \<noteq> None"
    using ok st out by (auto simp: seg_ok_def seg_waits_ok_def)
  have w: "sh_writer ?g" using ok buf by (auto simp: seg_ok_def seg_waits_ok_def)
  have "buffer_bytes ((?g)\<lparr>sh_outstanding := tl (sh_outstanding ?g)\<rparr>) = buffer_bytes ?g" by (simp add: buffer_bytes_def)
  then have eq: "received_data i data s = upd_pipe (sh_conn ?g) (\<lambda>p. p\<lparr>pp_response_offset := u64 (pp_response_offset p + ?n)\<rparr>) (upd_seg i ?f s)"
    unfolding received_data_def upd_seg_twice [OF i] using u by (simp add: upd_seg_def)
  have bytes: "sh_written ?g @ buffer_bytes ?g @ data =
      slice R (sh_offset ?g + sh_part_size ?g) (sh_received ?g + ?n - sh_part_size ?g)"
  proof -
    have "slice R (sh_offset ?g + sh_part_size ?g) ((sh_received ?g - sh_part_size ?g) + ?n) =
        slice R (sh_offset ?g + sh_part_size ?g) (sh_received ?g - sh_part_size ?g) @ slice R (sh_offset ?g + sh_received ?g) ?n"
      using slice_add [of "sh_offset ?g + sh_part_size ?g" "sh_received ?g - sh_part_size ?g" ?n R] range by simp
    moreover have "sh_written ?g @ buffer_bytes ?g = slice R (sh_offset ?g + sh_part_size ?g) (sh_received ?g - sh_part_size ?g)"
      using ok by (simp add: seg_ok_def seg_data_ok_def)
    ultimately show ?thesis using data off by (simp add: algebra_simps)
  qed
  have new: "seg_ok R (P i) (take_reply i N) i (?f ?g)"
    using ok bytes tq [unfolded add.assoc] le range out buf w less q
    by (auto simp: seg_ok_defs take_reply_def)
  have "downloading R P (take_reply i N) (upd_seg i ?f s)"
  proof (rule downloading_upd_net [OF d i, where f = ?f])
    show "seg_ok R (P i) (net_after (upd_seg i ?f s) (take_reply i N)) i (?f ?g)" using new calls by simp
    show "has_channel s (sh_conn (?f ?g))" "\<forall>j. sh_conn (?f ?g) = Some j \<longrightarrow> j < length (so_conns s)"
      using downloading_simple(5) [OF d] i by (auto simp: conns_ok_def)
    show "sh_stall_channel (?f ?g) \<noteq> Some c"
      if "k < length (so_segments s)" "k \<noteq> i" "sh_stall_channel (seg_at s k) = Some c" for k c
      using that downloading_simple(4) [OF d] i unfolding stalls_distinct_def by fastforce
    show "ne_queue (net_after (upd_seg i ?f s) (take_reply i N)) k = ne_queue (net_after s N) k \<and>
        ne_opening (net_after (upd_seg i ?f s) (take_reply i N)) k = ne_opening (net_after s N) k \<and>
        (\<forall>ch. sh_stall_channel (seg_at s k) = Some ch \<longrightarrow> ne_stalled (net_after (upd_seg i ?f s) (take_reply i N)) ch)"
      if "k < length (so_segments s)" "k \<noteq> i" for k
      using downloading_seg [OF d that(1)] that(2) calls by (auto simp: seg_ok_def seg_waits_ok_def take_reply_def)
  qed auto
  then show "downloading R P (take_reply i N) (received_data i data s)" unfolding eq by simp
  show "sh_received (seg_at (received_data i data s) i) = sh_received ?g + ?n" unfolding eq using i by simp
qed

text \<open>What a reply with data leads to.  The continuation is an error only when the server sent
  more than was asked for.\<close>

lemma process_segment_data_ok:
  assumes d: "downloading R P N s" and calls: "so_calls s = []" and i: "i < length (so_segments s)"
    and q: "ne_queue N i = (off, n) # q" and st: "\<not> ne_stalled N (sh_conn (seg_at s i))"
    and data: "int (length data) \<le> n \<Longrightarrow> data = slice R off (int (length data))"
    and r: "readers_ok E P (snd (process_segment_data E i data s))"
  shows "fst (process_segment_data E i data s) \<noteq> cont_error \<Longrightarrow>
      transfer_phase R P (after_reply (fst (process_segment_data E i data s)) (sh_conn (seg_at s i)) (take_reply i N))
        (snd (process_segment_data E i data s))"
    "fst (process_segment_data E i data s) = cont_error \<longleftrightarrow> int (length data) > n"
    "so_resets (snd (process_segment_data E i data s)) = [] \<or> fst (process_segment_data E i data s) \<noteq> cont_error"
proof -
  let ?g = "seg_at s i" and ?ch = "sh_conn (seg_at s i)" and ?t = "received_data i data s"
  have net: "net_after s N = N" using calls by simp
  have ok: "seg_ok R (P i) N i ?g" using downloading_seg [OF d i] net by simp
  then have out: "sh_outstanding ?g = n # map snd q" and n: "n \<le> blocksize"
    using q by (auto simp: seg_ok_def seg_requests_ok_def)
  then obtain b where b: "sh_buffer ?g = Some b" using ok st by (auto simp: seg_ok_def seg_waits_ok_def)
  note eq = process_segment_data_eq [OF i downloading_simple(2) [OF d] out b, of E data]
  have res: "so_resets s = []" by (rule downloading_simple(3) [OF d])
  have goal: "(fst (process_segment_data E i data s) \<noteq> cont_error \<longrightarrow>
      transfer_phase R P (after_reply (fst (process_segment_data E i data s)) ?ch (take_reply i N)) (snd (process_segment_data E i data s))) \<and>
    (fst (process_segment_data E i data s) = cont_error \<longleftrightarrow> int (length data) > n) \<and>
    (so_resets (snd (process_segment_data E i data s)) = [] \<or> fst (process_segment_data E i data s) \<noteq> cont_error)"
  proof (cases "int (length data) = n")
    case False
    then consider "int (length data) > n" | "int (length data) < n" by linarith
    then show ?thesis
    proof cases
      case 1
      then show ?thesis using eq res by simp
    next
      case 2
      then have "process_segment_data E i data s = (cont_next, fail_segments reply_error (upd_seg i (\<lambda>g. g\<lparr>sh_outstanding := map snd q\<rparr>) s))"
        using eq n by simp
      then show ?thesis using 2 res fail_segments_failed [of "upd_seg i (\<lambda>g. g\<lparr>sh_outstanding := map snd q\<rparr>) s" reply_error]
        by auto
    qed
  next
    case True
    have q': "ne_queue N i = (off, int (length data)) # q" using q True by simp
    have sl: "data = slice R off (int (length data))" using data True by simp
    note rd = received_data_ok [OF d calls i q' st sl]
    have it: "i < length (so_segments ?t)" "so_calls ?t = []" using i calls by (simp_all add: received_data_def)
    have same: "sh_length (seg_at ?t i) = sh_length ?g" "sh_conn (seg_at ?t i) = ?ch" "sh_finalizing (seg_at ?t i) = sh_finalizing ?g"
      "sh_done (seg_at ?t i) = sh_done ?g" "sh_writer (seg_at ?t i) = sh_writer ?g" "sh_waits (seg_at ?t i) = sh_waits ?g"
      "so_resets ?t = []"
      using i res by (simp_all add: received_data_def)
    have less: "sh_received ?g < sh_length ?g"
    proof -
      have "tiles (sh_offset ?g + sh_received ?g + n) q (sh_request_offset ?g)" "0 < n"
        using ok q by (auto simp: seg_ok_def seg_requests_ok_def)
      then show ?thesis using tiles_le ok by (fastforce simp: seg_ok_def seg_requests_ok_def)
    qed
    have g: "sh_writer (seg_at ?t i)" "\<not> sh_finalizing (seg_at ?t i)" "\<not> sh_done (seg_at ?t i)" "sh_waits (seg_at ?t i) = None"
      "\<not> ne_opening N i"
      using ok less b out unfolding same by (auto simp: seg_ok_def seg_waits_ok_def seg_data_ok_def)
    have net': "net_after ?t N' = N'" for N' using it by simp
    have eq: "process_segment_data E i data s =
      (if sh_received (seg_at ?t i) \<ge> sh_length ?g then (cont_next, finalize_segment E i ?t)
       else if e_capacity E - int (length (b @ data)) < blocksize then
         (case get_next_segment_buffer E i ?t of
            (r, s4) \<Rightarrow>
              (case r of
                 aio_wait \<Rightarrow> (cont_wait, upd_seg i (\<lambda>g. g\<lparr>sh_stall_channel := Some ?ch\<rparr>) s4)
               | aio_error \<Rightarrow> (cont_next, s4)
               | aio_ok \<Rightarrow> (cont_next, request_segments E ?ch s4)))
       else (cont_next, request_segments E ?ch ?t))"
      using eq True n by simp
    show ?thesis
    proof (cases "sh_received (seg_at ?t i) \<ge> sh_length ?g")
      case full: True
      have "sh_received (seg_at ?t i) = sh_length (seg_at ?t i)"
        using full downloading_seg [OF rd(1) it(1)] same(1) by (simp add: seg_ok_def seg_range_ok_def)
      moreover have "\<not> ne_opening (net_after ?t (take_reply i N)) i" using g(5) net' by (simp add: take_reply_def)
      ultimately have "transfer_phase R P (take_reply i N) (finalize_segment E i ?t)"
        using finalize_segment_ok [OF rd(1) it(1) _ _ g(1,3,4)] r eq full by simp
      then show ?thesis using eq full True by (simp add: after_reply_def)
    next
      case more: False
      show ?thesis
      proof (cases "e_capacity E - int (length (b @ data)) < blocksize")
        case False
        then have "process_segment_data E i data s = (cont_next, request_segments E ?ch ?t)" using eq more by simp
        then show ?thesis using rd(1) True by (auto simp: after_reply_def)
      next
        case low: True
        obtain x s4 where get: "get_next_segment_buffer E i ?t = (x, s4)" by force
        show ?thesis
        proof (cases x)
          case aio_ok
          have "downloading R P (take_reply i N) s4"
            using get_next_segment_buffer_ok(2) [OF rd(1) it(1) g(1-4), of E] get aio_ok by simp
          then show ?thesis using eq more low get aio_ok True by (auto simp: after_reply_def)
        next
          case aio_error
          then have "e_add E = aio_error" using get
            by (auto simp: get_next_segment_buffer_def Let_def split: aio_result.splits if_splits)
          then have "failed s4" using get_next_frame(4) [of E i ?t] get same(7) by (simp add: failed_def)
          then show ?thesis using eq more low get aio_error True by auto
        next
          case aio_wait
          let ?u = "upd_seg i (\<lambda>g. g\<lparr>sh_stall_channel := Some ?ch\<rparr>) ?t"
          have "downloading R P (stall_net ?ch (take_reply i N)) ?u"
            by (rule stall_downloading [OF rd(1) it]) (use st same in \<open>simp_all add: take_reply_def\<close>)
          moreover have iu: "i < length (so_segments ?u)" using it by simp
          moreover have "fst (get_next_segment_buffer E i ?u) = aio_wait"
            using stall_get_next(2) [OF it(1)] get aio_wait by simp
          ultimately have "downloading R P (stall_net ?ch (take_reply i N)) (snd (get_next_segment_buffer E i ?u))"
            using g it(1) same(2) by (intro get_next_segment_buffer_ok(2)) simp_all
          then have "downloading R P (stall_net ?ch (take_reply i N)) (upd_seg i (\<lambda>g. g\<lparr>sh_stall_channel := Some ?ch\<rparr>) s4)"
            using stall_get_next(1) [OF it(1), of E ?ch] get aio_wait by simp
          then show ?thesis using eq more low get aio_wait True by (auto simp: after_reply_def)
        qed
      qed
    qed
  qed
  then show "fst (process_segment_data E i data s) \<noteq> cont_error \<Longrightarrow>
      transfer_phase R P (after_reply (fst (process_segment_data E i data s)) ?ch (take_reply i N)) (snd (process_segment_data E i data s))"
    "fst (process_segment_data E i data s) = cont_error \<longleftrightarrow> int (length data) > n"
    "so_resets (snd (process_segment_data E i data s)) = [] \<or> fst (process_segment_data E i data s) \<noteq> cont_error"
    by blast+
qed

end
