(* ===== verification/Sftp_Segment_Events.thy ===== *)
theory Sftp_Segment_Events
  imports Sftp_Segment_Handlers
begin

text \<open>
  Status replies, events of writers and buffer pool, and additional connections of a segmented
  download.
\<close>

subsection \<open>Status replies\<close>

lemma process_segment_status_ok:
  assumes d: "downloading R P N s" and calls: "so_calls s = []" and i: "i < length (so_segments s)"
    and q: "ne_queue N i \<noteq> [] \<or> ne_opening N i"
  shows "failed (snd (process_segment_status E i code s))"
proof -
  let ?g = "seg_at s i"
  have ok: "seg_ok R (P i) N i ?g" using downloading_seg [OF d i] calls by simp
  have res: "so_resets s = []" by (rule downloading_simple(3) [OF d])
  have "sh_received ?g < sh_length ?g" if "sh_handle ?g \<noteq> []"
  proof -
    have "ne_queue N i \<noteq> []" using q ok that by (auto simp: seg_ok_def seg_waits_ok_def)
    then have "sh_received ?g \<noteq> sh_length ?g" using complete_no_requests ok by (auto simp: seg_ok_def)
    then show ?thesis using ok by (simp add: seg_ok_def seg_range_ok_def)
  qed
  then show ?thesis using res by (auto simp: process_segment_status_def Let_def failed_def)
qed

subsection \<open>Writers and pool\<close>

definition clear_wait :: "nat \<Rightarrow> segment_op \<Rightarrow> segment_op" where
  "clear_wait i s = upd_seg i (\<lambda>g. g\<lparr>sh_waits := None\<rparr>) s"

definition unblock :: "nat \<Rightarrow> segment_op \<Rightarrow> segment_op" where
  "unblock i s = (case sh_stall_channel (seg_at s i) of
       None \<Rightarrow> s
     | Some ch \<Rightarrow> upd_seg i (\<lambda>g. g\<lparr>sh_stall_channel := None\<rparr>) (add_call (Unblock_call ch) s))"

lemma unblock_ok:
  assumes "downloading R P N s" "i < length (so_segments s)" "sh_buffer (seg_at s i) \<noteq> None"
  shows "downloading R P N (unblock i s)"
  using assms unblock_downloading by (simp add: unblock_def split: option.splits)

lemma on_segment_buffer_availability_eq:
  "on_segment_buffer_availability E i w s =
     (if so_seg_failed s then s
      else if w = on_writer \<and> sh_writer (seg_at s i) then
        if sh_finalizing (seg_at s i) then finalize_segment E i s
        else (case get_next_segment_buffer E i s of
          (r, s1) \<Rightarrow> if r = aio_ok then request_segments E (sh_conn (seg_at s i)) (unblock i s1) else s1)
      else if sh_buffer (seg_at s i) = None \<and> \<not> sh_finalizing (seg_at s i) \<and> \<not> sh_done (seg_at s i) then
        if e_pool E then
          request_segments E (sh_conn (seg_at s i)) (unblock i (upd_seg i (\<lambda>g. g\<lparr>sh_buffer := Some []\<rparr>) s))
        else upd_seg i (\<lambda>g. g\<lparr>sh_waits := Some on_pool\<rparr>) s
      else s)"
  unfolding on_segment_buffer_availability_def Let_def unblock_def by (rule refl)

lemma on_segment_buffer_availability_ok:
  assumes d: "downloading R P N s" and i: "i < length (so_segments s)" and w: "sh_waits (seg_at s i) = Some w"
    and r: "readers_ok E P (on_segment_buffer_availability E i w (clear_wait i s))"
  shows "transfer_phase R P N (on_segment_buffer_availability E i w (clear_wait i s))"
proof -
  let ?s = "clear_wait i s" and ?N = "net_after s N"
  let ?g = "seg_at s i"
  have ok: "seg_ok R (P i) ?N i ?g" by (rule downloading_seg [OF d i])
  then have g: "sh_writer ?g" "sh_buffer ?g = None" "\<not> sh_done ?g"
    "sh_outstanding ?g = [] \<or> sh_stall_channel ?g = Some (sh_conn ?g)"
    using w by (auto simp: seg_ok_def seg_waits_ok_def seg_data_ok_def)
  have d1: "downloading R P N ?s" unfolding clear_wait_def
    by (rule downloading_upd [OF d i]) (use ok g in \<open>auto simp: seg_ok_defs\<close>)
  have seg: "seg_at ?s i = ?g\<lparr>sh_waits := None\<rparr>" and len: "length (so_segments ?s) = length (so_segments s)"
    using i by (simp_all add: clear_wait_def)
  have i1: "i < length (so_segments ?s)" using i len by simp
  note nf = downloading_simple(2) [OF d1]
  show ?thesis
  proof (cases w)
    case on_writer
    show ?thesis
    proof (cases "sh_finalizing ?g")
      case True
      have eq: "on_segment_buffer_availability E i w ?s = finalize_segment E i ?s"
        using on_writer True g nf by (simp add: on_segment_buffer_availability_eq seg)
      have "transfer_phase R P N (finalize_segment E i ?s)"
      proof (rule finalize_segment_ok [OF d1 i1])
        show "\<not> ne_opening (net_after ?s N) i" "sh_received (seg_at ?s i) = sh_length (seg_at ?s i)"
          using downloading_seg [OF d1 i1] True by (auto simp: seg_ok_def seg_data_ok_def seg_waits_ok_def seg)
        show "readers_ok E P (finalize_segment E i ?s)" using r eq by simp
      qed (use g seg in simp_all)
      then show ?thesis using eq by simp
    next
      case False
      obtain x s1 where get: "get_next_segment_buffer E i ?s = (x, s1)" by force
      have "sh_writer (seg_at ?s i)" "\<not> sh_finalizing (seg_at ?s i)" "\<not> sh_done (seg_at ?s i)" "sh_waits (seg_at ?s i) = None"
        "sh_outstanding (seg_at ?s i) = [] \<or> sh_stall_channel (seg_at ?s i) = Some (sh_conn (seg_at ?s i))"
        using False g seg by simp_all
      note gn = get_next_segment_buffer_ok [OF d1 i1 this(1-4) this(5), of E, unfolded get fst_conv snd_conv]
      have eq: "on_segment_buffer_availability E i w ?s = (if x = aio_ok then request_segments E (sh_conn ?g) (unblock i s1) else s1)"
        using on_writer False g nf get by (simp add: on_segment_buffer_availability_eq seg)
      show ?thesis
      proof (cases x)
        case aio_ok
        then have "downloading R P N (unblock i s1)" using gn i1 by (intro unblock_ok) simp_all
        then show ?thesis using eq aio_ok by auto
      qed (use eq gn in auto)
    qed
  next
    case on_pool
    show ?thesis
    proof (cases "sh_finalizing ?g")
      case True
      then have "on_segment_buffer_availability E i w ?s = ?s"
        using on_pool by (simp add: on_segment_buffer_availability_eq seg)
      then show ?thesis using d1 by auto
    next
      case False
      note o1 = downloading_seg [OF d1 i1]
      have eq: "on_segment_buffer_availability E i w ?s =
          (if e_pool E then request_segments E (sh_conn ?g) (unblock i (upd_seg i (\<lambda>g. g\<lparr>sh_buffer := Some []\<rparr>) ?s))
           else upd_seg i (\<lambda>g. g\<lparr>sh_waits := Some on_pool\<rparr>) ?s)"
        using on_pool False g nf by (simp add: on_segment_buffer_availability_eq seg)
      show ?thesis
      proof (cases "e_pool E")
        case True
        have "downloading R P N (upd_seg i (\<lambda>g. g\<lparr>sh_buffer := Some []\<rparr>) ?s)"
          by (rule downloading_upd [OF d1 i1]) (use o1 g False seg in \<open>auto simp: seg_ok_defs\<close>)
        then have "downloading R P N (unblock i (upd_seg i (\<lambda>g. g\<lparr>sh_buffer := Some []\<rparr>) ?s))"
          using i1 by (intro unblock_ok) simp_all
        then show ?thesis using eq True by auto
      next
        case no: False
        have "downloading R P N (upd_seg i (\<lambda>g. g\<lparr>sh_waits := Some on_pool\<rparr>) ?s)"
          by (rule downloading_upd [OF d1 i1]) (use o1 g False seg in \<open>auto simp: seg_ok_defs\<close>)
        then show ?thesis using eq no by auto
      qed
    qed
  qed
qed

subsection \<open>Additional connections\<close>

lemma migrate_segment_ok:
  assumes d: "downloading R P N s" and i: "i < length (so_segments s)" and j: "j < length (so_conns s)" "has_channel s (Some j)"
    and g: "sh_conn (seg_at s i) = None" "\<not> sh_done (seg_at s i)" "\<not> sh_finalizing (seg_at s i)"
  shows "downloading R P N (migrate_segment i j s)"
    "so_conns (migrate_segment i j s) = so_conns s" "so_state (migrate_segment i j s) = so_state s"
    "length (so_segments (migrate_segment i j s)) = length (so_segments s)"
proof -
  let ?g = "seg_at s i"
  let ?f = "\<lambda>g. g\<lparr>sh_handle := [], sh_outstanding := [], sh_request_offset := sh_offset g + sh_received g, sh_conn := Some j\<rparr>"
  have ok: "seg_ok R (P i) (net_after s N) i ?g" by (rule downloading_seg [OF d i])
  have chan: "has_channel s None" using downloading_simple(5) [OF d] i g(1) unfolding conns_ok_def by metis
  have u: "u64 (sh_offset ?g + sh_received ?g) = sh_offset ?g + sh_received ?g"
    using ok downloading_simple(6) [OF d] by (intro u64_id) (auto simp: seg_ok_def seg_range_ok_def)
  define cs where "cs = so_calls s @ Cancel_call None i #
      (if sh_handle ?g \<noteq> [] then [Close_call None (sh_handle ?g)] else []) @ [Open_call (Some j) i]"
  let ?t = "(upd_seg i ?f s)\<lparr>so_calls := cs\<rparr>"
  have handle: "?f ?g = ?g\<lparr>sh_outstanding := [], sh_request_offset := sh_offset ?g + sh_received ?g, sh_conn := Some j\<rparr>"
    if "sh_handle ?g = []"
    by (rule segment_handler.equality) (simp_all add: that)
  have "\<exists>p. migrate_segment i j s = upd_pipe None p ?t"
  proof (cases "sh_handle ?g = []")
    case True
    have "migrate_segment i j s = upd_pipe None (\<lambda>p. p\<lparr>pp_requested_offset := u64 (pp_requested_offset p - foldl (\<lambda>l x. u64 (l + x)) 0 (sh_outstanding ?g))\<rparr>) ?t"
      by (rule segment_op.equality) (use True chan g(1) i u in
        \<open>simp_all add: handle [OF True, unfolded seg_at_def] migrate_segment_def Let_def upd_seg_def add_call_def upd_pipe_def seg_at_def cs_def\<close>)
    then show ?thesis by blast
  next
    case False
    have "migrate_segment i j s = upd_pipe None (\<lambda>p. p\<lparr>pp_requested_offset := u64 (pp_requested_offset p - foldl (\<lambda>l x. u64 (l + x)) 0 (sh_outstanding ?g))\<rparr>) ?t"
      by (rule segment_op.equality) (use False chan g(1) i u in
        \<open>simp_all add: migrate_segment_def Let_def upd_seg_def add_call_def upd_pipe_def seg_at_def cs_def\<close>)
    then show ?thesis by blast
  qed
  then obtain p where eq: "migrate_segment i j s = upd_pipe None p ?t" by blast
  have nt: "net_after ?t N = (net_after s N)\<lparr>ne_queue := (ne_queue (net_after s N))(i := []),
      ne_opening := (ne_opening (net_after s N))(i := True)\<rparr>"
    by (simp add: net_after_def cs_def)
  have "downloading R P N ?t"
  proof (rule downloading_upd_net [OF d i, where f = ?f])
    show "seg_ok R (P i) (net_after ?t N) i (?f ?g)"
      using ok g unfolding nt by (auto simp: seg_ok_defs buffer_bytes_def)
    show "has_channel s (sh_conn (?f ?g))" "\<forall>k. sh_conn (?f ?g) = Some k \<longrightarrow> k < length (so_conns s)" using j by simp_all
    show "sh_stall_channel (?f ?g) \<noteq> Some c"
      if "k < length (so_segments s)" "k \<noteq> i" "sh_stall_channel (seg_at s k) = Some c" for k c
      using that downloading_simple(4) [OF d] i unfolding stalls_distinct_def by fastforce
    show "ne_queue (net_after ?t N) k = ne_queue (net_after s N) k \<and> ne_opening (net_after ?t N) k = ne_opening (net_after s N) k \<and>
        (\<forall>ch. sh_stall_channel (seg_at s k) = Some ch \<longrightarrow> ne_stalled (net_after ?t N) ch)"
      if "k < length (so_segments s)" "k \<noteq> i" for k
      using downloading_seg [OF d that(1)] that(2) unfolding nt by (auto simp: seg_ok_def seg_waits_ok_def)
  qed auto
  then show "downloading R P N (migrate_segment i j s)" unfolding eq by simp
  show "so_conns (migrate_segment i j s) = so_conns s" "so_state (migrate_segment i j s) = so_state s"
    "length (so_segments (migrate_segment i j s)) = length (so_segments s)"
    unfolding eq by (simp_all add: upd_pipe_def)
qed

lemma has_channel_cong: "so_conns t = so_conns s \<Longrightarrow> has_channel t (Some j) = has_channel s (Some j)"
  by (simp add: has_channel_def conn_at_def)

lemma foldl_migrate_ok:
  assumes "downloading R P N s" "\<forall>i \<in> set is. i < length (so_segments s)" "j < length (so_conns s)" "has_channel s (Some j)"
  shows "downloading R P N (foldl (\<lambda>s i. let seg = seg_at s i in
      if sh_conn seg = None \<and> \<not> sh_done seg \<and> \<not> sh_finalizing seg \<and> sh_index seg = j + 1 then migrate_segment i j s else s) s is)"
  using assms
proof (induction "is" arbitrary: s)
  case (Cons i "is")
  show ?case
  proof (cases "sh_conn (seg_at s i) = None \<and> \<not> sh_done (seg_at s i) \<and> \<not> sh_finalizing (seg_at s i) \<and> sh_index (seg_at s i) = j + 1")
    case True
    have i: "i < length (so_segments s)" using Cons.prems by simp
    note m = migrate_segment_ok [OF Cons.prems(1) i Cons.prems(3,4)]
    have "downloading R P N (migrate_segment i j s)" "so_conns (migrate_segment i j s) = so_conns s"
      "length (so_segments (migrate_segment i j s)) = length (so_segments s)" using m True by simp_all
    moreover have "has_channel (migrate_segment i j s) (Some j)"
      using has_channel_cong [OF calculation(2)] Cons.prems(4) by simp
    ultimately show ?thesis using Cons.IH [of "migrate_segment i j s"] Cons.prems True by (simp add: Let_def)
  next
    case False
    then show ?thesis using Cons.IH [of s] Cons.prems by (auto simp: Let_def)
  qed
qed simp

lemma add_conn_downloading: "downloading R P N s \<Longrightarrow> downloading R P N (s\<lparr>so_conns := so_conns s @ [c]\<rparr>)"
  by (auto simp: downloading_def stalls_distinct_def conns_ok_def seg_at_def net_after_def has_channel_def conn_at_def
      nth_append split: option.splits)

lemma start_next_segment_connection_ok:
  "downloading R P N s \<Longrightarrow> downloading R P N (start_next_segment_connection E s)"
proof (induction E s rule: start_next_segment_connection.induct)
  case (1 E s)
  show ?case
  proof (cases "length (so_conns s) + 1 < length (so_segments s)")
    case True
    have seg: "so_state s = filetransfer_segmented" "\<not> so_seg_failed s" using downloading_simple [OF 1(2)] by simp_all
    let ?s = "s\<lparr>so_conns := so_conns s @ [segment_conn_new]\<rparr>"
    have d: "downloading R P N ?s" by (rule add_conn_downloading [OF 1(2)])
    show ?thesis
    proof (cases "e_connect E (length (so_conns s))")
      case c: True
      then show ?thesis using d True seg by (subst start_next_segment_connection.simps) (simp add: Let_def)
    next
      case False
      have "downloading R P N (start_next_segment_connection E ?s)"
        by (rule 1(1) [OF _ True refl refl False d]) (use seg in simp)
      then show ?thesis using True seg False by (subst start_next_segment_connection.simps) (simp add: Let_def)
    qed
  next
    case False
    then show ?thesis using 1(2) by (subst start_next_segment_connection.simps) auto
  qed
qed

definition conn_established :: "nat \<Rightarrow> segment_op \<Rightarrow> segment_op" where
  "conn_established j s = s\<lparr>so_conns := (so_conns s)[j := (conn_at s j)\<lparr>sc_sftp := True\<rparr>]\<rparr>"

definition conn_lost :: "nat \<Rightarrow> segment_op \<Rightarrow> segment_op" where
  "conn_lost j s = s\<lparr>so_conns := (so_conns s)[j := (conn_at s j)\<lparr>sc_sftp := False\<rparr>]\<rparr>"

lemma conn_established_ok:
  assumes "downloading R P N s" "j < length (so_conns s)"
  shows "downloading R P N (conn_established j s)" "has_channel (conn_established j s) (Some j)"
proof -
  have "has_channel s ch \<Longrightarrow> has_channel (conn_established j s) ch" for ch
    using assms(2) by (auto simp: has_channel_def conn_established_def conn_at_def nth_list_update split: option.splits)
  then show "downloading R P N (conn_established j s)"
    using assms by (auto simp: downloading_def stalls_distinct_def conns_ok_def seg_at_def net_after_def conn_established_def)
  show "has_channel (conn_established j s) (Some j)" using assms(2)
    by (simp add: has_channel_def conn_established_def conn_at_def)
qed

lemma on_segment_connection_ready_ok:
  assumes "downloading R P N s" "j < length (so_conns s)"
  shows "downloading R P N (on_segment_connection_ready E j (conn_established j s))"
proof -
  let ?s = "conn_established j s"
  note c = conn_established_ok [OF assms]
  have "j < length (so_conns ?s)" using assms(2) by (simp add: conn_established_def)
  then have "downloading R P N (foldl (\<lambda>s i. let seg = seg_at s i in
      if sh_conn seg = None \<and> \<not> sh_done seg \<and> \<not> sh_finalizing seg \<and> sh_index seg = j + 1 then migrate_segment i j s else s)
      ?s [0..<length (so_segments ?s)])"
    using c by (intro foldl_migrate_ok) simp_all
  then show ?thesis using c(1) by (simp add: on_segment_connection_ready_def start_next_segment_connection_ok)
qed

lemma on_segment_connection_failed_ok:
  "downloading R P N s \<Longrightarrow> downloading R P N (on_segment_connection_failed E j s)"
  by (simp add: on_segment_connection_failed_def start_next_segment_connection_ok)

lemma on_segment_connection_dropped_ok:
  "downloading R P N s \<Longrightarrow> failed (on_segment_connection_dropped j (conn_lost j s))"
  by (simp add: on_segment_connection_dropped_def downloading_def conn_lost_def failed_def)

end
