(* ===== verification/Sftp_Segment_System.thy ===== *)
theory Sftp_Segment_System
  imports Sftp_Segment_Events
begin

text \<open>
  A segmented download and its environment as a transition system.  The channels answer the
  requests of one segment in order, a channel that was told to wait delivers nothing until it is
  released, and what they deliver are bytes of the remote file; the writers and the pool call back
  only who waits for them; the readers of the parts give what the parts hold or fail.  Everything
  else is free: which event comes next, how much a reply holds, every failure, the clock.
\<close>

type_synonym segment_system = "segment_op \<times> segment_net"

definition settle :: "segment_net \<Rightarrow> segment_op \<Rightarrow> segment_system" where
  "settle N s = (s\<lparr>so_calls := []\<rparr>, net_after s N)"

text \<open>A protocol error makes the library close the channel, which fails the segment.\<close>

definition after_error :: "continuation \<Rightarrow> nat \<Rightarrow> segment_op \<Rightarrow> segment_op" where
  "after_error c i s = (if c = cont_error then snd (segment_failure i s) else s)"

inductive transfer_step :: "string \<Rightarrow> (nat \<Rightarrow> string) \<Rightarrow> segment_system \<Rightarrow> segment_system \<Rightarrow> bool" for R P where
  Opened: "transfer_step R P (s, N) (settle (after_reply c (sh_conn (seg_at s i)) (take_open i N)) s')"
    if "i < length (so_segments s)" "ne_opening N i" "\<not> ne_stalled N (sh_conn (seg_at s i))"
      "(c, s') = on_segment_open E i handle s"
| Data: "transfer_step R P (s, N) (settle (after_reply c (sh_conn (seg_at s i)) (take_reply i N)) (after_error c i s'))"
    if "i < length (so_segments s)" "ne_queue N i = (off, n) # q" "\<not> ne_stalled N (sh_conn (seg_at s i))"
      "int (length data) \<le> n \<Longrightarrow> data = slice R off (int (length data))"
      "(c, s') = process_segment_data E i data s" "readers_ok E P s'"
| Status: "transfer_step R P (s, N) (settle N' s')"
    if "i < length (so_segments s)" "ne_queue N i \<noteq> [] \<and> N' = take_reply i N \<or> ne_opening N i \<and> N' = take_open i N"
      "\<not> ne_stalled N (sh_conn (seg_at s i))" "(c, s') = process_segment_status E i code s"
| Failure: "transfer_step R P (s, N) (settle N (snd (segment_failure i s)))" if "i < length (so_segments s)"
| Available: "transfer_step R P (s, N) (settle N s')"
    if "i < length (so_segments s)" "sh_waits (seg_at s i) = Some w"
      "s' = on_segment_buffer_availability E i w (clear_wait i s)" "readers_ok E P s'"
| Conn_ready: "transfer_step R P (s, N) (settle N (on_segment_connection_ready E j (conn_established j s)))"
    if "j < length (so_conns s)"
| Conn_failed: "transfer_step R P (s, N) (settle N (on_segment_connection_failed E j s))"
    if "j < length (so_conns s)" "\<not> has_channel s (Some j)"
| Conn_dropped: "transfer_step R P (s, N) (settle N (on_segment_connection_dropped j (conn_lost j s)))"
    if "j < length (so_conns s)"
| Mismatch: "transfer_step R P (s, N) (settle N (on_segment_hostkey_mismatch s))"
| Merge_event: "transfer_step R P (s, N) (settle N s')"
    if "so_state s = filetransfer_concat" "s' = on_concat_buffer_availability E from_writer s" "readers_ok E P s'"

inductive transfer_reachable :: "string \<Rightarrow> (nat \<Rightarrow> string) \<Rightarrow> segment_system \<Rightarrow> segment_system \<Rightarrow> bool" for R P \<sigma> where
  start: "transfer_reachable R P \<sigma> \<sigma>"
| step: "transfer_reachable R P \<sigma> \<tau> \<Longrightarrow> transfer_step R P \<tau> \<upsilon> \<Longrightarrow> transfer_reachable R P \<sigma> \<upsilon>"

subsection \<open>Resets only accumulate\<close>

lemma request_segments_resets [simp]: "so_resets (request_segments E ch s) = so_resets s"
proof -
  have "so_resets (snd (request_loop E ch i k s)) = so_resets s" for i k s
  proof (induction E ch i k s rule: request_loop.induct)
    case (2 E ch i k s)
    have send: "so_resets (send_read ch idx t) = so_resets t" for idx t by (simp add: send_read_def Let_def)
    obtain r s1 where nx: "next_request_segment ch s = (r, s1)" by force
    have "so_resets s1 = so_resets s" using nx by (auto simp: next_request_segment_def Let_def split: option.splits)
    then show ?case using 2 nx send by (cases r) auto
  qed simp
  then have "so_resets (snd (request_loop E ch 0 2 (upd_pipe ch (measure_rtt (e_now E)) s))) = so_resets s" by simp
  then show ?thesis by (auto simp: request_segments_def Let_def split: prod.splits)
qed

lemma get_next_grow: "resets_grow s (snd (get_next_segment_buffer E i s))"
  using get_next_frame(4) [of E i s] by (simp add: resets_grow_def)

lemma finalize_segment_grow: "so_resets t = so_resets s \<Longrightarrow> resets_grow s (finalize_segment E i t)"
  by (auto simp: finalize_segment_def Let_def resets_grow_def fail_segments_def
      intro!: start_concat_grow [unfolded resets_grow_def] split: aio_result.splits)

lemma resets_grow_eq: "resets_grow s t \<Longrightarrow> so_resets u = so_resets t \<Longrightarrow> resets_grow s u"
  by (simp add: resets_grow_def)

lemma on_segment_open_grow: "resets_grow s (snd (on_segment_open E i h s))"
proof -
  let ?s = "upd_seg i (\<lambda>g. g\<lparr>sh_handle := h\<rparr>) s" and ?t = "upd_seg i (\<lambda>g. g\<lparr>sh_writer := True\<rparr>) (upd_seg i (\<lambda>g. g\<lparr>sh_handle := h\<rparr>) s)"
  obtain r s1 where get: "get_next_segment_buffer E i ?t = (r, s1)" by force
  have "resets_grow s s1" using get_next_grow [of ?t E i] get by (simp add: resets_grow_def)
  then show ?thesis using get by (cases r) (auto simp: on_segment_open_def Let_def resets_grow_def)
qed

lemma process_segment_data_grow: "resets_grow s (snd (process_segment_data E i data s))"
proof (cases "sh_outstanding (seg_at s i)")
  case (Cons expected rest)
  show ?thesis
  proof (cases "sh_buffer (seg_at s i)")
    case (Some b)
    define s3 where "s3 = upd_pipe (sh_conn (seg_at s i)) (\<lambda>p. p\<lparr>pp_response_offset := u64 (pp_response_offset p + int (length data))\<rparr>)
      (upd_seg i (\<lambda>g. g\<lparr>sh_buffer := Some (b @ data), sh_received := u64 (sh_received g + int (length data))\<rparr>)
        (upd_seg i (\<lambda>g. g\<lparr>sh_outstanding := rest\<rparr>) s))"
    have r3: "so_resets s3 = so_resets s" by (simp add: s3_def)
    obtain r s4 where get: "get_next_segment_buffer E i s3 = (r, s4)" by force
    have "resets_grow s s4" using get_next_grow [of s3 E i] get r3 by (simp add: resets_grow_def)
    then show ?thesis using Cons Some get r3 finalize_segment_grow [OF r3, of E i]
      by (cases r) (auto simp: process_segment_data_def Let_def s3_def [symmetric] resets_grow_def fail_segments_def)
  qed (use Cons in \<open>simp add: process_segment_data_def Let_def\<close>)
qed (simp add: process_segment_data_def Let_def)

lemma process_segment_status_grow: "resets_grow s (snd (process_segment_status E i code s))"
proof -
  have "resets_grow s (finalize_segment E i (upd_seg i (\<lambda>g. g\<lparr>sh_outstanding := tl (sh_outstanding g)\<rparr>) s))"
    by (rule finalize_segment_grow) simp
  then show ?thesis by (simp add: process_segment_status_def Let_def) (simp add: resets_grow_def fail_segments_def)
qed

lemma availability_grow: "resets_grow s (on_segment_buffer_availability E i w (clear_wait i s))"
proof -
  let ?s = "clear_wait i s"
  have r: "so_resets ?s = so_resets s" by (simp add: clear_wait_def)
  obtain x s1 where get: "get_next_segment_buffer E i ?s = (x, s1)" by force
  have "resets_grow s s1" using get_next_grow [of ?s E i] get r by (simp add: resets_grow_def)
  moreover have "so_resets (unblock i t) = so_resets t" for t by (simp add: unblock_def split: option.splits)
  moreover note finalize_segment_grow [OF r, of E i]
  ultimately show ?thesis using get r by (auto simp: on_segment_buffer_availability_eq resets_grow_def)
qed

lemma migrate_resets [simp]: "so_resets (migrate_segment i j s) = so_resets s"
  by (simp add: migrate_segment_def Let_def)

lemma start_next_resets [simp]: "so_resets (start_next_segment_connection E s) = so_resets s"
  by (induction E s rule: start_next_segment_connection.induct) (subst start_next_segment_connection.simps, simp add: Let_def)

lemma ready_resets [simp]: "so_resets (on_segment_connection_ready E j s) = so_resets s"
proof -
  have "so_resets (foldl (\<lambda>s i. let seg = seg_at s i in
      if sh_conn seg = None \<and> \<not> sh_done seg \<and> \<not> sh_finalizing seg \<and> sh_index seg = j + 1 then migrate_segment i j s else s) s is) = so_resets s" for "is"
    by (induction "is" arbitrary: s) (simp_all add: Let_def)
  then show ?thesis by (simp add: on_segment_connection_ready_def)
qed

lemma concat_availability_grow: "resets_grow s (on_concat_buffer_availability E w s)"
  by (simp add: on_concat_buffer_availability_def)

lemma settle_failed: "failed (fst (settle N s)) \<longleftrightarrow> failed s"
  by (simp add: settle_def failed_def)

lemma failed_step: "transfer_step R P \<sigma> \<tau> \<Longrightarrow> failed (fst \<sigma>) \<Longrightarrow> failed (fst \<tau>)"
proof (induction rule: transfer_step.induct)
  case (Opened i s N c s' E h)
  then show ?case using on_segment_open_grow [of s E i h] failed_grow by (simp add: settle_failed) (metis snd_conv)
next
  case (Data i s N off n q data c s' E)
  then have "failed s'" using process_segment_data_grow [of s E i data] failed_grow by (metis fst_conv snd_conv)
  then show ?case by (simp add: settle_failed after_error_def segment_failure_def) (simp add: failed_def)
next
  case (Status i s N N' c s' E code)
  then show ?case using process_segment_status_grow [of s E i code] failed_grow by (simp add: settle_failed) (metis snd_conv)
next
  case (Available i s w s' E N)
  then show ?case using availability_grow [of s E i w] failed_grow by (simp add: settle_failed)
next
  case (Merge_event s s' E w N)
  then show ?case using concat_availability_grow [of s E w] failed_grow by (simp add: settle_failed)
qed (simp_all add: settle_def segment_failure_def failed_def on_segment_connection_failed_def
  on_segment_connection_dropped_def on_segment_hostkey_mismatch_def conn_established_def conn_lost_def)

subsection \<open>The phases are kept\<close>

lemma settle_phase:
  "transfer_phase R P N s \<Longrightarrow> transfer_phase R P (snd (settle N s)) (fst (settle N s))"
proof -
  have *: "seg_at (s\<lparr>so_calls := []\<rparr>) k = seg_at s k" "net_after (s\<lparr>so_calls := []\<rparr>) M = M"
    "has_channel (s\<lparr>so_calls := []\<rparr>) ch = has_channel s ch" for k M ch
    by (simp_all add: seg_at_def net_after_def has_channel_def conn_at_def split: option.splits)
  have mb: "merged_bytes P (s\<lparr>so_calls := []\<rparr>) = merged_bytes P s" by (rule merged_bytes_cong) simp
  have "downloading R P N s \<Longrightarrow> downloading R P (net_after s N) (s\<lparr>so_calls := []\<rparr>)"
    by (simp add: downloading_def stalls_distinct_def conns_ok_def *)
  moreover have "merging R P N s \<Longrightarrow> merging R P (net_after s N) (s\<lparr>so_calls := []\<rparr>)"
    by (cases "so_reader s") (auto simp: merging_def merge_progress_def segs_complete_def part_bytes_def * mb)
  ultimately show "transfer_phase R P N s \<Longrightarrow> transfer_phase R P (snd (settle N s)) (fst (settle N s))"
    by (auto simp: transfer_phase_def settle_def failed_def)
qed

lemma merging_upd_other:
  assumes "merging R P N s" "so_segments t = so_segments s" "so_remoteFileSize t = so_remoteFileSize s" "so_calls t = so_calls s"
    "so_state t = so_state s" "so_target t = so_target s" "so_concat_finalizing t = so_concat_finalizing s"
    "so_reader t = so_reader s" "so_buffer t = so_buffer s" "so_concat_part t = so_concat_part s"
    "so_concat_received t = so_concat_received s" "so_resets t = so_resets s \<or> so_concat_finalizing s"
  shows "merging R P N t"
  using assms segs_complete_cong [OF _ assms(2-4)] merged_bytes_cong [OF assms(2), of P]
  by (auto simp: merging_def merge_progress_def split: option.splits)

lemma merging_fail: "merging R P N s \<Longrightarrow> r \<noteq> reply_ok \<Longrightarrow> transfer_phase R P N (fail_segments r s)"
proof (cases "so_concat_finalizing s")
  case True
  assume "merging R P N s"
  then have "merging R P N (fail_segments r s)"
    by (rule merging_upd_other) (simp_all add: fail_segments_def trigger_reset_def True)
  then show ?thesis by auto
next
  case False
  assume "merging R P N s" "r \<noteq> reply_ok"
  then show ?thesis using False by (auto simp: merging_def failed_def transfer_phase_def)
qed

lemma merging_clear_wait:
  assumes m: "merging R P N s" and i: "i < length (so_segments s)"
  shows "merging R P N (clear_wait i s)"
proof -
  have seg: "seg_at (clear_wait i s) k = (if k = i then (seg_at s i)\<lparr>sh_waits := None\<rparr> else seg_at s k)" for k
    using i by (simp add: clear_wait_def)
  have pb: "part_bytes P (clear_wait i s) = part_bytes P s" by (simp add: fun_eq_iff part_bytes_def seg)
  have mb: "merged_bytes P (clear_wait i s) = merged_bytes P s" by (simp add: fun_eq_iff merged_bytes_def pb)
  have "plan_ranges (so_segments (clear_wait i s)) = plan_ranges (so_segments s)"
    unfolding clear_wait_def by (rule plan_ranges_upd) (use i in simp_all)
  then have "segs_complete R P N (clear_wait i s)"
    using m by (simp add: merging_def segs_complete_def pb seg) (simp add: clear_wait_def)
  moreover have "merge_progress P (clear_wait i s) = merge_progress P s"
    unfolding merge_progress_def mb by (cases "so_reader s") (simp_all add: clear_wait_def)
  ultimately show ?thesis using m by (simp add: merging_def) (simp add: clear_wait_def)
qed

lemma merging_step:
  "transfer_step R P \<sigma> \<tau> \<Longrightarrow> merging R P (snd \<sigma>) (fst \<sigma>) \<Longrightarrow> so_calls (fst \<sigma>) = [] \<Longrightarrow> transfer_phase R P (snd \<tau>) (fst \<tau>)"
proof (induction rule: transfer_step.induct)
  case (Opened i s N c s' E h)
  then show ?case by (auto simp: merging_def segs_complete_def)
next
  case (Data i s N off n q data c s' E)
  then show ?case by (auto simp: merging_def segs_complete_def)
next
  case (Status i s N N' c s' E code)
  then show ?case by (auto simp: merging_def segs_complete_def)
next
  case (Failure i s N)
  then show ?case using merging_fail [of R P N s reply_error] by (intro settle_phase) (simp add: segment_failure_def)
next
  case (Available i s w s' E N)
  have m: "merging R P N s" using Available by simp
  then have "sh_done (seg_at s i)" "\<not> sh_writer (seg_at s i)" using Available(1) by (auto simp: merging_def segs_complete_def)
  then have "s' = clear_wait i s" using Available(1,3)
    by (auto simp: on_segment_buffer_availability_eq clear_wait_def)
  then show ?case using merging_clear_wait [OF m Available(1)] by (intro settle_phase) auto
next
  case (Conn_ready j s N E)
  then have m: "merging R P N s" by simp
  then have "on_segment_connection_ready E j (conn_established j s) = conn_established j s"
    by (simp add: on_segment_connection_ready_def conn_established_def merging_def)
  moreover have "merging R P N (conn_established j s)"
    by (rule merging_upd_other [OF m]) (simp_all add: conn_established_def)
  ultimately show ?case by (intro settle_phase) (simp add: transfer_phase_def)
next
  case (Conn_failed j s N E)
  then have "merging R P N (on_segment_connection_failed E j s)"
    by (simp add: on_segment_connection_failed_def merging_def)
  then show ?case by (intro settle_phase transfer_phase_intros)
next
  case (Conn_dropped j s N)
  then have m: "merging R P N s" by simp
  then have "on_segment_connection_dropped j (conn_lost j s) = conn_lost j s"
    by (simp add: on_segment_connection_dropped_def conn_lost_def merging_def)
  moreover have "merging R P N (conn_lost j s)"
    by (rule merging_upd_other [OF m]) (simp_all add: conn_lost_def)
  ultimately show ?case by (intro settle_phase) (simp add: transfer_phase_def)
next
  case (Mismatch s N)
  then show ?case using merging_fail [of R P N s reply_criticalerror]
    by (intro settle_phase) (simp add: on_segment_hostkey_mismatch_def)
next
  case (Merge_event s s' E w N)
  have m: "merging R P N s" using Merge_event by simp
  have "readers_ok E P s" if "s' = concat_pump E s"
    using that Merge_event(3) concat_pump_same [of s E] readers_ok_cong [of s' s E P] by (simp add: same_parts_def)
  moreover have "merging R P N (concat_finalize E s)" if "so_concat_finalizing s"
    using m that by (intro concat_finalize_ok) (simp_all add: merging_def)
  ultimately have "merging R P N s' \<or> failed s'"
    using Merge_event(2) m concat_pump_ok [OF m, of E] by (auto simp: on_concat_buffer_availability_def split: if_splits)
  then show ?case by (intro settle_phase) auto
qed

lemma downloading_step:
  "transfer_step R P \<sigma> \<tau> \<Longrightarrow> downloading R P (snd \<sigma>) (fst \<sigma>) \<Longrightarrow> so_calls (fst \<sigma>) = [] \<Longrightarrow> transfer_phase R P (snd \<tau>) (fst \<tau>)"
proof (induction rule: transfer_step.induct)
  case (Opened i s N c s' E h)
  then have "transfer_phase R P (after_reply c (sh_conn (seg_at s i)) (take_open i N)) s'"
    using on_segment_open_ok(1) [of R P N s i E h] by (metis fst_conv snd_conv)
  then show ?case by (rule settle_phase)
next
  case (Data i s N off n q data c s' E)
  have d: "downloading R P N s" and calls: "so_calls s = []" using Data by simp_all
  have r: "readers_ok E P (snd (process_segment_data E i data s))" using Data(5,6) by (metis snd_conv)
  note pd = process_segment_data_ok [OF d calls Data(1,2,3) Data(4) r, unfolded Data(5) [symmetric] fst_conv snd_conv]
  have "transfer_phase R P (after_reply c (sh_conn (seg_at s i)) (take_reply i N)) (after_error c i s')"
  proof (cases "c = cont_error")
    case True
    then have "so_resets s' = []" using pd(3) by simp
    then have "failed (fail_segments reply_error s')" by (simp add: fail_segments_failed)
    then show ?thesis using True by (auto simp: after_error_def segment_failure_def)
  qed (use pd(1) in \<open>auto simp: after_error_def\<close>)
  then show ?case by (rule settle_phase)
next
  case (Status i s N N' c s' E code)
  then have "failed s'" using process_segment_status_ok [of R P N s i E code] by (metis fst_conv snd_conv)
  then show ?case by (intro settle_phase) auto
next
  case (Failure i s N)
  then have "failed (fail_segments reply_error s)" using downloading_simple(3) fail_segments_failed by fastforce
  then show ?case by (intro settle_phase) (auto simp: segment_failure_def)
next
  case (Available i s w s' E N)
  then show ?case using on_segment_buffer_availability_ok [of R P N s i w E] by (intro settle_phase) simp
next
  case (Conn_ready j s N E)
  then show ?case using on_segment_connection_ready_ok by (intro settle_phase) fastforce
next
  case (Conn_failed j s N E)
  then show ?case using on_segment_connection_failed_ok by (intro settle_phase) fastforce
next
  case (Conn_dropped j s N)
  then show ?case using on_segment_connection_dropped_ok by (intro settle_phase) fastforce
next
  case (Mismatch s N)
  then have "failed (fail_segments reply_criticalerror s)" using downloading_simple(3) fail_segments_failed by fastforce
  then show ?case by (intro settle_phase) (auto simp: on_segment_hostkey_mismatch_def)
next
  case (Merge_event s s' E w N)
  then show ?case by (simp add: downloading_def)
qed

lemma settle_calls: "so_calls (fst (settle N s)) = []"
  by (simp add: settle_def)

lemma step_calls: "transfer_step R P \<sigma> \<tau> \<Longrightarrow> so_calls (fst \<tau>) = []"
  by (cases rule: transfer_step.cases) (auto simp: settle_def)

lemma transfer_phase_reachable:
  "transfer_reachable R P \<sigma> \<tau> \<Longrightarrow> transfer_phase R P (snd \<sigma>) (fst \<sigma>) \<Longrightarrow> so_calls (fst \<sigma>) = [] \<Longrightarrow>
     transfer_phase R P (snd \<tau>) (fst \<tau>) \<and> so_calls (fst \<tau>) = []"
proof (induction rule: transfer_reachable.induct)
  case (step \<tau> \<upsilon>)
  then have ph: "transfer_phase R P (snd \<tau>) (fst \<tau>)" "so_calls (fst \<tau>) = []" by simp_all
  then have "transfer_phase R P (snd \<upsilon>) (fst \<upsilon>)"
    using downloading_step [OF step(2)] merging_step [OF step(2)] failed_step [OF step(2)]
    by (auto simp: transfer_phase_def)
  then show ?case using step_calls [OF step(2)] by simp
qed simp

text \<open>A transfer that ended with success has written the remote file.\<close>

lemma transfer_phase_ok:
  assumes "transfer_phase R P N s" "so_resets s \<noteq> []" "hd (so_resets s) = reply_ok"
  shows "concat (so_target s) = R"
  using assms by (auto simp: transfer_phase_def downloading_def failed_def merging_def split: if_splits)

end
