(* ===== verification/Sftp_Segment_Start.thy ===== *)
theory Sftp_Segment_Start
  imports Sftp_Segment_System
begin

text \<open>
  The start of a segmented download: with or without the parts of an interrupted one, it enters a
  phase of the download.
\<close>

text \<open>An operation before \<open>start_segmented\<close>.\<close>

definition transfer_new :: "wstring \<Rightarrow> int \<Rightarrow> local_files \<Rightarrow> segment_op" where
  "transfer_new name fsize files = \<lparr>so_state = filetransfer_transfer, so_remoteFileSize = fsize, so_localName = name,
     so_sftp = True, so_handle = [], so_segments = [], so_segments_done = 0, so_primary_pipe = segment_pipe_new,
     so_seg_failed = False, so_conns = [], so_remote_file = [], so_writer = False, so_target = [], so_reader = None,
     so_buffer = None, so_concat_part = 0, so_concat_received = 0, so_concat_finalizing = False, so_resets = [],
     so_calls = [], so_files = files\<rparr>"

definition with_plan :: "nat \<Rightarrow> segment_op \<Rightarrow> segment_op" where
  "with_plan count s = s\<lparr>so_segments := segment_plan (so_remoteFileSize s) count\<rparr>"

definition manifest_valid :: "libfz \<Rightarrow> library_env \<Rightarrow> nat \<Rightarrow> segment_op \<Rightarrow> bool" where
  "manifest_valid L E count s = read_segment_manifest L (e_read_opens E) (e_read_io E) (so_remoteFileSize s) (with_plan count s)"

definition file_bytes :: "local_files \<Rightarrow> wstring \<Rightarrow> string" where
  "file_bytes fs p = (case fs p of None \<Rightarrow> [] | Some b \<Rightarrow> b)"

text \<open>What a started download keeps of part \<open>k\<close>.\<close>

definition kept_part :: "libfz \<Rightarrow> library_env \<Rightarrow> nat \<Rightarrow> segment_op \<Rightarrow> nat \<Rightarrow> string" where
  "kept_part L E count s k =
     (if manifest_valid L E count s then file_bytes (so_files s) (segment_part_path (so_localName s) k) else [])"

text \<open>The parts left by an interrupted download are beginnings of their ranges of the remote
  file.\<close>

definition parts_intact :: "string \<Rightarrow> libfz \<Rightarrow> library_env \<Rightarrow> nat \<Rightarrow> segment_op \<Rightarrow> bool" where
  "parts_intact R L E count s \<longleftrightarrow>
     (\<forall>k < count. let p = kept_part L E count s k; g = segment_plan (so_remoteFileSize s) count ! k
       in int (length p) \<le> sh_length g \<and> p = slice R (sh_offset g) (int (length p)))"

lemma load_part_sizes_ok:
  assumes "\<forall>g \<in> set segs. int (length (file_bytes fs (segment_part_path name (sh_index g)))) \<le> sh_length g \<and> sh_length g < 2 ^ 63"
  shows "load_part_sizes fs name segs =
    (True, map (\<lambda>g. g\<lparr>sh_part_size := int (length (file_bytes fs (segment_part_path name (sh_index g))))\<rparr>) segs)"
  using assms
proof (induction segs)
  case (Cons g segs)
  have "(let fsize = file_get_size fs (segment_part_path name (sh_index g)) in if fsize > 0 then u64 fsize else 0) =
      int (length (file_bytes fs (segment_part_path name (sh_index g))))"
    using Cons.prems by (auto simp: file_get_size_def file_bytes_def Let_def split: option.splits)
  then show ?case using Cons by (simp add: Let_def)
qed simp

text \<open>A segment of a plan that has been initialised with the size of its part.\<close>

definition started_segment :: "int \<Rightarrow> segment_handler \<Rightarrow> segment_handler" where
  "started_segment p g = init_segment (g\<lparr>sh_part_size := p\<rparr>)"

lemma started_segment_fields:
  assumes "0 \<le> sh_offset g" "0 \<le> p" "sh_offset g + p < 2 ^ 64"
  shows "started_segment p g = g\<lparr>sh_part_size := p, sh_received := p, sh_request_offset := sh_offset g + p,
     sh_done := (p \<ge> sh_length g \<or> sh_done g)\<rparr>"
  by (rule segment_handler.equality) (use assms in \<open>auto simp: started_segment_def init_segment_def Let_def\<close>)

lemma foldl_open_frame:
  "so_segments (foldl (\<lambda>s i. if \<not> sh_done (seg_at s i) then add_call (Open_call None i) s else s) s is) = so_segments s"
  "so_resets (foldl (\<lambda>s i. if \<not> sh_done (seg_at s i) then add_call (Open_call None i) s else s) s is) = so_resets s"
  "so_conns (foldl (\<lambda>s i. if \<not> sh_done (seg_at s i) then add_call (Open_call None i) s else s) s is) = so_conns s"
  "so_state (foldl (\<lambda>s i. if \<not> sh_done (seg_at s i) then add_call (Open_call None i) s else s) s is) = so_state s"
  "so_seg_failed (foldl (\<lambda>s i. if \<not> sh_done (seg_at s i) then add_call (Open_call None i) s else s) s is) = so_seg_failed s"
  "so_reader (foldl (\<lambda>s i. if \<not> sh_done (seg_at s i) then add_call (Open_call None i) s else s) s is) = so_reader s"
  "so_buffer (foldl (\<lambda>s i. if \<not> sh_done (seg_at s i) then add_call (Open_call None i) s else s) s is) = so_buffer s"
  "so_concat_finalizing (foldl (\<lambda>s i. if \<not> sh_done (seg_at s i) then add_call (Open_call None i) s else s) s is) = so_concat_finalizing s"
  "so_remoteFileSize (foldl (\<lambda>s i. if \<not> sh_done (seg_at s i) then add_call (Open_call None i) s else s) s is) = so_remoteFileSize s"
  "so_segments_done (foldl (\<lambda>s i. if \<not> sh_done (seg_at s i) then add_call (Open_call None i) s else s) s is) = so_segments_done s"
  "so_sftp (foldl (\<lambda>s i. if \<not> sh_done (seg_at s i) then add_call (Open_call None i) s else s) s is) = so_sftp s"
  by (induction "is" arbitrary: s) simp_all

lemma foldl_open_net:
  "ne_queue (net_after (foldl (\<lambda>s i. if \<not> sh_done (seg_at s i) then add_call (Open_call None i) s else s) s is) N) k =
     ne_queue (net_after s N) k"
  "ne_opening (net_after (foldl (\<lambda>s i. if \<not> sh_done (seg_at s i) then add_call (Open_call None i) s else s) s is) N) k \<longleftrightarrow>
     ne_opening (net_after s N) k \<or> k \<in> set is \<and> \<not> sh_done (seg_at s k)"
  by (induction "is" arbitrary: s) auto

lemma plan_nth_facts:
  assumes "tiles 0 (plan_ranges segs) (int (length R))" "k < length segs"
  shows "0 \<le> sh_offset (segs ! k)" "0 \<le> sh_length (segs ! k)" "sh_offset (segs ! k) + sh_length (segs ! k) \<le> int (length R)"
  using tiles_nth [OF assms(1), of k] assms(2) by (simp_all add: plan_ranges_def)

text \<open>The state in which the download starts, after the parts have been looked at.\<close>

definition started :: "nat \<Rightarrow> (nat \<Rightarrow> string) \<Rightarrow> segment_op \<Rightarrow> segment_op \<Rightarrow> bool" where
  "started count P s t \<longleftrightarrow>
     so_segments t = map (\<lambda>k. started_segment (int (length (P k))) (segment_plan (so_remoteFileSize s) count ! k)) [0..<count] \<and>
     so_segments_done t = length (filter sh_done (so_segments t)) \<and> so_state t = filetransfer_segmented \<and>
     so_remoteFileSize t = so_remoteFileSize s \<and> so_resets t = [] \<and> so_calls t = [] \<and> so_conns t = [] \<and> so_sftp t \<and>
     \<not> so_seg_failed t \<and> so_reader t = None \<and> so_buffer t = None \<and> \<not> so_concat_finalizing t"

lemma start_segmented_started:
  assumes s: "s = transfer_new name (int (length R)) files" and size: "int (length R) < 2 ^ 63" "0 < count"
    and parts: "parts_intact R L E count s" and rep: "start_segmented L E count s = (reply_wouldblock, s')"
  obtains t where "started count (kept_part L E count s) s t"
    "s' = (if so_segments_done t = count then start_concat E t
      else start_next_segment_connection E
        (foldl (\<lambda>s i. if \<not> sh_done (seg_at s i) then add_call (Open_call None i) s else s)
          (t\<lparr>so_remote_file := e_server_name E\<rparr>) [0..<length (so_segments t)]))"
proof -
  let ?P = "kept_part L E count s" and ?plan = "segment_plan (int (length R)) count"
  define s1 where "s1 = with_plan count s"
  have sz: "so_remoteFileSize s = int (length R)" "u64 (int (length R)) = int (length R)" using s size by (simp_all add: transfer_new_def)
  have s1: "s\<lparr>so_segments := so_segments s @ segment_plan (u64 (so_remoteFileSize s)) count\<rparr> = s1"
    using sz s by (simp add: s1_def with_plan_def transfer_new_def)
  have fs1: "so_files s1 = so_files s" "so_localName s1 = so_localName s" "so_segments s1 = ?plan"
    using sz by (simp_all add: s1_def with_plan_def)
  define valid where "valid = manifest_valid L E count s"
  have valid: "read_segment_manifest L (e_read_opens E) (e_read_io E) (u64 (so_remoteFileSize s)) s1 = valid"
    using sz by (simp add: valid_def manifest_valid_def s1_def)
  note plan = segment_plan_spec [of "int (length R)" count]
  have tiles: "tiles 0 (plan_ranges ?plan) (int (length R))" using plan(1) size by simp
  have idx: "sh_index (?plan ! k) = k" "sh_part_size (?plan ! k) = 0" if "k < count" for k
    using plan(2) [OF _ size that] by (metis of_nat_0_le_iff segment_handler.select_convs(1) segment_handler_new_def,
      metis of_nat_0_le_iff segment_handler.select_convs(5) segment_handler_new_def)
  have len: "sh_length (?plan ! k) < 2 ^ 63" if "k < count" for k
    using plan_nth_facts [OF tiles, of k] that size by simp
  define loaded where "loaded = (if valid then load_part_sizes (so_files s1) (so_localName s1) (so_segments s1) else (False, so_segments s1))"
  have load: "loaded = (valid, map (\<lambda>k. (?plan ! k)\<lparr>sh_part_size := int (length (?P k))\<rparr>) [0..<count])"
  proof (cases valid)
    case True
    have P: "?P k = file_bytes (so_files s) (segment_part_path (so_localName s) k)" for k
      using True by (simp add: kept_part_def valid_def)
    have "\<forall>g \<in> set ?plan. int (length (file_bytes (so_files s) (segment_part_path (so_localName s) (sh_index g)))) \<le> sh_length g \<and> sh_length g < 2 ^ 63"
    proof
      fix g assume "g \<in> set ?plan"
      then obtain k where k: "k < count" "g = ?plan ! k" by (auto simp: in_set_conv_nth)
      then show "int (length (file_bytes (so_files s) (segment_part_path (so_localName s) (sh_index g)))) \<le> sh_length g \<and> sh_length g < 2 ^ 63"
        using parts len idx(1) P sz by (simp add: parts_intact_def Let_def)
    qed
    note l = load_part_sizes_ok [OF this]
    have "map (\<lambda>g. g\<lparr>sh_part_size := int (length (file_bytes (so_files s) (segment_part_path (so_localName s) (sh_index g))))\<rparr>) ?plan =
        map (\<lambda>k. (?plan ! k)\<lparr>sh_part_size := int (length (?P k))\<rparr>) [0..<count]"
      by (rule nth_equalityI) (use idx(1) P in simp_all)
    then show ?thesis using True l by (simp add: loaded_def fs1)
  next
    case False
    have "(?plan ! k)\<lparr>sh_part_size := int (length (?P k))\<rparr> = ?plan ! k" if "k < count" for k
      by (rule segment_handler.equality) (use False idx(2) [OF that] in \<open>simp_all add: kept_part_def valid_def\<close>)
    then have "map (\<lambda>k. (?plan ! k)\<lparr>sh_part_size := int (length (?P k))\<rparr>) [0..<count] = ?plan"
      by (intro nth_equalityI) simp_all
    then show ?thesis using False by (simp add: loaded_def fs1)
  qed
  define s2 where "s2 = s1\<lparr>so_segments := snd loaded\<rparr>"
  define written where "written = (if fst loaded then (True, s2)
       else write_segment_manifest (e_write_opens E) (e_write_io E) (u64 (so_remoteFileSize s))
         (s2\<lparr>so_files := delete_segment_files (so_localName s2) max_segment_count (so_files s2)\<rparr>))"
  have frame: "\<exists>f. snd written = s2\<lparr>so_files := f\<rparr>"
  proof (cases "fst loaded")
    case True
    then show ?thesis by (intro exI [of _ "so_files s2"]) (simp add: written_def)
  next
    case False
    then show ?thesis unfolding written_def write_segment_manifest_def Let_def by (auto split: prod.splits)
  qed
  define t where "t = (init_segments (snd written))\<lparr>so_state := filetransfer_segmented\<rparr>"
  have ss: "start_segmented L E count s =
      (if e_server_name E = [] then (reply_error, s)
       else if \<not> fst written then (reply_writefailed, snd written)
       else if so_segments_done t = count then (reply_wouldblock, start_concat E t)
       else (reply_wouldblock, start_next_segment_connection E
         (foldl (\<lambda>s i. if \<not> sh_done (seg_at s i) then add_call (Open_call None i) s else s)
           (t\<lparr>so_remote_file := e_server_name E\<rparr>) [0..<length (so_segments t)])))"
    unfolding start_segmented_def Let_def s1 valid loaded_def [symmetric] s2_def [symmetric] written_def [symmetric] t_def [symmetric]
    by (rule refl)
  obtain f where f: "snd written = s2\<lparr>so_files := f\<rparr>" using frame by blast
  have segs: "so_segments t = map (\<lambda>k. started_segment (int (length (?P k))) (segment_plan (so_remoteFileSize s) count ! k)) [0..<count]"
    using sz load by (simp add: t_def init_segments_def Let_def f s2_def started_segment_def comp_def)
  have "started count ?P s t"
    unfolding started_def segs [symmetric]
    using s by (simp add: t_def init_segments_def Let_def f s2_def s1_def with_plan_def transfer_new_def)
  moreover have "s' = (if so_segments_done t = count then start_concat E t
      else start_next_segment_connection E
        (foldl (\<lambda>s i. if \<not> sh_done (seg_at s i) then add_call (Open_call None i) s else s)
          (t\<lparr>so_remote_file := e_server_name E\<rparr>) [0..<length (so_segments t)]))"
    using rep unfolding ss by (auto simp: reply_defs split: if_splits)
  ultimately show thesis by (rule that)
qed

text \<open>A started download is downloading, or it has merged or failed already.\<close>

lemma started_phase:
  assumes st: "started count P s t" and sz: "so_remoteFileSize s = int (length R)" "int (length R) < 2 ^ 63" "0 < count"
    and parts: "\<And>k. k < count \<Longrightarrow> int (length (P k)) \<le> sh_length (segment_plan (int (length R)) count ! k) \<and>
      P k = slice R (sh_offset (segment_plan (int (length R)) count ! k)) (int (length (P k)))"
    and r: "readers_ok E P s'"
    and s': "s' = (if so_segments_done t = count then start_concat E t
      else start_next_segment_connection E
        (foldl (\<lambda>s i. if \<not> sh_done (seg_at s i) then add_call (Open_call None i) s else s)
          (t\<lparr>so_remote_file := name\<rparr>) [0..<length (so_segments t)]))"
  shows "transfer_phase R P segment_net_new s'"
proof -
  let ?plan = "segment_plan (int (length R)) count"
  have tiles: "tiles 0 (plan_ranges ?plan) (int (length R))" using segment_plan_spec(1) sz by simp
  have new: "?plan ! k = segment_handler_new k (sh_offset (?plan ! k)) (sh_length (?plan ! k))" if "k < count" for k
    using segment_plan_spec(2) [of "int (length R)" count k] sz that
    by (metis of_nat_0_le_iff segment_handler.select_convs(3) segment_handler_new_def)
  note pos = plan_nth_facts [OF tiles, simplified]
  have seg: "seg_at t k = (?plan ! k)\<lparr>sh_part_size := int (length (P k)), sh_received := int (length (P k)),
      sh_request_offset := sh_offset (?plan ! k) + int (length (P k)), sh_done := int (length (P k)) \<ge> sh_length (?plan ! k)\<rparr>"
    if "k < count" for k
  proof -
    have "seg_at t k = started_segment (int (length (P k))) (?plan ! k)"
      using st that sz(1) by (simp add: started_def seg_at_def)
    moreover have "sh_offset (?plan ! k) + int (length (P k)) < 2 ^ 64" using parts [OF that] pos(3) [OF that] sz(2) by simp
    moreover have "\<not> sh_done (?plan ! k)" using new [OF that] by (metis segment_handler.select_convs(15) segment_handler_new_def)
    ultimately show ?thesis using started_segment_fields pos(1) [OF that] by simp
  qed
  have len: "length (so_segments t) = count" using st by (simp add: started_def)
  have ranges: "plan_ranges (so_segments t) = plan_ranges ?plan"
    by (rule nth_equalityI) (use seg in \<open>simp_all add: plan_ranges_def len seg_at_def\<close>)
  have fields: "sh_index (seg_at t k) = k" "sh_conn (seg_at t k) = None" "sh_handle (seg_at t k) = []" "\<not> sh_writer (seg_at t k)"
    "sh_written (seg_at t k) = []" "sh_buffer (seg_at t k) = None" "sh_outstanding (seg_at t k) = []"
    "sh_stall_channel (seg_at t k) = None" "\<not> sh_finalizing (seg_at t k)" "sh_waits (seg_at t k) = None"
    if k: "k < count" for k
  proof -
    obtain off l where "?plan ! k = segment_handler_new k off l" using new [OF k] by blast
    then show "sh_index (seg_at t k) = k" "sh_conn (seg_at t k) = None" "sh_handle (seg_at t k) = []" "\<not> sh_writer (seg_at t k)"
      "sh_written (seg_at t k) = []" "sh_buffer (seg_at t k) = None" "sh_outstanding (seg_at t k) = []"
      "sh_stall_channel (seg_at t k) = None" "\<not> sh_finalizing (seg_at t k)" "sh_waits (seg_at t k) = None"
      unfolding seg [OF k] by (simp_all add: segment_handler_new_def)
  qed
  have ok: "seg_ok R (P k) N k (seg_at t k)" if k: "k < count" and N: "ne_queue N k = []" "ne_opening N k \<longrightarrow> \<not> sh_done (seg_at t k)" for k N
  proof -
    obtain off l where g: "?plan ! k = segment_handler_new k off l" using new [OF k] by blast
    have bound: "0 \<le> off" "off + l \<le> int (length R)" "int (length (P k)) \<le> l" and p: "slice R off (int (length (P k))) = P k"
      using pos [OF k] conjunct1 [OF parts [OF k]] conjunct2 [OF parts [OF k], symmetric] unfolding g
      by (simp_all add: segment_handler_new_def)
    have s: "seg_at t k = (segment_handler_new k off l)\<lparr>sh_part_size := int (length (P k)), sh_received := int (length (P k)),
        sh_request_offset := off + int (length (P k)), sh_done := int (length (P k)) \<ge> l\<rparr>"
      using seg [OF k] unfolding g by (simp add: segment_handler_new_def)
    have "seg_range_ok R k (seg_at t k)" using bound by (simp add: seg_range_ok_def s segment_handler_new_def)
    moreover have "seg_requests_ok (ne_queue N k) (seg_at t k)"
      using bound N(1) by (simp add: seg_requests_ok_def s segment_handler_new_def)
    moreover have "seg_data_ok R (P k) (seg_at t k)"
    proof -
      have "sh_offset (seg_at t k) = off" "sh_part_size (seg_at t k) = int (length (P k))" "sh_received (seg_at t k) = int (length (P k))"
        "sh_length (seg_at t k) = l" "sh_done (seg_at t k) \<Longrightarrow> int (length (P k)) = l"
        using bound(3) by (simp_all add: s segment_handler_new_def)
      then show ?thesis using fields [OF k] by (simp add: seg_data_ok_def p)
    qed
    moreover have "seg_waits_ok N k (seg_at t k)" using N(2) by (simp add: seg_waits_ok_def s segment_handler_new_def)
    ultimately show ?thesis by (simp add: seg_ok_def)
  qed
  show ?thesis
  proof (cases "so_segments_done t = count")
    case True
    have "so_segments_done t = length (filter sh_done (so_segments t))" using st by (simp only: started_def)
    then have "length (filter sh_done (so_segments t)) = length (so_segments t)" using True len by argo
    then have dn: "sh_done (seg_at t k)" if "k < count" for k
      using that len by (metis length_filter_less nat_neq_iff nth_mem seg_at_def)
    have st': "so_resets t = []" "\<not> so_concat_finalizing t" "so_reader t = None" "so_buffer t = None"
      "so_remoteFileSize t = int (length R)" "so_calls t = []" using st sz(1) by (simp_all add: started_def)
    have "segs_complete R P segment_net_new t"
      unfolding segs_complete_def ranges len
    proof (intro conjI allI impI)
      show "tiles 0 (plan_ranges ?plan) (int (length R))" by (rule tiles)
      show "so_remoteFileSize t = int (length R)" "int (length R) < 2 ^ 63" using st'(5) sz(2) .
      fix k assume k: "k < count"
      have "int (length (P k)) = sh_length (?plan ! k)" using dn [OF k] conjunct1 [OF parts [OF k]] seg [OF k] by simp
      then have "P k = slice R (sh_offset (?plan ! k)) (sh_length (?plan ! k))" using conjunct2 [OF parts [OF k]] by argo
      then show "part_bytes P t k = slice R (sh_offset (seg_at t k)) (sh_length (seg_at t k))"
        using seg [OF k] fields [OF k] by (simp add: part_bytes_def)
      show "ne_queue (net_after t segment_net_new) k = []" "\<not> ne_opening (net_after t segment_net_new) k"
        using st'(6) by (simp_all add: segment_net_new_def)
    qed (use dn fields in simp_all)
    then have "merging R P segment_net_new (start_concat E t) \<or> failed (start_concat E t)"
      by (rule start_concat_ok) (use st' r s' True in simp_all)
    then show ?thesis unfolding s' if_P [OF True] by (rule transfer_phase_intros)
  next
    case False
    let ?u = "foldl (\<lambda>s i. if \<not> sh_done (seg_at s i) then add_call (Open_call None i) s else s)
          (t\<lparr>so_remote_file := name\<rparr>) [0..<length (so_segments t)]"
    have useg: "seg_at ?u k = seg_at t k" for k
    proof -
      have "so_segments ?u = so_segments t" by (simp add: foldl_open_frame)
      then show ?thesis unfolding seg_at_def [of ?u k] seg_at_def [of t k] by (rule arg_cong)
    qed
    have tn: "net_after (t\<lparr>so_remote_file := name\<rparr>) segment_net_new = segment_net_new" "seg_at (t\<lparr>so_remote_file := name\<rparr>) k = seg_at t k" for k
      using st by (simp_all add: started_def net_after_def seg_at_def)
    have "downloading R P segment_net_new ?u"
      unfolding downloading_def
    proof (intro conjI allI impI)
      fix k assume "k < length (so_segments ?u)"
      then have k: "k < count" by (simp add: foldl_open_frame len)
      show "seg_ok R (P k) (net_after ?u segment_net_new) k (seg_at ?u k)"
        unfolding useg by (rule ok [OF k]) (auto simp: foldl_open_net tn, auto simp: segment_net_new_def)
    next
      show "tiles 0 (plan_ranges (so_segments ?u)) (int (length R))" using tiles ranges by (simp add: foldl_open_frame)
      show "stalls_distinct ?u" unfolding stalls_distinct_def useg using fields by (simp add: foldl_open_frame len)
      show "conns_ok ?u" unfolding conns_ok_def useg using fields st
        by (simp add: foldl_open_frame len has_channel_def started_def)
      show "so_segments_done ?u < length (so_segments ?u)"
        using False st len length_filter_le [of sh_done "so_segments t"] by (simp add: foldl_open_frame started_def)
    qed (use st sz tiles in \<open>simp_all add: foldl_open_frame started_def len ranges\<close>)
    then have "downloading R P segment_net_new (start_next_segment_connection E ?u)" by (rule start_next_segment_connection_ok)
    then show ?thesis using s' False by auto
  qed
qed

lemma start_segmented_phase:
  assumes s: "s = transfer_new name (int (length R)) files" and size: "int (length R) < 2 ^ 63" "0 < count"
    and parts: "parts_intact R L E count s" and rep: "start_segmented L E count s = (reply_wouldblock, s')"
    and r: "readers_ok E (kept_part L E count s) s'"
  shows "transfer_phase R (kept_part L E count s) segment_net_new s'"
proof -
  have sz: "so_remoteFileSize s = int (length R)" using s by (simp add: transfer_new_def)
  obtain t where t: "started count (kept_part L E count s) s t"
    "s' = (if so_segments_done t = count then start_concat E t
      else start_next_segment_connection E
        (foldl (\<lambda>s i. if \<not> sh_done (seg_at s i) then add_call (Open_call None i) s else s)
          (t\<lparr>so_remote_file := e_server_name E\<rparr>) [0..<length (so_segments t)]))"
    by (rule start_segmented_started [OF s size parts rep])
  show ?thesis by (rule started_phase [OF t(1) sz size _ r t(2)]) (use parts in \<open>unfold parts_intact_def Let_def sz, blast\<close>)
qed

end
