(* ===== verification/Sftp_Segment_Props.thy ===== *)
theory Sftp_Segment_Props
  imports Sftp_Segment_Start
begin

text \<open>
  What a segmented download promises: success means that the target is the remote file, requests
  tile the missing ranges, wrong replies are errors, and the number of pending requests stays
  within its limits.
\<close>

subsection \<open>A small download\<close>

text \<open>A file of one byte in one segment, with libraries that never wait.\<close>

definition sample_env :: library_env where
  "sample_env = \<lparr>e_add = aio_ok, e_fin = aio_ok, e_open_writer = True, e_pool = True, e_capacity = 262144,
     e_pending = (\<lambda>i. int i), e_can_send = (\<lambda>_. True), e_now = 0, e_connect = (\<lambda>_. True), e_open_target = True,
     e_part = (\<lambda>k. Some (if k = 0 then [read_wait, read_data ''x''] else [])), e_target_add = (\<lambda>_. aio_ok),
     e_target_fin = aio_ok, e_server_name = ''/f'', e_read_opens = True, e_read_io = [Some 200],
     e_write_opens = True, e_write_io = [Some 5, Some 200]\<rparr>"

definition sample_start_env :: library_env where
  "sample_start_env = sample_env\<lparr>e_part := (\<lambda>_. None)\<rparr>"

definition sample_op :: segment_op where
  "sample_op = transfer_new ''f'' 1 (\<lambda>_. None)"

definition sample_started :: segment_op where
  "sample_started = snd (start_segmented libfz_std sample_start_env 1 sample_op)"

text \<open>Its states; \<open>f\<close> is the content of the file system.\<close>

definition handler1 :: segment_handler where
  "handler1 = segment_handler_new 0 0 1"

definition state1 :: "local_files \<Rightarrow> segment_op" where
  "state1 f = (transfer_new ''f'' 1 f)\<lparr>so_state := filetransfer_segmented, so_segments := [handler1], so_remote_file := ''/f''\<rparr>"

definition handler2 :: segment_handler where
  "handler2 = handler1\<lparr>sh_handle := ''h'', sh_writer := True, sh_buffer := Some [], sh_outstanding := [1], sh_request_offset := 1\<rparr>"

definition state2 :: "local_files \<Rightarrow> segment_op" where
  "state2 f = (state1 f)\<lparr>so_segments := [handler2], so_primary_pipe := segment_pipe_new\<lparr>pp_requested_offset := 1\<rparr>\<rparr>"

definition handler3 :: segment_handler where
  "handler3 = handler2\<lparr>sh_handle := [], sh_writer := False, sh_buffer := None, sh_outstanding := [], sh_written := ''x'',
     sh_received := 1, sh_finalizing := True, sh_done := True\<rparr>"

definition state3 :: "local_files \<Rightarrow> segment_op" where
  "state3 f = (state2 f)\<lparr>so_state := filetransfer_concat, so_segments := [handler3], so_segments_done := 1,
     so_primary_pipe := segment_pipe_new\<lparr>pp_requested_offset := 1, pp_response_offset := 1\<rparr>, so_writer := True,
     so_reader := Some [read_data ''x''], so_concat_part := 1\<rparr>"

definition state4 :: "local_files \<Rightarrow> segment_op" where
  "state4 f = (state3 f)\<lparr>so_writer := False, so_reader := None, so_target := [''x''], so_concat_received := 1,
     so_concat_finalizing := True, so_resets := [reply_ok], so_files := delete_segment_files ''f'' 1 f\<rparr>"

lemmas sample_defs = state1_def state2_def state3_def state4_def handler1_def handler2_def handler3_def
  segment_handler_new_def transfer_new_def sample_env_def segment_pipe_new_def initial_max_pending_def blocksize_def

lemma sample_open: "on_segment_open sample_env 0 ''h'' (state1 f) = (cont_next, (state2 f)\<lparr>so_calls := [Read_call None 0 0 1]\<rparr>)"
  by (simp add: sample_defs on_segment_open_def upd_seg_def seg_at_def get_next_segment_buffer_def writer_add_def
    request_segments_def has_channel_def measure_rtt_def next_request_segment_def send_read_def
    may_request_def pipe_of_def upd_pipe_def Let_def add_call_def numeral_2_eq_2)

lemma sample_data: "process_segment_data sample_env 0 ''x'' (state2 f) = (cont_next, (state3 f)\<lparr>so_calls := [Close_call None ''h'']\<rparr>)"
  by (simp add: sample_defs process_segment_data_def upd_seg_def seg_at_def upd_pipe_def finalize_segment_def writer_add_def
    start_concat_def close_handle_def has_channel_def add_call_def concat_pump.simps concat_iteration_def concat_read_def Let_def)

lemma sample_merge: "on_concat_buffer_availability sample_env False (state3 f) = state4 f"
  by (simp add: sample_defs on_concat_buffer_availability_def concat_pump.simps concat_iteration_def concat_read_def
    concat_add_def concat_finalize_def trigger_reset_def Let_def)

lemma sample_start: "start_segmented libfz_std sample_start_env 1 sample_op = (reply_wouldblock, sample_started)"
proof -
  have "fst (start_segmented libfz_std sample_start_env 1 sample_op) = reply_wouldblock" by code_simp
  then show ?thesis by (simp add: sample_started_def prod_eq_iff)
qed

lemma sample_started_eq: "sample_started = (state1 (so_files sample_started))\<lparr>so_calls := [Open_call None 0]\<rparr>"
  by (rule segment_op.equality; simp add: state1_def transfer_new_def; code_simp)

definition sample_files :: local_files where
  "sample_files = so_files sample_started"

definition net1 :: segment_net where
  "net1 = segment_net_new\<lparr>ne_opening := (ne_opening segment_net_new)(0 := True)\<rparr>"

definition net2 :: segment_net where
  "net2 = net_call (Read_call None 0 0 1) (take_open 0 net1)"

definition no_parts :: "nat \<Rightarrow> string" where
  "no_parts k = []"

lemma sample_kept: "kept_part libfz_std sample_start_env 1 sample_op = no_parts"
proof -
  have "\<not> manifest_valid libfz_std sample_start_env 1 sample_op" by code_simp
  then show ?thesis by (simp add: kept_part_def no_parts_def fun_eq_iff)
qed

lemma sample_settled: "settle segment_net_new sample_started = (state1 sample_files, net1)"
proof -
  have "(state1 f)\<lparr>so_calls := []\<rparr> = state1 f" for f by (simp add: state1_def transfer_new_def)
  then have "settle segment_net_new ((state1 f)\<lparr>so_calls := [Open_call None 0]\<rparr>) = (state1 f, net1)" for f
    by (simp add: settle_def net_after_def net1_def)
  from this [of sample_files] show ?thesis
    unfolding sample_files_def sample_started_eq [symmetric] .
qed

lemma sample_reach2: "transfer_reachable ''x'' no_parts (state1 f, net1) (state2 f, net2)"
proof -
  have c: "(state2 f)\<lparr>so_calls := []\<rparr> = state2 f" by (simp add: state1_def state2_def transfer_new_def)
  have "transfer_step ''x'' no_parts (state1 f, net1)
      (settle (after_reply cont_next (sh_conn (seg_at (state1 f) 0)) (take_open 0 net1)) ((state2 f)\<lparr>so_calls := [Read_call None 0 0 1]\<rparr>))"
    by (rule transfer_step.Opened [OF _ _ _ sample_open [symmetric]])
      (simp_all add: state1_def net1_def segment_net_new_def)
  then have "transfer_step ''x'' no_parts (state1 f, net1) (state2 f, net2)"
    by (simp add: settle_def net_after_def after_reply_def c net2_def)
  then show ?thesis by (rule transfer_reachable.step [OF transfer_reachable.start])
qed

lemma sample_reach3: "transfer_reachable ''x'' no_parts (state1 f, net1) (state3 f, take_reply 0 net2)"
proof -
  have c: "(state3 f)\<lparr>so_calls := []\<rparr> = state3 f" by (simp add: state1_def state2_def state3_def transfer_new_def)
  have r: "readers_ok sample_env no_parts ((state3 f)\<lparr>so_calls := [Close_call None ''h'']\<rparr>)"
    by (simp add: readers_ok_def state3_def handler3_def part_bytes_def no_parts_def seg_at_def sample_env_def)
  have q: "ne_queue net2 0 = [(0, 1)]" by (simp add: net2_def take_open_def net1_def segment_net_new_def)
  have "transfer_step ''x'' no_parts (state2 f, net2)
      (settle (after_reply cont_next (sh_conn (seg_at (state2 f) 0)) (take_reply 0 net2))
        (after_error cont_next 0 ((state3 f)\<lparr>so_calls := [Close_call None ''h'']\<rparr>)))"
    by (rule transfer_step.Data [OF _ q _ _ sample_data [symmetric] r])
      (simp_all add: state2_def net2_def net1_def take_open_def segment_net_new_def slice_def)
  then have "transfer_step ''x'' no_parts (state2 f, net2) (state3 f, take_reply 0 net2)"
    by (simp add: settle_def net_after_def after_reply_def after_error_def c)
  then show ?thesis by (rule transfer_reachable.step [OF sample_reach2])
qed

lemma sample_reach4: "transfer_reachable ''x'' no_parts (state1 f, net1) (state4 f, take_reply 0 net2)"
proof -
  have c: "(state4 f)\<lparr>so_calls := []\<rparr> = state4 f" "so_calls (state4 f) = []"
    by (simp_all add: state1_def state2_def state3_def state4_def transfer_new_def)
  have r: "readers_ok sample_env no_parts (state4 f)"
    by (simp add: readers_ok_def state4_def state3_def handler3_def part_bytes_def no_parts_def seg_at_def sample_env_def)
  have "transfer_step ''x'' no_parts (state3 f, take_reply 0 net2) (settle (take_reply 0 net2) (state4 f))"
    by (rule transfer_step.Merge_event [OF _ sample_merge [symmetric] r]) (simp add: state3_def)
  then have "transfer_step ''x'' no_parts (state3 f, take_reply 0 net2) (state4 f, take_reply 0 net2)"
    using c by (simp add: settle_def)
  then show ?thesis by (rule transfer_reachable.step [OF sample_reach3])
qed

lemma sample_intact: "parts_intact ''x'' libfz_std sample_start_env 1 sample_op"
proof -
  have "0 \<le> sh_length (segment_plan (so_remoteFileSize sample_op) 1 ! 0)" by code_simp
  then show ?thesis unfolding parts_intact_def sample_kept by (simp add: no_parts_def)
qed

lemma sample_start_readers: "readers_ok sample_start_env no_parts sample_started"
  by (simp add: readers_ok_def sample_start_env_def)

subsection \<open>Runs\<close>

text \<open>A download started in \<open>count\<close> segments, with the parts in \<open>files\<close>, that has come
  to the state \<open>s\<close>.\<close>

definition segmented_run ::
  "string \<Rightarrow> libfz \<Rightarrow> library_env \<Rightarrow> nat \<Rightarrow> wstring \<Rightarrow> local_files \<Rightarrow> segment_op \<Rightarrow> segment_net \<Rightarrow> bool" where
  "segmented_run R L E count name files s N \<longleftrightarrow>
     (let s0 = transfer_new name (int (length R)) files; P = kept_part L E count s0 in
      int (length R) < 2 ^ 63 \<and> 0 < count \<and> parts_intact R L E count s0 \<and>
      (\<exists>s1. start_segmented L E count s0 = (reply_wouldblock, s1) \<and> readers_ok E P s1 \<and>
         transfer_reachable R P (settle segment_net_new s1) (s, N)))"

lemma segmented_run_phase:
  assumes "segmented_run R L E count name files s N"
  shows "transfer_phase R (kept_part L E count (transfer_new name (int (length R)) files)) N s" "so_calls s = []"
proof -
  let ?s = "transfer_new name (int (length R)) files"
  obtain s1 where st: "int (length R) < 2 ^ 63" "0 < count" "parts_intact R L E count ?s"
      "start_segmented L E count ?s = (reply_wouldblock, s1)" "readers_ok E (kept_part L E count ?s) s1"
    and r: "transfer_reachable R (kept_part L E count ?s) (settle segment_net_new s1) (s, N)"
    using assms by (auto simp: segmented_run_def Let_def)
  have "transfer_phase R (kept_part L E count ?s) segment_net_new s1" by (rule start_segmented_phase [OF refl st])
  from transfer_phase_reachable [OF r settle_phase [OF this] settle_calls]
  show "transfer_phase R (kept_part L E count ?s) N s" "so_calls s = []" by simp_all
qed

lemma segmented_run_downloading:
  assumes "segmented_run R L E count name files s N" "so_state s = filetransfer_segmented" "so_resets s = []"
  shows "downloading R (kept_part L E count (transfer_new name (int (length R)) files)) N s"
  using segmented_run_phase(1) [OF assms(1)] assms(2,3) by (auto simp: transfer_phase_def merging_def failed_def)

lemma sample_run:
  assumes "transfer_reachable ''x'' no_parts (state1 sample_files, net1) (s, N)"
  shows "segmented_run ''x'' libfz_std sample_start_env 1 ''f'' (\<lambda>_. None) s N"
proof -
  have op: "transfer_new ''f'' (int (length ''x'')) (\<lambda>_. None) = sample_op" by (simp add: sample_op_def)
  show ?thesis
    unfolding segmented_run_def Let_def op sample_kept
    by (intro conjI exI [of _ sample_started])
      (use sample_intact sample_start sample_start_readers assms sample_settled in simp_all)
qed

subsection \<open>The target file\<close>

text \<open>C12: A segmented download that ends with success has handed the writer of the target exactly
  the bytes of the remote file, whatever the order of events, the migration of segments between
  connections, the sizes of buffers and the parts kept of an interrupted download.\<close>

theorem segmented_download_correct:
  assumes "segmented_run R L E count name files s N" "so_resets s = reply_ok # rest"
  shows "concat (so_target s) = R"
  using segmented_run_phase(1) [OF assms(1)] assms(2) transfer_phase_ok by fastforce

theorem segmented_download_correct_witness:
  "so_resets (state4 sample_files) = [reply_ok] \<and> concat (so_target (state4 sample_files)) = ''x''"
proof -
  have r: "so_resets (state4 sample_files) = [reply_ok]" by (simp add: state4_def)
  show ?thesis using segmented_download_correct [OF sample_run [OF sample_reach4] r] r by simp
qed

subsection \<open>Requests\<close>

text \<open>C13: While a download is running, the unanswered read requests of every segment tile the range
  from what it has received to what it has asked for, inside its own range of the file; every
  request asks for at most one block; and what was handed to the writer together with the buffer is
  the beginning of the range.\<close>

theorem segment_requests_tile:
  assumes "segmented_run R L E count name files s N"
    and "so_state s = filetransfer_segmented" "so_resets s = []" "i < length (so_segments s)"
  shows "tiles (sh_offset (seg_at s i) + sh_received (seg_at s i)) (ne_queue N i) (sh_request_offset (seg_at s i)) \<and>
    sh_request_offset (seg_at s i) \<le> sh_offset (seg_at s i) + sh_length (seg_at s i) \<and>
    sh_offset (seg_at s i) + sh_length (seg_at s i) \<le> int (length R) \<and>
    (\<forall>r \<in> set (ne_queue N i). 0 < snd r \<and> snd r \<le> blocksize) \<and>
    kept_part L E count (transfer_new name (int (length R)) files) i @ sh_written (seg_at s i) @ buffer_bytes (seg_at s i) =
      slice R (sh_offset (seg_at s i)) (sh_received (seg_at s i))"
proof -
  let ?P = "kept_part L E count (transfer_new name (int (length R)) files)" and ?g = "seg_at s i"
  have ok: "seg_ok R (?P i) N i ?g"
    using downloading_seg [OF segmented_run_downloading [OF assms(1-3)] assms(4)] segmented_run_phase(2) [OF assms(1)] by simp
  then have r: "0 \<le> sh_offset ?g" "0 \<le> sh_part_size ?g" "0 \<le> sh_received ?g - sh_part_size ?g"
    by (simp_all add: seg_ok_def seg_range_ok_def)
  have "?P i @ sh_written ?g @ buffer_bytes ?g = slice R (sh_offset ?g) (sh_received ?g)"
    using ok slice_add [OF r, of R] by (simp add: seg_ok_def seg_data_ok_def)
  then show ?thesis using ok by (auto simp: seg_ok_def seg_requests_ok_def seg_range_ok_def)
qed

theorem segment_requests_tile_witness:
  "ne_queue net2 0 = [(0, 1)] \<and> tiles 0 (ne_queue net2 0) 1"
proof -
  have q: "ne_queue net2 0 = [(0, 1)]" by (simp add: net2_def take_open_def net1_def segment_net_new_def)
  have st: "so_state (state2 sample_files) = filetransfer_segmented" "so_resets (state2 sample_files) = []"
    "0 < length (so_segments (state2 sample_files))" "seg_at (state2 sample_files) 0 = handler2"
    by (simp_all add: state1_def state2_def transfer_new_def seg_at_def)
  show ?thesis using segment_requests_tile [OF sample_run [OF sample_reach2] st(1-3)] q
    by (simp add: st handler2_def handler1_def segment_handler_new_def)
qed

subsection \<open>Wrong replies\<close>

lemma send_read_received: "sh_received (seg_at (send_read ch idx s) k) = sh_received (seg_at s k)"
proof -
  have "sh_received (seg_at (upd_seg i f t) k) = sh_received (seg_at t k)" if "\<And>g. sh_received (f g) = sh_received g" for i f t
    using that by (cases "i < length (so_segments t)"; cases "k = i"; simp add: seg_at_def upd_seg_def list_update_beyond)
  then show ?thesis by (simp add: send_read_def Let_def)
qed

lemma request_segments_received: "sh_received (seg_at (request_segments E ch s) k) = sh_received (seg_at s k)"
proof -
  have "sh_received (seg_at (snd (request_loop E ch i j s)) k) = sh_received (seg_at s k)" for i j s
  proof (induction E ch i j s rule: request_loop.induct)
    case (2 E ch i j s)
    obtain r s1 where nx: "next_request_segment ch s = (r, s1)" by force
    have "sh_received (seg_at s1 k) = sh_received (seg_at s k)"
      using nx by (auto simp: next_request_segment_def Let_def split: option.splits)
    then show ?case using 2 nx send_read_received by (cases r) auto
  qed simp
  then have "sh_received (seg_at (snd (request_loop E ch 0 2 (upd_pipe ch (measure_rtt (e_now E)) s))) k) = sh_received (seg_at s k)" by simp
  then show ?thesis by (auto simp: request_segments_def Let_def split: prod.splits)
qed

lemma get_next_received: "sh_received (seg_at (snd (get_next_segment_buffer E i s)) k) = sh_received (seg_at s k)"
proof -
  have "sh_received (seg_at (upd_seg i f t) k) = sh_received (seg_at t k)" if "\<And>g. sh_received (f g) = sh_received g" for f t
    using that by (cases "i < length (so_segments t)"; cases "k = i"; simp add: seg_at_def upd_seg_def list_update_beyond)
  moreover have "seg_at (fail_segments r t) k = seg_at t k" for r t by (simp add: seg_at_def)
  ultimately show ?thesis by (simp add: get_next_segment_buffer_def Let_def writer_add_def split: aio_result.splits)
qed

text \<open>C14: While a download is running, a reply with data is a protocol error exactly when it holds
  more than was asked for; a shorter one ends the operation with an error; a complete one that does
  not end its segment is accepted, unless writing fails, and never unexpected.\<close>

theorem segment_data_errors:
  assumes "segmented_run R L E count name files s N"
    and "so_state s = filetransfer_segmented" "so_resets s = []" "i < length (so_segments s)"
    and "ne_queue N i = (off, n) # q" "\<not> ne_stalled N (sh_conn (seg_at s i))"
  shows "(fst (process_segment_data E' i data s) = cont_error \<longleftrightarrow> int (length data) > n) \<and>
    (int (length data) < n \<longrightarrow> so_resets (snd (process_segment_data E' i data s)) = [reply_error]) \<and>
    (int (length data) = n \<and> e_add E' \<noteq> aio_error \<and> sh_received (seg_at s i) + n < sh_length (seg_at s i) \<longrightarrow>
       so_resets (snd (process_segment_data E' i data s)) = [] \<and>
       sh_received (seg_at (snd (process_segment_data E' i data s)) i) = sh_received (seg_at s i) + n)"
proof -
  let ?P = "kept_part L E count (transfer_new name (int (length R)) files)" and ?g = "seg_at s i"
  note d = segmented_run_downloading [OF assms(1-3)] and i = assms(4)
  have ok: "seg_ok R (?P i) N i ?g"
    using downloading_seg [OF d i] segmented_run_phase(2) [OF assms(1)] by simp
  then have out: "sh_outstanding ?g = n # map snd q" and n: "n \<le> blocksize"
    using assms(5) by (auto simp: seg_ok_def seg_requests_ok_def)
  obtain b where b: "sh_buffer ?g = Some b" using ok assms(6) out by (auto simp: seg_ok_def seg_waits_ok_def)
  note eq = process_segment_data_eq [OF i downloading_simple(2) [OF d] out b, of E' data]
  let ?t = "received_data i data s"
  have t: "so_resets ?t = []" "sh_received (seg_at ?t i) = u64 (sh_received ?g + int (length data))"
    using i assms(3) by (simp_all add: received_data_def)
  obtain x s4 where get: "get_next_segment_buffer E' i ?t = (x, s4)" by force
  note s4 = get_next_frame(4) [of E' i ?t, unfolded get snd_conv t(1)] get_next_received [of E' i ?t i, unfolded get snd_conv]
  have stall: "sh_received (seg_at (upd_seg i (\<lambda>g. g\<lparr>sh_stall_channel := c\<rparr>) s4) i) = sh_received (seg_at s4 i)" for c
    by (cases "i < length (so_segments s4)") (simp_all add: seg_at_def upd_seg_def list_update_beyond)
  show ?thesis
  proof (cases "int (length data) = n")
    case True
    have "fst (process_segment_data E' i data s) \<noteq> cont_error"
      using eq True n get by (cases x) auto
    moreover have "so_resets (snd (process_segment_data E' i data s)) = [] \<and>
        sh_received (seg_at (snd (process_segment_data E' i data s)) i) = sh_received ?g + n"
      if "e_add E' \<noteq> aio_error" "sh_received ?g + n < sh_length ?g"
    proof -
      have "u64 (sh_received ?g + n) = sh_received ?g + n"
        using ok that(2) downloading_simple(6) [OF d] True by (intro u64_id) (auto simp: seg_ok_def seg_range_ok_def)
      then have "sh_received (seg_at ?t i) = sh_received ?g + n" using t(2) True by simp
      then show ?thesis using eq True n that get s4 t(1) stall request_segments_received by (cases x) auto
    qed
    ultimately show ?thesis using True by simp
  next
    case False
    then consider "int (length data) > n" | "int (length data) < n" by linarith
    then show ?thesis using eq n assms(3) by cases simp_all
  qed
qed

theorem segment_data_errors_witness:
  "fst (process_segment_data sample_env 0 ''xy'' (state2 sample_files)) = cont_error \<and>
   so_resets (snd (process_segment_data sample_env 0 [] (state2 sample_files))) = [reply_error]"
proof -
  have st: "so_state (state2 sample_files) = filetransfer_segmented" "so_resets (state2 sample_files) = []"
    "0 < length (so_segments (state2 sample_files))"
    by (simp_all add: state1_def state2_def transfer_new_def)
  have q: "ne_queue net2 0 = (0, 1) # []" "\<not> ne_stalled net2 (sh_conn (seg_at (state2 sample_files) 0))"
    by (simp_all add: net2_def take_open_def net1_def segment_net_new_def)
  note e = segment_data_errors [OF sample_run [OF sample_reach2] st q]
  show ?thesis using e [of sample_env "''xy''"] e [of sample_env "[]"] by simp
qed

subsection \<open>Pipelining\<close>

text \<open>The number of requests in flight stays within 16 and 16384, grows only while a round trip
  takes less than half a second and shrinks only while it takes more.\<close>

theorem adapt_pending_bounds:
  assumes "16 \<le> m" "m \<le> 16384"
  shows "16 \<le> adapt_pending m ms \<and> adapt_pending m ms \<le> 16384 \<and>
    (ms \<le> 500 \<longrightarrow> m \<le> adapt_pending m ms) \<and> (500 \<le> ms \<longrightarrow> adapt_pending m ms \<le> m)"
proof -
  let ?ms = "if ms < 1 then 1 else ms" and ?ideal = "m * 500 div (if ms < 1 then 1 else ms)"
  have u: "u64 (m * 500) = m * 500" "u64 (m * 2) = m * 2" using assms by simp_all
  have up: "m \<le> ?ideal" if "ms \<le> 500"
  proof -
    have "m * ?ms \<le> m * 500" using that assms by (intro mult_left_mono) auto
    then have "m * ?ms div ?ms \<le> ?ideal" by (intro zdiv_mono1) auto
    then show ?thesis by (simp split: if_splits)
  qed
  have down: "?ideal \<le> m" if "500 \<le> ms"
  proof -
    have "m * 500 \<le> m * ?ms" using that assms by (intro mult_left_mono) auto
    then have "?ideal \<le> m * ?ms div ?ms" using that by (intro zdiv_mono1) auto
    then show ?thesis using that by simp
  qed
  have sm: "u64 (m + m div d) = m + m div d" "u64 (m - m div d) = m - m div d" "0 \<le> m div d" "m div d \<le> m" if "d = 2 \<or> d = 8" for d
    using that assms by auto
  define I where "I = ?ideal"
  have step: "(if d then (2::int) else 8) = 2 \<or> (if d then (2::int) else 8) = 8" for d by simp
  have adapt: "adapt_pending m ms =
      (if I > m then min 16384 (m + m div (if I > u64 (m * 2) then 2 else 8))
       else if I < m then max 16 (m - m div (if u64 (I * 2) < m then 2 else 8)) else m)"
    unfolding adapt_pending_def Let_def u(1) I_def [symmetric] initial_max_pending_def using sm [OF step]
    by (auto simp: min_def max_def)
  have bound: "0 \<le> m div (if d then (2::int) else 8)" "m div (if d then (2::int) else 8) \<le> m" for d
    using sm(3,4) [OF step] by blast+
  show ?thesis
  proof (cases I m rule: linorder_cases)
    case less
    then show ?thesis using adapt up assms bound unfolding I_def [symmetric] by (auto simp: max_def)
  next
    case equal
    then show ?thesis using adapt assms by simp
  next
    case greater
    then show ?thesis using adapt down assms bound unfolding I_def [symmetric] by (auto simp: min_def)
  qed
qed

theorem adapt_pending_bounds_witness: "adapt_pending 16 100 = 24 \<and> (16::int) \<le> adapt_pending 16 100 \<and> adapt_pending 16384 10 \<le> 16384"
proof -
  have "adapt_pending 16 100 = 24" by code_simp
  then show ?thesis using adapt_pending_bounds [of 16 100] adapt_pending_bounds [of 16384 10] by simp
qed

subsection \<open>The manifest\<close>

text \<open>C15: A manifest that was written completely is accepted, however the file is read in pieces,
  for exactly the plan and the file size it was written for.\<close>

theorem segment_manifest_roundtrip:
  assumes "tokenizer_law L" "to_integral_law L" "plan_ok tot (so_segments s)"
    and "length (so_segments s) \<le> max_segment_count"
    and "write_segment_manifest True wio tot s = (True, s')"
    and "so_files t = so_files s'" "so_localName t = so_localName s"
    and "read_loop rio (length (write_manifest_data tot (so_segments s))) [] (write_manifest_data tot (so_segments s)) \<noteq> None"
  shows "read_segment_manifest L True rio tot' t \<longleftrightarrow>
    tot' = tot \<and> plan_ranges (so_segments t) = plan_ranges (so_segments s)"
proof -
  let ?d = "write_manifest_data tot (so_segments s)"
  have "so_files s' (segment_manifest_path (so_localName s)) = Some ?d"
    using assms(5) write_loop_complete [of wio "[]" ?d]
    by (auto simp: write_segment_manifest_def Let_def split: prod.splits)
  then show ?thesis
    using read_loop_unfold_complete [OF assms(8)] parse_manifest_write [OF assms(1,2,3)] manifest_size [OF assms(3,4)]
    by (simp add: read_segment_manifest_def assms(6,7) Let_def)
qed


definition sample_plan :: segment_op where
  "sample_plan = with_plan 2 (transfer_new ''f'' 5 (\<lambda>_. None))"

theorem segment_manifest_roundtrip_witness:
  "read_segment_manifest libfz_std True [Some 3, Some 50] 5 (snd (write_segment_manifest True [Some 4, Some 50] 5 sample_plan)) \<and>
   \<not> read_segment_manifest libfz_std True [Some 3, Some 50] 6 (snd (write_segment_manifest True [Some 4, Some 50] 5 sample_plan))"
proof -
  let ?w = "write_segment_manifest True [Some 4, Some 50] 5 sample_plan"
  have w: "write_segment_manifest True [Some 4, Some 50] 5 sample_plan = (True, snd ?w)"
  proof -
    have "fst ?w" by code_simp
    then show ?thesis by (simp add: prod_eq_iff)
  qed
  have facts: "plan_ok 5 (so_segments sample_plan)" "length (so_segments sample_plan) \<le> max_segment_count"
    "read_loop [Some 3, Some 50] (length (write_manifest_data 5 (so_segments sample_plan))) [] (write_manifest_data 5 (so_segments sample_plan)) \<noteq> None"
    by code_simp+
  have same: "so_localName (snd ?w) = so_localName sample_plan" "plan_ranges (so_segments (snd ?w)) = plan_ranges (so_segments sample_plan)"
    by (simp_all add: write_segment_manifest_def Let_def split: prod.splits)
  show ?thesis
    using segment_manifest_roundtrip [OF libfz_std_laws(3,5) facts(1,2) w refl same(1) facts(3)] same(2) by simp
qed

subsection \<open>A part that is too large\<close>

text \<open>When a later part is too large the parts are deleted, but the sizes read before it stay: the
  first segment counts as received although its part is gone.\<close>

definition stale_files :: local_files where
  "stale_files = [''f.fzseg'' \<mapsto> write_manifest_data 4 (segment_plan 4 2), ''f.fzseg0'' \<mapsto> ''ab'', ''f.fzseg1'' \<mapsto> ''cde'']"

lemma stale_part_size_kept:
  "let s = snd (start_segmented libfz_std (sample_start_env\<lparr>e_write_io := [Some 100], e_read_io := [Some 100]\<rparr>) 2 (transfer_new ''f'' 4 stale_files))
   in map sh_received (so_segments s) = [2, 0] \<and> map sh_done (so_segments s) = [True, False] \<and> so_files s ''f.fzseg0'' = None"
  by code_simp

end
