(* ===== verification/Posix_Chmod.thy ===== *)
theory Posix_Chmod
  imports FZ_Lib "HOL-Library.Word"
begin

unbundle bit_operations_syntax

text \<open>
  Unix permissions: \<open>src/filezilla3/src/engine/posix_chmod.cpp\<close> with
  \<open>include/posix_chmod.h\<close>.  \<open>posix_permissions\<close> is a 16-bit word of which twelve
  bits are used; \<open>~\<close> masks its result to those.
\<close>

subsection \<open>The permission bits\<close>

type_synonym posix_permissions = "16 word"

definition user_read :: posix_permissions where "user_read = 0x100"
definition user_write :: posix_permissions where "user_write = 0x80"
definition user_execute :: posix_permissions where "user_execute = 0x40"
definition group_read :: posix_permissions where "group_read = 0x20"
definition group_write :: posix_permissions where "group_write = 0x10"
definition group_execute :: posix_permissions where "group_execute = 0x8"
definition other_read :: posix_permissions where "other_read = 0x4"
definition other_write :: posix_permissions where "other_write = 0x2"
definition other_execute :: posix_permissions where "other_execute = 0x1"
definition perm_setuid :: posix_permissions where "perm_setuid = 0x800"
definition perm_setgid :: posix_permissions where "perm_setgid = 0x400"
definition perm_sticky :: posix_permissions where "perm_sticky = 0x200"
definition all_read :: posix_permissions where "all_read = 0x124"
definition all_write :: posix_permissions where "all_write = 0x92"
definition all_execute :: posix_permissions where "all_execute = 0x49"
definition all_setid :: posix_permissions where "all_setid = 0xC00"
definition user_mask :: posix_permissions where "user_mask = 0x1C0"
definition group_mask :: posix_permissions where "group_mask = 0x38"
definition other_mask :: posix_permissions where "other_mask = 0x7"
definition ugo_mask :: posix_permissions where "ugo_mask = 0x1FF"
definition perm_mask :: posix_permissions where "perm_mask = 0xFFF"

lemmas perm_bits = user_read_def user_write_def user_execute_def group_read_def group_write_def
  group_execute_def other_read_def other_write_def other_execute_def perm_setuid_def perm_setgid_def
  perm_sticky_def all_read_def all_write_def all_execute_def all_setid_def user_mask_def
  group_mask_def other_mask_def ugo_mask_def perm_mask_def

definition perm_not :: "posix_permissions \<Rightarrow> posix_permissions" where
  "perm_not p = NOT p AND perm_mask"

record posix_chmod =
  ch_perms :: posix_permissions
  ch_mask :: posix_permissions

definition no_chmod :: posix_chmod where
  "no_chmod = \<lparr>ch_perms = 0, ch_mask = 0\<rparr>"

definition apply_chmod :: "posix_permissions \<Rightarrow> posix_chmod \<Rightarrow> posix_permissions" where
  "apply_chmod orig change =
     (orig AND perm_not (ch_mask change)) OR (ch_perms change AND ch_mask change)"

subsection \<open>Reading permissions\<close>

definition is_octal :: "char \<Rightarrow> bool" where
  "is_octal c \<longleftrightarrow> CHR ''0'' \<le> c \<and> c \<le> CHR ''7''"

text \<open>The digits from the last one on, each three bits higher.\<close>

fun octal_digits :: "string \<Rightarrow> nat \<Rightarrow> posix_permissions \<Rightarrow> posix_permissions option" where
  "octal_digits [] shift perms = Some perms"
| "octal_digits (c # cs) shift perms =
     (if \<not> is_octal c then None
      else octal_digits cs (shift + 3) (perms OR push_bit shift (of_nat (digit_val c))))"

definition parse_octal_file_mode :: "string \<Rightarrow> posix_permissions option" where
  "parse_octal_file_mode s =
     (if s = [] \<or> \<not> is_octal (hd s) then None
      else
        let digits = dropWhile (\<lambda>c. c = CHR ''0'') s
        in if 4 < length digits then None else octal_digits (rev digits) 0 0)"

definition read_letter :: "char \<Rightarrow> char \<Rightarrow> posix_permissions \<Rightarrow> posix_permissions option" where
  "read_letter c letter val = (if c = letter then Some val else if c = CHR ''-'' then Some 0 else None)"

definition read_execute ::
  "char \<Rightarrow> char \<Rightarrow> char \<Rightarrow> posix_permissions \<Rightarrow> posix_permissions \<Rightarrow> posix_permissions option" where
  "read_execute c both special_only x special =
     (if c = CHR ''x'' then Some x
      else if c = both then Some (x OR special)
      else if c = special_only then Some special
      else if c = CHR ''-'' then Some 0
      else None)"

definition or_option :: "posix_permissions option \<Rightarrow> posix_permissions option \<Rightarrow> posix_permissions option" where
  "or_option a b = (case (a, b) of (Some x, Some y) \<Rightarrow> Some (x OR y) | _ \<Rightarrow> None)"

definition parse_symbolic_file_mode :: "string \<Rightarrow> posix_permissions option" where
  "parse_symbolic_file_mode s =
     (if length s \<noteq> 10 then None
      else if s ! 0 \<notin> set ''-dlpbcs'' then None
      else
        or_option (or_option (or_option (read_letter (s ! 1) (CHR ''r'') user_read)
          (read_letter (s ! 2) (CHR ''w'') user_write))
          (read_execute (s ! 3) (CHR ''s'') (CHR ''S'') user_execute perm_setuid))
       (or_option (or_option (or_option (read_letter (s ! 4) (CHR ''r'') group_read)
          (read_letter (s ! 5) (CHR ''w'') group_write))
          (read_execute (s ! 6) (CHR ''s'') (CHR ''S'') group_execute perm_setgid))
        (or_option (or_option (read_letter (s ! 7) (CHR ''r'') other_read)
          (read_letter (s ! 8) (CHR ''w'') other_write))
          (read_execute (s ! 9) (CHR ''t'') (CHR ''T'') other_execute perm_sticky))))"

text \<open>The letters of the \<open>perm\<close> fact: index in \<open>seen\<close> and permissions.\<close>

definition mlsd_letter :: "char \<Rightarrow> (nat \<times> posix_permissions) option" where
  "mlsd_letter c =
     (if c = CHR ''a'' then Some (0, 0)
      else if c = CHR ''c'' then Some (1, user_write)
      else if c = CHR ''d'' then Some (2, 0)
      else if c = CHR ''e'' then Some (3, all_execute)
      else if c = CHR ''f'' then Some (4, 0)
      else if c = CHR ''l'' then Some (5, all_read)
      else if c = CHR ''m'' then Some (6, 0)
      else if c = CHR ''p'' then Some (7, 0)
      else if c = CHR ''r'' then Some (8, all_read)
      else if c = CHR ''w'' then Some (9, user_write)
      else None)"

fun mlsd_loop :: "string \<Rightarrow> nat list \<Rightarrow> posix_permissions \<Rightarrow> posix_permissions option" where
  "mlsd_loop [] seen perms = Some perms"
| "mlsd_loop (c # cs) seen perms =
     (case mlsd_letter (ascii_lower c) of
        None \<Rightarrow> None
      | Some (i, p) \<Rightarrow> if i \<in> set seen then None else mlsd_loop cs (i # seen) (perms OR p))"

definition parse_mlsd_permissions :: "string \<Rightarrow> posix_permissions option" where
  "parse_mlsd_permissions s = (if s = [] \<or> 10 < length s then None else mlsd_loop s [] 0)"

definition parse_permissions :: "string \<Rightarrow> bool \<Rightarrow> posix_permissions option" where
  "parse_permissions s0 allow_mlsd =
     (let s = (if allow_mlsd \<and> s0 \<noteq> [] \<and> last s0 = CHR '')''
               then (case find_sub '' ('' s0 of None \<Rightarrow> s0 | Some pos \<Rightarrow> butlast (drop (pos + 2) s0))
               else s0)
      in (case parse_octal_file_mode s of
            Some p \<Rightarrow> Some p
          | None \<Rightarrow>
              (case parse_symbolic_file_mode s of
                 Some p \<Rightarrow> Some p
               | None \<Rightarrow> if allow_mlsd then parse_mlsd_permissions s else None)))"

subsection \<open>Reading changes\<close>

fun chmod_octal :: "string \<Rightarrow> nat \<Rightarrow> posix_permissions \<Rightarrow> (posix_permissions \<times> nat) option" where
  "chmod_octal [] shift perms = Some (perms, shift)"
| "chmod_octal (c # cs) shift perms =
     (if \<not> is_octal c then None
      else if 12 \<le> shift \<and> c \<noteq> CHR ''0'' then None
      else chmod_octal cs (if shift < 15 then shift + 3 else shift)
             (if 12 \<le> shift then perms else perms OR push_bit shift (of_nat (digit_val c))))"

text \<open>The classes in front of the first mode; the mask and the rest of the segment.\<close>

definition class_letter :: "char \<Rightarrow> posix_permissions option" where
  "class_letter c =
     (if c = CHR ''u'' then Some (user_mask OR perm_setuid)
      else if c = CHR ''g'' then Some (group_mask OR perm_setgid)
      else if c = CHR ''o'' then Some (other_mask OR perm_sticky)
      else if c = CHR ''a'' then Some perm_mask
      else None)"

fun class_prefix :: "string \<Rightarrow> posix_permissions \<Rightarrow> posix_permissions \<times> string" where
  "class_prefix [] msk = (msk, [])"
| "class_prefix (c # cs) msk =
     (case class_letter c of
        Some k \<Rightarrow> class_prefix cs (msk OR k)
      | None \<Rightarrow> (if msk = 0 then perm_mask else msk, c # cs))"

definition perm_letter :: "char \<Rightarrow> posix_permissions option" where
  "perm_letter c =
     (if c = CHR ''r'' then Some all_read
      else if c = CHR ''w'' then Some all_write
      else if c = CHR ''x'' then Some all_execute
      else if c = CHR ''s'' then Some all_setid
      else if c = CHR ''t'' then Some perm_sticky
      else None)"

fun perm_letters :: "string \<Rightarrow> posix_permissions \<Rightarrow> (posix_permissions \<times> string) option" where
  "perm_letters [] perms = Some (perms, [])"
| "perm_letters (c # cs) perms =
     (case perm_letter c of
        Some b \<Rightarrow> perm_letters cs (perms OR b)
      | None \<Rightarrow>
          if c = CHR ''='' \<or> c = CHR ''-'' \<or> c = CHR ''+'' then Some (perms, c # cs) else None)"

lemma perm_letters_shorter: "perm_letters s perms = Some (q, rest) \<Longrightarrow> length rest \<le> length s"
proof (induction s perms rule: perm_letters.induct)
  case (2 c cs perms)
  then show ?case by (cases "perm_letter c") (fastforce split: if_splits)+
qed simp

definition change_mode ::
  "char \<Rightarrow> posix_permissions \<Rightarrow> posix_permissions \<Rightarrow> posix_chmod \<Rightarrow> posix_chmod option" where
  "change_mode mode perms msk ret =
     (if mode = CHR ''+'' then
        Some \<lparr>ch_perms = ch_perms ret OR (perms AND msk), ch_mask = ch_mask ret OR (perms AND msk)\<rparr>
      else if mode = CHR ''-'' then
        Some \<lparr>ch_perms = ch_perms ret AND perm_not (perms AND msk),
              ch_mask = ch_mask ret OR (perms AND msk)\<rparr>
      else if mode = CHR ''='' then
        Some \<lparr>ch_perms = (ch_perms ret AND perm_not msk) OR (perms AND msk), ch_mask = ch_mask ret OR msk\<rparr>
      else None)"

function segment_modes :: "posix_permissions \<Rightarrow> string \<Rightarrow> posix_chmod \<Rightarrow> posix_chmod option" where
  "segment_modes msk [] ret = None"
| "segment_modes msk (mode # cs) ret =
     (case perm_letters cs 0 of
        None \<Rightarrow> None
      | Some (perms, rest) \<Rightarrow>
          (case change_mode mode perms msk ret of
             None \<Rightarrow> None
           | Some ret' \<Rightarrow> if rest = [] then Some ret' else segment_modes msk rest ret'))"
  by pat_completeness auto
termination
  by (relation "measure (\<lambda>(msk, s, ret). length s)") (auto dest: perm_letters_shorter)

fun chmod_segments :: "string list \<Rightarrow> posix_chmod \<Rightarrow> posix_chmod option" where
  "chmod_segments [] ret = Some ret"
| "chmod_segments (s # ss) ret =
     (case class_prefix s 0 of
        (msk, rest) \<Rightarrow>
          (case segment_modes msk rest ret of
             None \<Rightarrow> None
           | Some ret' \<Rightarrow> chmod_segments ss ret'))"

definition parse_chmod :: "libfz \<Rightarrow> string \<Rightarrow> posix_chmod" where
  "parse_chmod L s =
     (if s \<noteq> [] \<and> is_octal (hd s) then
        (case chmod_octal (rev s) 0 0 of
           None \<Rightarrow> no_chmod
         | Some (perms, shift) \<Rightarrow>
             \<lparr>ch_perms = perms,
              ch_mask = (if 12 < shift then perm_mask
                         else if perms AND 0xE00 \<noteq> 0 then perm_mask else ugo_mask)\<rparr>)
      else
        (case chmod_segments (fz_strtokenizer L s '','' False) no_chmod of
           None \<Rightarrow> no_chmod
         | Some c \<Rightarrow> c))"

subsection \<open>Printing\<close>

definition show_letter :: "posix_permissions \<Rightarrow> posix_permissions \<Rightarrow> char \<Rightarrow> char" where
  "show_letter p b c = (if p AND b \<noteq> 0 then c else CHR ''-'')"

definition show_execute ::
  "posix_permissions \<Rightarrow> posix_permissions \<Rightarrow> posix_permissions \<Rightarrow> char \<Rightarrow> char \<Rightarrow> char" where
  "show_execute p x special both special_only =
     (if p AND special \<noteq> 0 then (if p AND x \<noteq> 0 then both else special_only)
      else (if p AND x \<noteq> 0 then CHR ''x'' else CHR ''-''))"

definition permissions_to_string :: "posix_permissions \<Rightarrow> string" where
  "permissions_to_string p =
     [show_letter p user_read (CHR ''r''), show_letter p user_write (CHR ''w''),
      show_execute p user_execute perm_setuid (CHR ''s'') (CHR ''S''),
      show_letter p group_read (CHR ''r''), show_letter p group_write (CHR ''w''),
      show_execute p group_execute perm_setgid (CHR ''s'') (CHR ''S''),
      show_letter p other_read (CHR ''r''), show_letter p other_write (CHR ''w''),
      show_execute p other_execute perm_sticky (CHR ''t'') (CHR ''T'')]"

definition octal_char :: "posix_permissions \<Rightarrow> nat \<Rightarrow> char" where
  "octal_char p shift = digit_char (unat (drop_bit shift p AND 7))"

definition to_octal :: "posix_permissions \<Rightarrow> bool \<Rightarrow> string" where
  "to_octal p always =
     ''0'' @ (if always \<or> p AND (all_setid OR perm_sticky) \<noteq> 0 then [octal_char p 9] else [])
     @ [octal_char p 6, octal_char p 3, octal_char p 0]"

definition component_to_string :: "posix_permissions \<Rightarrow> string" where
  "component_to_string p =
     (if p AND all_read \<noteq> 0 then ''r'' else []) @ (if p AND all_write \<noteq> 0 then ''w'' else [])
     @ (if p AND all_execute \<noteq> 0 then ''x'' else []) @ (if p AND all_setid \<noteq> 0 then ''s'' else [])
     @ (if p AND perm_sticky \<noteq> 0 then ''t'' else [])"

definition class_to_string :: "posix_permissions \<Rightarrow> posix_permissions \<Rightarrow> posix_permissions \<Rightarrow> string" where
  "class_to_string p0 m0 component =
     (let m = m0 AND component; p = p0 AND m
      in if m = component then ''='' @ component_to_string p
         else
           let to_add = component_to_string (p AND m); to_remove = component_to_string (perm_not p AND m)
           in (if to_add \<noteq> [] then ''+'' @ to_add else []) @ (if to_remove \<noteq> [] then ''-'' @ to_remove else []))"

definition append_class :: "string \<Rightarrow> string \<Rightarrow> char \<Rightarrow> string" where
  "append_class ret v t = (if v = [] then ret else ret @ (if ret \<noteq> [] then '','' else []) @ [t] @ v)"

definition chmod_to_string :: "posix_chmod \<Rightarrow> string" where
  "chmod_to_string c =
     (if ch_mask c = perm_mask then to_octal (ch_perms c) True
      else
        let user = class_to_string (ch_perms c) (ch_mask c) (user_mask OR perm_setuid);
            group = class_to_string (ch_perms c) (ch_mask c) (group_mask OR perm_setgid);
            other = class_to_string (ch_perms c) (ch_mask c) (other_mask OR perm_sticky)
        in if user = group \<and> group = other then user
           else append_class (append_class (append_class [] user (CHR ''u'')) group (CHR ''g'')) other (CHR ''o''))"

end
