(* ===== verification/Posix_Chmod_Props.thy ===== *)
theory Posix_Chmod_Props
  imports Posix_Chmod
begin

text \<open>
  What is printed is read back: permissions in symbolic and in octal form, and changes of
  permissions; and what applying a change does to the bits.
\<close>

subsection \<open>Single bits\<close>

definition single :: "posix_permissions \<Rightarrow> bool" where
  "single b \<longleftrightarrow> (\<forall>p. p AND b = 0 \<or> p AND b = b)"

lemma single_power: "single (2 ^ k)"
  unfolding single_def
proof
  fix p :: posix_permissions
  have "p AND 2 ^ k = (if bit p k then 2 ^ k else 0)"
    by (rule bit_word_eqI) (auto simp: bit_simps)
  then show "p AND 2 ^ k = 0 \<or> p AND 2 ^ k = 2 ^ k" by simp
qed

lemma single_bits [simp]:
  "single user_read" "single user_write" "single user_execute" "single group_read" "single group_write"
  "single group_execute" "single other_read" "single other_write" "single other_execute"
  "single perm_setuid" "single perm_setgid" "single perm_sticky"
  using single_power [of 8] single_power [of 7] single_power [of 6] single_power [of 5] single_power [of 4]
    single_power [of 3] single_power [of 2] single_power [of 1] single_power [of 0] single_power [of 11]
    single_power [of 10] single_power [of 9]
  by (simp_all add: perm_bits)

lemma single_cases: "single b \<Longrightarrow> (p AND b = 0 \<and> P 0) \<or> (p AND b = b \<and> P b) \<Longrightarrow> P (p AND b)"
  by auto

lemma read_show_letter:
  assumes "single b" "c \<noteq> CHR ''-''"
  shows "read_letter (show_letter p b c) c b = Some (p AND b)"
proof -
  have "p AND b = 0 \<or> p AND b = b" using assms(1) by (simp add: single_def)
  then show ?thesis using assms(2) by (auto simp: read_letter_def show_letter_def)
qed

lemma read_show_execute:
  assumes "single x" "single special" "distinct [CHR ''x'', CHR ''-'', both, only]"
  shows "read_execute (show_execute p x special both only) both only x special = Some (p AND (x OR special))"
proof -
  have 1: "p AND x = 0 \<or> p AND x = x" and 2: "p AND special = 0 \<or> p AND special = special"
    using assms(1,2) by (simp_all add: single_def)
  have "p AND (x OR special) = (p AND x) OR (p AND special)" by (rule bit.conj_disj_distrib)
  then show ?thesis using 1 2 assms(3)
    by (auto simp: read_execute_def show_execute_def)
qed

lemma or_option_Some [simp]: "or_option (Some x) (Some y) = Some (x OR y)"
  by (simp add: or_option_def)

lemma symbolic_roundtrip:
  assumes "t \<in> set ''-dlpbcs''"
  shows "parse_symbolic_file_mode (t # permissions_to_string p) = Some (p AND perm_mask)"
proof -
  have "parse_symbolic_file_mode (t # permissions_to_string p) = Some
      (((p AND user_read) OR (p AND user_write) OR (p AND (user_execute OR perm_setuid))) OR
      (((p AND group_read) OR (p AND group_write) OR (p AND (group_execute OR perm_setgid))) OR
       ((p AND other_read) OR (p AND other_write) OR (p AND (other_execute OR perm_sticky)))))"
    using assms
    by (simp add: parse_symbolic_file_mode_def permissions_to_string_def read_show_letter read_show_execute
        nth_Cons' or.assoc)
  also have "\<dots> = Some (p AND perm_mask)"
    by (simp add: bit.conj_disj_distrib [symmetric] perm_bits)
  finally show ?thesis .
qed

subsection \<open>Octal numbers\<close>

lemma is_octal_code: "is_octal c \<longleftrightarrow> 48 \<le> (of_char c :: nat) \<and> (of_char c :: nat) \<le> 55"
  by (simp add: is_octal_def less_eq_char_def)

lemma octal_digit: "d < 8 \<Longrightarrow> is_octal (digit_char d) \<and> digit_val (digit_char d) = d"
  by (simp add: is_octal_code of_digit_char)

lemma octal_char_digit:
  "is_octal (octal_char p k) \<and> of_nat (digit_val (octal_char p k)) = drop_bit k p AND (7 :: posix_permissions)"
proof -
  have "drop_bit k p AND 7 \<le> (7 :: posix_permissions)" by (rule word_and_le1)
  then have "unat (drop_bit k p AND 7 :: posix_permissions) < 8" by (simp add: word_le_nat_alt)
  then show ?thesis unfolding octal_char_def by (simp add: octal_digit)
qed

lemma octal_digits_append:
  "octal_digits (xs @ ys) shift acc =
     (case octal_digits xs shift acc of None \<Rightarrow> None | Some a \<Rightarrow> octal_digits ys (shift + 3 * length xs) a)"
proof (induction xs shift acc rule: octal_digits.induct)
  case (2 c cs shift perms)
  then show ?case by (simp add: add.assoc split: option.split)
qed simp

lemma octal_digits_zeros: "octal_digits (replicate n (CHR ''0'')) shift acc = Some acc"
  by (induction n arbitrary: shift acc) (simp_all add: is_octal_code digit_val_def)

lemma octal_strip:
  "octal_digits (rev (dropWhile (\<lambda>c. c = CHR ''0'') ds)) 0 acc = octal_digits (rev ds) 0 acc"
proof -
  let ?z = "takeWhile (\<lambda>c. c = CHR ''0'') ds"
  have "?z = replicate (length ?z) (CHR ''0'')"
    by (rule replicate_eqI) (auto dest: set_takeWhileD)
  then have "rev ?z = replicate (length ?z) (CHR ''0'')" by (metis rev_replicate)
  moreover have "rev ds = rev (dropWhile (\<lambda>c. c = CHR ''0'') ds) @ rev ?z"
    by (metis rev_append takeWhile_dropWhile_id)
  ultimately show ?thesis
    by (simp add: octal_digits_append octal_digits_zeros split: option.split)
qed

lemma push_drop_and: "push_bit k (drop_bit k p AND m) = p AND push_bit k (m :: posix_permissions)"
  by (rule bit_eqI) (auto simp: bit_simps)

lemma octal_parse:
  assumes "length ds \<le> 4" "\<forall>c \<in> set ds. is_octal c"
  shows "parse_octal_file_mode (CHR ''0'' # ds) = octal_digits (rev ds) 0 0"
  using assms octal_strip [of "CHR ''0'' # ds" 0] length_dropWhile_le [of "\<lambda>c. c = CHR ''0''" ds]
  by (simp add: parse_octal_file_mode_def Let_def is_octal_code octal_digits_append digit_val_def
      octal_strip split: option.split)

lemma octal_roundtrip: "parse_octal_file_mode (to_octal p always) = Some (p AND perm_mask)"
proof -
  have d: "is_octal (octal_char p k)"
    "push_bit k (of_nat (digit_val (octal_char p k))) = p AND (push_bit k 7 :: posix_permissions)" for k
    using octal_char_digit [of p k] push_drop_and [of k p 7] by simp_all
  show ?thesis
  proof (cases "always \<or> p AND (all_setid OR perm_sticky) \<noteq> 0")
    case True
    then have "parse_octal_file_mode (to_octal p always)
        = octal_digits [octal_char p 0, octal_char p 3, octal_char p 6, octal_char p 9] 0 0"
      using octal_parse [of "[octal_char p 9, octal_char p 6, octal_char p 3, octal_char p 0]"] d(1)
      by (simp add: to_octal_def)
    also have "\<dots> = Some ((p AND push_bit 0 7) OR (p AND push_bit 3 7) OR (p AND push_bit 6 7) OR (p AND push_bit 9 7))"
      using d(1) d(2) [of 0] d(2) [of 3] d(2) [of 6] d(2) [of 9] by (simp add: or.assoc)
    also have "\<dots> = Some (p AND perm_mask)"
      by (simp add: bit.conj_disj_distrib [symmetric] perm_bits push_bit_eq_mult)
    finally show ?thesis .
  next
    case False
    then have "parse_octal_file_mode (to_octal p always)
        = octal_digits [octal_char p 0, octal_char p 3, octal_char p 6] 0 0"
      using octal_parse [of "[octal_char p 6, octal_char p 3, octal_char p 0]"] d(1)
      by (simp add: to_octal_def)
    also have "\<dots> = Some ((p AND push_bit 0 7) OR (p AND push_bit 3 7) OR (p AND push_bit 6 7))"
      using d(1) d(2) [of 0] d(2) [of 3] d(2) [of 6] by (simp add: or.assoc)
    also have "(p AND push_bit 0 7) OR (p AND push_bit 3 7) OR (p AND push_bit 6 7) = p AND ugo_mask"
      by (simp add: bit.conj_disj_distrib [symmetric] perm_bits push_bit_eq_mult)
    also have "p AND ugo_mask = (p AND ugo_mask) OR (p AND (all_setid OR perm_sticky))" using False by simp
    also have "\<dots> = p AND perm_mask"
      by (simp add: bit.conj_disj_distrib [symmetric] perm_bits)
    finally show ?thesis .
  qed
qed

text \<open>Permissions survive printing and reading in both forms.  The symbolic form behind
  any file type letter and the octal form, with or without the digit for the special bits, give all twelve
  bits back, also through \<open>parse_permissions\<close>, which tries octal, symbolic and
  MLSD facts in turn.\<close>

theorem permissions_roundtrip:
  assumes "t \<in> set ''-dlpbcs''"
  shows "parse_permissions (t # permissions_to_string p) mlsd = Some (p AND perm_mask) \<and>
         parse_permissions (to_octal p always) mlsd = Some (p AND perm_mask)"
proof -
  have "last (t # permissions_to_string p) \<noteq> CHR '')''"
    by (simp add: permissions_to_string_def show_execute_def)
  moreover have "\<not> is_octal t" using assms by (auto simp: is_octal_code)
  then have "parse_octal_file_mode (t # permissions_to_string p) = None"
    by (simp add: parse_octal_file_mode_def)
  ultimately have 1: "parse_permissions (t # permissions_to_string p) mlsd = Some (p AND perm_mask)"
    using symbolic_roundtrip [OF assms, of p] by (simp add: parse_permissions_def Let_def)
  have "last (to_octal p always) = octal_char p 0" by (simp add: to_octal_def)
  moreover have "octal_char p 0 \<noteq> CHR '')''" using octal_char_digit [of p 0] by (auto simp: is_octal_code)
  ultimately have 2: "parse_permissions (to_octal p always) mlsd = Some (p AND perm_mask)"
    using octal_roundtrip [of p always] by (simp add: parse_permissions_def Let_def)
  show ?thesis using 1 2 by simp
qed

theorem permissions_roundtrip_witness:
  "permissions_to_string (0x9ED) = ''rwsr-xr-x'' \<and> to_octal 0x9ED False = ''04755'' \<and>
   parse_permissions ''drwsr-xr-x'' True = Some 0x9ED \<and> parse_permissions ''04755'' False = Some 0x9ED"
proof -
  have "permissions_to_string 0x9ED = ''rwsr-xr-x''" "to_octal 0x9ED False = ''04755''"
    "(0x9ED :: posix_permissions) AND perm_mask = 0x9ED" by code_simp+
  then show ?thesis
    using permissions_roundtrip [of "CHR ''d''" "0x9ED" True False] permissions_roundtrip [of "CHR ''d''" "0x9ED" False False]
    by simp
qed

subsection \<open>Applying a change\<close>

lemma perm_mask_mask: "perm_mask = mask 12"
  by (simp add: perm_mask_def mask_eq_exp_minus_1)

lemma bit_perm_mask [simp]: "bit perm_mask n \<longleftrightarrow> n < 12"
  by (auto simp: perm_mask_mask bit_simps)

lemma bit_perm_not [simp]: "bit (perm_not p) n \<longleftrightarrow> n < 12 \<and> \<not> bit p n"
  by (auto simp: perm_not_def bit_simps)

text \<open>Applying a change sets exactly the bits of its mask, to its permissions; other bits
  keep their value, applying it twice is applying it once, and an empty change does nothing.\<close>

theorem apply_chmod_bits:
  "(bit (apply_chmod orig c) n \<longleftrightarrow>
      (if bit (ch_mask c) n then bit (ch_perms c) n else n < 12 \<and> bit orig n)) \<and>
   apply_chmod (apply_chmod orig c) c = apply_chmod orig c \<and>
   apply_chmod orig no_chmod = orig AND perm_mask"
proof -
  have bits: "bit (apply_chmod orig c) n \<longleftrightarrow>
      (if bit (ch_mask c) n then bit (ch_perms c) n else n < 12 \<and> bit orig n)" for orig n
    by (auto simp: apply_chmod_def bit_simps)
  have "apply_chmod (apply_chmod orig c) c = apply_chmod orig c"
    by (rule bit_word_eqI) (simp add: bits)
  moreover have "apply_chmod orig no_chmod = orig AND perm_mask"
    by (rule bit_word_eqI) (auto simp: apply_chmod_def no_chmod_def bit_simps)
  ultimately show ?thesis using bits by blast
qed

theorem apply_chmod_bits_witness:
  "apply_chmod (apply_chmod 0x1A4 (parse_chmod libfz_std ''u+x,go-r'')) (parse_chmod libfz_std ''u+x,go-r'')
     = 0x1C0 \<and> apply_chmod 0x1A4 no_chmod = 0x1A4"
proof -
  have "apply_chmod 0x1A4 (parse_chmod libfz_std ''u+x,go-r'') = 0x1C0"
    "(0x1A4 :: posix_permissions) AND perm_mask = 0x1A4" by code_simp+
  then show ?thesis
    using apply_chmod_bits [of "0x1A4" "parse_chmod libfz_std ''u+x,go-r''" 0] by simp
qed

subsection \<open>The three classes\<close>

definition class_of :: "char \<Rightarrow> posix_permissions" where
  "class_of t = (if t = CHR ''u'' then user_mask OR perm_setuid
     else if t = CHR ''g'' then group_mask OR perm_setgid else other_mask OR perm_sticky)"

lemma single_zero: "single 0"
  by (simp add: single_def)

lemma class_letters:
  assumes "B \<in> {all_read, all_write, all_execute, all_setid, perm_sticky}"
  shows "single (class_of t AND B)"
proof -
  have "single (0x100)" "single 0x80" "single 0x40" "single 0x20" "single 0x10" "single 8" "single 4"
    "single 2" "single 1" "single 0x800" "single 0x400" "single 0x200"
    using single_bits by (simp_all add: perm_bits)
  then show ?thesis using assms single_zero by (auto simp: class_of_def perm_bits)
qed

lemma class_all: "class_of (CHR ''u'') OR class_of (CHR ''g'') OR class_of (CHR ''o'') = perm_mask"
  by (simp add: class_of_def perm_bits)

lemma class_sum:
  "(class_of t AND all_read) OR (class_of t AND all_write) OR (class_of t AND all_execute) OR
   (class_of t AND all_setid) OR (class_of t AND perm_sticky) = class_of t"
  by (auto simp: class_of_def perm_bits)

lemma class_of_bits: "bit (class_of t) n \<Longrightarrow> n < 12"
proof -
  have "class_of t = class_of t AND perm_mask" by (auto simp: class_of_def perm_bits)
  then show "bit (class_of t) n \<Longrightarrow> n < 12" by (metis bit_and_iff bit_perm_mask)
qed

text \<open>What the letters of a component stand for when they are read without their class.\<close>

definition spread :: "posix_permissions \<Rightarrow> posix_permissions" where
  "spread q =
     (if q AND all_read \<noteq> 0 then all_read else 0) OR (if q AND all_write \<noteq> 0 then all_write else 0) OR
     (if q AND all_execute \<noteq> 0 then all_execute else 0) OR (if q AND all_setid \<noteq> 0 then all_setid else 0) OR
     (if q AND perm_sticky \<noteq> 0 then perm_sticky else 0)"

lemma perm_letters_stop: "rest = [] \<or> hd rest \<in> set ''=-+'' \<Longrightarrow> perm_letters rest acc = Some (acc, rest)"
  by (cases rest) (auto simp: perm_letter_def)

lemma perm_letters_component:
  assumes "rest = [] \<or> hd rest \<in> set ''=-+''"
  shows "perm_letters (component_to_string q @ rest) 0 = Some (spread q, rest)"
  using perm_letters_stop [OF assms]
  by (simp add: component_to_string_def spread_def perm_letter_def or.assoc)

lemma spread_one:
  assumes "single (K AND B)" "q AND K = q"
  shows "(if q AND B \<noteq> 0 then B else 0) AND K = q AND (K AND B)"
proof -
  have "q AND B = q AND (K AND B)" using assms(2) by (metis and.assoc)
  moreover have "q AND (K AND B) = 0 \<or> q AND (K AND B) = K AND B" using assms(1) by (simp add: single_def)
  ultimately show ?thesis by (auto simp: and.commute)
qed

lemma spread_class:
  assumes "q AND class_of t = q"
  shows "spread q AND class_of t = q"
proof -
  let ?K = "class_of t"
  note one = spread_one [OF class_letters assms]
  have "spread q AND ?K = (q AND (?K AND all_read)) OR (q AND (?K AND all_write)) OR
      (q AND (?K AND all_execute)) OR (q AND (?K AND all_setid)) OR (q AND (?K AND perm_sticky))"
    unfolding spread_def bit.conj_disj_distrib2 by (simp only: one insert_iff empty_iff simp_thms)
  also have "\<dots> = q AND ((?K AND all_read) OR (?K AND all_write) OR (?K AND all_execute) OR
      (?K AND all_setid) OR (?K AND perm_sticky))" by (simp only: bit.conj_disj_distrib)
  also have "\<dots> = q AND ?K" by (simp only: class_sum)
  finally show ?thesis using assms by simp
qed

lemma component_empty: "component_to_string q = [] \<Longrightarrow> spread q = 0"
  by (auto simp: component_to_string_def spread_def split: if_splits)

lemma component_letters: "set (component_to_string q) \<subseteq> set ''rwxst''"
  by (auto simp: component_to_string_def)

subsection \<open>Reading a printed change\<close>

definition plus_minus :: "posix_permissions \<Rightarrow> posix_permissions \<Rightarrow> string" where
  "plus_minus q1 q2 =
     (if component_to_string q1 \<noteq> [] then ''+'' @ component_to_string q1 else []) @
     (if component_to_string q2 \<noteq> [] then ''-'' @ component_to_string q2 else [])"

lemma perm_not_zero: "p AND perm_mask = p \<Longrightarrow> p AND perm_not 0 = p"
  by (simp add: perm_not_def)

lemma plus_minus_read:
  assumes "plus_minus q1 q2 \<noteq> []" "ch_perms ret AND perm_mask = ch_perms ret" "k AND perm_mask = k"
  shows "segment_modes k (plus_minus q1 q2) ret =
     Some \<lparr>ch_perms = (ch_perms ret OR (spread q1 AND k)) AND perm_not (spread q2 AND k),
           ch_mask = ch_mask ret OR (spread q1 AND k) OR (spread q2 AND k)\<rparr>"
proof -
  let ?c1 = "component_to_string q1" and ?c2 = "component_to_string q2"
  have read: "perm_letters ?c1 0 = Some (spread q1, [])" "perm_letters ?c2 0 = Some (spread q2, [])"
    "perm_letters (?c1 @ CHR ''-'' # ?c2) 0 = Some (spread q1, CHR ''-'' # ?c2)"
    using perm_letters_component [of "[]" q1] perm_letters_component [of "[]" q2]
      perm_letters_component [of "CHR ''-'' # ?c2" q1] by simp_all
  have low: "(ch_perms ret OR (spread q1 AND k)) AND perm_not 0 = ch_perms ret OR (spread q1 AND k)"
  proof (rule perm_not_zero)
    show "(ch_perms ret OR (spread q1 AND k)) AND perm_mask = ch_perms ret OR (spread q1 AND k)"
      using assms(2,3) by (simp add: bit.conj_disj_distrib2 and.assoc)
  qed
  consider "?c1 = []" "?c2 \<noteq> []" | "?c1 \<noteq> []" "?c2 = []" | "?c1 \<noteq> []" "?c2 \<noteq> []"
  proof -
    have "?c1 \<noteq> [] \<or> ?c2 \<noteq> []" using assms(1) by (auto simp: plus_minus_def split: if_splits)
    then show thesis using that by blast
  qed
  then show ?thesis
  proof cases
    case 1
    then show ?thesis using read component_empty [of q1] by (simp add: plus_minus_def change_mode_def)
  next
    case 2
    then show ?thesis using read component_empty [of q2] low by (simp add: plus_minus_def change_mode_def)
  next
    case 3
    then show ?thesis using read by (simp add: plus_minus_def change_mode_def or.assoc)
  qed
qed

definition class_effect :: "posix_permissions \<Rightarrow> posix_permissions \<Rightarrow> posix_permissions \<Rightarrow> posix_chmod \<Rightarrow> posix_chmod" where
  "class_effect p m k ret =
     \<lparr>ch_perms = (ch_perms ret AND perm_not (m AND k)) OR (p AND m AND k), ch_mask = ch_mask ret OR (m AND k)\<rparr>"

lemma class_to_string_cases:
  "class_to_string p m (class_of t) =
     (if m AND class_of t = class_of t then ''='' @ component_to_string (p AND m AND class_of t)
      else plus_minus (p AND m AND class_of t) (perm_not (p AND m AND class_of t) AND (m AND class_of t)))"
proof -
  have "(p AND m AND class_of t) AND m AND class_of t = p AND m AND class_of t"
    by (rule bit_word_eqI) (auto simp: bit_simps)
  then show ?thesis unfolding class_to_string_def Let_def plus_minus_def by (simp only:)
qed

lemma sub_class: "x AND class_of t AND class_of t = x AND class_of t"
  by (simp add: and.assoc)

lemma class_not_empty: "class_of t \<noteq> 0"
  by (simp add: class_of_def perm_bits)

lemma class_low: "class_of t AND perm_mask = class_of t"
  by (simp add: class_of_def perm_bits)

lemma class_read:
  assumes "ch_perms ret AND perm_mask = ch_perms ret"
  shows "(if class_to_string p m (class_of t) = [] then Some ret
          else segment_modes (class_of t) (class_to_string p m (class_of t)) ret)
       = Some (class_effect p m (class_of t) ret)"
proof -
  let ?K = "class_of t"
  let ?q1 = "p AND m AND ?K" and ?q2 = "perm_not (p AND m AND ?K) AND (m AND ?K)"
  have s1: "spread ?q1 AND ?K = ?q1" by (rule spread_class) (simp add: and.assoc)
  have "?q2 AND ?K = ?q2" by (simp add: and.assoc)
  then have s2: "spread ?q2 AND ?K = ?q2" by (rule spread_class)
  have low: "\<And>n. bit (ch_perms ret) n \<Longrightarrow> n < 12" using assms by (metis bit_and_iff bit_perm_mask)
  show ?thesis
  proof (cases "m AND ?K = ?K")
    case True
    then have "class_to_string p m ?K = CHR ''='' # component_to_string ?q1"
      by (simp add: class_to_string_cases)
    moreover have "perm_letters (component_to_string ?q1) 0 = Some (spread ?q1, [])"
      using perm_letters_component [of "[]" ?q1] by simp
    ultimately show ?thesis using True s1 by (simp add: change_mode_def class_effect_def)
  next
    case False
    then have printed: "class_to_string p m ?K = plus_minus ?q1 ?q2" by (simp add: class_to_string_cases)
    have eff: "(ch_perms ret OR ?q1) AND perm_not ?q2 = (ch_perms ret AND perm_not (m AND ?K)) OR ?q1"
      by (rule bit_word_eqI) (use low class_of_bits [of t] in \<open>auto simp: bit_simps\<close>)
    have mask: "?q1 OR ?q2 = m AND ?K"
      by (rule bit_word_eqI) (use class_of_bits [of t] in \<open>auto simp: bit_simps\<close>)
    show ?thesis
    proof (cases "plus_minus ?q1 ?q2 = []")
      case True
      then have "component_to_string ?q1 = []" "component_to_string ?q2 = []" by (auto simp: plus_minus_def split: if_splits)
      then have "?q1 = 0" "?q2 = 0" using component_empty s1 s2 by force+
      then show ?thesis using True printed eff mask perm_not_zero [OF assms]
        by (simp add: class_effect_def)
    next
      case ne: False
      then show ?thesis
        using plus_minus_read [OF ne assms class_low [of t]] printed s1 s2 eff mask
        by (simp add: class_effect_def or.assoc)
    qed
  qed
qed

lemma class_effect_low:
  assumes "ch_perms ret AND perm_mask = ch_perms ret"
  shows "ch_perms (class_effect p m (class_of t) ret) AND perm_mask = ch_perms (class_effect p m (class_of t) ret)"
proof (rule bit_word_eqI)
  fix n
  have "\<And>n. bit (ch_perms ret) n \<Longrightarrow> n < 12" using assms by (metis bit_and_iff bit_perm_mask)
  then show "bit (ch_perms (class_effect p m (class_of t) ret) AND perm_mask) n
      = bit (ch_perms (class_effect p m (class_of t) ret)) n"
    using class_of_bits [of t n] by (auto simp: class_effect_def bit_simps)
qed

subsection \<open>The whole change\<close>

definition class_token :: "posix_chmod \<Rightarrow> char \<Rightarrow> string list" where
  "class_token c t =
     (let v = class_to_string (ch_perms c) (ch_mask c) (class_of t) in if v = [] then [] else [t # v])"

lemma class_text_head:
  "class_to_string p m (class_of t) \<noteq> [] \<Longrightarrow> hd (class_to_string p m (class_of t)) \<in> set ''=+-''"
  by (auto simp: class_to_string_cases plus_minus_def split: if_splits)

lemma class_text_no_comma: "CHR '','' \<notin> set (class_to_string p m (class_of t))"
proof -
  have "CHR '','' \<notin> set (component_to_string q)" for q using component_letters [of q] by auto
  then show ?thesis by (simp add: class_to_string_cases plus_minus_def)
qed

lemma class_prefix_stop: "hd s \<in> set ''=+-'' \<Longrightarrow> s \<noteq> [] \<Longrightarrow> class_prefix s k = (if k = 0 then perm_mask else k, s)"
  by (cases s) (auto simp: class_letter_def)

lemma class_token_read:
  assumes "ch_perms ret AND perm_mask = ch_perms ret" "t \<in> set ''ugo''"
  shows "chmod_segments (class_token c t @ rest) ret
     = chmod_segments rest (class_effect (ch_perms c) (ch_mask c) (class_of t) ret)"
proof -
  let ?v = "class_to_string (ch_perms c) (ch_mask c) (class_of t)"
  have "class_prefix (t # ?v) 0 = (class_of t, ?v)" if "?v \<noteq> []"
    using assms(2) class_prefix_stop [OF class_text_head [OF that] that] class_not_empty [of t]
    by (auto simp: class_letter_def class_of_def)
  then show ?thesis using class_read [OF assms(1), of "ch_perms c" "ch_mask c" t]
    by (cases "?v = []") (simp_all add: class_token_def)
qed

lemma split_at_join:
  "ts \<noteq> [] \<Longrightarrow> \<forall>t \<in> set ts. CHR '','' \<notin> set t \<Longrightarrow> split_at {CHR '',''} (join '','' ts) = ts"
proof (induction ts)
  case (Cons t ts)
  show ?case
  proof (cases ts)
    case Nil
    then show ?thesis using Cons.prems split_at_clean [of t "{CHR '',''}"] by auto
  next
    case (Cons u us)
    then have "split_at {CHR '',''} (t @ CHR '','' # join '','' ts) = t # split_at {CHR '',''} (join '','' ts)"
      using Cons.prems by (intro split_at_join_step) auto
    then show ?thesis using Cons Cons.IH Cons.prems by simp
  qed
qed simp

lemma append_classes:
  "append_class (append_class (append_class [] u (CHR ''u'')) g (CHR ''g'')) v (CHR ''o'')
   = join '','' ((if u = [] then [] else [CHR ''u'' # u]) @ (if g = [] then [] else [CHR ''g'' # g]) @
       (if v = [] then [] else [CHR ''o'' # v]))"
  by (simp add: append_class_def)

definition effect_all :: "posix_chmod \<Rightarrow> posix_chmod" where
  "effect_all c = class_effect (ch_perms c) (ch_mask c) (class_of (CHR ''o''))
     (class_effect (ch_perms c) (ch_mask c) (class_of (CHR ''g''))
       (class_effect (ch_perms c) (ch_mask c) (class_of (CHR ''u'')) no_chmod))"

lemma class_cover: "n < 12 \<Longrightarrow> bit (class_of (CHR ''u'')) n \<or> bit (class_of (CHR ''g'')) n \<or> bit (class_of (CHR ''o'')) n"
proof -
  have "bit perm_mask n = (bit (class_of (CHR ''u'')) n \<or> bit (class_of (CHR ''g'')) n \<or> bit (class_of (CHR ''o'')) n)"
    by (simp only: class_all [symmetric] bit_or_iff)
  then show "n < 12 \<Longrightarrow> ?thesis" by simp
qed

lemma effect_all_eq:
  assumes "ch_mask c AND perm_mask = ch_mask c"
  shows "effect_all c = \<lparr>ch_perms = ch_perms c AND ch_mask c, ch_mask = ch_mask c\<rparr>"
proof -
  have low: "\<And>n. bit (ch_mask c) n \<Longrightarrow> n < 12" using assms by (metis bit_and_iff bit_perm_mask)
  have "ch_perms (effect_all c) = ch_perms c AND ch_mask c"
    by (rule bit_word_eqI) (use low class_cover in \<open>auto simp: effect_all_def class_effect_def no_chmod_def bit_simps\<close>)
  moreover have "ch_mask (effect_all c) = ch_mask c"
    by (rule bit_word_eqI) (use low class_cover in \<open>auto simp: effect_all_def class_effect_def no_chmod_def bit_simps\<close>)
  ultimately show ?thesis by simp
qed

lemma tokens_read:
  "chmod_segments (class_token c (CHR ''u'') @ class_token c (CHR ''g'') @ class_token c (CHR ''o'')) no_chmod
     = Some (effect_all c)"
proof -
  have "ch_perms no_chmod AND perm_mask = ch_perms no_chmod" by (simp add: no_chmod_def)
  then show ?thesis
    using class_token_read [of no_chmod "CHR ''u''" c] class_token_read [of _ "CHR ''g''" c]
      class_token_read [of _ "CHR ''o''" c "[]"]
    by (simp add: class_effect_low effect_all_def)
qed

lemma plus_minus_inj:
  assumes "plus_minus a b = plus_minus c d"
  shows "spread a = spread c \<and> spread b = spread d"
proof -
  have clean: "\<forall>x \<in> set (component_to_string q). x \<noteq> CHR ''-''" "\<forall>x \<in> set (component_to_string q). x \<noteq> CHR ''+''" for q
    using component_letters [of q] by auto
  define head where "head q = (if component_to_string q \<noteq> [] then ''+'' @ component_to_string q else [])" for q
  define back_part where "back_part q = (if component_to_string q \<noteq> [] then ''-'' @ component_to_string q else [])" for q
  have nodash: "\<forall>x \<in> set (head q). x \<noteq> CHR ''-''" for q using clean [of q] by (auto simp: head_def)
  have dash: "back_part q = [] \<or> hd (back_part q) = CHR ''-''" for q by (simp add: back_part_def)
  have "takeWhile (\<lambda>x. x \<noteq> CHR ''-'') (head q @ back_part r) = head q" for q r
    using nodash [of q] dash [of r] by (cases "back_part r") (simp_all add: takeWhile_append2)
  moreover have "head a @ back_part b = head c @ back_part d"
    using assms by (simp add: plus_minus_def head_def back_part_def)
  ultimately have "head a = head c" "back_part b = back_part d" by (metis same_append_eq)+
  then have "component_to_string a = component_to_string c" "component_to_string b = component_to_string d"
    by (auto simp: head_def back_part_def split: if_splits)
  moreover have "spread q = spread r" if "component_to_string q = component_to_string r" for q r
    using perm_letters_component [of "[]" q] perm_letters_component [of "[]" r] that by simp
  ultimately show ?thesis by blast
qed

lemma same_text_read:
  assumes "ch_mask c AND perm_mask = ch_mask c" "ch_mask c \<noteq> perm_mask"
    and same: "\<And>t. t \<in> set ''ugo'' \<Longrightarrow> class_to_string (ch_perms c) (ch_mask c) (class_of t) = v" and "v \<noteq> []"
  shows "chmod_segments [v] no_chmod = Some \<lparr>ch_perms = ch_perms c AND ch_mask c, ch_mask = ch_mask c\<rparr>"
proof -
  let ?p = "ch_perms c" and ?m = "ch_mask c"
  define q1 where "q1 t = ?p AND ?m AND class_of t" for t
  define q2 where "q2 t = perm_not (?p AND ?m AND class_of t) AND (?m AND class_of t)" for t
  have part: "\<exists>t \<in> set ''ugo''. ?m AND class_of t \<noteq> class_of t"
  proof (rule ccontr)
    assume "\<not> ?thesis"
    then have "\<And>t n. t \<in> set ''ugo'' \<Longrightarrow> bit (class_of t) n \<Longrightarrow> bit ?m n" by (metis bit_and_iff)
    then have "n < 12 \<Longrightarrow> bit ?m n" for n using class_cover [of n] by auto
    then have "?m AND perm_mask = perm_mask" by (intro bit_word_eqI) (auto simp: bit_simps)
    then show False using assms(1,2) by simp
  qed
  have not_eq: "v \<noteq> CHR ''='' # component_to_string x" for x
  proof -
    obtain t where "t \<in> set ''ugo''" "?m AND class_of t \<noteq> class_of t" using part by blast
    then have "v = plus_minus (q1 t) (q2 t)" using same [of t] by (simp add: class_to_string_cases q1_def q2_def)
    then show ?thesis by (simp add: plus_minus_def)
  qed
  have v: "v = plus_minus (q1 t) (q2 t)" if "t \<in> set ''ugo''" for t
    using same [OF that] not_eq [of "?p AND ?m AND class_of t"]
    by (simp add: class_to_string_cases q1_def q2_def split: if_splits)
  let ?F1 = "spread (q1 (CHR ''u''))" and ?F2 = "spread (q2 (CHR ''u''))"
  have F: "spread (q1 t) = ?F1" "spread (q2 t) = ?F2" if "t \<in> set ''ugo''" for t
    using plus_minus_inj [of "q1 t" "q2 t" "q1 (CHR ''u'')" "q2 (CHR ''u'')"] v [OF that] v [of "CHR ''u''"] by simp_all
  have K: "?F1 AND class_of t = q1 t" "?F2 AND class_of t = q2 t" if "t \<in> set ''ugo''" for t
    using spread_class [of "q1 t" t] spread_class [of "q2 t" t] F [OF that]
    by (simp_all add: q1_def q2_def and.assoc)
  have low: "\<And>n. bit ?m n \<Longrightarrow> n < 12" using assms(1) by (metis bit_and_iff bit_perm_mask)
  have bits: "bit (?F1 AND perm_mask) n \<longleftrightarrow> bit ?p n \<and> bit ?m n"
    "bit (?F2 AND perm_mask) n \<longleftrightarrow> \<not> bit ?p n \<and> bit ?m n" for n
  proof -
    have "bit ?F1 n \<longleftrightarrow> bit ?p n \<and> bit ?m n" "bit ?F2 n \<longleftrightarrow> \<not> bit ?p n \<and> bit ?m n" if n: "n < 12"
    proof -
      obtain t where t: "t \<in> set ''ugo''" "bit (class_of t) n" using class_cover [OF n] by auto
      then have "bit ?F1 n = bit (q1 t) n" "bit ?F2 n = bit (q2 t) n"
        using K [OF t(1)] by (metis bit_and_iff)+
      then show "bit ?F1 n \<longleftrightarrow> bit ?p n \<and> bit ?m n" "bit ?F2 n \<longleftrightarrow> \<not> bit ?p n \<and> bit ?m n"
        using t(2) n by (auto simp: q1_def q2_def bit_simps)
    qed
    then show "bit (?F1 AND perm_mask) n \<longleftrightarrow> bit ?p n \<and> bit ?m n"
      "bit (?F2 AND perm_mask) n \<longleftrightarrow> \<not> bit ?p n \<and> bit ?m n"
      using low by (auto simp: bit_and_iff)
  qed
  have "(?F1 AND perm_mask) AND perm_not (?F2 AND perm_mask) = ?p AND ?m"
    by (rule bit_word_eqI) (use bits low in \<open>auto simp only: bit_and_iff [of _ "perm_not _"] bit_perm_not bit_and_iff [of "ch_perms c"]\<close>)
  moreover have "(?F1 AND perm_mask) OR (?F2 AND perm_mask) = ?m"
    by (rule bit_word_eqI) (use bits in \<open>auto simp only: bit_or_iff\<close>)
  moreover have "class_prefix v 0 = (perm_mask, v)"
    using class_prefix_stop [of v 0] class_text_head [of ?p ?m "CHR ''u''"] same [of "CHR ''u''"] assms(4) by simp
  moreover have "plus_minus (q1 (CHR ''u'')) (q2 (CHR ''u'')) \<noteq> []" using v [of "CHR ''u''"] assms(4) by simp
  from plus_minus_read [OF this, of no_chmod perm_mask] have
    "segment_modes perm_mask v no_chmod = Some \<lparr>ch_perms = (?F1 AND perm_mask) AND perm_not (?F2 AND perm_mask),
       ch_mask = (?F1 AND perm_mask) OR (?F2 AND perm_mask)\<rparr>"
    using v [of "CHR ''u''"] by (simp add: no_chmod_def)
  ultimately show ?thesis by simp
qed

lemma chmod_octal_read: "chmod_octal (rev (to_octal p True)) 0 0 = Some (p AND perm_mask, 15)"
proof -
  have d: "is_octal (octal_char p k)"
    "push_bit k (of_nat (digit_val (octal_char p k))) = p AND (push_bit k 7 :: posix_permissions)" for k
    using octal_char_digit [of p k] push_drop_and [of k p 7] by simp_all
  have "chmod_octal (rev (to_octal p True)) 0 0 =
      Some ((p AND push_bit 0 7) OR (p AND push_bit 3 7) OR (p AND push_bit 6 7) OR (p AND push_bit 9 7), 15)"
    using d(1) d(2) [of 0] d(2) [of 3] d(2) [of 6] d(2) [of 9]
    by (simp add: to_octal_def or.assoc is_octal_code)
  also have "\<dots> = Some (p AND perm_mask, 15)"
    by (simp add: bit.conj_disj_distrib [symmetric] perm_bits push_bit_eq_mult)
  finally show ?thesis .
qed

lemma symbolic_chmod:
  assumes "tokenizer_all_law L" "s \<noteq> []" "hd s \<in> set ''ugo=+-''"
  shows "parse_chmod L s = (case chmod_segments (split_at {CHR '',''} s) no_chmod of None \<Rightarrow> no_chmod | Some c \<Rightarrow> c)"
proof -
  have "\<not> is_octal (hd s)" using assms(3) by (auto simp: is_octal_code)
  moreover have "fz_strtokenizer L s '','' False = split_at {CHR '',''} s"
    using assms(1,2) by (simp add: tokenizer_all_law_def)
  ultimately show ?thesis by (simp add: parse_chmod_def)
qed

lemma chmod_empty: "tokenizer_all_law L \<Longrightarrow> parse_chmod L [] = no_chmod"
proof -
  assume "tokenizer_all_law L"
  then have "fz_strtokenizer L [] '','' False = [] \<or> fz_strtokenizer L [] '','' False = [[]]"
    by (simp add: tokenizer_all_law_def)
  then show ?thesis by (auto simp: parse_chmod_def)
qed

text \<open>C27: a change of permissions survives printing and reading: the text gives back the same mask
  and, under the mask, the same permissions, so it changes every file in the same way.  That covers the
  octal form of a full mask, the unprefixed form when the three classes agree, and the forms with
  \<open>=\<close>, \<open>+\<close> and \<open>-\<close> per class.\<close>

theorem chmod_roundtrip:
  assumes "tokenizer_all_law L" and "ch_mask c AND perm_mask = ch_mask c"
  shows "parse_chmod L (chmod_to_string c) = \<lparr>ch_perms = ch_perms c AND ch_mask c, ch_mask = ch_mask c\<rparr> \<and>
         apply_chmod orig (parse_chmod L (chmod_to_string c)) = apply_chmod orig c"
proof -
  let ?v = "\<lambda>t. class_to_string (ch_perms c) (ch_mask c) (class_of t)"
  let ?u = "?v (CHR ''u'')" and ?g = "?v (CHR ''g'')" and ?o = "?v (CHR ''o'')"
  have text_eq: "chmod_to_string c =
     (if ch_mask c = perm_mask then to_octal (ch_perms c) True
      else if ?u = ?g \<and> ?g = ?o then ?u
      else join '','' (class_token c (CHR ''u'') @ class_token c (CHR ''g'') @ class_token c (CHR ''o'')))"
    using append_classes [of ?u ?g ?o] by (simp add: chmod_to_string_def Let_def class_token_def class_of_def)
  have "parse_chmod L (chmod_to_string c) = \<lparr>ch_perms = ch_perms c AND ch_mask c, ch_mask = ch_mask c\<rparr>"
  proof (cases "ch_mask c = perm_mask")
    case True
    have "to_octal (ch_perms c) True \<noteq> []" "is_octal (hd (to_octal (ch_perms c) True))"
      by (simp_all add: to_octal_def is_octal_code)
    then show ?thesis using True chmod_octal_read [of "ch_perms c"] text_eq by (simp add: parse_chmod_def)
  next
    case part: False
    show ?thesis
    proof (cases "?u = ?g \<and> ?g = ?o")
      case same: True
      show ?thesis
      proof (cases "?u = []")
        case True
        then have "class_token c (CHR ''u'') @ class_token c (CHR ''g'') @ class_token c (CHR ''o'') = []"
          using same by (simp add: class_token_def)
        then have "effect_all c = no_chmod" using tokens_read [of c] by simp
        then show ?thesis
          using True same part text_eq chmod_empty [OF assms(1)] effect_all_eq [OF assms(2)] by simp
      next
        case False
        have "split_at {CHR '',''} ?u = [?u]"
          using class_text_no_comma [of "ch_perms c" "ch_mask c" "CHR ''u''"] by (intro split_at_clean) auto
        moreover have "hd ?u \<in> set ''ugo=+-''" using class_text_head [OF False] by auto
        moreover have "chmod_segments [?u] no_chmod = Some \<lparr>ch_perms = ch_perms c AND ch_mask c, ch_mask = ch_mask c\<rparr>"
          by (rule same_text_read [OF assms(2) part _ False]) (use same in auto)
        ultimately show ?thesis
          using same part text_eq symbolic_chmod [OF assms(1) False] by simp
      qed
    next
      case False
      let ?ts = "class_token c (CHR ''u'') @ class_token c (CHR ''g'') @ class_token c (CHR ''o'')"
      have ne: "?ts \<noteq> []" using False by (auto simp: class_token_def Let_def split: if_splits)
      have heads: "\<forall>t \<in> set ?ts. t \<noteq> [] \<and> hd t \<in> set ''ugo=+-''" by (auto simp: class_token_def Let_def split: if_splits)
      have "\<forall>t \<in> set ?ts. CHR '','' \<notin> set t" using class_text_no_comma by (auto simp: class_token_def Let_def split: if_splits)
      then have split: "split_at {CHR '',''} (join '','' ?ts) = ?ts" by (rule split_at_join [OF ne])
      obtain t ts where t: "?ts = t # ts" using ne by (cases ?ts) auto
      have "join '','' ?ts \<noteq> [] \<and> hd (join '','' ?ts) = hd t"
        unfolding t using heads t by (cases ts; cases t) auto
      moreover have "hd t \<in> set ''ugo=+-''" using heads t by auto
      ultimately have "parse_chmod L (join '','' ?ts) = effect_all c"
        using symbolic_chmod [OF assms(1), of "join '','' ?ts"] split tokens_read [of c] by simp
      moreover have "chmod_to_string c = join '','' ?ts" using False part text_eq by (simp only: if_False)
      ultimately show ?thesis using effect_all_eq [OF assms(2)] by simp
    qed
  qed
  then show ?thesis by (simp add: apply_chmod_def and.assoc)
qed

theorem chmod_roundtrip_witness:
  "chmod_to_string \<lparr>ch_perms = 0x1ED, ch_mask = 0x1FF\<rparr> = ''u+rwx,g+rx-w,o+rx-w'' \<and>
   parse_chmod libfz_std ''u+rwx,g+rx-w,o+rx-w'' = \<lparr>ch_perms = 0x1ED, ch_mask = 0x1FF\<rparr>"
proof -
  have "chmod_to_string \<lparr>ch_perms = 0x1ED, ch_mask = 0x1FF\<rparr> = ''u+rwx,g+rx-w,o+rx-w''"
    "(0x1FF :: posix_permissions) AND perm_mask = 0x1FF" "(0x1ED :: posix_permissions) AND 0x1FF = 0x1ED" by code_simp+
  moreover have "tokenizer_all_law libfz_std" by simp
  ultimately show ?thesis
    using chmod_roundtrip [of libfz_std "\<lparr>ch_perms = 0x1ED, ch_mask = 0x1FF\<rparr>" 0] by simp
qed

end
