(* ===== verification/Listing_Token.thy ===== *)
theory Listing_Token
  imports FZ_Prelude
begin

text \<open>
  Tokens and lines of \<open>src/filezilla3/src/engine/directorylistingparser.cpp\<close>.  A
  \<open>CToken\<close> is a view into a line, here its text; its members \<open>flags_\<close> and
  \<open>m_number\<close> only remember answers and are left out.  A \<open>CLine\<close> is split lazily:
  \<open>CLine_GetToken\<close> scans no further than it has to and keeps what it found.  The positions
  of the tokens are kept, since \<open>GetEndToken\<close> subtracts pointers.  An \<open>int\<close> that is
  \<open>-1\<close> when nothing was found is \<^term>\<open>None\<close>; numbers are 64-bit, with the overflow
  checks of the code.
\<close>

subsection \<open>Integers\<close>

definition int64_max :: int where
  "int64_max = 2 ^ 63 - 1"

definition int64_min :: int where
  "int64_min = - (2 ^ 63)"

text \<open>The conversion of an \<open>int64_t\<close> to an \<open>int\<close> keeps the low 32 bits.\<close>

definition to_int :: "int \<Rightarrow> int" where
  "to_int z = (z + 2 ^ 31) mod 2 ^ 32 - 2 ^ 31"

lemma to_int_id [simp]: "- (2 ^ 31) \<le> z \<Longrightarrow> z < 2 ^ 31 \<Longrightarrow> to_int z = z"
  unfolding to_int_def by (subst mod_pos_pos_trivial) simp_all

lemma to_int_bounds: "- (2 ^ 31) \<le> to_int z \<and> to_int z < 2 ^ 31"
  unfolding to_int_def by (simp add: pos_mod_bound [of "2 ^ 32" "z + 2 ^ 31", simplified] pos_mod_sign)

subsection \<open>Tests on tokens\<close>

datatype number_base = decimal | hex

definition hex_digit :: "char \<Rightarrow> int option" where
  "hex_digit c =
     (if CHR ''0'' \<le> c \<and> c \<le> CHR ''9'' then Some (of_char c - 48)
      else if CHR ''a'' \<le> c \<and> c \<le> CHR ''f'' then Some (of_char c - 97 + 10)
      else if CHR ''A'' \<le> c \<and> c \<le> CHR ''F'' then Some (of_char c - 65 + 10)
      else None)"

fun IsNumeric :: "number_base \<Rightarrow> wstring \<Rightarrow> bool" where
  "IsNumeric decimal t \<longleftrightarrow> t \<noteq> [] \<and> list_all is_digit t"
| "IsNumeric hex t \<longleftrightarrow> t \<noteq> [] \<and> list_all (\<lambda>c. hex_digit c \<noteq> None) t"

declare IsNumeric.simps [simp del]

definition IsNumeric_at :: "nat \<Rightarrow> nat \<Rightarrow> wstring \<Rightarrow> bool" where
  "IsNumeric_at start len t \<longleftrightarrow>
     start < length t \<and> len \<noteq> 0 \<and> len \<le> length t - start \<and> list_all is_digit (take len (drop start t))"

definition IsLeftNumeric :: "wstring \<Rightarrow> bool" where
  "IsLeftNumeric t \<longleftrightarrow> 2 \<le> length t \<and> is_digit (hd t)"

definition IsRightNumeric :: "wstring \<Rightarrow> bool" where
  "IsRightNumeric t \<longleftrightarrow> 2 \<le> length t \<and> is_digit (last t)"

definition Find_any :: "wstring \<Rightarrow> nat \<Rightarrow> wstring \<Rightarrow> nat option" where
  "Find_any chrs start t = map_option (\<lambda>i. start + i) (find_idx (\<lambda>c. c \<in> set chrs) (drop start t))"

definition Find :: "char \<Rightarrow> nat \<Rightarrow> wstring \<Rightarrow> nat option" where
  "Find chr start t = map_option (\<lambda>i. start + i) (find_idx (\<lambda>c. c = chr) (drop start t))"

subsection \<open>Numbers\<close>

text \<open>\<open>first\<close> says that no digit was read yet (\<open>i = 0\<close>).\<close>

fun decimal_loop :: "bool \<Rightarrow> bool \<Rightarrow> int \<Rightarrow> wstring \<Rightarrow> int" where
  "decimal_loop first trailingDataIsError v [] = v"
| "decimal_loop first trailingDataIsError v (c # cs) =
     (if \<not> is_digit c then (if first \<or> trailingDataIsError then -1 else v)
      else if v > int64_max div 10 then -1
      else
        let v1 = v * 10; digit = of_char c - 48
        in if int64_max - digit < v1 then -1
           else decimal_loop False trailingDataIsError (v1 + digit) cs)"

fun hex_loop :: "bool \<Rightarrow> bool \<Rightarrow> int \<Rightarrow> wstring \<Rightarrow> int" where
  "hex_loop first trailingDataIsError v [] = v"
| "hex_loop first trailingDataIsError v (c # cs) =
     (case hex_digit c of
        None \<Rightarrow> if first \<or> trailingDataIsError then -1 else v
      | Some digit \<Rightarrow>
          if v > int64_max div 16 then -1
          else
            let v1 = v * 16
            in if int64_max - digit < v1 then -1
               else hex_loop False trailingDataIsError (v1 + digit) cs)"

definition GetNumber_str :: "number_base \<Rightarrow> bool \<Rightarrow> wstring \<Rightarrow> int" where
  "GetNumber_str base trailingDataIsError s =
     (if s = [] then -1
      else (case base of
              decimal \<Rightarrow> decimal_loop True trailingDataIsError 0 s
            | hex \<Rightarrow> hex_loop True trailingDataIsError 0 s))"

definition GetNumber_at :: "nat \<Rightarrow> int \<Rightarrow> wstring \<Rightarrow> int" where
  "GetNumber_at start len t =
     (if start \<ge> length t then -1
      else if len = -1 then GetNumber_str decimal False (drop start t)
      else if len < 1 then -1
      else if length t - start < nat len then -1
      else GetNumber_str decimal False (take (nat len) (drop start t)))"

definition GetNumber :: "number_base \<Rightarrow> wstring \<Rightarrow> int" where
  "GetNumber base t =
     (case base of
        decimal \<Rightarrow>
          if IsNumeric decimal t \<or> IsLeftNumeric t then GetNumber_str decimal False t
          else if IsRightNumeric t
               then GetNumber_str decimal False (rev (takeWhile is_digit (rev t)))
               else int64_min
      | hex \<Rightarrow> GetNumber_str hex True t)"

subsection \<open>Lines\<close>

definition is_blank :: "char \<Rightarrow> bool" where
  "is_blank c \<longleftrightarrow> c = CHR '' '' \<or> c = CHR 0x09"

record CLine =
  cl_tokens :: "(nat \<times> wstring) list"
  cl_line :: wstring
  cl_parsePos :: nat
  cl_trailing :: "nat option"

definition skip_blanks :: "wstring \<Rightarrow> nat \<Rightarrow> nat" where
  "skip_blanks line pos = pos + length (takeWhile is_blank (drop pos line))"

definition CLine_new :: "wstring \<Rightarrow> nat option \<Rightarrow> CLine" where
  "CLine_new line trailing =
     \<lparr>cl_tokens = [], cl_line = line, cl_parsePos = skip_blanks line 0, cl_trailing = trailing\<rparr>"

text \<open>The scanning loop.  It returns the tokens, \<open>m_parsePos\<close> and \<open>start\<close>; the last is
  \<^term>\<open>None\<close> when the function returned from inside of the loop.\<close>

function token_loop ::
  "wstring \<Rightarrow> nat \<Rightarrow> nat \<Rightarrow> nat \<Rightarrow> (nat \<times> wstring) list \<Rightarrow> (nat \<times> wstring) list \<times> nat \<times> nat option" where
  "token_loop line n start pos toks =
     (if pos < length line
      then if is_blank (line ! pos)
           then let toks' = toks @ [(start, take (pos - start) (drop start line))];
                    pos' = skip_blanks line pos
                in if n < length toks' then (toks', pos', None)
                   else token_loop line n pos' (Suc pos') toks'
           else token_loop line n start (Suc pos) toks
      else (toks, pos, Some start))"
  by pat_completeness auto
termination
  by (relation "measure (\<lambda>(line, n, start, pos, toks). length line - pos)") (auto simp: skip_blanks_def)

declare token_loop.simps [simp del]

definition token_view :: "CLine \<Rightarrow> nat \<Rightarrow> nat \<times> wstring" where
  "token_view l n = (if n < length (cl_tokens l) then cl_tokens l ! n else (0, []))"

definition CLine_GetToken :: "CLine \<Rightarrow> nat \<Rightarrow> (nat \<times> wstring) \<times> CLine" where
  "CLine_GetToken l n =
     (if n < length (cl_tokens l) then (cl_tokens l ! n, l)
      else
        case token_loop (cl_line l) n (cl_parsePos l) (cl_parsePos l) (cl_tokens l) of
          (toks, pos, start) \<Rightarrow>
            let toks' = (case start of
                           None \<Rightarrow> toks
                         | Some s \<Rightarrow> if pos \<noteq> s then toks @ [(s, take (pos - s) (drop s (cl_line l)))] else toks);
                l' = l\<lparr>cl_tokens := toks', cl_parsePos := pos\<rparr>
            in (token_view l' n, l'))"

definition trailing_blanks :: "wstring \<Rightarrow> nat" where
  "trailing_blanks line = length (takeWhile is_blank (rev line))"

definition CLine_GetEndToken :: "CLine \<Rightarrow> nat \<Rightarrow> bool \<Rightarrow> (nat \<times> wstring) \<times> CLine" where
  "CLine_GetEndToken l n include_whitespace =
     (if include_whitespace
      then let prev = (if n \<noteq> 0 then n - 1 else n)
           in case CLine_GetToken l prev of
                (ref, l1) \<Rightarrow>
                  if snd ref = [] then (ref, l1)
                  else
                    let p = fst ref + length (snd ref) + 1
                    in if p \<ge> length (cl_line l1) then ((0, []), l1)
                       else ((p, drop p (cl_line l1)), l1)
      else
        let l0 = (if cl_trailing l = None \<and> cl_line l \<noteq> []
                  then l\<lparr>cl_trailing := Some (trailing_blanks (cl_line l))\<rparr> else l)
        in case CLine_GetToken l0 n of
             (t, l1) \<Rightarrow>
               if snd t = [] then ((0, []), l1)
               else
                 let len = length (cl_line l1) - the (cl_trailing l1) - fst t
                 in ((fst t, take len (drop (fst t) (cl_line l1))), l1))"

text \<open>The parsers read tokens from a line.  What a request returns does not depend on the
  requests before it, as \<open>Listing_Words\<close> shows, so that they need not thread the line.\<close>

definition GetToken :: "CLine \<Rightarrow> nat \<Rightarrow> wstring" where
  "GetToken l n = snd (fst (CLine_GetToken l n))"

definition GetEndToken :: "CLine \<Rightarrow> nat \<Rightarrow> bool \<Rightarrow> wstring" where
  "GetEndToken l n include_whitespace = snd (fst (CLine_GetEndToken l n include_whitespace))"

end
