(* ===== verification/Listing_Date.thy ===== *)
theory Listing_Date
  imports Listing_Token Dir_Listing Server_Site
begin

text \<open>
  Dates, times and sizes of \<open>directorylistingparser.cpp\<close>: the table of month names, and the
  functions \<open>ParseShortDate\<close>, \<open>ParseTime\<close>, \<open>ParseUnixDateTime\<close> and
  \<open>ParseComplexFileSize\<close>, that all parsers share.  The entry that a parser fills is passed
  by reference: a function returns whether it succeeded and the entry it leaves, and a parser that
  fails hands what it has written on to the next one.
\<close>

subsection \<open>The library\<close>

text \<open>
  What the parsers call of libfilezilla.  \<open>ll_dt_set t y m d h min\<close> is \<open>t.set(utc, y, m, d, h, min)\<close>
  with \<open>-1\<close> for what is not given, \<open>ll_dt_imbue\<close> is \<open>imbue_time\<close>; both return the result and
  the new value of the object.  \<open>ll_dt_date\<close> gives \<open>tm_year\<close>, \<open>tm_mon\<close> and \<open>tm_mday\<close> of \<open>get_tm(utc)\<close>,
  \<open>ll_dt_now\<close> is the clock.  \<open>ll_to_int\<close> is \<open>to_integral<int>(s, -1)\<close>, \<open>ll_lower\<close> is
  \<open>str_tolower_ascii\<close>, and \<open>ll_sprintf_s02d\<close>, \<open>ll_sprintf_sd\<close> are \<open>fz::sprintf\<close> with
  the formats \<open>%s%02d\<close> and \<open>%s%d\<close>.  \<open>ll_local\<close> turns the bytes of a line into text: the
  conversion of the control socket, \<open>ConvToLocal\<close>, if there is one.  \<open>ll_bom\<close> is the byte order mark,
  if the abstraction of code units to 256 values has a value for it.
\<close>

record listing_lib =
  ll_dt_set :: "datetime \<Rightarrow> int \<Rightarrow> int \<Rightarrow> int \<Rightarrow> int \<Rightarrow> int \<Rightarrow> bool \<times> datetime"
  ll_dt_imbue :: "datetime \<Rightarrow> int \<Rightarrow> int \<Rightarrow> int \<Rightarrow> bool \<times> datetime"
  ll_dt_date :: "datetime \<Rightarrow> int \<times> int \<times> int"
  ll_dt_now :: datetime
  ll_dt_parse :: "wstring \<Rightarrow> datetime"
  ll_dt_seconds :: "int \<Rightarrow> datetime"
  ll_dt_add :: "datetime \<Rightarrow> int \<Rightarrow> datetime"
  ll_from_minutes :: "int \<Rightarrow> int"
  ll_to_int :: "wstring \<Rightarrow> int"
  ll_lower :: "wstring \<Rightarrow> wstring"
  ll_sprintf_s02d :: "wstring \<Rightarrow> int \<Rightarrow> wstring"
  ll_sprintf_sd :: "wstring \<Rightarrow> int \<Rightarrow> wstring"
  ll_local :: "(string \<Rightarrow> wstring) option"
  ll_to_wstring_from_utf8 :: "string \<Rightarrow> wstring"
  ll_to_wstring :: "string \<Rightarrow> wstring"
  ll_bom :: "char option"

subsection \<open>Month names\<close>

text \<open>The assignments to the map in their order.  One more name, \<open>pa\x017a\<close>, has a unit above
  255 and so cannot occur in the strings of the model.\<close>

definition month_names :: "(wstring \<times> int) list" where
  "month_names = [
    (''jan'', 1), (''feb'', 2), (''mar'', 3), (''apr'', 4), (''may'', 5), (''jun'', 6),
    (''june'', 6), (''jul'', 7), (''july'', 7), (''aug'', 8), (''sep'', 9), (''sept'', 9),
    (''oct'', 10), (''nov'', 11), (''dec'', 12), (''1'', 1), (''01'', 1), (''2'', 2), (''02'', 2),
    (''3'', 3), (''03'', 3), (''4'', 4), (''04'', 4), (''5'', 5), (''05'', 5), (''6'', 6),
    (''06'', 6), (''7'', 7), (''07'', 7), (''8'', 8), (''08'', 8), (''9'', 9), (''09'', 9),
    (''10'', 10), (''11'', 11), (''12'', 12), (''mrz'', 3), (''m'' @ [CHR 0xE4] @ ''r'', 3),
    (''m'' @ [CHR 0xE4] @ ''rz'', 3), (''mai'', 5), (''juni'', 6), (''juli'', 7), (''okt'', 10),
    (''dez'', 12), (''j'' @ [CHR 0xE4] @ ''n'', 1), (''janv'', 1), (''f'' @ [CHR 0xE9] @ ''b'', 2),
    (''f'' @ [CHR 0xE9] @ ''v'', 2), (''fev'', 2), (''f'' @ [CHR 0xE9] @ ''vr'', 2), (''fevr'', 2),
    (''mars'', 3), (''mrs'', 3), (''avr'', 4), (''avril'', 4), (''juin'', 6), (''juil'', 7),
    (''jui'', 7), (''ao'' @ [CHR 0xFB], 8), (''ao'' @ [CHR 0xFB] @ ''t'', 8), (''aout'', 8),
    (''d'' @ [CHR 0xE9] @ ''c'', 12), (''dec'', 12), (''gen'', 1), (''mag'', 5), (''giu'', 6),
    (''lug'', 7), (''ago'', 8), (''set'', 9), (''ott'', 10), (''dic'', 12), (''ene'', 1),
    (''fbro'', 2), (''mzo'', 3), (''ab'', 4), (''abr'', 4), (''agto'', 8), (''sbre'', 9),
    (''obre'', 10), (''nbre'', 11), (''dbre'', 12), (''sty'', 1), (''lut'', 2), (''kwi'', 4),
    (''maj'', 5), (''cze'', 6), (''lip'', 7), (''sie'', 8), (''wrz'', 9), (''pa'' @ [CHR 0x9F], 10),
    (''pa'' @ [CHR 0xBC], 10), (''paz'', 10), (''pa'' @ [CHR 0xC5, CHR 0xBA], 10), (''lis'', 11),
    (''gru'', 12), ([CHR 0xFF, CHR 0xED, CHR 0xE2], 1),
    ([CHR 0xF4, CHR 0xE5, CHR 0xE2], 2), ([CHR 0xEC, CHR 0xE0, CHR 0xF0], 3),
    ([CHR 0xE0, CHR 0xEF, CHR 0xF0], 4), ([CHR 0xEC, CHR 0xE0, CHR 0xE9], 5),
    ([CHR 0xE8, CHR 0xFE, CHR 0xED], 6), ([CHR 0xE8, CHR 0xFE, CHR 0xEB], 7),
    ([CHR 0xE0, CHR 0xE2, CHR 0xE3], 8), ([CHR 0xF1, CHR 0xE5, CHR 0xED], 9),
    ([CHR 0xEE, CHR 0xEA, CHR 0xF2], 10), ([CHR 0xED, CHR 0xEE, CHR 0xFF], 11),
    ([CHR 0xE4, CHR 0xE5, CHR 0xEA], 12), (''mrt'', 3), (''mei'', 5), (''out'', 10),
    (''tammi'', 1), (''helmi'', 2), (''maalis'', 3), (''huhti'', 4), (''touko'', 5),
    (''kes'' @ [CHR 0xE4], 6), (''hein'' @ [CHR 0xE4], 7), (''elo'', 8), (''syys'', 9),
    (''loka'', 10), (''marras'', 11), (''joulu'', 12), (''avg'', 8), (''ma'' @ [CHR 0xED], 5),
    (''j'' @ [CHR 0xFA] @ ''n'', 6), (''j'' @ [CHR 0xFA] @ ''l'', 7), ([CHR 0xE1] @ ''g'', 8),
    (''n'' @ [CHR 0xF3] @ ''v'', 11), (''des'', 12), (''sau'', 1), (''vas'', 2), (''kov'', 3),
    (''bal'', 4), (''geg'', 5), (''bir'', 6), (''lie'', 7), (''rgp'', 8), (''rgs'', 9),
    (''spa'', 10), (''lap'', 11), (''grd'', 12), (''szept'', 9)]"

definition months_by_name :: "(wstring \<times> int) list \<Rightarrow> wstring \<Rightarrow> int option" where
  "months_by_name assignments = map_of (rev assignments)"

text \<open>The combinations of name and number, in the order of the map they are made from.\<close>

definition month_combo :: "listing_lib \<Rightarrow> wstring \<Rightarrow> int \<Rightarrow> (wstring \<times> int) list" where
  "month_combo L name m =
     [(ll_sprintf_s02d L name m, m),
      (ll_sprintf_s02d L name (m - 1), m),
      (if m < 10 then ll_sprintf_sd L name m else ll_sprintf_sd L name (m mod 10), m),
      (if m \<le> 10 then ll_sprintf_sd L name (m - 1) else ll_sprintf_sd L name ((m - 1) mod 10), m)]"

definition month_combos :: "listing_lib \<Rightarrow> (wstring \<times> int) list" where
  "month_combos L =
     concat (map (\<lambda>name. month_combo L name (the (months_by_name month_names name)))
                 (sort (remdups (map fst month_names))))"

text \<open>\<open>insert\<close> does not overwrite; the twelve assignments after it repeat values that are there.\<close>

definition GetMonthFromName :: "listing_lib \<Rightarrow> wstring \<Rightarrow> int option" where
  "GetMonthFromName L name =
     (let lower = ll_lower L name
      in case months_by_name month_names lower of
           Some m \<Rightarrow> Some m
         | None \<Rightarrow> months_by_name (month_combos L) lower)"

subsection \<open>Dates\<close>

record short_date =
  sd_gotYear :: bool
  sd_gotMonth :: bool
  sd_gotDay :: bool
  sd_gotMonthName :: bool
  sd_year :: int
  sd_month :: int
  sd_day :: int

definition short_date_new :: short_date where
  "short_date_new = \<lparr>sd_gotYear = False, sd_gotMonth = False, sd_gotDay = False,
     sd_gotMonthName = False, sd_year = 0, sd_month = 0, sd_day = 0\<rparr>"

text \<open>The field before the first separator, at \<open>pos\<close>.\<close>

definition short_date_first :: "listing_lib \<Rightarrow> wstring \<Rightarrow> nat \<Rightarrow> bool \<Rightarrow> short_date option" where
  "short_date_first L token pos saneFieldOrder =
     (let sd = short_date_new
      in if \<not> IsNumeric_at 0 pos token then
           (case GetMonthFromName L (take pos token) of
              None \<Rightarrow> None
            | Some m \<Rightarrow> Some (sd\<lparr>sd_month := m, sd_gotMonth := True, sd_gotMonthName := True\<rparr>))
         else if pos = 4 then
           (let year = to_int (GetNumber_at 0 (int pos) token)
            in if year < 1900 \<or> year > 3000 then None
               else Some (sd\<lparr>sd_year := year, sd_gotYear := True\<rparr>))
         else if pos \<le> 2 then
           (let val = GetNumber_at 0 (int pos) token
            in if token ! pos = CHR ''.'' then
                 (if val < 1 \<or> val > 31 then None
                  else Some (sd\<lparr>sd_day := to_int val, sd_gotDay := True\<rparr>))
               else if saneFieldOrder then
                 (let year = to_int val
                  in Some (sd\<lparr>sd_year := (if year < 50 then year + 2000 else year + 1900), sd_gotYear := True\<rparr>))
               else if val < 1 then None
               else if val > 12 then
                 (if val > 31 then None
                  else Some (sd\<lparr>sd_day := to_int val, sd_gotDay := True\<rparr>))
               else Some (sd\<lparr>sd_month := to_int val, sd_gotMonth := True\<rparr>))
         else None)"

text \<open>The field between the separators, \<open>len\<close> units at \<open>start\<close>.\<close>

definition short_date_second :: "listing_lib \<Rightarrow> wstring \<Rightarrow> nat \<Rightarrow> nat \<Rightarrow> short_date \<Rightarrow> short_date option" where
  "short_date_second L token start len sd =
     (if \<not> IsNumeric_at start len token \<and> sd_gotMonth sd \<and> (sd_gotMonthName sd \<or> sd_gotDay sd) then None
      else
        let sd1 = (if \<not> IsNumeric_at start len token \<and> sd_gotMonth sd
                   then sd\<lparr>sd_gotDay := True, sd_gotMonth := False, sd_day := sd_month sd\<rparr> else sd)
        in if sd_gotYear sd1 \<or> sd_gotDay sd1 then
             (case GetMonthFromName L (take len (drop start token)) of
                None \<Rightarrow> None
              | Some m \<Rightarrow> Some (sd1\<lparr>sd_month := m, sd_gotMonth := True\<rparr>))
           else
             (let val = GetNumber_at start (int len) token
              in if val < 1 \<or> val > 31 then None
                 else Some (sd1\<lparr>sd_day := to_int val, sd_gotDay := True\<rparr>)))"

text \<open>The field after the second separator.\<close>

definition short_date_third :: "int \<Rightarrow> short_date \<Rightarrow> short_date option" where
  "short_date_third val sd =
     (if sd_gotYear sd then
        (if val \<le> 0 \<or> val > 31 then None
         else Some (sd\<lparr>sd_day := to_int val, sd_gotDay := True\<rparr>))
      else if val < 0 \<or> val > 9999 then None
      else
        let val' = (if val < 50 then val + 2000 else if val < 1000 then val + 1900 else val)
        in Some (sd\<lparr>sd_year := to_int val', sd_gotYear := True\<rparr>))"

definition short_date_fields :: "listing_lib \<Rightarrow> wstring \<Rightarrow> bool \<Rightarrow> short_date option" where
  "short_date_fields L token saneFieldOrder =
     (if length token < 1 then None
      else case Find_any ''-./'' 0 token of
        None \<Rightarrow> None
      | Some pos \<Rightarrow>
          if pos < 1 then None
          else case short_date_first L token pos saneFieldOrder of
            None \<Rightarrow> None
          | Some sd \<Rightarrow>
              (case Find_any ''-./'' (pos + 1) token of
                 None \<Rightarrow> None
               | Some pos2 \<Rightarrow>
                   if pos2 - pos = 1 then None
                   else if pos2 = length token - 1 then None
                   else case short_date_second L token (pos + 1) (pos2 - pos - 1) sd of
                     None \<Rightarrow> None
                   | Some sd2 \<Rightarrow>
                       (case short_date_third
                               (GetNumber_at (pos2 + 1) (int (length token - pos2 - 1)) token) sd2 of
                          None \<Rightarrow> None
                        | Some sd3 \<Rightarrow>
                            if \<not> sd_gotYear sd3 \<or> \<not> sd_gotMonth sd3 \<or> \<not> sd_gotDay sd3 then None
                            else Some sd3)))"

definition ParseShortDate :: "listing_lib \<Rightarrow> wstring \<Rightarrow> bool \<Rightarrow> CDirentry \<Rightarrow> bool \<times> CDirentry" where
  "ParseShortDate L token saneFieldOrder entry =
     (case short_date_fields L token saneFieldOrder of
        None \<Rightarrow> (False, entry)
      | Some sd \<Rightarrow>
          (case ll_dt_set L (de_time entry) (sd_year sd) (sd_month sd) (sd_day sd) (-1) (-1) of
             (ok, t) \<Rightarrow> (ok, entry\<lparr>de_time := t\<rparr>)))"

subsection \<open>Times\<close>

text \<open>The conversion to 24 hours; \<^term>\<open>None\<close> when the token ends in something else.\<close>

definition hour24 :: "wstring \<Rightarrow> int \<Rightarrow> int option" where
  "hour24 token hour =
     (if IsRightNumeric token then Some hour
      else
        let h = token ! (length token - 2)
        in if h = CHR ''P'' \<or> h = CHR ''p'' then Some (if hour < 12 then hour + 12 else hour)
           else if h = CHR ''A'' \<or> h = CHR ''a'' then Some (if hour = 12 then 0 else hour)
           else None)"

definition ParseTime :: "listing_lib \<Rightarrow> wstring \<Rightarrow> CDirentry \<Rightarrow> bool \<times> CDirentry" where
  "ParseTime L token entry =
     (if \<not> has_date entry then (False, entry)
      else case Find CHR '':'' 0 token of
        None \<Rightarrow> (False, entry)
      | Some pos \<Rightarrow>
          if pos < 1 \<or> pos \<ge> length token - 1 then (False, entry)
          else
            let hour = GetNumber_at 0 (int pos) token
            in if hour < 0 \<or> hour > 24 then (False, entry)
               else
                 let pos2 = Find CHR '':'' (pos + 1) token;
                     len = (case pos2 of None \<Rightarrow> -1 | Some p2 \<Rightarrow> int p2 - int pos - 1)
                 in if len = 0 then (False, entry)
                    else
                      let minute = GetNumber_at (pos + 1) len token
                      in if minute < 0 \<or> minute > 59 then (False, entry)
                         else
                           let seconds = (case pos2 of None \<Rightarrow> -1 | Some p2 \<Rightarrow> GetNumber_at (p2 + 1) (-1) token)
                           in if pos2 \<noteq> None \<and> (seconds < 0 \<or> seconds > 60) then (False, entry)
                              else case hour24 token hour of
                                None \<Rightarrow> (False, entry)
                              | Some h \<Rightarrow>
                                  (case ll_dt_imbue L (de_time entry) h minute seconds of
                                     (ok, t) \<Rightarrow> (ok, entry\<lparr>de_time := t\<rparr>)))"

subsection \<open>The dates of \<open>ls -l\<close>\<close>

record unix_date =
  ud_year :: int
  ud_month :: int
  ud_day :: int
  ud_dateMonth :: wstring
  ud_mayHaveTime :: bool
  ud_bHasYearAndTime :: bool
  ud_index :: nat

datatype date_step = Date_fail | Date_done | Date_more unix_date

text \<open>The month date field.  A year in front of the date is followed by another token.\<close>

definition unix_date_year :: "CLine \<Rightarrow> wstring \<Rightarrow> unix_date \<Rightarrow> date_step" where
  "unix_date_year line token ud =
     (let dateMonth = GetToken line (ud_index ud + 1)
      in if dateMonth = [] then Date_fail
         else Date_more (ud\<lparr>ud_year := to_int (GetNumber decimal token), ud_index := ud_index ud + 1,
                            ud_dateMonth := dateMonth, ud_mayHaveTime := False\<rparr>))"

definition unix_date_plain :: "CLine \<Rightarrow> wstring \<Rightarrow> unix_date \<Rightarrow> date_step" where
  "unix_date_plain line token ud =
     (if IsNumeric decimal token then
        (if GetNumber decimal token > 1000 \<and> GetNumber decimal token < 10000
         then unix_date_year line token ud
         else Date_more (ud\<lparr>ud_dateMonth := token\<rparr>))
      else if IsLeftNumeric token \<and> (of_char (last token) :: nat) > 127 \<and> GetNumber decimal token > 1000 then
        (if GetNumber decimal token > 10000 then Date_fail else unix_date_year line token ud)
      else Date_more (ud\<lparr>ud_dateMonth := token\<rparr>))"

definition unix_date_first :: "listing_lib \<Rightarrow> CLine \<Rightarrow> nat \<Rightarrow> CDirentry \<Rightarrow> date_step \<times> CDirentry" where
  "unix_date_first L line index entry =
     (let token = GetToken line (index + 1);
          ud = \<lparr>ud_year = -1, ud_month = -1, ud_day = -1, ud_dateMonth = [], ud_mayHaveTime = True,
                ud_bHasYearAndTime = False, ud_index = index + 1\<rparr>
      in if token = [] then (Date_fail, entry)
         else case Find_any ''-/.'' 0 token of
           Some pos \<Rightarrow>
             (case Find_any ''-/.'' (pos + 1) token of
                None \<Rightarrow>
                  if token ! pos \<noteq> CHR ''.'' then
                    (let day = to_int (GetNumber_at (pos + 1) (int (length token - pos - 1)) token)
                     in if day < 1 \<or> day > 31 then (Date_fail, entry)
                        else (Date_more (ud\<lparr>ud_day := day, ud_dateMonth := take pos token\<rparr>), entry))
                  else (Date_more (ud\<lparr>ud_dateMonth := token\<rparr>), entry)
              | Some pos2 \<Rightarrow>
                  if token ! pos \<noteq> token ! pos2 then (Date_fail, entry)
                  else case ParseShortDate L token False entry of (ok, entry1) \<Rightarrow>
                    if \<not> ok then (Date_fail, entry1)
                    else if token ! pos = CHR ''.'' then (Date_done, entry1)
                    else case ll_dt_date L (de_time entry1) of (tm_year, tm_mon, tm_mday) \<Rightarrow>
                      (Date_more (ud\<lparr>ud_year := tm_year + 1900, ud_month := tm_mon + 1, ud_day := tm_mday\<rparr>), entry1))
         | None \<Rightarrow> (unix_date_plain line token ud, entry))"

definition unix_date_day :: "CLine \<Rightarrow> unix_date \<Rightarrow> unix_date option" where
  "unix_date_day line ud =
     (if ud_day ud < 1 then
        let index = ud_index ud + 1; dayToken = GetToken line index
        in if dayToken = [] then None
           else
             let step =
               (if \<not> IsNumeric decimal dayToken \<and> \<not> IsLeftNumeric dayToken then
                  let offset = (if last (ud_dateMonth ud) = CHR ''.'' then 1 else 0);
                      len = length (ud_dateMonth ud) - offset
                  in if \<not> IsNumeric_at 0 len (ud_dateMonth ud) then None
                     else Some (to_int (GetNumber_at 0 (int len) (ud_dateMonth ud)), ud\<lparr>ud_dateMonth := dayToken\<rparr>)
                else if length dayToken = 5 \<and> dayToken ! 2 = CHR '':'' \<and> IsRightNumeric dayToken then None
                else Some (to_int (GetNumber decimal dayToken),
                           if last dayToken = CHR '','' then ud\<lparr>ud_bHasYearAndTime := True\<rparr> else ud))
             in case step of
                  None \<Rightarrow> None
                | Some (dateDay, ud1) \<Rightarrow>
                    if dateDay < 1 \<or> dateDay > 31 then None
                    else Some (ud1\<lparr>ud_day := dateDay, ud_index := index\<rparr>)
      else Some ud)"

definition strip_suffix :: "wstring \<Rightarrow> wstring" where
  "strip_suffix strMonth =
     take (Suc (case rfind_idx is_digit strMonth of None \<Rightarrow> 0 | Some i \<Rightarrow> i)) strMonth"

definition unix_date_month :: "listing_lib \<Rightarrow> unix_date \<Rightarrow> unix_date option" where
  "unix_date_month L ud =
     (if ud_month ud < 1 then
        let dateMonth = ud_dateMonth ud;
            strMonth = (if IsLeftNumeric dateMonth \<and> (of_char (last dateMonth) :: nat) > 127
                        then strip_suffix dateMonth else dateMonth);
            strMonth1 = rev (dropWhile (\<lambda>c. c = CHR '','' \<or> c = CHR ''.'') (rev strMonth))
        in case GetMonthFromName L strMonth1 of
             None \<Rightarrow> None
           | Some m \<Rightarrow> Some (ud\<lparr>ud_month := m\<rparr>)
      else Some ud)"

text \<open>Midnight may be written as 24:00.\<close>

definition clock_ok :: "int \<Rightarrow> int \<Rightarrow> bool" where
  "clock_ok hour minute =
     (if hour < 0 \<or> hour > 23 then hour = 24 \<and> minute = 0 else \<not> (minute < 0 \<or> minute > 59))"

text \<open>Hour and minute around a separator at \<open>pos\<close> that is neither the first nor the last unit.\<close>

definition split_time :: "listing_lib \<Rightarrow> wstring \<Rightarrow> nat \<Rightarrow> (int \<times> int) option" where
  "split_time L token pos =
     (if pos = 0 \<or> pos = length token - 1 then None
      else
        let hour = ll_to_int L (take pos token); minute = ll_to_int L (drop (pos + 1) token)
        in if clock_ok hour minute then Some (hour, minute) else None)"

text \<open>A time without a year is one of the last twelve months.\<close>

definition guess_year :: "listing_lib \<Rightarrow> unix_date \<Rightarrow> int" where
  "guess_year L ud =
     (case ll_dt_date L (ll_dt_now L) of (tm_year, tm_mon, tm_mday) \<Rightarrow>
        let year = tm_year + 1900;
            currentDayOfYear = tm_mday + 31 * tm_mon;
            fileDayOfYear = ud_day ud + 31 * (ud_month ud - 1)
        in if currentDayOfYear + 1 < fileDayOfYear then year - 1 else year)"

text \<open>The time/year field; the result holds hour and minute.\<close>

definition unix_date_time :: "listing_lib \<Rightarrow> CLine \<Rightarrow> unix_date \<Rightarrow> (unix_date \<times> int \<times> int) option" where
  "unix_date_time L line ud =
     (let index = ud_index ud + 1; timeOrYearToken = GetToken line index;
          pos = Find_any '':.-'' 0 timeOrYearToken
      in if timeOrYearToken = [] then None
         else if pos \<noteq> None \<and> ud_mayHaveTime ud then
           (case split_time L timeOrYearToken (the pos) of
              None \<Rightarrow> None
            | Some (hour, minute) \<Rightarrow>
                if ud_year ud \<le> 0 then
                  (if ud_month ud = -1 \<or> ud_day ud = -1 then None
                   else Some (ud\<lparr>ud_year := guess_year L ud, ud_index := index\<rparr>, hour, minute))
                else Some (ud\<lparr>ud_index := index\<rparr>, hour, minute))
         else if ud_year ud \<le> 0 then
           (if \<not> IsNumeric decimal timeOrYearToken \<and> \<not> IsLeftNumeric timeOrYearToken then None
            else
              let year = to_int (GetNumber decimal timeOrYearToken)
              in if year > 3000 then None
                 else
                   let ud1 = ud\<lparr>ud_year := (if year < 1000 then year + 1900 else year), ud_index := index\<rparr>
                   in if ud_bHasYearAndTime ud then
                        let timeToken = GetToken line (index + 1)
                        in if timeToken = [] then None
                           else if Find CHR '':'' 0 timeToken = Some 2 \<and> length timeToken = 5 \<and>
                                   IsLeftNumeric timeToken \<and> IsRightNumeric timeToken
                           then (case split_time L timeToken 2 of
                                   None \<Rightarrow> None
                                 | Some (hour, minute) \<Rightarrow> Some (ud1\<lparr>ud_index := index + 1\<rparr>, hour, minute))
                           else Some (ud1, -1, -1)
                      else Some (ud1, -1, -1))
         else Some (ud, -1, -1))"

text \<open>The result holds the index of the last token that was used.\<close>

definition ParseUnixDateTime :: "listing_lib \<Rightarrow> CLine \<Rightarrow> nat \<Rightarrow> CDirentry \<Rightarrow> nat option \<times> CDirentry" where
  "ParseUnixDateTime L line index entry =
     (case unix_date_first L line index entry of (step, entry1) \<Rightarrow>
        (case step of
           Date_fail \<Rightarrow> (None, entry1)
         | Date_done \<Rightarrow> (Some (index + 1), entry1)
         | Date_more ud \<Rightarrow>
             (case unix_date_day line ud of
                None \<Rightarrow> (None, entry1)
              | Some ud1 \<Rightarrow>
                  (case unix_date_month L ud1 of
                     None \<Rightarrow> (None, entry1)
                   | Some ud2 \<Rightarrow>
                       (case unix_date_time L line ud2 of
                          None \<Rightarrow> (None, entry1)
                        | Some (ud3, hour, minute) \<Rightarrow>
                            (case ll_dt_set L (de_time entry1) (ud_year ud3) (ud_month ud3) (ud_day ud3) hour minute of
                               (ok, t) \<Rightarrow>
                                 ((if ok then Some (ud_index ud3) else None), entry1\<lparr>de_time := t\<rparr>)))))))"

subsection \<open>Sizes\<close>

text \<open>The loop over the digits of a size such as \<open>123.4M\<close>: \<open>size\<close> collects the digits,
  \<open>dot\<close> is \<open>len - i\<close> for the position of the dot, or 0.  The size is a reference: it keeps
  what was collected when the loop gives up.\<close>

fun size_loop :: "nat \<Rightarrow> nat \<Rightarrow> wstring \<Rightarrow> int \<Rightarrow> nat \<Rightarrow> bool \<times> int \<times> nat" where
  "size_loop i len [] sz dot = (True, sz, dot)"
| "size_loop i len (c # cs) sz dot =
     (if is_digit c then
        (if sz > int64_max div 10 then (False, sz, dot)
         else
           let size1 = sz * 10; digit = of_char c - 48
           in if int64_max - digit < size1 then (False, size1, dot)
              else size_loop (i + 1) len cs (size1 + digit) dot)
      else if c = CHR ''.'' then
        (if i = 0 \<or> i + 1 = len \<or> dot \<noteq> 0 then (False, sz, dot)
         else size_loop (i + 1) len cs sz (len - i))
      else (False, sz, dot))"

text \<open>What the last letter says: the length without the unit and the unit, a zero unit for none.
  \<^term>\<open>None\<close> rejects the token.\<close>

definition size_unit :: "wstring \<Rightarrow> (nat \<times> char) option" where
  "size_unit token =
     (let len = length token; lst = token ! (len - 1)
      in if lst = CHR ''B'' \<or> lst = CHR ''b'' then
           (if len < 2 then None
            else
              let len1 = len - 1; c = token ! (len1 - 1)
              in if \<not> is_digit c then Some (len1 - 1, c) else Some (len1, nul))
         else if is_digit lst then Some (len, nul)
         else if len - 1 = 0 then None
         else Some (len - 1, lst))"

text \<open>The multiplier; zero multiplies nothing, \<^term>\<open>None\<close> rejects.\<close>

definition size_mult :: "char \<Rightarrow> int \<Rightarrow> int option" where
  "size_mult lst blocksize =
     (if lst = CHR ''k'' \<or> lst = CHR ''K'' then Some 1024
      else if lst = CHR ''m'' \<or> lst = CHR ''M'' then Some (1024 * 1024)
      else if lst = CHR ''g'' \<or> lst = CHR ''G'' then Some (1024 * 1024 * 1024)
      else if lst = CHR ''t'' \<or> lst = CHR ''T'' then Some (1024 * 1024 * 1024 * 1024)
      else if lst = CHR ''b'' \<or> lst = CHR ''B'' then Some 0
      else if lst = nul then Some (if blocksize > 0 then blocksize else 0)
      else None)"

fun div_dot :: "nat \<Rightarrow> int \<Rightarrow> int" where
  "div_dot 0 sz = sz"
| "div_dot (Suc n) sz = div_dot n (sz div 10)"

definition ParseComplexFileSize :: "wstring \<Rightarrow> int \<Rightarrow> int \<Rightarrow> bool \<times> int" where
  "ParseComplexFileSize token size0 blocksize =
     (if IsNumeric decimal token then
        (let sz = GetNumber decimal token
         in if blocksize > 0
            then (if sz > int64_max div blocksize then (False, sz) else (True, sz * blocksize))
            else (True, sz))
      else if token = [] then (False, size0)
      else case size_unit token of
        None \<Rightarrow> (False, size0)
      | Some (len, lst) \<Rightarrow>
          (case size_loop 0 len (take len token) 0 0 of (ok, sz, dot) \<Rightarrow>
             if \<not> ok then (False, sz)
             else case size_mult lst blocksize of
               None \<Rightarrow> (False, sz)
             | Some mult \<Rightarrow>
                 if mult \<noteq> 0 \<and> sz > int64_max div mult then (False, sz)
                 else
                   let size1 = (if mult \<noteq> 0 then sz * mult else sz)
                   in (True, if dot \<noteq> 0 then div_dot (dot - 1) size1 else size1)))"

end
