(* ===== verification/Listing_Formats.thy ===== *)
theory Listing_Formats
  imports Listing_Date
begin

text \<open>
  The parsers of \<open>directorylistingparser.cpp\<close> for the formats of Unix, DOS, EPLF, VMS, IBM
  i5/OS, OS/2 and VShell, and WfFtp.  A parser returns whether the line has its format, and the
  entry it leaves.  \<open>tz\<close> is the offset \<open>m_timezoneOffset\<close>.  The cache of strings
  \<open>objcache\<close> returns the string it is asked for (\<open>Listing_Parser\<close>).
\<close>

unbundle bit_operations_syntax

subsection \<open>\<open>ls -l\<close>\<close>

text \<open>An attempt with a fixed number of owner and group tokens returns from the parser or
  continues with one token less.\<close>

datatype attempt = Attempt_return bool | Attempt_next

definition strip_digits :: "wstring \<Rightarrow> wstring" where
  "strip_digits s = rev (dropWhile is_digit (rev s))"

definition unix_name :: "wstring \<Rightarrow> CDirentry \<Rightarrow> CDirentry" where
  "unix_name nameToken entry =
     (let chr = last nameToken;
          name = (if chr = CHR ''/'' \<or> chr = CHR ''|'' \<or> chr = CHR ''*'' then butlast nameToken else nameToken)
      in if is_link entry then
           (case find_sub '' -> '' name of
              Some pos \<Rightarrow> entry\<lparr>de_name := take pos name, de_target := Some (drop (pos + 4) name)\<rparr>
            | None \<Rightarrow> entry\<lparr>de_name := name\<rparr>)
         else entry\<lparr>de_name := name\<rparr>)"

definition unix_attempt ::
  "listing_lib \<Rightarrow> int \<Rightarrow> CLine \<Rightarrow> wstring \<Rightarrow> bool \<Rightarrow> nat \<Rightarrow> nat \<Rightarrow> CDirentry \<Rightarrow> attempt \<times> CDirentry" where
  "unix_attempt L tz line permissions expect_date startindex numOwnerGroup entry =
     (let tokens = map (GetToken line) [startindex + 1 ..< startindex + 1 + numOwnerGroup];
          ownerGroup = join '' '' tokens;
          index = startindex + numOwnerGroup + 1;
          sizeToken = GetToken line index
      in if \<not> list_all (\<lambda>t. t \<noteq> []) tokens then (Attempt_return False, entry)
         else if sizeToken = [] then (Attempt_return False, entry)
         else case ParseComplexFileSize sizeToken (de_size entry) (-1) of (isSize, sz) \<Rightarrow>
           if \<not> isSize \<and> \<not> IsRightNumeric sizeToken then (Attempt_next, entry\<lparr>de_size := sz\<rparr>)
           else
             let entry1 = entry\<lparr>de_size := (if isSize then sz else GetNumber decimal sizeToken)\<rparr>;
                 ownerGroup1 = (if isSize then ownerGroup
                                else (if ownerGroup \<noteq> [] then ownerGroup @ '' '' else ownerGroup) @ strip_digits sizeToken)
             in case (if expect_date then ParseUnixDateTime L line index (entry1\<lparr>de_time := None\<rparr>)
                      else (Some index, entry1)) of (dateIndex, entry2) \<Rightarrow>
                (case dateIndex of
                   None \<Rightarrow> (Attempt_next, entry2)
                 | Some index1 \<Rightarrow>
                     let nameToken = GetEndToken line (index1 + 1) False
                     in if nameToken = [] then (Attempt_next, entry2)
                        else
                          let entry3 = unix_name nameToken entry2
                          in (Attempt_return True,
                              entry3\<lparr>de_time := ll_dt_add L (de_time entry3) tz, de_permissions := permissions,
                                     de_ownerGroup := ownerGroup1\<rparr>)))"

fun unix_loop ::
  "listing_lib \<Rightarrow> int \<Rightarrow> CLine \<Rightarrow> wstring \<Rightarrow> bool \<Rightarrow> nat \<Rightarrow> nat \<Rightarrow> CDirentry \<Rightarrow> bool \<times> CDirentry" where
  "unix_loop L tz line permissions expect_date startindex numOwnerGroup entry =
     (case unix_attempt L tz line permissions expect_date startindex numOwnerGroup entry of
        (Attempt_return r, entry1) \<Rightarrow> (r, entry1)
      | (Attempt_next, entry1) \<Rightarrow>
          (case numOwnerGroup of
             0 \<Rightarrow> (False, entry1)
           | Suc n \<Rightarrow> unix_loop L tz line permissions expect_date startindex n entry1))"

declare unix_loop.simps [simp del]

definition ParseAsUnix :: "listing_lib \<Rightarrow> int \<Rightarrow> CLine \<Rightarrow> bool \<Rightarrow> CDirentry \<Rightarrow> bool \<times> CDirentry" where
  "ParseAsUnix L tz line expect_date entry =
     (let permissionToken = GetToken line 0
      in if permissionToken = [] then (False, entry)
         else if hd permissionToken \<notin> set ''bcdlps-'' then (False, entry)
         else
           let chr = hd permissionToken;
               entry0 = entry\<lparr>de_flags :=
                 (if chr = CHR ''d'' \<or> chr = CHR ''l'' then flag_dir else 0) OR (if chr = CHR ''l'' then flag_link else 0)\<rparr>;
               second = GetToken line 1
           in if second = [] then (False, entry0)
              else if length permissionToken = 1
              then unix_loop L tz line (permissionToken @ '' '' @ second) expect_date 1 3 entry0
              else unix_loop L tz line permissionToken expect_date (if IsNumeric decimal second then 1 else 0) 3 entry0)"

subsection \<open>DOS\<close>

fun dos_size :: "wstring \<Rightarrow> int \<Rightarrow> int option" where
  "dos_size [] sz = Some sz"
| "dos_size (c # cs) sz =
     (if c = CHR '','' \<or> c = CHR ''.'' then dos_size cs sz
      else if \<not> is_digit c then None
      else if sz > int64_max div 10 then None
      else
        let sz1 = sz * 10; digit = of_char c - 48
        in if int64_max - digit < sz1 then None else dos_size cs (sz1 + digit))"

definition ParseAsDos :: "listing_lib \<Rightarrow> int \<Rightarrow> CLine \<Rightarrow> CDirentry \<Rightarrow> bool \<times> CDirentry" where
  "ParseAsDos L tz line entry =
     (let token0 = GetToken line 0; token1 = GetToken line 1; token2 = GetToken line 2;
          name = GetEndToken line 3 False
      in if token0 = [] then (False, entry)
         else case ParseShortDate L token0 False (entry\<lparr>de_flags := 0\<rparr>) of (ok, entry1) \<Rightarrow>
           if \<not> ok then (False, entry1)
           else if token1 = [] then (False, entry1)
           else case ParseTime L token1 entry1 of (ok, entry2) \<Rightarrow>
             if \<not> ok then (False, entry2)
             else if token2 = [] then (False, entry2)
             else case (if token2 = ''<DIR>'' then Some (entry2\<lparr>de_flags := de_flags entry2 OR flag_dir, de_size := -1\<rparr>)
                        else if IsNumeric decimal token2 \<or> IsLeftNumeric token2
                        then map_option (\<lambda>sz. entry2\<lparr>de_size := sz\<rparr>) (dos_size token2 0)
                        else None) of
               None \<Rightarrow> (False, entry2)
             | Some entry3 \<Rightarrow>
                 if name = [] then (False, entry3)
                 else (True, entry3\<lparr>de_name := name, de_target := None, de_ownerGroup := [], de_permissions := [],
                                    de_time := ll_dt_add L (de_time entry3) tz\<rparr>))"

subsection \<open>EPLF\<close>

text \<open>The facts up to the tab at \<open>pos\<close>, from \<open>pos0\<close> (\<open>fact\<close> in the code) on; the last component are the
  permissions.\<close>

function eplf_facts ::
  "listing_lib \<Rightarrow> wstring \<Rightarrow> nat \<Rightarrow> nat \<Rightarrow> wstring \<Rightarrow> CDirentry \<Rightarrow> bool \<times> CDirentry \<times> wstring" where
  "eplf_facts L token pos pos0 permissions entry =
     (if pos0 < pos then
        let len = (case Find CHR '','' pos0 token of None \<Rightarrow> pos - pos0 | Some separator \<Rightarrow> separator - pos0)
        in if len = 0 then eplf_facts L token pos (pos0 + 1) permissions entry
           else
             let typ = token ! pos0; number = GetNumber_at (pos0 + 1) (int len - 1) token; nxt = pos0 + (len + 1)
             in if typ = CHR ''/'' then
                  eplf_facts L token pos nxt permissions (entry\<lparr>de_flags := de_flags entry OR flag_dir\<rparr>)
                else if typ = CHR ''s'' then
                  (if number < 0 then (False, entry\<lparr>de_size := number\<rparr>, permissions)
                   else eplf_facts L token pos nxt permissions (entry\<lparr>de_size := number\<rparr>))
                else if typ = CHR ''m'' then
                  (if number < 0 then (False, entry, permissions)
                   else eplf_facts L token pos nxt permissions (entry\<lparr>de_time := ll_dt_seconds L number\<rparr>))
                else if typ = CHR ''u'' \<and> len > 2 \<and> token ! (pos0 + 1) = CHR ''p'' then
                  eplf_facts L token pos nxt (take (len - 2) (drop (pos0 + 2) token)) entry
                else eplf_facts L token pos nxt permissions entry
      else (True, entry, permissions))"
  by pat_completeness auto
termination
  by (relation "measure (\<lambda>(L, token, pos, pos0, permissions, entry). pos - pos0)") auto

declare eplf_facts.simps [simp del]

definition ParseAsEplf :: "listing_lib \<Rightarrow> CLine \<Rightarrow> CDirentry \<Rightarrow> bool \<times> CDirentry" where
  "ParseAsEplf L line entry =
     (let token = GetEndToken line 0 False
      in if token = [] then (False, entry)
         else if hd token \<noteq> CHR ''+'' then (False, entry)
         else case Find CHR 0x09 0 token of
           None \<Rightarrow> (False, entry)
         | Some pos \<Rightarrow>
             if pos = length token - 1 then (False, entry)
             else case eplf_facts L token pos 1 []
                         (entry\<lparr>de_name := drop (pos + 1) token, de_flags := 0, de_size := -1\<rparr>) of
               (ok, entry1, permissions) \<Rightarrow>
                 if \<not> ok then (False, entry1)
                 else (True, entry1\<lparr>de_permissions := permissions, de_ownerGroup := []\<rparr>))"

subsection \<open>VMS\<close>

fun Unescape :: "char \<Rightarrow> wstring \<Rightarrow> wstring" where
  "Unescape escape [] = []"
| "Unescape escape [c] = (if c = escape then [] else [c])"
| "Unescape escape (c # d # cs) =
     (if c = escape then (if d = nul then [] else d # Unescape escape cs)
      else c # Unescape escape (d # cs))"

text \<open>The name and whether it is a directory; the version starts at \<open>pos\<close>.\<close>

definition vms_name :: "wstring \<Rightarrow> nat \<Rightarrow> wstring \<times> bool" where
  "vms_name token pos =
     (let isDir = (pos > 4 \<and> take 4 (drop (pos - 4) token) = ''.DIR'');
          name = (if isDir
                  then (if drop pos token = '';1'' then take (pos - 4) token
                        else take (pos - 4) token @ drop pos token)
                  else token)
      in (Unescape CHR ''^'' name, isDir))"

text \<open>The field after the name: an owner in brackets is followed by another field.  The result is
  the owner, the index and the token of size or date.\<close>

definition vms_owner :: "CLine \<Rightarrow> (wstring \<times> nat \<times> wstring) option" where
  "vms_owner line =
     (let token = GetToken line 1; len = length token; token2 = GetToken line 2
      in if token = [] then None
         else if \<not> IsNumeric decimal token \<and> \<not> IsLeftNumeric token then
           (if len < 3 \<or> hd token \<noteq> CHR ''['' \<or> last token \<noteq> CHR '']'' then None
            else if token2 = [] then None
            else if \<not> IsNumeric decimal token2 \<and> \<not> IsLeftNumeric token2 then None
            else Some (take (len - 2) (drop 1 token), 2, token2))
         else Some ([], 1, token))"

definition before_slash :: "wstring \<Rightarrow> nat option \<Rightarrow> wstring" where
  "before_slash token pos = (case pos of None \<Rightarrow> token | Some p \<Rightarrow> take p token)"

text \<open>Size or date: whether there was a size, index and token of the date.\<close>

definition vms_size ::
  "CLine \<Rightarrow> nat \<Rightarrow> wstring \<Rightarrow> CDirentry \<Rightarrow> (bool \<times> nat \<times> wstring) option \<times> CDirentry" where
  "vms_size line index token entry =
     (let pos = Find CHR ''/'' 0 token; nxt = GetToken line (index + 1)
      in if pos = Some 0 then (None, entry)
         else if IsNumeric decimal token \<or> (case pos of None \<Rightarrow> False | Some p \<Rightarrow> Find CHR ''/'' (p + 1) token = None) then
           (case ParseComplexFileSize (before_slash token pos) (de_size entry) 512 of (ok, sz) \<Rightarrow>
              let entry1 = entry\<lparr>de_size := sz\<rparr>
              in if \<not> ok then (None, entry1)
                 else if nxt = [] then (None, entry1)
                 else (Some (True, index + 1, nxt), entry1))
         else if pos = None \<and> IsLeftNumeric token then
           (case ParseComplexFileSize token (de_size entry) 512 of (ok, sz) \<Rightarrow>
              let entry1 = entry\<lparr>de_size := sz\<rparr>
              in if ok then (if nxt = [] then (None, entry1) else (Some (True, index + 1, nxt), entry1))
                 else (Some (False, index, token), entry1))
         else (Some (False, index, token), entry))"

text \<open>A token that is no time must not be a broken owner or permission field.\<close>

definition vms_no_time :: "wstring \<Rightarrow> bool" where
  "vms_no_time token \<longleftrightarrow>
     \<not> (hd token = CHR ''['' \<and> last token \<noteq> CHR '']'') \<and>
     \<not> (hd token = CHR ''('' \<and> last token \<noteq> CHR '')'') \<and>
     \<not> (hd token \<noteq> CHR ''['' \<and> last token = CHR '']'') \<and>
     \<not> (hd token \<noteq> CHR ''('' \<and> last token = CHR '')'')"

definition vms_late_size :: "CLine \<Rightarrow> nat \<Rightarrow> CDirentry \<Rightarrow> nat option \<times> CDirentry" where
  "vms_late_size line index entry =
     (let token = GetToken line (index + 1); pos = Find CHR ''/'' 0 token
      in if token = [] then (None, entry)
         else if \<not> IsNumeric decimal token \<and> \<not> IsLeftNumeric token then (None, entry)
         else if pos = Some 0 then (None, entry)
         else case ParseComplexFileSize (before_slash token pos) (de_size entry) 512 of (ok, sz) \<Rightarrow>
           ((if ok then Some (index + 1) else None), entry\<lparr>de_size := sz\<rparr>))"

definition spaced :: "wstring \<Rightarrow> wstring \<Rightarrow> wstring" where
  "spaced s t = (if s \<noteq> [] then s @ '' '' @ t else t)"

text \<open>The remaining tokens are owner and permissions.  A line has no more tokens than units,
  so that the loop ends at the length of the line.\<close>

function vms_rest :: "CLine \<Rightarrow> nat \<Rightarrow> wstring \<Rightarrow> wstring \<Rightarrow> wstring \<times> wstring" where
  "vms_rest line index permissions ownerGroup =
     (let token = GetToken line index; len = length token
      in if token = [] \<or> index > length (cl_line line) then (permissions, ownerGroup)
         else if len > 2 \<and> hd token = CHR ''('' \<and> last token = CHR '')'' then
           vms_rest line (index + 1) (spaced permissions (take (len - 2) (drop 1 token))) ownerGroup
         else if len > 2 \<and> hd token = CHR ''['' \<and> last token = CHR '']'' then
           vms_rest line (index + 1) permissions (spaced ownerGroup (take (len - 2) (drop 1 token)))
         else vms_rest line (index + 1) permissions (spaced ownerGroup token))"
  by pat_completeness auto
termination
  by (relation "measure (\<lambda>(line, index, permissions, ownerGroup). Suc (length (cl_line line)) - index)") auto

declare vms_rest.simps [simp del]

text \<open>Date, time, size if there was none yet, owner and permissions; a line may end after the
  date.\<close>

definition vms_fields ::
  "listing_lib \<Rightarrow> int \<Rightarrow> CLine \<Rightarrow> wstring \<Rightarrow> bool \<Rightarrow> nat \<Rightarrow> wstring \<Rightarrow> CDirentry \<Rightarrow> bool \<times> CDirentry" where
  "vms_fields L tz line owner gotSize index token entry =
     (case ParseShortDate L token False entry of (ok, entry1) \<Rightarrow>
        if \<not> ok then (False, entry1)
        else
          let time = GetToken line (index + 1)
          in if time = [] then (True, entry1)
             else case ParseTime L time entry1 of (isTime, entry2) \<Rightarrow>
               if \<not> isTime \<and> \<not> vms_no_time time then (False, entry2)
               else
                 let index1 = (if isTime then index + 1 else index)
                 in case (if gotSize then (Some index1, entry2) else vms_late_size line index1 entry2) of
                      (None, entry3) \<Rightarrow> (False, entry3)
                    | (Some index2, entry3) \<Rightarrow>
                        (case vms_rest line (index2 + 1) [] owner of (permissions, ownerGroup) \<Rightarrow>
                           (True, entry3\<lparr>de_permissions := permissions, de_ownerGroup := ownerGroup,
                                         de_time := ll_dt_add L (de_time entry3) tz\<rparr>)))"

definition ParseAsVms :: "listing_lib \<Rightarrow> int \<Rightarrow> CLine \<Rightarrow> CDirentry \<Rightarrow> bool \<times> CDirentry" where
  "ParseAsVms L tz line entry =
     (let token = GetToken line 0
      in if token = [] then (False, entry)
         else case Find CHR '';'' 0 token of
           None \<Rightarrow> (False, entry)
         | Some pos \<Rightarrow>
             (case vms_name token pos of (name, isDir) \<Rightarrow>
                let entry1 = entry\<lparr>de_flags := (if isDir then flag_dir else 0), de_name := name\<rparr>
                in case vms_owner line of
                     None \<Rightarrow> (False, entry1)
                   | Some (owner, index1, token1) \<Rightarrow>
                       (case vms_size line index1 token1 entry1 of
                          (None, entry2) \<Rightarrow> (False, entry2)
                        | (Some (gotSize, index2, token2), entry2) \<Rightarrow>
                            vms_fields L tz line owner gotSize index2 token2 entry2)))"

subsection \<open>IBM i5/OS\<close>

definition ParseAsIbm :: "listing_lib \<Rightarrow> int \<Rightarrow> CLine \<Rightarrow> CDirentry \<Rightarrow> bool \<times> CDirentry" where
  "ParseAsIbm L tz line entry =
     (let owner = GetToken line 0; token1 = GetToken line 1; token2 = GetToken line 2; token3 = GetToken line 3;
          name = GetEndToken line 5 False
      in if owner = [] then (False, entry)
         else if token1 = [] then (False, entry)
         else if \<not> IsNumeric decimal token1 then (False, entry)
         else
           let entry1 = entry\<lparr>de_size := GetNumber decimal token1\<rparr>
           in if token2 = [] then (False, entry1)
              else case ParseShortDate L token2 False (entry1\<lparr>de_flags := 0\<rparr>) of (ok, entry2) \<Rightarrow>
                if \<not> ok then (False, entry2)
                else if token3 = [] then (False, entry2)
                else case ParseTime L token3 entry2 of (ok, entry3) \<Rightarrow>
                  if \<not> ok then (False, entry3)
                  else if name = [] then (False, entry3)
                  else
                    let isDir = (last name = CHR ''/'')
                    in (True, entry3\<lparr>de_name := (if isDir then butlast name else name),
                                     de_flags := (if isDir then de_flags entry3 OR flag_dir else de_flags entry3),
                                     de_ownerGroup := owner, de_permissions := [],
                                     de_time := ll_dt_add L (de_time entry3) tz\<rparr>))"

subsection \<open>Numerical Unix, VShell, OS/2, Nortel VxWorks\<close>

definition other_numerical :: "listing_lib \<Rightarrow> CLine \<Rightarrow> CDirentry \<Rightarrow> bool \<times> CDirentry" where
  "other_numerical L line entry =
     (let first = GetToken line 0; token1 = GetToken line 1; token2 = GetToken line 2; token3 = GetToken line 3;
          token4 = GetToken line 4; name = GetEndToken line 5 False;
          entry1 = (if length first \<ge> 2 \<and> first ! 1 = CHR ''4''
                    then entry\<lparr>de_flags := de_flags entry OR flag_dir\<rparr> else entry)
      in if token2 = [] then (False, entry1)
         else if token3 = [] then (False, entry1)
         else if \<not> IsNumeric decimal token3 then (False, entry1)
         else
           let entry2 = entry1\<lparr>de_size := GetNumber decimal token3\<rparr>
           in if token4 = [] then (False, entry2)
              else
                let number = GetNumber decimal token4
                in if number < 0 then (False, entry2)
                   else
                     let entry3 = entry2\<lparr>de_time := ll_dt_seconds L number\<rparr>
                     in if name = [] then (False, entry3)
                        else (True, entry3\<lparr>de_name := name, de_target := None, de_permissions := first,
                                           de_ownerGroup := token1 @ '' '' @ token2\<rparr>))"

text \<open>The tokens of OS/2 and VxWorks up to the date: index, token, how many were skipped.\<close>

function os2_skip :: "CLine \<Rightarrow> nat \<Rightarrow> nat \<Rightarrow> CDirentry \<Rightarrow> (nat \<times> wstring \<times> nat) option \<times> CDirentry" where
  "os2_skip line index skippedCount entry =
     (let token = GetToken line index
      in if token = [] \<or> index > length (cl_line line) then (None, entry)
         else if token = ''DIR'' then
           os2_skip line (index + 1) (skippedCount + 1) (entry\<lparr>de_flags := de_flags entry OR flag_dir\<rparr>)
         else if Find_any ''-/.'' 0 token \<noteq> None then (Some (index, token, skippedCount), entry)
         else os2_skip line (index + 1) (skippedCount + 1) entry)"
  by pat_completeness auto
termination
  by (relation "measure (\<lambda>(line, index, skippedCount, entry). Suc (length (cl_line line)) - index)") auto

declare os2_skip.simps [simp del]

definition os2_name :: "listing_lib \<Rightarrow> wstring \<Rightarrow> nat \<Rightarrow> CDirentry \<Rightarrow> CDirentry" where
  "os2_name L name skippedCount entry =
     (if length name \<ge> 5 \<and> skippedCount = 0 \<and> ll_lower L (drop (length name - 5) name) = ''<dir>''
      then entry\<lparr>de_flags := de_flags entry OR flag_dir,
                 de_name := rev (dropWhile (\<lambda>c. c = CHR '' '') (rev (take (length name - 5) name)))\<rparr>
      else entry\<lparr>de_name := name\<rparr>)"

definition other_os2 :: "listing_lib \<Rightarrow> CLine \<Rightarrow> CDirentry \<Rightarrow> bool \<times> CDirentry" where
  "other_os2 L line entry =
     (case os2_skip line 1 0 entry of
        (None, entry1) \<Rightarrow> (False, entry1)
      | (Some (index, token, skippedCount), entry1) \<Rightarrow>
          (case ParseShortDate L token False entry1 of (ok, entry2) \<Rightarrow>
             let time = GetToken line (index + 1); name = GetEndToken line (index + 2) False
             in if \<not> ok then (False, entry2)
                else if time = [] then (False, entry2)
                else case ParseTime L time entry2 of (ok, entry3) \<Rightarrow>
                  if \<not> ok then (False, entry3)
                  else if name = [] then (False, entry3)
                  else (True, os2_name L name skippedCount entry3)))"

definition full_year :: "int \<Rightarrow> int" where
  "full_year year = (if year < 50 then year + 2000 else if year < 1000 then year + 1900 else year)"

definition other_vshell :: "listing_lib \<Rightarrow> CLine \<Rightarrow> int \<Rightarrow> CDirentry \<Rightarrow> bool \<times> CDirentry" where
  "other_vshell L line month entry =
     (let token2 = GetToken line 2; token3 = GetToken line 3; token4 = GetToken line 4; name = GetEndToken line 5 False
      in if token2 = [] then (False, entry)
         else if \<not> IsNumeric decimal token2 \<and> \<not> IsLeftNumeric token2 then (False, entry)
         else
           let day = GetNumber decimal token2
           in if day < 0 \<or> day > 31 then (False, entry)
              else if token3 = [] then (False, entry)
              else if \<not> IsNumeric decimal token3 then (False, entry)
              else
                let year = full_year (GetNumber decimal token3)
                in case ll_dt_set L (de_time entry) (to_int year) month (to_int day) (-1) (-1) of (ok, t) \<Rightarrow>
                  let entry1 = entry\<lparr>de_time := t\<rparr>
                  in if \<not> ok then (False, entry1)
                     else if token4 = [] then (False, entry1)
                     else case ParseTime L token4 entry1 of (ok, entry2) \<Rightarrow>
                       if \<not> ok then (False, entry2)
                       else if name = [] then (False, entry2)
                       else
                         let isDir = (last name = CHR ''/'' \<or> last name = CHR 0x5C)
                         in (True, entry2\<lparr>de_name := (if isDir then butlast name else name),
                                          de_flags := (if isDir then de_flags entry2 OR flag_dir else de_flags entry2)\<rparr>))"

definition ParseOther :: "listing_lib \<Rightarrow> int \<Rightarrow> bool \<Rightarrow> CLine \<Rightarrow> CDirentry \<Rightarrow> bool \<times> CDirentry" where
  "ParseOther L tz maybeMultilineVms line entry =
     (let first = GetToken line 0; token = GetToken line 1
      in if first = [] then (False, entry)
         else if \<not> IsNumeric decimal first then (False, entry)
         else if token = [] then (False, entry)
         else
           let entry0 = entry\<lparr>de_flags := 0\<rparr>
           in if IsNumeric decimal token then other_numerical L line entry0
              else if maybeMultilineVms then (False, entry0)
              else
                let entry1 = entry0\<lparr>de_size := GetNumber decimal first\<rparr>
                in case (case GetMonthFromName L token of
                           None \<Rightarrow> other_os2 L line entry1
                         | Some month \<Rightarrow> other_vshell L line month entry1) of (ok, entry2) \<Rightarrow>
                   if \<not> ok then (False, entry2)
                   else (True, entry2\<lparr>de_target := None, de_ownerGroup := [], de_permissions := [],
                                      de_time := ll_dt_add L (de_time entry2) tz\<rparr>))"

subsection \<open>WfFtp\<close>

definition ParseAsWfFtp :: "listing_lib \<Rightarrow> int \<Rightarrow> CLine \<Rightarrow> CDirentry \<Rightarrow> bool \<times> CDirentry" where
  "ParseAsWfFtp L tz line entry =
     (let name = GetToken line 0; token1 = GetToken line 1; token2 = GetToken line 2; token3 = GetToken line 3;
          time = GetEndToken line 4 False
      in if name = [] then (False, entry)
         else
           let entry1 = entry\<lparr>de_name := name\<rparr>
           in if token1 = [] then (False, entry1)
              else if \<not> IsNumeric decimal token1 then (False, entry1)
              else
                let entry2 = entry1\<lparr>de_size := GetNumber decimal token1, de_flags := 0\<rparr>
                in if token2 = [] then (False, entry2)
                   else case ParseShortDate L token2 False entry2 of (ok, entry3) \<Rightarrow>
                     if \<not> ok then (False, entry3)
                     else if token3 = [] then (False, entry3)
                     else if last token3 \<noteq> CHR ''.'' then (False, entry3)
                     else if time = [] then (False, entry3)
                     else case ParseTime L time entry3 of (ok, entry4) \<Rightarrow>
                       if \<not> ok then (False, entry4)
                       else (True, entry4\<lparr>de_ownerGroup := [], de_permissions := [],
                                          de_time := ll_dt_add L (de_time entry4) tz\<rparr>))"

end
