(* ===== verification/Listing_Formats2.thy ===== *)
theory Listing_Formats2
  imports Listing_Formats
begin

text \<open>
  The remaining parsers of \<open>directorylistingparser.cpp\<close>: the facts of MLSD, the listings of
  IBM MVS (data sets, members, migrated files, tapes), OS-9, z/VM and HP NonStop.
\<close>

subsection \<open>MLSD\<close>

record mlsd_facts =
  mf_owner :: wstring
  mf_ownername :: wstring
  mf_group :: wstring
  mf_groupname :: wstring
  mf_user :: wstring
  mf_uid :: wstring
  mf_gid :: wstring
  mf_permissions :: wstring

definition mlsd_facts_new :: mlsd_facts where
  "mlsd_facts_new = \<lparr>mf_owner = [], mf_ownername = [], mf_group = [], mf_groupname = [], mf_user = [],
     mf_uid = [], mf_gid = [], mf_permissions = []\<rparr>"

text \<open>The result of the parser: 0 for another format, 1 for an entry, 2 for a line to skip.\<close>

datatype mlsd_result = Mlsd_no | Mlsd_entry | Mlsd_skip

definition mlsd_type :: "listing_lib \<Rightarrow> wstring \<Rightarrow> CDirentry \<Rightarrow> bool \<times> CDirentry" where
  "mlsd_type L val entry =
     (let colonPos = find_idx (\<lambda>c. c = CHR '':'') val;
          valuePrefix = (case colonPos of None \<Rightarrow> ll_lower L val | Some p \<Rightarrow> ll_lower L (take p val))
      in if valuePrefix = ''dir'' \<and> colonPos = None then (True, entry\<lparr>de_flags := de_flags entry OR flag_dir\<rparr>)
         else if valuePrefix = ''os.unix=slink'' \<or> valuePrefix = ''os.unix=symlink'' then
           (let entry1 = entry\<lparr>de_flags := de_flags entry OR (flag_dir OR flag_link)\<rparr>
            in (True, case colonPos of None \<Rightarrow> entry1
                      | Some p \<Rightarrow> entry1\<lparr>de_target := Some (drop (p + 1) val)\<rparr>))
         else if (valuePrefix = ''cdir'' \<or> valuePrefix = ''pdir'') \<and> colonPos = None then (False, entry)
         else (True, entry))"

text \<open>One fact; \<^term>\<open>Some r\<close> ends the parser with the result \<open>r\<close>.\<close>

definition mlsd_fact ::
  "listing_lib \<Rightarrow> wstring \<Rightarrow> wstring \<Rightarrow> mlsd_facts \<Rightarrow> CDirentry \<Rightarrow> mlsd_result option \<times> mlsd_facts \<times> CDirentry" where
  "mlsd_fact L factname val m entry =
     (if factname = ''type'' then
        (case mlsd_type L val entry of (ok, entry1) \<Rightarrow> ((if ok then None else Some Mlsd_skip), m, entry1))
      else if factname = ''size'' then
        (let sz = GetNumber_str decimal True val
         in ((if sz < 0 then Some Mlsd_no else None), m, entry\<lparr>de_size := sz\<rparr>))
      else if factname = ''modify'' \<or> \<not> has_date entry \<and> factname = ''create'' then
        (let t = ll_dt_parse L val
         in ((if t = None then Some Mlsd_no else None), m, entry\<lparr>de_time := t\<rparr>))
      else if factname = ''perm'' then
        (None, (if val = [] then m
                else if mf_permissions m \<noteq> [] then m\<lparr>mf_permissions := val @ '' ('' @ mf_permissions m @ '')''\<rparr>
                else m\<lparr>mf_permissions := val\<rparr>), entry)
      else if factname = ''unix.mode'' then
        (None, (if mf_permissions m \<noteq> [] then m\<lparr>mf_permissions := mf_permissions m @ '' ('' @ val @ '')''\<rparr>
                else m\<lparr>mf_permissions := val\<rparr>), entry)
      else if factname = ''unix.owner'' then (None, m\<lparr>mf_owner := val\<rparr>, entry)
      else if factname = ''unix.ownername'' then (None, m\<lparr>mf_ownername := val\<rparr>, entry)
      else if factname = ''unix.group'' then (None, m\<lparr>mf_group := val\<rparr>, entry)
      else if factname = ''unix.groupname'' then (None, m\<lparr>mf_groupname := val\<rparr>, entry)
      else if factname = ''unix.user'' then (None, m\<lparr>mf_user := val\<rparr>, entry)
      else if factname = ''unix.uid'' then (None, m\<lparr>mf_uid := val\<rparr>, entry)
      else if factname = ''unix.gid'' then (None, m\<lparr>mf_gid := val\<rparr>, entry)
      else (None, m, entry))"

text \<open>The loop over the facts; \<open>facts.find(c, start)\<close> is a search in the rest from
  \<open>start\<close> on.\<close>

function mlsd_loop ::
  "listing_lib \<Rightarrow> wstring \<Rightarrow> nat \<Rightarrow> mlsd_facts \<Rightarrow> CDirentry \<Rightarrow> mlsd_result option \<times> mlsd_facts \<times> CDirentry" where
  "mlsd_loop L facts start m entry =
     (if start < length facts then
        let found = Find CHR '';'' start facts;
            delim = (case found of None \<Rightarrow> length facts | Some d \<Rightarrow> d)
        in if found \<noteq> None \<and> delim < start + 3 then (Some Mlsd_no, m, entry)
           else case Find CHR ''='' start facts of
             None \<Rightarrow> (Some Mlsd_no, m, entry)
           | Some pos \<Rightarrow>
               if pos < start + 1 \<or> pos > delim then (Some Mlsd_no, m, entry)
               else
                 let factname = ll_lower L (take (pos - start) (drop start facts));
                     val = take (delim - pos - 1) (drop (pos + 1) facts)
                 in case mlsd_fact L factname val m entry of
                      (Some r, m1, entry1) \<Rightarrow> (Some r, m1, entry1)
                    | (None, m1, entry1) \<Rightarrow> mlsd_loop L facts (delim + 1) m1 entry1
      else (None, m, entry))"
  by pat_completeness auto
termination
proof (relation "measure (\<lambda>(L, facts, start, m, entry). length facts - start)", goal_cases)
  case (2 L facts start m entry found delim)
  have "start \<le> delim"
    using 2(1,3) by (auto simp: 2(2) Find_def split: option.splits)
  then show ?case using 2(1) by simp
qed simp

declare mlsd_loop.simps [simp del]

definition mlsd_ownerGroup :: "mlsd_facts \<Rightarrow> wstring" where
  "mlsd_ownerGroup m =
     (if mf_ownername m \<noteq> [] then mf_ownername m
      else if mf_owner m \<noteq> [] then mf_owner m
      else if mf_user m \<noteq> [] then mf_user m
      else mf_uid m) @
     (if mf_groupname m \<noteq> [] then '' '' @ mf_groupname m
      else if mf_group m \<noteq> [] then '' '' @ mf_group m
      else if mf_gid m \<noteq> [] then '' '' @ mf_gid m
      else [])"

definition ParseAsMlsd :: "listing_lib \<Rightarrow> CLine \<Rightarrow> CDirentry \<Rightarrow> mlsd_result \<times> CDirentry" where
  "ParseAsMlsd L line entry =
     (let facts = GetToken line 0; name = GetEndToken line 1 True
      in if facts = [] then (Mlsd_no, entry)
         else case mlsd_loop L facts 0 mlsd_facts_new
                     (entry\<lparr>de_flags := 0, de_size := -1, de_time := None, de_target := None\<rparr>) of
           (Some r, m, entry1) \<Rightarrow> (r, entry1)
         | (None, m, entry1) \<Rightarrow>
             if name = [] then (Mlsd_no, entry1)
             else (Mlsd_entry, entry1\<lparr>de_name := name, de_ownerGroup := mlsd_ownerGroup m,
                                      de_permissions := mf_permissions m\<rparr>))"

subsection \<open>IBM MVS\<close>

text \<open>The fields from lrecl on, the first of them token \<open>index\<close>.\<close>

definition mvs_tail :: "CLine \<Rightarrow> nat \<Rightarrow> CDirentry \<Rightarrow> bool \<times> CDirentry" where
  "mvs_tail line index entry =
     (let lrecl = GetToken line index; blksize = GetToken line (index + 1); dsorg = GetToken line (index + 2);
          name = GetEndToken line (index + 3) False
      in if lrecl = [] \<or> \<not> IsNumeric decimal lrecl then (False, entry)
         else if blksize = [] \<or> \<not> IsNumeric decimal blksize then (False, entry)
         else if dsorg = [] then (False, entry)
         else
           let entry1 = (if dsorg = ''PO'' \<or> dsorg = ''PO-E''
                         then entry\<lparr>de_flags := de_flags entry OR flag_dir, de_size := -1\<rparr>
                         else entry\<lparr>de_size := 100\<rparr>)
           in if name = [] then (False, entry1)
              else (True, entry1\<lparr>de_name := name, de_ownerGroup := [], de_permissions := []\<rparr>))"

definition ParseAsIBM_MVS :: "listing_lib \<Rightarrow> CLine \<Rightarrow> CDirentry \<Rightarrow> bool \<times> CDirentry" where
  "ParseAsIBM_MVS L line entry =
     (let volume = GetToken line 0; unit = GetToken line 1; date = GetToken line 2; token3 = GetToken line 3;
          used = GetToken line 4; recfm = GetToken line 5
      in if volume = [] then (False, entry)
         else if unit = [] then (False, entry)
         else if date = [] then (False, entry)
         else case (if date = ''**NONE**'' then (True, entry\<lparr>de_flags := 0\<rparr>)
                    else ParseShortDate L date False (entry\<lparr>de_flags := 0\<rparr>)) of (ok, entry1) \<Rightarrow>
           if \<not> ok then
             (if date \<noteq> ''VSAM'' then (False, entry1)
              else if token3 = [] then (False, entry1)
              else if find_idx (\<lambda>c. c = CHR '' '') token3 \<noteq> None then (False, entry1\<lparr>de_name := token3\<rparr>)
              else (True, entry1\<lparr>de_name := token3, de_size := -1, de_ownerGroup := [], de_permissions := []\<rparr>))
           else if token3 = [] \<or> \<not> IsNumeric decimal token3 then (False, entry1)
           else if used = [] then (False, entry1)
           else if IsNumeric decimal used \<or> used = ''????'' \<or> used = ''++++'' then
             (if recfm = [] \<or> IsNumeric decimal recfm then (False, entry1) else mvs_tail line 6 entry1)
           else if length token3 < 6 then (False, entry1)
           else mvs_tail line 5 entry1)"

definition ParseAsIBM_MVS_PDS :: "listing_lib \<Rightarrow> int \<Rightarrow> CLine \<Rightarrow> CDirentry \<Rightarrow> bool \<times> CDirentry" where
  "ParseAsIBM_MVS_PDS L tz line entry =
     (let name = GetToken line 0; created = GetToken line 2; modified = GetToken line 3; time = GetToken line 4;
          sz = GetToken line 5; init = GetToken line 6; modif = GetToken line 7
      in if name = [] then (False, entry)
         else
           let entry1 = entry\<lparr>de_name := name\<rparr>
           in if GetToken line 1 = [] then (False, entry1)
              else if created = [] then (False, entry1\<lparr>de_flags := 0\<rparr>)
              else case ParseShortDate L created False (entry1\<lparr>de_flags := 0\<rparr>) of (ok, entry2) \<Rightarrow>
                if \<not> ok then (False, entry2)
                else if modified = [] then (False, entry2)
                else case ParseShortDate L modified False entry2 of (ok, entry3) \<Rightarrow>
                  if \<not> ok then (False, entry3)
                  else if time = [] then (False, entry3)
                  else case ParseTime L time entry3 of (ok, entry4) \<Rightarrow>
                    if \<not> ok then (False, entry4)
                    else if sz = [] \<or> \<not> IsNumeric decimal sz then (False, entry4)
                    else
                      let entry5 = entry4\<lparr>de_size := GetNumber decimal sz\<rparr>
                      in if init = [] \<or> \<not> IsNumeric decimal init then (False, entry5)
                         else if modif = [] \<or> \<not> IsNumeric decimal modif then (False, entry5)
                         else if GetEndToken line 8 False = [] then (False, entry5)
                         else (True, entry5\<lparr>de_ownerGroup := [], de_permissions := [],
                                            de_time := ll_dt_add L (de_time entry5) tz\<rparr>))"

definition ParseAsIBM_MVS_Migrated :: "listing_lib \<Rightarrow> CLine \<Rightarrow> CDirentry \<Rightarrow> bool \<times> CDirentry" where
  "ParseAsIBM_MVS_Migrated L line entry =
     (let token = GetToken line 0; name = GetToken line 1
      in if token = [] then (False, entry)
         else if ll_lower L token \<noteq> ''migrated'' then (False, entry)
         else if name = [] then (False, entry)
         else if GetToken line 2 \<noteq> [] then (False, entry\<lparr>de_name := name\<rparr>)
         else (True, entry\<lparr>de_name := name, de_flags := 0, de_size := -1, de_ownerGroup := [], de_permissions := []\<rparr>))"

text \<open>The index behind the last token; a line has no more tokens than units.\<close>

function token_end :: "CLine \<Rightarrow> nat \<Rightarrow> nat" where
  "token_end line index =
     (if GetToken line index = [] \<or> index > length (cl_line line) then index else token_end line (index + 1))"
  by pat_completeness auto
termination
  by (relation "measure (\<lambda>(line, index). Suc (length (cl_line line)) - index)") auto

declare token_end.simps [simp del]

definition ParseAsIBM_MVS_PDS2 :: "CLine \<Rightarrow> CDirentry \<Rightarrow> bool \<times> CDirentry" where
  "ParseAsIBM_MVS_PDS2 line entry =
     (let name = GetToken line 0; token1 = GetToken line 1; token2 = GetToken line 2; token3 = GetToken line 3;
          start = 4; index = token_end line start; last1 = GetToken line (index - 1); last2 = GetToken line (index - 2);
          entry1 = entry\<lparr>de_name := name, de_flags := 0, de_ownerGroup := [], de_permissions := [], de_size := -1\<rparr>
      in if name = [] then (False, entry)
         else if token1 = [] then (True, entry1)
         else
           let entry2 = entry1\<lparr>de_size := GetNumber hex token1\<rparr>
           in if de_size entry2 = -1 then (False, entry2)
              else if token2 = [] \<or> \<not> IsNumeric hex token2 then (False, entry2)
              else if token3 = [] \<or> \<not> IsNumeric decimal token3 then (False, entry2)
              else if index - start < 2 then (False, entry2)
              else if last1 = [] \<or> \<not> IsNumeric decimal last1 \<and> last1 \<noteq> ''ANY'' then (False, entry2)
              else if last2 = [] \<or> \<not> IsNumeric decimal last2 \<and> last2 \<noteq> ''ANY'' then (False, entry2)
              else (list_all (\<lambda>i. GetToken line i \<noteq> [] \<and>
                                  list_all (\<lambda>c. CHR ''A'' \<le> c \<and> c \<le> CHR ''Z'') (GetToken line i))
                             [start ..< index - 2], entry2))"

definition ParseAsIBM_MVS_Tape :: "listing_lib \<Rightarrow> CLine \<Rightarrow> CDirentry \<Rightarrow> bool \<times> CDirentry" where
  "ParseAsIBM_MVS_Tape L line entry =
     (let volume = GetToken line 0; unit = GetToken line 1; dsname = GetToken line 2
      in if volume = [] then (False, entry)
         else if unit = [] then (False, entry)
         else if ll_lower L unit \<noteq> ''tape'' then (False, entry)
         else if dsname = [] then (False, entry)
         else (GetToken line 3 = [],
               entry\<lparr>de_name := dsname, de_flags := 0, de_ownerGroup := [], de_permissions := [], de_size := -1\<rparr>))"

subsection \<open>OS-9, z/VM, HP NonStop\<close>

definition ParseAsOS9 :: "listing_lib \<Rightarrow> CLine \<Rightarrow> CDirentry \<Rightarrow> bool \<times> CDirentry" where
  "ParseAsOS9 L line entry =
     (let owner = GetToken line 0; date = GetToken line 1; perms = GetToken line 3; sz = GetToken line 5;
          name = GetEndToken line 6 False; pos = Find CHR ''.'' 0 owner
      in if owner = [] then (False, entry)
         else case pos of
           None \<Rightarrow> (False, entry)
         | Some p \<Rightarrow>
             if p = 0 \<or> p = length owner - 1 then (False, entry)
             else if \<not> IsNumeric_at 0 p owner then (False, entry)
             else if \<not> IsNumeric_at (p + 1) (length owner - p - 1) owner then (False, entry)
             else
               let entry1 = entry\<lparr>de_flags := 0\<rparr>
               in if date = [] then (False, entry1)
                  else case ParseShortDate L date True entry1 of (ok, entry2) \<Rightarrow>
                    if \<not> ok then (False, entry2)
                    else if GetToken line 2 = [] then (False, entry2)
                    else if perms = [] then (False, entry2)
                    else
                      let entry3 = (if hd perms = CHR ''d'' then entry2\<lparr>de_flags := de_flags entry2 OR flag_dir\<rparr> else entry2)
                      in if GetToken line 4 = [] then (False, entry3)
                         else if sz = [] \<or> \<not> IsNumeric decimal sz then (False, entry3)
                         else
                           let entry4 = entry3\<lparr>de_size := GetNumber decimal sz\<rparr>
                           in if name = [] then (False, entry4)
                              else (True, entry4\<lparr>de_name := name, de_ownerGroup := owner, de_permissions := perms\<rparr>))"

text \<open>The records are multiplied with their length, unless the product overflows.\<close>

definition zvm_size :: "int \<Rightarrow> int \<Rightarrow> int option" where
  "zvm_size sz records =
     (if sz > 0 then (if records < 0 \<or> int64_max div sz < records then None else Some (sz * records)) else Some sz)"

definition zvm_dates :: "listing_lib \<Rightarrow> int \<Rightarrow> CLine \<Rightarrow> CDirentry \<Rightarrow> bool \<times> CDirentry" where
  "zvm_dates L tz line entry =
     (let unused = GetToken line 5; date = GetToken line 6; time = GetToken line 7; owner = GetToken line 8
      in if unused = [] \<or> \<not> IsNumeric decimal unused then (False, entry)
         else
           let entry1 = entry\<lparr>de_flags := 0\<rparr>
           in if date = [] then (False, entry1)
              else case ParseShortDate L date True entry1 of (ok, entry2) \<Rightarrow>
                if \<not> ok then (False, entry2)
                else if time = [] then (False, entry2)
                else case ParseTime L time entry2 of (ok, entry3) \<Rightarrow>
                  if \<not> ok then (False, entry3)
                  else if owner = [] then (False, entry3)
                  else if GetToken line 9 \<noteq> [] then (False, entry3)
                  else (True, entry3\<lparr>de_ownerGroup := owner, de_permissions := [], de_target := None,
                                     de_time := ll_dt_add L (de_time entry3) tz\<rparr>))"

definition ParseAsZVM :: "listing_lib \<Rightarrow> int \<Rightarrow> CLine \<Rightarrow> CDirentry \<Rightarrow> bool \<times> CDirentry" where
  "ParseAsZVM L tz line entry =
     (let name = GetToken line 0; ext = GetToken line 1; format = GetToken line 2; reclen = GetToken line 3;
          records = GetToken line 4
      in if name = [] then (False, entry)
         else if ext = [] then (False, entry\<lparr>de_name := name\<rparr>)
         else
           let entry1 = entry\<lparr>de_name := name @ ''.'' @ ext\<rparr>
           in if format = [] \<or> format \<noteq> ''V'' \<and> format \<noteq> ''F'' then (False, entry1)
              else if reclen = [] \<or> \<not> IsNumeric decimal reclen then (False, entry1)
              else
                let entry2 = entry1\<lparr>de_size := GetNumber decimal reclen\<rparr>
                in if records = [] \<or> \<not> IsNumeric decimal records then (False, entry2)
                   else case zvm_size (de_size entry2) (GetNumber decimal records) of
                     None \<Rightarrow> (False, entry2)
                   | Some sz \<Rightarrow> zvm_dates L tz line (entry2\<lparr>de_size := sz\<rparr>))"

definition ParseAsHPNonstop :: "listing_lib \<Rightarrow> CLine \<Rightarrow> CDirentry \<Rightarrow> bool \<times> CDirentry" where
  "ParseAsHPNonstop L line entry =
     (let name = GetToken line 0; code = GetToken line 1; sz = GetToken line 2; date = GetToken line 3;
          time = GetToken line 4; owner = GetToken line 5; owner2 = GetToken line 6
      in if name = [] then (False, entry)
         else
           let entry1 = entry\<lparr>de_name := name\<rparr>
           in if code = [] \<or> \<not> IsNumeric decimal code then (False, entry1)
              else if sz = [] \<or> \<not> IsNumeric decimal sz then (False, entry1)
              else
                let entry2 = entry1\<lparr>de_size := GetNumber decimal sz, de_flags := 0\<rparr>
                in if date = [] then (False, entry2)
                   else case ParseShortDate L date False entry2 of (ok, entry3) \<Rightarrow>
                     if \<not> ok then (False, entry3)
                     else if time = [] then (False, entry3)
                     else case ParseTime L time entry3 of (ok, entry4) \<Rightarrow>
                       if \<not> ok then (False, entry4)
                       else if owner = [] then (False, entry4)
                       else if last owner = CHR '','' \<and> owner2 = [] then (False, entry4)
                       else
                         let two = (last owner = CHR '','');
                             ownerGroup = (if two then owner @ '' '' @ owner2 else owner);
                             index = (if two then 7 else 6);
                             perms = GetToken line index
                         in if perms = [] then (False, entry4)
                            else if GetToken line (index + 1) \<noteq> [] then (False, entry4)
                            else (True, entry4\<lparr>de_permissions := perms, de_ownerGroup := ownerGroup\<rparr>))"

end
