(* ===== verification/Listing_Parser.thy ===== *)
theory Listing_Parser
  imports Listing_Formats2
begin

text \<open>
  The parser of directory listings as a state machine, \<open>CDirectoryListingParser\<close> of
  \<open>directorylistingparser.cpp\<close>: the input buffer, the encoding, the lines, the order in which
  the formats are tried, entries that span two lines, plain lists of names, and the limit of entries.
  Bytes are the 256 values of \<^typ>\<open>char\<close>.  Log messages are left out.
\<close>

subsection \<open>The cache of strings\<close>

text \<open>A sorted vector of shared strings; \<open>shared s\<close> says that the string is in use elsewhere
  (\<open>use_count() > 1\<close>), which the reference that \<open>get\<close> holds makes true of the new one.  The
  overload for views and that for strings do the same.\<close>

definition objcache_prune :: "(wstring \<Rightarrow> bool) \<Rightarrow> wstring list \<Rightarrow> wstring list" where
  "objcache_prune shared cache =
     (let threshold = 5000; target = threshold - 1000
      in if length cache > threshold then
           let cache1 = filter shared cache
           in if length cache1 > threshold then drop (length cache1 - target) cache1 else cache1
         else cache)"

definition objcache_get :: "(wstring \<Rightarrow> bool) \<Rightarrow> wstring \<Rightarrow> wstring list \<Rightarrow> wstring \<times> wstring list" where
  "objcache_get shared v cache =
     (let before = takeWhile (\<lambda>a. a < v) cache; after = dropWhile (\<lambda>a. a < v) cache
      in case after of
           a # as \<Rightarrow> if a = v then (a, cache) else (v, objcache_prune (shared(v := True)) (before @ v # after))
         | [] \<Rightarrow> (v, objcache_prune (shared(v := True)) (before @ [v])))"

text \<open>The string that is asked for is returned, so that a parser can use the string in place of the
  reference, and the cache stays sorted, without duplicates and within its limit.\<close>

lemma objcache_get_value: "fst (objcache_get shared v cache) = v"
  by (auto simp: objcache_get_def Let_def split: list.splits)

lemma objcache_prune_ok:
  assumes "sorted_wrt (<) cache" "length cache \<le> 5001"
  shows "sorted_wrt (<) (objcache_prune shared cache) \<and> length (objcache_prune shared cache) \<le> 5000"
  using assms sorted_wrt_filter [of "(<)" cache shared]
  by (auto simp: objcache_prune_def Let_def sorted_wrt_drop)

lemma objcache_get_ok:
  assumes "sorted_wrt (<) cache" "length cache \<le> 5000"
  shows "sorted_wrt (<) (snd (objcache_get shared v cache)) \<and> length (snd (objcache_get shared v cache)) \<le> 5000"
proof -
  define before after where "before = takeWhile (\<lambda>a. a < v) cache" and "after = dropWhile (\<lambda>a. a < v) cache"
  have split: "cache = before @ after" by (simp add: before_def after_def)
  have b: "\<forall>a \<in> set before. a < v" unfolding before_def by (auto dest: set_takeWhileD)
  have new: "sorted_wrt (<) (before @ v # after) \<and> length (before @ v # after) \<le> 5001"
    if "after = [] \<or> hd after \<noteq> v"
  proof -
    have "\<forall>a \<in> set after. v < a"
    proof (cases after)
      case (Cons a as)
      have "\<not> a < v" using Cons unfolding after_def by (simp add: dropWhile_eq_Cons_conv)
      then have "v < a" using that Cons by auto
      then show ?thesis using Cons assms(1) split by (auto simp: sorted_wrt_append)
    qed simp
    then show ?thesis using assms split b by (auto simp: sorted_wrt_append)
  qed
  show ?thesis
  proof (cases after)
    case Nil
    then show ?thesis
      using new objcache_prune_ok [of "before @ [v]"]
      by (simp add: objcache_get_def Let_def flip: before_def after_def)
  next
    case (Cons a as)
    then show ?thesis
      using new objcache_prune_ok [of "before @ v # after"] assms
      by (simp add: objcache_get_def Let_def flip: before_def after_def)
  qed
qed

subsection \<open>State\<close>

datatype listing_encoding = enc_unknown | enc_normal | enc_ebcdic

record listing_parser =
  lp_inbuf :: string
  lp_parse_offset :: nat
  lp_converted :: nat
  lp_entries :: "CDirentry list"
  lp_prevLine :: wstring
  lp_server :: CServer
  lp_fileListOnly :: bool
  lp_fileList :: "wstring list"
  lp_maybeMultilineVms :: bool
  lp_timezoneOffset :: int
  lp_listingEncoding :: listing_encoding
  lp_limit :: nat
  lp_truncated :: bool

definition parser_new :: "CServer \<Rightarrow> listing_encoding \<Rightarrow> nat \<Rightarrow> listing_parser" where
  "parser_new server encoding limit =
     \<lparr>lp_inbuf = [], lp_parse_offset = 0, lp_converted = 0, lp_entries = [], lp_prevLine = [],
      lp_server = server, lp_fileListOnly = True, lp_fileList = [], lp_maybeMultilineVms = False,
      lp_timezoneOffset = 0, lp_listingEncoding = encoding, lp_limit = limit, lp_truncated = False\<rparr>"

text \<open>\<open>GetInputBuffer().append(data)\<close>, and \<open>Reset\<close>, which keeps the encoding and the
  offset of the time zone.\<close>

definition add_data :: "string \<Rightarrow> listing_parser \<Rightarrow> listing_parser" where
  "add_data data st = st\<lparr>lp_inbuf := lp_inbuf st @ data\<rparr>"

definition parser_Reset :: "listing_parser \<Rightarrow> listing_parser" where
  "parser_Reset st = st\<lparr>lp_inbuf := [], lp_parse_offset := 0, lp_converted := 0, lp_prevLine := [],
     lp_entries := [], lp_fileList := [], lp_fileListOnly := True, lp_maybeMultilineVms := False,
     lp_truncated := False\<rparr>"

subsection \<open>Encoding\<close>

definition ebcdic_table :: string where
  "ebcdic_table =
    ''                '' @
    ''     '' @ [CHR 0x0A] @ ''         '' @ [CHR 0x0A] @
    ''     '' @ [CHR 0x0A] @ ''          '' @
    ''                '' @
    ''           .<(+|'' @
    ''&         !$*); '' @
    ''-/        |,%_>?'' @
    ''         '' @ [CHR 0x60] @ '':#@'' @ [CHR 0x27] @ ''='' @ [CHR 0x22] @
    '' abcdefghi      '' @
    '' jklmnopqr      '' @
    '' ~stuvwxyz      '' @
    ''^         []    '' @
    ''{ABCDEFGHI      '' @
    ''}JKLMNOPQR      '' @
    [CHR 0x5C] @ '' STUVWXYZ      '' @
    ''0123456789      ''"

definition count_in :: "nat set \<Rightarrow> string \<Rightarrow> nat" where
  "count_in codes data = length (filter (\<lambda>c. of_char c \<in> codes) data)"

definition normal_codes :: "nat set" where
  "normal_codes = {48..57} \<union> {97..122} \<union> {65..90}"

definition ebcdic_codes :: "nat set" where
  "ebcdic_codes = {0x81..0x89} \<union> {0x91..0x99} \<union> {0xa2..0xa9} \<union> {0xc1..0xc9} \<union> {0xd1..0xd9} \<union>
     {0xe2..0xe9} \<union> {0xf0..0xf9}"

definition DeduceEncoding :: "listing_parser \<Rightarrow> listing_parser" where
  "DeduceEncoding st =
     (if lp_listingEncoding st \<noteq> enc_unknown then st
      else
        let data = take 50000 (lp_inbuf st);
            count_normal = count_in normal_codes data;
            count_ebcdic = count_in ebcdic_codes data
        in if (count_in {0x1f} data \<noteq> 0 \<or> count_in {0x15} data \<noteq> 0 \<or> count_in {0x25} data \<noteq> 0) \<and>
              count_in {0x0a} data = 0 \<and> count_in {64} data \<noteq> 0 \<and>
              count_in {64} data > count_in {32} data \<and> count_ebcdic > count_normal
           then st\<lparr>lp_listingEncoding := enc_ebcdic\<rparr>
           else st\<lparr>lp_listingEncoding := enc_normal\<rparr>)"

definition ebcdic_char :: "char \<Rightarrow> char" where
  "ebcdic_char c = ebcdic_table ! of_char c"

definition ConvertEncoding :: "listing_parser \<Rightarrow> listing_parser" where
  "ConvertEncoding st =
     (let st1 = (if lp_listingEncoding st = enc_unknown then DeduceEncoding st else st)
      in if lp_listingEncoding st1 \<noteq> enc_ebcdic then st1
         else st1\<lparr>lp_inbuf := take (lp_converted st1) (lp_inbuf st1) @
                               map ebcdic_char (drop (lp_converted st1) (lp_inbuf st1)),
                  lp_converted := length (lp_inbuf st1)\<rparr>)"

subsection \<open>Lines\<close>

definition is_eol :: "char \<Rightarrow> bool" where
  "is_eol c \<longleftrightarrow> c = nul \<or> c = CHR 0x0A \<or> c = CHR 0x0D"

definition is_trimmed :: "char \<Rightarrow> bool" where
  "is_trimmed c \<longleftrightarrow> is_eol c \<or> is_blank c"

definition line_limit :: nat where
  "line_limit = 10000"

definition line_text :: "listing_lib \<Rightarrow> string \<Rightarrow> wstring" where
  "line_text L raw_line =
     (case ll_local L of
        Some ConvToLocal \<Rightarrow> ConvToLocal raw_line
      | None \<Rightarrow>
          let buffer = ll_to_wstring_from_utf8 L raw_line
          in if buffer \<noteq> [] then buffer
             else let buffer1 = ll_to_wstring L raw_line in if buffer1 \<noteq> [] then buffer1 else raw_line)"

definition strip_bom :: "listing_lib \<Rightarrow> wstring \<Rightarrow> wstring" where
  "strip_bom L buffer = (if buffer \<noteq> [] \<and> Some (hd buffer) = ll_bom L then tl buffer else buffer)"

definition TrimLeadingWhitespace :: "string \<Rightarrow> nat \<Rightarrow> string" where
  "TrimLeadingWhitespace inbuf offset = (if offset \<noteq> 0 then inbuf else dropWhile is_trimmed inbuf)"

text \<open>The next line that is not empty, an error flag, and the buffer with the offset up to which
  it was searched.  An empty line is returned at the end of the data or on an error.\<close>

function GetLine :: "listing_lib \<Rightarrow> bool \<Rightarrow> string \<Rightarrow> nat \<Rightarrow> wstring \<times> bool \<times> string \<times> nat" where
  "GetLine L breakAtEnd inbuf offset =
     (let inbuf1 = TrimLeadingWhitespace inbuf offset;
          offset1 = offset + length (takeWhile (\<lambda>c. \<not> is_eol c) (drop offset inbuf1))
      in if offset1 > line_limit then ([], True, inbuf1, offset1)
         else if offset1 \<ge> length inbuf1 \<and> (breakAtEnd \<or> inbuf1 = []) then ([], False, inbuf1, offset1)
         else
           let buffer = strip_bom L (line_text L (take offset1 inbuf1)); inbuf2 = drop offset1 inbuf1
           in if buffer \<noteq> [] then (buffer, False, inbuf2, 0) else GetLine L breakAtEnd inbuf2 0)"
  by pat_completeness auto

lemma GetLine_consumes:
  fixes inbuf :: string and offset :: nat
  defines "inbuf1 \<equiv> TrimLeadingWhitespace inbuf offset"
  defines "offset1 \<equiv> offset + length (takeWhile (\<lambda>c. \<not> is_eol c) (drop offset inbuf1))"
  assumes "\<not> (offset1 \<ge> length inbuf1 \<and> (breakAtEnd \<or> inbuf1 = []))"
  shows "0 < offset1" "length (drop offset1 inbuf1) < length inbuf"
proof -
  have ne: "inbuf1 \<noteq> []" using assms(3) by auto
  show pos: "0 < offset1"
  proof (cases offset)
    case 0
    then have "\<not> is_trimmed (hd inbuf1)"
      using ne hd_dropWhile [of is_trimmed inbuf] by (simp add: inbuf1_def TrimLeadingWhitespace_def)
    then have "\<not> is_eol (hd inbuf1)" by (simp add: is_trimmed_def)
    then show ?thesis using ne 0 by (cases inbuf1) (simp_all add: offset1_def)
  qed (simp add: offset1_def)
  have "length inbuf1 \<le> length inbuf"
    by (simp add: inbuf1_def TrimLeadingWhitespace_def length_dropWhile_le)
  then show "length (drop offset1 inbuf1) < length inbuf"
    using pos ne by (cases inbuf1) auto
qed

termination GetLine
proof (relation "measure (\<lambda>(L, breakAtEnd, inbuf, offset). length inbuf)", goal_cases)
  case (2 L breakAtEnd inbuf offset inbuf1 offset1 buffer inbuf2)
  then show ?case
    using GetLine_consumes(2) [of inbuf offset breakAtEnd] by simp
qed simp

declare GetLine.simps [simp del]

lemma GetLine_shorter:
  assumes "GetLine L breakAtEnd inbuf offset = (raw, err, inbuf', offset')" "raw \<noteq> []"
  shows "length inbuf' < length inbuf \<and> offset' = 0 \<and> \<not> err"
  using assms
proof (induction L breakAtEnd inbuf offset rule: GetLine.induct)
  case (1 L breakAtEnd inbuf offset)
  define inbuf1 where "inbuf1 = TrimLeadingWhitespace inbuf offset"
  define offset1 where "offset1 = offset + length (takeWhile (\<lambda>c. \<not> is_eol c) (drop offset inbuf1))"
  define buffer where "buffer = strip_bom L (line_text L (take offset1 inbuf1))"
  have eq: "GetLine L breakAtEnd inbuf offset =
      (if offset1 > line_limit then ([], True, inbuf1, offset1)
       else if offset1 \<ge> length inbuf1 \<and> (breakAtEnd \<or> inbuf1 = []) then ([], False, inbuf1, offset1)
       else if buffer \<noteq> [] then (buffer, False, drop offset1 inbuf1, 0)
       else GetLine L breakAtEnd (drop offset1 inbuf1) 0)"
    by (subst GetLine.simps) (simp only: Let_def inbuf1_def offset1_def buffer_def)
  have no: "\<not> offset1 > line_limit" "\<not> (offset1 \<ge> length inbuf1 \<and> (breakAtEnd \<or> inbuf1 = []))"
    using 1(2,3) eq by (auto split: if_splits)
  have short: "length (drop offset1 inbuf1) < length inbuf"
    using GetLine_consumes(2) no(2) unfolding inbuf1_def offset1_def by blast
  show ?case
  proof (cases "buffer = []")
    case True
    then have "GetLine L breakAtEnd (drop offset1 inbuf1) 0 = (raw, err, inbuf', offset')"
      using 1(2) eq no by simp
    then have "length inbuf' < length (drop offset1 inbuf1) \<and> offset' = 0 \<and> \<not> err"
      using 1(1) [OF inbuf1_def offset1_def no buffer_def refl] True 1(3) by simp
    then show ?thesis using short by linarith
  next
    case False
    then show ?thesis using 1(2) eq no short by auto
  qed
qed

lemma GetLine_no_longer:
  "GetLine L breakAtEnd inbuf offset = (raw, err, inbuf', offset') \<Longrightarrow> length inbuf' \<le> length inbuf"
proof (induction L breakAtEnd inbuf offset rule: GetLine.induct)
  case (1 L breakAtEnd inbuf offset)
  have "length (TrimLeadingWhitespace inbuf offset) \<le> length inbuf"
    by (simp add: TrimLeadingWhitespace_def length_dropWhile_le)
  then show ?case
    using 1 by (subst (asm) (2) GetLine.simps) (fastforce simp: Let_def split: if_splits)
qed

subsection \<open>One line\<close>

text \<open>The formats in the order in which they are tried; each gets the entry that the one before has
  left.\<close>

fun try_formats :: "(CDirentry \<Rightarrow> bool \<times> CDirentry) list \<Rightarrow> CDirentry \<Rightarrow> bool \<times> CDirentry" where
  "try_formats [] entry = (False, entry)"
| "try_formats (p # ps) entry = (case p entry of (ok, entry1) \<Rightarrow> if ok then (True, entry1) else try_formats ps entry1)"

datatype line_result = Line_entry CDirentry | Line_skip | Line_unknown

definition common_formats ::
  "listing_lib \<Rightarrow> int \<Rightarrow> bool \<Rightarrow> ServerType \<Rightarrow> CLine \<Rightarrow> (CDirentry \<Rightarrow> bool \<times> CDirentry) list" where
  "common_formats L tz maybeMultilineVms serverType line =
     [ParseAsUnix L tz line True, ParseAsDos L tz line, ParseAsEplf L line, ParseAsVms L tz line,
      ParseOther L tz maybeMultilineVms line, ParseAsIbm L tz line, ParseAsWfFtp L tz line,
      ParseAsIBM_MVS L line, ParseAsIBM_MVS_PDS L tz line, ParseAsOS9 L line] @
     (if serverType = MVS
      then [ParseAsIBM_MVS_Migrated L line, ParseAsIBM_MVS_PDS2 line, ParseAsIBM_MVS_Tape L line] else []) @
     [ParseAsUnix L tz line False]"

definition special_formats :: "listing_lib \<Rightarrow> int \<Rightarrow> ServerType \<Rightarrow> CLine \<Rightarrow> (CDirentry \<Rightarrow> bool \<times> CDirentry) list" where
  "special_formats L tz serverType line =
     (if serverType = ZVM then [ParseAsZVM L tz line]
      else if serverType = HPNONSTOP then [ParseAsHPNonstop L line] else [])"

definition parse_formats :: "listing_lib \<Rightarrow> int \<Rightarrow> bool \<Rightarrow> ServerType \<Rightarrow> CLine \<Rightarrow> line_result" where
  "parse_formats L tz maybeMultilineVms serverType line =
     (case try_formats (special_formats L tz serverType line) CDirentry_default of
        (True, entry1) \<Rightarrow> Line_entry entry1
      | (False, entry1) \<Rightarrow>
          (case ParseAsMlsd L line entry1 of
             (Mlsd_entry, entry2) \<Rightarrow> Line_entry entry2
           | (Mlsd_skip, entry2) \<Rightarrow> Line_skip
           | (Mlsd_no, entry2) \<Rightarrow>
               (case try_formats (common_formats L tz maybeMultilineVms serverType line) entry2 of
                  (True, entry3) \<Rightarrow> Line_entry entry3
                | (False, entry3) \<Rightarrow> Line_unknown)))"

text \<open>A line that is no entry may be a name of a plain list.\<close>

definition note_filename :: "CLine \<Rightarrow> listing_parser \<Rightarrow> listing_parser" where
  "note_filename line st =
     (let token = GetEndToken line 0 False
      in if token = [] \<or> Find CHR '' '' 0 token \<noteq> None
         then st\<lparr>lp_maybeMultilineVms := False, lp_fileList := [], lp_fileListOnly := False\<rparr>
         else
           let st1 = st\<lparr>lp_maybeMultilineVms := (Find CHR '';'' 0 token \<noteq> None)\<rparr>
           in if lp_fileListOnly st1 then
                (if length (lp_fileList st1) < lp_limit st1 then st1\<lparr>lp_fileList := lp_fileList st1 @ [token]\<rparr>
                 else st1\<lparr>lp_truncated := True\<rparr>)
              else st1)"

definition no_filelist :: "listing_parser \<Rightarrow> listing_parser" where
  "no_filelist st = st\<lparr>lp_maybeMultilineVms := False, lp_fileList := [], lp_fileListOnly := False\<rparr>"

text \<open>The label \<open>done2\<close>.\<close>

definition trim_version :: "ServerType \<Rightarrow> CDirentry \<Rightarrow> CDirentry" where
  "trim_version serverType entry =
     (if serverType = VMS \<and> is_dir entry then
        (case rfind_idx (\<lambda>c. c = CHR '';'') (de_name entry) of
           Some pos \<Rightarrow> if pos > 0 then entry\<lparr>de_name := take pos (de_name entry)\<rparr> else entry
         | None \<Rightarrow> entry)
      else entry)"

definition add_entry :: "listing_lib \<Rightarrow> CDirentry \<Rightarrow> listing_parser \<Rightarrow> listing_parser" where
  "add_entry L entry st =
     (let st1 = no_filelist st
      in if de_name entry = ''.'' \<or> de_name entry = ''..'' then st1
         else
           let entry1 = trim_version (sv_type (lp_server st1)) entry;
               timezoneOffset = sv_timezoneOffset (lp_server st1);
               entry2 = (if timezoneOffset \<noteq> 0
                         then entry1\<lparr>de_time := ll_dt_add L (de_time entry1) (ll_from_minutes L timezoneOffset)\<rparr>
                         else entry1)
           in if length (lp_entries st1) < lp_limit st1 then st1\<lparr>lp_entries := lp_entries st1 @ [entry2]\<rparr>
              else st1\<lparr>lp_truncated := True\<rparr>)"

text \<open>SFTP knows some fields exactly.\<close>

definition apply_override :: "CDirentry option \<Rightarrow> CDirentry \<Rightarrow> CDirentry" where
  "apply_override override entry =
     (case override of
        None \<Rightarrow> entry
      | Some ov \<Rightarrow>
          let entry1 = (if de_name ov \<noteq> [] then entry\<lparr>de_name := de_name ov\<rparr> else entry);
              entry2 = (if de_time ov \<noteq> None then entry1\<lparr>de_time := de_time ov\<rparr> else entry1)
          in if \<not> is_dir entry2 \<and> de_size ov \<noteq> -1 then entry2\<lparr>de_size := de_size ov\<rparr> else entry2)"

definition ParseLine :: "listing_lib \<Rightarrow> CLine \<Rightarrow> bool \<Rightarrow> CDirentry option \<Rightarrow> listing_parser \<Rightarrow> bool \<times> listing_parser" where
  "ParseLine L line concatenated override st =
     (case parse_formats L (lp_timezoneOffset st) (lp_maybeMultilineVms st) (sv_type (lp_server st)) line of
        Line_entry entry \<Rightarrow> (True, add_entry L (apply_override override entry) st)
      | Line_skip \<Rightarrow> (True, no_filelist st)
      | Line_unknown \<Rightarrow>
          let st1 = (if concatenated then st\<lparr>lp_maybeMultilineVms := False\<rparr> else note_filename line st)
          in case override of
               None \<Rightarrow> (False, st1)
             | Some ov \<Rightarrow> if de_name ov = [] then (False, st1) else (True, add_entry L ov st1))"

lemma ParseLine_buffer [simp]:
  "lp_inbuf (snd (ParseLine L line c ov st)) = lp_inbuf st"
  "lp_parse_offset (snd (ParseLine L line c ov st)) = lp_parse_offset st"
  "lp_converted (snd (ParseLine L line c ov st)) = lp_converted st"
  "lp_listingEncoding (snd (ParseLine L line c ov st)) = lp_listingEncoding st"
  "lp_server (snd (ParseLine L line c ov st)) = lp_server st"
  "lp_limit (snd (ParseLine L line c ov st)) = lp_limit st"
  "lp_timezoneOffset (snd (ParseLine L line c ov st)) = lp_timezoneOffset st"
  by (auto simp: ParseLine_def Let_def note_filename_def add_entry_def no_filelist_def
      split: line_result.splits option.splits)

text \<open>One line of the input: when it is no entry, it is tried again together with the line before.  The
  trailing blanks of the line were counted by the request for its end token.\<close>

definition process_line :: "listing_lib \<Rightarrow> wstring \<Rightarrow> listing_parser \<Rightarrow> listing_parser" where
  "process_line L raw_line st =
     (let line = CLine_new raw_line None
      in case ParseLine L line False None st of (res, st1) \<Rightarrow>
           if res then st1\<lparr>lp_prevLine := []\<rparr>
           else if lp_prevLine st1 \<noteq> [] then
             (let trailing = cl_trailing (snd (CLine_GetEndToken line 0 False));
                  concatenatedLine = CLine_new (lp_prevLine st1 @ '' '' @ raw_line) trailing
              in case ParseLine L concatenatedLine True None st1 of (res2, st2) \<Rightarrow>
                   st2\<lparr>lp_prevLine := (if res2 then [] else raw_line)\<rparr>)
           else st1\<lparr>lp_prevLine := raw_line\<rparr>)"

lemma process_line_buffer [simp]:
  "lp_inbuf (process_line L raw st) = lp_inbuf st"
  "lp_parse_offset (process_line L raw st) = lp_parse_offset st"
  "lp_converted (process_line L raw st) = lp_converted st"
  "lp_listingEncoding (process_line L raw st) = lp_listingEncoding st"
  "lp_server (process_line L raw st) = lp_server st"
  "lp_limit (process_line L raw st) = lp_limit st"
  "lp_timezoneOffset (process_line L raw st) = lp_timezoneOffset st"
  by (simp_all add: process_line_def Let_def split_beta)

subsection \<open>The data\<close>

definition set_buffer :: "string \<Rightarrow> nat \<Rightarrow> listing_parser \<Rightarrow> listing_parser" where
  "set_buffer inbuf offset st = st\<lparr>lp_inbuf := inbuf, lp_parse_offset := offset\<rparr>"

function parse_lines :: "listing_lib \<Rightarrow> bool \<Rightarrow> listing_parser \<Rightarrow> bool \<times> listing_parser" where
  "parse_lines L partial st =
     (case GetLine L partial (lp_inbuf st) (lp_parse_offset st) of
        (raw_line, err, inbuf, offset) \<Rightarrow>
          if raw_line = [] then (\<not> err, set_buffer inbuf offset st)
          else parse_lines L partial (process_line L raw_line (set_buffer inbuf offset st)))"
  by pat_completeness auto
termination
  by (relation "measure (\<lambda>(L, partial, st). length (lp_inbuf st))")
     (auto simp: set_buffer_def dest: GetLine_shorter [OF sym])

declare parse_lines.simps [simp del]

definition ParseData :: "listing_lib \<Rightarrow> bool \<Rightarrow> listing_parser \<Rightarrow> bool \<times> listing_parser" where
  "ParseData L partial st =
     (case parse_lines L partial (ConvertEncoding st) of
        (ok, st1) \<Rightarrow> (ok, if lp_converted st1 > length (lp_inbuf st1)
                        then st1\<lparr>lp_converted := length (lp_inbuf st1)\<rparr> else st1))"

text \<open>At least 512 bytes are needed to guess the encoding.\<close>

definition ProcessAddedData :: "listing_lib \<Rightarrow> listing_parser \<Rightarrow> bool \<times> listing_parser" where
  "ProcessAddedData L st =
     (if length (lp_inbuf st) < lp_parse_offset st then (False, st)
      else if lp_listingEncoding st = enc_unknown \<and> length (lp_inbuf st) < 512 then (True, st)
      else ParseData L True st)"

definition plain_entry :: "wstring \<Rightarrow> CDirentry" where
  "plain_entry file = CDirentry_default\<lparr>de_name := file, de_flags := 0, de_size := -1\<rparr>"

text \<open>The entries are moved into the listing.  The clock is read as \<open>now\<close>.\<close>

definition Parse :: "listing_lib \<Rightarrow> int \<Rightarrow> CServerPath \<Rightarrow> listing_parser \<Rightarrow> CDirectoryListing \<times> listing_parser" where
  "Parse L now path st =
     (let listing = CDirectoryListing_default\<lparr>dl_path := path, dl_firstListTime := now\<rparr>
      in case ParseData L False st of (ok, st1) \<Rightarrow>
           if \<not> ok then (or_flags listing_failed listing, st1)
           else
             let entries = lp_entries st1 @ map plain_entry (lp_fileList st1)
             in (Assign listing entries, st1\<lparr>lp_entries := []\<rparr>))"

text \<open>A line of a listing whose fields are known already, as SFTP delivers them.\<close>

definition AddLine ::
  "listing_lib \<Rightarrow> wstring \<Rightarrow> wstring \<Rightarrow> datetime \<Rightarrow> nat option \<Rightarrow> (32 word) option \<Rightarrow> listing_parser \<Rightarrow> bool \<times> listing_parser" where
  "AddLine L line name time fsize flags st =
     (if line = [] \<and> name = [] then (True, st)
      else
        let ov = CDirentry_default\<lparr>de_name := name, de_time := time\<rparr>;
            ov1 = (case flags of None \<Rightarrow> ov | Some f \<Rightarrow> ov\<lparr>de_flags := f\<rparr>);
            ov2 = (if is_dir ov1 then ov1
                   else ov1\<lparr>de_size := (case fsize of
                          Some n \<Rightarrow> if int n \<le> int64_max then int n else -1 | None \<Rightarrow> -1)\<rparr>)
        in (True, snd (ParseLine L (CLine_new line None) True (Some ov2) st)))"

end
