(* ===== verification/Listing_Std.thy ===== *)
theory Listing_Std
  imports Listing_Parser
begin

text \<open>
  What the properties of the parser need to know of libfilezilla, and a concrete library with a
  proleptic Gregorian calendar on which all of it holds.  The instance serves for evaluation and for
  the applications of the theorems at concrete listings.
\<close>

subsection \<open>Laws\<close>

text \<open>\<open>fz::str_tolower_ascii\<close> changes the letters A to Z; \<open>fz::sprintf\<close> appends the
  number, with at least two digits for \<open>%02d\<close>.\<close>

definition show_02d :: "nat \<Rightarrow> wstring" where
  "show_02d n = (if n < 10 then CHR ''0'' # show_nat n else show_nat n)"

definition lower_law :: "listing_lib \<Rightarrow> bool" where
  "lower_law L \<longleftrightarrow> (\<forall>s. ll_lower L s = map ascii_lower s)"

definition sprintf_law :: "listing_lib \<Rightarrow> bool" where
  "sprintf_law L \<longleftrightarrow>
     (\<forall>s n. ll_sprintf_s02d L s (int n) = s @ show_02d n \<and> ll_sprintf_sd L s (int n) = s @ show_nat n)"

text \<open>\<open>datetime::set\<close> accepts every date of the calendar, without or with a time of day.\<close>

definition leap_year :: "int \<Rightarrow> bool" where
  "leap_year y \<longleftrightarrow> y mod 4 = 0 \<and> (y mod 100 \<noteq> 0 \<or> y mod 400 = 0)"

definition month_days :: "int \<Rightarrow> int \<Rightarrow> int" where
  "month_days y m = (if m = 2 then (if leap_year y then 29 else 28)
     else if m = 4 \<or> m = 6 \<or> m = 9 \<or> m = 11 then 30 else 31)"

definition valid_date :: "int \<Rightarrow> int \<Rightarrow> int \<Rightarrow> bool" where
  "valid_date y m d \<longleftrightarrow> 1900 \<le> y \<and> y \<le> 3000 \<and> 1 \<le> m \<and> m \<le> 12 \<and> 1 \<le> d \<and> d \<le> month_days y m"

definition set_law :: "listing_lib \<Rightarrow> bool" where
  "set_law L \<longleftrightarrow>
     (\<forall>t y m d. valid_date y m d \<longrightarrow> fst (ll_dt_set L t y m d (-1) (-1))) \<and>
     (\<forall>t y m d h mi. valid_date y m d \<longrightarrow> 0 \<le> h \<longrightarrow> h < 24 \<longrightarrow> 0 \<le> mi \<longrightarrow> mi < 60 \<longrightarrow>
        fst (ll_dt_set L t y m d h mi))"

text \<open>\<open>fz::to_integral<int>\<close> reads decimal digits.\<close>

definition to_int_law :: "listing_lib \<Rightarrow> bool" where
  "to_int_law L \<longleftrightarrow>
     (\<forall>s. s \<noteq> [] \<longrightarrow> list_all is_digit s \<longrightarrow> num_value 0 s < 2 ^ 31 \<longrightarrow> ll_to_int L s = int (num_value 0 s))"

subsection \<open>A library\<close>

definition days_from_civil :: "int \<Rightarrow> int \<Rightarrow> int \<Rightarrow> int" where
  "days_from_civil y m d =
     (let y1 = (if m \<le> 2 then y - 1 else y); mp = (m + 9) mod 12
      in 365 * y1 + y1 div 4 - y1 div 100 + y1 div 400 + (153 * mp + 2) div 5 + d - 719469)"

definition civil_from_days :: "int \<Rightarrow> int \<times> int \<times> int" where
  "civil_from_days z0 =
     (let z = z0 + 719468; era = z div 146097; doe = z mod 146097;
          yoe = (doe - doe div 1460 + doe div 36524 - doe div 146096) div 365;
          doy = doe - (365 * yoe + yoe div 4 - yoe div 100); mp = (5 * doy + 2) div 153;
          d = doy - (153 * mp + 2) div 5 + 1; m = (if mp < 10 then mp + 3 else mp - 9);
          y = yoe + era * 400 + (if m \<le> 2 then 1 else 0)
      in (y, m, d))"

definition day_ms :: int where
  "day_ms = 86400000"

definition std_set :: "datetime \<Rightarrow> int \<Rightarrow> int \<Rightarrow> int \<Rightarrow> int \<Rightarrow> int \<Rightarrow> bool \<times> datetime" where
  "std_set t y m d h mi =
     (let t0 = days_from_civil y m d * day_ms
      in if \<not> valid_date y m d then (False, None)
         else if h = -1 \<and> mi = -1 then (True, Some (t0, acc_days))
         else if 0 \<le> h \<and> h < 24 \<and> 0 \<le> mi \<and> mi < 60 \<or> h = 24 \<and> mi = 0
         then (True, Some (t0 + (h * 60 + mi) * 60000, acc_minutes))
         else (False, None))"

definition std_imbue :: "datetime \<Rightarrow> int \<Rightarrow> int \<Rightarrow> int \<Rightarrow> bool \<times> datetime" where
  "std_imbue t h mi s =
     (case t of
        Some (ms, acc_days) \<Rightarrow>
          if (0 \<le> h \<and> h < 24 \<and> 0 \<le> mi \<and> mi < 60 \<or> h = 24 \<and> mi = 0) \<and> -1 \<le> s \<and> s < 60
          then (True, Some (ms + (h * 60 + mi) * 60000 + (if s = -1 then 0 else s * 1000),
                            if s = -1 then acc_minutes else acc_seconds))
          else (False, t)
      | _ \<Rightarrow> (False, t))"

definition std_digits :: "wstring \<Rightarrow> nat \<Rightarrow> nat \<Rightarrow> int" where
  "std_digits s i n = int (num_value 0 (take n (drop i s)))"

definition std_parse :: "wstring \<Rightarrow> datetime" where
  "std_parse s =
     (if length s = 14 \<and> list_all is_digit s
      then snd (std_imbue (snd (std_set None (std_digits s 0 4) (std_digits s 4 2) (std_digits s 6 2) (-1) (-1)))
                          (std_digits s 8 2) (std_digits s 10 2) (std_digits s 12 2))
      else None)"

definition listing_lib_std :: listing_lib where
  "listing_lib_std = \<lparr>
     ll_dt_set = std_set, ll_dt_imbue = std_imbue,
     ll_dt_date = (\<lambda>t. case t of None \<Rightarrow> (0, 0, 0)
                         | Some (ms, _) \<Rightarrow> (case civil_from_days (ms div day_ms) of (y, m, d) \<Rightarrow> (y - 1900, m - 1, d))),
     ll_dt_now = snd (std_set None 2024 7 1 (-1) (-1)), ll_dt_parse = std_parse,
     ll_dt_seconds = (\<lambda>n. Some (n * 1000, acc_seconds)),
     ll_dt_add = (\<lambda>t d. map_option (\<lambda>(ms, a). (ms + d, a)) t),
     ll_from_minutes = (\<lambda>m. m * 60000),
     ll_to_int = (\<lambda>s. if s \<noteq> [] \<and> list_all is_digit s \<and> num_value 0 s < 2 ^ 31 then int (num_value 0 s) else -1),
     ll_lower = map ascii_lower,
     ll_sprintf_s02d = (\<lambda>s n. s @ show_02d (nat n)), ll_sprintf_sd = (\<lambda>s n. s @ show_nat (nat n)),
     ll_local = Some (\<lambda>s. s), ll_to_wstring_from_utf8 = (\<lambda>s. s), ll_to_wstring = (\<lambda>s. s), ll_bom = None \<rparr>"

lemma listing_lib_std_fields [simp]:
  "ll_dt_set listing_lib_std = std_set"
  "ll_dt_imbue listing_lib_std = std_imbue"
  "ll_dt_parse listing_lib_std = std_parse"
  "ll_dt_seconds listing_lib_std n = Some (n * 1000, acc_seconds)"
  "ll_dt_add listing_lib_std t d = map_option (\<lambda>(ms, a). (ms + d, a)) t"
  "ll_lower listing_lib_std s = map ascii_lower s"
  "ll_local listing_lib_std = Some (\<lambda>s. s)"
  "ll_bom listing_lib_std = None"
  by (simp_all add: listing_lib_std_def)

lemma listing_lib_std_laws [simp]:
  "lower_law listing_lib_std" "sprintf_law listing_lib_std" "set_law listing_lib_std" "to_int_law listing_lib_std"
  by (simp_all add: lower_law_def sprintf_law_def set_law_def to_int_law_def std_set_def Let_def)
     (simp_all add: listing_lib_std_def)

end
