(* ===== verification/Listing_Number.thy ===== *)
theory Listing_Number
  imports Listing_Token
begin

text \<open>
  The numbers of \<open>CToken::GetNumber\<close>: the loops with their overflow checks compute the
  value of the leading digits when it fits into 63 bits, and \<open>-1\<close> otherwise.
\<close>

fun hex_value :: "nat \<Rightarrow> wstring \<Rightarrow> nat" where
  "hex_value acc [] = acc"
| "hex_value acc (c # cs) = hex_value (acc * 16 + nat (the (hex_digit c))) cs"

fun base_digit :: "number_base \<Rightarrow> char \<Rightarrow> bool" where
  "base_digit decimal = is_digit"
| "base_digit hex = (\<lambda>c. hex_digit c \<noteq> None)"

fun base_value :: "number_base \<Rightarrow> wstring \<Rightarrow> nat" where
  "base_value decimal s = num_value 0 s"
| "base_value hex s = hex_value 0 s"

text \<open>What \<open>GetNumber\<close> promises: the value of the leading digits.\<close>

definition leading_number :: "(char \<Rightarrow> bool) \<Rightarrow> (wstring \<Rightarrow> nat) \<Rightarrow> bool \<Rightarrow> wstring \<Rightarrow> int" where
  "leading_number digit val trailingDataIsError s =
     (let p = takeWhile digit s; v = int (val p)
      in if p = [] \<or> trailingDataIsError \<and> p \<noteq> s \<or> v > int64_max then -1 else v)"

subsection \<open>Digits\<close>

lemma int_of_char: "(of_char c :: int) = int (of_char c)"
  by (simp only: of_nat_of_char)

lemma is_digit_value: "is_digit c \<Longrightarrow> int (digit_val c) = of_char c - 48 \<and> digit_val c \<le> 9"
  unfolding is_digit_code digit_val_def int_of_char by auto

lemma hex_digit_value: "hex_digit c = Some d \<Longrightarrow> 0 \<le> d \<and> d \<le> 15"
  unfolding hex_digit_def less_eq_char_def int_of_char by (auto split: if_splits)

lemma hex_value_mono: "acc \<le> hex_value acc cs"
proof (induction cs arbitrary: acc)
  case (Cons c cs)
  have "acc \<le> acc * 16 + nat (the (hex_digit c))" by simp
  also have "\<dots> \<le> hex_value (acc * 16 + nat (the (hex_digit c))) cs" by (rule Cons.IH)
  finally show ?case by simp
qed simp

subsection \<open>The overflow checks\<close>

text \<open>The two tests before a digit is added are exactly the test for an overflow.\<close>

lemma overflow_check:
  fixes v d :: int
  assumes "0 \<le> d" "d < b" "0 < b"
  shows "v > int64_max div b \<or> int64_max - d < v * b \<longleftrightarrow> v * b + d > int64_max"
proof
  assume "v > int64_max div b \<or> int64_max - d < v * b"
  then show "v * b + d > int64_max"
  proof
    assume "v > int64_max div b"
    then have "int64_max div b + 1 \<le> v" by simp
    then have "(int64_max div b + 1) * b \<le> v * b" using assms by (simp add: mult_right_mono)
    moreover have "int64_max div b * b + int64_max mod b = int64_max" by simp
    moreover have "int64_max mod b < b" using assms(3) by simp
    ultimately show ?thesis using assms(1) by (simp only: distrib_right mult_1)
  qed linarith
qed linarith

lemma decimal_loop_value:
  assumes "0 \<le> v" "v \<le> int64_max"
  shows "decimal_loop first tr v s =
    (let p = takeWhile is_digit s; r = int (num_value (nat v) p)
     in if p = [] \<and> s \<noteq> [] \<and> first \<or> tr \<and> p \<noteq> s \<or> r > int64_max then -1 else r)"
  using assms
proof (induction s arbitrary: first v)
  case (Cons c cs)
  show ?case
  proof (cases "is_digit c")
    case True
    define d :: int where "d = of_char c - 48"
    have d: "0 \<le> d" "d < 10" "int (digit_val c) = d"
      using is_digit_value [OF True] by (auto simp: d_def)
    have nat: "nat v * 10 + digit_val c = nat (v * 10 + d)"
      using Cons.prems(1) d(1) by (simp add: nat_add_distrib nat_mult_distrib flip: d(3))
    have chk: "v > int64_max div 10 \<or> int64_max - d < v * 10 \<longleftrightarrow> v * 10 + d > int64_max"
      using overflow_check [of d 10 v] d by simp
    show ?thesis
    proof (cases "v * 10 + d > int64_max")
      case over: True
      have "nat (v * 10 + d) \<le> num_value (nat v) (takeWhile is_digit (c # cs))"
        using num_value_mono [of "nat (v * 10 + d)"] True by (simp add: nat)
      then have "int (num_value (nat v) (takeWhile is_digit (c # cs))) > int64_max"
        using over by linarith
      then show ?thesis using True chk over by (auto simp: Let_def simp flip: d_def)
    next
      case False
      then have "decimal_loop first tr v (c # cs) = decimal_loop False tr (v * 10 + d) cs"
        using True chk by (simp add: Let_def flip: d_def)
      then show ?thesis
        using Cons.IH [of "v * 10 + d" False] Cons.prems d False True by (auto simp: Let_def nat)
    qed
  qed (use Cons.prems in \<open>simp add: Let_def\<close>)
qed (simp add: Let_def)

lemma hex_loop_value:
  assumes "0 \<le> v" "v \<le> int64_max"
  shows "hex_loop first tr v s =
    (let p = takeWhile (\<lambda>c. hex_digit c \<noteq> None) s; r = int (hex_value (nat v) p)
     in if p = [] \<and> s \<noteq> [] \<and> first \<or> tr \<and> p \<noteq> s \<or> r > int64_max then -1 else r)"
  using assms
proof (induction s arbitrary: first v)
  case (Cons c cs)
  show ?case
  proof (cases "hex_digit c")
    case (Some d)
    have d: "0 \<le> d" "d < 16" using hex_digit_value [OF Some] by auto
    have nat: "nat v * 16 + nat d = nat (v * 16 + d)"
      using Cons.prems d by (simp add: nat_add_distrib nat_mult_distrib)
    have chk: "v > int64_max div 16 \<or> int64_max - d < v * 16 \<longleftrightarrow> v * 16 + d > int64_max"
      using overflow_check [of d 16 v] d by simp
    show ?thesis
    proof (cases "v * 16 + d > int64_max")
      case over: True
      have "nat (v * 16 + d) \<le> hex_value (nat v) (takeWhile (\<lambda>c. hex_digit c \<noteq> None) (c # cs))"
        using hex_value_mono [of "nat (v * 16 + d)"] Some by (simp add: nat)
      then have "int (hex_value (nat v) (takeWhile (\<lambda>c. hex_digit c \<noteq> None) (c # cs))) > int64_max"
        using over by linarith
      then show ?thesis using Some chk over by (auto simp: Let_def)
    next
      case False
      then have "hex_loop first tr v (c # cs) = hex_loop False tr (v * 16 + d) cs"
        using Some chk by (simp add: Let_def)
      then show ?thesis
        using Cons.IH [of "v * 16 + d" False] Cons.prems d False Some by (auto simp: Let_def nat)
    qed
  qed (use Cons.prems in \<open>simp add: Let_def\<close>)
qed (simp add: Let_def)

lemma get_number_value:
  "GetNumber_str base tr s = leading_number (base_digit base) (base_value base) tr s"
proof (cases base)
  case decimal
  then show ?thesis
    using decimal_loop_value [of 0 True tr s]
    by (auto simp: GetNumber_str_def leading_number_def Let_def int64_max_def)
next
  case hex
  then show ?thesis
    using hex_loop_value [of 0 True tr s]
    by (auto simp: GetNumber_str_def leading_number_def Let_def int64_max_def)
qed

text \<open>C40: a number is the value of the leading digits, decimal or hexadecimal; it is \<open>-1\<close> when
  there is no digit, when something follows and that was declared an error, or when the value does not
  fit into 63 bits.  No overflow goes unnoticed.\<close>

theorem get_number_exact:
  "GetNumber_str base tr s = leading_number (base_digit base) (base_value base) tr s"
  by (rule get_number_value)

subsection \<open>Consequences\<close>

lemma GetNumber_str_bounds: "-1 \<le> GetNumber_str base tr s \<and> GetNumber_str base tr s \<le> int64_max"
  unfolding get_number_value by (auto simp: leading_number_def Let_def int64_max_def)

lemma GetNumber_at_bounds: "-1 \<le> GetNumber_at i n t \<and> GetNumber_at i n t \<le> int64_max"
  using GetNumber_str_bounds by (simp add: GetNumber_at_def int64_max_def)

lemma GetNumber_bounds:
  "IsNumeric decimal t \<or> IsLeftNumeric t \<or> IsRightNumeric t \<or> base = hex \<Longrightarrow>
     -1 \<le> GetNumber base t \<and> GetNumber base t \<le> int64_max"
  using GetNumber_str_bounds by (cases base) (auto simp: GetNumber_def)

lemma GetNumber_str_digits:
  assumes "\<forall>c \<in> set s. is_digit c" "s \<noteq> []" "int (num_value 0 s) \<le> int64_max"
  shows "GetNumber_str decimal tr s = int (num_value 0 s)"
proof -
  have s: "takeWhile is_digit s = s" using assms(1) takeWhile_eq_all_conv by blast
  show ?thesis
    unfolding get_number_value leading_number_def base_digit.simps base_value.simps Let_def s
    using assms(2,3) by simp
qed

lemma GetNumber_show [simp]: "int n \<le> int64_max \<Longrightarrow> GetNumber decimal (show_nat n) = int n"
  using GetNumber_str_digits [of "show_nat n" False] show_nat_digits [of n]
  by (simp add: GetNumber_def IsNumeric.simps list_all_iff num_value_show)

lemma IsNumeric_show [simp]: "IsNumeric decimal (show_nat n)"
  using show_nat_digits [of n] by (simp add: IsNumeric.simps list_all_iff)

end
