(* ===== verification/Listing_Types.thy ===== *)
theory Listing_Types
  imports Listing_Std Listing_Number
begin

text \<open>
  The entries that the parsers make, whatever the server sends: sizes fit into 63 bits and are
  \<open>-1\<close> when unknown, a link is flagged as a directory too, and no other flag occurs.  There is one
  exception: \<open>ParseComplexFileSize\<close> multiplies the error value of a number of blocks that is too
  large with the block size of VMS and makes a size of \<open>-512\<close>.  The lemmas of this theory carry a
  flag \<open>v\<close> that says whether this may have happened; for a line it is \<open>vms_oversized\<close>.
\<close>

definition size_ok :: "bool \<Rightarrow> int \<Rightarrow> bool" where
  "size_ok v n \<longleftrightarrow> -1 \<le> n \<and> n \<le> int64_max \<or> v \<and> n = -512"

definition flags_ok :: "32 word \<Rightarrow> bool" where
  "flags_ok f \<longleftrightarrow> f = 0 \<or> f = flag_dir \<or> f = flag_dir OR flag_link"

definition entry_ok :: "bool \<Rightarrow> CDirentry \<Rightarrow> bool" where
  "entry_ok v e \<longleftrightarrow> size_ok v (de_size e) \<and> flags_ok (de_flags e)"

text \<open>A number that does not fit into 63 bits, and a line of the VMS format with such a number as
  a field, or as the part of a field before a slash.\<close>

definition oversized :: "wstring \<Rightarrow> bool" where
  "oversized t \<longleftrightarrow> IsNumeric decimal t \<and> int64_max < int (num_value 0 t)"

definition block_count :: "CLine \<Rightarrow> nat \<Rightarrow> wstring" where
  "block_count line i = before_slash (GetToken line i) (Find CHR ''/'' 0 (GetToken line i))"

definition vms_oversized :: "CLine \<Rightarrow> bool" where
  "vms_oversized line \<longleftrightarrow>
     Find CHR '';'' 0 (GetToken line 0) \<noteq> None \<and> (\<exists>i. oversized (block_count line i))"

lemma entry_ok_mono: "entry_ok v e \<Longrightarrow> entry_ok True e"
  by (auto simp: entry_ok_def size_ok_def)

named_theorems entry_simps \<open>what the parts of a parser do to sizes and flags\<close>

lemma flags_ok_0 [simp]: "flags_ok 0" and flags_ok_dir [simp]: "flags_ok flag_dir"
  and flags_ok_link [simp]: "flags_ok (flag_dir OR flag_link)"
  by (simp_all add: flags_ok_def)

lemma flags_ok_or [simp]: "flags_ok f \<Longrightarrow> flags_ok (f OR flag_dir)"
  and flags_ok_or_link [simp]: "flags_ok f \<Longrightarrow> flags_ok (f OR (flag_dir OR flag_link))"
  by (auto simp: flags_ok_def flag_dir_def flag_link_def)

lemma size_ok_consts [simp]: "size_ok v (-1)" "size_ok v 0" "size_ok v 100"
  by (simp_all add: size_ok_def int64_max_def)

lemma size_ok_range: "-1 \<le> n \<Longrightarrow> n \<le> int64_max \<Longrightarrow> size_ok v n"
  by (simp add: size_ok_def)

lemma size_ok_number [simp]:
  "IsNumeric decimal t \<Longrightarrow> size_ok v (GetNumber decimal t)"
  "IsRightNumeric t \<Longrightarrow> size_ok v (GetNumber decimal t)"
  "size_ok v (GetNumber hex t)" "size_ok v (GetNumber_at i n t)" "size_ok v (GetNumber_str b tr t)"
  using GetNumber_bounds [of t decimal] GetNumber_bounds [of t hex] GetNumber_at_bounds [of i n t]
    GetNumber_str_bounds [of b tr t]
  by (auto simp: size_ok_def)

subsection \<open>Sizes with units\<close>

lemma size_loop_range:
  "0 \<le> n \<Longrightarrow> n \<le> int64_max \<Longrightarrow> size_loop i len cs n dot = (ok, m, d) \<Longrightarrow> 0 \<le> m \<and> m \<le> int64_max"
proof (induction i len cs n dot rule: size_loop.induct)
  case (2 i len c cs n dot)
  show ?case
  proof (cases "is_digit c")
    case True
    define digit :: int where "digit = of_char c - 48"
    have digit: "0 \<le> digit" using is_digit_value [OF True] by (auto simp: digit_def)
    show ?thesis
    proof (cases "n > int64_max div 10")
      case False
      then have "n * 10 \<le> int64_max" by (simp add: int64_max_def)
      then show ?thesis
        using 2 True False digit by (auto simp: Let_def digit_def [symmetric] split: if_splits)
    qed (use 2 True in auto)
  qed (use 2 in \<open>auto split: if_splits\<close>)
qed auto

lemma div_dot_range: "0 \<le> n \<Longrightarrow> n \<le> int64_max \<Longrightarrow> 0 \<le> div_dot k n \<and> div_dot k n \<le> int64_max"
proof (induction k n rule: div_dot.induct)
  case (2 k n)
  have "0 \<le> n div 10" "n div 10 \<le> n" using 2(2) by simp_all
  then show ?case using 2 by simp
qed simp

lemma size_ok_div_dot: "0 \<le> n \<Longrightarrow> n \<le> int64_max \<Longrightarrow> size_ok v (div_dot k n)"
  using div_dot_range [of n k] by (simp add: size_ok_def)

lemma mult_checked:
  fixes n m :: int
  assumes "0 \<le> n" "0 < m" "\<not> n > int64_max div m"
  shows "0 \<le> n * m \<and> n * m \<le> int64_max"
proof -
  have "n * m \<le> (int64_max div m) * m" using assms by (simp add: mult_right_mono)
  also have "\<dots> \<le> int64_max" using assms(2) pos_mod_sign [of m int64_max] div_mult_mod_eq [of int64_max m] by linarith
  finally show ?thesis using assms by simp
qed

lemma size_mult_pos: "size_mult c b = Some m \<Longrightarrow> b \<le> int64_max \<Longrightarrow> 0 \<le> m"
  by (auto simp: size_mult_def split: if_splits)

lemma GetNumber_overflow:
  assumes "IsNumeric decimal t" "GetNumber decimal t = -1"
  shows "oversized t"
proof (rule ccontr)
  assume "\<not> oversized t"
  then have "GetNumber decimal t = int (num_value 0 t)"
    using GetNumber_str_digits [of t False] assms(1) by (simp add: oversized_def GetNumber_def IsNumeric.simps list_all_iff)
  then show False using assms(2) by simp
qed

lemma ParseComplexFileSize_ok:
  assumes "size_ok v n" "b = -1 \<or> b = 512 \<and> (oversized t \<longrightarrow> v)"
  shows "size_ok v (snd (ParseComplexFileSize t n b))"
proof (cases "IsNumeric decimal t")
  case True
  have r: "-1 \<le> GetNumber decimal t" "GetNumber decimal t \<le> int64_max"
    using GetNumber_bounds [of t decimal] True by simp_all
  show ?thesis
  proof (cases "GetNumber decimal t = -1")
    case False
    then have "\<not> GetNumber decimal t > int64_max div 512 \<Longrightarrow> size_ok v (GetNumber decimal t * 512)"
      using mult_checked [of "GetNumber decimal t" 512] r by (auto simp: size_ok_def)
    then show ?thesis
      using True assms r size_ok_range by (auto simp: ParseComplexFileSize_def Let_def)
  qed (use True assms GetNumber_overflow [OF True] in
      \<open>auto simp: ParseComplexFileSize_def Let_def size_ok_def int64_max_def\<close>)
next
  case False
  show ?thesis
  proof (cases "t = [] \<or> size_unit t = None")
    case False
    obtain len lst where u: "size_unit t = Some (len, lst)" using False by auto
    obtain ok m dot where l: "size_loop 0 len (take len t) 0 0 = (ok, m, dot)" by (metis prod_cases3)
    have m: "0 \<le> m" "m \<le> int64_max" using size_loop_range [OF _ _ l] by (simp_all add: int64_max_def)
    have mult: "0 \<le> m * k \<and> m * k \<le> int64_max" if "size_mult lst b = Some k" "k \<noteq> 0" "\<not> m > int64_max div k" for k
      using mult_checked [of m k] size_mult_pos [OF that(1)] that assms(2) m by (auto simp: int64_max_def)
    show ?thesis
      using \<open>\<not> IsNumeric decimal t\<close> False u l m mult
      by (auto simp: ParseComplexFileSize_def Let_def size_ok_range size_ok_div_dot
          split: option.splits)
  qed (use False assms(1) in \<open>auto simp: ParseComplexFileSize_def\<close>)
qed

text \<open>The error value is multiplied: an overlong size is negative.\<close>

lemma vms_size_negative: "ParseComplexFileSize ''99999999999999999999'' 0 512 = (True, -512)"
proof -
  have digits: "\<forall>c \<in> set ''99999999999999999999''. is_digit c" by (simp add: is_digit_def)
  then have "takeWhile is_digit ''99999999999999999999'' = ''99999999999999999999''"
    using takeWhile_eq_all_conv by blast
  moreover have "num_value 0 ''99999999999999999999'' = 99999999999999999999"
    by (simp add: digit_val_def)
  ultimately have "GetNumber_str decimal False ''99999999999999999999'' = -1"
    by (simp only: get_number_value leading_number_def base_digit.simps base_value.simps Let_def int64_max_def) simp
  then show ?thesis
    using digits by (simp add: ParseComplexFileSize_def GetNumber_def IsNumeric.simps list_all_iff int64_max_def)
qed

text \<open>A unit without a number is a size, unless it is the letter \<open>B\<close> that is left out.\<close>

lemma size_without_digits:
  "ParseComplexFileSize ''kB'' 0 (-1) = (True, 0)" "ParseComplexFileSize ''k'' 0 (-1) = (False, 0)"
  by code_simp+


subsection \<open>The parsers\<close>

lemma ParseShortDate_fields [entry_simps]:
  "de_size (snd (ParseShortDate L t b e)) = de_size e" "de_flags (snd (ParseShortDate L t b e)) = de_flags e"
  by (auto simp: ParseShortDate_def split: option.splits prod.splits)

lemma ParseTime_fields [entry_simps]:
  "de_size (snd (ParseTime L t e)) = de_size e" "de_flags (snd (ParseTime L t e)) = de_flags e"
  by (auto simp: ParseTime_def Let_def split: option.splits prod.splits if_splits)

lemma unix_date_first_fields [entry_simps]:
  "de_size (snd (unix_date_first L line i e)) = de_size e" "de_flags (snd (unix_date_first L line i e)) = de_flags e"
  by (simp_all add: unix_date_first_def Let_def split_beta entry_simps split: option.split)

lemma ParseUnixDateTime_fields [entry_simps]:
  "de_size (snd (ParseUnixDateTime L line i e)) = de_size e"
  "de_flags (snd (ParseUnixDateTime L line i e)) = de_flags e"
  by (auto simp: ParseUnixDateTime_def Let_def split_beta entry_simps split: option.splits date_step.splits)

lemma unix_name_fields [entry_simps]:
  "de_size (unix_name t e) = de_size e" "de_flags (unix_name t e) = de_flags e"
  by (auto simp: unix_name_def Let_def split: option.splits)

lemma unix_attempt_ok:
  "entry_ok v e \<Longrightarrow> entry_ok v (snd (unix_attempt L tz line p b i n e))"
  using ParseComplexFileSize_ok [of v "de_size e" "-1"]
  by (auto simp: unix_attempt_def Let_def entry_ok_def split_beta entry_simps
      split: option.splits)

lemma unix_loop_ok: "entry_ok v e \<Longrightarrow> entry_ok v (snd (unix_loop L tz line p b i n e))"
proof (induction n arbitrary: e)
  case 0
  obtain r e1 where a: "unix_attempt L tz line p b i 0 e = (r, e1)" by (metis prod.exhaust)
  have "entry_ok v e1" using unix_attempt_ok [OF 0, of L tz line p b i 0] by (simp add: a)
  then show ?case by (subst unix_loop.simps, cases r) (simp_all add: a)
next
  case (Suc n)
  obtain r e1 where a: "unix_attempt L tz line p b i (Suc n) e = (r, e1)" by (metis prod.exhaust)
  have "entry_ok v e1" using unix_attempt_ok [OF Suc.prems, of L tz line p b i "Suc n"] by (simp add: a)
  then show ?case using Suc.IH [of e1] by (subst unix_loop.simps, cases r) (simp_all add: a)
qed

lemma unix_flags_ok:
  "flags_ok ((if c = CHR ''d'' \<or> c = CHR ''l'' then flag_dir else 0) OR (if c = CHR ''l'' then flag_link else 0))"
  by (auto simp: flags_ok_def)

lemma ParseAsUnix_ok: "entry_ok v e \<Longrightarrow> entry_ok v (snd (ParseAsUnix L tz line b e))"
  using unix_flags_ok [of "hd (GetToken line 0)"]
  by (auto simp: ParseAsUnix_def Let_def entry_ok_def intro!: unix_loop_ok [unfolded entry_ok_def]
     )

lemma dos_size_range: "0 \<le> n \<Longrightarrow> n \<le> int64_max \<Longrightarrow> dos_size cs n = Some m \<Longrightarrow> 0 \<le> m \<and> m \<le> int64_max"
proof (induction cs n rule: dos_size.induct)
  case (2 c cs n)
  define digit :: int where "digit = of_char c - 48"
  have digit: "is_digit c \<Longrightarrow> 0 \<le> digit" using is_digit_value [of c] by (auto simp: digit_def)
  have "\<not> n > int64_max div 10 \<Longrightarrow> n * 10 \<le> int64_max" by (simp add: int64_max_def)
  then show ?case
    using 2 digit by (auto simp: Let_def digit_def [symmetric] split: if_splits)
qed simp

lemma dos_size_ok: "dos_size cs 0 = Some m \<Longrightarrow> size_ok v m"
  using dos_size_range [of 0 cs m] by (simp add: size_ok_def int64_max_def)

lemma ParseAsDos_ok: "entry_ok v e \<Longrightarrow> entry_ok v (snd (ParseAsDos L tz line e))"
  by (auto simp: ParseAsDos_def Let_def entry_ok_def split_beta entry_simps dos_size_ok
      split: option.splits if_splits)

lemma eplf_facts_ok: "entry_ok v e \<Longrightarrow> entry_ok v (fst (snd (eplf_facts L t pos i p e)))"
proof (induction L t pos i p e rule: eplf_facts.induct)
  case (1 L t pos i p e)
  show ?case
    by (subst eplf_facts.simps)
       (use 1 in \<open>auto simp: Let_def entry_ok_def\<close>)
qed

end
