(* ===== verification/Listing_Reach.thy ===== *)
theory Listing_Reach
  imports Listing_Types
begin

text \<open>
  Every entry and every state that the parser can reach is well-formed, and so is the listing that it
  returns.
\<close>

lemma ParseAsEplf_ok: "entry_ok v e \<Longrightarrow> entry_ok v (snd (ParseAsEplf L line e))"
proof -
  assume "entry_ok v e"
  have "entry_ok v (fst (snd (eplf_facts L t pos 1 [] (e\<lparr>de_name := n, de_flags := 0, de_size := -1\<rparr>))))" for t pos n
    by (rule eplf_facts_ok) (simp add: entry_ok_def)
  then show ?thesis
    using \<open>entry_ok v e\<close> by (auto simp: ParseAsEplf_def Let_def split_beta entry_ok_def split: option.splits)
qed

lemma block_count_whole: "Find CHR ''/'' 0 (GetToken line i) = None \<Longrightarrow> block_count line i = GetToken line i"
  by (simp add: block_count_def before_slash_def)

lemma vms_size_ok:
  assumes "entry_ok v e" "oversized (block_count line i) \<Longrightarrow> v"
  shows "entry_ok v (snd (vms_size line i (GetToken line i) e))"
proof -
  have "size_ok v (snd (ParseComplexFileSize (block_count line i) (de_size e) 512))"
    using assms by (auto simp: entry_ok_def intro: ParseComplexFileSize_ok)
  then show ?thesis
    using assms(1) block_count_whole [of line i]
    by (auto simp: vms_size_def Let_def split_beta entry_ok_def simp flip: block_count_def)
qed

lemma vms_late_size_ok:
  assumes "entry_ok v e" "oversized (block_count line (i + 1)) \<Longrightarrow> v"
  shows "entry_ok v (snd (vms_late_size line i e))"
  using assms ParseComplexFileSize_ok [of v "de_size e" 512 "block_count line (i + 1)"]
  by (simp add: vms_late_size_def Let_def split_beta entry_ok_def flip: block_count_def)

lemma vms_owner_token: "vms_owner line = Some (owner, i, t) \<Longrightarrow> t = GetToken line i"
  by (auto simp: vms_owner_def Let_def split: if_splits)

lemma entry_ok_steps [entry_simps]:
  "entry_ok v (snd (ParseShortDate L t b e)) = entry_ok v e"
  "entry_ok v (snd (ParseTime L t e)) = entry_ok v e"
  "entry_ok v (e\<lparr>de_time := d\<rparr>) = entry_ok v e" "entry_ok v (e\<lparr>de_name := n\<rparr>) = entry_ok v e"
  "entry_ok v (e\<lparr>de_permissions := n\<rparr>) = entry_ok v e" "entry_ok v (e\<lparr>de_ownerGroup := n\<rparr>) = entry_ok v e"
  "entry_ok v (e\<lparr>de_target := g\<rparr>) = entry_ok v e"
  "entry_ok v (e\<lparr>de_flags := f\<rparr>) = (size_ok v (de_size e) \<and> flags_ok f)"
  "entry_ok v (e\<lparr>de_size := k\<rparr>) = (size_ok v k \<and> flags_ok (de_flags e))"
  by (simp_all add: entry_ok_def entry_simps)

lemma vms_fields_ok:
  assumes "entry_ok v e" "\<And>i. oversized (block_count line i) \<Longrightarrow> v"
  shows "entry_ok v (snd (vms_fields L tz line owner gotSize index token e))"
proof -
  have "entry_ok v (snd (ParseTime L t (snd (ParseShortDate L t' b e))))" for t t' b
    using assms(1) by (simp add: entry_simps)
  then show ?thesis
    using assms(1) vms_late_size_ok [OF _ assms(2)]
    by (auto simp: vms_fields_def Let_def split_beta entry_simps split: option.split)
qed

lemma ParseAsVms_ok:
  assumes "entry_ok v e" "vms_oversized line \<Longrightarrow> v"
  shows "entry_ok v (snd (ParseAsVms L tz line e))"
proof -
  note e = assms(1)
  have tail: "entry_ok v (snd (case vms_owner line of
        None \<Rightarrow> (False, e1)
      | Some (owner, index1, token1) \<Rightarrow>
          (case vms_size line index1 token1 e1 of
             (None, e2) \<Rightarrow> (False, e2)
           | (Some (gotSize, index2, token2), e2) \<Rightarrow> vms_fields L tz line owner gotSize index2 token2 e2)))"
    if "entry_ok v e1" and v: "\<And>i. oversized (block_count line i) \<Longrightarrow> v" for e1
  proof -
    have "entry_ok v e2" if "vms_owner line = Some (owner, i, t)" "vms_size line i t e1 = (r, e2)" for owner i t r e2
      using vms_size_ok [OF \<open>entry_ok v e1\<close> v, of line i] that vms_owner_token [OF that(1)] by simp
    then show ?thesis
      using \<open>entry_ok v e1\<close> vms_fields_ok [OF _ v] by (auto split: option.split prod.split)
  qed
  have e1: "entry_ok v (e\<lparr>de_flags := (if d then flag_dir else 0), de_name := n\<rparr>)" for d n
    using e by (simp add: entry_ok_def)
  show ?thesis
  proof (cases "GetToken line 0 = [] \<or> Find CHR '';'' 0 (GetToken line 0) = None")
    case False
    then obtain pos where pos: "Find CHR '';'' 0 (GetToken line 0) = Some pos" by auto
    obtain n d where n: "vms_name (GetToken line 0) pos = (n, d)" by (metis prod.exhaust)
    have "GetToken line 0 \<noteq> []" using False by simp
    then show ?thesis
      unfolding ParseAsVms_def Let_def pos n option.case prod.case if_not_P [OF \<open>GetToken line 0 \<noteq> []\<close>]
      by (intro tail e1) (use assms(2) pos in \<open>auto simp: vms_oversized_def\<close>)
  qed (use e in \<open>auto simp: ParseAsVms_def Let_def\<close>)
qed

lemma ParseAsIbm_ok: "entry_ok v e \<Longrightarrow> entry_ok v (snd (ParseAsIbm L tz line e))"
  by (simp add: ParseAsIbm_def Let_def split_beta entry_ok_def entry_simps)

lemma os2_skip_ok: "entry_ok v e \<Longrightarrow> entry_ok v (snd (os2_skip line i k e))"
proof (induction line i k e rule: os2_skip.induct)
  case (1 line i k e)
  show ?case
    by (subst os2_skip.simps) (use 1 in \<open>auto simp: Let_def entry_ok_def\<close>)
qed

lemma other_ok:
  "entry_ok v e \<Longrightarrow> entry_ok v (snd (other_numerical L line e))"
  "entry_ok v e \<Longrightarrow> entry_ok v (snd (other_vshell L line month e))"
  "entry_ok v e \<Longrightarrow> entry_ok v (snd (other_os2 L line e))"
proof -
  show "entry_ok v e \<Longrightarrow> entry_ok v (snd (other_numerical L line e))"
    by (simp add: other_numerical_def Let_def entry_ok_def)
  show "entry_ok v e \<Longrightarrow> entry_ok v (snd (other_vshell L line month e))"
    by (simp add: other_vshell_def Let_def split_beta entry_ok_def entry_simps)
  assume "entry_ok v e"
  then have "entry_ok v (snd (os2_skip line 1 0 e))" by (rule os2_skip_ok)
  moreover have "entry_ok v e' \<Longrightarrow> entry_ok v (os2_name L n k e')" for e' n k
    by (simp add: os2_name_def entry_ok_def)
  ultimately show "entry_ok v (snd (other_os2 L line e))"
    by (simp add: other_os2_def Let_def split_beta entry_simps split: option.split)
qed

lemma ParseOther_ok: "entry_ok v e \<Longrightarrow> entry_ok v (snd (ParseOther L tz m line e))"
  using other_ok
  by (auto simp: ParseOther_def Let_def split_beta entry_simps entry_ok_def
      split: option.splits)

lemma ParseAsWfFtp_ok: "entry_ok v e \<Longrightarrow> entry_ok v (snd (ParseAsWfFtp L tz line e))"
  by (simp add: ParseAsWfFtp_def Let_def split_beta entry_ok_def entry_simps)

lemma mvs_tail_ok: "entry_ok v e \<Longrightarrow> entry_ok v (snd (mvs_tail line i e))"
  by (simp add: mvs_tail_def Let_def entry_ok_def)

lemma ParseAsIBM_MVS_ok: "entry_ok v e \<Longrightarrow> entry_ok v (snd (ParseAsIBM_MVS L line e))"
  using mvs_tail_ok
  by (auto simp: ParseAsIBM_MVS_def Let_def split_beta entry_simps entry_ok_def)

lemma ParseAsIBM_MVS_PDS_ok: "entry_ok v e \<Longrightarrow> entry_ok v (snd (ParseAsIBM_MVS_PDS L tz line e))"
  by (simp add: ParseAsIBM_MVS_PDS_def Let_def split_beta entry_ok_def entry_simps)

lemma ParseAsIBM_MVS_other_ok:
  "entry_ok v e \<Longrightarrow> entry_ok v (snd (ParseAsIBM_MVS_Migrated L line e))"
  "entry_ok v e \<Longrightarrow> entry_ok v (snd (ParseAsIBM_MVS_PDS2 line e))"
  "entry_ok v e \<Longrightarrow> entry_ok v (snd (ParseAsIBM_MVS_Tape L line e))"
  by (simp_all add: ParseAsIBM_MVS_Migrated_def ParseAsIBM_MVS_PDS2_def ParseAsIBM_MVS_Tape_def Let_def
      entry_ok_def)

lemma ParseAsOS9_ok: "entry_ok v e \<Longrightarrow> entry_ok v (snd (ParseAsOS9 L line e))"
  by (simp add: ParseAsOS9_def Let_def split_beta entry_ok_def entry_simps split: option.split)

lemma zvm_size_ok: "zvm_size n k = Some m \<Longrightarrow> size_ok v n \<Longrightarrow> size_ok v m"
proof -
  assume z: "zvm_size n k = Some m" and n: "size_ok v n"
  show "size_ok v m"
  proof (cases "n > 0")
    case True
    then have "m = k * n" "0 \<le> k" "\<not> k > int64_max div n"
      using z by (auto simp: zvm_size_def mult.commute split: if_splits)
    then have "0 \<le> m \<and> m \<le> int64_max" using mult_checked True by simp
    then show ?thesis by (simp add: size_ok_def)
  qed (use z n in \<open>auto simp: zvm_size_def\<close>)
qed

lemma zvm_dates_ok: "entry_ok v e \<Longrightarrow> entry_ok v (snd (zvm_dates L tz line e))"
  by (simp add: zvm_dates_def Let_def split_beta entry_ok_def entry_simps)

lemma ParseAsZVM_ok: "entry_ok v e \<Longrightarrow> entry_ok v (snd (ParseAsZVM L tz line e))"
  using zvm_dates_ok zvm_size_ok
  by (auto simp: ParseAsZVM_def Let_def entry_simps entry_ok_def split: option.split)

lemma ParseAsHPNonstop_ok: "entry_ok v e \<Longrightarrow> entry_ok v (snd (ParseAsHPNonstop L line e))"
  by (simp add: ParseAsHPNonstop_def Let_def split_beta entry_ok_def entry_simps)

lemma mlsd_type_ok: "entry_ok w e \<Longrightarrow> entry_ok w (snd (mlsd_type L v e))"
  by (auto simp: mlsd_type_def Let_def entry_ok_def split: option.splits)

lemma mlsd_fact_ok: "entry_ok w e \<Longrightarrow> entry_ok w (snd (snd (mlsd_fact L f v m e)))"
  using mlsd_type_ok [of w e L v]
  by (simp add: mlsd_fact_def Let_def split_beta entry_ok_def)

lemma mlsd_loop_ok: "entry_ok w e \<Longrightarrow> entry_ok w (snd (snd (mlsd_loop L f i m e)))"
proof (induction L f i m e rule: mlsd_loop.induct)
  case (1 L f i m e)
  have fact: "entry_ok w e1" if "mlsd_fact L n v m e = (r, m1, e1)" for n v r m1 e1
    using mlsd_fact_ok [OF 1(2), of L n v m] that by simp
  show ?case
  proof (cases "i < length f \<and> Find CHR ''='' i f \<noteq> None")
    case True
    define found where "found = Find CHR '';'' i f"
    define delim where "delim = (case found of None \<Rightarrow> length f | Some d \<Rightarrow> d)"
    obtain pos where pos: "Find CHR ''='' i f = Some pos" using True by auto
    define n v where "n = ll_lower L (take (pos - i) (drop i f))" and "v = take (delim - pos - 1) (drop (pos + 1) f)"
    obtain r m1 e1 where f: "mlsd_fact L n v m e = (r, m1, e1)" by (metis prod_cases3)
    have "mlsd_loop L f i m e =
      (if found \<noteq> None \<and> delim < i + 3 then (Some Mlsd_no, m, e)
       else if pos < i + 1 \<or> pos > delim then (Some Mlsd_no, m, e)
       else case r of Some q \<Rightarrow> (Some q, m1, e1) | None \<Rightarrow> mlsd_loop L f (delim + 1) m1 e1)"
      using True pos f by (subst mlsd_loop.simps) (cases found; simp add: Let_def found_def delim_def n_def v_def split: option.split)
    moreover have "entry_ok w (snd (snd (mlsd_loop L f (delim + 1) m1 e1)))"
      if "\<not> (found \<noteq> None \<and> delim < i + 3)" "\<not> (pos < i + 1 \<or> pos > delim)" "r = None"
      using 1(1) [OF _ found_def delim_def that(1) pos that(2) n_def v_def f [symmetric] that(3) refl] True fact [OF f] by simp
    ultimately show ?thesis using 1(2) fact [OF f] by (simp split: option.split)
  qed (use 1(2) in \<open>subst mlsd_loop.simps, auto simp: Let_def\<close>)
qed

lemma ParseAsMlsd_ok: "entry_ok w e \<Longrightarrow> entry_ok w (snd (ParseAsMlsd L line e))"
  using mlsd_loop_ok [of w "e\<lparr>de_flags := 0, de_size := -1, de_time := None, de_target := None\<rparr>" L "GetToken line 0" 0 mlsd_facts_new]
  by (auto simp: ParseAsMlsd_def Let_def split_beta entry_simps entry_ok_def split: option.splits prod.splits)


subsection \<open>One line\<close>

lemma try_formats_ok:
  assumes "entry_ok v e" "\<And>p e. p \<in> set ps \<Longrightarrow> entry_ok v e \<Longrightarrow> entry_ok v (snd (p e))"
  shows "entry_ok v (snd (try_formats ps e))"
  using assms
proof (induction ps arbitrary: e)
  case (Cons p ps)
  have "entry_ok v (snd (p e))" using Cons.prems by simp
  then show ?case using Cons.IH [of "snd (p e)"] Cons.prems(2) by (simp add: split_beta)
qed simp

lemmas format_oks = ParseAsUnix_ok ParseAsDos_ok ParseAsEplf_ok ParseOther_ok ParseAsIbm_ok
  ParseAsWfFtp_ok ParseAsIBM_MVS_ok ParseAsIBM_MVS_PDS_ok ParseAsOS9_ok ParseAsIBM_MVS_other_ok
  ParseAsZVM_ok ParseAsHPNonstop_ok

lemma common_formats_ok:
  "entry_ok v e \<Longrightarrow> (vms_oversized line \<Longrightarrow> v) \<Longrightarrow> entry_ok v (snd (try_formats (common_formats L tz m ty line) e))"
  by (erule try_formats_ok) (auto simp: common_formats_def format_oks ParseAsVms_ok split: if_splits)

lemma special_formats_ok:
  "entry_ok v e \<Longrightarrow> entry_ok v (snd (try_formats (special_formats L tz ty line) e))"
  by (erule try_formats_ok) (auto simp: special_formats_def format_oks split: if_splits)

lemma entry_ok_default [simp]: "entry_ok v CDirentry_default"
  by (simp add: entry_ok_def CDirentry_default_def)

lemma parse_formats_ok:
  assumes "parse_formats L tz m ty line = Line_entry e"
  shows "entry_ok (vms_oversized line) e"
proof -
  let ?v = "vms_oversized line"
  obtain b1 e1 where 1: "try_formats (special_formats L tz ty line) CDirentry_default = (b1, e1)" by (metis prod.exhaust)
  obtain r e2 where 2: "ParseAsMlsd L line e1 = (r, e2)" by (metis prod.exhaust)
  obtain b3 e3 where 3: "try_formats (common_formats L tz m ty line) e2 = (b3, e3)" by (metis prod.exhaust)
  have "entry_ok ?v e1" using special_formats_ok [of ?v CDirentry_default L tz ty line] 1 by simp
  moreover then have "entry_ok ?v e2" using ParseAsMlsd_ok [of ?v e1 L line] 2 by simp
  moreover then have "entry_ok ?v e3" using common_formats_ok [of ?v e2 line L tz m ty] 3 by simp
  ultimately show ?thesis
    using assms by (auto simp: parse_formats_def 1 2 3 split: bool.splits mlsd_result.splits)
qed

subsection \<open>States\<close>

text \<open>What holds of the parser between its operations.  The third clause is the assertion in
  \<open>Parse\<close>.\<close>

definition entry_wf :: "ServerType \<Rightarrow> CDirentry \<Rightarrow> bool" where
  "entry_wf ty e \<longleftrightarrow> entry_ok True e \<and> (ty \<noteq> VMS \<longrightarrow> de_name e \<noteq> ''.'' \<and> de_name e \<noteq> ''..'')"

definition parser_wf :: "listing_parser \<Rightarrow> bool" where
  "parser_wf st \<longleftrightarrow>
     length (lp_entries st) \<le> lp_limit st \<and> length (lp_fileList st) \<le> lp_limit st \<and>
     (lp_fileList st \<noteq> [] \<longrightarrow> lp_entries st = []) \<and> (lp_fileListOnly st \<longrightarrow> lp_entries st = []) \<and>
     (\<forall>e \<in> set (lp_entries st). entry_wf (sv_type (lp_server st)) e)"

lemma trim_version_wf:
  "entry_ok True e \<Longrightarrow> de_name e \<noteq> ''.'' \<Longrightarrow> de_name e \<noteq> ''..'' \<Longrightarrow> entry_wf ty (trim_version ty e)"
  by (auto simp: trim_version_def entry_wf_def entry_simps split: option.split)

lemma entry_wf_time [simp]: "entry_wf ty (e\<lparr>de_time := d\<rparr>) = entry_wf ty e"
  by (simp add: entry_wf_def entry_simps)

lemma add_entry_wf:
  assumes "parser_wf st" "entry_ok True e"
  shows "parser_wf (add_entry L e st)"
  using assms trim_version_wf [OF assms(2), of "sv_type (lp_server st)"]
  by (auto simp: parser_wf_def add_entry_def no_filelist_def Let_def)

lemma note_filename_wf: "parser_wf st \<Longrightarrow> parser_wf (note_filename line st)"
  by (auto simp: parser_wf_def note_filename_def Let_def)

lemma ParseLine_wf:
  assumes "parser_wf st" "\<forall>ov. override = Some ov \<longrightarrow> entry_ok True ov"
  shows "parser_wf (snd (ParseLine L line c override st))"
proof -
  have ov: "entry_ok True (apply_override override e)" if "entry_ok True e" for e
    using assms(2) that by (auto simp: apply_override_def Let_def entry_ok_def split: option.split)
  have skip: "parser_wf (no_filelist st)" "parser_wf (st\<lparr>lp_maybeMultilineVms := False\<rparr>)"
    using assms(1) by (auto simp: parser_wf_def no_filelist_def)
  show ?thesis
    using assms skip ov entry_ok_mono [OF parse_formats_ok] note_filename_wf add_entry_wf
    by (auto simp: ParseLine_def Let_def split: line_result.split option.split)
qed

lemma parser_wf_prevLine [simp]: "parser_wf (st\<lparr>lp_prevLine := p\<rparr>) = parser_wf st"
  and parser_wf_buffer [simp]: "parser_wf (set_buffer b n st) = parser_wf st"
  and parser_wf_converted [simp]: "parser_wf (st\<lparr>lp_converted := k\<rparr>) = parser_wf st"
  and parser_wf_add [simp]: "parser_wf (add_data d st) = parser_wf st"
  by (simp_all add: parser_wf_def set_buffer_def add_data_def)

lemma process_line_wf: "parser_wf st \<Longrightarrow> parser_wf (process_line L raw st)"
  using ParseLine_wf by (auto simp: process_line_def Let_def split_beta)

lemma parse_lines_wf: "parser_wf st \<Longrightarrow> parser_wf (snd (parse_lines L partial st))"
proof (induction L partial st rule: parse_lines.induct)
  case (1 L partial st)
  obtain raw err b n where g: "GetLine L partial (lp_inbuf st) (lp_parse_offset st) = (raw, err, b, n)"
    by (metis prod_cases4)
  show ?case
    using 1(1) [OF g [symmetric] refl refl] 1(2) process_line_wf [of "set_buffer b n st" L raw]
    by (subst parse_lines.simps) (simp add: g)
qed

lemma ConvertEncoding_wf: "parser_wf st \<Longrightarrow> parser_wf (ConvertEncoding st)"
  by (simp add: ConvertEncoding_def DeduceEncoding_def parser_wf_def Let_def)

lemma ParseData_wf: "parser_wf st \<Longrightarrow> parser_wf (snd (ParseData L partial st))"
  using parse_lines_wf [OF ConvertEncoding_wf] by (simp add: ParseData_def split_beta)

text \<open>The operations of the control sockets on their parser.\<close>

inductive parser_reachable :: "listing_lib \<Rightarrow> CServer \<Rightarrow> nat \<Rightarrow> listing_parser \<Rightarrow> bool"
  for L :: listing_lib and server :: CServer and limit :: nat where
  new: "parser_reachable L server limit (parser_new server encoding limit)"
| timezone: "parser_reachable L server limit st \<Longrightarrow> parser_reachable L server limit (st\<lparr>lp_timezoneOffset := tz\<rparr>)"
| data: "parser_reachable L server limit st \<Longrightarrow> parser_reachable L server limit (snd (ProcessAddedData L (add_data d st)))"
| line: "parser_reachable L server limit st \<Longrightarrow> (\<And>f. flags = Some f \<Longrightarrow> flags_ok f) \<Longrightarrow>
    parser_reachable L server limit (snd (AddLine L line name time fsize flags st))"
| parse: "parser_reachable L server limit st \<Longrightarrow> parser_reachable L server limit (snd (Parse L now path st))"
| reset: "parser_reachable L server limit st \<Longrightarrow> parser_reachable L server limit (parser_Reset st)"

lemma AddLine_wf:
  assumes "parser_wf st" "\<And>f. flags = Some f \<Longrightarrow> flags_ok f"
  shows "parser_wf (snd (AddLine L line name time fsize flags st))"
proof -
  define ov where "ov = (case flags of None \<Rightarrow> CDirentry_default\<lparr>de_name := name, de_time := time\<rparr>
      | Some f \<Rightarrow> CDirentry_default\<lparr>de_name := name, de_time := time, de_flags := f\<rparr>)"
  define n where "n = (case fsize of Some n \<Rightarrow> if int n \<le> int64_max then int n else -1 | None \<Rightarrow> -1)"
  have "entry_ok True ov" using assms(2) by (auto simp: ov_def entry_ok_def CDirentry_default_def split: option.split)
  moreover have "size_ok True n" by (auto simp: n_def size_ok_def int64_max_def split: option.split)
  ultimately have "entry_ok True (if is_dir ov then ov else ov\<lparr>de_size := n\<rparr>)" by (simp add: entry_ok_def)
  then have "parser_wf (snd (ParseLine L (CLine_new line None) True (Some (if is_dir ov then ov else ov\<lparr>de_size := n\<rparr>)) st))"
    by (intro ParseLine_wf assms(1)) simp
  moreover have "AddLine L line name time fsize flags st =
      (if line = [] \<and> name = [] then (True, st)
       else (True, snd (ParseLine L (CLine_new line None) True (Some (if is_dir ov then ov else ov\<lparr>de_size := n\<rparr>)) st)))"
    by (cases flags) (simp_all add: AddLine_def Let_def ov_def n_def)
  ultimately show ?thesis using assms(1) by simp
qed

lemma parser_reachable_wf: "parser_reachable L server limit st \<Longrightarrow> parser_wf st"
proof (induction rule: parser_reachable.induct)
  case (new encoding)
  show ?case by (simp add: parser_new_def parser_wf_def)
next
  case (data st d)
  then show ?case using ParseData_wf [of "add_data d st" L True] by (auto simp: ProcessAddedData_def)
next
  case (line st flags line name time fsize)
  then show ?case by (intro AddLine_wf) auto
next
  case (parse st now path)
  then have "parser_wf (snd (ParseData L False st))" by (rule_tac ParseData_wf)
  then show ?case by (auto simp: Parse_def Let_def split_beta parser_wf_def)
qed (simp_all add: parser_wf_def parser_Reset_def)

lemma parse_lines_const:
  "lp_server (snd (parse_lines L partial st)) = lp_server st \<and> lp_limit (snd (parse_lines L partial st)) = lp_limit st"
proof (induction L partial st rule: parse_lines.induct)
  case (1 L partial st)
  obtain raw err b n where g: "GetLine L partial (lp_inbuf st) (lp_parse_offset st) = (raw, err, b, n)"
    by (metis prod_cases4)
  show ?case
    using 1(1) [OF g [symmetric] refl refl] by (subst (1 2) parse_lines.simps) (simp add: g set_buffer_def)
qed

lemma ParseData_const [simp]:
  "lp_server (snd (ParseData L partial st)) = lp_server st" "lp_limit (snd (ParseData L partial st)) = lp_limit st"
  using parse_lines_const [of L partial "ConvertEncoding st"]
  by (simp_all add: ParseData_def split_beta ConvertEncoding_def DeduceEncoding_def Let_def)

lemma parser_reachable_const:
  "parser_reachable L server limit st \<Longrightarrow> lp_server st = server \<and> lp_limit st = limit"
  by (induction rule: parser_reachable.induct)
     (simp_all add: parser_new_def ProcessAddedData_def add_data_def AddLine_def Let_def Parse_def split_beta
       parser_Reset_def)

lemma plain_entry_ok: "entry_ok True (plain_entry f)"
  by (simp add: plain_entry_def entry_ok_def CDirentry_default_def)

lemma Assign_entries [simp]: "dl_entries (Assign l es) = es"
  by (simp add: Assign_def drop_searchmaps_def Let_def)

text \<open>C37: whatever a server sends and however it is cut, a parser never holds more entries than its
  limit and never both entries and plain names, and no entry of a server that is not VMS is named like
  the directory itself or its parent.  The entries of the parser and of the listing it returns have only
  the flags of a file, a directory or a link to a directory, and their sizes lie between \<open>-1\<close> and
  \<open>2\<^sup>63 - 1\<close> with one exception, the size \<open>-512\<close>.  A line of any form gives a size in that range, unless its
  first field holds a semicolon and a number of blocks in it does not fit into 63 bits; then the size
  may be \<open>-512\<close>, and nothing else out of the range.\<close>

theorem parsed_entries_typed:
  assumes "parser_reachable L server limit st"
  shows "parser_wf st \<and> lp_server st = server \<and> lp_limit st = limit \<and>
    (\<forall>e \<in> set (lp_entries st) \<union> set (dl_entries (fst (Parse L now path st))).
       flags_ok (de_flags e) \<and> (-1 \<le> de_size e \<and> de_size e \<le> int64_max \<or> de_size e = -512)) \<and>
    (\<forall>tz m ty line e. parse_formats L tz m ty line = Line_entry e \<longrightarrow>
       flags_ok (de_flags e) \<and>
       (-1 \<le> de_size e \<and> de_size e \<le> int64_max \<or> de_size e = -512 \<and> vms_oversized line))"
proof (intro conjI)
  show wf: "parser_wf st" by (rule parser_reachable_wf [OF assms])
  show "lp_server st = server" "lp_limit st = limit" using parser_reachable_const [OF assms] by simp_all
  have "parser_wf (snd (ParseData L False st))" by (rule ParseData_wf [OF wf])
  then have "\<forall>e \<in> set (dl_entries (fst (Parse L now path st))). entry_ok True e"
    by (auto simp: Parse_def Let_def split_beta parser_wf_def entry_wf_def plain_entry_ok or_flags_def
        CDirectoryListing_default_def)
  moreover have "\<forall>e \<in> set (lp_entries st). entry_ok True e"
    using wf by (simp add: parser_wf_def entry_wf_def)
  ultimately show "\<forall>e \<in> set (lp_entries st) \<union> set (dl_entries (fst (Parse L now path st))).
       flags_ok (de_flags e) \<and> (-1 \<le> de_size e \<and> de_size e \<le> int64_max \<or> de_size e = -512)"
    by (auto simp: entry_ok_def size_ok_def)
  show "\<forall>tz m ty line e. parse_formats L tz m ty line = Line_entry e \<longrightarrow>
       flags_ok (de_flags e) \<and>
       (-1 \<le> de_size e \<and> de_size e \<le> int64_max \<or> de_size e = -512 \<and> vms_oversized line)"
    using parse_formats_ok by (fastforce simp: entry_ok_def size_ok_def)
qed

theorem parsed_entries_typed_witness:
  "let st = snd (ProcessAddedData listing_lib_std (add_data ''drwx 2 u g 0 Jan 1 2000 x''
        (parser_new CServer_default enc_normal 100)))
   in parser_wf st \<and> lp_server st = CServer_default \<and> lp_limit st = 100 \<and>
    (\<forall>e \<in> set (lp_entries st) \<union> set (dl_entries (fst (Parse listing_lib_std 0 CServerPath_default st))).
       flags_ok (de_flags e) \<and> (-1 \<le> de_size e \<and> de_size e \<le> int64_max \<or> de_size e = -512)) \<and>
    (\<forall>tz m ty line e. parse_formats listing_lib_std tz m ty line = Line_entry e \<longrightarrow>
       flags_ok (de_flags e) \<and>
       (-1 \<le> de_size e \<and> de_size e \<le> int64_max \<or> de_size e = -512 \<and> vms_oversized line))"
  unfolding Let_def by (rule parsed_entries_typed) (rule data, rule new)

end
