(* ===== verification/Listing_Chunks.thy ===== *)
theory Listing_Chunks
  imports Listing_Std
begin

text \<open>
  The input arrives in pieces of any size, cut anywhere.  When the encoding is known the listing does
  not depend on how it was cut; when it is not, it depends on the cut only through the encoding that is
  deduced from what was buffered when parsing began.
\<close>

subsection \<open>Lines and their effect\<close>

text \<open>The lines that are found in the buffer, apart from what is done with them.\<close>

function line_list :: "listing_lib \<Rightarrow> bool \<Rightarrow> string \<Rightarrow> nat \<Rightarrow> wstring list \<times> bool \<times> string \<times> nat" where
  "line_list L breakAtEnd inbuf offset =
     (case GetLine L breakAtEnd inbuf offset of
        (raw, err, inbuf1, offset1) \<Rightarrow>
          if raw = [] then ([], \<not> err, inbuf1, offset1)
          else case line_list L breakAtEnd inbuf1 offset1 of (ls, r) \<Rightarrow> (raw # ls, r))"
  by pat_completeness auto
termination
  by (relation "measure (\<lambda>(L, breakAtEnd, inbuf, offset). length inbuf)") (auto dest: GetLine_shorter [OF sym])

declare line_list.simps [simp del]

text \<open>The state without the buffer; processing a line does not look at the buffer.\<close>

definition core :: "listing_parser \<Rightarrow> listing_parser" where
  "core st = st\<lparr>lp_inbuf := [], lp_parse_offset := 0, lp_converted := 0\<rparr>"

lemma core_simps [simp]:
  "lp_entries (core st) = lp_entries st" "lp_prevLine (core st) = lp_prevLine st"
  "lp_server (core st) = lp_server st" "lp_fileListOnly (core st) = lp_fileListOnly st"
  "lp_fileList (core st) = lp_fileList st" "lp_maybeMultilineVms (core st) = lp_maybeMultilineVms st"
  "lp_timezoneOffset (core st) = lp_timezoneOffset st" "lp_listingEncoding (core st) = lp_listingEncoding st"
  "lp_limit (core st) = lp_limit st" "lp_truncated (core st) = lp_truncated st"
  "core (set_buffer b n st) = core st" "core (add_data d st) = core st" "core (core st) = core st"
  "core (st\<lparr>lp_converted := k\<rparr>) = core st"
  by (simp_all add: core_def set_buffer_def add_data_def)

lemma core_prevLine: "core (st\<lparr>lp_prevLine := p\<rparr>) = (core st)\<lparr>lp_prevLine := p\<rparr>"
  by (simp add: core_def)

lemma core_add_entry: "core (add_entry L e st) = add_entry L e (core st)"
  by (auto simp: add_entry_def no_filelist_def core_def Let_def)

lemma core_note_filename: "core (note_filename line st) = note_filename line (core st)"
  by (auto simp: note_filename_def core_def Let_def)

lemma core_ParseLine:
  "ParseLine L line c ov (core st) = (fst (ParseLine L line c ov st), core (snd (ParseLine L line c ov st)))"
proof -
  have n: "core (no_filelist st) = no_filelist (core st)"
    "core (st\<lparr>lp_maybeMultilineVms := False\<rparr>) = (core st)\<lparr>lp_maybeMultilineVms := False\<rparr>"
    by (simp_all add: no_filelist_def core_def)
  show ?thesis
    by (simp add: ParseLine_def Let_def core_add_entry core_note_filename n split: line_result.split option.split)
qed

lemma core_process_line: "core (process_line L raw st) = process_line L raw (core st)"
  by (simp add: process_line_def Let_def core_ParseLine core_prevLine split_beta)

lemma parse_lines_list:
  "line_list L partial (lp_inbuf st) (lp_parse_offset st) = (ls, ok, b, n) \<Longrightarrow>
    fst (parse_lines L partial st) = ok \<and> lp_inbuf (snd (parse_lines L partial st)) = b \<and>
    lp_parse_offset (snd (parse_lines L partial st)) = n \<and>
    lp_converted (snd (parse_lines L partial st)) = lp_converted st \<and>
    core (snd (parse_lines L partial st)) = fold (process_line L) ls (core st)"
proof (induction L partial st arbitrary: ls rule: parse_lines.induct)
  case (1 L partial st)
  obtain raw err b1 n1 where g: "GetLine L partial (lp_inbuf st) (lp_parse_offset st) = (raw, err, b1, n1)"
    by (metis prod_cases4)
  define st1 where "st1 = process_line L raw (set_buffer b1 n1 st)"
  have p: "parse_lines L partial st = (if raw = [] then (\<not> err, set_buffer b1 n1 st) else parse_lines L partial st1)"
    by (subst parse_lines.simps) (simp add: g st1_def)
  show ?case
  proof (cases "raw = []")
    case True
    then have "ls = [] \<and> ok = (\<not> err) \<and> b = b1 \<and> n = n1"
      using 1(2) by (subst (asm) line_list.simps) (auto simp: g)
    then show ?thesis using True p by (simp add: set_buffer_def core_def)
  next
    case False
    obtain ls1 where ls: "line_list L partial b1 n1 = (ls1, ok, b, n)" "ls = raw # ls1"
      using 1(2) False by (subst (asm) line_list.simps) (auto simp: g split: prod.splits)
    have buf: "lp_inbuf st1 = b1" "lp_parse_offset st1 = n1" "lp_converted st1 = lp_converted st"
      by (simp_all add: st1_def set_buffer_def)
    have "core st1 = process_line L raw (core st)"
      by (simp add: st1_def core_process_line)
    then show ?thesis
      using 1(1) [OF g [symmetric] refl refl False, of ls1] ls p False buf
      by (simp flip: st1_def)
  qed
qed

subsection \<open>Cutting the input\<close>

text \<open>What the offset says of the buffer: no end of line before it, and trimming is done.\<close>

definition scanned :: "string \<Rightarrow> nat \<Rightarrow> bool" where
  "scanned s offset \<longleftrightarrow>
     offset \<le> length s \<and> (\<forall>i < offset. \<not> is_eol (s ! i)) \<and> (0 < offset \<longrightarrow> \<not> is_trimmed (hd s))"

lemma scanned_0 [simp]: "scanned s 0"
  by (simp add: scanned_def)

lemma trim_append:
  assumes "scanned s offset"
  shows "TrimLeadingWhitespace s offset \<noteq> [] \<Longrightarrow>
      TrimLeadingWhitespace (s @ t) offset = TrimLeadingWhitespace s offset @ t"
    and "TrimLeadingWhitespace s offset = [] \<Longrightarrow> offset = 0 \<and>
      TrimLeadingWhitespace (s @ t) 0 = TrimLeadingWhitespace t 0"
  using assms
  by (auto simp: TrimLeadingWhitespace_def scanned_def dropWhile_append split: if_splits)

lemma line_end_append:
  assumes "n \<le> length s"
  shows "n + length (takeWhile P (drop n s)) < length s \<Longrightarrow>
      n + length (takeWhile P (drop n (s @ t))) = n + length (takeWhile P (drop n s))"
    and "\<not> n + length (takeWhile P (drop n s)) < length s \<Longrightarrow>
      n + length (takeWhile P (drop n (s @ t))) = length s + length (takeWhile P t)"
proof -
  assume l: "n + length (takeWhile P (drop n s)) < length s"
  then have "\<not> (\<forall>x \<in> set (drop n s). P x)"
    by (metis add_diff_cancel_left' diff_less_mono le_add1 length_drop less_irrefl takeWhile_eq_all_conv)
  then show "n + length (takeWhile P (drop n (s @ t))) = n + length (takeWhile P (drop n s))"
    using assms by (auto simp: takeWhile_append)
next
  assume l: "\<not> n + length (takeWhile P (drop n s)) < length s"
  then have "length (takeWhile P (drop n s)) = length (drop n s)"
    using length_takeWhile_le [of P "drop n s"] assms by simp
  then have "\<forall>x \<in> set (drop n s). P x"
    by (metis takeWhile_eq_all_conv takeWhile_eq_take take_all order_refl)
  then show "n + length (takeWhile P (drop n (s @ t))) = length s + length (takeWhile P t)"
    using assms by (simp add: takeWhile_append)
qed

definition line_end :: "string \<Rightarrow> nat \<Rightarrow> nat" where
  "line_end s offset = offset + length (takeWhile (\<lambda>c. \<not> is_eol c) (drop offset s))"

lemma GetLine_step:
  "GetLine L b s offset =
     (let s1 = TrimLeadingWhitespace s offset; n = line_end s1 offset
      in if n > line_limit then ([], True, s1, n)
         else if n \<ge> length s1 \<and> (b \<or> s1 = []) then ([], False, s1, n)
         else let buffer = strip_bom L (line_text L (take n s1))
              in if buffer \<noteq> [] then (buffer, False, drop n s1, 0) else GetLine L b (drop n s1) 0)"
  by (subst GetLine.simps) (simp only: Let_def line_end_def)

lemma scanned_trim:
  assumes "scanned s offset"
  defines "s1 \<equiv> TrimLeadingWhitespace s offset"
  shows "offset \<le> length s1" "line_end s1 offset \<le> length s1" "scanned s1 (line_end s1 offset)"
proof -
  show le: "offset \<le> length s1"
    using assms by (auto simp: s1_def TrimLeadingWhitespace_def scanned_def)
  then show "line_end s1 offset \<le> length s1"
    using length_takeWhile_le [of "\<lambda>c. \<not> is_eol c" "drop offset s1"] by (simp add: line_end_def)
  moreover have "\<not> is_eol (s1 ! i)" if i: "i < line_end s1 offset" for i
  proof (cases "i < offset")
    case True
    then show ?thesis using assms by (auto simp: s1_def TrimLeadingWhitespace_def scanned_def)
  next
    case False
    then have "i - offset < length (takeWhile (\<lambda>c. \<not> is_eol c) (drop offset s1))"
      using i by (simp add: line_end_def)
    then have "\<not> is_eol (takeWhile (\<lambda>c. \<not> is_eol c) (drop offset s1) ! (i - offset))"
      using set_takeWhileD [OF nth_mem] by blast
    then show ?thesis
      using False le \<open>i - offset < _\<close> by (simp add: takeWhile_nth)
  qed
  moreover have "\<not> is_trimmed (hd s1)" if "0 < line_end s1 offset"
  proof (cases offset)
    case 0
    then have "s1 \<noteq> []" using that by (auto simp: line_end_def)
    then show ?thesis using 0 hd_dropWhile [of is_trimmed s] by (simp add: s1_def TrimLeadingWhitespace_def)
  qed (use assms in \<open>auto simp: s1_def TrimLeadingWhitespace_def scanned_def\<close>)
  ultimately show "scanned s1 (line_end s1 offset)" by (simp add: scanned_def)
qed


text \<open>A request for a line that finds one finds the same one when more data follows; one that
  stops at the end of the data can be repeated with the buffer it left.\<close>

lemma GetLine_append:
  assumes "GetLine L True s offset = (raw, err, r, n)" "scanned s offset"
  shows "(raw \<noteq> [] \<longrightarrow> n = 0 \<and> GetLine L b (s @ t) offset = (raw, False, r @ t, 0)) \<and>
    (raw = [] \<longrightarrow> err \<longrightarrow> (\<exists>r' n'. GetLine L b (s @ t) offset = ([], True, r', n'))) \<and>
    (raw = [] \<longrightarrow> \<not> err \<longrightarrow> scanned r n \<and> GetLine L b (s @ t) offset = GetLine L b (r @ t) n)"
  using assms
proof (induction "length s" arbitrary: s offset rule: less_induct)
  case less
  define s1 where "s1 = TrimLeadingWhitespace s offset"
  define k where "k = line_end s1 offset"
  define buffer where "buffer = strip_bom L (line_text L (take k s1))"
  note sc = scanned_trim [OF less(3), folded s1_def]
  have g: "GetLine L True s offset =
      (if k > line_limit then ([], True, s1, k) else if k \<ge> length s1 then ([], False, s1, k)
       else if buffer \<noteq> [] then (buffer, False, drop k s1, 0) else GetLine L True (drop k s1) 0)"
    by (subst GetLine_step) (simp add: Let_def s1_def k_def buffer_def)
  show ?case
  proof (cases "s1 = []")
    case True
    then have "offset = 0" "TrimLeadingWhitespace (s @ t) 0 = TrimLeadingWhitespace t 0"
      using trim_append(2) [OF less(3), of t] by (simp_all add: s1_def)
    moreover have "k = 0" using True \<open>offset = 0\<close> by (simp add: k_def line_end_def)
    ultimately show ?thesis
      using less(2) g True by (auto simp: line_limit_def) (subst (1 2) GetLine_step, simp)
  next
    case ne: False
    then have tr: "TrimLeadingWhitespace (s @ t) offset = s1 @ t"
      using trim_append(1) [OF less(3)] by (simp add: s1_def)
    have g2: "GetLine L b (s @ t) offset =
        (let n = line_end (s1 @ t) offset
         in if n > line_limit then ([], True, s1 @ t, n)
            else if n \<ge> length (s1 @ t) \<and> b then ([], False, s1 @ t, n)
            else let buffer = strip_bom L (line_text L (take n (s1 @ t)))
                 in if buffer \<noteq> [] then (buffer, False, drop n (s1 @ t), 0) else GetLine L b (drop n (s1 @ t)) 0)"
      using ne by (subst GetLine_step) (simp add: tr Let_def)
    have k: "k < length s1 \<Longrightarrow> line_end (s1 @ t) offset = k"
      "\<not> k < length s1 \<Longrightarrow> line_end (s1 @ t) offset = length s1 + length (takeWhile (\<lambda>c. \<not> is_eol c) t)"
      using line_end_append [OF sc(1), of "\<lambda>c. \<not> is_eol c" t] by (simp_all add: k_def line_end_def)
    show ?thesis
    proof (cases "k < length s1")
      case end_found: True
      show ?thesis
      proof (cases "k > line_limit")
        case True
        then show ?thesis using less(2) g g2 k(1) [OF end_found] by (auto simp: Let_def)
      next
        case False
        have pos: "0 < k" "length (drop k s1) < length s"
          using GetLine_consumes [of s offset True] end_found
          unfolding k_def line_end_def s1_def by auto
        show ?thesis
        proof (cases "buffer = []")
          case True
          then have "GetLine L True (drop k s1) 0 = (raw, err, r, n)"
            "GetLine L b (s @ t) offset = GetLine L b (drop k s1 @ t) 0"
            using less(2) g g2 k(1) [OF end_found] end_found False by (simp_all add: Let_def buffer_def)
          then show ?thesis using less(1) [OF pos(2), of 0] by simp
        next
          case buf: False
          then have "(raw, err, r, n) = (buffer, False, drop k s1, 0)"
            using less(2) g end_found False by simp
          moreover have "GetLine L b (s @ t) offset = (buffer, False, drop k s1 @ t, 0)"
            using g2 k(1) [OF end_found] end_found False buf by (simp add: Let_def buffer_def)
          ultimately show ?thesis using buf by simp
        qed
      qed
    next
      case no_end: False
      then have kl: "k = length s1" using sc(2) by (simp add: k_def)
      show ?thesis
      proof (cases "k > line_limit")
        case True
        then show ?thesis using less(2) g g2 k(2) [OF no_end] kl by (auto simp: Let_def)
      next
        case False
        then have r: "raw = []" "\<not> err" "r = s1" "n = k" using less(2) g kl by auto
        have sc1: "scanned s1 k" using sc(3) by (simp add: k_def)
        have pos: "0 < k" using ne kl by simp
        then have tr2: "TrimLeadingWhitespace (s1 @ t) k = s1 @ t"
          by (simp add: TrimLeadingWhitespace_def)
        have "line_end (s1 @ t) k = line_end (s1 @ t) offset"
          using k(2) [OF no_end] kl by (simp add: line_end_def)
        then have "GetLine L b (s1 @ t) k = GetLine L b (s @ t) offset"
          using ne by (subst GetLine_step, subst g2) (simp add: tr2 Let_def)
        then show ?thesis using r sc1 by simp
      qed
    qed
  qed
qed

lemma line_list_append:
  assumes "line_list L True s offset = (ls, ok, r, n)" "scanned s offset"
  shows "(ok \<longrightarrow> scanned r n \<and>
      (\<forall>b t. line_list L b (s @ t) offset = (case line_list L b (r @ t) n of (ls', x) \<Rightarrow> (ls @ ls', x)))) \<and>
    (\<not> ok \<longrightarrow> (\<forall>b t. \<not> fst (snd (line_list L b (s @ t) offset))))"
  using assms
proof (induction "length s" arbitrary: s offset ls rule: less_induct)
  case less
  obtain raw err s1 n1 where g: "GetLine L True s offset = (raw, err, s1, n1)" by (metis prod_cases4)
  have ga: "(raw \<noteq> [] \<longrightarrow> n1 = 0 \<and> GetLine L b (s @ t) offset = (raw, False, s1 @ t, 0)) \<and>
    (raw = [] \<longrightarrow> err \<longrightarrow> (\<exists>r' n'. GetLine L b (s @ t) offset = ([], True, r', n'))) \<and>
    (raw = [] \<longrightarrow> \<not> err \<longrightarrow> scanned s1 n1 \<and> GetLine L b (s @ t) offset = GetLine L b (s1 @ t) n1)" for b t
    by (rule GetLine_append [OF g less(3)])
  show ?case
  proof (cases "raw = []")
    case True
    then have r: "ls = []" "ok = (\<not> err)" "r = s1" "n = n1"
      using less(2) by (subst (asm) line_list.simps; simp add: g)+
    show ?thesis
    proof (cases err)
      case True
      have "\<not> fst (snd (line_list L b (s @ t) offset))" for b t
        using ga [of b t] \<open>raw = []\<close> True by (subst line_list.simps) auto
      then show ?thesis using r True by simp
    next
      case False
      have "line_list L b (s @ t) offset = line_list L b (s1 @ t) n1" for b t
        using ga [of b t] \<open>raw = []\<close> False by (subst (1 2) line_list.simps) simp
      then show ?thesis using r False ga \<open>raw = []\<close> by (simp split: prod.split)
    qed
  next
    case False
    obtain ls1 where l1: "line_list L True s1 0 = (ls1, ok, r, n)" "ls = raw # ls1"
      using less(2) False ga by (subst (asm) line_list.simps) (auto simp: g split: prod.splits)
    have short: "length s1 < length s" using GetLine_shorter [OF g False] by simp
    have step: "line_list L b (s @ t) offset = (case line_list L b (s1 @ t) 0 of (ls', x) \<Rightarrow> (raw # ls', x))" for b t
      using ga [of b t] False by (subst line_list.simps) simp
    show ?thesis
      using less(1) [OF short l1(1)] l1(2) by (simp add: step split_beta)
  qed
qed


subsection \<open>The encoding\<close>

text \<open>The bytes as \<open>ConvertEncoding\<close> turns them, once the encoding is known.\<close>

definition decode :: "listing_encoding \<Rightarrow> string \<Rightarrow> string" where
  "decode e s = (if e = enc_ebcdic then map ebcdic_char s else s)"

lemma decode_append: "decode e (s @ t) = decode e s @ decode e t"
  by (simp add: decode_def)

text \<open>Between two calls everything that is in the buffer is converted.\<close>

definition converted :: "listing_parser \<Rightarrow> bool" where
  "converted st \<longleftrightarrow> lp_listingEncoding st \<noteq> enc_unknown \<and>
     (lp_listingEncoding st = enc_ebcdic \<longrightarrow> lp_converted st = length (lp_inbuf st)) \<and>
     (lp_listingEncoding st \<noteq> enc_ebcdic \<longrightarrow> lp_converted st = 0)"

lemma ConvertEncoding_add:
  assumes "converted st"
  shows "lp_inbuf (ConvertEncoding (add_data d st)) = lp_inbuf st @ decode (lp_listingEncoding st) d"
    and "lp_parse_offset (ConvertEncoding (add_data d st)) = lp_parse_offset st"
    and "core (ConvertEncoding (add_data d st)) = core st"
    and "lp_listingEncoding st = enc_ebcdic \<Longrightarrow>
      lp_converted (ConvertEncoding (add_data d st)) = length (lp_inbuf st @ d)"
    and "lp_listingEncoding st \<noteq> enc_ebcdic \<Longrightarrow> lp_converted (ConvertEncoding (add_data d st)) = 0"
  using assms by (auto simp: ConvertEncoding_def converted_def add_data_def decode_def core_def Let_def)

lemma line_list_length:
  "line_list L b s offset = (ls, ok, r, n) \<Longrightarrow> scanned s offset \<Longrightarrow> length r \<le> length s"
proof (induction L b s offset arbitrary: ls rule: line_list.induct)
  case (1 L b s offset)
  obtain raw err s1 n1 where g: "GetLine L b s offset = (raw, err, s1, n1)" by (metis prod_cases4)
  show ?case
  proof (cases "raw = []")
    case True
    then have "r = s1" using 1(2) by (subst (asm) line_list.simps) (simp add: g)
    moreover have "length s1 \<le> length s" using g True GetLine_no_longer by blast
    ultimately show ?thesis by simp
  next
    case False
    obtain ls1 where l1: "line_list L b s1 n1 = (ls1, ok, r, n)"
      using 1(2) False by (subst (asm) line_list.simps) (auto simp: g split: prod.splits)
    then show ?thesis
      using 1(1) [OF g [symmetric] refl refl False l1] GetLine_shorter [OF g False] by simp
  qed
qed

text \<open>One call with what it leaves.\<close>

lemma ParseData_list:
  assumes "converted st" "scanned (lp_inbuf st) (lp_parse_offset st)"
    and "line_list L partial (lp_inbuf st @ decode (lp_listingEncoding st) d) (lp_parse_offset st) = (ls, ok, r, n)"
  shows "fst (ParseData L partial (add_data d st)) = ok"
    and "core (snd (ParseData L partial (add_data d st))) = fold (process_line L) ls (core st)"
    and "lp_inbuf (snd (ParseData L partial (add_data d st))) = r"
    and "lp_parse_offset (snd (ParseData L partial (add_data d st))) = n"
    and "lp_listingEncoding (snd (ParseData L partial (add_data d st))) = lp_listingEncoding st"
    and "converted (snd (ParseData L partial (add_data d st)))"
proof -
  define st1 where "st1 = ConvertEncoding (add_data d st)"
  note c = ConvertEncoding_add [OF assms(1), of d, folded st1_def]
  obtain ok' st2 where p: "parse_lines L partial st1 = (ok', st2)" by (metis prod.exhaust)
  have l: "ok' = ok" "lp_inbuf st2 = r" "lp_parse_offset st2 = n" "lp_converted st2 = lp_converted st1"
    "core st2 = fold (process_line L) ls (core st)"
    using parse_lines_list [of L partial st1 ls ok r n] assms(3) p c(1-3) by simp_all
  have enc: "lp_listingEncoding st2 = lp_listingEncoding st"
  proof -
    have "lp_listingEncoding (fold (process_line L) ls s) = lp_listingEncoding s" for s
      by (induction ls arbitrary: s) simp_all
    then show ?thesis using l(5) core_simps(8) by metis
  qed
  have sc: "scanned (lp_inbuf st @ decode (lp_listingEncoding st) d) (lp_parse_offset st)"
    using assms(2) by (auto simp: scanned_def nth_append hd_append)
  have len: "length r \<le> length (lp_inbuf st @ d)"
    using line_list_length [OF assms(3) sc] by (simp add: decode_def split: if_splits)
  have pd: "ParseData L partial (add_data d st) =
      (ok, if lp_converted st2 > length r then st2\<lparr>lp_converted := length r\<rparr> else st2)"
    using p l by (simp add: ParseData_def flip: st1_def)
  show "fst (ParseData L partial (add_data d st)) = ok"
    "core (snd (ParseData L partial (add_data d st))) = fold (process_line L) ls (core st)"
    "lp_inbuf (snd (ParseData L partial (add_data d st))) = r"
    "lp_parse_offset (snd (ParseData L partial (add_data d st))) = n"
    "lp_listingEncoding (snd (ParseData L partial (add_data d st))) = lp_listingEncoding st"
    using pd l enc by simp_all
  show "converted (snd (ParseData L partial (add_data d st)))"
    using pd l enc len c(4,5) assms(1) by (auto simp: converted_def)
qed


subsection \<open>Feeding the parser\<close>

text \<open>The loop of the control sockets: data is appended and processed as it arrives, up to the first
  failure.\<close>

fun feed :: "listing_lib \<Rightarrow> string list \<Rightarrow> listing_parser \<Rightarrow> bool \<times> listing_parser" where
  "feed L [] st = (True, st)"
| "feed L (d # ds) st =
     (case ProcessAddedData L (add_data d st) of
        (ok, st1) \<Rightarrow> if ok then feed L ds st1 else (False, st1))"

definition all_lines :: "listing_lib \<Rightarrow> listing_parser \<Rightarrow> string \<Rightarrow> wstring list \<times> bool \<times> string \<times> nat" where
  "all_lines L st d = line_list L False (lp_inbuf st @ decode (lp_listingEncoding st) d) (lp_parse_offset st)"

lemma feed_lines:
  assumes "converted st" "scanned (lp_inbuf st) (lp_parse_offset st)"
  shows "(fst (feed L ds st) \<longrightarrow>
      (let st1 = snd (feed L ds st) in
        converted st1 \<and> scanned (lp_inbuf st1) (lp_parse_offset st1) \<and>
        (\<exists>ls. core st1 = fold (process_line L) ls (core st) \<and>
           all_lines L st (concat ds) = (case all_lines L st1 [] of (ls', x) \<Rightarrow> (ls @ ls', x))))) \<and>
    (\<not> fst (feed L ds st) \<longrightarrow> \<not> fst (snd (all_lines L st (concat ds))))"
  using assms
proof (induction ds arbitrary: st)
  case Nil
  have "all_lines L st [] = (case all_lines L st [] of (ls', x) \<Rightarrow> ([] @ ls', x))" by (simp split: prod.split)
  then show ?case using Nil by (auto simp: Let_def intro!: exI [of _ "[]"])
next
  case (Cons d ds)
  let ?buf = "lp_inbuf st @ decode (lp_listingEncoding st) d"
  obtain ls ok r n where l: "line_list L True ?buf (lp_parse_offset st) = (ls, ok, r, n)" by (metis prod_cases4)
  define st1 where "st1 = snd (ParseData L True (add_data d st))"
  note pd = ParseData_list [OF Cons.prems l, folded st1_def]
  have sc: "scanned ?buf (lp_parse_offset st)"
    using Cons.prems(2) by (auto simp: scanned_def nth_append hd_append)
  have proc: "ProcessAddedData L (add_data d st) = (ok, st1)"
  proof -
    have "\<not> length (lp_inbuf (add_data d st)) < lp_parse_offset (add_data d st)"
      using Cons.prems(2) by (simp add: scanned_def add_data_def)
    moreover have "lp_listingEncoding (add_data d st) \<noteq> enc_unknown"
      using Cons.prems(1) by (simp add: converted_def add_data_def)
    ultimately show ?thesis
      using pd(1) by (simp add: ProcessAddedData_def st1_def prod_eq_iff)
  qed
  have all: "all_lines L st (concat (d # ds)) =
      line_list L False (?buf @ decode (lp_listingEncoding st) (concat ds)) (lp_parse_offset st)"
    by (simp add: all_lines_def decode_append)
  note app = line_list_append [OF l sc]
  show ?case
  proof (cases ok)
    case False
    then show ?thesis using app proc unfolding all by simp
  next
    case True
    have sc1: "scanned (lp_inbuf st1) (lp_parse_offset st1)" using app True pd(3,4) by simp
    have a1: "all_lines L st (concat (d # ds)) = (case all_lines L st1 (concat ds) of (ls', x) \<Rightarrow> (ls @ ls', x))"
      using app True pd(3-5) unfolding all by (simp add: all_lines_def)
    have f: "feed L (d # ds) st = feed L ds st1" using proc True by simp
    note ih = Cons.IH [OF pd(6) sc1]
    show ?thesis
    proof (cases "fst (feed L ds st1)")
      case True
      then obtain ls1 where "core (snd (feed L ds st1)) = fold (process_line L) ls1 (core st1)"
        "all_lines L st1 (concat ds) = (case all_lines L (snd (feed L ds st1)) [] of (ls', x) \<Rightarrow> (ls1 @ ls', x))"
        using ih by (auto simp: Let_def)
      then have "core (snd (feed L ds st1)) = fold (process_line L) (ls @ ls1) (core st)"
        "all_lines L st (concat (d # ds)) =
          (case all_lines L (snd (feed L ds st1)) [] of (ls', x) \<Rightarrow> ((ls @ ls1) @ ls', x))"
        using pd(2) a1 by (simp_all add: split_beta)
      then show ?thesis using ih True f by (auto simp: Let_def simp del: fold_append concat.simps)
    next
      case False
      then show ?thesis using ih f a1 by (simp add: split_beta)
    qed
  qed
qed

text \<open>What \<open>Parse\<close> returns is determined by the lines.\<close>

definition listing_of :: "listing_lib \<Rightarrow> int \<Rightarrow> CServerPath \<Rightarrow> bool \<Rightarrow> listing_parser \<Rightarrow> CDirectoryListing" where
  "listing_of L now path ok st =
     (let listing = CDirectoryListing_default\<lparr>dl_path := path, dl_firstListTime := now\<rparr>
      in if ok then Assign listing (lp_entries st @ map plain_entry (lp_fileList st))
         else or_flags listing_failed listing)"

lemma Parse_lines:
  assumes "converted st" "scanned (lp_inbuf st) (lp_parse_offset st)" "all_lines L st d = (ls, ok, x)"
  shows "fst (Parse L now path (add_data d st)) = listing_of L now path ok (fold (process_line L) ls (core st))"
proof -
  obtain r n where x: "x = (r, n)" by (metis prod.exhaust)
  note pd = ParseData_list [OF assms(1,2), of L False d ls ok r n]
  have l: "line_list L False (lp_inbuf st @ decode (lp_listingEncoding st) d) (lp_parse_offset st) = (ls, ok, r, n)"
    using assms(3) x by (simp add: all_lines_def)
  have e: "lp_entries (snd (ParseData L False (add_data d st))) = lp_entries (fold (process_line L) ls (core st))"
    "lp_fileList (snd (ParseData L False (add_data d st))) = lp_fileList (fold (process_line L) ls (core st))"
    using pd(2) [OF l] core_simps(1,5) by metis+
  show ?thesis
    using pd(1) [OF l] e by (simp add: Parse_def listing_of_def Let_def split_beta)
qed

lemma listing_of_failed: "failed (listing_of L now path False st)"
  by (simp add: listing_of_def failed_def has_flag_bit_def or_flags_def listing_failed_def
      CDirectoryListing_default_def)

text \<open>A parser as the control sockets set it up.\<close>

definition fresh_parser :: "CServer \<Rightarrow> nat \<Rightarrow> int \<Rightarrow> listing_encoding \<Rightarrow> listing_parser" where
  "fresh_parser server limit tz encoding = (parser_new server encoding limit)\<lparr>lp_timezoneOffset := tz\<rparr>"

lemma chunks_known_encoding:
  assumes "encoding \<noteq> enc_unknown"
  shows "case feed L chunks (fresh_parser server limit tz encoding) of
    (ok, st) \<Rightarrow>
      let whole = fst (Parse L now path
            (add_data (concat chunks) (fresh_parser server limit tz encoding)))
      in if ok then fst (Parse L now path st) = whole else failed whole"
proof -
  define st0 where "st0 = fresh_parser server limit tz encoding"
  have ok0: "converted st0" "scanned (lp_inbuf st0) (lp_parse_offset st0)"
    using assms by (simp_all add: st0_def fresh_parser_def parser_new_def converted_def)
  obtain ok st where f: "feed L chunks st0 = (ok, st)" by (metis prod.exhaust)
  obtain ls ok' x where a: "all_lines L st0 (concat chunks) = (ls, ok', x)" by (metis prod_cases3)
  note whole = Parse_lines [OF ok0 a, of now path]
  note fl = feed_lines [OF ok0, of L chunks, unfolded f]
  have "if ok then fst (Parse L now path st) = fst (Parse L now path (add_data (concat chunks) st0))
      else failed (fst (Parse L now path (add_data (concat chunks) st0)))"
  proof (cases ok)
    case True
    then obtain ls1 where 1: "converted st" "scanned (lp_inbuf st) (lp_parse_offset st)"
      "core st = fold (process_line L) ls1 (core st0)"
      "all_lines L st0 (concat chunks) = (case all_lines L st [] of (ls', x) \<Rightarrow> (ls1 @ ls', x))"
      using fl by (auto simp: Let_def)
    obtain ls2 where 2: "all_lines L st [] = (ls2, ok', x)" "ls = ls1 @ ls2"
      using 1(4) a by (auto split: prod.splits)
    have "add_data [] st = st" by (simp add: add_data_def)
    then show ?thesis using Parse_lines [OF 1(1,2) 2(1), of now path] whole True 1(3) 2(2) by simp
  next
    case False
    then have "\<not> ok'" using fl a by simp
    then show ?thesis using whole False listing_of_failed by simp
  qed
  then show ?thesis by (simp add: f Let_def flip: st0_def)
qed

subsection \<open>The encoding is not known\<close>

text \<open>Then nothing is parsed before 512 bytes have arrived or the data ends, and the encoding is
  deduced from what has arrived by then.\<close>

fun first_buffer :: "string \<Rightarrow> string list \<Rightarrow> string" where
  "first_buffer acc [] = acc"
| "first_buffer acc (d # ds) = (if length (acc @ d) < 512 then first_buffer (acc @ d) ds else acc @ d)"

definition deduced_encoding :: "string \<Rightarrow> listing_encoding" where
  "deduced_encoding d = lp_listingEncoding (DeduceEncoding (fresh_parser CServer_default 0 0 enc_unknown\<lparr>lp_inbuf := d\<rparr>))"

lemma deduced_encoding_known: "deduced_encoding d \<noteq> enc_unknown"
  by (simp add: deduced_encoding_def DeduceEncoding_def fresh_parser_def parser_new_def Let_def)

lemma DeduceEncoding_fresh:
  "DeduceEncoding (add_data d (fresh_parser server limit tz enc_unknown))
   = add_data d (fresh_parser server limit tz (deduced_encoding d))"
  by (simp add: deduced_encoding_def DeduceEncoding_def fresh_parser_def parser_new_def add_data_def Let_def)

lemma ParseData_deduced:
  "ParseData L b (add_data d (fresh_parser server limit tz enc_unknown))
   = ParseData L b (add_data d (fresh_parser server limit tz (deduced_encoding d)))"
proof -
  have "ConvertEncoding (add_data d (fresh_parser server limit tz enc_unknown))
      = ConvertEncoding (add_data d (fresh_parser server limit tz (deduced_encoding d)))"
    using DeduceEncoding_fresh [of d server limit tz] deduced_encoding_known [of d]
    by (simp add: ConvertEncoding_def Let_def) (simp add: add_data_def fresh_parser_def parser_new_def)
  then show ?thesis by (simp only: ParseData_def)
qed

lemma Parse_deduced:
  "fst (Parse L now path (add_data d (fresh_parser server limit tz enc_unknown)))
   = fst (Parse L now path (add_data d (fresh_parser server limit tz (deduced_encoding d))))"
  by (simp only: Parse_def ParseData_deduced)

text \<open>Feeding is the same as feeding the first buffer at once to a parser that knows the encoding.\<close>

lemma feed_unknown:
  "feed L ds (add_data acc (fresh_parser server limit tz enc_unknown))
     = (True, add_data (acc @ concat ds) (fresh_parser server limit tz enc_unknown)) \<and>
     first_buffer acc ds = acc @ concat ds \<or>
   (\<exists>ds'. feed L ds (add_data acc (fresh_parser server limit tz enc_unknown))
       = feed L (first_buffer acc ds # ds') (fresh_parser server limit tz (deduced_encoding (first_buffer acc ds))) \<and>
     first_buffer acc ds @ concat ds' = acc @ concat ds)"
proof (induction ds arbitrary: acc)
  case (Cons d ds)
  let ?u = "fresh_parser server limit tz enc_unknown" and ?k = "fresh_parser server limit tz (deduced_encoding (acc @ d))"
  have add: "add_data d (add_data acc ?u) = add_data (acc @ d) ?u" by (simp add: add_data_def)
  have fields: "lp_listingEncoding (add_data x (fresh_parser server limit tz e)) = e"
    "lp_inbuf (add_data x (fresh_parser server limit tz e)) = x"
    "lp_parse_offset (add_data x (fresh_parser server limit tz e)) = 0" for x e
    by (simp_all add: add_data_def fresh_parser_def parser_new_def)
  show ?case
  proof (cases "length (acc @ d) < 512")
    case True
    then have "ProcessAddedData L (add_data (acc @ d) ?u) = (True, add_data (acc @ d) ?u)"
      by (simp add: ProcessAddedData_def fields)
    then show ?thesis using Cons.IH [of "acc @ d"] True add by simp
  next
    case False
    have "ProcessAddedData L (add_data (acc @ d) ?u) = ProcessAddedData L (add_data (acc @ d) ?k)"
      using False deduced_encoding_known [of "acc @ d"] ParseData_deduced [of L True "acc @ d" server limit tz]
      by (simp add: ProcessAddedData_def fields)
    then show ?thesis using False add by (intro disjI2 exI [of _ ds]) simp
  qed
qed simp

text \<open>C3: the data may arrive in any pieces.  When no piece makes the parser give up, the listing is
  the one of the whole data given at once to a parser with the encoding \<open>enc\<close>, and when one does, the
  whole data fails as well.  \<open>enc\<close> is the encoding the parser was given; when that is unknown, which is
  the default, it is the one deduced from what was buffered when parsing began: the pieces up to the
  first 512 bytes, or everything.  So the cut does not matter at all when the encoding is known or the
  first buffer and the whole data give the same deduction.\<close>

theorem listing_chunks_irrelevant:
  "case feed L chunks (fresh_parser server limit tz encoding) of
    (ok, st) \<Rightarrow>
      let enc = (if encoding = enc_unknown then deduced_encoding (first_buffer [] chunks) else encoding);
          whole = (\<lambda>e. fst (Parse L now path (add_data (concat chunks) (fresh_parser server limit tz e))))
      in (if ok then fst (Parse L now path st) = whole enc else failed (whole enc)) \<and>
         (encoding \<noteq> enc_unknown \<or> deduced_encoding (first_buffer [] chunks) = deduced_encoding (concat chunks) \<longrightarrow>
            whole encoding = whole enc)"
proof -
  let ?p = "fresh_parser server limit tz"
  define whole where "whole e = fst (Parse L now path (add_data (concat chunks) (?p e)))" for e
  define enc where "enc = (if encoding = enc_unknown then deduced_encoding (first_buffer [] chunks) else encoding)"
  obtain ok st where f: "feed L chunks (?p encoding) = (ok, st)" by (metis prod.exhaust)
  have known: "if ok' then fst (Parse L now path st') = fst (Parse L now path (add_data (concat ds) (?p e)))
      else failed (fst (Parse L now path (add_data (concat ds) (?p e))))"
    if "feed L ds (?p e) = (ok', st')" "e \<noteq> enc_unknown" for ds e ok' st'
    using chunks_known_encoding [OF that(2), where L = L and chunks = ds and server = server and limit = limit and tz = tz and now = now and path = path] that(1) by (simp add: Let_def)
  have "if ok then fst (Parse L now path st) = whole enc else failed (whole enc)"
  proof (cases "encoding = enc_unknown")
    case False
    then show ?thesis using known [OF f] by (simp add: whole_def enc_def)
  next
    case True
    let ?b = "first_buffer [] chunks"
    have start: "add_data [] (?p enc_unknown) = ?p enc_unknown" by (simp add: add_data_def)
    from feed_unknown [of L chunks "[]" server limit tz, unfolded start] show ?thesis
    proof (elim disjE exE conjE)
      assume "feed L chunks (?p enc_unknown) = (True, add_data ([] @ concat chunks) (?p enc_unknown))" "?b = [] @ concat chunks"
      then show ?thesis using f True Parse_deduced [of L now path "concat chunks" server limit tz]
        by (simp add: whole_def enc_def)
    next
      fix ds' assume 1: "feed L chunks (?p enc_unknown) = feed L (?b # ds') (?p (deduced_encoding ?b))" "?b @ concat ds' = [] @ concat chunks"
      then have cat: "concat (?b # ds') = concat chunks" by simp
      have "feed L (?b # ds') (?p (deduced_encoding ?b)) = (ok, st)" using 1(1) f True by simp
      from known [OF this deduced_encoding_known] show ?thesis
        unfolding cat whole_def enc_def True by (simp only: if_True simp_thms)
    qed
  qed
  moreover have "whole encoding = whole enc"
    if "encoding \<noteq> enc_unknown \<or> deduced_encoding (first_buffer [] chunks) = deduced_encoding (concat chunks)"
    using that Parse_deduced [of L now path "concat chunks" server limit tz] by (auto simp: whole_def enc_def)
  ultimately show ?thesis by (simp add: f Let_def flip: whole_def enc_def)
qed

theorem listing_chunks_irrelevant_witness:
  "let chunks = [''drwx 2 u g 0 J'', ''an 1 2000 x'' @ [CHR 0x0D], CHR 0x0A # ''-''];
       p = fresh_parser CServer_default 100 0;
       whole = (\<lambda>e. fst (Parse listing_lib_std 0 CServerPath_default (add_data (concat chunks) (p e))))
   in (case feed listing_lib_std chunks (p enc_normal) of
         (ok, st) \<Rightarrow> if ok then fst (Parse listing_lib_std 0 CServerPath_default st) = whole enc_normal else failed (whole enc_normal)) \<and>
      (case feed listing_lib_std chunks (p enc_unknown) of
         (ok, st) \<Rightarrow> if ok then fst (Parse listing_lib_std 0 CServerPath_default st) = whole enc_unknown else failed (whole enc_unknown))"
proof -
  let ?chunks = "[''drwx 2 u g 0 J'', ''an 1 2000 x'' @ [CHR 0x0D], CHR 0x0A # ''-'']"
  let ?p = "fresh_parser CServer_default 100 0" and ?parse = "\<lambda>st. fst (Parse listing_lib_std 0 CServerPath_default st)"
  have first: "first_buffer [] ?chunks = concat ?chunks" by code_simp
  have run: "case feed listing_lib_std ?chunks (?p e) of (ok, st) \<Rightarrow>
      if ok then ?parse st = ?parse (add_data (concat ?chunks) (?p e)) else failed (?parse (add_data (concat ?chunks) (?p e)))" for e
  proof -
    obtain ok st where f: "feed listing_lib_std ?chunks (?p e) = (ok, st)" by (metis prod.exhaust)
    note t = listing_chunks_irrelevant [where L = listing_lib_std and chunks = ?chunks and server = CServer_default
        and limit = 100 and tz = 0 and encoding = e and now = 0 and path = CServerPath_default,
        unfolded f prod.case Let_def first]
    then have "?parse (add_data (concat ?chunks) (?p e)) = ?parse (add_data (concat ?chunks)
        (?p (if e = enc_unknown then deduced_encoding (concat ?chunks) else e)))" by blast
    then show ?thesis unfolding f prod.case using t by metis
  qed
  show ?thesis unfolding Let_def using run [of enc_normal] run [of enc_unknown] by blast
qed

text \<open>The deductions need not agree: here the first 512 bytes look like EBCDIC, and one line feed more
  makes the whole data look like text.\<close>

lemma deduction_depends_on_cut:
  "let a = [CHR 0x15, CHR 0x81] @ replicate 510 (CHR 0x40); b = [CHR 0x0A]
   in deduced_encoding (first_buffer [] [a, b]) = enc_ebcdic \<and> deduced_encoding (first_buffer [] [a @ b]) = enc_normal"
proof -
  define a where "a = [CHR 0x15, CHR 0x81] @ replicate 510 (CHR 0x40)"
  have len: "length a = 512" by (simp add: a_def)
  have count: "count_in C a = (if 0x15 \<in> C then 1 else 0) + (if 0x81 \<in> C then 1 else 0) + (if 0x40 \<in> C then 510 else 0)"
    "count_in C (a @ [CHR 0x0A]) = count_in C a + (if 0x0A \<in> C then 1 else 0)" for C
    by (simp_all add: count_in_def a_def)
  have "deduced_encoding a = enc_ebcdic" "deduced_encoding (a @ [CHR 0x0A]) = enc_normal"
    by (simp_all add: deduced_encoding_def DeduceEncoding_def fresh_parser_def parser_new_def len count
        normal_codes_def ebcdic_codes_def Let_def)
  moreover have "first_buffer [] [a, [CHR 0x0A]] = a" "first_buffer [] [a @ [CHR 0x0A]] = a @ [CHR 0x0A]" by (simp_all add: len)
  ultimately show ?thesis by (simp only: Let_def simp_thms flip: a_def)
qed

end
