(* ===== verification/Listing_Words.thy ===== *)
theory Listing_Words
  imports Listing_Token
begin

text \<open>
  The words of a line, and that the lazy \<open>CLine\<close> of \<open>Listing_Token\<close> returns exactly
  them: whatever was asked before, the token \<open>n\<close> is the word \<open>n\<close> of the line.
\<close>

subsection \<open>The words of a line\<close>

function line_words :: "nat \<Rightarrow> wstring \<Rightarrow> (nat \<times> wstring) list" where
  "line_words off s =
     (let b = length (takeWhile is_blank s); r = dropWhile is_blank s
      in if r = [] then []
         else let w = takeWhile (\<lambda>c. \<not> is_blank c) r
              in (off + b, w) # line_words (off + b + length w) (dropWhile (\<lambda>c. \<not> is_blank c) r))"
  by pat_completeness auto
termination
proof (relation "measure (\<lambda>(off, s). length s)", goal_cases)
  case (2 off s b r w)
  then have ne: "r \<noteq> []" and r: "r = dropWhile is_blank s" by metis+
  then obtain c cs where c: "r = c # cs" by (meson neq_Nil_conv)
  then have "\<not> is_blank c" using r ne by (metis hd_dropWhile list.sel(1))
  then have "length (dropWhile (\<lambda>c. \<not> is_blank c) r) \<le> length cs"
    using c by (simp add: length_dropWhile_le)
  also have "\<dots> < length s" using c r length_dropWhile_le [of is_blank s] by simp
  finally show ?case by simp
qed simp

declare line_words.simps [simp del]

definition words :: "wstring \<Rightarrow> wstring list" where
  "words s = map snd (line_words 0 s)"

lemma line_words_Nil [simp]: "line_words off [] = []"
  by (subst line_words.simps) simp

lemma line_words_blank [simp]: "is_blank c \<Longrightarrow> line_words off (c # s) = line_words (Suc off) s"
  by (subst line_words.simps, subst (2) line_words.simps) (simp add: Let_def)

lemma line_words_blanks: "list_all is_blank b \<Longrightarrow> line_words off (b @ s) = line_words (off + length b) s"
  by (induction b arbitrary: off) auto

lemma line_words_word:
  assumes "w \<noteq> []" and "list_all (\<lambda>c. \<not> is_blank c) w" and "s = [] \<or> is_blank (hd s)"
  shows "line_words off (w @ s) = (off, w) # line_words (off + length w) s"
proof -
  obtain c cs where w: "w = c # cs" using assms(1) by (cases w) auto
  have c: "\<not> is_blank c" and cs: "\<forall>x \<in> set cs. \<not> is_blank x"
    using assms(2) w by (auto simp: list_all_iff)
  have t: "takeWhile (\<lambda>c. \<not> is_blank c) (cs @ s) = cs" "dropWhile (\<lambda>c. \<not> is_blank c) (cs @ s) = s"
    using cs assms(3) by (cases s; auto)+
  show ?thesis using w c t by (subst line_words.simps) (simp add: Let_def)
qed

subsection \<open>The scanning loop\<close>

definition rest_words :: "wstring \<Rightarrow> nat \<Rightarrow> (nat \<times> wstring) list" where
  "rest_words line pos = line_words pos (drop pos line)"

lemma rest_words_end [simp]: "length line \<le> pos \<Longrightarrow> rest_words line pos = []"
  by (simp add: rest_words_def)

lemma rest_words_skip: "rest_words line (skip_blanks line pos) = rest_words line pos"
proof -
  have "drop pos line = takeWhile is_blank (drop pos line) @ drop (skip_blanks line pos) line"
    by (metis add.commute drop_drop dropWhile_eq_drop skip_blanks_def takeWhile_dropWhile_id)
  moreover have "list_all is_blank (takeWhile is_blank (drop pos line))"
    by (auto simp: list_all_iff dest: set_takeWhileD)
  ultimately show ?thesis
    unfolding rest_words_def skip_blanks_def
    by (metis line_words_blanks)
qed

lemma skip_blanks_stop: "skip_blanks line pos < length line \<Longrightarrow> \<not> is_blank (line ! skip_blanks line pos)"
proof -
  assume "skip_blanks line pos < length line"
  then have "length (takeWhile is_blank (drop pos line)) < length (drop pos line)"
    by (simp add: skip_blanks_def)
  from nth_length_takeWhile [OF this] show ?thesis
    using \<open>skip_blanks line pos < length line\<close> by (simp add: skip_blanks_def)
qed

lemma skip_blanks_le: "pos \<le> length line \<Longrightarrow> skip_blanks line pos \<le> length line"
  unfolding skip_blanks_def using length_takeWhile_le [of is_blank "drop pos line"] by simp

lemma rest_words_step:
  assumes "start < pos" "pos \<le> length line" "\<forall>i. start \<le> i \<longrightarrow> i < pos \<longrightarrow> \<not> is_blank (line ! i)"
    and "pos < length line \<Longrightarrow> is_blank (line ! pos)"
  shows "rest_words line start = (start, take (pos - start) (drop start line)) # rest_words line pos"
proof -
  let ?w = "take (pos - start) (drop start line)"
  have split: "drop start line = ?w @ drop pos line"
    using assms(1) append_take_drop_id [of "pos - start" "drop start line"] by simp
  have w: "?w \<noteq> []" "length ?w = pos - start" using assms(1,2) by auto
  have nb: "list_all (\<lambda>c. \<not> is_blank c) ?w"
    using assms(1-3) by (auto simp: list_all_length)
  have hd: "drop pos line = [] \<or> is_blank (hd (drop pos line))"
    using assms(4) by (cases "pos < length line") (auto simp: hd_drop_conv_nth)
  show ?thesis
    unfolding rest_words_def
    by (subst split, subst line_words_word [OF w(1) nb hd]) (use w(2) assms(1) in simp)
qed

lemma token_loop_correct:
  assumes "start \<le> pos" "\<forall>i. start \<le> i \<longrightarrow> i < pos \<longrightarrow> i < length line \<longrightarrow> \<not> is_blank (line ! i)"
    and "start < length line \<longrightarrow> \<not> is_blank (line ! start)"
    and "pos \<le> length line \<or> start = length line"
    and "token_loop line n start pos toks = (toks', pos', so)"
  shows "(case so of
            None \<Rightarrow> toks' @ rest_words line pos' = toks @ rest_words line start \<and> n < length toks' \<and>
                     pos' \<le> length line \<and> (pos' < length line \<longrightarrow> \<not> is_blank (line ! pos'))
          | Some s \<Rightarrow> length line \<le> pos' \<and> s \<le> length line \<and> (s < length line \<longrightarrow> pos' = length line) \<and>
                     toks' @ (if s < length line then [(s, drop s line)] else []) = toks @ rest_words line start)"
  using assms
proof (induction line n start pos toks arbitrary: toks' pos' so rule: token_loop.induct)
  case (1 line n start pos toks)
  show ?case
  proof (cases "pos < length line")
    case False
    then have r: "toks' = toks" "pos' = pos" "so = Some start"
      using 1(7) by (auto simp: token_loop.simps [of line])
    show ?thesis
    proof (cases "start < length line")
      case True
      then have "pos = length line" using False 1(6) by simp
      then show ?thesis
        using True r rest_words_step [of start pos line] 1(4) by simp
    qed (use False r 1(3,6) in auto)
  next
    case True
    show ?thesis
    proof (cases "is_blank (line ! pos)")
      case False
      have "token_loop line n start (Suc pos) toks = (toks', pos', so)"
        using 1(7) True False by (simp add: token_loop.simps [of line n start pos])
      then show ?thesis
        using 1(2) [OF True False] 1(3,4,5) True False by (auto simp: less_Suc_eq)
    next
      case blank: True
      let ?t = "toks @ [(start, take (pos - start) (drop start line))]"
      let ?p = "skip_blanks line pos"
      have lt: "start < pos" using 1(3,5) True blank by (cases "start = pos") auto
      have step: "rest_words line start = (start, take (pos - start) (drop start line)) # rest_words line ?p"
        using rest_words_step [of start pos line] lt True 1(4) blank by (simp add: rest_words_skip)
      have le: "?p \<le> length line" using True by (simp add: skip_blanks_le)
      show ?thesis
      proof (cases "n < length ?t")
        case True
        then have "toks' = ?t" "pos' = ?p" "so = None"
          using 1(7) \<open>pos < length line\<close> blank
          by (auto simp: token_loop.simps [of line n start pos] Let_def)
        then show ?thesis using step le skip_blanks_stop True by simp
      next
        case False
        then have rec: "token_loop line n ?p (Suc ?p) ?t = (toks', pos', so)"
          using 1(7) \<open>pos < length line\<close> blank
          by (simp add: token_loop.simps [of line n start pos] Let_def)
        have p: "?p \<le> Suc ?p" "?p < length line \<longrightarrow> \<not> is_blank (line ! ?p)"
          "\<forall>i. ?p \<le> i \<longrightarrow> i < Suc ?p \<longrightarrow> i < length line \<longrightarrow> \<not> is_blank (line ! i)"
          "Suc ?p \<le> length line \<or> ?p = length line"
          using skip_blanks_stop le by (auto simp: le_less_Suc_eq)
        have q: "toks @ rest_words line start = ?t @ rest_words line ?p" using step by simp
        show ?thesis
          unfolding q by (rule 1(1) [OF \<open>pos < length line\<close> blank refl refl False p(1,3,2,4) rec])
      qed
    qed
  qed
qed

subsection \<open>Lazy and eager tokens agree\<close>

text \<open>What holds of a line after any number of requests.  When the line ends in blanks the code
  can append one empty token, which is no different from no token.\<close>

definition line_ok :: "CLine \<Rightarrow> bool" where
  "line_ok l \<longleftrightarrow>
     (cl_tokens l @ rest_words (cl_line l) (cl_parsePos l) = line_words 0 (cl_line l) \<and>
      (cl_parsePos l < length (cl_line l) \<longrightarrow> \<not> is_blank (cl_line l ! cl_parsePos l)) \<or>
      length (cl_line l) < cl_parsePos l \<and> cl_tokens l = line_words 0 (cl_line l) @ [(length (cl_line l), [])])"

lemma line_ok_new: "line_ok (CLine_new line trailing)"
  using skip_blanks_stop [of line 0] rest_words_skip [of line 0]
  by (simp add: line_ok_def CLine_new_def) (simp add: rest_words_def)

lemma GetToken_line [simp]: "cl_line (snd (CLine_GetToken l n)) = cl_line l"
  and GetToken_trailing [simp]: "cl_trailing (snd (CLine_GetToken l n)) = cl_trailing l"
  by (auto simp: CLine_GetToken_def Let_def split: prod.splits option.splits)

definition nth_word :: "wstring \<Rightarrow> nat \<Rightarrow> wstring" where
  "nth_word line n = (if n < length (words line) then words line ! n else [])"

lemma GetToken_ok:
  assumes "line_ok l"
  shows "line_ok (snd (CLine_GetToken l n)) \<and>
    (let t = fst (CLine_GetToken l n); ws = line_words 0 (cl_line l)
     in if n < length ws then t = ws ! n else snd t = [])"
proof -
  let ?line = "cl_line l" and ?ws = "line_words 0 (cl_line l)"
  show ?thesis
  proof (cases "n < length (cl_tokens l)")
    case True
    have "n < length ?ws \<and> cl_tokens l ! n = ?ws ! n \<or> \<not> n < length ?ws \<and> snd (cl_tokens l ! n) = []"
      using assms True unfolding line_ok_def
    proof (elim disjE conjE)
      assume "cl_tokens l @ rest_words ?line (cl_parsePos l) = ?ws"
      then show ?thesis using True by (metis length_append nth_append trans_less_add1)
    next
      assume "cl_tokens l = ?ws @ [(length ?line, [])]"
      then show ?thesis using True by (auto simp: nth_append)
    qed
    then show ?thesis
      using assms True by (auto simp: CLine_GetToken_def Let_def)
  next
    case False
    obtain toks pos so where tl: "token_loop ?line n (cl_parsePos l) (cl_parsePos l) (cl_tokens l) = (toks, pos, so)"
      by (metis prod_cases3)
    show ?thesis
    proof (cases "length ?line < cl_parsePos l")
      case True
      then have "toks = cl_tokens l \<and> pos = cl_parsePos l \<and> so = Some (cl_parsePos l)"
        using tl by (auto simp: token_loop.simps [of ?line])
      then show ?thesis
        using True False assms tl
        by (auto simp: CLine_GetToken_def line_ok_def Let_def token_view_def)
    next
      case le: False
      then have ok: "cl_tokens l @ rest_words ?line (cl_parsePos l) = ?ws"
        "cl_parsePos l < length ?line \<longrightarrow> \<not> is_blank (?line ! cl_parsePos l)"
        using assms by (auto simp: line_ok_def)
      note c = token_loop_correct [OF order_refl _ ok(2) _ tl]
      show ?thesis
      proof (cases so)
        case None
        then have r: "toks @ rest_words ?line pos = ?ws" "n < length toks"
          "pos < length ?line \<longrightarrow> \<not> is_blank (?line ! pos)"
          using c le ok(1) by auto
        then show ?thesis
          using None False tl
          by (auto simp: CLine_GetToken_def line_ok_def Let_def token_view_def nth_append simp flip: r(1))
      next
        case (Some s)
        then have r: "length ?line \<le> pos" "s \<le> length ?line" "s < length ?line \<longrightarrow> pos = length ?line"
          "toks @ (if s < length ?line then [(s, drop s ?line)] else []) = ?ws"
          using c le ok(1) by auto
        define toks' where "toks' = (if pos \<noteq> s then toks @ [(s, take (pos - s) (drop s ?line))] else toks)"
        have g: "CLine_GetToken l n =
            (token_view (l\<lparr>cl_tokens := toks', cl_parsePos := pos\<rparr>) n, l\<lparr>cl_tokens := toks', cl_parsePos := pos\<rparr>)"
          using False Some tl by (simp add: CLine_GetToken_def Let_def toks'_def)
        have t: "toks' = ?ws \<or> length ?line < pos \<and> toks' = ?ws @ [(length ?line, [])]"
          using r unfolding toks'_def by (cases "s < length ?line"; cases "pos = s") auto
        show ?thesis
          unfolding g using t r(1) by (auto simp: line_ok_def token_view_def Let_def nth_append)
      qed
    qed
  qed
qed


text \<open>The end tokens: from word \<open>n\<close> to the end of the line without trailing blanks, or what
  follows the one blank after word \<open>n - 1\<close>, blanks included.\<close>

definition blanks_at_end :: "wstring \<Rightarrow> nat option \<Rightarrow> nat" where
  "blanks_at_end line trailing = (case trailing of None \<Rightarrow> trailing_blanks line | Some k \<Rightarrow> k)"

definition end_word :: "wstring \<Rightarrow> nat option \<Rightarrow> nat \<Rightarrow> wstring" where
  "end_word line trailing n =
     (let ws = line_words 0 line
      in if n < length ws
         then take (length line - blanks_at_end line trailing - fst (ws ! n)) (drop (fst (ws ! n)) line)
         else [])"

definition rest_after_word :: "wstring \<Rightarrow> nat \<Rightarrow> wstring" where
  "rest_after_word line n =
     (let ws = line_words 0 line; i = n - 1
      in if i < length ws then drop (fst (ws ! i) + length (snd (ws ! i)) + 1) line else [])"

datatype line_request = Ask_token nat | Ask_end_token nat bool

fun ask :: "CLine \<Rightarrow> line_request \<Rightarrow> wstring \<times> CLine" where
  "ask l (Ask_token n) = (snd (fst (CLine_GetToken l n)), snd (CLine_GetToken l n))"
| "ask l (Ask_end_token n b) = (snd (fst (CLine_GetEndToken l n b)), snd (CLine_GetEndToken l n b))"

definition ask_all :: "CLine \<Rightarrow> line_request list \<Rightarrow> CLine" where
  "ask_all l qs = fold (\<lambda>q l. snd (ask l q)) qs l"

fun eager_answer :: "wstring \<Rightarrow> nat option \<Rightarrow> line_request \<Rightarrow> wstring" where
  "eager_answer line trailing (Ask_token n) = nth_word line n"
| "eager_answer line trailing (Ask_end_token n b) =
     (if b then rest_after_word line n else end_word line trailing n)"

definition line_inv :: "wstring \<Rightarrow> nat option \<Rightarrow> CLine \<Rightarrow> bool" where
  "line_inv line trailing l \<longleftrightarrow>
     line_ok l \<and> cl_line l = line \<and>
     (cl_trailing l = trailing \<or> trailing = None \<and> cl_trailing l = Some (trailing_blanks line))"

lemma line_ok_trailing [simp]: "line_ok (l\<lparr>cl_trailing := t\<rparr>) = line_ok l"
  by (simp add: line_ok_def)

lemma GetToken_words:
  assumes "line_ok l"
  shows "n < length (line_words 0 (cl_line l)) \<Longrightarrow> fst (CLine_GetToken l n) = line_words 0 (cl_line l) ! n"
    and "\<not> n < length (line_words 0 (cl_line l)) \<Longrightarrow> snd (fst (CLine_GetToken l n)) = []"
    and "snd (fst (CLine_GetToken l n)) = nth_word (cl_line l) n"
    and "line_ok (snd (CLine_GetToken l n))"
  using GetToken_ok [OF assms, of n] by (auto simp: Let_def nth_word_def words_def split: if_splits)

lemma words_nonempty: "(i, w) \<in> set (line_words off s) \<Longrightarrow> w \<noteq> []"
proof (induction off s rule: line_words.induct)
  case (1 off s)
  define r where "r = dropWhile is_blank s"
  define w' where "w' = takeWhile (\<lambda>c. \<not> is_blank c) r"
  have ws: "line_words off s = (if r = [] then [] else (off + length (takeWhile is_blank s), w') #
      line_words (off + length (takeWhile is_blank s) + length w') (dropWhile (\<lambda>c. \<not> is_blank c) r))"
    by (subst line_words.simps) (simp only: Let_def r_def w'_def)
  then have r: "r \<noteq> []" using 1(2) by (auto split: if_splits)
  then have "\<not> is_blank (hd r)" unfolding r_def by (rule hd_dropWhile)
  then have "w' \<noteq> []" using r by (cases r) (auto simp: w'_def)
  moreover have "(i, w) = (off + length (takeWhile is_blank s), w') \<or>
      (i, w) \<in> set (line_words (off + length (takeWhile is_blank s) + length w')
        (dropWhile (\<lambda>c. \<not> is_blank c) r))"
    using 1(2) ws r by simp
  ultimately show ?case
    using 1(1) [OF refl refl r [unfolded r_def] refl] by (fold r_def, fold w'_def) auto
qed

lemma nth_word_nonempty: "n < length (line_words 0 s) \<Longrightarrow> snd (line_words 0 s ! n) \<noteq> []"
  by (metis nth_mem prod.collapse words_nonempty)

lemma GetEndToken_inv:
  assumes "line_inv line trailing l"
  shows "snd (fst (CLine_GetEndToken l n b)) = eager_answer line trailing (Ask_end_token n b) \<and>
    line_inv line trailing (snd (CLine_GetEndToken l n b))"
proof (cases b)
  case True
  define k where "k = n - Suc 0"
  have ok: "line_ok l" "cl_line l = line" using assms by (simp_all add: line_inv_def)
  obtain t l1 where g: "CLine_GetToken l k = (t, l1)" by (metis prod.exhaust)
  have inv: "line_inv line trailing l1"
    using assms GetToken_words(4) [OF ok(1), of k] GetToken_line [of l k] GetToken_trailing [of l k]
    by (simp add: line_inv_def g)
  have "snd t \<noteq> [] \<longleftrightarrow> k < length (line_words 0 line)"
    "k < length (line_words 0 line) \<Longrightarrow> t = line_words 0 line ! k"
    using GetToken_words [OF ok(1), of k] nth_word_nonempty [of k line] ok(2) g by auto
  moreover have "cl_line l1 = line" using inv by (simp add: line_inv_def)
  moreover have "(if n \<noteq> 0 then n - 1 else n) = k" by (simp add: k_def)
  ultimately show ?thesis
    using True g inv unfolding CLine_GetEndToken_def rest_after_word_def eager_answer.simps Let_def
    by (cases "k < length (line_words 0 line)") (simp_all flip: k_def)
next
  case False
  define l0 where "l0 = (if cl_trailing l = None \<and> cl_line l \<noteq> []
                  then l\<lparr>cl_trailing := Some (trailing_blanks (cl_line l))\<rparr> else l)"
  have ok: "line_ok l0" "cl_line l0 = line" "line_inv line trailing l0"
    "line \<noteq> [] \<Longrightarrow> the (cl_trailing l0) = blanks_at_end line trailing"
    using assms by (auto simp: line_inv_def l0_def blanks_at_end_def)
  obtain t l1 where g: "CLine_GetToken l0 n = (t, l1)" by (metis prod.exhaust)
  have inv: "line_inv line trailing l1" and tr: "cl_trailing l1 = cl_trailing l0" and ln: "cl_line l1 = line"
    using ok(2,3) GetToken_words(4) [OF ok(1), of n] GetToken_line [of l0 n] GetToken_trailing [of l0 n]
    by (simp_all add: line_inv_def g)
  have "snd t \<noteq> [] \<longleftrightarrow> n < length (line_words 0 line)"
    "n < length (line_words 0 line) \<Longrightarrow> t = line_words 0 line ! n"
    using GetToken_words [OF ok(1), of n] nth_word_nonempty [of n line] ok(2) g by auto
  moreover have "n < length (line_words 0 line) \<Longrightarrow> line \<noteq> []" by auto
  ultimately show ?thesis
    using False g inv tr ln ok(4)
    by (auto simp: CLine_GetEndToken_def end_word_def Let_def simp flip: l0_def)
qed

lemma line_inv_new: "line_inv line trailing (CLine_new line trailing)"
  using line_ok_new [of line trailing] by (simp add: line_inv_def) (simp add: CLine_new_def)

lemma ask_inv: "line_inv line trailing l \<Longrightarrow> line_inv line trailing (snd (ask l q))"
  using GetEndToken_inv [of line trailing l] GetToken_words(4) [of l]
    GetToken_line [of l] GetToken_trailing [of l]
  by (cases q) (auto simp: line_inv_def)

lemma ask_all_inv: "line_inv line trailing l \<Longrightarrow> line_inv line trailing (ask_all l qs)"
  unfolding ask_all_def by (induction qs arbitrary: l) (auto dest: ask_inv)

lemma ask_answer: "line_inv line trailing l \<Longrightarrow> fst (ask l q) = eager_answer line trailing q"
  using GetEndToken_inv [of line trailing l] GetToken_words(3) [of l]
  by (cases q) (simp_all add: line_inv_def)

text \<open>C39: a line is split lazily, yet every request for a token or for the rest of the line gets the
  answer that splitting the whole line at once gives, whatever was requested before.\<close>

theorem lazy_tokens:
  "fst (ask (ask_all (CLine_new line trailing) requests) q) = eager_answer line trailing q"
  by (rule ask_answer [OF ask_all_inv [OF line_inv_new]])

lemma GetToken_new [simp]: "GetToken (CLine_new line trailing) n = nth_word line n"
  using ask_answer [OF line_inv_new, of line trailing "Ask_token n"]
  by (simp add: GetToken_def)

lemma GetEndToken_new [simp]:
  "GetEndToken (CLine_new line trailing) n b =
     (if b then rest_after_word line n else end_word line trailing n)"
  using ask_answer [OF line_inv_new, of line trailing "Ask_end_token n b"]
  by (simp add: GetEndToken_def)

end
