(* ===== verification/Listing_Unix.thy ===== *)
theory Listing_Unix
  imports Listing_Chunks Listing_Number Listing_Words
begin

text \<open>
  The listings of \<open>ls -l\<close>: what a Unix server prints is read back, entry by entry, with any
  padding between the columns and in any pieces.
\<close>

subsection \<open>Lines of padded words\<close>

definition padded :: "(wstring \<times> wstring) list \<Rightarrow> wstring" where
  "padded ws = concat (map (\<lambda>(w, b). w @ b) ws)"

definition word_ok :: "wstring \<Rightarrow> bool" where
  "word_ok w \<longleftrightarrow> w \<noteq> [] \<and> list_all (\<lambda>c. \<not> is_blank c) w"

definition pad_ok :: "wstring \<Rightarrow> bool" where
  "pad_ok b \<longleftrightarrow> b \<noteq> [] \<and> list_all is_blank b"

lemma padded_words:
  assumes "list_all (\<lambda>(w, b). word_ok w \<and> pad_ok b) ws"
  shows "\<exists>os. length os = length ws \<and>
    line_words off (padded ws @ s) = zip os (map fst ws) @ line_words (off + length (padded ws)) s"
  using assms
proof (induction ws arbitrary: off)
  case Nil
  show ?case by (simp add: padded_def)
next
  case (Cons p ws)
  obtain w b where p: "p = (w, b)" by (cases p)
  have w: "w \<noteq> []" "list_all (\<lambda>c. \<not> is_blank c) w" and b: "b \<noteq> []" "list_all is_blank b"
    using Cons.prems p by (simp_all add: word_ok_def pad_ok_def)
  let ?rest = "padded ws @ s"
  obtain os where os: "length os = length ws"
    "line_words (off + length w + length b) ?rest =
      zip os (map fst ws) @ line_words (off + length w + length b + length (padded ws)) s"
    using Cons.IH [of "off + length w + length b"] Cons.prems by auto
  have "is_blank (hd (b @ ?rest))" using b by (cases b) simp_all
  then have "line_words off (w @ b @ ?rest) = (off, w) # line_words (off + length w) (b @ ?rest)"
    by (intro line_words_word w) simp
  also have "line_words (off + length w) (b @ ?rest) = line_words (off + length w + length b) ?rest"
    using b(2) by (rule line_words_blanks)
  finally have "line_words off (w @ b @ ?rest) =
      zip (off # os) (w # map fst ws) @ line_words (off + length w + length b + length (padded ws)) s"
    using os(2) by simp
  moreover have "padded (p # ws) = w @ b @ padded ws" by (simp add: padded_def p)
  ultimately show ?case using os(1) by (intro exI [of _ "off # os"]) (simp add: p add.assoc)
qed

lemma padded_tokens:
  assumes "list_all (\<lambda>(w, b). word_ok w \<and> pad_ok b) ws" "i < length ws"
  shows "nth_word (padded ws @ s) i = fst (ws ! i)"
proof -
  obtain os where os: "length os = length ws"
    "line_words 0 (padded ws @ s) = zip os (map fst ws) @ line_words (0 + length (padded ws)) s"
    using padded_words [OF assms(1)] by blast
  have "map snd (zip os (map fst ws)) = map fst ws" using os(1) by simp
  then have "words (padded ws @ s) = map fst ws @ map snd (line_words (length (padded ws)) s)"
    by (simp add: words_def os(2))
  then show ?thesis using assms(2) by (simp add: nth_word_def nth_append)
qed

lemma padded_end_word:
  assumes "list_all (\<lambda>(w, b). word_ok w \<and> pad_ok b) ws"
    and "s \<noteq> []" "\<not> is_blank (hd s)" "\<not> is_blank (last s)"
  shows "end_word (padded ws @ s) None (length ws) = s"
proof -
  obtain os where os: "length os = length ws"
    "line_words 0 (padded ws @ s) = zip os (map fst ws) @ line_words (length (padded ws)) s"
    using padded_words [OF assms(1), of 0 s] by auto
  define w where "w = takeWhile (\<lambda>c. \<not> is_blank c) s"
  have d: "dropWhile is_blank s = s" "takeWhile is_blank s = []" using assms(2,3) by (cases s; simp)+
  have "line_words (length (padded ws)) s =
      (length (padded ws), w) # line_words (length (padded ws) + length w) (dropWhile (\<lambda>c. \<not> is_blank c) s)"
    using assms(2) by (subst line_words.simps) (simp only: d Let_def w_def list.size if_False add_0_right)
  then have ws: "length ws < length (line_words 0 (padded ws @ s))"
    "fst (line_words 0 (padded ws @ s) ! length ws) = length (padded ws)"
    using os by (simp_all add: nth_append)
  have "trailing_blanks (padded ws @ s) = 0"
    using assms(2,4) by (simp add: trailing_blanks_def hd_rev takeWhile_eq_Nil_iff)
  then show ?thesis using ws by (simp add: end_word_def blanks_at_end_def Let_def)
qed

subsection \<open>What a Unix server prints\<close>

datatype unix_stamp = Stamp_year nat | Stamp_time nat nat

record unix_line =
  ul_perms :: wstring
  ul_links :: nat
  ul_owner :: wstring
  ul_group :: wstring
  ul_size :: nat
  ul_month :: nat
  ul_day :: nat
  ul_stamp :: unix_stamp
  ul_name :: wstring
  ul_target :: "wstring option"
  ul_pads :: "wstring list"

definition english_months :: "wstring list" where
  "english_months = [''Jan'', ''Feb'', ''Mar'', ''Apr'', ''May'', ''Jun'', ''Jul'', ''Aug'', ''Sep'', ''Oct'',
     ''Nov'', ''Dec'']"

fun stamp_text :: "unix_stamp \<Rightarrow> wstring" where
  "stamp_text (Stamp_year y) = show_nat y"
| "stamp_text (Stamp_time h m) = show_02d h @ '':'' @ show_02d m"

definition unix_words :: "unix_line \<Rightarrow> wstring list" where
  "unix_words r = [ul_perms r, show_nat (ul_links r), ul_owner r, ul_group r, show_nat (ul_size r),
     english_months ! (ul_month r - 1), show_nat (ul_day r), stamp_text (ul_stamp r)]"

definition unix_name_text :: "unix_line \<Rightarrow> wstring" where
  "unix_name_text r = ul_name r @ (case ul_target r of None \<Rightarrow> [] | Some t \<Rightarrow> '' -> '' @ t)"

definition unix_text :: "unix_line \<Rightarrow> wstring" where
  "unix_text r = padded (zip (unix_words r) (ul_pads r)) @ unix_name_text r"

fun stamp_ok :: "unix_stamp \<Rightarrow> bool" where
  "stamp_ok (Stamp_year y) \<longleftrightarrow> 1900 \<le> y \<and> y \<le> 3000"
| "stamp_ok (Stamp_time h m) \<longleftrightarrow> h < 24 \<and> m < 60"

text \<open>The year of a time without a year; the day must exist in it.\<close>

definition stamp_year :: "listing_lib \<Rightarrow> unix_line \<Rightarrow> int" where
  "stamp_year L r =
     (case ul_stamp r of
        Stamp_year y \<Rightarrow> int y
      | Stamp_time h m \<Rightarrow>
          guess_year L \<lparr>ud_year = -1, ud_month = int (ul_month r), ud_day = int (ul_day r), ud_dateMonth = [],
                        ud_mayHaveTime = True, ud_bHasYearAndTime = False, ud_index = 0\<rparr>)"

definition unix_line_ok :: "listing_lib \<Rightarrow> unix_line \<Rightarrow> bool" where
  "unix_line_ok L r \<longleftrightarrow>
     length (ul_pads r) = 8 \<and> list_all pad_ok (ul_pads r) \<and>
     word_ok (ul_perms r) \<and> word_ok (ul_owner r) \<and> word_ok (ul_group r) \<and>
     2 \<le> length (ul_perms r) \<and> hd (ul_perms r) \<in> set ''bcdlps-'' \<and> CHR ''='' \<notin> set (ul_perms r) \<and>
     int (ul_size r) \<le> int64_max \<and> 1 \<le> ul_month r \<and> ul_month r \<le> 12 \<and> stamp_ok (ul_stamp r) \<and>
     valid_date (stamp_year L r) (int (ul_month r)) (int (ul_day r)) \<and>
     ul_name r \<noteq> [] \<and> \<not> is_blank (hd (ul_name r)) \<and> \<not> is_blank (last (unix_name_text r)) \<and>
     last (unix_name_text r) \<notin> set ''/|*'' \<and>
     (ul_target r \<noteq> None \<longrightarrow> hd (ul_perms r) = CHR ''l'') \<and>
     (hd (ul_perms r) = CHR ''l'' \<longrightarrow>
       find_sub '' -> '' (unix_name_text r) = (if ul_target r = None then None else Some (length (ul_name r))))"

text \<open>The entry that the line describes.\<close>

definition unix_time :: "listing_lib \<Rightarrow> unix_line \<Rightarrow> datetime" where
  "unix_time L r =
     (let y = stamp_year L r; m = int (ul_month r); d = int (ul_day r)
      in snd (case ul_stamp r of
                Stamp_year _ \<Rightarrow> ll_dt_set L None y m d (-1) (-1)
              | Stamp_time h mi \<Rightarrow> ll_dt_set L None y m d (int h) (int mi)))"

definition unix_entry :: "listing_lib \<Rightarrow> int \<Rightarrow> unix_line \<Rightarrow> CDirentry" where
  "unix_entry L tz r =
     \<lparr>de_name = ul_name r, de_size = int (ul_size r), de_permissions = ul_perms r,
      de_ownerGroup = ul_owner r @ '' '' @ ul_group r, de_target = ul_target r,
      de_time = ll_dt_add L (unix_time L r) tz,
      de_flags = (if hd (ul_perms r) = CHR ''l'' then flag_dir OR flag_link
                  else if hd (ul_perms r) = CHR ''d'' then flag_dir else 0)\<rparr>"

subsection \<open>The words of a printed line\<close>

lemma digits_word: "w \<noteq> [] \<Longrightarrow> \<forall>c \<in> set w. is_digit c \<Longrightarrow> word_ok w"
  by (auto simp: word_ok_def list_all_iff is_blank_def is_digit_code)

lemma show_nat_word: "word_ok (show_nat n)"
  using show_nat_digits by (intro digits_word) auto

lemma show_02d_digits: "show_02d n \<noteq> []" "\<forall>c \<in> set (show_02d n). is_digit c"
  using show_nat_digits [of n] by (auto simp: show_02d_def is_digit_def)

lemma num_value_02d: "num_value 0 (show_02d n) = n"
  by (simp add: show_02d_def num_value_show digit_val_def)

lemma month_word: "1 \<le> m \<Longrightarrow> m \<le> 12 \<Longrightarrow> word_ok (english_months ! (m - 1))"
proof -
  have "list_all word_ok english_months" by (simp add: english_months_def word_ok_def is_blank_def)
  moreover assume "1 \<le> m" "m \<le> 12"
  ultimately show ?thesis by (simp add: list_all_length english_months_def)
qed

lemma stamp_word: "word_ok (stamp_text s)"
proof (cases s)
  case (Stamp_time h m)
  then show ?thesis
    using digits_word [OF show_02d_digits, of h] digits_word [OF show_02d_digits, of m]
    by (simp add: word_ok_def is_blank_def)
qed (simp add: show_nat_word)

lemma unix_line_words:
  assumes "unix_line_ok L r"
  shows "list_all (\<lambda>(w, b). word_ok w \<and> pad_ok b) (zip (unix_words r) (ul_pads r))"
    and "length (zip (unix_words r) (ul_pads r)) = 8"
proof -
  have "list_all word_ok (unix_words r)"
    using assms show_nat_word month_word stamp_word by (simp add: unix_line_ok_def unix_words_def)
  moreover have "list_all pad_ok (ul_pads r)" "length (ul_pads r) = length (unix_words r)"
    using assms by (simp_all add: unix_line_ok_def unix_words_def)
  ultimately show "list_all (\<lambda>(w, b). word_ok w \<and> pad_ok b) (zip (unix_words r) (ul_pads r))"
    by (simp add: list_all_length)
  show "length (zip (unix_words r) (ul_pads r)) = 8"
    using assms by (simp add: unix_line_ok_def unix_words_def)
qed

lemma unix_tokens:
  assumes "unix_line_ok L r" "i < 8"
  shows "GetToken (CLine_new (unix_text r) None) i = unix_words r ! i"
proof -
  have len: "length (unix_words r) = 8" "length (ul_pads r) = 8"
    using assms(1) by (simp_all add: unix_line_ok_def unix_words_def)
  have "nth_word (unix_text r) i = fst (zip (unix_words r) (ul_pads r) ! i)"
    unfolding unix_text_def
    by (rule padded_tokens [OF unix_line_words(1) [OF assms(1)]]) (simp add: len assms(2))
  then show ?thesis using len assms(2) by simp
qed

lemma unix_end_token:
  assumes "unix_line_ok L r"
  shows "GetEndToken (CLine_new (unix_text r) None) 8 False = unix_name_text r"
proof -
  have n: "unix_name_text r \<noteq> []" "\<not> is_blank (hd (unix_name_text r))" "\<not> is_blank (last (unix_name_text r))"
    using assms by (auto simp: unix_line_ok_def unix_name_text_def)
  show ?thesis
    using padded_end_word [OF unix_line_words(1) [OF assms] n] unix_line_words(2) [OF assms]
    by (simp add: unix_text_def)
qed


subsection \<open>Months\<close>

definition plain_month :: "wstring \<Rightarrow> bool" where
  "plain_month t \<longleftrightarrow>
     t \<noteq> [] \<and> size_unit t \<noteq> None \<and> Find_any ''-/.'' 0 t = None \<and> \<not> IsNumeric decimal t \<and> \<not> IsLeftNumeric t \<and> \<not> IsRightNumeric t \<and>
     ParseComplexFileSize t 0 (-1) = (False, 0) \<and> last t \<noteq> CHR '','' \<and> last t \<noteq> CHR ''.''"

lemma plain_months: "1 \<le> m \<Longrightarrow> m \<le> 12 \<Longrightarrow> plain_month (english_months ! (m - 1))"
proof -
  have "list_all plain_month english_months" by code_simp
  moreover assume "1 \<le> m" "m \<le> 12"
  ultimately show ?thesis by (simp add: list_all_length english_months_def)
qed

lemma english_month_values:
  "list_all (\<lambda>i. months_by_name month_names (map ascii_lower (english_months ! i)) = Some (int i + 1)) [0..<12]"
  by code_simp

lemma GetMonthFromName_english:
  assumes "lower_law L" "1 \<le> m" "m \<le> 12"
  shows "GetMonthFromName L (english_months ! (m - 1)) = Some (int m)"
proof -
  have "m - 1 < 12" using assms(2,3) by simp
  then have "months_by_name month_names (map ascii_lower (english_months ! (m - 1))) = Some (int (m - 1) + 1)"
    using english_month_values unfolding list_all_iff by (metis atLeastLessThan_iff le0 set_upt)
  then show ?thesis
    using assms by (simp add: GetMonthFromName_def lower_law_def of_nat_diff)
qed

lemma plain_month_size: "plain_month t \<Longrightarrow> ParseComplexFileSize t n (-1) = (False, 0)"
  by (auto simp: ParseComplexFileSize_def plain_month_def split: option.splits)

subsection \<open>Dates\<close>

lemma digits_find: "\<forall>c \<in> set s. is_digit c \<Longrightarrow> Find_any '':.-'' 0 s = None"
  by (auto simp: Find_any_def is_digit_code)

lemma stamp_find:
  "Find_any '':.-'' 0 (stamp_text s) = (case s of Stamp_year _ \<Rightarrow> None | Stamp_time h _ \<Rightarrow> Some (length (show_02d h)))"
proof (cases s)
  case (Stamp_year y)
  then show ?thesis using digits_find show_nat_digits by simp
next
  case (Stamp_time h m)
  have "\<forall>c \<in> set (show_02d h). c \<notin> set '':.-''" using show_02d_digits(2) [of h] by (auto simp: is_digit_code)
  then have "find_idx (\<lambda>c. c \<in> set '':.-'') (show_02d h @ CHR '':'' # show_02d m) = Some (length (show_02d h))"
    by (intro find_idx_append_hit) simp_all
  then show ?thesis using Stamp_time by (simp add: Find_any_def)
qed

definition stamp_clock :: "unix_stamp \<Rightarrow> int \<times> int" where
  "stamp_clock s = (case s of Stamp_year _ \<Rightarrow> (-1, -1) | Stamp_time h m \<Rightarrow> (int h, int m))"

lemma unix_date_time_stamp:
  assumes "to_int_law L" "stamp_ok s" "GetToken line (ud_index ud + 1) = stamp_text s"
    and "ud_year ud = -1" "ud_mayHaveTime ud" "\<not> ud_bHasYearAndTime ud" "1 \<le> ud_month ud" "1 \<le> ud_day ud"
  shows "unix_date_time L line ud =
    Some (ud\<lparr>ud_year := (case s of Stamp_year y \<Rightarrow> int y | Stamp_time _ _ \<Rightarrow> guess_year L ud),
             ud_index := ud_index ud + 1\<rparr>, stamp_clock s)"
proof (cases s)
  case (Stamp_year y)
  then show ?thesis
    using assms stamp_find [of s] by (simp add: unix_date_time_def Let_def stamp_clock_def int64_max_def)
next
  case (Stamp_time h m)
  have "\<forall>n. n < 60 \<longrightarrow> ll_to_int L (show_02d n) = int n"
  proof (intro allI impI)
    fix n :: nat assume "n < 60"
    then show "ll_to_int L (show_02d n) = int n"
      using assms(1) show_02d_digits [of n] num_value_02d [of n] unfolding to_int_law_def list_all_iff by simp
  qed
  then have "split_time L (stamp_text s) (length (show_02d h)) = Some (int h, int m)"
    using Stamp_time assms(2) show_02d_digits(1) by (simp add: split_time_def Let_def clock_ok_def)
  then show ?thesis
    using assms Stamp_time stamp_find [of s] show_02d_digits(1)
    by (simp add: unix_date_time_def Let_def stamp_clock_def)
qed

lemma unix_day:
  assumes "d \<le> 31"
  shows "last (show_nat d) \<noteq> CHR '',''" "int d \<le> int64_max" "to_int (int d) = int d"
proof -
  have "is_digit (last (show_nat d))" using show_nat_digits [of d] last_in_set [OF show_nat_nonempty] by blast
  then show "last (show_nat d) \<noteq> CHR '',''" by (auto simp: is_digit_code)
qed (use assms in \<open>simp_all add: int64_max_def\<close>)

lemma IsNumeric_no_colon: "IsNumeric decimal t \<Longrightarrow> 2 < length t \<Longrightarrow> t ! 2 \<noteq> CHR '':''"
  by (auto simp: IsNumeric.simps list_all_length is_digit_code)

lemma month_days_le: "month_days y m \<le> 31"
  by (simp add: month_days_def)

text \<open>The date of a printed line, tokens 5 to 7, is the one that was printed.\<close>

lemma ParseUnixDateTime_line:
  assumes "lower_law L" "to_int_law L" "set_law L" "unix_line_ok L r" "de_time e = None"
  shows "ParseUnixDateTime L (CLine_new (unix_text r) None) 4 e = (Some 7, e\<lparr>de_time := unix_time L r\<rparr>)"
proof -
  let ?line = "CLine_new (unix_text r) None"
  define mon where "mon = english_months ! (ul_month r - 1)"
  have m: "1 \<le> ul_month r" "ul_month r \<le> 12" and st: "stamp_ok (ul_stamp r)"
    and vd: "valid_date (stamp_year L r) (int (ul_month r)) (int (ul_day r))"
    using assms(4) by (simp_all add: unix_line_ok_def)
  have d: "1 \<le> ul_day r" "ul_day r \<le> 31"
    using vd month_days_le [of "stamp_year L r" "int (ul_month r)"] by (simp_all add: valid_date_def)
  have pm: "plain_month mon" using plain_months m by (simp add: mon_def)
  have tok: "GetToken ?line 5 = mon" "GetToken ?line 6 = show_nat (ul_day r)" "GetToken ?line 7 = stamp_text (ul_stamp r)"
    using unix_tokens [OF assms(4)] by (simp_all add: unix_words_def mon_def del: GetToken_new)
  define ud where "ud = \<lparr>ud_year = -1, ud_month = -1, ud_day = -1, ud_dateMonth = mon, ud_mayHaveTime = True,
    ud_bHasYearAndTime = False, ud_index = 5\<rparr>"
  have s1: "unix_date_first L ?line 4 e = (Date_more ud, e)"
    using pm tok(1) by (simp add: unix_date_first_def unix_date_plain_def Let_def plain_month_def ud_def del: GetToken_new)
  have s2: "unix_date_day ?line ud = Some (ud\<lparr>ud_day := int (ul_day r), ud_index := 6\<rparr>)"
    using tok(2) unix_day [OF d(2)] d IsNumeric_no_colon [OF IsNumeric_show, of "ul_day r"]
    by (auto simp: unix_date_day_def ud_def Let_def simp del: GetToken_new)
  have "rev (dropWhile (\<lambda>c. c = CHR '','' \<or> c = CHR ''.'') (rev mon)) = mon"
    using pm by (cases mon rule: rev_cases) (simp_all add: plain_month_def)
  moreover have "GetMonthFromName L mon = Some (int (ul_month r))"
    unfolding mon_def by (rule GetMonthFromName_english [OF assms(1) m])
  ultimately have s3: "unix_date_month L (ud\<lparr>ud_day := int (ul_day r), ud_index := 6\<rparr>) =
      Some (ud\<lparr>ud_month := int (ul_month r), ud_day := int (ul_day r), ud_index := 6\<rparr>)"
    using pm by (simp add: unix_date_month_def ud_def plain_month_def Let_def)
  define ud2 where "ud2 = ud\<lparr>ud_month := int (ul_month r), ud_day := int (ul_day r), ud_index := 6\<rparr>"
  define y where "y = (case ul_stamp r of Stamp_year y \<Rightarrow> int y | Stamp_time _ _ \<Rightarrow> guess_year L ud2)"
  have s4: "unix_date_time L ?line ud2 = Some (ud2\<lparr>ud_year := y, ud_index := 7\<rparr>, stamp_clock (ul_stamp r))"
    using unix_date_time_stamp [OF assms(2) st, of ?line ud2] tok(3) m d by (simp add: ud2_def ud_def y_def del: GetToken_new)
  have y: "y = stamp_year L r"
    by (simp add: y_def stamp_year_def guess_year_def ud2_def ud_def split: unix_stamp.split)
  obtain ok t where set: "ll_dt_set L None y (int (ul_month r)) (int (ul_day r)) (fst (stamp_clock (ul_stamp r)))
      (snd (stamp_clock (ul_stamp r))) = (ok, t)" by (metis prod.exhaust)
  have "ok \<and> t = unix_time L r"
  proof (cases "ul_stamp r")
    case (Stamp_year yy)
    then show ?thesis using assms(3) vd set y unfolding set_law_def
      by (simp add: stamp_clock_def unix_time_def Let_def) (metis fst_conv snd_conv)
  next
    case (Stamp_time h mi)
    then have "fst (ll_dt_set L None y (int (ul_month r)) (int (ul_day r)) (int h) (int mi))"
      using assms(3) vd st y unfolding set_law_def by simp
    then show ?thesis using set y Stamp_time by (simp add: stamp_clock_def unix_time_def Let_def)
  qed
  moreover have "ud_month ud2 = int (ul_month r)" "ud_day ud2 = int (ul_day r)"
    by (simp_all add: ud2_def)
  ultimately show ?thesis
    using set assms(5)
    by (simp add: ParseUnixDateTime_def s1 s2 s3 [folded ud2_def] s4 split_beta del: GetToken_new)
qed

subsection \<open>The line\<close>

lemma unix_name_line:
  assumes "unix_line_ok L r" "is_link e \<longleftrightarrow> hd (ul_perms r) = CHR ''l''" "de_target e = None"
  shows "unix_name (unix_name_text r) e = e\<lparr>de_name := ul_name r, de_target := ul_target r\<rparr>"
proof -
  have l: "last (unix_name_text r) \<notin> set ''/|*''"
    and t: "ul_target r \<noteq> None \<longrightarrow> hd (ul_perms r) = CHR ''l''"
    and f: "hd (ul_perms r) = CHR ''l'' \<longrightarrow>
       find_sub '' -> '' (unix_name_text r) = (if ul_target r = None then None else Some (length (ul_name r)))"
    using assms(1) by (simp_all add: unix_line_ok_def)
  show ?thesis
  proof (cases "ul_target r")
    case None
    then have "unix_name_text r = ul_name r" by (simp add: unix_name_text_def)
    then show ?thesis
      using l f None assms(2,3) by (auto simp: unix_name_def Let_def)
  next
    case (Some tgt)
    then have "unix_name_text r = ul_name r @ '' -> '' @ tgt" by (simp add: unix_name_text_def)
    then show ?thesis
      using l f t Some assms(2) by (auto simp: unix_name_def Let_def)
  qed
qed

lemma owner_tokens:
  "map f [1 + 1 ..< 1 + 1 + 3] = [f (2::nat), f 3, f 4]" "map f [1 + 1 ..< 1 + 1 + 2] = [f (2::nat), f 3]"
  "(1::nat) + 3 + 1 = 5" "(1::nat) + 2 + 1 = 4"
  by (simp_all add: upt_rec eval_nat_numeral)

lemma unix_attempts:
  assumes "lower_law L" "to_int_law L" "set_law L" "unix_line_ok L r" "de_target e = None"
    and "is_link e \<longleftrightarrow> hd (ul_perms r) = CHR ''l''"
  shows "unix_loop L tz (CLine_new (unix_text r) None) (ul_perms r) True 1 3 e =
    (True, e\<lparr>de_size := int (ul_size r), de_time := ll_dt_add L (unix_time L r) tz, de_name := ul_name r,
             de_target := ul_target r, de_permissions := ul_perms r,
             de_ownerGroup := ul_owner r @ '' '' @ ul_group r\<rparr>)"
proof -
  let ?line = "CLine_new (unix_text r) None"
  have tok: "GetToken ?line 2 = ul_owner r" "GetToken ?line 3 = ul_group r" "GetToken ?line 4 = show_nat (ul_size r)"
    "GetToken ?line 5 = english_months ! (ul_month r - 1)"
    using unix_tokens [OF assms(4)] by (simp_all add: unix_words_def del: GetToken_new)
  have w: "ul_owner r \<noteq> []" "ul_group r \<noteq> []" "int (ul_size r) \<le> int64_max" "unix_name_text r \<noteq> []"
    and pm: "plain_month (english_months ! (ul_month r - 1))"
    using assms(4) plain_months by (auto simp: unix_line_ok_def word_ok_def unix_name_text_def)
  define e0 where "e0 = e\<lparr>de_size := 0\<rparr>"
  have "unix_attempt L tz ?line (ul_perms r) True 1 3 e = (Attempt_next, e0)"
    using tok w pm plain_month_size [OF pm] unfolding unix_attempt_def Let_def owner_tokens
    by (simp add: plain_month_def e0_def del: GetToken_new)
  then have first: "unix_loop L tz ?line (ul_perms r) True 1 3 e = unix_loop L tz ?line (ul_perms r) True 1 2 e0"
    by (subst unix_loop.simps) (simp add: numeral_3_eq_3 numeral_2_eq_2)
  define e1 where "e1 = e\<lparr>de_size := int (ul_size r), de_time := None\<rparr>"
  have sz: "ParseComplexFileSize (show_nat (ul_size r)) 0 (-1) = (True, int (ul_size r))"
    using w(3) by (simp add: ParseComplexFileSize_def)
  have date: "ParseUnixDateTime L ?line 4 e1 = (Some 7, e1\<lparr>de_time := unix_time L r\<rparr>)"
    by (rule ParseUnixDateTime_line [OF assms(1-4)]) (simp add: e1_def)
  have name: "unix_name (unix_name_text r) (e1\<lparr>de_time := unix_time L r\<rparr>) =
      e1\<lparr>de_time := unix_time L r, de_name := ul_name r, de_target := ul_target r\<rparr>"
    using unix_name_line [OF assms(4), of "e1\<lparr>de_time := unix_time L r\<rparr>"] assms(5,6)
    by (simp add: e1_def is_link_def)
  have "unix_attempt L tz ?line (ul_perms r) True 1 2 e0 =
    (Attempt_return True, e\<lparr>de_size := int (ul_size r), de_time := ll_dt_add L (unix_time L r) tz, de_name := ul_name r,
             de_target := ul_target r, de_permissions := ul_perms r,
             de_ownerGroup := ul_owner r @ '' '' @ ul_group r\<rparr>)"
    using tok w sz date name unix_end_token [OF assms(4)] unfolding unix_attempt_def Let_def owner_tokens
    by (simp add: e0_def e1_def del: GetToken_new GetEndToken_new)
  then show ?thesis unfolding first by (subst unix_loop.simps) simp
qed

lemma unix_entry_parsed:
  assumes "lower_law L" "to_int_law L" "set_law L" "unix_line_ok L r" "de_target e = None"
  shows "ParseAsUnix L tz (CLine_new (unix_text r) None) True e = (True, unix_entry L tz r)"
proof -
  let ?line = "CLine_new (unix_text r) None"
  have tok: "GetToken ?line 0 = ul_perms r" "GetToken ?line 1 = show_nat (ul_links r)"
    using unix_tokens [OF assms(4)] by (simp_all add: unix_words_def del: GetToken_new)
  have p: "ul_perms r \<noteq> []" "length (ul_perms r) \<noteq> 1" "hd (ul_perms r) \<in> set ''bcdlps-''"
    using assms(4) by (auto simp: unix_line_ok_def)
  define f :: "32 word" where "f = (if hd (ul_perms r) = CHR ''d'' \<or> hd (ul_perms r) = CHR ''l'' then flag_dir else 0) OR
    (if hd (ul_perms r) = CHR ''l'' then flag_link else 0)"
  have link: "is_link (e\<lparr>de_flags := f\<rparr>) \<longleftrightarrow> hd (ul_perms r) = CHR ''l''"
    by (simp add: is_link_def f_def flag_dir_def flag_link_def)
  have "ParseAsUnix L tz ?line True e = unix_loop L tz ?line (ul_perms r) True 1 3 (e\<lparr>de_flags := f\<rparr>)"
    using tok p by (simp add: ParseAsUnix_def Let_def f_def del: GetToken_new)
  also have "\<dots> = (True, unix_entry L tz r)"
    using unix_attempts [OF assms(1-4), of "e\<lparr>de_flags := f\<rparr>" tz] assms(5) link
    by (simp add: unix_entry_def f_def)
  finally show ?thesis .
qed

end
