(* ===== verification/Listing_Roundtrip.thy ===== *)
theory Listing_Roundtrip
  imports Listing_Unix
begin

text \<open>
  Whole listings: lines of \<open>ls -l\<close>, each ended by any ends of line, arrive in any pieces, and
  the listing has exactly their entries, in order.
\<close>

subsection \<open>A printed file\<close>

definition eol_ok :: "string \<Rightarrow> bool" where
  "eol_ok e \<longleftrightarrow> e \<noteq> [] \<and> is_eol (hd e) \<and> list_all is_trimmed e"

text \<open>A line is short enough, has no end of line in it, and is read as it was written.\<close>

definition line_readable :: "listing_lib \<Rightarrow> string \<Rightarrow> bool" where
  "line_readable L l \<longleftrightarrow>
     l \<noteq> [] \<and> \<not> is_trimmed (hd l) \<and> list_all (\<lambda>c. \<not> is_eol c) l \<and> length l \<le> line_limit \<and>
     strip_bom L (line_text L l) = l"

definition file_text :: "(string \<times> string) list \<Rightarrow> string" where
  "file_text ls = concat (map (\<lambda>(l, e). l @ e) ls)"

lemma GetLine_line:
  assumes "list_all is_trimmed e0" "line_readable L l" "eol_ok e"
  shows "GetLine L False (e0 @ l @ e @ rest) 0 = (l, False, e @ rest, 0)"
proof -
  have l: "l \<noteq> []" "\<not> is_trimmed (hd l)" "\<forall>c \<in> set l. \<not> is_eol c" "length l \<le> line_limit"
    "strip_bom L (line_text L l) = l" and e: "e \<noteq> []" "is_eol (hd e)"
    using assms(2,3) by (simp_all add: line_readable_def eol_ok_def list_all_iff)
  have "dropWhile is_trimmed (l @ e @ rest) = l @ e @ rest" using l(1,2) by (cases l) simp_all
  then have t: "TrimLeadingWhitespace (e0 @ l @ e @ rest) 0 = l @ e @ rest"
    using assms(1) by (simp add: TrimLeadingWhitespace_def list_all_iff)
  have "takeWhile (\<lambda>c. \<not> is_eol c) (l @ e @ rest) = l"
    using l(3) e by (cases e) (simp_all add: takeWhile_append)
  then show ?thesis using l e by (subst GetLine.simps) (simp add: t Let_def)
qed

lemma GetLine_end:
  assumes "list_all is_trimmed e0"
  shows "GetLine L False e0 0 = ([], False, [], 0)"
proof -
  have "TrimLeadingWhitespace e0 0 = []" using assms by (simp add: TrimLeadingWhitespace_def list_all_iff)
  then show ?thesis by (subst GetLine.simps) (simp add: Let_def)
qed

lemma line_list_file:
  assumes "list_all is_trimmed e0" "\<forall>(l, e) \<in> set ls. line_readable L l \<and> eol_ok e"
  shows "line_list L False (e0 @ file_text ls) 0 = (map fst ls, True, [], 0)"
  using assms
proof (induction ls arbitrary: e0)
  case Nil
  then show ?case by (subst line_list.simps) (simp add: file_text_def GetLine_end)
next
  case (Cons p ls)
  obtain l e where p: "p = (l, e)" by (cases p)
  have ok: "line_readable L l" "eol_ok e" using Cons.prems(2) p by auto
  then have l: "l \<noteq> []" and e: "list_all is_trimmed e" by (simp_all add: line_readable_def eol_ok_def)
  have "GetLine L False (e0 @ file_text (p # ls)) 0 = (l, False, e @ file_text ls, 0)"
    using GetLine_line [OF Cons.prems(1) ok, of "file_text ls"] by (simp add: file_text_def p)
  moreover have "line_list L False (e @ file_text ls) 0 = (map fst ls, True, [], 0)"
    using Cons.IH [OF e] Cons.prems(2) by simp
  ultimately show ?case using l p by (subst line_list.simps) simp
qed

subsection \<open>One line\<close>

lemma Find_none: "c \<notin> set s \<Longrightarrow> Find c n s = None"
  by (auto simp: Find_def find_idx_None dest: in_set_dropD)

lemma ParseAsMlsd_unix:
  assumes "unix_line_ok L r"
  shows "\<exists>e. ParseAsMlsd L (CLine_new (unix_text r) None) CDirentry_default = (Mlsd_no, e) \<and> de_target e = None"
proof -
  have tok: "GetToken (CLine_new (unix_text r) None) 0 = ul_perms r"
    using unix_tokens [OF assms] by (simp add: unix_words_def del: GetToken_new)
  have "CHR ''='' \<notin> set (ul_perms r)" "ul_perms r \<noteq> []" using assms by (auto simp: unix_line_ok_def)
  then show ?thesis
    using Find_none [of "CHR ''=''" "ul_perms r" 0] tok
    by (simp add: ParseAsMlsd_def Let_def mlsd_loop.simps [of L "ul_perms r" 0] del: GetToken_new)
qed

text \<open>The servers whose listings have a form of their own, or whose names carry versions, are left
  out.\<close>

definition unix_server :: "CServer \<Rightarrow> bool" where
  "unix_server server \<longleftrightarrow> sv_type server \<notin> {ZVM, HPNONSTOP, VMS}"

definition listed_entry :: "listing_lib \<Rightarrow> CServer \<Rightarrow> int \<Rightarrow> unix_line \<Rightarrow> CDirentry" where
  "listed_entry L server tz r =
     (let entry = unix_entry L tz r
      in if sv_timezoneOffset server \<noteq> 0
         then entry\<lparr>de_time := ll_dt_add L (de_time entry) (ll_from_minutes L (sv_timezoneOffset server))\<rparr>
         else entry)"

lemma parse_formats_unix:
  assumes "lower_law L" "to_int_law L" "set_law L" "unix_line_ok L r" "ty \<noteq> ZVM" "ty \<noteq> HPNONSTOP"
  shows "parse_formats L tz mv ty (CLine_new (unix_text r) None) = Line_entry (unix_entry L tz r)"
proof -
  obtain e where m: "ParseAsMlsd L (CLine_new (unix_text r) None) CDirentry_default = (Mlsd_no, e)" "de_target e = None"
    using ParseAsMlsd_unix [OF assms(4)] by blast
  show ?thesis
    using unix_entry_parsed [OF assms(1-4) m(2), of tz] assms(5,6)
    by (simp add: parse_formats_def special_formats_def common_formats_def m(1))
qed

lemma process_line_unix:
  assumes "lower_law L" "to_int_law L" "set_law L" "unix_line_ok L r" "ul_name r \<notin> {''.'', ''..''}"
    and "unix_server (lp_server st)" "length (lp_entries st) < lp_limit st"
  shows "process_line L (unix_text r) st =
    (no_filelist st)\<lparr>lp_entries := lp_entries st @ [listed_entry L (lp_server st) (lp_timezoneOffset st) r],
                     lp_prevLine := []\<rparr>"
proof -
  define entry where "entry = unix_entry L (lp_timezoneOffset st) r"
  have ty: "sv_type (lp_server st) \<noteq> ZVM" "sv_type (lp_server st) \<noteq> HPNONSTOP" "sv_type (lp_server st) \<noteq> VMS"
    using assms(6) by (simp_all add: unix_server_def)
  have "de_name entry = ul_name r" by (simp add: entry_def unix_entry_def)
  then have a: "add_entry L entry st = (no_filelist st)\<lparr>lp_entries := lp_entries st @ [listed_entry L (lp_server st) (lp_timezoneOffset st) r]\<rparr>"
    using assms(5,7) ty(3)
    by (simp add: add_entry_def no_filelist_def trim_version_def listed_entry_def Let_def flip: entry_def)
  then show ?thesis
    using parse_formats_unix [OF assms(1-4) ty(1,2), of "lp_timezoneOffset st" "lp_maybeMultilineVms st"]
    by (simp add: process_line_def ParseLine_def apply_override_def Let_def flip: entry_def)
qed

definition unix_file_ok :: "listing_lib \<Rightarrow> (unix_line \<times> string) list \<Rightarrow> bool" where
  "unix_file_ok L rs \<longleftrightarrow>
     (\<forall>(r, e) \<in> set rs. unix_line_ok L r \<and> ul_name r \<notin> {''.'', ''..''} \<and> line_readable L (unix_text r) \<and> eol_ok e)"

definition unix_file :: "(unix_line \<times> string) list \<Rightarrow> string" where
  "unix_file rs = file_text (map (\<lambda>(r, e). (unix_text r, e)) rs)"

lemma process_lines_unix:
  assumes "lower_law L" "to_int_law L" "set_law L" "unix_file_ok L rs"
    and "unix_server (lp_server st)" "length (lp_entries st) + length rs \<le> lp_limit st" "lp_fileList st = []"
  shows "lp_entries (fold (process_line L) (map (unix_text \<circ> fst) rs) st) =
      lp_entries st @ map (listed_entry L (lp_server st) (lp_timezoneOffset st) \<circ> fst) rs \<and>
    lp_fileList (fold (process_line L) (map (unix_text \<circ> fst) rs) st) = []"
  using assms(4-)
proof (induction rs arbitrary: st)
  case (Cons p rs)
  obtain r e where p: "p = (r, e)" by (cases p)
  define st1 where "st1 = process_line L (unix_text r) st"
  have r: "unix_line_ok L r" "ul_name r \<notin> {''.'', ''..''}"
    using Cons.prems(1) p by (auto simp: unix_file_ok_def)
  have "length (lp_entries st) < lp_limit st" using Cons.prems(3) by simp
  note step = process_line_unix [OF assms(1-3) r Cons.prems(2) this, folded st1_def]
  have s: "lp_entries st1 = lp_entries st @ [listed_entry L (lp_server st) (lp_timezoneOffset st) r]"
    "lp_fileList st1 = []" "lp_server st1 = lp_server st" "lp_limit st1 = lp_limit st"
    "lp_timezoneOffset st1 = lp_timezoneOffset st"
    by (simp_all add: step no_filelist_def)
  have "unix_file_ok L rs" using Cons.prems(1) by (simp add: unix_file_ok_def)
  then show ?case
    using Cons.IH [of st1] Cons.prems(2,3) p s by (simp flip: st1_def)
qed simp

subsection \<open>The listing\<close>

text \<open>C2: a Unix listing is read back: whatever the padding of its columns, its ends of line, the pieces in
  which it arrives and the encoding, the listing has the entries that were printed, in order, and is not
  marked as failed.\<close>

theorem unix_listing_roundtrip:
  assumes "lower_law L" "to_int_law L" "set_law L"
    and "unix_server server" "encoding \<noteq> enc_unknown"
    and "unix_file_ok L rs" "length rs \<le> limit" "decode encoding (concat chunks) = unix_file rs"
  shows "case feed L chunks ((parser_new server encoding limit)\<lparr>lp_timezoneOffset := tz\<rparr>) of
    (ok, st) \<Rightarrow> ok \<and> fst (Parse L now path st) =
       Assign (CDirectoryListing_default\<lparr>dl_path := path, dl_firstListTime := now\<rparr>)
         (map (listed_entry L server tz \<circ> fst) rs)"
proof -
  define st0 where "st0 = (parser_new server encoding limit)\<lparr>lp_timezoneOffset := tz\<rparr>"
  have ok0: "converted st0" "scanned (lp_inbuf st0) (lp_parse_offset st0)"
    using assms(5) by (simp_all add: st0_def parser_new_def converted_def)
  obtain ok st where f: "feed L chunks st0 = (ok, st)" by (metis prod.exhaust)
  have "\<forall>(l, e) \<in> set (map (\<lambda>(r, e). (unix_text r, e)) rs). line_readable L l \<and> eol_ok e"
    using assms(6) by (auto simp: unix_file_ok_def)
  from line_list_file [OF _ this, of "[]"]
  have a: "all_lines L st0 (concat chunks) = (map (unix_text \<circ> fst) rs, True, [], 0)"
    using assms(8) by (simp add: all_lines_def st0_def parser_new_def unix_file_def comp_def split_beta)
  note fl = feed_lines [OF ok0, of L chunks, unfolded f]
  have ok: ok using fl a by auto
  then obtain ls1 where 1: "converted st" "scanned (lp_inbuf st) (lp_parse_offset st)"
    "core st = fold (process_line L) ls1 (core st0)"
    "all_lines L st0 (concat chunks) = (case all_lines L st [] of (ls', x) \<Rightarrow> (ls1 @ ls', x))"
    using fl by (auto simp: Let_def)
  obtain ls2 where 2: "all_lines L st [] = (ls2, True, [], 0)" "map (unix_text \<circ> fst) rs = ls1 @ ls2"
    using 1(4) a by (auto split: prod.splits)
  define final where "final = fold (process_line L) (map (unix_text \<circ> fst) rs) (core st0)"
  have "lp_entries final = map (listed_entry L server tz \<circ> fst) rs \<and> lp_fileList final = []"
    using process_lines_unix [OF assms(1-3,6), of "core st0"] assms(4,7)
    by (simp add: final_def) (simp add: st0_def parser_new_def)
  moreover have "add_data [] st = st" by (simp add: add_data_def)
  then have "fst (Parse L now path st) = listing_of L now path True final"
    using Parse_lines [OF 1(1,2) 2(1), of now path] 1(3) 2(2) by (simp add: final_def)
  ultimately show ?thesis
    using ok by (simp add: f listing_of_def Let_def comp_def flip: st0_def)
qed

definition example_dir :: unix_line where
  "example_dir = \<lparr>ul_perms = ''drwxr-xr-x'', ul_links = 2, ul_owner = ''root'', ul_group = ''wheel'', ul_size = 0,
     ul_month = 2, ul_day = 29, ul_stamp = Stamp_year 2004, ul_name = ''some dir'', ul_target = None,
     ul_pads = ['' '', ''  '', '' '', '' '', '' '', '' '', '' '', ''  '']\<rparr>"

definition example_link :: unix_line where
  "example_link = \<lparr>ul_perms = ''lrwxrwxrwx'', ul_links = 1, ul_owner = ''me'', ul_group = ''us'', ul_size = 17,
     ul_month = 5, ul_day = 3, ul_stamp = Stamp_time 9 5, ul_name = ''a'', ul_target = Some ''b c'',
     ul_pads = ['' '', '' '', '' '', '' '', [CHR 0x09], '' '', ''  '', '' '']\<rparr>"

definition example_rows :: "(unix_line \<times> string) list" where
  "example_rows = [(example_dir, [CHR 0x0D, CHR 0x0A]), (example_link, [CHR 0x0A])]"

text \<open>The concrete lines meet the conditions; July 1, 2024 is the current day.\<close>

lemma example_year: "stamp_year listing_lib_std example_link = 2024"
proof -
  have "snd (std_set None 2024 7 1 (-1) (-1)) = Some (1719792000000, acc_days)"
    "civil_from_days (1719792000000 div day_ms) = (2024, 7, 1)"
    by code_simp+
  then have "ll_dt_date listing_lib_std (ll_dt_now listing_lib_std) = (124, 6, 1)"
    by (simp add: listing_lib_std_def)
  then show ?thesis by (simp add: stamp_year_def example_link_def guess_year_def)
qed

lemma example_lines_ok: "unix_line_ok listing_lib_std example_dir" "unix_line_ok listing_lib_std example_link"
  using example_year
  by (simp_all add: unix_line_ok_def example_dir_def example_link_def word_ok_def pad_ok_def is_blank_def
      int64_max_def valid_date_def month_days_def leap_year_def unix_name_text_def stamp_year_def)

lemma example_texts:
  "unix_text example_dir = ''drwxr-xr-x 2  root wheel 0 Feb 29 2004  some dir''"
  "unix_text example_link = ''lrwxrwxrwx 1 me us 17'' @ [CHR 0x09] @ ''May 3  09:05 a -> b c''"
  by code_simp+

lemma example_texts_readable:
  "line_readable listing_lib_std (unix_text example_dir)" "line_readable listing_lib_std (unix_text example_link)"
  unfolding example_texts
  by (simp_all add: line_readable_def line_text_def strip_bom_def line_limit_def is_trimmed_def is_eol_def
      is_blank_def nul_def)

theorem unix_listing_roundtrip_witness:
  "case feed listing_lib_std [take 50 (unix_file example_rows), drop 50 (unix_file example_rows)]
      ((parser_new CServer_default enc_normal 100)\<lparr>lp_timezoneOffset := 0\<rparr>) of
    (ok, st) \<Rightarrow> ok \<and> fst (Parse listing_lib_std 7 CServerPath_default st) =
       Assign (CDirectoryListing_default\<lparr>dl_path := CServerPath_default, dl_firstListTime := 7\<rparr>)
         (map (listed_entry listing_lib_std CServer_default 0 \<circ> fst) example_rows)"
proof (rule unix_listing_roundtrip)
  show "unix_server CServer_default" by (simp add: unix_server_def CServer_default_def)
  show "unix_file_ok listing_lib_std example_rows"
    using example_lines_ok example_texts_readable
    by (simp add: unix_file_ok_def example_rows_def) (simp add: example_dir_def example_link_def eol_ok_def is_trimmed_def is_eol_def)
qed (simp_all add: decode_def example_rows_def)

end
