(* ===== verification/Listing_Quirks.thy ===== *)
theory Listing_Quirks
  imports Listing_Types Listing_Words
begin

text \<open>
  Corner cases of the parser, as concrete facts of the model.
\<close>

text \<open>On VMS the names \<open>.\<close> and \<open>..\<close> are filtered before the version is trimmed, so that a directory
  with a version enters the listing under such a name.\<close>

lemma version_hides_dots:
  "fst (vms_name ''...DIR;2'' 6) = ''..;2''"
  "de_name e = ''..;2'' \<Longrightarrow> is_dir e \<Longrightarrow> sv_type (lp_server st) = VMS \<Longrightarrow> sv_timezoneOffset (lp_server st) = 0 \<Longrightarrow>
     lp_entries st = [] \<Longrightarrow> 0 < lp_limit st \<Longrightarrow> lp_entries (add_entry L e st) = [e\<lparr>de_name := ''..''\<rparr>]"
proof -
  show "fst (vms_name ''...DIR;2'' 6) = ''..;2''" by code_simp
  assume a: "de_name e = ''..;2''" "is_dir e" "sv_type (lp_server st) = VMS" "sv_timezoneOffset (lp_server st) = 0"
    "lp_entries st = []" "0 < lp_limit st"
  have "rfind_idx (\<lambda>c. c = CHR '';'') ''..;2'' = Some 2" by code_simp
  then show "lp_entries (add_entry L e st) = [e\<lparr>de_name := ''..''\<rparr>]"
    using a by (simp add: add_entry_def no_filelist_def trim_version_def Let_def)
qed

text \<open>A plain list of names keeps \<open>.\<close> and \<open>..\<close>.\<close>

lemma plain_list_keeps_dots:
  "lp_fileList (note_filename (CLine_new ''..'' None) (parser_new server enc 10)) = [''..'']"
proof -
  have "end_word ''..'' None 0 = ''..''" by code_simp
  then show ?thesis by (simp add: note_filename_def parser_new_def Let_def Find_def)
qed

text \<open>A fact of EPLF ends at the next comma, even when that is one of the file name.\<close>

lemma eplf_fact_takes_name:
  "eplf_facts L (''+up644'' @ [CHR 0x09] @ ''a,b'') 6 1 [] e = (True, e, ''644'' @ [CHR 0x09] @ ''a'')"
  by (subst eplf_facts.simps, subst eplf_facts.simps) (simp add: Find_def Let_def)

end
