(* ===== verification/Op_Lock_Owner.thy ===== *)
theory Op_Lock_Owner
  imports Op_Lock
begin

text \<open>
  The locks of one socket: what locking, unlocking and obtaining do to the handles it owns.
  A connection uses these facts about the lock manager in place of its table.
\<close>

definition own_locks :: "nat \<Rightarrow> lock_table \<Rightarrow> lock_handle set" where
  "own_locks sock m = {h \<in> live m. sl_socket (m ! fst h) = Some sock}"

definition none_released_waits :: "lock_table \<Rightarrow> bool" where
  "none_released_waits m \<longleftrightarrow> (\<forall>s \<in> set m. \<forall>l \<in> set (sl_locks s). li_released l \<longrightarrow> \<not> li_waiting l)"

definition lock_table_ok :: "libfz \<Rightarrow> lock_table \<Rightarrow> bool" where
  "lock_table_ok L m \<longleftrightarrow> table_ok L m \<and> none_released_waits m"

lemma live_has_locks: "h \<in> live m \<Longrightarrow> fst h < length m \<and> sl_locks (m ! fst h) \<noteq> []"
  by (auto simp: live_def)

lemma own_locks_eq:
  assumes "live m' = f (live m)" "\<And>h. h \<in> live m' \<Longrightarrow> h \<in> live m \<Longrightarrow> sl_socket (m' ! fst h) = sl_socket (m ! fst h)"
    and "f (live m) \<subseteq> live m"
  shows "own_locks sock m' = f (live m) \<inter> own_locks sock m"
  using assms by (auto simp: own_locks_def)

lemma none_released_waits_upd:
  assumes "none_released_waits m" "\<forall>l \<in> set (sl_locks s). li_released l \<longrightarrow> \<not> li_waiting l"
  shows "none_released_waits (m[i := s])"
  using assms set_update_subset_insert [of m i s] by (auto simp: none_released_waits_def)

lemma none_released_waits_nth:
  "none_released_waits m \<Longrightarrow> i < length m \<Longrightarrow> l \<in> set (sl_locks (m ! i)) \<Longrightarrow> li_released l \<Longrightarrow> \<not> li_waiting l"
  unfolding none_released_waits_def by (meson nth_mem)

subsection \<open>Locking\<close>

lemma get_or_create_slots:
  assumes "get_or_create m sock server = (m1, i)"
  shows "k < length m \<Longrightarrow> m1 ! k = m ! k" "none_released_waits m \<Longrightarrow> none_released_waits m1"
  using assms by (auto simp: get_or_create_def nth_append none_released_waits_def split: option.splits)

theorem Lock_owner:
  assumes ok: "lock_table_ok L m" and run: "OpLock_Lock L m sock server reason path inclusive = (m', h)"
  shows "lock_table_ok L m'" "own_locks sock m' = insert h (own_locks sock m)" "h \<notin> own_locks sock m"
proof -
  have tok: "table_ok L m" and rel: "none_released_waits m" using ok by (simp_all add: lock_table_ok_def)
  note spec = Lock_spec [OF tok run]
  obtain m1 i where goc: "get_or_create m sock server = (m1, i)" by fastforce
  note g = get_or_create_spec [OF tok goc] and slots = get_or_create_slots [OF goc]
  obtain l where m': "m' = add_lock m1 i l" and l: "\<not> li_released l" and h: "fst h = i"
    using run unfolding OpLock_Lock_def goc prod.case Let_def by auto
  have "none_released_waits m'"
    unfolding m' add_lock_def
    using none_released_waits_nth [OF slots(2) [OF rel]] l g
    by (intro none_released_waits_upd slots(2) rel) auto
  then show "lock_table_ok L m'" using spec by (simp add: lock_table_ok_def)
  have sock: "sl_socket (m' ! k) = sl_socket (m1 ! k)" if "k < length m1" for k
    using that g by (auto simp: m' add_lock_def nth_list_update)
  have "sl_socket (m' ! fst x) = sl_socket (m ! fst x)" if "x \<in> live m" for x
  proof -
    have "x \<in> live m1" using that g by simp
    then show ?thesis using sock live_has_locks [of x m1] live_has_locks [OF that] slots(1) by simp
  qed
  moreover have "sl_socket (m' ! fst h) = Some sock" using sock [of i] g h by simp
  ultimately show "own_locks sock m' = insert h (own_locks sock m)" using spec by (auto simp: own_locks_def)
  show "h \<notin> own_locks sock m" using spec by (simp add: own_locks_def)
qed

subsection \<open>Unlocking\<close>

lemma drop_released_set: "set (drop_released ls) \<subseteq> set ls"
  using set_dropWhileD [of _ li_released "rev ls"] by (auto simp: drop_released_def)

lemma drop_unused_prefix: "k < length (drop_unused m) \<Longrightarrow> drop_unused m ! k = m ! k"
proof -
  obtain dead where "m = drop_unused m @ dead" by (rule drop_unused_split [of m])
  then show "k < length (drop_unused m) \<Longrightarrow> drop_unused m ! k = m ! k" by (metis nth_append)
qed

lemma drop_unused_set: "set (drop_unused m) \<subseteq> set m"
  using set_dropWhileD [of _ "\<lambda>s. sl_socket s = None" "rev m"] by (auto simp: drop_unused_def)

theorem Unlock_owner:
  assumes ok: "lock_table_ok L m" and h: "h \<in> live m" and run: "OpLock_Unlock m h = (m', woken)"
  shows "lock_table_ok L m'" "own_locks sock m' = own_locks sock m - {h}"
proof -
  have tok: "table_ok L m" and rel: "none_released_waits m" using ok by (simp_all add: lock_table_ok_def)
  note spec = Unlock_spec [OF tok h run]
  obtain i j where ij: "h = (i, j)" "i < length m" "j < length (sl_locks (m ! i))"
    using h by (auto simp: live_def)
  let ?ls = "sl_locks (m ! i)" and ?rest = "drop_released (butlast (sl_locks (m ! i)))"
  consider "m' = drop_unused (butlast m)" | "m' = m[i := (m ! i)\<lparr>sl_locks := [], sl_socket := None\<rparr>]"
    | "m' = set_locks m i ?rest" | "m' = set_locks m i (?ls[j := (?ls ! j)\<lparr>li_waiting := False, li_released := True\<rparr>])"
    using run by (auto simp: OpLock_Unlock_def Let_def ij(1) split: if_splits)
  then have "none_released_waits m' \<and>
    (\<forall>k < length m'. sl_locks (m' ! k) \<noteq> [] \<longrightarrow> sl_socket (m' ! k) = sl_socket (m ! k))"
  proof cases
    case 1
    have "set m' \<subseteq> set m" using 1 drop_unused_set [of "butlast m"] by (auto dest: in_set_butlastD)
    moreover have "m' ! k = m ! k" if "k < length m'" for k
    proof -
      have "k < length (butlast m)" using that 1 drop_unused_split [of "butlast m"] by (metis length_append trans_less_add1)
      then show ?thesis using that 1 drop_unused_prefix [of k "butlast m"] nth_butlast [of k m] by simp
    qed
    ultimately show ?thesis using rel by (auto simp: none_released_waits_def)
  next
    case 2
    then show ?thesis using none_released_waits_upd [OF rel] ij(2) by (auto simp: nth_list_update)
  next
    case 3
    have "\<forall>l \<in> set ?rest. li_released l \<longrightarrow> \<not> li_waiting l"
      using drop_released_set [of "butlast ?ls"] none_released_waits_nth [OF rel ij(2)] by (auto dest: in_set_butlastD)
    then show ?thesis using 3 none_released_waits_upd [OF rel] ij(2) by (auto simp: set_locks_def nth_list_update)
  next
    case 4
    have "\<forall>l \<in> set (?ls[j := (?ls ! j)\<lparr>li_waiting := False, li_released := True\<rparr>]). li_released l \<longrightarrow> \<not> li_waiting l"
      using set_update_subset_insert [of ?ls j "(?ls ! j)\<lparr>li_waiting := False, li_released := True\<rparr>"]
        none_released_waits_nth [OF rel ij(2)] by auto
    then show ?thesis using 4 none_released_waits_upd [OF rel] ij(2) by (auto simp: set_locks_def nth_list_update)
  qed
  then have rel': "none_released_waits m'" and sock: "\<And>k. k < length m' \<Longrightarrow> sl_locks (m' ! k) \<noteq> [] \<Longrightarrow> sl_socket (m' ! k) = sl_socket (m ! k)"
    by simp_all
  show "lock_table_ok L m'" using spec rel' by (simp add: lock_table_ok_def)
  have "own_locks sock m' = (live m - {h}) \<inter> own_locks sock m"
    using spec sock live_has_locks [of _ m'] by (intro own_locks_eq [where f = "\<lambda>H. H - {h}"]) auto
  then show "own_locks sock m' = own_locks sock m - {h}" by (auto simp: own_locks_def)
qed

subsection \<open>Obtaining\<close>

lemma obtain_one_owner:
  assumes "none_released_waits m" "in_table m h"
  shows "none_released_waits (fst (obtain_one L h (m, b)))" "sl_socket (fst (obtain_one L h (m, b)) ! k) = sl_socket (m ! k)"
    "snd (obtain_one L h (m, b)) \<Longrightarrow> b \<or> OpLock_Waiting m h"
proof -
  let ?ls = "sl_locks (m ! fst h)" and ?l = "sl_locks (m ! fst h) ! snd h"
  have "\<forall>l \<in> set (?ls[snd h := ?l\<lparr>li_waiting := False\<rparr>]). li_released l \<longrightarrow> \<not> li_waiting l"
    using set_update_subset_insert [of ?ls "snd h" "?l\<lparr>li_waiting := False\<rparr>"] none_released_waits_nth [OF assms(1), of "fst h"]
      assms(2) by (auto simp: in_table_def)
  then show "none_released_waits (fst (obtain_one L h (m, b)))"
    using none_released_waits_upd [OF assms(1)] assms(1) by (simp add: obtain_one_def Let_def set_locks_def)
  show "sl_socket (fst (obtain_one L h (m, b)) ! k) = sl_socket (m ! k)"
    using assms(2) by (auto simp: obtain_one_def Let_def set_locks_def nth_list_update in_table_def)
  show "snd (obtain_one L h (m, b)) \<Longrightarrow> b \<or> OpLock_Waiting m h"
    by (auto simp: obtain_one_def Let_def OpLock_Waiting_def split: if_splits)
qed

lemma obtain_one_waiting:
  "in_table m h \<Longrightarrow> in_table m x \<Longrightarrow> OpLock_Waiting (fst (obtain_one L h (m, b))) x \<Longrightarrow> OpLock_Waiting m x"
  by (auto simp: obtain_one_def Let_def OpLock_Waiting_def set_locks_def in_table_def nth_list_update split: if_splits)

lemma obtain_fold_owner:
  assumes "table_ok L m" "none_released_waits m" "\<forall>h \<in> set hs. in_table m h"
  shows "none_released_waits (fst (fold (obtain_one L) hs (m, b))) \<and>
    (\<forall>k. sl_socket (fst (fold (obtain_one L) hs (m, b)) ! k) = sl_socket (m ! k)) \<and>
    (snd (fold (obtain_one L) hs (m, b)) \<longrightarrow> b \<or> (\<exists>h \<in> set hs. OpLock_Waiting m h))"
  using assms
proof (induction hs arbitrary: m b)
  case (Cons h hs)
  obtain m1 b1 where one: "obtain_one L h (m, b) = (m1, b1)" by fastforce
  have h: "in_table m h" using Cons.prems(3) by simp
  note o1 = obtain_one_owner [OF Cons.prems(2) h, of L b, unfolded one fst_conv snd_conv]
  have spec: "table_ok L m1" "table_shape m1 = table_shape m"
    using obtain_one_spec [OF Cons.prems(1) h, of b] one by simp_all
  have hs: "\<forall>h \<in> set hs. in_table m1 h" using Cons.prems(3) spec by (simp add: in_table_shape)
  have w: "OpLock_Waiting m x" if "x \<in> set hs" "OpLock_Waiting m1 x" for x
    using obtain_one_waiting [OF h, of x L b] that Cons.prems(3) one by simp
  note ih = Cons.IH [OF spec(1) o1(1) hs, of b1]
  have "b \<or> (\<exists>x \<in> set (h # hs). OpLock_Waiting m x)" if "snd (fold (obtain_one L) hs (m1, b1))"
  proof -
    from ih that consider "b1" | x where "x \<in> set hs" "OpLock_Waiting m1 x" by blast
    then show ?thesis using o1(3) w by cases auto
  qed
  then show ?case using ih o1(2) one by simp
qed simp

lemma obtain_fold_none:
  assumes "\<not> snd (fold (obtain_one L) hs (m, b))"
  shows "fold (obtain_one L) hs (m, b) = (m, b)"
  using assms
proof (induction hs arbitrary: m b)
  case (Cons h hs)
  obtain m1 b1 where one: "obtain_one L h (m, b) = (m1, b1)" by fastforce
  have "fold (obtain_one L) hs (m1, b1) = (m1, b1)" using Cons one by simp
  moreover from this have "\<not> b1" using Cons.prems one by simp
  then have "(m1, b1) = (m, b)" using one by (auto simp: obtain_one_def Let_def split: if_splits)
  ultimately show ?case using one by simp
qed simp

theorem Obtain_owner:
  assumes ok: "lock_table_ok L m" and run: "OpLock_ObtainWaiting L m sock = (m', got)"
  shows "lock_table_ok L m'" "own_locks s m' = own_locks s m" "got \<Longrightarrow> \<exists>h \<in> own_locks sock m. OpLock_Waiting m h"
    "\<not> got \<Longrightarrow> m' = m"
proof -
  have tok: "table_ok L m" and rel: "none_released_waits m" using ok by (simp_all add: lock_table_ok_def)
  note f = obtain_fold_owner [OF tok rel socket_locks_in_table, of sock False, folded OpLock_ObtainWaiting_def, unfolded run fst_conv snd_conv]
  note spec = ObtainWaiting_spec [OF tok run]
  show "lock_table_ok L m'" using f spec by (simp add: lock_table_ok_def)
  show "own_locks s m' = own_locks s m" using f spec by (simp add: own_locks_def)
  show "\<not> got \<Longrightarrow> m' = m"
    using obtain_fold_none [of L "socket_locks m sock" m False] run by (simp add: OpLock_ObtainWaiting_def)
  assume got
  then obtain h where h: "h \<in> set (socket_locks m sock)" "OpLock_Waiting m h" using f by auto
  then have in_m: "fst h < length m" "snd h < length (sl_locks (m ! fst h))" "sl_socket (m ! fst h) = Some sock"
    by (auto simp: socket_locks_def split: if_splits)
  then have "\<not> li_released (sl_locks (m ! fst h) ! snd h)"
    using none_released_waits_nth [OF rel in_m(1), of "sl_locks (m ! fst h) ! snd h"] h(2) by (auto simp: OpLock_Waiting_def)
  then have "h \<in> own_locks sock m" using in_m by (cases h) (simp add: own_locks_def live_def)
  with h(2) show "\<exists>h \<in> own_locks sock m. OpLock_Waiting m h" by blast
qed

end
