(* ===== verification/Ftp_Session.thy ===== *)
theory Ftp_Session
  imports Dir_Cache_Unsure Path_Cache Op_Lock_Owner
begin

text \<open>
  The state of an FTP control connection and the operations on it that do not involve the stack
  of operations, \<open>src/filezilla3/src/engine/controlsocket.cpp\<close> and
  \<open>src/filezilla3/src/engine/ftp/ftpcontrolsocket.cpp\<close> with their headers.  A session is the
  control socket with what it shares with the others: the directory cache, the path cache and the
  lock manager.  Only connections that are logged on are modelled.
\<close>

unbundle bit_operations_syntax

subsection \<open>Reply codes\<close>

definition FZ_REPLY_OK :: int where "FZ_REPLY_OK = 0x0000"
definition FZ_REPLY_WOULDBLOCK :: int where "FZ_REPLY_WOULDBLOCK = 0x0001"
definition FZ_REPLY_ERROR :: int where "FZ_REPLY_ERROR = 0x0002"
definition FZ_REPLY_CRITICALERROR :: int where "FZ_REPLY_CRITICALERROR = 0x0006"
definition FZ_REPLY_CANCELED :: int where "FZ_REPLY_CANCELED = 0x000A"
definition FZ_REPLY_SYNTAXERROR :: int where "FZ_REPLY_SYNTAXERROR = 0x0012"
definition FZ_REPLY_DISCONNECTED :: int where "FZ_REPLY_DISCONNECTED = 0x0040"
definition FZ_REPLY_INTERNALERROR :: int where "FZ_REPLY_INTERNALERROR = 0x0082"
definition FZ_REPLY_BUSY :: int where "FZ_REPLY_BUSY = 0x0102"
definition FZ_REPLY_TIMEOUT :: int where "FZ_REPLY_TIMEOUT = 0x0802"
definition FZ_REPLY_NOTSUPPORTED :: int where "FZ_REPLY_NOTSUPPORTED = 0x1002"
definition FZ_REPLY_LINKNOTDIR :: int where "FZ_REPLY_LINKNOTDIR = 0x4002"
definition FZ_REPLY_CONTINUE :: int where "FZ_REPLY_CONTINUE = 0x8000"
definition FZ_REPLY_ERROR_NOTFOUND :: int where "FZ_REPLY_ERROR_NOTFOUND = 0x10002"

lemmas reply_codes = FZ_REPLY_OK_def FZ_REPLY_WOULDBLOCK_def FZ_REPLY_ERROR_def
  FZ_REPLY_CRITICALERROR_def FZ_REPLY_CANCELED_def FZ_REPLY_SYNTAXERROR_def
  FZ_REPLY_DISCONNECTED_def FZ_REPLY_INTERNALERROR_def FZ_REPLY_BUSY_def FZ_REPLY_TIMEOUT_def
  FZ_REPLY_NOTSUPPORTED_def FZ_REPLY_LINKNOTDIR_def FZ_REPLY_CONTINUE_def FZ_REPLY_ERROR_NOTFOUND_def

text \<open>The test \<open>res & flag\<close> in a condition.\<close>

definition code_has :: "int \<Rightarrow> int \<Rightarrow> bool" where
  "code_has res flag \<longleftrightarrow> res AND flag \<noteq> 0"

subsection \<open>Commands of the engine\<close>

datatype Command = Cmd_none | Cmd_connect | Cmd_disconnect | Cmd_list | Cmd_transfer | Cmd_del
  | Cmd_removedir | Cmd_mkdir | Cmd_rename | Cmd_chmod | Cmd_raw | Cmd_httprequest
  | Cmd_sleep | Cmd_lookup | Cmd_common_private1 | Cmd_common_private2
  | Cmd_private1 | Cmd_private2 | Cmd_private3 | Cmd_private4 | Cmd_private5 | Cmd_private6

record CRenameCommand =
  rn_fromPath :: CServerPath
  rn_fromFile :: wstring
  rn_toPath :: CServerPath
  rn_toFile :: wstring

record CChmodCommand =
  cm_path :: CServerPath
  cm_file :: wstring
  cm_permission :: wstring

text \<open>The commands whose operations are modelled.\<close>

datatype CCommand =
    CDeleteCommand CServerPath "wstring list"
  | CRemoveDirCommand CServerPath wstring
  | CMkdirCommand CServerPath
  | CRename CRenameCommand
  | CChmod CChmodCommand
  | CRawCommand wstring

fun command_id :: "CCommand \<Rightarrow> Command" where
  "command_id (CDeleteCommand _ _) = Cmd_del"
| "command_id (CRemoveDirCommand _ _) = Cmd_removedir"
| "command_id (CMkdirCommand _) = Cmd_mkdir"
| "command_id (CRename _) = Cmd_rename"
| "command_id (CChmod _) = Cmd_chmod"
| "command_id (CRawCommand _) = Cmd_raw"

fun command_valid :: "CCommand \<Rightarrow> bool" where
  "command_valid (CDeleteCommand path files) =
     (if path_empty path \<or> files = [] then False else list_all (\<lambda>f. f \<noteq> []) files)"
| "command_valid (CRemoveDirCommand path subDir) = (\<not> path_empty path \<and> subDir \<noteq> [])"
| "command_valid (CMkdirCommand path) = (\<not> path_empty path \<and> HasParent path)"
| "command_valid (CRename c) =
     (\<not> path_empty (rn_fromPath c) \<and> \<not> path_empty (rn_toPath c) \<and> rn_fromFile c \<noteq> [] \<and> rn_toFile c \<noteq> [])"
| "command_valid (CChmod c) = (\<not> path_empty (cm_path c) \<and> cm_file c \<noteq> [] \<and> cm_permission c \<noteq> [])"
| "command_valid (CRawCommand command) = (command \<noteq> [])"

subsection \<open>Operations on the stack\<close>

datatype cwdStates = cwd_init | cwd_pwd | cwd_cwd | cwd_pwd_cwd | cwd_cwd_subdir | cwd_pwd_subdir
datatype delStates = del_init | del_waitcwd | del_del
datatype rmdStates = rmd_init | rmd_waitcwd | rmd_rmd
datatype renameStates = rename_init | rename_waitcwd | rename_rnfrom | rename_rnto
datatype mkdStates = mkd_init | mkd_findparent | mkd_mkdsub | mkd_cwdsub | mkd_tryfull
datatype chmodStates = chmod_init | chmod_waitcwd | chmod_chmod

record CFtpChangeDirOpData =
  cw_state :: cwdStates
  cw_tried_cdup :: bool
  cw_tryMkdOnFail :: bool
  cw_link_discovery :: bool
  cw_path :: CServerPath
  cw_subDir :: wstring
  cw_target :: CServerPath

record CFtpDeleteOpData =
  del_state :: delStates
  del_path :: CServerPath
  del_files :: "wstring list"
  del_omitPath :: bool
  del_time :: "int option"
  del_needSendListing :: bool
  del_deleteFailed :: bool

record CFtpRemoveDirOpData =
  rmd_state :: rmdStates
  rmd_path :: CServerPath
  rmd_fullPath :: CServerPath
  rmd_subDir :: wstring
  rmd_omitPath :: bool

record CFtpRenameOpData =
  ren_state :: renameStates
  ren_command :: CRenameCommand
  ren_useAbsolute :: bool

record CFtpMkdirOpData =
  mkd_state :: mkdStates
  mkd_path :: CServerPath
  mkd_currentMkdPath :: CServerPath
  mkd_commonParent :: CServerPath
  mkd_segments :: "wstring list"

record CFtpChmodOpData =
  chm_state :: chmodStates
  chm_command :: CChmodCommand
  chm_useAbsolute :: bool

datatype op_data =
    CwdOp CFtpChangeDirOpData
  | DeleteOp CFtpDeleteOpData
  | RemoveDirOp CFtpRemoveDirOpData
  | RenameOp CFtpRenameOpData
  | MkdirOp CFtpMkdirOpData
  | ChmodOp CFtpChmodOpData
  | RawOp wstring

text \<open>The base class: the lock an operation owns, the flag of top-level operations.\<close>

record COpData =
  op_data :: op_data
  op_opLock :: "lock_handle option"
  op_topLevel :: bool

fun data_opId :: "op_data \<Rightarrow> Command" where
  "data_opId (CwdOp _) = Cmd_private1"
| "data_opId (DeleteOp _) = Cmd_del"
| "data_opId (RemoveDirOp _) = Cmd_removedir"
| "data_opId (RenameOp _) = Cmd_rename"
| "data_opId (MkdirOp _) = Cmd_mkdir"
| "data_opId (ChmodOp _) = Cmd_chmod"
| "data_opId (RawOp _) = Cmd_raw"

definition op_opId :: "COpData \<Rightarrow> Command" where
  "op_opId op = data_opId (op_data op)"

definition new_op :: "op_data \<Rightarrow> COpData" where
  "new_op d = \<lparr>op_data = d, op_opLock = None, op_topLevel = False\<rparr>"

subsection \<open>The session\<close>

text \<open>What the session asks of code outside the repository, and what an event finds: the result of
  a write to the socket, the reading of the monotonic clock in milliseconds.  \<open>fe_lib\<close> is
  libfilezilla, the conversions are those of its character sets.\<close>

datatype write_result = Written nat | WriteAgain | WriteError

record ftp_env =
  fe_lib :: libfz
  fe_ConvToServer :: "wstring \<Rightarrow> string"
  fe_ConvToLocal :: "string \<Rightarrow> wstring"
  fe_str_tolower_ascii :: "wstring \<Rightarrow> wstring"
  fe_write :: write_result
  fe_now :: int
  fe_timeout :: int
  fe_sendKeepalive :: bool
  fe_random :: nat

text \<open>The stack \<open>fs_ops\<close> has its top, the back of \<open>operations_\<close>, as its head.
  \<open>fs_connected\<close>: \<open>active_layer_\<close> is set.  \<open>fs_wire\<close> is what the layer took,
  \<open>fs_sent\<close> the commands given to \<open>SendCommand\<close>; with the results, the notifications and
  the events for other sockets they are outputs.  A notification is the path and whether it is the
  primary one.  \<open>fs_currentCommand\<close> is the engine's, \<open>fs_commandEvents\<close> counts its queued events.
  The keepalive timer is \<open>fs_idleTimer\<close>, that of the timeout \<open>fs_timer\<close>.\<close>

record ftp_session =
  fs_ops :: "COpData list"
  fs_server :: CServer
  fs_connected :: bool
  fs_currentPath :: CServerPath
  fs_invalidateCurrentPath :: bool
  fs_repliesToSkip :: nat
  fs_pendingReplies :: nat
  fs_Response :: wstring
  fs_MultilineCode :: wstring
  fs_MultilineLines :: "wstring list"
  fs_receiveBuffer :: string
  fs_send_buffer :: string
  fs_lastTypeBinary :: int
  fs_timer :: bool
  fs_lastActivity :: int
  fs_idleTimer :: bool
  fs_lastCompletion :: "int option"
  fs_currentCommand :: "CCommand option"
  fs_commandEvents :: nat
  fs_wire :: string
  fs_sent :: "wstring list"
  fs_results :: "(int \<times> Command) list"
  fs_notes :: "(CServerPath \<times> bool) list"
  fs_invalidations :: "(CServer \<times> CServerPath) list"
  fs_wakeups :: "nat list"
  fs_socket :: nat
  fs_dc :: CDirectoryCache
  fs_pc :: tPathCache
  fs_locks :: lock_table

definition set_currentPath :: "CServerPath \<Rightarrow> ftp_session \<Rightarrow> ftp_session" where
  "set_currentPath p s = s\<lparr>fs_currentPath := p\<rparr>"

definition clear_currentPath :: "ftp_session \<Rightarrow> ftp_session" where
  "clear_currentPath s = s\<lparr>fs_currentPath := path_clear (fs_currentPath s)\<rparr>"

definition SetAlive :: "ftp_env \<Rightarrow> ftp_session \<Rightarrow> ftp_session" where
  "SetAlive E s = s\<lparr>fs_lastActivity := fe_now E\<rparr>"

definition SetWait :: "ftp_env \<Rightarrow> bool \<Rightarrow> ftp_session \<Rightarrow> ftp_session" where
  "SetWait E wait s =
     (if wait then
        (if fs_timer s then s
         else let s1 = s\<lparr>fs_lastActivity := fe_now E\<rparr>
              in if fe_timeout E = 0 then s1 else s1\<lparr>fs_timer := True\<rparr>)
      else s\<lparr>fs_timer := False\<rparr>)"

subsection \<open>Sending\<close>

definition RealSend :: "ftp_env \<Rightarrow> string \<Rightarrow> ftp_session \<Rightarrow> int \<times> ftp_session" where
  "RealSend E buffer s =
     (if \<not> fs_connected s then (FZ_REPLY_INTERNALERROR, s)
      else
        let s1 = SetWait E True s
        in if fs_send_buffer s1 \<noteq> [] then
             (FZ_REPLY_WOULDBLOCK, s1\<lparr>fs_send_buffer := fs_send_buffer s1 @ buffer\<rparr>)
           else
             (case fe_write E of
                WriteError \<Rightarrow> (FZ_REPLY_ERROR OR FZ_REPLY_DISCONNECTED, s1)
              | WriteAgain \<Rightarrow> (FZ_REPLY_WOULDBLOCK, s1\<lparr>fs_send_buffer := fs_send_buffer s1 @ buffer\<rparr>)
              | Written n \<Rightarrow>
                  let s2 = (if n \<noteq> 0 then SetAlive E s1 else s1);
                      s3 = s2\<lparr>fs_wire := fs_wire s2 @ take n buffer\<rparr>
                  in (FZ_REPLY_WOULDBLOCK,
                      if n < length buffer then s3\<lparr>fs_send_buffer := fs_send_buffer s3 @ drop n buffer\<rparr> else s3)))"

text \<open>\<open>bool res = CRealControlSocket::Send(...)\<close>: any nonzero code counts.\<close>

definition SendCommand :: "ftp_env \<Rightarrow> wstring \<Rightarrow> ftp_session \<Rightarrow> int \<times> ftp_session" where
  "SendCommand E str s =
     (let buffer = fe_ConvToServer E str
      in if buffer = [] then (FZ_REPLY_ERROR, s)
         else
           case RealSend E (buffer @ [CHR 0x0D, CHR 0x0A]) s of
             (code, s1) \<Rightarrow>
               let res = (code \<noteq> 0);
                   s2 = s1\<lparr>fs_sent := fs_sent s1 @ [str]\<rparr>;
                   s3 = (if res then s2\<lparr>fs_pendingReplies := fs_pendingReplies s2 + 1\<rparr> else s2)
               in (if res then FZ_REPLY_WOULDBLOCK else FZ_REPLY_ERROR, s3))"

subsection \<open>Locks, notifications, other sockets\<close>

definition ftp_Lock :: "ftp_env \<Rightarrow> locking_reason \<Rightarrow> CServerPath \<Rightarrow> ftp_session \<Rightarrow> lock_handle \<times> ftp_session" where
  "ftp_Lock E reason path s =
     (case OpLock_Lock (fe_lib E) (fs_locks s) (fs_socket s) (fs_server s) reason path False of
        (m, h) \<Rightarrow> (h, s\<lparr>fs_locks := m\<rparr>))"

definition lock_waiting :: "lock_handle option \<Rightarrow> ftp_session \<Rightarrow> bool" where
  "lock_waiting h s = (case h of None \<Rightarrow> False | Some h \<Rightarrow> OpLock_Waiting (fs_locks s) h)"

text \<open>An operation is destroyed: its lock is released, which wakes up sockets.\<close>

definition destroy_op :: "COpData \<Rightarrow> ftp_session \<Rightarrow> ftp_session" where
  "destroy_op op s =
     (case op_opLock op of
        None \<Rightarrow> s
      | Some h \<Rightarrow>
          (case OpLock_Unlock (fs_locks s) h of
             (m, woken) \<Rightarrow> s\<lparr>fs_locks := m, fs_wakeups := fs_wakeups s @ woken\<rparr>))"

definition SendDirectoryListingNotification :: "CServerPath \<Rightarrow> ftp_session \<Rightarrow> ftp_session" where
  "SendDirectoryListingNotification path s =
     (if sv_host (fs_server s) = [] then s
      else s\<lparr>fs_notes := fs_notes s @
             [(path, length (fs_ops s) = 1 \<and> op_opId (hd (fs_ops s)) = Cmd_list)]\<rparr>)"

definition InvalidateCurrentWorkingDirs :: "CServerPath \<Rightarrow> ftp_session \<Rightarrow> ftp_session" where
  "InvalidateCurrentWorkingDirs path s =
     (if sv_host (fs_server s) = [] then s
      else s\<lparr>fs_invalidations := fs_invalidations s @ [(fs_server s, path)]\<rparr>)"

definition OnInvalidateCurrentWorkingDir :: "ftp_env \<Rightarrow> CServer \<Rightarrow> CServerPath \<Rightarrow> ftp_session \<Rightarrow> ftp_session" where
  "OnInvalidateCurrentWorkingDir E server path s =
     (if \<not> server_eq (fs_server s) server then s
      else if path_empty path \<or> path_empty (fs_currentPath s) then s
      else if IsParentOf (fe_lib E) path (fs_currentPath s) False True then
        (if fs_ops s \<noteq> [] then s\<lparr>fs_invalidateCurrentPath := True\<rparr> else clear_currentPath s)
      else s)"

definition FinalizeResetOperation :: "ftp_session \<Rightarrow> ftp_session" where
  "FinalizeResetOperation s =
     (if fs_invalidateCurrentPath s
      then (clear_currentPath s)\<lparr>fs_invalidateCurrentPath := False\<rparr> else s)"

definition StartKeepaliveTimer :: "ftp_env \<Rightarrow> ftp_session \<Rightarrow> ftp_session" where
  "StartKeepaliveTimer E s =
     (if \<not> fe_sendKeepalive E then s
      else if fs_repliesToSkip s \<noteq> 0 \<or> fs_pendingReplies s \<noteq> 0 then s
      else case fs_lastCompletion s of
             None \<Rightarrow> s
           | Some t \<Rightarrow>
               if 30 \<le> (fe_now E - t) div 60000 then s else s\<lparr>fs_idleTimer := True\<rparr>)"

text \<open>\<open>ResetSocket\<close> of the FTP socket and its base class.\<close>

definition ResetSocket :: "ftp_session \<Rightarrow> ftp_session" where
  "ResetSocket s =
     s\<lparr>fs_receiveBuffer := [], fs_pendingReplies := 0, fs_repliesToSkip := 0, fs_Response := [],
       fs_MultilineCode := [], fs_MultilineLines := [], fs_connected := False, fs_send_buffer := []\<rparr>"

subsection \<open>Replies\<close>

definition GetReplyCode :: "ftp_session \<Rightarrow> nat" where
  "GetReplyCode s =
     (let r = fs_Response s
      in if r = [] then 0
         else if hd r < CHR ''0'' \<or> CHR ''9'' < hd r then 0
         else of_char (hd r) - of_char (CHR ''0''))"

definition positive :: "ftp_session \<Rightarrow> bool" where
  "positive s \<longleftrightarrow> GetReplyCode s = 2 \<or> GetReplyCode s = 3"

definition ParsePath :: "ftp_session \<Rightarrow> wstring \<Rightarrow> CServerPath" where
  "ParsePath s reply =
     (if reply = [] then CServerPath_default
      else
        case SetPath (snd (SetType CServerPath_default (server_type_value (sv_type (fs_server s))))) reply of
          (ok, ret) \<Rightarrow> if \<not> ok then CServerPath_default else ret)"

definition find_quotes :: "char \<Rightarrow> wstring \<Rightarrow> (nat \<times> nat) option" where
  "find_quotes q reply =
     (case (find_idx (\<lambda>c. c = q) reply, rfind_idx (\<lambda>c. c = q) reply) of
        (Some a, Some b) \<Rightarrow> if b \<le> a then None else Some (a, b)
      | _ \<Rightarrow> None)"

definition first_token :: "wstring \<Rightarrow> wstring" where
  "first_token reply =
     (case find_idx (\<lambda>c. c = CHR '' '') reply of
        None \<Rightarrow> []
      | Some i \<Rightarrow>
          let rest = drop (i + 1) reply
          in case find_idx (\<lambda>c. c = CHR '' '') rest of None \<Rightarrow> rest | Some j \<Rightarrow> take j rest)"

definition pwd_text :: "libfz \<Rightarrow> wstring \<Rightarrow> wstring" where
  "pwd_text L reply =
     (case (case find_quotes (CHR 0x22) reply of
              Some r \<Rightarrow> Some r | None \<Rightarrow> find_quotes (CHR 0x27) reply) of
        None \<Rightarrow> first_token reply
      | Some (a, b) \<Rightarrow>
          fz_replace_substrings L (take (b - a - 1) (drop (a + 1) reply)) [CHR 0x22, CHR 0x22] [CHR 0x22])"

definition ParsePwdReply :: "ftp_env \<Rightarrow> wstring \<Rightarrow> CServerPath \<Rightarrow> ftp_session \<Rightarrow> bool \<times> ftp_session" where
  "ParsePwdReply E reply defaultPath s =
     (let s1 = set_currentPath (ParsePath s (pwd_text (fe_lib E) reply)) s
      in if path_empty (fs_currentPath s1)
         then if path_empty defaultPath then (False, s1) else (True, set_currentPath defaultPath s1)
         else (True, s1))"

end
