(* ===== verification/Ftp_Ops.thy ===== *)
theory Ftp_Ops
  imports Ftp_Session
begin

text \<open>
  The operations of an FTP connection, \<open>src/filezilla3/src/engine/ftp/\<close> with \<open>cwd.cpp\<close>,
  \<open>delete.cpp\<close>, \<open>rmd.cpp\<close>, \<open>rename.cpp\<close>, \<open>mkd.cpp\<close>, \<open>chmod.cpp\<close> and
  \<open>rawcommand.cpp\<close>: for each its \<open>Send\<close>, \<open>ParseResponse\<close> and
  \<open>SubcommandResult\<close>.  They return the reply code, the changed operation, the operation they
  pushed and the changed session.  The stack is left to the caller.
\<close>

type_synonym op_result = "int \<times> COpData \<times> COpData option \<times> ftp_session"

definition put_data :: "op_data \<Rightarrow> COpData \<Rightarrow> COpData" where
  "put_data d op = op\<lparr>op_data := d\<rparr>"

text \<open>An operation's last call: send a command and return its code.\<close>

definition send_and_return :: "ftp_env \<Rightarrow> wstring \<Rightarrow> COpData \<Rightarrow> ftp_session \<Rightarrow> op_result" where
  "send_and_return E cmd op s = (case SendCommand E cmd s of (res, s1) \<Rightarrow> (res, op, None, s1))"

subsection \<open>Creation of operations\<close>

definition ChangeDir_op :: "CServerPath \<Rightarrow> wstring \<Rightarrow> bool \<Rightarrow> COpData" where
  "ChangeDir_op path subDir link_discovery =
     new_op (CwdOp \<lparr>cw_state = cwd_init, cw_tried_cdup = False, cw_tryMkdOnFail = False,
        cw_link_discovery = link_discovery, cw_path = path, cw_subDir = subDir, cw_target = CServerPath_default\<rparr>)"

definition Delete_op :: "CServerPath \<Rightarrow> wstring list \<Rightarrow> COpData" where
  "Delete_op path files =
     new_op (DeleteOp \<lparr>del_state = del_init, del_path = path, del_files = files, del_omitPath = True,
        del_time = None, del_needSendListing = False, del_deleteFailed = False\<rparr>)"

definition RemoveDir_op :: "CServerPath \<Rightarrow> wstring \<Rightarrow> COpData" where
  "RemoveDir_op path subDir =
     new_op (RemoveDirOp \<lparr>rmd_state = rmd_init, rmd_path = path, rmd_fullPath = path, rmd_subDir = subDir,
        rmd_omitPath = True\<rparr>)"

definition Mkdir_op :: "CServerPath \<Rightarrow> COpData" where
  "Mkdir_op path =
     new_op (MkdirOp \<lparr>mkd_state = mkd_init, mkd_path = path, mkd_currentMkdPath = CServerPath_default,
        mkd_commonParent = CServerPath_default, mkd_segments = []\<rparr>)"

definition Rename_op :: "CRenameCommand \<Rightarrow> COpData" where
  "Rename_op c = new_op (RenameOp \<lparr>ren_state = rename_init, ren_command = c, ren_useAbsolute = False\<rparr>)"

definition Chmod_op :: "CChmodCommand \<Rightarrow> COpData" where
  "Chmod_op c = new_op (ChmodOp \<lparr>chm_state = chmod_init, chm_command = c, chm_useAbsolute = False\<rparr>)"

definition RawCommand_op :: "wstring \<Rightarrow> COpData" where
  "RawCommand_op command = new_op (RawOp command)"

subsection \<open>Changing the directory\<close>

definition here_or_target :: "CServerPath \<Rightarrow> CServerPath \<Rightarrow> ftp_session \<Rightarrow> bool" where
  "here_or_target path target s \<longleftrightarrow>
     path_eq (fs_currentPath s) path \<or> (\<not> path_empty target \<and> path_eq target (fs_currentPath s))"

definition cwd_Send_init :: "CFtpChangeDirOpData \<Rightarrow> ftp_session \<Rightarrow> int \<times> CFtpChangeDirOpData" where
  "cwd_Send_init d s =
     (if path_empty (cw_path d) then
        let d1 = d\<lparr>cw_path := snd (SetType (cw_path d) (server_type_value (sv_type (fs_server s))))\<rparr>
        in if path_empty (fs_currentPath s) then (FZ_REPLY_CONTINUE, d1\<lparr>cw_state := cwd_pwd\<rparr>)
           else (FZ_REPLY_OK, d1)
      else if cw_subDir d \<noteq> [] then
        let target = pathcache_Lookup (fs_pc s) (fs_server s) (cw_path d) (cw_subDir d)
        in if \<not> path_empty target then
             if path_eq (fs_currentPath s) target then (FZ_REPLY_OK, d\<lparr>cw_target := target\<rparr>)
             else (FZ_REPLY_CONTINUE,
                   d\<lparr>cw_target := target, cw_path := target, cw_subDir := [], cw_state := cwd_cwd\<rparr>)
           else
             let target = pathcache_Lookup (fs_pc s) (fs_server s) (cw_path d) []
             in if here_or_target (cw_path d) target s
                then (FZ_REPLY_CONTINUE, d\<lparr>cw_target := path_clear target, cw_state := cwd_cwd_subdir\<rparr>)
                else (FZ_REPLY_CONTINUE, d\<lparr>cw_target := target, cw_state := cwd_cwd\<rparr>)
      else
        let target = pathcache_Lookup (fs_pc s) (fs_server s) (cw_path d) []
        in if here_or_target (cw_path d) target s then (FZ_REPLY_OK, d\<lparr>cw_target := target\<rparr>)
           else (FZ_REPLY_CONTINUE, d\<lparr>cw_target := target, cw_state := cwd_cwd\<rparr>))"

definition cwd_Send_cwd :: "ftp_env \<Rightarrow> CFtpChangeDirOpData \<Rightarrow> COpData \<Rightarrow> ftp_session \<Rightarrow> op_result" where
  "cwd_Send_cwd E d op s =
     (case (if cw_tryMkdOnFail d \<and> op_opLock op = None
            then case ftp_Lock E reason_mkdir (cw_path d) s of (h, s1) \<Rightarrow> (op\<lparr>op_opLock := Some h\<rparr>, s1)
            else (op, s)) of
        (op1, s1) \<Rightarrow>
          if lock_waiting (op_opLock op1) s1
          then (FZ_REPLY_WOULDBLOCK, put_data (CwdOp (d\<lparr>cw_tryMkdOnFail := False\<rparr>)) op1, None, s1)
          else send_and_return E (''CWD '' @ GetPath (fe_lib E) (cw_path d)) op1 (clear_currentPath s1))"

definition cwd_Send_subdir :: "ftp_env \<Rightarrow> CFtpChangeDirOpData \<Rightarrow> COpData \<Rightarrow> ftp_session \<Rightarrow> op_result" where
  "cwd_Send_subdir E d op s =
     (if cw_subDir d = [] then (FZ_REPLY_INTERNALERROR, op, None, s)
      else
        let cmd = (if cw_subDir d = ''..'' \<and> \<not> cw_tried_cdup d then ''CDUP''
                   else ''CWD '' @ FormatSubdir (fe_lib E) (cw_path d) (cw_subDir d))
        in send_and_return E cmd op (clear_currentPath s))"

definition cwd_Send :: "ftp_env \<Rightarrow> CFtpChangeDirOpData \<Rightarrow> COpData \<Rightarrow> ftp_session \<Rightarrow> op_result" where
  "cwd_Send E d op s =
     (case cw_state d of
        cwd_init \<Rightarrow> (case cwd_Send_init d s of (res, d1) \<Rightarrow> (res, put_data (CwdOp d1) op, None, s))
      | cwd_pwd \<Rightarrow> send_and_return E ''PWD'' op s
      | cwd_pwd_cwd \<Rightarrow> send_and_return E ''PWD'' op s
      | cwd_pwd_subdir \<Rightarrow> send_and_return E ''PWD'' op s
      | cwd_cwd \<Rightarrow> cwd_Send_cwd E d op s
      | cwd_cwd_subdir \<Rightarrow> cwd_Send_subdir E d op s)"

text \<open>\<open>PathCache().Store\<close> of the directory the connection is in now.\<close>

definition store_current :: "CServerPath \<Rightarrow> wstring \<Rightarrow> ftp_session \<Rightarrow> ftp_session" where
  "store_current source subdir s =
     s\<lparr>fs_pc := pathcache_Store (fs_pc s) (fs_server s) (fs_currentPath s) source subdir\<rparr>"

definition cwd_Parse_cwd :: "CFtpChangeDirOpData \<Rightarrow> COpData \<Rightarrow> ftp_session \<Rightarrow> op_result" where
  "cwd_Parse_cwd d op s =
     (if \<not> positive s then
        if cw_tryMkdOnFail d
        then (FZ_REPLY_CONTINUE, put_data (CwdOp (d\<lparr>cw_tryMkdOnFail := False\<rparr>)) op, Some (Mkdir_op (cw_path d)), s)
        else (FZ_REPLY_ERROR, op, None, s)
      else if path_empty (cw_target d)
        then (FZ_REPLY_CONTINUE, put_data (CwdOp (d\<lparr>cw_state := cwd_pwd_cwd\<rparr>)) op, None, s)
      else
        let s1 = set_currentPath (cw_target d) s
        in if cw_subDir d = [] then (FZ_REPLY_OK, op, None, s1)
           else (FZ_REPLY_CONTINUE,
                 put_data (CwdOp (d\<lparr>cw_target := path_clear (cw_target d), cw_state := cwd_cwd_subdir\<rparr>)) op, None, s1))"

definition cwd_Parse_pwd_cwd :: "ftp_env \<Rightarrow> CFtpChangeDirOpData \<Rightarrow> COpData \<Rightarrow> ftp_session \<Rightarrow> op_result" where
  "cwd_Parse_pwd_cwd E d op s =
     (case (if \<not> positive s then (True, set_currentPath (cw_path d) s)
            else ParsePwdReply E (fs_Response s) (cw_path d) s) of
        (ok, s1) \<Rightarrow>
          if \<not> ok then (FZ_REPLY_ERROR, op, None, s1)
          else
            let s2 = (if path_empty (cw_target d) then store_current (cw_path d) [] s1 else s1)
            in if cw_subDir d = [] then (FZ_REPLY_OK, op, None, s2)
               else (FZ_REPLY_CONTINUE, put_data (CwdOp (d\<lparr>cw_state := cwd_cwd_subdir\<rparr>)) op, None, s2))"

definition cwd_Parse_subdir :: "CFtpChangeDirOpData \<Rightarrow> COpData \<Rightarrow> ftp_session \<Rightarrow> op_result" where
  "cwd_Parse_subdir d op s =
     (if \<not> positive s then
        if cw_subDir d = ''..'' \<and> \<not> cw_tried_cdup d \<and> take 2 (fs_Response s) = ''50''
        then (FZ_REPLY_CONTINUE, put_data (CwdOp (d\<lparr>cw_tried_cdup := True\<rparr>)) op, None, s)
        else if cw_link_discovery d then (FZ_REPLY_LINKNOTDIR, op, None, s)
        else (FZ_REPLY_ERROR, op, None, s)
      else (FZ_REPLY_CONTINUE, put_data (CwdOp (d\<lparr>cw_state := cwd_pwd_subdir\<rparr>)) op, None, s))"

definition assumed_path :: "CServerPath \<Rightarrow> wstring \<Rightarrow> CServerPath" where
  "assumed_path path subDir =
     (if subDir = ''..'' then (if \<not> HasParent path then path_clear path else GetParent path)
      else snd (AddSegment path subDir))"

definition cwd_Parse_pwd_subdir :: "ftp_env \<Rightarrow> CFtpChangeDirOpData \<Rightarrow> COpData \<Rightarrow> ftp_session \<Rightarrow> op_result" where
  "cwd_Parse_pwd_subdir E d op s =
     (let assumedPath = assumed_path (cw_path d) (cw_subDir d)
      in case (if \<not> positive s
               then if \<not> path_empty assumedPath then (True, set_currentPath assumedPath s) else (False, s)
               else ParsePwdReply E (fs_Response s) assumedPath s) of
           (ok, s1) \<Rightarrow>
             if \<not> ok then (FZ_REPLY_ERROR, op, None, s1)
             else (FZ_REPLY_OK, op, None,
                   if path_empty (cw_target d) then store_current (cw_path d) (cw_subDir d) s1 else s1))"

definition cwd_ParseResponse :: "ftp_env \<Rightarrow> CFtpChangeDirOpData \<Rightarrow> COpData \<Rightarrow> ftp_session \<Rightarrow> op_result" where
  "cwd_ParseResponse E d op s =
     (case cw_state d of
        cwd_init \<Rightarrow> (FZ_REPLY_CONTINUE, op, None, s)
      | cwd_pwd \<Rightarrow>
          (if \<not> positive s then (FZ_REPLY_ERROR, op, None, s)
           else case ParsePwdReply E (fs_Response s) CServerPath_default s of
                  (ok, s1) \<Rightarrow> (if ok then FZ_REPLY_OK else FZ_REPLY_ERROR, op, None, s1))
      | cwd_cwd \<Rightarrow> cwd_Parse_cwd d op s
      | cwd_pwd_cwd \<Rightarrow> cwd_Parse_pwd_cwd E d op s
      | cwd_cwd_subdir \<Rightarrow> cwd_Parse_subdir d op s
      | cwd_pwd_subdir \<Rightarrow> cwd_Parse_pwd_subdir E d op s)"

subsection \<open>Deleting files\<close>

text \<open>\<open>files_.back()\<close> is only read while files are left, see \<open>op_ok\<close> below.\<close>

definition delete_Send :: "ftp_env \<Rightarrow> CFtpDeleteOpData \<Rightarrow> COpData \<Rightarrow> ftp_session \<Rightarrow> op_result" where
  "delete_Send E d op s =
     (case del_state d of
        del_init \<Rightarrow>
          (FZ_REPLY_CONTINUE, put_data (DeleteOp (d\<lparr>del_state := del_waitcwd\<rparr>)) op,
           Some (ChangeDir_op (del_path d) [] False), s)
      | del_waitcwd \<Rightarrow> (FZ_REPLY_INTERNALERROR, op, None, s)
      | del_del \<Rightarrow>
          let file = last (del_files d);
              filename = FormatFilename (fe_lib E) (del_path d) file (del_omitPath d)
          in if file = [] then (FZ_REPLY_INTERNALERROR, op, None, s)
             else if filename = [] then (FZ_REPLY_ERROR, op, None, s)
             else send_and_return E (''DELE '' @ filename) op
                    (s\<lparr>fs_dc := snd (cache_InvalidateFile (fe_lib E) (fe_now E) (fs_server s) (del_path d) file (fs_dc s))\<rparr>))"

definition delete_success :: "ftp_env \<Rightarrow> CFtpDeleteOpData \<Rightarrow> ftp_session \<Rightarrow> CFtpDeleteOpData \<times> ftp_session" where
  "delete_success E d s =
     (let s1 = s\<lparr>fs_dc := snd (cache_RemoveFile (fe_lib E) (fe_now E) (fs_server s) (del_path d)
                            (last (del_files d)) (fs_dc s))\<rparr>
      in case del_time d of
           Some t \<Rightarrow>
             if 1 \<le> (fe_now E - t) div 1000
             then (d\<lparr>del_time := Some (fe_now E), del_needSendListing := False\<rparr>,
                   SendDirectoryListingNotification (del_path d) s1)
             else (d\<lparr>del_needSendListing := True\<rparr>, s1)
         | None \<Rightarrow> (d\<lparr>del_needSendListing := True\<rparr>, s1))"

definition delete_ParseResponse :: "ftp_env \<Rightarrow> CFtpDeleteOpData \<Rightarrow> COpData \<Rightarrow> ftp_session \<Rightarrow> op_result" where
  "delete_ParseResponse E d op s =
     (case (if \<not> positive s then (d\<lparr>del_deleteFailed := True\<rparr>, s) else delete_success E d s) of
        (d1, s1) \<Rightarrow>
          let d2 = d1\<lparr>del_files := butlast (del_files d1)\<rparr>
          in (if del_files d2 \<noteq> [] then FZ_REPLY_CONTINUE
              else if del_deleteFailed d2 then FZ_REPLY_ERROR else FZ_REPLY_OK,
              put_data (DeleteOp d2) op, None, s1))"

definition delete_SubcommandResult :: "ftp_env \<Rightarrow> int \<Rightarrow> CFtpDeleteOpData \<Rightarrow> int \<times> CFtpDeleteOpData" where
  "delete_SubcommandResult E prevResult d =
     (if del_state d = del_waitcwd then
        (FZ_REPLY_CONTINUE,
         d\<lparr>del_state := del_del, del_omitPath := (if prevResult \<noteq> FZ_REPLY_OK then False else del_omitPath d),
           del_time := Some (fe_now E)\<rparr>)
      else (FZ_REPLY_INTERNALERROR, d))"

definition delete_Reset :: "int \<Rightarrow> CFtpDeleteOpData \<Rightarrow> ftp_session \<Rightarrow> ftp_session" where
  "delete_Reset result d s =
     (if del_needSendListing d \<and> \<not> code_has result FZ_REPLY_DISCONNECTED
      then SendDirectoryListingNotification (del_path d) s else s)"

subsection \<open>Removing a directory\<close>

definition rmd_target :: "CFtpRemoveDirOpData \<Rightarrow> ftp_session \<Rightarrow> CServerPath option" where
  "rmd_target d s =
     (let path = pathcache_Lookup (fs_pc s) (fs_server s) (rmd_path d) (rmd_subDir d)
      in if path_empty path
         then (case AddSegment (rmd_path d) (rmd_subDir d) of (ok, p) \<Rightarrow> if ok then Some p else None)
         else Some path)"

definition rmd_invalidate :: "ftp_env \<Rightarrow> CFtpRemoveDirOpData \<Rightarrow> CServerPath \<Rightarrow> ftp_session \<Rightarrow> ftp_session" where
  "rmd_invalidate E d path s =
     InvalidateCurrentWorkingDirs path
       (s\<lparr>fs_dc := snd (cache_InvalidateFile (fe_lib E) (fe_now E) (fs_server s) (rmd_path d) (rmd_subDir d) (fs_dc s)),
          fs_pc := pathcache_InvalidatePath (fe_lib E) (fs_pc s) (fs_server s) (rmd_path d) (rmd_subDir d)\<rparr>)"

definition rmd_Send :: "ftp_env \<Rightarrow> CFtpRemoveDirOpData \<Rightarrow> COpData \<Rightarrow> ftp_session \<Rightarrow> op_result" where
  "rmd_Send E d op s =
     (case rmd_state d of
        rmd_init \<Rightarrow>
          (FZ_REPLY_CONTINUE, put_data (RemoveDirOp (d\<lparr>rmd_state := rmd_waitcwd\<rparr>)) op,
           Some (ChangeDir_op (rmd_path d) [] False), s)
      | rmd_waitcwd \<Rightarrow> (FZ_REPLY_INTERNALERROR, op, None, s)
      | rmd_rmd \<Rightarrow>
          (case rmd_target d s of
             None \<Rightarrow> (FZ_REPLY_ERROR, op, None, s)
           | Some path \<Rightarrow>
               let s1 = rmd_invalidate E d path s
               in if rmd_omitPath d then send_and_return E (''RMD '' @ rmd_subDir d) op s1
                  else case AddSegment (rmd_fullPath d) (rmd_subDir d) of
                         (ok, full) \<Rightarrow>
                           let op1 = put_data (RemoveDirOp (d\<lparr>rmd_fullPath := full\<rparr>)) op
                           in if \<not> ok then (FZ_REPLY_ERROR, op1, None, s1)
                              else send_and_return E (''RMD '' @ GetPath (fe_lib E) full) op1 s1))"

definition rmd_ParseResponse :: "ftp_env \<Rightarrow> CFtpRemoveDirOpData \<Rightarrow> COpData \<Rightarrow> ftp_session \<Rightarrow> op_result" where
  "rmd_ParseResponse E d op s =
     (if \<not> positive s then (FZ_REPLY_ERROR, op, None, s)
      else (FZ_REPLY_OK, op, None,
            SendDirectoryListingNotification (rmd_path d)
              (s\<lparr>fs_dc := cache_RemoveDir (fe_lib E) (fe_now E) (fs_server s) (rmd_path d) (rmd_subDir d) (fs_dc s)\<rparr>)))"

definition rmd_SubcommandResult :: "int \<Rightarrow> CFtpRemoveDirOpData \<Rightarrow> ftp_session \<Rightarrow> int \<times> CFtpRemoveDirOpData" where
  "rmd_SubcommandResult prevResult d s =
     (if rmd_state d = rmd_waitcwd then
        (FZ_REPLY_CONTINUE,
         (if prevResult \<noteq> FZ_REPLY_OK then d\<lparr>rmd_omitPath := False\<rparr> else d\<lparr>rmd_path := fs_currentPath s\<rparr>)
           \<lparr>rmd_state := rmd_rmd\<rparr>)
      else (FZ_REPLY_INTERNALERROR, d))"

subsection \<open>Renaming\<close>

definition rename_invalidate :: "ftp_env \<Rightarrow> CRenameCommand \<Rightarrow> ftp_session \<Rightarrow> ftp_session" where
  "rename_invalidate E c s =
     (let L = fe_lib E; server = fs_server s;
          dc1 = snd (cache_InvalidateFile L (fe_now E) server (rn_fromPath c) (rn_fromFile c) (fs_dc s));
          dc2 = snd (cache_InvalidateFile L (fe_now E) server (rn_toPath c) (rn_toFile c) dc1);
          found = pathcache_Lookup (fs_pc s) server (rn_fromPath c) (rn_fromFile c);
          path = (if path_empty found then snd (AddSegment (rn_fromPath c) (rn_fromFile c)) else found);
          s1 = InvalidateCurrentWorkingDirs path (s\<lparr>fs_dc := dc2\<rparr>);
          pc1 = pathcache_InvalidatePath L (fs_pc s1) server (rn_fromPath c) (rn_fromFile c)
      in s1\<lparr>fs_pc := pathcache_InvalidatePath L pc1 server (rn_toPath c) (rn_toFile c)\<rparr>)"

definition rename_Send :: "ftp_env \<Rightarrow> CFtpRenameOpData \<Rightarrow> COpData \<Rightarrow> ftp_session \<Rightarrow> op_result" where
  "rename_Send E d op s =
     (let c = ren_command d; L = fe_lib E
      in case ren_state d of
           rename_init \<Rightarrow>
             (FZ_REPLY_CONTINUE, put_data (RenameOp (d\<lparr>ren_state := rename_waitcwd\<rparr>)) op,
              Some (ChangeDir_op (rn_fromPath c) [] False), s)
         | rename_waitcwd \<Rightarrow> (FZ_REPLY_INTERNALERROR, op, None, s)
         | rename_rnfrom \<Rightarrow>
             send_and_return E (''RNFR '' @ FormatFilename L (rn_fromPath c) (rn_fromFile c) (\<not> ren_useAbsolute d)) op s
         | rename_rnto \<Rightarrow>
             send_and_return E
               (''RNTO '' @ FormatFilename L (rn_toPath c) (rn_toFile c)
                  (\<not> ren_useAbsolute d \<and> path_eq (rn_fromPath c) (rn_toPath c)))
               op (rename_invalidate E c s))"

definition rename_ParseResponse :: "ftp_env \<Rightarrow> CFtpRenameOpData \<Rightarrow> COpData \<Rightarrow> ftp_session \<Rightarrow> op_result" where
  "rename_ParseResponse E d op s =
     (if \<not> positive s then (FZ_REPLY_ERROR, op, None, s)
      else if ren_state d = rename_rnfrom
        then (FZ_REPLY_CONTINUE, put_data (RenameOp (d\<lparr>ren_state := rename_rnto\<rparr>)) op, None, s)
      else
        let c = ren_command d;
            s1 = s\<lparr>fs_dc := cache_Rename (fe_lib E) (fe_now E) (fs_server s) (rn_fromPath c) (rn_fromFile c)
                             (rn_toPath c) (rn_toFile c) (fs_dc s)\<rparr>;
            s2 = SendDirectoryListingNotification (rn_fromPath c) s1
        in (FZ_REPLY_OK, op, None,
            if path_neq (rn_fromPath c) (rn_toPath c) then SendDirectoryListingNotification (rn_toPath c) s2 else s2))"

definition rename_SubcommandResult :: "int \<Rightarrow> CFtpRenameOpData \<Rightarrow> int \<times> CFtpRenameOpData" where
  "rename_SubcommandResult prevResult d =
     (if ren_state d = rename_waitcwd
      then (FZ_REPLY_CONTINUE,
            d\<lparr>ren_useAbsolute := (if prevResult \<noteq> FZ_REPLY_OK then True else ren_useAbsolute d),
              ren_state := rename_rnfrom\<rparr>)
      else (FZ_REPLY_INTERNALERROR, d))"

subsection \<open>Creating directories\<close>

definition mkd_Send_init :: "libfz \<Rightarrow> CFtpMkdirOpData \<Rightarrow> ftp_session \<Rightarrow> int \<times> CFtpMkdirOpData" where
  "mkd_Send_init L d s =
     (let cur = fs_currentPath s; path = mkd_path d
      in if \<not> path_empty cur \<and> (path_eq cur path \<or> IsSubdirOf L cur path False False) then (FZ_REPLY_OK, d)
         else
           let d1 = (if path_empty cur then d
                     else if IsParentOf L cur path False False then d\<lparr>mkd_commonParent := cur\<rparr>
                     else d\<lparr>mkd_commonParent := GetCommonParent L path cur\<rparr>)
           in if \<not> HasParent path then (FZ_REPLY_CONTINUE, d1\<lparr>mkd_state := mkd_tryfull\<rparr>)
              else
                let d2 = d1\<lparr>mkd_currentMkdPath := GetParent path,
                            mkd_segments := mkd_segments d1 @ [GetLastSegment path]\<rparr>
                in (FZ_REPLY_CONTINUE,
                    d2\<lparr>mkd_state := (if path_eq (mkd_currentMkdPath d2) cur then mkd_mkdsub else mkd_findparent)\<rparr>))"

definition mkd_Send :: "ftp_env \<Rightarrow> CFtpMkdirOpData \<Rightarrow> COpData \<Rightarrow> ftp_session \<Rightarrow> op_result" where
  "mkd_Send E d op s =
     (case (if op_opLock op = None
            then case ftp_Lock E reason_mkdir (mkd_path d) s of (h, s1) \<Rightarrow> (op\<lparr>op_opLock := Some h\<rparr>, s1)
            else (op, s)) of
        (op1, s1) \<Rightarrow>
          if lock_waiting (op_opLock op1) s1 then (FZ_REPLY_WOULDBLOCK, op1, None, s1)
          else
            (case mkd_state d of
               mkd_init \<Rightarrow>
                 (case mkd_Send_init (fe_lib E) d s1 of (res, d1) \<Rightarrow> (res, put_data (MkdirOp d1) op1, None, s1))
             | mkd_findparent \<Rightarrow>
                 send_and_return E (''CWD '' @ GetPath (fe_lib E) (mkd_currentMkdPath d)) op1 (clear_currentPath s1)
             | mkd_cwdsub \<Rightarrow>
                 send_and_return E (''CWD '' @ GetPath (fe_lib E) (mkd_currentMkdPath d)) op1 (clear_currentPath s1)
             | mkd_mkdsub \<Rightarrow> send_and_return E (''MKD '' @ last (mkd_segments d)) op1 s1
             | mkd_tryfull \<Rightarrow> send_and_return E (''MKD '' @ GetPath (fe_lib E) (mkd_path d)) op1 s1))"

definition IsAlreadyExistsResponse :: "ftp_env \<Rightarrow> wstring \<Rightarrow> CServerPath \<Rightarrow> bool" where
  "IsAlreadyExistsResponse E raw_response raw_path =
     (let response = fe_str_tolower_ascii E (drop 4 raw_response);
          p = fe_str_tolower_ascii E (GetPath (fe_lib E) raw_path);
          only_in_response = (\<lambda>t. find_sub t p = None \<and> find_sub t response \<noteq> None)
      in if response = ''directory already exists'' \<or> response = ''file or directory already exists'' then True
         else only_in_response ''already exists'' \<or> only_in_response ''file exists'' \<or>
              only_in_response ''directory exists'')"

definition mkd_exists_as_file :: "ftp_env \<Rightarrow> CFtpMkdirOpData \<Rightarrow> ftp_session \<Rightarrow> bool \<times> ftp_session" where
  "mkd_exists_as_file E d s =
     (case cache_LookupFile_dir (fe_lib E) (fe_now E) (fs_server s) (mkd_currentMkdPath d) (last (mkd_segments d)) (fs_dc s) of
        ((found, _), dc) \<Rightarrow>
          ((case found of None \<Rightarrow> False | Some (e, _) \<Rightarrow> \<not> is_dir e), s\<lparr>fs_dc := dc\<rparr>))"

definition mkd_created :: "ftp_env \<Rightarrow> CFtpMkdirOpData \<Rightarrow> COpData \<Rightarrow> ftp_session \<Rightarrow> op_result" where
  "mkd_created E d op s =
     (let name = last (mkd_segments d);
          s1 = s\<lparr>fs_dc := snd (cache_UpdateFile (fe_lib E) (fe_now E) (fs_server s) (mkd_currentMkdPath d) name
                                 True ft_dir (-1) [] (fs_dc s))\<rparr>;
          s2 = SendDirectoryListingNotification (mkd_currentMkdPath d) s1;
          d1 = d\<lparr>mkd_currentMkdPath := snd (AddSegment (mkd_currentMkdPath d) name),
                 mkd_segments := butlast (mkd_segments d)\<rparr>
      in if mkd_segments d1 = [] then (FZ_REPLY_OK, put_data (MkdirOp d1) op, None, s2)
         else (FZ_REPLY_CONTINUE, put_data (MkdirOp (d1\<lparr>mkd_state := mkd_cwdsub\<rparr>)) op, None, s2))"

definition mkd_Parse_mkdsub :: "ftp_env \<Rightarrow> CFtpMkdirOpData \<Rightarrow> COpData \<Rightarrow> ftp_session \<Rightarrow> op_result" where
  "mkd_Parse_mkdsub E d op s =
     (if mkd_segments d = [] then (FZ_REPLY_INTERNALERROR, op, None, s)
      else if \<not> positive s then
        if \<not> IsAlreadyExistsResponse E (fs_Response s) (mkd_path d) then (FZ_REPLY_ERROR, op, None, s)
        else case mkd_exists_as_file E d s of
               (is_file, s1) \<Rightarrow>
                 if is_file then (FZ_REPLY_ERROR, op, None, s1) else mkd_created E d op s1
      else mkd_created E d op s)"

definition mkd_Parse_findparent :: "CFtpMkdirOpData \<Rightarrow> ftp_session \<Rightarrow> CFtpMkdirOpData \<times> ftp_session" where
  "mkd_Parse_findparent d s =
     (if positive s then (d\<lparr>mkd_state := mkd_mkdsub\<rparr>, set_currentPath (mkd_currentMkdPath d) s)
      else if path_eq (mkd_currentMkdPath d) (mkd_commonParent d) then (d\<lparr>mkd_state := mkd_tryfull\<rparr>, s)
      else if HasParent (mkd_currentMkdPath d) then
        (d\<lparr>mkd_segments := mkd_segments d @ [GetLastSegment (mkd_currentMkdPath d)],
           mkd_currentMkdPath := GetParent (mkd_currentMkdPath d)\<rparr>, s)
      else (d\<lparr>mkd_state := mkd_tryfull\<rparr>, s))"

definition mkd_ParseResponse :: "ftp_env \<Rightarrow> CFtpMkdirOpData \<Rightarrow> COpData \<Rightarrow> ftp_session \<Rightarrow> op_result" where
  "mkd_ParseResponse E d op s =
     (case mkd_state d of
        mkd_init \<Rightarrow> (FZ_REPLY_INTERNALERROR, op, None, s)
      | mkd_findparent \<Rightarrow>
          (case mkd_Parse_findparent d s of (d1, s1) \<Rightarrow> (FZ_REPLY_CONTINUE, put_data (MkdirOp d1) op, None, s1))
      | mkd_mkdsub \<Rightarrow> mkd_Parse_mkdsub E d op s
      | mkd_cwdsub \<Rightarrow>
          (if positive s
           then (FZ_REPLY_CONTINUE, put_data (MkdirOp (d\<lparr>mkd_state := mkd_mkdsub\<rparr>)) op, None,
                 set_currentPath (mkd_currentMkdPath d) s)
           else (FZ_REPLY_CONTINUE, put_data (MkdirOp (d\<lparr>mkd_state := mkd_tryfull\<rparr>)) op, None, s))
      | mkd_tryfull \<Rightarrow> (if \<not> positive s then FZ_REPLY_ERROR else FZ_REPLY_OK, op, None, s))"

subsection \<open>Permissions and raw commands\<close>

definition chmod_Send :: "ftp_env \<Rightarrow> CFtpChmodOpData \<Rightarrow> COpData \<Rightarrow> ftp_session \<Rightarrow> op_result" where
  "chmod_Send E d op s =
     (let c = chm_command d
      in case chm_state d of
           chmod_init \<Rightarrow>
             (FZ_REPLY_CONTINUE, put_data (ChmodOp (d\<lparr>chm_state := chmod_waitcwd\<rparr>)) op,
              Some (ChangeDir_op (cm_path c) [] False), s)
         | chmod_waitcwd \<Rightarrow> (FZ_REPLY_INTERNALERROR, op, None, s)
         | chmod_chmod \<Rightarrow>
             send_and_return E
               (''SITE CHMOD '' @ cm_permission c @ '' '' @
                  FormatFilename (fe_lib E) (cm_path c) (cm_file c) (\<not> chm_useAbsolute d)) op s)"

definition chmod_ParseResponse :: "ftp_env \<Rightarrow> CFtpChmodOpData \<Rightarrow> COpData \<Rightarrow> ftp_session \<Rightarrow> op_result" where
  "chmod_ParseResponse E d op s =
     (if \<not> positive s then (FZ_REPLY_ERROR, op, None, s)
      else
        let c = chm_command d
        in (FZ_REPLY_OK, op, None,
            s\<lparr>fs_dc := snd (cache_UpdateFile (fe_lib E) (fe_now E) (fs_server s) (cm_path c) (cm_file c)
                             False ft_unknown (-1) [] (fs_dc s))\<rparr>))"

definition chmod_SubcommandResult :: "int \<Rightarrow> CFtpChmodOpData \<Rightarrow> int \<times> CFtpChmodOpData" where
  "chmod_SubcommandResult prevResult d =
     (if chm_state d = chmod_waitcwd
      then (FZ_REPLY_CONTINUE,
            d\<lparr>chm_useAbsolute := (if prevResult \<noteq> FZ_REPLY_OK then True else chm_useAbsolute d),
              chm_state := chmod_chmod\<rparr>)
      else (FZ_REPLY_INTERNALERROR, d))"

definition raw_Send :: "ftp_env \<Rightarrow> wstring \<Rightarrow> COpData \<Rightarrow> ftp_session \<Rightarrow> op_result" where
  "raw_Send E command op s =
     send_and_return E command op
       ((clear_currentPath
          (s\<lparr>fs_dc := cache_InvalidateServer (fs_server s) (fs_dc s),
             fs_pc := pathcache_InvalidateServer (fs_pc s) (fs_server s)\<rparr>))\<lparr>fs_lastTypeBinary := -1\<rparr>)"

definition raw_ParseResponse :: "COpData \<Rightarrow> ftp_session \<Rightarrow> op_result" where
  "raw_ParseResponse op s = (if positive s then FZ_REPLY_OK else FZ_REPLY_ERROR, op, None, s)"

subsection \<open>Dispatch\<close>

definition op_Send :: "ftp_env \<Rightarrow> COpData \<Rightarrow> ftp_session \<Rightarrow> op_result" where
  "op_Send E op s =
     (case op_data op of
        CwdOp d \<Rightarrow> cwd_Send E d op s
      | DeleteOp d \<Rightarrow> delete_Send E d op s
      | RemoveDirOp d \<Rightarrow> rmd_Send E d op s
      | RenameOp d \<Rightarrow> rename_Send E d op s
      | MkdirOp d \<Rightarrow> mkd_Send E d op s
      | ChmodOp d \<Rightarrow> chmod_Send E d op s
      | RawOp c \<Rightarrow> raw_Send E c op s)"

definition op_ParseResponse :: "ftp_env \<Rightarrow> COpData \<Rightarrow> ftp_session \<Rightarrow> op_result" where
  "op_ParseResponse E op s =
     (case op_data op of
        CwdOp d \<Rightarrow> cwd_ParseResponse E d op s
      | DeleteOp d \<Rightarrow> delete_ParseResponse E d op s
      | RemoveDirOp d \<Rightarrow> rmd_ParseResponse E d op s
      | RenameOp d \<Rightarrow> rename_ParseResponse E d op s
      | MkdirOp d \<Rightarrow> mkd_ParseResponse E d op s
      | ChmodOp d \<Rightarrow> chmod_ParseResponse E d op s
      | RawOp c \<Rightarrow> raw_ParseResponse op s)"

definition default_SubcommandResult :: "int \<Rightarrow> int" where
  "default_SubcommandResult prevResult = (if prevResult = FZ_REPLY_OK then FZ_REPLY_CONTINUE else prevResult)"

definition op_SubcommandResult :: "ftp_env \<Rightarrow> int \<Rightarrow> COpData \<Rightarrow> ftp_session \<Rightarrow> int \<times> COpData" where
  "op_SubcommandResult E prev op s =
     (case op_data op of
        CwdOp d \<Rightarrow> (FZ_REPLY_CONTINUE, op)
      | DeleteOp d \<Rightarrow> (case delete_SubcommandResult E prev d of (r, d1) \<Rightarrow> (r, put_data (DeleteOp d1) op))
      | RemoveDirOp d \<Rightarrow> (case rmd_SubcommandResult prev d s of (r, d1) \<Rightarrow> (r, put_data (RemoveDirOp d1) op))
      | RenameOp d \<Rightarrow> (case rename_SubcommandResult prev d of (r, d1) \<Rightarrow> (r, put_data (RenameOp d1) op))
      | MkdirOp d \<Rightarrow> (default_SubcommandResult prev, op)
      | ChmodOp d \<Rightarrow> (case chmod_SubcommandResult prev d of (r, d1) \<Rightarrow> (r, put_data (ChmodOp d1) op))
      | RawOp c \<Rightarrow> (default_SubcommandResult prev, op))"

text \<open>The operation's \<open>Reset\<close> is called when it has left the stack.\<close>

definition op_Reset :: "int \<Rightarrow> COpData \<Rightarrow> ftp_session \<Rightarrow> int \<times> ftp_session" where
  "op_Reset result op s =
     (case op_data op of DeleteOp d \<Rightarrow> (result, delete_Reset result d s) | _ \<Rightarrow> (result, s))"

end
