(* ===== verification/Ftp_Stack.thy ===== *)
theory Ftp_Stack
  imports Ftp_Ops
begin

text \<open>
  The stack of operations, \<open>src/filezilla3/src/engine/controlsocket.cpp\<close> and
  \<open>src/filezilla3/src/engine/ftp/ftpcontrolsocket.cpp\<close>: sending the next command, resetting
  the top operation, handing its result to the one below, replies, closing, cancelling, the timers,
  and the commands of the engine, \<open>src/filezilla3/src/engine/engineprivate.cpp\<close>.
  The handlers' own reply codes are not modelled, no caller of the modelled code looks at them.
\<close>

subsection \<open>Why the stack functions terminate\<close>

text \<open>A bound on how many more times an operation asks to continue, sends or is handed a result.\<close>

definition cwd_weight :: "CFtpChangeDirOpData \<Rightarrow> nat" where
  "cwd_weight d =
     (case cw_state d of
        cwd_init \<Rightarrow> 6 | cwd_cwd \<Rightarrow> 5 | cwd_pwd_cwd \<Rightarrow> 4
      | cwd_cwd_subdir \<Rightarrow> (if cw_tried_cdup d then 2 else 3) | cwd_pwd_subdir \<Rightarrow> 1 | cwd_pwd \<Rightarrow> 1)"

definition mkd_weight :: "CFtpMkdirOpData \<Rightarrow> nat" where
  "mkd_weight d =
     (case mkd_state d of
        mkd_init \<Rightarrow> 3 * SegmentCount (mkd_path d) + 2 * length (mkd_segments d) + 6
      | mkd_findparent \<Rightarrow> 3 * SegmentCount (mkd_currentMkdPath d) + 2 * length (mkd_segments d) + 2
      | mkd_cwdsub \<Rightarrow> 2 * length (mkd_segments d) + 2
      | mkd_mkdsub \<Rightarrow> 2 * length (mkd_segments d) + 1
      | mkd_tryfull \<Rightarrow> 1)"

fun data_weight :: "op_data \<Rightarrow> nat" where
  "data_weight (CwdOp d) = cwd_weight d"
| "data_weight (DeleteOp d) = (case del_state d of del_init \<Rightarrow> 8 | _ \<Rightarrow> 1) + length (del_files d)"
| "data_weight (RemoveDirOp d) = (case rmd_state d of rmd_init \<Rightarrow> 8 | _ \<Rightarrow> 1)"
| "data_weight (RenameOp d) = (case ren_state d of rename_init \<Rightarrow> 9 | rename_rnto \<Rightarrow> 1 | _ \<Rightarrow> 2)"
| "data_weight (MkdirOp d) = mkd_weight d"
| "data_weight (ChmodOp d) = (case chm_state d of chmod_init \<Rightarrow> 8 | _ \<Rightarrow> 1)"
| "data_weight (RawOp c) = 1"

definition op_weight :: "COpData \<Rightarrow> nat" where
  "op_weight op = data_weight (op_data op)"

definition stack_weight :: "ftp_session \<Rightarrow> nat" where
  "stack_weight s = sum_list (map op_weight (fs_ops s))"

definition child_list :: "COpData option \<Rightarrow> COpData list" where
  "child_list c = (case c of None \<Rightarrow> [] | Some c \<Rightarrow> [c])"

lemma op_weight_pos: "0 < op_weight op"
  unfolding op_weight_def
  by (cases "op_data op") (auto simp: cwd_weight_def mkd_weight_def split: cwdStates.splits mkdStates.splits delStates.splits
      rmdStates.splits renameStates.splits chmodStates.splits)

lemma put_data_simps [simp]:
  "op_data (put_data d op) = d" "op_opLock (put_data d op) = op_opLock op" "op_topLevel (put_data d op) = op_topLevel op"
  by (simp_all add: put_data_def)

lemma new_op_simps [simp]:
  "op_data (new_op d) = d" "op_opLock (new_op d) = None" "op_topLevel (new_op d) = False"
  by (simp_all add: new_op_def)

lemma send_and_return_simps:
  "send_and_return E cmd op s = (fst (SendCommand E cmd s), op, None, snd (SendCommand E cmd s))"
  by (simp add: send_and_return_def split_beta)

lemma SendCommand_code: "fst (SendCommand E cmd s) \<in> {FZ_REPLY_WOULDBLOCK, FZ_REPLY_ERROR}"
  by (auto simp: SendCommand_def Let_def split: prod.splits)

lemma send_code: "send_and_return E cmd op s = (res, r) \<Longrightarrow> res = FZ_REPLY_WOULDBLOCK \<or> res = FZ_REPLY_ERROR"
  using SendCommand_code [of E cmd s] by (auto simp: send_and_return_simps)

text \<open>What \<open>Send\<close> does to the weight: it never grows and shrinks before a further round.\<close>

definition lighter :: "COpData \<Rightarrow> op_result \<Rightarrow> bool" where
  "lighter op r \<longleftrightarrow>
     (let n = op_weight (fst (snd r)) + sum_list (map op_weight (child_list (fst (snd (snd r)))))
      in if fst r = FZ_REPLY_CONTINUE then n < op_weight op else n \<le> op_weight op)"

lemma lighter_send: "op_weight op' \<le> op_weight op \<Longrightarrow> lighter op (send_and_return E cmd op' s)"
  using SendCommand_code [of E cmd s]
  by (auto simp: lighter_def send_and_return_simps child_list_def reply_codes)

lemma lighter_same: "res \<noteq> FZ_REPLY_CONTINUE \<Longrightarrow> lighter op (res, op, None, s)"
  by (simp add: lighter_def child_list_def)

lemma cwd_lighter:
  assumes op: "op_data op = CwdOp d"
  shows "lighter op (cwd_Send E d op s)"
proof (cases "cw_state d")
  case cwd_init
  obtain res d1 where r: "cwd_Send_init d s = (res, d1)" by fastforce
  have "cwd_weight d1 \<le> 6 \<and> (res = FZ_REPLY_CONTINUE \<longrightarrow> cwd_weight d1 < 6)"
    using r cwd_init by (auto simp: cwd_weight_def cwd_Send_init_def Let_def reply_codes split: if_splits)
  moreover have "op_weight op = 6" using op cwd_init by (simp add: op_weight_def cwd_weight_def)
  ultimately show ?thesis using r cwd_init by (auto simp: cwd_Send_def lighter_def child_list_def op_weight_def)
next
  case cwd_cwd
  then have "op_weight (put_data (CwdOp (d\<lparr>cw_tryMkdOnFail := False\<rparr>)) op1) = 5" "op_data op1 = CwdOp d \<Longrightarrow> op_weight op1 = 5" for op1
    by (auto simp: op_weight_def cwd_weight_def)
  then show ?thesis using cwd_cwd op
    by (auto simp: cwd_Send_def cwd_Send_cwd_def op_weight_def Let_def split_beta intro!: lighter_send split: if_splits)
       (auto simp: lighter_def child_list_def op_weight_def reply_codes)
next
  case cwd_cwd_subdir
  then show ?thesis
    by (auto simp: cwd_Send_def cwd_Send_subdir_def Let_def reply_codes intro!: lighter_send lighter_same)
qed (auto simp: cwd_Send_def intro: lighter_send)

lemma delete_lighter:
  assumes "op_data op = DeleteOp d" shows "lighter op (delete_Send E d op s)"
proof (cases "del_state d")
  case del_init
  then show ?thesis using assms
    by (simp add: delete_Send_def lighter_def child_list_def op_weight_def cwd_weight_def ChangeDir_op_def)
next
  case del_waitcwd
  then show ?thesis by (simp add: delete_Send_def lighter_same reply_codes)
next
  case del_del
  then show ?thesis by (auto simp: delete_Send_def Let_def reply_codes intro!: lighter_send lighter_same)
qed

lemma rmd_lighter:
  assumes "op_data op = RemoveDirOp d" shows "lighter op (rmd_Send E d op s)"
proof (cases "rmd_state d")
  case rmd_init
  then show ?thesis using assms
    by (simp add: rmd_Send_def lighter_def child_list_def op_weight_def cwd_weight_def ChangeDir_op_def)
next
  case rmd_waitcwd
  then show ?thesis by (simp add: rmd_Send_def lighter_same reply_codes)
next
  case rmd_rmd
  have w: "op_weight (put_data (RemoveDirOp (d\<lparr>rmd_fullPath := full\<rparr>)) op) = op_weight op" for full
    using assms by (simp add: op_weight_def)
  show ?thesis
  proof (cases "rmd_target d s")
    case None
    then show ?thesis using rmd_rmd by (simp add: rmd_Send_def lighter_same reply_codes)
  next
    case (Some path)
    have "lighter op (FZ_REPLY_ERROR, put_data (RemoveDirOp (d\<lparr>rmd_fullPath := full\<rparr>)) op, None, s1)" for full s1
      using w by (simp add: lighter_def child_list_def reply_codes)
    then show ?thesis using rmd_rmd Some w
      by (auto simp: rmd_Send_def Let_def split_beta intro!: lighter_send)
  qed
qed

lemma rename_lighter:
  assumes "op_data op = RenameOp d" shows "lighter op (rename_Send E d op s)"
proof (cases "ren_state d")
  case rename_init
  then show ?thesis using assms
    by (simp add: rename_Send_def Let_def lighter_def child_list_def op_weight_def cwd_weight_def ChangeDir_op_def)
qed (auto simp: rename_Send_def Let_def reply_codes intro!: lighter_send lighter_same)

lemma SegmentCount_GetParent: "HasParent p \<Longrightarrow> SegmentCount (GetParent p) = SegmentCount p - 1 \<and> 0 < SegmentCount p"
  by (auto simp: HasParent_def GetParent_def MakeParent_def SegmentCount_def path_empty_def segs_def data_get_def
      Let_def split: if_splits option.splits)

lemma mkd_lighter:
  assumes op: "op_data op = MkdirOp d" shows "lighter op (mkd_Send E d op s)"
proof -
  obtain op1 s1 where l: "(if op_opLock op = None
      then case ftp_Lock E reason_mkdir (mkd_path d) s of (h, s1) \<Rightarrow> (op\<lparr>op_opLock := Some h\<rparr>, s1) else (op, s)) = (op1, s1)"
    by fastforce
  have op1: "op_data op1 = MkdirOp d" "op_weight op1 = op_weight op"
    using l op by (auto simp: op_weight_def split: if_splits prod.splits)
  show ?thesis
  proof (cases "lock_waiting (op_opLock op1) s1")
    case True
    then show ?thesis using op1 unfolding mkd_Send_def l prod.case
      by (simp add: lighter_def child_list_def reply_codes)
  next
    case False
    note eq = mkd_Send_def [of E d op s, unfolded l prod.case]
    show ?thesis
    proof (cases "mkd_state d")
      case mkd_init
      obtain res d1 where r: "mkd_Send_init (fe_lib E) d s1 = (res, d1)" by fastforce
      have "mkd_weight d1 \<le> mkd_weight d \<and> (res = FZ_REPLY_CONTINUE \<longrightarrow> mkd_weight d1 < mkd_weight d)"
        using r mkd_init SegmentCount_GetParent [of "mkd_path d"]
        by (auto simp: mkd_weight_def mkd_Send_init_def Let_def reply_codes split: if_splits)
      then show ?thesis using mkd_init r False op
        by (simp add: eq lighter_def child_list_def op_weight_def)
    qed (use False op1 in \<open>auto simp: eq intro!: lighter_send\<close>)
  qed
qed

lemma chmod_lighter:
  assumes "op_data op = ChmodOp d" shows "lighter op (chmod_Send E d op s)"
proof (cases "chm_state d")
  case chmod_init
  then show ?thesis using assms
    by (simp add: chmod_Send_def Let_def lighter_def child_list_def op_weight_def cwd_weight_def ChangeDir_op_def)
qed (auto simp: chmod_Send_def Let_def reply_codes intro!: lighter_send lighter_same)

lemma op_Send_lighter: "lighter op (op_Send E op s)"
  by (cases "op_data op")
    (auto simp: op_Send_def raw_Send_def intro: cwd_lighter delete_lighter rmd_lighter rename_lighter mkd_lighter
      chmod_lighter lighter_send)

lemma op_Send_weight:
  assumes "op_Send E op s = (res, op1, child, s1)"
  shows "sum_list (map op_weight (child_list child)) + op_weight op1 \<le> op_weight op"
    "res = FZ_REPLY_CONTINUE \<Longrightarrow> sum_list (map op_weight (child_list child)) + op_weight op1 < op_weight op"
  using op_Send_lighter [of op E s] assms by (auto simp: lighter_def Let_def split: if_splits)

lemma op_SubcommandResult_weight:
  "op_SubcommandResult E prev op s = (res, op1) \<Longrightarrow> op_weight op1 \<le> op_weight op"
  by (cases "op_data op")
    (auto simp: op_SubcommandResult_def delete_SubcommandResult_def rmd_SubcommandResult_def rename_SubcommandResult_def
      chmod_SubcommandResult_def op_weight_def split: if_splits)

subsection \<open>Sending, resetting, results of subcommands\<close>

definition engine_ResetOperation :: "int \<Rightarrow> ftp_session \<Rightarrow> ftp_session" where
  "engine_ResetOperation code s =
     (case fs_currentCommand s of
        None \<Rightarrow> s
      | Some c \<Rightarrow> s\<lparr>fs_results := fs_results s @ [(code, command_id c)], fs_currentCommand := None\<rparr>)"

text \<open>\<open>CFtpControlSocket::ResetOperation\<close> before it calls the base class.\<close>

definition ftp_ResetOperation_pre :: "ftp_env \<Rightarrow> int \<Rightarrow> ftp_session \<Rightarrow> ftp_session" where
  "ftp_ResetOperation_pre E code s =
     (let s1 = s\<lparr>fs_repliesToSkip := fs_pendingReplies s, fs_lastCompletion := Some (fe_now E)\<rparr>
      in if fs_ops s1 \<noteq> [] \<and> \<not> code_has code FZ_REPLY_DISCONNECTED then StartKeepaliveTimer E s1
         else s1\<lparr>fs_idleTimer := False\<rparr>)"

text \<open>\<open>DoClose\<close> before it resets the operation, and the code it passes on.\<close>

definition close_session :: "ftp_session \<Rightarrow> ftp_session" where
  "close_session s = ResetSocket (clear_currentPath s)"

definition close_code :: "int \<Rightarrow> int" where
  "close_code code = FZ_REPLY_ERROR OR FZ_REPLY_DISCONNECTED OR code"

definition subcommand_code :: "int \<Rightarrow> bool" where
  "subcommand_code code \<longleftrightarrow>
     code = FZ_REPLY_OK \<or> code = FZ_REPLY_ERROR \<or> code = FZ_REPLY_CRITICALERROR \<or> code = FZ_REPLY_ERROR_NOTFOUND"

definition put_top :: "COpData option \<Rightarrow> COpData \<Rightarrow> COpData list \<Rightarrow> ftp_session \<Rightarrow> ftp_session" where
  "put_top child op rest s = s\<lparr>fs_ops := child_list child @ op # rest\<rparr>"

definition pop_op :: "COpData list \<Rightarrow> ftp_session \<Rightarrow> ftp_session" where
  "pop_op rest s = s\<lparr>fs_ops := rest\<rparr>"

lemma fs_ops_simps [simp]:
  "fs_ops (destroy_op op s) = fs_ops s" "fs_ops (put_top child op rest s) = child_list child @ op # rest"
  "fs_ops (pop_op rest s) = rest" "fs_ops (close_session s) = fs_ops s"
  "fs_ops (ftp_ResetOperation_pre E code s) = fs_ops s" "fs_ops (FinalizeResetOperation s) = fs_ops s"
  "fs_ops (SetWait E w s) = fs_ops s" "fs_ops (SendDirectoryListingNotification p s) = fs_ops s"
  "fs_ops (StartKeepaliveTimer E s) = fs_ops s" "fs_ops (SetAlive E s) = fs_ops s" "fs_ops (clear_currentPath s) = fs_ops s"
  by (simp_all add: destroy_op_def put_top_def pop_op_def close_session_def ResetSocket_def clear_currentPath_def
      ftp_ResetOperation_pre_def FinalizeResetOperation_def SetWait_def SendDirectoryListingNotification_def
      StartKeepaliveTimer_def SetAlive_def Let_def split: option.splits prod.splits)

lemma op_Reset_ops [simp]: "fs_ops (snd (op_Reset code op s)) = fs_ops s"
  by (simp add: op_Reset_def delete_Reset_def split: op_data.splits)

lemma op_Reset_pop: "(code1, s1) = op_Reset code op (pop_op rest s) \<Longrightarrow> fs_ops s1 = rest"
  by (metis op_Reset_ops fs_ops_simps(3) snd_conv)

lemma op_Reset_code [simp]: "fst (op_Reset code op s) = code"
  by (simp add: op_Reset_def split: op_data.splits)

lemma stack_weight_simps [simp]:
  "stack_weight (destroy_op op s) = stack_weight s"
  "stack_weight (put_top child op rest s) = sum_list (map op_weight (child_list child)) + op_weight op + sum_list (map op_weight rest)"
  "stack_weight (close_session s) = stack_weight s"
  "stack_weight (FinalizeResetOperation s) = stack_weight s"
  by (simp_all add: stack_weight_def)

lemma stack_weight_ops: "fs_ops s = op # rest \<Longrightarrow> stack_weight s = op_weight op + sum_list (map op_weight rest)"
  by (simp add: stack_weight_def)

text \<open>The three functions call each other; the sum type holds their arguments.  A round of
  \<open>SendNextCommand\<close> or a popped operation makes the stack lighter.\<close>

function (sequential)
  SendNextCommand :: "ftp_env \<Rightarrow> ftp_session \<Rightarrow> ftp_session" and
  ResetOperation :: "ftp_env \<Rightarrow> int \<Rightarrow> ftp_session \<Rightarrow> ftp_session" and
  ParseSubcommandResult :: "ftp_env \<Rightarrow> int \<Rightarrow> COpData \<Rightarrow> ftp_session \<Rightarrow> ftp_session" where
  "SendNextCommand E s =
     (case fs_ops s of
        [] \<Rightarrow> ResetOperation E FZ_REPLY_ERROR s
      | op # rest \<Rightarrow>
          if fs_repliesToSkip s \<noteq> 0 then SetWait E True s
          else
            (case op_Send E op s of
               (res, op1, child, s1) \<Rightarrow>
                 let s2 = put_top child op1 rest s1
                 in if res = FZ_REPLY_CONTINUE then SendNextCommand E s2
                    else if res = FZ_REPLY_OK then ResetOperation E res s2
                    else if code_has res FZ_REPLY_DISCONNECTED
                      then ResetOperation E (close_code res) (close_session s2)
                    else if code_has res FZ_REPLY_ERROR then ResetOperation E res s2
                    else if res = FZ_REPLY_WOULDBLOCK then s2
                    else ResetOperation E FZ_REPLY_INTERNALERROR s2))"
| "ResetOperation E code s0 =
     (let s = ftp_ResetOperation_pre E code s0
      in case fs_ops s of
           [] \<Rightarrow> engine_ResetOperation code (SetWait E False (FinalizeResetOperation s))
         | op # rest \<Rightarrow>
             (case op_Reset code op (pop_op rest s) of
                (code1, s1) \<Rightarrow>
                  if rest \<noteq> [] \<and> subcommand_code code1 \<and> \<not> op_topLevel op
                  then ParseSubcommandResult E code1 op s1
                  else if rest \<noteq> [] \<and> \<not> subcommand_code code1
                  then ResetOperation E code1 (destroy_op op s1)
                  else
                    let s2 = FinalizeResetOperation (destroy_op op s1)
                    in if rest = [] then engine_ResetOperation code1 (SetWait E False s2)
                       else SendNextCommand E s2))"
| "ParseSubcommandResult E prev old s =
     (case fs_ops s of
        [] \<Rightarrow> ResetOperation E FZ_REPLY_ERROR (destroy_op old s)
      | op # rest \<Rightarrow>
          (case op_SubcommandResult E prev op s of
             (res, op1) \<Rightarrow>
               let s1 = destroy_op old (put_top None op1 rest s)
               in if res = FZ_REPLY_WOULDBLOCK then s1
                  else if res = FZ_REPLY_CONTINUE then SendNextCommand E s1
                  else ResetOperation E res s1))"
  by pat_completeness auto

termination
proof (relation "measure (case_sum (\<lambda>(E, s). 3 * stack_weight s + 2)
    (case_sum (\<lambda>(E, code, s). 3 * stack_weight s + 1) (\<lambda>(E, prev, old, s). 3 * stack_weight s + 3)))", goal_cases)
  case 1
  show ?case by simp
next
  case (2 E s)
  then show ?case by (simp add: stack_weight_def)
next
  case (3 E s op rest res y op1 y1 child s1 s2)
  then have "op_Send E op s = (res, op1, child, s1)" by simp
  from op_Send_weight [OF this] show ?case using 3 by (simp add: stack_weight_ops)
next
  case (4 E s op rest res y op1 y1 child s1 s2)
  then have "op_Send E op s = (res, op1, child, s1)" by simp
  from op_Send_weight [OF this] show ?case using 4 by (simp add: stack_weight_ops)
next
  case (5 E s op rest res y op1 y1 child s1 s2)
  then have "op_Send E op s = (res, op1, child, s1)" by simp
  from op_Send_weight [OF this] show ?case using 5 by (simp add: stack_weight_ops)
next
  case (6 E s op rest res y op1 y1 child s1 s2)
  then have "op_Send E op s = (res, op1, child, s1)" by simp
  from op_Send_weight [OF this] show ?case using 6 by (simp add: stack_weight_ops)
next
  case (7 E s op rest res y op1 y1 child s1 s2)
  then have "op_Send E op s = (res, op1, child, s1)" by simp
  from op_Send_weight [OF this] show ?case using 7 by (simp add: stack_weight_ops)
next
  case (8 E code s0 s op rest code1 s1)
  then show ?case using op_weight_pos [of op] by (simp add: stack_weight_def op_Reset_pop)
next
  case (9 E code s0 s op rest code1 s1)
  then show ?case using op_weight_pos [of op] by (simp add: stack_weight_def op_Reset_pop)
next
  case (10 E code s0 s op rest code1 s1)
  then show ?case using op_weight_pos [of op] by (simp add: stack_weight_def op_Reset_pop)
next
  case (11 E prev old s)
  then show ?case by (simp add: stack_weight_def)
next
  case (12 E prev old s op rest res op1 s1)
  then show ?case using op_SubcommandResult_weight [of E prev op s res op1] by (simp add: stack_weight_ops child_list_def)
next
  case (13 E prev old s op rest res op1 s1)
  then show ?case using op_SubcommandResult_weight [of E prev op s res op1] by (simp add: stack_weight_ops child_list_def)
qed

declare SendNextCommand.simps [simp del] ResetOperation.simps [simp del] ParseSubcommandResult.simps [simp del]

end
