(* ===== verification/Ftp_Stack_Rules.thy ===== *)
theory Ftp_Stack_Rules
  imports Ftp_Stack
begin

text \<open>
  Induction over the three stack functions, packed into two interfaces: \<open>stack_rules\<close> for facts
  with a condition before each of them, \<open>session_frame\<close> for relations between the session
  before and after that every single effect respects.
\<close>

subsection \<open>Reasoning about the stack functions\<close>

lemma cwd_Send_codes:
  "cwd_Send E d op s = (res, r) \<Longrightarrow> res \<in> {FZ_REPLY_OK, FZ_REPLY_WOULDBLOCK, FZ_REPLY_ERROR, FZ_REPLY_INTERNALERROR, FZ_REPLY_CONTINUE}"
  by (auto simp: cwd_Send_def cwd_Send_init_def cwd_Send_cwd_def cwd_Send_subdir_def Let_def
      split: cwdStates.splits if_splits prod.splits dest: send_code)

lemma mkd_Send_codes:
  assumes "mkd_Send E d op s = (res, r)"
  shows "res \<in> {FZ_REPLY_OK, FZ_REPLY_WOULDBLOCK, FZ_REPLY_ERROR, FZ_REPLY_INTERNALERROR, FZ_REPLY_CONTINUE}"
proof -
  obtain op1 s1 where l: "(if op_opLock op = None
      then case ftp_Lock E reason_mkdir (mkd_path d) s of (h, s1) \<Rightarrow> (op\<lparr>op_opLock := Some h\<rparr>, s1) else (op, s)) = (op1, s1)"
    by fastforce
  show ?thesis
    using assms unfolding mkd_Send_def l prod.case
    by (auto simp: mkd_Send_init_def Let_def split: mkdStates.splits if_splits prod.splits dest: send_code)
qed

lemma op_Send_codes:
  assumes "op_Send E op s = (res, r)"
  shows "res \<in> {FZ_REPLY_OK, FZ_REPLY_WOULDBLOCK, FZ_REPLY_ERROR, FZ_REPLY_INTERNALERROR, FZ_REPLY_CONTINUE}"
proof (cases "op_data op")
  case (CwdOp d)
  then show ?thesis using assms cwd_Send_codes by (simp add: op_Send_def)
next
  case (DeleteOp d)
  then show ?thesis using assms
    by (auto simp: op_Send_def delete_Send_def Let_def split: delStates.splits if_splits dest: send_code)
next
  case (RemoveDirOp d)
  then show ?thesis using assms
    by (auto simp: op_Send_def rmd_Send_def Let_def split: rmdStates.splits if_splits option.splits prod.splits dest: send_code)
next
  case (RenameOp d)
  then show ?thesis using assms
    by (auto simp: op_Send_def rename_Send_def Let_def split: renameStates.splits dest: send_code)
next
  case (MkdirOp d)
  then show ?thesis using assms mkd_Send_codes by (simp add: op_Send_def)
next
  case (ChmodOp d)
  then show ?thesis using assms
    by (auto simp: op_Send_def chmod_Send_def Let_def split: chmodStates.splits dest: send_code)
next
  case (RawOp c)
  then show ?thesis using assms by (auto simp: op_Send_def raw_Send_def dest: send_code)
qed

lemma op_Send_flags:
  assumes "op_Send E op s = (res, r)"
  shows "\<not> code_has res FZ_REPLY_DISCONNECTED"
    "code_has res FZ_REPLY_ERROR \<longleftrightarrow> res = FZ_REPLY_ERROR \<or> res = FZ_REPLY_INTERNALERROR"
  using op_Send_codes [OF assms] by (auto simp: code_has_def reply_codes)

text \<open>The rules for a fact about the stack functions: \<open>Ready\<close> holds before the next command is
  sent, \<open>Open\<close> before an operation is reset, \<open>Sub\<close> before a result is handed down, and
  \<open>Done\<close> afterwards.\<close>

locale stack_rules =
  fixes E :: ftp_env
    and Ready :: "ftp_session \<Rightarrow> bool"
    and Open :: "int \<Rightarrow> ftp_session \<Rightarrow> bool"
    and Sub :: "int \<Rightarrow> COpData \<Rightarrow> ftp_session \<Rightarrow> bool"
    and Done :: "ftp_session \<Rightarrow> bool"
  assumes Ready_empty: "Ready s \<Longrightarrow> fs_ops s = [] \<Longrightarrow> Open FZ_REPLY_ERROR s"
    and Ready_skip: "Ready s \<Longrightarrow> fs_ops s = op # rest \<Longrightarrow> fs_repliesToSkip s \<noteq> 0 \<Longrightarrow> Done (SetWait E True s)"
    and Ready_continue: "Ready s \<Longrightarrow> fs_ops s = op # rest \<Longrightarrow> fs_repliesToSkip s = 0 \<Longrightarrow>
      op_Send E op s = (FZ_REPLY_CONTINUE, op1, child, s1) \<Longrightarrow> Ready (put_top child op1 rest s1)"
    and Ready_wait: "Ready s \<Longrightarrow> fs_ops s = op # rest \<Longrightarrow> fs_repliesToSkip s = 0 \<Longrightarrow>
      op_Send E op s = (FZ_REPLY_WOULDBLOCK, op1, child, s1) \<Longrightarrow> Done (put_top child op1 rest s1)"
    and Ready_end: "Ready s \<Longrightarrow> fs_ops s = op # rest \<Longrightarrow> fs_repliesToSkip s = 0 \<Longrightarrow>
      op_Send E op s = (res, op1, child, s1) \<Longrightarrow>
      res \<in> {FZ_REPLY_OK, FZ_REPLY_ERROR, FZ_REPLY_INTERNALERROR} \<Longrightarrow> Open res (put_top child op1 rest s1)"
    and Open_empty: "Open code s \<Longrightarrow> fs_ops s = [] \<Longrightarrow>
      Done (engine_ResetOperation code (SetWait E False (FinalizeResetOperation (ftp_ResetOperation_pre E code s))))"
    and Open_last: "Open code s \<Longrightarrow> fs_ops s = [op] \<Longrightarrow>
      s1 = snd (op_Reset code op (pop_op [] (ftp_ResetOperation_pre E code s))) \<Longrightarrow>
      Done (engine_ResetOperation code (SetWait E False (FinalizeResetOperation (destroy_op op s1))))"
    and Open_sub: "Open code s \<Longrightarrow> fs_ops s = op # rest \<Longrightarrow> rest \<noteq> [] \<Longrightarrow> subcommand_code code \<Longrightarrow> \<not> op_topLevel op \<Longrightarrow>
      s1 = snd (op_Reset code op (pop_op rest (ftp_ResetOperation_pre E code s))) \<Longrightarrow> Sub code op s1"
    and Open_pop: "Open code s \<Longrightarrow> fs_ops s = op # rest \<Longrightarrow> rest \<noteq> [] \<Longrightarrow> \<not> subcommand_code code \<Longrightarrow>
      s1 = snd (op_Reset code op (pop_op rest (ftp_ResetOperation_pre E code s))) \<Longrightarrow> Open code (destroy_op op s1)"
    and Open_top: "Open code s \<Longrightarrow> fs_ops s = op # rest \<Longrightarrow> rest \<noteq> [] \<Longrightarrow> subcommand_code code \<Longrightarrow> op_topLevel op \<Longrightarrow>
      s1 = snd (op_Reset code op (pop_op rest (ftp_ResetOperation_pre E code s))) \<Longrightarrow>
      Ready (FinalizeResetOperation (destroy_op op s1))"
    and Sub_empty: "Sub prev old s \<Longrightarrow> fs_ops s = [] \<Longrightarrow> Open FZ_REPLY_ERROR (destroy_op old s)"
    and Sub_wait: "Sub prev old s \<Longrightarrow> fs_ops s = op # rest \<Longrightarrow>
      op_SubcommandResult E prev op s = (FZ_REPLY_WOULDBLOCK, op1) \<Longrightarrow> Done (destroy_op old (put_top None op1 rest s))"
    and Sub_continue: "Sub prev old s \<Longrightarrow> fs_ops s = op # rest \<Longrightarrow>
      op_SubcommandResult E prev op s = (FZ_REPLY_CONTINUE, op1) \<Longrightarrow> Ready (destroy_op old (put_top None op1 rest s))"
    and Sub_end: "Sub prev old s \<Longrightarrow> fs_ops s = op # rest \<Longrightarrow>
      op_SubcommandResult E prev op s = (res, op1) \<Longrightarrow> res \<noteq> FZ_REPLY_WOULDBLOCK \<Longrightarrow> res \<noteq> FZ_REPLY_CONTINUE \<Longrightarrow>
      Open res (destroy_op old (put_top None op1 rest s))"
begin

lemma stack:
  "E' = E \<Longrightarrow> Ready s \<Longrightarrow> Done (SendNextCommand E' s)"
  "E' = E \<Longrightarrow> Open code s \<Longrightarrow> Done (ResetOperation E' code s)"
  "E' = E \<Longrightarrow> Sub prev old s \<Longrightarrow> Done (ParseSubcommandResult E' prev old s)"
proof (induction E' s and E' code s and E' prev old s rule: SendNextCommand_ResetOperation_ParseSubcommandResult.induct)
  case (1 E' s)
  show ?case
  proof (cases "fs_ops s")
    case Nil
    then show ?thesis using 1(1,7,8) Ready_empty by (simp add: SendNextCommand.simps [of E s])
  next
    case (Cons op rest)
    show ?thesis
    proof (cases "fs_repliesToSkip s = 0")
      case True
      obtain res op1 child s1 where r: "op_Send E' op s = (res, op1, child, s1)" by (metis prod_cases4)
      let ?s2 = "put_top child op1 rest s1"
      note ih = 1(2-6) [OF Cons, OF _ r [symmetric] refl refl refl]
      have E: "E' = E" and ready: "Ready s" using 1 by simp_all
      note flags = op_Send_flags [OF r] and rE = r [unfolded E]
      consider "res = FZ_REPLY_CONTINUE" | "res = FZ_REPLY_WOULDBLOCK" | "res = FZ_REPLY_OK"
        | "res = FZ_REPLY_ERROR \<or> res = FZ_REPLY_INTERNALERROR"
        using op_Send_codes [OF r] by auto
      then show ?thesis
      proof cases
        case 1
        then show ?thesis using ih(1) True E Ready_continue [OF ready Cons True rE [unfolded 1]]
          by (simp add: SendNextCommand.simps [of E s] Cons rE)
      next
        case 2
        then show ?thesis using E flags Ready_wait [OF ready Cons True rE [unfolded 2]] True
          by (simp add: SendNextCommand.simps [of E s] Cons rE reply_codes)
      next
        case 3
        then show ?thesis using ih(2) True E Ready_end [OF ready Cons True rE]
          by (simp add: SendNextCommand.simps [of E s] Cons rE reply_codes)
      next
        case 4
        then have no: "res \<noteq> FZ_REPLY_CONTINUE" "res \<noteq> FZ_REPLY_OK" by (auto simp: reply_codes)
        show ?thesis using ih(4) [OF _ no flags(1)] 4 no True E Ready_end [OF ready Cons True rE] flags
          by (simp add: SendNextCommand.simps [of E s] Cons rE)
      qed
    next
      case False
      then show ?thesis using 1 Cons Ready_skip by (simp add: SendNextCommand.simps [of E s])
    qed
  qed
next
  case (2 E' code s)
  let ?s = "ftp_ResetOperation_pre E' code s"
  have E: "E' = E" and op: "Open code s" using 2 by simp_all
  show ?case
  proof (cases "fs_ops s")
    case Nil
    then show ?thesis using Open_empty [OF op] E by (simp add: ResetOperation.simps [of E code s])
  next
    case (Cons op rest)
    obtain s1 where r: "op_Reset code op (pop_op rest ?s) = (code, s1)"
      by (metis op_Reset_code prod.collapse)
    then have s1: "s1 = snd (op_Reset code op (pop_op rest (ftp_ResetOperation_pre E code s)))" by (simp add: E)
    have ops: "fs_ops ?s = op # rest" using Cons by simp
    note ih = 2(1-3) [OF refl ops, OF r [symmetric]]
    consider "rest = []" | "rest \<noteq> []" "subcommand_code code" "\<not> op_topLevel op" | "rest \<noteq> []" "\<not> subcommand_code code"
      | "rest \<noteq> []" "subcommand_code code" "op_topLevel op" by blast
    then show ?thesis
    proof cases
      case 1
      then show ?thesis using Open_last [OF op Cons [unfolded 1], of s1] s1 E Cons
        by (simp add: ResetOperation.simps [of E code s] case_prod_beta)
    next
      case 2
      then show ?thesis using Open_sub [OF op Cons 2 s1] ih(1) E Cons s1
        by (simp add: ResetOperation.simps [of E code s] case_prod_beta)
    next
      case 3
      then show ?thesis using Open_pop [OF op Cons 3 s1] ih(2) E Cons s1
        by (simp add: ResetOperation.simps [of E code s] case_prod_beta)
    next
      case 4
      then show ?thesis using Open_top [OF op Cons 4 s1] ih(3) E Cons s1
        by (simp add: ResetOperation.simps [of E code s] Let_def case_prod_beta)
    qed
  qed
next
  case (3 E' prev old s)
  have E: "E' = E" and sub: "Sub prev old s" using 3 by simp_all
  show ?case
  proof (cases "fs_ops s")
    case Nil
    then show ?thesis using 3(1) E Sub_empty [OF sub] by (simp add: ParseSubcommandResult.simps [of E prev old s])
  next
    case (Cons op rest)
    obtain res op1 where r: "op_SubcommandResult E' prev op s = (res, op1)" by fastforce
    note ih = 3(2,3) [OF Cons r [symmetric] refl] and rE = r [unfolded E]
    show ?thesis
      using ih E Sub_wait [OF sub Cons] Sub_continue [OF sub Cons] Sub_end [OF sub Cons rE] rE r
      by (cases "res = FZ_REPLY_WOULDBLOCK"; cases "res = FZ_REPLY_CONTINUE")
        (simp_all add: ParseSubcommandResult.simps [of E prev old s] Cons)
  qed
qed

lemmas stack_facts = stack [OF refl]

end

subsection \<open>Relations that every stack function respects\<close>

locale session_frame =
  fixes R :: "ftp_session \<Rightarrow> ftp_session \<Rightarrow> bool"
  assumes R_refl: "R s s"
    and R_trans: "R s s1 \<Longrightarrow> R s1 s2 \<Longrightarrow> R s s2"
    and R_ops: "R s (s\<lparr>fs_ops := ops\<rparr>)"
    and R_Send: "R s (snd (snd (snd (op_Send E op s))))"
    and R_pre: "R s (ftp_ResetOperation_pre E code s)"
    and R_finalize: "R s (FinalizeResetOperation s)"
    and R_wait: "R s (SetWait E w s)"
    and R_engine: "R s (engine_ResetOperation code s)"
    and R_Reset: "R s (snd (op_Reset code op s))"
    and R_destroy: "R s (destroy_op op s)"
begin

lemma R_put: "R s s1 \<Longrightarrow> R s (put_top c x rest s1)"
  unfolding put_top_def by (rule R_trans [OF _ R_ops])

lemma R_Send_put: "op_Send E op s = (res, op1, child, s1) \<Longrightarrow> R s (put_top c x rest s1)"
  using R_Send [of s E op] R_put by auto

lemma R_Reset_pop: "R s (snd (op_Reset code op (pop_op rest (ftp_ResetOperation_pre E c s))))"
  unfolding pop_op_def by (rule R_trans [OF R_trans [OF R_pre R_ops] R_Reset])

lemma R_final: "R s s1 \<Longrightarrow> R s (engine_ResetOperation code (SetWait E False (FinalizeResetOperation s1)))"
  by (rule R_trans [OF R_trans [OF R_trans [OF _ R_finalize] R_wait] R_engine])

lemma R_later_Send: "R s0 s \<Longrightarrow> op_Send E op s = (res, op1, child, s1) \<Longrightarrow> R s0 (put_top child op1 rest s1)"
  by (rule R_trans [OF _ R_Send_put])

lemma R_later_destroy: "R s0 s \<Longrightarrow> R s0 (destroy_op op s)"
  by (rule R_trans [OF _ R_destroy])

lemma R_later_Reset: "R s0 s \<Longrightarrow> R s0 (snd (op_Reset code op (pop_op rest (ftp_ResetOperation_pre E c s))))"
  by (rule R_trans [OF _ R_Reset_pop])

lemma R_later_finalize: "R s0 s \<Longrightarrow> R s0 (FinalizeResetOperation s)"
  by (rule R_trans [OF _ R_finalize])

end

sublocale session_frame \<subseteq> rules: stack_rules E "R s0" "\<lambda>code. R s0" "\<lambda>prev old. R s0" "R s0" for E s0
proof (unfold_locales, goal_cases)
  case (2 s op rest)
  then show ?case using R_trans R_wait by blast
next
  case (6 code s)
  then show ?case using R_final [OF R_trans [OF _ R_pre]] by blast
qed (simp_all add: R_later_Send R_final R_later_destroy R_later_Reset R_later_finalize R_put)

context session_frame
begin

lemma R_stack:
  "R s (SendNextCommand E s)" "R s (ResetOperation E code s)" "R s (ParseSubcommandResult E prev old s)"
  by (rule rules.stack_facts, rule R_refl)+

end

end
