(* ===== verification/Ftp_Events.thy ===== *)
theory Ftp_Events
  imports Ftp_Stack_Rules
begin

text \<open>
  The events of an FTP connection: received data, lines and replies, the socket becoming writable,
  errors, the two timers, locks that became free, directories that other connections changed,
  commands and their cancellation (\<open>ftpcontrolsocket.cpp\<close>, \<open>controlsocket.cpp\<close>,
  \<open>engineprivate.cpp\<close>), and the step relation they make up.
\<close>

subsection \<open>What the stack functions leave alone\<close>

definition same_connection :: "ftp_session \<Rightarrow> ftp_session \<Rightarrow> bool" where
  "same_connection s s' \<longleftrightarrow>
     fs_server s' = fs_server s \<and> fs_socket s' = fs_socket s \<and> fs_commandEvents s' = fs_commandEvents s \<and>
     fs_receiveBuffer s' = fs_receiveBuffer s \<and> fs_connected s' = fs_connected s \<and>
     fs_MultilineCode s' = fs_MultilineCode s \<and> fs_MultilineLines s' = fs_MultilineLines s \<and>
     fs_Response s' = fs_Response s"

lemma same_connection_upd [simp]:
  "same_connection s (s1\<lparr>fs_ops := x_ops\<rparr>) = same_connection s s1"
  "same_connection s (s1\<lparr>fs_currentPath := x_currentPath\<rparr>) = same_connection s s1"
  "same_connection s (s1\<lparr>fs_invalidateCurrentPath := x_invalidateCurrentPath\<rparr>) = same_connection s s1"
  "same_connection s (s1\<lparr>fs_repliesToSkip := x_repliesToSkip\<rparr>) = same_connection s s1"
  "same_connection s (s1\<lparr>fs_pendingReplies := x_pendingReplies\<rparr>) = same_connection s s1"
  "same_connection s (s1\<lparr>fs_send_buffer := x_send_buffer\<rparr>) = same_connection s s1"
  "same_connection s (s1\<lparr>fs_lastTypeBinary := x_lastTypeBinary\<rparr>) = same_connection s s1"
  "same_connection s (s1\<lparr>fs_timer := x_timer\<rparr>) = same_connection s s1"
  "same_connection s (s1\<lparr>fs_lastActivity := x_lastActivity\<rparr>) = same_connection s s1"
  "same_connection s (s1\<lparr>fs_idleTimer := x_idleTimer\<rparr>) = same_connection s s1"
  "same_connection s (s1\<lparr>fs_lastCompletion := x_lastCompletion\<rparr>) = same_connection s s1"
  "same_connection s (s1\<lparr>fs_currentCommand := x_currentCommand\<rparr>) = same_connection s s1"
  "same_connection s (s1\<lparr>fs_wire := x_wire\<rparr>) = same_connection s s1"
  "same_connection s (s1\<lparr>fs_sent := x_sent\<rparr>) = same_connection s s1"
  "same_connection s (s1\<lparr>fs_results := x_results\<rparr>) = same_connection s s1"
  "same_connection s (s1\<lparr>fs_notes := x_notes\<rparr>) = same_connection s s1"
  "same_connection s (s1\<lparr>fs_invalidations := x_invalidations\<rparr>) = same_connection s s1"
  "same_connection s (s1\<lparr>fs_wakeups := x_wakeups\<rparr>) = same_connection s s1"
  "same_connection s (s1\<lparr>fs_dc := x_dc\<rparr>) = same_connection s s1"
  "same_connection s (s1\<lparr>fs_pc := x_pc\<rparr>) = same_connection s s1"
  "same_connection s (s1\<lparr>fs_locks := x_locks\<rparr>) = same_connection s s1"
  by (simp_all add: same_connection_def)

lemma same_connection_refl [simp]: "same_connection s s"
  by (simp add: same_connection_def)

lemma same_connection_trans: "same_connection s s1 \<Longrightarrow> same_connection s1 s2 \<Longrightarrow> same_connection s s2"
  by (simp add: same_connection_def)

lemma same_connection_effects [simp]:
  "same_connection s (SetWait E w s1) = same_connection s s1"
  "same_connection s (SetAlive E s1) = same_connection s s1"
  "same_connection s (clear_currentPath s1) = same_connection s s1"
  "same_connection s (set_currentPath p s1) = same_connection s s1"
  "same_connection s (StartKeepaliveTimer E s1) = same_connection s s1"
  "same_connection s (ftp_ResetOperation_pre E code s1) = same_connection s s1"
  "same_connection s (FinalizeResetOperation s1) = same_connection s s1"
  "same_connection s (SendDirectoryListingNotification p s1) = same_connection s s1"
  "same_connection s (InvalidateCurrentWorkingDirs p s1) = same_connection s s1"
  "same_connection s (engine_ResetOperation code s1) = same_connection s s1"
  "same_connection s (destroy_op op s1) = same_connection s s1"
  "same_connection s (put_top child op rest s1) = same_connection s s1"
  by (simp_all add: SetWait_def SetAlive_def clear_currentPath_def set_currentPath_def StartKeepaliveTimer_def
      ftp_ResetOperation_pre_def FinalizeResetOperation_def SendDirectoryListingNotification_def
      InvalidateCurrentWorkingDirs_def engine_ResetOperation_def destroy_op_def put_top_def Let_def
      split: option.splits prod.splits)

lemma same_RealSend [simp]: "same_connection s (snd (RealSend E buffer s1)) = same_connection s s1"
  by (simp add: RealSend_def Let_def split: write_result.splits)

lemma same_SendCommand [simp]: "same_connection s (snd (SendCommand E cmd s1)) = same_connection s s1"
  by (simp add: SendCommand_def Let_def case_prod_beta)

lemma same_send_and_return [simp]:
  "same_connection s (snd (snd (snd (send_and_return E cmd op s1)))) = same_connection s s1"
  by (simp add: send_and_return_simps)

lemma same_ftp_Lock [simp]: "same_connection s (snd (ftp_Lock E r p s1)) = same_connection s s1"
  by (simp add: ftp_Lock_def case_prod_beta)

lemma same_op_Send: "same_connection s (snd (snd (snd (op_Send E op s))))"
proof (cases "op_data op")
  case (CwdOp d)
  then show ?thesis
    by (auto simp: op_Send_def cwd_Send_def cwd_Send_cwd_def cwd_Send_subdir_def Let_def case_prod_beta split: cwdStates.splits)
next
  case (DeleteOp d)
  then show ?thesis by (auto simp: op_Send_def delete_Send_def Let_def split: delStates.splits)
next
  case (RemoveDirOp d)
  then show ?thesis
    by (auto simp: op_Send_def rmd_Send_def rmd_invalidate_def Let_def case_prod_beta split: rmdStates.splits option.splits)
next
  case (RenameOp d)
  then show ?thesis by (auto simp: op_Send_def rename_Send_def rename_invalidate_def Let_def split: renameStates.splits)
next
  case (MkdirOp d)
  then show ?thesis by (auto simp: op_Send_def mkd_Send_def Let_def case_prod_beta split: mkdStates.splits)
next
  case (ChmodOp d)
  then show ?thesis by (auto simp: op_Send_def chmod_Send_def Let_def split: chmodStates.splits)
next
  case (RawOp c)
  then show ?thesis by (simp add: op_Send_def raw_Send_def)
qed

lemma same_op_Reset [simp]: "same_connection s (snd (op_Reset code op s1)) = same_connection s s1"
  by (simp add: op_Reset_def delete_Reset_def split: op_data.splits)

interpretation connection: session_frame same_connection
  by unfold_locales (auto simp: same_op_Send intro: same_connection_trans)

subsection \<open>Closing\<close>

definition DoClose :: "ftp_env \<Rightarrow> int \<Rightarrow> ftp_session \<Rightarrow> ftp_session" where
  "DoClose E code s = ResetOperation E (close_code code) (close_session s)"

definition DoClose_default :: "ftp_env \<Rightarrow> ftp_session \<Rightarrow> ftp_session" where
  "DoClose_default E s = DoClose E (FZ_REPLY_DISCONNECTED OR FZ_REPLY_ERROR) s"

definition OnSocketError :: "ftp_env \<Rightarrow> ftp_session \<Rightarrow> ftp_session" where
  "OnSocketError E s = DoClose_default E s"

lemma closed_DoClose [simp]: "\<not> fs_connected (DoClose E code s)" "fs_receiveBuffer (DoClose E code s) = []"
proof -
  have "same_connection (close_session s) (DoClose E code s)"
    unfolding DoClose_def by (rule connection.R_stack)
  then show "\<not> fs_connected (DoClose E code s)" "fs_receiveBuffer (DoClose E code s) = []"
    by (simp_all add: same_connection_def close_session_def ResetSocket_def)
qed

subsection \<open>Replies\<close>

definition handle_reply :: "ftp_env \<Rightarrow> ftp_session \<Rightarrow> ftp_session" where
  "handle_reply E s =
     (case fs_ops s of
        [] \<Rightarrow> s
      | op # rest \<Rightarrow>
          (case op_ParseResponse E op s of
             (res, op1, child, s1) \<Rightarrow>
               let s2 = put_top child op1 rest s1
               in if res = FZ_REPLY_OK then ResetOperation E FZ_REPLY_OK s2
                  else if res = FZ_REPLY_CONTINUE then SendNextCommand E s2
                  else if code_has res FZ_REPLY_DISCONNECTED then DoClose E res s2
                  else if code_has res FZ_REPLY_ERROR then ResetOperation E res s2
                  else s2))"

definition skip_reply :: "ftp_env \<Rightarrow> bool \<Rightarrow> ftp_session \<Rightarrow> ftp_session" where
  "skip_reply E preliminary s =
     (let s1 = (if \<not> preliminary then s\<lparr>fs_repliesToSkip := fs_repliesToSkip s - 1\<rparr> else s)
      in if fs_repliesToSkip s1 = 0 then
           let s2 = SetWait E False s1
           in if fs_ops s2 = [] then StartKeepaliveTimer E s2
              else if fs_pendingReplies s2 = 0 then SendNextCommand E s2
              else s2
         else s1)"

definition preliminary :: "wstring \<Rightarrow> bool" where
  "preliminary r \<longleftrightarrow> r \<noteq> [] \<and> hd r = CHR ''1''"

definition ParseResponse :: "ftp_env \<Rightarrow> ftp_session \<Rightarrow> ftp_session" where
  "ParseResponse E s =
     (if fs_Response s = [] then s
      else
        let pre = preliminary (fs_Response s)
        in if \<not> pre \<and> fs_pendingReplies s = 0 then s
           else
             let s1 = (if \<not> pre then s\<lparr>fs_pendingReplies := fs_pendingReplies s - 1\<rparr> else s)
             in if fs_repliesToSkip s1 \<noteq> 0 then skip_reply E pre s1
                else handle_reply E s1)"

text \<open>A complete reply; \<open>m_Response\<close> is cleared after it.\<close>

definition on_response :: "ftp_env \<Rightarrow> wstring \<Rightarrow> ftp_session \<Rightarrow> ftp_session" where
  "on_response E line s = (ParseResponse E (s\<lparr>fs_Response := line\<rparr>))\<lparr>fs_Response := []\<rparr>"

definition max_multiline :: nat where
  "max_multiline = 10000"

definition ParseLine :: "ftp_env \<Rightarrow> wstring \<Rightarrow> ftp_session \<Rightarrow> ftp_session" where
  "ParseLine E line s0 =
     (let s = SetAlive E s0
      in if length line \<le> 3 then s
         else if fs_MultilineCode s \<noteq> [] then
           if take 4 line = fs_MultilineCode s
           then (on_response E line (s\<lparr>fs_MultilineCode := []\<rparr>))\<lparr>fs_MultilineLines := []\<rparr>
           else if length (fs_MultilineLines s) < max_multiline
           then s\<lparr>fs_MultilineLines := fs_MultilineLines s @ [line]\<rparr>
           else DoClose E FZ_REPLY_ERROR s
         else if line ! 3 = CHR ''-''
           then s\<lparr>fs_MultilineCode := take 3 line @ '' '', fs_MultilineLines := fs_MultilineLines s @ [line]\<rparr>
         else on_response E line s)"

subsection \<open>Received data\<close>

lemma same_ParsePwdReply [simp]: "same_connection s (snd (ParsePwdReply E r p s1)) = same_connection s s1"
  by (simp add: ParsePwdReply_def Let_def)

lemma same_mkd_created: "same_connection s (snd (snd (snd (mkd_created E d op s1)))) = same_connection s s1"
  by (simp add: mkd_created_def Let_def)

lemma same_op_ParseResponse: "same_connection s (snd (snd (snd (op_ParseResponse E op s))))"
proof (cases "op_data op")
  case (CwdOp d)
  then show ?thesis
    by (auto simp: op_ParseResponse_def cwd_ParseResponse_def cwd_Parse_cwd_def cwd_Parse_pwd_cwd_def cwd_Parse_subdir_def
        cwd_Parse_pwd_subdir_def store_current_def Let_def case_prod_beta split: cwdStates.splits)
next
  case (DeleteOp d)
  then show ?thesis
    by (auto simp: op_ParseResponse_def delete_ParseResponse_def delete_success_def Let_def case_prod_beta split: option.splits)
next
  case (RemoveDirOp d)
  then show ?thesis by (auto simp: op_ParseResponse_def rmd_ParseResponse_def)
next
  case (RenameOp d)
  then show ?thesis by (auto simp: op_ParseResponse_def rename_ParseResponse_def Let_def)
next
  case (MkdirOp d)
  then show ?thesis
    by (auto simp: op_ParseResponse_def mkd_ParseResponse_def mkd_Parse_mkdsub_def mkd_Parse_findparent_def
        mkd_exists_as_file_def same_mkd_created case_prod_beta split: mkdStates.splits)
next
  case (ChmodOp d)
  then show ?thesis by (auto simp: op_ParseResponse_def chmod_ParseResponse_def Let_def)
next
  case (RawOp c)
  then show ?thesis by (simp add: op_ParseResponse_def raw_ParseResponse_def)
qed

text \<open>After an event the connection is as before, or closed with an empty buffer.\<close>

definition buffer_kept :: "ftp_session \<Rightarrow> ftp_session \<Rightarrow> bool" where
  "buffer_kept s s' \<longleftrightarrow>
     (if fs_connected s' then fs_connected s \<and> fs_receiveBuffer s' = fs_receiveBuffer s
      else fs_receiveBuffer s' = [] \<or> \<not> fs_connected s \<and> fs_receiveBuffer s' = fs_receiveBuffer s)"

lemma buffer_kept_same: "same_connection s s1 \<Longrightarrow> buffer_kept s s1"
  by (simp add: buffer_kept_def same_connection_def)

lemma buffer_kept_later: "same_connection s s1 \<Longrightarrow> buffer_kept s1 s2 \<Longrightarrow> buffer_kept s s2"
  by (auto simp: buffer_kept_def same_connection_def split: if_splits)

lemma buffer_kept_close [simp]: "buffer_kept s (DoClose E code s1)"
  by (simp add: buffer_kept_def)

lemma buffer_kept_stack [simp]:
  "buffer_kept s (SendNextCommand E s)" "buffer_kept s (ResetOperation E code s)"
  by (rule buffer_kept_same connection.R_stack)+

lemma buffer_kept_handle_reply: "buffer_kept s (handle_reply E s)"
proof (cases "fs_ops s")
  case (Cons op rest)
  obtain res op1 child s1 where r: "op_ParseResponse E op s = (res, op1, child, s1)" by (metis prod_cases4)
  have "same_connection s (put_top child op1 rest s1)" using same_op_ParseResponse [of s E op] r by simp
  from buffer_kept_later [OF this] buffer_kept_same [OF this] show ?thesis
    by (simp add: handle_reply_def Cons r Let_def)
qed (simp add: handle_reply_def buffer_kept_same)

lemma buffer_kept_ParseResponse: "buffer_kept s (ParseResponse E s)"
proof -
  let ?s1 = "s\<lparr>fs_pendingReplies := fs_pendingReplies s - 1\<rparr>"
  have skip: "buffer_kept s1 (skip_reply E pre s1)" for pre s1
    by (simp add: skip_reply_def Let_def buffer_kept_same buffer_kept_later [OF _ buffer_kept_stack(1)])
  have "buffer_kept s (handle_reply E ?s1)" "buffer_kept s (skip_reply E pre ?s1)" for pre
    using buffer_kept_later [OF _ buffer_kept_handle_reply, of s ?s1 E] buffer_kept_later [OF _ skip, of s ?s1] by simp_all
  then show ?thesis
    using buffer_kept_handle_reply [of s E] skip [of s]
    by (simp add: ParseResponse_def Let_def buffer_kept_same)
qed

lemma ParseLine_received: "length (fs_receiveBuffer (ParseLine E line s)) \<le> length (fs_receiveBuffer s)"
proof -
  have "length (fs_receiveBuffer (on_response E line s1)) \<le> length (fs_receiveBuffer s1)" for s1
    using buffer_kept_ParseResponse [of "s1\<lparr>fs_Response := line\<rparr>" E]
    by (auto simp: on_response_def buffer_kept_def split: if_splits)
  from this [of "SetAlive E s"] this [of "(SetAlive E s)\<lparr>fs_MultilineCode := []\<rparr>"] show ?thesis
    by (simp add: ParseLine_def Let_def) (simp add: SetAlive_def)
qed

definition line_end :: "char \<Rightarrow> bool" where
  "line_end c \<longleftrightarrow> c = CHR 0x0D \<or> c = CHR 0x0A \<or> c = nul"

definition consume_received :: "nat \<Rightarrow> ftp_session \<Rightarrow> ftp_session" where
  "consume_received n s = s\<lparr>fs_receiveBuffer := drop n (fs_receiveBuffer s)\<rparr>"

text \<open>The scan for ends of lines, from the index \<open>i\<close> on.\<close>

function receive_loop :: "ftp_env \<Rightarrow> nat \<Rightarrow> ftp_session \<Rightarrow> ftp_session" where
  "receive_loop E i s =
     (if length (fs_receiveBuffer s) \<le> i then s
      else if \<not> line_end (fs_receiveBuffer s ! i) then receive_loop E (i + 1) s
      else if i = 0 then receive_loop E 0 (consume_received 1 s)
      else
        let line = fe_ConvToLocal E (take i (fs_receiveBuffer s));
            s1 = ParseLine E line (consume_received (i + 1) s)
        in if \<not> fs_connected s1 then s1 else receive_loop E 0 s1)"
  by pat_completeness auto

termination
proof (relation "measure (\<lambda>(E, i, s). 2 * length (fs_receiveBuffer s) - i)", goal_cases)
  case (4 E i s line s1)
  then show ?case
    using ParseLine_received [of E line "consume_received (i + 1) s"] by (auto simp: consume_received_def)
qed (auto simp: consume_received_def)

declare receive_loop.simps [simp del]

definition max_received :: nat where
  "max_received = 65536"

definition on_data :: "ftp_env \<Rightarrow> string \<Rightarrow> ftp_session \<Rightarrow> ftp_session" where
  "on_data E data s =
     (let s1 = receive_loop E (length (fs_receiveBuffer s))
                 (SetAlive E (s\<lparr>fs_receiveBuffer := fs_receiveBuffer s @ data\<rparr>))
      in if \<not> fs_connected s1 then s1
         else if length (fs_receiveBuffer s1) = max_received then DoClose_default E s1
         else s1)"

text \<open>The results of the calls of \<open>read\<close> during one event.\<close>

datatype read_result = ReadData string | ReadAgain | ReadError | ReadEof

fun OnReceive :: "ftp_env \<Rightarrow> read_result list \<Rightarrow> ftp_session \<Rightarrow> ftp_session" where
  "OnReceive E [] s = s"
| "OnReceive E (ReadAgain # rs) s = s"
| "OnReceive E (ReadError # rs) s = DoClose_default E s"
| "OnReceive E (ReadEof # rs) s = DoClose_default E s"
| "OnReceive E (ReadData d # rs) s =
     (let s1 = on_data E d s in if \<not> fs_connected s1 then s1 else OnReceive E rs s1)"

subsection \<open>The socket becomes writable\<close>

fun OnSend :: "ftp_env \<Rightarrow> write_result list \<Rightarrow> ftp_session \<Rightarrow> ftp_session" where
  "OnSend E [] s = s"
| "OnSend E (w # ws) s =
     (if fs_send_buffer s = [] then s
      else case w of
             WriteError \<Rightarrow> DoClose_default E s
           | WriteAgain \<Rightarrow> s
           | Written n \<Rightarrow>
               OnSend E ws
                 (if n \<noteq> 0
                  then (SetAlive E s)\<lparr>fs_wire := fs_wire s @ take n (fs_send_buffer s),
                                      fs_send_buffer := drop n (fs_send_buffer s)\<rparr>
                  else s))"

subsection \<open>Timers\<close>

definition OnTimer :: "ftp_env \<Rightarrow> ftp_session \<Rightarrow> ftp_session" where
  "OnTimer E s0 =
     (let s = s0\<lparr>fs_timer := False\<rparr>
      in if fe_timeout E \<le> 0 then s
         else if OpLock_SocketWaiting (fs_locks s) (fs_socket s) then s\<lparr>fs_timer := True\<rparr>
         else if fe_timeout E * 1000 < fe_now E - fs_lastActivity s then DoClose E FZ_REPLY_TIMEOUT s
         else s\<lparr>fs_timer := True\<rparr>)"

definition keepalive_command :: "ftp_env \<Rightarrow> ftp_session \<Rightarrow> wstring" where
  "keepalive_command E s =
     (if fe_random E = 0 then ''NOOP''
      else if fe_random E = 1 then (if fs_lastTypeBinary s \<noteq> 0 then ''TYPE I'' else ''TYPE A'')
      else ''PWD'')"

text \<open>The timer is one-shot: it no longer runs when its handler is called.\<close>

definition OnIdleTimer :: "ftp_env \<Rightarrow> ftp_session \<Rightarrow> ftp_session" where
  "OnIdleTimer E s0 =
     (let s = s0\<lparr>fs_idleTimer := False\<rparr>
      in if fs_ops s \<noteq> [] then s
         else if fs_pendingReplies s \<noteq> 0 \<or> fs_repliesToSkip s \<noteq> 0 then s
         else case SendCommand E (keepalive_command E s) s of
                (res, s1) \<Rightarrow>
                  if res = FZ_REPLY_WOULDBLOCK then s1\<lparr>fs_repliesToSkip := fs_repliesToSkip s1 + 1\<rparr>
                  else DoClose E res s1)"

subsection \<open>Locks, commands, cancellation\<close>

definition OnObtainLock :: "ftp_env \<Rightarrow> ftp_session \<Rightarrow> ftp_session" where
  "OnObtainLock E s =
     (case OpLock_ObtainWaiting (fe_lib E) (fs_locks s) (fs_socket s) of
        (m, got) \<Rightarrow>
          let s1 = s\<lparr>fs_locks := m\<rparr> in if got then SendNextCommand E s1 else s1)"

text \<open>\<open>CFileZillaEnginePrivate::Execute\<close>: the reply code, and the command is queued.\<close>

definition Execute :: "CCommand \<Rightarrow> ftp_session \<Rightarrow> int \<times> ftp_session" where
  "Execute command s =
     (if \<not> command_valid command then (FZ_REPLY_SYNTAXERROR, s)
      else if fs_currentCommand s \<noteq> None then (FZ_REPLY_BUSY, s)
      else (FZ_REPLY_WOULDBLOCK, s\<lparr>fs_currentCommand := Some command, fs_commandEvents := fs_commandEvents s + 1\<rparr>))"

fun command_op :: "CCommand \<Rightarrow> COpData" where
  "command_op (CDeleteCommand path files) = Delete_op path files"
| "command_op (CRemoveDirCommand path subDir) = RemoveDir_op path subDir"
| "command_op (CMkdirCommand path) = Mkdir_op path"
| "command_op (CRename c) = Rename_op c"
| "command_op (CChmod c) = Chmod_op c"
| "command_op (CRawCommand command) = RawCommand_op command"

definition Push :: "COpData \<Rightarrow> ftp_session \<Rightarrow> ftp_session" where
  "Push op s = s\<lparr>fs_ops := op # fs_ops s\<rparr>"

definition OnCommandEvent :: "ftp_env \<Rightarrow> ftp_session \<Rightarrow> ftp_session" where
  "OnCommandEvent E s0 =
     (let s = s0\<lparr>fs_commandEvents := fs_commandEvents s0 - 1\<rparr>
      in case fs_currentCommand s of
           None \<Rightarrow> s
         | Some c \<Rightarrow> SendNextCommand E (Push (command_op c) s))"

definition Cancel :: "ftp_env \<Rightarrow> ftp_session \<Rightarrow> ftp_session" where
  "Cancel E s = (if fs_ops s \<noteq> [] then ResetOperation E FZ_REPLY_CANCELED s else s)"

definition DoCancel :: "ftp_env \<Rightarrow> ftp_session \<Rightarrow> ftp_session" where
  "DoCancel E s = (if fs_currentCommand s = None then s else Cancel E s)"

subsection \<open>Steps of a session\<close>

text \<open>The handles a socket owns, and what the other sockets may do meanwhile: they change the caches
  and the lock table, but not the locks of this socket, and grant none of them.\<close>

definition others_acted :: "libfz \<Rightarrow> ftp_session \<Rightarrow> ftp_session \<Rightarrow> bool" where
  "others_acted L s s' \<longleftrightarrow>
     (\<exists>dc pc m. s' = s\<lparr>fs_dc := dc, fs_pc := pc, fs_locks := m\<rparr> \<and>
        cache_reachable L dc \<and> pathcache_ok pc \<and> lock_table_ok L m \<and>
        own_locks (fs_socket s) m = own_locks (fs_socket s) (fs_locks s) \<and>
        (\<forall>h \<in> own_locks (fs_socket s) m. OpLock_Waiting m h = OpLock_Waiting (fs_locks s) h))"

text \<open>\<open>V\<close> describes the environments, \<open>R\<close> the lines the server may send.  A command is
  started only while the connection is up: the other case logs on first, which is not modelled.\<close>

inductive ftp_step :: "(ftp_env \<Rightarrow> bool) \<Rightarrow> (wstring \<Rightarrow> bool) \<Rightarrow> ftp_session \<Rightarrow> ftp_session \<Rightarrow> bool"
  for V R where
  st_execute: "ftp_step V R s (snd (Execute c s))"
| st_command: "V E \<Longrightarrow> fs_connected s \<Longrightarrow> 0 < fs_commandEvents s \<Longrightarrow> ftp_step V R s (OnCommandEvent E s)"
| st_line: "V E \<Longrightarrow> fs_connected s \<Longrightarrow> R line \<Longrightarrow> ftp_step V R s (ParseLine E line s)"
| st_send: "V E \<Longrightarrow> fs_connected s \<Longrightarrow> ftp_step V R s (OnSend E ws s)"
| st_error: "V E \<Longrightarrow> fs_connected s \<Longrightarrow> ftp_step V R s (OnSocketError E s)"
| st_timer: "V E \<Longrightarrow> fs_timer s \<Longrightarrow> ftp_step V R s (OnTimer E s)"
| st_idle: "V E \<Longrightarrow> fs_idleTimer s \<Longrightarrow> ftp_step V R s (OnIdleTimer E s)"
| st_cancel: "V E \<Longrightarrow> ftp_step V R s (DoCancel E s)"
| st_obtain: "V E \<Longrightarrow> ftp_step V R s (OnObtainLock E s)"
| st_invalidate: "V E \<Longrightarrow> ftp_step V R s (OnInvalidateCurrentWorkingDir E server path s)"
| st_others: "V E \<Longrightarrow> others_acted (fe_lib E) s s' \<Longrightarrow> ftp_step V R s s'"

text \<open>A connection that has just logged on.\<close>

definition ftp_start :: "libfz \<Rightarrow> ftp_session \<Rightarrow> bool" where
  "ftp_start L s \<longleftrightarrow>
     fs_connected s \<and> fs_ops s = [] \<and> fs_pendingReplies s = 0 \<and> fs_repliesToSkip s = 0 \<and>
     fs_currentCommand s = None \<and> fs_commandEvents s = 0 \<and> fs_Response s = [] \<and>
     fs_MultilineCode s = [] \<and> fs_MultilineLines s = [] \<and> \<not> fs_idleTimer s \<and>
     cache_reachable L (fs_dc s) \<and> pathcache_ok (fs_pc s) \<and> lock_table_ok L (fs_locks s) \<and>
     own_locks (fs_socket s) (fs_locks s) = {}"

inductive ftp_reachable :: "(ftp_env \<Rightarrow> bool) \<Rightarrow> (wstring \<Rightarrow> bool) \<Rightarrow> libfz \<Rightarrow> ftp_session \<Rightarrow> bool"
  for V R L where
  reach_start: "ftp_start L s \<Longrightarrow> ftp_reachable V R L s"
| reach_step: "ftp_reachable V R L s \<Longrightarrow> ftp_step V R s s' \<Longrightarrow> ftp_reachable V R L s'"

inductive_cases ftp_stepE: "ftp_step V R s s'"

end
