(* ===== verification/Ftp_Effects.thy ===== *)
theory Ftp_Effects
  imports Ftp_Events
begin

text \<open>
  What the operations do to the counters of replies: a \<open>Send\<close> either hands exactly one command
  to the socket, the one whose reply the operation's state will handle, or waits for a lock, or leaves
  the counters alone.  A reply's handler leaves them alone.
\<close>

subsection \<open>The command an operation waits for\<close>

definition cwd_awaits :: "libfz \<Rightarrow> CFtpChangeDirOpData \<Rightarrow> wstring option" where
  "cwd_awaits L d =
     (case cw_state d of
        cwd_init \<Rightarrow> None
      | cwd_cwd \<Rightarrow> Some (''CWD '' @ GetPath L (cw_path d))
      | cwd_cwd_subdir \<Rightarrow>
          Some (if cw_subDir d = ''..'' \<and> \<not> cw_tried_cdup d then ''CDUP''
                else ''CWD '' @ FormatSubdir L (cw_path d) (cw_subDir d))
      | _ \<Rightarrow> Some ''PWD'')"

definition mkd_awaits :: "libfz \<Rightarrow> CFtpMkdirOpData \<Rightarrow> wstring option" where
  "mkd_awaits L d =
     (case mkd_state d of
        mkd_init \<Rightarrow> None
      | mkd_findparent \<Rightarrow> Some (''CWD '' @ GetPath L (mkd_currentMkdPath d))
      | mkd_cwdsub \<Rightarrow> Some (''CWD '' @ GetPath L (mkd_currentMkdPath d))
      | mkd_mkdsub \<Rightarrow> Some (''MKD '' @ last (mkd_segments d))
      | mkd_tryfull \<Rightarrow> Some (''MKD '' @ GetPath L (mkd_path d)))"

definition awaits :: "libfz \<Rightarrow> COpData \<Rightarrow> wstring option" where
  "awaits L op =
     (case op_data op of
        CwdOp d \<Rightarrow> cwd_awaits L d
      | DeleteOp d \<Rightarrow>
          (if del_state d = del_del
           then Some (''DELE '' @ FormatFilename L (del_path d) (last (del_files d)) (del_omitPath d)) else None)
      | RemoveDirOp d \<Rightarrow>
          (if rmd_state d = rmd_rmd
           then Some (''RMD '' @ (if rmd_omitPath d then rmd_subDir d else GetPath L (rmd_fullPath d))) else None)
      | RenameOp d \<Rightarrow>
          (let c = ren_command d
           in case ren_state d of
                rename_rnfrom \<Rightarrow> Some (''RNFR '' @ FormatFilename L (rn_fromPath c) (rn_fromFile c) (\<not> ren_useAbsolute d))
              | rename_rnto \<Rightarrow>
                  Some (''RNTO '' @ FormatFilename L (rn_toPath c) (rn_toFile c)
                          (\<not> ren_useAbsolute d \<and> path_eq (rn_fromPath c) (rn_toPath c)))
              | _ \<Rightarrow> None)
      | MkdirOp d \<Rightarrow> mkd_awaits L d
      | ChmodOp d \<Rightarrow>
          (let c = chm_command d
           in if chm_state d = chmod_chmod
              then Some (''SITE CHMOD '' @ cm_permission c @ '' '' @ FormatFilename L (cm_path c) (cm_file c) (\<not> chm_useAbsolute d))
              else None)
      | RawOp c \<Rightarrow> Some c)"

subsection \<open>Effects that leave the counters alone\<close>

definition quiet :: "ftp_session \<Rightarrow> ftp_session \<Rightarrow> bool" where
  "quiet s s' \<longleftrightarrow>
     same_connection s s' \<and> fs_ops s' = fs_ops s \<and> fs_pendingReplies s' = fs_pendingReplies s \<and>
     fs_repliesToSkip s' = fs_repliesToSkip s \<and> fs_sent s' = fs_sent s \<and> fs_locks s' = fs_locks s \<and>
     fs_currentCommand s' = fs_currentCommand s \<and> fs_timer s' = fs_timer s \<and> fs_results s' = fs_results s"

lemma quiet_refl [simp]: "quiet s s"
  by (simp add: quiet_def)

lemma quiet_upd [simp]:
  "quiet s (s1\<lparr>fs_currentPath := p\<rparr>) = quiet s s1" "quiet s (s1\<lparr>fs_dc := dc\<rparr>) = quiet s s1"
  "quiet s (s1\<lparr>fs_pc := pc\<rparr>) = quiet s s1" "quiet s (s1\<lparr>fs_notes := ns\<rparr>) = quiet s s1"
  "quiet s (s1\<lparr>fs_invalidations := is\<rparr>) = quiet s s1" "quiet s (s1\<lparr>fs_lastTypeBinary := t\<rparr>) = quiet s s1"
  by (simp_all add: quiet_def)

lemma quiet_effects [simp]:
  "quiet s (clear_currentPath s1) = quiet s s1" "quiet s (set_currentPath p s1) = quiet s s1"
  "quiet s (SendDirectoryListingNotification p s1) = quiet s s1"
  "quiet s (InvalidateCurrentWorkingDirs p s1) = quiet s s1" "quiet s (store_current p t s1) = quiet s s1"
  "quiet s (snd (ParsePwdReply E r p s1)) = quiet s s1" "quiet s (rmd_invalidate E d p s1) = quiet s s1"
  "quiet s (rename_invalidate E c s1) = quiet s s1"
  by (simp_all add: clear_currentPath_def set_currentPath_def SendDirectoryListingNotification_def
      InvalidateCurrentWorkingDirs_def store_current_def ParsePwdReply_def rmd_invalidate_def rename_invalidate_def Let_def)

lemma quiet_ParseResponse: "op_ParseResponse E op s = (res, op1, child, s1) \<Longrightarrow> quiet s s1"
proof -
  have "quiet s (snd (snd (snd (op_ParseResponse E op s))))"
  proof (cases "op_data op")
    case (CwdOp d)
    then show ?thesis
      by (auto simp: op_ParseResponse_def cwd_ParseResponse_def cwd_Parse_cwd_def cwd_Parse_pwd_cwd_def cwd_Parse_subdir_def
          cwd_Parse_pwd_subdir_def Let_def case_prod_beta split: cwdStates.splits)
  next
    case (DeleteOp d)
    then show ?thesis
      by (auto simp: op_ParseResponse_def delete_ParseResponse_def delete_success_def Let_def case_prod_beta split: option.splits)
  next
    case (RemoveDirOp d)
    then show ?thesis by (auto simp: op_ParseResponse_def rmd_ParseResponse_def)
  next
    case (RenameOp d)
    then show ?thesis by (auto simp: op_ParseResponse_def rename_ParseResponse_def Let_def)
  next
    case (MkdirOp d)
    then show ?thesis
      by (auto simp: op_ParseResponse_def mkd_ParseResponse_def mkd_Parse_mkdsub_def mkd_Parse_findparent_def
          mkd_exists_as_file_def mkd_created_def Let_def case_prod_beta split: mkdStates.splits)
  next
    case (ChmodOp d)
    then show ?thesis by (auto simp: op_ParseResponse_def chmod_ParseResponse_def Let_def)
  next
    case (RawOp c)
    then show ?thesis by (simp add: op_ParseResponse_def raw_ParseResponse_def)
  qed
  then show "op_ParseResponse E op s = (res, op1, child, s1) \<Longrightarrow> quiet s s1" by simp
qed

subsection \<open>One command\<close>

text \<open>\<open>commanded E cmd s s1\<close>: from \<open>s\<close> one command was handed to the socket.\<close>

definition commanded :: "ftp_env \<Rightarrow> wstring \<Rightarrow> ftp_session \<Rightarrow> ftp_session \<Rightarrow> bool" where
  "commanded E cmd s s1 \<longleftrightarrow>
     same_connection s s1 \<and> fs_ops s1 = fs_ops s \<and> fs_pendingReplies s1 = fs_pendingReplies s + 1 \<and>
     fs_repliesToSkip s1 = fs_repliesToSkip s \<and> fs_sent s1 = fs_sent s @ [cmd] \<and> fs_locks s1 = fs_locks s \<and>
     fs_currentCommand s1 = fs_currentCommand s \<and> fs_results s1 = fs_results s \<and>
     fs_timer s1 = (fs_timer s \<or> fe_timeout E \<noteq> 0)"

lemma commanded_quiet: "quiet s s1 \<Longrightarrow> commanded E cmd s1 s2 \<Longrightarrow> commanded E cmd s s2"
  by (auto simp: commanded_def quiet_def intro: same_connection_trans)

lemma RealSend_fields:
  "fs_ops (snd (RealSend E b s)) = fs_ops s" "fs_pendingReplies (snd (RealSend E b s)) = fs_pendingReplies s"
  "fs_repliesToSkip (snd (RealSend E b s)) = fs_repliesToSkip s" "fs_sent (snd (RealSend E b s)) = fs_sent s"
  "fs_locks (snd (RealSend E b s)) = fs_locks s" "fs_currentCommand (snd (RealSend E b s)) = fs_currentCommand s"
  "fs_results (snd (RealSend E b s)) = fs_results s"
  "fs_timer (snd (RealSend E b s)) = (if fs_connected s then fs_timer s \<or> fe_timeout E \<noteq> 0 else fs_timer s)"
  "fst (RealSend E b s) \<noteq> 0"
  by (auto simp: RealSend_def SetWait_def SetAlive_def Let_def reply_codes split: write_result.splits)

lemma SendCommand_spec:
  assumes "SendCommand E cmd s = (res, s1)" "fs_connected s"
  shows "res = FZ_REPLY_WOULDBLOCK \<and> commanded E cmd s s1 \<or> res = FZ_REPLY_ERROR \<and> s1 = s"
proof (cases "fe_ConvToServer E cmd = []")
  case False
  then show ?thesis
    using assms RealSend_fields [of E "fe_ConvToServer E cmd @ [CHR 0x0D, CHR 0x0A]" s]
      same_RealSend [of s E "fe_ConvToServer E cmd @ [CHR 0x0D, CHR 0x0A]" s]
    by (auto simp: SendCommand_def Let_def case_prod_beta commanded_def)
qed (use assms in \<open>simp add: SendCommand_def\<close>)

end
