(* ===== verification/Ftp_Shapes.thy ===== *)
theory Ftp_Shapes
  imports Ftp_Effects
begin

text \<open>
  The shapes of operations: ready to send, waiting for the change of directory they pushed, or at
  their end; and what \<open>Send\<close>, \<open>ParseResponse\<close> and \<open>SubcommandResult\<close> make of them.
\<close>

definition is_cwd :: "COpData \<Rightarrow> bool" where
  "is_cwd op \<longleftrightarrow> (case op_data op of CwdOp _ \<Rightarrow> True | _ \<Rightarrow> False)"

definition is_mkd :: "COpData \<Rightarrow> bool" where
  "is_mkd op \<longleftrightarrow> (case op_data op of MkdirOp _ \<Rightarrow> True | _ \<Rightarrow> False)"

definition ended :: "COpData \<Rightarrow> bool" where
  "ended op \<longleftrightarrow> \<not> op_topLevel op \<and> (is_mkd op \<or> op_opLock op = None)"

definition data_ready :: "op_data \<Rightarrow> bool" where
  "data_ready d =
     (case d of
        CwdOp d \<Rightarrow> \<not> cw_tryMkdOnFail d
      | DeleteOp d \<Rightarrow> del_state d \<noteq> del_waitcwd \<and> del_files d \<noteq> []
      | RemoveDirOp d \<Rightarrow> rmd_state d \<noteq> rmd_waitcwd
      | RenameOp d \<Rightarrow> ren_state d \<noteq> rename_waitcwd
      | MkdirOp d \<Rightarrow> mkd_state d \<in> {mkd_findparent, mkd_mkdsub, mkd_cwdsub} \<longrightarrow> mkd_segments d \<noteq> []
      | ChmodOp d \<Rightarrow> chm_state d \<noteq> chmod_waitcwd
      | RawOp _ \<Rightarrow> True)"

definition data_waits :: "op_data \<Rightarrow> bool" where
  "data_waits d =
     (case d of
        DeleteOp d \<Rightarrow> del_state d = del_waitcwd \<and> del_files d \<noteq> []
      | RemoveDirOp d \<Rightarrow> rmd_state d = rmd_waitcwd
      | RenameOp d \<Rightarrow> ren_state d = rename_waitcwd
      | ChmodOp d \<Rightarrow> chm_state d = chmod_waitcwd
      | _ \<Rightarrow> False)"

definition ready :: "COpData \<Rightarrow> bool" where
  "ready op \<longleftrightarrow> ended op \<and> data_ready (op_data op)"

definition waits_for_cwd :: "COpData \<Rightarrow> bool" where
  "waits_for_cwd op \<longleftrightarrow> \<not> op_topLevel op \<and> op_opLock op = None \<and> data_waits (op_data op)"

named_theorems shape_defs \<open>definitions of the shapes of operations\<close>

lemmas [shape_defs] = is_cwd_def is_mkd_def ended_def data_ready_def data_waits_def ready_def waits_for_cwd_def

lemma ChangeDir_op_ready [simp]: "ready (ChangeDir_op p t l)" "is_cwd (ChangeDir_op p t l)"
  by (simp_all add: ChangeDir_op_def shape_defs)

lemma command_op_ready:
  assumes "command_valid c" shows "ready (command_op c)" "\<not> is_cwd (command_op c)"
  using assms
  by (cases c; auto simp: shape_defs Delete_op_def RemoveDir_op_def Mkdir_op_def Rename_op_def Chmod_op_def
      RawCommand_op_def split: if_splits)+

subsection \<open>Sending\<close>

text \<open>The lock an operation may have taken before anything else.\<close>

definition took_lock :: "ftp_env \<Rightarrow> COpData \<Rightarrow> COpData \<Rightarrow> ftp_session \<Rightarrow> ftp_session \<Rightarrow> bool" where
  "took_lock E op op1 s s0 \<longleftrightarrow>
     op_opLock op1 = op_opLock op \<and> s0 = s \<or>
     is_mkd op \<and> op_opLock op = None \<and> (\<exists>p h. ftp_Lock E reason_mkdir p s = (h, s0) \<and> op_opLock op1 = Some h)"

definition send_good :: "ftp_env \<Rightarrow> COpData \<Rightarrow> ftp_session \<Rightarrow> op_result \<Rightarrow> bool" where
  "send_good E op s r \<longleftrightarrow>
     (case r of (res, op1, child, s1) \<Rightarrow>
        \<exists>s0. took_lock E op op1 s s0 \<and> is_cwd op1 = is_cwd op \<and> is_mkd op1 = is_mkd op \<and> ended op1 \<and>
          (if res = FZ_REPLY_WOULDBLOCK then
             child = None \<and> ready op1 \<and>
             ((\<exists>cmd. commanded E cmd s0 s1 \<and> awaits (fe_lib E) op1 = Some cmd \<and> \<not> lock_waiting (op_opLock op1) s1) \<or>
              is_mkd op \<and> lock_waiting (op_opLock op1) s1 \<and> s1 = s0)
           else quiet s0 s1 \<and>
             (if res = FZ_REPLY_CONTINUE then
                child = None \<and> ready op1 \<or>
                (\<exists>c. child = Some c \<and> is_cwd c \<and> ready c \<and> op_opLock c = None \<and> waits_for_cwd op1 \<and> \<not> is_cwd op)
              else child = None)))"

lemma took_lock_refl: "op_opLock op1 = op_opLock op \<Longrightarrow> took_lock E op op1 s s"
  by (simp add: took_lock_def)

lemma good_send:
  assumes "took_lock E op op1 s s0" "quiet s0 s'" "fs_connected s'" "awaits (fe_lib E) op1 = Some cmd" "ready op1"
    and "is_cwd op1 = is_cwd op" "is_mkd op1 = is_mkd op" "is_mkd op1 \<Longrightarrow> \<not> lock_waiting (op_opLock op1) s'"
  shows "send_good E op s (send_and_return E cmd op1 s')"
proof -
  obtain res s1 where r: "SendCommand E cmd s' = (res, s1)" by fastforce
  have e: "ended op1" using assms(5) by (simp add: ready_def)
  have "\<not> lock_waiting (op_opLock op1) s1" if "commanded E cmd s' s1"
    using that assms(8) e by (auto simp: commanded_def lock_waiting_def ended_def split: option.splits)
  then show ?thesis using e SendCommand_spec [OF r assms(3)] assms commanded_quiet [OF assms(2), of E cmd s1]
    by (auto simp: send_good_def send_and_return_simps r reply_codes)
qed

lemmas good_send_plain = good_send [OF took_lock_refl]

lemma good_same:
  assumes "ended op" "res \<noteq> FZ_REPLY_WOULDBLOCK" "res \<noteq> FZ_REPLY_CONTINUE" "quiet s s1"
  shows "send_good E op s (res, op, None, s1)"
  using assms by (auto simp: send_good_def intro: took_lock_refl)

lemma good_continue:
  assumes "op_opLock op1 = op_opLock op" "is_cwd op1 = is_cwd op" "is_mkd op1 = is_mkd op" "ready op1"
  shows "send_good E op s (FZ_REPLY_CONTINUE, op1, None, s)"
  using assms by (auto simp: send_good_def reply_codes ready_def intro: took_lock_refl)

lemma good_push:
  assumes "op_opLock op1 = op_opLock op" "is_cwd op1 = is_cwd op" "is_mkd op1 = is_mkd op" "\<not> is_cwd op" "waits_for_cwd op1"
  shows "send_good E op s (FZ_REPLY_CONTINUE, op1, Some (ChangeDir_op p [] False), s)"
proof -
  have "ended op1" "op_opLock (ChangeDir_op p [] False) = None"
    using assms(5) by (simp_all add: ended_def waits_for_cwd_def ChangeDir_op_def)
  then show ?thesis using assms by (auto simp: send_good_def reply_codes intro: took_lock_refl)
qed

lemma lock_waiting_clear [simp]: "lock_waiting h (clear_currentPath s) = lock_waiting h s"
  by (simp add: lock_waiting_def clear_currentPath_def split: option.splits)

lemma not_mkd [simp]:
  "op_data op = CwdOp c \<Longrightarrow> \<not> is_mkd op" "op_data op = DeleteOp e \<Longrightarrow> \<not> is_mkd op"
  "op_data op = RemoveDirOp f \<Longrightarrow> \<not> is_mkd op" "op_data op = RenameOp g \<Longrightarrow> \<not> is_mkd op"
  "op_data op = ChmodOp h \<Longrightarrow> \<not> is_mkd op" "op_data op = RawOp r \<Longrightarrow> \<not> is_mkd op"
  by (simp_all add: is_mkd_def)

lemma connected_upd:
  "fs_connected (InvalidateCurrentWorkingDirs p s) = fs_connected s"
  "fs_connected (rmd_invalidate E d p s) = fs_connected s" "fs_connected (rename_invalidate E c s) = fs_connected s"
  "fs_connected (clear_currentPath s) = fs_connected s"
  by (simp_all add: rmd_invalidate_def rename_invalidate_def InvalidateCurrentWorkingDirs_def clear_currentPath_def Let_def)

lemma cwd_good:
  assumes op: "op_data op = CwdOp d" and r: "ready op" and c: "fs_connected s"
  shows "send_good E op s (cwd_Send E d op s)"
proof (cases "cw_state d")
  case cwd_init
  obtain res d1 where r1: "cwd_Send_init d s = (res, d1)" by fastforce
  have "cw_tryMkdOnFail d1 = cw_tryMkdOnFail d \<and> (res = FZ_REPLY_OK \<or> res = FZ_REPLY_CONTINUE)"
    using r1 by (auto simp: cwd_Send_init_def Let_def split: if_splits)
  then show ?thesis using cwd_init op r r1
    by (auto simp: cwd_Send_def send_good_def shape_defs reply_codes intro!: exI [of _ s] took_lock_refl)
next
  case cwd_cwd
  have "\<not> lock_waiting (op_opLock op) s" "\<not> cw_tryMkdOnFail d" using r op by (simp_all add: shape_defs lock_waiting_def)
  then show ?thesis using cwd_cwd op r c
    by (auto simp: cwd_Send_def cwd_Send_cwd_def awaits_def cwd_awaits_def connected_upd
        intro!: good_send_plain)
next
  case cwd_cwd_subdir
  have "ended op" using r by (simp add: ready_def)
  then show ?thesis using cwd_cwd_subdir op r c
    by (auto simp: cwd_Send_def cwd_Send_subdir_def awaits_def cwd_awaits_def connected_upd Let_def reply_codes
        intro!: good_send_plain good_same)
qed (use op r c in \<open>auto simp: cwd_Send_def awaits_def cwd_awaits_def intro!: good_send_plain\<close>)

lemma delete_good:
  assumes op: "op_data op = DeleteOp d" and r: "ready op" and c: "fs_connected s"
  shows "send_good E op s (delete_Send E d op s)"
proof -
  have e: "ended op" using r by (simp add: ready_def)
  show ?thesis
  proof (cases "del_state d")
    case del_init
    then show ?thesis using op r by (simp add: delete_Send_def) (rule good_push; simp add: shape_defs)
  next
    case del_waitcwd
    then show ?thesis using op r by (simp add: shape_defs)
  next
    case del_del
    then show ?thesis using op r c e
      by (auto simp: delete_Send_def awaits_def Let_def reply_codes intro!: good_send_plain good_same)
  qed
qed

lemma rmd_good:
  assumes op: "op_data op = RemoveDirOp d" and r: "ready op" and c: "fs_connected s"
  shows "send_good E op s (rmd_Send E d op s)"
proof -
  have e: "ended op" using r by (simp add: ready_def)
  show ?thesis
  proof (cases "rmd_state d")
    case rmd_init
    then show ?thesis using op r by (simp add: rmd_Send_def) (rule good_push; simp add: shape_defs)
  next
    case rmd_waitcwd
    then show ?thesis using op r by (simp add: shape_defs)
  next
    case rmd_rmd
    show ?thesis
    proof (cases "rmd_target d s")
      case None
      then show ?thesis using rmd_rmd e by (simp add: rmd_Send_def good_same reply_codes)
    next
      case (Some path)
      let ?s1 = "rmd_invalidate E d path s"
      obtain ok full where f: "AddSegment (rmd_fullPath d) (rmd_subDir d) = (ok, full)" by fastforce
      let ?op1 = "put_data (RemoveDirOp (d\<lparr>rmd_fullPath := full\<rparr>)) op"
      have op1: "ended ?op1" "ready ?op1" "is_cwd ?op1 = is_cwd op" "is_mkd ?op1 = is_mkd op"
        using op r by (simp_all add: shape_defs)
      have "send_good E op s (FZ_REPLY_ERROR, ?op1, None, ?s1)"
        using op1 by (auto simp: send_good_def reply_codes intro!: exI [of _ s] took_lock_refl)
      moreover have "send_good E op s (send_and_return E (''RMD '' @ GetPath (fe_lib E) full) ?op1 ?s1)" if "\<not> rmd_omitPath d"
        using op1 that c rmd_rmd by (intro good_send_plain) (simp_all add: awaits_def connected_upd)
      moreover have "send_good E op s (send_and_return E (''RMD '' @ rmd_subDir d) op ?s1)" if "rmd_omitPath d"
        using op r that c rmd_rmd by (intro good_send_plain) (simp_all add: awaits_def connected_upd)
      ultimately show ?thesis using rmd_rmd Some f by (simp add: rmd_Send_def Let_def)
    qed
  qed
qed

lemma rename_good:
  assumes op: "op_data op = RenameOp d" and r: "ready op" and c: "fs_connected s"
  shows "send_good E op s (rename_Send E d op s)"
proof (cases "ren_state d")
  case rename_init
  then show ?thesis using op r by (simp add: rename_Send_def Let_def) (rule good_push; simp add: shape_defs)
next
  case rename_waitcwd
  then show ?thesis using op r by (simp add: shape_defs)
qed (use op r c in \<open>auto simp: rename_Send_def awaits_def Let_def connected_upd intro!: good_send_plain\<close>)

lemma chmod_good:
  assumes op: "op_data op = ChmodOp d" and r: "ready op" and c: "fs_connected s"
  shows "send_good E op s (chmod_Send E d op s)"
proof (cases "chm_state d")
  case chmod_init
  then show ?thesis using op r by (simp add: chmod_Send_def Let_def) (rule good_push; simp add: shape_defs)
next
  case chmod_waitcwd
  then show ?thesis using op r by (simp add: shape_defs)
qed (use op r c in \<open>auto simp: chmod_Send_def awaits_def Let_def intro!: good_send_plain\<close>)

lemma raw_good:
  assumes op: "op_data op = RawOp cmd" and r: "ready op" and c: "fs_connected s"
  shows "send_good E op s (raw_Send E cmd op s)"
  using assms unfolding raw_Send_def
  by (intro good_send_plain) (simp_all add: awaits_def connected_upd)

lemma mkd_init_ready:
  assumes "mkd_Send_init L d s = (res, d1)" "mkd_state d = mkd_init"
  shows "data_ready (MkdirOp d1) \<and> (res = FZ_REPLY_OK \<or> res = FZ_REPLY_CONTINUE)"
  using assms by (auto simp: mkd_Send_init_def data_ready_def Let_def split: if_splits)

lemma mkd_good:
  assumes op: "op_data op = MkdirOp d" and r: "ready op" and c: "fs_connected s"
  shows "send_good E op s (mkd_Send E d op s)"
proof -
  obtain op1 s1 where l: "(if op_opLock op = None
      then case ftp_Lock E reason_mkdir (mkd_path d) s of (h, s1) \<Rightarrow> (op\<lparr>op_opLock := Some h\<rparr>, s1) else (op, s)) = (op1, s1)"
    by fastforce
  have same: "op_data op1 = op_data op" "op_topLevel op1 = op_topLevel op"
    using l by (auto split: if_splits prod.splits)
  have m: "is_mkd op" "is_mkd op1" "\<not> is_cwd op" "\<not> is_cwd op1" using op same by (simp_all add: shape_defs)
  have took: "took_lock E op op1 s s1"
    using l m by (auto simp: took_lock_def split: if_splits prod.splits)
  have c1: "fs_connected s1" using l c by (auto simp: ftp_Lock_def split: if_splits prod.splits)
  have r1: "ready op1" using r same m by (simp add: ready_def ended_def)
  note eq = mkd_Send_def [of E d op s, unfolded l prod.case]
  show ?thesis
  proof (cases "lock_waiting (op_opLock op1) s1")
    case True
    then show ?thesis using took m r1
      by (auto simp: eq send_good_def ready_def intro!: exI [of _ s1])
  next
    case False
    show ?thesis
    proof (cases "mkd_state d")
      case mkd_init
      obtain res d1 where i: "mkd_Send_init (fe_lib E) d s1 = (res, d1)" by fastforce
      let ?op2 = "put_data (MkdirOp d1) op1"
      have "ended ?op2" "ready ?op2" "is_mkd ?op2" "\<not> is_cwd ?op2" "took_lock E op ?op2 s s1"
        using mkd_init_ready [OF i mkd_init] r1 took by (simp_all add: shape_defs took_lock_def)
      then show ?thesis using mkd_init_ready [OF i mkd_init] False mkd_init m i
        by (auto simp: eq send_good_def reply_codes intro!: exI [of _ s1])
    qed (use False took r1 c1 m op same in
        \<open>auto simp: eq awaits_def mkd_awaits_def connected_upd intro!: good_send [OF took]\<close>)
  qed
qed

lemma op_Send_good:
  assumes "ready op" "fs_connected s"
  shows "send_good E op s (op_Send E op s)"
  using assms
  by (cases "op_data op")
    (simp_all add: op_Send_def cwd_good delete_good rmd_good rename_good mkd_good chmod_good raw_good)

subsection \<open>Replies and results of subcommands\<close>

lemma ended_same: "ended op \<Longrightarrow> is_mkd (put_data d op) = is_mkd op \<Longrightarrow> ended (put_data d op)"
  by (simp add: ended_def)

text \<open>What a reply's handler makes of a ready operation.\<close>

definition reply_good :: "COpData \<Rightarrow> int \<Rightarrow> COpData \<Rightarrow> COpData option \<Rightarrow> bool" where
  "reply_good op res op1 child \<longleftrightarrow>
     child = None \<and> is_cwd op1 = is_cwd op \<and> is_mkd op1 = is_mkd op \<and> op_opLock op1 = op_opLock op \<and> ended op1 \<and>
     (res = FZ_REPLY_CONTINUE \<longrightarrow> ready op1) \<and>
     res \<in> {FZ_REPLY_OK, FZ_REPLY_CONTINUE, FZ_REPLY_ERROR, FZ_REPLY_INTERNALERROR, FZ_REPLY_LINKNOTDIR}"

lemma op_ParseResponse_good:
  assumes "ready op" "op_ParseResponse E op s = (res, op1, child, s1)"
  shows "reply_good op res op1 child"
proof (cases "op_data op")
  case (CwdOp d)
  then show ?thesis using assms
    by (auto simp: op_ParseResponse_def cwd_ParseResponse_def cwd_Parse_cwd_def cwd_Parse_pwd_cwd_def cwd_Parse_subdir_def
        cwd_Parse_pwd_subdir_def Let_def reply_good_def shape_defs reply_codes split: cwdStates.splits if_splits prod.splits)
next
  case (DeleteOp d)
  have "del_state (fst (delete_success E d s)) = del_state d \<and> del_files (fst (delete_success E d s)) = del_files d"
    by (simp add: delete_success_def Let_def split: option.splits)
  then show ?thesis using assms DeleteOp
    by (auto simp: op_ParseResponse_def delete_ParseResponse_def Let_def case_prod_beta reply_good_def shape_defs reply_codes
        split: if_splits)
next
  case (RemoveDirOp d)
  then show ?thesis using assms
    by (auto simp: op_ParseResponse_def rmd_ParseResponse_def reply_good_def shape_defs reply_codes split: if_splits)
next
  case (RenameOp d)
  then show ?thesis using assms
    by (auto simp: op_ParseResponse_def rename_ParseResponse_def Let_def reply_good_def shape_defs reply_codes split: if_splits)
next
  case (MkdirOp d)
  then show ?thesis using assms
    by (auto simp: op_ParseResponse_def mkd_ParseResponse_def mkd_Parse_mkdsub_def mkd_Parse_findparent_def mkd_created_def
        Let_def reply_good_def shape_defs reply_codes split: mkdStates.splits if_splits prod.splits)
next
  case (ChmodOp d)
  then show ?thesis using assms
    by (auto simp: op_ParseResponse_def chmod_ParseResponse_def Let_def reply_good_def shape_defs reply_codes split: if_splits)
next
  case (RawOp c)
  then show ?thesis using assms
    by (auto simp: op_ParseResponse_def raw_ParseResponse_def reply_good_def shape_defs reply_codes split: if_splits)
qed

lemma op_SubcommandResult_good:
  assumes "waits_for_cwd op" "op_SubcommandResult E prev op s = (res, op1)"
  shows "res = FZ_REPLY_CONTINUE" "ready op1" "\<not> is_cwd op1" "op_opLock op1 = None"
  using assms
  by (cases "op_data op"; auto simp: op_SubcommandResult_def delete_SubcommandResult_def rmd_SubcommandResult_def
      rename_SubcommandResult_def chmod_SubcommandResult_def shape_defs split: if_splits)+

end
