(* ===== verification/Ftp_Sync.thy ===== *)
theory Ftp_Sync
  imports Ftp_Shapes
begin

text \<open>
  Commands and replies stay in step: the invariant of a session, kept by every event, and what it
  says of the replies, the locks, the engine's command and the timeout.
\<close>

subsection \<open>The invariant\<close>

definition op_handles :: "COpData list \<Rightarrow> lock_handle set" where
  "op_handles ops = (\<Union>op \<in> set ops. set_option (op_opLock op))"

definition locks_owned :: "libfz \<Rightarrow> ftp_session \<Rightarrow> bool" where
  "locks_owned L s \<longleftrightarrow> lock_table_ok L (fs_locks s) \<and> own_locks (fs_socket s) (fs_locks s) = op_handles (fs_ops s)"

text \<open>The engine is busy while an operation is on the stack or the event that starts it is queued.\<close>

definition command_ok :: "ftp_session \<Rightarrow> bool" where
  "command_ok s \<longleftrightarrow>
     (fs_connected s \<longrightarrow>
        (if fs_ops s \<noteq> [] then fs_currentCommand s \<noteq> None \<and> fs_commandEvents s = 0
         else fs_commandEvents s = (if fs_currentCommand s = None then 0 else 1))) \<and>
     (\<forall>c. fs_currentCommand s = Some c \<longrightarrow> command_valid c)"

definition stack_shape :: "COpData list \<Rightarrow> bool" where
  "stack_shape ops =
     (case ops of
        [] \<Rightarrow> True
      | [op] \<Rightarrow> ready op \<and> \<not> is_cwd op
      | [c, op] \<Rightarrow> ready c \<and> is_cwd c \<and> waits_for_cwd op
      | _ \<Rightarrow> False)"

definition open_shape :: "COpData list \<Rightarrow> bool" where
  "open_shape ops =
     (case ops of
        [] \<Rightarrow> True
      | [op] \<Rightarrow> ended op
      | [c, op] \<Rightarrow> ended c \<and> is_cwd c \<and> waits_for_cwd op
      | _ \<Rightarrow> False)"

text \<open>The top operation has sent its command and nothing else is outstanding, or it waits for a lock.\<close>

definition in_reply :: "libfz \<Rightarrow> ftp_session \<Rightarrow> COpData \<Rightarrow> bool" where
  "in_reply L s op \<longleftrightarrow>
     fs_pendingReplies s = 1 \<and> fs_sent s \<noteq> [] \<and> awaits L op = Some (last (fs_sent s)) \<and>
       \<not> lock_waiting (op_opLock op) s \<or>
     fs_pendingReplies s = 0 \<and> is_mkd op \<and> lock_waiting (op_opLock op) s"

definition in_step :: "libfz \<Rightarrow> ftp_session \<Rightarrow> bool" where
  "in_step L s \<longleftrightarrow>
     (\<not> fs_connected s \<longrightarrow> fs_ops s = [] \<and> fs_pendingReplies s = 0 \<and> fs_repliesToSkip s = 0) \<and>
     (fs_repliesToSkip s \<noteq> 0 \<longrightarrow> fs_repliesToSkip s = fs_pendingReplies s) \<and>
     (fs_repliesToSkip s = 0 \<longrightarrow>
        (case fs_ops s of [] \<Rightarrow> fs_pendingReplies s = 0 | op # _ \<Rightarrow> in_reply L s op))"

text \<open>\<open>T\<close>: the timeout is switched on.\<close>

definition timed :: "bool \<Rightarrow> ftp_session \<Rightarrow> bool" where
  "timed T s \<longleftrightarrow>
     (T \<longrightarrow> (case fs_ops s of [] \<Rightarrow> True
             | op # _ \<Rightarrow> fs_timer s \<or> fs_repliesToSkip s = 0 \<and> lock_waiting (op_opLock op) s))"

definition session_ok :: "libfz \<Rightarrow> bool \<Rightarrow> ftp_session \<Rightarrow> bool" where
  "session_ok L T s \<longleftrightarrow>
     stack_shape (fs_ops s) \<and> locks_owned L s \<and> command_ok s \<and> in_step L s \<and> timed T s \<and>
     (fs_idleTimer s \<longrightarrow> fs_connected s)"

text \<open>What holds before the next command is sent, before an operation is reset, and before the result
  of a change of directory is handed down.\<close>

definition before_send :: "libfz \<Rightarrow> ftp_session \<Rightarrow> bool" where
  "before_send L s \<longleftrightarrow>
     fs_connected s \<and> fs_ops s \<noteq> [] \<and> stack_shape (fs_ops s) \<and> locks_owned L s \<and> command_ok s \<and>
     fs_repliesToSkip s = fs_pendingReplies s"

definition before_reset :: "libfz \<Rightarrow> int \<Rightarrow> ftp_session \<Rightarrow> bool" where
  "before_reset L code s \<longleftrightarrow>
     open_shape (fs_ops s) \<and> locks_owned L s \<and> command_ok s \<and>
     (fs_connected s \<and> fs_ops s \<noteq> [] \<or>
      \<not> fs_connected s \<and> code_has code FZ_REPLY_DISCONNECTED \<and> fs_pendingReplies s = 0)"

definition before_result :: "libfz \<Rightarrow> COpData \<Rightarrow> ftp_session \<Rightarrow> bool" where
  "before_result L old s \<longleftrightarrow>
     fs_connected s \<and> (\<exists>op. fs_ops s = [op] \<and> waits_for_cwd op) \<and> op_opLock old = None \<and>
     locks_owned L s \<and> command_ok s \<and> fs_repliesToSkip s = fs_pendingReplies s"

subsection \<open>The effects, field by field\<close>

lemma put_top_fields [simp]:
  "fs_idleTimer (put_top c op rest s) = fs_idleTimer s"
  "fs_connected (put_top c op rest s) = fs_connected s" "fs_pendingReplies (put_top c op rest s) = fs_pendingReplies s"
  "fs_repliesToSkip (put_top c op rest s) = fs_repliesToSkip s" "fs_sent (put_top c op rest s) = fs_sent s"
  "fs_locks (put_top c op rest s) = fs_locks s" "fs_socket (put_top c op rest s) = fs_socket s"
  "fs_currentCommand (put_top c op rest s) = fs_currentCommand s"
  "fs_commandEvents (put_top c op rest s) = fs_commandEvents s" "fs_timer (put_top c op rest s) = fs_timer s"
  by (simp_all add: put_top_def)

lemma SetWait_fields [simp]:
  "fs_idleTimer (SetWait E w s) = fs_idleTimer s"
  "fs_connected (SetWait E w s) = fs_connected s" "fs_pendingReplies (SetWait E w s) = fs_pendingReplies s"
  "fs_repliesToSkip (SetWait E w s) = fs_repliesToSkip s" "fs_sent (SetWait E w s) = fs_sent s"
  "fs_locks (SetWait E w s) = fs_locks s" "fs_socket (SetWait E w s) = fs_socket s"
  "fs_currentCommand (SetWait E w s) = fs_currentCommand s" "fs_commandEvents (SetWait E w s) = fs_commandEvents s"
  "fs_timer (SetWait E w s) = (if w then fs_timer s \<or> fe_timeout E \<noteq> 0 else False)"
  by (simp_all add: SetWait_def Let_def)

lemma Finalize_fields [simp]:
  "fs_idleTimer (FinalizeResetOperation s) = fs_idleTimer s"
  "fs_connected (FinalizeResetOperation s) = fs_connected s" "fs_pendingReplies (FinalizeResetOperation s) = fs_pendingReplies s"
  "fs_repliesToSkip (FinalizeResetOperation s) = fs_repliesToSkip s" "fs_sent (FinalizeResetOperation s) = fs_sent s"
  "fs_locks (FinalizeResetOperation s) = fs_locks s" "fs_socket (FinalizeResetOperation s) = fs_socket s"
  "fs_currentCommand (FinalizeResetOperation s) = fs_currentCommand s"
  "fs_commandEvents (FinalizeResetOperation s) = fs_commandEvents s" "fs_timer (FinalizeResetOperation s) = fs_timer s"
  by (simp_all add: FinalizeResetOperation_def clear_currentPath_def)

lemma engine_fields [simp]:
  "fs_idleTimer (engine_ResetOperation c s) = fs_idleTimer s"
  "fs_connected (engine_ResetOperation c s) = fs_connected s" "fs_pendingReplies (engine_ResetOperation c s) = fs_pendingReplies s"
  "fs_repliesToSkip (engine_ResetOperation c s) = fs_repliesToSkip s" "fs_sent (engine_ResetOperation c s) = fs_sent s"
  "fs_locks (engine_ResetOperation c s) = fs_locks s" "fs_socket (engine_ResetOperation c s) = fs_socket s"
  "fs_currentCommand (engine_ResetOperation c s) = None" "fs_ops (engine_ResetOperation c s) = fs_ops s"
  "fs_commandEvents (engine_ResetOperation c s) = fs_commandEvents s" "fs_timer (engine_ResetOperation c s) = fs_timer s"
  by (simp_all add: engine_ResetOperation_def split: option.splits)

lemma reset_pre_fields [simp]:
  "fs_connected (ftp_ResetOperation_pre E c s) = fs_connected s"
  "fs_pendingReplies (ftp_ResetOperation_pre E c s) = fs_pendingReplies s"
  "fs_repliesToSkip (ftp_ResetOperation_pre E c s) = fs_pendingReplies s"
  "fs_sent (ftp_ResetOperation_pre E c s) = fs_sent s"
  "fs_locks (ftp_ResetOperation_pre E c s) = fs_locks s" "fs_socket (ftp_ResetOperation_pre E c s) = fs_socket s"
  "fs_currentCommand (ftp_ResetOperation_pre E c s) = fs_currentCommand s"
  "fs_commandEvents (ftp_ResetOperation_pre E c s) = fs_commandEvents s" "fs_timer (ftp_ResetOperation_pre E c s) = fs_timer s"
  by (simp_all add: ftp_ResetOperation_pre_def StartKeepaliveTimer_def Let_def split: option.splits)

lemma op_Reset_fields [simp]:
  "fs_idleTimer (snd (op_Reset c op s)) = fs_idleTimer s"
  "fs_connected (snd (op_Reset c op s)) = fs_connected s" "fs_pendingReplies (snd (op_Reset c op s)) = fs_pendingReplies s"
  "fs_repliesToSkip (snd (op_Reset c op s)) = fs_repliesToSkip s" "fs_sent (snd (op_Reset c op s)) = fs_sent s"
  "fs_locks (snd (op_Reset c op s)) = fs_locks s" "fs_socket (snd (op_Reset c op s)) = fs_socket s"
  "fs_currentCommand (snd (op_Reset c op s)) = fs_currentCommand s"
  "fs_commandEvents (snd (op_Reset c op s)) = fs_commandEvents s" "fs_timer (snd (op_Reset c op s)) = fs_timer s"
  by (simp_all add: op_Reset_def delete_Reset_def SendDirectoryListingNotification_def split: op_data.splits)

lemma pop_fields [simp]:
  "fs_idleTimer (pop_op ops s) = fs_idleTimer s"
  "fs_connected (pop_op ops s) = fs_connected s" "fs_pendingReplies (pop_op ops s) = fs_pendingReplies s"
  "fs_repliesToSkip (pop_op ops s) = fs_repliesToSkip s" "fs_sent (pop_op ops s) = fs_sent s"
  "fs_locks (pop_op ops s) = fs_locks s" "fs_socket (pop_op ops s) = fs_socket s"
  "fs_currentCommand (pop_op ops s) = fs_currentCommand s"
  "fs_commandEvents (pop_op ops s) = fs_commandEvents s" "fs_timer (pop_op ops s) = fs_timer s"
  by (simp_all add: pop_op_def)

lemma destroy_fields [simp]:
  "fs_idleTimer (destroy_op op s) = fs_idleTimer s"
  "fs_connected (destroy_op op s) = fs_connected s" "fs_pendingReplies (destroy_op op s) = fs_pendingReplies s"
  "fs_repliesToSkip (destroy_op op s) = fs_repliesToSkip s" "fs_sent (destroy_op op s) = fs_sent s"
  "fs_socket (destroy_op op s) = fs_socket s" "fs_currentCommand (destroy_op op s) = fs_currentCommand s"
  "fs_commandEvents (destroy_op op s) = fs_commandEvents s" "fs_timer (destroy_op op s) = fs_timer s"
  by (simp_all add: destroy_op_def split: option.splits prod.splits)

lemma reset_pre_idle: "fs_idleTimer (ftp_ResetOperation_pre E c s) \<Longrightarrow> \<not> code_has c FZ_REPLY_DISCONNECTED"
  by (auto simp: ftp_ResetOperation_pre_def Let_def split: if_splits)

lemma destroy_unlocked [simp]: "op_opLock op = None \<Longrightarrow> destroy_op op s = s"
  by (simp add: destroy_op_def)

lemma close_fields [simp]:
  "fs_currentCommand (close_session s) = fs_currentCommand s" "\<not> fs_connected (close_session s)" "fs_pendingReplies (close_session s) = 0" "fs_locks (close_session s) = fs_locks s"
  "fs_socket (close_session s) = fs_socket s"
  by (simp_all add: close_session_def ResetSocket_def clear_currentPath_def)

lemma quiet_fields:
  assumes "quiet s s1"
  shows "fs_connected s1 = fs_connected s" "fs_pendingReplies s1 = fs_pendingReplies s" "fs_ops s1 = fs_ops s"
    "fs_repliesToSkip s1 = fs_repliesToSkip s" "fs_sent s1 = fs_sent s" "fs_locks s1 = fs_locks s"
    "fs_socket s1 = fs_socket s" "fs_currentCommand s1 = fs_currentCommand s"
    "fs_commandEvents s1 = fs_commandEvents s" "fs_timer s1 = fs_timer s"
  using assms by (simp_all add: quiet_def same_connection_def)

lemma commanded_fields:
  assumes "commanded E cmd s s1"
  shows "fs_connected s1 = fs_connected s" "fs_pendingReplies s1 = fs_pendingReplies s + 1" "fs_ops s1 = fs_ops s"
    "fs_repliesToSkip s1 = fs_repliesToSkip s" "fs_sent s1 = fs_sent s @ [cmd]" "fs_locks s1 = fs_locks s"
    "fs_socket s1 = fs_socket s" "fs_currentCommand s1 = fs_currentCommand s"
    "fs_commandEvents s1 = fs_commandEvents s" "fs_timer s1 = (fs_timer s \<or> fe_timeout E \<noteq> 0)"
  using assms by (simp_all add: commanded_def same_connection_def)

lemma lock_waiting_cong: "fs_locks s1 = fs_locks s \<Longrightarrow> lock_waiting h s1 = lock_waiting h s"
  by (simp add: lock_waiting_def split: option.splits)

subsection \<open>Locks\<close>

lemma op_handles_simps [simp]:
  "op_handles [] = {}" "op_handles (op # ops) = set_option (op_opLock op) \<union> op_handles ops"
  by (simp_all add: op_handles_def)

lemma ready_ended: "ready op \<Longrightarrow> ended op"
  by (simp add: ready_def)

lemma unlocked:
  "ended op \<Longrightarrow> is_cwd op \<Longrightarrow> op_opLock op = None" "waits_for_cwd op \<Longrightarrow> op_opLock op = None"
  "waits_for_cwd op \<Longrightarrow> ended op" "is_cwd op \<Longrightarrow> \<not> is_mkd op"
  by (auto simp: shape_defs split: op_data.splits)

lemma stack_open: "stack_shape ops \<Longrightarrow> open_shape ops"
  by (auto simp: stack_shape_def open_shape_def ready_ended split: list.splits)

lemma took_lock_owned:
  assumes "took_lock E op op1 s s0" "locks_owned (fe_lib E) s" "fs_ops s = op # rest" "is_mkd op \<Longrightarrow> rest = []"
  shows "lock_table_ok (fe_lib E) (fs_locks s0) \<and> own_locks (fs_socket s0) (fs_locks s0) = set_option (op_opLock op1) \<union> op_handles rest \<and>
    (\<exists>m. s0 = s\<lparr>fs_locks := m\<rparr>)"
proof (cases "op_opLock op1 = op_opLock op \<and> s0 = s")
  case True
  moreover have "\<exists>m. s = s\<lparr>fs_locks := m\<rparr>" by (rule exI [of _ "fs_locks s"]) simp
  ultimately show ?thesis using assms(2,3) by (simp add: locks_owned_def)
next
  case False
  then obtain p h where l: "is_mkd op" "op_opLock op = None" "ftp_Lock E reason_mkdir p s = (h, s0)" "op_opLock op1 = Some h"
    using assms(1) by (auto simp: took_lock_def)
  obtain m where m: "OpLock_Lock (fe_lib E) (fs_locks s) (fs_socket s) (fs_server s) reason_mkdir p False = (m, h)"
    "s0 = s\<lparr>fs_locks := m\<rparr>"
    using l(3) by (auto simp: ftp_Lock_def split: prod.splits)
  have "lock_table_ok (fe_lib E) (fs_locks s)" using assms(2) by (simp add: locks_owned_def)
  note own = Lock_owner [OF this m(1)]
  have "op_handles (fs_ops s) = {}" using l(1,2) assms(3,4) by simp
  then have "own_locks (fs_socket s) m = {h}" using own(2) assms(2) by (simp add: locks_owned_def)
  moreover have "fs_locks s0 = m" "fs_socket s0 = fs_socket s" using m(2) by simp_all
  ultimately show ?thesis using own(1) l(1,4) assms(4) m(2) by (metis Un_empty_right op_handles_simps(1) option.set(2))
qed

lemma destroy_owned:
  assumes "lock_table_ok L (fs_locks s)" "own_locks (fs_socket s) (fs_locks s) = set_option (op_opLock op)"
  shows "lock_table_ok L (fs_locks (destroy_op op s)) \<and> own_locks (fs_socket s) (fs_locks (destroy_op op s)) = {}"
proof (cases "op_opLock op")
  case (Some h)
  obtain m woken where u: "OpLock_Unlock (fs_locks s) h = (m, woken)" by fastforce
  have "h \<in> live (fs_locks s)" using assms(2) Some by (auto simp: own_locks_def)
  from Unlock_owner [OF assms(1) this u] show ?thesis using Some u assms(2) by (simp add: destroy_op_def)
qed (use assms in simp)

subsection \<open>The stack functions keep the invariant\<close>

lemma shape_cases:
  assumes "stack_shape ops" "ops = op # rest"
  shows "ready op" "is_mkd op \<Longrightarrow> rest = []" "\<not> is_cwd op \<Longrightarrow> rest = []" "is_cwd op \<Longrightarrow> \<exists>p. rest = [p] \<and> waits_for_cwd p"
  using assms unlocked(4) by (auto simp: stack_shape_def split: list.splits)

lemma shape_put:
  assumes "stack_shape (op # rest)" "is_cwd op1 = is_cwd op"
  shows "ready op1 \<Longrightarrow> stack_shape (op1 # rest)" "ended op1 \<Longrightarrow> open_shape (op1 # rest)"
    "\<not> is_cwd op \<Longrightarrow> waits_for_cwd op1 \<Longrightarrow> is_cwd c \<Longrightarrow> ready c \<Longrightarrow> stack_shape (c # op1 # rest)"
  using assms by (auto simp: stack_shape_def open_shape_def split: list.splits)

lemma codes:
  "subcommand_code code \<Longrightarrow> \<not> code_has code FZ_REPLY_DISCONNECTED" "code_has (close_code code) FZ_REPLY_DISCONNECTED"
proof -
  show "subcommand_code code \<Longrightarrow> \<not> code_has code FZ_REPLY_DISCONNECTED"
    by (auto simp: subcommand_code_def code_has_def reply_codes)
  have "bit (close_code code) 6" by (simp add: close_code_def reply_codes bit_or_iff)
  then have "bit (close_code code AND FZ_REPLY_DISCONNECTED) 6" by (simp add: bit_and_iff reply_codes)
  then show "code_has (close_code code) FZ_REPLY_DISCONNECTED" unfolding code_has_def by (metis bit_0_eq bot_apply bot_bool_def)
qed

lemma sync_skip:
  assumes "before_send (fe_lib E) s" "fs_ops s = op # rest" "fs_repliesToSkip s \<noteq> 0"
  shows "session_ok (fe_lib E) (fe_timeout E \<noteq> 0) (SetWait E True s)"
  using assms by (simp add: before_send_def session_ok_def locks_owned_def command_ok_def in_step_def timed_def)

lemma sync_send:
  assumes b: "before_send (fe_lib E) s" and ops: "fs_ops s = op # rest" and skip: "fs_repliesToSkip s = 0"
    and run: "op_Send E op s = (res, op1, child, s1)"
  shows "res = FZ_REPLY_CONTINUE \<Longrightarrow> before_send (fe_lib E) (put_top child op1 rest s1)"
    "res = FZ_REPLY_WOULDBLOCK \<Longrightarrow> session_ok (fe_lib E) (fe_timeout E \<noteq> 0) (put_top child op1 rest s1)"
    "res \<noteq> FZ_REPLY_CONTINUE \<Longrightarrow> res \<noteq> FZ_REPLY_WOULDBLOCK \<Longrightarrow> before_reset (fe_lib E) res (put_top child op1 rest s1)"
proof -
  have shape: "stack_shape (op # rest)" and c: "fs_connected s" and lo: "locks_owned (fe_lib E) s" and co: "command_ok s"
    and pend: "fs_pendingReplies s = 0"
    using b ops skip by (simp_all add: before_send_def)
  note sc = shape_cases [OF shape refl]
  obtain s0 where took: "took_lock E op op1 s s0" and kind: "is_cwd op1 = is_cwd op" "is_mkd op1 = is_mkd op" "ended op1"
    and g: "if res = FZ_REPLY_WOULDBLOCK then
             child = None \<and> ready op1 \<and>
             ((\<exists>cmd. commanded E cmd s0 s1 \<and> awaits (fe_lib E) op1 = Some cmd \<and> \<not> lock_waiting (op_opLock op1) s1) \<or>
              is_mkd op \<and> lock_waiting (op_opLock op1) s1 \<and> s1 = s0)
           else quiet s0 s1 \<and>
             (if res = FZ_REPLY_CONTINUE then
                child = None \<and> ready op1 \<or>
                (\<exists>c. child = Some c \<and> is_cwd c \<and> ready c \<and> op_opLock c = None \<and> waits_for_cwd op1 \<and> \<not> is_cwd op)
              else child = None)"
    using op_Send_good [OF sc(1) c, of E] run unfolding send_good_def by auto
  obtain m where s0: "s0 = s\<lparr>fs_locks := m\<rparr>"
    and own: "lock_table_ok (fe_lib E) m" "own_locks (fs_socket s) m = set_option (op_opLock op1) \<union> op_handles rest"
    using took_lock_owned [OF took lo ops sc(2)] by auto
  note put = shape_put [OF shape kind(1)]
  have co1: "fs_currentCommand s \<noteq> None" "fs_commandEvents s = 0"
    "\<forall>c. fs_currentCommand s = Some c \<longrightarrow> command_valid c" using co c ops by (simp_all add: command_ok_def)
  {
    assume res: "res = FZ_REPLY_CONTINUE"
    then have q: "quiet s0 s1" using g by (simp add: reply_codes)
    note f = quiet_fields [OF q]
    from g res consider "child = None" "ready op1"
      | c where "child = Some c" "is_cwd c" "ready c" "op_opLock c = None" "waits_for_cwd op1" "\<not> is_cwd op"
      by (auto simp: reply_codes)
    then show "before_send (fe_lib E) (put_top child op1 rest s1)"
    proof cases
      case 1
      then show ?thesis using put(1) f own c co1 pend skip
        by (simp add: before_send_def child_list_def locks_owned_def command_ok_def s0)
    next
      case 2
      then show ?thesis using put(3) f own c co1 pend skip
        by (simp add: before_send_def child_list_def locks_owned_def command_ok_def s0)
    qed
  }
  {
    assume res: "res = FZ_REPLY_WOULDBLOCK"
    let ?s2 = "put_top None op1 rest s1"
    have child: "child = None" and r1: "ready op1" using g res by simp_all
    have lw: "lock_waiting h ?s2 = lock_waiting h s1" for h by (rule lock_waiting_cong) simp
    from g res consider cmd where "commanded E cmd s0 s1" "awaits (fe_lib E) op1 = Some cmd" "\<not> lock_waiting (op_opLock op1) s1"
      | "is_mkd op" "lock_waiting (op_opLock op1) s1" "s1 = s0" by auto
    then show "session_ok (fe_lib E) (fe_timeout E \<noteq> 0) (put_top child op1 rest s1)"
    proof cases
      case 1
      then show ?thesis using put(1) [OF r1] commanded_fields [OF 1(1)] own c co1 pend skip
        by (simp add: child session_ok_def child_list_def locks_owned_def command_ok_def in_step_def in_reply_def timed_def s0 lw)
    next
      case 2
      then show ?thesis using put(1) [OF r1] own c co1 pend skip lw [of "op_opLock op1"] kind(2)
        by (simp add: child session_ok_def child_list_def locks_owned_def command_ok_def in_step_def in_reply_def timed_def s0)
    qed
  }
  {
    assume res: "res \<noteq> FZ_REPLY_CONTINUE" "res \<noteq> FZ_REPLY_WOULDBLOCK"
    then have q: "quiet s0 s1" and child: "child = None" using g by simp_all
    then show "before_reset (fe_lib E) res (put_top child op1 rest s1)"
      using put(2) [OF kind(3)] quiet_fields [OF q] own c co1
      by (simp add: before_reset_def child_list_def locks_owned_def command_ok_def s0)
  }
qed

lemma sync_final:
  assumes "fs_ops s = []" "fs_repliesToSkip s = fs_pendingReplies s" "locks_owned L s"
    "fs_connected s \<Longrightarrow> fs_commandEvents s = 0" "\<not> fs_connected s \<Longrightarrow> fs_pendingReplies s = 0"
    "fs_idleTimer s \<Longrightarrow> fs_connected s"
  shows "session_ok L T (engine_ResetOperation code (SetWait E False (FinalizeResetOperation s)))"
  using assms
  by (simp add: session_ok_def stack_shape_def locks_owned_def command_ok_def in_step_def timed_def)

lemma sync_last:
  assumes b: "before_reset L code s" and ops: "fs_ops s = [op]"
    and s1: "s1 = snd (op_Reset code op (pop_op [] (ftp_ResetOperation_pre E code s)))"
  shows "session_ok L T (engine_ResetOperation code (SetWait E False (FinalizeResetOperation (destroy_op op s1))))"
proof (rule sync_final)
  have "lock_table_ok L (fs_locks s1)" "own_locks (fs_socket s1) (fs_locks s1) = set_option (op_opLock op)"
    using b ops by (simp_all add: s1 before_reset_def locks_owned_def)
  from destroy_owned [OF this] show "locks_owned L (destroy_op op s1)" by (simp add: locks_owned_def s1)
qed (use b ops in \<open>auto simp: s1 before_reset_def command_ok_def dest: reset_pre_idle\<close>)

lemma open_shape_two:
  assumes "open_shape (op # rest)" "rest \<noteq> []"
  shows "\<exists>p. rest = [p] \<and> waits_for_cwd p" "op_opLock op = None" "\<not> op_topLevel op"
  using assms unlocked(1) by (auto simp: open_shape_def ended_def split: list.splits)

interpretation sync: stack_rules E "before_send (fe_lib E)" "before_reset (fe_lib E)" "\<lambda>prev. before_result (fe_lib E)"
  "session_ok (fe_lib E) (fe_timeout E \<noteq> 0)" for E
proof (unfold_locales, goal_cases)
  case (1 s)
  then show ?case by (simp add: before_send_def)
next
  case (2 s op rest)
  then show ?case by (rule sync_skip)
next
  case (3 s op rest op1 child s1)
  then show ?case using sync_send(1) by blast
next
  case (4 s op rest op1 child s1)
  then show ?case using sync_send(2) by blast
next
  case (5 s op rest res op1 child s1)
  then show ?case using sync_send(3) [OF 5(1-4)] by (auto simp: reply_codes)
next
  case (6 code s)
  then show ?case by (intro sync_final) (auto simp: before_reset_def locks_owned_def dest: reset_pre_idle)
next
  case (7 code s op s1)
  then show ?case using sync_last by blast
next
  case (8 code s op rest s1)
  have "open_shape (op # rest)" using 8 by (simp add: before_reset_def)
  note two = open_shape_two [OF this 8(3)]
  have "fs_connected s" using 8 codes(1) by (auto simp: before_reset_def)
  then show ?case using 8 two by (auto simp: before_reset_def before_result_def locks_owned_def command_ok_def)
next
  case (9 code s op rest s1)
  have "open_shape (op # rest)" using 9 by (simp add: before_reset_def)
  note two = open_shape_two [OF this 9(3)]
  then show ?case using 9 unlocked(3) by (auto simp: before_reset_def open_shape_def locks_owned_def command_ok_def)
next
  case (10 code s op rest s1)
  have "open_shape (op # rest)" using 10 by (simp add: before_reset_def)
  from open_shape_two(3) [OF this 10(3)] show ?case using 10 by simp
next
  case (11 prev old s)
  then show ?case by (simp add: before_result_def)
next
  case (12 prev old s op rest op1)
  then show ?case using op_SubcommandResult_good(1) by (fastforce simp: before_result_def reply_codes)
next
  case (13 prev old s op rest op1)
  then have w: "waits_for_cwd op" "rest = []" by (auto simp: before_result_def)
  note g = op_SubcommandResult_good [OF w(1) 13(3)]
  then show ?case using 13 w unlocked(2) [OF w(1)]
    by (auto simp: before_result_def before_send_def stack_shape_def child_list_def locks_owned_def command_ok_def)
next
  case (14 prev old s op rest res op1)
  then show ?case using op_SubcommandResult_good(1) by (fastforce simp: before_result_def)
qed

end
