(* ===== verification/Ftp_Sync_Steps.thy ===== *)
theory Ftp_Sync_Steps
  imports Ftp_Sync
begin

text \<open>Every event of a session keeps the invariant of \<open>Ftp_Sync\<close>.\<close>

lemma session_ok_weaken: "session_ok L True s \<Longrightarrow> session_ok L T s"
  by (auto simp: session_ok_def timed_def)

text \<open>Facts about an environment that the library and the timeout fit.\<close>

definition env_fits :: "libfz \<Rightarrow> bool \<Rightarrow> ftp_env \<Rightarrow> bool" where
  "env_fits L T E \<longleftrightarrow> fe_lib E = L \<and> (T \<longrightarrow> 0 < fe_timeout E)"

lemma fits_session: "env_fits L T E \<Longrightarrow> session_ok (fe_lib E) (fe_timeout E \<noteq> 0) s \<Longrightarrow> session_ok L T s"
  by (auto simp: env_fits_def session_ok_def timed_def)

lemma fits_send: "env_fits L T E \<Longrightarrow> before_send L s \<Longrightarrow> session_ok L T (SendNextCommand E s)"
  using sync.stack_facts(1) [of E s] fits_session by (auto simp: env_fits_def)

lemma fits_reset: "env_fits L T E \<Longrightarrow> before_reset L code s \<Longrightarrow> session_ok L T (ResetOperation E code s)"
  using sync.stack_facts(2) [of E code s] fits_session by (auto simp: env_fits_def)

lemma close_before: "session_ok L T s \<Longrightarrow> before_reset L (close_code code) (close_session s)"
  by (auto simp: before_reset_def session_ok_def stack_open codes locks_owned_def command_ok_def)

lemma fits_close: "env_fits L T E \<Longrightarrow> session_ok L T' s \<Longrightarrow> session_ok L T (DoClose E code s)"
  unfolding DoClose_def using fits_reset close_before by blast

lemma fits_close_default: "env_fits L T E \<Longrightarrow> session_ok L T' s \<Longrightarrow> session_ok L T (DoClose_default E s)"
  unfolding DoClose_default_def by (rule fits_close)

text \<open>Updates of fields the invariant does not mention.\<close>

lemma lock_waiting_upd [simp]:
  "lock_waiting h (s\<lparr>fs_timer := x_timer\<rparr>) = lock_waiting h s"
  "lock_waiting h (s\<lparr>fs_idleTimer := x_idleTimer\<rparr>) = lock_waiting h s"
  "lock_waiting h (s\<lparr>fs_pendingReplies := x_pendingReplies\<rparr>) = lock_waiting h s"
  "lock_waiting h (s\<lparr>fs_repliesToSkip := x_repliesToSkip\<rparr>) = lock_waiting h s"
  "lock_waiting h (s\<lparr>fs_currentCommand := x_currentCommand\<rparr>) = lock_waiting h s"
  "lock_waiting h (s\<lparr>fs_commandEvents := x_commandEvents\<rparr>) = lock_waiting h s"
  "lock_waiting h (s\<lparr>fs_Response := x_Response\<rparr>) = lock_waiting h s"
  "lock_waiting h (s\<lparr>fs_MultilineCode := x_MultilineCode\<rparr>) = lock_waiting h s"
  "lock_waiting h (s\<lparr>fs_MultilineLines := x_MultilineLines\<rparr>) = lock_waiting h s"
  "lock_waiting h (s\<lparr>fs_lastActivity := x_lastActivity\<rparr>) = lock_waiting h s"
  "lock_waiting h (s\<lparr>fs_wire := x_wire\<rparr>) = lock_waiting h s"
  "lock_waiting h (s\<lparr>fs_send_buffer := x_send_buffer\<rparr>) = lock_waiting h s"
  "lock_waiting h (s\<lparr>fs_currentPath := x_currentPath\<rparr>) = lock_waiting h s"
  "lock_waiting h (s\<lparr>fs_invalidateCurrentPath := x_invalidateCurrentPath\<rparr>) = lock_waiting h s"
  "lock_waiting h (s\<lparr>fs_receiveBuffer := x_receiveBuffer\<rparr>) = lock_waiting h s"
  "lock_waiting h (s\<lparr>fs_dc := x_dc\<rparr>) = lock_waiting h s"
  "lock_waiting h (s\<lparr>fs_pc := x_pc\<rparr>) = lock_waiting h s"
  by (simp_all add: lock_waiting_def split: option.splits)

lemma session_ok_upd [simp]:
  "session_ok L T (s\<lparr>fs_Response := x1\<rparr>) = session_ok L T s" "session_ok L T (s\<lparr>fs_MultilineCode := x1\<rparr>) = session_ok L T s"
  "session_ok L T (s\<lparr>fs_MultilineLines := x2\<rparr>) = session_ok L T s" "session_ok L T (s\<lparr>fs_lastActivity := x3\<rparr>) = session_ok L T s"
  "session_ok L T (s\<lparr>fs_wire := x4\<rparr>) = session_ok L T s" "session_ok L T (s\<lparr>fs_send_buffer := x5\<rparr>) = session_ok L T s"
  "session_ok L T (s\<lparr>fs_currentPath := x6\<rparr>) = session_ok L T s" "session_ok L T (s\<lparr>fs_invalidateCurrentPath := x7\<rparr>) = session_ok L T s"
  "session_ok L T (s\<lparr>fs_receiveBuffer := x8\<rparr>) = session_ok L T s"
  by (cases "fs_ops s"; simp add: session_ok_def locks_owned_def command_ok_def in_step_def in_reply_def timed_def)+

lemma session_ok_SetAlive [simp]: "session_ok L T (SetAlive E s) = session_ok L T s"
  by (simp add: SetAlive_def)

lemma session_ok_connected: "session_ok L T s \<Longrightarrow> fs_ops s \<noteq> [] \<Longrightarrow> fs_connected s"
  by (auto simp: session_ok_def in_step_def)

subsection \<open>Replies\<close>

lemma keepalive_session [simp]: "fs_connected s \<Longrightarrow> session_ok L T (StartKeepaliveTimer E s) = session_ok L T s"
proof -
  assume "fs_connected s"
  then have "session_ok L T (s\<lparr>fs_idleTimer := True\<rparr>) = session_ok L T s"
    by (cases "fs_ops s"; simp add: session_ok_def locks_owned_def command_ok_def in_step_def in_reply_def timed_def)
  then show ?thesis by (simp add: StartKeepaliveTimer_def split: option.splits)
qed

lemma skip_reply_ok:
  assumes E: "env_fits L T E" and ok: "stack_shape (fs_ops s)" "locks_owned L s" "command_ok s" "fs_connected s"
    "timed T s" "fs_repliesToSkip s = fs_pendingReplies s + 1"
  shows "session_ok L T (skip_reply E False s)"
proof -
  let ?s1 = "s\<lparr>fs_repliesToSkip := fs_repliesToSkip s - 1\<rparr>"
  have s1: "stack_shape (fs_ops ?s1)" "locks_owned L ?s1" "command_ok ?s1" "fs_connected ?s1"
    "fs_repliesToSkip ?s1 = fs_pendingReplies ?s1"
    using ok by (simp_all add: locks_owned_def command_ok_def)
  consider "fs_repliesToSkip ?s1 \<noteq> 0" | "fs_repliesToSkip ?s1 = 0" "fs_ops s = []" | "fs_repliesToSkip ?s1 = 0" "fs_ops s \<noteq> []"
    by blast
  then show ?thesis
  proof cases
    case 1
    have "timed T ?s1" using ok(5,6) 1 by (auto simp: timed_def split: list.splits)
    then have "session_ok L T ?s1" using s1 1 by (simp add: session_ok_def in_step_def)
    then show ?thesis using 1 by (simp add: skip_reply_def)
  next
    case 2
    have "session_ok L T (SetWait E False ?s1)"
      using s1 2 by (simp add: session_ok_def in_step_def timed_def locks_owned_def command_ok_def)
    then show ?thesis using 2 s1(4) by (simp add: skip_reply_def Let_def)
  next
    case 3
    have "before_send L (SetWait E False ?s1)"
      using s1 3 by (simp add: before_send_def locks_owned_def command_ok_def)
    from fits_send [OF E this] show ?thesis using 3 s1(5) by (simp add: skip_reply_def Let_def)
  qed
qed

lemma reply_codes_flags:
  "res \<in> {FZ_REPLY_ERROR, FZ_REPLY_INTERNALERROR, FZ_REPLY_LINKNOTDIR} \<Longrightarrow>
     \<not> code_has res FZ_REPLY_DISCONNECTED \<and> code_has res FZ_REPLY_ERROR \<and> res \<noteq> FZ_REPLY_OK \<and> res \<noteq> FZ_REPLY_CONTINUE"
  by (auto simp: code_has_def reply_codes)

lemma reply_OK_CONTINUE: "FZ_REPLY_CONTINUE \<noteq> FZ_REPLY_OK"
  by (simp add: reply_codes)

lemma reply_before:
  assumes ops: "fs_ops s = op # rest" and r: "op_ParseResponse E op s = (res, op1, child, s1)"
    and ok: "stack_shape (op # rest)" "locks_owned L s" "command_ok s" "fs_connected s"
      "fs_pendingReplies s = 0" "fs_repliesToSkip s = 0"
  shows "child = None" "res \<in> {FZ_REPLY_OK, FZ_REPLY_CONTINUE, FZ_REPLY_ERROR, FZ_REPLY_INTERNALERROR, FZ_REPLY_LINKNOTDIR}"
    "before_reset L code (put_top None op1 rest s1)" "fs_pendingReplies s1 = 0" "fs_repliesToSkip s1 = 0"
    "res = FZ_REPLY_CONTINUE \<Longrightarrow> before_send L (put_top None op1 rest s1)"
proof -
  have g: "child = None" "is_cwd op1 = is_cwd op" "op_opLock op1 = op_opLock op" "ended op1"
    "res = FZ_REPLY_CONTINUE \<longrightarrow> ready op1"
    "res \<in> {FZ_REPLY_OK, FZ_REPLY_CONTINUE, FZ_REPLY_ERROR, FZ_REPLY_INTERNALERROR, FZ_REPLY_LINKNOTDIR}"
    using op_ParseResponse_good [OF shape_cases(1) [OF ok(1) refl] r] by (simp_all add: reply_good_def)
  note f = quiet_fields [OF quiet_ParseResponse [OF r]] and put = shape_put [OF ok(1) g(2)]
  let ?s2 = "put_top None op1 rest s1"
  have lo: "locks_owned L ?s2" using ok(2) f ops g(3) by (simp add: locks_owned_def child_list_def)
  have co: "command_ok ?s2" using ok(3) f ops by (simp add: command_ok_def child_list_def)
  show "child = None" "res \<in> {FZ_REPLY_OK, FZ_REPLY_CONTINUE, FZ_REPLY_ERROR, FZ_REPLY_INTERNALERROR, FZ_REPLY_LINKNOTDIR}"
    "fs_pendingReplies s1 = 0" "fs_repliesToSkip s1 = 0"
    using g ok(5,6) f by simp_all
  show "before_reset L code ?s2" using put(2) [OF g(4)] lo co ok(4) f by (simp add: before_reset_def child_list_def)
  show "before_send L ?s2" if "res = FZ_REPLY_CONTINUE"
    using that g(5) put(1) lo co ok(4-6) f by (simp add: before_send_def child_list_def)
qed

text \<open>What holds after the next command was sent or the operation was reset holds after a reply.\<close>

lemma handle_reply_rule:
  assumes ops: "fs_ops s = op # rest" and r: "op_ParseResponse E op s = (res, op1, child, s1)"
    and ok: "stack_shape (op # rest)" "locks_owned L s" "command_ok s" "fs_connected s"
      "fs_pendingReplies s = 0" "fs_repliesToSkip s = 0"
    and reset: "\<And>code. P (ResetOperation E code (put_top None op1 rest s1))"
    and send: "res = FZ_REPLY_CONTINUE \<Longrightarrow> P (SendNextCommand E (put_top None op1 rest s1))"
  shows "P (handle_reply E s)"
  using reply_before(1,2) [OF ops r ok] reset send reply_codes_flags [of res] reply_OK_CONTINUE
  by (auto simp: handle_reply_def ops r Let_def)

lemma handle_reply_ok:
  assumes E: "env_fits L T E" and ops: "fs_ops s = op # rest"
    and ok: "stack_shape (op # rest)" "locks_owned L s" "command_ok s" "fs_connected s"
      "fs_pendingReplies s = 0" "fs_repliesToSkip s = 0"
  shows "session_ok L T (handle_reply E s)"
proof -
  obtain res op1 child s1 where r: "op_ParseResponse E op s = (res, op1, child, s1)" by (metis prod_cases4)
  note before = reply_before [OF ops r ok]
  show ?thesis by (rule handle_reply_rule [OF ops r ok]) (use fits_reset [OF E before(3)] fits_send [OF E before(6)] in simp_all)
qed

lemma ParseResponse_rule:
  assumes ok: "session_ok L T s" and final: "\<not> preliminary (fs_Response s)" and same: "P s"
    and handle: "\<And>op rest. fs_ops s = op # rest \<Longrightarrow> fs_pendingReplies s = 1 \<Longrightarrow> fs_repliesToSkip s = 0 \<Longrightarrow>
      P (handle_reply E (s\<lparr>fs_pendingReplies := 0\<rparr>))"
    and skip: "0 < fs_pendingReplies s \<Longrightarrow> fs_repliesToSkip s = fs_pendingReplies s \<Longrightarrow>
      P (skip_reply E False (s\<lparr>fs_pendingReplies := fs_pendingReplies s - 1\<rparr>))"
  shows "P (ParseResponse E s)"
proof (cases "fs_Response s = [] \<or> fs_pendingReplies s = 0")
  case True
  then show ?thesis using same final by (auto simp: ParseResponse_def Let_def)
next
  case False
  have step: "in_step L s" using ok by (simp add: session_ok_def)
  show ?thesis
  proof (cases "fs_repliesToSkip s = 0")
    case True
    then obtain op rest where ops: "fs_ops s = op # rest" using step False by (auto simp: in_step_def split: list.splits)
    then have "fs_pendingReplies s = 1" using step False True by (auto simp: in_step_def in_reply_def)
    then show ?thesis using handle [OF ops] False final True by (simp add: ParseResponse_def Let_def)
  next
    case t: False
    then have "fs_repliesToSkip s = fs_pendingReplies s" using step by (simp add: in_step_def)
    then show ?thesis using skip False final t by (simp add: ParseResponse_def Let_def)
  qed
qed

lemma ParseResponse_ok:
  assumes E: "env_fits L T E" and ok: "session_ok L T s" "fs_connected s" and final: "\<not> preliminary (fs_Response s)"
  shows "session_ok L T (ParseResponse E s)"
proof (rule ParseResponse_rule [where P = "session_ok L T", OF ok(1) final ok(1)])
  have inv: "stack_shape (fs_ops s)" "locks_owned L s" "command_ok s" "timed T s" using ok by (simp_all add: session_ok_def)
  have s1: "locks_owned L (s\<lparr>fs_pendingReplies := n\<rparr>)" "command_ok (s\<lparr>fs_pendingReplies := n\<rparr>)" for n
    using inv by (simp_all add: locks_owned_def command_ok_def)
  show "session_ok L T (handle_reply E (s\<lparr>fs_pendingReplies := 0\<rparr>))"
    if "fs_ops s = op # rest" "fs_pendingReplies s = 1" "fs_repliesToSkip s = 0" for op rest
    by (rule handle_reply_ok [OF E]) (use that inv(1) s1 ok in simp_all)
  assume skip: "0 < fs_pendingReplies s" "fs_repliesToSkip s = fs_pendingReplies s"
  then have "timed T (s\<lparr>fs_pendingReplies := fs_pendingReplies s - 1\<rparr>)" using inv(4) by (auto simp: timed_def split: list.splits)
  then show "session_ok L T (skip_reply E False (s\<lparr>fs_pendingReplies := fs_pendingReplies s - 1\<rparr>))"
    using inv(1) s1 ok(2) skip by (intro skip_reply_ok [OF E]) simp_all
qed

lemma on_response_ok:
  assumes "env_fits L T E" "session_ok L T s" "fs_connected s" "\<not> preliminary line"
  shows "session_ok L T (on_response E line s)"
  using ParseResponse_ok [OF assms(1), of "s\<lparr>fs_Response := line\<rparr>"] assms by (simp add: on_response_def)

lemma ParseLine_ok:
  assumes "env_fits L T E" "session_ok L T s" "fs_connected s" "\<not> preliminary line"
  shows "session_ok L T (ParseLine E line s)"
  using on_response_ok [OF assms(1) _ _ assms(4), of "SetAlive E s"] on_response_ok [OF assms(1) _ _ assms(4), of "(SetAlive E s)\<lparr>fs_MultilineCode := []\<rparr>"]
    fits_close [OF assms(1), of T "SetAlive E s"] assms(2,3)
  by (simp add: ParseLine_def Let_def) (simp add: SetAlive_def)

subsection \<open>The other events\<close>

lemma OnSend_ok:
  assumes "env_fits L T E" "session_ok L T s"
  shows "session_ok L T (OnSend E ws s)"
  using assms(2)
proof (induction ws arbitrary: s)
  case (Cons w ws)
  then show ?case using fits_close_default [OF assms(1)] by (cases w) auto
qed simp

lemma Execute_ok: "session_ok L T s \<Longrightarrow> session_ok L T (snd (Execute c s))"
  by (cases "fs_ops s") (auto simp: Execute_def session_ok_def locks_owned_def command_ok_def in_step_def in_reply_def timed_def)

lemma OnCommandEvent_before:
  assumes ok: "session_ok L T s" "fs_connected s" "0 < fs_commandEvents s"
  shows "\<exists>c. fs_currentCommand s = Some c \<and> fs_ops s = [] \<and> fs_commandEvents s = 1 \<and>
    before_send L (Push (command_op c) (s\<lparr>fs_commandEvents := 0\<rparr>))"
proof -
  have inv: "locks_owned L s" "command_ok s" "in_step L s" using ok by (simp_all add: session_ok_def)
  then obtain c where c: "fs_currentCommand s = Some c" "fs_ops s = []" "fs_commandEvents s = 1" "command_valid c"
    using ok(2,3) by (auto simp: command_ok_def split: if_splits)
  have "op_opLock (command_op c) = None"
    by (cases c) (simp_all add: Delete_op_def RemoveDir_op_def Mkdir_op_def Rename_op_def Chmod_op_def RawCommand_op_def)
  then have "before_send L (Push (command_op c) (s\<lparr>fs_commandEvents := 0\<rparr>))"
    using inv c ok(2) command_op_ready [OF c(4)]
    by (cases "fs_repliesToSkip s = 0")
      (simp_all add: before_send_def Push_def stack_shape_def locks_owned_def command_ok_def in_step_def)
  with c show ?thesis by blast
qed

lemma OnCommandEvent_ok:
  assumes "env_fits L T E" "session_ok L T s" "fs_connected s" "0 < fs_commandEvents s"
  shows "session_ok L T (OnCommandEvent E s)"
  using OnCommandEvent_before [OF assms(2-4)] fits_send [OF assms(1)] by (auto simp: OnCommandEvent_def)

lemma OnTimer_ok:
  assumes E: "env_fits L T E" and ok: "session_ok L T s"
  shows "session_ok L T (OnTimer E s)"
proof -
  have f: "session_ok L False (s\<lparr>fs_timer := b\<rparr>)" "session_ok L T (s\<lparr>fs_timer := True\<rparr>)" for b
    using ok by (cases "fs_ops s"; simp add: session_ok_def locks_owned_def command_ok_def in_step_def in_reply_def timed_def)+
  have "session_ok L T (s\<lparr>fs_timer := False\<rparr>)" if "\<not> T"
    using f(1) [of False] that by simp
  then show ?thesis
    using E f fits_close [OF E f(1)] by (auto simp: OnTimer_def Let_def env_fits_def)
qed

lemma OnIdleTimer_ok:
  assumes E: "env_fits L T E" and ok: "session_ok L T s" "fs_idleTimer s"
  shows "session_ok L T (OnIdleTimer E s)"
proof -
  let ?s = "s\<lparr>fs_idleTimer := False\<rparr>"
  have s: "session_ok L T ?s" "fs_connected ?s"
    using ok by (cases "fs_ops s"; simp add: session_ok_def locks_owned_def command_ok_def in_step_def in_reply_def timed_def)+
  obtain res s1 where r: "SendCommand E (keepalive_command E ?s) ?s = (res, s1)" by fastforce
  show ?thesis
  proof (cases "fs_ops s = [] \<and> fs_pendingReplies s = 0 \<and> fs_repliesToSkip s = 0")
    case True
    from SendCommand_spec [OF r s(2)] show ?thesis
    proof
      assume a: "res = FZ_REPLY_WOULDBLOCK \<and> commanded E (keepalive_command E ?s) ?s s1"
      note f = commanded_fields [OF conjunct2 [OF a]]
      have "\<not> fs_idleTimer s1"
        using r by (auto simp: SendCommand_def RealSend_def SetWait_def SetAlive_def Let_def case_prod_beta
            split: if_splits write_result.splits)
      then have "session_ok L T (s1\<lparr>fs_repliesToSkip := fs_repliesToSkip s1 + 1\<rparr>)"
        using s f True by (simp add: session_ok_def stack_shape_def locks_owned_def command_ok_def in_step_def timed_def)
      then show ?thesis using True r a by (simp add: OnIdleTimer_def)
    next
      assume "res = FZ_REPLY_ERROR \<and> s1 = ?s"
      then show ?thesis using True r fits_close [OF E s(1)] by (simp add: OnIdleTimer_def reply_codes)
    qed
  next
    case False
    then show ?thesis using s(1) by (auto simp: OnIdleTimer_def Let_def)
  qed
qed

lemma Cancel_before: "session_ok L T s \<Longrightarrow> fs_ops s \<noteq> [] \<Longrightarrow> before_reset L FZ_REPLY_CANCELED s"
  using session_ok_connected by (auto simp: before_reset_def session_ok_def stack_open)

lemma Cancel_ok: "env_fits L T E \<Longrightarrow> session_ok L T s \<Longrightarrow> session_ok L T (DoCancel E s)"
  using fits_reset Cancel_before by (simp add: DoCancel_def Cancel_def)

lemma OnObtainLock_before:
  assumes ok: "session_ok L T s" and o: "OpLock_ObtainWaiting L (fs_locks s) (fs_socket s) = (m, got)"
  shows "if got then before_send L (s\<lparr>fs_locks := m\<rparr>) else m = fs_locks s"
proof -
  have lo: "locks_owned L s" using ok by (simp add: session_ok_def)
  note own = Obtain_owner [OF conjunct1 [OF lo [unfolded locks_owned_def]] o]
  show ?thesis
  proof (cases got)
    case True
    then obtain h where h: "h \<in> op_handles (fs_ops s)" "OpLock_Waiting (fs_locks s) h"
      using own(3) lo by (auto simp: locks_owned_def)
    then obtain op rest where ops: "fs_ops s = op # rest" by (cases "fs_ops s") auto
    have shape: "stack_shape (op # rest)" using ok ops by (simp add: session_ok_def)
    have "op_opLock op = Some h"
    proof (cases "rest = []")
      case True
      then show ?thesis using h ops by (cases "op_opLock op") auto
    next
      case False
      then have "op_handles (op # rest) = {}"
        using open_shape_two [OF stack_open [OF shape]] unlocked(2) by auto
      then show ?thesis using h ops by simp
    qed
    then have "lock_waiting (op_opLock op) s" using h by (simp add: lock_waiting_def)
    then have "fs_repliesToSkip s = fs_pendingReplies s"
      using ok ops by (cases "fs_repliesToSkip s = 0") (auto simp: session_ok_def in_step_def in_reply_def)
    moreover have "fs_connected s" using session_ok_connected [OF ok] ops by simp
    ultimately have "before_send L (s\<lparr>fs_locks := m\<rparr>)"
      using ok ops own(1,2) lo by (simp add: before_send_def session_ok_def locks_owned_def command_ok_def)
    then show ?thesis using True by simp
  next
    case False
    then show ?thesis using own(4) by simp
  qed
qed

lemma OnObtainLock_ok:
  assumes E: "env_fits L T E" and ok: "session_ok L T s"
  shows "session_ok L T (OnObtainLock E s)"
proof -
  obtain m got where o: "OpLock_ObtainWaiting L (fs_locks s) (fs_socket s) = (m, got)" by fastforce
  show ?thesis using OnObtainLock_before [OF ok o] fits_send [OF E] ok o E
    by (auto simp: OnObtainLock_def env_fits_def split: if_splits)
qed

lemma others_ok:
  assumes "others_acted L s s'" "session_ok L T s"
  shows "session_ok L T s'"
proof -
  obtain dc pc m where s': "s' = s\<lparr>fs_dc := dc, fs_pc := pc, fs_locks := m\<rparr>" and m: "lock_table_ok L m"
    "own_locks (fs_socket s) m = own_locks (fs_socket s) (fs_locks s)"
    "\<forall>h \<in> own_locks (fs_socket s) m. OpLock_Waiting m h = OpLock_Waiting (fs_locks s) h"
    using assms(1) by (auto simp: others_acted_def)
  have lw: "lock_waiting (op_opLock op) s' = lock_waiting (op_opLock op) s" if "op \<in> set (fs_ops s)" for op
    using that assms(2) m by (auto simp: s' lock_waiting_def session_ok_def locks_owned_def op_handles_def split: option.splits)
  have "in_step L s'" "timed T s'"
    using assms(2) lw by (auto simp: session_ok_def in_step_def in_reply_def timed_def s' split: list.splits)
  then show ?thesis using assms(2) m by (simp add: session_ok_def s' locks_owned_def command_ok_def)
qed

lemma OnInvalidate_ok: "session_ok L T s \<Longrightarrow> session_ok L T (OnInvalidateCurrentWorkingDir E server path s)"
  by (simp add: OnInvalidateCurrentWorkingDir_def clear_currentPath_def)

subsection \<open>Reachable sessions\<close>

lemma start_ok: "ftp_start L s \<Longrightarrow> session_ok L T s"
  by (simp add: ftp_start_def session_ok_def stack_shape_def locks_owned_def command_ok_def in_step_def timed_def)

lemma step_ok:
  assumes "ftp_step V R s s'" "session_ok L T s" "\<And>E. V E \<Longrightarrow> env_fits L T E" "\<And>line. R line \<Longrightarrow> \<not> preliminary line"
  shows "session_ok L T s'"
  using assms(1)
proof (cases rule: ftp_step.cases)
  case (st_others E)
  then show ?thesis using others_ok assms(2,3) by (auto simp: env_fits_def)
qed (use assms Execute_ok OnCommandEvent_ok ParseLine_ok OnSend_ok fits_close_default OnTimer_ok OnIdleTimer_ok Cancel_ok
    OnObtainLock_ok OnInvalidate_ok in \<open>auto simp: OnSocketError_def\<close>)

lemma reachable_ok:
  assumes "ftp_reachable V R L s" "\<And>E. V E \<Longrightarrow> env_fits L T E" "\<And>line. R line \<Longrightarrow> \<not> preliminary line"
  shows "session_ok L T s"
  using assms(1) by (induction rule: ftp_reachable.induct) (use start_ok step_ok [OF _ _ assms(2,3)] in blast)+

end
