(* ===== verification/Ftp_Answer.thy ===== *)
theory Ftp_Answer
  imports Ftp_Sync_Steps
begin

text \<open>
  Every command gets exactly one result: each final reply brings the operation closer to its end,
  by the weight of the stack and the number of replies left to skip.
\<close>

subsection \<open>The weight shrinks\<close>

interpretation weight: stack_rules E "\<lambda>s. stack_weight s \<le> n" "\<lambda>code s. stack_weight s \<le> n"
  "\<lambda>prev old s. stack_weight s \<le> n" "\<lambda>s. stack_weight s \<le> n" for E n
proof (unfold_locales, goal_cases)
  case (2 s op rest)
  then show ?case by (simp add: stack_weight_def)
next
  case (3 s op rest op1 child s1)
  then show ?case using op_Send_weight(1) [OF 3(4)] by (simp add: stack_weight_ops)
next
  case (4 s op rest op1 child s1)
  then show ?case using op_Send_weight(1) [OF 4(4)] by (simp add: stack_weight_ops)
next
  case (5 s op rest res op1 child s1)
  then show ?case using op_Send_weight(1) [OF 5(4)] by (simp add: stack_weight_ops)
next
  case (12 prev old s op rest op1)
  then show ?case using op_SubcommandResult_weight [OF 12(3)] by (simp add: stack_weight_ops child_list_def)
next
  case (13 prev old s op rest op1)
  then show ?case using op_SubcommandResult_weight [OF 13(3)] by (simp add: stack_weight_ops child_list_def)
next
  case (14 prev old s op rest res op1)
  then show ?case using op_SubcommandResult_weight [OF 14(3)] by (simp add: stack_weight_ops child_list_def)
qed (simp_all add: stack_weight_def)

lemma weight_send: "stack_weight (SendNextCommand E s) \<le> stack_weight s"
  by (rule weight.stack_facts(1)) simp

lemma weight_reset:
  assumes "fs_ops s = op # rest"
  shows "stack_weight (ResetOperation E code s) \<le> sum_list (map op_weight rest)"
proof -
  let ?s = "ftp_ResetOperation_pre E code s" and ?n = "sum_list (map op_weight rest)"
  let ?s1 = "snd (op_Reset code op (pop_op rest ?s))"
  have w: "stack_weight ?s1 \<le> ?n" "stack_weight (FinalizeResetOperation (destroy_op op ?s1)) \<le> ?n"
    "stack_weight (destroy_op op ?s1) \<le> ?n"
    by (simp_all add: stack_weight_def)
  note facts = weight.stack_facts(3) [OF w(1)] weight.stack_facts(2) [OF w(3)] weight.stack_facts(1) [OF w(2)]
  show ?thesis
    using facts assms by (simp add: ResetOperation.simps [of E code s] Let_def case_prod_beta) (simp add: stack_weight_def)
qed

lemma cwd_reply_weight:
  assumes "op_data op = CwdOp d" "ready op" "cw_state d \<noteq> cwd_init" "cwd_ParseResponse E d op s = (FZ_REPLY_CONTINUE, op1, child, s1)"
  shows "op_weight op1 < op_weight op"
  using assms
  by (cases "cw_state d")
    (auto simp: cwd_ParseResponse_def cwd_Parse_cwd_def cwd_Parse_pwd_cwd_def cwd_Parse_subdir_def cwd_Parse_pwd_subdir_def
      Let_def op_weight_def cwd_weight_def shape_defs reply_codes split: if_splits prod.splits)

lemma mkd_reply_weight:
  assumes "op_data op = MkdirOp d" "ready op" "mkd_state d \<noteq> mkd_init" "mkd_ParseResponse E d op s = (FZ_REPLY_CONTINUE, op1, child, s1)"
  shows "op_weight op1 < op_weight op"
proof (cases "mkd_state d")
  case mkd_findparent
  then show ?thesis using assms SegmentCount_GetParent [of "mkd_currentMkdPath d"]
    by (auto simp: mkd_ParseResponse_def mkd_Parse_findparent_def op_weight_def mkd_weight_def split: if_splits)
next
  case mkd_mkdsub
  then have "mkd_segments d \<noteq> []" using assms(1,2) by (simp add: shape_defs)
  then show ?thesis using assms mkd_mkdsub
    by (cases "mkd_segments d")
      (auto simp: mkd_ParseResponse_def mkd_Parse_mkdsub_def mkd_created_def Let_def op_weight_def mkd_weight_def reply_codes
        split: if_splits prod.splits)
qed (use assms in \<open>auto simp: mkd_ParseResponse_def op_weight_def mkd_weight_def reply_codes split: if_splits\<close>)

lemma reply_weight:
  assumes "ready op" "awaits L op \<noteq> None" "op_ParseResponse E op s = (FZ_REPLY_CONTINUE, op1, child, s1)"
  shows "op_weight op1 < op_weight op"
proof (cases "op_data op")
  case (CwdOp d)
  then show ?thesis using assms cwd_reply_weight [of op d E s op1 child s1]
    by (auto simp: op_ParseResponse_def awaits_def cwd_awaits_def split: cwdStates.splits)
next
  case (DeleteOp d)
  have "del_state (fst (delete_success E d s)) = del_state d \<and> del_files (fst (delete_success E d s)) = del_files d"
    by (simp add: delete_success_def Let_def split: option.splits)
  moreover have "del_state d = del_del" "del_files d \<noteq> []" using assms(1,2) DeleteOp by (auto simp: awaits_def shape_defs split: if_splits)
  ultimately show ?thesis using assms(3) DeleteOp
    by (auto simp: op_ParseResponse_def delete_ParseResponse_def Let_def case_prod_beta op_weight_def reply_codes split: if_splits)
next
  case (RemoveDirOp d)
  then show ?thesis using assms(3) by (auto simp: op_ParseResponse_def rmd_ParseResponse_def reply_codes split: if_splits)
next
  case (RenameOp d)
  then show ?thesis using assms(3)
    by (auto simp: op_ParseResponse_def rename_ParseResponse_def Let_def op_weight_def reply_codes split: if_splits)
next
  case (MkdirOp d)
  then show ?thesis using assms mkd_reply_weight [of op d E s op1 child s1]
    by (auto simp: op_ParseResponse_def awaits_def mkd_awaits_def split: mkdStates.splits)
next
  case (ChmodOp d)
  then show ?thesis using assms(3) by (auto simp: op_ParseResponse_def chmod_ParseResponse_def Let_def reply_codes split: if_splits)
next
  case (RawOp c)
  then show ?thesis using assms(3) by (auto simp: op_ParseResponse_def raw_ParseResponse_def reply_codes split: if_splits)
qed

lemma handle_reply_weight:
  assumes "fs_ops s = op # rest" "ready op" "awaits L op \<noteq> None"
  shows "stack_weight (handle_reply E s) < stack_weight s"
proof -
  obtain res op1 child s1 where r: "op_ParseResponse E op s = (res, op1, child, s1)" by (metis prod_cases4)
  have g: "child = None" "res \<in> {FZ_REPLY_OK, FZ_REPLY_CONTINUE, FZ_REPLY_ERROR, FZ_REPLY_INTERNALERROR, FZ_REPLY_LINKNOTDIR}"
    using op_ParseResponse_good [OF assms(2) r] by (simp_all add: reply_good_def)
  let ?s2 = "put_top None op1 rest s1"
  have ops: "fs_ops ?s2 = op1 # rest" by (simp add: child_list_def)
  have s: "stack_weight s = op_weight op + sum_list (map op_weight rest)" by (rule stack_weight_ops [OF assms(1)])
  have reset: "stack_weight (ResetOperation E code ?s2) < stack_weight s" for code
    using weight_reset [OF ops, of E code] op_weight_pos [of op] s by simp
  have send: "stack_weight (SendNextCommand E ?s2) < stack_weight s" if "res = FZ_REPLY_CONTINUE"
    using weight_send [of E ?s2] reply_weight [OF assms(2,3), of E s op1 child s1] r that s by (simp add: child_list_def)
  show ?thesis
    using g reset send reply_codes_flags [of res] reply_OK_CONTINUE
    by (auto simp: handle_reply_def assms(1) r Let_def)
qed

subsection \<open>One result per command\<close>

text \<open>From one session to a later one, the command either is still running or has its result.\<close>

definition answered :: "ftp_session \<Rightarrow> ftp_session \<Rightarrow> bool" where
  "answered s s' \<longleftrightarrow>
     fs_currentCommand s' = fs_currentCommand s \<and> fs_results s' = fs_results s \<or>
     fs_currentCommand s' = None \<and>
       (\<exists>c code. fs_currentCommand s = Some c \<and> fs_results s' = fs_results s @ [(code, command_id c)])"

lemma answered_refl [simp]: "answered s s"
  by (simp add: answered_def)

lemma answered_trans: "answered s s1 \<Longrightarrow> answered s1 s2 \<Longrightarrow> answered s s2"
  unfolding answered_def by (elim disjE conjE exE) simp_all

lemma answered_same:
  "fs_currentCommand s1 = fs_currentCommand s \<Longrightarrow> fs_results s1 = fs_results s \<Longrightarrow> answered s s1"
  by (simp add: answered_def)

definition same_result :: "ftp_session \<Rightarrow> ftp_session \<Rightarrow> bool" where
  "same_result s s1 \<longleftrightarrow> fs_currentCommand s1 = fs_currentCommand s \<and> fs_results s1 = fs_results s"

lemma same_result_upd [simp]:
  "same_result s (s1\<lparr>fs_ops := x0\<rparr>) = same_result s s1" "same_result s (s1\<lparr>fs_currentPath := x1\<rparr>) = same_result s s1"
  "same_result s (s1\<lparr>fs_dc := x2\<rparr>) = same_result s s1" "same_result s (s1\<lparr>fs_pc := x3\<rparr>) = same_result s s1"
  "same_result s (s1\<lparr>fs_notes := x4\<rparr>) = same_result s s1" "same_result s (s1\<lparr>fs_invalidations := x5\<rparr>) = same_result s s1"
  "same_result s (s1\<lparr>fs_lastTypeBinary := x6\<rparr>) = same_result s s1" "same_result s (s1\<lparr>fs_locks := x7\<rparr>) = same_result s s1"
  "same_result s (s1\<lparr>fs_wakeups := x8\<rparr>) = same_result s s1" "same_result s (s1\<lparr>fs_invalidateCurrentPath := x9\<rparr>) = same_result s s1"
  by (simp_all add: same_result_def)

lemma same_result_effects [simp]:
  "same_result s (clear_currentPath s1) = same_result s s1" "same_result s (InvalidateCurrentWorkingDirs p s1) = same_result s s1"
  "same_result s (rmd_invalidate E d p s1) = same_result s s1" "same_result s (rename_invalidate E c s1) = same_result s s1"
  "same_result s (snd (ftp_Lock E r p s1)) = same_result s s1" "same_result s (SendDirectoryListingNotification p s1) = same_result s s1"
  by (simp_all add: clear_currentPath_def InvalidateCurrentWorkingDirs_def rmd_invalidate_def rename_invalidate_def ftp_Lock_def
      SendDirectoryListingNotification_def Let_def case_prod_beta)

lemma same_result_send [simp]: "same_result s (snd (snd (snd (send_and_return E cmd op s1)))) = same_result s s1"
proof -
  have "fs_currentCommand (snd (SendCommand E cmd s1)) = fs_currentCommand s1 \<and> fs_results (snd (SendCommand E cmd s1)) = fs_results s1"
    using RealSend_fields [of E "fe_ConvToServer E cmd @ [CHR 0x0D, CHR 0x0A]" s1]
    by (simp add: SendCommand_def Let_def case_prod_beta)
  then show ?thesis by (simp add: send_and_return_simps same_result_def)
qed

lemma same_result_op_Send: "same_result s (snd (snd (snd (op_Send E op s))))"
proof -
  have refl: "same_result s s" by (simp add: same_result_def)
  show ?thesis
  proof (cases "op_data op")
    case (CwdOp d)
    then show ?thesis using refl
      by (auto simp: op_Send_def cwd_Send_def cwd_Send_cwd_def cwd_Send_subdir_def Let_def case_prod_beta split: cwdStates.splits)
  next
    case (DeleteOp d)
    then show ?thesis using refl by (auto simp: op_Send_def delete_Send_def Let_def split: delStates.splits)
  next
    case (RemoveDirOp d)
    then show ?thesis using refl
      by (auto simp: op_Send_def rmd_Send_def Let_def case_prod_beta split: rmdStates.splits option.splits)
  next
    case (RenameOp d)
    then show ?thesis using refl by (auto simp: op_Send_def rename_Send_def Let_def split: renameStates.splits)
  next
    case (MkdirOp d)
    then show ?thesis using refl by (auto simp: op_Send_def mkd_Send_def Let_def case_prod_beta split: mkdStates.splits)
  next
    case (ChmodOp d)
    then show ?thesis using refl by (auto simp: op_Send_def chmod_Send_def Let_def split: chmodStates.splits)
  next
    case (RawOp c)
    then show ?thesis using refl by (simp add: op_Send_def raw_Send_def)
  qed
qed

interpretation results: session_frame answered
proof (unfold_locales, goal_cases)
  case (2 s s1 s2)
  then show ?case by (rule answered_trans)
next
  case (4 s E op)
  then show ?case using same_result_op_Send [of s E op] by (simp add: same_result_def answered_same)
next
  case (5 s E code)
  then show ?case
    by (intro answered_same) (simp_all add: ftp_ResetOperation_pre_def StartKeepaliveTimer_def Let_def split: option.splits)
next
  case (6 s)
  then show ?case by (intro answered_same) (simp_all add: FinalizeResetOperation_def clear_currentPath_def)
next
  case (7 s E w)
  then show ?case by (intro answered_same) (simp_all add: SetWait_def Let_def)
next
  case (8 s code)
  then show ?case by (auto simp: answered_def engine_ResetOperation_def split: option.splits)
next
  case (9 s code op)
  then show ?case
    by (intro answered_same) (simp_all add: op_Reset_def delete_Reset_def SendDirectoryListingNotification_def split: op_data.splits)
next
  case (10 s op)
  then show ?case by (intro answered_same) (simp_all add: destroy_op_def split: option.splits prod.splits)
qed (simp_all add: answered_same)

lemma answered_handle_reply: "answered s (handle_reply E s)"
proof (cases "fs_ops s")
  case (Cons op rest)
  obtain res op1 child s1 where r: "op_ParseResponse E op s = (res, op1, child, s1)" by (metis prod_cases4)
  have q: "answered s (put_top child op1 rest s1)"
    using quiet_ParseResponse [OF r] by (intro answered_same) (simp_all add: quiet_def put_top_def)
  have close: "answered s (DoClose E res (put_top child op1 rest s1))"
    unfolding DoClose_def
    by (rule answered_trans [OF answered_trans [OF q answered_same] results.R_stack(2)])
      (simp_all add: close_session_def ResetSocket_def clear_currentPath_def)
  show ?thesis
    using answered_trans [OF q results.R_stack(1)] answered_trans [OF q results.R_stack(2)] q close
    by (simp add: handle_reply_def Cons r Let_def)
qed (simp add: handle_reply_def)

subsection \<open>No replies are skipped without need\<close>

lemma op_Send_counters:
  assumes "before_send (fe_lib E) s" "fs_ops s = op # rest" "op_Send E op s = (res, op1, child, s1)"
  shows "fs_repliesToSkip s1 = fs_repliesToSkip s" "res \<noteq> FZ_REPLY_WOULDBLOCK \<Longrightarrow> fs_pendingReplies s1 = fs_pendingReplies s"
proof -
  have shape: "stack_shape (op # rest)" "fs_connected s" and lo: "locks_owned (fe_lib E) s"
    using assms(1,2) by (simp_all add: before_send_def)
  note sc = shape_cases [OF shape(1) refl]
  have g: "send_good E op s (res, op1, child, s1)" using op_Send_good [OF sc(1) shape(2), of E] assms(3) by simp
  then obtain s0 where took: "took_lock E op op1 s s0"
    and eff: "(\<exists>cmd. commanded E cmd s0 s1) \<or> s1 = s0 \<or> quiet s0 s1"
    and eff2: "res \<noteq> FZ_REPLY_WOULDBLOCK \<Longrightarrow> quiet s0 s1"
    unfolding send_good_def prod.case by (metis (full_types))
  obtain m where s0: "s0 = s\<lparr>fs_locks := m\<rparr>" using took_lock_owned [OF took lo assms(2) sc(2)] by auto
  show "fs_repliesToSkip s1 = fs_repliesToSkip s"
    using eff commanded_fields(4) quiet_fields(4) s0 by fastforce
  show "res \<noteq> FZ_REPLY_WOULDBLOCK \<Longrightarrow> fs_pendingReplies s1 = fs_pendingReplies s"
    using eff2 quiet_fields(2) s0 by fastforce
qed

interpretation unskipped: stack_rules E "\<lambda>s. before_send (fe_lib E) s \<and> fs_repliesToSkip s = 0"
  "\<lambda>code s. before_reset (fe_lib E) code s \<and> fs_pendingReplies s = 0"
  "\<lambda>prev old s. before_result (fe_lib E) old s \<and> fs_pendingReplies s = 0"
  "\<lambda>s. fs_repliesToSkip s = 0" for E
proof (unfold_locales, goal_cases)
  case (1 s)
  then show ?case by (simp add: before_send_def)
next
  case (3 s op rest op1 child s1)
  then show ?case using sync.Ready_continue [of E s op rest op1 child s1] op_Send_counters(1) [OF _ 3(2,4)] by simp
next
  case (4 s op rest op1 child s1)
  then show ?case using op_Send_counters(1) [OF _ 4(2,4)] by simp
next
  case (5 s op rest res op1 child s1)
  then have "res \<noteq> FZ_REPLY_WOULDBLOCK" "fs_pendingReplies s = 0" by (auto simp: reply_codes before_send_def)
  then show ?case using 5 sync.Ready_end [of E s op rest res op1 child s1] op_Send_counters(2) [OF _ 5(2,4)] by simp
next
  case (8 code s op rest s1)
  then show ?case using sync.Open_sub [of E code s op rest s1] by simp
next
  case (9 code s op rest s1)
  then show ?case using sync.Open_pop [of E code s op rest s1] by simp
next
  case (10 code s op rest s1)
  then have "open_shape (op # rest)" by (simp add: before_reset_def)
  from open_shape_two(3) [OF this 10(3)] show ?case using 10 by simp
next
  case (12 prev old s op rest op1)
  then show ?case using op_SubcommandResult_good(1) by (fastforce simp: before_result_def reply_codes)
next
  case (13 prev old s op rest op1)
  then show ?case using sync.Sub_continue [OF _ 13(2,3)] by (auto simp: before_result_def)
next
  case (14 prev old s op rest res op1)
  then show ?case using op_SubcommandResult_good(1) by (fastforce simp: before_result_def)
qed (simp_all add: before_reset_def before_send_def before_result_def)

subsection \<open>A reply brings the command closer to its result\<close>

definition final_line :: "wstring \<Rightarrow> bool" where
  "final_line l \<longleftrightarrow> 3 < length l \<and> \<not> preliminary l \<and> l ! 3 \<noteq> CHR ''-''"

definition waits_for_lock :: "ftp_session \<Rightarrow> bool" where
  "waits_for_lock s \<longleftrightarrow> fs_repliesToSkip s = 0 \<and> (\<exists>op rest. fs_ops s = op # rest \<and> lock_waiting (op_opLock op) s)"

text \<open>What still has to be received, at most.\<close>

definition remaining :: "ftp_session \<Rightarrow> nat" where
  "remaining s = stack_weight s + fs_repliesToSkip s"

lemma handle_reply_progress:
  assumes E: "env_fits L T E" and ops: "fs_ops s = op # rest"
    and ok: "stack_shape (op # rest)" "locks_owned L s" "command_ok s" "fs_connected s"
      "fs_pendingReplies s = 0" "fs_repliesToSkip s = 0" "awaits L op \<noteq> None"
  shows "remaining (handle_reply E s) < remaining s" "same_connection s (handle_reply E s)"
proof -
  have L: "fe_lib E = L" using E by (simp add: env_fits_def)
  obtain res op1 child s1 where r: "op_ParseResponse E op s = (res, op1, child, s1)" by (metis prod_cases4)
  note before = reply_before [OF ops r ok(1-6)] and rule = handle_reply_rule [OF ops r ok(1-6)]
  let ?s2 = "put_top None op1 rest s1"
  have same: "same_connection s ?s2" using quiet_ParseResponse [OF r] by (simp add: quiet_def)
  have "fs_repliesToSkip (ResetOperation E code ?s2) = 0" for code
    using before(3,4) L by (intro unskipped.stack_facts(2)) simp
  moreover have "fs_repliesToSkip (SendNextCommand E ?s2) = 0" if "res = FZ_REPLY_CONTINUE"
    using before(5,6) that L by (intro unskipped.stack_facts(1)) simp
  ultimately have "fs_repliesToSkip (handle_reply E s) = 0"
    by (intro rule [where P = "\<lambda>s. fs_repliesToSkip s = 0"])
  then show "remaining (handle_reply E s) < remaining s"
    using handle_reply_weight [OF ops shape_cases(1) [OF ok(1) refl] ok(7)] ok(6) by (simp add: remaining_def)
  show "same_connection s (handle_reply E s)"
    by (rule rule [where P = "same_connection s"])
      (rule same_connection_trans [OF same connection.R_stack(2)] same_connection_trans [OF same connection.R_stack(1)])+
qed

lemma skip_reply_progress:
  assumes E: "env_fits L T E" and ok: "stack_shape (fs_ops s)" "locks_owned L s" "command_ok s" "fs_connected s"
    "fs_repliesToSkip s = fs_pendingReplies s + 1" "fs_ops s \<noteq> []"
  shows "remaining (skip_reply E False s) < remaining s" "same_connection s (skip_reply E False s)"
proof -
  let ?s1 = "s\<lparr>fs_repliesToSkip := fs_repliesToSkip s - 1\<rparr>"
  have w: "stack_weight ?s1 = stack_weight s" "stack_weight (SetWait E False ?s1) = stack_weight s"
    by (simp_all add: stack_weight_def)
  have L: "fe_lib E = L" using E by (simp add: env_fits_def)
  have "fs_repliesToSkip (SendNextCommand E (SetWait E False ?s1)) = 0" if "fs_repliesToSkip ?s1 = 0"
    using ok that L by (intro unskipped.stack_facts(1)) (simp add: before_send_def locks_owned_def command_ok_def)
  then show "remaining (skip_reply E False s) < remaining s"
    using ok(5,6) w weight_send [of E "SetWait E False ?s1"] by (auto simp: skip_reply_def remaining_def Let_def)
  have "same_connection s (SetWait E False ?s1)" by simp
  from this same_connection_trans [OF this connection.R_stack(1) [of _ E]] show "same_connection s (skip_reply E False s)"
    using ok(6) by (cases "fs_repliesToSkip s - 1") (simp_all add: skip_reply_def Let_def)
qed

lemma reply_progress:
  assumes E: "env_fits L T E" and ok: "session_ok L T s" "fs_connected s" "fs_ops s \<noteq> []" "\<not> waits_for_lock s"
    and r: "fs_Response s \<noteq> []" "\<not> preliminary (fs_Response s)"
  shows "remaining (ParseResponse E s) < remaining s" "same_connection s (ParseResponse E s)"
    "answered s (ParseResponse E s)"
proof -
  let ?s1 = "s\<lparr>fs_pendingReplies := fs_pendingReplies s - 1\<rparr>"
  have inv: "stack_shape (fs_ops s)" "locks_owned L s" "command_ok s" "in_step L s"
    using ok by (simp_all add: session_ok_def)
  have s1: "locks_owned L ?s1" "command_ok ?s1" "remaining ?s1 = remaining s"
    using inv by (simp_all add: locks_owned_def command_ok_def remaining_def stack_weight_def)
  obtain op rest where ops: "fs_ops s = op # rest" using ok(3) by (cases "fs_ops s") auto
  have pend: "0 < fs_pendingReplies s"
    using inv(4) ops ok(4) by (cases "fs_repliesToSkip s = 0") (auto simp: in_step_def in_reply_def waits_for_lock_def)
  have same1: "same_connection s ?s1" "answered s ?s1" by (simp_all add: answered_same)
  have "remaining (ParseResponse E s) < remaining s \<and> same_connection s (ParseResponse E s) \<and> answered s (ParseResponse E s)"
  proof (cases "fs_repliesToSkip s = 0")
    case True
    then have "in_reply L s op" using inv(4) ops by (simp add: in_step_def)
    then have aw: "fs_pendingReplies s = 1" "awaits L op \<noteq> None" using pend by (auto simp: in_reply_def)
    have "fs_ops ?s1 = op # rest" "stack_shape (op # rest)" "fs_connected ?s1" "fs_pendingReplies ?s1 = 0" "fs_repliesToSkip ?s1 = 0"
      using ops inv(1) ok(2) aw(1) True by simp_all
    note h = handle_reply_progress [OF E this(1,2) s1(1,2) this(3-5) aw(2)]
    show ?thesis
      using h s1(3) same_connection_trans [OF same1(1) h(2)] answered_trans [OF same1(2) answered_handle_reply] pend r True
      by (simp add: ParseResponse_def Let_def)
  next
    case False
    then have "fs_repliesToSkip s = fs_pendingReplies s" using inv(4) by (simp add: in_step_def)
    then have "stack_shape (fs_ops ?s1)" "fs_connected ?s1" "fs_repliesToSkip ?s1 = fs_pendingReplies ?s1 + 1" "fs_ops ?s1 \<noteq> []"
      using pend inv(1) ok(2,3) by simp_all
    note h = skip_reply_progress [OF E this(1) s1(1,2) this(2-4)]
    have "answered ?s1 (skip_reply E False ?s1)"
      using answered_trans [OF answered_same results.R_stack(1)]
      by (auto simp: skip_reply_def Let_def SetWait_def StartKeepaliveTimer_def answered_same split: option.splits)
    then show ?thesis
      using h s1(3) same_connection_trans [OF same1(1) h(2)] answered_trans [OF same1(2)] pend r False
      by (simp add: ParseResponse_def Let_def)
  qed
  then show "remaining (ParseResponse E s) < remaining s" "same_connection s (ParseResponse E s)" "answered s (ParseResponse E s)"
    by simp_all
qed

lemma remaining_upd [simp]:
  "remaining (s\<lparr>fs_Response := r\<rparr>) = remaining s" "remaining (s\<lparr>fs_lastActivity := t\<rparr>) = remaining s"
  by (simp_all add: remaining_def stack_weight_def)

lemma answered_upd [simp]:
  "answered s (s1\<lparr>fs_Response := r\<rparr>) = answered s s1" "answered (s\<lparr>fs_Response := r\<rparr>) s1 = answered s s1"
  "answered (s\<lparr>fs_lastActivity := t\<rparr>) s1 = answered s s1"
  by (simp_all add: answered_def)

text \<open>One more final reply.\<close>

lemma line_progress:
  assumes E: "env_fits L T E" and ok: "session_ok L T s" "fs_connected s" "fs_MultilineCode s = []" "fs_ops s \<noteq> []"
    "\<not> waits_for_lock s" and l: "final_line l"
  shows "remaining (ParseLine E l s) < remaining s" "session_ok L T (ParseLine E l s)" "fs_connected (ParseLine E l s)"
    "fs_MultilineCode (ParseLine E l s) = []" "answered s (ParseLine E l s)"
    "fs_commandEvents (ParseLine E l s) = fs_commandEvents s"
proof -
  let ?s1 = "(SetAlive E s)\<lparr>fs_Response := l\<rparr>"
  have eq: "ParseLine E l s = (ParseResponse E ?s1)\<lparr>fs_Response := []\<rparr>"
    using l ok(3) by (simp add: ParseLine_def on_response_def final_line_def SetAlive_def)
  have s1: "session_ok L T ?s1" "fs_connected ?s1" "fs_ops ?s1 \<noteq> []" "\<not> waits_for_lock ?s1" "fs_Response ?s1 \<noteq> []"
    "\<not> preliminary (fs_Response ?s1)" "remaining ?s1 = remaining s" "fs_MultilineCode ?s1 = []"
    using ok l by (auto simp: SetAlive_def final_line_def waits_for_lock_def)
  note p = reply_progress [OF E s1(1-6)]
  show "remaining (ParseLine E l s) < remaining s" "fs_connected (ParseLine E l s)" "fs_MultilineCode (ParseLine E l s) = []"
    "fs_commandEvents (ParseLine E l s) = fs_commandEvents s"
    using p(1,2) s1(2,7,8) by (auto simp: eq same_connection_def SetAlive_def)
  show "answered s (ParseLine E l s)" using p(3) by (simp add: eq SetAlive_def)
  show "session_ok L T (ParseLine E l s)" using ParseLine_ok [OF E ok(1,2)] l by (simp add: final_line_def)
qed

end
