(* ===== verification/Ftp_Props.thy ===== *)
theory Ftp_Props
  imports Ftp_Answer Dir_Cache_Props
begin

text \<open>
  The properties of an FTP connection as a whole: commands and replies stay in step, locks and the
  engine's command are given up with the operation, every command gets its result, and listings that
  a command changes are not served any more.
\<close>

subsection \<open>A connection to try things on\<close>

definition plain_env :: ftp_env where
  "plain_env = \<lparr>fe_lib = libfz_std, fe_ConvToServer = (\<lambda>t. t), fe_ConvToLocal = (\<lambda>t. t),
     fe_str_tolower_ascii = (\<lambda>t. t), fe_write = Written 1000, fe_now = 10, fe_timeout = 20,
     fe_sendKeepalive = False, fe_random = 0\<rparr>"

definition fresh_session :: ftp_session where
  "fresh_session = \<lparr>fs_ops = [], fs_server = sample_server, fs_connected = True, fs_currentPath = CServerPath_default,
     fs_invalidateCurrentPath = False, fs_repliesToSkip = 0, fs_pendingReplies = 0, fs_Response = [],
     fs_MultilineCode = [], fs_MultilineLines = [], fs_receiveBuffer = [], fs_send_buffer = [], fs_lastTypeBinary = -1,
     fs_timer = False, fs_lastActivity = 0, fs_idleTimer = False, fs_lastCompletion = None, fs_currentCommand = None,
     fs_commandEvents = 0, fs_wire = [], fs_sent = [], fs_results = [], fs_notes = [], fs_invalidations = [],
     fs_wakeups = [], fs_socket = 1, fs_dc = sample_cache, fs_pc = [], fs_locks = []\<rparr>"

definition deleting :: ftp_session where
  "deleting = OnCommandEvent plain_env (snd (Execute (CDeleteCommand sample_path [''x'', ''y'']) fresh_session))"

abbreviation only_plain :: "ftp_env \<Rightarrow> bool" where
  "only_plain \<equiv> \<lambda>E. E = plain_env"

abbreviation no_preliminary :: "wstring \<Rightarrow> bool" where
  "no_preliminary \<equiv> \<lambda>l. \<not> preliminary l"

lemma fresh_start: "ftp_start libfz_std fresh_session"
proof -
  have "pathcache_ok []" by (simp add: pathcache_ok_def servers.map_ok_Nil)
  moreover have "lock_table_ok libfz_std []" "own_locks 1 [] = {}"
    by (simp_all add: lock_table_ok_def table_ok_def none_released_waits_def own_locks_def live_def locks.exclusive_def)
  ultimately show ?thesis by (simp add: ftp_start_def fresh_session_def)
qed

lemma started_reachable:
  assumes "command_valid c"
  shows "ftp_reachable only_plain R libfz_std (OnCommandEvent plain_env (snd (Execute c fresh_session)))"
proof (rule ftp_reachable.reach_step [OF ftp_reachable.reach_step [OF ftp_reachable.reach_start [OF fresh_start]
        ftp_step.st_execute] ftp_step.st_command])
  show "fs_connected (snd (Execute c fresh_session))" "0 < fs_commandEvents (snd (Execute c fresh_session))"
    using assms by (simp_all add: Execute_def fresh_session_def)
qed simp

lemma deleting_reachable [simp]: "ftp_reachable only_plain R libfz_std deleting"
  unfolding deleting_def by (rule started_reachable) code_simp

lemma lines_reachable:
  assumes "ftp_reachable V R L s" "V E" "list_all R ls" "\<And>n. fs_connected (fold (ParseLine E) (take n ls) s)"
  shows "ftp_reachable V R L (fold (ParseLine E) ls s)"
  using assms
proof (induction ls arbitrary: s)
  case (Cons l ls)
  have "fs_connected s" using Cons.prems(4) [of 0] by simp
  then have "ftp_reachable V R L (ParseLine E l s)"
    using Cons.prems by (auto intro: ftp_reachable.reach_step ftp_step.st_line)
  moreover have "fs_connected (fold (ParseLine E) (take n ls) (ParseLine E l s))" for n
    using Cons.prems(4) [of "Suc n"] by simp
  ultimately show ?case using Cons.IH Cons.prems(2,3) by simp
qed simp

subsection \<open>Commands and replies\<close>

text \<open>C4: Replies are never given to the wrong operation.  After any events of a session whose server
  sends no preliminary replies, the replies to skip, if there are any, are all the outstanding ones;
  if there are none, an idle connection awaits no reply at all, and the top operation awaits exactly
  one, to the last command sent, which is the command its state will handle the reply of, or it
  awaits none because it waits for a lock.\<close>

theorem ftp_replies_in_sync:
  assumes "ftp_reachable V R L s" "\<forall>E. V E \<longrightarrow> fe_lib E = L" "\<forall>line. R line \<longrightarrow> \<not> preliminary line"
  shows "(fs_repliesToSkip s = 0 \<or> fs_repliesToSkip s = fs_pendingReplies s) \<and>
    (fs_repliesToSkip s = 0 \<longrightarrow>
      (case fs_ops s of
         [] \<Rightarrow> fs_pendingReplies s = 0
       | op # _ \<Rightarrow>
           fs_pendingReplies s = 1 \<and> fs_sent s \<noteq> [] \<and> awaits L op = Some (last (fs_sent s)) \<or>
           fs_pendingReplies s = 0 \<and> lock_waiting (op_opLock op) s))"
proof -
  have "session_ok L False s" by (rule reachable_ok [OF assms(1)]) (use assms(2,3) in \<open>simp_all add: env_fits_def\<close>)
  then show ?thesis by (auto simp: session_ok_def in_step_def in_reply_def split: list.splits)
qed

theorem ftp_replies_in_sync_witness:
  "awaits libfz_std (hd (fs_ops deleting)) = Some ''CWD /a'' \<and> fs_pendingReplies deleting = 1"
proof -
  have s: "fs_repliesToSkip deleting = 0" "fs_ops deleting \<noteq> []" "last (fs_sent deleting) = ''CWD /a''"
    "lock_waiting (op_opLock (hd (fs_ops deleting))) deleting = False" by code_simp+
  show ?thesis
    using ftp_replies_in_sync [OF deleting_reachable, of no_preliminary] s
    by (cases "fs_ops deleting") (auto simp: plain_env_def)
qed

text \<open>C30: A connection owns exactly the locks of the operations on its stack, so that an idle one
  holds and awaits none, whatever path led there: results, errors, cancellation, a lost connection.\<close>

theorem ftp_locks_owned:
  assumes "ftp_reachable V R L s" "\<forall>E. V E \<longrightarrow> fe_lib E = L" "\<forall>line. R line \<longrightarrow> \<not> preliminary line"
  shows "own_locks (fs_socket s) (fs_locks s) = (\<Union>op \<in> set (fs_ops s). set_option (op_opLock op))"
proof -
  have "session_ok L False s" by (rule reachable_ok [OF assms(1)]) (use assms(2,3) in \<open>simp_all add: env_fits_def\<close>)
  then show ?thesis by (simp add: session_ok_def locks_owned_def op_handles_def)
qed

definition making :: ftp_session where
  "making = OnCommandEvent plain_env (snd (Execute (CMkdirCommand sample_path) fresh_session))"

lemma making_reachable: "ftp_reachable only_plain R libfz_std making"
  unfolding making_def by (rule started_reachable) code_simp

definition made :: ftp_session where
  "made = fold (ParseLine plain_env) [''250 ok'', ''257 made''] making"

lemma made_reachable: "ftp_reachable only_plain no_preliminary libfz_std made"
  unfolding made_def
proof (rule lines_reachable)
  show "ftp_reachable only_plain no_preliminary libfz_std making" by (rule making_reachable)
  have "fs_connected making" "fs_connected (fold (ParseLine plain_env) [''250 ok''] making)"
    "fs_connected (fold (ParseLine plain_env) [''250 ok'', ''257 made''] making)" by code_simp+
  then show "fs_connected (fold (ParseLine plain_env) (take n [''250 ok'', ''257 made'']) making)" for n
    by (cases n; cases "n - 1") simp_all
qed (simp_all add: preliminary_def)

theorem ftp_locks_owned_witness:
  "own_locks 1 (fs_locks making) = {(0, 0)} \<and> own_locks 1 (fs_locks made) = {}"
proof -
  have s: "fs_socket making = 1" "map op_opLock (fs_ops making) = [Some (0, 0)]" "fs_socket made = 1" "fs_ops made = []"
    by code_simp+
  show ?thesis using ftp_locks_owned [OF making_reachable, of no_preliminary] ftp_locks_owned [OF made_reachable] s
    by (auto simp: plain_env_def)
qed

text \<open>C31: While the connection is up the engine has a current command exactly as long as an operation is on
  the stack or the event that starts it is queued, so no command can be started while another runs
  and none blocks the engine for ever; and with the timeout switched on, an operation waits with the
  timer running, except for a lock.\<close>

theorem ftp_busy_and_timed:
  assumes "ftp_reachable V R L s" "\<forall>E. V E \<longrightarrow> fe_lib E = L \<and> 0 < fe_timeout E" "\<forall>line. R line \<longrightarrow> \<not> preliminary line"
  shows "(fs_connected s \<longrightarrow> (fs_currentCommand s \<noteq> None \<longleftrightarrow> fs_ops s \<noteq> [] \<or> 0 < fs_commandEvents s)) \<and>
    (\<not> fs_connected s \<longrightarrow> fs_ops s = []) \<and>
    (\<forall>op rest. fs_ops s = op # rest \<longrightarrow>
       fs_timer s \<or> fs_repliesToSkip s = 0 \<and> lock_waiting (op_opLock op) s)"
proof -
  have "session_ok L True s" by (rule reachable_ok [OF assms(1)]) (use assms(2,3) in \<open>simp_all add: env_fits_def\<close>)
  then show ?thesis by (auto simp: session_ok_def command_ok_def in_step_def timed_def split: if_splits)
qed

theorem ftp_busy_and_timed_witness:
  "fs_timer deleting \<and> fs_currentCommand deleting \<noteq> None \<and> fs_currentCommand made = None"
proof -
  have s: "fs_repliesToSkip deleting = 0" "fs_ops deleting \<noteq> []" "lock_waiting (op_opLock (hd (fs_ops deleting))) deleting = False"
    "fs_connected deleting" "fs_connected made" "fs_ops made = []" "fs_commandEvents made = 0" by code_simp+
  note hyps = ftp_busy_and_timed [OF deleting_reachable, of no_preliminary] ftp_busy_and_timed [OF made_reachable]
  show ?thesis using hyps s by (cases "fs_ops deleting") (auto simp: plain_env_def)
qed

subsection \<open>Every command gets its result\<close>

lemma lines_answer:
  assumes "env_fits L T E" "session_ok L T s" "fs_connected s" "fs_MultilineCode s = []" "fs_ops s \<noteq> []"
    and "list_all final_line ls" "remaining s \<le> length ls"
  shows "\<exists>n \<le> remaining s. let s' = fold (ParseLine E) (take n ls) s
    in waits_for_lock s' \<or>
       fs_ops s' = [] \<and> fs_currentCommand s' = None \<and>
       (\<exists>c code. fs_currentCommand s = Some c \<and> fs_results s' = fs_results s @ [(code, command_id c)])"
  using assms(2-)
proof (induction ls arbitrary: s)
  case Nil
  then obtain op rest where "fs_ops s = op # rest" by (cases "fs_ops s") auto
  then show ?case using Nil(6) op_weight_pos [of op] by (simp add: remaining_def stack_weight_def)
next
  case (Cons l ls)
  show ?case
  proof (cases "waits_for_lock s")
    case True
    then show ?thesis by (intro exI [of _ 0]) simp
  next
    case False
    let ?s1 = "ParseLine E l s"
    note p = line_progress [OF assms(1) Cons.prems(1-4) False, of l]
    have l: "final_line l" using Cons.prems(5) by simp
    have busy: "fs_currentCommand s \<noteq> None"
      using Cons.prems(1,2,4) by (simp add: session_ok_def command_ok_def)
    show ?thesis
    proof (cases "fs_ops ?s1 = []")
      case True
      have "fs_commandEvents ?s1 = 0" using p(6) [OF l] Cons.prems(1,2,4) by (simp add: session_ok_def command_ok_def)
      then have "fs_currentCommand ?s1 = None"
        using True p(2,3) [OF l] by (auto simp: session_ok_def command_ok_def split: if_splits)
      then show ?thesis using True p(1,5) [OF l] busy
        by (intro exI [of _ 1]) (auto simp: answered_def)
    next
      case F: False
      have "fs_currentCommand ?s1 \<noteq> None" using p(2,3) [OF l] F by (simp add: session_ok_def command_ok_def)
      then have same: "fs_currentCommand ?s1 = fs_currentCommand s" "fs_results ?s1 = fs_results s"
        using p(5) [OF l] by (auto simp: answered_def)
      obtain n where n: "n \<le> remaining ?s1" "let s' = fold (ParseLine E) (take n ls) ?s1
        in waits_for_lock s' \<or> fs_ops s' = [] \<and> fs_currentCommand s' = None \<and>
          (\<exists>c code. fs_currentCommand ?s1 = Some c \<and> fs_results s' = fs_results ?s1 @ [(code, command_id c)])"
        using Cons.IH [OF p(2-4) [OF l] F] p(1) [OF l] Cons.prems(5,6) by auto
      then show ?thesis using p(1) [OF l] same by (intro exI [of _ "Suc n"]) (simp add: Let_def)
    qed
  qed
qed

text \<open>C5: Every command gets exactly one result.  If the connection is up, an operation runs and the
  server goes on to answer, whatever its final replies are, then after at most \<open>remaining s\<close> of them
  the operation waits for another connection's lock, or it is over: the stack is empty, the engine is
  free, and exactly one result has been given, for the command that ran.\<close>

theorem ftp_command_answered:
  assumes "ftp_reachable V R L s" "\<forall>E. V E \<longrightarrow> fe_lib E = L" "\<forall>line. R line \<longrightarrow> \<not> preliminary line"
    and "V E" "fs_connected s" "fs_MultilineCode s = []" "fs_ops s \<noteq> []"
    and "list_all final_line replies" "remaining s \<le> length replies"
  shows "\<exists>n \<le> remaining s. let s' = fold (ParseLine E) (take n replies) s
    in waits_for_lock s' \<or>
       fs_ops s' = [] \<and> fs_currentCommand s' = None \<and>
       (\<exists>c code. fs_currentCommand s = Some c \<and> fs_results s' = fs_results s @ [(code, command_id c)])"
proof -
  have "session_ok L False s" by (rule reachable_ok [OF assms(1)]) (use assms(2,3) in \<open>simp_all add: env_fits_def\<close>)
  then show ?thesis using assms(2,4-9) by (intro lines_answer [of L False]) (simp_all add: env_fits_def)
qed

theorem ftp_command_answered_witness:
  "\<exists>n \<le> 8. let s' = fold (ParseLine plain_env) (take n (replicate 8 ''550 no'')) deleting
    in waits_for_lock s' \<or>
       fs_ops s' = [] \<and> fs_currentCommand s' = None \<and>
       (\<exists>c code. fs_currentCommand deleting = Some c \<and> fs_results s' = fs_results deleting @ [(code, command_id c)])"
proof -
  have s: "fs_connected deleting" "fs_MultilineCode deleting = []" "fs_ops deleting \<noteq> []" "remaining deleting = 8" by code_simp+
  have "list_all final_line (replicate 8 ''550 no'')" by code_simp
  then show ?thesis
    using ftp_command_answered [OF deleting_reachable, of no_preliminary plain_env "replicate 8 ''550 no''"] s
    by (simp add: plain_env_def)
qed

subsection \<open>Two corner cases\<close>

text \<open>\<open>SendCommand\<close> stores the code of \<open>Send\<close> in a \<open>bool\<close>, and that code is never zero: a
  write error counts as a command sent, whose reply is then awaited.\<close>

lemma write_error_counts_as_sent:
  assumes "fs_connected s" "fs_send_buffer s = []" "fe_write E = WriteError" "fe_ConvToServer E cmd \<noteq> []"
  shows "fst (SendCommand E cmd s) = FZ_REPLY_WOULDBLOCK"
    "fs_pendingReplies (snd (SendCommand E cmd s)) = fs_pendingReplies s + 1" "fs_wire (snd (SendCommand E cmd s)) = fs_wire s"
proof -
  have "FZ_REPLY_ERROR OR FZ_REPLY_DISCONNECTED \<noteq> 0" by (simp add: reply_codes)
  then show "fst (SendCommand E cmd s) = FZ_REPLY_WOULDBLOCK"
    "fs_pendingReplies (snd (SendCommand E cmd s)) = fs_pendingReplies s + 1" "fs_wire (snd (SendCommand E cmd s)) = fs_wire s"
    using assms by (simp_all add: SendCommand_def RealSend_def SetWait_def Let_def case_prod_beta)
qed

text \<open>\<open>ParseResponse\<close> keeps a preliminary reply outstanding, but the operation takes it for a
  final one: the next file is deleted while the reply to the first deletion is still to come.\<close>

lemma preliminary_reply_out_of_step:
  "fs_pendingReplies (fold (ParseLine plain_env) [''250 ok'', ''257 hm'', ''150 wait''] deleting) = 2"
  "fs_sent (fold (ParseLine plain_env) [''250 ok'', ''257 hm'', ''150 wait''] deleting) = [''CWD /a'', ''PWD'', ''DELE y'', ''DELE x'']"
  by code_simp+

text \<open>
  The reply to \<open>PWD\<close>: a path that the server puts between quotation marks, with the quotation marks
  of its own doubled, becomes the current path.
\<close>

subsection \<open>Doubled quotation marks\<close>

fun double :: "char \<Rightarrow> wstring \<Rightarrow> wstring" where
  "double q [] = []"
| "double q (c # cs) = (if c = q then q # q # double q cs else c # double q cs)"

fun undouble :: "char \<Rightarrow> wstring \<Rightarrow> wstring" where
  "undouble q (c # d # cs) = (if c = q \<and> d = q then q # undouble q cs else c # undouble q (d # cs))"
| "undouble q cs = cs"

text \<open>\<open>fz::replace_substrings\<close> of a pair of equal units by one, from the left.\<close>

definition replace_pair_law :: "libfz \<Rightarrow> bool" where
  "replace_pair_law L \<longleftrightarrow> (\<forall>s q. fz_replace_substrings L s [q, q] [q] = undouble q s)"

lemma undouble_Cons: "c \<noteq> q \<Longrightarrow> undouble q (c # cs) = c # undouble q cs"
  by (cases cs) simp_all

lemma undouble_double [simp]: "undouble q (double q cs) = cs"
  by (induction cs) (simp_all add: undouble_Cons)

subsection \<open>The reply\<close>

lemma quoted_text:
  assumes "CHR 0x22 \<notin> set pre" "CHR 0x22 \<notin> set post" "str \<noteq> []"
  shows "find_quotes (CHR 0x22) (pre @ CHR 0x22 # str @ CHR 0x22 # post) = Some (length pre, length pre + length str + 1)"
proof -
  have "rfind_idx (\<lambda>c. c = CHR 0x22) ((pre @ CHR 0x22 # str) @ CHR 0x22 # post) = Some (length (pre @ CHR 0x22 # str))"
    by (rule rfind_idx_append_clean) (use assms(2) in auto)
  moreover have "find_idx (\<lambda>c. c = CHR 0x22) (pre @ CHR 0x22 # str @ CHR 0x22 # post) = Some (length pre)"
    by (rule find_idx_append_hit) (use assms(1) in auto)
  ultimately show ?thesis by (simp add: find_quotes_def)
qed

lemma pwd_text_quoted:
  assumes "replace_pair_law L" "CHR 0x22 \<notin> set pre" "CHR 0x22 \<notin> set post" "str \<noteq> []"
  shows "pwd_text L (pre @ CHR 0x22 # double (CHR 0x22) str @ CHR 0x22 # post) = str"
proof -
  have "double (CHR 0x22) str \<noteq> []" using assms(4) by (cases str) simp_all
  from quoted_text [OF assms(2,3) this] show ?thesis
    using assms(1) by (simp add: pwd_text_def replace_pair_law_def)
qed

text \<open>C11: The reply to \<open>PWD\<close> is understood for every path: whatever stands before and after it, a
  canonical path of the server's type that is printed between quotation marks with its own
  quotation marks doubled is recognised and becomes the current path, which nothing else of the session
  changes with; the path to fall back on is not used.  (DOS paths need a drive, or no colon.)\<close>

theorem pwd_reply_roundtrip:
  assumes "replace_law (fe_lib E)" "replace_pair_law (fe_lib E)"
    and "canon_path p" "m_type p = sv_type (fs_server s)" "is_dos (m_type p) \<Longrightarrow> drive_ok (segs p)"
    and "CHR 0x22 \<notin> set pre" "CHR 0x22 \<notin> set post"
  shows "ParsePwdReply E (pre @ CHR 0x22 # double (CHR 0x22) (GetPath (fe_lib E) p) @ CHR 0x22 # post) fallback s =
    (True, s\<lparr>fs_currentPath := p\<rparr>)"
proof -
  let ?q = "snd (SetType CServerPath_default (server_type_value (sv_type (fs_server s))))"
  have q: "m_type ?q = m_type p" using assms(4) server_type_value_less [of "sv_type (fs_server s)"]
    by (simp add: SetType_def CServerPath_default_def path_empty_def all_server_types_nth)
  note set = DoChangePath_GetPath [OF assms(1,3) q assms(5)]
  have "SetPath ?q (GetPath (fe_lib E) p) = (True, p)"
    using set by (simp add: SetPath_def SetPath_file_def ChangePath_def Let_def path_clear_def)
  moreover have "\<not> path_empty p" using canon_pathD(1) [OF assms(3)] .
  ultimately show ?thesis using set(2)
    by (simp add: ParsePwdReply_def pwd_text_quoted [OF assms(2,6,7) set(2)] ParsePath_def set_currentPath_def Let_def)
qed

text \<open>A library with both kinds of replacement.\<close>

definition pair_env :: ftp_env where
  "pair_env = plain_env\<lparr>fe_lib := libfz_std\<lparr>fz_replace_substrings := (\<lambda>s f r.
     case f of [c] \<Rightarrow> replace_char c r s | [c, d] \<Rightarrow> (if c = d \<and> r = [c] then undouble c s else s) | _ \<Rightarrow> s)\<rparr>\<rparr>"

theorem pwd_reply_roundtrip_witness:
  "ParsePwdReply pair_env (''257 '' @ CHR 0x22 # double (CHR 0x22) (''/a'' @ [CHR 0x22] @ ''b'') @ CHR 0x22 # '' is current'')
     CServerPath_default fresh_session =
   (True, fresh_session\<lparr>fs_currentPath := CServerPath_make (''/a'' @ [CHR 0x22] @ ''b'') UNIX\<rparr>)"
proof -
  let ?p = "CServerPath_make (''/a'' @ [CHR 0x22] @ ''b'') UNIX"
  have "replace_law (fe_lib pair_env)" "replace_pair_law (fe_lib pair_env)"
    by (simp_all add: pair_env_def replace_law_def replace_pair_law_def)
  moreover have "canon_path ?p" "m_type ?p = sv_type (fs_server fresh_session)" "\<not> is_dos (m_type ?p)" by code_simp+
  moreover have "GetPath (fe_lib pair_env) ?p = ''/a'' @ [CHR 0x22] @ ''b''" by code_simp
  ultimately show ?thesis
    using pwd_reply_roundtrip [of pair_env ?p fresh_session "''257 ''" "'' is current''" CServerPath_default] by simp
qed

end
