(* ===== verification/Ftp_Cache.thy ===== *)
theory Ftp_Cache
  imports Ftp_Props
begin

text \<open>
  FTP operations and the directory cache: before a command that changes a directory goes out, and
  again when its positive reply is handled, the listing of the directory is marked, so that a lookup
  that wants sure listings does not find it.
\<close>

subsection \<open>The directories an operation changes\<close>

text \<open>When its command is sent; an unknown command may change every directory.\<close>

definition changed_by_command :: "COpData \<Rightarrow> CServerPath \<Rightarrow> bool" where
  "changed_by_command op p \<longleftrightarrow>
     (case op_data op of
        DeleteOp d \<Rightarrow> del_state d = del_del \<and> p = del_path d
      | RemoveDirOp d \<Rightarrow> rmd_state d = rmd_rmd \<and> p = rmd_path d
      | RenameOp d \<Rightarrow> ren_state d = rename_rnto \<and> p \<in> {rn_fromPath (ren_command d), rn_toPath (ren_command d)}
      | RawOp _ \<Rightarrow> True
      | _ \<Rightarrow> False)"

text \<open>When the server said that it was done.\<close>

definition changed_by_reply :: "COpData \<Rightarrow> CServerPath \<Rightarrow> bool" where
  "changed_by_reply op p \<longleftrightarrow>
     (case op_data op of
        DeleteOp d \<Rightarrow> p = del_path d
      | MkdirOp d \<Rightarrow> mkd_state d = mkd_mkdsub \<and> mkd_segments d \<noteq> [] \<and> p = mkd_currentMkdPath d
      | ChmodOp d \<Rightarrow> p = cm_path (chm_command d)
      | _ \<Rightarrow> False)"

lemma SendCommand_dc [simp]:
  "fs_dc (snd (SendCommand E cmd s)) = fs_dc s" "fs_server (snd (SendCommand E cmd s)) = fs_server s"
  by (auto simp: SendCommand_def RealSend_def SetWait_def SetAlive_def Let_def case_prod_beta split: write_result.splits)

lemma send_dc: "send_and_return E cmd op s = (res, op1, child, s1) \<Longrightarrow> fs_dc s1 = fs_dc s"
  by (auto simp: send_and_return_simps)

lemma InvalidateServer_not_served:
  assumes "cache_ok L c" "path_key_ok p"
  shows "fst (cache_Lookup now s p False (cache_InvalidateServer s c)) = None"
  using Lookup_abs(1) [OF InvalidateServer_ok [OF assms(1)] assms(2)] by (simp add: InvalidateServer_abs [OF assms(1)])

lemma command_marks:
  assumes laws: "multimap_law (fe_lib E)" "stricmp_law (fe_lib E)" "cache_ok (fe_lib E) (fs_dc s)"
    and p: "changed_by_command op p" "path_key_ok p" and r: "op_Send E op s = (FZ_REPLY_WOULDBLOCK, op1, child, s1)"
  shows "fst (cache_Lookup now (fs_server s) p False (fs_dc s1)) = None"
proof (cases "op_data op")
  case (DeleteOp d)
  then have "fs_dc s1 = snd (cache_InvalidateFile (fe_lib E) (fe_now E) (fs_server s) p (last (del_files d)) (fs_dc s))"
    using r p(1)
    by (auto simp: op_Send_def delete_Send_def changed_by_command_def Let_def reply_codes
        dest!: send_dc split: if_splits)
  then show ?thesis
    by (simp add: all_marked_not_served [OF InvalidateFile_ok [OF laws(3)] p(2) InvalidateFile_marks(1) [OF laws(2,3)]])
next
  case (RemoveDirOp d)
  then have "fs_dc s1 = snd (cache_InvalidateFile (fe_lib E) (fe_now E) (fs_server s) p (rmd_subDir d) (fs_dc s))"
    using r p(1)
    by (auto simp: op_Send_def rmd_Send_def rmd_invalidate_def InvalidateCurrentWorkingDirs_def changed_by_command_def Let_def
        reply_codes dest!: send_dc split: if_splits option.splits prod.splits)
  then show ?thesis
    by (simp add: all_marked_not_served [OF InvalidateFile_ok [OF laws(3)] p(2) InvalidateFile_marks(1) [OF laws(2,3)]])
next
  case (RenameOp d)
  let ?c = "ren_command d" and ?inv = "\<lambda>p f c. snd (cache_InvalidateFile (fe_lib E) (fe_now E) (fs_server s) p f c)"
  let ?dc1 = "?inv (rn_fromPath ?c) (rn_fromFile ?c) (fs_dc s)"
  have "fs_dc s1 = ?inv (rn_toPath ?c) (rn_toFile ?c) ?dc1"
    using RenameOp r p(1)
    by (auto simp: op_Send_def rename_Send_def rename_invalidate_def InvalidateCurrentWorkingDirs_def changed_by_command_def Let_def
        dest!: send_dc)
  moreover have ok: "cache_ok (fe_lib E) ?dc1" using InvalidateFile_ok [OF laws(3)] by simp
  moreover have "p = rn_fromPath ?c \<or> p = rn_toPath ?c" using RenameOp p(1) by (simp add: changed_by_command_def)
  ultimately show ?thesis
    using all_marked_not_served [OF InvalidateFile_ok [OF ok] p(2)] InvalidateFile_marks(1) [OF laws(2,3)]
      InvalidateFile_marks [OF laws(2) ok] by auto
next
  case (RawOp c)
  then have "fs_dc s1 = cache_InvalidateServer (fs_server s) (fs_dc s)"
    using r by (auto simp: op_Send_def raw_Send_def clear_currentPath_def dest!: send_dc)
  then show ?thesis using InvalidateServer_not_served [OF laws(3) p(2)] by simp
qed (use p in \<open>simp_all add: changed_by_command_def\<close>)

lemma reply_marks:
  assumes laws: "multimap_law (fe_lib E)" "stricmp_law (fe_lib E)" "cache_ok (fe_lib E) (fs_dc s)"
    and p: "changed_by_reply op p" "path_key_ok p" and r: "op_ParseResponse E op s = (res, op1, child, s1)" "positive s"
  shows "fst (cache_Lookup now (fs_server s) p False (fs_dc s1)) = None"
proof (cases "op_data op")
  case (DeleteOp d)
  then have "fs_dc s1 = snd (cache_RemoveFile (fe_lib E) (fe_now E) (fs_server s) p (last (del_files d)) (fs_dc s))"
    using r p(1)
    by (auto simp: op_ParseResponse_def delete_ParseResponse_def delete_success_def changed_by_reply_def Let_def
        SendDirectoryListingNotification_def split: if_splits option.splits prod.splits)
  then show ?thesis
    by (simp add: all_marked_not_served [OF RemoveFile_ok [OF laws(3)] p(2) RemoveFile_marks [OF laws(2,3)]])
next
  case (MkdirOp d)
  then have "fs_dc s1 = snd (cache_UpdateFile (fe_lib E) (fe_now E) (fs_server s) p (last (mkd_segments d)) True ft_dir (-1) [] (fs_dc s))"
    using r p(1)
    by (auto simp: op_ParseResponse_def mkd_ParseResponse_def mkd_Parse_mkdsub_def mkd_created_def changed_by_reply_def Let_def
        SendDirectoryListingNotification_def split: if_splits)
  then show ?thesis
    by (simp add: all_marked_not_served [OF UpdateFile_ok [OF laws(3)] p(2) UpdateFile_marks [OF laws(2,3)]])
next
  case (ChmodOp d)
  then have "fs_dc s1 = snd (cache_UpdateFile (fe_lib E) (fe_now E) (fs_server s) p (cm_file (chm_command d)) False ft_unknown (-1) [] (fs_dc s))"
    using r p(1) by (auto simp: op_ParseResponse_def chmod_ParseResponse_def changed_by_reply_def Let_def)
  then show ?thesis
    by (simp add: all_marked_not_served [OF UpdateFile_ok [OF laws(3)] p(2) UpdateFile_marks [OF laws(2,3)]])
qed (use p in \<open>simp_all add: changed_by_reply_def\<close>)

text \<open>C9: No listing is served as sure while it is being changed.  When an operation has sent the command
  that deletes a file, removes or renames something, the listings of the directories concerned, and
  after an unknown command those of all directories, are not found by a lookup that wants sure
  listings; the same holds when the positive reply to a deletion, to the creation of a directory or
  to a change of permissions has been handled.\<close>

theorem ftp_changes_not_served:
  assumes "multimap_law (fe_lib E)" "stricmp_law (fe_lib E)" "cache_reachable (fe_lib E) (fs_dc s)" "path_key_ok p"
    and "changed_by_command op p \<and> op_Send E op s = (FZ_REPLY_WOULDBLOCK, op1, child, s1) \<or>
      changed_by_reply op p \<and> positive s \<and> op_ParseResponse E op s = (res, op1, child, s1)"
  shows "fst (cache_Lookup now (fs_server s) p False (fs_dc s1)) = None"
  using assms(5) command_marks [OF assms(1,2) cache_reachable_ok [OF assms(1,3)] _ assms(4)]
    reply_marks [OF assms(1,2) cache_reachable_ok [OF assms(1,3)] _ assms(4)] by blast

definition delete_x :: COpData where
  "delete_x = new_op (DeleteOp \<lparr>del_state = del_del, del_path = sample_path, del_files = [''x''], del_omitPath = True,
     del_time = None, del_needSendListing = False, del_deleteFailed = False\<rparr>)"

theorem ftp_changes_not_served_witness:
  "fst (cache_Lookup 20 sample_server sample_path False (fs_dc fresh_session)) \<noteq> None \<and>
   fst (cache_Lookup 20 sample_server sample_path False (fs_dc (snd (snd (snd (op_Send plain_env delete_x fresh_session)))))) = None"
proof -
  have s: "fs_dc fresh_session = sample_cache" "fs_server fresh_session = sample_server" "fe_lib plain_env = libfz_std"
    by (simp_all add: fresh_session_def plain_env_def)
  obtain res op1 child s1 where r: "op_Send plain_env delete_x fresh_session = (res, op1, child, s1)" by (metis prod_cases4)
  have "fst (op_Send plain_env delete_x fresh_session) = FZ_REPLY_WOULDBLOCK" "changed_by_command delete_x sample_path" by code_simp+
  then have "changed_by_command delete_x sample_path \<and> op_Send plain_env delete_x fresh_session = (FZ_REPLY_WOULDBLOCK, op1, child, s1)"
    using r by simp
  then have "fst (cache_Lookup 20 sample_server sample_path False (fs_dc s1)) = None"
    using ftp_changes_not_served [of plain_env fresh_session sample_path delete_x op1 child s1 0 20] s libfz_std_laws(6,1) by simp
  moreover have "fst (cache_Lookup 20 sample_server sample_path False sample_cache) \<noteq> None" by code_simp
  ultimately show ?thesis using r s by simp
qed

end
