(* ===== verification/Ftp_Mkdir.thy ===== *)
theory Ftp_Mkdir
  imports Ftp_Props
begin

text \<open>
  Creating a directory on an FTP server: a directory is only created by its bare name when the
  connection is in its parent, and the names still to be created always lead from there to the
  directory that was asked for.
\<close>

subsection \<open>The operation\<close>

definition add_segments :: "wstring list \<Rightarrow> CServerPath \<Rightarrow> CServerPath" where
  "add_segments names p = foldr (\<lambda>name p. snd (AddSegment p name)) names p"

text \<open>The names are taken from the end of the list.\<close>

definition leads_to :: "CFtpMkdirOpData \<Rightarrow> bool" where
  "leads_to d \<longleftrightarrow>
     mkd_segments d \<noteq> [] \<and> m_type (mkd_currentMkdPath d) = m_type (mkd_path d) \<and>
     (m_type (mkd_path d) \<noteq> MVS \<longrightarrow> add_segments (mkd_segments d) (mkd_currentMkdPath d) = mkd_path d)"

definition mkd_placed :: "CFtpMkdirOpData \<Rightarrow> CServerPath \<Rightarrow> bool" where
  "mkd_placed d cur =
     (case mkd_state d of
        mkd_init \<Rightarrow> mkd_segments d = []
      | mkd_findparent \<Rightarrow> leads_to d
      | mkd_cwdsub \<Rightarrow> leads_to d
      | mkd_mkdsub \<Rightarrow> leads_to d \<and> path_eq cur (mkd_currentMkdPath d)
      | mkd_tryfull \<Rightarrow> True)"

definition op_placed :: "COpData \<Rightarrow> CServerPath \<Rightarrow> bool" where
  "op_placed op cur = (case op_data op of MkdirOp d \<Rightarrow> mkd_placed d cur | _ \<Rightarrow> True)"

lemma add_segments_simps [simp]:
  "add_segments [] p = p" "add_segments (names @ [name]) p = add_segments names (snd (AddSegment p name))"
  by (simp_all add: add_segments_def)

lemma AddSegment_type [simp]: "m_type (snd (AddSegment p name)) = m_type p"
  by (simp add: AddSegment_def)

lemma GetParent_type [simp]: "m_type (GetParent p) = m_type p"
  by (simp add: GetParent_def MakeParent_def path_clear_def Let_def)

lemma AddSegment_parent:
  assumes "HasParent p" "m_type p \<noteq> MVS"
  shows "snd (AddSegment (GetParent p) (GetLastSegment p)) = p"
proof -
  obtain d where d: "m_data p = Some d" using assms(1) by (cases "m_data p") (simp_all add: HasParent_def path_empty_def)
  have "segs p \<noteq> []" using assms(1) by (auto simp: HasParent_def split: if_splits)
  then show ?thesis using assms d
    by (simp add: AddSegment_def GetParent_def MakeParent_def GetLastSegment_def path_empty_def segs_def data_get_def Let_def)
qed

lemma leads_to_state: "leads_to (d\<lparr>mkd_state := st\<rparr>) = leads_to d"
  by (simp add: leads_to_def)

lemma leads_to_up:
  assumes "leads_to d" "HasParent (mkd_currentMkdPath d)"
  shows "leads_to (d\<lparr>mkd_segments := mkd_segments d @ [GetLastSegment (mkd_currentMkdPath d)],
    mkd_currentMkdPath := GetParent (mkd_currentMkdPath d)\<rparr>)"
  using assms AddSegment_parent [OF assms(2)] by (simp add: leads_to_def)

lemma leads_to_down:
  assumes "leads_to d" "butlast (mkd_segments d) \<noteq> []"
  shows "leads_to (d\<lparr>mkd_currentMkdPath := snd (AddSegment (mkd_currentMkdPath d) (last (mkd_segments d))),
    mkd_segments := butlast (mkd_segments d)\<rparr>)"
proof -
  have "mkd_segments d = butlast (mkd_segments d) @ [last (mkd_segments d)]" using assms(2) by (cases "mkd_segments d") auto
  then have "add_segments (mkd_segments d) (mkd_currentMkdPath d) =
      add_segments (butlast (mkd_segments d)) (snd (AddSegment (mkd_currentMkdPath d) (last (mkd_segments d))))"
    by (metis add_segments_simps(2))
  then show ?thesis using assms by (simp add: leads_to_def)
qed

lemma init_placed:
  assumes "mkd_segments d = []" "mkd_state d = mkd_init" "mkd_Send_init L d s = (res, d1)"
  shows "mkd_placed d1 (fs_currentPath s)"
proof (cases "HasParent (mkd_path d)")
  case True
  show ?thesis using assms AddSegment_parent [OF True] GetParent_type [of "mkd_path d"]
    by (auto simp: mkd_Send_init_def mkd_placed_def leads_to_def add_segments_def Let_def simp del: GetParent_type split: if_splits)
next
  case False
  then show ?thesis using assms by (auto simp: mkd_Send_init_def mkd_placed_def Let_def split: if_splits)
qed

lemma SendCommand_path [simp]: "fs_currentPath (snd (SendCommand E cmd s)) = fs_currentPath s"
  by (simp add: SendCommand_def RealSend_def SetWait_def SetAlive_def Let_def case_prod_beta split: write_result.splits)

lemma send_placed:
  assumes "send_and_return E cmd op s = (res, op1, child, s1)" "op_data op = MkdirOp d" "mkd_placed d (fs_currentPath s)"
  shows "op_placed op1 (fs_currentPath s1)"
  using assms by (auto simp: send_and_return_simps op_placed_def)

lemma Send_placed:
  assumes "op_data op = MkdirOp d" "mkd_placed d (fs_currentPath s)" "mkd_Send E d op s = (res, op1, child, s1)"
  shows "op_placed op1 (fs_currentPath s1)"
proof -
  obtain op0 s0 where o: "(if op_opLock op = None
        then case ftp_Lock E reason_mkdir (mkd_path d) s of (h, s1) \<Rightarrow> (op\<lparr>op_opLock := Some h\<rparr>, s1) else (op, s)) = (op0, s0)"
    by fastforce
  then have f: "op_data op0 = MkdirOp d" "fs_currentPath s0 = fs_currentPath s"
    using assms(1) by (auto simp: ftp_Lock_def split: if_splits prod.splits)
  then have p: "mkd_placed d (fs_currentPath s0)" using assms(2) by simp
  show ?thesis
  proof (cases "lock_waiting (op_opLock op0) s0")
    case True
    then show ?thesis using assms(3) f p by (auto simp: mkd_Send_def o op_placed_def)
  next
    case False
    then show ?thesis using assms(3) f(1) p init_placed [of d "fe_lib E" s0]
      by (auto simp: mkd_Send_def o op_placed_def mkd_placed_def clear_currentPath_def dest!: send_placed split: mkdStates.splits prod.splits)
  qed
qed

lemma created_placed:
  assumes "op_data op = MkdirOp d" "leads_to d" "mkd_created E d op s = (FZ_REPLY_CONTINUE, op1, child, s1)"
  shows "op_placed op1 (fs_currentPath s1)"
  using assms leads_to_down [of d]
  by (auto simp: mkd_created_def op_placed_def mkd_placed_def Let_def reply_codes leads_to_state split: if_splits)

lemma Parse_placed:
  assumes "op_data op = MkdirOp d" "mkd_placed d (fs_currentPath s)" "mkd_ParseResponse E d op s = (FZ_REPLY_CONTINUE, op1, child, s1)"
  shows "op_placed op1 (fs_currentPath s1)"
proof (cases "mkd_state d")
  case mkd_mkdsub
  then have "leads_to d" using assms(2) by (simp add: mkd_placed_def)
  then show ?thesis using assms mkd_mkdsub created_placed [OF assms(1)]
    by (auto simp: mkd_ParseResponse_def mkd_Parse_mkdsub_def reply_codes split: if_splits prod.splits)
next
  case mkd_findparent
  then show ?thesis using assms leads_to_up [of d]
    by (auto simp: mkd_ParseResponse_def mkd_Parse_findparent_def op_placed_def mkd_placed_def leads_to_state set_currentPath_def split: if_splits)
qed (use assms in \<open>auto simp: mkd_ParseResponse_def op_placed_def mkd_placed_def leads_to_state set_currentPath_def reply_codes split: if_splits\<close>)

subsection \<open>The session\<close>

definition placed :: "ftp_session \<Rightarrow> bool" where
  "placed s \<longleftrightarrow> (\<forall>op \<in> set (fs_ops s). op_placed op (fs_currentPath s))"

lemma not_mkd_placed: "\<not> is_mkd op \<Longrightarrow> op_placed op cur"
  by (simp add: op_placed_def is_mkd_def split: op_data.splits)

lemma placed_others: "\<forall>op \<in> set (fs_ops s). \<not> is_mkd op \<Longrightarrow> placed s"
  by (simp add: placed_def not_mkd_placed)

lemma placed_same: "fs_ops s' = fs_ops s \<Longrightarrow> fs_currentPath s' = fs_currentPath s \<Longrightarrow> placed s' = placed s"
  by (simp add: placed_def)

lemma placed_empty: "fs_ops s = [] \<Longrightarrow> placed s"
  by (simp add: placed_def)

lemma waits_not_mkd: "waits_for_cwd op \<Longrightarrow> \<not> is_mkd op"
  by (auto simp: waits_for_cwd_def data_waits_def is_mkd_def split: op_data.splits)

lemma shape_no_mkd:
  assumes "stack_shape ops" "\<forall>op rest. ops = op # rest \<longrightarrow> \<not> is_mkd op"
  shows "\<forall>op \<in> set ops. \<not> is_mkd op"
  using assms waits_not_mkd by (auto simp: stack_shape_def split: list.splits)

lemma path_put [simp]: "fs_currentPath (put_top c op rest s) = fs_currentPath s"
  by (simp add: put_top_def)

lemma SetWait_path [simp]: "fs_currentPath (SetWait E w s) = fs_currentPath s"
  by (simp add: SetWait_def Let_def)

lemma SubcommandResult_kind:
  "op_SubcommandResult E prev op s = (res, op1) \<Longrightarrow> is_mkd op1 = is_mkd op"
  by (cases "op_data op") (auto simp: op_SubcommandResult_def is_mkd_def split: prod.splits)

lemma is_mkdE: "is_mkd op \<Longrightarrow> (\<And>d. op_data op = MkdirOp d \<Longrightarrow> P) \<Longrightarrow> P"
  by (auto simp: is_mkd_def split: op_data.splits)

lemma op_Send_placed:
  assumes "before_send (fe_lib E) s" "placed s" "fs_ops s = op # rest" "op_Send E op s = (res, op1, child, s1)"
    and "res = FZ_REPLY_CONTINUE \<or> res = FZ_REPLY_WOULDBLOCK"
  shows "placed (put_top child op1 rest s1)"
proof (cases "is_mkd op")
  case True
  then obtain d where d: "op_data op = MkdirOp d" by (rule is_mkdE)
  have shape: "stack_shape (op # rest)" "fs_connected s" using assms(1,3) by (simp_all add: before_send_def)
  have old: "mkd_placed d (fs_currentPath s)" using assms(2,3) d by (simp add: placed_def op_placed_def)
  have "rest = []" using shape_cases(2) [OF shape(1) refl True] .
  moreover have "child = None"
    using op_Send_good [OF shape_cases(1) [OF shape(1) refl] shape(2), of E] assms(4,5) True waits_not_mkd [of op1]
    by (auto simp: send_good_def reply_codes)
  moreover have "op_placed op1 (fs_currentPath s1)"
    using Send_placed [OF d old] assms(4) d by (simp add: op_Send_def)
  ultimately show ?thesis by (simp add: placed_def child_list_def)
next
  case False
  have shape: "stack_shape (op # rest)" "fs_connected s" using assms(1,3) by (simp_all add: before_send_def)
  have g: "is_mkd op1 = is_mkd op" "\<forall>c. child = Some c \<longrightarrow> is_cwd c"
    using op_Send_good [OF shape_cases(1) [OF shape(1) refl] shape(2), of E] assms(4,5)
    by (auto simp: send_good_def reply_codes split: if_splits)
  have "\<forall>x \<in> set rest. \<not> is_mkd x" using shape_no_mkd [OF shape(1)] False by simp
  then show ?thesis using g False unlocked(4)
    by (intro placed_others) (auto simp: child_list_def split: option.splits)
qed

interpretation place: stack_rules E "\<lambda>s. before_send (fe_lib E) s \<and> placed s" "before_reset (fe_lib E)"
  "\<lambda>prev. before_result (fe_lib E)" placed for E
proof (unfold_locales, goal_cases)
  case (1 s)
  then show ?case using sync.Ready_empty [of E s] by simp
next
  case (2 s op rest)
  then show ?case using placed_same [of "SetWait E True s" s] by simp
next
  case (3 s op rest op1 child s1)
  then show ?case using op_Send_placed sync.Ready_continue [of E s op rest op1 child s1] by blast
next
  case (4 s op rest op1 child s1)
  then show ?case using op_Send_placed by blast
next
  case (5 s op rest res op1 child s1)
  then show ?case using sync.Ready_end [of E s op rest res op1 child s1] by blast
next
  case (6 code s)
  then show ?case by (intro placed_empty) simp
next
  case (7 code s op s1)
  then show ?case by (intro placed_empty) simp
next
  case (8 code s op rest s1)
  then show ?case using sync.Open_sub [of E code s op rest s1] by simp
next
  case (9 code s op rest s1)
  then show ?case using sync.Open_pop [of E code s op rest s1] by simp
next
  case (10 code s op rest s1)
  then have "open_shape (op # rest)" by (simp add: before_reset_def)
  from open_shape_two(3) [OF this 10(3)] show ?case using 10 by simp
next
  case (11 prev old s)
  then show ?case by (simp add: before_result_def)
next
  case (12 prev old s op rest op1)
  then show ?case using op_SubcommandResult_good(1) by (fastforce simp: before_result_def reply_codes)
next
  case (13 prev old s op rest op1)
  then have w: "waits_for_cwd op" "rest = []" by (auto simp: before_result_def)
  have ready: "before_send (fe_lib E) (destroy_op old (put_top None op1 rest s))"
    by (rule sync.Sub_continue) (use 13 in simp_all)
  have "\<not> is_mkd op1" using SubcommandResult_kind [OF 13(3)] waits_not_mkd [OF w(1)] by simp
  then show ?case using ready w(2) by (intro conjI placed_others) (simp_all add: child_list_def)
next
  case (14 prev old s op rest res op1)
  then show ?case using op_SubcommandResult_good(1) by (fastforce simp: before_result_def)
qed

subsection \<open>Events\<close>

lemma placed_send: "env_fits L T E \<Longrightarrow> before_send L s \<Longrightarrow> placed s \<Longrightarrow> placed (SendNextCommand E s)"
  using place.stack_facts(1) [of E s] by (simp add: env_fits_def)

lemma placed_reset: "env_fits L T E \<Longrightarrow> before_reset L code s \<Longrightarrow> placed (ResetOperation E code s)"
  using place.stack_facts(2) [of E code s] by (simp add: env_fits_def)

lemma placed_close: "env_fits L T E \<Longrightarrow> session_ok L T' s \<Longrightarrow> placed (DoClose E code s)"
  unfolding DoClose_def using placed_reset close_before by blast

lemma placed_close_default: "env_fits L T E \<Longrightarrow> session_ok L T' s \<Longrightarrow> placed (DoClose_default E s)"
  unfolding DoClose_default_def by (rule placed_close)

lemma is_mkd_put [simp]: "is_mkd (put_data d op) = (case d of MkdirOp _ \<Rightarrow> True | _ \<Rightarrow> False)"
  by (simp add: is_mkd_def split: op_data.splits)

lemma Parse_kind:
  "op_data op = MkdirOp d \<Longrightarrow> is_mkd (fst (snd (mkd_ParseResponse E d' op s)))"
  "op_data op = CwdOp d1 \<Longrightarrow> \<not> is_mkd (fst (snd (cwd_ParseResponse E d2 op s)))"
proof -
  show "is_mkd (fst (snd (mkd_ParseResponse E d' op s)))" if "op_data op = MkdirOp d"
  proof -
    have k: "is_mkd op" using that by (simp add: is_mkd_def)
    show ?thesis
      by (cases "mkd_state d'") (simp_all add: k mkd_ParseResponse_def mkd_Parse_mkdsub_def mkd_created_def Let_def case_prod_beta)
  qed
  show "\<not> is_mkd (fst (snd (cwd_ParseResponse E d2 op s)))" if "op_data op = CwdOp d1"
  proof -
    have k: "\<not> is_mkd op" using that by (simp add: is_mkd_def)
    show ?thesis
      by (cases "cw_state d2") (simp_all add: k cwd_ParseResponse_def cwd_Parse_cwd_def
        cwd_Parse_pwd_cwd_def cwd_Parse_subdir_def cwd_Parse_pwd_subdir_def Let_def case_prod_beta)
  qed
qed

lemma ParseResponse_kind: "is_mkd (fst (snd (op_ParseResponse E op s))) = is_mkd op"
proof (cases "op_data op")
  case (MkdirOp d)
  then show ?thesis using Parse_kind(1) [of op d E d s] by (simp add: op_ParseResponse_def is_mkd_def [of op])
next
  case (CwdOp d)
  then show ?thesis using Parse_kind(2) [of op d E d s] by (simp add: op_ParseResponse_def is_mkd_def [of op])
qed (simp_all add: op_ParseResponse_def is_mkd_def [of op] delete_ParseResponse_def rmd_ParseResponse_def rename_ParseResponse_def
    chmod_ParseResponse_def raw_ParseResponse_def Let_def case_prod_beta)

lemma placed_upd [simp]:
  "placed (s\<lparr>fs_pendingReplies := a\<rparr>) = placed s" "placed (s\<lparr>fs_repliesToSkip := a\<rparr>) = placed s"
  "placed (s\<lparr>fs_timer := t\<rparr>) = placed s" "placed (s\<lparr>fs_idleTimer := t\<rparr>) = placed s"
  "placed (SetWait E w s) = placed s" "placed (StartKeepaliveTimer E s) = placed s" "placed (SetAlive E s) = placed s"
  "placed (s\<lparr>fs_locks := m\<rparr>) = placed s" "placed (s\<lparr>fs_MultilineCode := l\<rparr>) = placed s" "placed (s\<lparr>fs_MultilineLines := ls\<rparr>) = placed s"
  "placed (s\<lparr>fs_Response := l\<rparr>) = placed s" "placed (s\<lparr>fs_wire := w'\<rparr>) = placed s" "placed (s\<lparr>fs_send_buffer := w'\<rparr>) = placed s"
  by (simp_all add: placed_def StartKeepaliveTimer_def SetAlive_def split: option.splits)

lemma handle_reply_placed:
  assumes E: "env_fits L T E" and ops: "fs_ops s = op # rest"
    and ok: "stack_shape (op # rest)" "locks_owned L s" "command_ok s" "fs_connected s"
      "fs_pendingReplies s = 0" "fs_repliesToSkip s = 0" and placed: "placed s"
  shows "placed (handle_reply E s)"
proof -
  obtain res op1 child s1 where r: "op_ParseResponse E op s = (res, op1, child, s1)" by (metis prod_cases4)
  note before = reply_before [OF ops r ok] and sc = shape_cases [OF ok(1) refl]
  have "placed (put_top None op1 rest s1)" if cont: "res = FZ_REPLY_CONTINUE"
  proof (cases "is_mkd op")
    case True
    then obtain d where d: "op_data op = MkdirOp d" by (rule is_mkdE)
    have "mkd_placed d (fs_currentPath s)" using placed ops d by (simp add: placed_def op_placed_def)
    from Parse_placed [OF d this] have "op_placed op1 (fs_currentPath s1)" using r cont d by (simp add: op_ParseResponse_def)
    then show ?thesis using sc(2) [OF True] by (simp add: placed_def child_list_def)
  next
    case False
    have "\<forall>x \<in> set rest. \<not> is_mkd x" using shape_no_mkd [OF ok(1)] False by simp
    moreover have "\<not> is_mkd op1" using ParseResponse_kind [of E op s] r False by simp
    ultimately show ?thesis by (intro placed_others) (simp add: child_list_def)
  qed
  then show ?thesis
    by (intro handle_reply_rule [where P = placed, OF ops r ok])
      (use placed_reset [OF E before(3)] placed_send [OF E before(6)] in simp_all)
qed

lemma ParseResponse_placed:
  assumes E: "env_fits L T E" and ok: "session_ok L T s" "fs_connected s" and final: "\<not> preliminary (fs_Response s)"
    and placed: "placed s"
  shows "placed (ParseResponse E s)"
proof (rule ParseResponse_rule [where P = placed, OF ok(1) final placed])
  have inv: "stack_shape (fs_ops s)" "locks_owned L s" "command_ok s" using ok by (simp_all add: session_ok_def)
  have s1: "locks_owned L (s\<lparr>fs_pendingReplies := n\<rparr>)" "command_ok (s\<lparr>fs_pendingReplies := n\<rparr>)"
    "placed (s\<lparr>fs_pendingReplies := n\<rparr>)" for n
    using inv placed by (simp_all add: locks_owned_def command_ok_def)
  show "placed (handle_reply E (s\<lparr>fs_pendingReplies := 0\<rparr>))"
    if "fs_ops s = op # rest" "fs_pendingReplies s = 1" "fs_repliesToSkip s = 0" for op rest
    by (rule handle_reply_placed [OF E]) (use that inv(1) s1 ok in simp_all)
  assume skip: "0 < fs_pendingReplies s" "fs_repliesToSkip s = fs_pendingReplies s"
  then obtain n where n: "fs_pendingReplies s = Suc n" "fs_repliesToSkip s = Suc n" by (cases "fs_pendingReplies s") simp_all
  let ?s1 = "SetWait E False (s\<lparr>fs_pendingReplies := n, fs_repliesToSkip := n\<rparr>)"
  have "before_send L ?s1" if "fs_ops s \<noteq> []"
    using that inv ok(2) by (simp add: before_send_def locks_owned_def command_ok_def)
  then have "placed (SendNextCommand E ?s1)" if "fs_ops s \<noteq> []" using that placed_send [OF E, of ?s1] placed by simp
  then show "placed (skip_reply E False (s\<lparr>fs_pendingReplies := fs_pendingReplies s - 1\<rparr>))"
    using placed n by (cases n) (auto simp: skip_reply_def Let_def)
qed

lemma ParseLine_placed:
  assumes E: "env_fits L T E" and ok: "session_ok L T s" "fs_connected s" "\<not> preliminary l" and placed: "placed s"
  shows "placed (ParseLine E l s)"
proof -
  have resp: "placed (on_response E l s1)" if "session_ok L T s1" "fs_connected s1" "placed s1" for s1
    using ParseResponse_placed [OF E, of "s1\<lparr>fs_Response := l\<rparr>"] that ok(3) by (simp add: on_response_def)
  have "session_ok L T (SetAlive E s)" "session_ok L T ((SetAlive E s)\<lparr>fs_MultilineCode := []\<rparr>)" using ok(1) by simp_all
  then show ?thesis
    using resp [of "SetAlive E s"] resp [of "(SetAlive E s)\<lparr>fs_MultilineCode := []\<rparr>"] placed_close [OF E, of T "SetAlive E s"] placed ok(2)
    by (simp add: ParseLine_def Let_def) (simp add: SetAlive_def)
qed

lemma OnSend_placed:
  assumes E: "env_fits L T E" and ok: "session_ok L T s" "placed s"
  shows "placed (OnSend E ws s)"
  using ok
proof (induction ws arbitrary: s)
  case (Cons w ws)
  then show ?case using Cons placed_close_default [OF E] by (cases w) auto
qed simp

lemma OnCommandEvent_placed:
  assumes E: "env_fits L T E" and ok: "session_ok L T s" "fs_connected s" "0 < fs_commandEvents s"
  shows "placed (OnCommandEvent E s)"
proof -
  obtain c where c: "fs_currentCommand s = Some c" and b: "before_send L (Push (command_op c) (s\<lparr>fs_commandEvents := 0\<rparr>))"
    and e: "fs_commandEvents s = 1" and ops: "fs_ops s = []"
    using OnCommandEvent_before [OF ok] by blast
  have "placed (Push (command_op c) (s\<lparr>fs_commandEvents := 0\<rparr>))"
    using ops by (cases c) (simp_all add: placed_def Push_def op_placed_def mkd_placed_def Delete_op_def RemoveDir_op_def Mkdir_op_def
        Rename_op_def Chmod_op_def RawCommand_op_def)
  then show ?thesis using placed_send [OF E b] c e by (simp add: OnCommandEvent_def)
qed

lemma OnTimer_placed:
  assumes E: "env_fits L T E" and ok: "session_ok L T s" "placed s"
  shows "placed (OnTimer E s)"
proof -
  have "session_ok L False (s\<lparr>fs_timer := b\<rparr>)" for b
    using ok by (cases "fs_ops s"; simp add: session_ok_def locks_owned_def command_ok_def in_step_def in_reply_def timed_def)+
  then have "placed (DoClose E code (s\<lparr>fs_timer := b\<rparr>))" for code b using placed_close [OF E] by blast
  then show ?thesis using ok(2) by (simp add: OnTimer_def Let_def)
qed

lemma OnIdleTimer_placed:
  assumes E: "env_fits L T E" and ok: "session_ok L T s" "fs_idleTimer s" "placed s"
  shows "placed (OnIdleTimer E s)"
proof -
  let ?s = "s\<lparr>fs_idleTimer := False\<rparr>"
  have s: "session_ok L T ?s" "fs_connected ?s"
    using ok by (cases "fs_ops s"; simp add: session_ok_def locks_owned_def command_ok_def in_step_def in_reply_def timed_def)+
  obtain res s1 where r: "SendCommand E (keepalive_command E ?s) ?s = (res, s1)" by fastforce
  have "placed s1 \<and> (res = FZ_REPLY_WOULDBLOCK \<or> s1 = ?s)" if "fs_ops s = []"
    using SendCommand_spec [OF r s(2)] ok(3) that by (auto simp: commanded_fields intro: placed_empty)
  then show ?thesis using ok(3) s(1) r placed_close [OF E] by (auto simp: OnIdleTimer_def Let_def)
qed

lemma step_placed:
  assumes "ftp_step V R s s'" "session_ok L T s" "placed s" "\<And>E. V E \<Longrightarrow> env_fits L T E" "\<And>line. R line \<Longrightarrow> \<not> preliminary line"
  shows "placed s'"
  using assms(1)
proof (cases rule: ftp_step.cases)
  case (st_execute c)
  then show ?thesis using assms(3) by (simp add: Execute_def placed_def)
next
  case (st_cancel E)
  have "placed (ResetOperation E FZ_REPLY_CANCELED s)" if "fs_ops s \<noteq> []"
    using placed_reset [OF assms(4) [OF st_cancel(2)] Cancel_before [OF assms(2) that]] .
  then show ?thesis using st_cancel assms(3) by (simp add: DoCancel_def Cancel_def)
next
  case (st_obtain E)
  obtain m got where o: "OpLock_ObtainWaiting L (fs_locks s) (fs_socket s) = (m, got)" by fastforce
  have E: "env_fits L T E" using st_obtain assms(4) by blast
  show ?thesis using OnObtainLock_before [OF assms(2) o] placed_send [OF E] o E st_obtain(1) assms(3)
    by (auto simp: OnObtainLock_def env_fits_def split: if_splits)
next
  case (st_invalidate E server path)
  then show ?thesis using assms(3) by (auto simp: OnInvalidateCurrentWorkingDir_def placed_def)
next
  case (st_others E)
  then show ?thesis using assms(3) by (auto simp: others_acted_def placed_def)
next
  case (st_command E)
  then show ?thesis using OnCommandEvent_placed [OF assms(4) assms(2)] by simp
next
  case (st_line E line)
  then show ?thesis using ParseLine_placed [OF assms(4) assms(2) _ assms(5) assms(3)] by simp
next
  case (st_send E ws)
  then show ?thesis using OnSend_placed [OF assms(4) assms(2,3)] by simp
next
  case (st_error E)
  then show ?thesis using placed_close_default [OF assms(4) assms(2)] by (simp add: OnSocketError_def)
next
  case (st_timer E)
  then show ?thesis using OnTimer_placed [OF assms(4) assms(2,3)] by simp
next
  case (st_idle E)
  then show ?thesis using OnIdleTimer_placed [OF assms(4) assms(2) _ assms(3)] by simp
qed

lemma reachable_placed:
  assumes "ftp_reachable V R L s" "\<And>E. V E \<Longrightarrow> env_fits L T E" "\<And>line. R line \<Longrightarrow> \<not> preliminary line"
  shows "placed s"
  using assms(1)
proof (induction rule: ftp_reachable.induct)
  case (reach_start s)
  then show ?case by (simp add: placed_def ftp_start_def)
next
  case (reach_step s s')
  then show ?case using step_placed reachable_ok [OF reach_step(1) assms(2,3)] assms(2,3) by blast
qed

text \<open>C10: A directory is only created by its bare name in the right place.  While the reply to
  \<open>MKD\<close> with the last name of the list is outstanding, the connection is in the directory
  the name is meant for, and creating the listed names one below the other, from the last one
  on, gives exactly the directory asked for (MVS marks the ends of its paths, so there only the
  place is certain).\<close>

theorem ftp_mkd_in_place:
  assumes "ftp_reachable V R L s" "\<forall>E. V E \<longrightarrow> fe_lib E = L" "\<forall>line. R line \<longrightarrow> \<not> preliminary line"
    and "fs_ops s = op # rest" "op_data op = MkdirOp d" "mkd_state d = mkd_mkdsub"
  shows "rest = [] \<and> mkd_segments d \<noteq> [] \<and> path_eq (fs_currentPath s) (mkd_currentMkdPath d) \<and>
    (m_type (mkd_path d) \<noteq> MVS \<longrightarrow>
       foldr (\<lambda>name p. snd (AddSegment p name)) (mkd_segments d) (fs_currentPath s) = mkd_path d)"
proof -
  have fits: "\<And>E. V E \<Longrightarrow> env_fits L False E" "\<And>line. R line \<Longrightarrow> \<not> preliminary line" using assms(2,3) by (simp_all add: env_fits_def)
  have p: "mkd_placed d (fs_currentPath s)"
    using reachable_placed [OF assms(1) fits] assms(4,5) by (simp add: placed_def op_placed_def)
  have shape: "stack_shape (op # rest)" using reachable_ok [OF assms(1) fits] assms(4) by (simp add: session_ok_def)
  have "rest = []" using shape_cases(2) [OF shape refl] assms(5) by (simp add: is_mkd_def)
  then show ?thesis using p assms(6) by (auto simp: mkd_placed_def leads_to_def add_segments_def)
qed

text \<open>The parent of \<open>/a/b/c\<close> did not exist, its parent did.\<close>

definition making_deep :: ftp_session where
  "making_deep = fold (ParseLine plain_env) [''550 no'', ''250 ok'']
     (OnCommandEvent plain_env (snd (Execute (CMkdirCommand (CServerPath_make ''/a/b/c'' UNIX)) fresh_session)))"

lemma making_deep_reachable: "ftp_reachable only_plain no_preliminary libfz_std making_deep"
  unfolding making_deep_def
proof (rule lines_reachable)
  let ?s = "OnCommandEvent plain_env (snd (Execute (CMkdirCommand (CServerPath_make ''/a/b/c'' UNIX)) fresh_session))"
  show "ftp_reachable only_plain no_preliminary libfz_std ?s" by (rule started_reachable) code_simp
  have "fs_connected ?s" "fs_connected (fold (ParseLine plain_env) [''550 no''] ?s)"
    "fs_connected (fold (ParseLine plain_env) [''550 no'', ''250 ok''] ?s)" by code_simp+
  then show "fs_connected (fold (ParseLine plain_env) (take n [''550 no'', ''250 ok'']) ?s)" for n
    by (cases n; cases "n - 1") simp_all
qed (simp_all add: preliminary_def)

theorem ftp_mkd_in_place_witness:
  "last (fs_sent making_deep) = ''MKD b'' \<and> path_eq (fs_currentPath making_deep) (CServerPath_make ''/a'' UNIX) \<and>
   foldr (\<lambda>name p. snd (AddSegment p name)) [''c'', ''b''] (fs_currentPath making_deep) = CServerPath_make ''/a/b/c'' UNIX"
proof -
  have "fs_ops making_deep \<noteq> []" by code_simp
  then obtain op rest where ops: "fs_ops making_deep = op # rest" by (cases "fs_ops making_deep") auto
  have s: "case op_data (hd (fs_ops making_deep)) of
      MkdirOp d \<Rightarrow> mkd_state d = mkd_mkdsub \<and> mkd_segments d = [''c'', ''b''] \<and> mkd_path d = CServerPath_make ''/a/b/c'' UNIX \<and>
        mkd_currentMkdPath d = CServerPath_make ''/a'' UNIX \<and> m_type (mkd_path d) \<noteq> MVS
    | _ \<Rightarrow> False" by code_simp
  then obtain d where d: "op_data op = MkdirOp d" using ops by (cases "op_data op") auto
  have "last (fs_sent making_deep) = ''MKD b''" "m_type (CServerPath_make ''/a/b/c'' UNIX) \<noteq> MVS" by code_simp+
  then show ?thesis
    using ftp_mkd_in_place [OF making_deep_reachable _ _ ops d] s ops d by (auto simp: plain_env_def)
qed

end
