(* ===== verification/Local_Path.thy ===== *)
theory Local_Path
  imports FZ_Lib
begin

text \<open>
  \<open>engine/local_path.cpp\<close>, built for a system other than Windows: absolute paths of the local
  machine, \<open>/\<close> or \<open>/foo/bar/\<close>.  \<open>SetPath\<close> writes the canonical text into a
  buffer that it allocates beforehand; a write behind the end of the buffer is the result
  \<^term>\<open>None\<close>.  The asserts of \<open>AddSegment\<close> and \<open>GetLastSegment\<close> are not
  part of release builds and are preconditions here.
\<close>

type_synonym CLocalPath = wstring

abbreviation path_separator :: char where
  "path_separator \<equiv> CHR ''/''"

subsection \<open>SetPath\<close>

datatype local_last = last_separator | last_dot | last_dotdot | last_segment

text \<open>The units written so far, from \<open>start\<close> to \<open>out\<close>, and the positions in the buffer at
  which the segments begin.\<close>

record local_scan =
  ls_out :: wstring
  ls_segments :: "nat list"
  ls_last :: local_last

definition local_put :: "nat \<Rightarrow> char \<Rightarrow> local_scan \<Rightarrow> local_scan option" where
  "local_put cap c st = (if length (ls_out st) < cap then Some (st\<lparr>ls_out := ls_out st @ [c]\<rparr>) else None)"

definition local_back :: "local_scan \<Rightarrow> local_scan" where
  "local_back st = st\<lparr>ls_out := take (last (ls_segments st)) (ls_out st)\<rparr>"

definition local_pop :: "local_scan \<Rightarrow> local_scan" where
  "local_pop st = (if length (ls_segments st) > 1 then st\<lparr>ls_segments := butlast (ls_segments st)\<rparr> else st)"

definition local_push :: "local_scan \<Rightarrow> local_scan" where
  "local_push st = st\<lparr>ls_segments := ls_segments st @ [length (ls_out st)]\<rparr>"

definition local_step :: "nat \<Rightarrow> char \<Rightarrow> local_scan \<Rightarrow> local_scan option" where
  "local_step cap c st =
     (if c = path_separator then
        (case ls_last st of
           last_separator \<Rightarrow> Some st
         | last_dot \<Rightarrow> Some (local_back (st\<lparr>ls_last := last_separator\<rparr>))
         | last_dotdot \<Rightarrow> Some (local_back (local_pop (st\<lparr>ls_last := last_separator\<rparr>)))
         | last_segment \<Rightarrow>
             map_option (\<lambda>st1. (local_push st1)\<lparr>ls_last := last_separator\<rparr>) (local_put cap path_separator st))
      else if c = CHR ''.'' then
        local_put cap c (st\<lparr>ls_last :=
          (case ls_last st of last_separator \<Rightarrow> last_dot | last_dot \<Rightarrow> last_dotdot
            | last_dotdot \<Rightarrow> last_segment | last_segment \<Rightarrow> last_segment)\<rparr>)
      else local_put cap c (st\<lparr>ls_last := last_segment\<rparr>))"

fun local_loop :: "nat \<Rightarrow> wstring \<Rightarrow> local_scan \<Rightarrow> local_scan option" where
  "local_loop cap [] st = Some st"
| "local_loop cap (c # cs) st = Option.bind (local_step cap c st) (local_loop cap cs)"

text \<open>The end of the input; the second component is what is written to \<open>*file\<close>, which
  the caller may leave out.\<close>

definition local_finish :: "nat \<Rightarrow> bool \<Rightarrow> local_scan \<Rightarrow> (local_scan \<times> wstring option) option" where
  "local_finish cap wants_file st =
     (case ls_last st of
        last_separator \<Rightarrow> Some (st, None)
      | last_dot \<Rightarrow> Some (local_back st, None)
      | last_dotdot \<Rightarrow> Some (local_back (local_pop st), None)
      | last_segment \<Rightarrow>
          if wants_file then Some (local_back st, Some (drop (last (ls_segments st)) (ls_out st)))
          else map_option (\<lambda>st1. (st1, None)) (local_put cap path_separator st))"

definition LocalPath_SetPath :: "wstring \<Rightarrow> bool \<Rightarrow> (bool \<times> CLocalPath \<times> wstring option) option" where
  "LocalPath_SetPath path wants_file =
     (if path = [] then Some (False, [], None)
      else
        let cap = length path + 1
        in case c_str path of
             [] \<Rightarrow> Some (False, [], None)
           | c # cs \<Rightarrow>
               if c \<noteq> path_separator then Some (False, [], None)
               else Option.bind (local_put cap path_separator \<lparr>ls_out = [], ls_segments = [], ls_last = last_separator\<rparr>)
                 (\<lambda>st. Option.bind (local_loop cap cs (local_push st))
                   (\<lambda>st1. map_option (\<lambda>(st2, file). (True, ls_out st2, file)) (local_finish cap wants_file st1))))"

definition CLocalPath_make :: "wstring \<Rightarrow> CLocalPath option" where
  "CLocalPath_make path = map_option (\<lambda>(ok, p, file). p) (LocalPath_SetPath path False)"

definition LocalPath_ChangePath :: "CLocalPath \<Rightarrow> wstring \<Rightarrow> bool \<Rightarrow> (bool \<times> CLocalPath \<times> wstring option) option" where
  "LocalPath_ChangePath p new_path wants_file =
     (case new_path of
        [] \<Rightarrow> Some (False, p, None)
      | c # _ \<Rightarrow>
          if c = path_separator then LocalPath_SetPath new_path wants_file
          else if p = [] then Some (False, p, None)
          else LocalPath_SetPath (p @ new_path) wants_file)"

subsection \<open>Parents and segments\<close>

text \<open>The loops that look for a separator from the last but one unit down to the first.\<close>

definition local_parent_sep :: "CLocalPath \<Rightarrow> nat option" where
  "local_parent_sep p = rfind_idx (\<lambda>c. c = path_separator) (butlast p)"

definition LocalPath_HasParent :: "CLocalPath \<Rightarrow> bool" where
  "LocalPath_HasParent p \<longleftrightarrow> local_parent_sep p \<noteq> None"

definition LocalPath_HasLogicalParent :: "CLocalPath \<Rightarrow> bool" where
  "LocalPath_HasLogicalParent p = LocalPath_HasParent p"

text \<open>\<open>substr(i + 1, size() - i - 2)\<close>.\<close>

definition local_segment_at :: "CLocalPath \<Rightarrow> nat \<Rightarrow> wstring" where
  "local_segment_at p i = take (length p - i - 2) (drop (i + 1) p)"

definition LocalPath_GetParent :: "CLocalPath \<Rightarrow> (CLocalPath \<times> wstring option) option" where
  "LocalPath_GetParent p =
     (case local_parent_sep p of
        Some i \<Rightarrow> map_option (\<lambda>q. (q, Some (local_segment_at p i))) (CLocalPath_make (take (i + 1) p))
      | None \<Rightarrow> Some ([], None))"

definition LocalPath_MakeParent :: "CLocalPath \<Rightarrow> bool \<times> CLocalPath \<times> wstring option" where
  "LocalPath_MakeParent p =
     (case local_parent_sep p of
        Some i \<Rightarrow> (True, take (i + 1) p, Some (local_segment_at p i))
      | None \<Rightarrow> (False, p, None))"

definition LocalPath_GetLastSegment :: "CLocalPath \<Rightarrow> wstring" where
  "LocalPath_GetLastSegment p =
     (case local_parent_sep p of Some i \<Rightarrow> local_segment_at p i | None \<Rightarrow> [])"

definition LocalPath_AddSegment :: "CLocalPath \<Rightarrow> wstring \<Rightarrow> CLocalPath" where
  "LocalPath_AddSegment p seg = (if seg \<noteq> [] then p @ seg @ [path_separator] else p)"

definition LocalPath_IsWriteable :: "CLocalPath \<Rightarrow> bool" where
  "LocalPath_IsWriteable p \<longleftrightarrow> p \<noteq> []"

subsection \<open>Comparison\<close>

fun local_compare_loop :: "wstring list \<Rightarrow> wstring list \<Rightarrow> int" where
  "local_compare_loop (l # ls) (r # rs) =
     (let c = str_compare l r in if c \<noteq> 0 then c else local_compare_loop ls rs)"
| "local_compare_loop (l # ls) [] = 1"
| "local_compare_loop [] (r # rs) = -1"
| "local_compare_loop [] [] = 0"

definition local_do_compare :: "libfz \<Rightarrow> CLocalPath \<Rightarrow> CLocalPath \<Rightarrow> int" where
  "local_do_compare L l r =
     local_compare_loop (fz_strtokenizer L l [path_separator] False) (fz_strtokenizer L r [path_separator] False)"

definition local_less :: "libfz \<Rightarrow> CLocalPath \<Rightarrow> CLocalPath \<Rightarrow> bool" where
  "local_less L l r \<longleftrightarrow> local_do_compare L l r < 0"

definition LocalPath_compare_case :: "libfz \<Rightarrow> CLocalPath \<Rightarrow> CLocalPath \<Rightarrow> int" where
  "LocalPath_compare_case L l r = local_do_compare L l r"

definition LocalPath_IsParentOf :: "CLocalPath \<Rightarrow> CLocalPath \<Rightarrow> bool" where
  "LocalPath_IsParentOf p path \<longleftrightarrow>
     p \<noteq> [] \<and> path \<noteq> [] \<and> length p < length path \<and> take (length p) path = p"

definition LocalPath_IsSubdirOf :: "CLocalPath \<Rightarrow> CLocalPath \<Rightarrow> bool" where
  "LocalPath_IsSubdirOf p path = LocalPath_IsParentOf path p"

subsection \<open>Exists\<close>

text \<open>The system calls: the value they return and, when it is zero, whether the object is a
  directory or a symbolic link.\<close>

record stat_result =
  sr_result :: int
  sr_is_dir :: bool
  sr_is_link :: bool

record local_fs =
  lf_to_string :: "wstring \<Rightarrow> string"
  lf_lstat :: "string \<Rightarrow> stat_result"
  lf_stat :: "string \<Rightarrow> stat_result"

datatype local_error = No_path_given | Not_a_directory | Cannot_be_accessed

definition ENOTDIR :: int where
  "ENOTDIR = 20"

text \<open>The path for the system calls, without the separator at its end.\<close>

definition local_stat_path :: "local_fs \<Rightarrow> CLocalPath \<Rightarrow> string" where
  "local_stat_path fs p = (let s = lf_to_string fs p in if length s > 1 then butlast s else s)"

text \<open>The result, what is written to \<open>*is_link\<close> and the error text.\<close>

definition LocalPath_Exists :: "local_fs \<Rightarrow> CLocalPath \<Rightarrow> bool \<Rightarrow> bool \<times> bool \<times> local_error option" where
  "LocalPath_Exists fs p wants_link =
     (if p = [] then (False, False, Some No_path_given)
      else
        let path = local_stat_path fs p;
            buf = lf_lstat fs path;
            link = (sr_result buf = 0 \<and> wants_link \<and> sr_is_link buf);
            buf1 = (if link then lf_stat fs path else buf)
        in if sr_result buf1 = 0 then
             (if sr_is_dir buf1 then (True, link, None) else (False, link, Some Not_a_directory))
           else if sr_result buf1 = ENOTDIR then (False, link, Some Not_a_directory)
           else (False, link, Some Cannot_be_accessed))"

end
