(* ===== verification/Local_Path_Props.thy ===== *)
theory Local_Path_Props
  imports Local_Path FZ_Order "HOL-Library.Sublist"
begin

text \<open>
  Local paths against lists of names: what \<open>SetPath\<close> computes in its buffer is the fold of
  one rule over the pieces between the separators, and the comparison is the one of the lists.
\<close>

subsection \<open>Lists of names\<close>

definition local_name :: "wstring \<Rightarrow> bool" where
  "local_name s \<longleftrightarrow> s \<noteq> [] \<and> s \<noteq> ''.'' \<and> s \<noteq> ''..'' \<and> path_separator \<notin> set s \<and> nul \<notin> set s"

definition local_text :: "wstring list \<Rightarrow> CLocalPath" where
  "local_text ss = path_separator # concat (map (\<lambda>s. s @ [path_separator]) ss)"

definition local_canon :: "CLocalPath \<Rightarrow> bool" where
  "local_canon p \<longleftrightarrow> (\<exists>ss. list_all local_name ss \<and> p = local_text ss)"

text \<open>What a piece of a path does to the names before it.\<close>

definition resolve_name :: "wstring list \<Rightarrow> wstring \<Rightarrow> wstring list" where
  "resolve_name ss t =
     (if t = [] \<or> t = ''.'' then ss else if t = ''..'' then butlast ss else ss @ [t])"

definition resolve :: "wstring list \<Rightarrow> wstring \<Rightarrow> wstring list" where
  "resolve ss path = foldl resolve_name ss (split_at {path_separator} path)"

lemma local_text_snoc: "local_text (ss @ [s]) = local_text ss @ s @ [path_separator]"
  by (simp add: local_text_def)

lemma local_text_append: "local_text (ss @ ts) = local_text ss @ tl (local_text ts)"
  by (simp add: local_text_def)

lemma local_text_nonempty [simp]: "local_text ss \<noteq> []"
  by (simp add: local_text_def)

lemma hd_local_text [simp]: "hd (local_text ss) = path_separator"
  by (simp add: local_text_def)

lemma split_at_clean_parts: "\<forall>t \<in> set (split_at ds s). \<forall>c \<in> set t. c \<notin> ds \<and> c \<in> set s"
  by (induction s) (auto split: list.splits)

lemma split_at_text:
  "list_all local_name ss \<Longrightarrow> split_at {path_separator} (tl (local_text ss) @ rest) = ss @ split_at {path_separator} rest"
proof (induction ss)
  case (Cons s ss)
  then have "\<forall>c \<in> set s. c \<notin> {path_separator}" by (auto simp: local_name_def)
  then show ?case using Cons by (simp add: local_text_def split_at_join_step)
qed (simp add: local_text_def)

lemma split_at_local_text:
  "list_all local_name ss \<Longrightarrow> split_at {path_separator} (local_text ss @ rest) = [] # ss @ split_at {path_separator} rest"
  using split_at_text [of ss rest] by (simp add: local_text_def)

lemma local_text_inject:
  assumes "list_all local_name ss" "list_all local_name ts"
  shows "local_text ss = local_text ts \<longleftrightarrow> ss = ts"
proof
  assume "local_text ss = local_text ts"
  then have "[] # ss @ [[]] = [] # ts @ [[]]"
    using split_at_local_text [OF assms(1), of "[]"] split_at_local_text [OF assms(2), of "[]"] by simp
  then show "ss = ts" by simp
qed simp

lemma resolve_name_ok:
  "list_all local_name ss \<Longrightarrow> path_separator \<notin> set t \<Longrightarrow> nul \<notin> set t \<Longrightarrow> list_all local_name (resolve_name ss t)"
  by (auto simp: resolve_name_def local_name_def list_all_iff dest: in_set_butlastD)

lemma foldl_resolve_ok:
  "list_all local_name ss \<Longrightarrow> (\<And>t. t \<in> set ts \<Longrightarrow> path_separator \<notin> set t \<and> nul \<notin> set t) \<Longrightarrow>
   list_all local_name (foldl resolve_name ss ts)"
  by (induction ts arbitrary: ss) (simp_all add: resolve_name_ok)

lemma resolve_ok: "list_all local_name ss \<Longrightarrow> nul \<notin> set path \<Longrightarrow> list_all local_name (resolve ss path)"
  unfolding resolve_def by (rule foldl_resolve_ok) (use split_at_clean_parts [of "{path_separator}" path] in auto)

lemma foldl_resolve_names: "list_all local_name ts \<Longrightarrow> foldl resolve_name ss ts = ss @ ts"
  by (induction ts arbitrary: ss) (simp_all add: resolve_name_def local_name_def)

lemma resolve_local_text:
  "list_all local_name ss \<Longrightarrow> resolve [] (local_text ss @ rest) = resolve ss rest"
  by (simp add: resolve_def split_at_local_text foldl_resolve_names resolve_name_def [of "[]" "[]"])

lemma resolve_absolute: "resolve ss (path_separator # rest) = resolve ss rest"
  by (simp add: resolve_def resolve_name_def)

subsection \<open>The loop\<close>

text \<open>Where the names begin in the text, and after the last one.\<close>

fun starts :: "nat \<Rightarrow> wstring list \<Rightarrow> nat list" where
  "starts n [] = [n]"
| "starts n (s # ss) = n # starts (n + length s + 1) ss"

lemma starts_nonempty [simp]: "starts n ss \<noteq> []"
  by (cases ss) simp_all

lemma length_starts [simp]: "length (starts n ss) = length ss + 1"
  by (induction ss arbitrary: n) simp_all

lemma starts_snoc: "starts n (ss @ [s]) = starts n ss @ [last (starts n ss) + length s + 1]"
  by (induction ss arbitrary: n) simp_all

lemma last_starts: "last (starts (Suc 0) ss) = length (local_text ss)"
proof (induction ss rule: rev_induct)
  case (snoc s ss)
  then show ?case by (simp add: starts_snoc local_text_snoc)
qed (simp add: local_text_def)

lemma butlast_starts: "ss \<noteq> [] \<Longrightarrow> butlast (starts n ss) = starts n (butlast ss)"
  by (cases ss rule: rev_cases) (simp_all add: starts_snoc)

definition name_class :: "wstring \<Rightarrow> local_last" where
  "name_class t =
     (if t = [] then last_separator else if t = ''.'' then last_dot else if t = ''..'' then last_dotdot else last_segment)"

definition scan_at :: "local_scan \<Rightarrow> wstring list \<Rightarrow> wstring \<Rightarrow> bool" where
  "scan_at st ss t \<longleftrightarrow>
     ls_out st = local_text ss @ t \<and> ls_segments st = starts (Suc 0) ss \<and> ls_last st = name_class t \<and> path_separator \<notin> set t"

lemma scan_at_back: "scan_at st ss t \<Longrightarrow> scan_at ((local_back st)\<lparr>ls_last := last_separator\<rparr>) ss []"
  by (simp add: scan_at_def local_back_def last_starts name_class_def)

lemma scan_at_pop:
  assumes "scan_at st ss t"
  shows "scan_at ((local_back (local_pop st))\<lparr>ls_last := last_separator\<rparr>) (butlast ss) []"
proof (cases "ss = []")
  case False
  then have "local_text ss = local_text (butlast ss) @ last ss @ [path_separator]"
    by (metis append_butlast_last_id local_text_snoc)
  then show ?thesis using assms False
    by (simp add: scan_at_def local_back_def local_pop_def butlast_starts last_starts name_class_def)
qed (use assms in \<open>simp add: scan_at_def local_back_def local_pop_def name_class_def local_text_def\<close>)

lemma name_class_snoc:
  assumes "c \<noteq> path_separator"
  shows "name_class (t @ [c]) =
    (if c = CHR ''.'' then (case name_class t of last_separator \<Rightarrow> last_dot | last_dot \<Rightarrow> last_dotdot
       | last_dotdot \<Rightarrow> last_segment | last_segment \<Rightarrow> last_segment) else last_segment)"
  by (auto simp: name_class_def append_eq_Cons_conv)

lemma scan_step:
  assumes "scan_at st ss t" "length (ls_out st) < cap"
  obtains st' where "local_step cap c st = Some st'" "length (ls_out st') \<le> length (ls_out st) + 1"
    and "if c = path_separator then scan_at st' (resolve_name ss t) [] else scan_at st' ss (t @ [c])"
proof (cases "c = path_separator")
  case False
  have cls: "ls_last st = name_class t" using assms(1) by (simp add: scan_at_def)
  define l where "l = name_class (t @ [c])"
  have "local_step cap c st = Some (st\<lparr>ls_last := l, ls_out := ls_out st @ [c]\<rparr>)"
    using False assms(2) by (simp add: local_step_def local_put_def cls l_def name_class_snoc)
  moreover have "scan_at (st\<lparr>ls_last := l, ls_out := ls_out st @ [c]\<rparr>) ss (t @ [c])"
    using False assms(1) by (simp add: scan_at_def l_def)
  ultimately show thesis using that False by simp
next
  case True
  have cls: "ls_last st = name_class t" using assms(1) by (simp add: scan_at_def)
  consider "t = []" | "t = ''.''" | "t = ''..''" | "t \<noteq> []" "t \<noteq> ''.''" "t \<noteq> ''..''" by blast
  then show thesis
  proof cases
    case 1
    then show thesis using that [of st] assms(1) True
      by (simp add: local_step_def cls name_class_def resolve_name_def)
  next
    case 2
    then have step: "local_step cap c st = Some ((local_back st)\<lparr>ls_last := last_separator\<rparr>)"
      using True by (simp add: local_step_def cls name_class_def local_back_def)
    have "length (ls_out (local_back st)) \<le> length (ls_out st)" by (simp add: local_back_def)
    then show thesis using that [OF step] True 2 scan_at_back [OF assms(1)]
      by (simp add: resolve_name_def)
  next
    case 3
    then have step: "local_step cap c st = Some ((local_back (local_pop st))\<lparr>ls_last := last_separator\<rparr>)"
      using True by (simp add: local_step_def cls name_class_def local_back_def local_pop_def)
    have "length (ls_out (local_back (local_pop st))) \<le> length (ls_out st)" by (simp add: local_back_def local_pop_def)
    then show thesis using that [OF step] True 3 scan_at_pop [OF assms(1)]
      by (simp add: resolve_name_def)
  next
    case 4
    let ?st = "(local_push (st\<lparr>ls_out := ls_out st @ [path_separator]\<rparr>))\<lparr>ls_last := last_separator\<rparr>"
    have "local_step cap c st = Some ?st"
      using True assms(2) 4 by (simp add: local_step_def cls name_class_def local_put_def)
    moreover have "scan_at ?st (ss @ [t]) []" using assms(1)
      by (simp add: scan_at_def local_push_def local_text_snoc starts_snoc last_starts name_class_def)
    ultimately show thesis using that True 4 by (simp add: resolve_name_def local_push_def)
  qed
qed

lemma scan_loop:
  assumes "scan_at st ss t" "length (ls_out st) + length cs < cap"
  obtains st' ts u where "local_loop cap cs st = Some st'" "length (ls_out st') < cap"
    and "split_at {path_separator} (t @ cs) = ts @ [u]" "scan_at st' (foldl resolve_name ss ts) u"
  using assms
proof (induction cs arbitrary: st ss t thesis)
  case Nil
  have "\<forall>x \<in> set t. x \<notin> {path_separator}" using Nil.prems(2) by (auto simp: scan_at_def)
  then have "split_at {path_separator} (t @ []) = [] @ [t]" by (simp add: split_at_clean)
  then show ?case using Nil.prems(1) [of st "[]" t] Nil.prems(2,3) by simp
next
  case (Cons c cs)
  obtain st1 where st1: "local_step cap c st = Some st1" "length (ls_out st1) \<le> length (ls_out st) + 1"
    "if c = path_separator then scan_at st1 (resolve_name ss t) [] else scan_at st1 ss (t @ [c])"
    using scan_step [OF Cons.prems(2), of cap c] Cons.prems(3) by auto
  have room: "length (ls_out st1) + length cs < cap" using st1(2) Cons.prems(3) by simp
  have clean: "\<forall>x \<in> set t. x \<notin> {path_separator}" using Cons.prems(2) by (auto simp: scan_at_def)
  show ?case
  proof (cases "c = path_separator")
    case True
    then have "scan_at st1 (resolve_name ss t) []" using st1(3) by simp
    from Cons.IH [OF _ this room] obtain st' ts u where "local_loop cap cs st1 = Some st'"
      "length (ls_out st') < cap" "split_at {path_separator} cs = ts @ [u]"
      "scan_at st' (foldl resolve_name (resolve_name ss t) ts) u" by auto
    then show ?thesis using Cons.prems(1) [of st' "t # ts" u] st1(1) True
        split_at_join_step [OF clean, of c cs] by simp
  next
    case False
    then have "scan_at st1 ss (t @ [c])" using st1(3) by simp
    from Cons.IH [OF _ this room] obtain st' ts u where "local_loop cap cs st1 = Some st'"
      "length (ls_out st') < cap" "split_at {path_separator} ((t @ [c]) @ cs) = ts @ [u]"
      "scan_at st' (foldl resolve_name ss ts) u" by blast
    then show ?thesis using Cons.prems(1) [of st' ts u] st1(1) by simp
  qed
qed

subsection \<open>SetPath\<close>

lemma scan_finish:
  assumes "scan_at st ss t" "length (ls_out st) < cap"
  shows "map_option (\<lambda>(st2, f). (True, ls_out st2, f)) (local_finish cap wants_file st) =
    Some (True, if wants_file \<and> name_class t = last_segment then (local_text ss, Some t)
                else (local_text (resolve_name ss t), None))"
proof -
  have pos: "last (ls_segments st) = length (local_text ss)" "ls_out st = local_text ss @ t" "ls_last st = name_class t"
    using assms(1) by (simp_all add: scan_at_def last_starts)
  consider "t = []" | "t = ''.''" | "t = ''..''" | "t \<noteq> []" "t \<noteq> ''.''" "t \<noteq> ''..''" by blast
  then show ?thesis
  proof cases
    case 3
    then show ?thesis using scan_at_pop [OF assms(1)]
      by (simp add: local_finish_def pos name_class_def resolve_name_def scan_at_def)
  next
    case 4
    then show ?thesis using assms(2)
      by (simp add: local_finish_def pos name_class_def resolve_name_def local_back_def local_put_def local_text_snoc)
  qed (simp_all add: local_finish_def pos name_class_def resolve_name_def local_back_def)
qed

text \<open>What \<open>SetPath\<close> is for: the names a path resolves to, or the names before its last
  piece and that piece.\<close>

definition set_path_spec :: "wstring \<Rightarrow> bool \<Rightarrow> bool \<times> CLocalPath \<times> wstring option" where
  "set_path_spec path wants_file =
     (if path = [] \<or> hd path \<noteq> path_separator then (False, [], None)
      else
        let ts = split_at {path_separator} path
        in if wants_file \<and> local_name (last ts) then (True, local_text (foldl resolve_name [] (butlast ts)), Some (last ts))
           else (True, local_text (resolve [] path), None))"

lemma nul_free_c_str [simp]: "nul_free (c_str path)"
  by (auto simp: nul_free_def c_str_def dest: set_takeWhileD)

lemma SetPath_spec: "LocalPath_SetPath path wants_file = Some (set_path_spec (c_str path) wants_file)"
proof (cases "c_str path")
  case (Cons c cs)
  have "length (c_str path) \<le> length path" by (simp add: c_str_def length_takeWhile_le)
  then have room: "length cs < length path" using Cons by simp
  then have path: "path \<noteq> []" by auto
  show ?thesis
  proof (cases "c = path_separator")
    case True
    let ?st = "local_push \<lparr>ls_out = [path_separator], ls_segments = [], ls_last = last_separator\<rparr>"
    have start: "scan_at ?st [] []" "length (ls_out ?st) + length cs < length path + 1"
      using room by (simp_all add: scan_at_def local_push_def local_text_def name_class_def)
    obtain st' ts u where loop: "local_loop (length path + 1) cs ?st = Some st'" "length (ls_out st') < length path + 1"
      "split_at {path_separator} ([] @ cs) = ts @ [u]" "scan_at st' (foldl resolve_name [] ts) u"
      using scan_loop [OF start] by metis
    have parts: "split_at {path_separator} (c_str path) = ([] # ts) @ [u]" using Cons True loop(3) by simp
    then have "u \<in> set (split_at {path_separator} (c_str path))" by simp
    then have "\<forall>x \<in> set u. x \<noteq> nul \<and> x \<noteq> path_separator"
      using split_at_clean_parts [of "{path_separator}" "c_str path"] nul_free_c_str [of path]
      by (auto simp: nul_free_def)
    then have u: "name_class u = last_segment \<longleftrightarrow> local_name u" by (auto simp: name_class_def local_name_def)
    have "LocalPath_SetPath path wants_file =
        map_option (\<lambda>(st2, f). (True, ls_out st2, f)) (local_finish (length path + 1) wants_file st')"
      using Cons True path loop(1) by (simp add: LocalPath_SetPath_def local_put_def Let_def)
    also have "\<dots> = Some (True, if wants_file \<and> local_name u then (local_text (foldl resolve_name [] ts), Some u)
        else (local_text (resolve_name (foldl resolve_name [] ts) u), None))"
      using scan_finish [OF loop(4,2)] u by simp
    also have "\<dots> = Some (set_path_spec (c_str path) wants_file)"
      using Cons True parts by (simp add: set_path_spec_def resolve_def resolve_name_def [of "[]" "[]"] Let_def)
    finally show ?thesis .
  qed (use Cons path in \<open>simp add: LocalPath_SetPath_def set_path_spec_def Let_def\<close>)
qed (simp add: LocalPath_SetPath_def set_path_spec_def Let_def)

lemma SetPath_resolves:
  "nul_free path \<Longrightarrow> path \<noteq> [] \<Longrightarrow> hd path = path_separator \<Longrightarrow>
   LocalPath_SetPath path False = Some (True, local_text (resolve [] path), None)"
  by (simp add: SetPath_spec set_path_spec_def Let_def)

text \<open>
  Properties of local paths: \<open>SetPath\<close> and \<open>ChangePath\<close> resolve names, parents and
  containment form the tree of lists of names, and the order keeps every subtree together.
\<close>

subsection \<open>The order\<close>

lemma Nil_less_iff: "[] < (xs :: 'a :: linorder list) \<longleftrightarrow> xs \<noteq> []"
  by (cases xs) auto

lemma compare_loop_names:
  "list_all local_name ss \<Longrightarrow> list_all local_name ts \<Longrightarrow>
   local_compare_loop (ss @ [[]]) (ts @ [[]]) = (if ss < ts then - 1 else if ts < ss then 1 else 0)"
proof (induction ss ts rule: list_induct2')
  case (4 s ss t ts)
  then show ?case by (auto simp: Let_def str_compare_def)
qed (simp_all add: str_compare_def local_name_def Let_def Nil_less_iff)

lemma do_compare_text:
  assumes "tokenizer_all_law L" "list_all local_name ss" "list_all local_name ts"
  shows "local_do_compare L (local_text ss) (local_text ts) = (if ss < ts then - 1 else if ts < ss then 1 else 0)"
  using split_at_local_text [OF assms(2), of "[]"] split_at_local_text [OF assms(3), of "[]"] assms(1)
    compare_loop_names [OF assms(2,3)]
  by (simp add: local_do_compare_def tokenizer_all_law_def str_compare_def Let_def)

lemma local_less_text:
  "tokenizer_all_law L \<Longrightarrow> list_all local_name ss \<Longrightarrow> list_all local_name ts \<Longrightarrow>
   local_less L (local_text ss) (local_text ts) \<longleftrightarrow> ss < ts"
  by (simp add: local_less_def do_compare_text)

lemma compare_loop_same: "local_compare_loop ss ss = 0"
  by (induction ss) (simp_all add: Let_def)

lemma between_prefix:
  fixes ss ts us :: "'a :: linorder list"
  assumes "ss \<le> ts" "ts \<le> ss @ us"
  shows "prefix ss ts"
  using assms
proof (induction ss arbitrary: ts)
  case (Cons s ss)
  then show ?case by (cases ts) auto
qed simp

lemma less_append: "(xs :: 'a :: linorder list) < xs @ y # ys"
  by (induction xs) simp_all

text \<open>A container keyed by local paths is a finite map.\<close>

interpretation local_order: key_order "local_less libfz_std" local_canon
proof unfold_locales
  have std: "tokenizer_all_law libfz_std" by (rule libfz_std_laws)
  show "\<not> local_less libfz_std a a" for a by (simp add: local_less_def local_do_compare_def compare_loop_same)
  fix a b c
  show "local_less libfz_std a c" if "local_canon a" "local_canon b" "local_canon c"
    "local_less libfz_std a b" "local_less libfz_std b c"
    using that unfolding local_canon_def by (auto simp: local_less_text [OF std])
  show "local_less libfz_std a b \<or> a = b \<or> local_less libfz_std b a" if "local_canon a" "local_canon b"
    using that unfolding local_canon_def by (auto simp: local_less_text [OF std] local_text_inject)
qed simp_all

subsection \<open>The tree\<close>

lemma IsParentOf_text:
  assumes "list_all local_name ss" "list_all local_name ts"
  shows "LocalPath_IsParentOf (local_text ss) (local_text ts) \<longleftrightarrow> strict_prefix ss ts"
proof
  assume "strict_prefix ss ts"
  then obtain s us where "ts = ss @ s # us" by (rule strict_prefixE')
  then show "LocalPath_IsParentOf (local_text ss) (local_text ts)"
    by (simp add: LocalPath_IsParentOf_def local_text_append local_text_def [of "s # us"])
next
  assume par: "LocalPath_IsParentOf (local_text ss) (local_text ts)"
  then have len: "length (local_text ss) < length (local_text ts)" by (simp add: LocalPath_IsParentOf_def)
  define rest where "rest = drop (length (local_text ss)) (local_text ts)"
  have split: "local_text ts = local_text ss @ rest"
    using par unfolding rest_def LocalPath_IsParentOf_def by (metis append_take_drop_id)
  have "[] # ts @ [[]] = [] # ss @ split_at {path_separator} rest"
    using split_at_local_text [OF assms(1), of rest] split_at_local_text [OF assms(2), of "[]"] split by simp
  then have eq: "ts @ [[]] = ss @ split_at {path_separator} rest" by simp
  have "\<not> length ts < length ss"
  proof
    assume "length ts < length ss"
    then have "(ts @ [[]]) ! length ts = ss ! length ts" unfolding eq by (simp add: nth_append)
    then have "ss ! length ts = []" by simp
    then show False using assms(1) \<open>length ts < length ss\<close> by (auto simp: list_all_length local_name_def)
  qed
  then have "take (length ss) ts = ss" using arg_cong [OF eq, of "take (length ss)"] by simp
  then have "prefix ss ts" by (metis take_is_prefix)
  then show "strict_prefix ss ts" using len by (auto simp: strict_prefix_def)
qed

lemma parent_sep_text:
  assumes "local_name s"
  shows "local_parent_sep (local_text (ss @ [s])) = Some (length (local_text ss) - 1)"
proof -
  have "local_text ss = butlast (local_text ss) @ [path_separator]"
    by (cases ss rule: rev_cases) (simp_all add: local_text_def butlast_append)
  then obtain pre where pre: "local_text ss = pre @ [path_separator]" by blast
  have "rfind_idx (\<lambda>c. c = path_separator) (pre @ path_separator # s) = Some (length pre)"
    using assms by (intro rfind_idx_append_clean) (auto simp: local_name_def)
  then show ?thesis by (simp add: local_parent_sep_def local_text_snoc pre butlast_append)
qed

lemma segment_at_text: "local_segment_at (local_text (ss @ [s])) (length (local_text ss) - 1) = s"
proof -
  have "0 < length (local_text ss)" by simp
  then have "Suc (length (local_text ss) - 1) = length (local_text ss)" by simp
  then show ?thesis by (simp add: local_segment_at_def local_text_snoc)
qed

lemma take_parent: "take (length (local_text ss) - 1 + 1) (local_text (ss @ [s])) = local_text ss"
proof -
  have "0 < length (local_text ss)" by simp
  then show ?thesis by (simp add: local_text_snoc)
qed

lemma nul_free_text: "list_all local_name ss \<Longrightarrow> nul_free (local_text ss)"
  by (induction ss) (auto simp: local_text_def nul_free_def local_name_def nul_def)

lemma resolve_text: "list_all local_name ss \<Longrightarrow> resolve [] (local_text ss) = ss"
  using resolve_local_text [of ss "[]"] by (simp add: resolve_def resolve_name_def)

lemma CLocalPath_make_text: "list_all local_name ss \<Longrightarrow> CLocalPath_make (local_text ss) = Some (local_text ss)"
  by (simp add: CLocalPath_make_def SetPath_resolves nul_free_text resolve_text)

lemma resolve_append: "resolve ss (xs @ path_separator # ys) = resolve (resolve ss xs) ys"
  by (simp add: resolve_def split_at_append)

subsection \<open>Properties\<close>

text \<open>C20: \<open>SetPath\<close> never writes behind its buffer and computes what it is for: text that does
  not begin with a separator is refused, any other text is resolved piece by piece from left to right,
  where empty pieces and single dots count nothing, a double dot takes the last name away, if there is
  one, and other pieces are names; the last piece is the file, when it is a name and the caller asks
  for it.  What follows a zero unit is not read.\<close>

theorem local_set_path_resolves:
  "LocalPath_SetPath path wants_file = Some (set_path_spec (c_str path) wants_file) \<and>
   (set_path_spec (c_str path) wants_file = (False, [], None) \<or>
    (\<exists>p file. set_path_spec (c_str path) wants_file = (True, p, file) \<and> local_canon p))"
proof (cases "c_str path = [] \<or> hd (c_str path) \<noteq> path_separator")
  case True
  then show ?thesis by (simp add: SetPath_spec set_path_spec_def)
next
  case False
  have nul: "nul \<notin> set (c_str path)" using nul_free_c_str by (simp add: nul_free_def)
  let ?ts = "split_at {path_separator} (c_str path)"
  have "list_all local_name (foldl resolve_name [] (butlast ?ts))"
    using split_at_clean_parts [of "{path_separator}" "c_str path"] nul
    by (intro foldl_resolve_ok) (auto dest!: in_set_butlastD)
  then show ?thesis using False resolve_ok [of "[]", OF _ nul]
    by (auto simp: SetPath_spec set_path_spec_def Let_def local_canon_def)
qed

text \<open>Relative paths are resolved from the names of the current path, absolute ones from the
  root, and the result is canonical.  So a canonical path is its own \<open>SetPath\<close>, a name
  leads to the child, a double dot to the parent, and a relative path followed by another one is the
  same as both at once.\<close>

theorem local_change_path:
  assumes "list_all local_name ss" "nul_free new" "new \<noteq> []"
  shows "\<exists>ts. list_all local_name ts \<and> ts = resolve (if hd new = path_separator then [] else ss) new \<and>
    LocalPath_ChangePath (local_text ss) new False = Some (True, local_text ts, None) \<and>
    LocalPath_SetPath (local_text ts) False = Some (True, local_text ts, None) \<and>
    LocalPath_ChangePath (local_text ts) ''..'' False = Some (True, local_text (butlast ts), None) \<and>
    (\<forall>rest. nul_free rest \<longrightarrow> rest \<noteq> [] \<longrightarrow> hd rest \<noteq> path_separator \<longrightarrow>
       LocalPath_ChangePath (local_text ss) (new @ path_separator # rest) False =
       LocalPath_ChangePath (local_text ts) rest False)"
proof -
  let ?from = "if hd new = path_separator then [] else ss"
  have change: "LocalPath_ChangePath (local_text us) x False =
      Some (True, local_text (resolve (if hd x = path_separator then [] else us) x), None)"
    if "list_all local_name us" "nul_free x" "x \<noteq> []" for us x
  proof -
    have "nul_free (local_text us @ x)" using that nul_free_text [of us] by (simp add: nul_free_def)
    moreover obtain c cs where "x = c # cs" using \<open>x \<noteq> []\<close> by (cases x) simp_all
    ultimately show ?thesis using that resolve_local_text [OF \<open>list_all local_name us\<close>, of x]
      by (cases "c = path_separator") (simp_all add: LocalPath_ChangePath_def SetPath_resolves)
  qed
  have ok: "list_all local_name (resolve ?from new)"
    using assms by (intro resolve_ok) (simp_all add: nul_free_def)
  have dots: "resolve (resolve ?from new) ''..'' = butlast (resolve ?from new)"
    by (simp add: resolve_def [of _ "''..''"] resolve_name_def)
  have "nul_free ''..''" by (simp add: nul_free_def nul_def)
  with change [OF ok this] dots have up: "LocalPath_ChangePath (local_text (resolve ?from new)) ''..'' False =
      Some (True, local_text (butlast (resolve ?from new)), None)" by simp
  have "LocalPath_ChangePath (local_text ss) (new @ path_separator # rest) False =
      LocalPath_ChangePath (local_text (resolve ?from new)) rest False"
    if "nul_free rest" "rest \<noteq> []" "hd rest \<noteq> path_separator" for rest
  proof -
    have "nul_free (new @ path_separator # rest)" using that assms by (simp add: nul_free_def nul_def)
    from change [OF assms(1) this] change [OF ok that(1,2)] show ?thesis
      using that assms(3) by (simp add: resolve_append)
  qed
  then show ?thesis using change [OF assms(1,2,3)] up ok CLocalPath_make_text
    by (intro exI [of _ "resolve ?from new"]) (simp add: SetPath_resolves nul_free_text resolve_text)
qed

theorem local_change_path_witness:
  "LocalPath_ChangePath ''/a/b/'' ''../c'' False = Some (True, ''/a/c/'', None) \<and>
   LocalPath_ChangePath ''/a/b/'' ''../c/./d'' False = LocalPath_ChangePath ''/a/c/'' ''./d'' False"
proof -
  have ok: "list_all local_name [''a'', ''b'']" "nul_free ''../c''" "nul_free ''./d''" by code_simp+
  have texts: "local_text [''a'', ''b''] = ''/a/b/''" "resolve [''a'', ''b''] ''../c'' = [''a'', ''c'']"
    "local_text [''a'', ''c''] = ''/a/c/''" by code_simp+
  show ?thesis using local_change_path [OF ok(1,2)] ok(3) texts by auto
qed

text \<open>C24: The directories form a tree: containment is being a proper beginning of the list of
  names, \<open>AddSegment\<close> and \<open>GetParent\<close>, \<open>MakeParent\<close>,
  \<open>GetLastSegment\<close> undo each other, and only the root has no parent.\<close>

theorem local_parent_tree:
  assumes "list_all local_name ss" "list_all local_name ts" "local_name s"
  shows "(LocalPath_IsParentOf (local_text ss) (local_text ts) \<longleftrightarrow> strict_prefix ss ts) \<and>
    (LocalPath_IsSubdirOf (local_text ts) (local_text ss) \<longleftrightarrow> strict_prefix ss ts) \<and>
    LocalPath_AddSegment (local_text ss) s = local_text (ss @ [s]) \<and>
    LocalPath_GetParent (local_text (ss @ [s])) = Some (local_text ss, Some s) \<and>
    LocalPath_MakeParent (local_text (ss @ [s])) = (True, local_text ss, Some s) \<and>
    LocalPath_GetLastSegment (local_text (ss @ [s])) = s \<and>
    (LocalPath_HasParent (local_text ts) \<longleftrightarrow> ts \<noteq> [])"
proof -
  have "LocalPath_HasParent (local_text ts) \<longleftrightarrow> ts \<noteq> []"
  proof (cases ts rule: rev_cases)
    case (snoc us u)
    then show ?thesis using assms(2) parent_sep_text [of u us] by (simp add: LocalPath_HasParent_def)
  qed (simp add: LocalPath_HasParent_def local_parent_sep_def local_text_def)
  moreover have "LocalPath_AddSegment (local_text ss) s = local_text (ss @ [s])"
    using assms(3) by (simp add: LocalPath_AddSegment_def local_text_snoc local_name_def)
  ultimately show ?thesis
    using IsParentOf_text [OF assms(1,2)] parent_sep_text [OF assms(3), of ss] segment_at_text [of ss s]
      take_parent [of ss s] CLocalPath_make_text [OF assms(1)]
    by (simp add: LocalPath_IsSubdirOf_def LocalPath_GetParent_def LocalPath_MakeParent_def LocalPath_GetLastSegment_def)
qed

theorem local_parent_tree_witness:
  "LocalPath_IsParentOf ''/a/'' ''/a/b/'' \<and> LocalPath_AddSegment ''/a/'' ''c'' = ''/a/c/'' \<and>
   LocalPath_GetParent ''/a/c/'' = Some (''/a/'', Some ''c'')"
proof -
  have ok: "list_all local_name [''a'']" "list_all local_name [''a'', ''b'']" "local_name ''c''" by code_simp+
  have texts: "local_text [''a''] = ''/a/''" "local_text [''a'', ''b''] = ''/a/b/''"
    "local_text ([''a''] @ [''c'']) = ''/a/c/''" by code_simp+
  have "strict_prefix [''a''] [''a'', ''b'']" by (simp add: strict_prefix_def)
  then show ?thesis using local_parent_tree [OF ok] texts by simp
qed

text \<open>C22: On canonical paths the order is strict and total, a directory stands before what is in
  it, and nothing comes between: whatever stands between a directory and a path inside it is inside it
  as well (\<open>/p-2/\<close> does not stand between \<open>/p/\<close> and \<open>/p/q/\<close>).\<close>

theorem local_order_keeps_subtrees:
  assumes "tokenizer_all_law L" "local_canon p" "local_canon q" "local_canon r"
  shows "\<not> local_less L p p \<and> (local_less L p q \<or> p = q \<or> local_less L q p) \<and>
    (local_less L p q \<and> local_less L q r \<longrightarrow> local_less L p r) \<and>
    (LocalPath_IsParentOf p r \<longrightarrow> local_less L p r) \<and>
    (LocalPath_IsParentOf p r \<and> local_less L p q \<and> local_less L q r \<longrightarrow> LocalPath_IsParentOf p q)"
proof -
  obtain ps qs rs where names: "list_all local_name ps" "p = local_text ps" "list_all local_name qs" "q = local_text qs"
    "list_all local_name rs" "r = local_text rs"
    using assms(2-4) unfolding local_canon_def by blast
  have less: "local_less L p p \<longleftrightarrow> ps < ps" "local_less L p q \<longleftrightarrow> ps < qs" "local_less L q p \<longleftrightarrow> qs < ps"
    "local_less L q r \<longleftrightarrow> qs < rs" "local_less L p r \<longleftrightarrow> ps < rs"
    using local_less_text [OF assms(1)] names by simp_all
  have par: "LocalPath_IsParentOf p r \<longleftrightarrow> strict_prefix ps rs" "LocalPath_IsParentOf p q \<longleftrightarrow> strict_prefix ps qs"
    using IsParentOf_text names by simp_all
  have "ps < rs" if "strict_prefix ps rs" using that by (elim strict_prefixE') (simp add: less_append)
  moreover have "strict_prefix ps qs" if "strict_prefix ps rs" "ps < qs" "qs < rs"
  proof -
    obtain us where "rs = ps @ us" using \<open>strict_prefix ps rs\<close> by (auto simp: strict_prefix_def prefix_def)
    then have "prefix ps qs" using between_prefix [of ps qs us] that(2,3) by simp
    then show ?thesis using that(2) by (auto simp: strict_prefix_def)
  qed
  moreover have "p = q \<longleftrightarrow> ps = qs" using names local_text_inject by simp
  ultimately show ?thesis unfolding less par by auto
qed

theorem local_order_keeps_subtrees_witness:
  "local_less libfz_std ''/p/'' ''/p-2/'' \<and> local_less libfz_std ''/p/'' ''/p/q/'' \<and>
   \<not> local_less libfz_std ''/p-2/'' ''/p/q/''"
proof -
  have texts: "local_text [''p''] = ''/p/''" "local_text [''p-2''] = ''/p-2/''" "local_text [''p'', ''q''] = ''/p/q/''"
    "list_all local_name [''p'']" "list_all local_name [''p-2'']" "list_all local_name [''p'', ''q'']" by code_simp+
  then have ok: "local_canon ''/p/''" "local_canon ''/p-2/''" "local_canon ''/p/q/''"
    unfolding local_canon_def by metis+
  have "LocalPath_IsParentOf ''/p/'' ''/p/q/''" "\<not> LocalPath_IsParentOf ''/p/'' ''/p-2/''"
    "local_less libfz_std ''/p/'' ''/p-2/''" by code_simp+
  then show ?thesis using local_order_keeps_subtrees [OF libfz_std_laws(4) ok] by blast
qed

subsection \<open>Exists\<close>

text \<open>\<open>lstat\<close> and \<open>stat\<close> return zero or minus one; the error number is in
  \<open>errno\<close>, which the code does not read.\<close>

definition stat_law :: "local_fs \<Rightarrow> bool" where
  "stat_law fs \<longleftrightarrow> (\<forall>path. sr_result (lf_lstat fs path) \<in> {0, - 1} \<and> sr_result (lf_stat fs path) \<in> {0, - 1})"

text \<open>So a path below a file is reported as one that cannot be accessed, and the branch for
  \<open>ENOTDIR\<close> is never taken.\<close>

lemma exists_ignores_ENOTDIR:
  assumes "stat_law fs" "p \<noteq> []" "LocalPath_Exists fs p wants_link = (ok, link, Some Not_a_directory)"
  shows "\<exists>buf \<in> {lf_lstat fs (local_stat_path fs p), lf_stat fs (local_stat_path fs p)}. sr_result buf = 0 \<and> \<not> sr_is_dir buf"
proof -
  have "sr_result (lf_lstat fs path) \<noteq> ENOTDIR" "sr_result (lf_stat fs path) \<noteq> ENOTDIR" for path
    using assms(1) by (auto simp: stat_law_def ENOTDIR_def dest!: spec [of _ path])
  then show ?thesis using assms(2,3) by (auto simp: LocalPath_Exists_def Let_def split: if_splits)
qed

text \<open>A link to a directory counts only when the caller asks whether it is a link.\<close>

lemma exists_link_needs_question:
  assumes "p \<noteq> []" "path = local_stat_path fs p" "sr_result (lf_lstat fs path) = 0" "sr_is_link (lf_lstat fs path)" "\<not> sr_is_dir (lf_lstat fs path)"
    and "sr_result (lf_stat fs path) = 0" "sr_is_dir (lf_stat fs path)"
  shows "LocalPath_Exists fs p True = (True, True, None)"
    and "LocalPath_Exists fs p False = (False, False, Some Not_a_directory)"
  using assms by (simp_all add: LocalPath_Exists_def Let_def)

end
