(* ===== verification/Xml_Tree.thy ===== *)
theory Xml_Tree
  imports FZ_Lib
begin

text \<open>
  The elements of a document as trees, with the members of pugixml that the code calls as functions
  on them, and the helpers of \<open>engine/xmlutils.cpp\<close> on top.  A handle that may be null is an
  option.  Texts in the tree are UTF-8; the conversions of libfilezilla and the reading of numbers by
  pugixml are parameters.
\<close>

datatype xml =
    Element string "(string \<times> string) list" "xml list"
  | Pcdata string

subsection \<open>Members of nodes\<close>

fun node_name :: "xml \<Rightarrow> string" where
  "node_name (Element n as cs) = n"
| "node_name (Pcdata t) = []"

fun node_children :: "xml \<Rightarrow> xml list" where
  "node_children (Element n as cs) = cs"
| "node_children (Pcdata t) = []"

fun is_named :: "string \<Rightarrow> xml \<Rightarrow> bool" where
  "is_named name (Element n as cs) \<longleftrightarrow> n = name"
| "is_named name (Pcdata t) \<longleftrightarrow> False"

definition named_children :: "string \<Rightarrow> xml \<Rightarrow> xml list" where
  "named_children name x = filter (is_named name) (node_children x)"

definition child :: "string \<Rightarrow> xml \<Rightarrow> xml option" where
  "child name x = (case named_children name x of [] \<Rightarrow> None | c # _ \<Rightarrow> Some c)"

fun text_of :: "xml list \<Rightarrow> string option" where
  "text_of [] = None"
| "text_of (Pcdata t # cs) = Some t"
| "text_of (Element n as ds # cs) = text_of cs"

definition child_value :: "xml option \<Rightarrow> string" where
  "child_value x = (case x of None \<Rightarrow> [] | Some e \<Rightarrow> (case text_of (node_children e) of None \<Rightarrow> [] | Some t \<Rightarrow> t))"

text \<open>\<open>text().set(v)\<close>: the first text among the children is replaced, or one is appended.\<close>

fun set_text_in :: "string \<Rightarrow> xml list \<Rightarrow> xml list" where
  "set_text_in v [] = [Pcdata v]"
| "set_text_in v (Pcdata t # cs) = Pcdata v # cs"
| "set_text_in v (Element n as ds # cs) = Element n as ds # set_text_in v cs"

fun set_text :: "string \<Rightarrow> xml \<Rightarrow> xml" where
  "set_text v (Element n as cs) = Element n as (set_text_in v cs)"
| "set_text v (Pcdata t) = Pcdata v"

fun append_child :: "xml \<Rightarrow> xml \<Rightarrow> xml" where
  "append_child (Element n as cs) c = Element n as (cs @ [c])"
| "append_child (Pcdata t) c = Pcdata t"

fun remove_first :: "('a \<Rightarrow> bool) \<Rightarrow> 'a list \<Rightarrow> 'a list" where
  "remove_first P [] = []"
| "remove_first P (x # xs) = (if P x then xs else x # remove_first P xs)"

fun set_children :: "xml list \<Rightarrow> xml \<Rightarrow> xml" where
  "set_children cs (Element n as ds) = Element n as cs"
| "set_children cs (Pcdata t) = Pcdata t"

definition remove_child :: "string \<Rightarrow> xml \<Rightarrow> xml" where
  "remove_child name x = set_children (remove_first (is_named name) (node_children x)) x"

fun attribute_value :: "string \<Rightarrow> xml \<Rightarrow> string" where
  "attribute_value name (Element n as cs) = (case map_of as name of None \<Rightarrow> [] | Some v \<Rightarrow> v)"
| "attribute_value name (Pcdata t) = []"

fun set_attribute :: "string \<Rightarrow> string \<Rightarrow> xml \<Rightarrow> xml" where
  "set_attribute name v (Element n as cs) =
     Element n (if name \<in> fst ` set as then map (\<lambda>(a, w). if a = name then (a, v) else (a, w)) as
                else as @ [(name, v)]) cs"
| "set_attribute name v (Pcdata t) = Pcdata t"

definition new_element :: "string \<Rightarrow> xml" where
  "new_element name = Element name [] []"

subsection \<open>Conversions\<close>

record xmllib =
  xl_to_utf8 :: "wstring \<Rightarrow> string"
  xl_from_utf8 :: "string \<Rightarrow> wstring"
  xl_integer :: "string \<Rightarrow> int"

text \<open>Decimal text of a number, as \<open>set(long long)\<close> and \<open>fz::to_wstring\<close> write it.\<close>

definition show_int :: "int \<Rightarrow> string" where
  "show_int v = (if v < 0 then CHR ''-'' # show_nat (nat (- v)) else show_nat (nat v))"

text \<open>UTF-8 is read back, is empty and contains zero units only when the text is and does;
  numbers of 64 bits are read back.\<close>

definition xmllib_law :: "xmllib \<Rightarrow> bool" where
  "xmllib_law X \<longleftrightarrow>
     (\<forall>s. xl_from_utf8 X (xl_to_utf8 X s) = s) \<and>
     (\<forall>s. xl_to_utf8 X s = [] \<longleftrightarrow> s = []) \<and>
     (\<forall>s. nul_free (xl_to_utf8 X s) \<longleftrightarrow> nul_free s) \<and>
     xl_from_utf8 X [] = [] \<and>
     (\<forall>v. - (2 ^ 63) \<le> v \<and> v < 2 ^ 63 \<longrightarrow> xl_integer X (show_int v) = v)"

subsection \<open>xmlutils.cpp\<close>

definition AddTextElementUtf8 :: "string \<Rightarrow> string \<Rightarrow> bool \<Rightarrow> xml \<Rightarrow> xml" where
  "AddTextElementUtf8 name value overwrite node =
     (let node1 = (if overwrite then remove_child name node else node);
          e = (if value \<noteq> [] then set_text (c_str value) (new_element name) else new_element name)
      in append_child node1 e)"

definition AddTextElement :: "xmllib \<Rightarrow> string \<Rightarrow> wstring \<Rightarrow> bool \<Rightarrow> xml \<Rightarrow> xml" where
  "AddTextElement X name value overwrite node = AddTextElementUtf8 name (xl_to_utf8 X value) overwrite node"

definition AddTextElement_int :: "string \<Rightarrow> int \<Rightarrow> bool \<Rightarrow> xml \<Rightarrow> xml" where
  "AddTextElement_int name value overwrite node =
     (let node1 = (if overwrite then remove_child name node else node)
      in append_child node1 (set_text (show_int value) (new_element name)))"

definition AddText :: "xmllib \<Rightarrow> wstring \<Rightarrow> xml \<Rightarrow> xml" where
  "AddText X value node = set_text (c_str (xl_to_utf8 X value)) node"

definition GetTextElement :: "xmllib \<Rightarrow> xml \<Rightarrow> string \<Rightarrow> wstring" where
  "GetTextElement X node name = xl_from_utf8 X (child_value (child name node))"

definition GetTextElement_own :: "xmllib \<Rightarrow> xml \<Rightarrow> wstring" where
  "GetTextElement_own X node = xl_from_utf8 X (child_value (Some node))"

text \<open>The default is for an element that is missing or has no text.\<close>

definition GetTextElementInt :: "xmllib \<Rightarrow> xml \<Rightarrow> string \<Rightarrow> int \<Rightarrow> int" where
  "GetTextElementInt X node name defValue =
     (case child name node of
        None \<Rightarrow> defValue
      | Some e \<Rightarrow> (case text_of (node_children e) of None \<Rightarrow> defValue | Some t \<Rightarrow> xl_integer X t))"

definition SetTextAttributeUtf8 :: "string \<Rightarrow> string \<Rightarrow> xml \<Rightarrow> xml" where
  "SetTextAttributeUtf8 name utf8 node = set_attribute name (c_str utf8) node"

definition SetTextAttribute :: "xmllib \<Rightarrow> string \<Rightarrow> wstring \<Rightarrow> xml \<Rightarrow> xml" where
  "SetTextAttribute X name value node = SetTextAttributeUtf8 name (xl_to_utf8 X value) node"

definition GetTextAttribute :: "xmllib \<Rightarrow> xml \<Rightarrow> string \<Rightarrow> wstring" where
  "GetTextAttribute X node name = xl_from_utf8 X (attribute_value name node)"

definition FindElementWithAttribute :: "xml \<Rightarrow> string option \<Rightarrow> string \<Rightarrow> string \<Rightarrow> xml option" where
  "FindElementWithAttribute node element attribute value =
     find (\<lambda>c. value = attribute_value attribute c)
       (case element of Some e \<Rightarrow> named_children e node | None \<Rightarrow> node_children node)"

definition GetAttributeInt :: "xmllib \<Rightarrow> xml \<Rightarrow> string \<Rightarrow> int" where
  "GetAttributeInt X node name =
     (case attribute_value name node of [] \<Rightarrow> 0 | v \<Rightarrow> xl_integer X v)"

definition SetAttributeInt :: "string \<Rightarrow> int \<Rightarrow> xml \<Rightarrow> xml" where
  "SetAttributeInt name value node = set_attribute name (show_int value) node"

subsection \<open>Laws of the tree\<close>

named_theorems xml_simps \<open>reading what was written to a tree\<close>

lemma named_children_Element [xml_simps]:
  "named_children name (Element n as []) = []"
  "named_children name (Element n as (Element m bs ds # cs)) =
     (if m = name then Element m bs ds # named_children name (Element n as cs) else named_children name (Element n as cs))"
  "named_children name (Element n as (Pcdata t # cs)) = named_children name (Element n as cs)"
  by (simp_all add: named_children_def)

lemma child_Element [xml_simps]:
  "child name (Element n as []) = None"
  "child name (Element n as (Element m bs ds # cs)) =
     (if m = name then Some (Element m bs ds) else child name (Element n as cs))"
  "child name (Element n as (Pcdata t # cs)) = child name (Element n as cs)"
  by (simp_all add: child_def xml_simps)

lemma is_named_name: "is_named name x \<Longrightarrow> node_name x = name"
  by (cases x) simp_all

lemma filter_named_append [xml_simps]:
  "named_children name (Element n as (xs @ ys)) = filter (is_named name) xs @ filter (is_named name) ys"
  by (simp add: named_children_def)

text \<open>What the helpers append.\<close>

definition text_element :: "string \<Rightarrow> string \<Rightarrow> xml" where
  "text_element name t = Element name [] (if t = [] then [] else [Pcdata t])"

lemma is_named_text_element [simp]: "is_named name (text_element n t) \<longleftrightarrow> n = name"
  by (simp add: text_element_def)

lemma AddTextElement_appends:
  assumes "xmllib_law X" "nul_free v"
  shows "AddTextElement X name v False (Element n as cs) = Element n as (cs @ [text_element name (xl_to_utf8 X v)])"
  using assms by (simp add: AddTextElement_def AddTextElementUtf8_def new_element_def text_element_def xmllib_law_def)

lemma show_int_nonempty [simp]: "show_int v \<noteq> []"
  by (simp add: show_int_def)

lemma AddTextElement_int_appends:
  "AddTextElement_int name v False (Element n as cs) = Element n as (cs @ [text_element name (show_int v)])"
  by (simp add: AddTextElement_int_def new_element_def text_element_def)

lemma child_value_text_element [simp]: "child_value (Some (text_element name t)) = t"
  by (simp add: child_value_def text_element_def)

lemma text_of_text_element [simp]: "text_of (node_children (text_element name t)) = (if t = [] then None else Some t)"
  by (simp add: text_element_def)

lemma child_text_element [xml_simps]:
  "child name (Element n as (text_element m t # cs)) =
     (if m = name then Some (text_element m t) else child name (Element n as cs))"
  by (simp add: text_element_def xml_simps)

lemma named_children_text_element [xml_simps]:
  "named_children name (Element n as (text_element m t # cs)) =
     (if m = name then [text_element m t] else []) @ named_children name (Element n as cs)"
  by (simp add: text_element_def xml_simps)

text \<open>A library on which the law holds: the identity, and decimal numbers.\<close>

definition read_int :: "string \<Rightarrow> int" where
  "read_int s = (case s of c # cs \<Rightarrow> if c = CHR ''-'' then - int (num_value 0 cs) else int (num_value 0 s) | [] \<Rightarrow> 0)"

definition xmllib_std :: xmllib where
  "xmllib_std = \<lparr>xl_to_utf8 = id, xl_from_utf8 = id, xl_integer = read_int\<rparr>"

lemma read_show_int: "read_int (show_int v) = v"
proof (cases "v < 0")
  case False
  obtain c cs where digits: "show_nat (nat v) = c # cs" using show_nat_nonempty by (meson neq_Nil_conv)
  then have "is_digit c" using show_nat_digits [of "nat v"] by simp
  then have "c \<noteq> CHR ''-''" by (auto simp: is_digit_code)
  moreover have "num_value 0 (c # cs) = nat v" using num_value_show [of "nat v"] digits by simp
  ultimately show ?thesis using False digits by (simp add: read_int_def show_int_def)
qed (simp add: read_int_def show_int_def num_value_show)

lemma xmllib_std_law [simp]: "xmllib_law xmllib_std"
  by (simp add: xmllib_law_def xmllib_std_def read_show_int)

end
