(* ===== verification/Options_Base.thy ===== *)
theory Options_Base
  imports Xml_Tree "HOL-Library.Word"
begin

unbundle bit_operations_syntax

text \<open>
  The options: \<open>engine/optionsbase.cpp\<close> with \<open>include/optionsbase.h\<close>.  A
  definition says how an option is checked, a value holds it as text, number or document.  What was
  changed is collected as bits, and a notification, posted once, tells every watcher.  Each member
  function runs under the mutexes of the code and is one step here.
\<close>

subsection \<open>Definitions of options\<close>

type_synonym optionsIndex = "nat option"  \<comment> \<open>\<^term>\<open>None\<close> is \<open>optionsIndex::invalid\<close>\<close>

datatype option_type = option_string | option_number | option_boolean | option_xml

type_synonym option_flags = "8 word"

definition flag_internal :: option_flags where "flag_internal = 1"
definition flag_predefined_only :: option_flags where "flag_predefined_only = 2"
definition flag_predefined_priority :: option_flags where "flag_predefined_priority = 4"
definition flag_platform :: option_flags where "flag_platform = 8"
definition flag_numeric_clamp :: option_flags where "flag_numeric_clamp = 16"
definition flag_sensitive_data :: option_flags where "flag_sensitive_data = 32"
definition flag_product :: option_flags where "flag_product = 64"

definition has_flag :: "option_flags \<Rightarrow> option_flags \<Rightarrow> bool" where
  "has_flag f g \<longleftrightarrow> f AND g \<noteq> 0"

text \<open>A validator may change the value; the constructors give an option one of its own type.\<close>

record option_def =
  od_name :: string
  od_default :: wstring
  od_type :: option_type
  od_flags :: option_flags
  od_min :: int
  od_max :: int
  od_int_validator :: "(int \<Rightarrow> bool \<times> int) option"
  od_str_validator :: "(wstring \<Rightarrow> bool \<times> wstring) option"
  od_xml_validator :: "(xml list \<Rightarrow> bool \<times> xml list) option"
  od_mnemonics :: "wstring list"

definition option_def_typed ::
  "string \<Rightarrow> wstring \<Rightarrow> option_flags \<Rightarrow> option_type \<Rightarrow> nat \<Rightarrow> (wstring \<Rightarrow> bool \<times> wstring) option \<Rightarrow> option_def" where
  "option_def_typed name def flags t max_len validator =
     \<lparr>od_name = name, od_default = def, od_type = t, od_flags = flags, od_min = 0, od_max = int max_len,
      od_int_validator = None, od_str_validator = (if t = option_string then validator else None),
      od_xml_validator = None, od_mnemonics = []\<rparr>"

definition option_def_string :: "string \<Rightarrow> wstring \<Rightarrow> option_flags \<Rightarrow> nat \<Rightarrow> option_def" where
  "option_def_string name def flags max_len = option_def_typed name def flags option_string max_len None"

definition option_def_number ::
  "string \<Rightarrow> int \<Rightarrow> option_flags \<Rightarrow> int \<Rightarrow> int \<Rightarrow> (int \<Rightarrow> bool \<times> int) option \<Rightarrow> wstring list \<Rightarrow> option_def" where
  "option_def_number name def flags mn mx validator mnemonics =
     \<lparr>od_name = name, od_default = show_int def, od_type = option_number, od_flags = flags, od_min = mn, od_max = mx,
      od_int_validator = validator, od_str_validator = None, od_xml_validator = None, od_mnemonics = mnemonics\<rparr>"

definition option_def_boolean :: "string \<Rightarrow> bool \<Rightarrow> option_flags \<Rightarrow> option_def" where
  "option_def_boolean name def flags =
     \<lparr>od_name = name, od_default = show_int (if def then 1 else 0), od_type = option_boolean, od_flags = flags,
      od_min = 0, od_max = 1,
      od_int_validator = None, od_str_validator = None, od_xml_validator = None, od_mnemonics = []\<rparr>"

definition option_def_xml ::
  "string \<Rightarrow> wstring \<Rightarrow> option_flags \<Rightarrow> (xml list \<Rightarrow> bool \<times> xml list) option \<Rightarrow> option_def" where
  "option_def_xml name def flags validator =
     \<lparr>od_name = name, od_default = def, od_type = option_xml, od_flags = flags, od_min = 0, od_max = 10000000,
      od_int_validator = None, od_str_validator = None, od_xml_validator = validator, od_mnemonics = []\<rparr>"

definition val_from_mnemonic :: "option_def \<Rightarrow> wstring \<Rightarrow> int" where
  "val_from_mnemonic d v =
     int (case find_idx (\<lambda>m. m = v) (od_mnemonics d) of Some i \<Rightarrow> i | None \<Rightarrow> length (od_mnemonics d))"

subsection \<open>The options of the engine\<close>

text \<open>\<open>register_engine_options\<close> of \<open>engine/engine_options.cpp\<close>, in the order of
  the enumeration \<open>engineOptions\<close>, with the two validators.\<close>

definition validate_timeout :: "int \<Rightarrow> bool \<times> int" where
  "validate_timeout v = (True, if v \<noteq> 0 \<and> v < 10 then 10 else v)"

definition validate_buffersize :: "int \<Rightarrow> bool \<times> int" where
  "validate_buffersize v = (True, if 0 \<le> v \<and> v < 4096 then 4096 else v)"

definition engine_options :: "option_def list" where
  "engine_options = [
     option_def_number ''Use Pasv mode'' 1 0 0 1 None [],
     option_def_boolean ''Limit local ports'' False 0,
     option_def_number ''Limit ports low'' 6000 0 1 65535 None [],
     option_def_number ''Limit ports high'' 7000 0 1 65535 None [],
     option_def_number ''Limit ports offset'' 0 0 (-65534) 65534 None [],
     option_def_number ''External IP mode'' 0 0 0 2 None [],
     option_def_string ''External IP'' [] 0 100,
     option_def_string ''External address resolver'' ''http://ip.filezilla-project.org/ip.php'' 0 1024,
     option_def_string ''Last resolved IP'' [] 0 100,
     option_def_boolean ''No external ip on local conn'' True 0,
     option_def_number ''Pasv reply fallback mode'' 0 0 0 2 None [],
     option_def_number ''Timeout'' 20 0 0 9999 (Some validate_timeout) [],
     option_def_number ''Logging Debug Level'' 0 0 0 4 None [],
     option_def_boolean ''Logging Raw Listing'' False 0,
     option_def_string ''fzstorj executable'' [] flag_internal 10000000,
     option_def_boolean ''Allow transfermode fallback'' True 0,
     option_def_number ''Reconnect count'' 2 flag_numeric_clamp 0 99 None [],
     option_def_number ''Reconnect delay'' 5 flag_numeric_clamp 0 999 None [],
     option_def_boolean ''Enable speed limits'' False 0,
     option_def_number ''Speedlimit inbound'' 1000 flag_numeric_clamp 0 999999999 None [],
     option_def_number ''Speedlimit outbound'' 100 flag_numeric_clamp 0 999999999 None [],
     option_def_number ''Speedlimit burst tolerance'' 0 0 0 2 None [],
     option_def_boolean ''Preallocate space'' False 0,
     option_def_boolean ''View hidden files'' False 0,
     option_def_boolean ''Preserve timestamps'' False 0,
     option_def_number ''Socket recv buffer size (v2)'' 4194304 flag_numeric_clamp (-1) (64 * 1024 * 1024) (Some validate_buffersize) [],
     option_def_boolean ''FTP Keep-alive commands'' False 0,
     option_def_number ''FTP Proxy type'' 0 0 0 4 None [],
     option_def_string ''FTP Proxy host'' [] 0 10000000,
     option_def_string ''FTP Proxy user'' [] 0 10000000,
     option_def_string ''FTP Proxy password'' [] 0 10000000,
     option_def_string ''FTP Proxy login sequence'' [] 0 10000000,
     option_def_string ''SFTP keyfiles'' [] flag_platform 10000000,
     option_def_boolean ''SFTP compression'' False 0,
     option_def_number ''Proxy type'' 0 0 0 3 None [],
     option_def_string ''Proxy host'' [] 0 10000000,
     option_def_number ''Proxy port'' 0 0 1 65535 None [],
     option_def_string ''Proxy user'' [] 0 10000000,
     option_def_string ''Proxy password'' [] 0 10000000,
     option_def_string ''Logging file'' [] flag_platform 10000000,
     option_def_number ''Logging filesize limit'' 10 0 0 2000 None [],
     option_def_boolean ''Logging show detailed logs'' False flag_internal,
     option_def_number ''Size format'' 0 0 0 4 None [],
     option_def_boolean ''Size thousands separator'' True 0,
     option_def_number ''Size decimal places'' 1 flag_numeric_clamp 0 3 None [],
     option_def_number ''TCP Keepalive Interval'' 15 flag_numeric_clamp 1 10000 None [],
     option_def_number ''Cache TTL'' 600 flag_numeric_clamp 30 (60 * 60 * 24) None [],
     option_def_number ''Minimum TLS Version'' 2 flag_numeric_clamp 0 3 None [],
     option_def_number ''Directory listing item limit'' 10000000 flag_numeric_clamp 1000000 2000000000 None [],
     option_def_number ''SFTP download segments'' 1 flag_numeric_clamp 1 8 None [],
     option_def_number ''SFTP segment min size'' 64 flag_numeric_clamp 1 1048576 None []]"

definition OPTIONS_ENGINE_NUM :: nat where "OPTIONS_ENGINE_NUM = 51"

text \<open>The index of an option of the engine, after what was registered before.\<close>

definition mapOption :: "nat \<Rightarrow> nat \<Rightarrow> optionsIndex" where
  "mapOption offset opt = (if opt < OPTIONS_ENGINE_NUM then Some (opt + offset) else None)"

subsection \<open>Conversions of values\<close>

text \<open>\<open>fz::to_integral<int>\<close> with its error as \<^term>\<open>None\<close>, and the parser of
  documents.\<close>

record optlib =
  ol_to_int :: "wstring \<Rightarrow> int option"
  ol_parse_xml :: "wstring \<Rightarrow> xml list"

definition int_min :: int where "int_min = - (2 ^ 31)"
definition int_max :: int where "int_max = 2 ^ 31 - 1"

definition to_int_law :: "optlib \<Rightarrow> bool" where
  "to_int_law T \<longleftrightarrow>
     (\<forall>v. int_min \<le> v \<and> v \<le> int_max \<longrightarrow> ol_to_int T (show_int v) = Some v) \<and>
     (\<forall>s v. ol_to_int T s = Some v \<longrightarrow> int_min \<le> v \<and> v \<le> int_max)"

definition to_int_or :: "optlib \<Rightarrow> wstring \<Rightarrow> int \<Rightarrow> int" where
  "to_int_or T s v = (case ol_to_int T s of Some w \<Rightarrow> w | None \<Rightarrow> v)"

subsection \<open>Sets of options\<close>

type_synonym watched_options = "64 word list"

definition watched_any :: "watched_options \<Rightarrow> bool" where
  "watched_any w \<longleftrightarrow> list_ex (\<lambda>v. v \<noteq> 0) w"

definition watched_resize :: "nat \<Rightarrow> watched_options \<Rightarrow> watched_options" where
  "watched_resize n w = (if n \<le> length w then take n w else w @ replicate (n - length w) 0)"

definition watched_set :: "nat \<Rightarrow> watched_options \<Rightarrow> watched_options" where
  "watched_set opt w =
     (let idx = opt div 64;
          w1 = (if length w \<le> idx then watched_resize (idx + 1) w else w)
      in w1[idx := w1 ! idx OR push_bit (opt mod 64) 1])"

definition watched_unset :: "nat \<Rightarrow> watched_options \<Rightarrow> watched_options" where
  "watched_unset opt w =
     (let idx = opt div 64
      in if idx < length w then w[idx := w ! idx AND NOT (push_bit (opt mod 64) 1)] else w)"

definition watched_test :: "nat \<Rightarrow> watched_options \<Rightarrow> bool" where
  "watched_test opt w =
     (let idx = opt div 64
      in if length w \<le> idx then False else w ! idx AND push_bit (opt mod 64) 1 \<noteq> 0)"

definition watched_and :: "watched_options \<Rightarrow> watched_options \<Rightarrow> watched_options" where
  "watched_and w v =
     (let s = min (length w) (length v)
      in map (\<lambda>i. watched_resize s w ! i AND v ! i) [0..<s])"

subsection \<open>The store\<close>

record option_value =
  ov_str :: wstring
  ov_xml :: "xml list option"
  ov_change_counter :: "64 word"
  ov_v :: int
  ov_predefined :: bool

definition new_option_value :: option_value where
  "new_option_value = \<lparr>ov_str = [], ov_xml = None, ov_change_counter = 0, ov_v = 0, ov_predefined = False\<rparr>"

type_synonym handler = nat

record watcher =
  w_handler :: handler
  w_options :: watched_options
  w_all :: bool

record option_registry =
  reg_options :: "option_def list"
  reg_names :: "string \<rightharpoonup> nat"

text \<open>The store with what leaves it: the calls of \<open>notify_changed()\<close> that wait for their
  \<open>continue_notify_changed()\<close>, and the sets handed to the watchers.\<close>

record options_base =
  ob_options :: "option_def list"
  ob_names :: "string \<rightharpoonup> nat"
  ob_values :: "option_value list"
  ob_can_notify :: bool
  ob_changed :: watched_options
  ob_watchers :: "watcher list"
  ob_pending :: nat
  ob_sent :: "(handler \<times> watched_options) list"

definition new_options :: options_base where
  "new_options = \<lparr>ob_options = [], ob_names = Map.empty, ob_values = [], ob_can_notify = False, ob_changed = [],
     ob_watchers = [], ob_pending = 0, ob_sent = []\<rparr>"

fun register_names :: "nat \<Rightarrow> option_def list \<Rightarrow> (string \<rightharpoonup> nat) \<Rightarrow> (string \<rightharpoonup> nat)" where
  "register_names i [] m = m"
| "register_names i (d # ds) m =
     register_names (Suc i) ds (if od_name d \<noteq> [] then m(od_name d \<mapsto> i) else m)"

definition register_options :: "option_def list \<Rightarrow> option_registry \<Rightarrow> option_registry \<times> nat" where
  "register_options options reg =
     (let prev = length (reg_options reg)
      in (\<lparr>reg_options = reg_options reg @ options, reg_names = register_names prev options (reg_names reg)\<rparr>, prev))"

definition set_default_value :: "optlib \<Rightarrow> nat \<Rightarrow> option_def list \<Rightarrow> option_value list \<Rightarrow> option_value list" where
  "set_default_value T i options vals =
     (let d = options ! i
      in vals[i :=
           (if od_type d = option_xml then (vals ! i)\<lparr>ov_xml := Some (ol_parse_xml T (od_default d))\<rparr>
            else (vals ! i)\<lparr>ov_str := od_default d, ov_v := to_int_or T (od_default d) 0\<rparr>)])"

definition do_add_missing :: "optlib \<Rightarrow> option_registry \<Rightarrow> nat \<Rightarrow> options_base \<Rightarrow> bool \<times> options_base" where
  "do_add_missing T reg opt s =
     (if length (reg_options reg) \<le> opt then (False, s)
      else
        let i = length (ob_values s);
            n = length (reg_options reg);
            vals = (if n \<le> i then take n (ob_values s) else ob_values s @ replicate (n - i) new_option_value)
        in (True, s\<lparr>ob_options := reg_options reg, ob_names := reg_names reg,
              ob_values := foldl (\<lambda>vs j. set_default_value T j (reg_options reg) vs) vals [i..<n]\<rparr>))"

text \<open>The guard at the start of the accessors: the option exists, possibly after the missing ones
  were added.\<close>

definition ensure :: "optlib \<Rightarrow> option_registry \<Rightarrow> optionsIndex \<Rightarrow> options_base \<Rightarrow> (nat \<times> options_base) option" where
  "ensure T reg opt s =
     (case opt of
        None \<Rightarrow> None
      | Some i \<Rightarrow>
          if length (ob_values s) \<le> i
          then (case do_add_missing T reg i s of (ok, s1) \<Rightarrow> if ok then Some (i, s1) else None)
          else Some (i, s))"

definition get_int :: "optlib \<Rightarrow> option_registry \<Rightarrow> optionsIndex \<Rightarrow> options_base \<Rightarrow> int \<times> options_base" where
  "get_int T reg opt s =
     (case ensure T reg opt s of None \<Rightarrow> (0, s) | Some (i, s1) \<Rightarrow> (ov_v (ob_values s1 ! i), s1))"

definition get_string :: "optlib \<Rightarrow> option_registry \<Rightarrow> optionsIndex \<Rightarrow> options_base \<Rightarrow> wstring \<times> options_base" where
  "get_string T reg opt s =
     (case ensure T reg opt s of None \<Rightarrow> ([], s) | Some (i, s1) \<Rightarrow> (ov_str (ob_values s1 ! i), s1))"

definition get_xml :: "optlib \<Rightarrow> option_registry \<Rightarrow> optionsIndex \<Rightarrow> options_base \<Rightarrow> xml list \<times> options_base" where
  "get_xml T reg opt s =
     (case ensure T reg opt s of
        None \<Rightarrow> ([], s)
      | Some (i, s1) \<Rightarrow> ((case ov_xml (ob_values s1 ! i) of Some x \<Rightarrow> x | None \<Rightarrow> []), s1))"

definition predefined :: "optionsIndex \<Rightarrow> options_base \<Rightarrow> bool" where
  "predefined opt s =
     (case opt of None \<Rightarrow> False
      | Some i \<Rightarrow> if length (ob_values s) \<le> i then False else ov_predefined (ob_values s ! i))"

definition change_count :: "optionsIndex \<Rightarrow> options_base \<Rightarrow> 64 word" where
  "change_count opt s =
     (case opt of None \<Rightarrow> 0
      | Some i \<Rightarrow> if length (ob_values s) \<le> i then 0 else ov_change_counter (ob_values s ! i))"

definition get_mnemonic :: "optlib \<Rightarrow> option_registry \<Rightarrow> optionsIndex \<Rightarrow> options_base \<Rightarrow> wstring \<times> options_base" where
  "get_mnemonic T reg opt s =
     (case opt of
        None \<Rightarrow> ([], s)
      | Some i \<Rightarrow>
          (case get_int T reg opt s of (v, s1) \<Rightarrow>
             let ms = od_mnemonics (ob_options s1 ! i)
             in if v < 0 \<or> int (length ms) \<le> v then ([], s1) else (ms ! nat v, s1)))"

subsection \<open>Validation\<close>

definition validate_int :: "option_def \<Rightarrow> int \<Rightarrow> bool" where
  "validate_int d value =
     (if od_type d = option_number then
        if (value < od_min d \<or> od_max d < value) \<and> \<not> has_flag (od_flags d) flag_numeric_clamp then False
        else (case od_int_validator d of Some f \<Rightarrow> fst (f value) | None \<Rightarrow> True)
      else True)"

definition validate_str :: "optlib \<Rightarrow> option_def \<Rightarrow> wstring \<Rightarrow> bool" where
  "validate_str T d value =
     (case od_type d of
        option_number \<Rightarrow>
          (let v = to_int_or T value int_min
           in if v = int_min then
                if od_mnemonics d = [] then False else validate_int d (val_from_mnemonic d value)
              else validate_int d v)
      | option_string \<Rightarrow> (case od_str_validator d of Some f \<Rightarrow> fst (f value) | None \<Rightarrow> True)
      | _ \<Rightarrow> True)"

definition validate_xml :: "option_def \<Rightarrow> xml list \<Rightarrow> bool" where
  "validate_xml d value = (case od_xml_validator d of Some f \<Rightarrow> fst (f value) | None \<Rightarrow> True)"

subsection \<open>Setting a value\<close>

definition set_changed :: "nat \<Rightarrow> options_base \<Rightarrow> options_base" where
  "set_changed opt s =
     (let notify = (ob_can_notify s \<and> \<not> watched_any (ob_changed s));
          s1 = s\<lparr>ob_changed := watched_set opt (ob_changed s)\<rparr>
      in if notify then s1\<lparr>ob_pending := ob_pending s1 + 1\<rparr> else s1)"

definition put_value :: "nat \<Rightarrow> option_value \<Rightarrow> options_base \<Rightarrow> options_base" where
  "put_value i v s = s\<lparr>ob_values := (ob_values s)[i := v]\<rparr>"

text \<open>The two early returns that all three setters begin with.\<close>

definition set_refused :: "option_def \<Rightarrow> option_value \<Rightarrow> bool \<Rightarrow> bool" where
  "set_refused d val predef \<longleftrightarrow>
     (has_flag (od_flags d) flag_predefined_only \<and> \<not> predef) \<or>
     (has_flag (od_flags d) flag_predefined_priority \<and> \<not> predef \<and> ov_predefined val)"

text \<open>The number that is checked by the validator: refused when it is out of range, or moved to the
  nearest bound.\<close>

definition clamp_value :: "option_def \<Rightarrow> int \<Rightarrow> int option" where
  "clamp_value d value =
     (if value < od_min d then
        if \<not> has_flag (od_flags d) flag_numeric_clamp then None else Some (od_min d)
      else if od_max d < value then
        if \<not> has_flag (od_flags d) flag_numeric_clamp then None else Some (od_max d)
      else Some value)"

definition set_value_int :: "nat \<Rightarrow> option_def \<Rightarrow> int \<Rightarrow> bool \<Rightarrow> options_base \<Rightarrow> options_base" where
  "set_value_int i d value predef s =
     (let val = ob_values s ! i
      in if set_refused d val predef then s
         else case clamp_value d value of
                None \<Rightarrow> s
              | Some v \<Rightarrow>
                  (case (case od_int_validator d of Some f \<Rightarrow> f v | None \<Rightarrow> (True, v)) of (ok, v1) \<Rightarrow>
                     if \<not> ok then s
                     else
                       let val1 = val\<lparr>ov_predefined := predef\<rparr>
                       in if v1 = ov_v val then put_value i val1 s
                          else set_changed i (put_value i
                            (val1\<lparr>ov_v := v1, ov_str := show_int v1, ov_change_counter := ov_change_counter val + 1\<rparr>) s)))"

definition set_value_str :: "optlib \<Rightarrow> nat \<Rightarrow> option_def \<Rightarrow> wstring \<Rightarrow> bool \<Rightarrow> options_base \<Rightarrow> options_base" where
  "set_value_str T i d value predef s =
     (let val = ob_values s ! i
      in if set_refused d val predef then s
         else if od_max d < int (length value) then s
         else
           (case (case od_str_validator d of Some f \<Rightarrow> f value | None \<Rightarrow> (True, value)) of (ok, v1) \<Rightarrow>
              if \<not> ok then s
              else
                let val1 = val\<lparr>ov_predefined := predef\<rparr>
                in if v1 = ov_str val then put_value i val1 s
                   else set_changed i (put_value i
                     (val1\<lparr>ov_v := to_int_or T v1 0, ov_str := v1, ov_change_counter := ov_change_counter val + 1\<rparr>) s)))"

definition set_value_xml :: "nat \<Rightarrow> option_def \<Rightarrow> xml list \<Rightarrow> bool \<Rightarrow> options_base \<Rightarrow> options_base" where
  "set_value_xml i d value predef s =
     (let val = ob_values s ! i
      in if set_refused d val predef then s
         else
           (case (case od_xml_validator d of Some f \<Rightarrow> f value | None \<Rightarrow> (True, value)) of (ok, v1) \<Rightarrow>
              if \<not> ok then s
              else set_changed i (put_value i
                (val\<lparr>ov_xml := Some v1, ov_change_counter := ov_change_counter val + 1\<rparr>) s)))"

subsection \<open>The public setters\<close>

definition set_int :: "optlib \<Rightarrow> option_registry \<Rightarrow> optionsIndex \<Rightarrow> int \<Rightarrow> options_base \<Rightarrow> options_base" where
  "set_int T reg opt value s =
     (case ensure T reg opt s of
        None \<Rightarrow> s
      | Some (i, s1) \<Rightarrow>
          let d = ob_options s1 ! i
          in case od_type d of
               option_number \<Rightarrow> set_value_int i d value False s1
             | option_boolean \<Rightarrow> set_value_int i d (if value \<noteq> 0 then 1 else 0) False s1
             | option_string \<Rightarrow> set_value_str T i d (show_int value) False s1
             | option_xml \<Rightarrow> s1)"

definition set_string :: "optlib \<Rightarrow> option_registry \<Rightarrow> optionsIndex \<Rightarrow> wstring \<Rightarrow> bool \<Rightarrow> options_base \<Rightarrow> options_base" where
  "set_string T reg opt value predef s =
     (case ensure T reg opt s of
        None \<Rightarrow> s
      | Some (i, s1) \<Rightarrow>
          let d = ob_options s1 ! i
          in case od_type d of
               option_number \<Rightarrow>
                 (let v = to_int_or T value int_min;
                      v1 = (if v = int_min \<and> od_mnemonics d \<noteq> [] then val_from_mnemonic d value else v)
                  in set_value_int i d v1 predef s1)
             | option_boolean \<Rightarrow> set_value_int i d (to_int_or T value 0) predef s1
             | option_string \<Rightarrow> set_value_str T i d value predef s1
             | option_xml \<Rightarrow> s1)"

text \<open>The argument is a null node, a document, of which the elements are copied, or a node.\<close>

datatype xml_argument = Null_node | Document "xml list" | Node xml

fun is_element :: "xml \<Rightarrow> bool" where
  "is_element (Element n as cs) \<longleftrightarrow> True"
| "is_element (Pcdata t) \<longleftrightarrow> False"

definition xml_document :: "xml_argument \<Rightarrow> xml list" where
  "xml_document x = (case x of Null_node \<Rightarrow> [] | Document cs \<Rightarrow> filter is_element cs | Node n \<Rightarrow> [n])"

definition set_xml :: "optlib \<Rightarrow> option_registry \<Rightarrow> optionsIndex \<Rightarrow> xml_argument \<Rightarrow> options_base \<Rightarrow> options_base" where
  "set_xml T reg opt value s =
     (case ensure T reg opt s of
        None \<Rightarrow> s
      | Some (i, s1) \<Rightarrow>
          let d = ob_options s1 ! i
          in if od_type d \<noteq> option_xml then s1 else set_value_xml i d (xml_document value) False s1)"

subsection \<open>Watching\<close>

fun update_watcher :: "handler \<Rightarrow> (watcher \<Rightarrow> watcher) \<Rightarrow> watcher list \<Rightarrow> watcher list option" where
  "update_watcher h f [] = None"
| "update_watcher h f (w # ws) =
     (if w_handler w = h then Some (f w # ws) else map_option (\<lambda>us. w # us) (update_watcher h f ws))"

definition watch :: "optionsIndex \<Rightarrow> handler option \<Rightarrow> options_base \<Rightarrow> options_base" where
  "watch opt handler s =
     (case (handler, opt) of
        (Some h, Some i) \<Rightarrow>
          s\<lparr>ob_watchers :=
            (case update_watcher h (\<lambda>w. w\<lparr>w_options := watched_set i (w_options w)\<rparr>) (ob_watchers s) of
               Some ws \<Rightarrow> ws
             | None \<Rightarrow> ob_watchers s @ [\<lparr>w_handler = h, w_options = watched_set i [], w_all = False\<rparr>])\<rparr>
      | _ \<Rightarrow> s)"

definition watch_all :: "handler option \<Rightarrow> options_base \<Rightarrow> options_base" where
  "watch_all handler s =
     (case handler of
        None \<Rightarrow> s
      | Some h \<Rightarrow>
          s\<lparr>ob_watchers :=
            (case update_watcher h (\<lambda>w. w\<lparr>w_all := True\<rparr>) (ob_watchers s) of
               Some ws \<Rightarrow> ws
             | None \<Rightarrow> ob_watchers s @ [\<lparr>w_handler = h, w_options = [], w_all = True\<rparr>])\<rparr>)"

text \<open>\<open>watchers_[i] = watchers_.back(); watchers_.pop_back();\<close>\<close>

definition swap_remove :: "nat \<Rightarrow> 'a list \<Rightarrow> 'a list" where
  "swap_remove i xs = butlast (xs[i := last xs])"

definition unwatch :: "optionsIndex \<Rightarrow> handler option \<Rightarrow> options_base \<Rightarrow> options_base" where
  "unwatch opt handler s =
     (case (handler, opt) of
        (Some h, Some o') \<Rightarrow>
          (case find_idx (\<lambda>w. w_handler w = h) (ob_watchers s) of
             None \<Rightarrow> s
           | Some i \<Rightarrow>
               let w = ob_watchers s ! i;
                   w1 = w\<lparr>w_options := watched_unset o' (w_options w)\<rparr>;
                   ws = (ob_watchers s)[i := w1]
               in if watched_any (w_options w1) \<or> w_all w1 then s\<lparr>ob_watchers := ws\<rparr>
                  else s\<lparr>ob_watchers := swap_remove i ws\<rparr>)
      | _ \<Rightarrow> s)"

definition unwatch_all :: "handler option \<Rightarrow> options_base \<Rightarrow> options_base" where
  "unwatch_all handler s =
     (case handler of
        None \<Rightarrow> s
      | Some h \<Rightarrow>
          (case find_idx (\<lambda>w. w_handler w = h) (ob_watchers s) of
             None \<Rightarrow> s
           | Some i \<Rightarrow> s\<lparr>ob_watchers := swap_remove i (ob_watchers s)\<rparr>))"

definition notified :: "watched_options \<Rightarrow> watcher \<Rightarrow> (handler \<times> watched_options) list" where
  "notified changed w =
     (let n = (if w_all w then changed else watched_and changed (w_options w))
      in if watched_any n then [(w_handler w, n)] else [])"

text \<open>\<open>process_changed\<close> belongs to the derived class.\<close>

definition continue_notify_changed :: "options_base \<Rightarrow> options_base" where
  "continue_notify_changed s =
     (if \<not> watched_any (ob_changed s) then s
      else
        let changed = ob_changed s
        in s\<lparr>ob_changed := [], ob_sent := ob_sent s @ concat (map (notified changed) (ob_watchers s))\<rparr>)"

end
