(* ===== verification/Options_Props.thy ===== *)
theory Options_Props
  imports Options_Base "HOL-Library.Sublist"
begin

unbundle bit_operations_syntax

text \<open>
  What the options keep: the bits are sets of indexes, values stay valid, and no change is lost on
  its way to the watchers.
\<close>

subsection \<open>Bits as sets\<close>

lemma index_in_word: "(j :: nat) div 64 = i div 64 \<Longrightarrow> j mod 64 = i mod 64 \<longleftrightarrow> j = i"
  by (metis div_mult_mod_eq)

lemma watched_test_bit:
  "watched_test i w \<longleftrightarrow> i div 64 < length w \<and> bit (w ! (i div 64)) (i mod 64)"
  by (simp add: watched_test_def Let_def bit_iff_and_push_bit_not_eq_0)

lemma watched_any_test: "watched_any w \<longleftrightarrow> (\<exists>i. watched_test i w)"
proof
  assume "watched_any w"
  then obtain k where k: "k < length w" "w ! k \<noteq> 0" by (auto simp: watched_any_def list_ex_length)
  then obtain n where n: "bit (w ! k) n" by (auto simp: bit_eq_iff)
  then have "n < 64" using bit_imp_le_length [of "w ! k" n] by simp
  then have "watched_test (64 * k + n) w" using k n by (simp add: watched_test_bit)
  then show "\<exists>i. watched_test i w" by blast
next
  assume "\<exists>i. watched_test i w"
  then obtain i where "i div 64 < length w" "bit (w ! (i div 64)) (i mod 64)" by (auto simp: watched_test_bit)
  moreover from this(2) have "w ! (i div 64) \<noteq> 0" by auto
  ultimately show "watched_any w" by (auto simp: watched_any_def list_ex_length)
qed

lemma watched_test_Nil [simp]: "\<not> watched_test i []"
  by (simp add: watched_test_bit)

lemma watched_test_resize:
  "watched_test i (watched_resize n w) \<longleftrightarrow> i div 64 < n \<and> watched_test i w"
  by (auto simp: watched_test_bit watched_resize_def nth_append)

lemma length_watched_resize [simp]: "length (watched_resize n w) = n"
  by (simp add: watched_resize_def)

lemma watched_test_set: "watched_test j (watched_set i w) \<longleftrightarrow> j = i \<or> watched_test j w"
proof -
  define v where "v = (if length w \<le> i div 64 then watched_resize (i div 64 + 1) w else w)"
  have len: "i div 64 < length v" by (simp add: v_def)
  have "i mod 64 < 64" by simp
  then have "watched_test j (watched_set i w) \<longleftrightarrow> watched_test j v \<or> j = i"
    using len index_in_word [of j i] unfolding watched_set_def Let_def v_def [symmetric]
    by (cases "j div 64 = i div 64") (auto simp: watched_test_bit bit_or_iff bit_exp_iff)
  moreover have "watched_test j v \<longleftrightarrow> watched_test j w"
    by (auto simp: v_def watched_test_resize) (simp add: watched_test_bit)
  ultimately show ?thesis by blast
qed

lemma watched_test_unset: "watched_test j (watched_unset i w) \<longleftrightarrow> j \<noteq> i \<and> watched_test j w"
proof -
  have "j mod 64 < 64" by simp
  then show ?thesis using index_in_word [of j i]
    by (cases "j div 64 = i div 64")
      (auto simp: watched_unset_def watched_test_bit Let_def bit_and_iff bit_not_iff bit_exp_iff)
qed

lemma watched_test_and: "watched_test j (watched_and w v) \<longleftrightarrow> watched_test j w \<and> watched_test j v"
  by (auto simp: watched_and_def watched_test_bit Let_def bit_and_iff watched_resize_def)

text \<open>The sets that the words stand for.\<close>

definition watched_set_of :: "watched_options \<Rightarrow> nat set" where
  "watched_set_of w = {i. watched_test i w}"

text \<open>C21: The words of \<open>watched_options\<close> implement finite sets of option indexes: setting,
  unsetting, testing, intersecting and asking for emptiness are the operations on sets, whatever the
  lengths of the vectors.\<close>

theorem watched_options_are_sets:
  "watched_set_of [] = {} \<and> finite (watched_set_of w) \<and>
   watched_set_of (watched_set i w) = insert i (watched_set_of w) \<and>
   watched_set_of (watched_unset i w) = watched_set_of w - {i} \<and>
   watched_set_of (watched_and w v) = watched_set_of w \<inter> watched_set_of v \<and>
   (watched_test i w \<longleftrightarrow> i \<in> watched_set_of w) \<and> (watched_any w \<longleftrightarrow> watched_set_of w \<noteq> {})"
proof -
  have "i < 64 * length w" if "watched_test i w" for i using that by (auto simp: watched_test_bit)
  then have "watched_set_of w \<subseteq> {..<64 * length w}" by (auto simp: watched_set_of_def)
  then have "finite (watched_set_of w)" by (rule finite_subset) simp
  then show ?thesis
    by (auto simp: watched_set_of_def watched_test_set watched_test_unset watched_test_and watched_any_test)
qed

text \<open>
  The invariant of the options through every public operation: values stay valid, a change that was
  not reported yet has a notification on its way, and there is one watcher for each handler.
\<close>

subsection \<open>Valid definitions and values\<close>

definition in_range :: "option_def \<Rightarrow> int \<Rightarrow> bool" where
  "in_range d v \<longleftrightarrow> od_min d \<le> v \<and> v \<le> od_max d"

text \<open>A validator may change a value but not move it out of the range, or make a text too
  long.\<close>

definition def_ok :: "option_def \<Rightarrow> bool" where
  "def_ok d \<longleftrightarrow>
     od_min d \<le> od_max d \<and>
     (od_type d = option_boolean \<longrightarrow> od_min d = 0 \<and> od_max d = 1 \<and> od_int_validator d = None) \<and>
     (\<forall>f v. od_int_validator d = Some f \<longrightarrow> in_range d v \<longrightarrow> in_range d (snd (f v))) \<and>
     (\<forall>f t. od_str_validator d = Some f \<longrightarrow> int (length t) \<le> od_max d \<longrightarrow> int (length (snd (f t))) \<le> od_max d)"

definition is_default :: "optlib \<Rightarrow> option_def \<Rightarrow> option_value \<Rightarrow> bool" where
  "is_default T d v \<longleftrightarrow> ov_str v = od_default d \<and> ov_v v = to_int_or T (od_default d) 0"

definition value_ok :: "optlib \<Rightarrow> option_def \<Rightarrow> option_value \<Rightarrow> bool" where
  "value_ok T d v \<longleftrightarrow>
     (case od_type d of
        option_string \<Rightarrow> ov_v v = to_int_or T (ov_str v) 0 \<and> (int (length (ov_str v)) \<le> od_max d \<or> ov_str v = od_default d)
      | option_xml \<Rightarrow> ov_xml v \<noteq> None
      | _ \<Rightarrow> (in_range d (ov_v v) \<and> ov_str v = show_int (ov_v v)) \<or> is_default T d v)"

text \<open>Only what a value holds counts, not who set it.\<close>

lemma value_ok_predefined [simp]: "value_ok T d (v\<lparr>ov_predefined := p\<rparr>) = value_ok T d v"
  by (simp add: value_ok_def is_default_def split: option_type.splits)

definition options_inv :: "optlib \<Rightarrow> option_registry \<Rightarrow> options_base \<Rightarrow> bool" where
  "options_inv T reg s \<longleftrightarrow>
     list_all def_ok (reg_options reg) \<and> prefix (ob_options s) (reg_options reg) \<and>
     length (ob_values s) = length (ob_options s) \<and>
     (\<forall>i < length (ob_values s). value_ok T (ob_options s ! i) (ob_values s ! i)) \<and>
     (ob_can_notify s \<and> watched_any (ob_changed s) \<longrightarrow> 0 < ob_pending s) \<and>
     distinct (map w_handler (ob_watchers s)) \<and>
     (\<forall>w \<in> set (ob_watchers s). w_all w \<or> watched_any (w_options w))"

lemma options_invD:
  assumes "options_inv T reg s" "i < length (ob_values s)"
  shows "value_ok T (ob_options s ! i) (ob_values s ! i)" "def_ok (ob_options s ! i)"
proof -
  have "i < length (ob_options s)" "prefix (ob_options s) (reg_options reg)" "list_all def_ok (reg_options reg)"
    using assms by (simp_all add: options_inv_def)
  then show "def_ok (ob_options s ! i)"
    by (metis list_all_length nth_append prefix_def prefix_length_le order_less_le_trans)
  show "value_ok T (ob_options s ! i) (ob_values s ! i)" using assms by (simp add: options_inv_def)
qed

text \<open>The options of the engine are such definitions.\<close>

lemma def_ok_constructors [simp]:
  "def_ok (option_def_boolean name b flags)"
  "def_ok (option_def_string name t flags len)"
  "mn \<le> mx \<Longrightarrow> def_ok (option_def_number name n flags mn mx None ms)"
  "mn \<le> mx \<Longrightarrow> (\<And>v. mn \<le> v \<Longrightarrow> v \<le> mx \<Longrightarrow> mn \<le> snd (f v) \<and> snd (f v) \<le> mx) \<Longrightarrow>
   def_ok (option_def_number name n flags mn mx (Some f) ms)"
  by (simp_all add: def_ok_def option_def_boolean_def option_def_string_def option_def_typed_def option_def_number_def
      in_range_def)

lemma engine_options_ok: "list_all def_ok engine_options"
  by (simp add: engine_options_def validate_timeout_def validate_buffersize_def)

lemma length_engine_options: "length engine_options = OPTIONS_ENGINE_NUM"
  by (simp add: engine_options_def OPTIONS_ENGINE_NUM_def)

text \<open>The default of one of them is outside its range, so it cannot be set again.\<close>

lemma proxy_port_default_out_of_range:
  "map od_name (filter (\<lambda>d. od_type d \<in> {option_number, option_boolean} \<and> \<not> in_range d (read_int (od_default d))) engine_options) =
   [''Proxy port'']"
  by code_simp

subsection \<open>Missing options\<close>

text \<open>What stays when only definitions and values change.\<close>

definition same_rest :: "options_base \<Rightarrow> options_base \<Rightarrow> bool" where
  "same_rest s s' \<longleftrightarrow>
     ob_can_notify s' = ob_can_notify s \<and> ob_watchers s' = ob_watchers s \<and> ob_sent s' = ob_sent s \<and>
     ob_changed s' = ob_changed s \<and> ob_pending s' = ob_pending s"

lemma same_rest_refl [simp]: "same_rest s s"
  by (simp add: same_rest_def)

definition default_value :: "optlib \<Rightarrow> option_def \<Rightarrow> option_value" where
  "default_value T d =
     (if od_type d = option_xml then new_option_value\<lparr>ov_xml := Some (ol_parse_xml T (od_default d))\<rparr>
      else new_option_value\<lparr>ov_str := od_default d, ov_v := to_int_or T (od_default d) 0\<rparr>)"

lemma default_value_ok [simp]: "value_ok T d (default_value T d)"
  by (simp add: value_ok_def default_value_def is_default_def split: option_type.splits)

lemma set_default_new:
  "vals ! i = new_option_value \<Longrightarrow> set_default_value T i options vals = vals[i := default_value T (options ! i)]"
  by (simp add: set_default_value_def default_value_def Let_def)

lemma foldl_set_default:
  assumes "n \<le> length options"
  shows "i \<le> n \<Longrightarrow> length vals = i \<Longrightarrow>
    foldl (\<lambda>vs j. set_default_value T j options vs) (vals @ replicate (n - i) new_option_value) [i..<n] =
    vals @ map (default_value T) (drop i (take n options))"
proof (induction "n - i" arbitrary: i vals)
  case 0
  then show ?case by simp
next
  case (Suc k)
  then have i: "i < n" by simp
  then have rep: "replicate (n - i) new_option_value = new_option_value # replicate (n - Suc i) new_option_value"
    by (simp flip: replicate_Suc)
  have step: "set_default_value T i options (vals @ replicate (n - i) new_option_value) =
      (vals @ [default_value T (options ! i)]) @ replicate (n - Suc i) new_option_value"
    using Suc.prems(2) by (simp add: rep set_default_new nth_append list_update_append)
  have "drop i (take n options) = options ! i # drop (Suc i) (take n options)"
    using i assms by (simp flip: Cons_nth_drop_Suc)
  moreover have "[i..<n] = i # [Suc i..<n]" using i by (rule upt_conv_Cons)
  ultimately show ?case
    using Suc.hyps(1) [of "Suc i" "vals @ [default_value T (options ! i)]"] Suc.hyps(2) Suc.prems i step by simp
qed

lemma add_missing_inv:
  assumes "options_inv T reg s" "do_add_missing T reg i s = (True, s1)"
  shows "options_inv T reg s1 \<and> same_rest s s1 \<and> ob_options s1 = reg_options reg \<and>
    ob_values s1 = ob_values s @ map (default_value T) (drop (length (ob_values s)) (reg_options reg)) \<and>
    i < length (ob_values s1)"
proof -
  have len: "length (ob_values s) \<le> length (reg_options reg)" and pre: "prefix (ob_options s) (reg_options reg)"
    using assms(1) prefix_length_le by (auto simp: options_inv_def)
  define vals where "vals = ob_values s @ map (default_value T) (drop (length (ob_values s)) (reg_options reg))"
  have "(if length (reg_options reg) \<le> length (ob_values s) then take (length (reg_options reg)) (ob_values s)
       else ob_values s @ replicate (length (reg_options reg) - length (ob_values s)) new_option_value) =
      ob_values s @ replicate (length (reg_options reg) - length (ob_values s)) new_option_value"
    using len by simp
  then have s1: "s1 = s\<lparr>ob_options := reg_options reg, ob_names := reg_names reg, ob_values := vals\<rparr>"
    and i: "i < length (reg_options reg)"
    using assms(2) foldl_set_default [of "length (reg_options reg)" "reg_options reg" "length (ob_values s)" "ob_values s" T] len
    by (auto simp: do_add_missing_def Let_def vals_def split: if_splits)
  have "value_ok T (reg_options reg ! j) (vals ! j)" if "j < length (reg_options reg)" for j
  proof (cases "j < length (ob_values s)")
    case True
    moreover have "ob_options s ! j = reg_options reg ! j"
      using pre True assms(1) by (metis nth_append options_inv_def prefix_def)
    ultimately show ?thesis using options_invD(1) [OF assms(1) True] by (simp add: vals_def nth_append)
  qed (use that in \<open>simp add: vals_def nth_append\<close>)
  moreover have "length vals = length (reg_options reg)" using len by (simp add: vals_def)
  ultimately show ?thesis using assms(1) i by (simp add: s1 options_inv_def same_rest_def vals_def)
qed

lemma ensure_inv:
  assumes "options_inv T reg s" "ensure T reg opt s = Some (i, s1)"
  shows "options_inv T reg s1 \<and> same_rest s s1 \<and> opt = Some i \<and> i < length (ob_values s1)"
proof -
  have opt: "opt = Some i" using assms(2) by (auto simp: ensure_def split: option.splits if_splits prod.splits)
  show ?thesis
  proof (cases "length (ob_values s) \<le> i")
    case True
    then have "do_add_missing T reg i s = (True, s1)"
      using assms(2) opt by (auto simp: ensure_def split: prod.splits if_splits)
    then show ?thesis using add_missing_inv [OF assms(1)] opt by blast
  qed (use assms opt in \<open>simp add: ensure_def\<close>)
qed

subsection \<open>Setters\<close>

lemma set_changed_inv:
  assumes "options_inv T reg s"
  shows "options_inv T reg (set_changed i s)"
proof -
  have "watched_any (watched_set i (ob_changed s))" by (auto simp: watched_any_test watched_test_set)
  then show ?thesis using assms by (auto simp: options_inv_def set_changed_def Let_def)
qed

lemma put_value_inv:
  assumes "options_inv T reg s" "value_ok T (ob_options s ! i) v"
  shows "options_inv T reg (put_value i v s)"
proof -
  have "value_ok T (ob_options s ! j) ((ob_values s)[i := v] ! j)" if "j < length (ob_values s)" for j
    using that assms options_invD(1) [OF assms(1) that] by (cases "j = i") simp_all
  then show ?thesis using assms(1) by (simp add: options_inv_def put_value_def)
qed

lemma put_value_fields [simp]:
  "ob_options (put_value i v s) = ob_options s" "ob_changed (put_value i v s) = ob_changed s"
  "ob_can_notify (put_value i v s) = ob_can_notify s" "ob_watchers (put_value i v s) = ob_watchers s"
  "ob_pending (put_value i v s) = ob_pending s" "ob_sent (put_value i v s) = ob_sent s"
  by (simp_all add: put_value_def)

lemma clamp_in_range: "def_ok d \<Longrightarrow> clamp_value d v = Some w \<Longrightarrow> in_range d w"
  by (auto simp: def_ok_def clamp_value_def in_range_def split: if_splits)

text \<open>A setter leaves the options, renews a value and reports it, or only notes who set it.\<close>

definition set_effect :: "nat \<Rightarrow> options_base \<Rightarrow> options_base \<Rightarrow> (option_value \<Rightarrow> bool) \<Rightarrow> bool" where
  "set_effect i s s' ok \<longleftrightarrow>
     s' = s \<or> (\<exists>p. s' = put_value i ((ob_values s ! i)\<lparr>ov_predefined := p\<rparr>) s) \<or>
     (\<exists>v. ok v \<and> s' = set_changed i (put_value i v s))"

lemma set_effect_inv:
  assumes "options_inv T reg s" "i < length (ob_values s)" "set_effect i s s' (value_ok T (ob_options s ! i))"
  shows "options_inv T reg s'"
  using assms(3) unfolding set_effect_def
  by (elim disjE exE conjE) (simp_all add: set_changed_inv put_value_inv assms(1) options_invD [OF assms(1,2)])

lemma set_value_int_effect:
  assumes "def_ok d" "od_type d \<in> {option_number, option_boolean}"
  shows "set_effect i s (set_value_int i d value predef s) (value_ok T d)"
proof (cases "set_refused d (ob_values s ! i) predef \<or> clamp_value d value = None")
  case True
  then show ?thesis by (auto simp: set_value_int_def set_effect_def Let_def)
next
  case False
  then obtain v where v: "clamp_value d value = Some v" by blast
  obtain ok v1 where f: "(case od_int_validator d of Some f \<Rightarrow> f v | None \<Rightarrow> (True, v)) = (ok, v1)" by fastforce
  have "in_range d v1" using clamp_in_range [OF assms(1) v] f assms(1) unfolding def_ok_def
    by (cases "od_int_validator d") (auto dest: spec [of _ v])
  then have "value_ok T d ((ob_values s ! i)\<lparr>ov_predefined := predef, ov_v := v1, ov_str := show_int v1,
      ov_change_counter := ov_change_counter (ob_values s ! i) + 1\<rparr>)"
    using assms(2) by (auto simp: value_ok_def)
  then show ?thesis using False v f unfolding set_effect_def set_value_int_def by (auto simp: Let_def)
qed

lemma set_value_str_effect:
  assumes "def_ok d" "od_type d = option_string"
  shows "set_effect i s (set_value_str T i d value predef s) (value_ok T d)"
proof (cases "set_refused d (ob_values s ! i) predef \<or> od_max d < int (length value)")
  case True
  then show ?thesis by (auto simp: set_value_str_def set_effect_def Let_def)
next
  case False
  obtain ok v1 where f: "(case od_str_validator d of Some f \<Rightarrow> f value | None \<Rightarrow> (True, value)) = (ok, v1)" by fastforce
  have "int (length v1) \<le> od_max d" using f False assms(1) unfolding def_ok_def
    by (cases "od_str_validator d") (auto dest: spec [of _ "value"])
  then have "value_ok T d ((ob_values s ! i)\<lparr>ov_predefined := predef, ov_v := to_int_or T v1 0, ov_str := v1,
      ov_change_counter := ov_change_counter (ob_values s ! i) + 1\<rparr>)"
    using assms(2) by (simp add: value_ok_def)
  then show ?thesis using False f unfolding set_effect_def set_value_str_def by (auto simp: Let_def)
qed

lemma set_value_xml_effect:
  assumes "od_type d = option_xml"
  shows "set_effect i s (set_value_xml i d value predef s) (value_ok T d)"
proof -
  obtain ok v1 where "(case od_xml_validator d of Some f \<Rightarrow> f value | None \<Rightarrow> (True, value)) = (ok, v1)" by fastforce
  moreover have "value_ok T d ((ob_values s ! i)\<lparr>ov_xml := Some v1, ov_change_counter := ov_change_counter (ob_values s ! i) + 1\<rparr>)"
    using assms by (simp add: value_ok_def)
  ultimately show ?thesis unfolding set_effect_def set_value_xml_def by (auto simp: Let_def)
qed

end
