(* ===== verification/Options_Notify.thy ===== *)
theory Options_Notify
  imports Options_Props
begin

text \<open>
  The operations on the options as steps, the states they reach, and what every reachable state
  guarantees.
\<close>

subsection \<open>Watchers\<close>

lemma update_watcher_None: "update_watcher h f ws = None \<longleftrightarrow> h \<notin> w_handler ` set ws"
  by (induction ws) auto

lemma update_watcher_Some:
  assumes "update_watcher h f ws = Some us" "\<And>w. w_handler (f w) = w_handler w"
  shows "map w_handler us = map w_handler ws" "set us \<subseteq> set ws \<union> f ` set ws"
  using assms(1)
proof (induction ws arbitrary: us)
  case (Cons w ws)
  {
    case 1
    then show ?case using Cons.IH(1) assms(2) by (auto split: if_splits)
  next
    case 2
    then show ?case using Cons.IH(2) by (fastforce split: if_splits)
  }
qed simp_all

lemma swap_remove_snoc: "i < length (ys @ [y]) \<Longrightarrow> swap_remove i (ys @ [y]) = (if i = length ys then ys else ys[i := y])"
  by (simp add: swap_remove_def list_update_append butlast_append)

lemma set_swap_remove: "i < length xs \<Longrightarrow> set (swap_remove i xs) \<subseteq> set xs"
proof (cases xs rule: rev_cases)
  case (snoc ys y)
  then show "i < length xs \<Longrightarrow> ?thesis" using set_update_subset_insert [of ys i y] by (simp add: swap_remove_snoc) blast
qed simp

lemma distinct_swap_remove: "i < length xs \<Longrightarrow> distinct (map f xs) \<Longrightarrow> distinct (map f (swap_remove i xs))"
proof (cases xs rule: rev_cases)
  case (snoc ys y)
  then show "i < length xs \<Longrightarrow> distinct (map f xs) \<Longrightarrow> ?thesis"
    by (auto simp: swap_remove_snoc map_update intro: distinct_list_update)
qed simp

definition watchers_inv :: "watcher list \<Rightarrow> bool" where
  "watchers_inv ws \<longleftrightarrow> distinct (map w_handler ws) \<and> (\<forall>w \<in> set ws. w_all w \<or> watched_any (w_options w))"

lemma watchers_inv_swap_remove: "watchers_inv ws \<Longrightarrow> i < length ws \<Longrightarrow> watchers_inv (swap_remove i ws)"
  using set_swap_remove [of i ws] distinct_swap_remove [of i ws w_handler] by (auto simp: watchers_inv_def)

lemma watchers_inv_update:
  assumes "watchers_inv ws" "\<And>w. w_handler (f w) = w_handler w" "\<And>w. w_all (f w) \<or> watched_any (w_options (f w))"
    and "w_handler x = h" "w_all x \<or> watched_any (w_options x)"
  shows "watchers_inv (case update_watcher h f ws of Some us \<Rightarrow> us | None \<Rightarrow> ws @ [x])"
proof (cases "update_watcher h f ws")
  case None
  have "h \<notin> w_handler ` set ws" by (rule update_watcher_None [THEN iffD1, OF None])
  then show ?thesis using assms by (auto simp: None watchers_inv_def)
next
  case (Some us)
  have "w_all u \<or> watched_any (w_options u)" if "u \<in> set us" for u
  proof -
    have "u \<in> set ws \<or> u \<in> f ` set ws" using update_watcher_Some(2) [OF Some assms(2)] that by blast
    then show ?thesis using assms(1,3) by (auto simp: watchers_inv_def)
  qed
  then show ?thesis using assms(1) update_watcher_Some(1) [OF Some assms(2)] by (simp add: Some watchers_inv_def)
qed

lemma options_inv_watchers:
  "options_inv T reg s \<Longrightarrow> watchers_inv ws \<Longrightarrow> options_inv T reg (s\<lparr>ob_watchers := ws\<rparr>)"
  by (simp add: options_inv_def watchers_inv_def)

lemma options_inv_watchersD: "options_inv T reg s \<Longrightarrow> watchers_inv (ob_watchers s)"
  by (simp add: options_inv_def watchers_inv_def)

lemma watch_inv:
  assumes "options_inv T reg s"
  shows "options_inv T reg (watch opt handler s)"
proof (cases "(handler, opt)")
  case (Pair a b)
  show ?thesis
  proof (cases "a = None \<or> b = None")
    case False
    then obtain h i where hi: "handler = Some h" "opt = Some i" using Pair by auto
    let ?f = "\<lambda>w. w\<lparr>w_options := watched_set i (w_options w)\<rparr>"
    have "watchers_inv (case update_watcher h ?f (ob_watchers s) of
        Some us \<Rightarrow> us | None \<Rightarrow> ob_watchers s @ [\<lparr>w_handler = h, w_options = watched_set i [], w_all = False\<rparr>])"
      using options_inv_watchersD [OF assms]
      by (rule watchers_inv_update) (auto simp: watched_any_test watched_test_set)
    from options_inv_watchers [OF assms this] show ?thesis by (simp add: watch_def hi)
  qed (use assms Pair in \<open>auto simp: watch_def split: option.splits\<close>)
qed

lemma watch_all_inv:
  assumes "options_inv T reg s"
  shows "options_inv T reg (watch_all handler s)"
proof (cases handler)
  case (Some h)
  let ?f = "\<lambda>w. w\<lparr>w_all := True\<rparr>"
  have "watchers_inv (case update_watcher h ?f (ob_watchers s) of
      Some us \<Rightarrow> us | None \<Rightarrow> ob_watchers s @ [\<lparr>w_handler = h, w_options = [], w_all = True\<rparr>])"
    using options_inv_watchersD [OF assms] by (rule watchers_inv_update) simp_all
  from options_inv_watchers [OF assms this] show ?thesis by (simp add: watch_all_def Some)
qed (use assms in \<open>simp add: watch_all_def\<close>)

lemma unwatch_inv:
  assumes "options_inv T reg s"
  shows "options_inv T reg (unwatch opt handler s)"
proof (cases "\<exists>h o' i. handler = Some h \<and> opt = Some o' \<and> find_idx (\<lambda>w. w_handler w = h) (ob_watchers s) = Some i")
  case True
  then obtain h o' i where hi: "handler = Some h" "opt = Some o'" "find_idx (\<lambda>w. w_handler w = h) (ob_watchers s) = Some i"
    by blast
  then have i: "i < length (ob_watchers s)" using find_idx_less by fast
  let ?w = "(ob_watchers s ! i)\<lparr>w_options := watched_unset o' (w_options (ob_watchers s ! i))\<rparr>"
  let ?ws = "(ob_watchers s)[i := ?w]"
  have "map w_handler ?ws = map w_handler (ob_watchers s)"
    using i by (simp add: map_update list_update_same_conv)
  then have d: "distinct (map w_handler ?ws)"
    using options_inv_watchersD [OF assms] by (simp only: watchers_inv_def)
  have keep: "w_all w \<or> watched_any (w_options w)" if "w \<in> set (ob_watchers s)" for w
    using options_inv_watchersD [OF assms] that by (simp add: watchers_inv_def)
  show ?thesis
  proof (cases "watched_any (w_options ?w) \<or> w_all ?w")
    case True
    have "watchers_inv ?ws" using d keep True set_update_subset_insert [of "ob_watchers s" i ?w]
      unfolding watchers_inv_def by blast
    then show ?thesis using options_inv_watchers [OF assms] hi True by (simp add: unwatch_def Let_def)
  next
    case False
    have "swap_remove i ?ws = swap_remove i (ob_watchers s)" if "i \<noteq> length (ob_watchers s) - 1"
      using that i by (cases "ob_watchers s" rule: rev_cases) (simp_all add: swap_remove_def last_list_update)
    moreover have "swap_remove i ?ws = swap_remove i (ob_watchers s)" if "i = length (ob_watchers s) - 1"
      using that i by (cases "ob_watchers s" rule: rev_cases) (simp_all add: swap_remove_def list_update_append)
    ultimately have "watchers_inv (swap_remove i ?ws)"
      using watchers_inv_swap_remove [OF options_inv_watchersD [OF assms] i] by metis
    then show ?thesis using options_inv_watchers [OF assms] hi False by (simp add: unwatch_def Let_def)
  qed
qed (use assms in \<open>auto simp: unwatch_def simp del: find_idx_None split: option.splits\<close>)

lemma unwatch_all_inv:
  assumes "options_inv T reg s"
  shows "options_inv T reg (unwatch_all handler s)"
proof (cases "\<exists>h i. handler = Some h \<and> find_idx (\<lambda>w. w_handler w = h) (ob_watchers s) = Some i")
  case True
  then obtain h i where hi: "handler = Some h" "find_idx (\<lambda>w. w_handler w = h) (ob_watchers s) = Some i" by blast
  have "watchers_inv (swap_remove i (ob_watchers s))"
    using watchers_inv_swap_remove [OF options_inv_watchersD [OF assms]] find_idx_less [OF hi(2)] .
  from options_inv_watchers [OF assms this] show ?thesis by (simp add: unwatch_all_def hi)
qed (use assms in \<open>auto simp: unwatch_all_def simp del: find_idx_None split: option.splits\<close>)

lemma continue_notify_inv:
  "options_inv T reg s \<Longrightarrow> options_inv T reg (continue_notify_changed s)"
  by (auto simp: options_inv_def continue_notify_changed_def Let_def watched_any_def)

lemma continue_notify_clears: "\<not> watched_any (ob_changed (continue_notify_changed s))"
  by (simp add: continue_notify_changed_def Let_def watched_any_def)

subsection \<open>Steps\<close>

inductive option_write :: "optlib \<Rightarrow> option_registry \<Rightarrow> nat \<Rightarrow> options_base \<Rightarrow> options_base \<Rightarrow> bool" for T reg where
  write_int: "option_write T reg i s (set_int T reg (Some i) v s)"
| write_string: "option_write T reg i s (set_string T reg (Some i) t predef s)"
| write_xml: "option_write T reg i s (set_xml T reg (Some i) x s)"

text \<open>The public operations, with every value a caller may pass (\<open>optionsIndex::invalid\<close> does
  nothing).  The event that \<open>notify_changed()\<close> posted runs \<open>continue_notify_changed()\<close>, which
  \<open>XmlOptions::Save\<close> calls directly as well; the end of \<open>XmlOptions::Load\<close>,
  which runs once, turns notifications on.\<close>

inductive option_step ::
  "optlib \<Rightarrow> option_registry \<times> options_base \<Rightarrow> option_registry \<times> options_base \<Rightarrow> bool" for T where
  register: "list_all def_ok ds \<Longrightarrow> option_step T (reg, s) (fst (register_options ds reg), s)"
| read: "ensure T reg opt s = Some (i, s') \<Longrightarrow> option_step T (reg, s) (reg, s')"
| set_value: "option_write T reg i s s' \<Longrightarrow> option_step T (reg, s) (reg, s')"
| watches: "option_step T (reg, s) (reg, watch opt handler s)"
| watches_all: "option_step T (reg, s) (reg, watch_all handler s)"
| unwatches: "option_step T (reg, s) (reg, unwatch opt handler s)"
| unwatches_all: "option_step T (reg, s) (reg, unwatch_all handler s)"
| run: "ob_pending s = Suc n \<Longrightarrow> option_step T (reg, s) (reg, continue_notify_changed (s\<lparr>ob_pending := n\<rparr>))"
| save: "option_step T (reg, s) (reg, continue_notify_changed s)"
| load_end: "\<not> ob_can_notify s \<Longrightarrow> option_step T (reg, s) (reg, s\<lparr>ob_changed := [], ob_can_notify := True\<rparr>)"

inductive option_reachable :: "optlib \<Rightarrow> option_registry \<times> options_base \<Rightarrow> bool" for T where
  start: "option_reachable T (\<lparr>reg_options = [], reg_names = Map.empty\<rparr>, new_options)"
| step: "option_reachable T c \<Longrightarrow> option_step T c c' \<Longrightarrow> option_reachable T c'"

inductive_cases option_stepE: "option_step T c c'"

lemma option_write_effect:
  assumes "options_inv T reg s" "option_write T reg i s s'"
  shows "s' = s \<or> (\<exists>s1. ensure T reg (Some i) s = Some (i, s1) \<and> options_inv T reg s1 \<and> same_rest s s1 \<and>
    i < length (ob_values s1) \<and> set_effect i s1 s' (value_ok T (ob_options s1 ! i)))"
proof (cases "ensure T reg (Some i) s")
  case None
  from assms(2) show ?thesis by cases (simp_all add: set_int_def set_string_def set_xml_def None)
next
  case (Some p)
  then obtain s1 where s1: "ensure T reg (Some i) s = Some (i, s1)" "options_inv T reg s1" "same_rest s s1"
    "i < length (ob_values s1)"
    using ensure_inv [OF assms(1)] by (cases p) fastforce
  let ?d = "ob_options s1 ! i"
  have d: "def_ok ?d" by (rule options_invD [OF s1(2,4)])
  have same: "set_effect i s1 s1 ok" for ok by (simp add: set_effect_def)
  note effects = set_value_int_effect [OF d] set_value_str_effect [OF d] set_value_xml_effect [of ?d] same
  have "set_effect i s1 s' (value_ok T ?d)"
    using assms(2)
  proof cases
    case (write_int v)
    then show ?thesis using effects by (cases "od_type ?d") (simp_all add: set_int_def s1(1) Let_def)
  next
    case (write_string t predef)
    then show ?thesis using effects by (cases "od_type ?d") (simp_all add: set_string_def s1(1) Let_def)
  next
    case (write_xml x)
    then show ?thesis using effects by (cases "od_type ?d") (simp_all add: set_xml_def s1(1) Let_def)
  qed
  then show ?thesis using s1 by blast
qed

lemma option_write_inv:
  assumes "options_inv T reg s" "option_write T reg i s s'"
  shows "options_inv T reg s'"
  using option_write_effect [OF assms] set_effect_inv assms(1) by blast

lemma set_None [simp]:
  "set_int T reg None v s = s" "set_string T reg None t predef s = s" "set_xml T reg None x s = s"
  by (simp_all add: set_int_def set_string_def set_xml_def ensure_def)

lemma options_inv_register:
  assumes "options_inv T reg s" "list_all def_ok ds"
  shows "options_inv T (fst (register_options ds reg)) s"
  using assms by (auto simp: options_inv_def register_options_def Let_def prefix_def)

lemma option_step_inv:
  assumes "option_step T c c'" "options_inv T (fst c) (snd c)"
  shows "options_inv T (fst c') (snd c')"
  using assms(1)
proof cases
  case (register ds reg s)
  then show ?thesis using assms(2) options_inv_register by simp
next
  case (read reg opt s i s')
  then show ?thesis using assms(2) ensure_inv by fastforce
next
  case (set_value reg i s s')
  then show ?thesis using assms(2) option_write_inv by simp
next
  case (run s n reg)
  have "options_inv T reg (continue_notify_changed (s\<lparr>ob_pending := n\<rparr>))"
    using assms(2) run by (auto simp: options_inv_def continue_notify_changed_def Let_def watched_any_def)
  then show ?thesis using run by simp
next
  case (load_end reg s)
  then show ?thesis using assms(2) by (simp add: options_inv_def watched_any_def)
qed (use assms(2) in \<open>simp_all add: watch_inv watch_all_inv unwatch_inv unwatch_all_inv continue_notify_inv\<close>)

lemma option_reachable_inv: "option_reachable T c \<Longrightarrow> options_inv T (fst c) (snd c)"
proof (induction rule: option_reachable.induct)
  case start
  then show ?case by (simp add: options_inv_def new_options_def)
next
  case (step c c')
  then show ?case using option_step_inv by blast
qed

text \<open>
  The properties of the options: valid values, changes that reach the watchers, values that the
  administrator has set.
\<close>

subsection \<open>What a write changes\<close>

lemma change_count_missing:
  assumes "options_inv T reg s" "ensure T reg opt s = Some (i, s1)"
  shows "change_count (Some j) s1 = change_count (Some j) s"
proof (cases "s1 = s")
  case False
  then have "do_add_missing T reg i s = (True, s1)"
    using assms(2) by (auto simp: ensure_def split: option.splits if_splits prod.splits)
  then have vals: "ob_values s1 = ob_values s @ map (default_value T) (drop (length (ob_values s)) (reg_options reg))"
    using add_missing_inv [OF assms(1)] by blast
  show ?thesis
  proof (cases "j < length (ob_values s1) \<and> length (ob_values s) \<le> j")
    case True
    then have "ob_values s1 ! j \<in> set (map (default_value T) (drop (length (ob_values s)) (reg_options reg)))"
      unfolding vals using nth_mem [of "j - length (ob_values s)" "map (default_value T) (drop (length (ob_values s)) (reg_options reg))"]
      by (auto simp: nth_append simp del: set_map)
    then have "ov_change_counter (ob_values s1 ! j) = 0" by (auto simp: default_value_def new_option_value_def)
    then show ?thesis using True by (simp add: change_count_def)
  qed (auto simp: change_count_def vals nth_append)
qed simp

lemma set_changed_fields [simp]:
  "ob_values (set_changed i s) = ob_values s" "ob_watchers (set_changed i s) = ob_watchers s"
  "ob_sent (set_changed i s) = ob_sent s" "ob_can_notify (set_changed i s) = ob_can_notify s"
  "ob_changed (set_changed i s) = watched_set i (ob_changed s)"
  by (simp_all add: set_changed_def Let_def)

lemma change_count_put: "j \<noteq> i \<or> ov_change_counter v = ov_change_counter (ob_values s ! i) \<Longrightarrow>
    change_count (Some j) (put_value i v s) = change_count (Some j) s"
  by (cases "j = i") (auto simp: change_count_def put_value_def)

lemma change_count_set_changed [simp]: "change_count j (set_changed i s) = change_count j s"
  by (simp add: change_count_def split: option.splits)

lemma option_write_reports:
  assumes "options_inv T reg s" "option_write T reg i s s'"
  shows "ob_watchers s' = ob_watchers s" "ob_sent s' = ob_sent s" "ob_can_notify s' = ob_can_notify s"
    "watched_test j (ob_changed s) \<Longrightarrow> watched_test j (ob_changed s')"
    "change_count (Some j) s' \<noteq> change_count (Some j) s \<Longrightarrow> watched_test j (ob_changed s')"
proof -
  consider "s' = s" | s1 where "ensure T reg (Some i) s = Some (i, s1)" "same_rest s s1"
    "set_effect i s1 s' (value_ok T (ob_options s1 ! i))"
    using option_write_effect [OF assms] by blast
  then have "ob_watchers s' = ob_watchers s \<and> ob_sent s' = ob_sent s \<and> ob_can_notify s' = ob_can_notify s \<and>
    (watched_test j (ob_changed s) \<longrightarrow> watched_test j (ob_changed s')) \<and>
    (change_count (Some j) s' \<noteq> change_count (Some j) s \<longrightarrow> watched_test j (ob_changed s'))"
  proof cases
    case 2
    have count: "change_count (Some j) s1 = change_count (Some j) s"
      by (rule change_count_missing [OF assms(1) 2(1)])
    show ?thesis using 2(3) unfolding set_effect_def
    proof (elim disjE exE conjE)
      fix v assume "s' = set_changed i (put_value i v s1)"
      then show ?thesis using 2(2) count change_count_put [of j i v s1]
        by (cases "j = i") (simp_all add: same_rest_def watched_test_set)
    qed (use 2(2) count in \<open>simp_all add: same_rest_def change_count_put\<close>)
  qed simp
  then show "ob_watchers s' = ob_watchers s" "ob_sent s' = ob_sent s" "ob_can_notify s' = ob_can_notify s"
    "watched_test j (ob_changed s) \<Longrightarrow> watched_test j (ob_changed s')"
    "change_count (Some j) s' \<noteq> change_count (Some j) s \<Longrightarrow> watched_test j (ob_changed s')"
    by blast+
qed

lemma watch_fields [simp]:
  "ob_changed (watch opt h s) = ob_changed s" "ob_can_notify (watch opt h s) = ob_can_notify s"
  "ob_values (watch opt h s) = ob_values s"
  "ob_changed (watch_all h s) = ob_changed s" "ob_can_notify (watch_all h s) = ob_can_notify s"
  "ob_values (watch_all h s) = ob_values s"
  by (simp_all add: watch_def watch_all_def split: option.splits)

lemma unwatch_fields [simp]:
  "ob_changed (unwatch opt h s) = ob_changed s" "ob_can_notify (unwatch opt h s) = ob_can_notify s"
  "ob_values (unwatch opt h s) = ob_values s"
  "ob_changed (unwatch_all h s) = ob_changed s" "ob_can_notify (unwatch_all h s) = ob_can_notify s"
  "ob_values (unwatch_all h s) = ob_values s"
  by (simp_all add: unwatch_def unwatch_all_def Let_def split: option.splits)

text \<open>What a notification sends: to every watcher what it watches of what was changed.\<close>

definition watches_option :: "nat \<Rightarrow> watcher \<Rightarrow> bool" where
  "watches_option i w \<longleftrightarrow> w_all w \<or> watched_test i (w_options w)"

definition delivered :: "nat \<Rightarrow> options_base \<Rightarrow> options_base \<Rightarrow> bool" where
  "delivered i s s' \<longleftrightarrow>
     (\<forall>w \<in> set (ob_watchers s). watches_option i w \<longrightarrow>
        (\<exists>n. (w_handler w, n) \<in> set (drop (length (ob_sent s)) (ob_sent s')) \<and> watched_test i n))"

lemma continue_delivers:
  assumes "watched_test i (ob_changed s)"
  shows "delivered i s (continue_notify_changed s)"
proof -
  have any: "watched_any (ob_changed s)" using assms by (auto simp: watched_any_test)
  have "\<exists>n. (w_handler w, n) \<in> set (notified (ob_changed s) w) \<and> watched_test i n" if "watches_option i w" for w
  proof -
    let ?n = "if w_all w then ob_changed s else watched_and (ob_changed s) (w_options w)"
    have "watched_test i ?n" using assms that by (auto simp: watches_option_def watched_test_and)
    moreover from this have "watched_any ?n" unfolding watched_any_test by blast
    ultimately show ?thesis by (auto simp: notified_def Let_def)
  qed
  then show ?thesis using any by (fastforce simp: delivered_def continue_notify_changed_def Let_def)
qed

text \<open>And nothing else.\<close>

lemma notified_only:
  "(h, n) \<in> set (notified changed w) \<Longrightarrow>
   h = w_handler w \<and> watched_any n \<and> (\<forall>i. watched_test i n \<longleftrightarrow> watched_test i changed \<and> watches_option i w)"
  by (auto simp: notified_def Let_def watches_option_def watched_test_and split: if_splits)

subsection \<open>Properties\<close>

text \<open>C19: In every reachable store a number or boolean option is in its range and its text is that
  number, or it has its default; a text option is not longer than allowed, or has its default, and its
  number is what its text reads as; a document option has a document.  The validators of the registered
  options must not leave the range themselves.\<close>

theorem option_values_valid:
  assumes "option_reachable T (reg, s)" "i < length (ob_values s)"
  defines "d \<equiv> ob_options s ! i" and "v \<equiv> ob_values s ! i"
  shows "(od_type d \<in> {option_number, option_boolean} \<longrightarrow>
      (od_min d \<le> ov_v v \<and> ov_v v \<le> od_max d \<and> ov_str v = show_int (ov_v v)) \<or>
      (ov_str v = od_default d \<and> ov_v v = to_int_or T (od_default d) 0)) \<and>
    (od_type d = option_string \<longrightarrow>
      (int (length (ov_str v)) \<le> od_max d \<or> ov_str v = od_default d) \<and> ov_v v = to_int_or T (ov_str v) 0) \<and>
    (od_type d = option_xml \<longrightarrow> ov_xml v \<noteq> None)"
  using options_invD(1) [OF option_reachable_inv [OF assms(1), simplified] assms(2)] unfolding d_def v_def
  by (cases "od_type (ob_options s ! i)") (simp_all add: value_ok_def in_range_def is_default_def)

text \<open>C18: No change is lost.  Once notifications are on, an option that a step changes, or that was
  changed and not reported, is noted as changed and a notification is on its way, until a step reports
  it to every handler that watches it then.\<close>

theorem option_change_not_lost:
  assumes "option_reachable T (reg, s)" "option_step T (reg, s) (reg', s')" "ob_can_notify s"
    and "watched_test i (ob_changed s) \<or> change_count (Some i) s' \<noteq> change_count (Some i) s"
  shows "(watched_test i (ob_changed s') \<and> 0 < ob_pending s' \<and> ob_can_notify s') \<or> delivered i s s'"
proof -
  have inv: "options_inv T reg s" using option_reachable_inv [OF assms(1)] by simp
  have inv': "options_inv T reg' s'" using option_step_inv [OF assms(2)] inv by simp
  have pend: "0 < ob_pending s'" if "watched_test i (ob_changed s')" "ob_can_notify s'"
    using inv' that by (auto simp: options_inv_def watched_any_test)
  have quiet: ?thesis if "ob_changed s' = ob_changed s" "ob_can_notify s' = ob_can_notify s"
    "change_count (Some i) s' = change_count (Some i) s"
    using that assms(3,4) pend by simp
  have writes: ?thesis if "option_write T reg j s s'" for j
    using option_write_reports [OF inv that] assms(3,4) pend by metis
  have send: ?thesis if "s' = continue_notify_changed t" "ob_changed t = ob_changed s" "ob_watchers t = ob_watchers s"
    "ob_sent t = ob_sent s" "change_count (Some i) t = change_count (Some i) s" for t
  proof -
    have "ob_values s' = ob_values t" using that(1) by (simp add: continue_notify_changed_def Let_def)
    then have "change_count (Some i) s' = change_count (Some i) t" by (simp add: change_count_def)
    then have "change_count (Some i) s' = change_count (Some i) s" using that(5) by simp
    then have "watched_test i (ob_changed t)" using assms(4) that(2) by simp
    then have "delivered i t s'" using continue_delivers that(1) by simp
    then show ?thesis using that(3,4) by (simp add: delivered_def)
  qed
  from assms(2) show ?thesis
  proof cases
    case (read opt k)
    then show ?thesis using ensure_inv [OF inv] change_count_missing [OF inv] quiet by (auto simp: same_rest_def)
  next
    case (set_value j)
    then show ?thesis using writes by blast
  next
    case (run n)
    then show ?thesis by (intro send [of "s\<lparr>ob_pending := n\<rparr>"]) (simp_all add: change_count_def)
  next
    case save
    then show ?thesis by (intro send [of s]) simp_all
  qed (use assms(3) quiet in \<open>simp_all add: change_count_def\<close>)
qed

text \<open>A session for the witnesses: the timeout is registered, a handler watches it, notifications
  are turned on, and the timeout is set to a value that the validator changes.\<close>

definition optlib_std :: optlib where
  "optlib_std = \<lparr>ol_to_int = (\<lambda>s. let v = read_int s in if show_int v = s \<and> int_min \<le> v \<and> v \<le> int_max then Some v else None),
     ol_parse_xml = (\<lambda>s. [])\<rparr>"

lemma optlib_std_law: "to_int_law optlib_std"
  by (simp add: to_int_law_def optlib_std_def read_show_int Let_def)

definition timeout_option :: option_def where
  "timeout_option = option_def_number ''Timeout'' 20 0 0 9999 (Some validate_timeout) []"

definition timeout_registry :: option_registry where
  "timeout_registry = \<lparr>reg_options = [timeout_option], reg_names = [''Timeout'' \<mapsto> 0]\<rparr>"

definition timeout_session :: options_base where
  "timeout_session = \<lparr>ob_options = [timeout_option], ob_names = [''Timeout'' \<mapsto> 0],
     ob_values = [\<lparr>ov_str = show_int 10, ov_xml = None, ov_change_counter = 1, ov_v = 10, ov_predefined = False\<rparr>],
     ob_can_notify = True, ob_changed = [1], ob_watchers = [\<lparr>w_handler = 7, w_options = [1], w_all = False\<rparr>],
     ob_pending = 1, ob_sent = []\<rparr>"

lemma timeout_option_engine: "engine_options ! 11 = timeout_option"
  by (simp add: engine_options_def timeout_option_def)

lemma timeout_session_reachable: "option_reachable optlib_std (timeout_registry, timeout_session)"
proof -
  have bits: "watched_set 0 [] = [1]" "\<not> watched_any []"
    by (simp_all add: watched_set_def watched_resize_def watched_any_def)
  have "list_all def_ok [timeout_option]" by (simp add: timeout_option_def validate_timeout_def)
  moreover have "fst (register_options [timeout_option] \<lparr>reg_options = [], reg_names = Map.empty\<rparr>) = timeout_registry"
    by (simp add: register_options_def timeout_registry_def timeout_option_def option_def_number_def)
  ultimately have "option_reachable optlib_std (timeout_registry, new_options)"
    using option_reachable.step [OF option_reachable.start option_step.register] by metis
  then have w: "option_reachable optlib_std (timeout_registry, watch (Some 0) (Some 7) new_options)"
    using option_step.watches option_reachable.step by blast
  let ?s = "(watch (Some 0) (Some 7) new_options)\<lparr>ob_changed := [], ob_can_notify := True\<rparr>"
  have "\<not> ob_can_notify (watch (Some 0) (Some 7) new_options)" by (simp add: new_options_def)
  then have r: "option_reachable optlib_std (timeout_registry, ?s)"
    using w option_step.load_end option_reachable.step by blast
  have "set_int optlib_std timeout_registry (Some 0) 5 ?s = timeout_session"
    by (simp add: set_int_def ensure_def do_add_missing_def new_options_def watch_def timeout_registry_def bits
        timeout_option_def option_def_number_def set_default_value_def new_option_value_def set_value_int_def
        set_refused_def has_flag_def clamp_value_def validate_timeout_def put_value_def set_changed_def
        timeout_session_def to_int_or_def optlib_std_def read_show_int int_min_def int_max_def)
  then show ?thesis using option_reachable.step [OF r option_step.set_value [OF option_write.write_int]] by metis
qed

theorem option_values_valid_witness:
  "od_name (ob_options timeout_session ! 0) = ''Timeout'' \<and> ov_v (ob_values timeout_session ! 0) = 10 \<and>
   ov_str (ob_values timeout_session ! 0) = show_int 10 \<and> ov_v (ob_values timeout_session ! 0) \<le> 9999"
proof -
  have len: "0 < length (ob_values timeout_session)" by (simp add: timeout_session_def)
  have "show_int 10 \<noteq> show_int 20" by (rule notI, drule arg_cong [where f = read_int]) (simp add: read_show_int)
  then show ?thesis using option_values_valid [OF timeout_session_reachable len]
    by (simp add: timeout_session_def timeout_option_def option_def_number_def)
qed

theorem option_change_not_lost_witness:
  "delivered 0 timeout_session (continue_notify_changed (timeout_session\<lparr>ob_pending := 0\<rparr>)) \<and>
   (\<exists>w \<in> set (ob_watchers timeout_session). w_handler w = 7 \<and> watches_option 0 w)"
proof -
  have facts: "ob_pending timeout_session = Suc 0" "ob_can_notify timeout_session" "watched_test 0 (ob_changed timeout_session)"
    by (simp_all add: timeout_session_def watched_test_bit)
  let ?s = "continue_notify_changed (timeout_session\<lparr>ob_pending := 0\<rparr>)"
  have "\<not> watched_test 0 (ob_changed ?s)" using continue_notify_clears unfolding watched_any_test by blast
  moreover have "\<exists>w \<in> set (ob_watchers timeout_session). w_handler w = 7 \<and> watches_option 0 w"
    by (simp add: timeout_session_def watches_option_def watched_test_bit)
  ultimately show ?thesis
    using option_change_not_lost [OF timeout_session_reachable option_step.run [OF facts(1)] facts(2), of 0] facts(3) by blast
qed

text \<open>What the administrator gave with priority stays, whatever the user sets.\<close>

lemma predefined_kept:
  assumes "has_flag (od_flags (ob_options s ! i)) flag_predefined_priority" "ov_predefined (ob_values s ! i)"
    and "i < length (ob_values s)"
  shows "set_int T reg (Some i) v s = s" "set_string T reg (Some i) t False s = s" "set_xml T reg (Some i) x s = s"
  using assms
  by (cases "od_type (ob_options s ! i)"; simp add: set_int_def set_string_def set_xml_def ensure_def Let_def
      set_value_int_def set_value_str_def set_value_xml_def set_refused_def)+

text \<open>The setter takes text that is no number for the smallest number, which \<open>validate\<close>
  refuses: it is stored when the range allows it.\<close>

lemma set_accepts_no_number:
  assumes "i < length (ob_values s)" "d = ob_options s ! i" "od_type d = option_number" "od_mnemonics d = []"
    and "ol_to_int T t = None" "od_min d = int_min" "od_min d \<le> od_max d" "od_int_validator d = None"
    and "od_flags d = 0" "ov_v (ob_values s ! i) \<noteq> int_min"
  shows "\<not> validate_str T d t"
    and "ov_v (ob_values (set_string T reg (Some i) t False s) ! i) = int_min"
  using assms
  by (simp_all add: validate_str_def to_int_or_def set_string_def ensure_def Let_def set_value_int_def set_refused_def
      has_flag_def clamp_value_def put_value_def)

end
