(* ===== verification/Versions.thy ===== *)
theory Versions
  imports FZ_Prelude "HOL-Library.Word"
begin

unbundle bit_operations_syntax

text \<open>
  Version numbers: \<open>ConvertToVersionNumber\<close> and the version of the system in
  \<open>engine/version.cpp\<close>.  Numbers are 64-bit words, so that bits which are shifted out are lost;
  \<^term>\<open>None\<close> is undefined behaviour: an \<open>int\<close> that overflows, or a shift by a
  negative count.
\<close>

subsection \<open>ConvertToVersionNumber\<close>

record version_scan =
  vs_v :: "64 word"
  vs_segment :: int
  vs_shifts :: int

definition version_step :: "char \<Rightarrow> version_scan \<Rightarrow> version_scan option" where
  "version_step c st =
     (let st1 = (if c = CHR ''.'' \<or> c = CHR ''-'' \<or> c = CHR ''b''
                 then st\<lparr>vs_v := push_bit 10 (vs_v st + word_of_int (vs_segment st)), vs_segment := 0,
                   vs_shifts := vs_shifts st + 1\<rparr>
                 else st)
      in if c = CHR ''-'' \<and> vs_shifts st1 < 4
         then Some (st1\<lparr>vs_v := push_bit (nat ((4 - vs_shifts st1) * 10)) (vs_v st1), vs_shifts := 4\<rparr>)
         else if is_digit c then
           let seg = vs_segment st1 * 10 + int (digit_val c)
           in if 2 ^ 31 \<le> seg then None else Some (st1\<lparr>vs_segment := seg\<rparr>)
         else Some st1)"

fun version_loop :: "wstring \<Rightarrow> version_scan \<Rightarrow> version_scan option" where
  "version_loop [] st = Some st"
| "version_loop (c # cs) st = Option.bind (version_step c st) (version_loop cs)"

definition version_finish :: "version_scan \<Rightarrow> (64 word) option" where
  "version_finish st =
     (if 5 < vs_shifts st then None
      else
        let v = push_bit (nat ((5 - vs_shifts st) * 10)) (vs_v st + word_of_int (vs_segment st))
        in Some (if v AND 0x0FFFFF = 0 then v OR 0x080000 else v))"

text \<open>A null pointer is \<^term>\<open>None\<close>.\<close>

definition ConvertToVersionNumber :: "wstring option \<Rightarrow> (64 word) option" where
  "ConvertToVersionNumber version =
     (case version of
        None \<Rightarrow> Some (- 1)
      | Some s \<Rightarrow>
          (case c_str s of
             [] \<Rightarrow> Some (- 1)
           | c # cs \<Rightarrow>
               if \<not> is_digit c then Some (- 1)
               else Option.bind (version_loop (c # cs) \<lparr>vs_v = 0, vs_segment = 0, vs_shifts = 0\<rparr>) version_finish))"

subsection \<open>The version of the system\<close>

record SystemVersion =
  sv_major :: "32 word"
  sv_minor :: "32 word"

fun system_digits :: "32 word \<Rightarrow> string \<Rightarrow> (32 word) \<times> string" where
  "system_digits v (c # cs) =
     (if is_digit c then system_digits (v * 10 + of_nat (digit_val c)) cs else (v, c # cs))"
| "system_digits v [] = (v, [])"

text \<open>From the release text that \<open>uname\<close> gives, if it succeeds.\<close>

definition GetSystemVersion :: "string option \<Rightarrow> SystemVersion" where
  "GetSystemVersion release =
     (case release of
        None \<Rightarrow> \<lparr>sv_major = 0, sv_minor = 0\<rparr>
      | Some s \<Rightarrow>
          (case system_digits 0 (c_str s) of
             (mj, c # cs) \<Rightarrow> \<lparr>sv_major = mj, sv_minor = (if c = CHR ''.'' then fst (system_digits 0 cs) else 0)\<rparr>
           | (mj, []) \<Rightarrow> \<lparr>sv_major = mj, sv_minor = 0\<rparr>))"

subsection \<open>Versions as they are written\<close>

text \<open>One to four numbers and a suffix.\<close>

datatype release = Beta nat | Rc nat | Final

definition version_ok :: "nat list \<times> release \<Rightarrow> bool" where
  "version_ok v \<longleftrightarrow>
     (case v of (ns, r) \<Rightarrow>
        ns \<noteq> [] \<and> length ns \<le> 4 \<and> (\<forall>n \<in> set ns. n < 1024) \<and>
        (case r of Beta k \<Rightarrow> 0 < k \<and> k < 1024 | Rc k \<Rightarrow> 0 < k \<and> k < 512 | Final \<Rightarrow> True))"

fun release_text :: "release \<Rightarrow> wstring" where
  "release_text (Beta k) = ''-beta'' @ show_nat k"
| "release_text (Rc k) = ''-rc'' @ show_nat k"
| "release_text Final = []"

definition version_text :: "nat list \<times> release \<Rightarrow> wstring" where
  "version_text v = join [CHR ''.''] (map show_nat (fst v)) @ release_text (snd v)"

text \<open>The order that is meant: number by number, missing numbers are zero; then betas before
  release candidates before the final version.\<close>

fun release_rank :: "release \<Rightarrow> nat list" where
  "release_rank (Beta k) = [0, k]"
| "release_rank (Rc k) = [1, k]"
| "release_rank Final = [2, 0]"

definition version_rank :: "nat list \<times> release \<Rightarrow> nat list" where
  "version_rank v = fst v @ replicate (4 - length (fst v)) 0 @ release_rank (snd v)"

text \<open>The digits of the number to the base 1024.\<close>

fun release_digits :: "release \<Rightarrow> nat list" where
  "release_digits (Beta k) = [0, k]"
| "release_digits (Rc k) = [k, 0]"
| "release_digits Final = [512, 0]"

definition version_digits :: "nat list \<times> release \<Rightarrow> nat list" where
  "version_digits v = fst v @ replicate (4 - length (fst v)) 0 @ release_digits (snd v)"

definition base1024 :: "nat list \<Rightarrow> nat" where
  "base1024 ds = foldl (\<lambda>v d. v * 1024 + d) 0 ds"

lemma base1024_snoc [simp]: "base1024 (ds @ [d]) = base1024 ds * 1024 + d"
  by (simp add: base1024_def)

lemma base1024_bound: "\<forall>d \<in> set ds. d < 1024 \<Longrightarrow> base1024 ds < 1024 ^ length ds"
proof (induction ds rule: rev_induct)
  case (snoc d ds)
  then have "base1024 ds + 1 \<le> 1024 ^ length ds" "d < 1024" by simp_all
  then have "(base1024 ds + 1) * 1024 \<le> 1024 ^ length ds * 1024" by (rule_tac mult_le_mono1)
  then show ?case using \<open>d < 1024\<close> by simp
qed (simp add: base1024_def)

lemma base1024_Cons: "base1024 (d # ds) = d * 1024 ^ length ds + base1024 ds"
proof (induction ds rule: rev_induct)
  case (snoc e ds)
  then show ?case using base1024_snoc [of "d # ds" e] by (simp add: algebra_simps)
qed (simp add: base1024_def)

lemma base1024_zeros: "base1024 (ds @ replicate k 0) = base1024 ds * 1024 ^ k"
  by (induction k) (simp_all add: replicate_append_same [symmetric] flip: append_assoc)

lemma base1024_order:
  "length ds = length es \<Longrightarrow> \<forall>d \<in> set ds. d < 1024 \<Longrightarrow> \<forall>e \<in> set es. e < 1024 \<Longrightarrow>
   base1024 ds < base1024 es \<longleftrightarrow> ds < es"
proof (induction ds es rule: list_induct2)
  case (Cons d ds e es)
  have "base1024 ds < 1024 ^ length ds" "base1024 es < 1024 ^ length ds"
    using Cons base1024_bound [of ds] base1024_bound [of es] by simp_all
  moreover have "d * 1024 ^ length ds + 1024 ^ length ds \<le> e * 1024 ^ length ds" if "d < e"
    using that mult_le_mono1 [of "Suc d" e "1024 ^ length ds"] by simp
  moreover have "e * 1024 ^ length ds + 1024 ^ length ds \<le> d * 1024 ^ length ds" if "e < d"
    using that mult_le_mono1 [of "Suc e" d "1024 ^ length ds"] by simp
  ultimately show ?case using Cons by (cases d e rule: linorder_cases) (auto simp: base1024_Cons)
qed simp

text \<open>The digits are ordered like the ranks.\<close>

lemma append_less_iff:
  fixes xs ys us vs :: "'a :: linorder list"
  assumes "length xs = length ys"
  shows "xs @ us < ys @ vs \<longleftrightarrow> xs < ys \<or> (xs = ys \<and> us < vs)"
  using assms by (induction xs ys rule: list_induct2) auto

lemma version_digits_rank:
  assumes "version_ok v" "version_ok w"
  shows "version_digits v < version_digits w \<longleftrightarrow> version_rank v < version_rank w"
proof -
  obtain ns r ms q where vw: "v = (ns, r)" "w = (ms, q)" by (cases v; cases w) blast
  have "release_digits r < release_digits q \<longleftrightarrow> release_rank r < release_rank q"
    using assms unfolding vw by (cases r; cases q) (auto simp: version_ok_def)
  moreover have "release_digits r = release_digits q \<longleftrightarrow> release_rank r = release_rank q"
    using assms unfolding vw by (cases r; cases q) (auto simp: version_ok_def)
  moreover have "length (ns @ replicate (4 - length ns) 0) = length (ms @ replicate (4 - length ms) (0 :: nat))"
    using assms by (simp add: vw version_ok_def)
  ultimately show ?thesis using append_less_iff [of "ns @ replicate (4 - length ns) 0" "ms @ replicate (4 - length ms) 0"]
    by (simp add: vw version_digits_def version_rank_def)
qed

subsection \<open>What the loop computes\<close>

lemma is_digit_not_mark: "is_digit c \<Longrightarrow> c \<noteq> CHR ''.'' \<and> c \<noteq> CHR ''-'' \<and> c \<noteq> CHR ''b''"
  by (auto simp: is_digit_code)

lemma version_loop_digits:
  "\<forall>c \<in> set ds. is_digit c \<Longrightarrow> num_value a ds < 2 ^ 31 \<Longrightarrow>
   version_loop (ds @ rest) \<lparr>vs_v = v, vs_segment = int a, vs_shifts = k\<rparr> =
   version_loop rest \<lparr>vs_v = v, vs_segment = int (num_value a ds), vs_shifts = k\<rparr>"
proof (induction ds arbitrary: a)
  case (Cons c ds)
  have "num_value (a * 10 + digit_val c) ds < 2 ^ 31" using Cons.prems(2) by simp
  then have "a * 10 + digit_val c < 2 ^ 31" using num_value_mono [of "a * 10 + digit_val c" ds] by simp
  then have "int a * 10 + int (digit_val c) < 2 ^ 31" by simp
  then have "version_step c \<lparr>vs_v = v, vs_segment = int a, vs_shifts = k\<rparr> =
      Some \<lparr>vs_v = v, vs_segment = int (a * 10 + digit_val c), vs_shifts = k\<rparr>"
    using Cons.prems(1) is_digit_not_mark [of c] by (simp add: version_step_def Let_def)
  then show ?case using Cons.IH [of "a * 10 + digit_val c"] Cons.prems by simp
qed simp

lemma version_loop_number:
  assumes "n < 1024"
  shows "version_loop (show_nat n @ rest) \<lparr>vs_v = v, vs_segment = 0, vs_shifts = k\<rparr> =
    version_loop rest \<lparr>vs_v = v, vs_segment = int n, vs_shifts = k\<rparr>"
  using version_loop_digits [OF show_nat_digits, of 0 n rest v k] assms by (simp add: num_value_show)

lemma version_loop_numbers:
  "ns \<noteq> [] \<Longrightarrow> \<forall>n \<in> set ns. n < 1024 \<Longrightarrow>
   version_loop (join [CHR ''.''] (map show_nat ns) @ rest) \<lparr>vs_v = of_nat a, vs_segment = 0, vs_shifts = k\<rparr> =
   version_loop rest \<lparr>vs_v = of_nat (foldl (\<lambda>v d. (v + d) * 1024) a (butlast ns)), vs_segment = int (last ns),
     vs_shifts = k + int (length ns) - 1\<rparr>"
proof (induction ns arbitrary: a k)
  case (Cons n ns)
  show ?case
  proof (cases "ns = []")
    case False
    let ?r = "join [CHR ''.''] (map show_nat ns) @ rest"
    have "version_loop (join [CHR ''.''] (map show_nat (n # ns)) @ rest) \<lparr>vs_v = of_nat a, vs_segment = 0, vs_shifts = k\<rparr> =
        version_loop (CHR ''.'' # ?r) \<lparr>vs_v = of_nat a, vs_segment = int n, vs_shifts = k\<rparr>"
      using Cons.prems False version_loop_number by (simp add: join_Cons)
    also have "\<dots> = version_loop ?r \<lparr>vs_v = of_nat ((a + n) * 1024), vs_segment = 0, vs_shifts = k + 1\<rparr>"
      by (simp add: version_step_def Let_def push_bit_eq_mult is_digit_code)
    also have "\<dots> = version_loop rest \<lparr>vs_v = of_nat (foldl (\<lambda>v d. (v + d) * 1024) ((a + n) * 1024) (butlast ns)),
        vs_segment = int (last ns), vs_shifts = k + 1 + int (length ns) - 1\<rparr>"
      using Cons.prems(2) by (intro Cons.IH [OF False]) simp
    finally show ?thesis using False by simp
  qed (use Cons.prems version_loop_number in simp)
qed simp

lemma foldl_base1024: "foldl (\<lambda>v d. (v + d) * 1024) 0 ds = base1024 ds * 1024"
  by (induction ds rule: rev_induct) (simp_all add: base1024_def)

text \<open>The low twenty bits, which say whether a suffix was given.\<close>

lemma low_bits: "(of_nat n :: 64 word) AND 0x0FFFFF = of_nat (n mod 2 ^ 20)"
proof -
  have "(0x0FFFFF :: 64 word) = mask 20" by (simp add: mask_eq_exp_minus_1)
  then have "(of_nat n :: 64 word) AND 0x0FFFFF = take_bit 20 (of_nat n)" by (simp only: take_bit_eq_mask)
  also have "\<dots> = of_nat (take_bit 20 n)" by (simp only: of_nat_take_bit)
  finally show ?thesis by (simp add: take_bit_eq_mod)
qed

lemma set_final_bit:
  assumes "(w :: 64 word) AND 0x0FFFFF = 0"
  shows "w OR 0x080000 = w + 0x080000"
proof -
  have "(0x080000 :: 64 word) = 0x0FFFFF AND 0x080000" by simp
  then have "w AND 0x080000 = (w AND 0x0FFFFF) AND 0x080000" by (metis and.assoc)
  then show ?thesis using assms by (simp add: disjunctive_add_eq_or)
qed

lemma of_nat_nonzero: "0 < n \<Longrightarrow> n < 2 ^ 64 \<Longrightarrow> (of_nat n :: 64 word) \<noteq> 0"
  by (simp add: word_of_nat_eq_0_iff nat_dvd_not_less)

lemma sint_of_nat_small: "n < 2 ^ 60 \<Longrightarrow> sint (of_nat n :: 64 word) = int n"
  by (simp add: signed_of_nat signed_take_bit_int_eq_self)

lemma version_loop_start:
  assumes "version_ok (ns, r)"
  shows "version_loop (version_text (ns, r)) \<lparr>vs_v = 0, vs_segment = 0, vs_shifts = 0\<rparr> =
    version_loop (release_text r) \<lparr>vs_v = of_nat (base1024 (butlast ns) * 1024), vs_segment = int (last ns),
      vs_shifts = int (length ns) - 1\<rparr>"
  using version_loop_numbers [of ns "release_text r" 0 0, unfolded foldl_base1024] assms
  by (simp add: version_text_def version_ok_def)

lemma base1024_last: "ns \<noteq> [] \<Longrightarrow> base1024 (butlast ns) * 1024 + last ns = base1024 ns"
  by (cases ns rule: rev_cases) simp_all

lemma push_of_nat: "push_bit m (of_nat n :: 64 word) = of_nat (n * 2 ^ m)"
  by (simp add: push_bit_eq_mult)

lemma version_finish_number:
  assumes "j \<le> 5" "x = (a + n) * 2 ^ ((5 - j) * 10)"
  shows "version_finish \<lparr>vs_v = of_nat a, vs_segment = int n, vs_shifts = int j\<rparr> =
    Some (of_nat (if x mod 2 ^ 20 = 0 then x + 2 ^ 19 else x))"
proof -
  have sum: "(of_nat a :: 64 word) + word_of_int (int n) = of_nat (a + n)" by simp
  have "nat ((5 - int j) * 10) = (5 - j) * 10" using assms(1) by (simp add: nat_diff_distrib nat_mult_distrib)
  then have v: "push_bit (nat ((5 - int j) * 10)) ((of_nat a :: 64 word) + word_of_int (int n)) = of_nat x"
    unfolding sum push_of_nat assms(2) by simp
  have "(of_nat (x mod 2 ^ 20) :: 64 word) = 0 \<longleftrightarrow> x mod 2 ^ 20 = 0"
    using of_nat_nonzero [of "x mod 2 ^ 20"] mod_less_divisor [of "2 ^ 20" x] by (cases "x mod 2 ^ 20 = 0") simp_all
  then have low: "(of_nat x :: 64 word) AND 0x0FFFFF = 0 \<longleftrightarrow> x mod 2 ^ 20 = 0" unfolding low_bits .
  then have "(of_nat x :: 64 word) OR 0x080000 = of_nat (x + 2 ^ 19)" if "x mod 2 ^ 20 = 0"
    using that set_final_bit [of "of_nat x"] by simp
  then show ?thesis using assms(1) v low by (simp add: version_finish_def Let_def)
qed

lemma version_step_dash:
  assumes "0 < l" "l \<le> 4" "a + n = m"
  shows "version_step (CHR ''-'') \<lparr>vs_v = of_nat a, vs_segment = int n, vs_shifts = int l - 1\<rparr> =
    Some \<lparr>vs_v = of_nat (m * 1024 ^ (4 - l) * 1024), vs_segment = 0, vs_shifts = 4\<rparr>"
proof -
  have sum: "(of_nat a :: 64 word) + word_of_int (int n) = of_nat m" using assms(3) by auto
  have dash: "\<not> is_digit (CHR ''-'')" by code_simp
  have "l = 1 \<or> l = 2 \<or> l = 3 \<or> l = 4" using assms(1,2) by linarith
  then show ?thesis using sum dash by (elim disjE) (simp_all add: version_step_def Let_def push_bit_eq_mult)
qed

lemma version_steps_skip:
  "version_step (CHR ''r'') st = Some st" "version_step (CHR ''c'') st = Some st" "version_step (CHR ''e'') st = Some st"
  "version_step (CHR ''t'') st = Some st" "version_step (CHR ''a'') st = Some st"
  by (simp_all add: version_step_def is_digit_code)

lemma version_step_b:
  "version_step (CHR ''b'') \<lparr>vs_v = of_nat a, vs_segment = 0, vs_shifts = k\<rparr> =
   Some \<lparr>vs_v = of_nat (a * 1024), vs_segment = 0, vs_shifts = k + 1\<rparr>"
  by (simp add: version_step_def Let_def is_digit_code push_bit_eq_mult)

lemma version_number:
  assumes "version_ok v"
  shows "Option.bind (version_loop (version_text v) \<lparr>vs_v = 0, vs_segment = 0, vs_shifts = 0\<rparr>) version_finish =
    Some (of_nat (base1024 (version_digits v)))"
proof -
  obtain ns r where v: "v = (ns, r)" by (cases v) blast
  have ok: "ns \<noteq> []" "0 < length ns" "length ns \<le> 4" using assms by (auto simp: v version_ok_def)
  define B where "B = base1024 ns * 1024 ^ (4 - length ns)"
  have b: "base1024 (version_digits v) = (B * 1024 + d) * 1024 + e" if "release_digits r = [d, e]" for d e
    using that base1024_snoc [of "(ns @ replicate (4 - length ns) 0) @ [d]" e] base1024_snoc [of "ns @ replicate (4 - length ns) 0" d]
    by (simp add: v B_def version_digits_def base1024_zeros del: base1024_snoc)
  note start = version_loop_start [OF assms [unfolded v]]
  note dash = version_step_dash [OF ok(2,3) base1024_last [OF ok(1)], folded B_def]
  have num: "version_loop (show_nat k) \<lparr>vs_v = w, vs_segment = 0, vs_shifts = j\<rparr> =
      Some \<lparr>vs_v = w, vs_segment = int k, vs_shifts = j\<rparr>" if "k < 1024" for k w j
    using version_loop_number [OF that, of "[]"] by simp
  show ?thesis
  proof (cases r)
    case Final
    have j: "int (length ns) - 1 = int (length ns - 1)" "length ns - 1 \<le> 5" using ok(2,3) by linarith+
    have "length ns = 1 \<or> length ns = 2 \<or> length ns = 3 \<or> length ns = 4" using ok(2,3) by linarith
    then have "base1024 ns * 2 ^ ((5 - (length ns - 1)) * 10) = B * 2 ^ 20" unfolding B_def by (elim disjE) simp_all
    then have x: "B * 2 ^ 20 = (base1024 (butlast ns) * 1024 + last ns) * 2 ^ ((5 - (length ns - 1)) * 10)"
      unfolding base1024_last [OF ok(1)] by (rule sym)
    have "version_finish \<lparr>vs_v = of_nat (base1024 (butlast ns) * 1024), vs_segment = int (last ns), vs_shifts = int (length ns) - 1\<rparr> =
        Some (of_nat (B * 2 ^ 20 + 2 ^ 19))"
      using version_finish_number [OF j(2) x] unfolding j(1) by (simp only: mod_mult_self2_is_0 refl if_True)
    moreover have "base1024 (version_digits v) = B * 2 ^ 20 + 2 ^ 19" using b [of 512 0] by (simp add: Final)
    ultimately show ?thesis using start by (simp only: v Final release_text.simps version_loop.simps bind.simps)
  next
    case (Rc k)
    then have k: "0 < k" "k < 512" using assms by (simp_all add: v version_ok_def)
    define x where "x = (B * 1024 + k) * 1024"
    have "x = k * 1024 + B * 2 ^ 20" by (simp add: x_def)
    then have "x mod 2 ^ 20 = (k * 1024) mod 2 ^ 20" by (simp only: mod_mult_self1)
    also have "\<dots> = k * 1024" by (rule mod_less) (use k in simp)
    finally have "x mod 2 ^ 20 = k * 1024" .
    then have "version_finish \<lparr>vs_v = of_nat (B * 1024), vs_segment = int k, vs_shifts = 4\<rparr> = Some (of_nat x)"
      using version_finish_number [of 4 x "B * 1024" k] k by (simp add: x_def)
    moreover have "version_loop (release_text (Rc k)) \<lparr>vs_v = of_nat (base1024 (butlast ns) * 1024), vs_segment = int (last ns),
        vs_shifts = int (length ns) - 1\<rparr> = Some \<lparr>vs_v = of_nat (B * 1024), vs_segment = int k, vs_shifts = 4\<rparr>"
      using dash num [of k "of_nat (B * 1024)" 4] k
      by (simp only: release_text.simps append_Cons append_Nil version_loop.simps version_steps_skip bind.simps)
    moreover have "base1024 (version_digits v) = x" using b [of k 0] by (simp add: Rc x_def)
    ultimately show ?thesis using start by (simp only: v Rc bind.simps)
  next
    case (Beta k)
    then have k: "0 < k" "k < 1024" using assms by (simp_all add: v version_ok_def)
    define x where "x = B * 1024 * 1024 + k"
    have "x = k + B * 2 ^ 20" by (simp add: x_def)
    then have "x mod 2 ^ 20 = k mod 2 ^ 20" by (simp only: mod_mult_self1)
    also have "\<dots> = k" by (rule mod_less) (use k in simp)
    finally have "x mod 2 ^ 20 = k" .
    then have "version_finish \<lparr>vs_v = of_nat (B * 1024 * 1024), vs_segment = int k, vs_shifts = 5\<rparr> = Some (of_nat x)"
      using version_finish_number [of 5 x "B * 1024 * 1024" k] k by (simp add: x_def)
    moreover have "version_loop (release_text (Beta k)) \<lparr>vs_v = of_nat (base1024 (butlast ns) * 1024), vs_segment = int (last ns),
        vs_shifts = int (length ns) - 1\<rparr> = Some \<lparr>vs_v = of_nat (B * 1024 * 1024), vs_segment = int k, vs_shifts = 5\<rparr>"
      using dash num [of k "of_nat (B * 1024 * 1024)" 5] version_step_b [of "B * 1024" 4] k
      by (simp add: version_steps_skip del: of_nat_mult)
    moreover have "base1024 (version_digits v) = x" using b [of 0 k] by (simp add: Beta x_def)
    ultimately show ?thesis using start by (simp only: v Beta bind.simps)
  qed
qed

text \<open>C23: The number of a version in one of the documented forms (one to four numbers below 1024, then
  nothing, a beta below 1024 or a release candidate below 512) is defined, is not negative, and
  comparing the numbers compares the versions: number by number, where missing numbers are zero, then
  betas before release candidates before the final version.\<close>

theorem version_numbers_ordered:
  assumes "version_ok v" "version_ok w"
  shows "\<exists>n m. ConvertToVersionNumber (Some (version_text v)) = Some n \<and>
    ConvertToVersionNumber (Some (version_text w)) = Some m \<and> 0 \<le> sint n \<and>
    (sint n < sint m \<longleftrightarrow> version_rank v < version_rank w)"
proof -
  have number: "ConvertToVersionNumber (Some (version_text u)) = Some (of_nat (base1024 (version_digits u)))"
    if "version_ok u" for u
  proof -
    obtain ns r where u: "u = (ns, r)" by (cases u) blast
    have "ns \<noteq> []" using that by (simp add: u version_ok_def)
    then obtain n ms where ns: "ns = n # ms" by (cases ns) simp_all
    obtain c cs where show_n: "show_nat n = c # cs" using show_nat_nonempty by (meson neq_Nil_conv)
    have clean: "nul_free (version_text u)"
    proof -
      have "nul \<notin> set (show_nat k)" for k using show_nat_digits [of k] is_digit_not_nul by blast
      moreover have "nul \<notin> set (join [CHR ''.''] (map show_nat ks))" for ks
        by (induction ks rule: induct_list012) (use calculation in \<open>auto simp: nul_def\<close>)
      ultimately show ?thesis by (cases r) (auto simp: u version_text_def nul_free_def nul_def)
    qed
    have "is_digit c" using show_nat_digits [of n] show_n by simp
    moreover have "\<exists>ds. version_text u = c # ds"
      by (cases ms) (simp_all add: u ns version_text_def show_n join_Cons)
    ultimately show ?thesis using version_number [OF that] clean by (auto simp: ConvertToVersionNumber_def)
  qed
  have small: "base1024 (version_digits u) < 2 ^ 60"
    "\<forall>d \<in> set (version_digits u). d < 1024" "length (version_digits u) = 6" if "version_ok u" for u
  proof -
    obtain ns r where u: "u = (ns, r)" by (cases u) blast
    show len: "length (version_digits u) = 6" and bd: "\<forall>d \<in> set (version_digits u). d < 1024"
      using that by (cases r; auto simp: u version_ok_def version_digits_def)+
    show "base1024 (version_digits u) < 2 ^ 60" using base1024_bound [OF bd] len by simp
  qed
  show ?thesis
    using number [OF assms(1)] number [OF assms(2)] small [OF assms(1)] small [OF assms(2)]
      base1024_order [of "version_digits v" "version_digits w"] version_digits_rank [OF assms]
    by (simp add: sint_of_nat_small)
qed

theorem version_numbers_ordered_witness:
  "\<exists>n m. ConvertToVersionNumber (Some ''2.2.26-beta3'') = Some n \<and> ConvertToVersionNumber (Some ''2.2.26'') = Some m \<and>
     sint n < sint m"
proof -
  have texts: "version_text ([2, 2, 26], Beta 3) = ''2.2.26-beta3''" "version_text ([2, 2, 26], Final) = ''2.2.26''"
    "version_ok ([2, 2, 26], Beta 3)" "version_ok ([2, 2, 26], Final)"
    "version_rank ([2, 2, 26], Beta 3) < version_rank ([2, 2, 26], Final)" by code_simp+
  show ?thesis using version_numbers_ordered [OF texts(3,4)] texts(1,2,5) by auto
qed

text \<open>The comment allows numbers up to 1024; that one runs over into the number before it.\<close>

lemma version_1024_overflows: "ConvertToVersionNumber (Some ''1.1024'') = ConvertToVersionNumber (Some ''2'')"
proof -
  have "version_loop ''1.1024'' \<lparr>vs_v = 0, vs_segment = 0, vs_shifts = 0\<rparr> = Some \<lparr>vs_v = 1024, vs_segment = 1024, vs_shifts = 1\<rparr>"
    by (simp add: version_step_def Let_def is_digit_code digit_val_def push_bit_eq_mult)
  moreover have "version_loop ''2'' \<lparr>vs_v = 0, vs_segment = 0, vs_shifts = 0\<rparr> = Some \<lparr>vs_v = 0, vs_segment = 2, vs_shifts = 0\<rparr>"
    by (simp add: version_step_def Let_def is_digit_code digit_val_def)
  moreover have "version_finish \<lparr>vs_v = 1024, vs_segment = 1024, vs_shifts = 1\<rparr> =
      version_finish \<lparr>vs_v = 0, vs_segment = 2, vs_shifts = 0\<rparr>"
    by (simp add: version_finish_def push_bit_eq_mult)
  ultimately show ?thesis
    by (simp add: ConvertToVersionNumber_def c_str_def nul_def is_digit_code del: version_loop.simps)
qed

text \<open>Six separators are too many: the last shift has a negative count.\<close>

lemma version_too_many_separators:
  assumes "version_loop s st = Some st'" "6 \<le> length (filter (\<lambda>c. c = CHR ''.'') s)" "0 \<le> vs_shifts st"
  shows "version_finish st' = None"
proof -
  have "vs_shifts st + int (length (filter (\<lambda>c. c = CHR ''.'') s)) \<le> vs_shifts st'"
    using assms(1)
  proof (induction s arbitrary: st)
    case (Cons c cs)
    then obtain st1 where st1: "version_step c st = Some st1" "version_loop cs st1 = Some st'"
      by (cases "version_step c st") auto
    have "vs_shifts st + (if c = CHR ''.'' then 1 else 0) \<le> vs_shifts st1"
      using st1(1) by (auto simp: version_step_def Let_def split: if_splits)
    then show ?case using Cons.IH [OF st1(2)] by (auto split: if_splits)
  qed simp
  then show ?thesis using assms(2,3) by (simp add: version_finish_def)
qed

text \<open>The release of the system, with anything behind its first two numbers.\<close>

lemma system_digits_append:
  "\<forall>c \<in> set ds. is_digit c \<Longrightarrow> rest = [] \<or> \<not> is_digit (hd rest) \<Longrightarrow>
   system_digits (of_nat a) (ds @ rest) = (of_nat (num_value a ds), rest)"
proof (induction ds arbitrary: a)
  case Nil
  then show ?case by (cases rest) simp_all
next
  case (Cons d ds)
  then show ?case using Cons.IH [of "a * 10 + digit_val d"] by simp
qed

lemma system_version_read:
  assumes "rest = [] \<or> \<not> is_digit (hd rest)" "nul_free rest"
  shows "GetSystemVersion (Some (show_nat a @ CHR ''.'' # show_nat b @ rest)) = \<lparr>sv_major = of_nat a, sv_minor = of_nat b\<rparr>"
proof -
  have "nul \<notin> set (show_nat k)" for k using show_nat_digits [of k] is_digit_not_nul by blast
  then have "nul_free (show_nat a @ CHR ''.'' # show_nat b @ rest)" using assms(2) by (simp add: nul_free_def nul_def)
  moreover have "\<not> is_digit (CHR ''.'')" by code_simp
  ultimately show ?thesis
    using system_digits_append [OF show_nat_digits, of "CHR ''.'' # show_nat b @ rest" 0 a]
      system_digits_append [OF show_nat_digits assms(1), of 0 b]
    by (simp add: GetSystemVersion_def num_value_show)
qed

end
