(* ===== verification/Spec2Isabelle.thy ===== *)
theory Spec2Isabelle
  imports Server_Path_Roundtrip Server_Path_Safe Server_Path_Tree Path_Cache Dir_Cache_Remove Op_Lock Sftp_Segment_Props Posix_Chmod_Props
    Listing_Reach Listing_Roundtrip Listing_Quirks Ftp_Cache Ftp_Mkdir Local_Path_Props Options_Notify Versions
begin

text \<open>
  A verification library for the protocol engine of the FileZilla client,
  \<open>src/filezilla3/src/engine\<close>.  The engine turns commands of the user interface into
  conversations with a server.  Its control sockets run an operation as a stack of operations, each
  a small state machine that sends a command, handles the reply and may push another operation on
  top of itself.  They keep what they know about the server: remote paths (\<open>CServerPath\<close>), the
  answers to changes of directory (\<open>CPathCache\<close>), the listings of directories
  (\<open>CDirectoryCache\<close>), locks that keep two connections from doing the same thing at once
  (\<open>OpLockManager\<close>).  Transfers run on top of them.

  \<^bold>\<open>Theories and code.\<close>
  \<^item> \<open>FZ_Prelude\<close>: strings, searching, joining, decimal text.  \<open>FZ_Lib\<close>: the
    functions of libfilezilla that the code calls, as a record of parameters, with a law for each
    that states its documented behaviour, and an instance on which all laws hold.
    \<open>FZ_Order\<close>: lexicographic comparisons as a locale.
  \<^item> \<open>Server_Path\<close>, \<open>Server_Path_Ops\<close>: \<open>serverpath.cpp\<close>, every member function
    for all ten server types.  \<open>Server_Path_Canon\<close> and \<open>Server_Path_Invariant\<close> show that
    paths stay canonical and which names a change of directory leads to, \<open>Server_Path_Roundtrip\<close> and \<open>Server_Path_Safe\<close> that printed and
    stored paths are read back, \<open>Server_Path_Order\<close> that the comparison is a strict total
    order, \<open>Server_Path_Tree\<close> that containment, parents and common parents form a tree.
  \<^item> \<open>Server\<close>, \<open>Server_Site\<close>, \<open>Server_Props\<close>: \<open>server.cpp\<close>, protocols, features,
    extra parameters, comparison, credentials and formatting.
  \<^item> \<open>Path_Cache\<close>: \<open>pathcache.cpp\<close>, a map from servers, paths and subdirectories to
    targets.
  \<^item> \<open>Op_Lock\<close>: \<open>oplock_manager.cpp\<close>, the lock table and the handles as a step relation, and
    the runs with the events that are on their way.
  \<^item> \<open>Posix_Chmod\<close>, \<open>Posix_Chmod_Props\<close>: \<open>posix_chmod.cpp\<close> on 16-bit words.
  \<^item> \<open>Dir_Listing\<close>, \<open>Dir_Listing_Props\<close>: \<open>directorylisting.cpp\<close>, entries and
    listings with their lazily built search maps.
  \<^item> \<open>Dir_Cache\<close>, \<open>Dir_Cache_Update\<close>: \<open>directorycache.cpp\<close>, the servers with their
    sorted listings, the list of recently used ones (an association of node addresses), the file
    count.  \<open>Dir_Cache_Invariant\<close>, \<open>_Loops\<close>, \<open>_Steps\<close>, \<open>_Reach\<close> and \<open>_Ops\<close>
    show the invariant operation by operation; \<open>_Props\<close> accounting and limits, \<open>_Refine\<close>
    that the cache refines a finite map, \<open>_Store\<close> which listings pruning forgets, \<open>_Store\<close>,
    \<open>_Unsure\<close> and \<open>_Remove\<close> what is found after a store, a change and a removal.
  \<^item> \<open>Sftp_Segments\<close>, \<open>Sftp_Segment_Ops\<close>: segmented downloads of
    \<open>sftp/filetransfer.cpp\<close>: the plan, the manifest file, the start, every event handler, the
    migration of a segment to another connection, the merge of the parts.
    \<open>Sftp_Segment_Plan\<close> holds the plan and the manifest, \<open>Sftp_Segment_Net\<close> the unanswered
    requests of the channels and the invariant, \<open>Sftp_Segment_Download\<close>, \<open>_Merge\<close>,
    \<open>_Steps\<close>, \<open>_Handlers\<close> and \<open>_Events\<close> one lemma per handler, \<open>_System\<close> the
    transition system with the libraries, \<open>_Start\<close> its initial states and \<open>_Props\<close> the
    properties.
  \<^item> \<open>Listing_Token\<close>, \<open>Listing_Date\<close>, \<open>Listing_Formats\<close>, \<open>Listing_Formats2\<close>,
    \<open>Listing_Parser\<close>: all of \<open>directorylistingparser.cpp\<close>, from the lazily split lines over
    numbers, dates and the parsers of all formats to the input buffer with its encodings.
    \<open>Listing_Words\<close> and \<open>Listing_Number\<close> compare tokens and numbers with their
    specification, \<open>Listing_Std\<close> has the laws of the library calls and an instance,
    \<open>Listing_Chunks\<close> shows that it does not matter how the data is cut, except through the first
    buffer when the encoding has to be deduced from it, \<open>Listing_Types\<close> and \<open>Listing_Reach\<close>
    that flags and sizes of entries are in range, with the one exception of oversized VMS files, \<open>Listing_Unix\<close> and
    \<open>Listing_Roundtrip\<close> that a printed \<open>ls -l\<close> listing is read back, \<open>Listing_Quirks\<close>
    corner cases.

  \<^item> \<open>Op_Lock_Owner\<close>: which locks a connection owns.  \<open>Ftp_Session\<close>: the state of an FTP
    connection that is logged on (\<open>ftp/ftpcontrolsocket.cpp\<close>, \<open>controlsocket.cpp\<close>), sending,
    the reply to \<open>PWD\<close>.  \<open>Ftp_Ops\<close>: the operations \<open>ftp/cwd.cpp\<close>, \<open>delete.cpp\<close>,
    \<open>rmd.cpp\<close>, \<open>rename.cpp\<close>, \<open>mkd.cpp\<close>, \<open>chmod.cpp\<close>, \<open>rawcommand.cpp\<close>.
    \<open>Ftp_Stack\<close>: \<open>SendNextCommand\<close>, \<open>ResetOperation\<close> and
    \<open>ParseSubcommandResult\<close>, which call each other, with their termination.  \<open>Ftp_Events\<close>:
    received data, lines, replies, the timers, locks, cancellation, commands
    (\<open>engineprivate.cpp\<close>), closing, and the step relation of a session.
    \<open>Ftp_Stack_Rules\<close> has the proof rules for the stack as locales, \<open>Ftp_Effects\<close> and
    \<open>Ftp_Shapes\<close> say what the operations do to the counters and to their own states,
    \<open>Ftp_Sync\<close> and \<open>Ftp_Sync_Steps\<close> show the invariant of sessions event by event,
    \<open>Ftp_Answer\<close> that every reply brings the result closer.  \<open>Ftp_Props\<close>: commands and
    replies in step, locks, the engine's command, one result per command, the reply to \<open>PWD\<close> read back.  \<open>Ftp_Cache\<close>: no stale
    listings.  \<open>Ftp_Mkdir\<close>: directories are created where they belong.
  \<^item> \<open>Local_Path\<close>: \<open>local_path.cpp\<close> as built for systems other than Windows, with the
    buffer of \<open>SetPath\<close>, a write behind whose end is \<^term>\<open>None\<close>.
    \<open>Local_Path_Props\<close>: paths resolve to lists of names, which form a tree and are ordered.
  \<^item> \<open>Xml_Tree\<close>: elements as trees and the helpers of \<open>xmlutils.cpp\<close>.
    \<open>Options_Base\<close>: \<open>optionsbase.cpp\<close> and \<open>engine_options.cpp\<close>, definitions and
    values of options, changes and their watchers.  \<open>Options_Props\<close>: bit vectors are sets, the
    invariant of values.  \<open>Options_Notify\<close>: the step relation, no change is lost.
  \<^item> \<open>Versions\<close>: \<open>version.cpp\<close>, the number of a version text and how numbers compare.

  \<^bold>\<open>Conventions.\<close>  A code unit of \<open>std::wstring\<close> is one of the 256 values of
  \<^typ>\<open>char\<close>; the code tells two units above 255 apart, the byte order mark, which is a parameter,
  and one letter in a Polish month name, which is left out.  \<open>npos\<close> and null pointers are
  \<^term>\<open>None\<close>.  Operations return the new state.  Failing operations return an option or the
  reply code of the engine.  Permissions are 16-bit words; 64-bit offsets and sizes of transfers are
  integers reduced by \<open>u64\<close> after every operation, and the invariants show that nothing wraps
  around.  A mutex makes an operation atomic; one reading of the clock stands for those of one
  operation.  Loops are structural recursion or \<open>function\<close>s with a termination proof; the
  merge of the parts ends for every finite sequence of results of the readers, by a lexicographic
  measure on parts and results.  No definition uses fuel.

  \<^bold>\<open>What stands outside.\<close>  libfilezilla and fzssh are not part of the repository.  What a
  handler learns from them is an argument: \<open>libfz\<close> for functions, \<open>library_env\<close> for the
  results of writers, buffer pool, clock and channels during one handler.  The step relation of the
  transfers states what is assumed of their order: requests of one segment are answered in order, a
  channel that was told to wait delivers nothing until it is released, what it delivers are bytes of
  the remote file, and only who waits is called back.
  An FTP session takes its libraries from an \<open>ftp_env\<close>, which may differ from event to event.  Other
  sessions act between its events: they may change the caches and the lock table, but not the locks
  of this one.  The properties of replies assume a server that sends no preliminary (1xx) replies,
  which no command modelled here provokes by RFC 959; \<open>Ftp_Props.preliminary_reply_out_of_step\<close> shows what
  happens otherwise.

  \<^bold>\<open>Not modelled.\<close>  Log messages and translated texts; of the FTP connection the logon, listings and transfers with their data connection,
  connecting again and the questions to the user, so that a session starts logged on and ends when the
  connection is lost; the SFTP operations other than segmented transfers; the HTTP and Storj control
  sockets and the engine's threads; the storage of options in a file and their cleanup
  (\<open>XmlOptions\<close> in \<open>commonui\<close>); size formatting; socket layers and proxies;
  the user interface; vendored code (pugixml) and platform glue.
\<close>

end
